(* ===== verification/Faktor_Prelude.thy ===== *)
theory Faktor_Prelude
  imports Main "HOL-Library.Word"
begin

text \<open>
  The prelude of the development: what the Rust sources use of the language and its
  standard library, with the lemmas every component shares.

  \<^item> \<open>Result\<close> is a sum: \<open>Err e\<close> is \<open>Inl e\<close>, \<open>Ok v\<close> is \<open>Inr v\<close>;
  \<^item> fixed-width integers are \<^typ>\<open>int\<close> or \<^typ>\<open>nat\<close> with the width written out: a checked
    operation returns \<^term>\<open>None\<close> outside the range, a saturating one clamps to it, a cast wraps;
  \<^item> a Rust \<open>str\<close> is the list of its UTF-8 bytes, a \<^typ>\<open>string\<close>; the byte-level predicates below
    say what they compute on multi-byte text;
  \<^item> \<open>split\<close>, \<open>strip_prefix\<close>, \<open>starts_with\<close>, \<open>trim_end_matches\<close> and decimal formatting are defined
    as the standard library documents them.
\<close>

named_theorems faktor_defs \<open>definitions unfolded when a concrete input is evaluated\<close>
named_theorems width_simps \<open>the numeric bounds of the machine widths\<close>

section \<open>Results\<close>

abbreviation Ok :: "'a \<Rightarrow> 'e + 'a" where
  "Ok \<equiv> Inr"

abbreviation Err :: "'e \<Rightarrow> 'e + 'a" where
  "Err \<equiv> Inl"

definition is_ok :: "'e + 'a \<Rightarrow> bool" where
  "is_ok r = (case r of Inl _ \<Rightarrow> False | Inr _ \<Rightarrow> True)"

definition bind_result :: "'e + 'a \<Rightarrow> ('a \<Rightarrow> 'e + 'b) \<Rightarrow> 'e + 'b" where
  "bind_result r f = (case r of Inl e \<Rightarrow> Inl e | Inr v \<Rightarrow> f v)"

definition ok_or :: "'e \<Rightarrow> 'a option \<Rightarrow> 'e + 'a" where
  "ok_or e x = (case x of None \<Rightarrow> Inl e | Some v \<Rightarrow> Inr v)"

lemma is_ok_simps [simp]: "is_ok (Inr v)" "\<not> is_ok (Inl e)"
  by (simp_all add: is_ok_def)

lemma is_ok_iff: "is_ok r \<longleftrightarrow> (\<exists>v. r = Inr v)"
  by (cases r) auto

lemma bind_result_simps [simp]:
  "bind_result (Inl e) f = Inl e" "bind_result (Inr v) f = f v"
  by (simp_all add: bind_result_def)

lemma bind_result_eq_Inr [simp]:
  "bind_result r f = Inr w \<longleftrightarrow> (\<exists>v. r = Inr v \<and> f v = Inr w)"
  by (cases r) auto

lemma case_refuse_eq_Inr:
  "(case r of Inl k \<Rightarrow> Inl (f k) | Inr v \<Rightarrow> g v) = Inr w \<longleftrightarrow> (\<exists>v. r = Inr v \<and> g v = Inr w)"
  by (cases r) auto

lemma ok_or_simps [simp]: "ok_or e None = Inl e" "ok_or e (Some v) = Inr v"
  by (simp_all add: ok_or_def)

lemma ok_or_eq_Inr [simp]: "ok_or e x = Inr v \<longleftrightarrow> x = Some v"
  by (cases x) auto

section \<open>Machine integers\<close>

definition i64_min :: int where "i64_min = - 9223372036854775808"
definition i64_max :: int where "i64_max = 9223372036854775807"
definition i128_min :: int where "i128_min = - 170141183460469231731687303715884105728"
definition i128_max :: int where "i128_max = 170141183460469231731687303715884105727"
definition u32_max :: nat where "u32_max = 4294967295"
definition u64_max :: nat where "u64_max = 18446744073709551615"

lemmas width_defs [width_simps] =
  i64_min_def i64_max_def i128_min_def i128_max_def u32_max_def u64_max_def

definition in_i64 :: "int \<Rightarrow> bool" where
  "in_i64 x \<longleftrightarrow> i64_min \<le> x \<and> x \<le> i64_max"

definition in_i128 :: "int \<Rightarrow> bool" where
  "in_i128 x \<longleftrightarrow> i128_min \<le> x \<and> x \<le> i128_max"

definition try_i64 :: "int \<Rightarrow> int option" where
  "try_i64 x = (if in_i64 x then Some x else None)"

definition try_i128 :: "int \<Rightarrow> int option" where
  "try_i128 x = (if in_i128 x then Some x else None)"

definition try_u64 :: "nat \<Rightarrow> nat option" where
  "try_u64 n = (if n \<le> u64_max then Some n else None)"

text \<open>Saturating arithmetic clamps to the range of the type.\<close>

definition sat_i64 :: "int \<Rightarrow> int" where
  "sat_i64 x = max i64_min (min i64_max x)"

definition sat_u32 :: "nat \<Rightarrow> nat" where
  "sat_u32 n = min u32_max n"

definition sat_u64 :: "nat \<Rightarrow> nat" where
  "sat_u64 n = min u64_max n"

text \<open>The \<open>as i64\<close> cast of a \<open>u64\<close> reinterprets the bits: values from $2^{63}$ on are negative.\<close>

definition u64_as_i64 :: "nat \<Rightarrow> int" where
  "u64_as_i64 n = (if int n \<le> i64_max then int n else int n - 18446744073709551616)"

text \<open>Evaluation compares with the bounds as integers, since a natural number is counted out.\<close>

lemma try_u64_code [code]: "try_u64 n = (if int n \<le> 18446744073709551615 then Some n else None)"
  by (auto simp: try_u64_def width_simps)

lemma sat_u64_code [code]: "sat_u64 n = (if int n \<le> 18446744073709551615 then n else u64_max)"
  by (auto simp: sat_u64_def width_simps)

lemma sat_u32_code [code]: "sat_u32 n = (if int n \<le> 4294967295 then n else u32_max)"
  by (auto simp: sat_u32_def width_simps)

lemma try_i64_Some [simp]: "try_i64 x = Some y \<longleftrightarrow> y = x \<and> in_i64 x"
  by (auto simp: try_i64_def)

lemma try_i128_Some [simp]: "try_i128 x = Some y \<longleftrightarrow> y = x \<and> in_i128 x"
  by (auto simp: try_i128_def)

lemma try_u64_Some [simp]: "try_u64 n = Some m \<longleftrightarrow> m = n \<and> n \<le> u64_max"
  by (auto simp: try_u64_def)

lemma sat_i64_in_range: "in_i64 (sat_i64 x)"
  by (simp add: in_i64_def sat_i64_def width_simps)

lemma sat_i64_id [simp]: "in_i64 x \<Longrightarrow> sat_i64 x = x"
  by (simp add: in_i64_def sat_i64_def)

lemma sat_i64_mono: "x \<le> y \<Longrightarrow> sat_i64 x \<le> sat_i64 y"
  by (simp add: sat_i64_def)

section \<open>Lists\<close>

definition starts_with :: "'a list \<Rightarrow> 'a list \<Rightarrow> bool" where
  "starts_with s p \<longleftrightarrow> take (length p) s = p"

definition ends_with :: "'a list \<Rightarrow> 'a list \<Rightarrow> bool" where
  "ends_with s p \<longleftrightarrow> starts_with (rev s) (rev p)"

definition strip_prefix :: "'a list \<Rightarrow> 'a list \<Rightarrow> 'a list option" where
  "strip_prefix s p = (if starts_with s p then Some (drop (length p) s) else None)"

definition strip_suffix :: "'a list \<Rightarrow> 'a list \<Rightarrow> 'a list option" where
  "strip_suffix s p = map_option rev (strip_prefix (rev s) (rev p))"

lemma starts_with_iff: "starts_with s p \<longleftrightarrow> (\<exists>r. s = p @ r)"
  by (metis append_eq_conv_conj starts_with_def)

lemma starts_with_Nil [simp]: "starts_with s []"
  by (simp add: starts_with_def)

lemma starts_with_append [simp]: "starts_with (p @ r) p"
  by (simp add: starts_with_def)

lemma starts_with_Cons [simp]:
  "starts_with (x # s) (y # p) \<longleftrightarrow> x = y \<and> starts_with s p"
  by (auto simp: starts_with_def)

lemma starts_with_Nil_Cons [simp]: "\<not> starts_with [] (y # p)"
  by (simp add: starts_with_def)

lemma ends_with_iff: "ends_with s p \<longleftrightarrow> (\<exists>r. s = r @ p)"
  by (auto simp: ends_with_def starts_with_iff) (metis rev_append rev_rev_ident)

lemma strip_prefix_Some [simp]: "strip_prefix s p = Some r \<longleftrightarrow> s = p @ r"
  by (auto simp: strip_prefix_def starts_with_iff)

lemma strip_prefix_append [simp]: "strip_prefix (p @ r) p = Some r"
  by simp

lemma strip_suffix_Some [simp]: "strip_suffix s p = Some r \<longleftrightarrow> s = r @ p"
  by (auto simp: strip_suffix_def) (metis rev_append rev_rev_ident)

lemma strip_suffix_append [simp]: "strip_suffix (r @ p) p = Some r"
  by simp

lemma strip_suffix_None: "strip_suffix s p = None \<longleftrightarrow> \<not> ends_with s p"
  by (metis ends_with_iff not_None_eq strip_suffix_Some)

section \<open>Splitting and joining text at a separator\<close>

fun split_on :: "'a \<Rightarrow> 'a list \<Rightarrow> 'a list list" where
  "split_on c [] = [[]]"
| "split_on c (x # xs) =
     (if x = c then [] # split_on c xs
      else (case split_on c xs of [] \<Rightarrow> [[x]] | y # ys \<Rightarrow> (x # y) # ys))"

fun join_with :: "'a \<Rightarrow> 'a list list \<Rightarrow> 'a list" where
  "join_with c [] = []"
| "join_with c [x] = x"
| "join_with c (x # y # ys) = x @ c # join_with c (y # ys)"

fun split_once_at :: "'a \<Rightarrow> 'a list \<Rightarrow> ('a list \<times> 'a list) option" where
  "split_once_at c [] = None"
| "split_once_at c (x # xs) =
     (if x = c then Some ([], xs)
      else map_option (\<lambda>(a, b). (x # a, b)) (split_once_at c xs))"

lemma split_on_not_Nil [simp]: "split_on c s \<noteq> []"
  by (cases s) (auto split: list.splits)

lemma join_with_Cons: "xs \<noteq> [] \<Longrightarrow> join_with c (x # xs) = x @ c # join_with c xs"
  by (cases xs) auto

lemma join_with_head: "join_with c ((x # y) # ys) = x # join_with c (y # ys)"
  by (cases ys) auto

lemma join_split [simp]: "join_with c (split_on c s) = s"
  by (induction s) (auto simp: join_with_Cons join_with_head split: list.splits)

lemma split_on_no_sep: "p \<in> set (split_on c s) \<Longrightarrow> c \<notin> set p"
  by (induction s arbitrary: p) (fastforce split: list.splits if_splits)+

lemma split_on_single: "c \<notin> set s \<Longrightarrow> split_on c s = [s]"
  by (induction s) auto

lemma split_on_append_sep: "c \<notin> set x \<Longrightarrow> split_on c (x @ c # s) = x # split_on c s"
  by (induction x) auto

lemma split_join:
  "xs \<noteq> [] \<Longrightarrow> (\<And>p. p \<in> set xs \<Longrightarrow> c \<notin> set p) \<Longrightarrow> split_on c (join_with c xs) = xs"
proof (induction xs rule: join_with.induct)
  case (3 c x y ys)
  then show ?case by (simp add: split_on_append_sep)
qed (auto simp: split_on_single)

lemma split_on_inj: "split_on c s = split_on c t \<Longrightarrow> s = t"
  by (metis join_split)

lemma split_once_at_None [simp]: "split_once_at c s = None \<longleftrightarrow> c \<notin> set s"
  by (induction s) auto

lemma split_once_at_append: "c \<notin> set a \<Longrightarrow> split_once_at c (a @ c # b) = Some (a, b)"
  by (induction a) auto

lemma split_once_at_Some: "split_once_at c s = Some (a, b) \<longleftrightarrow> s = a @ c # b \<and> c \<notin> set a"
proof
  show "split_once_at c s = Some (a, b) \<Longrightarrow> s = a @ c # b \<and> c \<notin> set a"
    by (induction s arbitrary: a) (auto split: if_splits)
qed (auto simp: split_once_at_append)

lemma split_on_append: "split_on c (s @ c # t) = split_on c s @ split_on c t"
proof (induction s)
  case (Cons x s)
  then show ?case by (cases "split_on c s") (auto simp: neq_Nil_conv)
qed simp

section \<open>Bytes of a text\<close>

definition byte_of :: "char \<Rightarrow> nat" where
  "byte_of c = of_char c"

definition is_ascii_digit :: "char \<Rightarrow> bool" where
  "is_ascii_digit c \<longleftrightarrow> 48 \<le> byte_of c \<and> byte_of c \<le> 57"

definition is_ascii_hexdigit :: "char \<Rightarrow> bool" where
  "is_ascii_hexdigit c \<longleftrightarrow> is_ascii_digit c \<or> (65 \<le> byte_of c \<and> byte_of c \<le> 70)
     \<or> (97 \<le> byte_of c \<and> byte_of c \<le> 102)"

definition is_ascii_uppercase :: "char \<Rightarrow> bool" where
  "is_ascii_uppercase c \<longleftrightarrow> 65 \<le> byte_of c \<and> byte_of c \<le> 90"

definition is_ascii_graphic :: "char \<Rightarrow> bool" where
  "is_ascii_graphic c \<longleftrightarrow> 33 \<le> byte_of c \<and> byte_of c \<le> 126"

definition is_ascii_control :: "char \<Rightarrow> bool" where
  "is_ascii_control c \<longleftrightarrow> byte_of c < 32 \<or> byte_of c = 127"

definition to_ascii_uppercase :: "char \<Rightarrow> char" where
  "to_ascii_uppercase c =
     (if 97 \<le> byte_of c \<and> byte_of c \<le> 122 then char_of (byte_of c - 32) else c)"

definition to_ascii_lowercase :: "char \<Rightarrow> char" where
  "to_ascii_lowercase c =
     (if 65 \<le> byte_of c \<and> byte_of c \<le> 90 then char_of (byte_of c + 32) else c)"

text \<open>
  \<open>char::is_control\<close> holds for U+0000 to U+001F and U+007F to U+009F. In UTF-8 the first range
  and U+007F are single bytes, and U+0080 to U+009F are exactly the two-byte sequences with lead
  byte C2 and a second byte below A0; C2 occurs in valid UTF-8 only as such a lead byte.
\<close>

fun has_control_char :: "string \<Rightarrow> bool" where
  "has_control_char [] = False"
| "has_control_char [c] = is_ascii_control c"
| "has_control_char (c # d # s) =
     (is_ascii_control c \<or> (byte_of c = 194 \<and> byte_of d < 160) \<or> has_control_char (d # s))"

text \<open>\<open>str::chars().count()\<close>: the bytes that are not UTF-8 continuation bytes (80 to BF).\<close>

definition char_count :: "string \<Rightarrow> nat" where
  "char_count s = length (filter (\<lambda>c. \<not> (128 \<le> byte_of c \<and> byte_of c < 192)) s)"

text \<open>
  \<open>char::is_whitespace\<close>, the Unicode property White\_Space. In UTF-8 these characters are the bytes
  09 to 0D and 20, the pairs C2 85 and C2 A0, and the triples E1 9A 80, E2 80 80 to E2 80 8A,
  E2 80 A8, E2 80 A9, E2 80 AF, E2 81 9F and E3 80 80.
\<close>

definition ws1 :: "nat \<Rightarrow> bool" where
  "ws1 a \<longleftrightarrow> (9 \<le> a \<and> a \<le> 13) \<or> a = 32"

definition ws2 :: "nat \<Rightarrow> nat \<Rightarrow> bool" where
  "ws2 a b \<longleftrightarrow> a = 194 \<and> (b = 133 \<or> b = 160)"

definition ws3 :: "nat \<Rightarrow> nat \<Rightarrow> nat \<Rightarrow> bool" where
  "ws3 a b c \<longleftrightarrow>
     (a = 225 \<and> b = 154 \<and> c = 128) \<or>
     (a = 226 \<and> b = 128 \<and> ((128 \<le> c \<and> c \<le> 138) \<or> c = 168 \<or> c = 169 \<or> c = 175)) \<or>
     (a = 226 \<and> b = 129 \<and> c = 159) \<or> (a = 227 \<and> b = 128 \<and> c = 128)"

text \<open>
  \<open>str::trim\<close> drops the white space characters at both ends. A valid text ends in a white space
  character exactly if its last bytes are one of these sequences.
\<close>

fun trim_start :: "string \<Rightarrow> string" where
  "trim_start (a # b # c # s) =
     (if ws1 (byte_of a) then trim_start (b # c # s)
      else if ws2 (byte_of a) (byte_of b) then trim_start (c # s)
      else if ws3 (byte_of a) (byte_of b) (byte_of c) then trim_start s
      else a # b # c # s)"
| "trim_start [a, b] =
     (if ws1 (byte_of a) then trim_start [b] else if ws2 (byte_of a) (byte_of b) then [] else [a, b])"
| "trim_start [a] = (if ws1 (byte_of a) then [] else [a])"
| "trim_start [] = []"

fun trim_end_rev :: "string \<Rightarrow> string" where
  "trim_end_rev (c # b # a # s) =
     (if ws1 (byte_of c) then trim_end_rev (b # a # s)
      else if ws2 (byte_of b) (byte_of c) then trim_end_rev (a # s)
      else if ws3 (byte_of a) (byte_of b) (byte_of c) then trim_end_rev s
      else c # b # a # s)"
| "trim_end_rev [b, a] =
     (if ws1 (byte_of b) then trim_end_rev [a] else if ws2 (byte_of a) (byte_of b) then [] else [b, a])"
| "trim_end_rev [a] = (if ws1 (byte_of a) then [] else [a])"
| "trim_end_rev [] = []"

definition trim :: "string \<Rightarrow> string" where
  "trim s = rev (trim_end_rev (rev (trim_start s)))"

lemma byte_of_less [simp]: "byte_of c < 256"
  by (simp add: byte_of_def)

lemma byte_of_inj [simp]: "byte_of c = byte_of d \<longleftrightarrow> c = d"
  by (simp add: byte_of_def)

lemma has_control_char_member: "c \<in> set s \<Longrightarrow> is_ascii_control c \<Longrightarrow> has_control_char s"
  by (induction s rule: has_control_char.induct) auto

section \<open>Decimal text\<close>

definition digit_char :: "nat \<Rightarrow> char" where
  "digit_char d = char_of (48 + d)"

definition digit_value :: "char \<Rightarrow> nat" where
  "digit_value c = byte_of c - 48"

fun dec_text :: "nat \<Rightarrow> string" where
  "dec_text n = (if n < 10 then [digit_char n] else dec_text (n div 10) @ [digit_char (n mod 10)])"

declare dec_text.simps [simp del]

definition dec_value :: "string \<Rightarrow> nat" where
  "dec_value s = foldl (\<lambda>acc c. acc * 10 + digit_value c) 0 s"

lemma byte_of_digit_char [simp]: "d < 10 \<Longrightarrow> byte_of (digit_char d) = 48 + d"
  by (simp add: byte_of_def digit_char_def)

lemma is_ascii_digit_digit_char [simp]: "d < 10 \<Longrightarrow> is_ascii_digit (digit_char d)"
  by (simp add: is_ascii_digit_def)

lemma digit_value_digit_char [simp]: "d < 10 \<Longrightarrow> digit_value (digit_char d) = d"
  by (simp add: digit_value_def)

lemma dec_text_digits: "list_all is_ascii_digit (dec_text n)"
proof (induction n rule: dec_text.induct)
  case (1 n)
  then show ?case by (subst dec_text.simps) (auto simp: list_all_iff)
qed

lemma dec_text_not_Nil [simp]: "dec_text n \<noteq> []"
  by (subst dec_text.simps) auto

lemma dec_value_snoc: "dec_value (s @ [c]) = dec_value s * 10 + digit_value c"
  by (simp add: dec_value_def)

lemma dec_value_dec_text [simp]: "dec_value (dec_text n) = n"
proof (induction n rule: dec_text.induct)
  case (1 n)
  show ?case
  proof (cases "n < 10")
    case True
    then show ?thesis by (subst dec_text.simps) (simp add: dec_value_def)
  next
    case False
    with "1.IH" show ?thesis by (subst dec_text.simps) (simp add: dec_value_snoc)
  qed
qed

section \<open>Loops over fallible steps\<close>

text \<open>
  \<open>for x in xs { f(x)?; }\<close>, \<open>iter().try_fold(..)\<close> and a guard that returns early. A loop that
  only checks stops at the first refusal.
\<close>

definition and_then :: "'e + unit \<Rightarrow> 'e + 'b \<Rightarrow> 'e + 'b" where
  "and_then r k = bind_result r (\<lambda>_. k)"

definition refuse_if :: "bool \<Rightarrow> 'e \<Rightarrow> 'e + unit" where
  "refuse_if c e = (if c then Inl e else Inr ())"

definition map_err :: "('e \<Rightarrow> 'f) \<Rightarrow> 'e + 'a \<Rightarrow> 'f + 'a" where
  "map_err f r = (case r of Inl e \<Rightarrow> Inl (f e) | Inr v \<Rightarrow> Inr v)"

fun try_each :: "('a \<Rightarrow> 'e + unit) \<Rightarrow> 'a list \<Rightarrow> 'e + unit" where
  "try_each f [] = Inr ()"
| "try_each f (x # xs) = and_then (f x) (try_each f xs)"

fun try_fold :: "('b \<Rightarrow> 'a \<Rightarrow> 'e + 'b) \<Rightarrow> 'b \<Rightarrow> 'a list \<Rightarrow> 'e + 'b" where
  "try_fold f acc [] = Inr acc"
| "try_fold f acc (x # xs) = bind_result (f acc x) (\<lambda>acc. try_fold f acc xs)"

lemma and_then_simps [simp]: "and_then (Inl e) k = Inl e" "and_then (Inr u) k = k"
  by (simp_all add: and_then_def)

lemma and_then_eq_Inr [simp]: "and_then r k = Inr w \<longleftrightarrow> r = Inr () \<and> k = Inr w"
  by (cases r) auto

lemma refuse_if_eq_Inr [simp]: "refuse_if c e = Inr u \<longleftrightarrow> \<not> c"
  by (simp add: refuse_if_def)

lemma refuse_if_simps [simp]: "refuse_if True e = Inl e" "refuse_if False e = Inr ()"
  by (simp_all add: refuse_if_def)

lemma map_err_simps [simp]: "map_err f (Inl e) = Inl (f e)" "map_err f (Inr v) = Inr v"
  by (simp_all add: map_err_def)

lemma map_err_eq_Inr [simp]: "map_err f r = Inr v \<longleftrightarrow> r = Inr v"
  by (cases r) auto

lemma try_each_eq_Inr [simp]: "try_each f xs = Inr u \<longleftrightarrow> (\<forall>x\<in>set xs. f x = Inr ())"
  by (induction xs) auto

lemma try_fold_append:
  "try_fold f acc (xs @ ys) = bind_result (try_fold f acc xs) (\<lambda>acc. try_fold f acc ys)"
proof (induction xs arbitrary: acc)
  case (Cons x xs)
  then show ?case by (cases "f acc x") auto
qed simp

text \<open>An invariant of every step that succeeds is an invariant of the loop.\<close>

lemma try_fold_invariant:
  assumes "try_fold f acc xs = Inr r" and "P acc"
    and "\<And>a x a'. P a \<Longrightarrow> x \<in> set xs \<Longrightarrow> f a x = Inr a' \<Longrightarrow> P a'"
  shows "P r"
  using assms
proof (induction xs arbitrary: acc)
  case (Cons x xs)
  from Cons.prems(1) obtain a where a: "f acc x = Inr a" "try_fold f a xs = Inr r" by auto
  have "P a" by (rule Cons.prems(3) [OF Cons.prems(2) _ a(1)]) simp
  with a(2) show ?case by (rule Cons.IH) (rule Cons.prems(3), simp_all)
qed simp

text \<open>A step that keeps the invariant and never fails with an error keeps the loop from failing with it.\<close>

lemma try_fold_avoids:
  assumes "P acc"
    and "\<And>a x a'. P a \<Longrightarrow> x \<in> set xs \<Longrightarrow> f a x = Inr a' \<Longrightarrow> P a'"
    and "\<And>a x. P a \<Longrightarrow> x \<in> set xs \<Longrightarrow> f a x \<noteq> Inl e"
  shows "try_fold f acc xs \<noteq> Inl e"
  using assms
proof (induction xs arbitrary: acc)
  case (Cons x xs)
  show ?case
  proof (cases "f acc x")
    case (Inl d)
    with Cons.prems(3) [OF Cons.prems(1), of x] show ?thesis by simp
  next
    case (Inr a)
    have "P a" by (rule Cons.prems(2) [OF Cons.prems(1) _ Inr]) simp
    then have "try_fold f a xs \<noteq> Inl e"
      by (rule Cons.IH) (rule Cons.prems(2), simp_all, rule Cons.prems(3), simp_all)
    with Inr show ?thesis by simp
  qed
qed simp

lemma bind_result_eq_Inl: "bind_result r f = Inl e \<longleftrightarrow> r = Inl e \<or> (\<exists>v. r = Inr v \<and> f v = Inl e)"
  by (cases r) auto

lemma map_err_eq_Inl: "map_err f r = Inl e \<longleftrightarrow> (\<exists>d. r = Inl d \<and> f d = e)"
  by (cases r) auto

end
