(* ===== verification/Faktor_Interfaces.thy ===== *)
theory Faktor_Interfaces
  imports Faktor_Prelude
begin

text \<open>
  The interfaces several components of the program share, as locales: closed vocabularies of
  durable tags, state machines given by a table of legal edges, and validated newtypes. Each
  locale states what the client relies on and proves the client's lemmas once; the component
  theories interpret them on the definitions that model the code.
\<close>

section \<open>Durable tag vocabularies\<close>

text \<open>
  Many enums of the program have a stable text tag and a parser that refuses every other text.
  The contract: parsing a printed tag gives the value back, and a text that parses is the tag of
  the value it parses to.
\<close>

locale tag_codec =
  fixes tag :: "'a \<Rightarrow> string"
    and parse :: "string \<Rightarrow> 'a option"
  assumes parse_tag: "parse (tag x) = Some x"
    and tag_parse: "parse s = Some x \<Longrightarrow> tag x = s"
begin

lemma tag_inj: "tag x = tag y \<Longrightarrow> x = y"
  by (metis option.inject parse_tag)

lemma parse_Some_iff: "parse s = Some x \<longleftrightarrow> s = tag x"
  using parse_tag tag_parse by blast

lemma parse_None_iff: "parse s = None \<longleftrightarrow> s \<notin> range tag"
proof
  assume "s \<notin> range tag"
  then show "parse s = None"
    by (metis not_None_eq rangeI tag_parse)
qed (auto simp: parse_tag)

end

text \<open>
  A vocabulary parsed by scanning the table of all values. The table must list every value and
  the tags must differ; then the scan is a codec.
\<close>

definition scan_table :: "('a \<Rightarrow> string) \<Rightarrow> 'a list \<Rightarrow> string \<Rightarrow> 'a option" where
  "scan_table tag all s = find (\<lambda>x. tag x = s) all"

locale tag_table =
  fixes tag :: "'a \<Rightarrow> string"
    and all :: "'a list"
  assumes all_complete: "x \<in> set all"
    and tags_distinct: "distinct (map tag all)"
begin

lemma table_tag_inj: "tag x = tag y \<Longrightarrow> x = y"
  using tags_distinct all_complete by (metis distinct_map inj_onD)

lemma scan_table_iff: "scan_table tag all s = Some x \<longleftrightarrow> tag x = s"
proof
  show "scan_table tag all s = Some x \<Longrightarrow> tag x = s"
    by (auto simp: scan_table_def find_Some_iff)
next
  assume "tag x = s"
  then have "find (\<lambda>y. tag y = s) all \<noteq> None"
    using all_complete [of x] by (auto simp: find_None_iff)
  then obtain y where y: "find (\<lambda>y. tag y = s) all = Some y" by blast
  then have "tag y = s" by (auto simp: find_Some_iff)
  with \<open>tag x = s\<close> have "y = x" by (auto intro: table_tag_inj)
  with y show "scan_table tag all s = Some x" by (simp add: scan_table_def)
qed

end

sublocale tag_table \<subseteq> tag_codec tag "scan_table tag all"
  by unfold_locales (simp_all add: scan_table_iff)

section \<open>State machines given by an edge table\<close>

text \<open>
  \<open>allowed s\<close> lists the states one step may lead to, \<open>legal\<close> adds the idempotent self step, and
  \<open>terminal\<close> marks the states the code treats as final. The runs of the machine are the
  reflexive transitive closure of \<open>legal\<close>.
\<close>

locale edge_machine =
  fixes allowed :: "'s \<Rightarrow> 's list"
    and legal :: "'s \<Rightarrow> 's \<Rightarrow> bool"
    and terminal :: "'s \<Rightarrow> bool"
  assumes legal_iff: "legal s t \<longleftrightarrow> s = t \<or> t \<in> set (allowed s)"
    and terminal_no_edge: "terminal s \<longleftrightarrow> allowed s = []"
begin

lemma legal_refl: "legal s s"
  by (simp add: legal_iff)

lemma terminal_absorbing:
  assumes "legal\<^sup>*\<^sup>* s t" and "terminal s"
  shows "t = s"
  using assms by (induction rule: rtranclp_induct) (auto simp: legal_iff terminal_no_edge)

text \<open>A state no edge leads to is reached only by starting in it.\<close>

lemma no_incoming_unreachable:
  assumes "legal\<^sup>*\<^sup>* s t" and "\<And>u. t \<notin> set (allowed u)"
  shows "t = s"
  using assms by (cases rule: rtranclp.cases) (auto simp: legal_iff dest: rtranclp_induct)

text \<open>A run can always be extended along a listed edge.\<close>

lemma reach_edge: "legal\<^sup>*\<^sup>* s t \<Longrightarrow> u \<in> set (allowed t) \<Longrightarrow> legal\<^sup>*\<^sup>* s u"
  by (simp add: legal_iff rtranclp.rtrancl_into_rtrancl)

lemma edge_reach: "t \<in> set (allowed s) \<Longrightarrow> legal\<^sup>*\<^sup>* s t"
  by (simp add: legal_iff r_into_rtranclp)

text \<open>A property of states closed under the listed edges holds along every run.\<close>

lemma run_invariant:
  assumes "legal\<^sup>*\<^sup>* s t" and "P s" and "\<And>u v. P u \<Longrightarrow> v \<in> set (allowed u) \<Longrightarrow> P v"
  shows "P t"
  using assms(1,2) by (induction rule: rtranclp_induct) (use assms(3) in \<open>auto simp: legal_iff\<close>)

end

section \<open>Validated newtypes\<close>

text \<open>
  A newtype over an integer whose only constructor checks a bound: \<open>make\<close> refuses a value outside
  \<open>valid\<close> and otherwise wraps it, \<open>raw\<close> reads it back.
\<close>

locale validated =
  fixes make :: "'v \<Rightarrow> 'e + 'a"
    and raw :: "'a \<Rightarrow> 'v"
    and valid :: "'v \<Rightarrow> bool"
  assumes make_ok_iff: "is_ok (make v) \<longleftrightarrow> valid v"
    and raw_make: "make v = Inr a \<Longrightarrow> raw a = v"
begin

lemma make_valid: "make v = Inr a \<Longrightarrow> valid v \<and> raw a = v"
  using make_ok_iff raw_make by (metis is_ok_simps(1))

lemma make_refuses: "\<not> valid v \<Longrightarrow> \<exists>e. make v = Inl e"
  using make_ok_iff by (metis is_ok_iff sum.exhaust)

lemma make_raw: "make v = Inr a \<Longrightarrow> make (raw a) = Inr a"
  using raw_make by metis

end

end
