(* ===== verification/Exact_Money.thy ===== *)
theory Exact_Money
  imports Faktor_Interfaces "HOL-Library.Signed_Division"
begin

text \<open>
  Exact money, rates and quantities with deterministic rounding
  (\<open>crates/supply-core/src/money.rs\<close>). An \<open>i64\<close> or \<open>i128\<close> is an \<^typ>\<open>int\<close>; checked operations
  return the typed overflow error outside the range, the few unchecked \<open>i128\<close> operations wrap as
  in a release build, and \<open>/\<close> and \<open>%\<close> on signed integers are the truncating \<open>sdiv\<close> and \<open>smod\<close>.
  The error variant that wraps an approval error is not modelled: no operation of this file
  returns it.
\<close>

section \<open>Bounds and errors\<close>

definition MICROS_PER_UNIT :: int where "MICROS_PER_UNIT = 1000000"
definition MAX_MONEY_MICROS :: int where "MAX_MONEY_MICROS = 1000000000000000000"
definition MAX_SCALED_QUANTITY :: int where "MAX_SCALED_QUANTITY = 1000000000000000000"
definition MAX_UNITS :: nat where "MAX_UNITS = 1000000000000"
definition MAX_PPM :: int where "MAX_PPM = 1000000"

lemmas money_bounds [faktor_defs] =
  MICROS_PER_UNIT_def MAX_MONEY_MICROS_def MAX_SCALED_QUANTITY_def MAX_UNITS_def MAX_PPM_def

datatype currency = Currency (currency_code: string)

datatype exact_error =
    InvalidCurrency
  | OutOfBounds string string
  | TooManyFractionalDigits
  | Exact_Overflow
  | DivisionByZero
  | Negative_Value string
  | CurrencyMismatch currency currency

definition int_text :: "int \<Rightarrow> string" where
  "int_text i = (if i < 0 then ''-'' @ dec_text (nat (- i)) else dec_text (nat i))"

definition currency_new :: "string \<Rightarrow> exact_error + currency" where
  "currency_new code =
     (if length code \<noteq> 3 \<or> \<not> list_all is_ascii_uppercase code then Inl InvalidCurrency
      else Inr (Currency code))"

section \<open>Rounding\<close>

definition sat_i128 :: "int \<Rightarrow> int" where
  "sat_i128 x = max i128_min (min i128_max x)"

definition wrap_i128 :: "int \<Rightarrow> int" where
  "wrap_i128 x = (x - i128_min) mod 2 ^ 128 + i128_min"

definition div_round_half_away :: "int \<Rightarrow> int \<Rightarrow> int" where
  "div_round_half_away n d =
     (let (sign, n_abs) = (if n < 0 then (- 1, wrap_i128 (- n)) else (1, n));
          (d_sign, d_abs) = (if d < 0 then (- 1, wrap_i128 (- d)) else (1, d));
          quotient = n_abs sdiv d_abs;
          remainder = n_abs smod d_abs;
          rounded = (if sat_i128 (remainder * 2) \<ge> d_abs then wrap_i128 (quotient + 1) else quotient)
      in wrap_i128 (sign * d_sign * rounded))"

definition div_round_up :: "int \<Rightarrow> int \<Rightarrow> int" where
  "div_round_up n d =
     (if n \<ge> 0 then
        if d > 0 then wrap_i128 (wrap_i128 (n + d) - 1) sdiv d else n sdiv d
      else if d > 0 then n sdiv d
      else wrap_i128 (wrap_i128 (n + d) + 1) sdiv d)"

definition mul_div_round_half_up :: "int \<Rightarrow> int \<Rightarrow> int \<Rightarrow> int option" where
  "mul_div_round_half_up a b d =
     (if d = 0 then None
      else map_option (\<lambda>product. div_round_half_away product d) (try_i128 (a * b)))"

definition mul_div_round_up :: "int \<Rightarrow> int \<Rightarrow> int \<Rightarrow> int option" where
  "mul_div_round_up a b d =
     (if d = 0 then None
      else map_option (\<lambda>product. div_round_up product d) (try_i128 (a * b)))"

section \<open>Rates, quantities and units\<close>

datatype rate = Rate (ppm: int)

definition rate_new :: "int \<Rightarrow> exact_error + rate" where
  "rate_new p =
     (if \<not> (0 \<le> p \<and> p \<le> MAX_PPM) then Inl (OutOfBounds ''rate'' (int_text p @ '' ppm'')) else Inr (Rate p))"

definition rate_complement :: "rate \<Rightarrow> rate" where
  "rate_complement r = Rate (MAX_PPM - ppm r)"

definition pad6 :: "nat \<Rightarrow> string" where
  "pad6 n = replicate (6 - length (dec_text n)) (CHR ''0'') @ dec_text n"

definition rate_as_fraction :: "rate \<Rightarrow> string" where
  "rate_as_fraction r = int_text (ppm r sdiv MAX_PPM) @ ''.'' @ pad6 (nat (ppm r smod MAX_PPM))"

datatype scaled_quantity = ScaledQuantity (q_micros: int)

definition quantity_new :: "int \<Rightarrow> exact_error + scaled_quantity" where
  "quantity_new m =
     (if \<bar>m\<bar> > MAX_SCALED_QUANTITY then Inl (OutOfBounds ''scaled quantity'' (int_text m @ '' micros''))
      else Inr (ScaledQuantity m))"

definition quantity_non_negative :: "string \<Rightarrow> scaled_quantity \<Rightarrow> exact_error + scaled_quantity" where
  "quantity_non_negative what q = (if q_micros q < 0 then Inl (Negative_Value what) else Inr q)"

datatype units = Units (units_get: nat)

definition units_new :: "nat \<Rightarrow> exact_error + units" where
  "units_new u =
     (if u > MAX_UNITS then Inl (OutOfBounds ''units'' (dec_text u @ '' units'')) else Inr (Units u))"

definition units_checked_add :: "units \<Rightarrow> units \<Rightarrow> exact_error + units" where
  "units_checked_add a b = bind_result (ok_or Exact_Overflow (try_u64 (units_get a + units_get b))) units_new"

definition units_checked_sub :: "units \<Rightarrow> units \<Rightarrow> exact_error + units" where
  "units_checked_sub a b =
     (if units_get a < units_get b then Inl Exact_Overflow else units_new (units_get a - units_get b))"

definition units_checked_mul :: "units \<Rightarrow> units \<Rightarrow> exact_error + units" where
  "units_checked_mul a b = bind_result (ok_or Exact_Overflow (try_u64 (units_get a * units_get b))) units_new"

definition units_div_ceil :: "units \<Rightarrow> units \<Rightarrow> exact_error + units" where
  "units_div_ceil a divisor =
     (if units_get divisor = 0 then Inl DivisionByZero
      else bind_result (ok_or Exact_Overflow (try_u64 (units_get a + (units_get divisor - 1))))
             (\<lambda>s. units_new (s div units_get divisor)))"

definition round_up_to_multiple :: "units \<Rightarrow> units \<Rightarrow> exact_error + units" where
  "round_up_to_multiple a multiple =
     (if units_get multiple = 0 then Inl DivisionByZero
      else (let remainder = units_get a mod units_get multiple
            in if remainder = 0 then Inr a
               else bind_result (ok_or Exact_Overflow (try_u64 (units_get a + (units_get multiple - remainder))))
                      units_new))"

definition units_max :: "units \<Rightarrow> units \<Rightarrow> units" where
  "units_max a b = (if units_get a \<ge> units_get b then a else b)"

definition units_to_scaled :: "units \<Rightarrow> exact_error + scaled_quantity" where
  "units_to_scaled u =
     bind_result (ok_or Exact_Overflow (try_i128 (int (units_get u) * MICROS_PER_UNIT))) (\<lambda>value.
     bind_result (ok_or Exact_Overflow (try_i64 value)) quantity_new)"

section \<open>Money\<close>

record money =
  micros :: int
  money_currency :: currency

definition money_zero :: "currency \<Rightarrow> money" where
  "money_zero c = \<lparr>micros = 0, money_currency = c\<rparr>"

definition money_from_micros :: "int \<Rightarrow> currency \<Rightarrow> exact_error + money" where
  "money_from_micros m c =
     (if \<bar>m\<bar> > MAX_MONEY_MICROS then Inl (OutOfBounds ''money'' (int_text m @ '' micros''))
      else Inr \<lparr>micros = m, money_currency = c\<rparr>)"

text \<open>The loop over the fraction bytes; an index above five does not occur (\<open>fraction.len() \<le> 6\<close>).\<close>

fun fraction_loop :: "nat \<Rightarrow> int \<Rightarrow> string \<Rightarrow> int" where
  "fraction_loop index acc [] = acc"
| "fraction_loop index acc (b # bs) =
     fraction_loop (index + 1) (acc + int (digit_value b) * 10 ^ (5 - index)) bs"

definition money_parse :: "string \<Rightarrow> currency \<Rightarrow> exact_error + money" where
  "money_parse amount c =
     (let (negative, body) = (case strip_prefix amount ''-'' of Some rest \<Rightarrow> (True, rest) | None \<Rightarrow> (False, amount));
          (whole, fraction) = (case split_once_at (CHR ''.'') body of Some (w, f) \<Rightarrow> (w, f) | None \<Rightarrow> (body, []))
      in if whole = [] \<and> fraction = [] then Inl (OutOfBounds ''money'' ''empty amount'')
         else if length fraction > 6 \<or> \<not> list_all is_ascii_digit fraction then Inl TooManyFractionalDigits
         else if whole \<noteq> [] \<and> \<not> list_all is_ascii_digit whole then Inl (OutOfBounds ''money'' ''invalid digits'')
         else
           bind_result (if whole = [] then Inr 0 else ok_or Exact_Overflow (try_i128 (int (dec_value whole))))
             (\<lambda>whole_value.
           bind_result (ok_or Exact_Overflow
               (Option.bind (try_i128 (whole_value * MICROS_PER_UNIT))
                  (\<lambda>value. try_i128 (value + fraction_loop 0 0 fraction)))) (\<lambda>magnitude.
           bind_result (ok_or Exact_Overflow (try_i64 (if negative then - magnitude else magnitude))) (\<lambda>m.
           money_from_micros m c))))"

definition checked_add :: "money \<Rightarrow> money \<Rightarrow> exact_error + money" where
  "checked_add a b =
     (if money_currency a \<noteq> money_currency b then Inl (CurrencyMismatch (money_currency a) (money_currency b))
      else bind_result (ok_or Exact_Overflow (try_i64 (micros a + micros b)))
             (\<lambda>v. money_from_micros v (money_currency a)))"

definition checked_sub :: "money \<Rightarrow> money \<Rightarrow> exact_error + money" where
  "checked_sub a b =
     (if money_currency a \<noteq> money_currency b then Inl (CurrencyMismatch (money_currency a) (money_currency b))
      else bind_result (ok_or Exact_Overflow (try_i64 (micros a - micros b)))
             (\<lambda>v. money_from_micros v (money_currency a)))"

fun sum_loop :: "money list \<Rightarrow> money \<Rightarrow> exact_error + money" where
  "sum_loop [] acc = Inr acc"
| "sum_loop (v # vs) acc = bind_result (checked_add acc v) (sum_loop vs)"

definition checked_sum :: "money list \<Rightarrow> currency \<Rightarrow> exact_error + money" where
  "checked_sum values c = sum_loop values (money_zero c)"

definition mul_units :: "money \<Rightarrow> nat \<Rightarrow> exact_error + money" where
  "mul_units a u =
     bind_result (ok_or Exact_Overflow (try_i128 (micros a * int u))) (\<lambda>value.
     bind_result (ok_or Exact_Overflow (try_i64 value)) (\<lambda>v.
     money_from_micros v (money_currency a)))"

definition money_scale :: "money \<Rightarrow> rate \<Rightarrow> exact_error + money" where
  "money_scale a r =
     bind_result (ok_or Exact_Overflow (mul_div_round_half_up (micros a) (ppm r) 1000000)) (\<lambda>value.
     bind_result (ok_or Exact_Overflow (try_i64 value)) (\<lambda>v.
     money_from_micros v (money_currency a)))"

definition div_units :: "money \<Rightarrow> nat \<Rightarrow> exact_error + money" where
  "div_units a u =
     (if u = 0 then Inl DivisionByZero
      else bind_result (ok_or Exact_Overflow (try_i64 (div_round_half_away (micros a) (int u))))
             (\<lambda>v. money_from_micros v (money_currency a)))"

definition money_non_negative :: "string \<Rightarrow> money \<Rightarrow> exact_error + money" where
  "money_non_negative what a = (if micros a < 0 then Inl (Negative_Value what) else Inr a)"

text \<open>\<open>Display\<close>: the amount and the currency, separated by one space.\<close>

definition money_amount :: "money \<Rightarrow> string" where
  "money_amount m =
     (let magnitude = nat \<bar>micros m\<bar>
      in (if micros m < 0 then ''-'' else []) @ dec_text (magnitude div 1000000) @ ''.'' @ pad6 (magnitude mod 1000000))"

definition money_display :: "money \<Rightarrow> string" where
  "money_display m = money_amount m @ '' '' @ currency_code (money_currency m)"

definition quantity_cost :: "scaled_quantity \<Rightarrow> money \<Rightarrow> exact_error + money" where
  "quantity_cost q price =
     bind_result (ok_or Exact_Overflow (mul_div_round_half_up (q_micros q) (micros price) 1000000)) (\<lambda>value.
     bind_result (ok_or Exact_Overflow (try_i64 value)) (\<lambda>v.
     money_from_micros v (money_currency price)))"

definition divide_by_yield :: "scaled_quantity \<Rightarrow> rate \<Rightarrow> exact_error + scaled_quantity" where
  "divide_by_yield q yield_rate =
     (if ppm yield_rate = 0 then Inl DivisionByZero
      else bind_result (ok_or Exact_Overflow (mul_div_round_up (q_micros q) 1000000 (ppm yield_rate))) (\<lambda>value.
           bind_result (ok_or Exact_Overflow (try_i64 value)) quantity_new))"

section \<open>Integer square roots\<close>

text \<open>The bisection of \<open>isqrt\<close> and \<open>isqrt_u128\<close>.\<close>

function isqrt_loop :: "nat \<Rightarrow> nat \<Rightarrow> nat \<Rightarrow> nat" where
  "isqrt_loop v low high =
     (if low < high then
        let mid = low + (high - low + 1) div 2
        in if mid \<le> v div mid then isqrt_loop v mid high else isqrt_loop v low (mid - 1)
      else low)"
  by pat_completeness auto

termination isqrt_loop
  by (relation "measure (\<lambda>(v, low, high). high - low)") auto

declare isqrt_loop.simps [simp del]

definition isqrt :: "nat \<Rightarrow> nat" where
  "isqrt v = (if v < 2 then v else isqrt_loop v 1 (min v u32_max))"

definition isqrt_u128 :: "nat \<Rightarrow> nat" where
  "isqrt_u128 v = (if v < 2 then v else isqrt_loop v 1 (v div 2 + 1))"

definition isqrt_scaled_ppm :: "units \<Rightarrow> nat" where
  "isqrt_scaled_ppm u = isqrt_u128 (units_get u * 1000000000000) mod 2 ^ 64"

section \<open>The newtypes implement the validated-value contract\<close>

interpretation rate: validated rate_new ppm "\<lambda>p. 0 \<le> p \<and> p \<le> MAX_PPM"
  by unfold_locales (auto simp: rate_new_def split: if_splits)

interpretation quantity: validated quantity_new q_micros "\<lambda>m. \<bar>m\<bar> \<le> MAX_SCALED_QUANTITY"
  by unfold_locales (auto simp: quantity_new_def split: if_splits)

interpretation units: validated units_new units_get "\<lambda>u. u \<le> MAX_UNITS"
  by unfold_locales (auto simp: units_new_def split: if_splits)

interpretation money: validated "\<lambda>m. money_from_micros m c" micros "\<lambda>m. \<bar>m\<bar> \<le> MAX_MONEY_MICROS" for c
  by unfold_locales (auto simp: money_from_micros_def split: if_splits)

definition rate_ok :: "rate \<Rightarrow> bool" where
  "rate_ok r \<longleftrightarrow> 0 \<le> ppm r \<and> ppm r \<le> MAX_PPM"

definition money_ok :: "money \<Rightarrow> bool" where
  "money_ok m \<longleftrightarrow> \<bar>micros m\<bar> \<le> MAX_MONEY_MICROS"

definition quantity_ok :: "scaled_quantity \<Rightarrow> bool" where
  "quantity_ok q \<longleftrightarrow> \<bar>q_micros q\<bar> \<le> MAX_SCALED_QUANTITY"

definition units_ok :: "units \<Rightarrow> bool" where
  "units_ok u \<longleftrightarrow> units_get u \<le> MAX_UNITS"

lemma money_from_micros_ok:
  "money_from_micros m c = Inr a \<longleftrightarrow> \<bar>m\<bar> \<le> MAX_MONEY_MICROS \<and> a = \<lparr>micros = m, money_currency = c\<rparr>"
  by (auto simp: money_from_micros_def)

lemma quantity_new_ok: "quantity_new m = Inr q \<longleftrightarrow> \<bar>m\<bar> \<le> MAX_SCALED_QUANTITY \<and> q = ScaledQuantity m"
  by (auto simp: quantity_new_def)

lemma units_new_ok: "units_new u = Inr a \<longleftrightarrow> u \<le> MAX_UNITS \<and> a = Units u"
  by (auto simp: units_new_def)

lemma micros_in_i64: "\<bar>m\<bar> \<le> MAX_MONEY_MICROS \<Longrightarrow> in_i64 m"
  by (auto simp: in_i64_def money_bounds width_simps)

lemma bounded_in_i64: "\<bar>m\<bar> \<le> 1000000000000000000 \<Longrightarrow> in_i64 m"
  by (auto simp: in_i64_def width_simps)

section \<open>Rounding is the nearest integer, and the ceiling\<close>

lemma wrap_i128_id [simp]: "in_i128 x \<Longrightarrow> wrap_i128 x = x"
  by (simp add: wrap_i128_def in_i128_def width_simps)

text \<open>The reference: round to the nearest integer, a half away from zero.\<close>

definition round_half_away :: "int \<Rightarrow> int \<Rightarrow> int" where
  "round_half_away n d = sgn n * ((2 * \<bar>n\<bar> + d) div (2 * d))"

lemma half_up_div:
  fixes n d :: int
  assumes "0 \<le> n" and "0 < d"
  shows "(2 * n + d) div (2 * d) = (if n mod d * 2 \<ge> d then n div d + 1 else n div d)"
proof -
  have "2 * (q * d + r) + d = 2 * r + d + q * (2 * d)" for q r by (simp add: algebra_simps)
  from this [of "n div d" "n mod d"] have "2 * n + d = 2 * (n mod d) + d + (n div d) * (2 * d)"
    unfolding div_mult_mod_eq .
  then have "(2 * n + d) div (2 * d) = (2 * (n mod d) + d + (n div d) * (2 * d)) div (2 * d)" by (rule arg_cong)
  then have "(2 * n + d) div (2 * d) = (2 * (n mod d) + d) div (2 * d) + n div d"
    using assms(2) by (subst (asm) div_mult_self1) auto
  moreover have "(2 * (n mod d) + d) div (2 * d) = (if n mod d * 2 \<ge> d then 1 else 0)"
  proof (cases "n mod d * 2 \<ge> d")
    case True
    moreover have "n mod d < d" using assms(2) by simp
    ultimately have "2 * (n mod d) + d = (2 * (n mod d) - d) + 1 * (2 * d)" "0 \<le> 2 * (n mod d) - d" "2 * (n mod d) - d < 2 * d"
      by linarith+
    then show ?thesis using True assms(2) by (metis add.commute add_0 div_mult_self1 div_pos_pos_trivial less_numeral_extra(3) mult_eq_0_iff order_less_irrefl zero_neq_numeral)
  next
    case False
    moreover have "0 \<le> n mod d" using assms(2) by simp
    ultimately show ?thesis by (simp add: div_pos_pos_trivial)
  qed
  ultimately show ?thesis by simp
qed

lemma abs_sdiv_pos: "0 \<le> a \<Longrightarrow> 0 < b \<Longrightarrow> a sdiv b = a div b \<and> a smod b = a mod (b :: int)"
  by (cases "a = 0") (simp_all add: signed_divide_int_def signed_modulo_int_def minus_div_mult_eq_mod sgn_mult)

lemma div_round_half_away_eq:
  assumes n: "\<bar>n\<bar> < i128_max" and d: "0 < d" "d \<le> i128_max"
  shows "div_round_half_away n d = round_half_away n d"
proof -
  define a where "a = \<bar>n\<bar>"
  have a: "0 \<le> a" "a < i128_max" using n by (auto simp: a_def)
  have abs: "(if n < 0 then (- 1, wrap_i128 (- n)) else (1, n)) = (if n < 0 then - 1 else 1 :: int, a)"
    using n by (auto simp: a_def in_i128_def width_simps)
  have q: "0 \<le> a div d" "a div d \<le> a" using a(1) d(1) zdiv_mono2 [of a 1 d] by (auto simp: pos_imp_zdiv_nonneg_iff)
  then have q1: "in_i128 (a div d + 1)" using a by (simp add: in_i128_def width_simps)
  have r: "0 \<le> a mod d" "a mod d < d" using d by simp_all
  have sat: "sat_i128 (a mod d * 2) \<ge> d \<longleftrightarrow> a mod d * 2 \<ge> d"
    using r d by (auto simp: sat_i128_def width_simps)
  define q' where "q' = (if a mod d * 2 \<ge> d then a div d + 1 else a div d)"
  have q': "0 \<le> q'" "q' \<le> i128_max" using q a by (auto simp: q'_def)
  then have in': "in_i128 ((if n < 0 then - 1 else 1) * q')" by (auto simp: in_i128_def width_simps)
  have "div_round_half_away n d = wrap_i128 ((if n < 0 then - 1 else 1) * q')"
    unfolding div_round_half_away_def Let_def abs using d(1) abs_sdiv_pos [OF a(1) d(1)] sat q1
    by (simp add: q'_def)
  also have "\<dots> = (if n < 0 then - 1 else 1) * q'" using in' by (rule wrap_i128_id)
  also have "\<dots> = round_half_away n d"
    using half_up_div [OF a(1) d(1)] d(1) by (auto simp: round_half_away_def q'_def a_def sgn_if)
  finally show ?thesis .
qed

lemma round_half_away_near:
  assumes "0 < d"
  shows "2 * \<bar>d * round_half_away n d - n\<bar> \<le> d" and "\<bar>round_half_away n d\<bar> \<le> (2 * \<bar>n\<bar> + d) div (2 * d)"
proof -
  define k where "k = (2 * \<bar>n\<bar> + d) div (2 * d)"
  have "(2 * d) * k \<le> 2 * \<bar>n\<bar> + d" "2 * \<bar>n\<bar> + d < (2 * d) * k + 2 * d"
    unfolding k_def using assms minus_mod_eq_mult_div [of "2 * \<bar>n\<bar> + d" "2 * d"]
      pos_mod_bound [of "2 * d" "2 * \<bar>n\<bar> + d"] pos_mod_sign [of "2 * d" "2 * \<bar>n\<bar> + d"] by linarith+
  then have *: "2 * \<bar>d * k - \<bar>n\<bar>\<bar> \<le> d" by (simp add: algebra_simps abs_if)
  have k0: "0 \<le> k" using assms by (simp add: k_def pos_imp_zdiv_nonneg_iff)
  show "2 * \<bar>d * round_half_away n d - n\<bar> \<le> d"
    using * assms by (cases n "0 :: int" rule: linorder_cases) (auto simp: round_half_away_def k_def abs_minus_commute add.commute)
  show "\<bar>round_half_away n d\<bar> \<le> (2 * \<bar>n\<bar> + d) div (2 * d)"
    using k0 by (auto simp: round_half_away_def k_def abs_mult sgn_if)
qed

lemma ceil_div:
  fixes n d :: int
  assumes "0 < d"
  shows "(n + d - 1) div d = - ((- n) div d)"
proof (cases "n mod d = 0")
  case True
  then have "n + d - 1 = (d - 1) + n div d * d" using div_mult_mod_eq [of n d] by linarith
  then have "(n + d - 1) div d = (d - 1) div d + n div d" using assms by (metis div_mult_self1 add.commute less_irrefl)
  then show ?thesis using True assms by (simp add: zdiv_zminus1_eq_if div_pos_pos_trivial)
next
  case False
  then have r: "0 \<le> n mod d - 1" "n mod d - 1 < d"
    using pos_mod_sign [OF assms, of n] pos_mod_bound [OF assms, of n] by linarith+
  have "n + d - 1 = (n mod d - 1) + (n div d + 1) * d"
    using div_mult_mod_eq [of n d] by (simp add: algebra_simps del: div_mult_mod_eq)
  then have "(n + d - 1) div d = (n mod d - 1) div d + (n div d + 1)"
    using assms by (metis div_mult_self1 add.commute less_irrefl)
  then show ?thesis using False assms r by (simp add: zdiv_zminus1_eq_if div_pos_pos_trivial)
qed

lemma div_round_up_eq:
  assumes "\<bar>n\<bar> \<le> 2 ^ 126" and "0 < d" and "d \<le> 2 ^ 64"
  shows "div_round_up n d = - ((- n) div d)"
proof (cases "n \<ge> 0")
  case True
  have "in_i128 (n + d)" "in_i128 (n + d - 1)" using assms True by (auto simp: in_i128_def width_simps)
  then have "div_round_up n d = (n + d - 1) div d"
    using True assms(2) abs_sdiv_pos [of "n + d - 1" d] by (simp add: div_round_up_def)
  also have "\<dots> = - ((- n) div d)" by (rule ceil_div [OF assms(2)])
  finally show ?thesis .
next
  case False
  then show ?thesis using assms(2) by (simp add: div_round_up_def signed_divide_int_def sgn_if mult_less_0_iff)
qed

section \<open>Printing and parsing\<close>

lemma length_dec_text: "n < 10 ^ k \<Longrightarrow> 0 < k \<Longrightarrow> length (dec_text n) \<le> k"
proof (induction n arbitrary: k rule: dec_text.induct)
  case (1 n)
  show ?case
  proof (cases "n < 10")
    case True
    then show ?thesis using 1(3) by (subst dec_text.simps) simp
  next
    case False
    then have "1 < k" using 1(2,3) by (cases k; cases "k - 1") auto
    moreover from this have "n div 10 < 10 ^ (k - 1)" using 1(2) by (cases k) (auto simp: less_mult_imp_div_less)
    ultimately have "length (dec_text (n div 10)) \<le> k - 1" using 1(1) [OF False, of "k - 1"] by simp
    then show ?thesis using False \<open>1 < k\<close> by (subst dec_text.simps) simp
  qed
qed

lemma dec_value_zeros: "dec_value (replicate k (CHR ''0'') @ s) = dec_value s"
proof (induction s rule: rev_induct)
  case Nil
  have "dec_value (replicate k (CHR ''0'')) = 0"
    by (induction k) (simp_all add: dec_value_def digit_value_def byte_of_def)
  then show ?case by (simp add: dec_value_def)
next
  case (snoc c s)
  then show ?case by (metis append.assoc dec_value_snoc)
qed

lemma pad6_facts:
  assumes "n < 1000000"
  shows "length (pad6 n) = 6" and "dec_value (pad6 n) = n" and "list_all is_ascii_digit (pad6 n)"
proof -
  have "length (dec_text n) \<le> 6" using length_dec_text [of n 6] assms by simp
  then show "length (pad6 n) = 6" by (simp add: pad6_def)
  show "dec_value (pad6 n) = n" by (simp add: pad6_def dec_value_zeros)
  show "list_all is_ascii_digit (pad6 n)"
    using dec_text_digits by (auto simp: pad6_def list_all_iff is_ascii_digit_def byte_of_def)
qed

lemma fraction_loop_value:
  "index + length bs \<le> 6 \<Longrightarrow>
   fraction_loop index acc bs = acc + int (dec_value bs) * 10 ^ (6 - index - length bs)"
proof (induction bs arbitrary: acc rule: rev_induct)
  case (snoc b bs)
  have "fraction_loop i acc (xs @ [y]) = fraction_loop i acc xs + int (digit_value y) * 10 ^ (5 - (i + length xs))" for i acc xs y
    by (induction xs arbitrary: i acc) auto
  then have "fraction_loop index acc (bs @ [b]) =
      fraction_loop index acc bs + int (digit_value b) * 10 ^ (5 - (index + length bs))" by simp
  moreover have "6 - index - length bs = Suc (5 - (index + length bs))" using snoc.prems by simp
  ultimately show ?case using snoc by (simp add: dec_value_snoc algebra_simps)
qed (simp add: dec_value_def)

lemma digit_not: "is_ascii_digit c \<Longrightarrow> c \<noteq> CHR ''.'' \<and> c \<noteq> CHR ''-''"
  by (auto simp: is_ascii_digit_def byte_of_def)

lemma money_parse_print:
  assumes "money_ok m"
  shows "money_parse (money_amount m) (money_currency m) = Inr m"
proof -
  define a where "a = nat \<bar>micros m\<bar>"
  define w f where "w = dec_text (a div 1000000)" and "f = pad6 (a mod 1000000)"
  have f: "length f = 6" "dec_value f = a mod 1000000" "list_all is_ascii_digit f"
    using pad6_facts [of "a mod 1000000"] by (simp_all add: f_def)
  have w: "w \<noteq> []" "list_all is_ascii_digit w" "dec_value w = a div 1000000"
    using dec_text_digits by (simp_all add: w_def)
  have wdot: "CHR ''.'' \<notin> set w" using w(2) digit_not by (auto simp: list_all_iff)
  then have split: "split_once_at (CHR ''.'') (w @ ''.'' @ f) = Some (w, f)"
    by (simp add: split_once_at_append)
  have nominus: "strip_prefix (w @ ''.'' @ f) ''-'' = None"
    using w digit_not by (cases w) (auto simp: strip_prefix_def)
  have am: "money_amount m = (if micros m < 0 then ''-'' else []) @ w @ ''.'' @ f"
    by (simp add: money_amount_def Let_def a_def w_def f_def)
  have bnd: "a \<le> 1000000000000000000" "int a = \<bar>micros m\<bar>" using assms by (auto simp: a_def money_ok_def money_bounds)
  have mag: "int (dec_value w) * 1000000 + fraction_loop 0 0 f = int a"
  proof -
    have "int (a div 1000000) * 1000000 + int (a mod 1000000) = int a"
      using div_mult_mod_eq [of "int a" 1000000] unfolding zdiv_int zmod_int of_nat_numeral .
    then show ?thesis using fraction_loop_value [of 0 f 0] f(1,2) w(3) by simp
  qed
  have rng: "in_i128 (int (dec_value w))" "in_i128 (int (dec_value w) * 1000000)" "in_i128 (int a)"
    using bnd(1) w(3) by (auto simp: in_i128_def width_simps)
  have t: "try_i128 (int (dec_value w)) = Some (int (dec_value w))"
    "try_i128 (int (dec_value w) * MICROS_PER_UNIT) = Some (int (dec_value w) * 1000000)"
    "try_i128 (int (dec_value w) * 1000000 + fraction_loop 0 0 f) = Some (int a)"
    using rng unfolding mag by (simp_all add: MICROS_PER_UNIT_def)
  have "in_i64 (micros m)" using bnd by (intro bounded_in_i64) simp
  then have t4: "try_i64 (if micros m < 0 then - int a else int a) = Some (micros m)"
    using bnd(2) by auto
  have t5: "money_from_micros (micros m) (money_currency m) = Inr m"
    using assms by (simp add: money_from_micros_ok money_ok_def)
  have pre: "(case strip_prefix (money_amount m) ''-'' of Some rest \<Rightarrow> (True, rest) | None \<Rightarrow> (False, money_amount m)) =
      (micros m < 0, w @ ''.'' @ f)"
    unfolding am using nominus by (auto simp: strip_prefix_def)
  show ?thesis
    unfolding money_parse_def Let_def pre using w(1,2) f(1,3)
    by (simp add: split [simplified append_Cons append_Nil] t t4 t5
        del: bind_result_eq_Inr ok_or_eq_Inr try_i128_Some try_i64_Some)
qed

section \<open>Square roots\<close>

lemma isqrt_loop_correct:
  assumes "low * low \<le> v" and "v < (high + 1) * (high + 1)" and "1 \<le> low" and "low \<le> high"
  shows "isqrt_loop v low high * isqrt_loop v low high \<le> v \<and>
    v < (isqrt_loop v low high + 1) * (isqrt_loop v low high + 1)"
  using assms
proof (induction v low high rule: isqrt_loop.induct)
  case (1 v low high)
  show ?case
  proof (cases "low < high")
    case True
    define mid where "mid = low + (high - low + 1) div 2"
    have mid: "low < mid" "mid \<le> high" using True by (auto simp: mid_def)
    have le: "mid \<le> v div mid \<longleftrightarrow> mid * mid \<le> v"
      using mid 1(5) by (simp add: less_eq_div_iff_mult_less_eq)
    show ?thesis
    proof (cases "mid * mid \<le> v")
      case yes: True
      then have "isqrt_loop v low high = isqrt_loop v mid high"
        using True le by (subst isqrt_loop.simps) (simp add: Let_def mid_def)
      with 1(1) [OF True mid_def] yes le mid 1(4,5) show ?thesis by simp
    next
      case no: False
      then have "isqrt_loop v low high = isqrt_loop v low (mid - 1)"
        using True le by (subst isqrt_loop.simps) (simp add: Let_def mid_def)
      with 1(2) [OF True mid_def] no le mid 1(3,5) show ?thesis by simp
    qed
  next
    case False
    then have "high = low" using 1(6) by simp
    with False 1(3,4) show ?thesis by (subst (1 2 3 4) isqrt_loop.simps) simp
  qed
qed

lemma isqrt_correct:
  assumes "v \<le> u64_max"
  shows "isqrt v * isqrt v \<le> v \<and> v < (isqrt v + 1) * (isqrt v + 1)"
proof (cases "v < 2")
  case True
  then have "v = 0 \<or> v = 1" by auto
  then show ?thesis by (auto simp: isqrt_def)
next
  case False
  have "v < (min v u32_max + 1) * (min v u32_max + 1)"
    using assms by (cases "v \<le> u32_max") (auto simp: width_simps min_def)
  then show ?thesis
    using isqrt_loop_correct [of 1 v "min v u32_max"] False by (simp add: isqrt_def width_simps)
qed

lemma isqrt_u128_correct: "isqrt_u128 v * isqrt_u128 v \<le> v \<and> v < (isqrt_u128 v + 1) * (isqrt_u128 v + 1)"
proof (cases "v < 2")
  case True
  then have "v = 0 \<or> v = 1" by auto
  then show ?thesis by (auto simp: isqrt_u128_def)
next
  case False
  have "v < (v div 2 + 2) * 2" by simp
  also have "\<dots> \<le> (v div 2 + 2) * (v div 2 + 2)" by (rule mult_le_mono) auto
  finally show ?thesis
    using isqrt_loop_correct [of 1 v "v div 2 + 1"] False by (simp add: isqrt_u128_def)
qed

section \<open>What exact arithmetic guarantees\<close>

lemma checked_add_ok:
  "checked_add a b = Inr m \<longleftrightarrow> money_currency a = money_currency b \<and> \<bar>micros a + micros b\<bar> \<le> MAX_MONEY_MICROS \<and>
     m = \<lparr>micros = micros a + micros b, money_currency = money_currency a\<rparr>"
  by (auto simp: checked_add_def money_from_micros_ok micros_in_i64)

lemma sum_loop_ok:
  "sum_loop vs t = Inr m \<longleftrightarrow> list_all (\<lambda>v. money_currency v = money_currency t) vs \<and>
     (\<forall>k. 0 < k \<and> k \<le> length vs \<longrightarrow> \<bar>micros t + sum_list (map micros (take k vs))\<bar> \<le> MAX_MONEY_MICROS) \<and>
     m = \<lparr>micros = micros t + sum_list (map micros vs), money_currency = money_currency t\<rparr>"
proof (induction vs arbitrary: t)
  case (Cons v vs)
  let ?t = "\<lparr>micros = micros t + micros v, money_currency = money_currency t\<rparr>"
  have split: "(\<forall>k. 0 < k \<and> k \<le> length (v # vs) \<longrightarrow> \<bar>micros t + sum_list (map micros (take k (v # vs)))\<bar> \<le> MAX_MONEY_MICROS) \<longleftrightarrow>
      \<bar>micros t + micros v\<bar> \<le> MAX_MONEY_MICROS \<and>
      (\<forall>k. 0 < k \<and> k \<le> length vs \<longrightarrow> \<bar>micros ?t + sum_list (map micros (take k vs))\<bar> \<le> MAX_MONEY_MICROS)"
    (is "(\<forall>k. ?P k) \<longleftrightarrow> ?first \<and> (\<forall>k. ?Q k)")
  proof
    assume all: "\<forall>k. ?P k"
    have "?Q k" for k using all [rule_format, of "Suc k"] by (simp add: add.assoc)
    with all [rule_format, of 1] show "?first \<and> (\<forall>k. ?Q k)" by simp
  next
    assume rest: "?first \<and> (\<forall>k. ?Q k)"
    have "?P k" for k
    proof (cases k)
      case (Suc n)
      then show ?thesis using rest [THEN conjunct1] rest [THEN conjunct2, rule_format, of n] by (cases "n = 0") (auto simp: add.assoc)
    qed simp
    then show "\<forall>k. ?P k" by blast
  qed
  have "sum_loop (v # vs) t = Inr m \<longleftrightarrow>
      money_currency v = money_currency t \<and> \<bar>micros t + micros v\<bar> \<le> MAX_MONEY_MICROS \<and> sum_loop vs ?t = Inr m"
    by (auto simp: bind_result_eq_Inr checked_add_ok)
  then show ?case unfolding split Cons.IH [of ?t] by (auto simp: add.assoc)
qed (auto simp: eq_commute)

lemma checked_sum_ok:
  "checked_sum vs c = Inr m \<longleftrightarrow> list_all (\<lambda>v. money_currency v = c) vs \<and>
     (\<forall>k. k \<le> length vs \<longrightarrow> \<bar>sum_list (map micros (take k vs))\<bar> \<le> MAX_MONEY_MICROS) \<and>
     m = \<lparr>micros = sum_list (map micros vs), money_currency = c\<rparr>"
proof -
  have "\<bar>sum_list (map micros (take 0 vs))\<bar> \<le> MAX_MONEY_MICROS" by (simp add: money_bounds)
  then have "(\<forall>k. k \<le> length vs \<longrightarrow> \<bar>sum_list (map micros (take k vs))\<bar> \<le> MAX_MONEY_MICROS) \<longleftrightarrow>
      (\<forall>k. 0 < k \<and> k \<le> length vs \<longrightarrow> \<bar>sum_list (map micros (take k vs))\<bar> \<le> MAX_MONEY_MICROS)"
    by (metis gr0I)
  then show ?thesis by (simp add: checked_sum_def money_zero_def sum_loop_ok)
qed

text \<open>
  C9. Money arithmetic is exact and bounded: addition and subtraction succeed exactly when the
  currencies agree and the true result is within the documented bound, and then return the true
  result. The checked sum of a series that has values succeeds exactly when all of them are of the
  requested currency and every partial sum, in the order of the series, is within the bound; it
  then returns the true sum in that currency.
\<close>

theorem money_arithmetic_exact:
  "(checked_add a b = Inr m \<longleftrightarrow> money_currency a = money_currency b \<and> \<bar>micros a + micros b\<bar> \<le> MAX_MONEY_MICROS \<and>
     m = \<lparr>micros = micros a + micros b, money_currency = money_currency a\<rparr>) \<and>
   (checked_sub a b = Inr m \<longleftrightarrow> money_currency a = money_currency b \<and> \<bar>micros a - micros b\<bar> \<le> MAX_MONEY_MICROS \<and>
     m = \<lparr>micros = micros a - micros b, money_currency = money_currency a\<rparr>) \<and>
   (vs \<noteq> [] \<longrightarrow>
     (checked_sum vs c = Inr m \<longleftrightarrow> list_all (\<lambda>v. money_currency v = c) vs \<and>
       (\<forall>k. k \<le> length vs \<longrightarrow> \<bar>sum_list (map micros (take k vs))\<bar> \<le> MAX_MONEY_MICROS) \<and>
       m = \<lparr>micros = sum_list (map micros vs), money_currency = c\<rparr>))"
proof (intro conjI impI)
  show "checked_add a b = Inr m \<longleftrightarrow> money_currency a = money_currency b \<and> \<bar>micros a + micros b\<bar> \<le> MAX_MONEY_MICROS \<and>
     m = \<lparr>micros = micros a + micros b, money_currency = money_currency a\<rparr>" by (rule checked_add_ok)
  show "checked_sub a b = Inr m \<longleftrightarrow> money_currency a = money_currency b \<and> \<bar>micros a - micros b\<bar> \<le> MAX_MONEY_MICROS \<and>
     m = \<lparr>micros = micros a - micros b, money_currency = money_currency a\<rparr>"
    by (auto simp: checked_sub_def money_from_micros_ok micros_in_i64)
qed (rule checked_sum_ok)

definition usd :: "int \<Rightarrow> money" where
  "usd m = \<lparr>micros = m, money_currency = Currency ''USD''\<rparr>"

theorem money_arithmetic_exact_witness:
  "checked_sum [usd 5, usd (- 2), usd 9] (Currency ''USD'') = Inr (usd 12) \<and> micros (usd 12) = 5 + (- 2) + 9"
proof -
  let ?vs = "[usd 5, usd (- 2), usd 9]"
  have "\<bar>sum_list (map micros (take k ?vs))\<bar> \<le> MAX_MONEY_MICROS" for k
    by (auto simp: usd_def money_bounds take_Cons split: nat.split)
  with money_arithmetic_exact [of "usd 0" "usd 0" "usd 12" ?vs "Currency ''USD''"]
  show ?thesis by (simp add: usd_def)
qed

text \<open>
  The code has no special case for an empty series: its sum is zero of the requested currency.
\<close>

theorem checked_sum_empty: "checked_sum [] c = Inr (money_zero c)"
  by (simp add: checked_sum_def)

text \<open>
  C40. Printing and parsing money round trip: the decimal amount that is displayed for a bounded value
  parses back to the same value, sign, fraction digits and bound included.
\<close>

theorem money_print_parse:
  assumes "money_ok m"
  shows "money_parse (money_amount m) (money_currency m) = Inr m \<and>
    money_display m = money_amount m @ '' '' @ currency_code (money_currency m)"
  using money_parse_print [OF assms] by (simp add: money_display_def)

theorem money_print_parse_witness:
  "money_parse (money_amount (usd (- 1500000))) (Currency ''USD'') = Inr (usd (- 1500000)) \<and>
   money_display (usd (- 1500000)) = money_amount (usd (- 1500000)) @ '' '' @ ''USD''"
  using money_print_parse [of "usd (- 1500000)"] by (simp add: usd_def money_ok_def money_bounds)

lemma small_product:
  fixes a b :: int
  assumes "\<bar>a\<bar> \<le> 1000000000000000000" and "\<bar>b\<bar> \<le> 1000000000000000000"
  shows "\<bar>a * b\<bar> \<le> 1000000000000000000 * 1000000000000000000"
  using mult_mono [OF assms] by (simp add: abs_mult)

lemma round_half_away_le:
  assumes "0 < d" and "\<bar>n\<bar> \<le> d * k" and "0 \<le> k"
  shows "\<bar>round_half_away n d\<bar> \<le> k"
proof -
  have "2 * \<bar>n\<bar> + d \<le> 2 * (d * k) + d" using assms(2) by simp
  also have "\<dots> < (k + 1) * (2 * d)" using assms(1) by (simp add: algebra_simps)
  finally have lt: "2 * \<bar>n\<bar> + d < (k + 1) * (2 * d)" .
  have "(2 * \<bar>n\<bar> + d) div (2 * d) < k + 1"
  proof (rule ccontr)
    assume "\<not> ?thesis"
    then have "(k + 1) * (2 * d) \<le> (2 * \<bar>n\<bar> + d) div (2 * d) * (2 * d)" using assms(1) by (intro mult_right_mono) auto
    also have "\<dots> \<le> 2 * \<bar>n\<bar> + d"
      using div_mult_mod_eq [of "2 * \<bar>n\<bar> + d" "2 * d"] pos_mod_sign [of "2 * d" "2 * \<bar>n\<bar> + d"] assms(1) by linarith
    finally show False using lt by simp
  qed
  then show ?thesis using round_half_away_near(2) [OF assms(1), of n] by linarith
qed

text \<open>
  Scaling by a rate and dividing by a count never fail on valid values and round to the nearest
  micro-unit, a half away from zero: the result is the reference rounding, it keeps the currency and
  the bound, and the rounding error is at most half a micro-unit.
\<close>

theorem money_rounding_correct:
  assumes "money_ok m" and "rate_ok r" and "0 < u" and "u \<le> u64_max"
  shows "money_scale m r = Inr \<lparr>micros = round_half_away (micros m * ppm r) 1000000, money_currency = money_currency m\<rparr> \<and>
    div_units m u = Inr \<lparr>micros = round_half_away (micros m) (int u), money_currency = money_currency m\<rparr> \<and>
    2 * \<bar>1000000 * round_half_away (micros m * ppm r) 1000000 - micros m * ppm r\<bar> \<le> 1000000 \<and>
    2 * \<bar>int u * round_half_away (micros m) (int u) - micros m\<bar> \<le> int u"
proof -
  have m: "\<bar>micros m\<bar> \<le> 1000000000000000000" and r: "\<bar>ppm r\<bar> \<le> 1000000"
    using assms(1,2) by (auto simp: money_ok_def rate_ok_def money_bounds)
  have p: "\<bar>micros m * ppm r\<bar> \<le> 1000000 * 1000000000000000000"
    using mult_mono [OF m r] by (simp add: abs_mult)
  then have pr: "in_i128 (micros m * ppm r)" "\<bar>micros m * ppm r\<bar> < i128_max"
    by (auto simp: in_i128_def width_simps)
  have s: "\<bar>round_half_away (micros m * ppm r) 1000000\<bar> \<le> 1000000000000000000"
    by (rule round_half_away_le) (use p in auto)
  have du: "\<bar>round_half_away (micros m) (int u)\<bar> \<le> 1000000000000000000"
  proof (rule round_half_away_le)
    show "\<bar>micros m\<bar> \<le> int u * 1000000000000000000"
      using m assms(3) mult_right_mono [of 1 "int u" 1000000000000000000] by simp
  qed (use assms(3) in auto)
  have e1: "div_round_half_away (micros m * ppm r) 1000000 = round_half_away (micros m * ppm r) 1000000"
    by (rule div_round_half_away_eq [OF pr(2)]) (simp_all add: width_simps)
  have e2: "div_round_half_away (micros m) (int u) = round_half_away (micros m) (int u)"
    by (rule div_round_half_away_eq) (use m assms(3,4) in \<open>auto simp: width_simps\<close>)
  show ?thesis
    using pr s du e1 e2 assms(3) round_half_away_near(1) [of 1000000 "micros m * ppm r"]
      round_half_away_near(1) [of "int u" "micros m"] bounded_in_i64 [OF s] bounded_in_i64 [OF du]
    by (simp add: money_scale_def mul_div_round_half_up_def div_units_def try_i128_def try_i64_def
        money_from_micros_ok MAX_MONEY_MICROS_def)
qed

theorem money_rounding_correct_witness:
  "money_scale (usd 5) (Rate 500000) = Inr (usd 3) \<and> div_units (usd (- 5)) 2 = Inr (usd (- 3))"
  using money_rounding_correct [of "usd 5" "Rate 500000" 2] money_rounding_correct [of "usd (- 5)" "Rate 500000" 2]
  by (simp add: usd_def money_ok_def rate_ok_def money_bounds width_simps round_half_away_def)

text \<open>
  Dividing a required quantity by a yield rate rounds up: when it succeeds, the input is the
  least quantity whose usable part covers the requirement, so a lossy process is never short.
\<close>

theorem yield_division_covers:
  assumes "quantity_ok q" and "rate_ok r" and "divide_by_yield q r = Inr p"
  shows "q_micros q * 1000000 \<le> q_micros p * ppm r \<and> (q_micros p - 1) * ppm r < q_micros q * 1000000 \<and> quantity_ok p"
proof -
  have q: "\<bar>q_micros q\<bar> \<le> 1000000000000000000" using assms(1) by (simp add: quantity_ok_def money_bounds)
  have r: "0 < ppm r" "ppm r \<le> 1000000"
    using assms(2,3) by (auto simp: divide_by_yield_def rate_ok_def money_bounds split: if_splits)
  let ?n = "q_micros q * 1000000"
  have "div_round_up ?n (ppm r) = - ((- ?n) div ppm r)"
    by (rule div_round_up_eq) (use q r in auto)
  then have p: "q_micros p = - ((- ?n) div ppm r)" "quantity_ok p"
    using assms(3) r by (auto simp: divide_by_yield_def mul_div_round_up_def quantity_new_ok quantity_ok_def split: if_splits)
  have "(- ?n) div ppm r * ppm r \<le> - ?n" "- ?n < ((- ?n) div ppm r + 1) * ppm r"
    unfolding distrib_right
    using div_mult_mod_eq [of "- ?n" "ppm r"] pos_mod_sign [OF r(1), of "- ?n"] pos_mod_bound [OF r(1), of "- ?n"]
    by linarith+
  then show ?thesis using p by (simp add: algebra_simps)
qed

theorem yield_division_covers_witness:
  "10 * 1000000 \<le> q_micros (ScaledQuantity 34) * 300000 \<and> (q_micros (ScaledQuantity 34) - 1) * 300000 < 10 * (1000000 :: int)"
proof -
  have "divide_by_yield (ScaledQuantity 10) (Rate 300000) = Inr (ScaledQuantity 34)"
    by (simp add: divide_by_yield_def mul_div_round_up_def try_i128_def try_i64_def in_i128_def in_i64_def
        div_round_up_def wrap_i128_def signed_divide_int_def quantity_new_def money_bounds width_simps)
  from yield_division_covers [OF _ _ this] show ?thesis
    by (simp add: quantity_ok_def rate_ok_def money_bounds)
qed

text \<open>
  The integer square roots are exact: for every 64-bit value the bisection returns the largest
  integer whose square does not exceed it, and the scaled root of a unit count is the floor of a
  million times its square root, without loss in the final cast.
\<close>

theorem isqrt_exact:
  assumes "v \<le> u64_max" and "units_ok u"
  shows "isqrt v * isqrt v \<le> v \<and> v < (isqrt v + 1) * (isqrt v + 1) \<and>
    isqrt_scaled_ppm u * isqrt_scaled_ppm u \<le> units_get u * 1000000000000 \<and>
    units_get u * 1000000000000 < (isqrt_scaled_ppm u + 1) * (isqrt_scaled_ppm u + 1)"
proof -
  let ?w = "units_get u * 1000000000000"
  have "isqrt_u128 ?w < 2 ^ 64"
  proof (rule ccontr)
    assume "\<not> isqrt_u128 ?w < 2 ^ 64"
    then have "2 ^ 64 * 2 ^ 64 \<le> isqrt_u128 ?w * isqrt_u128 ?w" by (intro mult_le_mono) auto
    also have "\<dots> \<le> ?w" using isqrt_u128_correct by blast
    also have "\<dots> \<le> 1000000000000 * 1000000000000" using assms(2) by (simp add: units_ok_def MAX_UNITS_def)
    finally show False by simp
  qed
  then have "isqrt_scaled_ppm u = isqrt_u128 ?w" by (simp add: isqrt_scaled_ppm_def)
  then show ?thesis using isqrt_correct [OF assms(1)] isqrt_u128_correct [of ?w] by simp
qed

theorem isqrt_exact_witness:
  "isqrt 17 * isqrt 17 \<le> 17 \<and> 17 < (isqrt 17 + 1) * (isqrt 17 + 1)"
  using isqrt_exact [of 17 "Units 1"] by (simp add: units_ok_def money_bounds width_simps)

text \<open>
  Requirements round up to whole packages: rounding a unit count up to a multiple gives the least
  multiple that is not smaller, and the ceiling division gives the least number of packages that
  covers the count.
\<close>

lemma round_up_to_multiple_least:
  assumes "0 < units_get k" and "round_up_to_multiple a k = Inr b"
  shows "units_get k dvd units_get b \<and> units_get a \<le> units_get b \<and> units_get b < units_get a + units_get k"
proof (cases "units_get a mod units_get k = 0")
  case True
  then show ?thesis using assms by (auto simp: round_up_to_multiple_def)
next
  case False
  let ?a = "units_get a" and ?k = "units_get k"
  have b: "units_get b = ?a + (?k - ?a mod ?k)"
    using assms False by (auto simp: round_up_to_multiple_def Let_def units_new_ok)
  have lt: "?a mod ?k < ?k" using assms(1) by simp
  have "?a + (?k - ?a mod ?k) = (?a div ?k + 1) * ?k"
    unfolding distrib_right using div_mult_mod_eq [of ?a ?k] lt by linarith
  then have "?k dvd units_get b" unfolding b by (metis dvd_triv_right)
  then show ?thesis using b lt False by simp
qed

lemma units_div_ceil_least:
  assumes "0 < units_get k" and "units_div_ceil a k = Inr c"
  shows "units_get a \<le> units_get c * units_get k \<and> units_get c * units_get k < units_get a + units_get k"
proof -
  have c: "units_get c = (units_get a + (units_get k - 1)) div units_get k"
    using assms by (auto simp: units_div_ceil_def units_new_ok)
  show ?thesis
    using div_mult_mod_eq [of "units_get a + (units_get k - 1)" "units_get k"] assms(1)
      mod_less_divisor [OF assms(1), of "units_get a + (units_get k - 1)"]
    unfolding c by linarith
qed

end
