(* ===== verification/Supply_Basis.thy ===== *)
theory Supply_Basis
  imports Exact_Money
begin

text \<open>
  Evidence, assumptions, the typed unknown and quantile distributions
  (\<open>crates/supply-core/src/basis.rs\<close> and \<open>distribution.rs\<close>). A known value of a term carries
  evidence or an assumption, an unknown carries a typed reason, and every text is bounded. An
  \<open>E: Display\<close> is the text of the error, so the fallible maps take the printer of their error
  type as an argument.
\<close>

section \<open>Bounded text, revisions and days\<close>

definition MAX_ID_BYTES :: nat where "MAX_ID_BYTES = 128"
definition MAX_TEXT_BYTES :: nat where "MAX_TEXT_BYTES = 1024"
definition MAX_CONDITIONS :: nat where "MAX_CONDITIONS = 16"
definition MAX_ASSUMPTIONS :: nat where "MAX_ASSUMPTIONS = 16"

lemmas basis_bounds [faktor_defs] =
  MAX_ID_BYTES_def MAX_TEXT_BYTES_def MAX_CONDITIONS_def MAX_ASSUMPTIONS_def

definition supply_validate_text :: "string \<Rightarrow> nat \<Rightarrow> string \<Rightarrow> exact_error + unit" where
  "supply_validate_text value mx what =
     (if value = [] then Inl (OutOfBounds what ''empty'')
      else if length value > mx
      then Inl (OutOfBounds what (dec_text (length value) @ '' bytes exceeds '' @ dec_text mx))
      else Inr ())"

text \<open>The \<open>Display\<close> of the errors of \<open>money.rs\<close>.\<close>

fun exact_error_text :: "exact_error \<Rightarrow> string" where
  "exact_error_text InvalidCurrency = ''currency must be exactly three uppercase ASCII letters''"
| "exact_error_text (OutOfBounds what detail) = what @ '' is outside its bound: '' @ detail"
| "exact_error_text TooManyFractionalDigits = ''value has more than six fractional digits''"
| "exact_error_text Exact_Overflow = ''exact arithmetic overflowed''"
| "exact_error_text DivisionByZero = ''division by zero''"
| "exact_error_text (Negative_Value what) = what @ '' must not be negative''"
| "exact_error_text (CurrencyMismatch left right) =
     ''currency mismatch: '' @ currency_code left @ '' vs '' @ currency_code right"

datatype revision = Revision (revision_get: nat)

definition revision_INITIAL :: revision where
  "revision_INITIAL = Revision 0"

definition revision_next :: "revision \<Rightarrow> exact_error + revision" where
  "revision_next r = bind_result (ok_or Exact_Overflow (try_u64 (revision_get r + 1))) (\<lambda>v. Inr (Revision v))"

datatype day = Day (day_number: int)

definition day_add :: "day \<Rightarrow> int \<Rightarrow> exact_error + day" where
  "day_add d days = bind_result (ok_or Exact_Overflow (try_i64 (day_number d + days))) (\<lambda>v. Inr (Day v))"

definition day_before :: "day \<Rightarrow> day \<Rightarrow> bool" where
  "day_before a b \<longleftrightarrow> day_number a < day_number b"

section \<open>Evidence and assumptions\<close>

datatype source_kind =
    SupplierDocument | TestReport | ErpExtract | PurchasingRecord | PublicTariff
  | EngineeringRequirement | AuditReport | InternalEstimate | MarketQuote | Calculator

record evidence_ref =
  ev_id :: string
  ev_revision :: revision
  ev_digest :: "string option"

definition evidence_ref_validate :: "evidence_ref \<Rightarrow> exact_error + unit" where
  "evidence_ref_validate e =
     and_then (supply_validate_text (ev_id e) MAX_ID_BYTES ''evidence id'')
       (case ev_digest e of
          Some digest \<Rightarrow> supply_validate_text digest MAX_ID_BYTES ''evidence digest''
        | None \<Rightarrow> Inr ())"

definition evidence_ref_new :: "string \<Rightarrow> revision \<Rightarrow> string option \<Rightarrow> exact_error + evidence_ref" where
  "evidence_ref_new i r digest =
     and_then (supply_validate_text i MAX_ID_BYTES ''evidence id'')
       (and_then (case digest of Some d \<Rightarrow> supply_validate_text d MAX_ID_BYTES ''evidence digest'' | None \<Rightarrow> Inr ())
          (Inr \<lparr>ev_id = i, ev_revision = r, ev_digest = digest\<rparr>))"

record provenance =
  pv_source :: source_kind
  pv_evidence :: evidence_ref
  captured_on :: day
  pv_method :: string
  conditions :: "string list"
  pv_falsifier :: string

definition provenance_validate :: "provenance \<Rightarrow> exact_error + unit" where
  "provenance_validate p =
     and_then (evidence_ref_validate (pv_evidence p))
    (and_then (supply_validate_text (pv_method p) MAX_TEXT_BYTES ''provenance method'')
    (and_then (supply_validate_text (pv_falsifier p) MAX_TEXT_BYTES ''provenance falsifier'')
    (and_then (refuse_if (length (conditions p) > MAX_CONDITIONS)
        (OutOfBounds ''conditions'' (dec_text (length (conditions p)) @ '' entries'')))
    (try_each (\<lambda>c. supply_validate_text c MAX_TEXT_BYTES ''provenance condition'') (conditions p)))))"

definition provenance_new ::
    "source_kind \<Rightarrow> evidence_ref \<Rightarrow> day \<Rightarrow> string \<Rightarrow> string list \<Rightarrow> string \<Rightarrow> exact_error + provenance" where
  "provenance_new source evidence captured method conds falsifier =
     (if length conds > MAX_CONDITIONS
      then Inl (OutOfBounds ''conditions''
             (dec_text (length conds) @ '' entries exceeds '' @ dec_text MAX_CONDITIONS))
      else
        (let p = \<lparr>pv_source = source, pv_evidence = evidence, captured_on = captured, pv_method = method,
                  conditions = conds, pv_falsifier = falsifier\<rparr>
         in and_then (provenance_validate p) (Inr p)))"

record assumption =
  as_id :: string
  statement :: string
  as_rationale :: string
  as_provenance :: provenance
  as_falsifier :: string

definition assumption_validate :: "assumption \<Rightarrow> exact_error + unit" where
  "assumption_validate a =
     and_then (supply_validate_text (as_id a) MAX_ID_BYTES ''assumption id'')
    (and_then (supply_validate_text (statement a) MAX_TEXT_BYTES ''assumption statement'')
    (and_then (supply_validate_text (as_rationale a) MAX_TEXT_BYTES ''assumption rationale'')
    (and_then (supply_validate_text (as_falsifier a) MAX_TEXT_BYTES ''assumption falsifier'')
    (provenance_validate (as_provenance a)))))"

definition assumption_new ::
    "string \<Rightarrow> string \<Rightarrow> string \<Rightarrow> provenance \<Rightarrow> string \<Rightarrow> exact_error + assumption" where
  "assumption_new i st rationale prov falsifier =
     (let a = \<lparr>as_id = i, statement = st, as_rationale = rationale, as_provenance = prov,
               as_falsifier = falsifier\<rparr>
      in and_then (assumption_validate a) (Inr a))"

datatype basis = Basis_Provenance provenance | Basis_Assumption assumption

section \<open>The typed unknown\<close>

datatype unavailable_reason =
    MissingEvidence | NotProvided | Ambiguous | Reason_Expired | ConflictingEvidence
  | NotApplicable | OutOfRange | Reason_Arithmetic | NoCandidate

fun unavailable_reason_as_str :: "unavailable_reason \<Rightarrow> string" where
  "unavailable_reason_as_str MissingEvidence = ''missing_evidence''"
| "unavailable_reason_as_str NotProvided = ''not_provided''"
| "unavailable_reason_as_str Ambiguous = ''ambiguous''"
| "unavailable_reason_as_str Reason_Expired = ''expired''"
| "unavailable_reason_as_str ConflictingEvidence = ''conflicting_evidence''"
| "unavailable_reason_as_str NotApplicable = ''not_applicable''"
| "unavailable_reason_as_str OutOfRange = ''out_of_range''"
| "unavailable_reason_as_str Reason_Arithmetic = ''arithmetic''"
| "unavailable_reason_as_str NoCandidate = ''no_candidate''"

record unavailable =
  un_reason :: unavailable_reason
  un_detail :: "string option"

definition unavailable_new :: "unavailable_reason \<Rightarrow> string \<Rightarrow> unavailable" where
  "unavailable_new r detail = \<lparr>un_reason = r, un_detail = Some detail\<rparr>"

definition unavailable_bare :: "unavailable_reason \<Rightarrow> unavailable" where
  "unavailable_bare r = \<lparr>un_reason = r, un_detail = None\<rparr>"

definition is_not_applicable :: "unavailable \<Rightarrow> bool" where
  "is_not_applicable u \<longleftrightarrow> un_reason u = NotApplicable"

definition unavailable_validate :: "unavailable \<Rightarrow> exact_error + unit" where
  "unavailable_validate u =
     (case un_detail u of
        Some detail \<Rightarrow> supply_validate_text detail MAX_TEXT_BYTES ''unavailable detail''
      | None \<Rightarrow> Inr ())"

datatype 'a availability = Known 'a | Unavailable unavailable

definition avail_unavailable :: "unavailable_reason \<Rightarrow> string \<Rightarrow> 'a availability" where
  "avail_unavailable r detail = Unavailable (unavailable_new r detail)"

fun is_known :: "'a availability \<Rightarrow> bool" where
  "is_known (Known v) = True"
| "is_known (Unavailable u) = False"

fun as_known :: "'a availability \<Rightarrow> 'a option" where
  "as_known (Known v) = Some v"
| "as_known (Unavailable u) = None"

fun avail_reason :: "'a availability \<Rightarrow> unavailable option" where
  "avail_reason (Known v) = None"
| "avail_reason (Unavailable u) = Some u"

fun avail_map :: "('a \<Rightarrow> 'b) \<Rightarrow> 'a availability \<Rightarrow> 'b availability" where
  "avail_map f (Known v) = Known (f v)"
| "avail_map f (Unavailable u) = Unavailable u"

fun avail_try_map :: "('e \<Rightarrow> string) \<Rightarrow> ('a \<Rightarrow> 'e + 'b) \<Rightarrow> 'a availability \<Rightarrow> 'b availability" where
  "avail_try_map display f (Known v) =
     (case f v of Inr w \<Rightarrow> Known w | Inl error \<Rightarrow> Unavailable (unavailable_new OutOfRange (display error)))"
| "avail_try_map display f (Unavailable u) = Unavailable u"

fun avail_zip :: "'a availability \<Rightarrow> 'b availability \<Rightarrow> ('a \<times> 'b) availability" where
  "avail_zip (Known left) (Known right) = Known (left, right)"
| "avail_zip (Unavailable u) _ = Unavailable u"
| "avail_zip (Known _) (Unavailable u) = Unavailable u"

fun avail_validate :: "'a availability \<Rightarrow> exact_error + unit" where
  "avail_validate (Unavailable u) = unavailable_validate u"
| "avail_validate (Known v) = Inr ()"

section \<open>Terms\<close>

record 'a supply_term =
  term_value :: "'a availability"
  term_basis :: "basis option"

definition term_evidence :: "'a \<Rightarrow> provenance \<Rightarrow> 'a supply_term" where
  "term_evidence v p = \<lparr>term_value = Known v, term_basis = Some (Basis_Provenance p)\<rparr>"

definition term_assumption :: "'a \<Rightarrow> assumption \<Rightarrow> 'a supply_term" where
  "term_assumption v a = \<lparr>term_value = Known v, term_basis = Some (Basis_Assumption a)\<rparr>"

definition term_with_basis :: "'a \<Rightarrow> basis \<Rightarrow> 'a supply_term" where
  "term_with_basis v b = \<lparr>term_value = Known v, term_basis = Some b\<rparr>"

definition term_unknown :: "unavailable_reason \<Rightarrow> string \<Rightarrow> 'a supply_term" where
  "term_unknown r detail = \<lparr>term_value = avail_unavailable r detail, term_basis = None\<rparr>"

definition term_not_applicable :: "string \<Rightarrow> 'a supply_term" where
  "term_not_applicable detail = term_unknown NotApplicable detail"

definition term_known :: "'a supply_term \<Rightarrow> 'a option" where
  "term_known t = as_known (term_value t)"

definition term_validate :: "'a supply_term \<Rightarrow> exact_error + unit" where
  "term_validate t =
     and_then (avail_validate (term_value t))
    (and_then (refuse_if (is_known (term_value t) \<and> term_basis t = None)
        (OutOfBounds ''term'' ''a known value must carry evidence or an assumption''))
    (case term_basis t of
       Some (Basis_Provenance p) \<Rightarrow> provenance_validate p
     | Some (Basis_Assumption a) \<Rightarrow> assumption_validate a
     | None \<Rightarrow> Inr ()))"

definition term_map :: "('a \<Rightarrow> 'b) \<Rightarrow> 'a supply_term \<Rightarrow> 'b supply_term" where
  "term_map f t = \<lparr>term_value = avail_map f (term_value t), term_basis = term_basis t\<rparr>"

definition term_try_map :: "('e \<Rightarrow> string) \<Rightarrow> ('a \<Rightarrow> 'e + 'b) \<Rightarrow> 'a supply_term \<Rightarrow> 'b supply_term" where
  "term_try_map display f t =
     (case term_value t of
        Known v \<Rightarrow>
          (case f v of
             Inr w \<Rightarrow> \<lparr>term_value = Known w, term_basis = term_basis t\<rparr>
           | Inl error \<Rightarrow>
               \<lparr>term_value = avail_unavailable Reason_Arithmetic (display error), term_basis = None\<rparr>)
      | Unavailable u \<Rightarrow> \<lparr>term_value = Unavailable u, term_basis = term_basis t\<rparr>)"

section \<open>Uncertainty notes and conflicts\<close>

datatype uncertainty_class =
    Class_Exact | BoundedRange | Class_Distribution | Approximation | Class_Unknown

record uncertainty_note =
  un_subject :: string
  un_class :: uncertainty_class
  un_note :: string

definition uncertainty_note_validate :: "uncertainty_note \<Rightarrow> exact_error + unit" where
  "uncertainty_note_validate n =
     and_then (supply_validate_text (un_subject n) MAX_ID_BYTES ''uncertainty subject'')
       (supply_validate_text (un_note n) MAX_TEXT_BYTES ''uncertainty note'')"

record supply_conflict =
  cf_subject :: string
  cf_values :: "string list"
  cf_evidence :: "evidence_ref list"
  cf_impact :: string

definition conflict_validate :: "supply_conflict \<Rightarrow> exact_error + unit" where
  "conflict_validate c =
     and_then (supply_validate_text (cf_subject c) MAX_ID_BYTES ''conflict subject'')
    (and_then (supply_validate_text (cf_impact c) MAX_TEXT_BYTES ''conflict impact'')
    (and_then (refuse_if (length (cf_values c) < 2 \<or> length (cf_values c) > MAX_CONDITIONS)
        (OutOfBounds ''conflict values'' (dec_text (length (cf_values c)) @ '' entries'')))
    (and_then (try_each (\<lambda>v. supply_validate_text v MAX_TEXT_BYTES ''conflict value'') (cf_values c))
    (try_each evidence_ref_validate (cf_evidence c)))))"

section \<open>Quantile distributions\<close>

definition MAX_SAMPLE_SIZE :: nat where "MAX_SAMPLE_SIZE = 100000000"

datatype quantile = P10 | P50 | P90 | P99

record distribution =
  p10 :: int
  p50 :: int
  p90 :: int
  p99 :: int
  sample_size :: nat

definition distribution_validate :: "distribution \<Rightarrow> exact_error + unit" where
  "distribution_validate d =
     (if sample_size d = 0 then Inl (OutOfBounds ''sample size'' ''zero observations'')
      else if sample_size d > MAX_SAMPLE_SIZE
      then Inl (OutOfBounds ''sample size''
             (dec_text (sample_size d) @ '' exceeds '' @ dec_text MAX_SAMPLE_SIZE))
      else if p10 d < 0 then Inl (Negative_Value ''quantile'')
      else if \<not> (p10 d \<le> p50 d \<and> p50 d \<le> p90 d \<and> p90 d \<le> p99 d)
      then Inl (OutOfBounds ''quantiles''
             (''not monotonic: '' @ int_text (p10 d) @ '' '' @ int_text (p50 d) @ '' ''
              @ int_text (p90 d) @ '' '' @ int_text (p99 d)))
      else Inr ())"

fun distribution_quantile :: "distribution \<Rightarrow> quantile \<Rightarrow> int" where
  "distribution_quantile d P10 = p10 d"
| "distribution_quantile d P50 = p50 d"
| "distribution_quantile d P90 = p90 d"
| "distribution_quantile d P99 = p99 d"

definition distribution_median :: "distribution \<Rightarrow> int" where
  "distribution_median d = p50 d"

definition distribution_spread :: "distribution \<Rightarrow> int" where
  "distribution_spread d = p90 d - p10 d"

section \<open>What validation guarantees\<close>

lemma supply_validate_text_ok: "supply_validate_text s mx what = Inr u \<longleftrightarrow> s \<noteq> [] \<and> length s \<le> mx"
  by (auto simp: supply_validate_text_def)

text \<open>A fallible map keeps a valid term valid, whatever the function refuses, if its errors print short.\<close>

lemma term_try_map_valid:
  assumes "term_validate t = Inr ()"
    and "\<And>e. display e \<noteq> [] \<and> length (display e) \<le> MAX_TEXT_BYTES"
  shows "term_validate (term_try_map display f t) = Inr ()"
  using assms
  by (auto simp: term_validate_def term_try_map_def avail_unavailable_def unavailable_new_def
      unavailable_validate_def supply_validate_text_ok split: availability.splits sum.splits)

text \<open>Only the constructors that name a basis make a known value: an accepted known term has one.\<close>

lemma known_term_has_basis: "term_validate t = Inr u \<Longrightarrow> term_known t = Some v \<Longrightarrow> term_basis t \<noteq> None"
  by (cases "term_value t") (auto simp: term_validate_def term_known_def)

lemma term_map_valid: "term_validate (term_map f t) = Inr u \<longleftrightarrow> term_validate t = Inr u"
  by (cases "term_value t") (auto simp: term_validate_def term_map_def)

lemma distribution_ok:
  "distribution_validate d = Inr u \<longleftrightarrow>
     0 < sample_size d \<and> sample_size d \<le> MAX_SAMPLE_SIZE \<and> 0 \<le> p10 d \<and> p10 d \<le> p50 d \<and> p50 d \<le> p90 d
     \<and> p90 d \<le> p99 d"
  by (auto simp: distribution_validate_def)

lemma distribution_quantile_nonneg: "distribution_validate d = Inr u \<Longrightarrow> 0 \<le> distribution_quantile d q"
  by (cases q) (auto simp: distribution_ok)

end
