(* ===== verification/Planning_Model.thy ===== *)
theory Planning_Model
  imports Supply_Basis
    "HOL-Library.AList" "HOL-Library.Product_Lexorder" "HOL-Library.List_Lexorder" "HOL-Library.Char_ord"
begin

text \<open>
  The data of materials planning and its validation (\<open>crates/supply-planning/src/lib.rs\<close>), with
  the topological sort of the bill of materials that validation runs. Part and supplier
  identifiers are \<open>u32\<close> newtypes, here \<^typ>\<open>nat\<close>. A run of planning is refused with a typed error
  or stops in a panic: an index outside a vector, an underflow of a counter, a division by a bucket
  length of zero or an overflow of the horizon end. \<open>HashMap\<close>s keyed by
  a part are association lists or, when only grouped by a key in insertion order, a \<open>filter\<close> of the
  list they group; the ready \<open>BTreeSet\<close> is the sorted list of its elements.
\<close>

type_synonym part_id = nat
type_synonym supplier_id = nat

section \<open>Bounds, errors and the service-level table\<close>

definition MAX_PERIODS :: nat where "MAX_PERIODS = 520"
definition MAX_PARTS :: nat where "MAX_PARTS = 20000"
definition MAX_BOM_LINES :: nat where "MAX_BOM_LINES = 500000"
definition MAX_DEMAND_LINES :: nat where "MAX_DEMAND_LINES = 500000"
definition MAX_CONFIRMED_LINES :: nat where "MAX_CONFIRMED_LINES = 500000"
definition MAX_BOM_DEPTH :: nat where "MAX_BOM_DEPTH = 64"
definition MAX_SUPPLIERS_PER_PART :: nat where "MAX_SUPPLIERS_PER_PART = 16"
definition MAX_ORDERS_PER_PART :: nat where "MAX_ORDERS_PER_PART = 4 * MAX_PERIODS"

lemmas planning_bounds [faktor_defs] =
  MAX_PERIODS_def MAX_PARTS_def MAX_BOM_LINES_def MAX_DEMAND_LINES_def MAX_CONFIRMED_LINES_def
  MAX_BOM_DEPTH_def MAX_SUPPLIERS_PER_PART_def MAX_ORDERS_PER_PART_def

definition SERVICE_LEVEL_TABLE :: "(int \<times> int) list" where
  "SERVICE_LEVEL_TABLE =
     [(500000, 0), (750000, 674490), (800000, 841621), (850000, 1036433), (900000, 1281552),
      (910000, 1340755), (920000, 1405071), (930000, 1475791), (940000, 1554774), (950000, 1644854),
      (960000, 1750686), (970000, 1880794), (975000, 1959964), (980000, 2053749), (990000, 2326348),
      (995000, 2575829), (999000, 3090232)]"

definition service_level_z :: "int \<Rightarrow> int option" where
  "service_level_z level = map_option snd (find (\<lambda>e. fst e = level) SERVICE_LEVEL_TABLE)"

datatype planning_error =
    Plan_Exact exact_error
  | NoPeriods
  | NoDaysPerPeriod
  | PeriodBound nat nat
  | DuplicatePart part_id
  | UnknownPart part_id
  | BomCycle
  | BomDepth nat
  | PeriodOutOfRange nat nat
  | Plan_Invalid string
  | SupplierShares int
  | Plan_CurrencyMismatch currency currency
  | UnsupportedServiceLevel int
  | Plan_Bound string nat
  | Plan_Negative string

definition part_id_text :: "part_id \<Rightarrow> string" where
  "part_id_text p = ''PartId:'' @ dec_text p"

fun planning_error_text :: "planning_error \<Rightarrow> string" where
  "planning_error_text (Plan_Exact e) = exact_error_text e"
| "planning_error_text NoPeriods = ''periods must be at least 1''"
| "planning_error_text NoDaysPerPeriod = ''days per period must be positive''"
| "planning_error_text (PeriodBound mx actual) = ''periods '' @ dec_text actual @ '' exceed '' @ dec_text mx"
| "planning_error_text (DuplicatePart p) = ''duplicate part plan '' @ part_id_text p"
| "planning_error_text (UnknownPart p) = ''part '' @ part_id_text p @ '' has no planning record''"
| "planning_error_text BomCycle = ''BOM cycle detected''"
| "planning_error_text (BomDepth d) = ''BOM depth exceeds '' @ dec_text d"
| "planning_error_text (PeriodOutOfRange period periods) =
     ''period '' @ dec_text period @ '' is outside 0..'' @ dec_text periods"
| "planning_error_text (Plan_Invalid s) = s"
| "planning_error_text (SupplierShares actual) =
     ''supplier shares sum to '' @ int_text actual @ '' ppm, expected 1,000,000''"
| "planning_error_text (Plan_CurrencyMismatch left right) =
     ''currency mismatch: '' @ currency_code left @ '' vs '' @ currency_code right"
| "planning_error_text (UnsupportedServiceLevel l) =
     ''service level '' @ int_text l @ '' ppm is not in the exact table''"
| "planning_error_text (Plan_Bound what mx) = what @ '' exceeds '' @ dec_text mx @ '' entries''"
| "planning_error_text (Plan_Negative what) = what @ '' must not be negative''"

datatype planning_fault = Refused planning_error | Panic

text \<open>\<open>?\<close> on an \<open>ExactError\<close> and on a \<open>PlanningError\<close>.\<close>

abbreviation exact_err :: "exact_error + 'a \<Rightarrow> planning_error + 'a" where
  "exact_err \<equiv> map_err Plan_Exact"

abbreviation refused :: "planning_error + 'a \<Rightarrow> planning_fault + 'a" where
  "refused \<equiv> map_err Refused"

section \<open>The input\<close>

record bom_line =
  bl_parent :: part_id
  bl_child :: part_id
  quantity_per :: scaled_quantity
  scrap_rate :: rate

record demand_line =
  dl_part :: part_id
  dl_period :: nat
  dl_quantity :: units

record confirmed_supply =
  cs_period :: nat
  cs_quantity :: units

record lot_policy =
  moq :: units
  multiple :: units

definition lot_validate :: "lot_policy \<Rightarrow> planning_error + unit" where
  "lot_validate l = refuse_if (units_get (multiple l) = 0) (Plan_Invalid ''order multiple is zero'')"

definition lot_round :: "lot_policy \<Rightarrow> units \<Rightarrow> planning_error + units" where
  "lot_round l requirement =
     (let at_least_moq = units_max requirement (moq l)
      in exact_err (round_up_to_multiple at_least_moq (multiple l)))"

record demand_stats =
  mean_micros :: int
  sigma_micros :: int

definition stats_validate :: "demand_stats \<Rightarrow> planning_error + unit" where
  "stats_validate s =
     and_then (refuse_if (mean_micros s < 0) (Plan_Negative ''demand mean''))
       (refuse_if (sigma_micros s < 0) (Plan_Negative ''demand sigma''))"

definition try_from_int_error :: string where
  "try_from_int_error = ''out of range integral type conversion attempted''"

definition cv_ppm :: "demand_stats \<Rightarrow> int availability" where
  "cv_ppm s =
     (if mean_micros s = 0
      then avail_unavailable OutOfRange ''zero mean demand has no coefficient of variation''
      else
        (case mul_div_round_half_up (sigma_micros s) 1000000 (mean_micros s) of
           Some v \<Rightarrow>
             (case try_i64 v of
                Some v \<Rightarrow> Known v
              | None \<Rightarrow> avail_unavailable Reason_Arithmetic try_from_int_error)
         | None \<Rightarrow> avail_unavailable Reason_Arithmetic ''coefficient of variation overflowed''))"

record supply_share =
  share_supplier :: supplier_id
  share_ppm :: int

datatype lifecycle_status = LS_Active | LS_LastTimeBuy | LS_NotRecommendedForNewDesign | LS_EndOfLife | LS_Obsolete

definition lifecycle_terminal :: "lifecycle_status \<Rightarrow> bool" where
  "lifecycle_terminal s \<longleftrightarrow> s = LS_EndOfLife \<or> s = LS_Obsolete"

record part_plan =
  pp_part :: part_id
  mpn :: string
  on_hand :: units
  pp_confirmed :: "confirmed_supply list"
  lead_time_days :: "distribution supply_term"
  lot :: lot_policy
  shelf_life_days :: "nat option"
  pp_lifecycle :: lifecycle_status
  last_order_day :: "day option"
  unit_cost :: "money supply_term"
  pp_demand_stats :: "demand_stats supply_term"
  suppliers :: "supply_share list"

record planning_input =
  pi_currency :: currency
  periods :: nat
  days_per_period :: nat
  periods_per_year :: nat
  horizon_start :: day
  service_level_ppm :: int
  lead_time_quantile :: quantile
  parts :: "part_plan list"
  bom :: "bom_line list"
  demand :: "demand_line list"

definition share_step :: "int \<Rightarrow> supply_share \<Rightarrow> planning_error + int" where
  "share_step acc share =
     (if \<not> (0 \<le> share_ppm share \<and> share_ppm share \<le> 1000000)
      then Inl (Plan_Invalid ''supplier share outside 0..=1,000,000 ppm'')
      else ok_or (Plan_Exact Exact_Overflow) (try_i64 (acc + share_ppm share)))"

definition checked_share_total :: "supply_share list \<Rightarrow> planning_error + int" where
  "checked_share_total shares = try_fold share_step 0 shares"

definition part_plan_validate :: "part_plan \<Rightarrow> planning_error + unit" where
  "part_plan_validate p =
     and_then (exact_err (supply_validate_text (mpn p) MAX_ID_BYTES ''mpn''))
    (and_then (exact_err (term_validate (lead_time_days p)))
    (and_then (case term_known (lead_time_days p) of
                 Some d \<Rightarrow> exact_err (distribution_validate d) | None \<Rightarrow> Inr ())
    (and_then (lot_validate (lot p))
    (and_then (refuse_if (shelf_life_days p = Some 0)
                 (Plan_Invalid ''shelf life of zero days is not a usable policy''))
    (and_then (exact_err (term_validate (unit_cost p)))
    (and_then (exact_err (term_validate (pp_demand_stats p)))
    (and_then (case term_known (pp_demand_stats p) of Some s \<Rightarrow> stats_validate s | None \<Rightarrow> Inr ())
    (and_then (refuse_if (length (suppliers p) > MAX_SUPPLIERS_PER_PART)
                 (Plan_Bound ''suppliers per part'' MAX_SUPPLIERS_PER_PART))
    (and_then (refuse_if (suppliers p = [])
                 (Plan_Invalid (''part '' @ dec_text (pp_part p) @ '' has no supplier allocation'')))
    (bind_result (checked_share_total (suppliers p)) (\<lambda>total.
       refuse_if (total \<noteq> 1000000) (SupplierShares total))))))))))))"

section \<open>The topological sort of the bill of materials\<close>

definition children_of :: "planning_input \<Rightarrow> part_id \<Rightarrow> bom_line list" where
  "children_of inp p = filter (\<lambda>l. bl_parent l = p) (bom inp)"

fun or_insert_zero :: "part_id list \<Rightarrow> (part_id \<times> nat) list \<Rightarrow> (part_id \<times> nat) list" where
  "or_insert_zero [] m = m"
| "or_insert_zero (p # ps) m = or_insert_zero ps (if map_of m p = None then m @ [(p, 0)] else m)"

fun count_children :: "bom_line list \<Rightarrow> (part_id \<times> nat) list \<Rightarrow> (part_id \<times> nat) list" where
  "count_children [] m = m"
| "count_children (l # ls) m =
     count_children ls
       (case map_of m (bl_child l) of
          None \<Rightarrow> m @ [(bl_child l, 1)]
        | Some _ \<Rightarrow> AList.map_entry (bl_child l) Suc m)"

definition initial_indegree :: "planning_input \<Rightarrow> (part_id \<times> nat) list" where
  "initial_indegree inp = count_children (bom inp) (or_insert_zero (map pp_part (parts inp)) [])"

definition initial_ready :: "(part_id \<times> nat) list \<Rightarrow> part_id list" where
  "initial_ready indegree = foldr insort_insert (map fst (filter (\<lambda>e. snd e = 0) indegree)) []"

text \<open>The inner loop over the lines of one part; \<^term>\<open>None\<close> is the underflow of a counter.\<close>

fun release_children ::
    "bom_line list \<Rightarrow> part_id list \<Rightarrow> (part_id \<times> nat) list \<Rightarrow> (part_id list \<times> (part_id \<times> nat) list) option" where
  "release_children [] ready indegree = Some (ready, indegree)"
| "release_children (l # ls) ready indegree =
     (case map_of indegree (bl_child l) of
        None \<Rightarrow> release_children ls ready indegree
      | Some 0 \<Rightarrow> None
      | Some (Suc degree) \<Rightarrow>
          release_children ls (if degree = 0 then insort_insert (bl_child l) ready else ready)
            (AList.map_entry (bl_child l) (\<lambda>_. degree) indegree))"

definition degree_sum :: "(part_id \<times> nat) list \<Rightarrow> nat" where
  "degree_sum m = sum_list (map snd m)"

lemma degree_sum_map_entry:
  "map_of m k = Some (Suc d) \<Longrightarrow> degree_sum m = Suc (degree_sum (AList.map_entry k (\<lambda>_. d) m))"
  by (induction m) (auto simp: degree_sum_def split: if_splits)

lemma length_insort_insert: "length (insort_insert x xs) \<le> Suc (length xs)"
  by (simp add: insort_insert_key_def)

lemma release_children_measure:
  "release_children ls ready indegree = Some (ready', indegree') \<Longrightarrow>
     2 * degree_sum indegree' + length ready' \<le> 2 * degree_sum indegree + length ready"
proof (induction ls ready indegree rule: release_children.induct)
  case (2 l ls ready indegree)
  show ?case
  proof (cases "map_of indegree (bl_child l)")
    case None
    with 2 show ?thesis by simp
  next
    case (Some k)
    with 2(3) obtain d where d: "map_of indegree (bl_child l) = Some (Suc d)"
      by (cases k) auto
    with 2(2) [OF d] 2(3)
    have "2 * degree_sum indegree' + length ready'
      \<le> 2 * degree_sum (AList.map_entry (bl_child l) (\<lambda>_. d) indegree)
        + length (if d = 0 then insort_insert (bl_child l) ready else ready)" by simp
    then show ?thesis
      using degree_sum_map_entry [OF d] length_insort_insert [of "bl_child l" ready]
      by (auto split: if_splits)
  qed
qed simp

text \<open>The loop \<open>while let Some(part) = ready.pop_first()\<close>, with the accumulated \<open>order\<close>.\<close>

function kahn ::
    "planning_input \<Rightarrow> part_id list \<Rightarrow> (part_id \<times> nat) list \<Rightarrow> part_id list \<Rightarrow> part_id list option" where
  "kahn inp [] indegree order = Some order"
| "kahn inp (part # ready) indegree order =
     (case release_children (children_of inp part) ready indegree of
        None \<Rightarrow> None
      | Some (ready', indegree') \<Rightarrow> kahn inp ready' indegree' (order @ [part]))"
  by pat_completeness auto

termination kahn
  by (relation "measure (\<lambda>(inp, ready, indegree, order). 2 * degree_sum indegree + length ready)")
    (auto dest!: release_children_measure)

definition topological_order :: "planning_input \<Rightarrow> planning_fault + part_id list" where
  "topological_order inp =
     (let indegree = initial_indegree inp; nodes = remdups (map pp_part (parts inp))
      in case kahn inp (initial_ready indegree) indegree [] of
           None \<Rightarrow> Inl Panic
         | Some order \<Rightarrow> if length order \<noteq> length nodes then Inl (Refused BomCycle) else Inr order)"

section \<open>Validation of the whole input\<close>

text \<open>One turn of the loop over the parts, with the set of the parts seen so far.\<close>

definition validate_part :: "planning_input \<Rightarrow> part_id list \<Rightarrow> part_plan \<Rightarrow> planning_error + part_id list" where
  "validate_part inp seen plan =
     and_then (part_plan_validate plan)
    (and_then (refuse_if (pp_part plan \<in> set seen) (DuplicatePart (pp_part plan)))
    (and_then (refuse_if (length (pp_confirmed plan) > MAX_CONFIRMED_LINES)
                 (Plan_Bound ''confirmed lines'' MAX_CONFIRMED_LINES))
    (and_then (try_each (\<lambda>c. refuse_if (cs_period c \<ge> periods inp) (PeriodOutOfRange (cs_period c) (periods inp)))
                 (pp_confirmed plan))
    (and_then (case term_known (unit_cost plan) of
                 Some cost \<Rightarrow>
                   and_then (refuse_if (money_currency cost \<noteq> pi_currency inp)
                               (Plan_CurrencyMismatch (pi_currency inp) (money_currency cost)))
                     (refuse_if (micros cost < 0) (Plan_Negative ''unit cost''))
               | None \<Rightarrow> Inr ())
    (Inr (pp_part plan # seen))))))"

definition validate_bom_line :: "part_id list \<Rightarrow> bom_line \<Rightarrow> planning_error + unit" where
  "validate_bom_line ids line =
     and_then (refuse_if (bl_parent line \<notin> set ids) (UnknownPart (bl_parent line)))
    (and_then (refuse_if (bl_child line \<notin> set ids) (UnknownPart (bl_child line)))
    (and_then (refuse_if (q_micros (quantity_per line) \<le> 0) (Plan_Invalid ''BOM quantity must be positive''))
    (refuse_if (ppm (scrap_rate line) \<ge> 1000000) (Plan_Invalid ''BOM scrap rate must be below 100%''))))"

definition validate_demand_line :: "planning_input \<Rightarrow> part_id list \<Rightarrow> demand_line \<Rightarrow> planning_error + unit" where
  "validate_demand_line inp ids line =
     and_then (refuse_if (dl_part line \<notin> set ids) (UnknownPart (dl_part line)))
    (and_then (refuse_if (dl_period line \<ge> periods inp) (PeriodOutOfRange (dl_period line) (periods inp)))
    (refuse_if (units_get (dl_quantity line) > MAX_UNITS) (Plan_Invalid ''demand quantity exceeds the bound'')))"

definition validate_fields :: "planning_input \<Rightarrow> planning_error + unit" where
  "validate_fields inp =
     and_then (refuse_if (periods inp = 0) NoPeriods)
    (and_then (refuse_if (periods inp > MAX_PERIODS) (PeriodBound MAX_PERIODS (periods inp)))
    (and_then (refuse_if (days_per_period inp = 0) NoDaysPerPeriod)
    (and_then (refuse_if (periods_per_year inp = 0) (Plan_Invalid ''periods per year must be positive''))
    (and_then (refuse_if (service_level_z (service_level_ppm inp) = None)
                 (UnsupportedServiceLevel (service_level_ppm inp)))
    (and_then (refuse_if (length (parts inp) > MAX_PARTS) (Plan_Bound ''parts'' MAX_PARTS))
    (and_then (refuse_if (length (bom inp) > MAX_BOM_LINES) (Plan_Bound ''BOM lines'' MAX_BOM_LINES))
    (and_then (refuse_if (length (demand inp) > MAX_DEMAND_LINES) (Plan_Bound ''demand lines'' MAX_DEMAND_LINES))
    (bind_result (try_fold (validate_part inp) [] (parts inp)) (\<lambda>ids.
     and_then (try_each (validate_bom_line ids) (bom inp))
       (try_each (validate_demand_line inp ids) (demand inp)))))))))))"

definition planning_validate :: "planning_input \<Rightarrow> planning_fault + unit" where
  "planning_validate inp =
     and_then (refused (validate_fields inp))
       (bind_result (topological_order inp) (\<lambda>_. Inr ()))"

end
