(* ===== verification/Sourcing_Model.thy ===== *)
theory Sourcing_Model
  imports Planning_Model
begin

text \<open>
  Requests for quotation, quotes and their inconsistencies (\<open>crates/supply-execution/src/lib.rs\<close>), with
  the part of the logistics kernel that says who pays which leg of a delivery
  (\<open>crates/supply-logistics/src/lib.rs\<close>).
\<close>

section \<open>Delivery terms\<close>

datatype incoterm = Exw | Fca | Fas | Fob | Cfr | Cif | Cpt | Cip | Dap | Dpu | Ddp

fun incoterm_code :: "incoterm \<Rightarrow> string" where
  "incoterm_code Exw = ''EXW''"
| "incoterm_code Fca = ''FCA''"
| "incoterm_code Fas = ''FAS''"
| "incoterm_code Fob = ''FOB''"
| "incoterm_code Cfr = ''CFR''"
| "incoterm_code Cif = ''CIF''"
| "incoterm_code Cpt = ''CPT''"
| "incoterm_code Cip = ''CIP''"
| "incoterm_code Dap = ''DAP''"
| "incoterm_code Dpu = ''DPU''"
| "incoterm_code Ddp = ''DDP''"

datatype transport_mode = Air | OceanFcl | OceanLcl | Rail | Road | Courier

datatype cost_leg = ExportPackaging | LoadingAtOrigin | OriginInlandFreight | ExportClearance | MainCarriage
  | CargoInsurance | ImportClearance | DutyAndTax | DestinationInlandFreight | UnloadingAtDestination

definition cost_leg_ALL :: "cost_leg list" where
  "cost_leg_ALL = [ExportPackaging, LoadingAtOrigin, OriginInlandFreight, ExportClearance, MainCarriage, CargoInsurance,
     ImportClearance, DutyAndTax, DestinationInlandFreight, UnloadingAtDestination]"

fun cost_leg_as_str :: "cost_leg \<Rightarrow> string" where
  "cost_leg_as_str ExportPackaging = ''export_packaging''"
| "cost_leg_as_str LoadingAtOrigin = ''loading_at_origin''"
| "cost_leg_as_str OriginInlandFreight = ''origin_inland_freight''"
| "cost_leg_as_str ExportClearance = ''export_clearance''"
| "cost_leg_as_str MainCarriage = ''main_carriage''"
| "cost_leg_as_str CargoInsurance = ''cargo_insurance''"
| "cost_leg_as_str ImportClearance = ''import_clearance''"
| "cost_leg_as_str DutyAndTax = ''duty_and_tax''"
| "cost_leg_as_str DestinationInlandFreight = ''destination_inland_freight''"
| "cost_leg_as_str UnloadingAtDestination = ''unloading_at_destination''"

datatype risk_transfer_point = SellerPremises | Carrier | AlongsideShip | OnBoard | DestinationReadyForUnloading
  | DestinationUnloaded | DestinationCleared

datatype insurance_obligation = No_Insurance | Minimum110Percent

fun seller_pays :: "incoterm \<Rightarrow> cost_leg \<Rightarrow> bool" where
  "seller_pays Exw leg = (leg \<in> {ExportPackaging})"
| "seller_pays Fca leg = (leg \<in> {ExportPackaging, LoadingAtOrigin, OriginInlandFreight, ExportClearance})"
| "seller_pays Fas leg = (leg \<in> {ExportPackaging, OriginInlandFreight, ExportClearance})"
| "seller_pays Fob leg = (leg \<in> {ExportPackaging, OriginInlandFreight, ExportClearance, LoadingAtOrigin})"
| "seller_pays Cfr leg = (leg \<in> {ExportPackaging, LoadingAtOrigin, OriginInlandFreight, ExportClearance, MainCarriage})"
| "seller_pays Cif leg = (leg \<in> {ExportPackaging, LoadingAtOrigin, OriginInlandFreight, ExportClearance, MainCarriage,
     CargoInsurance})"
| "seller_pays Cpt leg = (leg \<in> {ExportPackaging, LoadingAtOrigin, OriginInlandFreight, ExportClearance, MainCarriage})"
| "seller_pays Cip leg = (leg \<in> {ExportPackaging, LoadingAtOrigin, OriginInlandFreight, ExportClearance, MainCarriage,
     CargoInsurance})"
| "seller_pays Dap leg = (leg \<in> {ExportPackaging, LoadingAtOrigin, OriginInlandFreight, ExportClearance, MainCarriage,
     DestinationInlandFreight})"
| "seller_pays Dpu leg = (leg \<in> {ExportPackaging, LoadingAtOrigin, OriginInlandFreight, ExportClearance, MainCarriage,
     DestinationInlandFreight, UnloadingAtDestination})"
| "seller_pays Ddp leg = (leg \<in> {ExportPackaging, LoadingAtOrigin, OriginInlandFreight, ExportClearance, MainCarriage,
     ImportClearance, DutyAndTax, DestinationInlandFreight})"

fun risk_transfer :: "incoterm \<Rightarrow> risk_transfer_point" where
  "risk_transfer Exw = SellerPremises"
| "risk_transfer Fca = Carrier"
| "risk_transfer Cpt = Carrier"
| "risk_transfer Cip = Carrier"
| "risk_transfer Fas = AlongsideShip"
| "risk_transfer Fob = OnBoard"
| "risk_transfer Cfr = OnBoard"
| "risk_transfer Cif = OnBoard"
| "risk_transfer Dap = DestinationReadyForUnloading"
| "risk_transfer Dpu = DestinationUnloaded"
| "risk_transfer Ddp = DestinationCleared"

definition insurance_obligation_of :: "incoterm \<Rightarrow> insurance_obligation" where
  "insurance_obligation_of i = (if i = Cif \<or> i = Cip then Minimum110Percent else No_Insurance)"

definition is_maritime_term :: "incoterm \<Rightarrow> bool" where
  "is_maritime_term i \<longleftrightarrow> i = Fas \<or> i = Fob \<or> i = Cfr \<or> i = Cif"

datatype logistics_error = Log_Exact exact_error | Log_Zero string | Log_Bound string nat
  | ModeIncompatible incoterm transport_mode | NoFeasibleMode nat | ClassificationNotFinal string
  | ClassificationInconsistent string | MissingTariffEntry string string | Log_Unavailable string
  | Log_CurrencyMismatch currency currency | Log_Negative string

fun incoterm_debug :: "incoterm \<Rightarrow> string" where
  "incoterm_debug Exw = ''Exw''"
| "incoterm_debug Fca = ''Fca''"
| "incoterm_debug Fas = ''Fas''"
| "incoterm_debug Fob = ''Fob''"
| "incoterm_debug Cfr = ''Cfr''"
| "incoterm_debug Cif = ''Cif''"
| "incoterm_debug Cpt = ''Cpt''"
| "incoterm_debug Cip = ''Cip''"
| "incoterm_debug Dap = ''Dap''"
| "incoterm_debug Dpu = ''Dpu''"
| "incoterm_debug Ddp = ''Ddp''"

fun mode_debug :: "transport_mode \<Rightarrow> string" where
  "mode_debug Air = ''Air''"
| "mode_debug OceanFcl = ''OceanFcl''"
| "mode_debug OceanLcl = ''OceanLcl''"
| "mode_debug Rail = ''Rail''"
| "mode_debug Road = ''Road''"
| "mode_debug Courier = ''Courier''"

fun logistics_error_text :: "logistics_error \<Rightarrow> string" where
  "logistics_error_text (Log_Exact e) = exact_error_text e"
| "logistics_error_text (Log_Zero what) = ''zero '' @ what"
| "logistics_error_text (Log_Bound what n) = what @ '' exceeds '' @ dec_text n @ '' entries''"
| "logistics_error_text (ModeIncompatible i m) =
     incoterm_debug i @ '' requires sea or inland-water transport, not '' @ mode_debug m"
| "logistics_error_text (NoFeasibleMode d) = ''no mode option meets the '' @ dec_text d @ ''-day deadline''"
| "logistics_error_text (ClassificationNotFinal s) = ''classification is not final: '' @ s"
| "logistics_error_text (ClassificationInconsistent s) = ''classification is internally inconsistent: '' @ s"
| "logistics_error_text (MissingTariffEntry country code) = ''no tariff entry for '' @ country @ '' / '' @ code"
| "logistics_error_text (Log_Unavailable s) = ''tariff/origin evidence unavailable: '' @ s"
| "logistics_error_text (Log_CurrencyMismatch left right) =
     ''currency mismatch: '' @ currency_code left @ '' vs '' @ currency_code right"
| "logistics_error_text (Log_Negative what) = what @ '' must not be negative''"

definition validate_term_for_mode :: "incoterm \<Rightarrow> transport_mode \<Rightarrow> logistics_error + unit" where
  "validate_term_for_mode i m = refuse_if (is_maritime_term i \<and> \<not> (m = OceanFcl \<or> m = OceanLcl)) (ModeIncompatible i m)"

record leg_estimate =
  es_leg :: cost_leg
  es_amount :: "money supply_term"

record leg_allocation =
  la_incoterm :: incoterm
  la_seller_legs :: "cost_leg list"
  la_buyer_legs :: "cost_leg list"
  la_buyer_total :: "money availability"
  la_missing_legs :: "cost_leg list"
  la_risk_transfer :: risk_transfer_point
  la_insurance :: insurance_obligation

fun join_text :: "string \<Rightarrow> string list \<Rightarrow> string" where
  "join_text sep [] = []"
| "join_text sep [s] = s"
| "join_text sep (s # ss) = s @ sep @ join_text sep ss"

text \<open>The loop over the legs: seller legs, buyer legs, the total and the missing legs.\<close>

type_synonym leg_state = "cost_leg list \<times> cost_leg list \<times> money \<times> cost_leg list"

definition leg_step ::
  "incoterm \<Rightarrow> currency \<Rightarrow> leg_estimate list \<Rightarrow> leg_state \<Rightarrow> cost_leg \<Rightarrow> logistics_error + leg_state" where
  "leg_step i cur estimates st leg = (case st of (sellers, buyers, tot, missing) \<Rightarrow>
     if seller_pays i leg then Inr (sellers @ [leg], buyers, tot, missing)
     else (case List.find (\<lambda>e. es_leg e = leg) estimates of
       None \<Rightarrow> Inr (sellers, buyers @ [leg], tot, missing @ [leg])
     | Some e \<Rightarrow>
        (case term_value (es_amount e) of
           Known v \<Rightarrow>
             if money_currency v \<noteq> cur then Inl (Log_CurrencyMismatch cur (money_currency v))
             else if micros v < 0 then Inl (Log_Negative ''freight estimate'')
             else bind_result (map_err Log_Exact (checked_add tot v)) (\<lambda>t. Inr (sellers, buyers @ [leg], t, missing))
         | Unavailable u \<Rightarrow>
             if is_not_applicable u then Inr (sellers, buyers @ [leg], tot, missing)
             else Inr (sellers, buyers @ [leg], tot, missing @ [leg]))))"

definition allocate_legs :: "incoterm \<Rightarrow> currency \<Rightarrow> leg_estimate list \<Rightarrow> logistics_error + leg_allocation" where
  "allocate_legs i cur estimates =
     bind_result (try_fold (leg_step i cur estimates) ([], [], money_zero cur, []) cost_leg_ALL)
       (\<lambda>(sellers, buyers, tot, missing).
          Inr \<lparr>la_incoterm = i, la_seller_legs = sellers, la_buyer_legs = buyers,
            la_buyer_total = (if missing = [] then Known tot
              else avail_unavailable MissingEvidence
                (''missing buyer leg estimates: '' @ join_text '', '' (map cost_leg_as_str missing))),
            la_missing_legs = missing, la_risk_transfer = risk_transfer i, la_insurance = insurance_obligation_of i\<rparr>)"

section \<open>Requests for quotation\<close>

definition MAX_VOLUME_BREAKS :: nat where "MAX_VOLUME_BREAKS = 16"
definition MAX_RFQ_REQUIREMENTS :: nat where "MAX_RFQ_REQUIREMENTS = 32"
definition MAX_QUESTIONS :: nat where "MAX_QUESTIONS = 64"
definition MAX_QUOTES :: nat where "MAX_QUOTES = 1000"
definition MAX_FREIGHT_ESTIMATES :: nat where "MAX_FREIGHT_ESTIMATES = 64"
definition MAX_ISSUES :: nat where "MAX_ISSUES = 64"

lemmas sourcing_bounds = MAX_VOLUME_BREAKS_def MAX_RFQ_REQUIREMENTS_def MAX_QUESTIONS_def MAX_QUOTES_def
  MAX_FREIGHT_ESTIMATES_def MAX_ISSUES_def

text \<open>The variant that wraps an approval refusal occurs in the action gate only.\<close>

datatype execution_error = Exec_Exact exact_error | Exec_Invalid string | Exec_Bound string nat
  | Exec_CurrencyMismatch currency currency | Exec_Negative string | ZeroQuantity

fun execution_error_text :: "execution_error \<Rightarrow> string" where
  "execution_error_text (Exec_Exact e) = exact_error_text e"
| "execution_error_text (Exec_Invalid s) = s"
| "execution_error_text (Exec_Bound what n) = what @ '' exceeds '' @ dec_text n @ '' entries''"
| "execution_error_text (Exec_CurrencyMismatch left right) =
     ''currency mismatch: '' @ currency_code left @ '' vs '' @ currency_code right"
| "execution_error_text (Exec_Negative what) = what @ '' must not be negative''"
| "execution_error_text ZeroQuantity = ''quantity must be positive''"

datatype process_kind = Machining | Smt | Soldering | Process_Test | Inspection | Coating | Assembly | Additive
  | InjectionMolding | Process_Other

fun process_debug :: "process_kind \<Rightarrow> string" where
  "process_debug Machining = ''Machining''"
| "process_debug Smt = ''Smt''"
| "process_debug Soldering = ''Soldering''"
| "process_debug Process_Test = ''Test''"
| "process_debug Inspection = ''Inspection''"
| "process_debug Coating = ''Coating''"
| "process_debug Assembly = ''Assembly''"
| "process_debug Additive = ''Additive''"
| "process_debug InjectionMolding = ''InjectionMolding''"
| "process_debug Process_Other = ''Other''"

datatype qualification_kind = Ppap | Apqp | Fai | SupplierAudit | Msa | ProcessCapability | Traceability
  | Authenticity | MaterialDeclaration

fun qualification_debug :: "qualification_kind \<Rightarrow> string" where
  "qualification_debug Ppap = ''Ppap''"
| "qualification_debug Apqp = ''Apqp''"
| "qualification_debug Fai = ''Fai''"
| "qualification_debug SupplierAudit = ''SupplierAudit''"
| "qualification_debug Msa = ''Msa''"
| "qualification_debug ProcessCapability = ''ProcessCapability''"
| "qualification_debug Traceability = ''Traceability''"
| "qualification_debug Authenticity = ''Authenticity''"
| "qualification_debug MaterialDeclaration = ''MaterialDeclaration''"

record rfq_request =
  rr_id :: string
  rr_revision :: revision
  rr_part :: part_id
  rr_description :: string
  rr_currency :: currency
  rr_volume_breaks :: "units list"
  rr_required_processes :: "process_kind list"
  rr_required_qualifications :: "qualification_kind list"
  rr_incoterm :: incoterm
  rr_destination_country :: string
  rr_payment_days :: nat
  rr_required_by :: day
  rr_should_cost_target :: "money supply_term option"
  rr_requirement_evidence :: evidence_ref

record rfq_package =
  rp_id :: string
  rp_revision :: revision
  rp_part :: part_id
  rp_description :: string
  rp_currency :: currency
  rp_volume_breaks :: "units list"
  rp_required_processes :: "process_kind list"
  rp_required_qualifications :: "qualification_kind list"
  rp_incoterm :: incoterm
  rp_destination_country :: string
  rp_payment_days :: nat
  rp_required_by :: day
  rp_should_cost_target :: "money supply_term option"
  rp_questions :: "string list"
  rp_requirement_evidence :: evidence_ref

abbreviation exact :: "exact_error + 'a \<Rightarrow> execution_error + 'a" where
  "exact r \<equiv> map_err Exec_Exact r"

definition units_is_zero :: "units \<Rightarrow> bool" where
  "units_is_zero u \<longleftrightarrow> units_get u = 0"

text \<open>The loop over the volume breaks, with the break before.\<close>

fun breaks_from :: "units option \<Rightarrow> units list \<Rightarrow> execution_error + unit" where
  "breaks_from previous [] = Inr ()"
| "breaks_from previous (b # bs) =
     (if units_is_zero b then Inl ZeroQuantity
      else if (case previous of Some p \<Rightarrow> units_get b \<le> units_get p | None \<Rightarrow> False)
      then Inl (Exec_Invalid ''volume breaks must be strictly ascending'')
      else breaks_from (Some b) bs)"

definition validate_breaks :: "units list \<Rightarrow> execution_error + unit" where
  "validate_breaks bs =
     (if bs = [] \<or> MAX_VOLUME_BREAKS < length bs then
        Inl (Exec_Invalid (''volume breaks must contain 1..='' @ dec_text MAX_VOLUME_BREAKS @ '' entries''))
      else breaks_from None bs)"

definition target_valid :: "money supply_term option \<Rightarrow> currency \<Rightarrow> execution_error + unit" where
  "target_valid target cur =
     (case target of
        None \<Rightarrow> Inr ()
      | Some t \<Rightarrow>
         and_then (exact (term_validate t))
         (case term_known t of
            None \<Rightarrow> Inr ()
          | Some v \<Rightarrow>
             if money_currency v \<noteq> cur then Inl (Exec_CurrencyMismatch cur (money_currency v))
             else refuse_if (micros v < 0) (Exec_Negative ''should-cost target'')))"

definition package_validate :: "rfq_package \<Rightarrow> execution_error + unit" where
  "package_validate p =
     and_then (exact (supply_validate_text (rp_id p) MAX_ID_BYTES ''RFQ id''))
     (and_then (exact (supply_validate_text (rp_description p) MAX_TEXT_BYTES ''RFQ description''))
     (and_then (exact (supply_validate_text (rp_destination_country p) MAX_ID_BYTES ''destination''))
     (and_then (validate_breaks (rp_volume_breaks p))
     (and_then (refuse_if (MAX_RFQ_REQUIREMENTS < length (rp_required_processes p)
          \<or> MAX_RFQ_REQUIREMENTS < length (rp_required_qualifications p)) (Exec_Bound ''RFQ requirements'' MAX_RFQ_REQUIREMENTS))
     (and_then (refuse_if (MAX_QUESTIONS < length (rp_questions p)) (Exec_Bound ''RFQ questions'' MAX_QUESTIONS))
     (and_then (exact (evidence_ref_validate (rp_requirement_evidence p)))
     (target_valid (rp_should_cost_target p) (rp_currency p))))))))"

definition rfq_questions :: "rfq_request \<Rightarrow> string list" where
  "rfq_questions r =
     [''Quote unit price in '' @ currency_code (rr_currency r) @ '' for each volume break: '' @
        join_text '', '' (map (\<lambda>u. dec_text (units_get u)) (rr_volume_breaks r)) @ ''.'',
      ''State tooling and NRE cost, the amortization quantity and the payment schedule.'',
      ''State the Incoterm 2020 (requested '' @ incoterm_code (rr_incoterm r) @ '') with the named place, and the transport mode.'',
      ''State the lead-time distribution (P10/P50/P90/P99 days) and the sample size; required by day '' @
        int_text (day_number (rr_required_by r)) @ ''.'',
      ''State MOQ, order multiple, price validity, payment days, warranty days and NCNR status.'',
      ''State material yield, scrap/rework rates, lot size and tooling ownership.'',
      ''Provide the qualification evidence for every required qualification.'',
      ''Provide process-capability evidence (Cpk/Ppk, sample size) for the required processes.''] @
     (if rr_required_processes r = [] then []
      else [''Describe equipment/line capability for: '' @ join_text '', '' (map process_debug (rr_required_processes r)) @ ''.'']) @
     (if rr_required_qualifications r = [] then []
      else [''Submit evidence for: '' @ join_text '', '' (map qualification_debug (rr_required_qualifications r)) @ ''.'']) @
     (if rr_should_cost_target r = None then []
      else [''Explain any gap to the should-cost target with a term-by-term breakdown.'']) @
     (if rr_payment_days r = 0 then []
      else [''Confirm financing cost for '' @ dec_text (rr_payment_days r) @ '' day payment terms.''])"

definition generate_rfq :: "rfq_request \<Rightarrow> execution_error + rfq_package" where
  "generate_rfq r =
     and_then (exact (supply_validate_text (rr_id r) MAX_ID_BYTES ''RFQ id''))
     (and_then (exact (supply_validate_text (rr_description r) MAX_TEXT_BYTES ''RFQ description''))
     (and_then (exact (supply_validate_text (rr_destination_country r) MAX_ID_BYTES ''destination''))
     (and_then (validate_breaks (rr_volume_breaks r))
     (and_then (exact (evidence_ref_validate (rr_requirement_evidence r)))
     (and_then (refuse_if (MAX_RFQ_REQUIREMENTS < length (rr_required_processes r)
          \<or> MAX_RFQ_REQUIREMENTS < length (rr_required_qualifications r)) (Exec_Bound ''RFQ requirements'' MAX_RFQ_REQUIREMENTS))
     (and_then (target_valid (rr_should_cost_target r) (rr_currency r))
     (let questions = rfq_questions r in
      if MAX_QUESTIONS < length questions then Inl (Exec_Bound ''RFQ questions'' MAX_QUESTIONS)
      else Inr \<lparr>rp_id = rr_id r, rp_revision = rr_revision r, rp_part = rr_part r, rp_description = rr_description r,
        rp_currency = rr_currency r, rp_volume_breaks = rr_volume_breaks r,
        rp_required_processes = rr_required_processes r, rp_required_qualifications = rr_required_qualifications r,
        rp_incoterm = rr_incoterm r, rp_destination_country = rr_destination_country r,
        rp_payment_days = rr_payment_days r, rp_required_by = rr_required_by r,
        rp_should_cost_target = rr_should_cost_target r, rp_questions = questions,
        rp_requirement_evidence = rr_requirement_evidence r\<rparr>)))))))"

section \<open>Quotes\<close>

record volume_price =
  vp_quantity :: units
  vp_unit_price :: "money supply_term"

record quote =
  qu_id :: string
  qu_supplier :: supplier_id
  qu_part :: part_id
  qu_revision :: revision
  qu_currency :: currency
  qu_prices :: "volume_price list"
  qu_tooling :: "money supply_term"
  qu_nre :: "money supply_term"
  qu_amortization_units :: "units option"
  qu_payment_days :: nat
  qu_moq :: units
  qu_multiple :: units
  qu_lead_time_days :: "distribution supply_term"
  qu_valid_until :: "day option"
  qu_warranty_days :: nat
  qu_ncnr :: bool
  qu_incoterm :: incoterm
  qu_mode :: transport_mode
  qu_freight_estimates :: "leg_estimate list"
  qu_document :: evidence_ref

definition check_money :: "quote \<Rightarrow> money \<Rightarrow> string \<Rightarrow> execution_error + unit" where
  "check_money q v what =
     (if money_currency v \<noteq> qu_currency q then Inl (Exec_CurrencyMismatch (qu_currency q) (money_currency v))
      else refuse_if (micros v < 0) (Exec_Negative what))"

definition check_known :: "quote \<Rightarrow> string \<Rightarrow> money supply_term \<Rightarrow> execution_error + unit" where
  "check_known q what t = (case term_known t of Some v \<Rightarrow> check_money q v what | None \<Rightarrow> Inr ())"

definition quote_validate :: "quote \<Rightarrow> execution_error + unit" where
  "quote_validate q =
     and_then (exact (supply_validate_text (qu_id q) MAX_ID_BYTES ''quote id''))
     (and_then (exact (evidence_ref_validate (qu_document q)))
     (and_then (refuse_if (qu_prices q = [] \<or> MAX_VOLUME_BREAKS < length (qu_prices q))
        (Exec_Invalid (''quote prices must contain 1..='' @ dec_text MAX_VOLUME_BREAKS @ '' breaks'')))
     (and_then (refuse_if (units_is_zero (qu_multiple q)) (Exec_Invalid ''order multiple must be positive''))
     (and_then (refuse_if (3650 < qu_payment_days q) (Exec_Invalid ''payment days exceed 10 years''))
     (and_then (refuse_if (MAX_FREIGHT_ESTIMATES < length (qu_freight_estimates q))
        (Exec_Bound ''freight estimates'' MAX_FREIGHT_ESTIMATES))
     (and_then (exact (term_validate (qu_tooling q)))
     (and_then (exact (term_validate (qu_nre q)))
     (and_then (exact (term_validate (qu_lead_time_days q)))
     (and_then (case term_known (qu_lead_time_days q) of Some dist \<Rightarrow> exact (distribution_validate dist) | None \<Rightarrow> Inr ())
     (and_then (try_each (\<lambda>p. and_then (refuse_if (units_is_zero (vp_quantity p)) ZeroQuantity)
          (and_then (exact (term_validate (vp_unit_price p))) (check_known q ''unit price'' (vp_unit_price p)))) (qu_prices q))
     (and_then (try_each (check_known q ''one-time cost'') [qu_tooling q, qu_nre q])
     (and_then (refuse_if (case qu_amortization_units q of Some u \<Rightarrow> units_is_zero u | None \<Rightarrow> False) ZeroQuantity)
     (try_each (\<lambda>e. and_then (exact (term_validate (es_amount e))) (check_known q ''freight estimate'' (es_amount e)))
        (qu_freight_estimates q))))))))))))))"

record quote_issue =
  qi_code :: string
  qi_detail :: string
  qi_blocking :: bool

record normalization_context =
  nc_target_quantity :: units
  nc_cost_of_capital :: rate
  nc_baseline_payment_days :: nat
  nc_as_of :: day

definition context_validate :: "normalization_context \<Rightarrow> execution_error + unit" where
  "context_validate c =
     and_then (refuse_if (units_is_zero (nc_target_quantity c)) ZeroQuantity)
       (refuse_if (3650 < nc_baseline_payment_days c) (Exec_Invalid ''baseline payment days exceed 10 years''))"

text \<open>\<open>Iterator::max_by_key\<close> keeps the last of several greatest elements.\<close>

definition select_price :: "quote \<Rightarrow> units \<Rightarrow> volume_price option" where
  "select_price q target =
     foldl (\<lambda>best p. case best of None \<Rightarrow> Some p
         | Some b \<Rightarrow> if units_get (vp_quantity p) < units_get (vp_quantity b) then best else Some p) None
       (filter (\<lambda>p. units_get (vp_quantity p) \<le> units_get target) (qu_prices q))"

definition resolve_not_applicable :: "money supply_term \<Rightarrow> currency \<Rightarrow> money availability" where
  "resolve_not_applicable t cur =
     (case term_value t of
        Known v \<Rightarrow> Known v
      | Unavailable u \<Rightarrow> if is_not_applicable u then Known (money_zero cur) else Unavailable u)"

fun combine_from :: "money option \<Rightarrow> money availability list \<Rightarrow> execution_error + money availability" where
  "combine_from tot [] = Inr (case tot of Some t \<Rightarrow> Known t | None \<Rightarrow> avail_unavailable MissingEvidence ''no values'')"
| "combine_from tot (Known v # vs) =
     (case tot of
        Some t \<Rightarrow> bind_result (exact (checked_add t v)) (\<lambda>s. combine_from (Some s) vs)
      | None \<Rightarrow> combine_from (Some v) vs)"
| "combine_from tot (Unavailable u # vs) = Inr (Unavailable u)"

definition combine :: "money availability list \<Rightarrow> execution_error + money availability" where
  "combine vs = combine_from None vs"

definition one_time :: "quote \<Rightarrow> execution_error + money availability" where
  "one_time q = combine [resolve_not_applicable (qu_tooling q) (qu_currency q), resolve_not_applicable (qu_nre q) (qu_currency q)]"

definition issue :: "string \<Rightarrow> string \<Rightarrow> bool \<Rightarrow> quote_issue" where
  "issue code detail blocking = \<lparr>qi_code = code, qi_detail = detail, qi_blocking = blocking\<rparr>"

definition issue_if :: "bool \<Rightarrow> string \<Rightarrow> string \<Rightarrow> bool \<Rightarrow> quote_issue list" where
  "issue_if c code detail blocking = (if c then [issue code detail blocking] else [])"

text \<open>The walk over the prices by quantity, with quantity and known price before.\<close>

fun price_issues :: "(units \<times> money option) option \<Rightarrow> volume_price list \<Rightarrow> quote_issue list" where
  "price_issues previous [] = []"
| "price_issues previous (p # ps) =
     (case previous of None \<Rightarrow> []
      | Some (quantity, price) \<Rightarrow>
         issue_if (vp_quantity p = quantity) ''duplicate_break'' ''two prices share the same volume break'' True @
         issue_if (case (price, term_known (vp_unit_price p)) of
             (Some earlier, Some later) \<Rightarrow> micros earlier < micros later | _ \<Rightarrow> False)
           ''non_monotonic_price'' ''unit price rises at a higher volume break'' False) @
     price_issues (Some (vp_quantity p, term_known (vp_unit_price p))) ps"

text \<open>The issues found before the one-time cost is added up, and those after.\<close>

definition early_issues :: "quote \<Rightarrow> rfq_package \<Rightarrow> normalization_context \<Rightarrow> quote_issue list" where
  "early_issues q p c =
     issue_if (qu_part q \<noteq> rp_part p) ''wrong_part'' ''quote is for a different part than the RFQ'' True @
     issue_if (qu_currency q \<noteq> rp_currency p) ''currency_mismatch'' ''quote currency differs from the RFQ currency'' True @
     (case validate_term_for_mode (qu_incoterm q) (qu_mode q) of
        Inl e \<Rightarrow> [issue ''incoterm_mode_mismatch'' (logistics_error_text e) True] | Inr _ \<Rightarrow> []) @
     (case qu_valid_until q of
        Some d \<Rightarrow> issue_if (day_before d (nc_as_of c)) ''expired_quote'' ''quote validity has passed'' True
      | None \<Rightarrow> [issue ''validity_unknown'' ''quote states no validity date'' False]) @
     issue_if (units_get (nc_target_quantity c) < units_get (qu_moq q)) ''below_moq'' ''target quantity is below the quote MOQ'' True @
     issue_if (units_get (nc_target_quantity c) mod units_get (qu_multiple q) \<noteq> 0) ''quantity_not_orderable''
       ''target quantity is not a multiple of the order multiple'' True @
     price_issues None (sort_key (\<lambda>p. units_get (vp_quantity p)) (qu_prices q)) @
     issue_if (select_price q (nc_target_quantity c) = None) ''no_applicable_price_break''
       ''no volume break at or below the target quantity'' True"

definition one_time_issues :: "quote \<Rightarrow> money availability \<Rightarrow> quote_issue list" where
  "one_time_issues q ot =
     (case ot of
        Known v \<Rightarrow>
          if micros v < 0 then [issue ''negative_one_time'' ''tooling/NRE is negative'' True]
          else issue_if (micros v \<noteq> 0 \<and> qu_amortization_units q = None) ''amortization_basis_missing''
            ''one-time cost has no stated amortization quantity'' False
      | Unavailable u \<Rightarrow> [])"

definition late_issues :: "quote \<Rightarrow> leg_allocation \<Rightarrow> quote_issue list" where
  "late_issues q al =
     issue_if (term_known (qu_lead_time_days q) = None) ''lead_time_unknown'' ''lead-time distribution is unavailable'' False @
     issue_if (la_missing_legs al \<noteq> []) ''missing_buyer_logistics''
       (''buyer legs lack estimates: '' @ join_text '', '' (map cost_leg_as_str (la_missing_legs al))) False"

definition issue_key :: "quote_issue \<Rightarrow> bool \<times> string \<times> string" where
  "issue_key i = (\<not> qi_blocking i, qi_code i, qi_detail i)"

fun dedup_issues :: "quote_issue list \<Rightarrow> quote_issue list" where
  "dedup_issues (x # y # xs) =
     (if qi_code y = qi_code x \<and> qi_detail y = qi_detail x then dedup_issues (x # xs) else x # dedup_issues (y # xs))"
| "dedup_issues xs = xs"

definition leg_allocation_of :: "quote \<Rightarrow> incoterm \<Rightarrow> execution_error + leg_allocation" where
  "leg_allocation_of q i =
     map_err (\<lambda>e. Exec_Invalid (logistics_error_text e)) (allocate_legs i (qu_currency q) (qu_freight_estimates q))"

definition detect_issues :: "quote \<Rightarrow> rfq_package \<Rightarrow> normalization_context \<Rightarrow> execution_error + quote_issue list" where
  "detect_issues q p c =
     and_then (quote_validate q)
     (and_then (package_validate p)
     (and_then (context_validate c)
     (bind_result (one_time q) (\<lambda>ot.
      bind_result (leg_allocation_of q (qu_incoterm q)) (\<lambda>al.
        let issues = dedup_issues (sort_key issue_key (early_issues q p c @ one_time_issues q ot @ late_issues q al)) in
        if MAX_ISSUES < length issues then Inl (Exec_Bound ''quote issues'' MAX_ISSUES) else Inr issues)))))"

end
