(* ===== verification/Sourcing_Bids.thy ===== *)
theory Sourcing_Bids
  imports Sourcing_Model
begin

text \<open>
  The comparable cost of a quote, the ranking of quotes, the comparison of delivery terms and the negotiation
  scaffold (\<open>crates/supply-execution/src/lib.rs\<close>).
\<close>

section \<open>Normalization\<close>

datatype bid_status = Usable | Blocked "string list" | Incomplete "string list"

record normalized_bid =
  nb_quote_id :: string
  nb_supplier :: supplier_id
  nb_quote_revision :: revision
  nb_status :: bid_status
  nb_selected_break :: "units option"
  nb_unit_price :: "money availability"
  nb_goods_value :: "money availability"
  nb_one_time_cost :: "money availability"
  nb_buyer_logistics :: "money availability"
  nb_missing_legs :: "cost_leg list"
  nb_payment_adjustment :: "money availability"
  nb_normalized_total :: "money availability"
  nb_normalized_per_unit :: "money availability"
  nb_amortized_per_unit :: "money availability"
  nb_should_cost_delta :: "money availability"
  nb_should_cost_variance_ppm :: "int availability"
  nb_lead_time_p90_days :: "int availability"
  nb_incoterm :: incoterm
  nb_mode :: transport_mode
  nb_payment_days :: nat
  nb_warranty_days :: nat
  nb_ncnr :: bool
  nb_issues :: "quote_issue list"

text \<open>A fallible computation whose refusal becomes an unknown.\<close>

definition or_arithmetic :: "exact_error + 'a \<Rightarrow> 'a availability" where
  "or_arithmetic r = (case r of Inr v \<Rightarrow> Known v | Inl e \<Rightarrow> avail_unavailable Reason_Arithmetic (exact_error_text e))"

fun avail_bind :: "'a availability \<Rightarrow> ('a \<Rightarrow> 'b availability) \<Rightarrow> 'b availability" where
  "avail_bind (Known v) f = f v"
| "avail_bind (Unavailable u) f = Unavailable u"

definition unit_price_of :: "volume_price option \<Rightarrow> money availability" where
  "unit_price_of selected = (case selected of Some p \<Rightarrow> term_value (vp_unit_price p)
     | None \<Rightarrow> avail_unavailable NoCandidate ''no applicable volume break'')"

definition goods_value_of :: "money availability \<Rightarrow> normalization_context \<Rightarrow> money availability" where
  "goods_value_of price c = avail_bind price (\<lambda>v. or_arithmetic (mul_units v (units_get (nc_target_quantity c))))"

definition payment_value :: "quote \<Rightarrow> normalization_context \<Rightarrow> money \<Rightarrow> money \<Rightarrow> execution_error + money" where
  "payment_value q c goods ot =
     bind_result (exact (checked_add goods ot)) (\<lambda>financed.
     let delta_days = int (nc_baseline_payment_days c) - int (qu_payment_days q) in
     bind_result (exact (money_scale financed (nc_cost_of_capital c))) (\<lambda>annual.
     bind_result (ok_or (Exec_Exact Exact_Overflow) (mul_div_round_half_up (micros annual) delta_days 365)) (\<lambda>m.
     bind_result (ok_or (Exec_Exact Exact_Overflow) (try_i64 m)) (\<lambda>m.
     exact (money_from_micros m (qu_currency q))))))"

definition payment_adjustment_of ::
  "quote \<Rightarrow> normalization_context \<Rightarrow> money availability \<Rightarrow> money availability \<Rightarrow> execution_error + money availability" where
  "payment_adjustment_of q c goods ot =
     (case avail_zip goods ot of
        Known (g, v) \<Rightarrow> bind_result (payment_value q c g v) (\<lambda>m. Inr (Known m))
      | Unavailable u \<Rightarrow> Inr (Unavailable u))"

definition per_unit_of :: "money availability \<Rightarrow> normalization_context \<Rightarrow> money availability" where
  "per_unit_of tot c = avail_bind tot (\<lambda>v. or_arithmetic (div_units v (units_get (nc_target_quantity c))))"

definition amortized_of :: "quote \<Rightarrow> money availability \<Rightarrow> money availability \<Rightarrow> money availability" where
  "amortized_of q price ot =
     (case avail_zip price ot of
        Unavailable u \<Rightarrow> Unavailable u
      | Known (p, v) \<Rightarrow>
         if micros v = 0 then Known p
         else (case qu_amortization_units q of
             Some u \<Rightarrow>
               if units_is_zero u then avail_unavailable MissingEvidence ''one-time cost has no amortization quantity''
               else (case div_units v (units_get u) of
                   Inr per_unit \<Rightarrow> or_arithmetic (checked_add p per_unit)
                 | Inl e \<Rightarrow> avail_unavailable Reason_Arithmetic (exact_error_text e))
           | None \<Rightarrow> avail_unavailable MissingEvidence ''one-time cost has no amortization quantity''))"

text \<open>Both parts of the should-cost gap are unknown for the same reason.\<close>

abbreviation gap_unknown :: "unavailable_reason \<Rightarrow> string \<Rightarrow> execution_error + money availability \<times> int availability" where
  "gap_unknown r detail \<equiv> Inr (avail_unavailable r detail, avail_unavailable r detail)"

definition should_cost_gap ::
  "money availability \<Rightarrow> money supply_term option \<Rightarrow> execution_error + money availability \<times> int availability" where
  "should_cost_gap per_unit target =
     (case (per_unit, target) of
        (Known n, Some t) \<Rightarrow>
          (case term_known t of
             None \<Rightarrow> gap_unknown MissingEvidence ''should-cost target unavailable''
           | Some v \<Rightarrow>
              if 0 < micros v then
                (case checked_sub n v of
                   Inl e \<Rightarrow> gap_unknown Reason_Arithmetic (exact_error_text e)
                 | Inr delta \<Rightarrow>
                    bind_result (ok_or (Exec_Exact Exact_Overflow) (mul_div_round_half_up (micros delta) 1000000 (micros v))) (\<lambda>ppm.
                      case try_i64 ppm of
                        Some p \<Rightarrow> Inr (Known delta, Known p)
                      | None \<Rightarrow> gap_unknown Reason_Arithmetic try_from_int_error))
              else gap_unknown OutOfRange ''should-cost target is zero'')
      | _ \<Rightarrow> gap_unknown MissingEvidence ''normalized cost or should-cost target unavailable'')"

definition bid_status_of :: "quote_issue list \<Rightarrow> money availability \<Rightarrow> bid_status" where
  "bid_status_of issues tot =
     (let blocking = map qi_detail (filter qi_blocking issues) in
      if blocking \<noteq> [] then Blocked blocking
      else if is_known tot then Usable
      else Incomplete (map qi_detail (filter (\<lambda>i. \<not> qi_blocking i) issues)))"

definition lead_time_p90 :: "quote \<Rightarrow> int availability" where
  "lead_time_p90 q = (case term_known (qu_lead_time_days q) of Some d \<Rightarrow> Known (p90 d)
     | None \<Rightarrow> avail_unavailable MissingEvidence ''lead-time distribution unavailable'')"

definition normalize_quote :: "quote \<Rightarrow> rfq_package \<Rightarrow> normalization_context \<Rightarrow> execution_error + normalized_bid" where
  "normalize_quote q p c =
     bind_result (detect_issues q p c) (\<lambda>issues.
     let selected = select_price q (nc_target_quantity c);
         unit_price = unit_price_of selected;
         goods = goods_value_of unit_price c in
     bind_result (one_time q) (\<lambda>ot.
     bind_result (leg_allocation_of q (qu_incoterm q)) (\<lambda>al.
     bind_result (payment_adjustment_of q c goods ot) (\<lambda>adjustment.
     bind_result (combine [goods, ot, la_buyer_total al, adjustment]) (\<lambda>tot.
     let per_unit = per_unit_of tot c in
     bind_result (should_cost_gap per_unit (rp_should_cost_target p)) (\<lambda>(delta, variance).
     Inr \<lparr>nb_quote_id = qu_id q, nb_supplier = qu_supplier q, nb_quote_revision = qu_revision q,
       nb_status = bid_status_of issues tot, nb_selected_break = map_option vp_quantity selected,
       nb_unit_price = unit_price, nb_goods_value = goods, nb_one_time_cost = ot,
       nb_buyer_logistics = la_buyer_total al, nb_missing_legs = la_missing_legs al,
       nb_payment_adjustment = adjustment, nb_normalized_total = tot, nb_normalized_per_unit = per_unit,
       nb_amortized_per_unit = amortized_of q unit_price ot, nb_should_cost_delta = delta,
       nb_should_cost_variance_ppm = variance, nb_lead_time_p90_days = lead_time_p90 q,
       nb_incoterm = qu_incoterm q, nb_mode = qu_mode q, nb_payment_days = qu_payment_days q,
       nb_warranty_days = qu_warranty_days q, nb_ncnr = qu_ncnr q, nb_issues = issues\<rparr>))))))"

section \<open>Ranking\<close>

record bid_comparison =
  bc_bids :: "normalized_bid list"
  bc_ranked :: "string list"
  bc_incomplete :: "string list"
  bc_blocked :: "string list"
  bc_best :: "money availability"

fun first_duplicate :: "string list \<Rightarrow> string list \<Rightarrow> string option" where
  "first_duplicate seen [] = None"
| "first_duplicate seen (i # is) = (if i \<in> set seen then Some i else first_duplicate (i # seen) is)"

text \<open>The loop over the quotes: the bids, the usable ones with their cost per unit, the incomplete and the blocked.\<close>

type_synonym bid_state = "normalized_bid list \<times> (string \<times> money) list \<times> string list \<times> string list"

definition sort_bid :: "bid_state \<Rightarrow> normalized_bid \<Rightarrow> bid_state" where
  "sort_bid st b = (case st of (bids, usable, incomplete, blocked) \<Rightarrow>
     (case nb_status b of
        Usable \<Rightarrow>
          (case nb_normalized_per_unit b of
             Known v \<Rightarrow> (bids @ [b], usable @ [(nb_quote_id b, v)], incomplete, blocked)
           | Unavailable _ \<Rightarrow> (bids @ [b], usable, incomplete @ [nb_quote_id b], blocked))
      | Incomplete _ \<Rightarrow> (bids @ [b], usable, incomplete @ [nb_quote_id b], blocked)
      | Blocked _ \<Rightarrow> (bids @ [b], usable, incomplete, blocked @ [nb_quote_id b])))"

definition bid_step ::
  "rfq_package \<Rightarrow> normalization_context \<Rightarrow> bid_state \<Rightarrow> quote \<Rightarrow> execution_error + bid_state" where
  "bid_step p c st q = bind_result (normalize_quote q p c) (\<lambda>b. Inr (sort_bid st b))"

definition rank_key :: "string \<times> money \<Rightarrow> int \<times> string" where
  "rank_key u = (micros (snd u), fst u)"

definition compare_bids :: "quote list \<Rightarrow> rfq_package \<Rightarrow> normalization_context \<Rightarrow> execution_error + bid_comparison" where
  "compare_bids quotes p c =
     and_then (refuse_if (MAX_QUOTES < length quotes) (Exec_Bound ''quotes'' MAX_QUOTES))
     (and_then (package_validate p)
     (and_then (context_validate c)
     (and_then (case first_duplicate [] (map qu_id quotes) of
         Some i \<Rightarrow> Inl (Exec_Invalid (''duplicate quote id '' @ i)) | None \<Rightarrow> Inr ())
     (bind_result (try_fold (bid_step p c) ([], [], [], []) quotes) (\<lambda>(bids, usable, incomplete, blocked).
      let sorted = sort_key rank_key usable in
      Inr \<lparr>bc_bids = bids, bc_ranked = map fst sorted, bc_incomplete = incomplete, bc_blocked = blocked,
        bc_best = (case sorted of (_, v) # _ \<Rightarrow> Known v | [] \<Rightarrow> avail_unavailable NoCandidate ''no usable bid'')\<rparr>)))))"

section \<open>Delivery terms side by side\<close>

record incoterm_comparison =
  ic_incoterm :: incoterm
  ic_compatible :: bool
  ic_seller_legs :: "cost_leg list"
  ic_buyer_legs :: "cost_leg list"
  ic_buyer_logistics :: "money availability"
  ic_missing_legs :: "cost_leg list"
  ic_total :: "money availability"
  ic_per_unit :: "money availability"
  ic_risk_transfer :: risk_transfer_point
  ic_insurance :: insurance_obligation
  ic_note :: string

definition compared_terms :: "incoterm list" where
  "compared_terms = [Exw, Fca, Fas, Fob, Cfr, Cif, Cpt, Cip, Dap, Dpu, Ddp]"

definition incoterm_row ::
  "quote \<Rightarrow> normalization_context \<Rightarrow> money \<Rightarrow> money \<Rightarrow> money \<Rightarrow> incoterm \<Rightarrow> execution_error + incoterm_comparison" where
  "incoterm_row q c goods ot adjustment i =
     (let compatible = is_ok (validate_term_for_mode i (qu_mode q)) in
      bind_result (leg_allocation_of q i) (\<lambda>al.
      bind_result (if compatible then combine [Known goods, Known ot, la_buyer_total al, Known adjustment]
          else Inr (avail_unavailable NotApplicable ''term is not compatible with the quoted transport mode'')) (\<lambda>tot.
      Inr \<lparr>ic_incoterm = i, ic_compatible = compatible, ic_seller_legs = la_seller_legs al, ic_buyer_legs = la_buyer_legs al,
        ic_buyer_logistics = la_buyer_total al, ic_missing_legs = la_missing_legs al, ic_total = tot,
        ic_per_unit = per_unit_of tot c, ic_risk_transfer = la_risk_transfer al, ic_insurance = la_insurance al,
        ic_note = ''unit price held constant; seller-borne legs are assumed included in the quoted price''\<rparr>)))"

definition compare_incoterms :: "quote \<Rightarrow> normalization_context \<Rightarrow> execution_error + incoterm_comparison list" where
  "compare_incoterms q c =
     and_then (quote_validate q)
     (and_then (context_validate c)
     (bind_result (ok_or (Exec_Invalid ''no applicable volume break'') (select_price q (nc_target_quantity c))) (\<lambda>selected.
      bind_result (ok_or (Exec_Invalid ''selected unit price is unavailable'') (term_known (vp_unit_price selected))) (\<lambda>unit_price.
      bind_result (exact (mul_units unit_price (units_get (nc_target_quantity c)))) (\<lambda>goods.
      bind_result (one_time q) (\<lambda>ot.
      bind_result (case ot of Known v \<Rightarrow> Inr v
          | Unavailable u \<Rightarrow> Inl (Exec_Invalid (case un_detail u of Some d \<Rightarrow> d | None \<Rightarrow> ''one-time cost unavailable''))) (\<lambda>ot.
      bind_result (payment_value q c goods ot) (\<lambda>adjustment.
      try_fold (\<lambda>rows i. bind_result (incoterm_row q c goods ot adjustment i) (\<lambda>r. Inr (rows @ [r]))) [] compared_terms))))))))"

section \<open>Negotiation\<close>

record batna_alternative =
  ba_quote_id :: string
  ba_supplier :: supplier_id
  ba_per_unit :: "money availability"
  ba_status :: bid_status

record batna_plan =
  bp_alternatives :: "batna_alternative list"
  bp_walk_away_per_unit :: "money availability"
  bp_walk_away_total :: "money availability"
  bp_note :: string

text \<open>\<open>Iterator::min_by\<close> keeps the first of several least elements.\<close>

definition min_first :: "('a \<Rightarrow> 'k :: linorder) \<Rightarrow> 'a list \<Rightarrow> 'a option" where
  "min_first f xs = foldl (\<lambda>best x. case best of None \<Rightarrow> Some x | Some y \<Rightarrow> if f x < f y then Some x else best) None xs"

definition priced :: "normalized_bid list \<Rightarrow> (money \<times> normalized_bid) list" where
  "priced bids = List.map_filter (\<lambda>b. if nb_status b = Usable
     then map_option (\<lambda>v. (v, b)) (as_known (nb_normalized_per_unit b)) else None) bids"

definition batna :: "bid_comparison \<Rightarrow> batna_plan" where
  "batna cmp =
     (let alternatives = map (\<lambda>b. \<lparr>ba_quote_id = nb_quote_id b, ba_supplier = nb_supplier b,
            ba_per_unit = nb_normalized_per_unit b, ba_status = nb_status b\<rparr>) (bc_bids cmp);
          best = min_first (\<lambda>(v, b). (micros v, nb_quote_id b)) (priced (bc_bids cmp))
      in \<lparr>bp_alternatives = sort_key ba_quote_id alternatives,
          bp_walk_away_per_unit = (case best of Some (v, b) \<Rightarrow> Known v
            | None \<Rightarrow> avail_unavailable NoCandidate ''no usable alternative''),
          bp_walk_away_total = (case best of Some (v, b) \<Rightarrow> nb_normalized_total b
            | None \<Rightarrow> avail_unavailable NoCandidate ''no usable alternative''),
          bp_note = ''BATNA is the cheapest usable normalized bid; it is not a forecast of a future quote''\<rparr>)"

record negotiation =
  np_should_cost_target :: "money availability"
  np_batna :: batna_plan
  np_opening_target :: "money availability"
  np_reservation_price :: "money availability"
  np_gap_to_target :: "money availability"

definition negotiation_plan :: "rfq_package \<Rightarrow> bid_comparison \<Rightarrow> negotiation" where
  "negotiation_plan p cmp =
     (let target = (case rp_should_cost_target p of Some t \<Rightarrow> term_value t
            | None \<Rightarrow> avail_unavailable MissingEvidence ''no should-cost target'');
          b = batna cmp
      in \<lparr>np_should_cost_target = target, np_batna = b, np_opening_target = target,
          np_reservation_price = bp_walk_away_per_unit b,
          np_gap_to_target = (case (bc_best cmp, target) of
              (Known best, Known t) \<Rightarrow> or_arithmetic (checked_sub best t)
            | _ \<Rightarrow> avail_unavailable MissingEvidence ''gap needs a usable bid and a should-cost target'')\<rparr>)"

end
