(* ===== verification/Sourcing_Costs.thy ===== *)
theory Sourcing_Costs
  imports Sourcing_Bids
begin

text \<open>
  What the numbers of a bid are: the sums, the rounded payment value and the buyer's share of the delivery, in exact
  arithmetic over micro-units.
\<close>

section \<open>Sums of terms\<close>

lemma combine_from_known:
  "combine_from acc vs = Inr (Known t) \<Longrightarrow> acc \<noteq> None \<or> vs \<noteq> [] \<Longrightarrow>
   \<exists>ms. vs = map Known ms \<and> micros t = (case acc of Some a \<Rightarrow> micros a | None \<Rightarrow> 0) + sum_list (map micros ms) \<and>
     (\<forall>m \<in> set ms. money_currency m = money_currency t) \<and> (\<forall>a. acc = Some a \<longrightarrow> money_currency a = money_currency t)"
proof (induction acc vs rule: combine_from.induct)
  case (2 acc v vs)
  show ?case
  proof (cases acc)
    case None
    with 2(3) have "combine_from (Some v) vs = Inr (Known t)" by simp
    from 2(1) [OF None this] obtain ms where "vs = map Known ms" "micros t = micros v + sum_list (map micros ms)"
      "\<forall>m \<in> set ms. money_currency m = money_currency t" "money_currency v = money_currency t" by auto
    then show ?thesis using None by (intro exI [of _ "v # ms"]) auto
  next
    case (Some a)
    with 2(3) obtain s where s: "checked_add a v = Inr s" "combine_from (Some s) vs = Inr (Known t)" by auto
    from 2(2) [OF Some s(2)] obtain ms where "vs = map Known ms" "micros t = micros s + sum_list (map micros ms)"
      "\<forall>m \<in> set ms. money_currency m = money_currency t" "money_currency s = money_currency t" by auto
    then show ?thesis using Some s(1) by (intro exI [of _ "v # ms"]) (auto simp: checked_add_ok)
  qed
qed (auto split: option.splits)

lemma combine_known:
  assumes "combine vs = Inr (Known t)" and "vs \<noteq> []"
  shows "\<exists>ms. vs = map Known ms \<and> micros t = sum_list (map micros ms) \<and> (\<forall>m \<in> set ms. money_currency m = money_currency t)"
  using combine_from_known [of None vs t] assms by (auto simp: combine_def)

lemma combine_from_bounded:
  "combine_from acc vs = Inr (Known t) \<Longrightarrow> (\<forall>a. acc = Some a \<longrightarrow> money_ok a) \<Longrightarrow> (\<forall>v. Known v \<in> set vs \<longrightarrow> money_ok v) \<Longrightarrow> money_ok t"
proof (induction acc vs rule: combine_from.induct)
  case (2 acc v vs)
  then show ?case by (cases acc) (auto simp: checked_add_ok money_ok_def)
qed (auto split: option.splits simp: avail_unavailable_def)

section \<open>Delivery\<close>

text \<open>What a term of the quote costs: its amount, or nothing when the quote says that it does not apply. A term
  that is unavailable for any other reason has no cost, which is not the same as a cost of zero.\<close>

definition term_cost :: "money supply_term \<Rightarrow> int option" where
  "term_cost t =
     (case term_value t of Known v \<Rightarrow> Some (micros v) | Unavailable u \<Rightarrow> if is_not_applicable u then Some 0 else None)"

text \<open>What a leg costs the buyer: the term of the first estimate for it. A leg without an estimate has no cost.\<close>

definition leg_cost :: "leg_estimate list \<Rightarrow> cost_leg \<Rightarrow> int option" where
  "leg_cost estimates leg = Option.bind (List.find (\<lambda>e. es_leg e = leg) estimates) (\<lambda>e. term_cost (es_amount e))"

text \<open>The cost of several legs, which is known only if the cost of every one of them is.\<close>

definition legs_cost :: "leg_estimate list \<Rightarrow> cost_leg list \<Rightarrow> int option" where
  "legs_cost estimates legs = map_option sum_list (those (map (leg_cost estimates) legs))"

lemma legs_cost_Nil: "legs_cost estimates [] = Some 0"
  by (simp add: legs_cost_def)

lemma legs_cost_Cons:
  "legs_cost estimates (leg # legs) =
     Option.bind (leg_cost estimates leg) (\<lambda>a. map_option ((+) a) (legs_cost estimates legs))"
  by (cases "leg_cost estimates leg"; cases "those (map (leg_cost estimates) legs)") (simp_all add: legs_cost_def)

lemma legs_cost_defined: "legs_cost estimates legs = None \<longleftrightarrow> (\<exists>leg \<in> set legs. leg_cost estimates leg = None)"
proof (induction legs)
  case (Cons leg legs)
  then show ?case by (cases "leg_cost estimates leg") (auto simp: legs_cost_Cons)
qed (simp add: legs_cost_Nil)

lemma leg_step_ok:
  assumes "leg_step i cur estimates (ss, bs, t, ms) leg = Inr (ss', bs', t', ms')"
  shows "ss' = ss @ filter (seller_pays i) [leg] \<and> bs' = bs @ filter (\<lambda>l. \<not> seller_pays i l) [leg] \<and>
    ms' = ms @ filter (\<lambda>l. \<not> seller_pays i l \<and> leg_cost estimates l = None) [leg] \<and>
    (\<forall>a. legs_cost estimates (filter (\<lambda>l. \<not> seller_pays i l) [leg]) = Some a \<longrightarrow> micros t' = micros t + a) \<and>
    (money_currency t = cur \<longrightarrow> money_currency t' = cur) \<and> (money_ok t \<longrightarrow> money_ok t')"
  using assms
  by (auto simp: leg_step_def legs_cost_Nil legs_cost_Cons leg_cost_def term_cost_def checked_add_ok money_ok_def
      split: if_splits option.splits availability.splits)

lemma leg_loop_ok:
  assumes "try_fold (leg_step i cur estimates) (ss, bs, t, ms) legs = Inr (ss', bs', t', ms')"
  shows "ss' = ss @ filter (seller_pays i) legs \<and> bs' = bs @ filter (\<lambda>l. \<not> seller_pays i l) legs \<and>
    ms' = ms @ filter (\<lambda>l. \<not> seller_pays i l \<and> leg_cost estimates l = None) legs \<and>
    (\<forall>a. legs_cost estimates (filter (\<lambda>l. \<not> seller_pays i l) legs) = Some a \<longrightarrow> micros t' = micros t + a) \<and>
    (money_currency t = cur \<longrightarrow> money_currency t' = cur) \<and> (money_ok t \<longrightarrow> money_ok t')"
  using assms
proof (induction legs arbitrary: ss bs t ms)
  case (Cons leg legs)
  then obtain ss1 bs1 t1 ms1 where st: "leg_step i cur estimates (ss, bs, t, ms) leg = Inr (ss1, bs1, t1, ms1)"
    "try_fold (leg_step i cur estimates) (ss1, bs1, t1, ms1) legs = Inr (ss', bs', t', ms')"
    by (auto simp: bind_result_eq_Inr)
  from leg_step_ok [OF st(1)] Cons.IH [OF st(2)] show ?case
    by (cases "seller_pays i leg"; cases "leg_cost estimates leg") (auto simp: legs_cost_Cons legs_cost_Nil)
qed (simp add: legs_cost_Nil)

lemma allocate_legs_ok:
  assumes "allocate_legs i cur estimates = Inr al"
  shows "la_seller_legs al = filter (seller_pays i) cost_leg_ALL \<and>
    la_buyer_legs al = filter (\<lambda>l. \<not> seller_pays i l) cost_leg_ALL \<and>
    la_missing_legs al = filter (\<lambda>l. leg_cost estimates l = None) (la_buyer_legs al) \<and>
    (is_known (la_buyer_total al) \<longleftrightarrow> la_missing_legs al = []) \<and>
    (\<forall>t. la_buyer_total al = Known t \<longrightarrow> legs_cost estimates (la_buyer_legs al) = Some (micros t) \<and>
      money_currency t = cur \<and> money_ok t)"
proof -
  obtain ss bs t ms where loop: "try_fold (leg_step i cur estimates) ([], [], money_zero cur, []) cost_leg_ALL = Inr (ss, bs, t, ms)"
    and al: "al = \<lparr>la_incoterm = i, la_seller_legs = ss, la_buyer_legs = bs,
            la_buyer_total = (if ms = [] then Known t
              else avail_unavailable MissingEvidence
                (''missing buyer leg estimates: '' @ join_text '', '' (map cost_leg_as_str ms))),
            la_missing_legs = ms, la_risk_transfer = risk_transfer i, la_insurance = insurance_obligation_of i\<rparr>"
    using assms by (auto simp: allocate_legs_def bind_result_eq_Inr)
  have "money_ok (money_zero cur)" by (simp add: money_ok_def money_zero_def money_bounds)
  note facts = leg_loop_ok [OF loop, simplified append_Nil]
  have total: "legs_cost estimates bs = Some (micros t)" if "ms = []"
  proof -
    have "filter (\<lambda>l. \<not> seller_pays i l \<and> leg_cost estimates l = None) cost_leg_ALL = []" using facts that by metis
    then have "legs_cost estimates bs \<noteq> None" using facts by (auto simp: legs_cost_defined filter_empty_conv)
    then show ?thesis using facts by (auto simp: money_zero_def)
  qed
  have ss: "ss = filter (seller_pays i) cost_leg_ALL" and bs: "bs = filter (\<lambda>l. \<not> seller_pays i l) cost_leg_ALL"
    and t: "money_currency t = cur" "money_ok t"
    using facts \<open>money_ok (money_zero cur)\<close> by (simp_all add: money_zero_def)
  have missing: "ms = filter (\<lambda>l. leg_cost estimates l = None) bs" using facts by (simp add: conj_commute)
  show ?thesis
  proof (cases "ms = []")
    case True
    with total t show ?thesis by (simp add: al ss [symmetric] bs [symmetric] missing [symmetric])
  next
    case False
    then show ?thesis by (simp add: al ss [symmetric] bs [symmetric] missing [symmetric] avail_unavailable_def)
  qed
qed

end
