(* ===== verification/Sourcing_Ranking.thy ===== *)
theory Sourcing_Ranking
  imports Sourcing_Costs "HOL-Library.Multiset"
begin

text \<open>What a bid costs, when it is usable and how the bids are ranked.\<close>

section \<open>The cost of a bid\<close>

lemma one_time_known:
  assumes "one_time q = Inr (Known v)"
  shows "\<exists>tooling nre. term_cost (qu_tooling q) = Some tooling \<and> term_cost (qu_nre q) = Some nre \<and>
    micros v = tooling + nre \<and> money_ok v"
proof -
  have res: "resolve_not_applicable t cur = Known m \<Longrightarrow> term_cost t = Some (micros m)" for t cur m
    by (auto simp: resolve_not_applicable_def term_cost_def money_zero_def split: availability.splits if_splits)
  from combine_known [OF assms [unfolded one_time_def]] obtain a b
    where ab: "resolve_not_applicable (qu_tooling q) (qu_currency q) = Known a" "resolve_not_applicable (qu_nre q) (qu_currency q) = Known b"
    by (auto simp: Cons_eq_map_conv)
  with assms have "checked_add a b = Inr v" by (auto simp: one_time_def combine_def)
  with res [OF ab(1)] res [OF ab(2)] show ?thesis by (auto simp: checked_add_ok money_ok_def)
qed

text \<open>The value of paying later or earlier than the baseline, in exact arithmetic.\<close>

definition payment_terms_value :: "quote \<Rightarrow> normalization_context \<Rightarrow> int \<Rightarrow> int" where
  "payment_terms_value q c financed =
     round_half_away (round_half_away (financed * ppm (nc_cost_of_capital c)) 1000000 *
       (int (nc_baseline_payment_days c) - int (qu_payment_days q))) 365"

lemma payment_value_ok:
  assumes "payment_value q c g v = Inr m" and "rate_ok (nc_cost_of_capital c)"
    and "qu_payment_days q \<le> 3650" and "nc_baseline_payment_days c \<le> 3650"
  shows "micros m = payment_terms_value q c (micros g + micros v) \<and> money_currency m = qu_currency q"
proof -
  let ?delta = "int (nc_baseline_payment_days c) - int (qu_payment_days q)"
  from assms(1) obtain f where f: "checked_add g v = Inr f" by (auto simp: payment_value_def bind_result_eq_Inr)
  then have ok: "money_ok f" and mf: "micros f = micros g + micros v" by (auto simp: checked_add_ok money_ok_def)
  define annual where "annual = round_half_away (micros f * ppm (nc_cost_of_capital c)) 1000000"
  have scale: "money_scale f (nc_cost_of_capital c) = Inr \<lparr>micros = annual, money_currency = money_currency f\<rparr>"
    using money_rounding_correct [OF ok assms(2), of 1] by (simp add: annual_def width_simps)
  have "\<bar>annual\<bar> \<le> 1000000000000000000"
    using scale by (auto simp: money_scale_def bind_result_eq_Inr money_from_micros_ok MAX_MONEY_MICROS_def)
  moreover have "\<bar>?delta\<bar> \<le> 3650" using assms(3,4) by auto
  ultimately have p: "\<bar>annual * ?delta\<bar> \<le> 1000000000000000000 * 3650"
    unfolding abs_mult by (rule mult_mono) auto
  have "div_round_half_away (annual * ?delta) 365 = round_half_away (annual * ?delta) 365"
    by (rule div_round_half_away_eq) (use p in \<open>auto simp: width_simps\<close>)
  moreover have "mul_div_round_half_up annual ?delta 365 = Some (div_round_half_away (annual * ?delta) 365)"
    using p by (auto simp: mul_div_round_half_up_def try_i128_def in_i128_def width_simps abs_le_iff)
  ultimately show ?thesis
    using assms(1) f scale unfolding payment_terms_value_def annual_def mf
    by (auto simp: payment_value_def bind_result_eq_Inr money_from_micros_ok try_i64_def Let_def split: if_splits)
qed

lemma avail_bind_known [simp]: "avail_bind a f = Known v \<longleftrightarrow> (\<exists>w. a = Known w \<and> f w = Known v)"
  by (cases a) auto

lemma or_arithmetic_known [simp]: "or_arithmetic r = Known v \<longleftrightarrow> r = Inr v"
  by (cases r) (auto simp: or_arithmetic_def avail_unavailable_def)

lemma mul_units_ok:
  "mul_units a u = Inr m \<Longrightarrow> micros m = micros a * int u \<and> money_currency m = money_currency a \<and> money_ok m"
  by (auto simp: mul_units_def bind_result_eq_Inr money_from_micros_ok money_ok_def try_i64_def try_i128_def split: if_splits)

section \<open>Issues\<close>

lemma dedup_head: "dedup_issues (x # xs) = [] \<longleftrightarrow> False" "hd (dedup_issues (x # xs)) = x"
  by (induction "x # xs" arbitrary: x xs rule: dedup_issues.induct) auto

text \<open>Removing duplicates loses no blocking issue: the blocking ones come first and the first stays.\<close>

lemma blocking_kept:
  assumes "i \<in> set issues" and "qi_blocking i"
  shows "\<exists>j \<in> set (dedup_issues (sort_key issue_key issues)). qi_blocking j"
proof -
  obtain x xs where xs: "sort_key issue_key issues = x # xs" using assms(1) by (cases "sort_key issue_key issues") (auto dest: arg_cong [of _ _ set])
  have "i \<in> set (x # xs)" using assms(1) xs by (metis set_sort)
  moreover have "sorted (map issue_key (x # xs))" using xs by (metis sorted_sort_key)
  ultimately have "issue_key x \<le> issue_key i" by auto
  then have "qi_blocking x" using assms(2) by (auto simp: issue_key_def less_eq_prod_def)
  moreover have "x \<in> set (dedup_issues (sort_key issue_key issues))"
    using dedup_head [of x xs] xs by (metis list.set_sel(1))
  ultimately show ?thesis by blast
qed

text \<open>What a quote without a blocking issue offers.\<close>

definition orderable :: "quote \<Rightarrow> rfq_package \<Rightarrow> normalization_context \<Rightarrow> bool" where
  "orderable q p c \<longleftrightarrow> qu_part q = rp_part p \<and> qu_currency q = rp_currency p \<and>
     (is_maritime_term (qu_incoterm q) \<longrightarrow> qu_mode q \<in> {OceanFcl, OceanLcl}) \<and>
     (\<forall>d. qu_valid_until q = Some d \<longrightarrow> day_number (nc_as_of c) \<le> day_number d) \<and>
     units_get (qu_moq q) \<le> units_get (nc_target_quantity c) \<and> units_get (qu_multiple q) dvd units_get (nc_target_quantity c) \<and>
     distinct (map vp_quantity (qu_prices q))"

lemma price_issues_strict:
  "\<forall>i \<in> set (price_issues (Some (u, pr)) ps). \<not> qi_blocking i \<Longrightarrow>
   sorted (map (\<lambda>p. units_get (vp_quantity p)) ps) \<Longrightarrow> \<forall>p \<in> set ps. units_get u \<le> units_get (vp_quantity p) \<Longrightarrow>
   distinct (u # map vp_quantity ps)"
proof (induction ps arbitrary: u pr)
  case (Cons p ps)
  have neq: "vp_quantity p \<noteq> u" using Cons.prems(1) by (auto simp: issue_if_def issue_def split: if_splits)
  have "distinct (vp_quantity p # map vp_quantity ps)"
    by (rule Cons.IH [of _ "term_known (vp_unit_price p)"]) (use Cons.prems in auto)
  moreover have "u \<notin> vp_quantity ` set ps"
  proof
    assume "u \<in> vp_quantity ` set ps"
    then have "units_get (vp_quantity p) \<le> units_get u" using Cons.prems(2) by auto
    with Cons.prems(3) have "units_get (vp_quantity p) = units_get u" by (simp add: order_antisym)
    with neq show False by (simp add: units.expand)
  qed
  ultimately show ?case using neq by auto
qed simp

lemma issue_if_blocking [simp]: "(\<forall>i \<in> set (issue_if b code detail True). \<not> qi_blocking i) \<longleftrightarrow> \<not> b"
  by (simp add: issue_if_def issue_def)

lemma issue_blocking [simp]: "qi_blocking (issue code detail blocking) = blocking"
  by (simp add: issue_def)

lemma no_blocking_orderable:
  assumes "\<forall>i \<in> set (early_issues q p c). \<not> qi_blocking i"
  shows "orderable q p c"
proof -
  let ?ps = "sort_key (\<lambda>p. units_get (vp_quantity p)) (qu_prices q)"
  note no = assms [unfolded early_issues_def set_append ball_Un]
  have "\<forall>i \<in> set (price_issues None ?ps). \<not> qi_blocking i" using no by blast
  moreover have "sorted (map (\<lambda>p. units_get (vp_quantity p)) ?ps)" by simp
  ultimately have "distinct (map vp_quantity ?ps)" by (cases ?ps) (auto dest!: price_issues_strict)
  then have "distinct (map vp_quantity (qu_prices q))" by (simp add: distinct_map inj_on_def)
  moreover have "is_maritime_term (qu_incoterm q) \<longrightarrow> qu_mode q \<in> {OceanFcl, OceanLcl}"
    using no by (auto simp: validate_term_for_mode_def refuse_if_def split: if_splits sum.splits)
  moreover have "day_number (nc_as_of c) \<le> day_number d" if "qu_valid_until q = Some d" for d
    using no that by (simp add: day_before_def not_less)
  ultimately show ?thesis
    using no by (simp add: orderable_def not_less mod_eq_0_iff_dvd)
qed

section \<open>Usable bids\<close>

text \<open>The cost of a quote in exact arithmetic: the goods at the price of the break that applies, the one-time cost,
  the buyer's legs of the delivery and the value of the payment terms. There is none if the tooling, the engineering
  or one of the buyer's legs is missing.\<close>

definition bid_cost :: "quote \<Rightarrow> normalization_context \<Rightarrow> int \<Rightarrow> int option" where
  "bid_cost q c price =
     (let goods = price * int (units_get (nc_target_quantity c));
          legs = filter (\<lambda>l. \<not> seller_pays (qu_incoterm q) l) cost_leg_ALL
      in Option.bind (term_cost (qu_tooling q)) (\<lambda>tooling.
         Option.bind (term_cost (qu_nre q)) (\<lambda>nre.
         Option.bind (legs_cost (qu_freight_estimates q) legs) (\<lambda>delivery.
         Some (goods + (tooling + nre) + delivery + payment_terms_value q c (goods + (tooling + nre)))))))"

lemma detected_orderable:
  assumes "detect_issues q p c = Inr issues" and "\<forall>i \<in> set issues. \<not> qi_blocking i"
  shows "orderable q p c \<and> qu_payment_days q \<le> 3650 \<and> nc_baseline_payment_days c \<le> 3650 \<and> 0 < units_get (nc_target_quantity c)"
proof -
  obtain ot al where "issues = dedup_issues (sort_key issue_key (early_issues q p c @ one_time_issues q ot @ late_issues q al))"
    and valid: "quote_validate q = Inr ()" "context_validate c = Inr ()"
    using assms(1) by (auto simp: detect_issues_def bind_result_eq_Inr Let_def split: if_splits)
  then have "\<forall>i \<in> set (early_issues q p c). \<not> qi_blocking i"
    using assms(2) blocking_kept [of _ "early_issues q p c @ one_time_issues q ot @ late_issues q al"] by fastforce
  then show ?thesis
    using no_blocking_orderable valid
    by (auto simp: quote_validate_def context_validate_def units_is_zero_def refuse_if_def split: if_splits)
qed

text \<open>What a bid is made of.\<close>

lemma normalized_parts:
  assumes "normalize_quote q p c = Inr b"
  shows "\<exists>issues al. detect_issues q p c = Inr issues \<and> nb_issues b = issues \<and>
    nb_goods_value b = goods_value_of (unit_price_of (select_price q (nc_target_quantity c))) c \<and>
    one_time q = Inr (nb_one_time_cost b) \<and> leg_allocation_of q (qu_incoterm q) = Inr al \<and>
    nb_buyer_logistics b = la_buyer_total al \<and>
    payment_adjustment_of q c (nb_goods_value b) (nb_one_time_cost b) = Inr (nb_payment_adjustment b) \<and>
    combine [nb_goods_value b, nb_one_time_cost b, nb_buyer_logistics b, nb_payment_adjustment b] = Inr (nb_normalized_total b) \<and>
    nb_normalized_per_unit b = per_unit_of (nb_normalized_total b) c \<and>
    nb_status b = bid_status_of issues (nb_normalized_total b) \<and> nb_quote_id b = qu_id q \<and> nb_supplier b = qu_supplier q"
  using assms by (auto simp: normalize_quote_def bind_result_eq_Inr Let_def)

lemma usable_status:
  "bid_status_of issues tot = Usable \<longleftrightarrow> (\<forall>i \<in> set issues. \<not> qi_blocking i) \<and> is_known tot"
  by (auto simp: bid_status_of_def Let_def filter_empty_conv)

lemma is_known_eq: "is_known a \<longleftrightarrow> (\<exists>v. a = Known v)"
  by (cases a) auto

lemma per_unit_known:
  assumes "money_ok t" and "units_ok (nc_target_quantity c)" and "0 < units_get (nc_target_quantity c)"
  shows "per_unit_of (Known t) c =
    Known \<lparr>micros = round_half_away (micros t) (int (units_get (nc_target_quantity c))), money_currency = money_currency t\<rparr>"
  using money_rounding_correct [OF assms(1) _ assms(3), of "Rate 0"] assms(2)
  by (simp add: per_unit_of_def units_ok_def rate_ok_def money_bounds width_simps or_arithmetic_def)

lemma goods_value_known:
  "goods_value_of (unit_price_of (select_price q (nc_target_quantity c))) c = Known g \<longleftrightarrow>
   (\<exists>vp price. select_price q (nc_target_quantity c) = Some vp \<and> term_known (vp_unit_price vp) = Some price \<and>
      mul_units price (units_get (nc_target_quantity c)) = Inr g)"
proof -
  have "as_known a = Some v \<longleftrightarrow> a = Known v" for a :: "money availability" and v by (cases a) auto
  then show ?thesis
    by (auto simp: goods_value_of_def unit_price_of_def term_known_def avail_unavailable_def split: option.splits)
qed

text \<open>The addends of a usable bid.\<close>

lemma usable_parts:
  assumes "normalize_quote q p c = Inr b" and "nb_status b = Usable"
  shows "\<exists>vp price g v l m t al. select_price q (nc_target_quantity c) = Some vp \<and> term_known (vp_unit_price vp) = Some price \<and>
    mul_units price (units_get (nc_target_quantity c)) = Inr g \<and> one_time q = Inr (Known v) \<and>
    leg_allocation_of q (qu_incoterm q) = Inr al \<and> la_buyer_total al = Known l \<and> payment_value q c g v = Inr m \<and>
    combine [Known g, Known v, Known l, Known m] = Inr (Known t) \<and> nb_normalized_total b = Known t \<and>
    nb_normalized_per_unit b = per_unit_of (Known t) c \<and> orderable q p c \<and> qu_payment_days q \<le> 3650 \<and>
    nc_baseline_payment_days c \<le> 3650 \<and> 0 < units_get (nc_target_quantity c)"
proof -
  from normalized_parts [OF assms(1)] obtain issues al where parts: "detect_issues q p c = Inr issues"
    "nb_goods_value b = goods_value_of (unit_price_of (select_price q (nc_target_quantity c))) c"
    "one_time q = Inr (nb_one_time_cost b)" "leg_allocation_of q (qu_incoterm q) = Inr al" "nb_buyer_logistics b = la_buyer_total al"
    "payment_adjustment_of q c (nb_goods_value b) (nb_one_time_cost b) = Inr (nb_payment_adjustment b)"
    "combine [nb_goods_value b, nb_one_time_cost b, nb_buyer_logistics b, nb_payment_adjustment b] = Inr (nb_normalized_total b)"
    "nb_normalized_per_unit b = per_unit_of (nb_normalized_total b) c" "nb_status b = bid_status_of issues (nb_normalized_total b)"
    by blast
  from parts(9) assms(2) usable_status is_known_eq obtain t where t: "nb_normalized_total b = Known t"
    and clean: "\<forall>i \<in> set issues. \<not> qi_blocking i" by metis
  from combine_known [OF parts(7) [unfolded t]] obtain g v l m
    where known: "nb_goods_value b = Known g" "nb_one_time_cost b = Known v" "nb_buyer_logistics b = Known l"
      "nb_payment_adjustment b = Known m" by (auto simp: Cons_eq_map_conv)
  have "payment_value q c g v = Inr m" using parts(6) known by (auto simp: payment_adjustment_of_def bind_result_eq_Inr)
  moreover have "combine [Known g, Known v, Known l, Known m] = Inr (Known t)" using parts(7) known t by simp
  moreover have "la_buyer_total al = Known l" "one_time q = Inr (Known v)" "nb_normalized_per_unit b = per_unit_of (Known t) c"
    using parts(3,5,8) known t by simp_all
  moreover obtain vp price where "select_price q (nc_target_quantity c) = Some vp" "term_known (vp_unit_price vp) = Some price"
    "mul_units price (units_get (nc_target_quantity c)) = Inr g" using goods_value_known [of q c g] parts(2) known(1) by auto
  ultimately show ?thesis using detected_orderable [OF parts(1) clean] parts(4) t by blast
qed

lemma usable_cost:
  assumes "normalize_quote q p c = Inr b" and "nb_status b = Usable"
    and "rate_ok (nc_cost_of_capital c)" and "units_ok (nc_target_quantity c)"
  shows "\<exists>vp price t u. select_price q (nc_target_quantity c) = Some vp \<and> term_known (vp_unit_price vp) = Some price \<and>
    orderable q p c \<and> nb_normalized_total b = Known t \<and> nb_normalized_per_unit b = Known u \<and>
    bid_cost q c (micros price) = Some (micros t) \<and> micros u = round_half_away (micros t) (int (units_get (nc_target_quantity c))) \<and>
    money_currency t = rp_currency p \<and> money_currency u = rp_currency p \<and> money_ok t"
proof -
  from usable_parts [OF assms(1,2)] obtain vp price g v l m t al
    where g: "select_price q (nc_target_quantity c) = Some vp" "term_known (vp_unit_price vp) = Some price"
      "mul_units price (units_get (nc_target_quantity c)) = Inr g"
      and parts: "one_time q = Inr (Known v)" "leg_allocation_of q (qu_incoterm q) = Inr al" "la_buyer_total al = Known l"
        "payment_value q c g v = Inr m" "combine [Known g, Known v, Known l, Known m] = Inr (Known t)"
      and t: "nb_normalized_total b = Known t" "nb_normalized_per_unit b = per_unit_of (Known t) c"
      and ord: "orderable q p c" "qu_payment_days q \<le> 3650" "nc_baseline_payment_days c \<le> 3650" "0 < units_get (nc_target_quantity c)"
    by blast
  from combine_known [OF parts(5)] have sum: "micros t = micros g + micros v + micros l + micros m"
    and cur: "money_currency m = money_currency t" by (auto simp: Cons_eq_map_conv)
  have "allocate_legs (qu_incoterm q) (qu_currency q) (qu_freight_estimates q) = Inr al"
    using parts(2) by (simp add: leg_allocation_of_def)
  from allocate_legs_ok [OF this] parts(3) have l: "legs_cost (qu_freight_estimates q)
      (filter (\<lambda>l. \<not> seller_pays (qu_incoterm q) l) cost_leg_ALL) = Some (micros l)" by metis
  note m = payment_value_ok [OF parts(4) assms(3) ord(2,3)]
  have tot: "bid_cost q c (micros price) = Some (micros t)"
    using sum mul_units_ok [OF g(3)] one_time_known [OF parts(1)] l m by (auto simp: bid_cost_def Let_def)
  have ok: "money_ok t" using parts(5) by (auto simp: combine_def checked_add_ok bind_result_eq_Inr money_ok_def)
  show ?thesis using per_unit_known [OF ok assms(4) ord(4)] ord(1) g t tot ok cur m by (simp add: orderable_def)
qed

section \<open>The ranking\<close>

definition usable_bids :: "normalized_bid list \<Rightarrow> (string \<times> money) list" where
  "usable_bids bs = List.map_filter (\<lambda>b. if nb_status b = Usable
     then map_option (Pair (nb_quote_id b)) (as_known (nb_normalized_per_unit b)) else None) bs"

definition is_blocked :: "normalized_bid \<Rightarrow> bool" where
  "is_blocked b \<longleftrightarrow> (\<exists>rs. nb_status b = Blocked rs)"

definition unranked :: "normalized_bid \<Rightarrow> bool" where
  "unranked b \<longleftrightarrow> \<not> is_blocked b \<and> \<not> (nb_status b = Usable \<and> is_known (nb_normalized_per_unit b))"

lemma usable_bids_Cons: "usable_bids (b # bs) = usable_bids [b] @ usable_bids bs"
  by (simp add: usable_bids_def map_filter_simps split: option.splits)

text \<open>Every bid goes to one of the three lists.\<close>

lemma bids_partition:
  "mset (map fst (usable_bids bs)) + mset (map nb_quote_id (filter unranked bs)) + mset (map nb_quote_id (filter is_blocked bs))
     = mset (map nb_quote_id bs)"
proof (induction bs)
  case Nil
  then show ?case by (simp add: usable_bids_def map_filter_simps)
next
  case (Cons b bs)
  have "mset (map fst (usable_bids [b])) + mset (map nb_quote_id (filter unranked [b])) + mset (map nb_quote_id (filter is_blocked [b]))
      = {#nb_quote_id b#}"
    by (cases "nb_status b"; cases "nb_normalized_per_unit b")
      (auto simp: usable_bids_def map_filter_simps unranked_def is_blocked_def)
  with Cons usable_bids_Cons [of b bs] show ?case by auto
qed

lemma sort_bid_eq:
  "sort_bid (bids, us, inc, bl) b =
   (bids @ [b], us @ usable_bids [b], inc @ map nb_quote_id (filter unranked [b]), bl @ map nb_quote_id (filter is_blocked [b]))"
  by (auto simp: sort_bid_def usable_bids_def unranked_def is_blocked_def map_filter_simps is_known_eq
      split: bid_status.splits availability.splits)

lemma bid_loop:
  assumes "try_fold (bid_step p c) (bids, us, inc, bl) quotes = Inr (bids', us', inc', bl')"
  shows "\<exists>bs. list_all2 (\<lambda>q b. normalize_quote q p c = Inr b) quotes bs \<and> bids' = bids @ bs \<and> us' = us @ usable_bids bs \<and>
    inc' = inc @ map nb_quote_id (filter unranked bs) \<and> bl' = bl @ map nb_quote_id (filter is_blocked bs)"
  using assms
proof (induction quotes arbitrary: bids us inc bl)
  case Nil
  then show ?case by (simp add: usable_bids_def map_filter_simps)
next
  case (Cons q quotes)
  then obtain b where b: "normalize_quote q p c = Inr b"
    and rest: "try_fold (bid_step p c) (bids @ [b], us @ usable_bids [b], inc @ map nb_quote_id (filter unranked [b]),
      bl @ map nb_quote_id (filter is_blocked [b])) quotes = Inr (bids', us', inc', bl')"
    unfolding try_fold.simps bid_step_def bind_result_eq_Inr by (auto simp del: filter.simps simp: sort_bid_eq)
  from Cons.IH [OF rest] obtain bs where "list_all2 (\<lambda>q b. normalize_quote q p c = Inr b) quotes bs" "bids' = (bids @ [b]) @ bs"
    "us' = (us @ usable_bids [b]) @ usable_bids bs" "inc' = (inc @ map nb_quote_id (filter unranked [b])) @ map nb_quote_id (filter unranked bs)"
    "bl' = (bl @ map nb_quote_id (filter is_blocked [b])) @ map nb_quote_id (filter is_blocked bs)" by blast
  with b show ?case using usable_bids_Cons [of b bs] by (intro exI [of _ "b # bs"]) auto
qed

lemma first_duplicate_none: "first_duplicate seen is = None \<longleftrightarrow> distinct is \<and> set is \<inter> set seen = {}"
  by (induction seen "is" rule: first_duplicate.induct) auto

lemma compared:
  assumes "compare_bids quotes p c = Inr cmp"
  shows "list_all2 (\<lambda>q b. normalize_quote q p c = Inr b) quotes (bc_bids cmp) \<and> distinct (map nb_quote_id (bc_bids cmp)) \<and>
    bc_ranked cmp = map fst (sort_key rank_key (usable_bids (bc_bids cmp))) \<and>
    bc_incomplete cmp = map nb_quote_id (filter unranked (bc_bids cmp)) \<and>
    bc_blocked cmp = map nb_quote_id (filter is_blocked (bc_bids cmp)) \<and>
    bc_best cmp = (case sort_key rank_key (usable_bids (bc_bids cmp)) of (_, v) # _ \<Rightarrow> Known v
      | [] \<Rightarrow> avail_unavailable NoCandidate ''no usable bid'')"
proof -
  obtain bids us inc bl where loop: "try_fold (bid_step p c) ([], [], [], []) quotes = Inr (bids, us, inc, bl)"
    and dup: "first_duplicate [] (map qu_id quotes) = None"
    and cmp: "cmp = \<lparr>bc_bids = bids, bc_ranked = map fst (sort_key rank_key us), bc_incomplete = inc, bc_blocked = bl,
        bc_best = (case sort_key rank_key us of (_, v) # _ \<Rightarrow> Known v | [] \<Rightarrow> avail_unavailable NoCandidate ''no usable bid'')\<rparr>"
    using assms by (auto simp: compare_bids_def bind_result_eq_Inr Let_def split: option.splits)
  from bid_loop [OF loop] have bids: "list_all2 (\<lambda>q b. normalize_quote q p c = Inr b) quotes bids" "us = usable_bids bids"
    "inc = map nb_quote_id (filter unranked bids)" "bl = map nb_quote_id (filter is_blocked bids)" by auto
  from bids(1) have "map nb_quote_id bids = map qu_id quotes"
    by (induction rule: list_all2_induct) (auto dest: normalized_parts)
  with dup have "distinct (map nb_quote_id bids)" by (simp add: first_duplicate_none)
  with bids cmp show ?thesis by simp
qed

end
