(* ===== verification/Sourcing_Sample.thy ===== *)
theory Sourcing_Sample
  imports Sourcing_Ranking
begin

text \<open>Two quotes for a request for ten pieces, on which the properties of the sourcing kernel are instantiated.\<close>

definition sample_evidence :: evidence_ref where
  "sample_evidence = \<lparr>ev_id = ''doc'', ev_revision = Revision 1, ev_digest = None\<rparr>"

definition sample_provenance :: provenance where
  "sample_provenance = \<lparr>pv_source = SupplierDocument, pv_evidence = sample_evidence, captured_on = Day 10,
     pv_method = ''read'', conditions = [], pv_falsifier = ''new quote''\<rparr>"

definition sample_money :: "int \<Rightarrow> money supply_term" where
  "sample_money m = term_evidence (usd m) sample_provenance"

definition sample_package :: rfq_package where
  "sample_package = \<lparr>rp_id = ''rfq'', rp_revision = Revision 1, rp_part = 7, rp_description = ''bracket'',
     rp_currency = Currency ''USD'', rp_volume_breaks = [Units 10], rp_required_processes = [], rp_required_qualifications = [],
     rp_incoterm = Ddp, rp_destination_country = ''DE'', rp_payment_days = 30, rp_required_by = Day 90,
     rp_should_cost_target = None, rp_questions = [], rp_requirement_evidence = sample_evidence\<rparr>"

definition sample_quote :: "string \<Rightarrow> int \<Rightarrow> int \<Rightarrow> quote" where
  "sample_quote i price tooling = \<lparr>qu_id = i, qu_supplier = 3, qu_part = 7, qu_revision = Revision 1,
     qu_currency = Currency ''USD'', qu_prices = [\<lparr>vp_quantity = Units 10, vp_unit_price = sample_money price\<rparr>],
     qu_tooling = sample_money tooling, qu_nre = term_not_applicable ''none'', qu_amortization_units = Some (Units 100),
     qu_payment_days = 30, qu_moq = Units 5, qu_multiple = Units 5, qu_lead_time_days = term_unknown NotProvided ''open'',
     qu_valid_until = Some (Day 60), qu_warranty_days = 0, qu_ncnr = False, qu_incoterm = Ddp, qu_mode = Road,
     qu_freight_estimates = [\<lparr>es_leg = CargoInsurance, es_amount = term_not_applicable ''none''\<rparr>,
       \<lparr>es_leg = UnloadingAtDestination, es_amount = sample_money 20\<rparr>],
     qu_document = sample_evidence\<rparr>"

definition sample_context :: normalization_context where
  "sample_context = \<lparr>nc_target_quantity = Units 10, nc_cost_of_capital = Rate 100000, nc_baseline_payment_days = 60,
     nc_as_of = Day 20\<rparr>"

lemma sample_bid:
  "(case normalize_quote (sample_quote ''b'' 400 30) sample_package sample_context of
      Inr b \<Rightarrow> nb_status b = Usable \<and> nb_normalized_total b = Known (usd 4083) \<and> nb_normalized_per_unit b = Known (usd 408)
    | Inl e \<Rightarrow> False)"
  by code_simp

lemma sample_ranking:
  "(case compare_bids [sample_quote ''a'' 500 0, sample_quote ''b'' 400 30] sample_package sample_context of
      Inr cmp \<Rightarrow> bc_ranked cmp = [''b'', ''a''] \<and> bc_best cmp = Known (usd 408) | Inl e \<Rightarrow> False)"
  by code_simp

lemma sample_price:
  "map_option (\<lambda>vp. term_known (vp_unit_price vp)) (select_price (sample_quote ''b'' 400 30) (nc_target_quantity sample_context)) = Some (Some (usd 400))"
  by code_simp

lemma sample_rows: "is_ok (compare_incoterms (sample_quote ''b'' 400 30) sample_context)"
  by code_simp

lemma sample_bounds: "rate_ok (nc_cost_of_capital sample_context)" "units_ok (nc_target_quantity sample_context)"
  by (simp_all add: sample_context_def rate_ok_def units_ok_def money_bounds)

lemma sample_bid_obtain:
  obtains b where "normalize_quote (sample_quote ''b'' 400 30) sample_package sample_context = Inr b" "nb_status b = Usable"
    "nb_normalized_total b = Known (usd 4083)" "nb_normalized_per_unit b = Known (usd 408)"
  using sample_bid by (auto split: sum.splits)

lemma sample_ranking_obtain:
  obtains cmp where "compare_bids [sample_quote ''a'' 500 0, sample_quote ''b'' 400 30] sample_package sample_context = Inr cmp"
    "bc_ranked cmp = [''b'', ''a'']" "bc_best cmp = Known (usd 408)"
  using sample_ranking by (auto split: sum.splits)

end
