(* ===== verification/Secret_Scanner.thy ===== *)
theory Secret_Scanner
  imports Faktor_Interfaces "HOL-Library.Product_Lexorder" "HOL-Library.Code_Target_Nat"
begin

text \<open>
  The security guard crate (\<open>crates/security/src/lib.rs\<close>): provenance and instruction authority, the
  secret-pattern language with its permissive and its strict compiler, the whole-text scanner and
  redactor, and the capability order. Every function of the file outside its tests is here, in its order.

  A Rust \<open>char\<close> is its code point, a \<^typ>\<open>nat\<close>; \<open>str::chars\<close> is \<open>utf8_chars\<close>, which decodes the bytes
  of a text. The Unicode lower-case table behind \<open>char::to_lowercase\<close> is the parameter \<open>lower\<close>, a function
  from a code point to the code points the iterator yields.
\<close>

section \<open>Characters of a text\<close>

type_synonym chr = nat
type_synonym lower_table = "chr \<Rightarrow> chr list"

definition utf8_width :: "nat \<Rightarrow> nat" where
  "utf8_width a = (if a < 128 then 1 else if a < 224 then 2 else if a < 240 then 3 else 4)"

definition utf8_lead :: "nat \<Rightarrow> nat" where
  "utf8_lead a = (if a < 128 then a else if a < 224 then a - 192 else if a < 240 then a - 224 else a - 240)"

definition utf8_scalar :: "nat \<Rightarrow> string \<Rightarrow> chr" where
  "utf8_scalar a cont = foldl (\<lambda>v b. v * 64 + (byte_of b - 128)) (utf8_lead a) cont"

function utf8_chars :: "string \<Rightarrow> chr list" where
  "utf8_chars [] = []"
| "utf8_chars (c # s) =
     utf8_scalar (byte_of c) (take (utf8_width (byte_of c) - 1) s)
       # utf8_chars (drop (utf8_width (byte_of c) - 1) s)"
  by pat_completeness auto
termination by (relation "measure length") auto

definition len_utf8 :: "chr \<Rightarrow> nat" where
  "len_utf8 c = (if c < 128 then 1 else if c < 2048 then 2 else if c < 65536 then 3 else 4)"

definition utf8_encode :: "chr \<Rightarrow> string" where
  "utf8_encode c =
     (if c < 128 then [char_of c]
      else if c < 2048 then [char_of (192 + c div 64), char_of (128 + c mod 64)]
      else if c < 65536 then
        [char_of (224 + c div 4096), char_of (128 + c div 64 mod 64), char_of (128 + c mod 64)]
      else [char_of (240 + c div 262144), char_of (128 + c div 4096 mod 64),
            char_of (128 + c div 64 mod 64), char_of (128 + c mod 64)])"

definition utf8_text :: "chr list \<Rightarrow> string" where
  "utf8_text cs = concat (map utf8_encode cs)"

text \<open>\<open>c.to_lowercase().next().unwrap_or(c)\<close>.\<close>

definition lower1 :: "lower_table \<Rightarrow> chr \<Rightarrow> chr" where
  "lower1 lower c = (case lower c of [] \<Rightarrow> c | l # _ \<Rightarrow> l)"

text \<open>The table on ASCII, as the standard library documents it; used to evaluate.\<close>

definition ascii_lower :: lower_table where
  "ascii_lower c = (if 65 \<le> c \<and> c \<le> 90 then [c + 32] else [c])"

section \<open>Provenance and instruction authority\<close>

datatype provenance = Prov_User | Prov_Repository | Prov_Dependency | Prov_Terminal | Prov_Mcp | Prov_Web
  | Prov_Model | Prov_Subagent | Prov_Tool

record tainted_text =
  tt_text :: string
  tt_provenance :: "provenance list"

definition merge_taint :: "tainted_text \<Rightarrow> tainted_text \<Rightarrow> tainted_text" where
  "merge_taint t u =
     \<lparr>tt_text = tt_text t @ tt_text u,
      tt_provenance = foldl (\<lambda>ps p. if p \<in> set ps then ps else ps @ [p]) (tt_provenance t) (tt_provenance u)\<rparr>"

definition instruction_authority_impl :: "provenance list \<Rightarrow> bool \<Rightarrow> bool" where
  "instruction_authority_impl ps tools_trusted \<longleftrightarrow>
     ps \<noteq> [] \<and> list_all (\<lambda>p. case p of Prov_User \<Rightarrow> True | Prov_Tool \<Rightarrow> tools_trusted | _ \<Rightarrow> False) ps"

definition instruction_authority :: "provenance list \<Rightarrow> bool" where
  "instruction_authority ps = instruction_authority_impl ps False"

definition instruction_authority_with_trusted_tools :: "provenance list \<Rightarrow> bool \<Rightarrow> bool" where
  "instruction_authority_with_trusted_tools ps tools_trusted = instruction_authority_impl ps tools_trusted"

definition has_instruction_authority :: "tainted_text \<Rightarrow> bool" where
  "has_instruction_authority t = instruction_authority (tt_provenance t)"

definition INSTRUCTION_OVERRIDE_PATTERNS :: "string list" where
  "INSTRUCTION_OVERRIDE_PATTERNS =
     [''ignore previous instructions'', ''ignore all previous instructions'', ''you are now'',
      ''disregard your instructions'', ''system prompt'', ''override your'', ''jailbreak'',
      ''your new instructions'']"

definition MAX_SCAN_BYTES :: nat where
  "MAX_SCAN_BYTES = 256 * 1024"

text \<open>\<open>char::is_whitespace\<close> on code points, the Unicode property White\_Space.\<close>

definition chr_whitespace :: "chr \<Rightarrow> bool" where
  "chr_whitespace c \<longleftrightarrow> (9 \<le> c \<and> c \<le> 13) \<or> c = 32 \<or> c = 133 \<or> c = 160 \<or> c = 5760 \<or> (8192 \<le> c \<and> c \<le> 8202)
     \<or> c = 8232 \<or> c = 8233 \<or> c = 8239 \<or> c = 8287 \<or> c = 12288"

text \<open>The loop state is the text built so far and \<open>pending_space\<close>.\<close>

definition normalize_step :: "chr list \<times> bool \<Rightarrow> chr \<Rightarrow> chr list \<times> bool" where
  "normalize_step st c = (case st of (out, pending) \<Rightarrow>
     if chr_whitespace c then (out, out \<noteq> [])
     else ((if pending then out @ [32] else out) @ [c], False))"

definition normalize_lower_whitespace :: "lower_table \<Rightarrow> string \<Rightarrow> chr list" where
  "normalize_lower_whitespace lower s =
     fst (foldl normalize_step ([], False) (concat (map lower (utf8_chars s))))"

text \<open>\<open>str::is_char_boundary\<close>: the byte at the index is no UTF-8 continuation byte.\<close>

definition is_char_boundary :: "string \<Rightarrow> nat \<Rightarrow> bool" where
  "is_char_boundary s i \<longleftrightarrow>
     i = 0 \<or> i = length s \<or> (i < length s \<and> \<not> (128 \<le> byte_of (s ! i) \<and> byte_of (s ! i) < 192))"

fun floor_boundary :: "string \<Rightarrow> nat \<Rightarrow> nat" where
  "floor_boundary s 0 = 0"
| "floor_boundary s (Suc i) = (if is_char_boundary s (Suc i) then Suc i else floor_boundary s i)"

definition bounded_prefix :: "string \<Rightarrow> nat \<Rightarrow> string" where
  "bounded_prefix s max_bytes =
     (if length s \<le> max_bytes then s else take (floor_boundary s max_bytes) s)"

fun is_infix :: "'a list \<Rightarrow> 'a list \<Rightarrow> bool" where
  "is_infix p [] = (p = [])"
| "is_infix p (x # xs) = (starts_with (x # xs) p \<or> is_infix p xs)"

definition contains_instruction_override :: "lower_table \<Rightarrow> string \<Rightarrow> bool" where
  "contains_instruction_override lower s \<longleftrightarrow>
     (let normalized = normalize_lower_whitespace lower (bounded_prefix s MAX_SCAN_BYTES)
      in list_ex (\<lambda>p. is_infix (utf8_chars p) normalized) INSTRUCTION_OVERRIDE_PATTERNS)"

section \<open>Policies\<close>

record secret_policy =
  scan_enabled :: bool
  block_on_secret :: bool
  key_patterns :: "string list"

definition DEFAULT_SECRET_PATTERNS :: "string list" where
  "DEFAULT_SECRET_PATTERNS =
     [''sk-[A-Za-z0-9]{20,}'', ''ghp_[A-Za-z0-9]{20,}'', ''AKIA[0-9A-Z]{16}'',
      ''xox[baprs]-[A-Za-z0-9-]{10,}'', ''-----BEGIN (RSA|OPENSSH|EC|DSA) PRIVATE KEY-----'',
      ''AIza[0-9A-Za-z_-]{20,}'']"

definition DEFAULT_PATTERN_KINDS :: "string list" where
  "DEFAULT_PATTERN_KINDS =
     [''openai_key'', ''github_token'', ''aws_key'', ''slack_token'', ''pem_private_key'', ''google_api_key'']"

definition default_secret_policy :: secret_policy where
  "default_secret_policy =
     \<lparr>scan_enabled = True, block_on_secret = True, key_patterns = DEFAULT_SECRET_PATTERNS\<rparr>"

section \<open>Compiled patterns\<close>

record class_matcher =
  cm_ranges :: "(chr \<times> chr) list"
  cm_singles :: "chr list"

record quant =
  q_min :: nat
  q_exact :: "nat option"

datatype seg = Lit "chr list" | Cls class_matcher quant | Alt "chr list list"

definition class_contains :: "lower_table \<Rightarrow> class_matcher \<Rightarrow> chr \<Rightarrow> bool" where
  "class_contains lower m c =
     (let lc = lower1 lower c
      in list_ex (\<lambda>(lo, hi). lo \<le> lc \<and> lc \<le> hi) (cm_ranges m) \<or> lc \<in> set (cm_singles m))"

definition add_range :: "chr \<times> chr \<Rightarrow> class_matcher \<Rightarrow> class_matcher" where
  "add_range r m = m\<lparr>cm_ranges := r # cm_ranges m\<rparr>"

definition add_single :: "chr \<Rightarrow> class_matcher \<Rightarrow> class_matcher" where
  "add_single c m = m\<lparr>cm_singles := c # cm_singles m\<rparr>"

fun parse_class :: "lower_table \<Rightarrow> chr list \<Rightarrow> class_matcher" where
  "parse_class lower (a # d # b # cs) =
     (if d = 45 then add_range (lower1 lower a, lower1 lower b) (parse_class lower cs)
      else add_single (lower1 lower a) (parse_class lower (d # b # cs)))"
| "parse_class lower [a, b] = add_single (lower1 lower a) (parse_class lower [b])"
| "parse_class lower [a] = add_single (lower1 lower a) \<lparr>cm_ranges = [], cm_singles = []\<rparr>"
| "parse_class lower [] = \<lparr>cm_ranges = [], cm_singles = []\<rparr>"

definition chr_digit :: "chr \<Rightarrow> bool" where
  "chr_digit c \<longleftrightarrow> 48 \<le> c \<and> c \<le> 57"

text \<open>\<open>n.saturating_mul(10).saturating_add(d)\<close> over the digits, at the width of \<open>usize\<close>.\<close>

definition sat_number :: "chr list \<Rightarrow> nat" where
  "sat_number ds = foldl (\<lambda>n d. sat_u64 (sat_u64 (n * 10) + (d - 48))) 0 ds"

text \<open>
  The quantifier parsers take the characters from the cursor on and return what is left; the cursor is
  the number of characters consumed.
\<close>

definition one_char :: quant where
  "one_char = \<lparr>q_min = 1, q_exact = Some 1\<rparr>"

definition parse_quantifier :: "chr list \<Rightarrow> (quant \<times> chr list) option" where
  "parse_quantifier cs =
     (case cs of
        [] \<Rightarrow> Some (one_char, cs)
      | b # s \<Rightarrow>
         if b \<noteq> 123 then Some (one_char, cs)
         else
           let n = sat_number (takeWhile chr_digit s) in
           case dropWhile chr_digit s of
             [] \<Rightarrow> None
           | e # r \<Rightarrow>
              if e = 125 then Some (\<lparr>q_min = n, q_exact = Some n\<rparr>, r)
              else if e = 44 then
                (case dropWhile chr_digit r of
                   [] \<Rightarrow> None
                 | f # t \<Rightarrow> if f = 125 then Some (\<lparr>q_min = n, q_exact = None\<rparr>, t) else None)
              else None)"

text \<open>The literal gathered so far becomes a segment before a class, a group or the end.\<close>

definition flush_literal :: "chr list \<Rightarrow> seg list \<Rightarrow> seg list" where
  "flush_literal lit segs = (if lit = [] then segs else segs @ [Lit lit])"

lemma dropWhile_length_le: "length (dropWhile P xs) \<le> length xs"
  by (induction xs) auto

lemma parse_quantifier_shrinks: "parse_quantifier cs = Some (q, r) \<Longrightarrow> length r \<le> length cs"
  using dropWhile_length_le [of chr_digit] unfolding parse_quantifier_def Let_def
  by (auto split: list.splits if_splits) (metis Suc_le_eq le_SucI length_Cons less_or_eq_imp_le order_trans)+

function compile_from :: "lower_table \<Rightarrow> chr list \<Rightarrow> chr list \<Rightarrow> seg list \<Rightarrow> seg list option" where
  "compile_from lower [] lit segs =
     (let segs = flush_literal lit segs in if segs = [] then None else Some segs)"
| "compile_from lower (c # cs) lit segs =
     (if c = 91 then
        (case split_once_at 93 cs of
           None \<Rightarrow> None
         | Some (spec, r) \<Rightarrow>
            (case parse_quantifier r of
               None \<Rightarrow> None
             | Some (q, r') \<Rightarrow>
                compile_from lower r' [] (flush_literal lit segs @ [Cls (parse_class lower spec) q])))
      else if c = 40 then
        (case split_once_at 41 cs of
           None \<Rightarrow> None
         | Some (body, r) \<Rightarrow>
            (let alts = split_on 124 body
             in if [] \<in> set alts then None
                else compile_from lower r [] (flush_literal lit segs @ [Alt alts])))
      else compile_from lower cs (lit @ [c]) segs)"
  by pat_completeness auto
termination
  by (relation "measure (\<lambda>(lower, cs, lit, segs). length cs)")
    (auto simp: split_once_at_Some dest!: parse_quantifier_shrinks)

definition compile :: "lower_table \<Rightarrow> string \<Rightarrow> seg list option" where
  "compile lower pattern = compile_from lower (utf8_chars pattern) [] []"

section \<open>The strict compiler\<close>

datatype pattern_reason = Unsupported_metacharacter chr | Bar_outside_group | Unbalanced chr | Stray_brace
  | Unterminated_class | Empty_class | Class_metacharacter chr | Class_without_members | Reversed_range
  | Unterminated_group | Empty_group | Empty_member | Member_not_literal | Quantifier_without_digits
  | Quantifier_zero | Quantifier_upper_bound | Quantifier_malformed | Empty_pattern

record pattern_compile_error =
  pe_pattern :: string
  pe_char_index :: nat
  pe_reason :: pattern_reason

definition pattern_err :: "string \<Rightarrow> nat \<Rightarrow> pattern_reason \<Rightarrow> pattern_compile_error + 'a" where
  "pattern_err pattern i reason = Inl \<lparr>pe_pattern = pattern, pe_char_index = i, pe_reason = reason\<rparr>"

definition META :: "chr list" where
  "META = [94, 36, 46, 42, 43, 63, 92]"

text \<open>
  \<open>strict_quantifier\<close> is called at an opening brace; \<open>i\<close> is the index of the brace and the result carries
  the index and the characters after the quantifier.
\<close>

definition strict_quantifier ::
  "string \<Rightarrow> nat \<Rightarrow> chr list \<Rightarrow> pattern_compile_error + quant \<times> nat \<times> chr list" where
  "strict_quantifier pattern i s =
     (let ds = takeWhile chr_digit s;
          n = sat_number ds;
          j = i + 1 + length ds
      in if ds = [] then pattern_err pattern i Quantifier_without_digits
         else if n = 0 then pattern_err pattern i Quantifier_zero
         else case dropWhile chr_digit s of
             [] \<Rightarrow> pattern_err pattern i Quantifier_malformed
           | e # r \<Rightarrow>
              if e = 125 then Inr (\<lparr>q_min = n, q_exact = Some n\<rparr>, j + 1, r)
              else if e = 44 then
                (case r of
                   [] \<Rightarrow> pattern_err pattern i Quantifier_malformed
                 | f # t \<Rightarrow>
                    if f = 125 then Inr (\<lparr>q_min = n, q_exact = None\<rparr>, j + 2, t)
                    else if chr_digit f then pattern_err pattern (j + 1) Quantifier_upper_bound
                    else pattern_err pattern i Quantifier_malformed)
              else pattern_err pattern i Quantifier_malformed)"

text \<open>The first position and character of a list that the check refuses.\<close>

fun find_from :: "(chr \<Rightarrow> bool) \<Rightarrow> nat \<Rightarrow> chr list \<Rightarrow> (nat \<times> chr) option" where
  "find_from P k [] = None"
| "find_from P k (c # cs) = (if P c then Some (k, c) else find_from P (k + 1) cs)"

definition meta_chr :: "chr \<Rightarrow> bool" where
  "meta_chr c \<longleftrightarrow> c \<in> set META"

definition member_forbidden :: "chr \<Rightarrow> bool" where
  "member_forbidden c \<longleftrightarrow> c \<in> {91, 93, 40, 41, 123, 125, 92, 124} \<or> meta_chr c"

text \<open>The class between the brackets at index \<open>i\<close>, and the group between the parentheses.\<close>

definition strict_class ::
  "lower_table \<Rightarrow> string \<Rightarrow> nat \<Rightarrow> chr list \<Rightarrow> pattern_compile_error + class_matcher" where
  "strict_class lower pattern i spec =
     (if spec = [] then pattern_err pattern i Empty_class
      else case find_from meta_chr 0 spec of
          Some (k, c) \<Rightarrow> pattern_err pattern (i + 1 + k) (Class_metacharacter c)
        | None \<Rightarrow>
           (let class = parse_class lower spec
            in if cm_ranges class = [] \<and> cm_singles class = [] then pattern_err pattern i Class_without_members
               else if list_ex (\<lambda>(lo, hi). lo > hi) (cm_ranges class) then pattern_err pattern i Reversed_range
               else Inr class))"

definition strict_member :: "string \<Rightarrow> nat \<Rightarrow> chr list \<Rightarrow> pattern_compile_error + unit" where
  "strict_member pattern i alt =
     (case find_from member_forbidden 0 alt of
        Some (k, c) \<Rightarrow> pattern_err pattern (i + 1 + k) Member_not_literal
      | None \<Rightarrow> Inr ())"

definition strict_group :: "string \<Rightarrow> nat \<Rightarrow> chr list \<Rightarrow> pattern_compile_error + chr list list" where
  "strict_group pattern i body =
     (if body = [] then pattern_err pattern i Empty_group
      else let alts = split_on 124 body
        in if [] \<in> set alts then pattern_err pattern i Empty_member
           else and_then (try_each (strict_member pattern i) alts) (Inr alts))"

definition strict_quant_opt ::
  "string \<Rightarrow> nat \<Rightarrow> chr list \<Rightarrow> pattern_compile_error + quant \<times> nat \<times> chr list" where
  "strict_quant_opt pattern i r =
     (case r of
        [] \<Rightarrow> Inr (one_char, i, r)
      | b # s \<Rightarrow> if b = 123 then strict_quantifier pattern i s else Inr (one_char, i, r))"

lemma strict_quant_opt_shrinks:
  "strict_quant_opt pattern i r = Inr (q, j, r') \<Longrightarrow> length r' \<le> length r"
proof -
  assume ok: "strict_quant_opt pattern i r = Inr (q, j, r')"
  have "length (dropWhile chr_digit (tl r)) \<le> length (tl r)" by (rule dropWhile_length_le)
  with ok show ?thesis
    unfolding strict_quant_opt_def strict_quantifier_def Let_def pattern_err_def
    by (auto split: list.splits if_splits)
qed

function strict_from ::
  "lower_table \<Rightarrow> string \<Rightarrow> nat \<Rightarrow> chr list \<Rightarrow> chr list \<Rightarrow> seg list \<Rightarrow> pattern_compile_error + seg list" where
  "strict_from lower pattern i [] lit segs =
     (let segs = flush_literal lit segs
      in if segs = [] then pattern_err pattern 0 Empty_pattern else Inr segs)"
| "strict_from lower pattern i (c # cs) lit segs =
     (if meta_chr c then pattern_err pattern i (Unsupported_metacharacter c)
      else if c = 124 then pattern_err pattern i Bar_outside_group
      else if c = 41 \<or> c = 93 \<or> c = 125 then pattern_err pattern i (Unbalanced c)
      else if c = 123 then pattern_err pattern i Stray_brace
      else if c = 91 then
        (case split_once_at 93 cs of
           None \<Rightarrow> pattern_err pattern i Unterminated_class
         | Some (spec, r) \<Rightarrow>
            (case strict_class lower pattern i spec of
               Inl e \<Rightarrow> Inl e
             | Inr class \<Rightarrow>
                (case strict_quant_opt pattern (i + 2 + length spec) r of
                   Inl e \<Rightarrow> Inl e
                 | Inr (q, j, r') \<Rightarrow>
                    strict_from lower pattern j r' [] (flush_literal lit segs @ [Cls class q]))))
      else if c = 40 then
        (case split_once_at 41 cs of
           None \<Rightarrow> pattern_err pattern i Unterminated_group
         | Some (body, r) \<Rightarrow>
            (case strict_group pattern i body of
               Inl e \<Rightarrow> Inl e
             | Inr alts \<Rightarrow>
                strict_from lower pattern (i + 2 + length body) r [] (flush_literal lit segs @ [Alt alts])))
      else strict_from lower pattern (i + 1) cs (lit @ [c]) segs)"
  by pat_completeness auto
termination
  by (relation "measure (\<lambda>(lower, pattern, i, cs, lit, segs). length cs)")
    (auto simp: split_once_at_Some dest!: strict_quant_opt_shrinks)

definition strict_compile :: "lower_table \<Rightarrow> string \<Rightarrow> pattern_compile_error + seg list" where
  "strict_compile lower pattern = strict_from lower pattern 0 (utf8_chars pattern) [] []"

definition validate_pattern :: "lower_table \<Rightarrow> string \<Rightarrow> pattern_compile_error + unit" where
  "validate_pattern lower pattern = bind_result (strict_compile lower pattern) (\<lambda>_. Inr ())"

section \<open>Matching\<close>

definition chars_eq_ignore_case :: "lower_table \<Rightarrow> chr list \<Rightarrow> chr list \<Rightarrow> bool" where
  "chars_eq_ignore_case lower a b \<longleftrightarrow>
     length a = length b \<and> list_all (\<lambda>(x, y). lower x = lower y) (zip a b)"

text \<open>Does \<open>lit\<close> stand at \<open>pos\<close>: the bounds check and the comparison of the byte_slice.\<close>

definition lit_at :: "lower_table \<Rightarrow> chr list \<Rightarrow> chr list \<Rightarrow> nat \<Rightarrow> bool" where
  "lit_at lower lit w pos \<longleftrightarrow>
     pos + length lit \<le> length w \<and> chars_eq_ignore_case lower (take (length lit) (drop pos w)) lit"

definition class_run :: "lower_table \<Rightarrow> class_matcher \<Rightarrow> chr list \<Rightarrow> nat \<Rightarrow> nat" where
  "class_run lower m w pos = length (takeWhile (class_contains lower m) (drop pos w))"

text \<open>The loop of an open run: from the full run length down to \<open>min\<close>.\<close>

fun backtrack :: "(nat \<Rightarrow> nat option) \<Rightarrow> nat \<Rightarrow> nat \<Rightarrow> nat option" where
  "backtrack f lo 0 = f 0"
| "backtrack f lo (Suc k) =
     (case f (Suc k) of Some e \<Rightarrow> Some e | None \<Rightarrow> if Suc k = lo then None else backtrack f lo k)"

text \<open>\<open>segs[si..]\<close> is the list of the segments still to match.\<close>

fun match_segments :: "lower_table \<Rightarrow> seg list \<Rightarrow> chr list \<Rightarrow> nat \<Rightarrow> nat option" where
  "match_segments lower [] w pos = Some pos"
| "match_segments lower (Lit lit # segs) w pos =
     (if lit_at lower lit w pos then match_segments lower segs w (pos + length lit) else None)"
| "match_segments lower (Alt alts # segs) w pos =
     (case List.find (\<lambda>alt. lit_at lower alt w pos) alts of
        Some alt \<Rightarrow> match_segments lower segs w (pos + length alt)
      | None \<Rightarrow> None)"
| "match_segments lower (Cls m q # segs) w pos =
     (let run = class_run lower m w pos
      in if run < q_min q then None
         else case q_exact q of
             Some exact \<Rightarrow> match_segments lower segs w (pos + exact)
           | None \<Rightarrow> backtrack (\<lambda>k. match_segments lower segs w (pos + k)) (q_min q) run)"

section \<open>Scanning\<close>

text \<open>The hits of one pattern from a position on: the \<open>while\<close> loop.\<close>

function scan_pattern :: "lower_table \<Rightarrow> seg list \<Rightarrow> chr list \<Rightarrow> nat \<Rightarrow> (nat \<times> nat) list" where
  "scan_pattern lower segs w pos =
     (if length w \<le> pos then []
      else case match_segments lower segs w pos of
          Some e \<Rightarrow> if pos < e then (pos, e) # scan_pattern lower segs w e else scan_pattern lower segs w (pos + 1)
        | None \<Rightarrow> scan_pattern lower segs w (pos + 1))"
  by pat_completeness auto
termination by (relation "measure (\<lambda>(lower, segs, w, pos). length w - pos)") auto

declare scan_pattern.simps [simp del]

text \<open>A raw hit is \<open>(start, end, pattern index)\<close> in characters.\<close>

type_synonym raw_hit = "nat \<times> nat \<times> nat"

definition raw_hits :: "lower_table \<Rightarrow> chr list \<Rightarrow> (nat \<times> seg list) list \<Rightarrow> raw_hit list" where
  "raw_hits lower w patterns =
     concat (map (\<lambda>(pidx, segs). if segs = [] then [] else
       map (\<lambda>(s, e). (s, e, pidx)) (scan_pattern lower segs w 0)) patterns)"

definition hit_key :: "raw_hit \<Rightarrow> nat \<times> nat \<times> nat" where
  "hit_key h = (case h of (s, e, pidx) \<Rightarrow> (s, pidx, e))"

fun pick_hits :: "nat \<Rightarrow> raw_hit list \<Rightarrow> raw_hit list" where
  "pick_hits last_end [] = []"
| "pick_hits last_end ((s, e, pidx) # hs) =
     (if last_end \<le> s then (s, e, pidx) # pick_hits e hs else pick_hits last_end hs)"

text \<open>\<open>offsets[i]\<close>: the byte offset of the character with index \<open>i\<close>.\<close>

definition byte_offset :: "chr list \<Rightarrow> nat \<Rightarrow> nat" where
  "byte_offset w i = sum_list (map len_utf8 (take i w))"

record span_hit =
  sp_start :: nat
  sp_end :: nat
  sp_pattern_index :: nat

definition collect_spans_from_compiled ::
  "lower_table \<Rightarrow> string \<Rightarrow> (nat \<times> seg list) list \<Rightarrow> span_hit list" where
  "collect_spans_from_compiled lower s patterns =
     (let w = utf8_chars s
      in if w = [] then []
         else map (\<lambda>(a, b, pidx). \<lparr>sp_start = byte_offset w a, sp_end = byte_offset w b, sp_pattern_index = pidx\<rparr>)
           (pick_hits 0 (sort_key hit_key (raw_hits lower w patterns))))"

definition compiled_patterns :: "lower_table \<Rightarrow> string list \<Rightarrow> (nat \<times> seg list) list" where
  "compiled_patterns lower patterns =
     List.map_filter (\<lambda>(pidx, p). case compile lower p of
         Some segs \<Rightarrow> if segs = [] then None else Some (pidx, segs)
       | None \<Rightarrow> None) (List.enumerate 0 patterns)"

definition collect_spans :: "lower_table \<Rightarrow> string \<Rightarrow> secret_policy \<Rightarrow> span_hit list" where
  "collect_spans lower s policy =
     (if \<not> scan_enabled policy \<or> key_patterns policy = [] \<or> s = [] then []
      else collect_spans_from_compiled lower s (compiled_patterns lower (key_patterns policy)))"

fun position_of :: "'a \<Rightarrow> 'a list \<Rightarrow> nat option" where
  "position_of x [] = None"
| "position_of x (y # ys) = (if y = x then Some 0 else map_option Suc (position_of x ys))"

definition kind_of_pattern :: "string \<Rightarrow> nat \<Rightarrow> string" where
  "kind_of_pattern pattern index =
     (case position_of pattern DEFAULT_SECRET_PATTERNS of
        Some i \<Rightarrow> DEFAULT_PATTERN_KINDS ! i
      | None \<Rightarrow> ''pattern'' @ dec_text index)"

definition SNIPPET_CAP_CHARS :: nat where
  "SNIPPET_CAP_CHARS = 40"

text \<open>\<open>text[a..b]\<close> in bytes.\<close>

definition byte_slice :: "string \<Rightarrow> nat \<Rightarrow> nat \<Rightarrow> string" where
  "byte_slice s a b = take (b - a) (drop a s)"

definition build_snippet :: "string \<Rightarrow> nat \<Rightarrow> nat \<Rightarrow> string" where
  "build_snippet s a b =
     (let match_chars = take (SNIPPET_CAP_CHARS + 1) (utf8_chars (byte_slice s a b));
          match_len = length match_chars
      in if SNIPPET_CAP_CHARS < match_len then utf8_text (take SNIPPET_CAP_CHARS match_chars)
         else let budget = SNIPPET_CAP_CHARS - match_len;
                  left = budget div 2;
                  right = budget - left;
                  before = rev (take left (rev (utf8_chars (take a s))));
                  after = take right (utf8_chars (drop b s))
              in utf8_text before @ utf8_text match_chars @ utf8_text after)"

record secret_hit =
  sh_pattern_index :: nat
  sh_kind :: string
  sh_snippet :: string
  sh_redacted :: string
  sh_offset :: nat
  sh_len :: nat

definition redaction_mark :: "string \<Rightarrow> string" where
  "redaction_mark kind = ''<redacted:'' @ kind @ ''>''"

definition hit_of_span :: "string \<Rightarrow> string list \<Rightarrow> span_hit \<Rightarrow> secret_hit" where
  "hit_of_span s patterns sp =
     (let kind = kind_of_pattern (patterns ! sp_pattern_index sp) (sp_pattern_index sp)
      in \<lparr>sh_pattern_index = sp_pattern_index sp, sh_kind = kind,
          sh_snippet = build_snippet s (sp_start sp) (sp_end sp), sh_redacted = redaction_mark kind,
          sh_offset = sp_start sp, sh_len = sp_end sp - sp_start sp\<rparr>)"

definition scan_secrets :: "lower_table \<Rightarrow> string \<Rightarrow> secret_policy \<Rightarrow> secret_hit list" where
  "scan_secrets lower s policy = map (hit_of_span s (key_patterns policy)) (collect_spans lower s policy)"

definition MAX_REDACTIONS :: nat where
  "MAX_REDACTIONS = 32"

definition REDACTION_TRUNCATION_MARKER :: string where
  "REDACTION_TRUNCATION_MARKER = ''<redacted:truncated>''"

text \<open>The replacement loop: the text built so far and the cursor in the original text.\<close>

definition redact_step :: "string \<Rightarrow> string list \<Rightarrow> string \<times> nat \<Rightarrow> span_hit \<Rightarrow> string \<times> nat" where
  "redact_step s patterns st sp = (case st of (out, cursor) \<Rightarrow>
     (out @ byte_slice s cursor (sp_start sp) @
        redaction_mark (kind_of_pattern (patterns ! sp_pattern_index sp) (sp_pattern_index sp)),
      sp_end sp))"

definition redact_spans :: "string \<Rightarrow> string list \<Rightarrow> span_hit list \<Rightarrow> string" where
  "redact_spans s patterns spans =
     (if spans = [] then s
      else let capped = MAX_REDACTIONS < length spans
        in case foldl (redact_step s patterns) ([], 0) (take MAX_REDACTIONS spans) of
            (out, cursor) \<Rightarrow> if capped then out @ REDACTION_TRUNCATION_MARKER else out @ drop cursor s)"

definition redact :: "lower_table \<Rightarrow> string \<Rightarrow> secret_policy \<Rightarrow> string" where
  "redact lower s policy = redact_spans s (key_patterns policy) (collect_spans lower s policy)"

section \<open>The compiled policy\<close>

record compiled_secret_policy =
  cp_source :: secret_policy
  cp_compiled :: "seg list list"

definition compiled_try_from :: "lower_table \<Rightarrow> secret_policy \<Rightarrow> pattern_compile_error + compiled_secret_policy" where
  "compiled_try_from lower policy =
     bind_result (try_fold (\<lambda>compiled pattern.
         bind_result (strict_compile lower pattern) (\<lambda>segs. Inr (compiled @ [segs]))) [] (key_patterns policy))
       (\<lambda>compiled. Inr \<lparr>cp_source = policy, cp_compiled = compiled\<rparr>)"

definition scan_text :: "lower_table \<Rightarrow> compiled_secret_policy \<Rightarrow> string \<Rightarrow> secret_hit list" where
  "scan_text lower cp s =
     (if \<not> scan_enabled (cp_source cp) \<or> cp_compiled cp = [] \<or> s = [] then []
      else map (hit_of_span s (key_patterns (cp_source cp)))
        (collect_spans_from_compiled lower s (List.enumerate 0 (cp_compiled cp))))"

definition redact_text :: "lower_table \<Rightarrow> compiled_secret_policy \<Rightarrow> string \<Rightarrow> string" where
  "redact_text lower cp s =
     redact_spans s (key_patterns (cp_source cp))
       (collect_spans_from_compiled lower s (List.enumerate 0 (cp_compiled cp)))"

section \<open>Capabilities\<close>

datatype cap = ReadWorkspace | ReadExternal | WriteWorkspace | ExecuteShell | Cap_Network | Cap_Mcp | Cap_Index

fun cap_rank :: "cap \<Rightarrow> nat" where
  "cap_rank ReadWorkspace = 1"
| "cap_rank ReadExternal = 2"
| "cap_rank Cap_Index = 3"
| "cap_rank WriteWorkspace = 4"
| "cap_rank Cap_Network = 5"
| "cap_rank Cap_Mcp = 6"
| "cap_rank ExecuteShell = 7"

definition can_escalate :: "cap \<Rightarrow> cap \<Rightarrow> bool" where
  "can_escalate from to \<longleftrightarrow> cap_rank to \<le> cap_rank from"

end
