(* ===== verification/Authority_Digest.thy ===== *)
theory Authority_Digest
  imports Faktor_Interfaces
begin

text \<open>
  Canonical authority digests (\<open>crates/core/src/authority.rs\<close>): the length-prefixed field
  stream, the digest over it, and the classification of stored digest values. The hash function
  BLAKE3 is a third-party package and is the parameter \<open>blake3\<close>: a function from the bytes fed
  to the hasher to its 32-byte output. The results say that the byte stream determines the
  domain, the version and every field, so two different payloads have the same digest only if
  the hash function itself collides on their streams.
\<close>

section \<open>Lossless encodings\<close>

locale lossless_encoding =
  fixes enc :: "'a \<Rightarrow> 'b"
    and dec :: "'b \<Rightarrow> 'a option"
    and ok :: "'a \<Rightarrow> bool"
  assumes dec_enc: "ok x \<Longrightarrow> dec (enc x) = Some x"
begin

lemma enc_inj: "ok x \<Longrightarrow> ok y \<Longrightarrow> enc x = enc y \<Longrightarrow> x = y"
  by (metis dec_enc option.inject)

end

section \<open>Bytes\<close>

type_synonym byte = "8 word"

definition text_bytes :: "string \<Rightarrow> byte list" where
  "text_bytes s = map (\<lambda>c. of_nat (byte_of c)) s"

text \<open>\<open>to_le_bytes\<close> of an unsigned value: \<open>k\<close> bytes, least significant first.\<close>

fun le_bytes :: "nat \<Rightarrow> nat \<Rightarrow> byte list" where
  "le_bytes 0 n = []"
| "le_bytes (Suc k) n = of_nat n # le_bytes k (n div 256)"

fun le_value :: "byte list \<Rightarrow> nat" where
  "le_value [] = 0"
| "le_value (b # bs) = unat b + 256 * le_value bs"

definition u64_le :: "nat \<Rightarrow> byte list" where
  "u64_le n = le_bytes 8 n"

definition i64_le :: "int \<Rightarrow> byte list" where
  "i64_le x = le_bytes 8 (nat (x mod 18446744073709551616))"

lemma length_le_bytes [simp]: "length (le_bytes k n) = k"
  by (induction k arbitrary: n) auto

lemma le_value_le_bytes: "le_value (le_bytes k n) = n mod 256 ^ k"
proof (induction k arbitrary: n)
  case (Suc k)
  have "n mod 256 ^ Suc k = n mod 256 + 256 * (n div 256 mod 256 ^ k)"
    by (simp add: mod_mult2_eq)
  with Suc show ?case by (simp add: unat_of_nat)
qed simp

lemma length_u64_le [simp]: "length (u64_le n) = 8"
  by (simp add: u64_le_def)

lemma le_value_u64_le: "n \<le> u64_max \<Longrightarrow> le_value (u64_le n) = n"
  by (simp add: u64_le_def le_value_le_bytes width_simps)

lemma u64_le_inj: "n \<le> u64_max \<Longrightarrow> m \<le> u64_max \<Longrightarrow> u64_le n = u64_le m \<longleftrightarrow> n = m"
  by (metis le_value_u64_le)

lemma byte_of_word_inj: "(of_nat (byte_of c) :: byte) = of_nat (byte_of d) \<longleftrightarrow> c = d"
proof
  assume "(of_nat (byte_of c) :: byte) = of_nat (byte_of d)"
  then have "unat (of_nat (byte_of c) :: byte) = unat (of_nat (byte_of d) :: byte)" by (rule arg_cong)
  then have "byte_of c mod 256 = byte_of d mod 256" by (simp only: unat_of_nat) simp
  then show "c = d" by (simp add: byte_of_def)
qed simp

lemma text_bytes_inj [simp]: "text_bytes s = text_bytes t \<longleftrightarrow> s = t"
  unfolding text_bytes_def by (rule inj_map_eq_map) (simp add: inj_def byte_of_word_inj)

lemma text_bytes_simps [simp]: "length (text_bytes s) = length s"
  by (simp add: text_bytes_def)

section \<open>The field writer and the structured builder\<close>

record canonical_field_writer =
  hashed :: "byte list"
  field_count :: nat

definition writer_field :: "byte list \<Rightarrow> canonical_field_writer \<Rightarrow> canonical_field_writer" where
  "writer_field bytes w =
     w\<lparr>hashed := hashed w @ u64_le (length bytes) @ bytes, field_count := field_count w + 1\<rparr>"

definition opt_text_bytes :: "string option \<Rightarrow> byte list" where
  "opt_text_bytes v = (case v of Some t \<Rightarrow> 1 # text_bytes t | None \<Rightarrow> [0])"

definition writer_text :: "string \<Rightarrow> canonical_field_writer \<Rightarrow> canonical_field_writer" where
  "writer_text v = writer_field (text_bytes v)"

definition writer_uint :: "nat \<Rightarrow> canonical_field_writer \<Rightarrow> canonical_field_writer" where
  "writer_uint v = writer_field (u64_le v)"

definition writer_opt_text :: "string option \<Rightarrow> canonical_field_writer \<Rightarrow> canonical_field_writer" where
  "writer_opt_text v = writer_field (opt_text_bytes v)"

type_synonym fields = "byte list list"

definition fields_new :: fields where
  "fields_new = []"

definition fields_text :: "string \<Rightarrow> fields \<Rightarrow> fields" where
  "fields_text v fs = fs @ [text_bytes v]"

definition fields_opt_text :: "string option \<Rightarrow> fields \<Rightarrow> fields" where
  "fields_opt_text v fs = fs @ [opt_text_bytes v]"

definition fields_uint :: "nat \<Rightarrow> fields \<Rightarrow> fields" where
  "fields_uint v fs = fs @ [u64_le v]"

definition fields_int :: "int \<Rightarrow> fields \<Rightarrow> fields" where
  "fields_int v fs = fs @ [i64_le v]"

definition fields_raw :: "byte list \<Rightarrow> fields \<Rightarrow> fields" where
  "fields_raw v fs = fs @ [v]"

definition fields_list :: "string list \<Rightarrow> fields \<Rightarrow> fields" where
  "fields_list items fs = fs @ map text_bytes items"

definition fields_extend :: "fields \<Rightarrow> fields \<Rightarrow> fields" where
  "fields_extend other fs = fs @ other"

text \<open>\<open>CanonicalFields for Fields\<close>: every collected field is written in order.\<close>

definition write_fields :: "fields \<Rightarrow> canonical_field_writer \<Rightarrow> canonical_field_writer" where
  "write_fields fs out = fold writer_field fs out"

text \<open>The bytes fed to the hasher by \<open>authority_digest\<close>, and the digest.\<close>

definition authority_stream :: "byte list \<Rightarrow> nat \<Rightarrow> fields \<Rightarrow> byte list" where
  "authority_stream domain version fs =
     hashed (write_fields fs
       \<lparr>hashed = u64_le (length domain) @ domain @ u64_le version, field_count = 0\<rparr>)"

definition authority_digest ::
    "(byte list \<Rightarrow> byte list) \<Rightarrow> byte list \<Rightarrow> nat \<Rightarrow> fields \<Rightarrow> byte list" where
  "authority_digest blake3 domain version fs = blake3 (authority_stream domain version fs)"

definition hex_digit :: "nat \<Rightarrow> char" where
  "hex_digit d = (if d < 10 then char_of (48 + d) else char_of (87 + d))"

definition to_hex :: "byte list \<Rightarrow> string" where
  "to_hex bs = concat (map (\<lambda>b. [hex_digit (unat b div 16), hex_digit (unat b mod 16)]) bs)"

definition authority_digest_hex ::
    "(byte list \<Rightarrow> byte list) \<Rightarrow> byte list \<Rightarrow> nat \<Rightarrow> fields \<Rightarrow> string" where
  "authority_digest_hex blake3 domain version fs = to_hex (authority_digest blake3 domain version fs)"

definition authority_digest_labeled ::
    "(byte list \<Rightarrow> byte list) \<Rightarrow> byte list \<Rightarrow> nat \<Rightarrow> fields \<Rightarrow> string" where
  "authority_digest_labeled blake3 domain version fs =
     ''blake3:'' @ authority_digest_hex blake3 domain version fs"

section \<open>Classification of stored values\<close>

datatype authority_digest_kind = Blake3Labeled | Blake3Hex | LegacyFnv | Digest_Empty | Digest_Unknown

definition is_authoritative :: "authority_digest_kind \<Rightarrow> bool" where
  "is_authoritative k \<longleftrightarrow> k = Blake3Labeled \<or> k = Blake3Hex"

definition is_lower_hex :: "string \<Rightarrow> nat \<Rightarrow> bool" where
  "is_lower_hex value len \<longleftrightarrow> length value = len \<and>
     list_all (\<lambda>c. is_ascii_digit c \<or> (97 \<le> byte_of c \<and> byte_of c \<le> 102)) value"

definition classify_authority_digest :: "string \<Rightarrow> authority_digest_kind" where
  "classify_authority_digest value =
     (if value = [] then Digest_Empty
      else case strip_prefix value ''blake3:'' of
        Some hex \<Rightarrow> if is_lower_hex hex 64 then Blake3Labeled else Digest_Unknown
      | None \<Rightarrow>
      if is_lower_hex value 64 then Blake3Hex
      else case strip_prefix value ''fnv1a64:'' of
        Some hex \<Rightarrow> if is_lower_hex hex 16 then LegacyFnv else Digest_Unknown
      | None \<Rightarrow>
      case strip_prefix value ''accounting:v1:'' of
        Some hex \<Rightarrow> if is_lower_hex hex 16 then LegacyFnv else Digest_Unknown
      | None \<Rightarrow>
      if is_lower_hex value 16 then LegacyFnv
      else Digest_Unknown)"

definition refuse_legacy_authority_digest :: "string \<Rightarrow> string \<Rightarrow> (string \<times> string) + unit" where
  "refuse_legacy_authority_digest what value =
     (case classify_authority_digest value of
        LegacyFnv \<Rightarrow> Inl (what, value)
      | _ \<Rightarrow> Inr ())"

definition DOMAIN_CRITERION_BINDING :: "byte list" where
  "DOMAIN_CRITERION_BINDING = text_bytes ''faktor.criterion-binding''"

definition DOMAIN_COMMAND_BINDING :: "byte list" where
  "DOMAIN_COMMAND_BINDING = text_bytes ''faktor.check-command''"

section \<open>The stream is lossless\<close>

fun take_field :: "byte list \<Rightarrow> (byte list \<times> byte list) option" where
  "take_field bs =
     (let n = le_value (take 8 bs); rest = drop 8 bs
      in if length bs < 8 \<or> length rest < n then None else Some (take n rest, drop n rest))"

text \<open>A reader of the stream, for the specification only: the fuel is the number of bytes.\<close>

fun read_fields :: "nat \<Rightarrow> byte list \<Rightarrow> fields option" where
  "read_fields fuel [] = Some []"
| "read_fields 0 bs = None"
| "read_fields (Suc fuel) bs =
     (case take_field bs of
        None \<Rightarrow> None
      | Some (f, rest) \<Rightarrow> map_option ((#) f) (read_fields fuel rest))"

definition read_stream :: "byte list \<Rightarrow> (byte list \<times> nat \<times> fields) option" where
  "read_stream bs =
     (case take_field bs of
        None \<Rightarrow> None
      | Some (domain, rest) \<Rightarrow>
          map_option (\<lambda>fs. (domain, le_value (take 8 rest), fs))
            (read_fields (length rest) (drop 8 rest)))"

text \<open>Every slice of a running program is shorter than $2^{64}$ bytes, and a version is a \<open>u64\<close>.\<close>

definition stream_ok :: "byte list \<times> nat \<times> fields \<Rightarrow> bool" where
  "stream_ok p = (case p of (domain, version, fs) \<Rightarrow>
     length domain \<le> u64_max \<and> version \<le> u64_max \<and> list_all (\<lambda>f. length f \<le> u64_max) fs)"

definition encode_field :: "byte list \<Rightarrow> byte list" where
  "encode_field f = u64_le (length f) @ f"

lemma write_fields_hashed:
  "hashed (write_fields fs w) = hashed w @ concat (map encode_field fs)"
  unfolding write_fields_def encode_field_def
  by (induction fs arbitrary: w) (auto simp: writer_field_def)

lemma write_fields_count: "field_count (write_fields fs w) = field_count w + length fs"
  unfolding write_fields_def by (induction fs arbitrary: w) (auto simp: writer_field_def)

lemma authority_stream_eq:
  "authority_stream domain version fs =
   encode_field domain @ u64_le version @ concat (map encode_field fs)"
  by (simp add: authority_stream_def write_fields_hashed encode_field_def)

lemma take_field_encode:
  "length f \<le> u64_max \<Longrightarrow> take_field (encode_field f @ rest) = Some (f, rest)"
  by (simp add: encode_field_def le_value_u64_le)

lemma encode_field_not_Nil [simp]: "encode_field f \<noteq> []"
  by (metis append_is_Nil_conv encode_field_def length_0_conv length_u64_le zero_neq_numeral)

declare take_field.simps [simp del]

lemma read_fields_encode:
  "list_all (\<lambda>f. length f \<le> u64_max) fs \<Longrightarrow> length fs \<le> fuel \<Longrightarrow>
   read_fields fuel (concat (map encode_field fs)) = Some fs"
proof (induction fs arbitrary: fuel)
  case (Cons f fs)
  then obtain k where k: "fuel = Suc k" by (cases fuel) auto
  obtain b bs where "encode_field f @ concat (map encode_field fs) = b # bs"
    by (cases "encode_field f") auto
  then have "read_fields fuel (encode_field f @ concat (map encode_field fs)) =
      (case take_field (encode_field f @ concat (map encode_field fs)) of
        None \<Rightarrow> None | Some (f, rest) \<Rightarrow> map_option ((#) f) (read_fields k rest))"
    by (simp add: k)
  with Cons k show ?case by (simp add: take_field_encode)
qed simp

lemma length_concat_encode: "length fs \<le> length (concat (map encode_field fs))"
  by (induction fs) (auto simp: encode_field_def)

interpretation authority: lossless_encoding
  "\<lambda>(d, v, fs). authority_stream d v fs" read_stream stream_ok
proof unfold_locales
  fix p assume "stream_ok p"
  then show "read_stream (case p of (d, v, fs) \<Rightarrow> authority_stream d v fs) = Some p"
    using length_concat_encode
    by (auto simp: stream_ok_def authority_stream_eq read_stream_def take_field_encode
        le_value_u64_le trans_le_add2 intro!: read_fields_encode)
qed

lemma authority_stream_inj:
  "stream_ok (d, v, fs) \<Longrightarrow> stream_ok (d', v', fs') \<Longrightarrow>
   authority_stream d v fs = authority_stream d' v' fs' \<Longrightarrow> d = d' \<and> v = v' \<and> fs = fs'"
  using authority.enc_inj [of "(d, v, fs)" "(d', v', fs')"] by simp

lemma unat_nibble: "unat (b :: byte) div 16 < 16"
proof -
  have "unat b < 2 ^ LENGTH(8)" by (rule unsigned_less)
  then show ?thesis by simp
qed

lemma to_hex_lower: "list_all (\<lambda>c. is_ascii_digit c \<or> (97 \<le> byte_of c \<and> byte_of c \<le> 102)) (to_hex bs)"
proof -
  have "d < 16 \<Longrightarrow> is_ascii_digit (hex_digit d) \<or> (97 \<le> byte_of (hex_digit d) \<and> byte_of (hex_digit d) \<le> 102)"
    for d
    by (auto simp: hex_digit_def is_ascii_digit_def byte_of_def)
  then show ?thesis
    by (auto simp: to_hex_def list_all_iff unat_nibble)
qed

lemma length_to_hex: "length (to_hex bs) = 2 * length bs"
  by (induction bs) (auto simp: to_hex_def)

lemma is_lower_hex_to_hex: "is_lower_hex (to_hex bs) (2 * length bs)"
  using to_hex_lower by (simp add: is_lower_hex_def length_to_hex)

lemma hex_digit_inj: "a < 16 \<Longrightarrow> b < 16 \<Longrightarrow> hex_digit a = hex_digit b \<Longrightarrow> a = b"
proof -
  assume "a < 16" "b < 16" "hex_digit a = hex_digit b"
  then have "byte_of (hex_digit a) = byte_of (hex_digit b)" by simp
  with \<open>a < 16\<close> \<open>b < 16\<close> show "a = b"
    by (auto simp: hex_digit_def byte_of_def split: if_splits)
qed

lemma to_hex_inj: "to_hex xs = to_hex ys \<longleftrightarrow> xs = ys"
proof
  show "to_hex xs = to_hex ys \<Longrightarrow> xs = ys"
  proof (induction xs arbitrary: ys)
    case Nil
    then show ?case by (cases ys) (auto simp: to_hex_def)
  next
    case (Cons x xs)
    then obtain y ys' where ys: "ys = y # ys'" by (cases ys) (auto simp: to_hex_def)
    have lt: "unat x div 16 < 16" "unat y div 16 < 16"
      by (rule unat_nibble)+
    from Cons.prems ys have "hex_digit (unat x div 16) = hex_digit (unat y div 16)"
      "hex_digit (unat x mod 16) = hex_digit (unat y mod 16)" "to_hex xs = to_hex ys'"
      by (auto simp: to_hex_def)
    with lt have "unat x div 16 = unat y div 16" "unat x mod 16 = unat y mod 16" "xs = ys'"
      using Cons.IH by (auto intro: hex_digit_inj)
    then have "unat x = unat y" by (metis div_mult_mod_eq)
    with \<open>xs = ys'\<close> ys show ?case by (simp add: word_unat_eq_iff)
  qed
qed simp

text \<open>A collision of the hash function on two given streams.\<close>

definition hash_collides :: "(byte list \<Rightarrow> byte list) \<Rightarrow> byte list \<Rightarrow> byte list \<Rightarrow> bool" where
  "hash_collides blake3 x y \<longleftrightarrow> x \<noteq> y \<and> blake3 x = blake3 y"

lemma labeled_eq_iff:
  assumes "stream_ok (d, v, fs)" and "stream_ok (d', v', fs')"
  shows "authority_digest_labeled blake3 d v fs = authority_digest_labeled blake3 d' v' fs' \<longleftrightarrow>
    (d, v, fs) = (d', v', fs') \<or> hash_collides blake3 (authority_stream d v fs) (authority_stream d' v' fs')"
  using authority_stream_inj [OF assms]
  by (auto simp: authority_digest_labeled_def authority_digest_hex_def to_hex_inj authority_digest_def hash_collides_def)

section \<open>What an authority digest guarantees\<close>

text \<open>
  C39. An authority digest binds its domain, its version and every field: two labelled digests are
  equal if and only if the domain, the version and the list of fields are equal, or the hash function
  collides on the two streams that were hashed. The framing itself merges no two inputs, whatever
  bytes the fields contain.
\<close>

theorem digest_binds_fields:
  assumes "stream_ok (d, v, fs)" and "stream_ok (d', v', fs')"
  shows "authority_digest_labeled blake3 d v fs = authority_digest_labeled blake3 d' v' fs' \<longleftrightarrow>
    (d, v, fs) = (d', v', fs') \<or> hash_collides blake3 (authority_stream d v fs) (authority_stream d' v' fs')"
  using assms by (rule labeled_eq_iff)

theorem digest_binds_fields_witness:
  "authority_digest_labeled rev [1] 1 [[2], []] \<noteq> authority_digest_labeled rev [1] 1 [[], [2]]"
  using digest_binds_fields [of "[1]" 1 "[[2], []]" "[1]" 1 "[[], [2]]" rev]
  by (simp add: stream_ok_def width_simps hash_collides_def)

end
