(* ===== verification/Stateful_Actions.thy ===== *)
theory Stateful_Actions
  imports Faktor_Prelude "HOL-Library.List_Lexorder" "HOL-Library.Char_ord" "HOL-Library.Product_Lexorder"
begin

text \<open>
  Two building blocks of the stores and services of the program: operations that read and change a
  state and may be refused half way (an early return keeps what was written before it), and the
  \<open>BTreeMap\<close> of the Rust standard library with its iteration in key order.
\<close>

section \<open>Operations on a state that may be refused\<close>

type_synonym ('s, 'e, 'a) action = "'s \<Rightarrow> 's \<times> ('e + 'a)"

definition return :: "'a \<Rightarrow> ('s, 'e, 'a) action" where
  "return v = (\<lambda>s. (s, Inr v))"

definition refuse :: "'e \<Rightarrow> ('s, 'e, 'a) action" where
  "refuse e = (\<lambda>s. (s, Inl e))"

definition bind_act :: "('s, 'e, 'a) action \<Rightarrow> ('a \<Rightarrow> ('s, 'e, 'b) action) \<Rightarrow> ('s, 'e, 'b) action" where
  "bind_act m f = (\<lambda>s. case m s of (s', Inl e) \<Rightarrow> (s', Inl e) | (s', Inr v) \<Rightarrow> f v s')"

definition seq_act :: "('s, 'e, unit) action \<Rightarrow> ('s, 'e, 'b) action \<Rightarrow> ('s, 'e, 'b) action" where
  "seq_act m k = bind_act m (\<lambda>_. k)"

text \<open>A read leaves the state alone; a pure check \<open>r?\<close> passes its refusal on.\<close>

definition observe :: "('s \<Rightarrow> 'a) \<Rightarrow> ('s, 'e, 'a) action" where
  "observe f = (\<lambda>s. (s, Inr (f s)))"

definition require :: "'e + 'a \<Rightarrow> ('s, 'e, 'a) action" where
  "require r = (\<lambda>s. (s, r))"

definition some_or :: "'e \<Rightarrow> 'a option \<Rightarrow> ('s, 'e, 'a) action" where
  "some_or e x = require (ok_or e x)"

definition reject_if :: "bool \<Rightarrow> 'e \<Rightarrow> ('s, 'e, unit) action" where
  "reject_if c e = require (refuse_if c e)"

text \<open>A \<open>match\<close> on the result of a call that handles both outcomes.\<close>

definition handle :: "('s, 'e, 'a) action \<Rightarrow> ('e + 'a \<Rightarrow> ('s, 'e, 'b) action) \<Rightarrow> ('s, 'e, 'b) action" where
  "handle m h = (\<lambda>s. case m s of (s', r) \<Rightarrow> h r s')"

text \<open>\<open>for x in xs { acc = f(acc, x)?; }\<close>\<close>

fun fold_act :: "('b \<Rightarrow> 'a \<Rightarrow> ('s, 'e, 'b) action) \<Rightarrow> 'b \<Rightarrow> 'a list \<Rightarrow> ('s, 'e, 'b) action" where
  "fold_act f acc [] = return acc"
| "fold_act f acc (x # xs) = bind_act (f acc x) (\<lambda>acc. fold_act f acc xs)"

lemmas action_defs =
  return_def refuse_def bind_act_def seq_act_def observe_def require_def some_or_def reject_if_def
  handle_def

lemma bind_act_cong [fundef_cong]:
  assumes "m s = m' s'" and "s = s'" and "\<And>v t. m' s' = (t, Inr v) \<Longrightarrow> f v t = f' v t"
  shows "bind_act m f s = bind_act m' f' s'"
  using assms by (auto simp: bind_act_def split: prod.splits sum.splits)

lemma run_simps [simp]:
  "return v s = (s, Inr v)"
  "refuse e s = (s, Inl e)"
  "observe g s = (s, Inr (g s))"
  "require r s = (s, r)"
  "some_or e x s = (s, ok_or e x)"
  "reject_if c e s = (s, refuse_if c e)"
  by (simp_all add: action_defs)

lemma bind_run [simp]:
  "bind_act (return v) f = f v"
  "bind_act (refuse e) f = refuse e"
  "bind_act (observe g) f s = f (g s) s"
  "bind_act (require (Inr v)) f = f v"
  "bind_act (require (Inl e)) f = refuse e"
  "bind_act (some_or e None) f = refuse e"
  "bind_act (some_or e (Some v)) f = f v"
  by (simp_all add: action_defs fun_eq_iff)

lemma seq_run [simp]:
  "seq_act (return u) k = k"
  "seq_act (refuse e) k = refuse e"
  "seq_act (require (Inr u)) k = k"
  "seq_act (require (Inl e)) k = refuse e"
  "seq_act (reject_if True e) k = refuse e"
  "seq_act (reject_if False e) k = k"
  by (simp_all add: action_defs fun_eq_iff)

lemma handle_run [simp]:
  "m s = (t, r) \<Longrightarrow> handle m h s = h r t"
  by (simp add: handle_def)

lemma bind_act_eq_Inr:
  "bind_act m f s = (t, Inr w) \<longleftrightarrow> (\<exists>v u. m s = (u, Inr v) \<and> f v u = (t, Inr w))"
  by (auto simp: bind_act_def split: prod.splits sum.splits)

lemma seq_act_eq_Inr:
  "seq_act m k s = (t, Inr w) \<longleftrightarrow> (\<exists>u. m s = (u, Inr ()) \<and> k u = (t, Inr w))"
  by (auto simp: seq_act_def bind_act_eq_Inr)

lemma observe_eq [simp]: "observe g s = (t, Inr v) \<longleftrightarrow> t = s \<and> v = g s"
  by auto

text \<open>
  Two ways to reason about the state an action leaves behind, whatever its outcome: it \<open>keeps\<close> a
  predicate, or the states before and after are \<open>related\<close>.
\<close>

definition keeps :: "('s \<Rightarrow> bool) \<Rightarrow> ('s, 'e, 'a) action \<Rightarrow> bool" where
  "keeps P m \<longleftrightarrow> (\<forall>s. P s \<longrightarrow> P (fst (m s)))"

definition related :: "('s \<Rightarrow> 's \<Rightarrow> bool) \<Rightarrow> ('s, 'e, 'a) action \<Rightarrow> bool" where
  "related R m \<longleftrightarrow> (\<forall>s. R s (fst (m s)))"

definition related_at :: "('s \<Rightarrow> 's \<Rightarrow> bool) \<Rightarrow> ('s, 'e, 'a) action \<Rightarrow> 's \<Rightarrow> bool" where
  "related_at R m s \<longleftrightarrow> R s (fst (m s))"

lemma related_atD: "related R m \<Longrightarrow> related_at R m s"
  by (simp add: related_def related_at_def)

lemma related_atI: "(\<And>s. related_at R m s) \<Longrightarrow> related R m"
  by (simp add: related_def related_at_def)

text \<open>
  The rules for a relation that is a preorder. A client names its relation once, and every
  operation composed of related steps is related.
\<close>

locale step_preorder =
  fixes R :: "'s \<Rightarrow> 's \<Rightarrow> bool"
  assumes refl: "R s s"
    and trans: "R s t \<Longrightarrow> R t u \<Longrightarrow> R s u"
begin

lemma related_return [intro!]: "related R (return v)"
  by (simp add: related_def refl)

lemma related_refuse [intro!]: "related R (refuse e)"
  by (simp add: related_def refl)

lemma related_observe [intro!]: "related R (observe g)"
  by (simp add: related_def refl)

lemma related_require [intro!]: "related R (require r)"
  by (simp add: related_def refl)

lemma related_some_or [intro!]: "related R (some_or e x)"
  by (simp add: related_def refl)

lemma related_reject_if [intro!]: "related R (reject_if c e)"
  by (simp add: related_def refl)

lemma related_bind [intro!]:
  assumes "related R m" and "\<And>v. related R (f v)"
  shows "related R (bind_act m f)"
  unfolding related_def
proof
  fix s
  have m: "R s (fst (m s))" using assms(1) by (simp add: related_def)
  have f: "R t (fst (f v t))" for v t using assms(2) by (simp add: related_def)
  show "R s (fst (bind_act m f s))"
  proof (cases "m s")
    case (Pair t r)
    with m f [of t] show ?thesis
      by (cases r) (auto simp: bind_act_def intro: trans)
  qed
qed

lemma related_at_bind:
  assumes "related_at R m s" and "\<And>v t. m s = (t, Inr v) \<Longrightarrow> related_at R (f v) t"
  shows "related_at R (bind_act m f) s"
proof (cases "m s")
  case (Pair t r)
  with assms show ?thesis
    by (cases r) (auto simp: bind_act_def related_at_def intro: trans)
qed

lemma related_at_seq:
  assumes "related_at R m s" and "\<And>t. m s = (t, Inr ()) \<Longrightarrow> related_at R k t"
  shows "related_at R (seq_act m k) s"
  unfolding seq_act_def using assms by (intro related_at_bind) auto

text \<open>A loop over a list that is fixed when it starts: what holds of a state related to the first one may be used.\<close>

lemma related_at_fold:
  assumes "\<And>acc x t. x \<in> set xs \<Longrightarrow> R s t \<Longrightarrow> related_at R (f acc x) t"
  shows "related_at R (fold_act f acc xs) s"
proof -
  have "related_at R (fold_act f acc ys) t" if "set ys \<subseteq> set xs" and "R s t" for ys acc t
    using that
  proof (induction ys arbitrary: acc t)
    case Nil
    then show ?case by (simp add: related_at_def refl)
  next
    case (Cons y ys)
    have step: "related_at R (f acc y) t" using Cons.prems assms by simp
    show ?case
      unfolding fold_act.simps
    proof (rule related_at_bind [OF step])
      fix v u
      assume "f acc y t = (u, Inr v)"
      with step have "R t u" by (simp add: related_at_def)
      with Cons.prems(2) have "R s u" by (rule trans)
      with Cons show "related_at R (fold_act f v ys) u" by simp
    qed
  qed
  then show ?thesis using refl by blast
qed

text \<open>A completed loop has run its body on every element.\<close>

lemma fold_visits:
  assumes "fold_act f acc xs s = (t, Inr v)" and "x \<in> set xs"
    and "\<And>acc y u. y \<in> set xs \<Longrightarrow> R s u \<Longrightarrow> related_at R (f acc y) u"
  shows "\<exists>acc' u u' v'. R s u \<and> f acc' x u = (u', Inr v') \<and> R u' t"
  using assms
proof (induction xs arbitrary: acc s)
  case (Cons y ys)
  from Cons.prems(1) obtain w u where w: "f acc y s = (u, Inr w)" "fold_act f w ys u = (t, Inr v)"
    by (auto simp: bind_act_eq_Inr)
  have su: "R s u" using Cons.prems(3) [of y s acc] refl w(1) by (simp add: related_at_def)
  have later: "related_at R (f acc z) z'" if "z \<in> set ys" "R u z'" for acc z z'
    using that su trans Cons.prems(3) by auto
  show ?case
  proof (cases "x = y")
    case True
    have "related_at R (fold_act f w ys) u" by (rule related_at_fold) (rule later)
    with w have "R u t" by (simp add: related_at_def)
    with True w(1) refl show ?thesis by blast
  next
    case False
    with Cons.prems(2) have "x \<in> set ys" by simp
    from Cons.IH [OF w(2) this later] su trans show ?thesis by blast
  qed
qed simp

lemma related_at_handle:
  assumes "related_at R m s" and "\<And>r t. m s = (t, r) \<Longrightarrow> related_at R (h r) t"
  shows "related_at R (handle m h) s"
  using assms by (cases "m s") (auto simp: related_at_def intro: trans)

lemma related_seq [intro!]:
  assumes "related R m" and "related R k"
  shows "related R (seq_act m k)"
  unfolding seq_act_def using assms by blast

lemma related_handle [intro!]:
  assumes "related R m" and "\<And>r. related R (h r)"
  shows "related R (handle m h)"
  unfolding related_def
proof
  fix s
  have "R s (fst (m s))" using assms(1) by (simp add: related_def)
  moreover have "R t (fst (h r t))" for r t using assms(2) by (simp add: related_def)
  ultimately show "R s (fst (handle m h s))"
    by (cases "m s") (auto intro: trans)
qed

lemma related_if [intro!]:
  assumes "c \<Longrightarrow> related R m" and "\<not> c \<Longrightarrow> related R n"
  shows "related R (if c then m else n)"
  using assms by simp

lemma related_case_option [intro!]:
  assumes "x = None \<Longrightarrow> related R m" and "\<And>v. x = Some v \<Longrightarrow> related R (f v)"
  shows "related R (case x of None \<Rightarrow> m | Some v \<Rightarrow> f v)"
  using assms by (cases x) auto

lemma related_case_sum [intro!]:
  assumes "\<And>v. x = Inl v \<Longrightarrow> related R (f v)" and "\<And>v. x = Inr v \<Longrightarrow> related R (g v)"
  shows "related R (case x of Inl v \<Rightarrow> f v | Inr v \<Rightarrow> g v)"
  using assms by (cases x) auto

lemma related_fold [intro!]:
  assumes "\<And>acc x. related R (f acc x)"
  shows "related R (fold_act f acc xs)"
proof (induction xs arbitrary: acc)
  case (Cons x xs)
  with assms show ?case by auto
qed auto

end

section \<open>Ordered maps\<close>

text \<open>
  A \<open>BTreeMap\<close> is the list of its entries in key order. Insertion replaces the value of a key that
  is present; \<open>get_mut\<close> changes it in place.
\<close>

type_synonym ('k, 'v) btree = "('k \<times> 'v) list"

fun bt_insert :: "'k :: linorder \<Rightarrow> 'v \<Rightarrow> ('k, 'v) btree \<Rightarrow> ('k, 'v) btree" where
  "bt_insert k v [] = [(k, v)]"
| "bt_insert k v ((k', v') # m) =
     (if k < k' then (k, v) # (k', v') # m
      else if k = k' then (k, v) # m
      else (k', v') # bt_insert k v m)"

definition bt_get :: "('k, 'v) btree \<Rightarrow> 'k \<Rightarrow> 'v option" where
  "bt_get m k = map_of m k"

definition bt_modify :: "'k \<Rightarrow> ('v \<Rightarrow> 'v) \<Rightarrow> ('k, 'v) btree \<Rightarrow> ('k, 'v) btree" where
  "bt_modify k f m = map (\<lambda>(k', v). (k', if k' = k then f v else v)) m"

definition bt_values :: "('k, 'v) btree \<Rightarrow> 'v list" where
  "bt_values m = map snd m"

definition bt_keys :: "('k, 'v) btree \<Rightarrow> 'k list" where
  "bt_keys m = map fst m"

definition bt_ok :: "('k :: linorder, 'v) btree \<Rightarrow> bool" where
  "bt_ok m \<longleftrightarrow> sorted_wrt (<) (map fst m)"

lemma bt_get_Nil [simp]: "bt_get [] k = None"
  by (simp add: bt_get_def)

lemma bt_get_insert [simp]: "bt_get (bt_insert k v m) k' = (if k' = k then Some v else bt_get m k')"
  unfolding bt_get_def by (induction k v m rule: bt_insert.induct) auto

lemma bt_get_modify [simp]:
  "bt_get (bt_modify k f m) k' = (if k' = k then map_option f (bt_get m k) else bt_get m k')"
  unfolding bt_get_def bt_modify_def by (induction m) auto

lemma bt_keys_modify [simp]: "map fst (bt_modify k f m) = map fst m"
  by (induction m) (auto simp: bt_modify_def)

lemma bt_keys_insert: "fst ` set (bt_insert k v m) = insert k (fst ` set m)"
  by (induction k v m rule: bt_insert.induct) auto

lemma bt_insert_subset: "set (bt_insert k v m) \<subseteq> insert (k, v) (set m)"
  by (induction k v m rule: bt_insert.induct) auto

lemma bt_ok_insert [simp]: "bt_ok m \<Longrightarrow> bt_ok (bt_insert k v m)"
  unfolding bt_ok_def
proof (induction k v m rule: bt_insert.induct)
  case (2 k v k' v' m)
  have "\<forall>x\<in>fst ` set (bt_insert k v m). k' < x" if "\<not> k < k'" "k \<noteq> k'"
    using 2(2) that by (auto simp: bt_keys_insert)
  with 2 show ?case by auto
qed simp

lemma bt_ok_modify [simp]: "bt_ok (bt_modify k f m) \<longleftrightarrow> bt_ok m"
  by (simp add: bt_ok_def)

lemma bt_ok_Nil [simp]: "bt_ok []"
  by (simp add: bt_ok_def)

lemma bt_ok_distinct: "bt_ok m \<Longrightarrow> distinct (map fst m)"
  unfolding bt_ok_def by (induction m) auto

lemma bt_values_iff: "bt_ok m \<Longrightarrow> v \<in> set (bt_values m) \<longleftrightarrow> (\<exists>k. bt_get m k = Some v)"
  by (auto simp: bt_values_def bt_get_def dest!: bt_ok_distinct intro!: image_eqI [of _ snd] dest: map_of_SomeD)

lemma bt_keys_iff: "k \<in> set (bt_keys m) \<longleftrightarrow> (\<exists>v. bt_get m k = Some v)"
  by (metis bt_get_def bt_keys_def domIff dom_map_of_conv_image_fst list.set_map not_None_eq)

text \<open>
  The interface the stores rely on: what is read after a write, and that the order is kept.
\<close>

locale keyed_table =
  fixes get :: "'m \<Rightarrow> 'k \<Rightarrow> 'v option"
    and insert_row :: "'k \<Rightarrow> 'v \<Rightarrow> 'm \<Rightarrow> 'm"
    and update_row :: "'k \<Rightarrow> ('v \<Rightarrow> 'v) \<Rightarrow> 'm \<Rightarrow> 'm"
    and rows :: "'m \<Rightarrow> 'v list"
    and ok :: "'m \<Rightarrow> bool"
  assumes get_insert: "get (insert_row k v m) k' = (if k' = k then Some v else get m k')"
    and get_update: "get (update_row k f m) k' = (if k' = k then map_option f (get m k) else get m k')"
    and rows_iff: "ok m \<Longrightarrow> v \<in> set (rows m) \<longleftrightarrow> (\<exists>k. get m k = Some v)"
    and ok_insert: "ok m \<Longrightarrow> ok (insert_row k v m)"
    and ok_update: "ok m \<Longrightarrow> ok (update_row k f m)"
begin

lemma find_row_None: "ok m \<Longrightarrow> find P (rows m) = None \<longleftrightarrow> (\<forall>k v. get m k = Some v \<longrightarrow> \<not> P v)"
  by (auto simp: find_None_iff rows_iff)

lemma find_row_Some: "ok m \<Longrightarrow> find P (rows m) = Some v \<Longrightarrow> P v \<and> (\<exists>k. get m k = Some v)"
  using rows_iff by (fastforce simp: find_Some_iff)

text \<open>A predicate at most one row satisfies is decided by any row that satisfies it.\<close>

lemma find_row_unique:
  assumes "ok m" and "get m k = Some v" and "P v" and "\<And>j w. get m j = Some w \<Longrightarrow> P w \<Longrightarrow> w = v"
  shows "find P (rows m) = Some v"
proof (cases "find P (rows m)")
  case None
  then have "\<not> P v" using assms(1,2) find_row_None by blast
  with assms(3) show ?thesis by contradiction
next
  case (Some w)
  then obtain j where "get m j = Some w" "P w" using assms(1) find_row_Some by blast
  then have "w = v" by (rule assms(4))
  with Some show ?thesis by simp
qed

lemma filter_rows_iff: "ok m \<Longrightarrow> v \<in> set (filter P (rows m)) \<longleftrightarrow> P v \<and> (\<exists>k. get m k = Some v)"
  by (auto simp: rows_iff)

end

interpretation bt: keyed_table bt_get bt_insert bt_modify bt_values bt_ok
  by unfold_locales (simp_all add: bt_values_iff)

end
