(* ===== verification/Approval_Model.thy ===== *)
theory Approval_Model
  imports Secret_Scanner Authority_Digest Stateful_Actions
begin

text \<open>
  The data of the approval authority (\<open>crates/approval/src/model.rs\<close>): requests, decisions, tokens and
  the typed refusals, with their validation, signing and verification.

  BLAKE3, Ed25519 and serde are third-party packages and the Unicode table is data of the standard library;
  they are the fields of \<open>crypto\<close>, a parameter of every operation that uses them: the hash of a byte string, the
  JSON bytes of a serialised value, the length of the JSON line of a ledger entry, the public key of a seed, whether a byte string is a public key, signing
  and verification, and the lower-case table of the credential scanner.
\<close>

section \<open>Constants and vocabulary\<close>

definition MAX_PRINCIPAL_ID_BYTES :: nat where "MAX_PRINCIPAL_ID_BYTES = 128"
definition MAX_APPROVAL_TEXT_BYTES :: nat where "MAX_APPROVAL_TEXT_BYTES = 4096"
definition MAX_APPROVAL_EVIDENCE :: nat where "MAX_APPROVAL_EVIDENCE = 64"
definition MAX_APPROVAL_EVIDENCE_BYTES :: nat where "MAX_APPROVAL_EVIDENCE_BYTES = 16 * 1024"
definition MAX_OPEN_APPROVALS :: nat where "MAX_OPEN_APPROVALS = 128"
definition MAX_REQUEST_LIFETIME_MS :: nat where "MAX_REQUEST_LIFETIME_MS = 30 * 24 * 60 * 60 * 1000"

definition REQUEST_DOMAIN :: string where "REQUEST_DOMAIN = ''faktor.approval.request/v1''"
definition DECISION_DOMAIN :: string where "DECISION_DOMAIN = ''faktor.approval.decision/v1''"
definition DECISION_SIGNATURE_DOMAIN :: string where
  "DECISION_SIGNATURE_DOMAIN = ''faktor.approval.decision-signature/v1''"

datatype approval_kind = EngineeringConstraintRelaxation | EngineeringAcceptanceCriteriaChange
  | EngineeringProofObligationWaiver | EngineeringModelValidityOverride | EngineeringVerifiedConstraintChange
  | SupplyShouldCostAssumptionOverride | SupplySupplierQualification | SupplyAvlChange | SupplyRfqAcceptance
  | SupplyPurchaseOrder | SupplySupplierMessage | SupplyPaymentTerms | SupplyContractTerms
  | SupplyTariffClassification | SupplyInventoryPolicy | SupplyPlanProceed

fun approval_kind_as_str :: "approval_kind \<Rightarrow> string" where
  "approval_kind_as_str EngineeringConstraintRelaxation = ''engineering_constraint_relaxation''"
| "approval_kind_as_str EngineeringAcceptanceCriteriaChange = ''engineering_acceptance_criteria_change''"
| "approval_kind_as_str EngineeringProofObligationWaiver = ''engineering_proof_obligation_waiver''"
| "approval_kind_as_str EngineeringModelValidityOverride = ''engineering_model_validity_override''"
| "approval_kind_as_str EngineeringVerifiedConstraintChange = ''engineering_verified_constraint_change''"
| "approval_kind_as_str SupplyShouldCostAssumptionOverride = ''supply_should_cost_assumption_override''"
| "approval_kind_as_str SupplySupplierQualification = ''supply_supplier_qualification''"
| "approval_kind_as_str SupplyAvlChange = ''supply_avl_change''"
| "approval_kind_as_str SupplyRfqAcceptance = ''supply_rfq_acceptance''"
| "approval_kind_as_str SupplyPurchaseOrder = ''supply_purchase_order''"
| "approval_kind_as_str SupplySupplierMessage = ''supply_supplier_message''"
| "approval_kind_as_str SupplyPaymentTerms = ''supply_payment_terms''"
| "approval_kind_as_str SupplyContractTerms = ''supply_contract_terms''"
| "approval_kind_as_str SupplyTariffClassification = ''supply_tariff_classification''"
| "approval_kind_as_str SupplyInventoryPolicy = ''supply_inventory_policy''"
| "approval_kind_as_str SupplyPlanProceed = ''supply_plan_proceed''"

datatype risk_level = Risk_Low | Risk_Medium | Risk_High | Risk_Critical

datatype principal_kind = HumanOperator | Agent_Principal | Service_Principal

definition can_approve :: "principal_kind \<Rightarrow> bool" where
  "can_approve k \<longleftrightarrow> k = HumanOperator"

record principal =
  pr_id :: string
  pr_kind :: principal_kind

section \<open>Refusals\<close>

datatype approval_error =
    ApprovalRequired approval_kind string string string
  | Pending string approval_kind string
  | PendingLimit nat nat
  | Denied string approval_kind string string string
  | Stale string string string string string
  | Expired string nat
  | SelfApproval string
  | AgentApproval string
  | UntrustedOperator string
  | SignatureMismatch string
  | Invalid string
  | Store string
  | AnchorDegraded string
  | LedgerRollback nat nat
  | Busy string
  | Conflict string
  | NotFound string

fun approval_error_code :: "approval_error \<Rightarrow> string" where
  "approval_error_code (ApprovalRequired _ _ _ _) = ''approval_required''"
| "approval_error_code (Pending _ _ _) = ''approval_pending''"
| "approval_error_code (PendingLimit _ _) = ''approval_pending_limit''"
| "approval_error_code (Denied _ _ _ _ _) = ''approval_denied''"
| "approval_error_code (Stale _ _ _ _ _) = ''approval_stale''"
| "approval_error_code (Expired _ _) = ''approval_expired''"
| "approval_error_code (SelfApproval _) = ''approval_self_refused''"
| "approval_error_code (AgentApproval _) = ''approval_agent_refused''"
| "approval_error_code (UntrustedOperator _) = ''approval_untrusted_operator''"
| "approval_error_code (SignatureMismatch _) = ''approval_signature_invalid''"
| "approval_error_code (Invalid _) = ''approval_invalid''"
| "approval_error_code (Store _) = ''approval_store_error''"
| "approval_error_code (AnchorDegraded _) = ''approval_anchor_degraded''"
| "approval_error_code (LedgerRollback _ _) = ''approval_ledger_rollback''"
| "approval_error_code (Busy _) = ''approval_store_busy''"
| "approval_error_code (Conflict _) = ''approval_conflict''"
| "approval_error_code (NotFound _) = ''approval_not_found''"

section \<open>Text checks\<close>

text \<open>\<open>char::is_control\<close> and the bidirectional formatting characters, on code points.\<close>

definition chr_control :: "chr \<Rightarrow> bool" where
  "chr_control c \<longleftrightarrow> c < 32 \<or> (127 \<le> c \<and> c < 160)"

definition contains_forbidden_formatting :: "string \<Rightarrow> bool" where
  "contains_forbidden_formatting value =
     list_ex (\<lambda>c. (chr_control c \<and> \<not> (c = 10 \<or> c = 9)) \<or> c = 8206 \<or> c = 8207
       \<or> (8234 \<le> c \<and> c \<le> 8238) \<or> (8294 \<le> c \<and> c \<le> 8297)) (utf8_chars value)"

definition bounded_text :: "string \<Rightarrow> string \<Rightarrow> nat \<Rightarrow> approval_error + unit" where
  "bounded_text field value limit =
     (if trim value = [] then Inl (Invalid (field @ '' is empty''))
      else if limit < length value then Inl (Invalid (field @ '' exceeds '' @ dec_text limit @ '' bytes''))
      else if contains_forbidden_formatting value then
        Inl (Invalid (field @ '' contains control or bidirectional formatting characters''))
      else Inr ())"

definition bounded_single_line :: "string \<Rightarrow> string \<Rightarrow> nat \<Rightarrow> approval_error + unit" where
  "bounded_single_line field value limit =
     and_then (bounded_text field value limit)
       (refuse_if (list_ex (\<lambda>c. c = 10 \<or> c = 13 \<or> c = 9) (utf8_chars value))
         (Invalid (field @ '' must be a single line'')))"

definition ensure_no_credential :: "lower_table \<Rightarrow> string \<Rightarrow> string \<Rightarrow> approval_error + unit" where
  "ensure_no_credential lower field value =
     (case scan_secrets lower value default_secret_policy of
        [] \<Rightarrow> Inr ()
      | hit # _ \<Rightarrow> Inl (Invalid (field @ '' contains what looks like a credential ('' @ sh_kind hit @
          ''); remove it before recording the approval'')))"

definition all_hex :: "string \<Rightarrow> bool" where
  "all_hex s = list_all is_ascii_hexdigit s"

definition hex_value :: "char \<Rightarrow> nat" where
  "hex_value c = (if byte_of c \<le> 57 then byte_of c - 48 else if byte_of c \<le> 70 then byte_of c - 55 else byte_of c - 87)"

text \<open>The chunks of two: \<open>u8::from_str_radix\<close> of each.\<close>

fun hex_chunks :: "string \<Rightarrow> byte list" where
  "hex_chunks (a # b # s) = of_nat (16 * hex_value a + hex_value b) # hex_chunks s"
| "hex_chunks _ = []"

definition parse_hex :: "nat \<Rightarrow> string \<Rightarrow> approval_error + byte list" where
  "parse_hex n value =
     (if length value \<noteq> n * 2 \<or> \<not> all_hex value then
        Inl (Invalid (''expected '' @ dec_text (n * 2) @ '' hex characters''))
      else Inr (hex_chunks value))"

definition principal_validate :: "principal \<Rightarrow> approval_error + unit" where
  "principal_validate p =
     (if pr_id p = [] \<or> MAX_PRINCIPAL_ID_BYTES < length (pr_id p) then
        Inl (Invalid ''principal id must be 1..=128 bytes'')
      else refuse_if (\<not> list_all (\<lambda>c. is_ascii_graphic c \<or> c = CHR '' '') (pr_id p))
        (Invalid ''principal id must be printable ASCII''))"

definition principal_new :: "string \<Rightarrow> principal_kind \<Rightarrow> approval_error + principal" where
  "principal_new i k =
     (let p = \<lparr>pr_id = i, pr_kind = k\<rparr> in and_then (principal_validate p) (Inr p))"

section \<open>Requests and decisions\<close>

record approval_draft =
  dr_kind :: approval_kind
  dr_subject :: string
  dr_evidence :: "string list"
  dr_proposed_change :: string
  dr_risk :: risk_level
  dr_requester :: principal
  dr_bound_revision :: string
  dr_bound_digest :: string
  dr_expires_at_ms :: nat

record approval_request =
  rq_id :: string
  rq_kind :: approval_kind
  rq_subject :: string
  rq_evidence :: "string list"
  rq_proposed_change :: string
  rq_risk :: risk_level
  rq_requester :: principal
  rq_bound_revision :: string
  rq_bound_digest :: string
  rq_created_at_ms :: nat
  rq_expires_at_ms :: nat

record request_identity =
  ri_kind :: approval_kind
  ri_subject :: string
  ri_evidence :: "string list"
  ri_proposed_change :: string
  ri_risk :: risk_level
  ri_requester :: principal
  ri_bound_revision :: string
  ri_bound_digest :: string
  ri_created_at_ms :: nat
  ri_expires_at_ms :: nat

record approval_check =
  ck_kind :: approval_kind
  ck_subject :: string
  ck_bound_revision :: string
  ck_bound_digest :: string

datatype decision_outcome = Approved | Denied_For string

record decision_signature =
  sg_algorithm :: string
  sg_key_id :: string
  sg_public_key :: string
  sg_signature :: string

record approval_decision =
  dc_request_id :: string
  dc_request_digest :: string
  dc_outcome :: decision_outcome
  dc_principal :: principal
  dc_rationale :: string
  dc_decided_at_ms :: nat
  dc_signature :: decision_signature

record decision_statement =
  ds_schema :: string
  ds_request_id :: string
  ds_request_digest :: string
  ds_outcome :: decision_outcome
  ds_principal :: principal
  ds_rationale :: string
  ds_decided_at_ms :: nat

datatype ledger_body = Requested approval_request | Decided approval_decision

record entry_identity =
  ei_schema :: string
  ei_seq :: nat
  ei_recorded_at_ms :: nat
  ei_prev_digest :: string
  ei_body :: ledger_body

record ledger_entry =
  le_schema :: string
  le_seq :: nat
  le_recorded_at_ms :: nat
  le_prev_digest :: string
  le_body :: ledger_body
  le_digest :: string

text \<open>The values the authority serialises to JSON before it hashes them.\<close>

datatype content = C_Identity request_identity | C_Request approval_request | C_Statement decision_statement
  | C_Entry entry_identity

type_synonym seed = "byte list"

record crypto =
  cr_blake3 :: "byte list \<Rightarrow> byte list"
  cr_to_json :: "content \<Rightarrow> byte list option"
  cr_entry_bytes :: "ledger_entry \<Rightarrow> nat option"
  cr_public_key :: "seed \<Rightarrow> byte list"
  cr_is_public_key :: "byte list \<Rightarrow> bool"
  cr_sign :: "seed \<Rightarrow> byte list \<Rightarrow> byte list"
  cr_verify :: "byte list \<Rightarrow> byte list \<Rightarrow> byte list \<Rightarrow> bool"
  cr_lower :: lower_table

definition content_digest :: "crypto \<Rightarrow> string \<Rightarrow> content \<Rightarrow> approval_error + string" where
  "content_digest cr domain value =
     (case cr_to_json cr value of
        None \<Rightarrow> Inl (Invalid ''cannot encode'')
      | Some bytes \<Rightarrow> Inr (to_hex (cr_blake3 cr (u64_le (length domain) @ text_bytes domain @ bytes))))"

definition no_credentials ::
  "lower_table \<Rightarrow> string \<Rightarrow> string \<Rightarrow> string \<Rightarrow> string \<Rightarrow> string list \<Rightarrow> approval_error + unit" where
  "no_credentials lower subject change revision requester evidence =
     and_then (ensure_no_credential lower ''subject'' subject)
     (and_then (ensure_no_credential lower ''proposed change'' change)
     (and_then (ensure_no_credential lower ''bound revision'' revision)
     (and_then (ensure_no_credential lower ''requester'' requester)
     (try_each (ensure_no_credential lower ''evidence'') evidence))))"

definition id_shape :: "string \<Rightarrow> bool" where
  "id_shape i \<longleftrightarrow> length i = 36 \<and> starts_with i ''apr-'' \<and> all_hex (drop 4 i)"

definition hex64 :: "string \<Rightarrow> bool" where
  "hex64 s \<longleftrightarrow> length s = 64 \<and> all_hex s"

definition request_validate :: "crypto \<Rightarrow> approval_request \<Rightarrow> approval_error + unit" where
  "request_validate cr r =
     and_then (refuse_if (\<not> id_shape (rq_id r)) (Invalid ''approval request id must be `apr-` plus 32 hex characters''))
     (and_then (bounded_single_line ''subject'' (rq_subject r) MAX_PRINCIPAL_ID_BYTES)
     (and_then (bounded_text ''proposed_change'' (rq_proposed_change r) MAX_APPROVAL_TEXT_BYTES)
     (and_then (bounded_single_line ''bound_revision'' (rq_bound_revision r) 256)
     (and_then (refuse_if (\<not> hex64 (rq_bound_digest r)) (Invalid ''bound_digest must be 64 hex characters''))
     (and_then (refuse_if (MAX_APPROVAL_EVIDENCE < length (rq_evidence r)) (Invalid ''evidence exceeds 64 entries''))
     (and_then (try_each (\<lambda>e. bounded_single_line ''evidence'' e MAX_APPROVAL_TEXT_BYTES) (rq_evidence r))
     (and_then (refuse_if (MAX_APPROVAL_EVIDENCE_BYTES < foldl (\<lambda>n e. sat_u64 (n + length e)) 0 (rq_evidence r))
        (Invalid ''evidence exceeds 16384 aggregate bytes''))
     (and_then (no_credentials (cr_lower cr) (rq_subject r) (rq_proposed_change r) (rq_bound_revision r)
        (pr_id (rq_requester r)) (rq_evidence r))
     (and_then (principal_validate (rq_requester r))
     (refuse_if (rq_created_at_ms r = 0 \<or> rq_expires_at_ms r \<le> rq_created_at_ms r
        \<or> MAX_REQUEST_LIFETIME_MS < rq_expires_at_ms r - rq_created_at_ms r)
        (Invalid ''approval request has an invalid lifetime'')))))))))))"

definition draft_identity :: "approval_draft \<Rightarrow> nat \<Rightarrow> request_identity" where
  "draft_identity d now =
     \<lparr>ri_kind = dr_kind d, ri_subject = dr_subject d, ri_evidence = dr_evidence d,
      ri_proposed_change = dr_proposed_change d, ri_risk = dr_risk d, ri_requester = dr_requester d,
      ri_bound_revision = dr_bound_revision d, ri_bound_digest = dr_bound_digest d,
      ri_created_at_ms = now, ri_expires_at_ms = dr_expires_at_ms d\<rparr>"

definition draft_request :: "approval_draft \<Rightarrow> nat \<Rightarrow> string \<Rightarrow> approval_request" where
  "draft_request d now digest =
     \<lparr>rq_id = ''apr-'' @ take 32 digest, rq_kind = dr_kind d, rq_subject = dr_subject d, rq_evidence = dr_evidence d,
      rq_proposed_change = dr_proposed_change d, rq_risk = dr_risk d, rq_requester = dr_requester d,
      rq_bound_revision = dr_bound_revision d, rq_bound_digest = dr_bound_digest d,
      rq_created_at_ms = now, rq_expires_at_ms = dr_expires_at_ms d\<rparr>"

definition request_propose :: "crypto \<Rightarrow> approval_draft \<Rightarrow> nat \<Rightarrow> approval_error + approval_request" where
  "request_propose cr d now =
     and_then (refuse_if (now = 0) (Invalid ''approval request time must be non-zero''))
     (and_then (refuse_if (dr_expires_at_ms d \<le> now) (Invalid ''approval request expiry must be in the future''))
     (and_then (refuse_if (MAX_REQUEST_LIFETIME_MS < dr_expires_at_ms d - now)
        (Invalid ''approval request lifetime exceeds 2592000000 ms''))
     (and_then (no_credentials (cr_lower cr) (dr_subject d) (dr_proposed_change d) (dr_bound_revision d)
        (pr_id (dr_requester d)) (dr_evidence d))
     (bind_result (content_digest cr REQUEST_DOMAIN (C_Identity (draft_identity d now))) (\<lambda>digest.
        let r = draft_request d now digest in and_then (request_validate cr r) (Inr r))))))"

definition request_digest :: "crypto \<Rightarrow> approval_request \<Rightarrow> approval_error + string" where
  "request_digest cr r = content_digest cr REQUEST_DOMAIN (C_Request r)"

definition request_check :: "approval_request \<Rightarrow> approval_check" where
  "request_check r = \<lparr>ck_kind = rq_kind r, ck_subject = rq_subject r, ck_bound_revision = rq_bound_revision r,
     ck_bound_digest = rq_bound_digest r\<rparr>"

section \<open>Signed decisions\<close>

definition decision_statement_of :: "approval_decision \<Rightarrow> decision_statement" where
  "decision_statement_of dc =
     \<lparr>ds_schema = ''faktor.approval.decision/v1'', ds_request_id = dc_request_id dc,
      ds_request_digest = dc_request_digest dc, ds_outcome = dc_outcome dc, ds_principal = dc_principal dc,
      ds_rationale = dc_rationale dc, ds_decided_at_ms = dc_decided_at_ms dc\<rparr>"

definition statement_digest :: "crypto \<Rightarrow> approval_decision \<Rightarrow> approval_error + string" where
  "statement_digest cr dc = content_digest cr DECISION_DOMAIN (C_Statement (decision_statement_of dc))"

definition signing_message :: "string \<Rightarrow> byte list" where
  "signing_message digest = text_bytes DECISION_SIGNATURE_DOMAIN @ text_bytes digest"

definition outcome_bounded :: "decision_outcome \<Rightarrow> approval_error + unit" where
  "outcome_bounded oc = (case oc of Approved \<Rightarrow> Inr ()
     | Denied_For reason \<Rightarrow> bounded_text ''denial reason'' reason MAX_APPROVAL_TEXT_BYTES)"

definition signature_validate :: "crypto \<Rightarrow> decision_signature \<Rightarrow> approval_error + unit" where
  "signature_validate cr sg =
     and_then (refuse_if (sg_algorithm sg \<noteq> ''ed25519'') (Invalid ''decision signature algorithm must be ed25519''))
     (bind_result (parse_hex 32 (sg_public_key sg)) (\<lambda>public_key.
     bind_result (parse_hex 64 (sg_signature sg)) (\<lambda>_.
     and_then (refuse_if (\<not> hex64 (sg_key_id sg)) (Invalid ''decision key id must be 64 hex characters''))
     (refuse_if (to_hex (cr_blake3 cr public_key) \<noteq> sg_key_id sg)
        (SignatureMismatch ''decision key id does not fingerprint its public key'')))))"

definition decision_validate :: "crypto \<Rightarrow> approval_decision \<Rightarrow> approval_error + unit" where
  "decision_validate cr dc =
     and_then (refuse_if (\<not> id_shape (dc_request_id dc)) (Invalid ''decision request id must be `apr-` plus 32 hex characters''))
     (and_then (refuse_if (\<not> hex64 (dc_request_digest dc)) (Invalid ''decision request digest must be 64 hex characters''))
     (and_then (refuse_if (pr_kind (dc_principal dc) \<noteq> HumanOperator) (AgentApproval (pr_id (dc_principal dc))))
     (and_then (principal_validate (dc_principal dc))
     (and_then (bounded_text ''rationale'' (dc_rationale dc) MAX_APPROVAL_TEXT_BYTES)
     (and_then (ensure_no_credential (cr_lower cr) ''rationale'' (dc_rationale dc))
     (and_then (outcome_bounded (dc_outcome dc))
     (and_then (refuse_if (dc_decided_at_ms dc = 0) (Invalid ''decision time must be non-zero''))
     (signature_validate cr (dc_signature dc)))))))))"

text \<open>\<open>trusted\<close> is the optional set of registered key ids, a list here.\<close>

definition decision_verify :: "crypto \<Rightarrow> approval_decision \<Rightarrow> string list option \<Rightarrow> approval_error + unit" where
  "decision_verify cr dc trusted =
     and_then (decision_validate cr dc)
     (and_then (case trusted of None \<Rightarrow> Inr ()
        | Some ids \<Rightarrow> refuse_if (sg_key_id (dc_signature dc) \<notin> set ids) (UntrustedOperator (sg_key_id (dc_signature dc))))
     (bind_result (parse_hex 32 (sg_public_key (dc_signature dc))) (\<lambda>public_key.
      and_then (refuse_if (\<not> cr_is_public_key cr public_key) (SignatureMismatch ''not an ed25519 public key''))
     (bind_result (parse_hex 64 (sg_signature (dc_signature dc))) (\<lambda>signature.
      bind_result (statement_digest cr dc) (\<lambda>digest.
      refuse_if (\<not> cr_verify cr public_key (signing_message digest) signature)
        (SignatureMismatch ''ed25519 verify failed'')))))))"

definition key_public_hex :: "crypto \<Rightarrow> seed \<Rightarrow> string" where
  "key_public_hex cr key = to_hex (cr_public_key cr key)"

definition key_id :: "crypto \<Rightarrow> seed \<Rightarrow> string" where
  "key_id cr key = to_hex (cr_blake3 cr (cr_public_key cr key))"

definition decision_sign :: "crypto \<Rightarrow> approval_decision \<Rightarrow> seed \<Rightarrow> approval_error + approval_decision" where
  "decision_sign cr dc key =
     bind_result (statement_digest cr dc) (\<lambda>digest.
       let dc' = dc\<lparr>dc_signature := \<lparr>sg_algorithm = ''ed25519'', sg_key_id = key_id cr key,
             sg_public_key = key_public_hex cr key, sg_signature = to_hex (cr_sign cr key (signing_message digest))\<rparr>\<rparr>
       in and_then (decision_validate cr dc') (Inr dc'))"

definition decision_issue ::
  "crypto \<Rightarrow> approval_request \<Rightarrow> decision_outcome \<Rightarrow> principal \<Rightarrow> string \<Rightarrow> nat \<Rightarrow> seed
     \<Rightarrow> approval_error + approval_decision" where
  "decision_issue cr r oc p rationale now key =
     and_then (refuse_if (pr_kind p \<noteq> HumanOperator) (AgentApproval (pr_id p)))
     (and_then (refuse_if (pr_id p = pr_id (rq_requester r)) (SelfApproval (pr_id p)))
     (and_then (refuse_if (now < rq_created_at_ms r) (Invalid ''decision predates its request''))
     (and_then (refuse_if (rq_expires_at_ms r < now) (Expired (rq_id r) (rq_expires_at_ms r)))
     (and_then (ensure_no_credential (cr_lower cr) ''rationale'' rationale)
     (and_then (case oc of Approved \<Rightarrow> Inr () | Denied_For reason \<Rightarrow> ensure_no_credential (cr_lower cr) ''denial reason'' reason)
     (bind_result (request_digest cr r) (\<lambda>digest.
      decision_sign cr
        \<lparr>dc_request_id = rq_id r, dc_request_digest = digest, dc_outcome = oc, dc_principal = p,
         dc_rationale = rationale, dc_decided_at_ms = now,
         dc_signature = \<lparr>sg_algorithm = [], sg_key_id = [], sg_public_key = [], sg_signature = []\<rparr>\<rparr> key)))))))"

section \<open>Tokens\<close>

text \<open>\<open>Instant\<close> is the milliseconds of the process's monotonic clock.\<close>

record approval_token =
  tk_kind :: approval_kind
  tk_subject :: string
  tk_bound_revision :: string
  tk_bound_digest :: string
  tk_request_id :: string
  tk_decision_key_id :: string
  tk_decided_at_ms :: nat
  tk_expires_at_ms :: nat
  tk_deadline :: nat

definition token_from_verified ::
  "crypto \<Rightarrow> approval_request \<Rightarrow> approval_decision \<Rightarrow> nat \<Rightarrow> nat \<Rightarrow> approval_error + approval_token" where
  "token_from_verified cr r dc now instant =
     bind_result (if rq_id r \<noteq> dc_request_id dc then Inr True
         else bind_result (request_digest cr r) (\<lambda>digest. Inr (digest \<noteq> dc_request_digest dc))) (\<lambda>stale.
       if stale then Inl (Stale (rq_id r) (rq_bound_digest r) (dc_request_digest dc) (rq_bound_revision r) (rq_bound_revision r))
       else Inr \<lparr>tk_kind = rq_kind r, tk_subject = rq_subject r, tk_bound_revision = rq_bound_revision r,
         tk_bound_digest = rq_bound_digest r, tk_request_id = rq_id r,
         tk_decision_key_id = sg_key_id (dc_signature dc), tk_decided_at_ms = dc_decided_at_ms dc,
         tk_expires_at_ms = rq_expires_at_ms r,
         tk_deadline = instant + min (rq_expires_at_ms r - now) MAX_REQUEST_LIFETIME_MS\<rparr>)"

definition token_check :: "approval_token \<Rightarrow> approval_check" where
  "token_check t = \<lparr>ck_kind = tk_kind t, ck_subject = tk_subject t, ck_bound_revision = tk_bound_revision t,
     ck_bound_digest = tk_bound_digest t\<rparr>"

text \<open>\<open>instant\<close> and \<open>wall\<close> are the two clocks read by \<open>ApprovalToken::require\<close>.\<close>

definition token_require :: "approval_token \<Rightarrow> approval_check \<Rightarrow> nat \<Rightarrow> nat \<Rightarrow> approval_error + unit" where
  "token_require t expected instant wall =
     (if tk_deadline t \<le> instant \<or> tk_expires_at_ms t < wall then Inl (Expired (tk_request_id t) (tk_expires_at_ms t))
      else if tk_kind t = ck_kind expected \<and> tk_subject t = ck_subject expected
        \<and> tk_bound_revision t = ck_bound_revision expected \<and> tk_bound_digest t = ck_bound_digest expected
      then Inr ()
      else Inl (Stale (tk_request_id t) (ck_bound_digest expected) (tk_bound_digest t)
        (ck_bound_revision expected) (tk_bound_revision t)))"

end
