(* ===== verification/Approval_Store.thy ===== *)
theory Approval_Store
  imports Approval_Model
begin

text \<open>
  The durable side of the approval authority: the hash-chained ledger with its local head, its monotonic
  anchor and the clock anchor (\<open>crates/approval/src/store.rs\<close>), and the registry of human operators
  (\<open>operator.rs\<close>).

  The state is what the data directory holds. A small JSON file is absent, unreadable, over its size bound,
  not JSON of the expected shape, or holds a value; the ledger file is its lines, each blank, unreadable as an
  entry, or an entry. The last three fields are the environment of one call: how many further writes take effect
  before the file system fails, whether a failing append leaves a torn line behind, and whether another process
  holds the ledger lock beyond the wait.
\<close>

section \<open>The data directory\<close>

datatype 'a json_file = Absent | Unreadable | Oversized | Malformed | Holds 'a

datatype ledger_line = Blank_Line | Bad_Line nat | Entry_Line ledger_entry

datatype ledger_file = No_Ledger | Ledger_Io_Error | Ledger_Not_Regular | Ledger_Not_Utf8 nat
  | Ledger_Lines "ledger_line list"

text \<open>\<open>LedgerHead\<close> and \<open>LedgerAnchor\<close> have the same fields.\<close>

record ledger_mark =
  mk_schema :: string
  mk_seq :: nat
  mk_digest :: string

record clock_anchor =
  ca_schema :: string
  ca_max_seen_wall_ms :: nat

record registered_operator =
  op_principal_id :: string
  op_key_id :: string
  op_public_key :: string
  op_registered_at_ms :: nat

record operator_registry =
  or_schema :: string
  or_operators :: "registered_operator list"

record approval_disk =
  dk_ledger :: ledger_file
  dk_head :: "ledger_mark json_file"
  dk_anchor :: "ledger_mark json_file"
  dk_clock :: "clock_anchor json_file"
  dk_registry :: "operator_registry json_file"
  dk_writes :: nat
  dk_torn :: bool
  dk_busy :: bool

type_synonym 'a approval_action = "(approval_disk, approval_error, 'a) action"

definition LEDGER_DOMAIN :: string where "LEDGER_DOMAIN = ''faktor.approval.ledger/v1''"
definition LEDGER_SCHEMA :: string where "LEDGER_SCHEMA = ''faktor.approval.ledger-entry/v1''"
definition LEDGER_HEAD_SCHEMA :: string where "LEDGER_HEAD_SCHEMA = ''faktor.approval.ledger-head/v1''"
definition LEDGER_ANCHOR_SCHEMA :: string where "LEDGER_ANCHOR_SCHEMA = ''faktor.approval.ledger-anchor/v1''"
definition CLOCK_ANCHOR_SCHEMA :: string where "CLOCK_ANCHOR_SCHEMA = ''faktor.approval.clock-anchor/v1''"
definition REGISTRY_SCHEMA :: string where "REGISTRY_SCHEMA = ''faktor.approval.operators/v1''"
definition MAX_LEDGER_BYTES :: nat where "MAX_LEDGER_BYTES = 16 * 1024 * 1024"

definition zero_digest :: string where
  "zero_digest = replicate 64 (CHR ''0'')"

text \<open>A file replaced atomically: it takes effect, or the file system refuses it.\<close>

definition write_file :: "(approval_disk \<Rightarrow> approval_disk) \<Rightarrow> approval_error \<Rightarrow> unit approval_action" where
  "write_file f e = (\<lambda>d. if dk_writes d = 0 then (d, Inl e) else (f (d\<lparr>dk_writes := dk_writes d - 1\<rparr>), Inr ()))"

section \<open>The clock\<close>

definition observe_locked :: "nat \<Rightarrow> nat approval_action" where
  "observe_locked observed =
     bind_act (observe dk_clock) (\<lambda>f.
     bind_act (require (case f of
         Absent \<Rightarrow> Inr 0
       | Unreadable \<Rightarrow> Inl (Store ''clock anchor'')
       | Oversized \<Rightarrow> Inl (Store ''clock anchor exceeds its bound'')
       | Malformed \<Rightarrow> Inl (Store ''clock anchor'')
       | Holds a \<Rightarrow> if ca_schema a \<noteq> CLOCK_ANCHOR_SCHEMA then Inl (Store ''clock anchor schema'')
           else Inr (ca_max_seen_wall_ms a))) (\<lambda>persisted.
     let effective = max observed persisted in
     seq_act (if persisted < effective then
         write_file (\<lambda>d. d\<lparr>dk_clock := Holds \<lparr>ca_schema = CLOCK_ANCHOR_SCHEMA, ca_max_seen_wall_ms = effective\<rparr>\<rparr>)
           (Store ''clock anchor'')
       else return ())
     (return effective)))"

definition effective_now :: "nat \<Rightarrow> nat approval_action" where
  "effective_now observed = observe_locked observed"

section \<open>Head and anchor\<close>

record approval_ledger =
  al_entries :: "ledger_entry list"
  al_requests :: "(string, approval_request) btree"
  al_decisions :: "(string, approval_decision) btree"

definition empty_ledger :: approval_ledger where
  "empty_ledger = \<lparr>al_entries = [], al_requests = [], al_decisions = []\<rparr>"

definition write_anchor :: "nat \<Rightarrow> string \<Rightarrow> unit approval_action" where
  "write_anchor s digest =
     write_file (\<lambda>d. d\<lparr>dk_anchor := Holds \<lparr>mk_schema = LEDGER_ANCHOR_SCHEMA, mk_seq = s, mk_digest = digest\<rparr>\<rparr>)
       (Store ''ledger anchor'')"

definition write_committed_head :: "nat \<Rightarrow> string \<Rightarrow> unit approval_action" where
  "write_committed_head s digest =
     seq_act (write_file (\<lambda>d. d\<lparr>dk_head := Holds \<lparr>mk_schema = LEDGER_HEAD_SCHEMA, mk_seq = s, mk_digest = digest\<rparr>\<rparr>)
       (Store ''ledger head''))
     (write_anchor s digest)"

definition mark_malformed :: "ledger_mark \<Rightarrow> bool" where
  "mark_malformed m \<longleftrightarrow> mk_seq m = 0 \<or> \<not> hex64 (mk_digest m)"

definition local_head_matches_tail :: "approval_disk \<Rightarrow> approval_ledger \<Rightarrow> approval_error + bool" where
  "local_head_matches_tail d ledger =
     (if al_entries ledger = [] then Inr False
      else let l = last (al_entries ledger) in
        case dk_head d of
          Absent \<Rightarrow> Inr False
        | Unreadable \<Rightarrow> Inl (Store ''ledger head'')
        | Oversized \<Rightarrow> Inr False
        | Malformed \<Rightarrow> Inr False
        | Holds h \<Rightarrow> Inr (mk_schema h = LEDGER_HEAD_SCHEMA \<and> mk_seq h = le_seq l \<and> mk_digest h = le_digest l))"

text \<open>The checks of an anchor against the replayed entries, before the question of healing.\<close>

definition anchor_position :: "approval_disk \<Rightarrow> approval_ledger \<Rightarrow> approval_error + nat option" where
  "anchor_position d ledger =
     (case dk_anchor d of
        Absent \<Rightarrow> if al_entries ledger = [] then Inr None
          else Inl (AnchorDegraded ''the monotonic ledger anchor is missing'')
      | Unreadable \<Rightarrow> Inl (AnchorDegraded ''unreadable'')
      | Oversized \<Rightarrow> Inl (AnchorDegraded ''ledger anchor exceeds its bound'')
      | Malformed \<Rightarrow> Inl (AnchorDegraded ''ledger anchor is not valid JSON'')
      | Holds a \<Rightarrow>
         if mk_schema a \<noteq> LEDGER_ANCHOR_SCHEMA then Inl (AnchorDegraded ''ledger anchor schema'')
         else if mark_malformed a then Inl (AnchorDegraded ''ledger anchor is malformed'')
         else if length (al_entries ledger) < mk_seq a then
           Inl (LedgerRollback (mk_seq a) (length (al_entries ledger)))
         else if le_digest (al_entries ledger ! (mk_seq a - 1)) \<noteq> mk_digest a then
           Inl (LedgerRollback (mk_seq a) (length (al_entries ledger)))
         else Inr (Some (mk_seq a)))"

definition verify_anchor :: "approval_ledger \<Rightarrow> bool \<Rightarrow> unit approval_action" where
  "verify_anchor ledger heal =
     bind_act (observe id) (\<lambda>d.
     bind_act (require (anchor_position d ledger)) (\<lambda>pos.
     case pos of
       None \<Rightarrow> return ()
     | Some committed \<Rightarrow>
        if committed < length (al_entries ledger) then
          bind_act (if heal then require (local_head_matches_tail d ledger) else return False) (\<lambda>heals.
            if heals then write_anchor (le_seq (last (al_entries ledger))) (le_digest (last (al_entries ledger)))
            else refuse (AnchorDegraded ''ledger anchor is behind the verified chain''))
        else return ()))"

definition verify_committed_head :: "approval_disk \<Rightarrow> approval_ledger \<Rightarrow> approval_error + unit" where
  "verify_committed_head d ledger =
     (case dk_head d of
        Absent \<Rightarrow> Inr ()
      | Unreadable \<Rightarrow> Inl (Store ''ledger head'')
      | Oversized \<Rightarrow> Inl (Store ''approval ledger head exceeds its bound'')
      | Malformed \<Rightarrow> Inl (Store ''ledger head'')
      | Holds h \<Rightarrow>
         if mk_schema h \<noteq> LEDGER_HEAD_SCHEMA then Inl (Store ''ledger head schema'')
         else if mark_malformed h then Inl (Store ''ledger head is malformed'')
         else if length (al_entries ledger) \<le> mk_seq h - 1 then Inl (Store ''approval ledger was truncated'')
         else let e = al_entries ledger ! (mk_seq h - 1) in
           refuse_if (le_seq e \<noteq> mk_seq h \<or> le_digest e \<noteq> mk_digest h)
             (Store ''approval ledger head does not match entry''))"

section \<open>Replaying the ledger\<close>

definition entry_digest :: "crypto \<Rightarrow> string \<Rightarrow> nat \<Rightarrow> nat \<Rightarrow> ledger_body \<Rightarrow> approval_error + string" where
  "entry_digest cr prev s at body =
     content_digest cr LEDGER_DOMAIN (C_Entry \<lparr>ei_schema = LEDGER_SCHEMA, ei_seq = s, ei_recorded_at_ms = at,
       ei_prev_digest = prev, ei_body = body\<rparr>)"

definition record_entry :: "ledger_entry \<Rightarrow> approval_ledger \<Rightarrow> approval_ledger" where
  "record_entry e l =
     (case le_body e of
        Requested r \<Rightarrow> l\<lparr>al_requests := bt_insert (rq_id r) r (al_requests l), al_entries := al_entries l @ [e]\<rparr>
      | Decided dc \<Rightarrow> l\<lparr>al_decisions := bt_insert (dc_request_id dc) dc (al_decisions l), al_entries := al_entries l @ [e]\<rparr>)"

text \<open>The checks of one body against what was replayed before it.\<close>

definition replay_body :: "crypto \<Rightarrow> approval_ledger \<Rightarrow> ledger_body \<Rightarrow> approval_error + unit" where
  "replay_body cr l body =
     (case body of
        Requested r \<Rightarrow>
          and_then (request_validate cr r)
          (refuse_if (bt_get (al_requests l) (rq_id r) \<noteq> None) (Store ''duplicate approval request''))
      | Decided dc \<Rightarrow>
          (case bt_get (al_requests l) (dc_request_id dc) of
             None \<Rightarrow> Inl (Store ''decision for unknown request'')
           | Some r \<Rightarrow>
              and_then (decision_validate cr dc)
              (bind_result (request_digest cr r) (\<lambda>digest.
               and_then (refuse_if (digest \<noteq> dc_request_digest dc)
                 (Store ''decision request digest does not match the recorded request''))
               (and_then (refuse_if (dc_decided_at_ms dc < rq_created_at_ms r \<or> rq_expires_at_ms r < dc_decided_at_ms dc)
                 (Store ''decision is timed outside its request lifetime''))
               (and_then (refuse_if (pr_id (dc_principal dc) = pr_id (rq_requester r)) (Store ''self-approval''))
               (refuse_if (bt_get (al_decisions l) (dc_request_id dc) \<noteq> None) (Store ''more than one decision''))))))))"

text \<open>The loop state: the ledger so far, the digest of its last entry and the expected sequence number.\<close>

type_synonym replay_state = "approval_ledger \<times> string \<times> nat"

definition replay_line :: "crypto \<Rightarrow> replay_state \<Rightarrow> ledger_line \<Rightarrow> approval_error + replay_state" where
  "replay_line cr st line = (case st of (l, previous, expected_seq) \<Rightarrow>
     (case line of
        Blank_Line \<Rightarrow> Inr st
      | Bad_Line _ \<Rightarrow> Inl (Store ''ledger line'')
      | Entry_Line e \<Rightarrow>
         and_then (refuse_if (le_schema e \<noteq> LEDGER_SCHEMA) (Store ''ledger line schema''))
         (and_then (refuse_if (le_seq e \<noteq> expected_seq) (Store ''ledger sequence gap''))
         (and_then (refuse_if (le_prev_digest e \<noteq> previous) (Store ''ledger chain break''))
         (bind_result (entry_digest cr (le_prev_digest e) (le_seq e) (le_recorded_at_ms e) (le_body e)) (\<lambda>actual.
          and_then (refuse_if (actual \<noteq> le_digest e) (Store ''ledger digest mismatch''))
          (and_then (replay_body cr l (le_body e))
          (Inr (record_entry e l, le_digest e, expected_seq + 1)))))))))"

definition replay :: "crypto \<Rightarrow> ledger_line list \<Rightarrow> approval_error + approval_ledger" where
  "replay cr ls =
     bind_result (try_fold (replay_line cr) (empty_ledger, zero_digest, 1) ls) (\<lambda>(l, _, _). Inr l)"

definition line_bytes :: "crypto \<Rightarrow> ledger_line \<Rightarrow> nat" where
  "line_bytes cr line = (case line of Blank_Line \<Rightarrow> 1 | Bad_Line n \<Rightarrow> n
     | Entry_Line e \<Rightarrow> (case cr_entry_bytes cr e of Some n \<Rightarrow> n + 1 | None \<Rightarrow> 0))"

definition ledger_bytes :: "crypto \<Rightarrow> ledger_line list \<Rightarrow> nat" where
  "ledger_bytes cr ls = sum_list (map (line_bytes cr) ls)"

definition load_inner :: "crypto \<Rightarrow> bool \<Rightarrow> approval_ledger approval_action" where
  "load_inner cr heal =
     bind_act (observe dk_ledger) (\<lambda>f.
     case f of
       No_Ledger \<Rightarrow> seq_act (verify_anchor empty_ledger False) (return empty_ledger)
     | Ledger_Io_Error \<Rightarrow> refuse (Store ''ledger'')
     | Ledger_Not_Regular \<Rightarrow> refuse (Store ''not a regular file'')
     | Ledger_Not_Utf8 n \<Rightarrow> if MAX_LEDGER_BYTES < n then refuse (Store ''approval ledger exceeds 16777216 bytes'')
         else refuse (Store ''ledger is not UTF-8'')
     | Ledger_Lines ls \<Rightarrow>
        if MAX_LEDGER_BYTES < ledger_bytes cr ls then refuse (Store ''approval ledger exceeds 16777216 bytes'')
        else bind_act (require (replay cr ls)) (\<lambda>ledger.
          seq_act (verify_anchor ledger heal)
          (bind_act (observe id) (\<lambda>d.
           seq_act (require (verify_committed_head d ledger)) (return ledger)))))"

definition ledger_load :: "crypto \<Rightarrow> approval_ledger approval_action" where
  "ledger_load cr = load_inner cr False"

text \<open>The lock is held from here to the end of the call.\<close>

definition ledger_begin :: "crypto \<Rightarrow> approval_ledger approval_action" where
  "ledger_begin cr =
     bind_act (observe dk_busy) (\<lambda>busy.
     seq_act (reject_if busy (Busy ''approval ledger lock'')) (load_inner cr True))"

section \<open>Appending\<close>

definition open_requests :: "approval_ledger \<Rightarrow> nat \<Rightarrow> approval_request list" where
  "open_requests l now =
     filter (\<lambda>r. bt_get (al_decisions l) (rq_id r) = None \<and> now \<le> rq_expires_at_ms r) (bt_values (al_requests l))"

definition recorded_request_entry :: "approval_ledger \<Rightarrow> string \<Rightarrow> approval_error + ledger_entry" where
  "recorded_request_entry l i =
     ok_or (Store ''recorded request has no ledger entry'')
       (List.find (\<lambda>e. case le_body e of Requested r \<Rightarrow> rq_id r = i | Decided dc \<Rightarrow> False) (al_entries l))"

definition recorded_decision_entry :: "approval_ledger \<Rightarrow> string \<Rightarrow> approval_error + ledger_entry" where
  "recorded_decision_entry l i =
     ok_or (Store ''recorded decision has no ledger entry'')
       (List.find (\<lambda>e. case le_body e of Requested r \<Rightarrow> False | Decided dc \<Rightarrow> dc_request_id dc = i) (al_entries l))"

text \<open>The checks before the write: a duplicate returns the entry that is recorded.\<close>

definition append_request_check ::
  "crypto \<Rightarrow> approval_ledger \<Rightarrow> approval_request \<Rightarrow> nat \<Rightarrow> approval_error + ledger_entry option" where
  "append_request_check cr l r now =
     and_then (request_validate cr r)
     (and_then (refuse_if (rq_created_at_ms r \<noteq> now) (Invalid ''request creation time must equal the ledger time''))
     (case bt_get (al_requests l) (rq_id r) of
        Some existing \<Rightarrow>
          if existing = r then bind_result (recorded_request_entry l (rq_id r)) (\<lambda>e. Inr (Some e))
          else Inl (Conflict ''request already records different content'')
      | None \<Rightarrow>
          if MAX_OPEN_APPROVALS \<le> length (open_requests l now) then
            Inl (PendingLimit (length (open_requests l now)) MAX_OPEN_APPROVALS)
          else Inr None))"

definition append_decision_check ::
  "crypto \<Rightarrow> approval_ledger \<Rightarrow> approval_decision \<Rightarrow> approval_error + ledger_entry option" where
  "append_decision_check cr l dc =
     bind_result (ok_or (NotFound (dc_request_id dc)) (bt_get (al_requests l) (dc_request_id dc))) (\<lambda>r.
     and_then (decision_validate cr dc)
     (bind_result (request_digest cr r) (\<lambda>digest.
      and_then (refuse_if (digest \<noteq> dc_request_digest dc)
        (Invalid ''decision request digest does not match the recorded request''))
      (and_then (refuse_if (dc_decided_at_ms dc < rq_created_at_ms r \<or> rq_expires_at_ms r < dc_decided_at_ms dc)
        (Invalid ''decision is timed outside its request lifetime''))
      (and_then (refuse_if (pr_id (dc_principal dc) = pr_id (rq_requester r)) (SelfApproval (pr_id (dc_principal dc))))
      (case bt_get (al_decisions l) (dc_request_id dc) of
         Some existing \<Rightarrow>
           if existing = dc then bind_result (recorded_decision_entry l (dc_request_id dc)) (\<lambda>e. Inr (Some e))
           else Inl (Conflict ''request is already decided'')
       | None \<Rightarrow> Inr None))))))"

definition append_check ::
  "crypto \<Rightarrow> approval_ledger \<Rightarrow> ledger_body \<Rightarrow> nat \<Rightarrow> approval_error + ledger_entry option" where
  "append_check cr l body now =
     and_then (refuse_if (now = 0) (Invalid ''ledger time must be non-zero''))
     (case body of Requested r \<Rightarrow> append_request_check cr l r now | Decided dc \<Rightarrow> append_decision_check cr l dc)"

definition last_digest :: "approval_ledger \<Rightarrow> string" where
  "last_digest l = (if al_entries l = [] then zero_digest else le_digest (last (al_entries l)))"

definition next_entry :: "crypto \<Rightarrow> approval_ledger \<Rightarrow> ledger_body \<Rightarrow> nat \<Rightarrow> approval_error + ledger_entry" where
  "next_entry cr l body now =
     bind_result (entry_digest cr (last_digest l) (length (al_entries l) + 1) now body) (\<lambda>digest.
       Inr \<lparr>le_schema = LEDGER_SCHEMA, le_seq = length (al_entries l) + 1, le_recorded_at_ms = now,
         le_prev_digest = last_digest l, le_body = body, le_digest = digest\<rparr>)"

definition add_line :: "ledger_line \<Rightarrow> approval_disk \<Rightarrow> approval_disk" where
  "add_line line d =
     d\<lparr>dk_ledger := (case dk_ledger d of
         Ledger_Lines ls \<Rightarrow> Ledger_Lines (ls @ [line])
       | No_Ledger \<Rightarrow> Ledger_Lines [line]
       | f \<Rightarrow> f)\<rparr>"

text \<open>
  The line is opened for append and written; a failing write leaves the file alone or a torn line at its end.
\<close>

definition append_line :: "ledger_entry \<Rightarrow> unit approval_action" where
  "append_line e = (\<lambda>d.
     if dk_writes d = 0 then ((if dk_torn d then add_line (Bad_Line 1) d else d), Inl (Store ''ledger append''))
     else (add_line (Entry_Line e) (d\<lparr>dk_writes := dk_writes d - 1\<rparr>), Inr ()))"

definition ledger_append ::
  "crypto \<Rightarrow> approval_ledger \<Rightarrow> ledger_body \<Rightarrow> nat \<Rightarrow> (ledger_entry \<times> approval_ledger) approval_action" where
  "ledger_append cr l body now =
     bind_act (require (append_check cr l body now)) (\<lambda>recorded.
     case recorded of
       Some e \<Rightarrow> return (e, l)
     | None \<Rightarrow>
        bind_act (require (next_entry cr l body now)) (\<lambda>e.
        seq_act (some_or (Store ''ledger encode'') (map_option (\<lambda>_. ()) (cr_entry_bytes cr e)))
        (seq_act (append_line e)
        (seq_act (write_committed_head (le_seq e) (le_digest e))
        (return (e, record_entry e l))))))"

section \<open>Operators\<close>

definition safe_key_filename :: "string \<Rightarrow> bool" where
  "safe_key_filename i \<longleftrightarrow> i \<noteq> [] \<and> length i \<le> MAX_PRINCIPAL_ID_BYTES \<and> i \<noteq> ''.'' \<and> i \<noteq> ''..''
     \<and> CHR ''/'' \<notin> set i \<and> CHR 0x5C \<notin> set i
     \<and> list_all (\<lambda>c. is_ascii_digit c \<or> (65 \<le> byte_of c \<and> byte_of c \<le> 90) \<or> (97 \<le> byte_of c \<and> byte_of c \<le> 122)
         \<or> c = CHR ''-'' \<or> c = CHR ''_'' \<or> c = CHR ''.'') i"

text \<open>The key path below the data directory.\<close>

definition operator_key_path :: "string \<Rightarrow> approval_error + string" where
  "operator_key_path i =
     (if safe_key_filename i then Inr (''approval/'' @ i @ ''.key'')
      else Inl (Invalid ''principal id is not a safe key filename''))"

definition operator_valid :: "crypto \<Rightarrow> registered_operator \<Rightarrow> approval_error + unit" where
  "operator_valid cr oper =
     bind_result (principal_new (op_principal_id oper) HumanOperator) (\<lambda>p.
     and_then (principal_validate p)
     (and_then (refuse_if (\<not> hex64 (op_public_key oper)) (Store ''operator registry carries a malformed public key''))
     (refuse_if (op_key_id oper \<noteq> to_hex (cr_blake3 cr (hex_chunks (op_public_key oper))))
        (Store ''operator registry key id does not fingerprint its public key''))))"

definition load_registry :: "crypto \<Rightarrow> approval_disk \<Rightarrow> approval_error + registered_operator list" where
  "load_registry cr d =
     (case dk_registry d of
        Absent \<Rightarrow> Inr []
      | Unreadable \<Rightarrow> Inl (Store ''operator registry'')
      | Oversized \<Rightarrow> Inl (Store ''operator registry exceeds 1 MiB'')
      | Malformed \<Rightarrow> Inl (Store ''operator registry'')
      | Holds f \<Rightarrow>
         if or_schema f \<noteq> REGISTRY_SCHEMA then Inl (Store ''operator registry schema'')
         else and_then (try_each (operator_valid cr) (or_operators f)) (Inr (or_operators f)))"

definition operator_key :: "registered_operator \<Rightarrow> string \<times> string" where
  "operator_key oper = (op_principal_id oper, op_key_id oper)"

definition register_operator_key :: "crypto \<Rightarrow> string \<Rightarrow> seed \<Rightarrow> nat \<Rightarrow> registered_operator approval_action" where
  "register_operator_key cr principal_id key now =
     bind_act (require (principal_new principal_id HumanOperator)) (\<lambda>p.
     bind_act (require (operator_key_path (pr_id p))) (\<lambda>_.
     seq_act (reject_if (now = 0) (Invalid ''operator registration time must be non-zero''))
     (bind_act (observe (load_registry cr)) (\<lambda>loaded.
     bind_act (require loaded) (\<lambda>operators.
     let rec = \<lparr>op_principal_id = pr_id p, op_key_id = key_id cr key, op_public_key = key_public_hex cr key,
           op_registered_at_ms = now\<rparr>
     in case List.find (\<lambda>oper. op_key_id oper = op_key_id rec) operators of
          Some existing \<Rightarrow>
            if op_principal_id existing \<noteq> op_principal_id rec then
              refuse (Conflict ''operator key is already registered to another principal'')
            else return existing
        | None \<Rightarrow>
            if list_ex (\<lambda>oper. op_principal_id oper = op_principal_id rec) operators then
              refuse (Conflict ''human principal already has a registered operator key'')
            else seq_act (write_file (\<lambda>d. d\<lparr>dk_registry := Holds \<lparr>or_schema = REGISTRY_SCHEMA,
                     or_operators = sort_key operator_key (operators @ [rec])\<rparr>\<rparr>) (Store ''operator registry''))
                 (return rec))))))"

definition trusted_key_ids :: "crypto \<Rightarrow> approval_disk \<Rightarrow> approval_error + string list" where
  "trusted_key_ids cr d = bind_result (load_registry cr d) (\<lambda>ops. Inr (map op_key_id ops))"

definition registered_as :: "registered_operator list \<Rightarrow> string \<Rightarrow> string \<Rightarrow> string \<Rightarrow> bool" where
  "registered_as operators principal_id kid public_key =
     list_ex (\<lambda>oper. op_principal_id oper = principal_id \<and> op_key_id oper = kid \<and> op_public_key oper = public_key) operators"

definition key_registered_for :: "crypto \<Rightarrow> approval_disk \<Rightarrow> string \<Rightarrow> seed \<Rightarrow> approval_error + unit" where
  "key_registered_for cr d principal_id key =
     bind_result (load_registry cr d) (\<lambda>operators.
       refuse_if (\<not> registered_as operators principal_id (key_id cr key) (key_public_hex cr key))
         (UntrustedOperator (key_id cr key)))"

end
