(* ===== verification/Approval_Authority.thy ===== *)
theory Approval_Authority
  imports Approval_Store
begin

text \<open>
  The approval authority (\<open>crates/approval/src/authority.rs\<close>): propose, decide, authorize and the
  projections. Every call reads the directory again, so an operation is an action on the state of the
  directory; \<open>instant\<close> is the reading of the process clock a token's deadline is counted from.
\<close>

section \<open>Proposing and deciding\<close>

definition propose :: "crypto \<Rightarrow> approval_draft \<Rightarrow> nat \<Rightarrow> approval_request approval_action" where
  "propose cr draft now_ms =
     bind_act (effective_now now_ms) (\<lambda>now.
     bind_act (require (request_propose cr draft now)) (\<lambda>r.
     bind_act (ledger_begin cr) (\<lambda>l.
     case bt_get (al_requests l) (rq_id r) of
       Some existing \<Rightarrow>
         if existing = r then return existing
         else refuse (Conflict ''request id already records different content'')
     | None \<Rightarrow> seq_act (bind_act (ledger_append cr l (Requested r) now) (\<lambda>_. return ())) (return r))))"

definition decide ::
  "crypto \<Rightarrow> string \<Rightarrow> principal \<Rightarrow> seed \<Rightarrow> decision_outcome \<Rightarrow> string \<Rightarrow> nat \<Rightarrow> approval_decision approval_action" where
  "decide cr request_id p key oc rationale now_ms =
     seq_act (require (principal_validate p))
     (bind_act (effective_now now_ms) (\<lambda>now.
     seq_act (reject_if (pr_kind p \<noteq> HumanOperator) (AgentApproval (pr_id p)))
     (bind_act (ledger_begin cr) (\<lambda>l.
     bind_act (some_or (NotFound request_id) (bt_get (al_requests l) request_id)) (\<lambda>r.
     seq_act (reject_if (pr_id (rq_requester r) = pr_id p) (SelfApproval (pr_id p)))
     (bind_act (observe (\<lambda>d. key_registered_for cr d (pr_id p) key)) (\<lambda>registered.
     seq_act (require registered)
     (case bt_get (al_decisions l) request_id of
        Some existing \<Rightarrow>
          if dc_outcome existing = oc \<and> dc_principal existing = p \<and> dc_rationale existing = rationale
          then return existing
          else refuse (Conflict ''approval request is already decided'')
      | None \<Rightarrow>
          seq_act (reject_if (rq_expires_at_ms r < now) (Expired (rq_id r) (rq_expires_at_ms r)))
          (bind_act (require (decision_issue cr r oc p rationale now key)) (\<lambda>dc.
           seq_act (bind_act (ledger_append cr l (Decided dc) now) (\<lambda>_. return ())) (return dc)))))))))))"

section \<open>Verifying and authorizing\<close>

definition verify_decision_with ::
  "crypto \<Rightarrow> approval_request \<Rightarrow> approval_decision \<Rightarrow> string list \<Rightarrow> registered_operator list \<Rightarrow> approval_error + unit" where
  "verify_decision_with cr r dc trusted operators =
     and_then (refuse_if (pr_kind (dc_principal dc) \<noteq> HumanOperator) (AgentApproval (pr_id (dc_principal dc))))
     (and_then (refuse_if (pr_id (dc_principal dc) = pr_id (rq_requester r)) (SelfApproval (pr_id (dc_principal dc))))
     (and_then (refuse_if (dc_decided_at_ms dc < rq_created_at_ms r \<or> rq_expires_at_ms r < dc_decided_at_ms dc)
        (Invalid ''decision is timed outside its request lifetime''))
     (and_then (decision_verify cr dc (Some trusted))
     (refuse_if (\<not> registered_as operators (pr_id (dc_principal dc)) (sg_key_id (dc_signature dc))
           (sg_public_key (dc_signature dc)))
        (UntrustedOperator (sg_key_id (dc_signature dc)))))))"

definition evaluate_with_trust ::
  "crypto \<Rightarrow> approval_request \<Rightarrow> approval_ledger \<Rightarrow> nat \<Rightarrow> string list \<Rightarrow> registered_operator list \<Rightarrow> nat
     \<Rightarrow> approval_error + approval_token" where
  "evaluate_with_trust cr r l now trusted operators instant =
     (if rq_expires_at_ms r < now then Inl (Expired (rq_id r) (rq_expires_at_ms r))
      else case bt_get (al_decisions l) (rq_id r) of
          None \<Rightarrow> Inl (Pending (rq_id r) (rq_kind r) (rq_subject r))
        | Some dc \<Rightarrow>
           and_then (verify_decision_with cr r dc trusted operators)
           (case dc_outcome dc of
              Approved \<Rightarrow> token_from_verified cr r dc now instant
            | Denied_For reason \<Rightarrow> Inl (Denied (rq_id r) (rq_kind r) (rq_subject r) (pr_id (dc_principal dc)) reason)))"

text \<open>The registry is read twice, for the key ids and for the operators.\<close>

definition read_trust :: "crypto \<Rightarrow> approval_disk \<Rightarrow> approval_error + string list \<times> registered_operator list" where
  "read_trust cr d =
     bind_result (trusted_key_ids cr d) (\<lambda>trusted.
     bind_result (load_registry cr d) (\<lambda>operators. Inr (trusted, operators)))"

definition evaluate ::
  "crypto \<Rightarrow> approval_request \<Rightarrow> approval_ledger \<Rightarrow> nat \<Rightarrow> nat \<Rightarrow> approval_token approval_action" where
  "evaluate cr r l now instant =
     bind_act (observe (read_trust cr)) (\<lambda>loaded.
     bind_act (require loaded) (\<lambda>(trusted, operators).
     require (evaluate_with_trust cr r l now trusted operators instant)))"

definition binds_check :: "approval_check \<Rightarrow> approval_request \<Rightarrow> bool" where
  "binds_check ck r \<longleftrightarrow> rq_kind r = ck_kind ck \<and> rq_subject r = ck_subject ck
     \<and> rq_bound_revision r = ck_bound_revision ck \<and> rq_bound_digest r = ck_bound_digest ck"

definition same_subject :: "approval_kind \<Rightarrow> string \<Rightarrow> approval_request \<Rightarrow> bool" where
  "same_subject kind subject r \<longleftrightarrow> rq_kind r = kind \<and> rq_subject r = subject"

text \<open>\<open>Iterator::max_by\<close> keeps the last of several greatest elements.\<close>

definition max_last :: "('a \<Rightarrow> 'k :: linorder) \<Rightarrow> 'a list \<Rightarrow> 'a option" where
  "max_last f xs = foldl (\<lambda>best x. case best of None \<Rightarrow> Some x | Some y \<Rightarrow> if f x < f y then best else Some x) None xs"

definition recency :: "approval_request \<Rightarrow> nat \<times> string" where
  "recency r = (rq_created_at_ms r, rq_id r)"

text \<open>\<open>sort_by\<close> with the comparison reversed: a stable descending sort.\<close>

definition newest_first :: "approval_request list \<Rightarrow> approval_request list" where
  "newest_first rs = rev (sort_key recency (rev rs))"

definition stale_for :: "approval_check \<Rightarrow> approval_request \<Rightarrow> approval_error" where
  "stale_for ck r = Stale (rq_id r) (ck_bound_digest ck) (rq_bound_digest r) (ck_bound_revision ck) (rq_bound_revision r)"

definition authorize :: "crypto \<Rightarrow> approval_check \<Rightarrow> nat \<Rightarrow> nat \<Rightarrow> approval_token approval_action" where
  "authorize cr ck now_ms instant =
     bind_act (effective_now now_ms) (\<lambda>now.
     bind_act (ledger_load cr) (\<lambda>l.
     let exact = filter (binds_check ck) (bt_values (al_requests l)) in
     if exact = [] then
       (case max_last rq_created_at_ms (filter (same_subject (ck_kind ck) (ck_subject ck)) (bt_values (al_requests l))) of
          Some r \<Rightarrow> refuse (stale_for ck r)
        | None \<Rightarrow> refuse (ApprovalRequired (ck_kind ck) (ck_subject ck) (ck_bound_revision ck) (ck_bound_digest ck)))
     else evaluate cr (hd (newest_first exact)) l now instant))"

definition authorize_request ::
  "crypto \<Rightarrow> string \<Rightarrow> approval_check \<Rightarrow> nat \<Rightarrow> nat \<Rightarrow> approval_token approval_action" where
  "authorize_request cr request_id ck now_ms instant =
     bind_act (effective_now now_ms) (\<lambda>now.
     bind_act (ledger_load cr) (\<lambda>l.
     bind_act (some_or (NotFound request_id) (bt_get (al_requests l) request_id)) (\<lambda>r.
     if \<not> binds_check ck r then refuse (stale_for ck r)
     else evaluate cr r l now instant)))"

definition latest_request :: "crypto \<Rightarrow> approval_kind \<Rightarrow> string \<Rightarrow> approval_request option approval_action" where
  "latest_request cr kind subject =
     bind_act (ledger_load cr) (\<lambda>l.
     return (max_last recency (filter (same_subject kind subject) (bt_values (al_requests l)))))"

text \<open>The refusals that let the search for an approved baseline go on.\<close>

fun passes_over :: "approval_error \<Rightarrow> bool" where
  "passes_over (Pending _ _ _) = True"
| "passes_over (Denied _ _ _ _ _) = True"
| "passes_over (Expired _ _) = True"
| "passes_over _ = False"

fun first_authorized ::
  "(approval_request \<Rightarrow> approval_error + approval_token) \<Rightarrow> approval_request list \<Rightarrow> approval_error + approval_token option" where
  "first_authorized ev [] = Inr None"
| "first_authorized ev (r # rs) =
     (case ev r of
        Inr t \<Rightarrow> Inr (Some t)
      | Inl e \<Rightarrow> if passes_over e then first_authorized ev rs else Inl e)"

definition latest_authorized ::
  "crypto \<Rightarrow> approval_kind \<Rightarrow> string \<Rightarrow> nat \<Rightarrow> nat \<Rightarrow> approval_token option approval_action" where
  "latest_authorized cr kind subject now_ms instant =
     bind_act (effective_now now_ms) (\<lambda>now.
     bind_act (ledger_load cr) (\<lambda>l.
     bind_act (observe (read_trust cr)) (\<lambda>loaded.
     bind_act (require loaded) (\<lambda>(trusted, operators).
     require (first_authorized (\<lambda>r. evaluate_with_trust cr r l now trusted operators instant)
       (newest_first (filter (same_subject kind subject) (bt_values (al_requests l)))))))))"

section \<open>Projections\<close>

record approval_view =
  vw_request :: approval_request
  vw_decision :: "approval_decision option"

definition verified_view ::
  "crypto \<Rightarrow> approval_ledger \<Rightarrow> string list \<Rightarrow> registered_operator list \<Rightarrow> approval_request \<Rightarrow> approval_error + approval_view" where
  "verified_view cr l trusted operators r =
     (let dc = bt_get (al_decisions l) (rq_id r) in
      and_then (case dc of None \<Rightarrow> Inr () | Some x \<Rightarrow> verify_decision_with cr r x trusted operators)
        (Inr \<lparr>vw_request = r, vw_decision = dc\<rparr>))"

text \<open>\<open>view\<close> reads the registry only when there is a decision to verify.\<close>

definition approval_view_of :: "crypto \<Rightarrow> string \<Rightarrow> approval_view approval_action" where
  "approval_view_of cr request_id =
     bind_act (ledger_load cr) (\<lambda>l.
     bind_act (some_or (NotFound request_id) (bt_get (al_requests l) request_id)) (\<lambda>r.
     case bt_get (al_decisions l) request_id of
       None \<Rightarrow> return \<lparr>vw_request = r, vw_decision = None\<rparr>
     | Some dc \<Rightarrow>
        bind_act (observe (read_trust cr)) (\<lambda>loaded.
        bind_act (require loaded) (\<lambda>(trusted, operators).
        seq_act (require (verify_decision_with cr r dc trusted operators))
        (return \<lparr>vw_request = r, vw_decision = Some dc\<rparr>)))))"

definition status_text :: "approval_view \<Rightarrow> nat \<Rightarrow> string" where
  "status_text v now =
     (let lapsed = rq_expires_at_ms (vw_request v) < now in
      case vw_decision v of
        None \<Rightarrow> if lapsed then ''expired'' else ''open''
      | Some dc \<Rightarrow> (case dc_outcome dc of
          Approved \<Rightarrow> if lapsed then ''expired'' else ''approved''
        | Denied_For _ \<Rightarrow> ''denied''))"

record approval_status_view =
  sv_status :: string
  sv_request_id :: string
  sv_kind :: string
  sv_subject :: string
  sv_bound_revision :: string
  sv_bound_digest :: string
  sv_expires_at_ms :: nat
  sv_decided_by :: "string option"
  sv_rationale :: "string option"

definition approval_status :: "crypto \<Rightarrow> string \<Rightarrow> nat \<Rightarrow> approval_status_view approval_action" where
  "approval_status cr request_id unix_now_ms =
     bind_act (approval_view_of cr request_id) (\<lambda>v.
     bind_act (effective_now unix_now_ms) (\<lambda>now.
     return \<lparr>sv_status = status_text v now, sv_request_id = rq_id (vw_request v),
       sv_kind = approval_kind_as_str (rq_kind (vw_request v)), sv_subject = rq_subject (vw_request v),
       sv_bound_revision = rq_bound_revision (vw_request v), sv_bound_digest = rq_bound_digest (vw_request v),
       sv_expires_at_ms = rq_expires_at_ms (vw_request v),
       sv_decided_by = map_option (\<lambda>dc. pr_id (dc_principal dc)) (vw_decision v),
       sv_rationale = map_option dc_rationale (vw_decision v)\<rparr>))"

definition approval_list :: "crypto \<Rightarrow> approval_view list approval_action" where
  "approval_list cr =
     bind_act (ledger_load cr) (\<lambda>l.
     bind_act (observe (read_trust cr)) (\<lambda>loaded.
     bind_act (require loaded) (\<lambda>(trusted, operators).
     bind_act (require (try_fold (\<lambda>acc r. bind_result (verified_view cr l trusted operators r) (\<lambda>v. Inr (acc @ [v])))
        [] (bt_values (al_requests l)))) (\<lambda>views.
     return (sort_key (\<lambda>v. recency (vw_request v)) views)))))"

definition entry_concerns :: "string option \<Rightarrow> ledger_entry \<Rightarrow> bool" where
  "entry_concerns i e = (case i of None \<Rightarrow> True
     | Some i \<Rightarrow> (case le_body e of Requested r \<Rightarrow> rq_id r = i | Decided dc \<Rightarrow> dc_request_id dc = i))"

definition approval_audit :: "crypto \<Rightarrow> string option \<Rightarrow> ledger_entry list approval_action" where
  "approval_audit cr request_id =
     bind_act (ledger_load cr) (\<lambda>l. return (filter (entry_concerns request_id) (al_entries l)))"

definition operator_key_ids :: "crypto \<Rightarrow> string list approval_action" where
  "operator_key_ids cr = bind_act (observe (trusted_key_ids cr)) require"

end
