(* ===== verification/Approval_Ledger.thy ===== *)
theory Approval_Ledger
  imports Approval_Authority "HOL-Library.Sublist"
begin

text \<open>
  What the replay of a ledger guarantees, what loading and appending do to the data directory, and the
  relation every operation keeps: entries are only added at the end and the observed clock never goes back.
\<close>

section \<open>Replaying\<close>

definition entries_in :: "ledger_line list \<Rightarrow> ledger_entry list" where
  "entries_in ls = List.map_filter (\<lambda>line. case line of Entry_Line e \<Rightarrow> Some e | _ \<Rightarrow> None) ls"

lemma entries_in_simps [simp]:
  "entries_in [] = []"
  "entries_in (Blank_Line # ls) = entries_in ls"
  "entries_in (Bad_Line n # ls) = entries_in ls"
  "entries_in (Entry_Line e # ls) = e # entries_in ls"
  "entries_in (ls @ ls') = entries_in ls @ entries_in ls'"
  "entries_in (map Entry_Line es) = es"
proof -
  show "entries_in (map Entry_Line es) = es" by (induction es) (simp_all add: entries_in_def List.map_filter_simps)
qed (simp_all add: entries_in_def List.map_filter_simps List.map_filter_def)

text \<open>The state the loop is in after a ledger.\<close>

definition replay_at :: "approval_ledger \<Rightarrow> replay_state" where
  "replay_at l = (l, last_digest l, length (al_entries l) + 1)"

lemma replay_start: "(empty_ledger, zero_digest, 1) = replay_at empty_ledger"
  by (simp add: replay_at_def last_digest_def empty_ledger_def)

lemma record_entry_entries [simp]: "al_entries (record_entry e l) = al_entries l @ [e]"
  by (simp add: record_entry_def split: ledger_body.split)

lemma replay_line_entry:
  "replay_line cr (replay_at l) (Entry_Line e) = Inr st \<longleftrightarrow>
   le_schema e = LEDGER_SCHEMA \<and> le_seq e = length (al_entries l) + 1 \<and> le_prev_digest e = last_digest l \<and>
   entry_digest cr (le_prev_digest e) (le_seq e) (le_recorded_at_ms e) (le_body e) = Inr (le_digest e) \<and>
   replay_body cr l (le_body e) = Inr () \<and> st = replay_at (record_entry e l)"
  by (auto simp: replay_line_def replay_at_def last_digest_def)

lemma replay_line_cases:
  assumes "replay_line cr (replay_at l) line = Inr st"
  shows "(line = Blank_Line \<and> st = replay_at l) \<or> (\<exists>e. line = Entry_Line e \<and> st = replay_at (record_entry e l))"
proof (cases line)
  case (Entry_Line e)
  with assms show ?thesis by (simp add: replay_line_entry)
qed (use assms in \<open>auto simp: replay_line_def replay_at_def\<close>)

definition replay_from :: "crypto \<Rightarrow> approval_ledger \<Rightarrow> ledger_line list \<Rightarrow> approval_error + replay_state" where
  "replay_from cr l ls = try_fold (replay_line cr) (replay_at l) ls"

lemma replay_from_cases:
  "replay_from cr l ls = Inr st \<Longrightarrow>
   \<exists>l'. st = replay_at l' \<and> al_entries l' = al_entries l @ entries_in ls \<and>
     replay_from cr l (map Entry_Line (entries_in ls)) = Inr st"
proof (induction ls arbitrary: l)
  case Nil
  then show ?case by (auto simp: replay_from_def)
next
  case (Cons line ls)
  from Cons.prems obtain st1 where st1: "replay_line cr (replay_at l) line = Inr st1"
    "try_fold (replay_line cr) st1 ls = Inr st" by (auto simp: replay_from_def)
  from replay_line_cases [OF st1(1)] show ?case
  proof (elim disjE conjE exE)
    assume "line = Blank_Line" "st1 = replay_at l"
    with Cons.IH [of l] st1(2) show ?thesis by (simp add: replay_from_def)
  next
    fix e
    assume e: "line = Entry_Line e" "st1 = replay_at (record_entry e l)"
    with Cons.IH [of "record_entry e l"] st1 show ?thesis by (auto simp: replay_from_def)
  qed
qed

lemma replay_iff: "replay cr ls = Inr l \<longleftrightarrow> replay_from cr empty_ledger ls = Inr (replay_at l)"
proof -
  have "replay_from cr empty_ledger ls = Inr st \<Longrightarrow> \<exists>l. st = replay_at l" for st
    using replay_from_cases by blast
  then show ?thesis
    unfolding replay_def replay_start [symmetric] replay_from_def
    by (auto simp: replay_start) (auto simp: replay_at_def)
qed

lemma replay_entries:
  assumes "replay cr ls = Inr l"
  shows "al_entries l = entries_in ls \<and> replay cr (map Entry_Line (entries_in ls)) = Inr l"
proof -
  from assms have "replay_from cr empty_ledger ls = Inr (replay_at l)" by (simp add: replay_iff)
  from replay_from_cases [OF this] show ?thesis by (auto simp: replay_iff replay_at_def empty_ledger_def)
qed

lemma replay_append:
  "replay cr ls = Inr l \<Longrightarrow> replay cr (ls @ ls') = Inr l' \<longleftrightarrow> replay_from cr l ls' = Inr (replay_at l')"
  by (simp add: replay_iff replay_from_def try_fold_append)

lemma replay_snoc:
  assumes "replay cr ls = Inr l"
  shows "replay cr (ls @ [Entry_Line e]) = Inr l' \<longleftrightarrow>
    le_schema e = LEDGER_SCHEMA \<and> le_seq e = length (al_entries l) + 1 \<and> le_prev_digest e = last_digest l \<and>
    entry_digest cr (le_prev_digest e) (le_seq e) (le_recorded_at_ms e) (le_body e) = Inr (le_digest e) \<and>
    replay_body cr l (le_body e) = Inr () \<and> l' = record_entry e l"
  by (auto simp: replay_append [OF assms] replay_from_def replay_line_entry) (auto simp: replay_at_def)

lemma replay_prefix:
  assumes "replay cr (ls @ ls') = Inr l'"
  obtains l where "replay cr ls = Inr l" "replay_from cr l ls' = Inr (replay_at l')"
proof -
  from assms obtain st where st: "replay_from cr empty_ledger ls = Inr st"
    "try_fold (replay_line cr) st ls' = Inr (replay_at l')"
    by (auto simp: replay_iff replay_from_def try_fold_append)
  from replay_from_cases [OF st(1)] obtain l where "st = replay_at l" by blast
  with st that show thesis by (simp add: replay_iff replay_from_def)
qed

text \<open>What is recorded stays recorded.\<close>

definition ledger_le :: "approval_ledger \<Rightarrow> approval_ledger \<Rightarrow> bool" where
  "ledger_le l l' \<longleftrightarrow> prefix (al_entries l) (al_entries l') \<and>
     (\<forall>i r. bt_get (al_requests l) i = Some r \<longrightarrow> bt_get (al_requests l') i = Some r) \<and>
     (\<forall>i dc. bt_get (al_decisions l) i = Some dc \<longrightarrow> bt_get (al_decisions l') i = Some dc)"

lemma ledger_le_refl [simp]: "ledger_le l l"
  by (simp add: ledger_le_def)

lemma ledger_le_trans: "ledger_le l l' \<Longrightarrow> ledger_le l' l'' \<Longrightarrow> ledger_le l l''"
  by (auto simp: ledger_le_def)

lemma ledger_le_record: "replay_body cr l (le_body e) = Inr () \<Longrightarrow> ledger_le l (record_entry e l)"
  by (auto simp: ledger_le_def record_entry_def replay_body_def split: ledger_body.splits option.splits)

lemma replay_from_le: "replay_from cr l ls = Inr (replay_at l') \<Longrightarrow> ledger_le l l'"
proof (induction ls arbitrary: l)
  case Nil
  then show ?case by (simp add: replay_from_def replay_at_def)
next
  case (Cons line ls)
  from Cons.prems obtain st1 where st1: "replay_line cr (replay_at l) line = Inr st1"
    "try_fold (replay_line cr) st1 ls = Inr (replay_at l')" by (auto simp: replay_from_def)
  from replay_line_cases [OF st1(1)] show ?case
  proof (elim disjE conjE exE)
    assume "line = Blank_Line" "st1 = replay_at l"
    with Cons.IH [of l] st1(2) show ?thesis by (simp add: replay_from_def)
  next
    fix e
    assume e: "line = Entry_Line e" "st1 = replay_at (record_entry e l)"
    with st1 have "ledger_le l (record_entry e l)" by (auto simp: replay_line_entry intro: ledger_le_record)
    with Cons.IH [of "record_entry e l"] e(2) st1(2) show ?thesis
      by (auto simp: replay_from_def intro: ledger_le_trans)
  qed
qed

section \<open>Invariants of a replayed ledger\<close>

text \<open>An induction rule: a property of the empty ledger kept by every entry that replays.\<close>

lemma replay_induct:
  assumes "replay cr ls = Inr l" and "P empty_ledger"
    and "\<And>l e. P l \<Longrightarrow> le_seq e = length (al_entries l) + 1 \<Longrightarrow> le_prev_digest e = last_digest l \<Longrightarrow>
      entry_digest cr (le_prev_digest e) (le_seq e) (le_recorded_at_ms e) (le_body e) = Inr (le_digest e) \<Longrightarrow>
      replay_body cr l (le_body e) = Inr () \<Longrightarrow> P (record_entry e l)"
  shows "P l"
proof -
  have "P l'" if "replay_from cr k ls = Inr (replay_at l')" "P k" for k l' ls
    using that
  proof (induction ls arbitrary: k)
    case Nil
    then show ?case by (simp add: replay_from_def replay_at_def)
  next
    case (Cons line ls)
    from Cons.prems obtain st1 where st1: "replay_line cr (replay_at k) line = Inr st1"
      "try_fold (replay_line cr) st1 ls = Inr (replay_at l')" by (auto simp: replay_from_def)
    from replay_line_cases [OF st1(1)] show ?case
    proof (elim disjE conjE exE)
      assume "line = Blank_Line" "st1 = replay_at k"
      with Cons st1(2) show ?thesis by (simp add: replay_from_def)
    next
      fix e
      assume e: "line = Entry_Line e" "st1 = replay_at (record_entry e k)"
      with st1 Cons.prems(2) have "P (record_entry e k)" by (auto simp: replay_line_entry intro: assms(3))
      with Cons.IH [of "record_entry e k"] e(2) st1(2) show ?thesis by (simp add: replay_from_def)
    qed
  qed
  with assms(1,2) show ?thesis by (simp add: replay_iff)
qed

text \<open>What every recorded request and decision has passed.\<close>

definition ledger_wf :: "crypto \<Rightarrow> approval_ledger \<Rightarrow> bool" where
  "ledger_wf cr l \<longleftrightarrow>
     bt_ok (al_requests l) \<and> bt_ok (al_decisions l) \<and>
     (\<forall>i r. bt_get (al_requests l) i = Some r \<longrightarrow> rq_id r = i \<and> request_validate cr r = Inr ()) \<and>
     (\<forall>i dc. bt_get (al_decisions l) i = Some dc \<longrightarrow> dc_request_id dc = i \<and> decision_validate cr dc = Inr () \<and>
       (\<exists>r. bt_get (al_requests l) i = Some r \<and> request_digest cr r = Inr (dc_request_digest dc) \<and>
         rq_created_at_ms r \<le> dc_decided_at_ms dc \<and> dc_decided_at_ms dc \<le> rq_expires_at_ms r \<and>
         pr_id (dc_principal dc) \<noteq> pr_id (rq_requester r)))"

lemma replay_body_Requested:
  "replay_body cr l (Requested r) = Inr () \<longleftrightarrow> request_validate cr r = Inr () \<and> bt_get (al_requests l) (rq_id r) = None"
  by (simp add: replay_body_def)

lemma replay_body_Decided:
  "replay_body cr l (Decided dc) = Inr () \<longleftrightarrow>
   (\<exists>r. bt_get (al_requests l) (dc_request_id dc) = Some r \<and> decision_validate cr dc = Inr () \<and>
     request_digest cr r = Inr (dc_request_digest dc) \<and> rq_created_at_ms r \<le> dc_decided_at_ms dc \<and>
     dc_decided_at_ms dc \<le> rq_expires_at_ms r \<and> pr_id (dc_principal dc) \<noteq> pr_id (rq_requester r) \<and>
     bt_get (al_decisions l) (dc_request_id dc) = None)"
  by (auto simp: replay_body_def not_less split: option.splits)

lemma replay_wf: "replay cr ls = Inr l \<Longrightarrow> ledger_wf cr l"
proof (erule replay_induct)
  show "ledger_wf cr empty_ledger" by (simp add: ledger_wf_def empty_ledger_def)
next
  fix l and e :: ledger_entry
  assume wf: "ledger_wf cr l" and body: "replay_body cr l (le_body e) = Inr ()"
  show "ledger_wf cr (record_entry e l)"
  proof (cases "le_body e")
    case (Requested r)
    with wf body show ?thesis
      unfolding ledger_wf_def record_entry_def Requested ledger_body.case
      by (simp add: replay_body_Requested) (metis option.distinct(1))
  next
    case (Decided dc)
    with wf body show ?thesis
      unfolding ledger_wf_def record_entry_def Decided ledger_body.case
      by (auto simp: replay_body_Decided)
  qed
qed

section \<open>The directory\<close>

definition entries_of :: "approval_disk \<Rightarrow> ledger_entry list" where
  "entries_of d = (case dk_ledger d of Ledger_Lines ls \<Rightarrow> entries_in ls | _ \<Rightarrow> [])"

definition clock_of :: "approval_disk \<Rightarrow> nat" where
  "clock_of d = (case dk_clock d of Holds a \<Rightarrow> ca_max_seen_wall_ms a | _ \<Rightarrow> 0)"

text \<open>The ledger the entries of the directory replay to.\<close>

definition book :: "crypto \<Rightarrow> approval_disk \<Rightarrow> approval_error + approval_ledger" where
  "book cr d = replay cr (map Entry_Line (entries_of d))"

text \<open>The two frames: a call that changes nothing but the marks, and one that also observes the time.\<close>

definition same_files :: "approval_disk \<Rightarrow> approval_disk \<Rightarrow> bool" where
  "same_files d d' \<longleftrightarrow> dk_ledger d' = dk_ledger d \<and> dk_head d' = dk_head d \<and> dk_clock d' = dk_clock d \<and>
     dk_registry d' = dk_registry d"

definition quiet :: "approval_disk \<Rightarrow> approval_disk \<Rightarrow> bool" where
  "quiet d d' \<longleftrightarrow> entries_of d' = entries_of d \<and> clock_of d \<le> clock_of d'"

interpretation sf: step_preorder same_files
  by unfold_locales (auto simp: same_files_def)

interpretation qt: step_preorder quiet
  by unfold_locales (auto simp: quiet_def)

lemma same_files_quiet: "same_files d d' \<Longrightarrow> quiet d d'"
  by (simp add: same_files_def quiet_def entries_of_def clock_of_def)

lemma same_files_book: "same_files d d' \<Longrightarrow> book cr d' = book cr d"
  by (simp add: same_files_def book_def entries_of_def)

lemma related_quietI: "related same_files m \<Longrightarrow> related quiet m"
  by (simp add: related_def same_files_quiet)

lemma write_anchor_files [intro!]: "related same_files (write_anchor s digest)"
  by (simp add: related_def write_anchor_def write_file_def same_files_def)

lemma verify_anchor_files [intro!]: "related same_files (verify_anchor l heal)"
  unfolding verify_anchor_def by (intro sf.related_bind sf.related_case_option sf.related_if) auto

lemma load_inner_files: "related same_files (load_inner cr heal)"
proof -
  have "related same_files (case f of
       No_Ledger \<Rightarrow> seq_act (verify_anchor empty_ledger False) (return empty_ledger)
     | Ledger_Io_Error \<Rightarrow> refuse (Store ''ledger'')
     | Ledger_Not_Regular \<Rightarrow> refuse (Store ''not a regular file'')
     | Ledger_Not_Utf8 n \<Rightarrow> if MAX_LEDGER_BYTES < n then refuse (Store ''approval ledger exceeds 16777216 bytes'')
         else refuse (Store ''ledger is not UTF-8'')
     | Ledger_Lines ls \<Rightarrow>
        if MAX_LEDGER_BYTES < ledger_bytes cr ls then refuse (Store ''approval ledger exceeds 16777216 bytes'')
        else bind_act (require (replay cr ls)) (\<lambda>ledger.
          seq_act (verify_anchor ledger heal)
          (bind_act (observe id) (\<lambda>d.
           seq_act (require (verify_committed_head d ledger)) (return ledger)))))" for f
    by (cases f) auto
  then show ?thesis unfolding load_inner_def by (intro sf.related_bind) auto
qed

lemma begin_files: "related same_files (ledger_begin cr)"
  unfolding ledger_begin_def by (intro sf.related_bind sf.related_seq load_inner_files) auto

lemma load_files: "related same_files (ledger_load cr)"
  unfolding ledger_load_def by (rule load_inner_files)

text \<open>A load that succeeds has replayed the file.\<close>

definition file_replays :: "crypto \<Rightarrow> approval_disk \<Rightarrow> approval_ledger \<Rightarrow> bool" where
  "file_replays cr d l \<longleftrightarrow> (case dk_ledger d of
     No_Ledger \<Rightarrow> l = empty_ledger
   | Ledger_Lines ls \<Rightarrow> ledger_bytes cr ls \<le> MAX_LEDGER_BYTES \<and> replay cr ls = Inr l
   | _ \<Rightarrow> False)"

lemma load_inner_replays: "load_inner cr heal d = (d', Inr l) \<Longrightarrow> file_replays cr d l"
  by (auto simp: load_inner_def file_replays_def bind_act_eq_Inr seq_act_eq_Inr not_less split: ledger_file.splits if_splits)

lemma file_replays_book:
  assumes "file_replays cr d l"
  shows "book cr d = Inr l \<and> al_entries l = entries_of d"
  using assms replay_entries
  by (auto simp: file_replays_def book_def entries_of_def split: ledger_file.splits)
    (auto simp: replay_def empty_ledger_def)

lemma begin_ok:
  assumes "ledger_begin cr d = (d', Inr l)"
  shows "same_files d d' \<and> file_replays cr d l \<and> file_replays cr d' l"
proof -
  from assms have "load_inner cr True d = (d', Inr l)"
    by (auto simp: ledger_begin_def bind_act_eq_Inr seq_act_eq_Inr)
  from load_inner_replays [OF this] have fr: "file_replays cr d l" .
  moreover have "same_files d d'" using begin_files [of cr] assms unfolding related_def by (metis fst_conv)
  ultimately show ?thesis by (simp add: file_replays_def same_files_def)
qed

lemma load_ok:
  assumes "ledger_load cr d = (d', Inr l)"
  shows "same_files d d' \<and> file_replays cr d l"
  using assms load_inner_replays load_files unfolding ledger_load_def related_def by (metis fst_conv)

section \<open>Observing the time\<close>

lemma effective_now_ok:
  assumes "effective_now t d = (d', Inr now)"
  shows "now = clock_of d' \<and> now = max t (clock_of d) \<and> entries_of d' = entries_of d \<and> dk_ledger d' = dk_ledger d \<and>
    dk_head d' = dk_head d \<and> dk_anchor d' = dk_anchor d \<and> dk_registry d' = dk_registry d"
  using assms
  by (auto simp: effective_now_def observe_locked_def bind_act_eq_Inr seq_act_eq_Inr Let_def write_file_def
      clock_of_def entries_of_def max_def split: json_file.splits if_splits)

lemma effective_now_quiet: "related quiet (effective_now t)"
proof -
  have "quiet d (fst (effective_now t d))" for d
  proof (cases "effective_now t d")
    case (Pair d' r)
    show ?thesis
    proof (cases r)
      case (Inr now)
      with Pair effective_now_ok show ?thesis by (fastforce simp: quiet_def)
    next
      case (Inl e)
      with Pair have "d' = d"
        by (auto simp: effective_now_def observe_locked_def bind_act_def seq_act_def Let_def write_file_def
            split: json_file.splits if_splits)
      with Pair qt.refl show ?thesis by simp
    qed
  qed
  then show ?thesis by (simp add: related_def)
qed

section \<open>Appending\<close>

lemma append_check_None:
  assumes "append_check cr l body now = Inr None"
  shows "replay_body cr l body = Inr () \<and> now \<noteq> 0 \<and>
    (\<forall>r. body = Requested r \<longrightarrow> rq_created_at_ms r = now \<and> length (open_requests l now) < MAX_OPEN_APPROVALS)"
  using assms
  by (auto simp: append_check_def append_request_check_def append_decision_check_def replay_body_Requested
      replay_body_Decided not_less not_le split: ledger_body.splits option.splits if_splits)

lemma next_entry_ok:
  assumes "next_entry cr l body now = Inr e"
  shows "le_body e = body \<and> le_seq e = length (al_entries l) + 1 \<and> le_recorded_at_ms e = now"
  using assms by (auto simp: next_entry_def)

lemma append_replays:
  assumes "replay cr ls = Inr l" and "append_check cr l body now = Inr None" and "next_entry cr l body now = Inr e"
  shows "replay cr (ls @ [Entry_Line e]) = Inr (record_entry e l)"
  using assms append_check_None [OF assms(2)] unfolding replay_snoc [OF assms(1)]
  by (auto simp: next_entry_def)

lemma add_line_simps [simp]:
  "dk_clock (add_line line d) = dk_clock d" "dk_registry (add_line line d) = dk_registry d"
  "dk_head (add_line line d) = dk_head d" "dk_anchor (add_line line d) = dk_anchor d"
  "dk_writes (add_line line d) = dk_writes d"
  by (simp_all add: add_line_def)

lemma entries_of_add_line:
  "entries_of (add_line (Bad_Line n) d) = entries_of d"
  "dk_ledger d = No_Ledger \<or> dk_ledger d = Ledger_Lines ls \<Longrightarrow> entries_of (add_line (Entry_Line e) d) = entries_of d @ [e]"
  by (auto simp: add_line_def entries_of_def split: ledger_file.splits)

lemma write_head_files: "related (\<lambda>d d'. dk_ledger d' = dk_ledger d \<and> dk_clock d' = dk_clock d \<and> dk_registry d' = dk_registry d)
   (write_committed_head s digest)"
  by (auto simp: related_def write_committed_head_def write_anchor_def write_file_def seq_act_def bind_act_def)

lemma append_effect:
  assumes "ledger_append cr l body now d = (d', r)" and "file_replays cr d l"
  shows "clock_of d' = clock_of d \<and>
    (entries_of d' = entries_of d \<or>
     (\<exists>e. append_check cr l body now = Inr None \<and> next_entry cr l body now = Inr e \<and> entries_of d' = entries_of d @ [e]))"
proof (cases "append_check cr l body now")
  case (Inl e)
  with assms show ?thesis by (auto simp: ledger_append_def bind_act_def)
next
  case (Inr recorded)
  show ?thesis
  proof (cases recorded)
    case (Some e)
    with Inr assms show ?thesis by (auto simp: ledger_append_def bind_act_def)
  next
    case None
    show ?thesis
    proof (cases "next_entry cr l body now")
      case (Inl e)
      with None Inr assms show ?thesis by (auto simp: ledger_append_def bind_act_def)
    next
      case e: (Inr e)
      have lines: "dk_ledger d = No_Ledger \<or> (\<exists>ls. dk_ledger d = Ledger_Lines ls)"
        using assms(2) by (auto simp: file_replays_def split: ledger_file.splits)
      consider "cr_entry_bytes cr e = None" | "cr_entry_bytes cr e \<noteq> None" "dk_writes d = 0"
        | "cr_entry_bytes cr e \<noteq> None" "dk_writes d \<noteq> 0" by blast
      then show ?thesis
      proof cases
        case 1
        with assms(1) None Inr e show ?thesis by (auto simp: ledger_append_def bind_act_def seq_act_def)
      next
        case 2
        with assms(1) None Inr e have "d' = (if dk_torn d then add_line (Bad_Line 1) d else d)"
          by (auto simp: ledger_append_def bind_act_def seq_act_def append_line_def split: if_splits)
        then show ?thesis by (auto simp: entries_of_add_line clock_of_def)
      next
        case 3
        let ?d1 = "add_line (Entry_Line e) (d\<lparr>dk_writes := dk_writes d - 1\<rparr>)"
        from 3 assms(1) None Inr e have "d' = fst (write_committed_head (le_seq e) (le_digest e) ?d1)"
          by (auto simp: ledger_append_def bind_act_def seq_act_def append_line_def split: prod.splits sum.splits)
        with write_head_files [of "le_seq e" "le_digest e"]
        have fr: "dk_ledger d' = dk_ledger ?d1" "dk_clock d' = dk_clock ?d1" by (auto simp: related_def)
        have "entries_of ?d1 = entries_of d @ [e]"
          using lines entries_of_add_line(2) [of "d\<lparr>dk_writes := dk_writes d - 1\<rparr>" _ e] by (auto simp: entries_of_def)
        with fr Inr None e show ?thesis by (auto simp: entries_of_def clock_of_def)
      qed
    qed
  qed
qed

text \<open>What one call may do to the book.\<close>

definition may_append :: "crypto \<Rightarrow> approval_disk \<Rightarrow> approval_disk \<Rightarrow> bool" where
  "may_append cr d d' \<longleftrightarrow> clock_of d \<le> clock_of d' \<and>
     (entries_of d' = entries_of d \<or>
      (\<exists>l body e. book cr d = Inr l \<and> append_check cr l body (clock_of d') = Inr None \<and>
        next_entry cr l body (clock_of d') = Inr e \<and> entries_of d' = entries_of d @ [e]))"

lemma quiet_may_append: "quiet d d' \<Longrightarrow> may_append cr d d'"
  by (simp add: quiet_def may_append_def)

lemma append_may_append:
  assumes "quiet d0 d" and "file_replays cr d l" and "now = clock_of d" and "ledger_append cr l body now d = (d', r)"
  shows "may_append cr d0 d'"
  using append_effect [OF assms(4,2)] assms(1,3) file_replays_book [OF assms(2)]
  unfolding may_append_def quiet_def book_def by auto

end
