(* ===== verification/Approval_Runs.thy ===== *)
theory Approval_Runs
  imports Approval_Ledger
begin

text \<open>
  The authority as a system: the calls, each run in an environment that may refuse its writes, and the
  directories that sequences of calls lead to. Every call keeps the ledger replayable and adds at most one
  entry that its checks admit; the book of requests and decisions the ledger stands for is an abstract machine
  with two moves, and every call of the authority is one of its moves or none.
\<close>

section \<open>Calls\<close>

datatype approval_call =
    Call_Propose approval_draft nat
  | Call_Decide string principal seed decision_outcome string nat
  | Call_Authorize approval_check nat nat
  | Call_Authorize_Request string approval_check nat nat
  | Call_Latest_Request approval_kind string
  | Call_Latest_Authorized approval_kind string nat nat
  | Call_View string
  | Call_Status string nat
  | Call_List
  | Call_Audit "string option"
  | Call_Key_Ids
  | Call_Register string seed nat

fun run_call :: "crypto \<Rightarrow> approval_call \<Rightarrow> approval_disk \<Rightarrow> approval_disk" where
  "run_call cr (Call_Propose dr t) d = fst (propose cr dr t d)"
| "run_call cr (Call_Decide i p key oc rationale t) d = fst (decide cr i p key oc rationale t d)"
| "run_call cr (Call_Authorize ck t inst) d = fst (authorize cr ck t inst d)"
| "run_call cr (Call_Authorize_Request i ck t inst) d = fst (authorize_request cr i ck t inst d)"
| "run_call cr (Call_Latest_Request kind subject) d = fst (latest_request cr kind subject d)"
| "run_call cr (Call_Latest_Authorized kind subject t inst) d = fst (latest_authorized cr kind subject t inst d)"
| "run_call cr (Call_View i) d = fst (approval_view_of cr i d)"
| "run_call cr (Call_Status i t) d = fst (approval_status cr i t d)"
| "run_call cr Call_List d = fst (approval_list cr d)"
| "run_call cr (Call_Audit i) d = fst (approval_audit cr i d)"
| "run_call cr Call_Key_Ids d = fst (operator_key_ids cr d)"
| "run_call cr (Call_Register i key t) d = fst (register_operator_key cr i key t d)"

definition in_environment :: "nat \<Rightarrow> bool \<Rightarrow> bool \<Rightarrow> approval_disk \<Rightarrow> approval_disk" where
  "in_environment writes torn busy d = d\<lparr>dk_writes := writes, dk_torn := torn, dk_busy := busy\<rparr>"

inductive approval_step :: "crypto \<Rightarrow> approval_disk \<Rightarrow> approval_disk \<Rightarrow> bool" for cr where
  call: "approval_step cr d (run_call cr c (in_environment writes torn busy d))"

definition approval_reach :: "crypto \<Rightarrow> approval_disk \<Rightarrow> approval_disk \<Rightarrow> bool" where
  "approval_reach cr = (approval_step cr)\<^sup>*\<^sup>*"

definition empty_disk :: approval_disk where
  "empty_disk = \<lparr>dk_ledger = No_Ledger, dk_head = Absent, dk_anchor = Absent, dk_clock = Absent,
     dk_registry = Absent, dk_writes = 0, dk_torn = False, dk_busy = False\<rparr>"

inductive_cases approval_stepE: "approval_step cr d d'"

section \<open>One call\<close>

lemma in_environment_quiet: "quiet d (in_environment writes torn busy d)"
  by (simp add: in_environment_def quiet_def entries_of_def clock_of_def)

lemma in_environment_may: "may_append cr (in_environment writes torn busy d) d' = may_append cr d d'"
  by (simp add: in_environment_def may_append_def entries_of_def clock_of_def book_def)

lemmas quiet_parts = effective_now_quiet load_files [THEN related_quietI] begin_files [THEN related_quietI]

lemma evaluate_quiet: "related quiet (evaluate cr r l now inst)"
  unfolding evaluate_def by (intro qt.related_bind) (auto simp: split_beta)

lemma authorize_quiet: "related quiet (authorize cr ck t inst)"
  unfolding authorize_def Let_def
  by (intro qt.related_bind qt.related_if qt.related_case_option quiet_parts evaluate_quiet) auto

lemma authorize_request_quiet: "related quiet (authorize_request cr i ck t inst)"
  unfolding authorize_request_def
  by (intro qt.related_bind qt.related_if quiet_parts evaluate_quiet) auto

lemma latest_request_quiet: "related quiet (latest_request cr kind subject)"
  unfolding latest_request_def by (intro qt.related_bind quiet_parts) auto

lemma latest_authorized_quiet: "related quiet (latest_authorized cr kind subject t inst)"
  unfolding latest_authorized_def by (intro qt.related_bind quiet_parts) (auto simp: split_beta)

lemma view_quiet: "related quiet (approval_view_of cr i)"
  unfolding approval_view_of_def split_beta
  by (intro qt.related_bind qt.related_case_option qt.related_seq quiet_parts) auto

lemma status_quiet: "related quiet (approval_status cr i t)"
  unfolding approval_status_def by (intro qt.related_bind view_quiet quiet_parts) auto

lemma list_quiet: "related quiet (approval_list cr)"
  unfolding approval_list_def split_beta by (intro qt.related_bind quiet_parts) auto

lemma audit_quiet: "related quiet (approval_audit cr i)"
  unfolding approval_audit_def by (intro qt.related_bind quiet_parts) auto

lemma key_ids_quiet: "related quiet (operator_key_ids cr)"
  unfolding operator_key_ids_def by (intro qt.related_bind) auto

lemma write_registry_quiet: "related quiet (write_file (\<lambda>d. d\<lparr>dk_registry := x\<rparr>) e)"
  by (simp add: related_def write_file_def quiet_def entries_of_def clock_of_def)

lemma register_quiet: "related quiet (register_operator_key cr i key t)"
  unfolding register_operator_key_def Let_def
  by (intro qt.related_bind qt.related_seq qt.related_case_option qt.related_if write_registry_quiet) auto

lemmas quiet_calls =
  authorize_quiet authorize_request_quiet latest_request_quiet latest_authorized_quiet view_quiet status_quiet
  list_quiet audit_quiet key_ids_quiet register_quiet

lemma quiet_step: "related quiet m \<Longrightarrow> may_append cr d (fst (m d))"
  by (simp add: related_def quiet_may_append)

text \<open>
  Where a call that started in \<open>d0\<close> ends when the action runs from \<open>d\<close>: it has appended what it may, or
  nothing.
\<close>

definition lands :: "crypto \<Rightarrow> approval_disk \<Rightarrow> (approval_disk, approval_error, 'a) action \<Rightarrow> approval_disk \<Rightarrow> bool" where
  "lands cr d0 m d \<longleftrightarrow> may_append cr d0 (fst (m d))"

lemma quiet_related: "related quiet m \<Longrightarrow> m s = (t, r) \<Longrightarrow> quiet s t"
  unfolding related_def by (metis fst_conv)

lemma lands_quiet: "quiet d0 d \<Longrightarrow> related quiet m \<Longrightarrow> lands cr d0 m d"
  unfolding lands_def related_def by (blast intro: quiet_may_append qt.trans)

lemma lands_bind:
  assumes "quiet d0 d" and "related quiet m" and "\<And>v d'. m d = (d', Inr v) \<Longrightarrow> quiet d0 d' \<Longrightarrow> lands cr d0 (f v) d'"
  shows "lands cr d0 (bind_act m f) d"
proof (cases "m d")
  case (Pair d' r)
  have q: "quiet d0 d'" using assms(1) quiet_related [OF assms(2) Pair] by (rule qt.trans)
  show ?thesis
  proof (cases r)
    case (Inl e)
    with Pair q show ?thesis by (simp add: lands_def bind_act_def quiet_may_append)
  next
    case (Inr v)
    with Pair assms(3) q show ?thesis by (simp add: lands_def bind_act_def)
  qed
qed

lemma lands_seq:
  assumes "quiet d0 d" and "related quiet m" and "\<And>d'. m d = (d', Inr ()) \<Longrightarrow> quiet d0 d' \<Longrightarrow> lands cr d0 k d'"
  shows "lands cr d0 (seq_act m k) d"
  unfolding seq_act_def by (rule lands_bind [OF assms(1,2)]) (use assms(3) in simp)

lemma lands_tail:
  assumes "lands cr d0 m d"
  shows "lands cr d0 (seq_act (bind_act m (\<lambda>_. return ())) (return v)) d"
proof (cases "m d")
  case (Pair d' r)
  with assms show ?thesis by (cases r) (simp_all add: lands_def seq_act_def bind_act_def)
qed

lemma begin_time:
  assumes "effective_now t d = (d1, Inr now)" and "ledger_begin cr d1 = (d2, Inr l)"
  shows "file_replays cr d2 l \<and> now = clock_of d2"
  using begin_ok [OF assms(2)] effective_now_ok [OF assms(1)] by (simp add: clock_of_def same_files_def)

lemma lands_append:
  "quiet d0 d \<Longrightarrow> file_replays cr d l \<Longrightarrow> now = clock_of d \<Longrightarrow> lands cr d0 (ledger_append cr l body now) d"
  unfolding lands_def using append_may_append by (metis prod.collapse)

lemmas quiet_atoms = qt.related_require qt.related_some_or qt.related_reject_if qt.related_observe qt.related_return
  qt.related_refuse

lemma propose_may_append: "may_append cr d (fst (propose cr dr t d))"
proof -
  have "lands cr d (propose cr dr t) d"
    unfolding propose_def
  proof (rule lands_bind [OF qt.refl effective_now_quiet], rule lands_bind [OF _ qt.related_require],
      assumption, rule lands_bind [OF _ begin_files [THEN related_quietI]], assumption)
    fix now d1 r d1' l d2
    assume run: "effective_now t d = (d1, Inr now)" "require (request_propose cr dr now) d1 = (d1', Inr r)"
      "ledger_begin cr d1' = (d2, Inr l)" and q: "quiet d d2"
    from run have "effective_now t d = (d1', Inr now)" "ledger_begin cr d1' = (d2, Inr l)" by simp_all
    from begin_time [OF this] have "file_replays cr d2 l \<and> now = clock_of d2" .
    with q show "lands cr d (case bt_get (al_requests l) (rq_id r) of
        Some existing \<Rightarrow> if existing = r then return existing
          else refuse (Conflict ''request id already records different content'')
      | None \<Rightarrow> seq_act (bind_act (ledger_append cr l (Requested r) now) (\<lambda>_. return ())) (return r)) d2"
      by (auto split: option.split intro!: lands_tail lands_append intro: lands_quiet quiet_atoms)
  qed
  then show ?thesis by (simp add: lands_def)
qed

lemma decide_may_append: "may_append cr d (fst (decide cr i p key oc rationale t d))"
proof -
  have "lands cr d (decide cr i p key oc rationale t) d"
    unfolding decide_def
  proof (rule lands_seq [OF qt.refl qt.related_require], rule lands_bind [OF _ effective_now_quiet], assumption,
      rule lands_seq [OF _ qt.related_reject_if], assumption,
      rule lands_bind [OF _ begin_files [THEN related_quietI]], assumption,
      rule lands_bind [OF _ qt.related_some_or], assumption, rule lands_seq [OF _ qt.related_reject_if], assumption,
      rule lands_bind [OF _ qt.related_observe], assumption, rule lands_seq [OF _ qt.related_require], assumption)
    fix da now db dc l dd r de df reg dg dh
    assume run: "effective_now t da = (db, Inr now)" "reject_if (pr_kind p \<noteq> HumanOperator) (AgentApproval (pr_id p)) db = (dc, Inr ())"
      "ledger_begin cr dc = (dd, Inr l)" "some_or (NotFound i) (bt_get (al_requests l) i) dd = (de, Inr r)"
      "reject_if (pr_id (rq_requester r) = pr_id p) (SelfApproval (pr_id p)) de = (df, Inr ())"
      "observe (\<lambda>d. key_registered_for cr d (pr_id p) key) df = (dg, Inr reg)" "require reg dg = (dh, Inr ())"
      and q: "quiet d dh"
    from run have "effective_now t da = (dc, Inr now)" "ledger_begin cr dc = (dh, Inr l)" by auto
    from begin_time [OF this] have "file_replays cr dh l \<and> now = clock_of dh" .
    with q show "lands cr d (case bt_get (al_decisions l) i of
        Some existing \<Rightarrow>
          if dc_outcome existing = oc \<and> dc_principal existing = p \<and> dc_rationale existing = rationale
          then return existing
          else refuse (Conflict ''approval request is already decided'')
      | None \<Rightarrow>
          seq_act (reject_if (rq_expires_at_ms r < now) (Expired (rq_id r) (rq_expires_at_ms r)))
          (bind_act (require (decision_issue cr r oc p rationale now key)) (\<lambda>dc.
           seq_act (bind_act (ledger_append cr l (Decided dc) now) (\<lambda>_. return ())) (return dc)))) dh"
      by (auto split: option.split intro!: lands_tail lands_append lands_seq [OF _ qt.related_reject_if]
          lands_bind [OF _ qt.related_require] intro: lands_quiet quiet_atoms)
  qed
  then show ?thesis by (simp add: lands_def)
qed

theorem call_may_append: "approval_step cr d d' \<Longrightarrow> may_append cr d d'"
proof (erule approval_stepE)
  fix c writes torn busy
  assume "d' = run_call cr c (in_environment writes torn busy d)"
  moreover have "may_append cr (in_environment writes torn busy d) (run_call cr c (in_environment writes torn busy d))"
    by (cases c) (simp_all add: propose_may_append decide_may_append quiet_step quiet_calls)
  ultimately show "may_append cr d d'" by (simp add: in_environment_may)
qed

end
