(* ===== verification/Approval_Book.thy ===== *)
theory Approval_Book
  imports Approval_Runs
begin

text \<open>
  What the approval authority promises, without files: a book of requests and decisions and the latest
  observed time. A request is entered once, while fewer than the limit are open; a decision is entered once, by a
  human other than the requester, inside the lifetime of its request. Every call of the authority on its
  directory is a step of the book.
\<close>

section \<open>The abstract book\<close>

record approval_book =
  bk_requests :: "string \<rightharpoonup> approval_request"
  bk_decisions :: "string \<rightharpoonup> approval_decision"
  bk_time :: nat

definition bk_open :: "approval_book \<Rightarrow> nat \<Rightarrow> string set" where
  "bk_open b now = {i. \<exists>r. bk_requests b i = Some r \<and> bk_decisions b i = None \<and> now \<le> rq_expires_at_ms r}"

definition empty_book :: approval_book where
  "empty_book = \<lparr>bk_requests = Map.empty, bk_decisions = Map.empty, bk_time = 0\<rparr>"

inductive book_step :: "crypto \<Rightarrow> approval_book \<Rightarrow> approval_book \<Rightarrow> bool" for cr where
  tick: "bk_time b \<le> now \<Longrightarrow> book_step cr b (b\<lparr>bk_time := now\<rparr>)"
| request: "bk_time b \<le> now \<Longrightarrow> request_validate cr r = Inr () \<Longrightarrow> rq_created_at_ms r = now \<Longrightarrow>
    bk_requests b (rq_id r) = None \<Longrightarrow> card (bk_open b now) < MAX_OPEN_APPROVALS \<Longrightarrow>
    book_step cr b (b\<lparr>bk_time := now, bk_requests := (bk_requests b)(rq_id r \<mapsto> r)\<rparr>)"
| decision: "bk_time b \<le> now \<Longrightarrow> bk_requests b (dc_request_id dc) = Some r \<Longrightarrow> bk_decisions b (dc_request_id dc) = None \<Longrightarrow>
    decision_validate cr dc = Inr () \<Longrightarrow> request_digest cr r = Inr (dc_request_digest dc) \<Longrightarrow>
    rq_created_at_ms r \<le> dc_decided_at_ms dc \<Longrightarrow> dc_decided_at_ms dc \<le> rq_expires_at_ms r \<Longrightarrow>
    pr_id (dc_principal dc) \<noteq> pr_id (rq_requester r) \<Longrightarrow>
    book_step cr b (b\<lparr>bk_time := now, bk_decisions := (bk_decisions b)(dc_request_id dc \<mapsto> dc)\<rparr>)"

definition book_reach :: "crypto \<Rightarrow> approval_book \<Rightarrow> approval_book \<Rightarrow> bool" where
  "book_reach cr = (book_step cr)\<^sup>*\<^sup>*"

section \<open>The directory stands for a book\<close>

definition abs_book :: "approval_ledger \<Rightarrow> nat \<Rightarrow> approval_book" where
  "abs_book l now = \<lparr>bk_requests = bt_get (al_requests l), bk_decisions = bt_get (al_decisions l), bk_time = now\<rparr>"

lemma bt_get_set: "bt_ok m \<Longrightarrow> bt_get m k = Some v \<longleftrightarrow> (k, v) \<in> set m"
  by (simp add: bt_get_def map_of_eq_Some_iff bt_ok_distinct)

lemma open_requests_card:
  assumes "ledger_wf cr l"
  shows "length (open_requests l now) = card (bk_open (abs_book l t) now)"
proof -
  let ?P = "\<lambda>r. bt_get (al_decisions l) (rq_id r) = None \<and> now \<le> rq_expires_at_ms r"
  have ok: "bt_ok (al_requests l)" using assms by (simp add: ledger_wf_def)
  have key: "rq_id r = i" if "bt_get (al_requests l) i = Some r" for i r
    using assms that unfolding ledger_wf_def by blast
  have "rq_id (snd x) = fst x" if "x \<in> set (al_requests l)" for x
    using that by (intro key) (simp add: bt_get_set [OF ok])
  then have ids: "map rq_id (bt_values (al_requests l)) = map fst (al_requests l)"
    by (simp add: bt_values_def)
  then have "distinct (map rq_id (bt_values (al_requests l)))" using bt_ok_distinct [OF ok] by simp
  then have dist: "distinct (map rq_id (open_requests l now))"
    unfolding open_requests_def by (rule distinct_map_filter)
  have "bk_open (abs_book l t) now = rq_id ` set (open_requests l now)"
  proof (rule set_eqI)
    fix i
    have "i \<in> rq_id ` set (open_requests l now) \<longleftrightarrow> (\<exists>k r. bt_get (al_requests l) k = Some r \<and> ?P r \<and> i = rq_id r)"
      unfolding open_requests_def using bt_values_iff [OF ok] by auto
    also have "\<dots> \<longleftrightarrow> (\<exists>r. bt_get (al_requests l) i = Some r \<and> bt_get (al_decisions l) i = None \<and> now \<le> rq_expires_at_ms r)"
    proof
      assume "\<exists>k r. bt_get (al_requests l) k = Some r \<and> ?P r \<and> i = rq_id r"
      then obtain k r where "bt_get (al_requests l) k = Some r" "?P r" "i = rq_id r" by blast
      moreover from key [OF this(1)] this(3) have "k = i" by simp
      ultimately show "\<exists>r. bt_get (al_requests l) i = Some r \<and> bt_get (al_decisions l) i = None \<and> now \<le> rq_expires_at_ms r"
        by blast
    next
      assume "\<exists>r. bt_get (al_requests l) i = Some r \<and> bt_get (al_decisions l) i = None \<and> now \<le> rq_expires_at_ms r"
      then obtain r where r: "bt_get (al_requests l) i = Some r" "bt_get (al_decisions l) i = None" "now \<le> rq_expires_at_ms r"
        by blast
      with key [OF r(1)] show "\<exists>k r. bt_get (al_requests l) k = Some r \<and> ?P r \<and> i = rq_id r"
        by (intro exI [of _ i] exI [of _ r]) simp
    qed
    finally show "i \<in> bk_open (abs_book l t) now \<longleftrightarrow> i \<in> rq_id ` set (open_requests l now)"
      by (simp add: bk_open_def abs_book_def)
  qed
  with dist show ?thesis by (metis distinct_card length_map list.set_map)
qed

lemma append_refines:
  assumes "replay cr ls = Inr l" and "append_check cr l body now = Inr None" and "next_entry cr l body now = Inr e"
    and "t \<le> now"
  shows "book_step cr (abs_book l t) (abs_book (record_entry e l) now)"
proof (cases body)
  case (Requested r)
  from append_check_None [OF assms(2)] Requested
  have r: "request_validate cr r = Inr ()" "bt_get (al_requests l) (rq_id r) = None" "rq_created_at_ms r = now"
    "length (open_requests l now) < MAX_OPEN_APPROVALS"
    by (auto simp: replay_body_Requested)
  have "book_step cr (abs_book l t)
      ((abs_book l t)\<lparr>bk_time := now, bk_requests := (bk_requests (abs_book l t))(rq_id r \<mapsto> r)\<rparr>)"
    using r assms(4) open_requests_card [OF replay_wf [OF assms(1)], of now t]
    by (intro book_step.request) (simp_all add: abs_book_def)
  moreover have "abs_book (record_entry e l) now =
      (abs_book l t)\<lparr>bk_time := now, bk_requests := (bk_requests (abs_book l t))(rq_id r \<mapsto> r)\<rparr>"
    using next_entry_ok [OF assms(3)] Requested by (auto simp: abs_book_def record_entry_def)
  ultimately show ?thesis by simp
next
  case (Decided dc)
  from append_check_None [OF assms(2)] Decided
  obtain r where r: "bt_get (al_requests l) (dc_request_id dc) = Some r" "decision_validate cr dc = Inr ()"
     "request_digest cr r = Inr (dc_request_digest dc)" "rq_created_at_ms r \<le> dc_decided_at_ms dc"
     "dc_decided_at_ms dc \<le> rq_expires_at_ms r" "pr_id (dc_principal dc) \<noteq> pr_id (rq_requester r)"
     "bt_get (al_decisions l) (dc_request_id dc) = None"
    by (auto simp: replay_body_Decided)
  have "book_step cr (abs_book l t)
      ((abs_book l t)\<lparr>bk_time := now, bk_decisions := (bk_decisions (abs_book l t))(dc_request_id dc \<mapsto> dc)\<rparr>)"
    using r assms(4) by (intro book_step.decision [where r = r]) (simp_all add: abs_book_def)
  moreover have "abs_book (record_entry e l) now =
      (abs_book l t)\<lparr>bk_time := now, bk_decisions := (bk_decisions (abs_book l t))(dc_request_id dc \<mapsto> dc)\<rparr>"
    using next_entry_ok [OF assms(3)] Decided by (auto simp: abs_book_def record_entry_def)
  ultimately show ?thesis by simp
qed

lemma step_book:
  assumes "may_append cr d d'" and "book cr d = Inr l"
  shows "\<exists>l'. book cr d' = Inr l' \<and> ledger_le l l' \<and> book_step cr (abs_book l (clock_of d)) (abs_book l' (clock_of d'))"
proof -
  have replay: "replay cr (map Entry_Line (entries_of d)) = Inr l" using assms(2) by (simp add: book_def)
  from assms(1) consider "entries_of d' = entries_of d" "clock_of d \<le> clock_of d'"
    | body e where "append_check cr l body (clock_of d') = Inr None" "next_entry cr l body (clock_of d') = Inr e"
        "entries_of d' = entries_of d @ [e]" "clock_of d \<le> clock_of d'"
    unfolding may_append_def using assms(2) by auto
  then show ?thesis
  proof cases
    case 1
    have "book_step cr (abs_book l (clock_of d)) ((abs_book l (clock_of d))\<lparr>bk_time := clock_of d'\<rparr>)"
      by (rule book_step.tick) (simp add: abs_book_def 1)
    then show ?thesis using 1 assms(2) by (simp add: abs_book_def book_def)
  next
    case (2 body e)
    have "book cr d' = Inr (record_entry e l)"
      using append_replays [OF replay 2(1,2)] 2(3) by (simp add: book_def)
    moreover have "ledger_le l (record_entry e l)"
      using append_check_None [OF 2(1)] next_entry_ok [OF 2(2)] by (intro ledger_le_record [of cr]) simp
    ultimately show ?thesis using append_refines [OF replay 2(1,2,4)] by blast
  qed
qed

lemma reach_book:
  assumes "approval_reach cr d d'" and "book cr d = Inr l"
  shows "\<exists>l'. book cr d' = Inr l' \<and> ledger_le l l' \<and> book_reach cr (abs_book l (clock_of d)) (abs_book l' (clock_of d'))"
  using assms(1) unfolding approval_reach_def
proof (induction rule: rtranclp_induct)
  case base
  with assms(2) show ?case by (simp add: book_reach_def)
next
  case (step d1 d2)
  then obtain l1 where l1: "book cr d1 = Inr l1" "ledger_le l l1"
    "book_reach cr (abs_book l (clock_of d)) (abs_book l1 (clock_of d1))" by blast
  from step_book [OF call_may_append [OF step.hyps(2)] l1(1)] l1(2,3) show ?case
    unfolding book_reach_def by (meson ledger_le_trans rtranclp.rtrancl_into_rtrancl)
qed

lemma book_empty_disk [simp]: "book cr empty_disk = Inr empty_ledger" "clock_of empty_disk = 0"
  by (simp_all add: book_def empty_disk_def entries_of_def replay_def clock_of_def)

lemma abs_empty [simp]: "abs_book empty_ledger 0 = empty_book"
  by (simp add: abs_book_def empty_ledger_def empty_book_def fun_eq_iff)

section \<open>The number of open requests\<close>

lemma bk_open_finite: "finite (dom (bk_requests b)) \<Longrightarrow> finite (bk_open b now)"
  by (rule finite_subset [of _ "dom (bk_requests b)"]) (auto simp: bk_open_def)

lemma bk_open_mono: "t \<le> now \<Longrightarrow> bk_open b now \<subseteq> bk_open b t"
  by (auto simp: bk_open_def)

definition book_bounded :: "approval_book \<Rightarrow> bool" where
  "book_bounded b \<longleftrightarrow> finite (dom (bk_requests b)) \<and> (\<forall>now \<ge> bk_time b. card (bk_open b now) \<le> MAX_OPEN_APPROVALS)"

lemma book_step_bounded: "book_step cr b b' \<Longrightarrow> book_bounded b \<Longrightarrow> book_bounded b'"
proof (induction rule: book_step.induct)
  case (tick b now)
  then show ?case by (auto simp: book_bounded_def bk_open_def)
next
  case (request b now r)
  let ?b = "b\<lparr>bk_time := now, bk_requests := (bk_requests b)(rq_id r \<mapsto> r)\<rparr>"
  have fin: "finite (dom (bk_requests b))" using request.prems by (simp add: book_bounded_def)
  have "card (bk_open ?b t) \<le> MAX_OPEN_APPROVALS" if "now \<le> t" for t
  proof -
    have "bk_open ?b t \<subseteq> insert (rq_id r) (bk_open b t)" by (auto simp: bk_open_def)
    also have "\<dots> \<subseteq> insert (rq_id r) (bk_open b now)" using bk_open_mono [OF that] by blast
    finally have "card (bk_open ?b t) \<le> card (insert (rq_id r) (bk_open b now))"
      by (rule card_mono [rotated]) (simp add: bk_open_finite fin)
    also have "\<dots> \<le> Suc (card (bk_open b now))" by (rule card_insert_le_m1) simp_all
    finally show ?thesis using request.hyps(5) by simp
  qed
  with fin show ?case by (simp add: book_bounded_def)
next
  case (decision b now dc r)
  let ?b = "b\<lparr>bk_time := now, bk_decisions := (bk_decisions b)(dc_request_id dc \<mapsto> dc)\<rparr>"
  have fin: "finite (dom (bk_requests b))" using decision.prems by (simp add: book_bounded_def)
  have "card (bk_open ?b t) \<le> MAX_OPEN_APPROVALS" if "now \<le> t" for t
  proof -
    have "bk_open ?b t \<subseteq> bk_open b t" by (auto simp: bk_open_def split: if_splits)
    then have "card (bk_open ?b t) \<le> card (bk_open b t)" by (rule card_mono [OF bk_open_finite [OF fin]])
    also have "\<dots> \<le> MAX_OPEN_APPROVALS"
      using decision.prems decision.hyps(1) that by (simp add: book_bounded_def)
    finally show ?thesis .
  qed
  with fin show ?case by (simp add: book_bounded_def)
qed

lemma book_reach_bounded: "book_reach cr b b' \<Longrightarrow> book_bounded b \<Longrightarrow> book_bounded b'"
  unfolding book_reach_def by (induction rule: rtranclp_induct) (auto intro: book_step_bounded)

lemma empty_book_bounded: "book_bounded empty_book"
  by (simp add: book_bounded_def empty_book_def bk_open_def)

end
