(* ===== verification/Approval_Trust.thy ===== *)
theory Approval_Trust
  imports Approval_Book
begin

text \<open>
  What a token rests on, and what the anchor says about the ledger: the conditions under which a request is
  authorized, the chain of digests, and the agreement of two ledgers that match the same anchor.
\<close>

section \<open>Authorization\<close>

text \<open>A decision a human operator other than the requester signed in time with a registered key.\<close>

definition signature_holds :: "crypto \<Rightarrow> approval_decision \<Rightarrow> bool" where
  "signature_holds cr dc \<longleftrightarrow>
     (\<exists>pk sig digest. parse_hex 32 (sg_public_key (dc_signature dc)) = Inr pk \<and> cr_is_public_key cr pk \<and>
       parse_hex 64 (sg_signature (dc_signature dc)) = Inr sig \<and> statement_digest cr dc = Inr digest \<and>
       cr_verify cr pk (signing_message digest) sig)"

definition rightful :: "crypto \<Rightarrow> registered_operator list \<Rightarrow> approval_request \<Rightarrow> approval_decision \<Rightarrow> bool" where
  "rightful cr operators r dc \<longleftrightarrow>
     pr_kind (dc_principal dc) = HumanOperator \<and> pr_id (dc_principal dc) \<noteq> pr_id (rq_requester r) \<and>
     rq_created_at_ms r \<le> dc_decided_at_ms dc \<and> dc_decided_at_ms dc \<le> rq_expires_at_ms r \<and>
     decision_validate cr dc = Inr () \<and> signature_holds cr dc \<and>
     registered_as operators (pr_id (dc_principal dc)) (sg_key_id (dc_signature dc)) (sg_public_key (dc_signature dc))"

lemma registered_trusted: "registered_as operators p k pk \<Longrightarrow> k \<in> set (map op_key_id operators)"
  by (auto simp: registered_as_def list_ex_iff)

lemma verify_decision_iff:
  "verify_decision_with cr r dc (map op_key_id operators) operators = Inr () \<longleftrightarrow> rightful cr operators r dc"
  using registered_trusted [of operators "pr_id (dc_principal dc)" "sg_key_id (dc_signature dc)" "sg_public_key (dc_signature dc)"]
  by (auto simp: verify_decision_with_def decision_verify_def rightful_def signature_holds_def not_less)

lemma token_from_verified_ok:
  assumes "rq_id r = dc_request_id dc" and "request_digest cr r = Inr (dc_request_digest dc)"
  shows "token_from_verified cr r dc now inst = Inr
    \<lparr>tk_kind = rq_kind r, tk_subject = rq_subject r, tk_bound_revision = rq_bound_revision r,
     tk_bound_digest = rq_bound_digest r, tk_request_id = rq_id r,
     tk_decision_key_id = sg_key_id (dc_signature dc), tk_decided_at_ms = dc_decided_at_ms dc,
     tk_expires_at_ms = rq_expires_at_ms r,
     tk_deadline = inst + min (rq_expires_at_ms r - now) MAX_REQUEST_LIFETIME_MS\<rparr>"
  using assms by (simp add: token_from_verified_def)

lemma token_from_verified_fields:
  "token_from_verified cr r dc now inst = Inr t \<Longrightarrow>
   token_check t = request_check r \<and> tk_request_id t = rq_id r \<and> tk_expires_at_ms t = rq_expires_at_ms r \<and>
   tk_deadline t = inst + min (rq_expires_at_ms r - now) MAX_REQUEST_LIFETIME_MS"
  by (auto simp: token_from_verified_def token_check_def request_check_def bind_result_eq_Inr split: if_splits)

lemma evaluate_ok_iff:
  assumes wf: "ledger_wf cr l" and req: "bt_get (al_requests l) (rq_id r) = Some r"
  shows "is_ok (evaluate_with_trust cr r l now (map op_key_id operators) operators inst) \<longleftrightarrow>
    now \<le> rq_expires_at_ms r \<and>
    (\<exists>dc. bt_get (al_decisions l) (rq_id r) = Some dc \<and> dc_outcome dc = Approved \<and> rightful cr operators r dc)"
proof (cases "bt_get (al_decisions l) (rq_id r)")
  case None
  then show ?thesis by (simp add: evaluate_with_trust_def)
next
  case (Some dc)
  then obtain r' where "dc_request_id dc = rq_id r" "bt_get (al_requests l) (rq_id r) = Some r'"
    "request_digest cr r' = Inr (dc_request_digest dc)" using wf unfolding ledger_wf_def by blast
  with req have dc: "rq_id r = dc_request_id dc" "request_digest cr r = Inr (dc_request_digest dc)" by simp_all
  show ?thesis
  proof (cases "verify_decision_with cr r dc (map op_key_id operators) operators")
    case (Inl e)
    then have "\<not> rightful cr operators r dc" using verify_decision_iff [of cr r dc operators] by simp
    with Some Inl show ?thesis by (simp add: evaluate_with_trust_def)
  next
    case (Inr u)
    then have "rightful cr operators r dc" using verify_decision_iff [of cr r dc operators] by simp
    with Some Inr show ?thesis
      by (cases "dc_outcome dc") (simp_all add: evaluate_with_trust_def token_from_verified_ok [OF dc] not_less)
  qed
qed

lemma evaluate_token:
  "evaluate_with_trust cr r l now trusted operators inst = Inr t \<Longrightarrow>
   now \<le> rq_expires_at_ms r \<and> token_check t = request_check r \<and> tk_request_id t = rq_id r \<and>
   tk_expires_at_ms t = rq_expires_at_ms r \<and> tk_deadline t \<le> inst + (rq_expires_at_ms r - now)"
  by (auto simp: evaluate_with_trust_def not_less min_def split: if_splits option.splits decision_outcome.splits
      dest!: token_from_verified_fields)

text \<open>The newest request that binds the checked action.\<close>

definition newest_for :: "approval_ledger \<Rightarrow> approval_check \<Rightarrow> approval_request \<Rightarrow> bool" where
  "newest_for l ck r \<longleftrightarrow> r \<in> set (bt_values (al_requests l)) \<and> binds_check ck r \<and>
     (\<forall>r' \<in> set (bt_values (al_requests l)). binds_check ck r' \<longrightarrow> recency r' \<le> recency r)"

lemma last_sorted_max:
  assumes "xs \<noteq> []"
  shows "last (sort_key f xs) \<in> set xs \<and> (\<forall>y \<in> set xs. f y \<le> f (last (sort_key f xs)))"
proof -
  have ne: "sort_key f xs \<noteq> []" using assms by (metis length_0_conv length_sort)
  have "f y \<le> f (last (sort_key f xs))" if y: "y \<in> set xs" for y
  proof -
    from y obtain i where i: "i < length (sort_key f xs)" "sort_key f xs ! i = y" by (metis in_set_conv_nth set_sort)
    have "sorted (map f (sort_key f xs))" by simp
    then have "map f (sort_key f xs) ! i \<le> map f (sort_key f xs) ! (length (sort_key f xs) - 1)"
      by (rule sorted_nth_mono) (use i(1) in simp_all)
    with i ne show ?thesis by (simp add: last_conv_nth)
  qed
  with ne show ?thesis by (metis last_in_set set_sort)
qed

lemma hd_newest:
  assumes "xs \<noteq> []"
  shows "hd (newest_first xs) \<in> set xs \<and> (\<forall>y \<in> set xs. recency y \<le> recency (hd (newest_first xs)))"
proof -
  have "sort_key recency (rev xs) \<noteq> []" using assms by (metis length_0_conv length_sort rev_is_Nil_conv)
  then have "hd (newest_first xs) = last (sort_key recency (rev xs))" by (simp add: newest_first_def hd_rev)
  with last_sorted_max [of "rev xs" recency] assms show ?thesis by simp
qed

lemma newest_for_hd:
  assumes wf: "ledger_wf cr l" and ne: "filter (binds_check ck) (bt_values (al_requests l)) \<noteq> []"
  shows "newest_for l ck r \<longleftrightarrow> r = hd (newest_first (filter (binds_check ck) (bt_values (al_requests l))))" (is "_ \<longleftrightarrow> r = ?h")
proof -
  have h: "newest_for l ck ?h" using hd_newest [OF ne] by (simp add: newest_for_def)
  have "r = ?h" if r: "newest_for l ck r"
  proof -
    have "recency r = recency ?h" using r h unfolding newest_for_def by (meson order_antisym)
    then have ids: "rq_id r = rq_id ?h" by (simp add: recency_def)
    have ok: "bt_ok (al_requests l)" using wf by (simp add: ledger_wf_def)
    obtain i j where ij: "bt_get (al_requests l) i = Some r" "bt_get (al_requests l) j = Some ?h"
      using r h bt_values_iff [OF ok] unfolding newest_for_def by blast
    with wf have "i = rq_id r" "j = rq_id ?h" unfolding ledger_wf_def by blast+
    with ij ids show ?thesis by simp
  qed
  with h show ?thesis by blast
qed

lemma read_trust_ok: "read_trust cr d = Inr (trusted, operators) \<longleftrightarrow>
   load_registry cr d = Inr operators \<and> trusted = map op_key_id operators"
  by (auto simp: read_trust_def trusted_key_ids_def)

lemma authorize_run:
  assumes "effective_now t d = (d1, Inr now)" and "ledger_load cr d1 = (d2, Inr l)" and "load_registry cr d2 = Inr operators"
  shows "snd (authorize cr ck t inst d) =
    (let exact = filter (binds_check ck) (bt_values (al_requests l)) in
     if exact = [] then
       (case max_last rq_created_at_ms (filter (same_subject (ck_kind ck) (ck_subject ck)) (bt_values (al_requests l))) of
          Some r \<Rightarrow> Inl (stale_for ck r)
        | None \<Rightarrow> Inl (ApprovalRequired (ck_kind ck) (ck_subject ck) (ck_bound_revision ck) (ck_bound_digest ck)))
     else evaluate_with_trust cr (hd (newest_first exact)) l now (map op_key_id operators) operators inst)"
proof -
  have "read_trust cr d2 = Inr (map op_key_id operators, operators)" using assms(3) by (simp add: read_trust_ok)
  with assms(1,2) show ?thesis
    by (simp add: authorize_def evaluate_def bind_act_def Let_def split: option.split)
qed

text \<open>A token names the checked action and outlives no time an earlier call observed.\<close>

lemma authorize_token:
  assumes "authorize cr ck t inst d = (d', Inr tok)"
  shows "token_check tok = ck \<and> clock_of d \<le> tk_expires_at_ms tok \<and> t \<le> tk_expires_at_ms tok \<and>
    tk_deadline tok \<le> inst + (tk_expires_at_ms tok - t)"
proof -
  from assms obtain d1 now where d1: "effective_now t d = (d1, Inr now)"
    by (auto simp: authorize_def bind_act_eq_Inr)
  from assms d1 obtain d2 l where d2: "ledger_load cr d1 = (d2, Inr l)"
    by (auto simp: authorize_def bind_act_eq_Inr)
  let ?exact = "filter (binds_check ck) (bt_values (al_requests l))"
  from assms d1 d2 have ex: "?exact \<noteq> []" "evaluate cr (hd (newest_first ?exact)) l now inst d2 = (d', Inr tok)"
    by (auto simp: authorize_def bind_act_def Let_def split: if_splits option.splits)
  from ex(2) obtain trusted operators where
    ev: "evaluate_with_trust cr (hd (newest_first ?exact)) l now trusted operators inst = Inr tok"
    by (auto simp: evaluate_def bind_act_eq_Inr split: prod.splits)
  have now: "now = max t (clock_of d)" using effective_now_ok [OF d1] by simp
  have binds: "binds_check ck (hd (newest_first ?exact))" using hd_newest [OF ex(1)] by simp
  then have "request_check (hd (newest_first ?exact)) = ck" by (simp add: binds_check_def request_check_def)
  with evaluate_token [OF ev] now show ?thesis by auto
qed

section \<open>The chain\<close>

definition entry_id :: "ledger_entry \<Rightarrow> entry_identity" where
  "entry_id e = \<lparr>ei_schema = LEDGER_SCHEMA, ei_seq = le_seq e, ei_recorded_at_ms = le_recorded_at_ms e,
     ei_prev_digest = le_prev_digest e, ei_body = le_body e\<rparr>"

text \<open>The hash function does not collide on the entries of two ledgers.\<close>

definition no_collision :: "crypto \<Rightarrow> ledger_entry list \<Rightarrow> ledger_entry list \<Rightarrow> bool" where
  "no_collision cr es es' \<longleftrightarrow> (\<forall>e \<in> set es. \<forall>e' \<in> set es'.
     content_digest cr LEDGER_DOMAIN (C_Entry (entry_id e)) = content_digest cr LEDGER_DOMAIN (C_Entry (entry_id e')) \<longrightarrow>
     entry_id e = entry_id e')"

definition chained :: "crypto \<Rightarrow> ledger_entry list \<Rightarrow> bool" where
  "chained cr es \<longleftrightarrow> (\<forall>i < length es.
     le_schema (es ! i) = LEDGER_SCHEMA \<and> le_seq (es ! i) = i + 1 \<and>
     le_prev_digest (es ! i) = (if i = 0 then zero_digest else le_digest (es ! (i - 1))) \<and>
     content_digest cr LEDGER_DOMAIN (C_Entry (entry_id (es ! i))) = Inr (le_digest (es ! i)))"

lemma chained_snoc:
  assumes "chained cr es" and "le_schema e = LEDGER_SCHEMA" and "le_seq e = length es + 1"
    and "le_prev_digest e = (if es = [] then zero_digest else le_digest (last es))"
    and "content_digest cr LEDGER_DOMAIN (C_Entry (entry_id e)) = Inr (le_digest e)"
  shows "chained cr (es @ [e])"
  unfolding chained_def
proof (intro allI impI)
  fix i
  assume i: "i < length (es @ [e])"
  show "le_schema ((es @ [e]) ! i) = LEDGER_SCHEMA \<and> le_seq ((es @ [e]) ! i) = i + 1 \<and>
      le_prev_digest ((es @ [e]) ! i) = (if i = 0 then zero_digest else le_digest ((es @ [e]) ! (i - 1))) \<and>
      content_digest cr LEDGER_DOMAIN (C_Entry (entry_id ((es @ [e]) ! i))) = Inr (le_digest ((es @ [e]) ! i))"
  proof (cases "i < length es")
    case True
    then have "i - 1 < length es" by simp
    with True assms(1) show ?thesis unfolding chained_def by (simp add: nth_append)
  next
    case False
    with i have "i = length es" by simp
    with assms(2-5) show ?thesis by (auto simp: nth_append last_conv_nth)
  qed
qed

lemma replay_from_chained:
  "replay_from cr l ls = Inr (replay_at l') \<Longrightarrow> chained cr (al_entries l) \<Longrightarrow> chained cr (al_entries l')"
proof (induction ls arbitrary: l)
  case Nil
  then show ?case by (simp add: replay_from_def replay_at_def)
next
  case (Cons line ls)
  from Cons.prems obtain st1 where st1: "replay_line cr (replay_at l) line = Inr st1"
    "try_fold (replay_line cr) st1 ls = Inr (replay_at l')" by (auto simp: replay_from_def)
  from replay_line_cases [OF st1(1)] show ?case
  proof (elim disjE conjE exE)
    assume "line = Blank_Line" "st1 = replay_at l"
    with Cons st1(2) show ?thesis by (simp add: replay_from_def)
  next
    fix e
    assume e: "line = Entry_Line e" "st1 = replay_at (record_entry e l)"
    with st1 Cons.prems(2) have "chained cr (al_entries (record_entry e l))"
      by (auto simp: replay_line_entry entry_digest_def entry_id_def last_digest_def intro!: chained_snoc)
    with Cons.IH [of "record_entry e l"] e(2) st1(2) show ?thesis by (simp add: replay_from_def)
  qed
qed

lemma replay_chained: "replay cr ls = Inr l \<Longrightarrow> chained cr (al_entries l)"
  unfolding replay_iff by (erule replay_from_chained) (simp add: chained_def empty_ledger_def)

lemma chains_agree:
  assumes "chained cr es" and "chained cr es'" and "no_collision cr es es'" and "length es = length es'"
    and "es \<noteq> []" and "le_digest (last es) = le_digest (last es')"
  shows "es = es'"
proof -
  let ?n = "length es"
  have same: "es ! i = es' ! i" if "i < ?n" "le_digest (es ! i) = le_digest (es' ! i)" for i
  proof -
    have c: "le_schema (es ! i) = LEDGER_SCHEMA" "content_digest cr LEDGER_DOMAIN (C_Entry (entry_id (es ! i))) = Inr (le_digest (es ! i))"
      using assms(1) that(1) unfolding chained_def by blast+
    have c': "le_schema (es' ! i) = LEDGER_SCHEMA" "content_digest cr LEDGER_DOMAIN (C_Entry (entry_id (es' ! i))) = Inr (le_digest (es' ! i))"
      using assms(2,4) that(1) unfolding chained_def by metis+
    have "entry_id (es ! i) = entry_id (es' ! i)"
      using assms(3,4) that c(2) c'(2) unfolding no_collision_def by (metis nth_mem)
    with c(1) c'(1) that(2) show ?thesis by (simp add: entry_id_def)
  qed
  have "es ! (?n - 1 - k) = es' ! (?n - 1 - k)" if "k < ?n" for k
    using that
  proof (induction k)
    case 0
    have "es' \<noteq> []" using assms(4,5) by auto
    then have "last es' = es' ! (?n - 1)" by (simp add: last_conv_nth assms(4))
    moreover have "last es = es ! (?n - 1)" using assms(5) by (rule last_conv_nth)
    ultimately have "le_digest (es ! (?n - 1)) = le_digest (es' ! (?n - 1))" using assms(6) by simp
    with 0 show ?case by (simp add: same)
  next
    case (Suc k)
    then have eq: "es ! (?n - 1 - k) = es' ! (?n - 1 - k)" and pos: "?n - 1 - k \<noteq> 0" "?n - 1 - k < ?n" by simp_all
    have idx: "?n - 1 - Suc k = ?n - 1 - k - 1" by simp
    have "le_prev_digest (es ! (?n - 1 - k)) = le_digest (es ! (?n - 1 - k - 1))"
      using assms(1) pos unfolding chained_def by metis
    moreover have "le_prev_digest (es' ! (?n - 1 - k)) = le_digest (es' ! (?n - 1 - k - 1))"
      using assms(2,4) pos unfolding chained_def by metis
    ultimately have "le_digest (es ! (?n - 1 - k - 1)) = le_digest (es' ! (?n - 1 - k - 1))" using eq by simp
    then show ?case unfolding idx using pos by (intro same) simp_all
  qed
  note backwards = this
  have "es ! i = es' ! i" if "i < ?n" for i
  proof -
    have "?n - 1 - (?n - 1 - i) = i" "?n - 1 - i < ?n" using that by linarith+
    with backwards [of "?n - 1 - i"] show ?thesis by simp
  qed
  with assms(4) show ?thesis by (rule nth_equalityI)
qed

end
