(* ===== verification/Approval_Recovery.thy ===== *)
theory Approval_Recovery
  imports Approval_Trust
begin

text \<open>
  What an interrupted append leaves behind. An append writes the line, the local head and the anchor; the
  directory is characterised after each of them, with what the next writer makes of it: a line and a head
  without their anchor are reconciled, except for the first entry, and a line without its head is refused
  from then on.
\<close>

section \<open>Marks\<close>

definition mark_of :: "string \<Rightarrow> ledger_entry list \<Rightarrow> ledger_mark json_file" where
  "mark_of schema es = (if es = [] then Absent
     else Holds \<lparr>mk_schema = schema, mk_seq = le_seq (last es), mk_digest = le_digest (last es)\<rparr>)"

definition marks_at :: "approval_disk \<Rightarrow> ledger_entry list \<Rightarrow> ledger_entry list \<Rightarrow> bool" where
  "marks_at d head anchor \<longleftrightarrow> dk_head d = mark_of LEDGER_HEAD_SCHEMA head \<and> dk_anchor d = mark_of LEDGER_ANCHOR_SCHEMA anchor"

text \<open>The three states an append goes through, and a line that was torn.\<close>

definition complete :: "crypto \<Rightarrow> approval_disk \<Rightarrow> approval_ledger \<Rightarrow> bool" where
  "complete cr d l \<longleftrightarrow> file_replays cr d l \<and> marks_at d (al_entries l) (al_entries l)"

definition before_head :: "crypto \<Rightarrow> approval_disk \<Rightarrow> approval_ledger \<Rightarrow> ledger_entry \<Rightarrow> bool" where
  "before_head cr d l e \<longleftrightarrow> file_replays cr d (record_entry e l) \<and> marks_at d (al_entries l) (al_entries l)"

definition before_anchor :: "crypto \<Rightarrow> approval_disk \<Rightarrow> approval_ledger \<Rightarrow> ledger_entry \<Rightarrow> bool" where
  "before_anchor cr d l e \<longleftrightarrow> file_replays cr d (record_entry e l) \<and> marks_at d (al_entries l @ [e]) (al_entries l)"

definition torn_line :: "approval_disk \<Rightarrow> bool" where
  "torn_line d \<longleftrightarrow> (\<exists>ls n. dk_ledger d = Ledger_Lines ls \<and> Bad_Line n \<in> set ls)"

text \<open>BLAKE3 has 32 bytes of output.\<close>

definition hash_size :: "crypto \<Rightarrow> bool" where
  "hash_size cr \<longleftrightarrow> (\<forall>bs. length (cr_blake3 cr bs) = 32)"

lemma all_hex_to_hex: "all_hex (to_hex bs)"
  using to_hex_lower [of bs] by (auto simp: all_hex_def list_all_iff is_ascii_hexdigit_def)

lemma hex64_digest: "hash_size cr \<Longrightarrow> content_digest cr domain v = Inr s \<Longrightarrow> hex64 s"
  by (auto simp: hex64_def content_digest_def hash_size_def length_to_hex all_hex_to_hex split: option.splits)

lemma chained_last:
  assumes "chained cr es" and "es \<noteq> []" and "hash_size cr"
  shows "le_seq (last es) = length es \<and> hex64 (le_digest (last es))"
proof -
  have "length es - 1 < length es" using assms(2) by simp
  with assms(1) have "le_seq (es ! (length es - 1)) = length es - 1 + 1"
    "content_digest cr LEDGER_DOMAIN (C_Entry (entry_id (es ! (length es - 1)))) = Inr (le_digest (es ! (length es - 1)))"
    unfolding chained_def by blast+
  with assms(2,3) hex64_digest show ?thesis by (auto simp: last_conv_nth)
qed

lemma file_replays_chained: "file_replays cr d l \<Longrightarrow> chained cr (al_entries l)"
  using file_replays_book unfolding book_def by (blast intro: replay_chained)

lemma chained_prefix:
  assumes "chained cr (es @ es2)"
  shows "chained cr es"
  unfolding chained_def
proof (intro allI impI)
  fix i
  assume i: "i < length es"
  then have i2: "i < length (es @ es2)" "i - 1 < length es" by simp_all
  have "le_schema ((es @ es2) ! i) = LEDGER_SCHEMA \<and> le_seq ((es @ es2) ! i) = i + 1 \<and>
      le_prev_digest ((es @ es2) ! i) = (if i = 0 then zero_digest else le_digest ((es @ es2) ! (i - 1))) \<and>
      content_digest cr LEDGER_DOMAIN (C_Entry (entry_id ((es @ es2) ! i))) = Inr (le_digest ((es @ es2) ! i))"
    using assms i2(1) unfolding chained_def by blast
  with i i2(2) show "le_schema (es ! i) = LEDGER_SCHEMA \<and> le_seq (es ! i) = i + 1 \<and>
      le_prev_digest (es ! i) = (if i = 0 then zero_digest else le_digest (es ! (i - 1))) \<and>
      content_digest cr LEDGER_DOMAIN (C_Entry (entry_id (es ! i))) = Inr (le_digest (es ! i))"
    by (simp add: nth_append)
qed

text \<open>An anchor that points at a prefix of the chain is found there.\<close>

lemma anchor_position_prefix:
  assumes "chained cr (es @ es2)" and "hash_size cr" and "al_entries l = es @ es2"
    and "dk_anchor d = mark_of LEDGER_ANCHOR_SCHEMA es" and "es \<noteq> []"
  shows "anchor_position d l = Inr (Some (length es))"
proof -
  have last: "le_seq (last es) = length es" "hex64 (le_digest (last es))"
    using chained_last [OF chained_prefix [OF assms(1)] assms(5,2)] by simp_all
  have "length es - 1 < length es" using assms(5) by simp
  then have "al_entries l ! (length es - 1) = last es"
    using assms(3,5) by (simp add: nth_append last_conv_nth)
  with last assms(3-5) show ?thesis by (simp add: anchor_position_def mark_of_def mark_malformed_def)
qed

lemma head_verified:
  assumes "chained cr (al_entries l)" and "hash_size cr" and "dk_head d = mark_of LEDGER_HEAD_SCHEMA (al_entries l)"
  shows "verify_committed_head d l = Inr ()"
proof (cases "al_entries l = []")
  case True
  with assms(3) show ?thesis by (simp add: verify_committed_head_def mark_of_def)
next
  case False
  then have "\<not> length (al_entries l) \<le> length (al_entries l) - 1" by (cases "al_entries l") simp_all
  moreover have "al_entries l ! (length (al_entries l) - 1) = last (al_entries l)" using False by (simp add: last_conv_nth)
  ultimately show ?thesis
    using chained_last [OF assms(1) False assms(2)] assms(3) False
    by (simp add: verify_committed_head_def mark_of_def mark_malformed_def Let_def)
qed

section \<open>Loading\<close>

lemma load_inner_lines:
  assumes "file_replays cr d l" and "verify_anchor l heal d = (d', Inr ())" and "verify_committed_head d' l = Inr ()"
    and "verify_anchor l False d = (d', Inr ()) \<or> dk_ledger d \<noteq> No_Ledger"
  shows "load_inner cr heal d = (d', Inr l)"
proof (cases "dk_ledger d")
  case No_Ledger
  with assms show ?thesis by (simp add: load_inner_def file_replays_def bind_act_def seq_act_def)
next
  case (Ledger_Lines ls)
  with assms show ?thesis by (simp add: load_inner_def file_replays_def bind_act_def seq_act_def)
qed (use assms(1) in \<open>simp_all add: file_replays_def\<close>)

lemma complete_loads:
  assumes "complete cr d l" and "hash_size cr"
  shows "load_inner cr heal d = (d, Inr l)"
proof -
  have fr: "file_replays cr d l" and mk: "marks_at d (al_entries l) (al_entries l)" using assms(1) by (simp_all add: complete_def)
  note ch = file_replays_chained [OF fr]
  have "verify_anchor l h d = (d, Inr ())" for h
  proof (cases "al_entries l = []")
    case True
    with mk show ?thesis by (simp add: verify_anchor_def anchor_position_def marks_at_def mark_of_def bind_act_def)
  next
    case False
    have "anchor_position d l = Inr (Some (length (al_entries l)))"
      using anchor_position_prefix [of cr "al_entries l" "[]"] ch assms(2) mk False by (simp add: marks_at_def)
    then show ?thesis by (simp add: verify_anchor_def bind_act_def)
  qed
  moreover have "verify_committed_head d l = Inr ()" using head_verified [OF ch assms(2)] mk by (simp add: marks_at_def)
  ultimately show ?thesis using fr by (intro load_inner_lines) simp_all
qed

lemma record_nonempty [simp]: "al_entries (record_entry e l) \<noteq> []"
  by simp

lemma before_anchor_heals:
  assumes "before_anchor cr d l e" and "hash_size cr" and "al_entries l \<noteq> []" and "dk_writes d \<noteq> 0" and "\<not> dk_busy d"
  shows "\<exists>d'. ledger_begin cr d = (d', Inr (record_entry e l)) \<and> complete cr d' (record_entry e l)"
proof -
  let ?l = "record_entry e l"
  let ?d = "d\<lparr>dk_writes := dk_writes d - 1, dk_anchor := Holds \<lparr>mk_schema = LEDGER_ANCHOR_SCHEMA, mk_seq = le_seq e, mk_digest = le_digest e\<rparr>\<rparr>"
  have fr: "file_replays cr d ?l" and mk: "marks_at d (al_entries l @ [e]) (al_entries l)"
    using assms(1) by (simp_all add: before_anchor_def)
  note ch = file_replays_chained [OF fr]
  have "anchor_position d ?l = Inr (Some (length (al_entries l)))"
    using anchor_position_prefix [of cr "al_entries l" "[e]"] ch assms(2,3) mk by (simp add: marks_at_def)
  moreover have "local_head_matches_tail d ?l = Inr True"
    using mk by (simp add: local_head_matches_tail_def marks_at_def mark_of_def)
  ultimately have "verify_anchor ?l True d = (?d, Inr ())"
    using assms(4) by (simp add: verify_anchor_def bind_act_def write_anchor_def write_file_def)
  moreover have "verify_committed_head ?d ?l = Inr ()"
    using head_verified [OF ch assms(2)] mk by (simp add: marks_at_def)
  moreover have "dk_ledger d \<noteq> No_Ledger"
  proof
    assume "dk_ledger d = No_Ledger"
    with fr have "record_entry e l = empty_ledger" by (simp add: file_replays_def)
    then have "al_entries (record_entry e l) = al_entries empty_ledger" by (rule arg_cong)
    then show False by (simp add: empty_ledger_def)
  qed
  ultimately have "load_inner cr True d = (?d, Inr ?l)" using fr by (intro load_inner_lines) simp_all
  moreover have "complete cr ?d ?l"
    using fr mk by (simp add: complete_def file_replays_def marks_at_def mark_of_def)
  ultimately show ?thesis using assms(5) by (simp add: ledger_begin_def bind_act_def seq_act_def)
qed

section \<open>The states of an append\<close>

lemma ledger_bytes_snoc:
  "cr_entry_bytes cr e = Some n \<Longrightarrow> ledger_bytes cr (ls @ [Entry_Line e]) = ledger_bytes cr ls + n + 1"
  by (simp add: ledger_bytes_def line_bytes_def)

definition file_bytes :: "crypto \<Rightarrow> approval_disk \<Rightarrow> nat" where
  "file_bytes cr d = (case dk_ledger d of Ledger_Lines ls \<Rightarrow> ledger_bytes cr ls | _ \<Rightarrow> 0)"

lemma file_replays_append:
  assumes "file_replays cr d l" and "append_check cr l body now = Inr None" and "next_entry cr l body now = Inr e"
    and "cr_entry_bytes cr e = Some n" and "file_bytes cr d + n + 1 \<le> MAX_LEDGER_BYTES"
  shows "file_replays cr (add_line (Entry_Line e) d) (record_entry e l)"
proof (cases "dk_ledger d")
  case No_Ledger
  with assms(1) have l: "l = empty_ledger" by (simp add: file_replays_def)
  have "replay cr [] = Inr empty_ledger" by (simp add: replay_def)
  from append_replays [OF this, of body now e] assms(2,3) l No_Ledger assms(4,5)
  show ?thesis by (simp add: file_replays_def add_line_def file_bytes_def ledger_bytes_def line_bytes_def)
next
  case (Ledger_Lines ls)
  with assms(1) have r: "replay cr ls = Inr l" by (simp add: file_replays_def)
  from append_replays [OF r assms(2,3)] Ledger_Lines assms(4,5) show ?thesis
    by (simp add: file_replays_def add_line_def file_bytes_def ledger_bytes_snoc)
qed (use assms(1) in \<open>simp_all add: file_replays_def\<close>)

lemma append_states:
  assumes "complete cr d l" and "append_check cr l body now = Inr None" and "next_entry cr l body now = Inr e"
    and "cr_entry_bytes cr e = Some n" and "file_bytes cr d + n + 1 \<le> MAX_LEDGER_BYTES"
    and "ledger_append cr l body now d = (d', r)"
  shows "(dk_writes d = 0 \<and> \<not> is_ok r \<and> d' = (if dk_torn d then add_line (Bad_Line 1) d else d)) \<or>
    (dk_writes d = 1 \<and> \<not> is_ok r \<and> before_head cr d' l e) \<or>
    (dk_writes d = 2 \<and> \<not> is_ok r \<and> before_anchor cr d' l e) \<or>
    (3 \<le> dk_writes d \<and> r = Inr (e, record_entry e l) \<and> complete cr d' (record_entry e l))"
proof -
  let ?d1 = "add_line (Entry_Line e) (d\<lparr>dk_writes := dk_writes d - 1\<rparr>)"
  have fr: "file_replays cr d l" and mk: "marks_at d (al_entries l) (al_entries l)" using assms(1) by (simp_all add: complete_def)
  have fr1: "file_replays cr (add_line (Entry_Line e) (d\<lparr>dk_writes := k\<rparr>)) (record_entry e l)" for k
    using file_replays_append [OF _ assms(2-4), of "d\<lparr>dk_writes := k\<rparr>"] fr assms(5)
    by (simp add: file_replays_def file_bytes_def)
  have run: "ledger_append cr l body now d =
      seq_act (append_line e) (seq_act (write_committed_head (le_seq e) (le_digest e)) (return (e, record_entry e l))) d"
    using assms(2-4) by (simp add: ledger_append_def bind_act_def seq_act_def)
  consider "dk_writes d = 0" | "dk_writes d = 1" | "dk_writes d = 2" | "3 \<le> dk_writes d" by linarith
  then show ?thesis
  proof cases
    case 1
    with run assms(6) show ?thesis by (auto simp: append_line_def seq_act_def bind_act_def split: if_splits)
  next
    case 2
    with run assms(6) have "d' = ?d1 \<and> \<not> is_ok r"
      by (auto simp: append_line_def seq_act_def bind_act_def write_committed_head_def write_file_def)
    with 2 fr1 [of 0] mk show ?thesis by (simp add: before_head_def marks_at_def)
  next
    case 3
    with run assms(6) have "\<not> is_ok r \<and> d' = ?d1\<lparr>dk_writes := 0, dk_head := Holds \<lparr>mk_schema = LEDGER_HEAD_SCHEMA, mk_seq = le_seq e, mk_digest = le_digest e\<rparr>\<rparr>"
      by (auto simp: append_line_def seq_act_def bind_act_def write_committed_head_def write_anchor_def write_file_def)
    with 3 fr1 [of 1] mk show ?thesis
      by (simp add: before_anchor_def marks_at_def mark_of_def file_replays_def)
  next
    case 4
    with run assms(6) have "r = Inr (e, record_entry e l) \<and> d' = ?d1\<lparr>dk_writes := dk_writes d - 3,
        dk_head := Holds \<lparr>mk_schema = LEDGER_HEAD_SCHEMA, mk_seq = le_seq e, mk_digest = le_digest e\<rparr>,
        dk_anchor := Holds \<lparr>mk_schema = LEDGER_ANCHOR_SCHEMA, mk_seq = le_seq e, mk_digest = le_digest e\<rparr>\<rparr>"
      by (auto simp: append_line_def seq_act_def bind_act_def write_committed_head_def write_anchor_def write_file_def)
    with 4 fr1 [of "dk_writes d - 1"] show ?thesis
      by (simp add: complete_def marks_at_def mark_of_def file_replays_def)
  qed
qed

section \<open>Directories every later call refuses\<close>

definition same_marks :: "approval_disk \<Rightarrow> approval_disk \<Rightarrow> bool" where
  "same_marks d d' \<longleftrightarrow> dk_ledger d' = dk_ledger d \<and> dk_head d' = dk_head d \<and> dk_anchor d' = dk_anchor d"

interpretation sm: step_preorder same_marks
  by unfold_locales (auto simp: same_marks_def)

definition refuses :: "crypto \<Rightarrow> approval_disk \<Rightarrow> bool" where
  "refuses cr d \<longleftrightarrow> (\<forall>d' heal. same_marks d d' \<longrightarrow> (\<exists>e. load_inner cr heal d' = (d', Inl e)))"

lemma refuses_same: "refuses cr d \<Longrightarrow> same_marks d d' \<Longrightarrow> refuses cr d'"
  unfolding refuses_def using sm.trans by blast

lemma refuses_load:
  assumes "refuses cr d"
  shows "\<exists>e. ledger_load cr d = (d, Inl e)" and "\<exists>e. ledger_begin cr d = (d, Inl e)"
proof -
  have "\<exists>e. load_inner cr heal d = (d, Inl e)" for heal using assms sm.refl by (simp add: refuses_def)
  then show "\<exists>e. ledger_load cr d = (d, Inl e)" and "\<exists>e. ledger_begin cr d = (d, Inl e)"
    by (auto simp: ledger_load_def ledger_begin_def bind_act_def seq_act_def refuse_if_def)
qed

text \<open>The four ways to get there.\<close>

lemma refusesI:
  assumes "\<And>d'. same_marks d d' \<Longrightarrow> verify_anchor l True d' = (d', Inl e) \<and> verify_anchor l False d' = (d', Inl e)"
    and "file_replays cr d l" and "l \<noteq> empty_ledger"
  shows "refuses cr d"
  unfolding refuses_def
proof (intro allI impI)
  fix d' heal
  assume s: "same_marks d d'"
  with assms(1) [OF s] have v: "verify_anchor l heal d' = (d', Inl e)" by (cases heal) simp_all
  from assms(2,3) obtain ls where "dk_ledger d = Ledger_Lines ls" "ledger_bytes cr ls \<le> MAX_LEDGER_BYTES" "replay cr ls = Inr l"
    by (auto simp: file_replays_def split: ledger_file.splits)
  with s v show "\<exists>e. load_inner cr heal d' = (d', Inl e)"
    by (simp add: load_inner_def same_marks_def bind_act_def seq_act_def)
qed

lemma record_not_empty: "record_entry e l \<noteq> empty_ledger"
proof
  assume "record_entry e l = empty_ledger"
  then have "al_entries (record_entry e l) = al_entries empty_ledger" by (rule arg_cong)
  then show False by (simp add: empty_ledger_def)
qed

lemma before_head_refuses:
  assumes "before_head cr d l e" and "hash_size cr"
  shows "refuses cr d"
proof (cases "al_entries l = []")
  case True
  show ?thesis
  proof (rule refusesI [OF _ _ record_not_empty])
    show "file_replays cr d (record_entry e l)" using assms(1) by (simp add: before_head_def)
    fix d'
    assume "same_marks d d'"
    then have "anchor_position d' (record_entry e l) = Inl (AnchorDegraded ''the monotonic ledger anchor is missing'')"
      using assms(1) True by (simp add: before_head_def marks_at_def mark_of_def anchor_position_def same_marks_def)
    then show "verify_anchor (record_entry e l) True d' = (d', Inl (AnchorDegraded ''the monotonic ledger anchor is missing'')) \<and>
        verify_anchor (record_entry e l) False d' = (d', Inl (AnchorDegraded ''the monotonic ledger anchor is missing''))"
      by (simp add: verify_anchor_def bind_act_def)
  qed
next
  case False
  have fr: "file_replays cr d (record_entry e l)" and mk: "marks_at d (al_entries l) (al_entries l)"
    using assms(1) by (simp_all add: before_head_def)
  have ch: "chained cr (al_entries l @ [e])" using file_replays_chained [OF fr] by simp
  then have seq: "le_seq e = length (al_entries l) + 1"
    using chained_last [OF ch _ assms(2)] by simp
  have seq': "le_seq (last (al_entries l)) = length (al_entries l)"
    using chained_last [OF chained_prefix [OF ch] False assms(2)] by simp
  show ?thesis
  proof (rule refusesI [OF _ fr record_not_empty])
    fix d'
    assume s: "same_marks d d'"
    then have "anchor_position d' (record_entry e l) = Inr (Some (length (al_entries l)))"
      using anchor_position_prefix [OF ch assms(2) _ _ False, of "record_entry e l" d'] mk
      by (simp add: marks_at_def same_marks_def)
    moreover have "local_head_matches_tail d' (record_entry e l) = Inr False"
      using s mk False seq seq' by (simp add: local_head_matches_tail_def marks_at_def mark_of_def same_marks_def)
    ultimately show "verify_anchor (record_entry e l) True d' = (d', Inl (AnchorDegraded ''ledger anchor is behind the verified chain'')) \<and>
        verify_anchor (record_entry e l) False d' = (d', Inl (AnchorDegraded ''ledger anchor is behind the verified chain''))"
      by (simp add: verify_anchor_def bind_act_def)
  qed
qed

lemma first_before_anchor_refuses:
  assumes "before_anchor cr d l e" and "al_entries l = []"
  shows "refuses cr d"
proof (rule refusesI [OF _ _ record_not_empty])
  show "file_replays cr d (record_entry e l)" using assms(1) by (simp add: before_anchor_def)
  fix d'
  assume "same_marks d d'"
  then have "anchor_position d' (record_entry e l) = Inl (AnchorDegraded ''the monotonic ledger anchor is missing'')"
    using assms by (simp add: before_anchor_def marks_at_def mark_of_def anchor_position_def same_marks_def)
  then show "verify_anchor (record_entry e l) True d' = (d', Inl (AnchorDegraded ''the monotonic ledger anchor is missing'')) \<and>
      verify_anchor (record_entry e l) False d' = (d', Inl (AnchorDegraded ''the monotonic ledger anchor is missing''))"
    by (simp add: verify_anchor_def bind_act_def)
qed

lemma replay_bad_line: "Bad_Line n \<in> set ls \<Longrightarrow> replay cr ls \<noteq> Inr l"
proof
  assume "Bad_Line n \<in> set ls" and "replay cr ls = Inr l"
  then obtain a b where ls: "ls = a @ Bad_Line n # b" by (auto simp: in_set_conv_decomp)
  from \<open>replay cr ls = Inr l\<close> obtain k where "replay_from cr k (Bad_Line n # b) = Inr (replay_at l)"
    unfolding ls by (rule replay_prefix)
  then show False by (simp add: replay_from_def replay_line_def replay_at_def)
qed

lemma torn_line_refuses:
  assumes "torn_line d"
  shows "refuses cr d"
  unfolding refuses_def
proof (intro allI impI)
  fix d' heal
  assume s: "same_marks d d'"
  from assms obtain ls n where ls: "dk_ledger d = Ledger_Lines ls" "Bad_Line n \<in> set ls" by (auto simp: torn_line_def)
  obtain e where "replay cr ls = Inl e" using replay_bad_line [OF ls(2)] by (metis sum.exhaust)
  with s ls(1) show "\<exists>e. load_inner cr heal d' = (d', Inl e)"
    by (simp add: load_inner_def same_marks_def bind_act_def refuse_def)
qed

lemma oversized_refuses:
  assumes "MAX_LEDGER_BYTES < file_bytes cr d"
  shows "refuses cr d"
  unfolding refuses_def
proof (intro allI impI)
  fix d' heal
  assume "same_marks d d'"
  with assms show "\<exists>e. load_inner cr heal d' = (d', Inl e)"
    by (auto simp: load_inner_def same_marks_def bind_act_def refuse_def file_bytes_def split: ledger_file.splits)
qed

section \<open>No call leads out\<close>

fun call_ok :: "crypto \<Rightarrow> approval_call \<Rightarrow> approval_disk \<Rightarrow> bool" where
  "call_ok cr (Call_Propose dr t) d = is_ok (snd (propose cr dr t d))"
| "call_ok cr (Call_Decide i p key oc rationale t) d = is_ok (snd (decide cr i p key oc rationale t d))"
| "call_ok cr (Call_Authorize ck t inst) d = is_ok (snd (authorize cr ck t inst d))"
| "call_ok cr (Call_Authorize_Request i ck t inst) d = is_ok (snd (authorize_request cr i ck t inst d))"
| "call_ok cr (Call_Latest_Request kind subject) d = is_ok (snd (latest_request cr kind subject d))"
| "call_ok cr (Call_Latest_Authorized kind subject t inst) d = is_ok (snd (latest_authorized cr kind subject t inst d))"
| "call_ok cr (Call_View i) d = is_ok (snd (approval_view_of cr i d))"
| "call_ok cr (Call_Status i t) d = is_ok (snd (approval_status cr i t d))"
| "call_ok cr Call_List d = is_ok (snd (approval_list cr d))"
| "call_ok cr (Call_Audit i) d = is_ok (snd (approval_audit cr i d))"
| "call_ok cr Call_Key_Ids d = is_ok (snd (operator_key_ids cr d))"
| "call_ok cr (Call_Register i key t) d = is_ok (snd (register_operator_key cr i key t d))"

text \<open>The calls that read the ledger; the other two concern the operator registry.\<close>

fun reads_ledger :: "approval_call \<Rightarrow> bool" where
  "reads_ledger Call_Key_Ids = False"
| "reads_ledger (Call_Register i key t) = False"
| "reads_ledger _ = True"

lemma effective_now_marks: "related same_marks (effective_now t)"
  unfolding effective_now_def observe_locked_def Let_def
  by (intro sm.related_bind sm.related_seq sm.related_if) (auto simp: related_def write_file_def same_marks_def)

lemma effective_now_refuses: "refuses cr d \<Longrightarrow> effective_now t d = (d1, r) \<Longrightarrow> same_marks d d1 \<and> refuses cr d1"
  using effective_now_marks refuses_same unfolding related_def by (metis fst_conv)

text \<open>An action that needs the ledger stops, and leaves the marks alone.\<close>

definition stops :: "approval_disk \<Rightarrow> (approval_disk, approval_error, 'a) action \<Rightarrow> bool" where
  "stops d m \<longleftrightarrow> (\<exists>d' e. m d = (d', Inl e) \<and> same_marks d d')"

lemma stops_load: "refuses cr d \<Longrightarrow> stops d (bind_act (ledger_load cr) f)"
  using refuses_load(1) [of cr d] sm.refl by (auto simp: stops_def bind_act_def)

lemma stops_begin: "refuses cr d \<Longrightarrow> stops d (bind_act (ledger_begin cr) f)"
  using refuses_load(2) [of cr d] sm.refl by (auto simp: stops_def bind_act_def)

lemma stops_require: "(\<And>v. stops d (f v)) \<Longrightarrow> stops d (bind_act (require x) f)"
  by (cases x) (auto simp: stops_def sm.refl)

lemma stops_check: "(x = Inr () \<Longrightarrow> stops d k) \<Longrightarrow> stops d (seq_act (require x) k)"
  by (cases x) (auto simp: stops_def sm.refl)

lemma stops_reject: "(\<not> c \<Longrightarrow> stops d k) \<Longrightarrow> stops d (seq_act (reject_if c e) k)"
  by (cases c) (auto simp: stops_def sm.refl)

lemma stops_now:
  assumes "refuses cr d" and "\<And>now d1. refuses cr d1 \<Longrightarrow> stops d1 (f now)"
  shows "stops d (bind_act (effective_now t) f)"
proof (cases "effective_now t d")
  case (Pair d1 r)
  from effective_now_refuses [OF assms(1) Pair] have s: "same_marks d d1" "refuses cr d1" by simp_all
  show ?thesis
  proof (cases r)
    case (Inl e)
    with Pair s(1) show ?thesis by (auto simp: stops_def bind_act_def)
  next
    case (Inr now)
    from assms(2) [OF s(2), of now] obtain d2 e where "f now d1 = (d2, Inl e)" "same_marks d1 d2" by (auto simp: stops_def)
    with Pair Inr s(1) show ?thesis by (auto simp: stops_def bind_act_def intro: sm.trans)
  qed
qed

lemma stops_bind: "stops d m \<Longrightarrow> stops d (bind_act m f)"
  by (auto simp: stops_def bind_act_def)

lemmas stops_rules = stops_load stops_begin stops_require stops_check stops_reject stops_now

lemma call_refused:
  assumes "refuses cr d" and "reads_ledger c"
  shows "same_marks d (run_call cr c d) \<and> \<not> call_ok cr c d"
proof -
  have "stops d (propose cr dr t)" for dr t
    unfolding propose_def using assms(1) by (intro stops_now stops_require stops_begin)
  moreover have "stops d (decide cr i p key oc rationale t)" for i p key oc rationale t
    unfolding decide_def using assms(1) by (intro stops_check stops_now stops_reject stops_begin)
  moreover have "stops d (authorize cr ck t inst)" for ck t inst
    unfolding authorize_def using assms(1) by (intro stops_now stops_load)
  moreover have "stops d (authorize_request cr i ck t inst)" for i ck t inst
    unfolding authorize_request_def using assms(1) by (intro stops_now stops_load)
  moreover have "stops d (latest_request cr kind subject)" for kind subject
    unfolding latest_request_def using assms(1) by (rule stops_load)
  moreover have "stops d (latest_authorized cr kind subject t inst)" for kind subject t inst
    unfolding latest_authorized_def using assms(1) by (intro stops_now stops_load)
  moreover have view: "stops d (approval_view_of cr i)" for i
    unfolding approval_view_of_def using assms(1) by (rule stops_load)
  moreover have "stops d (approval_status cr i t)" for i t
    unfolding approval_status_def by (rule stops_bind [OF view])
  moreover have "stops d (approval_list cr)" unfolding approval_list_def using assms(1) by (rule stops_load)
  moreover have "stops d (approval_audit cr i)" for i unfolding approval_audit_def using assms(1) by (rule stops_load)
  ultimately show ?thesis
    using assms(2) by (cases c) (simp_all add: stops_def is_ok_def split_paired_all, (metis fst_conv snd_conv sum.simps(5))+)
qed

lemma register_marks: "related same_marks (register_operator_key cr i key t)"
  unfolding register_operator_key_def Let_def
  by (intro sm.related_bind sm.related_seq sm.related_case_option sm.related_if)
    (auto simp: related_def write_file_def same_marks_def)

lemma refuses_step:
  assumes "refuses cr d" and "approval_step cr d d'"
  shows "same_marks d d'"
  using assms(2)
proof (cases rule: approval_step.cases)
  case (call c writes torn busy)
  let ?d = "in_environment writes torn busy d"
  have s: "same_marks d ?d" by (simp add: same_marks_def in_environment_def)
  have r: "refuses cr ?d" using refuses_same [OF assms(1) s] .
  have "same_marks ?d (run_call cr c ?d)"
  proof (cases "reads_ledger c")
    case True
    with call_refused [OF r] show ?thesis by simp
  next
    case False
    then consider "c = Call_Key_Ids" | i key t where "c = Call_Register i key t" by (cases c) simp_all
    then show ?thesis
    proof cases
      case 1
      then show ?thesis by (simp add: operator_key_ids_def sm.refl)
    next
      case (2 i key t)
      then show ?thesis using register_marks by (simp add: related_def)
    qed
  qed
  with s call show ?thesis by (auto intro: sm.trans)
qed

lemma refuses_reach: "approval_reach cr d d' \<Longrightarrow> refuses cr d \<Longrightarrow> same_marks d d'"
  unfolding approval_reach_def
proof (induction rule: rtranclp_induct)
  case base
  show ?case by (rule sm.refl)
next
  case (step d1 d2)
  then have "same_marks d d1" "refuses cr d1" using refuses_same by blast+
  with refuses_step step.hyps(2) show ?case by (blast intro: sm.trans)
qed

end
