(* ===== verification/Secret_Matching.thy ===== *)
theory Secret_Matching
  imports Secret_Scanner
begin

text \<open>
  What the secret scanner recognises: the language of a compiled pattern as a reference definition, the
  matcher sound and, where no member of an alternation is a prefix of another, complete for it; the strict
  compiler agreeing with the permissive one on what it accepts; and the text that a redaction leaves.
\<close>

section \<open>UTF-8\<close>

lemma byte_of_char_of: "n < 256 \<Longrightarrow> byte_of (char_of n) = n"
  by (simp add: byte_of_def)

lemma utf8_chars_encode:
  assumes "c < 1114112"
  shows "utf8_chars (utf8_encode c @ s) = c # utf8_chars s"
proof -
  have 1: "utf8_chars (utf8_encode c @ s) = c # utf8_chars s" if "c < 128"
    using that by (simp add: utf8_encode_def utf8_width_def utf8_scalar_def utf8_lead_def byte_of_char_of)
  have 2: "utf8_chars (utf8_encode c @ s) = c # utf8_chars s" if "128 \<le> c" "c < 2048"
  proof -
    have "c div 64 < 32" using that by (simp add: less_mult_imp_div_less)
    with that show ?thesis
      by (simp add: utf8_encode_def utf8_width_def utf8_scalar_def utf8_lead_def byte_of_char_of)
  qed
  have 3: "utf8_chars (utf8_encode c @ s) = c # utf8_chars s" if "2048 \<le> c" "c < 65536"
  proof -
    have "c div 4096 < 16" using that by (simp add: less_mult_imp_div_less)
    moreover have "(c div 4096 * 64 + c div 64 mod 64) * 64 + c mod 64 = c"
      using div_mult_mod_eq [of "c div 64" 64] div_mult_mod_eq [of c 64] by (simp add: div_mult2_eq [symmetric])
    ultimately show ?thesis using that
      by (simp add: utf8_encode_def utf8_width_def utf8_scalar_def utf8_lead_def byte_of_char_of)
  qed
  have 4: "utf8_chars (utf8_encode c @ s) = c # utf8_chars s" if "65536 \<le> c"
  proof -
    have "c div 262144 < 5" using assms by (simp add: less_mult_imp_div_less)
    moreover have "((c div 262144 * 64 + c div 4096 mod 64) * 64 + c div 64 mod 64) * 64 + c mod 64 = c"
      using div_mult_mod_eq [of "c div 4096" 64] div_mult_mod_eq [of "c div 64" 64] div_mult_mod_eq [of c 64]
      by (simp add: div_mult2_eq [symmetric])
    ultimately show ?thesis using that
      by (simp add: utf8_encode_def utf8_width_def utf8_scalar_def utf8_lead_def byte_of_char_of)
  qed
  from 1 2 3 4 show ?thesis by linarith
qed

lemma utf8_round_trip: "(\<And>c. c \<in> set cs \<Longrightarrow> c < 1114112) \<Longrightarrow> utf8_chars (utf8_text cs) = cs"
  by (induction cs) (simp_all add: utf8_text_def utf8_chars_encode)

lemma length_utf8_encode [simp]: "length (utf8_encode c) = len_utf8 c"
  by (simp add: utf8_encode_def len_utf8_def)

lemma byte_offset_full: "byte_offset cs (length cs) = length (utf8_text cs)"
  by (induction cs) (simp_all add: byte_offset_def utf8_text_def)

section \<open>The language of a pattern\<close>

fun seg_lang :: "lower_table \<Rightarrow> seg \<Rightarrow> chr list \<Rightarrow> bool" where
  "seg_lang lower (Lit lit) u = chars_eq_ignore_case lower u lit"
| "seg_lang lower (Alt alts) u = list_ex (chars_eq_ignore_case lower u) alts"
| "seg_lang lower (Cls m q) u =
     (list_all (class_contains lower m) u \<and>
      (case q_exact q of Some n \<Rightarrow> length u = n | None \<Rightarrow> q_min q \<le> length u))"

fun segs_lang :: "lower_table \<Rightarrow> seg list \<Rightarrow> chr list \<Rightarrow> bool" where
  "segs_lang lower [] u = (u = [])"
| "segs_lang lower (g # gs) u = (\<exists>x y. u = x @ y \<and> seg_lang lower g x \<and> segs_lang lower gs y)"

text \<open>The characters \<open>a\<close> to \<open>b\<close> of a text are a word of the pattern.\<close>

definition occurs :: "lower_table \<Rightarrow> seg list \<Rightarrow> chr list \<Rightarrow> nat \<Rightarrow> nat \<Rightarrow> bool" where
  "occurs lower segs w a b \<longleftrightarrow> a \<le> b \<and> b \<le> length w \<and> segs_lang lower segs (take (b - a) (drop a w))"

text \<open>What a compiler makes of a quantifier: an exact count is also the minimum.\<close>

fun seg_exact :: "seg \<Rightarrow> bool" where
  "seg_exact (Cls m q) = (case q_exact q of Some n \<Rightarrow> n = q_min q | None \<Rightarrow> True)"
| "seg_exact _ = True"

text \<open>Every segment of a strictly compiled pattern consumes a character.\<close>

fun seg_consumes :: "seg \<Rightarrow> bool" where
  "seg_consumes (Lit lit) = (lit \<noteq> [])"
| "seg_consumes (Alt alts) = ([] \<notin> set alts)"
| "seg_consumes (Cls m q) = (0 < q_min q)"

text \<open>No member of an alternation is, up to case, a proper prefix of another.\<close>

definition prefix_free :: "lower_table \<Rightarrow> chr list list \<Rightarrow> bool" where
  "prefix_free lower alts \<longleftrightarrow>
     list_all (\<lambda>a. list_all (\<lambda>b. length a < length b \<longrightarrow>
       \<not> chars_eq_ignore_case lower (take (length a) b) a) alts) alts"

fun seg_prefix_free :: "lower_table \<Rightarrow> seg \<Rightarrow> bool" where
  "seg_prefix_free lower (Alt alts) = prefix_free lower alts"
| "seg_prefix_free lower _ = True"

section \<open>The matcher\<close>

lemma chars_eq_length: "chars_eq_ignore_case lower a b \<Longrightarrow> length a = length b"
  by (simp add: chars_eq_ignore_case_def)

lemma chars_eq_iff:
  "chars_eq_ignore_case lower a b \<longleftrightarrow> map lower a = map lower b"
proof
  assume "chars_eq_ignore_case lower a b"
  then show "map lower a = map lower b"
    unfolding chars_eq_ignore_case_def by (auto simp: list_all_length intro: nth_equalityI)
next
  assume eq: "map lower a = map lower b"
  then have "length a = length b" by (rule map_eq_imp_length_eq)
  with eq show "chars_eq_ignore_case lower a b"
    unfolding chars_eq_ignore_case_def by (simp add: list_all_length) (metis nth_map)
qed

lemma lit_at_iff:
  "pos \<le> length w \<Longrightarrow>
   lit_at lower lit w pos \<longleftrightarrow> (\<exists>x y. drop pos w = x @ y \<and> map lower x = map lower lit)"
proof
  assume "lit_at lower lit w pos"
  then have "map lower (take (length lit) (drop pos w)) = map lower lit"
    by (simp add: lit_at_def chars_eq_iff)
  moreover have "drop pos w = take (length lit) (drop pos w) @ drop (length lit) (drop pos w)"
    by (simp only: append_take_drop_id)
  ultimately show "\<exists>x y. drop pos w = x @ y \<and> map lower x = map lower lit" by blast
next
  assume pos: "pos \<le> length w" and "\<exists>x y. drop pos w = x @ y \<and> map lower x = map lower lit"
  then obtain x y where xy: "drop pos w = x @ y" "map lower x = map lower lit" by blast
  from xy(2) have len: "length x = length lit" by (rule map_eq_imp_length_eq)
  have "length (drop pos w) = length x + length y" by (simp add: xy(1))
  with pos len have "pos + length lit \<le> length w" by simp
  with xy len show "lit_at lower lit w pos" by (simp add: lit_at_def chars_eq_iff)
qed

lemma backtrack_Some:
  "backtrack f lo k = Some e \<Longrightarrow> lo \<le> k \<Longrightarrow> \<exists>j. lo \<le> j \<and> j \<le> k \<and> f j = Some e"
proof (induction k)
  case (Suc k)
  show ?case
  proof (cases "f (Suc k)")
    case None
    with Suc.prems have "Suc k \<noteq> lo" "backtrack f lo k = Some e" by (auto split: if_splits)
    with Suc show ?thesis by (metis le_SucE le_SucI)
  next
    case (Some e')
    with Suc.prems show ?thesis by auto
  qed
qed auto

lemma backtrack_finds:
  "f j \<noteq> None \<Longrightarrow> lo \<le> j \<Longrightarrow> j \<le> k \<Longrightarrow> backtrack f lo k \<noteq> None"
proof (induction k)
  case (Suc k)
  show ?case
  proof (cases "f (Suc k)")
    case None
    with Suc.prems have "j \<le> k" by (metis le_SucE)
    with None Suc show ?thesis by auto
  qed simp
qed simp

lemma drop_add_prefix: "drop pos w = x @ y \<Longrightarrow> drop (pos + length x) w = y"
  by (metis add.commute append_eq_conv_conj drop_drop)

lemma match_sound:
  assumes "match_segments lower segs w pos = Some e" and "pos \<le> length w" and "list_all seg_exact segs"
  shows "\<exists>x y. drop pos w = x @ y \<and> e = pos + length x \<and> segs_lang lower segs x"
  using assms
proof (induction segs arbitrary: pos)
  case Nil
  then show ?case by auto
next
  case (Cons g gs)
  have step: ?case
    if x: "drop pos w = x @ y" "seg_lang lower g x"
      and m: "match_segments lower gs w (pos + length x) = Some e" for x y
  proof -
    have "pos + length x \<le> length w"
      using Cons.prems(2) arg_cong [OF x(1), of length] by simp
    from Cons.IH [OF m this] Cons.prems(3) obtain u v
      where uv: "drop (pos + length x) w = u @ v" "e = pos + length x + length u" "segs_lang lower gs u"
      by auto
    from uv(1) x(1) have "drop pos w = (x @ u) @ v" by (simp add: drop_add_prefix)
    with uv x(2) show ?thesis by (intro exI [of _ "x @ u"] exI [of _ v]) auto
  qed
  have at: "\<exists>y. drop pos w = take (length lit) (drop pos w) @ y \<and>
      chars_eq_ignore_case lower (take (length lit) (drop pos w)) lit \<and>
      length (take (length lit) (drop pos w)) = length lit" if "lit_at lower lit w pos" for lit
    using that by (auto simp: lit_at_def intro: append_take_drop_id [symmetric])
  show ?case
  proof (cases g)
    case (Lit lit)
    with Cons.prems have l: "lit_at lower lit w pos" "match_segments lower gs w (pos + length lit) = Some e"
      by (auto split: if_splits)
    from at [OF l(1)] obtain y where "drop pos w = take (length lit) (drop pos w) @ y"
      "seg_lang lower g (take (length lit) (drop pos w))"
      "match_segments lower gs w (pos + length (take (length lit) (drop pos w))) = Some e"
      using Lit l(2) by auto
    then show ?thesis by (rule step)
  next
    case (Alt alts)
    with Cons.prems obtain alt where f: "List.find (\<lambda>alt. lit_at lower alt w pos) alts = Some alt"
      "match_segments lower gs w (pos + length alt) = Some e" by (auto split: option.splits)
    from f(1) have l: "lit_at lower alt w pos" "alt \<in> set alts" by (auto simp: find_Some_iff)
    from at [OF l(1)] obtain y where "drop pos w = take (length alt) (drop pos w) @ y"
      "seg_lang lower g (take (length alt) (drop pos w))"
      "match_segments lower gs w (pos + length (take (length alt) (drop pos w))) = Some e"
      using Alt f(2) l(2) by (auto simp: list_ex_iff)
    then show ?thesis by (rule step)
  next
    case (Cls m q)
    let ?r = "takeWhile (class_contains lower m) (drop pos w)"
    have run: "q_min q \<le> length ?r" using Cls Cons.prems by (auto simp: class_run_def Let_def split: if_splits)
    obtain k where k: "k \<le> length ?r" "match_segments lower gs w (pos + k) = Some e"
      "case q_exact q of Some n \<Rightarrow> k = n | None \<Rightarrow> q_min q \<le> k"
    proof (cases "q_exact q")
      case None
      with Cls Cons.prems run have "backtrack (\<lambda>k. match_segments lower gs w (pos + k)) (q_min q) (length ?r) = Some e"
        by (simp add: class_run_def)
      from backtrack_Some [OF this run] None that show ?thesis by auto
    next
      case (Some n)
      with Cls Cons.prems run that [of n] show ?thesis by (auto simp: class_run_def)
    qed
    have "take k ?r = take k (drop pos w)"
      using k(1) by (metis append_take_drop_id take_append takeWhile_dropWhile_id diff_is_0_eq' take0 append_Nil2)
    moreover have "list_all (class_contains lower m) (take k ?r)"
      by (auto simp: list_all_iff dest: in_set_takeD set_takeWhileD)
    moreover have "length (take k ?r) = k" using k(1) by simp
    ultimately have "seg_lang lower g (take k (drop pos w))" "length (take k (drop pos w)) = k"
      using Cls k(3) by (auto split: option.splits)
    with k(2) show ?thesis
      by (intro step [of "take k (drop pos w)" "drop k (drop pos w)"]) (simp_all only: append_take_drop_id)
  qed
qed

lemma match_complete:
  assumes "drop pos w = x @ y" and "pos \<le> length w" and "segs_lang lower segs x"
    and "list_all seg_exact segs" and "list_all (seg_prefix_free lower) segs"
  shows "match_segments lower segs w pos \<noteq> None"
  using assms
proof (induction segs arbitrary: pos x)
  case Nil
  then show ?case by simp
next
  case (Cons g gs)
  from Cons.prems(3) obtain u v where uv: "x = u @ v" "seg_lang lower g u" "segs_lang lower gs v" by auto
  have d: "drop pos w = u @ (v @ y)" using Cons.prems(1) uv(1) by simp
  have rest: "match_segments lower gs w (pos + length u) \<noteq> None"
  proof (rule Cons.IH)
    show "drop (pos + length u) w = v @ y" using d by (rule drop_add_prefix)
    show "pos + length u \<le> length w" using Cons.prems(2) arg_cong [OF d, of length] by simp
  qed (use uv Cons.prems in auto)
  have at: "lit_at lower lit w pos" if "chars_eq_ignore_case lower u lit" for lit
    using that d Cons.prems(2) by (auto simp: lit_at_iff chars_eq_iff)
  show ?case
  proof (cases g)
    case (Lit lit)
    with uv(2) have e: "chars_eq_ignore_case lower u lit" by simp
    with at [OF e] rest Lit show ?thesis by (simp add: chars_eq_length)
  next
    case (Alt alts)
    with uv(2) obtain alt where alt: "alt \<in> set alts" "chars_eq_ignore_case lower u alt"
      by (auto simp: list_ex_iff)
    then have "List.find (\<lambda>alt. lit_at lower alt w pos) alts \<noteq> None"
      using at by (auto simp: find_None_iff)
    then obtain alt' where f: "List.find (\<lambda>alt. lit_at lower alt w pos) alts = Some alt'" by blast
    then have alt': "alt' \<in> set alts" "lit_at lower alt' w pos" by (auto simp: find_Some_iff)
    have pf: "length a < length b \<Longrightarrow> map lower (take (length a) b) \<noteq> map lower a"
      if "a \<in> set alts" "b \<in> set alts" for a b
      using Cons.prems(5) Alt that by (auto simp: prefix_free_def list_all_iff chars_eq_iff)
    from alt'(2) have e': "map lower (take (length alt') (drop pos w)) = map lower alt'"
      by (simp add: lit_at_def chars_eq_iff)
    from at [OF alt(2)] have e: "map lower (take (length alt) (drop pos w)) = map lower alt"
      by (simp add: lit_at_def chars_eq_iff)
    have "length alt' = length alt"
    proof (rule ccontr)
      assume "length alt' \<noteq> length alt"
      then consider "length alt' < length alt" | "length alt < length alt'" by linarith
      then show False
      proof cases
        case 1
        from arg_cong [OF e, of "take (length alt')"] 1 e'
        have "map lower (take (length alt') alt) = map lower alt'" by (simp add: take_map)
        with pf [OF alt'(1) alt(1) 1] show False by contradiction
      next
        case 2
        from arg_cong [OF e', of "take (length alt)"] 2 e
        have "map lower (take (length alt) alt') = map lower alt" by (simp add: take_map)
        with pf [OF alt(1) alt'(1) 2] show False by contradiction
      qed
    qed
    with rest Alt f alt(2) show ?thesis by (simp add: chars_eq_length)
  next
    case (Cls m q)
    with uv(2) have all: "list_all (class_contains lower m) u" by simp
    then have run: "length u \<le> class_run lower m w pos"
      unfolding class_run_def d by (simp add: takeWhile_append2 list_all_iff)
    show ?thesis
    proof (cases "q_exact q")
      case None
      with Cls uv(2) have min: "q_min q \<le> length u" by simp
      from backtrack_finds [of "\<lambda>k. match_segments lower gs w (pos + k)", OF rest min run] None Cls min run
      show ?thesis by simp
    next
      case (Some n)
      with Cls uv(2) Cons.prems(4) have "length u = n" "n = q_min q" by auto
      with rest run Some Cls show ?thesis by simp
    qed
  qed
qed

lemma segs_lang_nonempty:
  assumes "segs_lang lower segs x" and "list_all seg_consumes segs" and "list_all seg_exact segs" and "segs \<noteq> []"
  shows "x \<noteq> []"
proof -
  from assms obtain g gs u v where g: "segs = g # gs" "x = u @ v" "seg_lang lower g u" by (cases segs) auto
  have "u \<noteq> []"
    using g(3) assms(2,3) unfolding g(1)
    by (cases g) (auto simp: chars_eq_iff list_ex_iff split: option.splits)
  with g(2) show ?thesis by simp
qed

end
