(* ===== verification/Secret_Scanning.thy ===== *)
theory Secret_Scanning
  imports Secret_Matching
begin

text \<open>
  The two compilers of secret patterns agree on what the strict one accepts, the scan reports the
  occurrences of the accepted patterns, and a redaction replaces the reported spans and nothing else.
\<close>

section \<open>The compilers\<close>

lemma strict_quantifier_permissive:
  assumes "strict_quant_opt pattern i r = Inr (q, j, r')"
  shows "parse_quantifier r = Some (q, r') \<and> 0 < q_min q \<and> seg_exact (Cls m q)"
proof -
  have "\<not> chr_digit 125" by (simp add: chr_digit_def)
  with assms show ?thesis
    by (auto simp: strict_quant_opt_def strict_quantifier_def parse_quantifier_def pattern_err_def Let_def
        one_char_def simp del: dropWhile_eq_Nil_conv split: list.splits if_splits)
qed

lemma strict_class_ok: "strict_class lower pattern i spec = Inr cls \<Longrightarrow> cls = parse_class lower spec"
  by (auto simp: strict_class_def pattern_err_def Let_def split: if_splits option.splits)

lemma strict_group_ok:
  "strict_group pattern i body = Inr alts \<Longrightarrow> alts = split_on 124 body \<and> [] \<notin> set alts"
  by (auto simp: strict_group_def pattern_err_def Let_def split: if_splits)

lemma strict_from_permissive:
  "strict_from lower pattern i cs lit segs = Inr out \<Longrightarrow> compile_from lower cs lit segs = Some out"
proof (induction lower pattern i cs lit segs rule: strict_from.induct)
  case (1 lower pattern i lit segs)
  then show ?case by (auto simp: Let_def pattern_err_def split: if_splits)
next
  case (2 lower pattern i c cs lit segs)
  consider "c = 91" | "c = 40" | "c \<noteq> 91" "c \<noteq> 40" by blast
  then show ?case
  proof cases
    case 1
    with 2(4) obtain spec r cls q j r' where
      ok: "split_once_at 93 cs = Some (spec, r)" "strict_class lower pattern i spec = Inr cls"
        "strict_quant_opt pattern (i + 2 + length spec) r = Inr (q, j, r')"
        "strict_from lower pattern j r' [] (flush_literal lit segs @ [Cls cls q]) = Inr out"
      by (auto simp: pattern_err_def split: if_splits option.splits sum.splits)
    have nm: "\<not> meta_chr c" using 1 by (simp add: meta_chr_def META_def)
    from 2(1) [OF nm _ _ _ 1 ok(1) refl ok(2,3) refl refl ok(4)] 1
    have "compile_from lower r' [] (flush_literal lit segs @ [Cls cls q]) = Some out" by simp
    with 1 ok strict_quantifier_permissive [OF ok(3)] strict_class_ok [OF ok(2)] show ?thesis by simp
  next
    case 2
    with "2.prems" obtain body r alts where
      ok: "split_once_at 41 cs = Some (body, r)" "strict_group pattern i body = Inr alts"
        "strict_from lower pattern (i + 2 + length body) r [] (flush_literal lit segs @ [Alt alts]) = Inr out"
      by (auto simp: pattern_err_def split: if_splits option.splits sum.splits)
    have nm: "\<not> meta_chr c" using 2 by (simp add: meta_chr_def META_def)
    from "2.IH"(2) [OF nm _ _ _ _ 2 ok(1) refl ok(2,3)] 2
    have "compile_from lower r [] (flush_literal lit segs @ [Alt alts]) = Some out" by simp
    moreover from strict_group_ok [OF ok(2)] have "alts = split_on 124 body" "[] \<notin> set (split_on 124 body)" by auto
    ultimately show ?thesis using 2 ok(1) by (simp add: Let_def)
  next
    case 3
    with "2.prems" have "\<not> meta_chr c" "c \<noteq> 124" "\<not> (c = 41 \<or> c = 93 \<or> c = 125)" "c \<noteq> 123"
      "strict_from lower pattern (i + 1) cs (lit @ [c]) segs = Inr out"
      by (auto simp: pattern_err_def split: if_splits)
    from "2.IH"(3) [OF this(1-4) 3 this(5)] 3 show ?thesis by simp
  qed
qed

lemma flush_literal_all [simp]:
  "list_all P (flush_literal lit segs) \<longleftrightarrow> list_all P segs \<and> (lit \<noteq> [] \<longrightarrow> P (Lit lit))"
  by (auto simp: flush_literal_def)

lemma strict_from_shape:
  "strict_from lower pattern i cs lit segs = Inr out \<Longrightarrow> list_all (\<lambda>g. seg_exact g \<and> seg_consumes g) segs \<Longrightarrow>
   list_all (\<lambda>g. seg_exact g \<and> seg_consumes g) out \<and> out \<noteq> []"
proof (induction lower pattern i cs lit segs rule: strict_from.induct)
  case (1 lower pattern i lit segs)
  then show ?case by (auto simp: Let_def pattern_err_def split: if_splits)
next
  case (2 lower pattern i c cs lit segs)
  consider "c = 91" | "c = 40" | "c \<noteq> 91" "c \<noteq> 40" by blast
  then show ?case
  proof cases
    case 1
    with "2.prems" obtain spec r cls q j r' where
      ok: "split_once_at 93 cs = Some (spec, r)" "strict_class lower pattern i spec = Inr cls"
        "strict_quant_opt pattern (i + 2 + length spec) r = Inr (q, j, r')"
        "strict_from lower pattern j r' [] (flush_literal lit segs @ [Cls cls q]) = Inr out"
      by (auto simp: pattern_err_def split: if_splits option.splits sum.splits)
    have nm: "\<not> meta_chr c" using 1 by (simp add: meta_chr_def META_def)
    from "2.IH"(1) [OF nm _ _ _ 1 ok(1) refl ok(2,3) refl refl ok(4)] 1 "2.prems"(2)
      strict_quantifier_permissive [OF ok(3), of cls]
    show ?thesis by simp
  next
    case 2
    with "2.prems" obtain body r alts where
      ok: "split_once_at 41 cs = Some (body, r)" "strict_group pattern i body = Inr alts"
        "strict_from lower pattern (i + 2 + length body) r [] (flush_literal lit segs @ [Alt alts]) = Inr out"
      by (auto simp: pattern_err_def split: if_splits option.splits sum.splits)
    have nm: "\<not> meta_chr c" using 2 by (simp add: meta_chr_def META_def)
    from strict_group_ok [OF ok(2)] have "seg_consumes (Alt alts)" by auto
    with "2.IH"(2) [OF nm _ _ _ _ 2 ok(1) refl ok(2,3)] 2 "2.prems"(2) show ?thesis by simp
  next
    case 3
    with "2.prems" have "\<not> meta_chr c" "c \<noteq> 124" "\<not> (c = 41 \<or> c = 93 \<or> c = 125)" "c \<noteq> 123"
      "strict_from lower pattern (i + 1) cs (lit @ [c]) segs = Inr out"
      by (auto simp: pattern_err_def split: if_splits)
    from "2.IH"(3) [OF this(1-4) 3 this(5)] "2.prems"(2) show ?thesis by simp
  qed
qed

lemma strict_compile_permissive: "strict_compile lower p = Inr segs \<Longrightarrow> compile lower p = Some segs"
  unfolding strict_compile_def compile_def by (rule strict_from_permissive)

lemma strict_compile_shape:
  "strict_compile lower p = Inr segs \<Longrightarrow> list_all seg_exact segs \<and> list_all seg_consumes segs \<and> segs \<noteq> []"
  using strict_from_shape [of lower p 0 "utf8_chars p" "[]" "[]" segs]
  by (auto simp: strict_compile_def list_all_iff)

section \<open>The compiled policy\<close>

lemma try_fold_collect:
  "try_fold (\<lambda>acc x. bind_result (f x) (\<lambda>y. Inr (acc @ [y]))) acc xs = Inr out \<longleftrightarrow>
   (\<exists>ys. out = acc @ ys \<and> list_all2 (\<lambda>x y. f x = Inr y) xs ys)"
proof (induction xs arbitrary: acc)
  case (Cons x xs)
  show ?case
  proof (cases "f x")
    case (Inl e)
    then show ?thesis by (auto simp: list_all2_Cons1)
  next
    case (Inr y)
    with Cons [of "acc @ [y]"] show ?thesis by (auto simp: list_all2_Cons1)
  qed
qed auto

lemma compiled_try_from_ok:
  assumes "compiled_try_from lower policy = Inr cp"
  shows "cp_source cp = policy \<and> list_all2 (\<lambda>p segs. strict_compile lower p = Inr segs) (key_patterns policy) (cp_compiled cp)"
  using assms by (auto simp: compiled_try_from_def try_fold_collect)

lemma compiled_patterns_from:
  "list_all2 (\<lambda>p segs. strict_compile lower p = Inr segs) ps cs \<Longrightarrow>
   List.map_filter (\<lambda>(pidx, p). case compile lower p of
       Some segs \<Rightarrow> if segs = [] then None else Some (pidx, segs) | None \<Rightarrow> None) (List.enumerate n ps)
     = List.enumerate n cs"
proof (induction ps cs arbitrary: n rule: list_all2_induct)
  case (Cons p ps c cs)
  with strict_compile_permissive [OF Cons(1)] strict_compile_shape [OF Cons(1)] show ?case
    by (simp add: List.map_filter_simps)
qed (simp add: List.map_filter_simps)

lemma accepted_patterns:
  assumes "compiled_try_from lower policy = Inr cp"
  shows "compiled_patterns lower (key_patterns policy) = List.enumerate 0 (cp_compiled cp)"
  using compiled_try_from_ok [OF assms] by (simp add: compiled_patterns_def compiled_patterns_from)

lemma spans_no_patterns [simp]:
  "collect_spans_from_compiled lower s [] = []" "collect_spans_from_compiled lower [] ps = []"
  by (simp_all add: collect_spans_from_compiled_def raw_hits_def Let_def)

lemma accepted_empty:
  "compiled_try_from lower policy = Inr cp \<Longrightarrow> cp_compiled cp = [] \<longleftrightarrow> key_patterns policy = []"
  by (auto dest!: compiled_try_from_ok list_all2_lengthD)

section \<open>The scan of one pattern\<close>

lemma scan_pattern_sound:
  "(a, b) \<in> set (scan_pattern lower segs w pos) \<Longrightarrow>
   pos \<le> a \<and> a < b \<and> a < length w \<and> match_segments lower segs w a = Some b"
proof (induction lower segs w pos rule: scan_pattern.induct)
  case (1 lower segs w pos)
  have unf: "scan_pattern lower segs w pos =
     (if length w \<le> pos then []
      else case match_segments lower segs w pos of
          Some e \<Rightarrow> if pos < e then (pos, e) # scan_pattern lower segs w e else scan_pattern lower segs w (pos + 1)
        | None \<Rightarrow> scan_pattern lower segs w (pos + 1))"
    by (rule scan_pattern.simps)
  show ?case
  proof (cases "length w \<le> pos")
    case True
    with 1(4) unf show ?thesis by simp
  next
    case False
    show ?thesis
    proof (cases "match_segments lower segs w pos")
      case None
      with unf False 1(4) have "(a, b) \<in> set (scan_pattern lower segs w (pos + 1))" by simp
      from 1(1) [OF False None this] show ?thesis by simp
    next
      case (Some e)
      show ?thesis
      proof (cases "pos < e")
        case True
        with unf False Some 1(4) have "(a, b) = (pos, e) \<or> (a, b) \<in> set (scan_pattern lower segs w e)" by simp
        with 1(2) [OF False Some True] True False Some show ?thesis by auto
      next
        case e: False
        with unf False Some 1(4) have "(a, b) \<in> set (scan_pattern lower segs w (pos + 1))" by simp
        from 1(3) [OF False Some e this] show ?thesis by simp
      qed
    qed
  qed
qed

text \<open>Every position where the pattern matches is inside a hit.\<close>

lemma scan_pattern_covers:
  "pos \<le> a \<Longrightarrow> a < length w \<Longrightarrow> match_segments lower segs w a = Some b \<Longrightarrow> a < b \<Longrightarrow>
   \<exists>s t. (s, t) \<in> set (scan_pattern lower segs w pos) \<and> s \<le> a \<and> a < t"
proof (induction lower segs w pos rule: scan_pattern.induct)
  case (1 lower segs w pos)
  have unf: "scan_pattern lower segs w pos =
     (if length w \<le> pos then []
      else case match_segments lower segs w pos of
          Some e \<Rightarrow> if pos < e then (pos, e) # scan_pattern lower segs w e else scan_pattern lower segs w (pos + 1)
        | None \<Rightarrow> scan_pattern lower segs w (pos + 1))"
    by (rule scan_pattern.simps)
  from "1.prems" have n: "\<not> length w \<le> pos" by simp
  show ?case
  proof (cases "match_segments lower segs w pos")
    case None
    with "1.prems" have "pos + 1 \<le> a" by (metis Suc_eq_plus1 Suc_leI le_neq_implies_less option.distinct(1))
    from "1.IH"(1) [OF n None this "1.prems"(2-4)] unf None n show ?thesis by simp
  next
    case (Some e)
    show ?thesis
    proof (cases "pos < e")
      case True
      show ?thesis
      proof (cases "a < e")
        case a: True
        with unf Some True n "1.prems"(1) show ?thesis by auto
      next
        case False
        then have "e \<le> a" by simp
        from "1.IH"(2) [OF n Some True this "1.prems"(2-4)] unf Some True n show ?thesis by auto
      qed
    next
      case False
      with Some "1.prems" have "pos + 1 \<le> a"
        by (metis Suc_eq_plus1 Suc_leI le_neq_implies_less option.inject)
      from "1.IH"(3) [OF n Some False this "1.prems"(2-4)] unf Some False n show ?thesis by simp
    qed
  qed
qed

section \<open>The reported spans\<close>

lemma pick_hits_subset: "set (pick_hits l hs) \<subseteq> set hs"
  by (induction l hs rule: pick_hits.induct) auto

lemma pick_hits_empty [simp]: "pick_hits 0 hs = [] \<longleftrightarrow> hs = []"
  by (cases hs) auto

lemma pick_hits_from:
  "(\<And>s e p. (s, e, p) \<in> set hs \<Longrightarrow> s < e) \<Longrightarrow> (a, b, i) \<in> set (pick_hits l hs) \<Longrightarrow> l \<le> a"
proof (induction l hs rule: pick_hits.induct)
  case (2 l s e p hs)
  have lt: "s < e" by (rule "2.prems"(1) [of s e p]) simp
  show ?case
  proof (cases "l \<le> s")
    case True
    with "2.prems"(2) consider "a = s" | "(a, b, i) \<in> set (pick_hits e hs)" by auto
    then show ?thesis
    proof cases
      case 2
      from "2.IH"(1) [OF True _ this] "2.prems"(1) have "e \<le> a" by (meson list.set_intros(2))
      with lt True show ?thesis by simp
    qed (use True in simp)
  next
    case False
    with "2.prems" show ?thesis by (intro "2.IH"(2) [OF False]) auto
  qed
qed simp

lemma pick_hits_disjoint:
  "(\<And>s e p. (s, e, p) \<in> set hs \<Longrightarrow> s < e) \<Longrightarrow>
   sorted_wrt (\<lambda>h h'. fst (snd h) \<le> fst h') (pick_hits l hs)"
proof (induction l hs rule: pick_hits.induct)
  case (2 l s e p hs)
  then have tl: "a < b" if "(a, b, i) \<in> set hs" for a b i using that by (meson list.set_intros(2))
  show ?case
  proof (cases "l \<le> s")
    case True
    have "e \<le> fst h" if "h \<in> set (pick_hits e hs)" for h
      using that pick_hits_from [OF tl, where a = "fst h" and b = "fst (snd h)" and i = "snd (snd h)" and l = e] by simp
    with "2.IH"(1) [OF True tl] True show ?thesis by simp
  next
    case False
    with "2.IH"(2) [OF False tl] show ?thesis by simp
  qed
qed simp

lemma raw_hits_iff:
  "(s, e, p) \<in> set (raw_hits lower w patterns) \<longleftrightarrow>
   (\<exists>segs. (p, segs) \<in> set patterns \<and> segs \<noteq> [] \<and> (s, e) \<in> set (scan_pattern lower segs w 0))"
proof -
  have "h \<in> set (raw_hits lower w patterns) \<longleftrightarrow>
      (\<exists>p segs s e. (p, segs) \<in> set patterns \<and> segs \<noteq> [] \<and> (s, e) \<in> set (scan_pattern lower segs w 0) \<and> h = (s, e, p))" for h
    unfolding raw_hits_def by (auto split: if_splits) (force split: if_splits)+
  then show ?thesis by auto
qed

lemma enumerate_iff: "(i, x) \<in> set (List.enumerate 0 xs) \<longleftrightarrow> i < length xs \<and> x = xs ! i"
  by (auto simp: in_set_enumerate_eq)

lemma byte_offset_mono: "a \<le> b \<Longrightarrow> byte_offset w a \<le> byte_offset w b"
proof -
  assume "a \<le> b"
  then have "take b w = take a w @ take (b - a) (drop a w)"
    by (metis le_add_diff_inverse take_add)
  then show ?thesis by (simp add: byte_offset_def)
qed

lemma spans_sorted:
  "sorted_wrt (\<lambda>x y. sp_end x \<le> sp_start y) (collect_spans_from_compiled lower s patterns) \<and>
   (\<forall>sp \<in> set (collect_spans_from_compiled lower s patterns). sp_start sp \<le> sp_end sp)"
proof -
  let ?w = "utf8_chars s"
  let ?hs = "sort_key hit_key (raw_hits lower ?w patterns)"
  have lt: "a < b" if "(a, b, p) \<in> set ?hs" for a b p
    using that scan_pattern_sound by (fastforce simp: raw_hits_iff)
  then have "sorted_wrt (\<lambda>h h'. fst (snd h) \<le> fst h') (pick_hits 0 ?hs)" by (rule pick_hits_disjoint)
  then have "sorted_wrt (\<lambda>h h'. byte_offset ?w (fst (snd h)) \<le> byte_offset ?w (fst h')) (pick_hits 0 ?hs)"
    by (rule sorted_wrt_mono_rel [rotated]) (rule byte_offset_mono)
  moreover have "byte_offset ?w (fst h) \<le> byte_offset ?w (fst (snd h))" if "h \<in> set (pick_hits 0 ?hs)" for h
    using subsetD [OF pick_hits_subset that] lt [of "fst h" "fst (snd h)" "snd (snd h)"]
    by (intro byte_offset_mono less_imp_le) simp
  ultimately show ?thesis
    by (simp add: collect_spans_from_compiled_def Let_def sorted_wrt_map case_prod_beta)
qed

section \<open>Redaction\<close>

text \<open>The text between the spans, from a cursor on.\<close>

fun gaps_of :: "string \<Rightarrow> nat \<Rightarrow> span_hit list \<Rightarrow> string list" where
  "gaps_of s cursor [] = []"
| "gaps_of s cursor (sp # sps) = byte_slice s cursor (sp_start sp) # gaps_of s (sp_end sp) sps"

lemma length_gaps_of [simp]: "length (gaps_of s c sps) = length sps"
  by (induction s c sps rule: gaps_of.induct) auto

definition cursor_after :: "nat \<Rightarrow> span_hit list \<Rightarrow> nat" where
  "cursor_after c sps = (if sps = [] then c else sp_end (last sps))"

definition span_mark :: "string list \<Rightarrow> span_hit \<Rightarrow> string" where
  "span_mark patterns sp = redaction_mark (kind_of_pattern (patterns ! sp_pattern_index sp) (sp_pattern_index sp))"

lemma cursor_after_Cons [simp]: "cursor_after c (sp # sps) = cursor_after (sp_end sp) sps"
  by (simp add: cursor_after_def)

lemma redact_step_eq:
  "redact_step s patterns (out, c) sp = (out @ byte_slice s c (sp_start sp) @ span_mark patterns sp, sp_end sp)"
  by (simp add: redact_step_def span_mark_def)

lemma redact_fold:
  "foldl (redact_step s patterns) (out, c) sps =
   (out @ concat (map2 (\<lambda>g sp. g @ span_mark patterns sp) (gaps_of s c sps) sps), cursor_after c sps)"
  by (induction sps arbitrary: out c) (simp_all add: redact_step_eq cursor_after_def [of _ "[]"])

lemma byte_slice_drop: "c \<le> a \<Longrightarrow> byte_slice s c a @ drop a s = drop c s"
proof -
  assume "c \<le> a"
  then have "drop a s = drop (a - c) (drop c s)" by simp
  then show ?thesis unfolding byte_slice_def by (simp only: append_take_drop_id)
qed

lemma gaps_cover:
  assumes "sorted_wrt (\<lambda>x y. sp_end x \<le> sp_start y) sps" and "\<forall>sp \<in> set sps. sp_start sp \<le> sp_end sp"
    and "\<forall>sp \<in> set sps. c \<le> sp_start sp"
  shows "concat (map2 (\<lambda>g sp. g @ byte_slice s (sp_start sp) (sp_end sp)) (gaps_of s c sps) sps) @ drop (cursor_after c sps) s
    = drop c s"
  using assms
proof (induction sps arbitrary: c)
  case (Cons sp sps)
  then have "concat (map2 (\<lambda>g sp. g @ byte_slice s (sp_start sp) (sp_end sp)) (gaps_of s (sp_end sp) sps) sps) @
      drop (cursor_after (sp_end sp) sps) s = drop (sp_end sp) s" by simp
  with Cons.prems show ?case by (simp add: byte_slice_drop)
qed (simp add: cursor_after_def)

lemma redact_spans_shape:
  assumes "sorted_wrt (\<lambda>x y. sp_end x \<le> sp_start y) sps" and "\<forall>sp \<in> set sps. sp_start sp \<le> sp_end sp"
  shows "\<exists>gaps tail. length gaps = length (take MAX_REDACTIONS sps) \<and>
    s = concat (map2 (\<lambda>g sp. g @ byte_slice s (sp_start sp) (sp_end sp)) gaps (take MAX_REDACTIONS sps)) @ tail \<and>
    redact_spans s patterns sps =
      concat (map2 (\<lambda>g sp. g @ span_mark patterns sp) gaps (take MAX_REDACTIONS sps)) @
      (if MAX_REDACTIONS < length sps then REDACTION_TRUNCATION_MARKER else tail)"
proof (cases "sps = []")
  case True
  then show ?thesis by (simp add: redact_spans_def MAX_REDACTIONS_def)
next
  case False
  let ?sps = "take MAX_REDACTIONS sps"
  have "sorted_wrt (\<lambda>x y. sp_end x \<le> sp_start y) ?sps" using assms(1) by (rule sorted_wrt_take)
  moreover have "\<forall>sp \<in> set ?sps. sp_start sp \<le> sp_end sp" using assms(2) by (meson in_set_takeD)
  ultimately have whole: "concat (map2 (\<lambda>g sp. g @ byte_slice s (sp_start sp) (sp_end sp)) (gaps_of s 0 ?sps) ?sps) @
      drop (cursor_after 0 ?sps) s = s"
    using gaps_cover [of ?sps 0 s] by simp
  show ?thesis
  proof (intro exI conjI)
    show "length (gaps_of s 0 ?sps) = length ?sps" by (rule length_gaps_of)
    show "s = concat (map2 (\<lambda>g sp. g @ byte_slice s (sp_start sp) (sp_end sp)) (gaps_of s 0 ?sps) ?sps) @
      drop (cursor_after 0 ?sps) s" by (rule whole [symmetric])
    show "redact_spans s patterns sps =
        concat (map2 (\<lambda>g sp. g @ span_mark patterns sp) (gaps_of s 0 ?sps) ?sps) @
        (if MAX_REDACTIONS < length sps then REDACTION_TRUNCATION_MARKER else drop (cursor_after 0 ?sps) s)"
      using False by (simp add: redact_spans_def redact_fold)
  qed
qed

end
