(* ===== verification/Secret_Theorems.thy ===== *)
theory Secret_Theorems
  imports Secret_Scanning
begin

text \<open>
  The properties of the security guard crate: the two scanners agree on accepted policies, a scan reports
  something exactly when an accepted pattern occurs, the shape of a redacted text, and two inputs on which
  the scanner and the redactor fall short of what they are for.
\<close>

section \<open>Provenance and capabilities\<close>

lemma merge_taint_set:
  "set (tt_provenance (merge_taint t u)) = set (tt_provenance t) \<union> set (tt_provenance u)"
proof -
  have "set (foldl (\<lambda>ps p. if p \<in> set ps then ps else ps @ [p]) ps qs) = set ps \<union> set qs"
    for ps qs :: "provenance list"
    by (induction qs arbitrary: ps) auto
  then show ?thesis by (simp add: merge_taint_def)
qed

lemma instruction_authority_iff:
  "instruction_authority ps \<longleftrightarrow> ps \<noteq> [] \<and> set ps \<subseteq> {Prov_User}"
proof -
  have "(case p of Prov_User \<Rightarrow> True | Prov_Tool \<Rightarrow> False | _ \<Rightarrow> False) \<longleftrightarrow> p = Prov_User" for p
    by (cases p) simp_all
  then show ?thesis
    unfolding instruction_authority_def instruction_authority_impl_def by (simp add: list_all_iff subset_iff) blast
qed

lemma merge_poisons_authority:
  "has_instruction_authority (merge_taint t u) \<Longrightarrow> tt_provenance t \<noteq> [] \<Longrightarrow> has_instruction_authority t"
  using merge_taint_set [of t u] by (auto simp: has_instruction_authority_def instruction_authority_iff)

lemma can_escalate_preorder:
  "can_escalate c c" "can_escalate a b \<Longrightarrow> can_escalate b c \<Longrightarrow> can_escalate a c"
  "can_escalate a b \<Longrightarrow> can_escalate b a \<Longrightarrow> a = b"
  by (auto simp: can_escalate_def elim!: cap_rank.elims)

section \<open>The scanners agree\<close>

definition accepted_prefix_free :: "lower_table \<Rightarrow> compiled_secret_policy \<Rightarrow> bool" where
  "accepted_prefix_free lower cp = list_all (list_all (seg_prefix_free lower)) (cp_compiled cp)"

definition default_compiled :: "compiled_secret_policy" where
  "default_compiled = (case compiled_try_from ascii_lower default_secret_policy of Inr cp \<Rightarrow> cp)"

lemma default_policy_accepted: "compiled_try_from ascii_lower default_secret_policy = Inr default_compiled"
  by code_simp

lemma default_policy_prefix_free: "accepted_prefix_free ascii_lower default_compiled"
  by code_simp

text \<open>
  C30. A policy that passes the strict configuration gate is scanned by the compiled scanner exactly as by
  the scanner that compiles permissively on every call, and redacted alike while scanning is enabled.
\<close>

theorem compiled_scanner_agrees:
  assumes "compiled_try_from lower policy = Inr cp"
  shows "scan_text lower cp s = scan_secrets lower s policy \<and>
    (scan_enabled policy \<longrightarrow> redact_text lower cp s = redact lower s policy)"
proof -
  have src: "cp_source cp = policy" using compiled_try_from_ok [OF assms] by simp
  have spans: "collect_spans lower s policy =
      (if scan_enabled policy then collect_spans_from_compiled lower s (List.enumerate 0 (cp_compiled cp)) else [])"
    using accepted_empty [OF assms] by (auto simp: collect_spans_def accepted_patterns [OF assms])
  then show ?thesis
    by (auto simp: scan_text_def scan_secrets_def redact_text_def redact_def src)
qed

theorem compiled_scanner_agrees_witness:
  "scan_text ascii_lower default_compiled ''key sk-abcdefghijklmnopqrst'' =
     scan_secrets ascii_lower ''key sk-abcdefghijklmnopqrst'' default_secret_policy \<and>
   length (scan_secrets ascii_lower ''key sk-abcdefghijklmnopqrst'' default_secret_policy) = 1"
  by (intro conjI, rule conjunct1 [OF compiled_scanner_agrees [OF default_policy_accepted]]) code_simp

section \<open>Detection\<close>

lemma accepted_shape:
  assumes "compiled_try_from lower policy = Inr cp" and "i < length (cp_compiled cp)"
  shows "list_all seg_exact (cp_compiled cp ! i) \<and> list_all seg_consumes (cp_compiled cp ! i) \<and> cp_compiled cp ! i \<noteq> []"
  using compiled_try_from_ok [OF assms(1)] assms(2) strict_compile_shape by (auto simp: list_all2_conv_all_nth)

lemma occurs_hit:
  assumes occ: "occurs lower segs w a b" and ex: "list_all seg_exact segs" and co: "list_all seg_consumes segs"
    and ne: "segs \<noteq> []" and pf: "list_all (seg_prefix_free lower) segs"
  shows "a < length w \<and> (\<exists>e. match_segments lower segs w a = Some e \<and> a < e)"
proof -
  from occ have ab: "a \<le> length w" "segs_lang lower segs (take (b - a) (drop a w))" by (auto simp: occurs_def)
  have split: "drop a w = take (b - a) (drop a w) @ drop (b - a) (drop a w)" by (simp only: append_take_drop_id)
  have "take (b - a) (drop a w) \<noteq> []" by (rule segs_lang_nonempty [OF ab(2) co ex ne])
  then have lt: "a < length w" by (cases "a < length w") auto
  from match_complete [OF split ab(1) ab(2) ex pf] obtain e where e: "match_segments lower segs w a = Some e" by blast
  from match_sound [OF e ab(1) ex] obtain x y where "e = a + length x" "segs_lang lower segs x" by blast
  moreover from segs_lang_nonempty [OF this(2) co ex ne] have "x \<noteq> []" .
  ultimately show ?thesis using e lt by simp
qed

lemma hit_occurs:
  assumes "match_segments lower segs w a = Some b" and "a \<le> length w" and "list_all seg_exact segs"
  shows "occurs lower segs w a b"
proof -
  from match_sound [OF assms] obtain x y where xy: "drop a w = x @ y" "b = a + length x" "segs_lang lower segs x"
    by blast
  have "length w - a = length x + length y" by (metis length_append length_drop xy(1))
  with assms(2) have "a + length x \<le> length w" by linarith
  with xy show ?thesis by (simp add: occurs_def)
qed

lemma spans_empty_iff:
  "collect_spans_from_compiled lower s patterns = [] \<longleftrightarrow> raw_hits lower (utf8_chars s) patterns = []"
proof -
  have "utf8_chars s = [] \<Longrightarrow> raw_hits lower (utf8_chars s) patterns = []"
    by (auto simp: raw_hits_def scan_pattern.simps)
  then show ?thesis
    by (auto simp: collect_spans_from_compiled_def Let_def) (metis length_0_conv length_sort)+
qed

text \<open>
  C29. Under an accepted policy whose alternations have no member that is a prefix of another, a scan reports
  a hit exactly when scanning is enabled and some pattern of the policy occurs somewhere in the text.
\<close>

theorem scan_reports_iff_occurs:
  assumes "compiled_try_from lower policy = Inr cp" and "accepted_prefix_free lower cp"
  shows "scan_text lower cp s \<noteq> [] \<longleftrightarrow>
    scan_enabled policy \<and> (\<exists>i < length (cp_compiled cp). \<exists>a b. occurs lower (cp_compiled cp ! i) (utf8_chars s) a b)"
proof -
  let ?w = "utf8_chars s" and ?n = "length (cp_compiled cp)"
  have "raw_hits lower ?w (List.enumerate 0 (cp_compiled cp)) \<noteq> [] \<longleftrightarrow>
      (\<exists>i < ?n. \<exists>a b. (a, b) \<in> set (scan_pattern lower (cp_compiled cp ! i) ?w 0))" (is "?L \<longleftrightarrow> ?R")
  proof -
    have "?L \<longleftrightarrow> (\<exists>a b i. (a, b, i) \<in> set (raw_hits lower ?w (List.enumerate 0 (cp_compiled cp))))"
      by (simp add: neq_Nil_conv set_empty [symmetric] ex_in_conv [symmetric] del: set_empty)
    also have "\<dots> \<longleftrightarrow> ?R" using accepted_shape [OF assms(1)] by (auto simp: raw_hits_iff enumerate_iff)
    finally show ?thesis .
  qed
  also have "\<dots> \<longleftrightarrow> (\<exists>i < ?n. \<exists>a b. occurs lower (cp_compiled cp ! i) ?w a b)"
  proof -
    have "(\<exists>a b. (a, b) \<in> set (scan_pattern lower (cp_compiled cp ! i) ?w 0)) \<longleftrightarrow>
        (\<exists>a b. occurs lower (cp_compiled cp ! i) ?w a b)" if i: "i < ?n" for i
    proof
      assume "\<exists>a b. (a, b) \<in> set (scan_pattern lower (cp_compiled cp ! i) ?w 0)"
      then obtain a b where "match_segments lower (cp_compiled cp ! i) ?w a = Some b" "a \<le> length ?w"
        by (meson less_imp_le scan_pattern_sound)
      with accepted_shape [OF assms(1) i] show "\<exists>a b. occurs lower (cp_compiled cp ! i) ?w a b"
        by (blast intro: hit_occurs)
    next
      assume "\<exists>a b. occurs lower (cp_compiled cp ! i) ?w a b"
      then obtain a b where "occurs lower (cp_compiled cp ! i) ?w a b" by blast
      moreover have "list_all (seg_prefix_free lower) (cp_compiled cp ! i)"
        using assms(2) i by (simp add: accepted_prefix_free_def list_all_length)
      ultimately obtain e where "match_segments lower (cp_compiled cp ! i) ?w a = Some e" "a < e" "a < length ?w"
        using accepted_shape [OF assms(1) i] occurs_hit by blast
      from scan_pattern_covers [OF le0 this(3,1,2)] show "\<exists>a b. (a, b) \<in> set (scan_pattern lower (cp_compiled cp ! i) ?w 0)"
        by blast
    qed
    then show ?thesis by blast
  qed
  finally have spans: "collect_spans_from_compiled lower s (List.enumerate 0 (cp_compiled cp)) \<noteq> [] \<longleftrightarrow>
      (\<exists>i < ?n. \<exists>a b. occurs lower (cp_compiled cp ! i) ?w a b)" by (simp add: spans_empty_iff)
  have "cp_source cp = policy" using compiled_try_from_ok [OF assms(1)] by simp
  then have "scan_text lower cp s \<noteq> [] \<longleftrightarrow>
      scan_enabled policy \<and> collect_spans_from_compiled lower s (List.enumerate 0 (cp_compiled cp)) \<noteq> []"
    by (auto simp: scan_text_def)
  with spans show ?thesis by simp
qed

theorem scan_reports_iff_occurs_witness:
  "scan_text ascii_lower default_compiled ''id AKIA0123456789abcdef.'' \<noteq> [] \<and>
   (\<exists>i < 6. \<exists>a b. occurs ascii_lower (cp_compiled default_compiled ! i) (utf8_chars ''id AKIA0123456789abcdef.'') a b)"
proof -
  have "scan_text ascii_lower default_compiled ''id AKIA0123456789abcdef.'' \<noteq> []" by code_simp
  moreover have "length (cp_compiled default_compiled) = 6" by code_simp
  ultimately show ?thesis
    using scan_reports_iff_occurs [OF default_policy_accepted default_policy_prefix_free, of "''id AKIA0123456789abcdef.''"]
    by simp
qed

text \<open>
  An alternation with a member that is a prefix of another is accepted by the strict gate, but the
  matcher tries only the first member that stands at the position: a text that is a word of the pattern is
  then reported clean.
\<close>

definition shadowed_pattern :: string where
  "shadowed_pattern = ''key-(a|ab)c''"

definition shadowed_policy :: secret_policy where
  "shadowed_policy = \<lparr>scan_enabled = True, block_on_secret = True, key_patterns = [shadowed_pattern]\<rparr>"

definition shadowed_segs :: "seg list" where
  "shadowed_segs = [Lit (utf8_chars ''key-''), Alt [utf8_chars ''a'', utf8_chars ''ab''], Lit (utf8_chars ''c'')]"

theorem alternation_prefix_missed:
  "compiled_try_from ascii_lower shadowed_policy = Inr \<lparr>cp_source = shadowed_policy, cp_compiled = [shadowed_segs]\<rparr> \<and>
   occurs ascii_lower shadowed_segs (utf8_chars ''key-abc'') 0 7 \<and>
   scan_text ascii_lower \<lparr>cp_source = shadowed_policy, cp_compiled = [shadowed_segs]\<rparr> ''key-abc'' = []"
proof (intro conjI)
  have "segs_lang ascii_lower shadowed_segs (utf8_chars ''key-abc'')"
  proof -
    have 1: "utf8_chars ''key-abc'' = utf8_chars ''key-'' @ (utf8_chars ''ab'' @ (utf8_chars ''c'' @ []))" by code_simp
    have 2: "seg_lang ascii_lower (Lit (utf8_chars ''key-'')) (utf8_chars ''key-'')"
      "seg_lang ascii_lower (Alt [utf8_chars ''a'', utf8_chars ''ab'']) (utf8_chars ''ab'')"
      "seg_lang ascii_lower (Lit (utf8_chars ''c'')) (utf8_chars ''c'')" by (simp_all add: chars_eq_iff)
    show ?thesis
      unfolding 1 shadowed_segs_def segs_lang.simps using 2 by blast
  qed
  then show "occurs ascii_lower shadowed_segs (utf8_chars ''key-abc'') 0 7"
    by (simp add: occurs_def utf8_width_def byte_of_def)
  show "compiled_try_from ascii_lower shadowed_policy =
      Inr \<lparr>cp_source = shadowed_policy, cp_compiled = [shadowed_segs]\<rparr>" by code_simp
  show "scan_text ascii_lower \<lparr>cp_source = shadowed_policy, cp_compiled = [shadowed_segs]\<rparr> ''key-abc'' = []"
    by code_simp
qed

section \<open>Redaction\<close>

text \<open>
  A redacted text is the original with each of the first 32 reported spans replaced by its mark and the
  text between them untouched; past the cap the whole rest is one truncation mark.
\<close>

theorem redaction_replaces_spans:
  "\<exists>gaps tail. length gaps = length (take MAX_REDACTIONS (collect_spans lower s policy)) \<and>
    s = concat (map2 (\<lambda>g sp. g @ byte_slice s (sp_start sp) (sp_end sp)) gaps
          (take MAX_REDACTIONS (collect_spans lower s policy))) @ tail \<and>
    redact lower s policy =
      concat (map2 (\<lambda>g sp. g @ span_mark (key_patterns policy) sp) gaps
          (take MAX_REDACTIONS (collect_spans lower s policy))) @
      (if MAX_REDACTIONS < length (collect_spans lower s policy) then REDACTION_TRUNCATION_MARKER else tail)"
  unfolding redact_def
proof (rule redact_spans_shape)
  show "sorted_wrt (\<lambda>x y. sp_end x \<le> sp_start y) (collect_spans lower s policy)"
    "\<forall>sp \<in> set (collect_spans lower s policy). sp_start sp \<le> sp_end sp"
    using spans_sorted by (auto simp: collect_spans_def)
qed

text \<open>
  A token that starts inside another hit is dropped from the report and its tail stays readable: in a text
  where a GitHub token follows an OpenAI key without a separator, the redacted text ends in the token's body.
\<close>

definition adjoining_tokens :: string where
  "adjoining_tokens = ''sk-aaaaaaaaaaaaaaaaaaaaghp_bbbbbbbbbbbbbbbbbbbb''"

theorem redaction_leaves_overlapped_token:
  "scan_secrets ascii_lower (drop 23 adjoining_tokens) default_secret_policy \<noteq> [] \<and>
   drop 23 adjoining_tokens = ''ghp_bbbbbbbbbbbbbbbbbbbb'' \<and>
   redact ascii_lower adjoining_tokens default_secret_policy = ''<redacted:openai_key>_bbbbbbbbbbbbbbbbbbbb''"
proof (intro conjI)
  show "scan_secrets ascii_lower (drop 23 adjoining_tokens) default_secret_policy \<noteq> []" by code_simp
  show "drop 23 adjoining_tokens = ''ghp_bbbbbbbbbbbbbbbbbbbb''" by code_simp
  show "redact ascii_lower adjoining_tokens default_secret_policy = ''<redacted:openai_key>_bbbbbbbbbbbbbbbbbbbb''"
    by code_simp
qed

text \<open>The compiled redactor does not read the master switch, which the other one honours.\<close>

definition disabled_policy :: secret_policy where
  "disabled_policy = default_secret_policy\<lparr>scan_enabled := False\<rparr>"

lemma redact_text_ignores_switch:
  "redact ascii_lower ''AKIA0123456789ABCDEF'' disabled_policy = ''AKIA0123456789ABCDEF''"
  "compiled_try_from ascii_lower disabled_policy = Inr (default_compiled\<lparr>cp_source := disabled_policy\<rparr>)"
  "redact_text ascii_lower (default_compiled\<lparr>cp_source := disabled_policy\<rparr>) ''AKIA0123456789ABCDEF'' = ''<redacted:aws_key>''"
  by code_simp+

text \<open>
  The position in an alternation error counts from the start of the member and not of the group: the
  bracket of the second member below is the character with index 5, and the error says 2.
\<close>

lemma member_error_position:
  "strict_compile ascii_lower ''(ab|c[d)'' = pattern_err ''(ab|c[d)'' 2 Member_not_literal"
  "utf8_chars ''(ab|c[d)'' ! 5 = 91"
  by code_simp+

section \<open>Short texts\<close>

fun seg_min :: "seg \<Rightarrow> nat" where
  "seg_min (Lit lit) = length lit"
| "seg_min (Cls m q) = (case q_exact q of Some n \<Rightarrow> n | None \<Rightarrow> q_min q)"
| "seg_min (Alt alts) = (case map length alts of [] \<Rightarrow> 0 | n # ns \<Rightarrow> foldl min n ns)"

definition segs_min :: "seg list \<Rightarrow> nat" where
  "segs_min segs = sum_list (map seg_min segs)"

lemma foldl_min_head: "foldl min n ns \<le> (n :: nat)"
proof (induction ns arbitrary: n)
  case (Cons a ns)
  from Cons [of "min n a"] show ?case by simp
qed simp

lemma foldl_min_le: "x \<in> set (n # ns) \<Longrightarrow> foldl min n ns \<le> (x :: nat)"
proof (induction ns arbitrary: n)
  case (Cons a ns)
  have "foldl min (min n a) ns \<le> min n a" by (rule foldl_min_head)
  with Cons show ?case by auto
qed simp

lemma seg_min_le: "seg_lang lower g x \<Longrightarrow> seg_min g \<le> length x"
proof (cases g)
  case (Alt alts)
  assume "seg_lang lower g x"
  with Alt obtain a where a: "a \<in> set alts" "length a = length x"
    by (auto simp: list_ex_iff dest: chars_eq_length)
  then obtain n ns where "map length alts = n # ns" by (cases alts) auto
  moreover from a have "length x \<in> set (map length alts)" by (metis image_eqI list.set_map)
  ultimately show ?thesis using Alt foldl_min_le [of "length x" n ns] by simp
qed (auto dest: chars_eq_length split: option.splits)

lemma segs_min_le: "segs_lang lower segs x \<Longrightarrow> segs_min segs \<le> length x"
  by (induction segs arbitrary: x) (fastforce simp: segs_min_def dest!: seg_min_le)+

text \<open>Every default pattern needs fifteen characters, whatever the lower-case table.\<close>

lemma default_patterns_min:
  "list_all (\<lambda>p. case compile lower p of Some segs \<Rightarrow> 15 \<le> segs_min segs \<and> list_all seg_exact segs | None \<Rightarrow> False)
     DEFAULT_SECRET_PATTERNS"
  by code_simp

lemma length_utf8_chars: "length (utf8_chars s) \<le> length s"
  by (induction s rule: utf8_chars.induct) auto

lemma short_text_clean:
  assumes "length s < 15"
  shows "scan_secrets lower s default_secret_policy = []"
proof -
  let ?ps = "compiled_patterns lower DEFAULT_SECRET_PATTERNS" and ?w = "utf8_chars s"
  have shape: "15 \<le> segs_min segs \<and> list_all seg_exact segs" if "(i, segs) \<in> set ?ps" for i segs
  proof -
    from that have "i < length DEFAULT_SECRET_PATTERNS" "compile lower (DEFAULT_SECRET_PATTERNS ! i) = Some segs"
      by (auto simp: compiled_patterns_def map_filter_def in_set_enumerate_eq split: option.splits if_splits)
    with default_patterns_min [of lower] show ?thesis by (auto simp: list_all_length)
  qed
  have "(a, b, i) \<notin> set (raw_hits lower ?w ?ps)" for a b i
  proof
    assume "(a, b, i) \<in> set (raw_hits lower ?w ?ps)"
    then obtain segs where segs: "(i, segs) \<in> set ?ps" "(a, b) \<in> set (scan_pattern lower segs ?w 0)"
      by (auto simp: raw_hits_iff)
    from scan_pattern_sound [OF segs(2)] have "match_segments lower segs ?w a = Some b" "a \<le> length ?w" by simp_all
    then have "occurs lower segs ?w a b" using shape [OF segs(1)] by (intro hit_occurs) simp_all
    then have "segs_min segs \<le> length ?w"
      unfolding occurs_def using segs_min_le by fastforce
    with shape [OF segs(1)] assms length_utf8_chars [of s] show False by simp
  qed
  then have "raw_hits lower ?w ?ps = []" by (metis last_in_set surj_pair)
  then show ?thesis
    by (simp add: scan_secrets_def collect_spans_def default_secret_policy_def spans_empty_iff)
qed

end
