(* ===== verification/Approval_Sample.thy ===== *)
theory Approval_Sample
  imports Approval_Recovery Secret_Theorems
begin

text \<open>
  A sample directory on which the properties of the approval authority are instantiated: one registered
  operator, one change of a safety stock proposed by an agent, and the operator's approval of it. The sample hash is the
  last byte of its argument followed by zeros, the sample JSON one byte that tells the sample values apart, and
  the sample signature the sum of the last bytes of key and message.
\<close>

section \<open>The sample packages\<close>

definition sample_hash :: "byte list \<Rightarrow> byte list" where
  "sample_hash bs = last bs # replicate 31 0"

fun content_tag :: "content \<Rightarrow> byte" where
  "content_tag (C_Identity ri) = 161"
| "content_tag (C_Request r) = 177"
| "content_tag (C_Statement ds) = 193"
| "content_tag (C_Entry ei) = (if ei_seq ei = 1 then 225 else 226)"

definition sample_tag :: "byte list \<Rightarrow> byte list \<Rightarrow> byte list" where
  "sample_tag pk msg = (last pk + last msg) # replicate 63 0"

definition sample_public :: "seed \<Rightarrow> byte list" where
  "sample_public key = replicate 31 7 @ [last key]"

text \<open>\<open>line\<close> is the length of the JSON line of an entry.\<close>

definition sized_crypto :: "nat \<Rightarrow> crypto" where
  "sized_crypto line = \<lparr>cr_blake3 = sample_hash, cr_to_json = (\<lambda>v. Some [content_tag v]),
     cr_entry_bytes = (\<lambda>e. Some line), cr_public_key = sample_public, cr_is_public_key = (\<lambda>pk. length pk = 32),
     cr_sign = (\<lambda>key msg. sample_tag (sample_public key) msg), cr_verify = (\<lambda>pk msg sig. sig = sample_tag pk msg),
     cr_lower = ascii_lower\<rparr>"

definition sample_crypto :: crypto where "sample_crypto = sized_crypto 500"

definition tag_text :: "byte \<Rightarrow> string" where "tag_text k = to_hex (sample_hash [k])"

lemma sized_digest: "content_digest (sized_crypto line) domain v = Inr (tag_text (content_tag v))"
  by (simp add: content_digest_def sized_crypto_def sample_hash_def tag_text_def)

lemma sample_hash_size [simp]: "hash_size (sized_crypto line)"
  by (simp add: hash_size_def sized_crypto_def sample_hash_def)

lemma sized_fields [simp]: "cr_entry_bytes (sized_crypto line) e = Some line" "cr_lower (sized_crypto line) = ascii_lower"
  by (simp_all add: sized_crypto_def)

section \<open>The sample ledger\<close>

definition sample_key :: seed where "sample_key = [3]"

definition sample_agent :: principal where "sample_agent = \<lparr>pr_id = ''agent-1'', pr_kind = Agent_Principal\<rparr>"
definition sample_human :: principal where "sample_human = \<lparr>pr_id = ''director'', pr_kind = HumanOperator\<rparr>"

text \<open>The approved revision: the policy itself, or a revision by number.\<close>

definition sample_revision :: "bool \<Rightarrow> string" where
  "sample_revision numbered = (if numbered then ''7'' else ''policy'')"

definition sample_draft_at :: "bool \<Rightarrow> approval_draft" where
  "sample_draft_at numbered = \<lparr>dr_kind = SupplyInventoryPolicy, dr_subject = ''part:7'', dr_evidence = [''quote''],
     dr_proposed_change = ''stock 20'', dr_risk = Risk_High, dr_requester = sample_agent, dr_bound_revision = sample_revision numbered,
     dr_bound_digest = tag_text 5, dr_expires_at_ms = 5000\<rparr>"

definition sample_request_at :: "bool \<Rightarrow> approval_request" where
  "sample_request_at numbered = draft_request (sample_draft_at numbered) 1000 (tag_text 161)"

definition sample_check_at :: "bool \<Rightarrow> approval_check" where "sample_check_at numbered = request_check (sample_request_at numbered)"

definition sample_operator :: registered_operator where
  "sample_operator = \<lparr>op_principal_id = ''director'', op_key_id = key_id sample_crypto sample_key,
     op_public_key = key_public_hex sample_crypto sample_key, op_registered_at_ms = 900\<rparr>"

definition sample_decision_at :: "bool \<Rightarrow> approval_decision" where
  "sample_decision_at numbered = \<lparr>dc_request_id = rq_id (sample_request_at numbered), dc_request_digest = tag_text 177, dc_outcome = Approved,
     dc_principal = sample_human, dc_rationale = ''fine'', dc_decided_at_ms = 1500,
     dc_signature = \<lparr>sg_algorithm = ''ed25519'', sg_key_id = op_key_id sample_operator,
       sg_public_key = op_public_key sample_operator,
       sg_signature = to_hex (sample_tag (sample_public sample_key) (signing_message (tag_text 193)))\<rparr>\<rparr>"

definition sample_entry :: "nat \<Rightarrow> nat \<Rightarrow> string \<Rightarrow> ledger_body \<Rightarrow> ledger_entry" where
  "sample_entry s at prev body = \<lparr>le_schema = LEDGER_SCHEMA, le_seq = s, le_recorded_at_ms = at, le_prev_digest = prev,
     le_body = body, le_digest = tag_text (if s = 1 then 225 else 226)\<rparr>"

definition request_entry_at :: "bool \<Rightarrow> ledger_entry" where "request_entry_at numbered = sample_entry 1 1000 zero_digest (Requested (sample_request_at numbered))"
definition decision_entry_at :: "bool \<Rightarrow> ledger_entry" where "decision_entry_at numbered = sample_entry 2 1500 (tag_text 225) (Decided (sample_decision_at numbered))"

definition proposed_ledger_at :: "bool \<Rightarrow> approval_ledger" where "proposed_ledger_at numbered = record_entry (request_entry_at numbered) empty_ledger"
definition approved_ledger_at :: "bool \<Rightarrow> approval_ledger" where "approved_ledger_at numbered = record_entry (decision_entry_at numbered) (proposed_ledger_at numbered)"

definition sample_disk :: "nat \<Rightarrow> nat \<Rightarrow> ledger_entry list \<Rightarrow> ledger_entry list \<Rightarrow> ledger_entry list \<Rightarrow> approval_disk" where
  "sample_disk writes time es head anchor =
     \<lparr>dk_ledger = (if es = [] then No_Ledger else Ledger_Lines (map Entry_Line es)),
      dk_head = mark_of LEDGER_HEAD_SCHEMA head, dk_anchor = mark_of LEDGER_ANCHOR_SCHEMA anchor,
      dk_clock = Holds \<lparr>ca_schema = CLOCK_ANCHOR_SCHEMA, ca_max_seen_wall_ms = time\<rparr>,
      dk_registry = Holds \<lparr>or_schema = REGISTRY_SCHEMA, or_operators = [sample_operator]\<rparr>,
      dk_writes = writes, dk_torn = False, dk_busy = False\<rparr>"

definition approved_disk_at :: "bool \<Rightarrow> approval_disk" where
  "approved_disk_at numbered = sample_disk 9 1500 [request_entry_at numbered, decision_entry_at numbered]
     [request_entry_at numbered, decision_entry_at numbered] [request_entry_at numbered, decision_entry_at numbered]"

section \<open>Its checks pass\<close>

text \<open>Hexadecimal text round-trips.\<close>

lemma hex_value_digit: "d < 16 \<Longrightarrow> hex_value (hex_digit d) = d"
  by (auto simp: hex_value_def hex_digit_def byte_of_def)

lemma hex_chunks_to_hex: "hex_chunks (to_hex bs) = bs"
proof (induction bs)
  case Nil
  then show ?case by (simp add: to_hex_def)
next
  case (Cons b bs)
  have "unat b < 256" using unsigned_less [of b] by simp
  then have "unat b div 16 < 16" "unat b mod 16 < 16" by auto
  then have "16 * hex_value (hex_digit (unat b div 16)) + hex_value (hex_digit (unat b mod 16)) = unat b"
    by (simp add: hex_value_digit)
  with Cons show ?case by (simp add: to_hex_def)
qed

lemma parse_to_hex: "length bs = n \<Longrightarrow> parse_hex n (to_hex bs) = Inr bs"
  by (simp add: parse_hex_def length_to_hex all_hex_to_hex hex_chunks_to_hex)

lemma hex64_to_hex: "length bs = 32 \<Longrightarrow> hex64 (to_hex bs)"
  by (simp add: hex64_def length_to_hex all_hex_to_hex)

lemma hex64_tag [simp]: "hex64 (tag_text k)"
  by (simp add: tag_text_def hex64_to_hex sample_hash_def)

lemma short_text_passes: "length value < 15 \<Longrightarrow> ensure_no_credential lower field value = Inr ()"
  by (simp add: ensure_no_credential_def short_text_clean)

lemma sample_request_fields [simp]:
  "rq_created_at_ms (sample_request_at numbered) = 1000" "rq_expires_at_ms (sample_request_at numbered) = 5000"
  "rq_requester (sample_request_at numbered) = sample_agent"
  "rq_subject (sample_request_at numbered) = ''part:7''" "rq_proposed_change (sample_request_at numbered) = ''stock 20''"
  "rq_bound_revision (sample_request_at numbered) = sample_revision numbered" "rq_evidence (sample_request_at numbered) = [''quote'']"
  "rq_bound_digest (sample_request_at numbered) = tag_text 5"
  by (simp_all add: sample_request_at_def draft_request_def sample_draft_at_def)

lemma sample_decision_fields [simp]:
  "dc_request_id (sample_decision_at numbered) = rq_id (sample_request_at numbered)" "dc_request_digest (sample_decision_at numbered) = tag_text 177"
  "dc_decided_at_ms (sample_decision_at numbered) = 1500" "dc_principal (sample_decision_at numbered) = sample_human"
  "dc_outcome (sample_decision_at numbered) = Approved" "dc_rationale (sample_decision_at numbered) = ''fine''"
  by (simp_all add: sample_decision_at_def)

lemma sample_principals [simp]: "pr_id sample_agent = ''agent-1''" "pr_id sample_human = ''director''"
  "pr_kind sample_human = HumanOperator"
  by (simp_all add: sample_agent_def sample_human_def)

lemma sample_id [simp]: "id_shape (rq_id (sample_request_at numbered))"
proof -
  have "all_hex (take 32 (tag_text 161))"
    using all_hex_to_hex [of "sample_hash [161]"] by (auto simp: all_hex_def tag_text_def list_all_iff dest: in_set_takeD)
  moreover have "length (take 32 (tag_text 161)) = 32" by (simp add: tag_text_def length_to_hex sample_hash_def)
  ultimately show ?thesis
    by (simp add: id_shape_def sample_request_at_def draft_request_def sample_draft_at_def starts_with_def)
qed

lemma sample_revision_fits: "bounded_single_line ''bound_revision'' (sample_revision numbered) 256 = Inr ()" "length (sample_revision numbered) < 15"
proof -
  have "bounded_single_line ''bound_revision'' ''policy'' 256 = Inr ()" "bounded_single_line ''bound_revision'' ''7'' 256 = Inr ()"
    by code_simp+
  then show "bounded_single_line ''bound_revision'' (sample_revision numbered) 256 = Inr ()" "length (sample_revision numbered) < 15"
    by (simp_all add: sample_revision_def)
qed

lemma sample_texts:
  "bounded_single_line ''subject'' ''part:7'' 128 = Inr ()" "bounded_text ''proposed_change'' ''stock 20'' 4096 = Inr ()"
  "bounded_single_line ''evidence'' ''quote'' 4096 = Inr ()"
  "principal_validate sample_agent = Inr ()" "principal_validate sample_human = Inr ()"
  "bounded_text ''rationale'' ''fine'' 4096 = Inr ()"
  by code_simp+

lemma sample_request_valid [simp]: "request_validate (sized_crypto line) (sample_request_at numbered) = Inr ()"
  by (simp add: request_validate_def sample_texts sample_revision_fits MAX_PRINCIPAL_ID_BYTES_def MAX_APPROVAL_TEXT_BYTES_def
      MAX_APPROVAL_EVIDENCE_def MAX_APPROVAL_EVIDENCE_BYTES_def MAX_REQUEST_LIFETIME_MS_def no_credentials_def
      short_text_passes sat_u64_def)

lemma sample_operator_fields:
  "op_key_id sample_operator = to_hex (sample_hash [3])" "op_public_key sample_operator = to_hex (replicate 31 7 @ [3])"
  "op_principal_id sample_operator = ''director''"
  by (simp_all add: sample_operator_def key_id_def key_public_hex_def sample_crypto_def sized_crypto_def sample_public_def
      sample_key_def sample_hash_def)

lemma sample_operator_valid: "operator_valid sample_crypto sample_operator = Inr ()"
proof -
  have "principal_new ''director'' HumanOperator = Inr sample_human"
    using sample_texts by (simp add: principal_new_def sample_human_def)
  then show ?thesis
    by (simp add: operator_valid_def sample_operator_fields sample_texts hex64_to_hex hex_chunks_to_hex sample_crypto_def
        sized_crypto_def sample_hash_def)
qed

lemma sample_decision_valid [simp]: "decision_validate (sized_crypto line) (sample_decision_at numbered) = Inr ()"
proof -
  have "sample_hash (replicate 31 7 @ [3]) = sample_hash [3]" by (simp add: sample_hash_def)
  moreover have "length (sample_hash [3]) = 32" by (simp add: sample_hash_def)
  ultimately have "signature_validate (sized_crypto line) (dc_signature (sample_decision_at numbered)) = Inr ()"
    by (simp add: signature_validate_def sample_decision_at_def sample_operator_fields parse_to_hex sample_tag_def
        hex64_to_hex sized_crypto_def)
  then show ?thesis
    by (simp add: decision_validate_def sample_texts MAX_APPROVAL_TEXT_BYTES_def short_text_passes outcome_bounded_def)
qed

lemma sample_rightful: "rightful sample_crypto [sample_operator] (sample_request_at numbered) (sample_decision_at numbered)"
proof -
  have "signature_holds sample_crypto (sample_decision_at numbered)"
    by (simp add: signature_holds_def sample_decision_at_def sample_operator_fields parse_to_hex sample_tag_def
        statement_digest_def sample_crypto_def sized_digest) (simp add: sized_crypto_def sample_tag_def sample_public_def sample_key_def)
  then show ?thesis
    by (simp add: rightful_def sample_crypto_def registered_as_def) (simp add: sample_decision_at_def sample_operator_fields)
qed

lemma proposed_ledger_fields [simp]:
  "al_entries (proposed_ledger_at numbered) = [request_entry_at numbered]" "al_requests (proposed_ledger_at numbered) = [(rq_id (sample_request_at numbered), sample_request_at numbered)]"
  "al_decisions (proposed_ledger_at numbered) = []"
  by (simp_all add: proposed_ledger_at_def record_entry_def request_entry_at_def sample_entry_def empty_ledger_def)

lemma approved_ledger_fields [simp]:
  "al_entries (approved_ledger_at numbered) = [request_entry_at numbered, decision_entry_at numbered]"
  "al_requests (approved_ledger_at numbered) = [(rq_id (sample_request_at numbered), sample_request_at numbered)]"
  "al_decisions (approved_ledger_at numbered) = [(rq_id (sample_request_at numbered), sample_decision_at numbered)]"
  by (simp_all add: approved_ledger_at_def record_entry_def decision_entry_at_def sample_entry_def)

lemma proposed_replays: "replay (sized_crypto line) [Entry_Line (request_entry_at numbered)] = Inr (proposed_ledger_at numbered)"
proof -
  have start: "replay (sized_crypto line) [] = Inr empty_ledger" by (simp add: replay_def)
  have step: "le_schema (request_entry_at numbered) = LEDGER_SCHEMA" "le_seq (request_entry_at numbered) = 1" "le_prev_digest (request_entry_at numbered) = zero_digest"
    "le_body (request_entry_at numbered) = Requested (sample_request_at numbered)" "le_digest (request_entry_at numbered) = tag_text 225"
    by (simp_all add: request_entry_at_def sample_entry_def)
  show ?thesis
    using replay_snoc [OF start, of "request_entry_at numbered" "proposed_ledger_at numbered"]
    by (simp add: step proposed_ledger_at_def entry_digest_def sized_digest last_digest_def replay_body_Requested empty_ledger_def)
qed

lemma decided_replays:
  assumes "decision_validate (sized_crypto line) dc = Inr ()" and "dc_request_id dc = rq_id (sample_request_at numbered)"
    and "dc_request_digest dc = tag_text 177" and "dc_decided_at_ms dc = 1500" and "dc_principal dc = sample_human"
    and "e = sample_entry 2 1500 (tag_text 225) (Decided dc)"
  shows "replay (sized_crypto line) [Entry_Line (request_entry_at numbered), Entry_Line e] = Inr (record_entry e (proposed_ledger_at numbered))"
proof -
  have step: "le_schema e = LEDGER_SCHEMA" "le_seq e = 2" "le_prev_digest e = tag_text 225" "le_body e = Decided dc"
    "le_digest e = tag_text 226" "le_digest (request_entry_at numbered) = tag_text 225"
    using assms(6) by (simp_all add: request_entry_at_def sample_entry_def)
  show ?thesis
    using replay_snoc [OF proposed_replays, of line numbered e "record_entry e (proposed_ledger_at numbered)"] assms(1-5)
    by (simp add: step entry_digest_def sized_digest last_digest_def replay_body_Decided request_digest_def bt_get_def)
qed

lemma approved_replays: "replay (sized_crypto line) [Entry_Line (request_entry_at numbered), Entry_Line (decision_entry_at numbered)] = Inr (approved_ledger_at numbered)"
  unfolding approved_ledger_at_def by (rule decided_replays) (simp_all add: decision_entry_at_def)

lemma ledger_bytes_sized: "ledger_bytes (sized_crypto line) (map Entry_Line es) = length es * (line + 1)"
  by (induction es) (simp_all add: ledger_bytes_def line_bytes_def)

lemma sample_disk_fields [simp]:
  "dk_ledger (sample_disk writes time es head anchor) = (if es = [] then No_Ledger else Ledger_Lines (map Entry_Line es))"
  "dk_clock (sample_disk writes time es head anchor) = Holds \<lparr>ca_schema = CLOCK_ANCHOR_SCHEMA, ca_max_seen_wall_ms = time\<rparr>"
  "dk_writes (sample_disk writes time es head anchor) = writes"
  "dk_torn (sample_disk writes time es head anchor) \<longleftrightarrow> False"
  "dk_busy (sample_disk writes time es head anchor) \<longleftrightarrow> False"
  by (simp_all add: sample_disk_def)

lemma sample_disk_marks [simp]: "marks_at (sample_disk writes time es head anchor) head anchor"
  by (simp add: marks_at_def sample_disk_def)

lemma sample_registry [simp]: "load_registry sample_crypto (sample_disk writes time es head anchor) = Inr [sample_operator]"
  by (simp add: load_registry_def sample_disk_def sample_operator_valid)

lemma sample_file_replays:
  assumes "replay (sized_crypto line) (map Entry_Line es) = Inr l" and "length es * (line + 1) \<le> MAX_LEDGER_BYTES"
  shows "file_replays (sized_crypto line) (sample_disk writes time es head anchor) l"
  using assms by (auto simp: file_replays_def ledger_bytes_sized replay_def)

lemma approved_complete: "complete sample_crypto (approved_disk_at numbered) (approved_ledger_at numbered)"
  using sample_file_replays [of 500 "[request_entry_at numbered, decision_entry_at numbered]"] approved_replays [of 500]
  by (simp add: complete_def approved_disk_at_def sample_crypto_def MAX_LEDGER_BYTES_def)

section \<open>A denial\<close>

definition denied_decision_at :: "bool \<Rightarrow> approval_decision" where
  "denied_decision_at numbered = (sample_decision_at numbered)\<lparr>dc_outcome := Denied_For ''no''\<rparr>"

definition denial_entry_at :: "bool \<Rightarrow> ledger_entry" where
  "denial_entry_at numbered = sample_entry 2 1500 (tag_text 225) (Decided (denied_decision_at numbered))"

definition denied_disk_at :: "bool \<Rightarrow> approval_disk" where
  "denied_disk_at numbered = sample_disk 9 1500 [request_entry_at numbered, denial_entry_at numbered]
     [request_entry_at numbered, denial_entry_at numbered] [request_entry_at numbered, denial_entry_at numbered]"

lemma denied_decision_valid: "decision_validate (sized_crypto line) (denied_decision_at numbered) = Inr ()"
proof -
  have "bounded_text ''denial reason'' ''no'' 4096 = Inr ()" by code_simp
  moreover have "signature_validate (sized_crypto line) (dc_signature (sample_decision_at numbered)) = Inr ()"
    using sample_decision_valid [of line] by (auto simp: decision_validate_def)
  ultimately show ?thesis
    by (simp add: decision_validate_def denied_decision_at_def sample_texts MAX_APPROVAL_TEXT_BYTES_def short_text_passes
        outcome_bounded_def)
qed

lemma denied_book: "book sample_crypto (denied_disk_at numbered) = Inr (record_entry (denial_entry_at numbered) (proposed_ledger_at numbered))"
proof -
  have "replay (sized_crypto 500) [Entry_Line (request_entry_at numbered), Entry_Line (denial_entry_at numbered)] = Inr (record_entry (denial_entry_at numbered) (proposed_ledger_at numbered))"
    by (rule decided_replays [OF denied_decision_valid]) (simp_all add: denied_decision_at_def denial_entry_at_def)
  then show ?thesis by (simp add: book_def denied_disk_at_def entries_of_def sample_crypto_def)
qed

text \<open>The sample that is bound to the policy itself.\<close>

abbreviation sample_draft :: approval_draft where "sample_draft \<equiv> sample_draft_at False"
abbreviation sample_request :: approval_request where "sample_request \<equiv> sample_request_at False"
abbreviation sample_check :: approval_check where "sample_check \<equiv> sample_check_at False"
abbreviation sample_decision :: approval_decision where "sample_decision \<equiv> sample_decision_at False"
abbreviation request_entry :: ledger_entry where "request_entry \<equiv> request_entry_at False"
abbreviation decision_entry :: ledger_entry where "decision_entry \<equiv> decision_entry_at False"
abbreviation proposed_ledger :: approval_ledger where "proposed_ledger \<equiv> proposed_ledger_at False"
abbreviation approved_ledger :: approval_ledger where "approved_ledger \<equiv> approved_ledger_at False"
abbreviation approved_disk :: approval_disk where "approved_disk \<equiv> approved_disk_at False"
abbreviation denied_decision :: approval_decision where "denied_decision \<equiv> denied_decision_at False"
abbreviation denial_entry :: ledger_entry where "denial_entry \<equiv> denial_entry_at False"
abbreviation denied_disk :: approval_disk where "denied_disk \<equiv> denied_disk_at False"

end
