(* ===== verification/Approval_Theorems.thy ===== *)
theory Approval_Theorems
  imports Approval_Sample
begin

text \<open>The properties of the approval authority.\<close>

section \<open>Authorization\<close>

lemma loaded_wf:
  assumes "ledger_load cr d = (d', Inr l)"
  shows "ledger_wf cr l \<and> book cr d = Inr l"
  using load_ok [OF assms] file_replays_book replay_wf by (metis book_def)

lemma newest_recorded: "ledger_wf cr l \<Longrightarrow> newest_for l ck r \<Longrightarrow> bt_get (al_requests l) (rq_id r) = Some r"
  unfolding ledger_wf_def newest_for_def by (metis bt_values_iff)

lemma authorized_iff:
  assumes "effective_now t d = (d1, Inr now)" and "ledger_load cr d1 = (d2, Inr l)" and "load_registry cr d2 = Inr operators"
  shows "is_ok (snd (authorize cr ck t inst d)) \<longleftrightarrow>
    (\<exists>r dc. newest_for l ck r \<and> now \<le> rq_expires_at_ms r \<and> bt_get (al_decisions l) (rq_id r) = Some dc \<and>
      dc_outcome dc = Approved \<and> rightful cr operators r dc)"
proof (cases "filter (binds_check ck) (bt_values (al_requests l)) = []")
  case True
  then have "\<not> newest_for l ck r" for r by (auto simp: newest_for_def filter_empty_conv)
  with True show ?thesis using authorize_run [OF assms, of ck inst] by (auto split: option.splits)
next
  case False
  let ?r = "hd (newest_first (filter (binds_check ck) (bt_values (al_requests l))))"
  have wf: "ledger_wf cr l" using loaded_wf [OF assms(2)] by simp
  note newest = newest_for_hd [OF wf False]
  from newest have rec: "bt_get (al_requests l) (rq_id ?r) = Some ?r" using newest_recorded [OF wf] by blast
  have "snd (authorize cr ck t inst d) = evaluate_with_trust cr ?r l now (map op_key_id operators) operators inst"
    using authorize_run [OF assms, of ck inst] False by (simp add: Let_def)
  then show ?thesis using evaluate_ok_iff [OF wf rec, of now operators inst] newest by auto
qed

text \<open>C23. An action is authorized when and only when the newest recorded request that binds exactly its kind,
  subject, revision and digest has not expired at the effective time and was approved, within its lifetime, by a
  human operator other than the requester whose registered key signed the decision. An older approval of the
  same action does not count once it was proposed again.\<close>

theorem authorize_iff_approved:
  assumes "effective_now t d = (d1, Inr now)" and "ledger_load cr d1 = (d2, Inr l)" and "load_registry cr d2 = Inr operators"
  shows "is_ok (snd (authorize cr ck t inst d)) \<longleftrightarrow>
    (\<exists>r dc. newest_for l ck r \<and> now \<le> rq_expires_at_ms r \<and> bt_get (al_decisions l) (rq_id r) = Some dc \<and>
      dc_outcome dc = Approved \<and> rightful cr operators r dc)"
  using authorized_iff [OF assms] .

lemma approved_now: "effective_now 1200 (approved_disk_at numbered) = ((approved_disk_at numbered), Inr 1500)"
  by (simp add: effective_now_def observe_locked_def approved_disk_at_def)

lemma approved_loads: "ledger_load sample_crypto (approved_disk_at numbered) = ((approved_disk_at numbered), Inr (approved_ledger_at numbered))"
  unfolding ledger_load_def using complete_loads [OF approved_complete] sample_hash_size by (simp add: sample_crypto_def)

lemma approved_registry: "load_registry sample_crypto (approved_disk_at numbered) = Inr [sample_operator]"
  by (simp add: approved_disk_at_def)

lemma sample_newest: "newest_for (approved_ledger_at numbered) (sample_check_at numbered) (sample_request_at numbered)"
  by (simp add: newest_for_def bt_values_def binds_check_def sample_check_at_def request_check_def)

theorem authorize_iff_approved_witness:
  "is_ok (snd (authorize sample_crypto sample_check 1200 7 approved_disk))"
proof -
  have "bt_get (al_decisions approved_ledger) (rq_id sample_request) = Some sample_decision" by (simp add: bt_get_def)
  then have "\<exists>r dc. newest_for approved_ledger sample_check r \<and> 1500 \<le> rq_expires_at_ms r \<and>
      bt_get (al_decisions approved_ledger) (rq_id r) = Some dc \<and> dc_outcome dc = Approved \<and>
      rightful sample_crypto [sample_operator] r dc"
    using sample_newest sample_rightful by (intro exI [of _ sample_request] exI [of _ sample_decision]) simp
  then show ?thesis
    using authorize_iff_approved [OF approved_now approved_loads approved_registry] by blast
qed

lemma reach_clock: "approval_reach cr d0 d \<Longrightarrow> clock_of d0 \<le> clock_of d"
  unfolding approval_reach_def
proof (induction rule: rtranclp_induct)
  case (step d d')
  then show ?case using call_may_append [OF step.hyps(2)] by (simp add: may_append_def)
qed simp

text \<open>C28. A token stands for the very action it was asked for and is accepted for no other; no directory in a
  later state issues one that expires before a time an earlier state has seen, whatever the wall clock of the
  call says, and its deadline on the process clock lies no later than the expiry of the request.\<close>

theorem token_binds_and_expires:
  assumes "approval_reach cr d0 d" and "authorize cr ck t inst (in_environment writes torn busy d) = (d', Inr tok)"
  shows "(token_require tok ck' inst' wall = Inr () \<longleftrightarrow>
      ck' = ck \<and> inst' < tk_deadline tok \<and> wall \<le> tk_expires_at_ms tok) \<and>
    clock_of d0 \<le> tk_expires_at_ms tok \<and> tk_deadline tok \<le> inst + (tk_expires_at_ms tok - t)"
proof -
  note tok = authorize_token [OF assms(2)]
  have clock: "clock_of (in_environment writes torn busy d) = clock_of d" by (simp add: in_environment_def clock_of_def)
  from tok have "token_check tok = ck" by blast
  then have "token_require tok ck' inst' wall = Inr () \<longleftrightarrow>
      ck' = ck \<and> inst' < tk_deadline tok \<and> wall \<le> tk_expires_at_ms tok"
    by (cases ck') (auto simp: token_require_def token_check_def not_less)
  moreover have "clock_of d0 \<le> tk_expires_at_ms tok" using tok reach_clock [OF assms(1)] clock by simp
  ultimately show ?thesis using tok by blast
qed

lemma approved_authorizes: "\<exists>d' tok. authorize sample_crypto sample_check 1200 7 approved_disk = (d', Inr tok)"
proof -
  have "bt_get (al_decisions approved_ledger) (rq_id sample_request) = Some sample_decision" by (simp add: bt_get_def)
  then have "\<exists>r dc. newest_for approved_ledger sample_check r \<and> 1500 \<le> rq_expires_at_ms r \<and>
      bt_get (al_decisions approved_ledger) (rq_id r) = Some dc \<and> dc_outcome dc = Approved \<and>
      rightful sample_crypto [sample_operator] r dc"
    using sample_newest sample_rightful by (intro exI [of _ sample_request] exI [of _ sample_decision]) simp
  then have "is_ok (snd (authorize sample_crypto sample_check 1200 7 approved_disk))"
    using authorized_iff [OF approved_now approved_loads approved_registry] by blast
  then show ?thesis by (metis is_ok_iff prod.collapse)
qed

lemma approved_environment: "in_environment 9 False False (approved_disk_at numbered) = (approved_disk_at numbered)"
  by (simp add: in_environment_def approved_disk_at_def sample_disk_def)

theorem token_binds_and_expires_witness:
  "\<exists>d' tok. authorize sample_crypto sample_check 1200 7 approved_disk = (d', Inr tok) \<and>
     1500 \<le> tk_expires_at_ms tok \<and> \<not> is_ok (token_require tok (sample_check\<lparr>ck_subject := ''part:8''\<rparr>) 8 1500)"
proof -
  obtain d' tok where run: "authorize sample_crypto sample_check 1200 7 approved_disk = (d', Inr tok)"
    using approved_authorizes by blast
  have "approval_reach sample_crypto approved_disk approved_disk" by (simp add: approval_reach_def)
  moreover have "sample_check\<lparr>ck_subject := ''part:8''\<rparr> \<noteq> sample_check" by (simp add: sample_check_at_def request_check_def)
  moreover have "clock_of approved_disk = 1500" by (simp add: clock_of_def approved_disk_at_def)
  ultimately show ?thesis
    using token_binds_and_expires [of sample_crypto approved_disk approved_disk sample_check 1200 7 9 False False d' tok
        "sample_check\<lparr>ck_subject := ''part:8''\<rparr>" 8 1500] run approved_environment [of False]
    by (metis is_ok_iff old.unit.exhaust)
qed

section \<open>The book of requests and decisions\<close>

text \<open>C24. Every directory that calls reach from an empty one, whatever writes the file system refused on the
  way, stands for a book that the abstract machine reaches: requests are recorded when they are created, a
  request is decided once, within its lifetime and by another principal, and time never runs back.\<close>

theorem approval_refines_book:
  assumes "approval_reach cr empty_disk d"
  shows "\<exists>l. book cr d = Inr l \<and> book_reach cr empty_book (abs_book l (clock_of d))"
  using reach_book [OF assms book_empty_disk(1)] by auto

text \<open>What the ledger records stays: the entries of a later directory extend those of an earlier one, and no
  request or decision is ever replaced.\<close>

theorem ledger_is_append_only:
  assumes "approval_reach cr d d'" and "book cr d = Inr l"
  shows "\<exists>l'. book cr d' = Inr l' \<and> prefix (al_entries l) (al_entries l') \<and>
    (\<forall>i. bt_get (al_requests l) i \<noteq> None \<longrightarrow> bt_get (al_requests l') i = bt_get (al_requests l) i) \<and>
    (\<forall>i. bt_get (al_decisions l) i \<noteq> None \<longrightarrow> bt_get (al_decisions l') i = bt_get (al_decisions l) i)"
proof -
  obtain l' where "book cr d' = Inr l'" and le: "ledger_le l l'" using reach_book [OF assms] by blast
  moreover have "bt_get (al_requests l') i = bt_get (al_requests l) i" if "bt_get (al_requests l) i \<noteq> None" for i
    using that le by (auto simp: ledger_le_def)
  moreover have "bt_get (al_decisions l') i = bt_get (al_decisions l) i" if "bt_get (al_decisions l) i \<noteq> None" for i
    using that le by (auto simp: ledger_le_def)
  ultimately show ?thesis using le unfolding ledger_le_def by blast
qed

lemma approved_book: "book sample_crypto approved_disk = Inr approved_ledger"
  using file_replays_book approved_complete complete_def by blast

lemma one_call: "approval_reach cr d (run_call cr c (in_environment writes torn busy d))"
  unfolding approval_reach_def by (intro r_into_rtranclp approval_step.call)

theorem ledger_is_append_only_witness:
  "\<exists>l'. book sample_crypto (run_call sample_crypto (Call_Propose sample_draft 2000) (in_environment 3 True False approved_disk)) = Inr l' \<and>
     bt_get (al_decisions l') (rq_id sample_request) = Some sample_decision"
  using ledger_is_append_only [OF one_call approved_book, of "Call_Propose sample_draft 2000" 3 True False]
  by (fastforce simp: bt_get_def)

text \<open>At most 128 requests are open at once, at the time of the directory and at every later time.\<close>

theorem open_approvals_bounded:
  assumes "approval_reach cr empty_disk d" and "book cr d = Inr l" and "clock_of d \<le> now"
  shows "length (open_requests l now) \<le> MAX_OPEN_APPROVALS"
proof -
  have "book_reach cr empty_book (abs_book l (clock_of d))" using reach_book [OF assms(1) book_empty_disk(1)] assms(2) by auto
  then have "book_bounded (abs_book l (clock_of d))" using book_reach_bounded empty_book_bounded by blast
  moreover have "ledger_wf cr l" using assms(2) replay_wf unfolding book_def by blast
  ultimately show ?thesis
    using assms(3) by (simp add: open_requests_card [of cr l now "clock_of d"] book_bounded_def abs_book_def)
qed


lemma sample_proposes: "request_propose (sized_crypto line) sample_draft 1000 = Inr sample_request"
proof -
  have "no_credentials ascii_lower ''part:7'' ''stock 20'' (sample_revision False) ''agent-1'' [''quote''] = Inr ()"
    by (simp add: no_credentials_def short_text_passes sample_revision_fits)
  then have "no_credentials ascii_lower (dr_subject sample_draft) (dr_proposed_change sample_draft)
      (dr_bound_revision sample_draft) (pr_id (dr_requester sample_draft)) (dr_evidence sample_draft) = Inr ()"
    by (simp add: sample_draft_at_def)
  moreover have "dr_expires_at_ms sample_draft = 5000" by (simp add: sample_draft_at_def)
  moreover have "draft_request sample_draft 1000 (tag_text 161) = sample_request" by (simp add: sample_request_at_def)
  ultimately show ?thesis
    by (simp add: request_propose_def sized_digest MAX_REQUEST_LIFETIME_MS_def Let_def)
qed

definition first_proposal :: approval_disk where
  "first_proposal = run_call sample_crypto (Call_Propose sample_draft 1000) (in_environment 9 False False empty_disk)"

lemma first_append:
  "append_check (sized_crypto line) empty_ledger (Requested sample_request) 1000 = Inr None"
  "next_entry (sized_crypto line) empty_ledger (Requested sample_request) 1000 = Inr request_entry"
  by (simp_all add: append_check_def append_request_check_def empty_ledger_def open_requests_def bt_values_def
      MAX_OPEN_APPROVALS_def next_entry_def entry_digest_def sized_digest last_digest_def request_entry_at_def sample_entry_def)

lemma empty_ledger_fields: "al_entries empty_ledger = []" "al_requests empty_ledger = []" "al_decisions empty_ledger = []"
  by (simp_all add: empty_ledger_def)

lemma first_proposal_disk: "first_proposal = (sample_disk 5 1000 [request_entry] [request_entry] [request_entry])\<lparr>dk_registry := Absent\<rparr>"
  by (simp add: first_proposal_def propose_def effective_now_def observe_locked_def empty_disk_def in_environment_def
      write_file_def sample_proposes sample_crypto_def ledger_begin_def load_inner_def verify_anchor_def anchor_position_def
      ledger_append_def first_append append_line_def add_line_def write_committed_head_def write_anchor_def
      sample_disk_def mark_of_def bind_act_def seq_act_def observe_def return_def require_def reject_if_def some_or_def
      empty_ledger_fields)

lemma first_proposal_reached: "approval_reach sample_crypto empty_disk first_proposal"
  unfolding first_proposal_def by (rule one_call)

lemma first_proposal_entries: "entries_of first_proposal = [request_entry]" "clock_of first_proposal = 1000"
  by (simp_all add: first_proposal_disk entries_of_def clock_of_def)

lemma first_proposal_book: "book sample_crypto first_proposal = Inr proposed_ledger"
  using proposed_replays [of 500] by (simp add: book_def first_proposal_entries sample_crypto_def)

theorem approval_refines_book_witness:
  "\<exists>l. book sample_crypto first_proposal = Inr l \<and> book_reach sample_crypto empty_book (abs_book l 1000)"
  using approval_refines_book [OF first_proposal_reached] by (simp only: first_proposal_entries)

theorem open_approvals_bounded_witness:
  "length (open_requests proposed_ledger 1000) = 1 \<and> length (open_requests proposed_ledger 1000) \<le> MAX_OPEN_APPROVALS"
  using open_approvals_bounded [OF first_proposal_reached first_proposal_book, of 1000]
  by (simp add: first_proposal_entries open_requests_def bt_values_def)

text \<open>C27. A denial is final: in every later directory the denied request is refused, for every check, at every
  time and in every environment.\<close>

theorem denied_is_final:
  assumes "book cr d = Inr l" and "bt_get (al_decisions l) i = Some dc" and "dc_outcome dc = Denied_For reason"
    and "approval_reach cr d d'"
  shows "\<not> is_ok (snd (authorize_request cr i ck t inst (in_environment writes torn busy d')))"
proof
  let ?e = "in_environment writes torn busy d'"
  assume "is_ok (snd (authorize_request cr i ck t inst ?e))"
  then obtain d2 tok where run: "authorize_request cr i ck t inst ?e = (d2, Inr tok)" by (metis is_ok_iff prod.collapse)
  obtain l' where b: "book cr d' = Inr l'" and le: "ledger_le l l'" using reach_book [OF assms(4,1)] by blast
  from run obtain now d1 l1 r where now: "effective_now t ?e = (d1, Inr now)" and load: "\<exists>d1'. ledger_load cr d1 = (d1', Inr l1)"
    and req: "bt_get (al_requests l1) i = Some r" and ev: "\<exists>d1'. evaluate cr r l1 now inst d1' = (d2, Inr tok)"
    unfolding authorize_request_def by (auto simp: bind_act_eq_Inr split: if_splits)
  have "book cr d1 = Inr l'"
    using b effective_now_ok [OF now] by (simp add: book_def in_environment_def entries_of_def)
  with load have l1: "l1 = l'" "ledger_wf cr l'" using loaded_wf by fastforce+
  have "bt_get (al_decisions l') i = Some dc" using le assms(2) by (simp add: ledger_le_def)
  moreover have "rq_id r = i" using l1 req unfolding ledger_wf_def by blast
  moreover obtain trusted operators where "evaluate_with_trust cr r l1 now trusted operators inst = Inr tok"
    using ev by (auto simp: evaluate_def bind_act_eq_Inr)
  ultimately show False using l1 assms(3) by (auto simp: evaluate_with_trust_def split: if_splits)
qed

theorem denied_is_final_witness:
  "\<not> is_ok (snd (authorize_request sample_crypto (rq_id sample_request) sample_check 1600 7 (in_environment 9 False False denied_disk)))"
proof -
  have "bt_get (al_decisions (record_entry denial_entry proposed_ledger)) (rq_id sample_request) = Some denied_decision"
    by (simp add: record_entry_def denial_entry_at_def sample_entry_def denied_decision_at_def bt_get_def)
  moreover have "dc_outcome denied_decision = Denied_For ''no''" by (simp add: denied_decision_at_def)
  moreover have "approval_reach sample_crypto denied_disk denied_disk" by (simp add: approval_reach_def)
  ultimately show ?thesis by (rule denied_is_final [OF denied_book])
qed

section \<open>The anchor\<close>

lemma load_anchored:
  assumes "ledger_load cr d = (d', Inr l)"
  shows "(case dk_anchor d of Absent \<Rightarrow> al_entries l = []
    | Holds a \<Rightarrow> al_entries l \<noteq> [] \<and> length (al_entries l) = mk_seq a \<and> le_digest (last (al_entries l)) = mk_digest a
    | _ \<Rightarrow> False)"
proof -
  obtain d2 where v: "verify_anchor l False d = (d2, Inr ())"
    using assms by (auto simp: ledger_load_def load_inner_def bind_act_eq_Inr seq_act_def split: ledger_file.splits if_splits)
  then obtain pos where pos: "anchor_position d l = Inr pos" and len: "\<forall>k. pos = Some k \<longrightarrow> \<not> k < length (al_entries l)"
    by (auto simp: verify_anchor_def bind_act_eq_Inr split: option.splits if_splits)
  from pos len show ?thesis
    by (cases "dk_anchor d") (auto simp: anchor_position_def mark_malformed_def last_conv_nth not_less split: if_splits)
qed

text \<open>C25. The anchor pins the whole ledger: two directories with the same anchor that both load have the same
  entries, one for one, when the hash does not collide on them. Rolling the ledger file back, truncating it or
  rewriting an entry therefore makes the load refuse.\<close>

theorem anchor_pins_ledger:
  assumes "ledger_load cr d = (d1, Inr l)" and "ledger_load cr d' = (d1', Inr l')" and "dk_anchor d = dk_anchor d'"
    and "no_collision cr (al_entries l) (al_entries l')"
  shows "al_entries l = al_entries l'"
proof (cases "dk_anchor d")
  case (Holds a)
  have ch: "chained cr (al_entries l)" "chained cr (al_entries l')"
    using load_ok [OF assms(1)] load_ok [OF assms(2)] file_replays_chained by blast+
  have "al_entries l \<noteq> []" "length (al_entries l) = mk_seq a" "le_digest (last (al_entries l)) = mk_digest a"
    using load_anchored [OF assms(1)] Holds by simp_all
  moreover have "length (al_entries l') = mk_seq a" "le_digest (last (al_entries l')) = mk_digest a"
    using load_anchored [OF assms(2)] Holds assms(3) by simp_all
  ultimately show ?thesis by (intro chains_agree [OF ch assms(4)]) simp_all
qed (use load_anchored [OF assms(1)] load_anchored [OF assms(2)] assms(3) in auto)

lemma approved_no_collision: "no_collision sample_crypto [request_entry, decision_entry] [request_entry, decision_entry]"
proof -
  have "sample_hash [225] \<noteq> sample_hash [226]" by (simp add: sample_hash_def)
  then have "tag_text 225 \<noteq> tag_text 226" unfolding tag_text_def by (metis hex_chunks_to_hex)
  then show ?thesis
    by (simp add: no_collision_def sample_crypto_def sized_digest entry_id_def request_entry_at_def decision_entry_at_def sample_entry_def)
qed

definition padded_disk :: approval_disk where
  "padded_disk = approved_disk\<lparr>dk_ledger := Ledger_Lines [Blank_Line, Entry_Line request_entry, Entry_Line decision_entry]\<rparr>"

lemma replay_blank: "replay cr (Blank_Line # ls) = replay cr ls"
  by (simp add: replay_def replay_line_def)

lemma padded_complete: "complete sample_crypto padded_disk approved_ledger"
proof -
  have "replay (sized_crypto 500) [Blank_Line, Entry_Line request_entry, Entry_Line decision_entry] = Inr approved_ledger"
    by (simp add: replay_blank approved_replays)
  then show ?thesis
    using approved_complete
    by (simp add: complete_def padded_disk_def marks_at_def file_replays_def sample_crypto_def ledger_bytes_def line_bytes_def
        MAX_LEDGER_BYTES_def)
qed

theorem anchor_pins_ledger_witness:
  "padded_disk \<noteq> approved_disk \<and> (\<exists>d1 l. ledger_load sample_crypto padded_disk = (d1, Inr l) \<and> al_entries l = [request_entry, decision_entry])"
proof -
  have "hash_size sample_crypto" by (simp add: sample_crypto_def)
  then have load: "ledger_load sample_crypto padded_disk = (padded_disk, Inr approved_ledger)"
    unfolding ledger_load_def by (rule complete_loads [OF padded_complete])
  have "dk_anchor padded_disk = dk_anchor approved_disk" by (simp add: padded_disk_def)
  from anchor_pins_ledger [OF load approved_loads this] have "al_entries approved_ledger = [request_entry, decision_entry]"
    using approved_no_collision by simp
  with load show ?thesis by (auto simp: padded_disk_def approved_disk_at_def sample_disk_def)
qed

section \<open>Interrupted appends\<close>

text \<open>What an append leaves behind depends only on how many writes took effect before the file system failed:
  none, and the ledger is as it was or ends in a torn line; the line alone; the line and the head; or all three,
  and only then does the call report success.\<close>

theorem append_crash_points:
  assumes "complete cr d l" and "append_check cr l body now = Inr None" and "next_entry cr l body now = Inr e"
    and "cr_entry_bytes cr e = Some n" and "file_bytes cr d + n + 1 \<le> MAX_LEDGER_BYTES"
  shows "case ledger_append cr l body now d of (d', r) \<Rightarrow>
    (if dk_writes d = 0 then \<not> is_ok r \<and> d' = (if dk_torn d then add_line (Bad_Line 1) d else d)
     else if dk_writes d = 1 then \<not> is_ok r \<and> before_head cr d' l e
     else if dk_writes d = 2 then \<not> is_ok r \<and> before_anchor cr d' l e
     else r = Inr (e, record_entry e l) \<and> complete cr d' (record_entry e l))"
proof (cases "ledger_append cr l body now d")
  case (Pair d' r)
  from append_states [OF assms Pair] show ?thesis by (elim disjE) (simp_all add: Pair)
qed

lemma second_append:
  "append_check (sized_crypto line) proposed_ledger (Decided sample_decision) 1500 = Inr None"
  "next_entry (sized_crypto line) proposed_ledger (Decided sample_decision) 1500 = Inr decision_entry"
  by (simp_all add: append_check_def append_decision_check_def bt_get_def request_digest_def sized_digest ok_or_def
      next_entry_def entry_digest_def last_digest_def request_entry_at_def decision_entry_at_def sample_entry_def)

lemma proposed_complete: "complete sample_crypto (sample_disk writes 1000 [request_entry] [request_entry] [request_entry]) proposed_ledger"
  using sample_file_replays [of 500 "[request_entry]"] proposed_replays [of 500]
  by (simp add: complete_def sample_crypto_def MAX_LEDGER_BYTES_def)

theorem append_crash_points_witness:
  "case ledger_append sample_crypto proposed_ledger (Decided sample_decision) 1500
      (sample_disk 1 1000 [request_entry] [request_entry] [request_entry]) of
    (d', r) \<Rightarrow> \<not> is_ok r \<and> before_head sample_crypto d' proposed_ledger decision_entry"
proof -
  have "file_bytes sample_crypto (sample_disk 1 1000 [request_entry] [request_entry] [request_entry]) = 501"
    using ledger_bytes_sized [of 500 "[request_entry]"] by (simp add: file_bytes_def sample_crypto_def)
  then show ?thesis
    using append_crash_points [OF proposed_complete [of 1], of "Decided sample_decision" 1500 decision_entry 500]
      second_append [of 500] by (simp add: sample_crypto_def MAX_LEDGER_BYTES_def)
qed

text \<open>An append that was interrupted between the head and the anchor is completed by the next writer: it takes
  the lock, moves the anchor to the last entry and continues with the interrupted entry in its ledger, provided the
  ledger had an entry before.\<close>

theorem interrupted_anchor_heals:
  assumes "before_anchor cr d l e" and "hash_size cr" and "al_entries l \<noteq> []" and "dk_writes d \<noteq> 0" and "\<not> dk_busy d"
  shows "\<exists>d'. ledger_begin cr d = (d', Inr (record_entry e l)) \<and> complete cr d' (record_entry e l)"
  using assms by (rule before_anchor_heals)

lemma approved_file_replays: "file_replays sample_crypto (sample_disk writes 1500 [request_entry, decision_entry] head anchor) (record_entry decision_entry proposed_ledger)"
  using sample_file_replays [of 500 "[request_entry, decision_entry]"] approved_replays [of 500]
  by (simp add: sample_crypto_def MAX_LEDGER_BYTES_def approved_ledger_at_def)

theorem interrupted_anchor_heals_witness:
  "\<exists>d'. ledger_begin sample_crypto (sample_disk 1 1500 [request_entry, decision_entry] [request_entry, decision_entry] [request_entry])
      = (d', Inr approved_ledger) \<and> complete sample_crypto d' approved_ledger"
proof -
  have "before_anchor sample_crypto
      (sample_disk 1 1500 [request_entry, decision_entry] [request_entry, decision_entry] [request_entry]) proposed_ledger decision_entry"
    using approved_file_replays by (simp add: before_anchor_def)
  then show ?thesis
    unfolding approved_ledger_at_def by (rule interrupted_anchor_heals) (simp_all add: sample_crypto_def)
qed

lemma complete_in_environment [simp]: "complete cr (in_environment writes torn busy d) l = complete cr d l"
  by (simp add: complete_def file_replays_def marks_at_def in_environment_def)

lemma before_anchor_in_environment [simp]: "before_anchor cr (in_environment writes torn busy d) l e = before_anchor cr d l e"
  by (simp add: before_anchor_def file_replays_def marks_at_def in_environment_def)




text \<open>Any other interruption is for good: after the line without its head, after the first entry without its
  anchor, or after a torn line, every later call that reads the ledger is refused, whatever the file system allows
  by then.\<close>

theorem unreconciled_append_is_final:
  assumes "hash_size cr" and "before_head cr d l e \<or> (before_anchor cr d l e \<and> al_entries l = []) \<or> torn_line d"
    and "approval_reach cr d d'" and "reads_ledger c"
  shows "\<not> call_ok cr c (in_environment writes torn busy d')"
proof -
  have "refuses cr d" using assms(1,2) before_head_refuses first_before_anchor_refuses torn_line_refuses by blast
  then have "same_marks d d'" "refuses cr d" using refuses_reach [OF assms(3)] by auto
  then have "refuses cr (in_environment writes torn busy d')"
    by (rule_tac refuses_same [of cr d]) (auto simp: same_marks_def in_environment_def)
  then show ?thesis using call_refused [OF _ assms(4)] by blast
qed

theorem unreconciled_append_is_final_witness:
  "\<not> call_ok sample_crypto Call_List
     (in_environment 9 False False (sample_disk 9 1500 [request_entry, decision_entry] [request_entry] [request_entry]))"
proof -
  have "before_head sample_crypto (sample_disk 9 1500 [request_entry, decision_entry] [request_entry] [request_entry])
      proposed_ledger decision_entry"
    using approved_file_replays by (simp add: before_head_def)
  moreover have "hash_size sample_crypto" by (simp add: sample_crypto_def)
  moreover have "approval_reach sample_crypto d d" for d by (simp add: approval_reach_def)
  ultimately show ?thesis by (intro unreconciled_append_is_final) auto
qed

text \<open>An append is not refused for the size it gives the ledger, but every read is: an append that takes the
  file beyond its bound succeeds, and no later call that reads the ledger does.\<close>

theorem oversized_ledger_is_final:
  assumes "complete cr d l" and "append_check cr l body now = Inr None" and "next_entry cr l body now = Inr e"
    and "cr_entry_bytes cr e = Some n" and "MAX_LEDGER_BYTES < file_bytes cr d + n + 1" and "3 \<le> dk_writes d"
    and "ledger_append cr l body now d = (d', r)" and "approval_reach cr d' d2" and "reads_ledger c"
  shows "r = Inr (e, record_entry e l) \<and> \<not> call_ok cr c (in_environment writes torn busy d2)"
proof -
  obtain k where k: "dk_writes d = k + 3" using assms(6) by (metis add.commute le_Suc_ex)
  have "r = Inr (e, record_entry e l) \<and> file_bytes cr d' = file_bytes cr d + n + 1"
    using assms(1-4,7) k
    by (auto simp: complete_def file_replays_def ledger_append_def append_line_def write_committed_head_def write_anchor_def
        write_file_def bind_act_def seq_act_def some_or_def add_line_def file_bytes_def ledger_bytes_snoc
        ledger_bytes_def line_bytes_def split: ledger_file.splits)
  moreover from this have "refuses cr d'" using assms(5) oversized_refuses by simp
  then have "same_marks d' d2" "refuses cr d'" using refuses_reach [OF assms(8)] by auto
  then have "refuses cr (in_environment writes torn busy d2)"
    by (rule_tac refuses_same [of cr d']) (auto simp: same_marks_def in_environment_def)
  ultimately show ?thesis using call_refused [OF _ assms(9)] by blast
qed

theorem oversized_ledger_is_final_witness:
  "case ledger_append (sized_crypto 16777216) empty_ledger (Requested sample_request) 1000 (sample_disk 3 1000 [] [] []) of
     (d', r) \<Rightarrow> is_ok r \<and> \<not> call_ok (sized_crypto 16777216) Call_List (in_environment 9 False False d')"
proof -
  let ?cr = "sized_crypto 16777216" and ?d = "sample_disk 3 1000 [] [] []"
  obtain d' r where run: "ledger_append ?cr empty_ledger (Requested sample_request) 1000 ?d = (d', r)" by fastforce
  have "complete ?cr ?d empty_ledger" by (simp add: complete_def file_replays_def empty_ledger_fields)
  moreover have "MAX_LEDGER_BYTES < file_bytes ?cr ?d + 16777216 + 1" by (simp add: MAX_LEDGER_BYTES_def)
  moreover have "approval_reach ?cr d' d'" by (simp add: approval_reach_def)
  ultimately show ?thesis
    using oversized_ledger_is_final [OF _ first_append [of 16777216] _ _ _ run, of 16777216 d' Call_List 9 False False]
    by (simp add: run)
qed

end
