(* ===== verification/Policy_Gate.thy ===== *)
theory Policy_Gate
  imports Planning_Model Approval_Theorems
begin

text \<open>
  A change of the safety stock of a part needs an approval (\<open>apply_policy_change\<close> of
  \<open>crates/supply-planning/src/lib.rs\<close>): the gate where the planning kernel meets the approval authority.
  The JSON of a change is the parameter \<open>json\<close>; \<open>instant\<close> and \<open>wall\<close> are the clocks the token reads.
\<close>

section \<open>The gate\<close>

record safety_stock_change =
  sc_part :: part_id
  sc_current :: units
  sc_proposed :: units
  sc_rationale :: string

text \<open>
  \<open>PlanningError\<close> wraps the errors of the exact types, which wrap the refusals of the authority; the gate is
  the only place of the kernel where the latter occur.
\<close>

datatype gate_error = Gate_Planning planning_error | Gate_Approval approval_error

text \<open>\<open>content_digest\<close> on a value of another crate, given as its JSON.\<close>

definition json_digest :: "crypto \<Rightarrow> string \<Rightarrow> byte list option \<Rightarrow> approval_error + string" where
  "json_digest cr domain encoded =
     (case encoded of
        None \<Rightarrow> Inl (Invalid ''cannot encode'')
      | Some bytes \<Rightarrow> Inr (to_hex (cr_blake3 cr (u64_le (length domain) @ text_bytes domain @ bytes))))"

definition change_digest ::
  "crypto \<Rightarrow> (safety_stock_change \<Rightarrow> byte list option) \<Rightarrow> safety_stock_change \<Rightarrow> approval_error + string" where
  "change_digest cr json change = json_digest cr ''faktor.supply.safety-stock-change/v1'' (json change)"

definition change_check :: "safety_stock_change \<Rightarrow> string \<Rightarrow> approval_check" where
  "change_check change digest = \<lparr>ck_kind = SupplyInventoryPolicy, ck_subject = ''part:'' @ dec_text (sc_part change),
     ck_bound_revision = ''policy'', ck_bound_digest = digest\<rparr>"

definition apply_policy_change ::
  "crypto \<Rightarrow> (safety_stock_change \<Rightarrow> byte list option) \<Rightarrow> safety_stock_change \<Rightarrow> approval_token option \<Rightarrow> nat \<Rightarrow> nat
     \<Rightarrow> gate_error + units" where
  "apply_policy_change cr json change approval instant wall =
     and_then (map_err (\<lambda>e. Gate_Planning (Plan_Exact e)) (supply_validate_text (sc_rationale change) MAX_TEXT_BYTES ''safety-stock rationale''))
     (if sc_current change = sc_proposed change then Inr (sc_proposed change)
      else bind_result (map_err Gate_Approval (change_digest cr json change)) (\<lambda>digest.
        let check = change_check change digest in
        case approval of
          None \<Rightarrow> Inl (Gate_Approval (ApprovalRequired (ck_kind check) (ck_subject check) (ck_bound_revision check) (ck_bound_digest check)))
        | Some token \<Rightarrow>
           and_then (map_err Gate_Approval (token_require token check instant wall)) (Inr (sc_proposed change))))"

section \<open>What a token stands for\<close>

lemma load_registry_cong: "dk_registry d' = dk_registry d \<Longrightarrow> load_registry cr d' = load_registry cr d"
  by (simp add: load_registry_def)

text \<open>The request and the decision behind a token.\<close>

lemma authorized_request:
  assumes "authorize cr ck t inst d = (d', Inr tok)"
  shows "\<exists>l operators r dc. book cr d = Inr l \<and> load_registry cr d = Inr operators \<and>
    bt_get (al_requests l) (rq_id r) = Some r \<and> binds_check ck r \<and> bt_get (al_decisions l) (rq_id r) = Some dc \<and>
    dc_outcome dc = Approved \<and> rightful cr operators r dc \<and> tk_expires_at_ms tok = rq_expires_at_ms r \<and>
    tk_request_id tok = rq_id r"
proof -
  from assms obtain d1 now where d1: "effective_now t d = (d1, Inr now)"
    by (auto simp: authorize_def bind_act_eq_Inr)
  from assms d1 obtain d2 l where d2: "ledger_load cr d1 = (d2, Inr l)"
    by (auto simp: authorize_def bind_act_eq_Inr)
  let ?exact = "filter (binds_check ck) (bt_values (al_requests l))"
  let ?r = "hd (newest_first ?exact)"
  from assms d1 d2 have ex: "?exact \<noteq> []" "evaluate cr ?r l now inst d2 = (d', Inr tok)"
    by (auto simp: authorize_def bind_act_def Let_def split: if_splits option.splits)
  from ex(2) obtain trusted operators where tr: "read_trust cr d2 = Inr (trusted, operators)"
    and ev: "evaluate_with_trust cr ?r l now trusted operators inst = Inr tok"
    by (auto simp: evaluate_def bind_act_eq_Inr split: prod.splits)
  have reg: "load_registry cr d2 = Inr operators" "trusted = map op_key_id operators" using tr read_trust_ok by blast+
  have wf: "ledger_wf cr l" and b: "book cr d1 = Inr l" using loaded_wf [OF d2] by auto
  have new: "newest_for l ck ?r" using newest_for_hd [OF wf ex(1)] by simp
  note rec = newest_recorded [OF wf new]
  have "is_ok (evaluate_with_trust cr ?r l now (map op_key_id operators) operators inst)" using ev reg(2) by simp
  then obtain dc where dc: "bt_get (al_decisions l) (rq_id ?r) = Some dc" "dc_outcome dc = Approved"
    "rightful cr operators ?r dc" using evaluate_ok_iff [OF wf rec] by blast
  have "book cr d = Inr l" using b effective_now_ok [OF d1] by (simp add: book_def)
  moreover have "load_registry cr d = Inr operators"
    using reg(1) effective_now_ok [OF d1] load_ok [OF d2] load_registry_cong [of d2 d cr] by (simp add: same_files_def)
  moreover have "binds_check ck ?r" using new by (simp add: newest_for_def)
  moreover have "tk_expires_at_ms tok = rq_expires_at_ms ?r" "tk_request_id tok = rq_id ?r" using evaluate_token [OF ev] by simp_all
  ultimately show ?thesis using rec dc by blast
qed

text \<open>A token that a check accepts stands for an approved request of the checked action.\<close>

lemma accepted_token:
  assumes "authorize cr ck t inst (in_environment writes torn busy d) = (d', Inr tok)"
    and "token_require tok check instant wall = Inr ()"
  shows "\<exists>l operators r dc. book cr d = Inr l \<and> load_registry cr d = Inr operators \<and>
    bt_get (al_requests l) (rq_id r) = Some r \<and> request_check r = check \<and>
    bt_get (al_decisions l) (rq_id r) = Some dc \<and> dc_outcome dc = Approved \<and> rightful cr operators r dc \<and>
    wall \<le> rq_expires_at_ms r \<and> tk_request_id tok = rq_id r"
proof -
  from authorized_request [OF assms(1)] obtain l operators r dc
    where l: "book cr (in_environment writes torn busy d) = Inr l"
      "load_registry cr (in_environment writes torn busy d) = Inr operators"
      and r: "bt_get (al_requests l) (rq_id r) = Some r" "binds_check ck r" "bt_get (al_decisions l) (rq_id r) = Some dc"
        "dc_outcome dc = Approved" "rightful cr operators r dc" "tk_expires_at_ms tok = rq_expires_at_ms r"
        "tk_request_id tok = rq_id r" by blast
  have "book cr d = Inr l" "load_registry cr d = Inr operators"
    using l load_registry_cong [of "in_environment writes torn busy d" d cr]
    by (simp_all add: book_def entries_of_def in_environment_def)
  moreover have "request_check r = check"
    using assms(2) r(2) authorize_token [OF assms(1)]
    by (cases check) (auto simp: token_require_def token_check_def binds_check_def request_check_def split: if_splits)
  moreover have "wall \<le> rq_expires_at_ms r" using assms(2) r(6) by (auto simp: token_require_def not_less split: if_splits)
  ultimately show ?thesis using r by blast
qed

text \<open>
  What a gate of another kernel promises: for an action it demands one check, and it lets the action through
  on a token only if the token passes that check. Then the token stands for an approved request of the very action.
\<close>

locale approval_gate =
  fixes demands :: "'a \<Rightarrow> approval_error + approval_check"
    and passes :: "'a \<Rightarrow> approval_token \<Rightarrow> nat \<Rightarrow> nat \<Rightarrow> bool"
  assumes passes_check: "passes x tok instant wall \<Longrightarrow> \<exists>check. demands x = Inr check \<and> token_require tok check instant wall = Inr ()"
begin

lemma passed_is_approved:
  assumes "authorize cr ck t inst (in_environment writes torn busy d) = (d', Inr tok)" and "passes x tok instant wall"
  shows "\<exists>check l operators r dc. demands x = Inr check \<and> book cr d = Inr l \<and> load_registry cr d = Inr operators \<and>
    bt_get (al_requests l) (rq_id r) = Some r \<and> request_check r = check \<and>
    bt_get (al_decisions l) (rq_id r) = Some dc \<and> dc_outcome dc = Approved \<and> rightful cr operators r dc \<and>
    wall \<le> rq_expires_at_ms r \<and> tk_request_id tok = rq_id r"
  using passes_check [OF assms(2)] accepted_token [OF assms(1)] by blast

end

definition change_demands ::
  "crypto \<Rightarrow> (safety_stock_change \<Rightarrow> byte list option) \<Rightarrow> safety_stock_change \<Rightarrow> approval_error + approval_check" where
  "change_demands cr json change = bind_result (change_digest cr json change) (\<lambda>digest. Inr (change_check change digest))"

definition change_passes ::
  "crypto \<Rightarrow> (safety_stock_change \<Rightarrow> byte list option) \<Rightarrow> safety_stock_change \<Rightarrow> approval_token \<Rightarrow> nat \<Rightarrow> nat \<Rightarrow> bool" where
  "change_passes cr json change tok instant wall \<longleftrightarrow> sc_current change \<noteq> sc_proposed change \<and>
     is_ok (apply_policy_change cr json change (Some tok) instant wall)"

interpretation change_gate: approval_gate "change_demands cr json" "change_passes cr json" for cr json
proof
  fix change tok instant wall
  assume "change_passes cr json change tok instant wall"
  then show "\<exists>check. change_demands cr json change = Inr check \<and> token_require tok check instant wall = Inr ()"
    by (auto simp: change_passes_def change_demands_def apply_policy_change_def Let_def is_ok_iff bind_result_eq_Inr)
qed

text \<open>C31. The safety stock of a part changes only by an approved decision: when the gate lets a change through that is
  one, the token it was given comes from a directory whose ledger records a request for the inventory policy of
  that part, bound to the digest of this very change, which a registered human operator other than the requester
  approved and signed and which has not expired. Without a token every change is refused.\<close>

theorem policy_change_needs_approval:
  assumes "sc_current change \<noteq> sc_proposed change"
    and "apply_policy_change cr json change approval instant wall = Inr u"
    and "\<And>tok. approval = Some tok \<Longrightarrow> authorize cr ck t inst (in_environment writes torn busy d) = (d', Inr tok)"
  shows "u = sc_proposed change \<and> (\<exists>l operators r dc digest.
    book cr d = Inr l \<and> load_registry cr d = Inr operators \<and> change_digest cr json change = Inr digest \<and>
    bt_get (al_requests l) (rq_id r) = Some r \<and> request_check r = change_check change digest \<and>
    bt_get (al_decisions l) (rq_id r) = Some dc \<and> dc_outcome dc = Approved \<and> rightful cr operators r dc \<and>
    wall \<le> rq_expires_at_ms r)"
proof -
  obtain tok where tok: "approval = Some tok" "u = sc_proposed change"
    using assms(1,2) by (auto simp: apply_policy_change_def Let_def split: option.splits)
  with assms(1,2) have "change_passes cr json change tok instant wall" by (simp add: change_passes_def)
  from change_gate.passed_is_approved [OF assms(3) [OF tok(1)] this] obtain check l operators r dc
    where "change_demands cr json change = Inr check" and r: "book cr d = Inr l" "load_registry cr d = Inr operators"
      "bt_get (al_requests l) (rq_id r) = Some r" "request_check r = check" "bt_get (al_decisions l) (rq_id r) = Some dc"
      "dc_outcome dc = Approved" "rightful cr operators r dc" "wall \<le> rq_expires_at_ms r" by blast
  then obtain digest where "change_digest cr json change = Inr digest" "check = change_check change digest"
    by (auto simp: change_demands_def bind_result_eq_Inr)
  with r tok(2) show ?thesis by blast
qed

definition sample_change :: safety_stock_change where
  "sample_change = \<lparr>sc_part = 7, sc_current = Units 10, sc_proposed = Units 20, sc_rationale = ''late supplier''\<rparr>"

lemma sample_change_digest: "change_digest sample_crypto (\<lambda>_. Some [5]) sample_change = Inr (tag_text 5)"
  by (simp add: change_digest_def json_digest_def sample_crypto_def sized_crypto_def tag_text_def sample_hash_def)

lemma sample_change_check: "change_check sample_change (tag_text 5) = sample_check"
proof -
  have "dec_text 7 = ''7''" by code_simp
  then show ?thesis
    by (simp add: change_check_def sample_change_def sample_check_at_def request_check_def) (simp add: sample_request_at_def draft_request_def sample_draft_at_def sample_revision_def)
qed

lemma sample_token:
  "\<exists>d' tok. authorize sample_crypto (sample_check_at numbered) 1200 7 (approved_disk_at numbered) = (d', Inr tok) \<and>
    8 < tk_deadline tok \<and> tk_expires_at_ms tok = 5000"
proof -
  have exact: "filter (binds_check (sample_check_at numbered)) (bt_values (al_requests (approved_ledger_at numbered))) = [(sample_request_at numbered)]"
    using sample_newest [of numbered] by (simp add: newest_for_def bt_values_def)
  have "snd (authorize sample_crypto (sample_check_at numbered) 1200 7 (approved_disk_at numbered)) =
      evaluate_with_trust sample_crypto (sample_request_at numbered) (approved_ledger_at numbered) 1500 (map op_key_id [sample_operator]) [sample_operator] 7"
    using authorize_run [OF approved_now [of numbered] approved_loads approved_registry, of "sample_check_at numbered" 7]
    unfolding exact by (simp add: newest_first_def del: list.map)
  also have "\<dots> = token_from_verified sample_crypto (sample_request_at numbered) (sample_decision_at numbered) 1500 7"
    using sample_rightful [of numbered] verify_decision_iff [of sample_crypto "sample_request_at numbered" "sample_decision_at numbered" "[sample_operator]"]
    by (simp add: evaluate_with_trust_def bt_get_def del: list.map)
  also have "\<dots> = Inr \<lparr>tk_kind = rq_kind (sample_request_at numbered), tk_subject = rq_subject (sample_request_at numbered),
      tk_bound_revision = rq_bound_revision (sample_request_at numbered), tk_bound_digest = rq_bound_digest (sample_request_at numbered),
      tk_request_id = rq_id (sample_request_at numbered), tk_decision_key_id = sg_key_id (dc_signature (sample_decision_at numbered)),
      tk_decided_at_ms = dc_decided_at_ms (sample_decision_at numbered), tk_expires_at_ms = rq_expires_at_ms (sample_request_at numbered),
      tk_deadline = 7 + min (rq_expires_at_ms (sample_request_at numbered) - 1500) MAX_REQUEST_LIFETIME_MS\<rparr>"
    by (rule token_from_verified_ok) (simp_all add: request_digest_def sample_crypto_def sized_digest)
  finally show ?thesis
    by (intro exI [of _ "fst (authorize sample_crypto (sample_check_at numbered) 1200 7 (approved_disk_at numbered))"] exI conjI)
      (auto simp: prod_eq_iff MAX_REQUEST_LIFETIME_MS_def)
qed

theorem policy_change_needs_approval_witness:
  "\<exists>tok. apply_policy_change sample_crypto (\<lambda>_. Some [5]) sample_change (Some tok) 8 1500 = Inr (Units 20) \<and>
     (\<exists>l operators r dc. book sample_crypto approved_disk = Inr l \<and> bt_get (al_requests l) (rq_id r) = Some r \<and>
       bt_get (al_decisions l) (rq_id r) = Some dc \<and> dc_outcome dc = Approved \<and> rightful sample_crypto operators r dc)"
proof -
  obtain d' tok where run: "authorize sample_crypto sample_check 1200 7 (in_environment 9 False False approved_disk) = (d', Inr tok)"
    and tok: "8 < tk_deadline tok" "tk_expires_at_ms tok = 5000"
    using sample_token [of False] approved_environment [of False] by fastforce
  have "token_require tok (token_check tok) 8 1500 = Inr ()" using tok by (simp add: token_require_def token_check_def)
  then have "token_require tok sample_check 8 1500 = Inr ()" using authorize_token [OF run] by simp
  then have gate: "apply_policy_change sample_crypto (\<lambda>_. Some [5]) sample_change (Some tok) 8 1500 = Inr (Units 20)"
    by (simp add: apply_policy_change_def sample_change_digest sample_change_check)
      (simp add: sample_change_def supply_validate_text_def MAX_TEXT_BYTES_def)
  have "sc_current sample_change \<noteq> sc_proposed sample_change" by (simp add: sample_change_def)
  moreover have "authorize sample_crypto sample_check 1200 7 (in_environment 9 False False approved_disk) = (d', Inr x)"
    if "Some tok = Some x" for x using that run by simp
  ultimately have "\<exists>l operators r dc digest. book sample_crypto approved_disk = Inr l \<and>
      load_registry sample_crypto approved_disk = Inr operators \<and>
      change_digest sample_crypto (\<lambda>_. Some [5]) sample_change = Inr digest \<and>
      bt_get (al_requests l) (rq_id r) = Some r \<and> request_check r = change_check sample_change digest \<and>
      bt_get (al_decisions l) (rq_id r) = Some dc \<and> dc_outcome dc = Approved \<and>
      rightful sample_crypto operators r dc \<and> 1500 \<le> rq_expires_at_ms r"
    using policy_change_needs_approval [OF _ gate] by blast
  with gate show ?thesis by blast
qed

end
