(* ===== verification/Sourcing_Gate.thy ===== *)
theory Sourcing_Gate
  imports Sourcing_Bids Policy_Gate
begin

text \<open>
  The gate in front of every action a counterparty sees (\<open>authorize_with_approvals\<close> of
  \<open>crates/supply-execution/src/lib.rs\<close>): an explicit grant and a human approval of the exact action. The
  JSON of an action and its grant is the parameter \<open>json\<close>; \<open>instant\<close> and \<open>wall\<close> are the clocks the tokens
  read, which stand still during a call.
\<close>

section \<open>Actions and grants\<close>

definition MAX_GRANTS :: nat where "MAX_GRANTS = 256"
definition MAX_ACTION_AMOUNT :: int where "MAX_ACTION_AMOUNT = 1000000000000000000"

datatype action_kind = SendRfq | AcceptRfq | SendMessage | CreatePurchaseOrder | AmendPurchaseOrder
  | CancelPurchaseOrder | SetPaymentTerms | SetContractTerms | SetTariffClassification | ChangeInventoryPolicy

definition requires_amount :: "action_kind \<Rightarrow> bool" where
  "requires_amount a \<longleftrightarrow> a = CreatePurchaseOrder \<or> a = AmendPurchaseOrder"

fun approval_kind_of :: "action_kind \<Rightarrow> approval_kind" where
  "approval_kind_of SendRfq = SupplyRfqAcceptance"
| "approval_kind_of AcceptRfq = SupplyRfqAcceptance"
| "approval_kind_of SendMessage = SupplySupplierMessage"
| "approval_kind_of CreatePurchaseOrder = SupplyPurchaseOrder"
| "approval_kind_of AmendPurchaseOrder = SupplyPurchaseOrder"
| "approval_kind_of CancelPurchaseOrder = SupplyPurchaseOrder"
| "approval_kind_of SetPaymentTerms = SupplyPaymentTerms"
| "approval_kind_of SetContractTerms = SupplyContractTerms"
| "approval_kind_of SetTariffClassification = SupplyTariffClassification"
| "approval_kind_of ChangeInventoryPolicy = SupplyInventoryPolicy"

record authorization_grant =
  gr_id :: string
  gr_action :: action_kind
  gr_scope :: string
  gr_counterparty :: "supplier_id option"
  gr_max_amount :: money
  gr_valid_from :: day
  gr_valid_until :: day
  gr_revision :: revision
  gr_granted_by :: string
  gr_evidence :: evidence_ref

definition grant_validate :: "authorization_grant \<Rightarrow> execution_error + unit" where
  "grant_validate g =
     and_then (exact (supply_validate_text (gr_id g) MAX_ID_BYTES ''grant id''))
     (and_then (exact (supply_validate_text (gr_scope g) MAX_TEXT_BYTES ''grant scope''))
     (and_then (exact (supply_validate_text (gr_granted_by g) MAX_ID_BYTES ''grant authority''))
     (and_then (exact (evidence_ref_validate (gr_evidence g)))
     (and_then (refuse_if (day_before (gr_valid_until g) (gr_valid_from g)) (Exec_Invalid ''grant validity ends before it starts''))
     (and_then (refuse_if (micros (gr_max_amount g) < 0) (Exec_Negative ''grant amount''))
     (refuse_if (MAX_ACTION_AMOUNT < micros (gr_max_amount g)) (Exec_Invalid ''grant amount exceeds the action bound'')))))))"

record action_request =
  ar_action :: action_kind
  ar_scope :: string
  ar_counterparty :: "supplier_id option"
  ar_amount :: "money option"
  ar_as_of :: day

datatype denial_reason = NoGrant | NotYetValid | Grant_Expired | ActionMismatch | ScopeMismatch | CounterpartyMismatch
  | AmountMissing | NegativeAmount | AmountExceeds | Denial_CurrencyMismatch | InvalidGrant | Denial_ApprovalRequired
  | ApprovalStale | ApprovalExpired | ApprovalDenied

datatype authorization_decision =
    Authorized string action_kind "supplier_id option" "money option" revision string
  | Denied_Action denial_reason string

section \<open>The gate\<close>

type_synonym action_json = "action_request \<Rightarrow> authorization_grant \<Rightarrow> byte list option"

definition action_digest :: "crypto \<Rightarrow> action_json \<Rightarrow> action_request \<Rightarrow> authorization_grant \<Rightarrow> approval_error + string" where
  "action_digest cr json r g = json_digest cr ''faktor.supply.action-binding/v1'' (json r g)"

definition action_check :: "action_request \<Rightarrow> authorization_grant \<Rightarrow> string \<Rightarrow> approval_check" where
  "action_check r g binding = \<lparr>ck_kind = approval_kind_of (gr_action g), ck_subject = ar_scope r,
     ck_bound_revision = dec_text (revision_get (gr_revision g)), ck_bound_digest = binding\<rparr>"

text \<open>The body of the loop: the refusal this grant leaves behind, or the decision it gives.\<close>

definition amount_refusal :: "action_request \<Rightarrow> authorization_grant \<Rightarrow> (denial_reason \<times> string) option" where
  "amount_refusal r g =
     (case ar_amount r of
        None \<Rightarrow> None
      | Some amount \<Rightarrow>
         if money_currency amount \<noteq> money_currency (gr_max_amount g) then
           Some (Denial_CurrencyMismatch, ''grant '' @ gr_id g @ '' is in '' @ currency_code (money_currency (gr_max_amount g)) @
             '' but the request is in '' @ currency_code (money_currency amount))
         else if micros (gr_max_amount g) < micros amount then
           Some (AmountExceeds, ''amount '' @ money_display amount @ '' exceeds grant '' @ gr_id g @ '' maximum '' @
             money_display (gr_max_amount g))
         else None)"

definition grant_refusal :: "action_request \<Rightarrow> authorization_grant \<Rightarrow> (denial_reason \<times> string) option" where
  "grant_refusal r g =
     (case grant_validate g of
        Inl e \<Rightarrow> Some (InvalidGrant, ''grant '' @ gr_id g @ '' is invalid: '' @ execution_error_text e)
      | Inr _ \<Rightarrow>
         if day_before (ar_as_of r) (gr_valid_from g) then
           Some (NotYetValid, ''grant '' @ gr_id g @ '' starts on day '' @ int_text (day_number (gr_valid_from g)))
         else if day_before (gr_valid_until g) (ar_as_of r) then
           Some (Grant_Expired, ''grant '' @ gr_id g @ '' expired on day '' @ int_text (day_number (gr_valid_until g)))
         else if gr_scope g \<noteq> ar_scope r then
           Some (ScopeMismatch, ''grant '' @ gr_id g @ '' covers scope '' @ gr_scope g)
         else (case gr_counterparty g of
             Some granted \<Rightarrow>
               if Some granted \<noteq> ar_counterparty r then
                 Some (CounterpartyMismatch, ''grant '' @ gr_id g @ '' is limited to supplier '' @ dec_text granted)
               else amount_refusal r g
           | None \<Rightarrow> amount_refusal r g))"

definition approval_for ::
  "crypto \<Rightarrow> action_json \<Rightarrow> action_request \<Rightarrow> authorization_grant \<Rightarrow> approval_token list \<Rightarrow> nat \<Rightarrow> nat
     \<Rightarrow> (denial_reason \<times> string) + approval_token" where
  "approval_for cr json r g approvals instant wall =
     (case action_digest cr json r g of
        Inl e \<Rightarrow> Inl (Denial_ApprovalRequired, ''approval_invalid: cannot encode'')
      | Inr binding \<Rightarrow>
         (case List.find (\<lambda>tok. is_ok (token_require tok (action_check r g binding) instant wall)) approvals of
            Some tok \<Rightarrow> Inr tok
          | None \<Rightarrow> Inl (Denial_ApprovalRequired, ''approval_required: '' @ approval_kind_as_str (approval_kind_of (gr_action g)) @
              '' on '' @ ar_scope r @ '' at grant revision '' @ dec_text (revision_get (gr_revision g)) @
              '' needs a human-operator approval bound to the exact action'')))"

definition grant_outcome ::
  "crypto \<Rightarrow> action_json \<Rightarrow> action_request \<Rightarrow> approval_token list \<Rightarrow> nat \<Rightarrow> nat \<Rightarrow> authorization_grant
     \<Rightarrow> (denial_reason \<times> string) + approval_token" where
  "grant_outcome cr json r approvals instant wall g =
     (case grant_refusal r g of Some refusal \<Rightarrow> Inl refusal | None \<Rightarrow> approval_for cr json r g approvals instant wall)"

fun try_grants ::
  "(authorization_grant \<Rightarrow> (denial_reason \<times> string) + approval_token) \<Rightarrow> action_request \<Rightarrow> denial_reason \<times> string
     \<Rightarrow> authorization_grant list \<Rightarrow> authorization_decision" where
  "try_grants outcome r final [] = Denied_Action (fst final) (snd final)"
| "try_grants outcome r final (g # gs) =
     (case outcome g of
        Inl refusal \<Rightarrow> try_grants outcome r refusal gs
      | Inr tok \<Rightarrow> Authorized (gr_id g) (ar_action r) (ar_counterparty r) (ar_amount r) (gr_revision g) (tk_request_id tok))"

definition grant_key :: "authorization_grant \<Rightarrow> int \<times> string" where
  "grant_key g = (- int (revision_get (gr_revision g)), gr_id g)"

definition grant_candidates :: "action_request \<Rightarrow> authorization_grant list \<Rightarrow> authorization_grant list" where
  "grant_candidates r grants = sort_key grant_key (filter (\<lambda>g. gr_action g = ar_action r) grants)"

definition authorize_with_approvals ::
  "crypto \<Rightarrow> action_json \<Rightarrow> action_request \<Rightarrow> authorization_grant list \<Rightarrow> approval_token list \<Rightarrow> nat \<Rightarrow> nat
     \<Rightarrow> authorization_decision" where
  "authorize_with_approvals cr json r grants approvals instant wall =
     (if MAX_GRANTS < length grants then Denied_Action NoGrant (''grant list exceeds '' @ dec_text MAX_GRANTS)
      else case supply_validate_text (ar_scope r) MAX_TEXT_BYTES ''action scope'' of
        Inl e \<Rightarrow> Denied_Action ScopeMismatch (exact_error_text e)
      | Inr _ \<Rightarrow>
         if requires_amount (ar_action r) \<and> ar_amount r = None then Denied_Action AmountMissing ''the action requires an amount''
         else if (case ar_amount r of Some amount \<Rightarrow> micros amount < 0 | None \<Rightarrow> False)
           then Denied_Action NegativeAmount ''the action amount must not be negative''
         else try_grants (grant_outcome cr json r approvals instant wall) r (NoGrant, ''no grant matches the action'')
           (grant_candidates r grants))"

definition authorize_action :: "crypto \<Rightarrow> action_json \<Rightarrow> action_request \<Rightarrow> authorization_grant list \<Rightarrow> nat \<Rightarrow> nat \<Rightarrow> authorization_decision" where
  "authorize_action cr json r grants instant wall = authorize_with_approvals cr json r grants [] instant wall"

section \<open>What the gate asks\<close>

text \<open>The request on its own, and a grant that covers it, said once and for all.\<close>

definition action_well_formed :: "action_request \<Rightarrow> bool" where
  "action_well_formed r \<longleftrightarrow> is_ok (supply_validate_text (ar_scope r) MAX_TEXT_BYTES ''action scope'') \<and>
     (requires_amount (ar_action r) \<longrightarrow> ar_amount r \<noteq> None) \<and> (\<forall>m. ar_amount r = Some m \<longrightarrow> 0 \<le> micros m)"

definition grant_covers :: "action_request \<Rightarrow> authorization_grant \<Rightarrow> bool" where
  "grant_covers r g \<longleftrightarrow> gr_action g = ar_action r \<and> grant_validate g = Inr () \<and>
     day_number (gr_valid_from g) \<le> day_number (ar_as_of r) \<and> day_number (ar_as_of r) \<le> day_number (gr_valid_until g) \<and>
     gr_scope g = ar_scope r \<and> (\<forall>s. gr_counterparty g = Some s \<longrightarrow> ar_counterparty r = Some s) \<and>
     (\<forall>m. ar_amount r = Some m \<longrightarrow> money_currency m = money_currency (gr_max_amount g) \<and> micros m \<le> micros (gr_max_amount g))"

definition token_accepts :: "crypto \<Rightarrow> action_json \<Rightarrow> action_request \<Rightarrow> authorization_grant \<Rightarrow> nat \<Rightarrow> nat \<Rightarrow> approval_token \<Rightarrow> bool" where
  "token_accepts cr json r g instant wall tok \<longleftrightarrow>
     (\<exists>binding. action_digest cr json r g = Inr binding \<and> token_require tok (action_check r g binding) instant wall = Inr ())"

lemma grant_refusal_iff: "gr_action g = ar_action r \<Longrightarrow> grant_refusal r g = None \<longleftrightarrow> grant_covers r g"
  by (auto simp: grant_refusal_def amount_refusal_def grant_covers_def day_before_def split: sum.splits option.splits)

lemma find_eq_Some_iff: "(\<exists>x. List.find P xs = Some x) \<longleftrightarrow> (\<exists>x \<in> set xs. P x)"
  by (induction xs) auto

lemma find_SomeD: "List.find P xs = Some x \<Longrightarrow> x \<in> set xs \<and> P x"
  by (induction xs) (auto split: if_splits)

lemma unit_ok: "is_ok (x :: 'e + unit) \<longleftrightarrow> x = Inr ()"
  by (cases x) auto

lemma approval_for_ok:
  "approval_for cr json r g approvals instant wall = Inr tok \<Longrightarrow> tok \<in> set approvals \<and> token_accepts cr json r g instant wall tok"
  using find_SomeD by (fastforce simp: approval_for_def token_accepts_def unit_ok split: sum.splits option.splits)

lemma approval_for_refused:
  "approval_for cr json r g approvals instant wall = Inl refusal \<Longrightarrow> tok \<in> set approvals \<Longrightarrow> \<not> token_accepts cr json r g instant wall tok"
  by (auto simp: approval_for_def token_accepts_def find_None_iff unit_ok split: sum.splits option.splits)

lemma grant_outcome_ok:
  assumes "gr_action g = ar_action r" and "grant_outcome cr json r approvals instant wall g = Inr tok"
  shows "grant_covers r g \<and> tok \<in> set approvals \<and> token_accepts cr json r g instant wall tok"
  using assms grant_refusal_iff approval_for_ok by (auto simp: grant_outcome_def split: option.splits)

lemma grant_outcome_refused:
  assumes "gr_action g = ar_action r" and "grant_outcome cr json r approvals instant wall g = Inl refusal"
  shows "\<not> (grant_covers r g \<and> (\<exists>tok \<in> set approvals. token_accepts cr json r g instant wall tok))"
  using assms(2) grant_refusal_iff [OF assms(1)] approval_for_refused [of cr json r g approvals instant wall]
  by (auto simp: grant_outcome_def split: option.splits)

text \<open>The loop is a search for the first grant that gives a token.\<close>

lemma try_grants_authorized:
  "try_grants outcome r final gs = Authorized i a c m v q \<longleftrightarrow>
   (\<exists>g tok. List.find (\<lambda>g. is_ok (outcome g)) gs = Some g \<and> outcome g = Inr tok \<and>
     i = gr_id g \<and> a = ar_action r \<and> c = ar_counterparty r \<and> m = ar_amount r \<and> v = gr_revision g \<and> q = tk_request_id tok)"
  by (induction gs arbitrary: final) (auto split: sum.splits)

lemma find_sorted: "sorted (map f ys) \<Longrightarrow> List.find P ys = Some x \<Longrightarrow> y \<in> set ys \<Longrightarrow> P y \<Longrightarrow> f x \<le> f y"
  by (induction ys) (auto split: if_splits)

lemma find_first:
  "List.find P (sort_key f xs) = Some x \<Longrightarrow> x \<in> set xs \<and> P x \<and> (\<forall>y \<in> set xs. P y \<longrightarrow> f x \<le> f y)"
  using find_SomeD [of P "sort_key f xs" x] find_sorted [of f "sort_key f xs" P x] by simp

text \<open>The gate past its four checks of the request.\<close>

lemma gate_open:
  assumes "length grants \<le> MAX_GRANTS" and "action_well_formed r"
  shows "authorize_with_approvals cr json r grants approvals instant wall =
    try_grants (grant_outcome cr json r approvals instant wall) r (NoGrant, ''no grant matches the action'') (grant_candidates r grants)"
  using assms by (auto simp: authorize_with_approvals_def action_well_formed_def unit_ok not_less split: option.splits)

lemma gate_closed:
  assumes "authorize_with_approvals cr json r grants approvals instant wall = Authorized i a c m v q"
  shows "length grants \<le> MAX_GRANTS \<and> action_well_formed r"
  using assms by (auto simp: authorize_with_approvals_def action_well_formed_def not_less split: if_splits sum.splits option.splits)

lemma authorized_by_grant:
  assumes "authorize_with_approvals cr json r grants approvals instant wall = Authorized i a c m v q"
  shows "\<exists>g tok. g \<in> set grants \<and> grant_covers r g \<and> tok \<in> set approvals \<and> token_accepts cr json r g instant wall tok \<and>
    i = gr_id g \<and> a = ar_action r \<and> c = ar_counterparty r \<and> m = ar_amount r \<and> v = gr_revision g \<and> q = tk_request_id tok \<and>
    (\<forall>h \<in> set grants. grant_covers r h \<and> (\<exists>t \<in> set approvals. token_accepts cr json r h instant wall t) \<longrightarrow>
      grant_key g \<le> grant_key h)"
proof -
  let ?o = "grant_outcome cr json r approvals instant wall"
  from assms gate_open [of grants r] gate_closed [OF assms] obtain g tok
    where g: "List.find (\<lambda>g. is_ok (?o g)) (grant_candidates r grants) = Some g" "?o g = Inr tok"
      and out: "i = gr_id g \<and> a = ar_action r \<and> c = ar_counterparty r \<and> m = ar_amount r \<and> v = gr_revision g \<and> q = tk_request_id tok"
    by (auto simp: try_grants_authorized)
  have first: "g \<in> set grants" "gr_action g = ar_action r"
    "\<And>h. h \<in> set grants \<Longrightarrow> gr_action h = ar_action r \<Longrightarrow> is_ok (?o h) \<Longrightarrow> grant_key g \<le> grant_key h"
    using find_first [OF g(1) [unfolded grant_candidates_def]] by auto
  have "grant_key g \<le> grant_key h"
    if "h \<in> set grants" "grant_covers r h" "t \<in> set approvals" "token_accepts cr json r h instant wall t" for h t
    using that first(3) grant_outcome_refused [of h r cr json approvals instant wall]
    by (cases "?o h") (auto simp: grant_covers_def)
  with first grant_outcome_ok [OF first(2) g(2)] out show ?thesis by blast
qed

lemma covered_authorized:
  assumes "length grants \<le> MAX_GRANTS" and "action_well_formed r"
    and "g \<in> set grants" and "grant_covers r g" and "tok \<in> set approvals" and "token_accepts cr json r g instant wall tok"
  shows "\<exists>i a c m v q. authorize_with_approvals cr json r grants approvals instant wall = Authorized i a c m v q"
proof -
  let ?o = "grant_outcome cr json r approvals instant wall"
  have "is_ok (?o g)" using assms grant_outcome_refused [of g r cr json approvals instant wall]
    by (cases "?o g") (auto simp: grant_covers_def)
  moreover have "g \<in> set (grant_candidates r grants)" using assms by (simp add: grant_candidates_def grant_covers_def)
  ultimately obtain h where "List.find (\<lambda>g. is_ok (?o g)) (grant_candidates r grants) = Some h"
    using find_eq_Some_iff [of "\<lambda>g. is_ok (?o g)"] by blast
  moreover from find_SomeD [OF this] obtain t where "?o h = Inr t" by (auto simp: is_ok_iff)
  ultimately show ?thesis unfolding gate_open [OF assms(1,2)] try_grants_authorized by blast
qed

section \<open>An approval gate\<close>

text \<open>For a request and a grant the gate demands the approval of exactly this pair.\<close>

definition action_demands :: "crypto \<Rightarrow> action_json \<Rightarrow> action_request \<times> authorization_grant \<Rightarrow> approval_error + approval_check" where
  "action_demands cr json rg = bind_result (action_digest cr json (fst rg) (snd rg)) (\<lambda>binding. Inr (action_check (fst rg) (snd rg) binding))"

interpretation action_gate: approval_gate "action_demands cr json"
    "\<lambda>rg tok instant wall. token_accepts cr json (fst rg) (snd rg) instant wall tok" for cr json
  by unfold_locales (auto simp: token_accepts_def action_demands_def)

end
