(* ===== verification/Sourcing_Theorems.thy ===== *)
theory Sourcing_Theorems
  imports Sourcing_Sample Sourcing_Gate
begin

text \<open>The properties of the sourcing kernel.\<close>

section \<open>Bids\<close>

lemma usable_bids_one:
  "(i, u) \<in> set (usable_bids [b]) \<longleftrightarrow> nb_status b = Usable \<and> nb_quote_id b = i \<and> nb_normalized_per_unit b = Known u"
  by (cases "nb_normalized_per_unit b") (auto simp: usable_bids_def map_filter_simps)

lemma usable_bids_iff:
  "(i, u) \<in> set (usable_bids bs) \<longleftrightarrow>
   (\<exists>b \<in> set bs. nb_status b = Usable \<and> nb_quote_id b = i \<and> nb_normalized_per_unit b = Known u)"
proof (induction bs)
  case Nil
  then show ?case by (simp add: usable_bids_def map_filter_simps)
next
  case (Cons b bs)
  then show ?case using usable_bids_one [of i u b] usable_bids_Cons [of b bs] by auto
qed

lemma usable_bids_distinct: "distinct (map nb_quote_id bs) \<Longrightarrow> distinct (usable_bids bs)"
proof (induction bs)
  case Nil
  then show ?case by (simp add: usable_bids_def map_filter_simps)
next
  case (Cons b bs)
  have one: "length (usable_bids [b]) \<le> 1" "\<And>i u. (i, u) \<in> set (usable_bids [b]) \<Longrightarrow> i = nb_quote_id b"
    by (auto simp: usable_bids_iff) (simp add: usable_bids_def map_filter_simps split: option.splits)
  then have "distinct (usable_bids [b])" by (cases "usable_bids [b]") auto
  moreover have "set (usable_bids [b]) \<inter> set (usable_bids bs) = {}"
  proof -
    have False if "(i, u) \<in> set (usable_bids [b])" "(i, u) \<in> set (usable_bids bs)" for i u
      using that Cons.prems by (auto simp: usable_bids_iff) (metis image_eqI)
    then show ?thesis by fast
  qed
  ultimately show ?case using Cons usable_bids_Cons [of b bs] by simp
qed

lemma compared_bid:
  assumes "compare_bids quotes p c = Inr cmp" and "b \<in> set (bc_bids cmp)"
  shows "\<exists>q \<in> set quotes. normalize_quote q p c = Inr b"
proof -
  from compared [OF assms(1)] have "list_all2 (\<lambda>q b. normalize_quote q p c = Inr b) quotes (bc_bids cmp)" by blast
  then show ?thesis using assms(2) by (auto simp: list_all2_iff set_zip in_set_conv_nth) (metis nth_mem)
qed

lemma usable_bid_known:
  assumes "compare_bids quotes p c = Inr cmp" and "b \<in> set (bc_bids cmp)" and "nb_status b = Usable"
    and "rate_ok (nc_cost_of_capital c)" and "units_ok (nc_target_quantity c)"
  shows "\<exists>u. nb_normalized_per_unit b = Known u \<and> money_currency u = rp_currency p"
proof -
  from compared_bid [OF assms(1,2)] obtain q where "normalize_quote q p c = Inr b" by blast
  from usable_cost [OF this assms(3-5)] show ?thesis by blast
qed

lemma unranked_incomplete:
  assumes "compare_bids quotes p c = Inr cmp" and "b \<in> set (bc_bids cmp)"
    and "rate_ok (nc_cost_of_capital c)" and "units_ok (nc_target_quantity c)"
  shows "unranked b \<longleftrightarrow> (\<exists>rs. nb_status b = Incomplete rs)"
  using usable_bid_known [OF assms(1,2) _ assms(3,4)]
  by (cases "nb_status b") (auto simp: unranked_def is_blocked_def)

text \<open>C34. A usable bid is comparable: it is for the part and in the currency of the request, still valid, at a quantity
  the supplier takes, and its total is, to the micro-unit, the goods at the price of the break that applies, the
  one-time cost, the buyer's legs of the delivery and the value of the payment terms against the baseline, the cost
  of capital and the days each rounded once; the cost per unit is that total over the quantity, rounded half away
  from zero. The cost of tooling, of engineering and of each of the buyer's legs is a known amount, or zero only
  because the quote says that it does not apply: a bid that misses one of them, or that has no estimate for one of the
  legs, has no cost and is not usable.\<close>

theorem usable_bid_cost:
  assumes "normalize_quote q p c = Inr b" and "nb_status b = Usable"
    and "rate_ok (nc_cost_of_capital c)" and "units_ok (nc_target_quantity c)"
  shows "\<exists>vp price t u. select_price q (nc_target_quantity c) = Some vp \<and> term_known (vp_unit_price vp) = Some price \<and>
    orderable q p c \<and> nb_normalized_total b = Known t \<and> nb_normalized_per_unit b = Known u \<and>
    bid_cost q c (micros price) = Some (micros t) \<and>
    micros u = round_half_away (micros t) (int (units_get (nc_target_quantity c))) \<and>
    money_currency t = rp_currency p \<and> money_currency u = rp_currency p"
  using usable_cost [OF assms] by blast

theorem usable_bid_cost_witness:
  "orderable (sample_quote ''b'' 400 30) sample_package sample_context \<and> bid_cost (sample_quote ''b'' 400 30) sample_context 400 = Some 4083"
proof -
  obtain b where b: "normalize_quote (sample_quote ''b'' 400 30) sample_package sample_context = Inr b" "nb_status b = Usable"
    "nb_normalized_total b = Known (usd 4083)" by (rule sample_bid_obtain)
  from usable_bid_cost [OF b(1,2) sample_bounds] sample_price b(3) show ?thesis by (auto simp: usd_def)
qed

text \<open>C35. The comparison of bids loses none and is a total order: every quote becomes one bid and its id is in exactly
  one of the three lists, once; the blocked list has the blocked bids, the ranking has the usable bids with a cost per
  unit, by that cost and then by quote id. The best cost is the cost per unit of the bid ranked first, it is known as
  soon as a bid is ranked, and no ranked bid is cheaper; both are in the currency of the request.\<close>

theorem ranking_correct:
  assumes "compare_bids quotes p c = Inr cmp" and "rate_ok (nc_cost_of_capital c)" and "units_ok (nc_target_quantity c)"
  shows "list_all2 (\<lambda>q b. normalize_quote q p c = Inr b) quotes (bc_bids cmp) \<and>
    distinct (map nb_quote_id (bc_bids cmp)) \<and>
    mset (bc_ranked cmp) + mset (bc_incomplete cmp) + mset (bc_blocked cmp) = mset (map nb_quote_id (bc_bids cmp)) \<and>
    set (bc_blocked cmp) = nb_quote_id ` {b \<in> set (bc_bids cmp). \<exists>rs. nb_status b = Blocked rs} \<and>
    (\<exists>us. bc_ranked cmp = map fst us \<and> sorted (map rank_key us) \<and> distinct us \<and>
      set us = {(nb_quote_id b, u) |b u. b \<in> set (bc_bids cmp) \<and> nb_status b = Usable \<and> nb_normalized_per_unit b = Known u} \<and>
      as_known (bc_best cmp) = (case us of [] \<Rightarrow> None | (_, m) # _ \<Rightarrow> Some m) \<and>
      (\<forall>(i, u) \<in> set us. \<exists>m. bc_best cmp = Known m \<and> micros m \<le> micros u \<and>
        money_currency m = rp_currency p \<and> money_currency u = rp_currency p))"
proof -
  note cmp = compared [OF assms(1)]
  define us where "us = sort_key rank_key (usable_bids (bc_bids cmp))"
  have set_us: "set us = {(nb_quote_id b, u) |b u. b \<in> set (bc_bids cmp) \<and> nb_status b = Usable \<and> nb_normalized_per_unit b = Known u}"
    by (auto simp: us_def usable_bids_iff)
  have us: "bc_ranked cmp = map fst us" "sorted (map rank_key us)" "distinct us"
    using cmp usable_bids_distinct by (simp_all add: us_def)
  have part: "mset (bc_ranked cmp) + mset (bc_incomplete cmp) + mset (bc_blocked cmp) = mset (map nb_quote_id (bc_bids cmp))"
    using cmp bids_partition [of "bc_bids cmp"] by simp
  have bl: "set (bc_blocked cmp) = nb_quote_id ` {b \<in> set (bc_bids cmp). \<exists>rs. nb_status b = Blocked rs}"
    using cmp by (auto simp: is_blocked_def)
  have currency: "money_currency u = rp_currency p" if "(i, u) \<in> set us" for i u
    using that usable_bid_known [OF assms(1) _ _ assms(2,3)] by (fastforce simp: set_us)
  have best: "as_known (bc_best cmp) = (case us of [] \<Rightarrow> None | (_, m) # _ \<Rightarrow> Some m)"
    using cmp by (simp add: us_def avail_unavailable_def split: list.splits)
  have least: "\<exists>m. bc_best cmp = Known m \<and> micros m \<le> micros u \<and> money_currency m = rp_currency p \<and>
      money_currency u = rp_currency p" if mem: "(i, u) \<in> set us" for i u
  proof -
    from mem obtain j m rest where hd: "us = (j, m) # rest" by (cases us) auto
    have "rank_key (j, m) \<le> rank_key (i, u)" using us(2) mem by (auto simp: hd)
    then have "micros m \<le> micros u" by (auto simp: rank_key_def less_eq_prod_def)
    moreover have "bc_best cmp = Known m" using cmp hd by (simp add: us_def)
    ultimately show ?thesis using currency [of j m] currency [OF mem] hd by simp
  qed
  then have "\<forall>(i, u) \<in> set us. \<exists>m. bc_best cmp = Known m \<and> micros m \<le> micros u \<and>
      money_currency m = rp_currency p \<and> money_currency u = rp_currency p" by blast
  with cmp part bl us set_us best show ?thesis by blast
qed

theorem ranking_correct_witness:
  "\<exists>cmp. compare_bids [sample_quote ''a'' 500 0, sample_quote ''b'' 400 30] sample_package sample_context = Inr cmp \<and>
     bc_ranked cmp = [''b'', ''a''] \<and>
     {#''b'', ''a''#} + mset (bc_incomplete cmp) + mset (bc_blocked cmp) = mset (map nb_quote_id (bc_bids cmp))"
proof -
  obtain cmp where cmp: "compare_bids [sample_quote ''a'' 500 0, sample_quote ''b'' 400 30] sample_package sample_context = Inr cmp"
    "bc_ranked cmp = [''b'', ''a'']" by (rule sample_ranking_obtain)
  from ranking_correct [OF cmp(1) sample_bounds]
  have "mset (bc_ranked cmp) + mset (bc_incomplete cmp) + mset (bc_blocked cmp) = mset (map nb_quote_id (bc_bids cmp))" by blast
  with cmp show ?thesis by (intro exI [of _ cmp]) simp
qed

text \<open>Which bids the list of incomplete ones holds: those with the status of that name, since a usable bid always has a
  cost per unit.\<close>

theorem incomplete_list:
  assumes "compare_bids quotes p c = Inr cmp" and "rate_ok (nc_cost_of_capital c)" and "units_ok (nc_target_quantity c)"
  shows "bc_incomplete cmp = map nb_quote_id (filter (\<lambda>b. \<exists>rs. nb_status b = Incomplete rs) (bc_bids cmp))"
proof -
  have "filter unranked (bc_bids cmp) = filter (\<lambda>b. \<exists>rs. nb_status b = Incomplete rs) (bc_bids cmp)"
    by (rule filter_cong) (use unranked_incomplete [OF assms(1) _ assms(2,3)] in auto)
  with compared [OF assms(1)] show ?thesis by simp
qed

section \<open>The negotiation\<close>

lemma min_first_least:
  "min_first f xs = Some x \<Longrightarrow> x \<in> set xs \<and> (\<forall>y \<in> set xs. f x \<le> f y)"
  "min_first f xs = None \<Longrightarrow> xs = []"
proof -
  have "foldl (\<lambda>best x. case best of None \<Rightarrow> Some x | Some y \<Rightarrow> if f x < f y then Some x else best) (Some a) ys = Some b \<Longrightarrow>
    b \<in> set (a # ys) \<and> (\<forall>y \<in> set (a # ys). f b \<le> f y)" for a b ys
  proof (induction ys arbitrary: a)
    case (Cons y ys)
    show ?case
    proof (cases "f y < f a")
      case True
      with Cons.IH [of y] Cons.prems show ?thesis by fastforce
    next
      case False
      with Cons.IH [of a] Cons.prems show ?thesis by fastforce
    qed
  qed simp
  then show "min_first f xs = Some x \<Longrightarrow> x \<in> set xs \<and> (\<forall>y \<in> set xs. f x \<le> f y)" by (cases xs) (auto simp: min_first_def)
  have some: "foldl (\<lambda>best x. case best of None \<Rightarrow> Some x | Some y \<Rightarrow> if f x < f y then Some x else best) (Some a) ys \<noteq> None" for a ys
    by (induction ys arbitrary: a) auto
  show "min_first f xs = None \<Longrightarrow> xs = []"
  proof (cases xs)
    case (Cons a ys)
    then show "min_first f xs = None \<Longrightarrow> xs = []" using some [of a ys] by (simp add: min_first_def)
  qed
qed

lemma priced_iff:
  "(v, b) \<in> set (priced bs) \<longleftrightarrow> b \<in> set bs \<and> nb_status b = Usable \<and> nb_normalized_per_unit b = Known v"
proof (induction bs)
  case (Cons b' bs)
  then show ?case by (cases "nb_normalized_per_unit b'") (auto simp: priced_def map_filter_simps)
qed (simp add: priced_def map_filter_simps)

text \<open>The walk-away price is the best bid of the comparison it is computed from: the negotiation plan finds the same
  cost per unit by its own search, its reservation price is that cost, and the walk-away total is the total of the
  bid ranked first. Without a usable bid neither is known.\<close>

theorem walk_away_is_best_bid:
  assumes "compare_bids quotes p c = Inr cmp"
  shows "as_known (np_reservation_price (negotiation_plan p' cmp)) = as_known (bc_best cmp) \<and>
    (\<forall>i rest. bc_ranked cmp = i # rest \<longrightarrow> (\<exists>b \<in> set (bc_bids cmp). nb_quote_id b = i \<and> nb_status b = Usable \<and>
       bc_best cmp = nb_normalized_per_unit b \<and> bp_walk_away_total (batna cmp) = nb_normalized_total b)) \<and>
    (bc_ranked cmp = [] \<longrightarrow> \<not> is_known (bp_walk_away_total (batna cmp)))"
proof -
  note cmp = compared [OF assms]
  let ?us = "sort_key rank_key (usable_bids (bc_bids cmp))"
  let ?min = "min_first (\<lambda>(v, b). (micros v, nb_quote_id b)) (priced (bc_bids cmp))"
  have inj: "b = b'" if "b \<in> set (bc_bids cmp)" "b' \<in> set (bc_bids cmp)" "nb_quote_id b = nb_quote_id b'" for b b'
    using cmp that by (auto simp: distinct_map inj_on_def)
  show ?thesis
  proof (cases ?min)
    case None
    then have "priced (bc_bids cmp) = []" using min_first_least(2) by blast
    then have "(i, u) \<notin> set (usable_bids (bc_bids cmp))" for i u
      using priced_iff [of u _ "bc_bids cmp"] by (auto simp: usable_bids_iff)
    then have "usable_bids (bc_bids cmp) = []" by (metis list.set_intros(1) neq_Nil_conv prod.collapse)
    with None cmp show ?thesis by (simp add: negotiation_plan_def batna_def Let_def avail_unavailable_def)
  next
    case (Some x)
    obtain v b where x: "x = (v, b)" by (cases x)
    have least: "(v, b) \<in> set (priced (bc_bids cmp))"
      "\<forall>(w, d) \<in> set (priced (bc_bids cmp)). (micros v, nb_quote_id b) \<le> (micros w, nb_quote_id d)"
      using min_first_least(1) [OF Some] by (auto simp: x)
    from least(1) have b: "b \<in> set (bc_bids cmp)" "nb_status b = Usable" "nb_normalized_per_unit b = Known v"
      by (simp_all add: priced_iff)
    then have mem: "(nb_quote_id b, v) \<in> set ?us" by (auto simp: usable_bids_iff)
    then obtain i m rest where us: "?us = (i, m) # rest" by (cases ?us) auto
    have "rank_key (i, m) \<le> rank_key (nb_quote_id b, v)"
      using mem sorted_sort_key [of rank_key "usable_bids (bc_bids cmp)"] unfolding us by auto
    moreover have "(i, m) \<in> set (usable_bids (bc_bids cmp))" using us by (metis list.set_intros(1) set_sort)
    then obtain d where d: "d \<in> set (bc_bids cmp)" "nb_status d = Usable" "nb_quote_id d = i" "nb_normalized_per_unit d = Known m"
      by (auto simp: usable_bids_iff)
    then have "(micros v, nb_quote_id b) \<le> (micros m, i)" using least(2) priced_iff [of m d] by fastforce
    ultimately have "i = nb_quote_id b" by (auto simp: rank_key_def)
    with inj b d have "m = v" by force
    with \<open>i = nb_quote_id b\<close> cmp us Some x b show ?thesis
      by (auto simp: negotiation_plan_def batna_def Let_def)
  qed
qed

theorem walk_away_is_best_bid_witness:
  "\<exists>cmp. compare_bids [sample_quote ''a'' 500 0, sample_quote ''b'' 400 30] sample_package sample_context = Inr cmp \<and>
     as_known (np_reservation_price (negotiation_plan sample_package cmp)) = Some (usd 408)"
proof -
  obtain cmp where cmp: "compare_bids [sample_quote ''a'' 500 0, sample_quote ''b'' 400 30] sample_package sample_context = Inr cmp"
    "bc_best cmp = Known (usd 408)" by (rule sample_ranking_obtain)
  from walk_away_is_best_bid [OF cmp(1)] cmp(2)
  have "as_known (np_reservation_price (negotiation_plan sample_package cmp)) = Some (usd 408)" by simp
  with cmp(1) show ?thesis by blast
qed

section \<open>Delivery terms\<close>

lemma incoterm_rows:
  assumes "try_fold (\<lambda>rows i. bind_result (f i) (\<lambda>r. Inr (rows @ [r]))) acc is = Inr rows"
  shows "\<exists>rs. rows = acc @ rs \<and> list_all2 (\<lambda>i r. f i = Inr r) is rs"
  using assms
proof (induction "is" arbitrary: acc)
  case (Cons i "is")
  then obtain r where r: "f i = Inr r" "try_fold (\<lambda>rows i. bind_result (f i) (\<lambda>r. Inr (rows @ [r]))) (acc @ [r]) is = Inr rows"
    by (auto simp: bind_result_eq_Inr)
  from Cons.IH [OF r(2)] obtain rs where "rows = (acc @ [r]) @ rs" "list_all2 (\<lambda>i r. f i = Inr r) is rs" by blast
  with r(1) show ?case by (intro exI [of _ "r # rs"]) simp
qed simp

lemma incoterm_row_ok:
  "incoterm_row q c g v m i = Inr row \<Longrightarrow> ic_incoterm row = i \<and> (ic_compatible row \<longleftrightarrow> is_ok (validate_term_for_mode i (qu_mode q))) \<and>
   (\<exists>al. leg_allocation_of q i = Inr al \<and> ic_per_unit row = per_unit_of (ic_total row) c \<and>
     ic_seller_legs row = la_seller_legs al \<and> ic_buyer_legs row = la_buyer_legs al \<and>
     (ic_compatible row \<longrightarrow> combine [Known g, Known v, la_buyer_total al, Known m] = Inr (ic_total row)) \<and>
     (\<not> ic_compatible row \<longrightarrow> \<not> is_known (ic_total row)))"
  by (auto simp: incoterm_row_def Let_def bind_result_eq_Inr avail_unavailable_def split: if_splits)

text \<open>Looking at other delivery terms changes the delivery alone: the comparison has one row for each of the eleven
  terms, the row of the term that was quoted repeats the total and the cost per unit of the normalized bid, a row has
  a total only if its term can be used with the quoted mode of transport, and in every such row the total differs
  from the bid by exactly the legs that change hands.\<close>

theorem quoted_term_row_agrees:
  assumes "normalize_quote q p c = Inr b" and "nb_status b = Usable" and "compare_incoterms q c = Inr rows"
  shows "map ic_incoterm rows = compared_terms \<and>
    (\<forall>row \<in> set rows. (ic_incoterm row = qu_incoterm q \<longrightarrow>
        ic_total row = nb_normalized_total b \<and> ic_per_unit row = nb_normalized_per_unit b) \<and>
      (\<forall>t u. ic_total row = Known t \<and> nb_normalized_total b = Known u \<longrightarrow>
        is_ok (validate_term_for_mode (ic_incoterm row) (qu_mode q)) \<and>
        (\<exists>x y. legs_cost (qu_freight_estimates q) (ic_buyer_legs row) = Some x \<and>
          legs_cost (qu_freight_estimates q) (filter (\<lambda>l. \<not> seller_pays (qu_incoterm q) l) cost_leg_ALL) = Some y \<and>
          micros t - x = micros u - y)))"
proof -
  from usable_parts [OF assms(1,2)] obtain vp price g v l m t al
    where g: "select_price q (nc_target_quantity c) = Some vp" "term_known (vp_unit_price vp) = Some price"
      "mul_units price (units_get (nc_target_quantity c)) = Inr g"
      and parts: "one_time q = Inr (Known v)" "leg_allocation_of q (qu_incoterm q) = Inr al" "la_buyer_total al = Known l"
        "payment_value q c g v = Inr m" "combine [Known g, Known v, Known l, Known m] = Inr (Known t)"
      and t: "nb_normalized_total b = Known t" "nb_normalized_per_unit b = per_unit_of (Known t) c" and ord: "orderable q p c"
    by blast
  from combine_known [OF parts(5)] have sum: "micros t = micros g + micros v + micros l + micros m" by (auto simp: Cons_eq_map_conv)
  have rows: "try_fold (\<lambda>rows i. bind_result (incoterm_row q c g v m i) (\<lambda>r. Inr (rows @ [r]))) [] compared_terms = Inr rows"
    using assms(3) g parts by (auto simp: compare_incoterms_def)
  from incoterm_rows [OF rows] have all: "list_all2 (\<lambda>i r. incoterm_row q c g v m i = Inr r) compared_terms rows" by simp
  have row: "incoterm_row q c g v m (ic_incoterm r) = Inr r" if "r \<in> set rows" for r
    using all that incoterm_row_ok by (fastforce simp: list_all2_iff set_zip in_set_conv_nth)
  have terms: "map ic_incoterm rows = compared_terms"
    using all by (induction rule: list_all2_induct) (auto dest: incoterm_row_ok)
  have legs: "la_buyer_legs a = filter (\<lambda>l. \<not> seller_pays i l) cost_leg_ALL \<and>
      (\<forall>x. la_buyer_total a = Known x \<longrightarrow> legs_cost (qu_freight_estimates q) (la_buyer_legs a) = Some (micros x))"
    if "leg_allocation_of q i = Inr a" for i a
  proof -
    have "allocate_legs i (qu_currency q) (qu_freight_estimates q) = Inr a" using that by (simp add: leg_allocation_of_def)
    from allocate_legs_ok [OF this] show ?thesis by blast
  qed
  have orderable: "is_ok (validate_term_for_mode (qu_incoterm q) (qu_mode q))"
    using ord by (auto simp: orderable_def validate_term_for_mode_def refuse_if_def)
  have quoted: "ic_total r = nb_normalized_total b \<and> ic_per_unit r = nb_normalized_per_unit b"
    if "r \<in> set rows" "ic_incoterm r = qu_incoterm q" for r
    using incoterm_row_ok [OF row [OF that(1)]] that(2) orderable parts t by auto
  have diff: "is_ok (validate_term_for_mode (ic_incoterm r) (qu_mode q)) \<and>
      (\<exists>d. legs_cost (qu_freight_estimates q) (ic_buyer_legs r) = Some d \<and> micros x - d = micros g + micros v + micros m)"
    if "r \<in> set rows" "ic_total r = Known x" for r x
  proof -
    from incoterm_row_ok [OF row [OF that(1)]] that(2) obtain a where a: "leg_allocation_of q (ic_incoterm r) = Inr a"
      "ic_buyer_legs r = la_buyer_legs a" "combine [Known g, Known v, la_buyer_total a, Known m] = Inr (Known x)"
      "is_ok (validate_term_for_mode (ic_incoterm r) (qu_mode q))" by auto
    from combine_known [OF a(3)] obtain y where "la_buyer_total a = Known y" "micros x = micros g + micros v + micros y + micros m"
      by (auto simp: Cons_eq_map_conv)
    with legs [OF a(1)] a(2,4) show ?thesis by (auto simp del: filter.simps)
  qed
  have own: "legs_cost (qu_freight_estimates q) (filter (\<lambda>l. \<not> seller_pays (qu_incoterm q) l) cost_leg_ALL) = Some (micros l)"
    "micros t - micros l = micros g + micros v + micros m" using legs [OF parts(2)] parts(3) sum by (metis, simp)
  show ?thesis using terms quoted diff own t by fastforce
qed

theorem quoted_term_row_agrees_witness:
  "\<exists>rows. compare_incoterms (sample_quote ''b'' 400 30) sample_context = Inr rows \<and>
     (\<exists>row \<in> set rows. ic_incoterm row = Ddp \<and> ic_total row = Known (usd 4083))"
proof -
  obtain b where b: "normalize_quote (sample_quote ''b'' 400 30) sample_package sample_context = Inr b" "nb_status b = Usable"
    "nb_normalized_total b = Known (usd 4083)" by (rule sample_bid_obtain)
  obtain rows where rows: "compare_incoterms (sample_quote ''b'' 400 30) sample_context = Inr rows"
    using sample_rows by (auto simp: is_ok_iff)
  note agrees = quoted_term_row_agrees [OF b(1,2) rows]
  have "Ddp \<in> set (map ic_incoterm rows)" using agrees by (simp add: compared_terms_def)
  then obtain row where "row \<in> set rows" "ic_incoterm row = Ddp" by auto
  moreover have "qu_incoterm (sample_quote ''b'' 400 30) = Ddp" by (simp add: sample_quote_def)
  ultimately show ?thesis using agrees rows b(3) by auto
qed

section \<open>Actions\<close>

text \<open>A grant and an action that the sample directory of the approval authority approves.\<close>

definition sample_grant :: authorization_grant where
  "sample_grant = \<lparr>gr_id = ''grant'', gr_action = ChangeInventoryPolicy, gr_scope = ''part:7'', gr_counterparty = None,
     gr_max_amount = usd 0, gr_valid_from = Day 1, gr_valid_until = Day 90, gr_revision = Revision 7, gr_granted_by = ''cfo'',
     gr_evidence = sample_evidence\<rparr>"

definition sample_action :: action_request where
  "sample_action = \<lparr>ar_action = ChangeInventoryPolicy, ar_scope = ''part:7'', ar_counterparty = None, ar_amount = None,
     ar_as_of = Day 20\<rparr>"

lemma sample_action_covered: "action_well_formed sample_action" "grant_covers sample_action sample_grant"
proof -
  have "grant_validate sample_grant = Inr ()" by code_simp
  then show "grant_covers sample_action sample_grant"
    by (simp add: grant_covers_def) (simp add: sample_grant_def sample_action_def)
  have "is_ok (supply_validate_text ''part:7'' MAX_TEXT_BYTES ''action scope'')" by code_simp
  then show "action_well_formed sample_action" by (simp add: action_well_formed_def sample_action_def requires_amount_def)
qed

lemma sample_action_token:
  "\<exists>d' tok. authorize sample_crypto (sample_check_at True) 1200 7 (in_environment 9 False False (approved_disk_at True)) = (d', Inr tok) \<and>
     token_accepts sample_crypto (\<lambda>_ _. Some [5]) sample_action sample_grant 8 1500 tok"
proof -
  obtain d' tok where run: "authorize sample_crypto (sample_check_at True) 1200 7 (in_environment 9 False False (approved_disk_at True)) = (d', Inr tok)"
    and tok: "8 < tk_deadline tok" "tk_expires_at_ms tok = 5000"
    using sample_token [of True] approved_environment [of True] by fastforce
  have "dec_text 7 = ''7''" by code_simp
  then have check: "action_check sample_action sample_grant (tag_text 5) = sample_check_at True"
    by (simp add: action_check_def sample_action_def sample_grant_def sample_check_at_def request_check_def)
      (simp add: sample_request_at_def draft_request_def sample_draft_at_def sample_revision_def)
  have "token_require tok (token_check tok) 8 1500 = Inr ()" using tok by (simp add: token_require_def token_check_def)
  then have "token_require tok (action_check sample_action sample_grant (tag_text 5)) 8 1500 = Inr ()"
    using authorize_token [OF run] check by simp
  moreover have "action_digest sample_crypto (\<lambda>_ _. Some [5]) sample_action sample_grant = Inr (tag_text 5)"
    by (simp add: action_digest_def json_digest_def sample_crypto_def sized_crypto_def tag_text_def sample_hash_def)
  ultimately show ?thesis using run by (auto simp: token_accepts_def)
qed

text \<open>C33. The gate lets an action through when and only when the request is well formed and some grant, valid in
  itself and on the day, covers its kind, scope, counterparty and amount, and one of the tokens is a current approval
  bound to that grant and that very request; no grant list beyond the bound is looked at. The decision names, among
  the covering grants for which one of the tokens is such an approval, the one with the highest revision, and the
  least id among equals; a covering grant without an approval is passed over, however high its revision.\<close>

theorem gate_authorizes_iff:
  "(\<exists>i a cp m v q. authorize_with_approvals cr json r grants approvals instant wall = Authorized i a cp m v q) =
     (length grants \<le> MAX_GRANTS \<and> action_well_formed r \<and>
      (\<exists>g tok. g \<in> set grants \<and> grant_covers r g \<and> tok \<in> set approvals \<and> token_accepts cr json r g instant wall tok)) \<and>
   (authorize_with_approvals cr json r grants approvals instant wall = Authorized i a cp m v q \<longrightarrow>
     (\<exists>g tok. g \<in> set grants \<and> grant_covers r g \<and> tok \<in> set approvals \<and> token_accepts cr json r g instant wall tok \<and>
       i = gr_id g \<and> a = ar_action r \<and> cp = ar_counterparty r \<and> m = ar_amount r \<and> v = gr_revision g \<and>
       q = tk_request_id tok \<and>
       (\<forall>h t. h \<in> set grants \<and> grant_covers r h \<and> t \<in> set approvals \<and> token_accepts cr json r h instant wall t \<longrightarrow>
          grant_key g \<le> grant_key h)))"
proof (intro conjI iffI impI)
  assume "\<exists>i a cp m v q. authorize_with_approvals cr json r grants approvals instant wall = Authorized i a cp m v q"
  then obtain i a cp m v q where run: "authorize_with_approvals cr json r grants approvals instant wall = Authorized i a cp m v q" by blast
  from gate_closed [OF run] show "length grants \<le> MAX_GRANTS" "action_well_formed r" by simp_all
  from authorized_by_grant [OF run]
  show "\<exists>g tok. g \<in> set grants \<and> grant_covers r g \<and> tok \<in> set approvals \<and> token_accepts cr json r g instant wall tok" by blast
next
  assume "length grants \<le> MAX_GRANTS \<and> action_well_formed r \<and>
    (\<exists>g tok. g \<in> set grants \<and> grant_covers r g \<and> tok \<in> set approvals \<and> token_accepts cr json r g instant wall tok)"
  then show "\<exists>i a cp m v q. authorize_with_approvals cr json r grants approvals instant wall = Authorized i a cp m v q"
    using covered_authorized by blast
next
  assume "authorize_with_approvals cr json r grants approvals instant wall = Authorized i a cp m v q"
  from authorized_by_grant [OF this]
  show "\<exists>g tok. g \<in> set grants \<and> grant_covers r g \<and> tok \<in> set approvals \<and> token_accepts cr json r g instant wall tok \<and>
       i = gr_id g \<and> a = ar_action r \<and> cp = ar_counterparty r \<and> m = ar_amount r \<and> v = gr_revision g \<and>
       q = tk_request_id tok \<and>
       (\<forall>h t. h \<in> set grants \<and> grant_covers r h \<and> t \<in> set approvals \<and> token_accepts cr json r h instant wall t \<longrightarrow>
          grant_key g \<le> grant_key h)" by blast
qed

theorem gate_authorizes_iff_witness:
  "\<exists>tok i a cp m v q. authorize_with_approvals sample_crypto (\<lambda>_ _. Some [5]) sample_action [sample_grant] [tok] 8 1500 = Authorized i a cp m v q \<and>
     i = ''grant'' \<and> v = Revision 7"
proof -
  obtain tok where tok: "token_accepts sample_crypto (\<lambda>_ _. Some [5]) sample_action sample_grant 8 1500 tok"
    using sample_action_token by blast
  let ?run = "authorize_with_approvals sample_crypto (\<lambda>_ _. Some [5]) sample_action [sample_grant] [tok] 8 1500"
  have "\<exists>i a cp m v q. ?run = Authorized i a cp m v q"
    using gate_authorizes_iff [of sample_crypto "\<lambda>_ _. Some [5]" sample_action "[sample_grant]" "[tok]" 8 1500]
      sample_action_covered tok by (simp add: MAX_GRANTS_def)
  then obtain i a cp m v q where run: "?run = Authorized i a cp m v q" by blast
  then have "i = gr_id sample_grant" "v = gr_revision sample_grant"
    using gate_authorizes_iff [of sample_crypto "\<lambda>_ _. Some [5]" sample_action "[sample_grant]" "[tok]" 8 1500 i a cp m v q] by simp_all
  moreover have "gr_id sample_grant = ''grant''" "gr_revision sample_grant = Revision 7" by (simp_all add: sample_grant_def)
  ultimately show ?thesis using run by metis
qed

text \<open>C32. No counterparty sees an action that a human did not approve: when the gate authorizes one and its tokens come
  from the approval authority, the directory of the authority records a request for the kind, the scope, the grant
  revision and the digest of this very action and grant, under the id the decision names, which a registered human
  operator other than the requester approved and signed and which has not expired; and a grant in force covers the
  action and its amount.\<close>

theorem action_needs_grant_and_approval:
  assumes "authorize_with_approvals cr json r grants approvals instant wall = Authorized i a cp m v q"
    and "\<And>tok. tok \<in> set approvals \<Longrightarrow> \<exists>ck t inst writes torn busy d'. authorize cr ck t inst (in_environment writes torn busy d) = (d', Inr tok)"
  shows "\<exists>g l operators rq dc binding. g \<in> set grants \<and> i = gr_id g \<and> grant_covers r g \<and>
    book cr d = Inr l \<and> load_registry cr d = Inr operators \<and> action_digest cr json r g = Inr binding \<and>
    bt_get (al_requests l) q = Some rq \<and> rq_id rq = q \<and> request_check rq = action_check r g binding \<and>
    bt_get (al_decisions l) q = Some dc \<and> dc_outcome dc = Approved \<and> rightful cr operators rq dc \<and>
    wall \<le> rq_expires_at_ms rq"
proof -
  from authorized_by_grant [OF assms(1)] obtain g tok where g: "g \<in> set grants" "i = gr_id g" "grant_covers r g"
    and tok: "tok \<in> set approvals" "token_accepts cr json r g instant wall tok" "q = tk_request_id tok" by blast
  from assms(2) [OF tok(1)] obtain ck t inst writes torn busy d'
    where run: "authorize cr ck t inst (in_environment writes torn busy d) = (d', Inr tok)" by blast
  have "token_accepts cr json (fst (r, g)) (snd (r, g)) instant wall tok" using tok(2) by simp
  from action_gate.passed_is_approved [OF run this] obtain check l operators rq dc
    where "action_demands cr json (r, g) = Inr check" and rq: "book cr d = Inr l" "load_registry cr d = Inr operators"
      "bt_get (al_requests l) (rq_id rq) = Some rq" "request_check rq = check" "bt_get (al_decisions l) (rq_id rq) = Some dc"
      "dc_outcome dc = Approved" "rightful cr operators rq dc" "wall \<le> rq_expires_at_ms rq" "tk_request_id tok = rq_id rq" by blast
  then obtain binding where "action_digest cr json r g = Inr binding" "check = action_check r g binding"
    by (auto simp: action_demands_def bind_result_eq_Inr)
  with g rq tok(3) show ?thesis by metis
qed

theorem action_needs_grant_and_approval_witness:
  "\<exists>l rq dc q. book sample_crypto (approved_disk_at True) = Inr l \<and> bt_get (al_requests l) q = Some rq \<and>
     bt_get (al_decisions l) q = Some dc \<and> dc_outcome dc = Approved \<and> 1500 \<le> rq_expires_at_ms rq"
proof -
  obtain d' tok where run: "authorize sample_crypto (sample_check_at True) 1200 7 (in_environment 9 False False (approved_disk_at True)) = (d', Inr tok)"
    and tok: "token_accepts sample_crypto (\<lambda>_ _. Some [5]) sample_action sample_grant 8 1500 tok" using sample_action_token by blast
  have "\<exists>i a cp m v q. authorize_with_approvals sample_crypto (\<lambda>_ _. Some [5]) sample_action [sample_grant] [tok] 8 1500 = Authorized i a cp m v q"
    by (rule covered_authorized [OF _ sample_action_covered(1) _ sample_action_covered(2) _ tok]) (simp_all add: MAX_GRANTS_def)
  then obtain i a cp m v q
    where gate: "authorize_with_approvals sample_crypto (\<lambda>_ _. Some [5]) sample_action [sample_grant] [tok] 8 1500 = Authorized i a cp m v q" by blast
  have "\<exists>ck t inst writes torn busy d'. authorize sample_crypto ck t inst (in_environment writes torn busy (approved_disk_at True)) = (d', Inr x)"
    if "x \<in> set [tok]" for x
  proof -
    from that have "x = tok" by simp
    with run show ?thesis by blast
  qed
  from action_needs_grant_and_approval [OF gate this] show ?thesis by blast
qed

text \<open>A request that is turned into a package gives a valid one, whose questions stay far below their bound.\<close>

theorem generated_rfq_validates:
  assumes "generate_rfq r = Inr p"
  shows "package_validate p = Inr () \<and> length (rp_questions p) \<le> 12"
proof -
  have few: "length (rfq_questions r) \<le> 12" by (simp add: rfq_questions_def)
  then have "\<not> MAX_QUESTIONS < length (rfq_questions r)" by (simp add: MAX_QUESTIONS_def)
  with assms few show ?thesis
    by (clarsimp simp: generate_rfq_def Let_def) (simp add: package_validate_def)
qed

text \<open>A second estimate for a leg has no effect: the first one found is taken and nothing is reported.\<close>

lemma find_append_None: "x \<in> set xs \<Longrightarrow> P x \<Longrightarrow> List.find P (xs @ ys) = List.find P xs"
  by (induction xs) auto

theorem second_estimate_ignored:
  assumes "es_leg e \<in> es_leg ` set estimates"
  shows "allocate_legs i cur (estimates @ [e]) = allocate_legs i cur estimates"
proof -
  have "List.find (\<lambda>x. es_leg x = leg) (estimates @ [e]) = List.find (\<lambda>x. es_leg x = leg) estimates" for leg
  proof (cases "es_leg e = leg")
    case True
    with assms obtain x where "x \<in> set estimates" "es_leg x = leg" by auto
    then show ?thesis by (rule find_append_None)
  next
    case False
    then show ?thesis by (induction estimates) auto
  qed
  then have "leg_step i cur (estimates @ [e]) = leg_step i cur estimates" by (intro ext) (simp add: leg_step_def split: prod.split)
  then show ?thesis by (simp add: allocate_legs_def)
qed

text \<open>Some reasons for a denial are never given: a token that is stale or expired, and a request that was denied, are
  all reported as an approval that is missing.\<close>

lemma try_grants_reasons:
  "try_grants outcome r final gs = Denied_Action reason detail \<Longrightarrow> fst final \<notin> R \<Longrightarrow>
   (\<And>g refusal. outcome g = Inl refusal \<Longrightarrow> fst refusal \<notin> R) \<Longrightarrow> reason \<notin> R"
  by (induction gs arbitrary: final) (auto split: sum.splits)

theorem approval_denials_collapse:
  assumes "authorize_with_approvals cr json r grants approvals instant wall = Denied_Action reason detail"
  shows "reason \<notin> {ActionMismatch, ApprovalStale, ApprovalExpired, ApprovalDenied}"
proof -
  let ?R = "{ActionMismatch, ApprovalStale, ApprovalExpired, ApprovalDenied}"
  have out: "fst refusal \<notin> ?R" if "grant_outcome cr json r approvals instant wall g = Inl refusal" for g refusal
    using that by (auto simp: grant_outcome_def grant_refusal_def amount_refusal_def approval_for_def
        split: option.splits sum.splits if_splits)
  show ?thesis
  proof (cases "length grants \<le> MAX_GRANTS \<and> action_well_formed r")
    case True
    with assms have "try_grants (grant_outcome cr json r approvals instant wall) r (NoGrant, ''no grant matches the action'')
        (grant_candidates r grants) = Denied_Action reason detail" using gate_open by metis
    from try_grants_reasons [OF this, of ?R] out show ?thesis by simp
  next
    case False
    with assms show ?thesis
      by (auto simp: authorize_with_approvals_def action_well_formed_def unit_ok split: if_splits sum.splits option.splits)
  qed
qed

end
