(* ===== verification/Value_Gate.thy ===== *)
theory Value_Gate
  imports Faktor_Interfaces
begin

text \<open>
  The runtime side of the value entitlements (\<open>crates/core/src/entitlement.rs\<close>): the vocabulary of
  paid entitlements, the runtime hook each one gates, the typed refusal and the gate handle a seam
  consults. The commercial authority behind a wired gate is a function of the entitlement.
\<close>

section \<open>Vocabulary\<close>

datatype value_entitlement =
    AdvancedVerificationPolicy | OrganizationContracts | SharedIntelligence | CrossRepoIntelligence
  | OutcomeAnalytics | SignedProofProvenance | AuditRetentionHistory | ModelOptimizationLearning
  | PrivateRunners | EnterpriseGovernance

definition value_entitlement_ALL :: "value_entitlement list" where
  "value_entitlement_ALL =
     [AdvancedVerificationPolicy, OrganizationContracts, SharedIntelligence, CrossRepoIntelligence,
      OutcomeAnalytics, SignedProofProvenance, AuditRetentionHistory, ModelOptimizationLearning,
      PrivateRunners, EnterpriseGovernance]"

fun entitlement_as_str :: "value_entitlement \<Rightarrow> string" where
  "entitlement_as_str AdvancedVerificationPolicy = ''advanced_verification_policy''"
| "entitlement_as_str OrganizationContracts = ''organization_contracts''"
| "entitlement_as_str SharedIntelligence = ''shared_intelligence''"
| "entitlement_as_str CrossRepoIntelligence = ''cross_repo_intelligence''"
| "entitlement_as_str OutcomeAnalytics = ''outcome_analytics''"
| "entitlement_as_str SignedProofProvenance = ''signed_proof_provenance''"
| "entitlement_as_str AuditRetentionHistory = ''audit_retention_history''"
| "entitlement_as_str ModelOptimizationLearning = ''model_optimization_learning''"
| "entitlement_as_str PrivateRunners = ''private_runners''"
| "entitlement_as_str EnterpriseGovernance = ''enterprise_governance''"

definition entitlement_parse :: "string \<Rightarrow> value_entitlement option" where
  "entitlement_parse raw = scan_table entitlement_as_str value_entitlement_ALL raw"

datatype enforcement_hook =
    VerificationPolicy | ContractCompiler | IntelligenceFederation | CrossRepoIndex | OutcomeLedger
  | ProofAttestation | AuditHistory | OutcomeLearning | WorkerPlacement | IdentityFederation

fun enforcement_hook_of :: "value_entitlement \<Rightarrow> enforcement_hook" where
  "enforcement_hook_of AdvancedVerificationPolicy = VerificationPolicy"
| "enforcement_hook_of OrganizationContracts = ContractCompiler"
| "enforcement_hook_of SharedIntelligence = IntelligenceFederation"
| "enforcement_hook_of CrossRepoIntelligence = CrossRepoIndex"
| "enforcement_hook_of OutcomeAnalytics = OutcomeLedger"
| "enforcement_hook_of SignedProofProvenance = ProofAttestation"
| "enforcement_hook_of AuditRetentionHistory = AuditHistory"
| "enforcement_hook_of ModelOptimizationLearning = OutcomeLearning"
| "enforcement_hook_of PrivateRunners = WorkerPlacement"
| "enforcement_hook_of EnterpriseGovernance = IdentityFederation"

fun hook_as_str :: "enforcement_hook \<Rightarrow> string" where
  "hook_as_str VerificationPolicy = ''verification_policy''"
| "hook_as_str ContractCompiler = ''contract_compiler''"
| "hook_as_str IntelligenceFederation = ''intelligence_federation''"
| "hook_as_str CrossRepoIndex = ''cross_repo_index''"
| "hook_as_str OutcomeLedger = ''outcome_ledger''"
| "hook_as_str ProofAttestation = ''proof_attestation''"
| "hook_as_str AuditHistory = ''audit_history''"
| "hook_as_str OutcomeLearning = ''outcome_learning''"
| "hook_as_str WorkerPlacement = ''worker_placement''"
| "hook_as_str IdentityFederation = ''identity_federation''"

definition hook_parse :: "string \<Rightarrow> enforcement_hook option" where
  "hook_parse raw = scan_table hook_as_str (map enforcement_hook_of value_entitlement_ALL) raw"

datatype value_refusal_cause =
    CloudAbsent | CloudUnavailable | PlanMissing | SubscriptionInactive | NotInPlan

definition refusal_cause_ALL :: "value_refusal_cause list" where
  "refusal_cause_ALL = [CloudAbsent, CloudUnavailable, PlanMissing, SubscriptionInactive, NotInPlan]"

fun cause_as_str :: "value_refusal_cause \<Rightarrow> string" where
  "cause_as_str CloudAbsent = ''cloud_absent''"
| "cause_as_str CloudUnavailable = ''cloud_unavailable''"
| "cause_as_str PlanMissing = ''plan_missing''"
| "cause_as_str SubscriptionInactive = ''subscription_inactive''"
| "cause_as_str NotInPlan = ''not_in_plan''"

definition cause_parse :: "string \<Rightarrow> value_refusal_cause option" where
  "cause_parse raw = scan_table cause_as_str refusal_cause_ALL raw"

interpretation entitlements: tag_table entitlement_as_str value_entitlement_ALL
proof
  show "x \<in> set value_entitlement_ALL" for x
    by (cases x) (simp_all add: value_entitlement_ALL_def)
qed (simp add: value_entitlement_ALL_def)

interpretation hooks: tag_table hook_as_str "map enforcement_hook_of value_entitlement_ALL"
proof
  show "x \<in> set (map enforcement_hook_of value_entitlement_ALL)" for x
    by (cases x) (simp_all add: value_entitlement_ALL_def)
qed (simp add: value_entitlement_ALL_def)

interpretation refusal_causes: tag_table cause_as_str refusal_cause_ALL
proof
  show "x \<in> set refusal_cause_ALL" for x
    by (cases x) (simp_all add: refusal_cause_ALL_def)
qed (simp add: refusal_cause_ALL_def)

section \<open>Refusals and the gate\<close>

text \<open>The rendered message of a refusal is left out.\<close>

record value_gate_refusal =
  vr_entitlement :: value_entitlement
  vr_hook :: enforcement_hook
  vr_cause :: value_refusal_cause
  vr_plan_id :: "string option"
  vr_organization_id :: "string option"

definition cloud_absent :: "value_entitlement \<Rightarrow> value_gate_refusal" where
  "cloud_absent entitlement =
     \<lparr>vr_entitlement = entitlement, vr_hook = enforcement_hook_of entitlement, vr_cause = CloudAbsent,
      vr_plan_id = None, vr_organization_id = None\<rparr>"

type_synonym entitlement_authority = "value_entitlement \<Rightarrow> value_gate_refusal + unit"

record value_gate =
  vg_inner :: "entitlement_authority option"

definition gate_absent :: value_gate where
  "gate_absent = \<lparr>vg_inner = None\<rparr>"

definition gate_wired :: "entitlement_authority \<Rightarrow> value_gate" where
  "gate_wired authority = \<lparr>vg_inner = Some authority\<rparr>"

definition is_wired :: "value_gate \<Rightarrow> bool" where
  "is_wired gate \<longleftrightarrow> vg_inner gate \<noteq> None"

definition gate_check :: "value_gate \<Rightarrow> value_entitlement \<Rightarrow> value_gate_refusal + unit" where
  "gate_check gate entitlement =
     (case vg_inner gate of
        Some authority \<Rightarrow> authority entitlement
      | None \<Rightarrow> Inl (cloud_absent entitlement))"

lemma hook_of_inj: "enforcement_hook_of a = enforcement_hook_of b \<Longrightarrow> a = b"
  by (cases a; cases b) simp_all

text \<open>A gate that is not wired grants nothing, and its refusal names the one hook of the entitlement.\<close>

lemma unwired_gate_refuses:
  assumes "\<not> is_wired gate"
  shows "\<exists>r. gate_check gate e = Inl r \<and> vr_cause r = CloudAbsent \<and> hook_parse (hook_as_str (vr_hook r)) = Some (enforcement_hook_of e)"
  using assms by (auto simp: is_wired_def gate_check_def cloud_absent_def hook_parse_def hooks.parse_tag)

end
