(* ===== verification/Worker_Model.thy ===== *)
theory Worker_Model
  imports Stateful_Actions Value_Gate
begin

text \<open>
  The data of the worker plane (\<open>crates/worker/src/ids.rs\<close>, \<open>error.rs\<close>, \<open>model.rs\<close>): identities,
  the typed refusals, capability advertisements and their matching, job roots, generations, leases,
  attempts, results and journal entries. Identity types are their text; a generation is the natural
  number under the newtype. The prose of a refusal is left out; the text of a journal entry is kept,
  because its length decides whether the entry is refused.
\<close>

section \<open>Identities\<close>

type_synonym worker_id = string
type_synonym lease_id = string
type_synonym job_id = string
type_synonym job_key = string
type_synonym generation = nat

datatype worker_error =
    We_Backend
  | We_EntitlementRefused value_gate_refusal
  | We_Malformed
  | We_UnsupportedSchema int int
  | We_UnknownToken
  | We_TokenRevoked
  | We_TokenAlreadyUsed string
  | We_TokenNotConsumed worker_id
  | We_TokenBoundElsewhere worker_id string
  | We_TokenOrgMismatch string string
  | We_UnknownWorker worker_id
  | We_WorkerRevoked worker_id
  | We_AlreadyRevoked worker_id
  | We_WorkerAlreadyBound worker_id string
  | We_WorkerSaturated worker_id nat
  | We_WorkerVanished worker_id
  | We_ProtocolSkew nat nat
  | We_ForeignTrustDomain string string
  | We_SupersededLease job_id generation generation
  | We_LeaseAlreadyTaken job_id generation worker_id lease_id
  | We_UnknownLease lease_id worker_id
  | We_LeaseExpired lease_id int
  | We_LeaseNotLive lease_id string
  | We_NotAssignedToWorker job_id generation worker_id worker_id
  | We_NotLeasable job_id generation string
  | We_NoEligibleWorker job_id
  | We_CapabilityMismatch worker_id job_id
  | We_AttemptsExhausted job_id nat nat
  | We_AlreadyAccepted job_id generation worker_id
  | We_ResultConflict job_id generation
  | We_DigestMismatch string string
  | We_UnknownJob job_id
  | We_UnknownGeneration job_id generation
  | We_JobTerminal job_id string

definition WORKER_PROTOCOL_VERSION :: nat where "WORKER_PROTOCOL_VERSION = 1"
definition MAX_ID_BYTES :: nat where "MAX_ID_BYTES = 128"
definition MAX_JOB_KEY_BYTES :: nat where "MAX_JOB_KEY_BYTES = 256"

fun is_recovery_domain_refusal :: "worker_error \<Rightarrow> bool" where
  "is_recovery_domain_refusal We_Backend = False"
| "is_recovery_domain_refusal We_Malformed = False"
| "is_recovery_domain_refusal (We_UnsupportedSchema _ _) = False"
| "is_recovery_domain_refusal _ = True"

definition id_byte :: "char \<Rightarrow> bool" where
  "id_byte b \<longleftrightarrow> is_ascii_graphic b \<and> byte_of b \<noteq> 34 \<and> byte_of b \<noteq> 92"

definition validate_id :: "string \<Rightarrow> worker_error + unit" where
  "validate_id value =
     (if value = [] \<or> MAX_ID_BYTES < length value then Inl We_Malformed
      else if \<not> list_all id_byte value then Inl We_Malformed
      else Inr ())"

definition id_try_new :: "string \<Rightarrow> worker_error + string" where
  "id_try_new raw = and_then (validate_id raw) (Inr raw)"

definition FIRST :: generation where "FIRST = 1"

definition generation_try_new :: "nat \<Rightarrow> worker_error + generation" where
  "generation_try_new raw =
     (if raw = 0 then Inl We_Malformed
      else if i64_max < int raw then Inl We_Malformed
      else Inr raw)"

definition generation_try_from_i64 :: "int \<Rightarrow> worker_error + generation" where
  "generation_try_from_i64 raw = (if raw < 0 then Inl We_Malformed else generation_try_new (nat raw))"

definition generation_as_i64 :: "generation \<Rightarrow> int" where
  "generation_as_i64 g = u64_as_i64 g"

definition generation_next :: "generation \<Rightarrow> worker_error + generation" where
  "generation_next g = bind_result (ok_or We_Malformed (try_u64 (g + 1))) generation_try_new"

definition job_key_try_new :: "string \<Rightarrow> worker_error + job_key" where
  "job_key_try_new raw =
     (if raw = [] \<or> MAX_JOB_KEY_BYTES < length raw then Inl We_Malformed
      else if \<not> list_all is_ascii_graphic raw then Inl We_Malformed
      else Inr raw)"

section \<open>Bounds\<close>

definition MAX_CAPABILITY_BYTES :: nat where "MAX_CAPABILITY_BYTES = 128"
definition MAX_TOOLCHAINS :: nat where "MAX_TOOLCHAINS = 64"
definition MAX_SANDBOX_CAPABILITIES :: nat where "MAX_SANDBOX_CAPABILITIES = 32"
definition MAX_WORKER_NAME_BYTES :: nat where "MAX_WORKER_NAME_BYTES = 128"
definition RESULT_DIGEST_BYTES :: nat where "RESULT_DIGEST_BYTES = 64"
definition MAX_JOURNAL_DETAIL_BYTES :: nat where "MAX_JOURNAL_DETAIL_BYTES = 512"
definition HEARTBEAT_MIN_INTERVAL_MS :: int where "HEARTBEAT_MIN_INTERVAL_MS = 1000"
definition HEARTBEAT_MAX_INTERVAL_MS :: int where "HEARTBEAT_MAX_INTERVAL_MS = 300000"
definition HEARTBEAT_DEFAULT_INTERVAL_MS :: int where "HEARTBEAT_DEFAULT_INTERVAL_MS = 15000"
definition MAX_REQUEUE_ATTEMPTS :: nat where "MAX_REQUEUE_ATTEMPTS = 32"
definition DEFAULT_MAX_ATTEMPTS :: nat where "DEFAULT_MAX_ATTEMPTS = 3"
definition MAX_LIVE_LEASES_PER_WORKER :: nat where "MAX_LIVE_LEASES_PER_WORKER = 16"

lemmas worker_bounds [faktor_defs] =
  WORKER_PROTOCOL_VERSION_def MAX_ID_BYTES_def MAX_JOB_KEY_BYTES_def MAX_CAPABILITY_BYTES_def
  MAX_TOOLCHAINS_def MAX_SANDBOX_CAPABILITIES_def MAX_WORKER_NAME_BYTES_def RESULT_DIGEST_BYTES_def
  MAX_JOURNAL_DETAIL_BYTES_def HEARTBEAT_MIN_INTERVAL_MS_def HEARTBEAT_MAX_INTERVAL_MS_def
  HEARTBEAT_DEFAULT_INTERVAL_MS_def MAX_REQUEUE_ATTEMPTS_def DEFAULT_MAX_ATTEMPTS_def
  MAX_LIVE_LEASES_PER_WORKER_def

section \<open>Capabilities and requirements\<close>

definition normalize_token :: "string \<Rightarrow> worker_error + string" where
  "normalize_token raw =
     (let trimmed = trim raw in
      if trimmed = [] \<or> MAX_CAPABILITY_BYTES < length trimmed then Inl We_Malformed
      else if \<not> list_all is_ascii_graphic trimmed then Inl We_Malformed
      else Inr (map to_ascii_lowercase trimmed))"

type_synonym sandbox_capability = string

definition sandbox_try_new :: "string \<Rightarrow> worker_error + sandbox_capability" where
  "sandbox_try_new raw = normalize_token raw"

datatype network_profile = Net_None | Net_EgressRestricted | Net_Full

record gpu_capability =
  gpu_model :: string
  gpu_count :: nat
  gpu_memory_mb :: nat

record worker_capabilities =
  wc_os :: string
  wc_arch :: string
  wc_toolchains :: "string list"
  wc_sandbox :: "sandbox_capability list"
  wc_network :: network_profile
  wc_cpu_cores :: nat
  wc_memory_mb :: nat
  wc_gpu :: "gpu_capability option"
  wc_region :: string
  wc_trust_domain :: string
  wc_protocol_version :: nat

text \<open>A loop that normalises every entry and pushes it, then sorts and drops repetitions.\<close>

definition normalize_list :: "(string \<Rightarrow> worker_error + string) \<Rightarrow> string list \<Rightarrow> worker_error + string list" where
  "normalize_list f xs =
     bind_result (try_fold (\<lambda>out x. bind_result (f x) (\<lambda>y. Inr (out @ [y]))) [] xs) (\<lambda>ys. Inr (remdups_adj (sort ys)))"

definition check_gpu :: "gpu_capability option \<Rightarrow> worker_error + unit" where
  "check_gpu g =
     (case g of
        None \<Rightarrow> Inr ()
      | Some gpu \<Rightarrow> and_then (refuse_if (gpu_count gpu = 0) We_Malformed)
                      (bind_result (normalize_token (gpu_model gpu)) (\<lambda>_. Inr ())))"

definition capabilities_normalize :: "worker_capabilities \<Rightarrow> worker_error + worker_capabilities" where
  "capabilities_normalize self =
     bind_result (normalize_token (wc_os self)) (\<lambda>os.
     bind_result (normalize_token (wc_arch self)) (\<lambda>arch.
     bind_result (normalize_token (wc_region self)) (\<lambda>region.
     bind_result (normalize_token (wc_trust_domain self)) (\<lambda>trust_domain.
     and_then (refuse_if (wc_gpu self \<noteq> None \<and> wc_cpu_cores self = 0) We_Malformed)
     (and_then (refuse_if (MAX_TOOLCHAINS < length (wc_toolchains self)) We_Malformed)
     (and_then (refuse_if (MAX_SANDBOX_CAPABILITIES < length (wc_sandbox self)) We_Malformed)
     (bind_result (normalize_list normalize_token (wc_toolchains self)) (\<lambda>toolchains.
      bind_result (normalize_list sandbox_try_new (wc_sandbox self)) (\<lambda>sandbox.
      and_then (refuse_if (wc_protocol_version self \<noteq> WORKER_PROTOCOL_VERSION)
                 (We_ProtocolSkew WORKER_PROTOCOL_VERSION (wc_protocol_version self)))
      (and_then (check_gpu (wc_gpu self))
      (Inr (self\<lparr>wc_os := os, wc_arch := arch, wc_region := region, wc_trust_domain := trust_domain,
                 wc_toolchains := toolchains, wc_sandbox := sandbox\<rparr>))))))))))))"

record job_requirements =
  jr_os :: "string option"
  jr_arch :: "string option"
  jr_toolchains :: "string list"
  jr_sandbox :: "sandbox_capability list"
  jr_network :: "network_profile option"
  jr_min_cpu_cores :: nat
  jr_min_memory_mb :: nat
  jr_gpu :: bool
  jr_region :: "string option"
  jr_trust_domain :: string

definition normalize_option :: "string option \<Rightarrow> worker_error + string option" where
  "normalize_option x =
     (case x of None \<Rightarrow> Inr None | Some t \<Rightarrow> bind_result (normalize_token t) (\<lambda>t. Inr (Some t)))"

definition requirements_normalize :: "job_requirements \<Rightarrow> worker_error + job_requirements" where
  "requirements_normalize self =
     bind_result (normalize_option (jr_os self)) (\<lambda>os.
     bind_result (normalize_option (jr_arch self)) (\<lambda>arch.
     bind_result (normalize_option (jr_region self)) (\<lambda>region.
     bind_result (normalize_token (jr_trust_domain self)) (\<lambda>trust_domain.
     and_then (refuse_if (MAX_TOOLCHAINS < length (jr_toolchains self)) We_Malformed)
     (bind_result (normalize_list normalize_token (jr_toolchains self)) (\<lambda>toolchains.
      and_then (refuse_if (MAX_SANDBOX_CAPABILITIES < length (jr_sandbox self)) We_Malformed)
      (bind_result (normalize_list sandbox_try_new (jr_sandbox self)) (\<lambda>sandbox.
       Inr (self\<lparr>jr_os := os, jr_arch := arch, jr_region := region, jr_trust_domain := trust_domain,
                  jr_toolchains := toolchains, jr_sandbox := sandbox\<rparr>)))))))))"

datatype capability_gap =
    Gap_Os | Gap_Arch | Gap_Toolchain string | Gap_Sandbox string | Gap_Network | Gap_CpuCores
  | Gap_Memory | Gap_Gpu | Gap_Region

definition satisfies :: "worker_capabilities \<Rightarrow> job_requirements \<Rightarrow> capability_gap + unit" where
  "satisfies self req =
     and_then (refuse_if (case jr_os req of Some os \<Rightarrow> wc_os self \<noteq> os | None \<Rightarrow> False) Gap_Os)
     (and_then (refuse_if (case jr_arch req of Some arch \<Rightarrow> wc_arch self \<noteq> arch | None \<Rightarrow> False) Gap_Arch)
     (and_then (try_each (\<lambda>tool. refuse_if (tool \<notin> set (wc_toolchains self)) (Gap_Toolchain tool)) (jr_toolchains req))
     (and_then (try_each (\<lambda>tag. refuse_if (tag \<notin> set (wc_sandbox self)) (Gap_Sandbox tag)) (jr_sandbox req))
     (and_then (refuse_if (case jr_network req of Some network \<Rightarrow> wc_network self \<noteq> network | None \<Rightarrow> False) Gap_Network)
     (and_then (refuse_if (wc_cpu_cores self < jr_min_cpu_cores req) Gap_CpuCores)
     (and_then (refuse_if (wc_memory_mb self < jr_min_memory_mb req) Gap_Memory)
     (and_then (refuse_if (jr_gpu req \<and> wc_gpu self = None) Gap_Gpu)
     (refuse_if (case jr_region req of Some region \<Rightarrow> wc_region self \<noteq> region | None \<Rightarrow> False) Gap_Region))))))))"

section \<open>Rows\<close>

record worker_registration =
  wr_worker_id :: worker_id
  wr_organization_id :: string
  wr_trust_domain :: string
  wr_display_name :: string
  wr_token_hash :: string
  wr_revoked :: bool
  wr_capabilities :: worker_capabilities
  wr_capabilities_version :: nat
  wr_registered_ms :: int
  wr_last_seen_ms :: int
  wr_revoked_ms :: "int option"

record worker_token_row =
  tok_token_hash :: string
  tok_organization_id :: string
  tok_trust_domain :: string
  tok_label :: string
  tok_created_ms :: int
  tok_revoked :: bool
  tok_consumed_by :: "worker_id option"

record requeue_policy =
  rq_max_attempts :: nat

definition requeue_validate :: "requeue_policy \<Rightarrow> worker_error + unit" where
  "requeue_validate self =
     refuse_if (rq_max_attempts self = 0 \<or> MAX_REQUEUE_ATTEMPTS < rq_max_attempts self) We_Malformed"

definition default_requeue :: requeue_policy where
  "default_requeue = \<lparr>rq_max_attempts = DEFAULT_MAX_ATTEMPTS\<rparr>"

datatype job_state = Job_Assigned | Job_Leased | Job_Completed | Job_Failed

fun job_state_as_str :: "job_state \<Rightarrow> string" where
  "job_state_as_str Job_Assigned = ''assigned''"
| "job_state_as_str Job_Leased = ''leased''"
| "job_state_as_str Job_Completed = ''completed''"
| "job_state_as_str Job_Failed = ''failed''"

definition job_is_terminal :: "job_state \<Rightarrow> bool" where
  "job_is_terminal s \<longleftrightarrow> s = Job_Completed \<or> s = Job_Failed"

record execution_job =
  job_job_id :: job_id
  job_organization_id :: string
  job_trust_domain :: string
  job_job_key :: job_key
  job_requirements :: job_requirements
  job_payload_digest :: string
  job_requeue :: requeue_policy
  job_assigned_worker :: "worker_id option"
  job_created_ms :: int
  job_current_generation :: generation
  job_state :: job_state

datatype generation_state =
  Gen_Assigned | Gen_Leased | Gen_Completed | Gen_Lost | Gen_Superseded | Gen_Failed

fun generation_state_as_str :: "generation_state \<Rightarrow> string" where
  "generation_state_as_str Gen_Assigned = ''assigned''"
| "generation_state_as_str Gen_Leased = ''leased''"
| "generation_state_as_str Gen_Completed = ''completed''"
| "generation_state_as_str Gen_Lost = ''lost''"
| "generation_state_as_str Gen_Superseded = ''superseded''"
| "generation_state_as_str Gen_Failed = ''failed''"

definition generation_is_terminal :: "generation_state \<Rightarrow> bool" where
  "generation_is_terminal s \<longleftrightarrow> s \<in> {Gen_Completed, Gen_Lost, Gen_Superseded, Gen_Failed}"

record job_generation_row =
  gr_job_id :: job_id
  gr_organization_id :: string
  gr_generation :: generation
  gr_state :: generation_state
  gr_created_ms :: int
  gr_ended_ms :: "int option"
  gr_reason :: "string option"

datatype lease_state = Lease_Live | Lease_Expired | Lease_Superseded | Lease_Revoked | Lease_Completed

fun lease_state_as_str :: "lease_state \<Rightarrow> string" where
  "lease_state_as_str Lease_Live = ''live''"
| "lease_state_as_str Lease_Expired = ''expired''"
| "lease_state_as_str Lease_Superseded = ''superseded''"
| "lease_state_as_str Lease_Revoked = ''revoked''"
| "lease_state_as_str Lease_Completed = ''completed''"

record worker_lease =
  wl_lease_id :: lease_id
  wl_organization_id :: string
  wl_job_id :: job_id
  wl_generation :: generation
  wl_worker_id :: worker_id
  wl_state :: lease_state
  wl_heartbeat_interval_ms :: int
  wl_accepted_ms :: int
  wl_last_heartbeat_ms :: int
  wl_expires_at_ms :: int
  wl_ended_ms :: "int option"
  wl_reason :: "string option"

definition lease_is_live :: "worker_lease \<Rightarrow> bool" where
  "lease_is_live l \<longleftrightarrow> wl_state l = Lease_Live"

definition lease_is_expired_at :: "worker_lease \<Rightarrow> int \<Rightarrow> bool" where
  "lease_is_expired_at l now_ms \<longleftrightarrow> wl_expires_at_ms l \<le> now_ms"

datatype attempt_state = Att_Pending | Att_Leased | Att_Completed | Att_Lost | Att_Failed

definition attempt_is_terminal :: "attempt_state \<Rightarrow> bool" where
  "attempt_is_terminal s \<longleftrightarrow> s \<in> {Att_Completed, Att_Lost, Att_Failed}"

record job_attempt =
  ja_job_id :: job_id
  ja_generation :: generation
  ja_attempt :: nat
  ja_worker_id :: "worker_id option"
  ja_lease_id :: "lease_id option"
  ja_state :: attempt_state
  ja_started_ms :: int
  ja_ended_ms :: "int option"
  ja_reason :: "string option"

datatype job_result_outcome = Outcome_Succeeded | Outcome_Failed

record job_verification_claim =
  vc_self_verified :: bool
  vc_produced_digest :: "string option"

definition default_claim :: job_verification_claim where
  "default_claim = \<lparr>vc_self_verified = False, vc_produced_digest = None\<rparr>"

record job_result =
  res_job_id :: job_id
  res_generation :: generation
  res_worker_id :: worker_id
  res_lease_id :: lease_id
  res_digest :: string
  res_outcome :: job_result_outcome
  res_accepted_ms :: int
  res_verification :: job_verification_claim

record journal_entry =
  je_seq :: int
  je_organization_id :: string
  je_kind :: string
  je_job_id :: "job_id option"
  je_worker_id :: "worker_id option"
  je_generation :: "generation option"
  je_at_ms :: int
  je_detail :: string

definition journal_entry_new :: "string \<Rightarrow> string \<Rightarrow> int \<Rightarrow> string \<Rightarrow> worker_error + journal_entry" where
  "journal_entry_new organization_id kind at_ms detail =
     (if MAX_JOURNAL_DETAIL_BYTES < length detail then Inl We_Malformed
      else Inr \<lparr>je_seq = 0, je_organization_id = organization_id, je_kind = kind, je_job_id = None,
                je_worker_id = None, je_generation = None, je_at_ms = at_ms, je_detail = detail\<rparr>)"

definition with_job :: "job_id \<Rightarrow> generation \<Rightarrow> journal_entry \<Rightarrow> journal_entry" where
  "with_job job generation entry = entry\<lparr>je_job_id := Some job, je_generation := Some generation\<rparr>"

definition with_worker :: "worker_id \<Rightarrow> journal_entry \<Rightarrow> journal_entry" where
  "with_worker worker entry = entry\<lparr>je_worker_id := Some worker\<rparr>"

definition clamp_heartbeat_interval :: "int \<Rightarrow> int" where
  "clamp_heartbeat_interval requested_ms =
     max HEARTBEAT_MIN_INTERVAL_MS (min HEARTBEAT_MAX_INTERVAL_MS requested_ms)"

record worker_view =
  wv_worker_id :: worker_id
  wv_organization_id :: string
  wv_trust_domain :: string
  wv_display_name :: string
  wv_revoked :: bool
  wv_capabilities :: worker_capabilities
  wv_capabilities_version :: nat
  wv_registered_ms :: int
  wv_last_seen_ms :: int

definition worker_view_from :: "worker_registration \<Rightarrow> worker_view" where
  "worker_view_from r =
     \<lparr>wv_worker_id = wr_worker_id r, wv_organization_id = wr_organization_id r,
      wv_trust_domain = wr_trust_domain r, wv_display_name = wr_display_name r,
      wv_revoked = wr_revoked r, wv_capabilities = wr_capabilities r,
      wv_capabilities_version = wr_capabilities_version r, wv_registered_ms = wr_registered_ms r,
      wv_last_seen_ms = wr_last_seen_ms r\<rparr>"

record worker_page =
  wp_items :: "worker_view list"
  wp_next_cursor :: "worker_id option"

record job_status =
  js_job :: execution_job
  js_generations :: "job_generation_row list"
  js_attempts :: "job_attempt list"
  js_lease :: "worker_lease option"
  js_result :: "job_result option"

section \<open>Properties of the vocabulary\<close>

lemma generation_next_ok:
  "generation_next g = Inr h \<longleftrightarrow> h = g + 1 \<and> int g < i64_max"
  by (auto simp: generation_next_def generation_try_new_def width_simps)

lemma generation_i64_round_trip:
  assumes "generation_try_new raw = Inr g"
  shows "generation_try_from_i64 (generation_as_i64 g) = Inr g"
  using assms by (auto simp: generation_try_new_def generation_try_from_i64_def generation_as_i64_def u64_as_i64_def split: if_splits)

lemma clamp_heartbeat_bounds:
  "HEARTBEAT_MIN_INTERVAL_MS \<le> clamp_heartbeat_interval x" "clamp_heartbeat_interval x \<le> HEARTBEAT_MAX_INTERVAL_MS"
  by (simp_all add: clamp_heartbeat_interval_def worker_bounds)

text \<open>What a capability match means.\<close>

lemma satisfies_ok:
  "satisfies c r = Inr () \<longleftrightarrow>
     pred_option ((=) (wc_os c)) (jr_os r) \<and> pred_option ((=) (wc_arch c)) (jr_arch r) \<and>
     set (jr_toolchains r) \<subseteq> set (wc_toolchains c) \<and> set (jr_sandbox r) \<subseteq> set (wc_sandbox c) \<and>
     pred_option ((=) (wc_network c)) (jr_network r) \<and> jr_min_cpu_cores r \<le> wc_cpu_cores c \<and>
     jr_min_memory_mb r \<le> wc_memory_mb c \<and> (jr_gpu r \<longrightarrow> wc_gpu c \<noteq> None) \<and>
     pred_option ((=) (wc_region c)) (jr_region r)"
  by (auto simp: satisfies_def option.pred_set not_less split: option.splits)

end
