(* ===== verification/Worker_Store.thy ===== *)
theory Worker_Store
  imports Worker_Model
begin

text \<open>
  The in-memory store of the worker plane (\<open>crates/worker/src/store.rs\<close>, \<open>MemoryWorkerStore\<close>): its
  rows in ordered maps and every operation of the \<open>WorkerStore\<close> trait. The store mutex makes each
  operation one step. The one-shot test faults and a poisoned lock are left out, so a read never
  fails; the JSON identity of two rows of one type is their equality.
\<close>

record memory_state =
  ms_workers :: "(string, worker_registration) btree"
  ms_tokens :: "(string, worker_token_row) btree"
  ms_jobs :: "(string, execution_job) btree"
  ms_generations :: "(string \<times> nat, job_generation_row) btree"
  ms_leases :: "(string, worker_lease) btree"
  ms_attempts :: "(string \<times> nat \<times> nat, job_attempt) btree"
  ms_results :: "(string \<times> nat, job_result) btree"
  ms_journal :: "journal_entry list"

definition empty_store :: memory_state where
  "empty_store =
     \<lparr>ms_workers = [], ms_tokens = [], ms_jobs = [], ms_generations = [], ms_leases = [],
      ms_attempts = [], ms_results = [], ms_journal = []\<rparr>"

type_synonym 'a store_op = "(memory_state, worker_error, 'a) action"

section \<open>Reads\<close>

definition store_worker :: "worker_id \<Rightarrow> memory_state \<Rightarrow> worker_registration option" where
  "store_worker wid st = bt_get (ms_workers st) wid"

definition store_workers :: "string \<Rightarrow> string option \<Rightarrow> nat \<Rightarrow> memory_state \<Rightarrow> worker_registration list" where
  "store_workers organization after limit st =
     take limit
       (filter (\<lambda>w. case after of None \<Rightarrow> True | Some a \<Rightarrow> a < wr_worker_id w)
         (filter (\<lambda>w. wr_organization_id w = organization) (bt_values (ms_workers st))))"

definition workers_by_token_hash :: "string \<Rightarrow> string \<Rightarrow> memory_state \<Rightarrow> worker_registration list" where
  "workers_by_token_hash organization token_hash st =
     filter (\<lambda>w. wr_organization_id w = organization \<and> wr_token_hash w = token_hash) (bt_values (ms_workers st))"

definition store_token :: "string \<Rightarrow> memory_state \<Rightarrow> worker_token_row option" where
  "store_token token_hash st = bt_get (ms_tokens st) token_hash"

definition store_job :: "job_id \<Rightarrow> memory_state \<Rightarrow> execution_job option" where
  "store_job jid st = bt_get (ms_jobs st) jid"

definition job_by_key :: "string \<Rightarrow> job_key \<Rightarrow> memory_state \<Rightarrow> execution_job option" where
  "job_by_key organization key st =
     find (\<lambda>j. job_organization_id j = organization \<and> job_job_key j = key) (bt_values (ms_jobs st))"

definition store_generation :: "job_id \<Rightarrow> generation \<Rightarrow> memory_state \<Rightarrow> job_generation_row option" where
  "store_generation job generation st = bt_get (ms_generations st) (job, generation)"

definition store_generations :: "job_id \<Rightarrow> memory_state \<Rightarrow> job_generation_row list" where
  "store_generations job st =
     sort_key gr_generation (map snd (filter (\<lambda>((j, _), _). j = job) (ms_generations st)))"

definition store_lease :: "lease_id \<Rightarrow> memory_state \<Rightarrow> worker_lease option" where
  "store_lease lid st = bt_get (ms_leases st) lid"

definition lease_for_generation :: "job_id \<Rightarrow> generation \<Rightarrow> memory_state \<Rightarrow> worker_lease option" where
  "lease_for_generation job generation st =
     find (\<lambda>l. wl_job_id l = job \<and> wl_generation l = generation) (bt_values (ms_leases st))"

definition live_leases :: "string \<Rightarrow> memory_state \<Rightarrow> worker_lease list" where
  "live_leases organization st =
     sort_key wl_lease_id
       (filter (\<lambda>l. wl_organization_id l = organization \<and> wl_state l = Lease_Live) (bt_values (ms_leases st)))"

definition live_leases_of_worker :: "worker_id \<Rightarrow> memory_state \<Rightarrow> worker_lease list" where
  "live_leases_of_worker worker st =
     sort_key wl_lease_id
       (filter (\<lambda>l. wl_worker_id l = worker \<and> wl_state l = Lease_Live) (bt_values (ms_leases st)))"

definition store_attempt :: "job_id \<Rightarrow> generation \<Rightarrow> nat \<Rightarrow> memory_state \<Rightarrow> job_attempt option" where
  "store_attempt job generation attempt st = bt_get (ms_attempts st) (job, generation, attempt)"

definition store_attempts :: "job_id \<Rightarrow> memory_state \<Rightarrow> job_attempt list" where
  "store_attempts job st =
     sort_key (\<lambda>a. (ja_generation a, ja_attempt a))
       (map snd (filter (\<lambda>((j, _, _), _). j = job) (ms_attempts st)))"

definition max_attempt_number :: "job_id \<Rightarrow> memory_state \<Rightarrow> nat" where
  "max_attempt_number job st =
     foldl max 0 (map (\<lambda>(_, _, a). a) (filter (\<lambda>(j, _, _). j = job) (bt_keys (ms_attempts st))))"

definition store_result :: "job_id \<Rightarrow> generation \<Rightarrow> memory_state \<Rightarrow> job_result option" where
  "store_result job generation st = bt_get (ms_results st) (job, generation)"

definition store_journal :: "string \<Rightarrow> int option \<Rightarrow> nat \<Rightarrow> memory_state \<Rightarrow> journal_entry list" where
  "store_journal organization after_seq limit st =
     take limit
       (filter (\<lambda>e. case after_seq of None \<Rightarrow> True | Some a \<Rightarrow> a < je_seq e)
         (filter (\<lambda>e. je_organization_id e = organization) (ms_journal st)))"

section \<open>Writes\<close>

text \<open>An entry gets the next sequence number when it is appended.\<close>

definition push_journal :: "journal_entry \<Rightarrow> memory_state \<Rightarrow> memory_state" where
  "push_journal entry st =
     st\<lparr>ms_journal := ms_journal st @ [entry\<lparr>je_seq := int (length (ms_journal st)) + 1\<rparr>]\<rparr>"

definition append_journal :: "journal_entry \<Rightarrow> unit store_op" where
  "append_journal entry st = (push_journal entry st, Inr ())"

definition put_worker :: "worker_registration \<Rightarrow> unit store_op" where
  "put_worker worker st =
     (let bound = (case bt_get (ms_workers st) (wr_worker_id worker) of
            None \<Rightarrow> Inr ()
          | Some existing \<Rightarrow>
              if wr_token_hash existing \<noteq> wr_token_hash worker
              then Inl (We_WorkerAlreadyBound (wr_worker_id worker) (wr_token_hash existing))
              else refuse_if (wr_revoked existing \<and> \<not> wr_revoked worker) (We_WorkerRevoked (wr_worker_id worker)));
          elsewhere = (case find (\<lambda>w. wr_worker_id w \<noteq> wr_worker_id worker \<and> wr_token_hash w = wr_token_hash worker)
                              (bt_values (ms_workers st)) of
            Some other \<Rightarrow> Inl (We_TokenBoundElsewhere (wr_worker_id other) (wr_token_hash worker))
          | None \<Rightarrow> Inr ())
      in case and_then bound elsewhere of
           Inl e \<Rightarrow> (st, Inl e)
         | Inr _ \<Rightarrow> (st\<lparr>ms_workers := bt_insert (wr_worker_id worker) worker (ms_workers st)\<rparr>, Inr ()))"

definition touch_worker :: "worker_id \<Rightarrow> int \<Rightarrow> bool store_op" where
  "touch_worker worker last_seen_ms st =
     (case bt_get (ms_workers st) worker of
        None \<Rightarrow> (st, Inr False)
      | Some row \<Rightarrow>
          if wr_revoked row then (st, Inr False)
          else (st\<lparr>ms_workers := bt_modify worker
                     (\<lambda>w. w\<lparr>wr_last_seen_ms := max (wr_last_seen_ms w) last_seen_ms\<rparr>) (ms_workers st)\<rparr>, Inr True))"

text \<open>The checks of a registration, against the stored rows.\<close>

definition registration_check :: "worker_registration \<Rightarrow> memory_state \<Rightarrow> worker_error + worker_token_row" where
  "registration_check r st =
     bind_result (ok_or We_UnknownToken (bt_get (ms_tokens st) (wr_token_hash r))) (\<lambda>stored.
     and_then (refuse_if (tok_revoked stored) We_TokenRevoked)
     (and_then (refuse_if (tok_organization_id stored \<noteq> wr_organization_id r)
                (We_TokenOrgMismatch (tok_organization_id stored) (wr_organization_id r)))
     (and_then (refuse_if (tok_trust_domain stored \<noteq> wr_trust_domain r
                           \<or> tok_trust_domain stored \<noteq> wc_trust_domain (wr_capabilities r))
                (We_ForeignTrustDomain (wc_trust_domain (wr_capabilities r)) (tok_trust_domain stored)))
     (and_then (case tok_consumed_by stored of
                  Some consumer \<Rightarrow> refuse_if (consumer \<noteq> wr_worker_id r) (We_TokenAlreadyUsed consumer)
                | None \<Rightarrow> Inr ())
     (and_then (case find (\<lambda>w. wr_token_hash w = wr_token_hash r \<and> wr_worker_id w \<noteq> wr_worker_id r)
                       (bt_values (ms_workers st)) of
                  Some other \<Rightarrow> Inl (We_TokenBoundElsewhere (wr_worker_id other) (wr_token_hash r))
                | None \<Rightarrow> Inr ())
     (and_then (case bt_get (ms_workers st) (wr_worker_id r) of
                  Some existing \<Rightarrow>
                    if wr_revoked existing then Inl (We_WorkerRevoked (wr_worker_id r))
                    else refuse_if (wr_token_hash existing \<noteq> wr_token_hash r)
                           (We_WorkerAlreadyBound (wr_worker_id r) (wr_token_hash existing))
                | None \<Rightarrow> Inr ())
     (Inr stored)))))))"

definition register_worker_with_token :: "worker_registration \<Rightarrow> worker_token_row \<Rightarrow> journal_entry \<Rightarrow> unit store_op" where
  "register_worker_with_token registration token journal st =
     (if tok_token_hash token \<noteq> wr_token_hash registration then (st, Inl We_Malformed)
      else case registration_check registration st of
        Inl e \<Rightarrow> (st, Inl e)
      | Inr stored \<Rightarrow>
          let consumed = stored\<lparr>tok_consumed_by := Some (wr_worker_id registration)\<rparr> in
          (push_journal journal
             (st\<lparr>ms_workers := bt_insert (wr_worker_id registration) registration (ms_workers st),
                 ms_tokens := bt_insert (tok_token_hash consumed) consumed (ms_tokens st)\<rparr>), Inr ()))"

definition put_token :: "worker_token_row \<Rightarrow> unit store_op" where
  "put_token token st = (st\<lparr>ms_tokens := bt_insert (tok_token_hash token) token (ms_tokens st)\<rparr>, Inr ())"

definition put_job :: "execution_job \<Rightarrow> unit store_op" where
  "put_job job st = (st\<lparr>ms_jobs := bt_insert (job_job_id job) job (ms_jobs st)\<rparr>, Inr ())"

definition put_generation :: "job_generation_row \<Rightarrow> unit store_op" where
  "put_generation row st =
     (st\<lparr>ms_generations := bt_insert (gr_job_id row, gr_generation row) row (ms_generations st)\<rparr>, Inr ())"

definition put_attempt :: "job_attempt \<Rightarrow> unit store_op" where
  "put_attempt a st =
     (st\<lparr>ms_attempts := bt_insert (ja_job_id a, ja_generation a, ja_attempt a) a (ms_attempts st)\<rparr>, Inr ())"

definition insert_generation_and_attempt ::
    "execution_job \<Rightarrow> job_generation_row \<Rightarrow> job_attempt \<Rightarrow> bool store_op" where
  "insert_generation_and_attempt job generation attempt st =
     (let key = (gr_job_id generation, gr_generation generation);
          akey = (ja_job_id attempt, ja_generation attempt, ja_attempt attempt)
      in case bt_get (ms_generations st) key of
           Some existing \<Rightarrow>
             if existing = generation \<and> bt_get (ms_attempts st) akey = Some attempt
             then (st, Inr False) else (st, Inl We_Malformed)
         | None \<Rightarrow>
             (st\<lparr>ms_generations := bt_insert key generation (ms_generations st),
                 ms_attempts := bt_insert akey attempt (ms_attempts st),
                 ms_jobs := bt_insert (job_job_id job) job (ms_jobs st)\<rparr>, Inr True))"

text \<open>\<open>if x.is_some() { row.field = x }\<close>\<close>

definition replace_if_some :: "'a option \<Rightarrow> 'a option \<Rightarrow> 'a option" where
  "replace_if_some x old = (case x of None \<Rightarrow> old | Some _ \<Rightarrow> x)"

definition set_generation_state ::
    "job_id \<Rightarrow> generation \<Rightarrow> generation_state \<Rightarrow> generation_state \<Rightarrow> int option \<Rightarrow> string option \<Rightarrow> bool store_op" where
  "set_generation_state job generation from_state to_state ended_ms reason st =
     (case bt_get (ms_generations st) (job, generation) of
        None \<Rightarrow> (st, Inr False)
      | Some row \<Rightarrow>
          if gr_state row \<noteq> from_state then (st, Inr False)
          else (st\<lparr>ms_generations := bt_modify (job, generation)
                     (\<lambda>r. r\<lparr>gr_state := to_state, gr_ended_ms := replace_if_some ended_ms (gr_ended_ms r),
                            gr_reason := replace_if_some reason (gr_reason r)\<rparr>) (ms_generations st)\<rparr>, Inr True))"

definition set_job_state :: "job_id \<Rightarrow> generation \<Rightarrow> job_state \<Rightarrow> bool store_op" where
  "set_job_state job expect_generation to_state st =
     (case bt_get (ms_jobs st) job of
        None \<Rightarrow> (st, Inr False)
      | Some row \<Rightarrow>
          if job_current_generation row \<noteq> expect_generation then (st, Inr False)
          else (st\<lparr>ms_jobs := bt_modify job (\<lambda>r. r\<lparr>job_state := to_state\<rparr>) (ms_jobs st)\<rparr>, Inr True))"

text \<open>\<open>attempts.keys().find(..)\<close>: the first attempt of a generation in key order.\<close>

definition first_attempt_key :: "job_id \<Rightarrow> generation \<Rightarrow> memory_state \<Rightarrow> (string \<times> nat \<times> nat) option" where
  "first_attempt_key job generation st =
     find (\<lambda>(j, g, _). j = job \<and> g = generation) (bt_keys (ms_attempts st))"

definition modify_first_attempt :: "job_id \<Rightarrow> generation \<Rightarrow> (job_attempt \<Rightarrow> job_attempt) \<Rightarrow> memory_state \<Rightarrow> memory_state" where
  "modify_first_attempt job generation f st =
     (case first_attempt_key job generation st of
        None \<Rightarrow> st
      | Some akey \<Rightarrow> st\<lparr>ms_attempts := bt_modify akey f (ms_attempts st)\<rparr>)"

text \<open>The rows an accepted lease moves: the generation, the job root and the attempt.\<close>

definition lease_moves :: "worker_lease \<Rightarrow> memory_state \<Rightarrow> memory_state" where
  "lease_moves lease st =
     modify_first_attempt (wl_job_id lease) (wl_generation lease)
       (\<lambda>a. if ja_state a = Att_Pending
             then a\<lparr>ja_state := Att_Leased, ja_worker_id := Some (wl_worker_id lease),
                    ja_lease_id := Some (wl_lease_id lease)\<rparr>
             else a)
       (st\<lparr>ms_leases := bt_insert (wl_lease_id lease) lease (ms_leases st),
           ms_generations := bt_modify (wl_job_id lease, wl_generation lease)
             (\<lambda>r. if gr_state r = Gen_Assigned then r\<lparr>gr_state := Gen_Leased\<rparr> else r) (ms_generations st),
           ms_jobs := bt_modify (wl_job_id lease)
             (\<lambda>j. if job_current_generation j = wl_generation lease \<and> job_state j = Job_Assigned
                   then j\<lparr>job_state := Job_Leased\<rparr> else j) (ms_jobs st)\<rparr>)"

definition try_accept_lease :: "worker_lease \<Rightarrow> journal_entry list \<Rightarrow> worker_lease option store_op" where
  "try_accept_lease lease journal st =
     (case lease_for_generation (wl_job_id lease) (wl_generation lease) st of
        Some existing \<Rightarrow> (st, Inr (Some existing))
      | None \<Rightarrow> (fold push_journal journal (lease_moves lease st), Inr None))"

definition renew_lease :: "lease_id \<Rightarrow> generation \<Rightarrow> int \<Rightarrow> int \<Rightarrow> bool store_op" where
  "renew_lease lease expect_generation last_heartbeat_ms expires_at_ms st =
     (case bt_get (ms_leases st) lease of
        None \<Rightarrow> (st, Inr False)
      | Some row \<Rightarrow>
          if wl_state row \<noteq> Lease_Live \<or> wl_generation row \<noteq> expect_generation then (st, Inr False)
          else (st\<lparr>ms_leases := bt_modify lease
                     (\<lambda>l. l\<lparr>wl_expires_at_ms := (if wl_expires_at_ms l < expires_at_ms then expires_at_ms
                                                 else wl_expires_at_ms l),
                            wl_last_heartbeat_ms := max (wl_last_heartbeat_ms l) last_heartbeat_ms\<rparr>)
                     (ms_leases st)\<rparr>, Inr True))"

definition end_lease :: "lease_id \<Rightarrow> generation \<Rightarrow> lease_state \<Rightarrow> int \<Rightarrow> string \<Rightarrow> bool store_op" where
  "end_lease lease expect_generation state_to ended_ms reason st =
     (case bt_get (ms_leases st) lease of
        None \<Rightarrow> (st, Inr False)
      | Some row \<Rightarrow>
          if wl_state row \<noteq> Lease_Live \<or> wl_generation row \<noteq> expect_generation then (st, Inr False)
          else (st\<lparr>ms_leases := bt_modify lease
                     (\<lambda>l. l\<lparr>wl_state := state_to, wl_ended_ms := Some ended_ms, wl_reason := Some reason\<rparr>)
                     (ms_leases st)\<rparr>, Inr True))"

definition set_attempt_state ::
    "job_id \<Rightarrow> generation \<Rightarrow> nat \<Rightarrow> attempt_state \<Rightarrow> attempt_state \<Rightarrow> int option \<Rightarrow> worker_id option
       \<Rightarrow> lease_id option \<Rightarrow> string option \<Rightarrow> bool store_op" where
  "set_attempt_state job generation attempt expect to_state ended_ms worker lease reason st =
     (case bt_get (ms_attempts st) (job, generation, attempt) of
        None \<Rightarrow> (st, Inr False)
      | Some row \<Rightarrow>
          if ja_state row \<noteq> expect then (st, Inr False)
          else (st\<lparr>ms_attempts := bt_modify (job, generation, attempt)
                     (\<lambda>a. a\<lparr>ja_state := to_state, ja_ended_ms := replace_if_some ended_ms (ja_ended_ms a),
                            ja_worker_id := replace_if_some worker (ja_worker_id a),
                            ja_lease_id := replace_if_some lease (ja_lease_id a),
                            ja_reason := replace_if_some reason (ja_reason a)\<rparr>) (ms_attempts st)\<rparr>, Inr True))"

datatype result_append = Append_Landed | Append_Duplicate

text \<open>The checks of a landing, and the rows it completes.\<close>

definition landing_check :: "job_result \<Rightarrow> memory_state \<Rightarrow> worker_error + unit" where
  "landing_check r st =
     bind_result (ok_or (We_UnknownJob (res_job_id r)) (bt_get (ms_jobs st) (res_job_id r))) (\<lambda>job.
     and_then (refuse_if (job_current_generation job \<noteq> res_generation r)
                (We_SupersededLease (res_job_id r) (res_generation r) (job_current_generation job)))
     (bind_result (ok_or (We_UnknownLease (res_lease_id r) (res_worker_id r)) (bt_get (ms_leases st) (res_lease_id r))) (\<lambda>lease.
      and_then (refuse_if (wl_worker_id lease \<noteq> res_worker_id r \<or> wl_generation lease \<noteq> res_generation r)
                 (We_UnknownLease (res_lease_id r) (res_worker_id r)))
      (refuse_if (wl_state lease \<noteq> Lease_Live)
         (We_LeaseNotLive (res_lease_id r) (lease_state_as_str (wl_state lease)))))))"

definition landing_moves :: "job_result \<Rightarrow> memory_state \<Rightarrow> memory_state" where
  "landing_moves r st =
     modify_first_attempt (res_job_id r) (res_generation r)
       (\<lambda>a. if attempt_is_terminal (ja_state a) then a
             else a\<lparr>ja_state := Att_Completed, ja_ended_ms := Some (res_accepted_ms r)\<rparr>)
       (st\<lparr>ms_results := bt_insert (res_job_id r, res_generation r) r (ms_results st),
           ms_leases := bt_modify (res_lease_id r)
             (\<lambda>l. l\<lparr>wl_state := Lease_Completed, wl_ended_ms := Some (res_accepted_ms r)\<rparr>) (ms_leases st),
           ms_generations := bt_modify (res_job_id r, res_generation r)
             (\<lambda>g. if generation_is_terminal (gr_state g) then g
                   else g\<lparr>gr_state := Gen_Completed, gr_ended_ms := Some (res_accepted_ms r)\<rparr>) (ms_generations st),
           ms_jobs := bt_modify (res_job_id r) (\<lambda>j. j\<lparr>job_state := Job_Completed\<rparr>) (ms_jobs st)\<rparr>)"

definition land_result :: "job_result \<Rightarrow> result_append store_op" where
  "land_result r st =
     (case bt_get (ms_results st) (res_job_id r, res_generation r) of
        Some existing \<Rightarrow>
          (st, if res_digest existing = res_digest r \<and> res_worker_id existing = res_worker_id r
                  \<and> res_lease_id existing = res_lease_id r
               then Inr Append_Duplicate
               else Inl (We_ResultConflict (res_job_id r) (res_generation r)))
      | None \<Rightarrow>
          (case landing_check r st of
             Inl e \<Rightarrow> (st, Inl e)
           | Inr _ \<Rightarrow> (landing_moves r st, Inr Append_Landed)))"

end
