(* ===== verification/Worker_Plane.thy ===== *)
theory Worker_Plane
  imports Worker_Store
begin

text \<open>
  The worker-plane service (\<open>crates/worker/src/service.rs\<close>) over the in-memory store. An operation is
  a sequence of store calls. The clock reading of an operation, the minted identifiers, the hash of a
  token and the entitlement gate are parameters. A crash is part of the model: \<open>pl_writes_left\<close> is the
  number of store writes the process survives, so that running an operation with every such number
  gives the store at every boundary between two of its writes.
\<close>

section \<open>State, parameters and store calls\<close>

record plane =
  pl_store :: memory_state
  pl_minted :: nat
  pl_writes_left :: "nat option"

record plane_env =
  env_mint :: "string \<Rightarrow> nat \<Rightarrow> string"
  env_hash :: "string \<Rightarrow> string"
  env_gate :: "value_gate option"

datatype plane_fault = Refused worker_error | Crashed

type_synonym 'a plane_op = "(plane, plane_fault, 'a) action"

definition query :: "(memory_state \<Rightarrow> 'a) \<Rightarrow> 'a plane_op" where
  "query f = observe (\<lambda>s. f (pl_store s))"

lemma query_run [simp]: "bind_act (query f) g s = g (f (pl_store s)) s"
  by (simp add: query_def)

definition commit :: "'a store_op \<Rightarrow> 'a plane_op" where
  "commit op s =
     (if pl_writes_left s = Some 0 then (s, Inl Crashed)
      else case op (pl_store s) of (st, r) \<Rightarrow>
        (s\<lparr>pl_store := st, pl_writes_left := map_option (\<lambda>n. n - 1) (pl_writes_left s)\<rparr>, map_err Refused r))"

definition checked :: "worker_error + 'a \<Rightarrow> 'a plane_op" where
  "checked r = require (map_err Refused r)"

definition deny :: "worker_error \<Rightarrow> 'a plane_op" where
  "deny e = refuse (Refused e)"

definition deny_if :: "bool \<Rightarrow> worker_error \<Rightarrow> unit plane_op" where
  "deny_if c e = reject_if c (Refused e)"

definition found_or :: "worker_error \<Rightarrow> 'a option \<Rightarrow> 'a plane_op" where
  "found_or e x = some_or (Refused e) x"

text \<open>\<open>ids::mint\<close>: the next identifier of the supply, validated by \<open>try_new\<close>.\<close>

definition mint_id :: "plane_env \<Rightarrow> string \<Rightarrow> string plane_op" where
  "mint_id env kind s =
     (s\<lparr>pl_minted := pl_minted s + 1\<rparr>, map_err Refused (id_try_new (env_mint env kind (pl_minted s))))"

definition MAX_WORKER_PAGE :: nat where "MAX_WORKER_PAGE = 200"
definition MAX_JOURNAL_PAGE :: nat where "MAX_JOURNAL_PAGE = 500"
definition MAX_CLAIM_SCAN_JOBS :: nat where "MAX_CLAIM_SCAN_JOBS = 512"

lemmas page_bounds [faktor_defs] = MAX_WORKER_PAGE_def MAX_JOURNAL_PAGE_def MAX_CLAIM_SCAN_JOBS_def

definition plane_journal ::
    "string \<Rightarrow> string \<Rightarrow> int \<Rightarrow> worker_id option \<Rightarrow> job_id option \<Rightarrow> generation option \<Rightarrow> string \<Rightarrow> unit plane_op" where
  "plane_journal organization kind at_ms worker job generation detail =
     bind_act (checked (journal_entry_new organization kind at_ms detail)) (\<lambda>entry.
     let entry = (case job of
                    Some j \<Rightarrow> with_job j (case generation of Some g \<Rightarrow> g | None \<Rightarrow> FIRST) entry
                  | None \<Rightarrow> entry);
         entry = (case worker of Some w \<Rightarrow> with_worker w entry | None \<Rightarrow> entry)
     in commit (append_journal entry))"

definition check_protocol :: "nat \<Rightarrow> worker_error + unit" where
  "check_protocol presented =
     refuse_if (presented \<noteq> WORKER_PROTOCOL_VERSION) (We_ProtocolSkew WORKER_PROTOCOL_VERSION presented)"

definition validate_digest :: "string \<Rightarrow> worker_error + unit" where
  "validate_digest digest =
     refuse_if (length digest \<noteq> RESULT_DIGEST_BYTES \<or> \<not> list_all is_ascii_hexdigit digest) We_Malformed"

definition admit_claim :: "plane_env \<Rightarrow> worker_error + unit" where
  "admit_claim env =
     (case env_gate env of
        None \<Rightarrow> Inr ()
      | Some gate \<Rightarrow> map_err We_EntitlementRefused (gate_check gate PrivateRunners))"

section \<open>Registration\<close>

record issued_worker_token =
  iw_token :: string
  iw_token_hash :: string
  iw_organization_id :: string
  iw_trust_domain :: string
  iw_label :: string

text \<open>\<open>token\<close> is the secret the random generator produced.\<close>

definition mint_registration_token ::
    "plane_env \<Rightarrow> int \<Rightarrow> string \<Rightarrow> string \<Rightarrow> string \<Rightarrow> string \<Rightarrow> issued_worker_token plane_op" where
  "mint_registration_token env now token organization trust_domain label =
     seq_act (deny_if (label = [] \<or> MAX_WORKER_NAME_BYTES < length label) We_Malformed)
     (let trust_domain = map to_ascii_lowercase (trim trust_domain) in
      seq_act (deny_if (trust_domain = [] \<or> MAX_CAPABILITY_BYTES < length trust_domain) We_Malformed)
      (let hash = env_hash env token in
       seq_act (commit (put_token
           \<lparr>tok_token_hash = hash, tok_organization_id = organization, tok_trust_domain = trust_domain,
            tok_label = label, tok_created_ms = now, tok_revoked = False, tok_consumed_by = None\<rparr>))
       (return \<lparr>iw_token = token, iw_token_hash = hash, iw_organization_id = organization,
                iw_trust_domain = trust_domain, iw_label = label\<rparr>)))"

definition token_organization :: "plane_env \<Rightarrow> string \<Rightarrow> (string \<times> string) plane_op" where
  "token_organization env token =
     bind_act (query (store_token (env_hash env token))) (\<lambda>found.
     bind_act (found_or We_UnknownToken found) (\<lambda>row.
     seq_act (deny_if (tok_revoked row) We_TokenRevoked)
     (bind_act (checked (id_try_new (tok_organization_id row))) (\<lambda>organization.
      return (organization, tok_trust_domain row)))))"

definition worker_for_token :: "plane_env \<Rightarrow> string \<Rightarrow> worker_id plane_op" where
  "worker_for_token env token =
     bind_act (query (store_token (env_hash env token))) (\<lambda>found.
     bind_act (found_or We_UnknownToken found) (\<lambda>row.
     seq_act (deny_if (tok_revoked row) We_TokenRevoked)
     (bind_act (found_or (We_UnknownWorker ''unregistered'') (tok_consumed_by row)) (\<lambda>consumer.
      checked (id_try_new consumer)))))"

definition worker_organization :: "worker_id \<Rightarrow> string plane_op" where
  "worker_organization wid =
     bind_act (query (store_worker wid)) (\<lambda>found.
     bind_act (found_or (We_UnknownWorker wid) found) (\<lambda>worker.
     checked (id_try_new (wr_organization_id worker))))"

definition revoke_token :: "string \<Rightarrow> string \<Rightarrow> unit plane_op" where
  "revoke_token organization token_hash =
     bind_act (query (store_token token_hash)) (\<lambda>found.
     bind_act (found_or We_UnknownToken found) (\<lambda>row.
     seq_act (deny_if (tok_organization_id row \<noteq> organization) We_UnknownToken)
     (if tok_revoked row then return ()
      else commit (put_token (row\<lparr>tok_revoked := True\<rparr>)))))"

record registration_outcome =
  ro_worker :: worker_view
  ro_capabilities_reconciled :: bool

definition bool_text :: "bool \<Rightarrow> string" where
  "bool_text b = (if b then ''true'' else ''false'')"

definition capabilities_version_for :: "worker_registration option \<Rightarrow> worker_capabilities \<Rightarrow> nat \<times> bool" where
  "capabilities_version_for existing capabilities =
     (case existing of
        Some prior \<Rightarrow>
          if wr_capabilities prior = capabilities then (wr_capabilities_version prior, False)
          else (sat_u64 (wr_capabilities_version prior + 1), True)
      | None \<Rightarrow> (1, False))"

definition register ::
    "plane_env \<Rightarrow> int \<Rightarrow> string \<Rightarrow> worker_id \<Rightarrow> string \<Rightarrow> worker_capabilities \<Rightarrow> string \<Rightarrow> registration_outcome plane_op" where
  "register env now organization wid token advertised display_name =
     bind_act (checked (capabilities_normalize advertised)) (\<lambda>capabilities.
     seq_act (deny_if (display_name = [] \<or> MAX_WORKER_NAME_BYTES < length display_name) We_Malformed)
     (let hash = env_hash env token in
      bind_act (query (store_token hash)) (\<lambda>found.
      bind_act (found_or We_UnknownToken found) (\<lambda>token_row.
      seq_act (deny_if (tok_revoked token_row) We_TokenRevoked)
      (seq_act (deny_if (tok_organization_id token_row \<noteq> organization)
                 (We_TokenOrgMismatch (tok_organization_id token_row) organization))
      (seq_act (deny_if (wc_trust_domain capabilities \<noteq> tok_trust_domain token_row)
                 (We_ForeignTrustDomain (wc_trust_domain capabilities) (tok_trust_domain token_row)))
      (seq_act (case tok_consumed_by token_row of
                  Some consumer \<Rightarrow> deny_if (consumer \<noteq> wid) (We_TokenAlreadyUsed consumer)
                | None \<Rightarrow> return ())
      (bind_act (query (store_worker wid)) (\<lambda>existing.
       seq_act (case existing of
                  Some w \<Rightarrow>
                    if wr_revoked w then deny (We_WorkerRevoked wid)
                    else deny_if (wr_token_hash w \<noteq> hash) (We_WorkerAlreadyBound wid (wr_token_hash w))
                | None \<Rightarrow> return ())
       (let (capabilities_version, reconciled) = capabilities_version_for existing capabilities;
            registration =
              \<lparr>wr_worker_id = wid, wr_organization_id = organization,
               wr_trust_domain = tok_trust_domain token_row, wr_display_name = display_name,
               wr_token_hash = hash, wr_revoked = False, wr_capabilities = capabilities,
               wr_capabilities_version = capabilities_version,
               wr_registered_ms = (case existing of Some p \<Rightarrow> wr_registered_ms p | None \<Rightarrow> now),
               wr_last_seen_ms = now, wr_revoked_ms = None\<rparr>;
            kind = (if existing \<noteq> None
                    then (if reconciled then ''capabilities_reconciled'' else ''registration_refreshed'')
                    else ''worker_registered'')
        in bind_act (checked (journal_entry_new organization kind now
                ((''capabilities_version='' @ dec_text capabilities_version) @ '' reconciled='' @ bool_text reconciled))) (\<lambda>entry.
           seq_act (commit (register_worker_with_token registration
                       (token_row\<lparr>tok_consumed_by := Some wid\<rparr>) (with_worker wid entry)))
           (return \<lparr>ro_worker = worker_view_from registration, ro_capabilities_reconciled = reconciled\<rparr>))))))))))))"

definition list_workers :: "string \<Rightarrow> string option \<Rightarrow> nat \<Rightarrow> worker_page plane_op" where
  "list_workers organization after limit0 =
     (let limit = max 1 (min MAX_WORKER_PAGE limit0) in
      bind_act (query (store_workers organization after (limit + 1))) (\<lambda>rows.
      return (if limit < length rows
              then \<lparr>wp_items = map worker_view_from (butlast rows),
                    wp_next_cursor = (if butlast rows = [] then None else Some (wr_worker_id (last (butlast rows))))\<rparr>
              else \<lparr>wp_items = map worker_view_from rows, wp_next_cursor = None\<rparr>)))"

text \<open>A worker proves itself with its registration token.\<close>

definition authenticate :: "plane_env \<Rightarrow> worker_id \<Rightarrow> string \<Rightarrow> worker_registration plane_op" where
  "authenticate env wid token =
     bind_act (query (store_worker wid)) (\<lambda>found.
     bind_act (found_or (We_UnknownWorker wid) found) (\<lambda>worker.
     seq_act (deny_if (wr_revoked worker) (We_WorkerRevoked wid))
     (let hash = env_hash env token in
      seq_act (deny_if (wr_token_hash worker \<noteq> hash) We_UnknownToken)
      (bind_act (query (store_token hash)) (\<lambda>token_row.
       case token_row of
         None \<Rightarrow> deny We_UnknownToken
       | Some row \<Rightarrow>
           if tok_revoked row then deny We_TokenRevoked
           else (case tok_consumed_by row of
                   Some consumer \<Rightarrow> if consumer \<noteq> wid then deny (We_TokenAlreadyUsed consumer) else return worker
                 | None \<Rightarrow> deny (We_TokenNotConsumed wid)))))))"

definition authenticate_in :: "plane_env \<Rightarrow> string \<Rightarrow> worker_id \<Rightarrow> string \<Rightarrow> worker_registration plane_op" where
  "authenticate_in env organization wid token =
     bind_act (authenticate env wid token) (\<lambda>worker.
     seq_act (deny_if (wr_organization_id worker \<noteq> organization) (We_UnknownWorker wid))
     (return worker))"

definition require_job :: "string \<Rightarrow> job_id \<Rightarrow> execution_job plane_op" where
  "require_job organization jid =
     bind_act (query (store_job jid)) (\<lambda>found.
     bind_act (found_or (We_UnknownJob jid) found) (\<lambda>job.
     seq_act (deny_if (job_organization_id job \<noteq> organization) (We_UnknownJob jid))
     (return job)))"

section \<open>Eligible workers\<close>

definition eligible :: "string \<Rightarrow> job_requirements \<Rightarrow> memory_state \<Rightarrow> worker_registration \<Rightarrow> bool" where
  "eligible trust_domain requirements st worker \<longleftrightarrow>
     \<not> wr_revoked worker \<and> wr_trust_domain worker = trust_domain \<and>
     is_ok (satisfies (wr_capabilities worker) requirements) \<and>
     length (live_leases_of_worker (wr_worker_id worker) st) < MAX_LIVE_LEASES_PER_WORKER"

definition workers_after :: "string \<Rightarrow> string option \<Rightarrow> memory_state \<Rightarrow> worker_registration list" where
  "workers_after organization after st =
     filter (\<lambda>w. case after of None \<Rightarrow> True | Some a \<Rightarrow> a < wr_worker_id w)
       (filter (\<lambda>w. wr_organization_id w = organization) (bt_values (ms_workers st)))"

lemma workers_after_shrinks:
  assumes "store_workers organization after limit st = page" and "page \<noteq> []"
  shows "length (workers_after organization (Some (wr_worker_id (last page))) st)
           < length (workers_after organization after st)"
proof -
  let ?all = "filter (\<lambda>w. wr_organization_id w = organization) (bt_values (ms_workers st))"
  let ?later = "\<lambda>a w. case a of None \<Rightarrow> True | Some x \<Rightarrow> x < wr_worker_id w"
  have page: "page = take limit (filter (?later after) ?all)"
    using assms(1) by (simp add: store_workers_def)
  then have last: "last page \<in> set (filter (?later after) ?all)"
    using assms(2) by (metis in_set_takeD last_in_set)
  have "filter (?later (Some (wr_worker_id (last page)))) ?all
          = filter (?later (Some (wr_worker_id (last page)))) (filter (?later after) ?all)"
    using last by (auto intro!: filter_cong [OF refl] split: option.splits)
  also have "length \<dots> < length (filter (?later after) ?all)"
    using last by (intro length_filter_less) auto
  finally show ?thesis by (simp add: workers_after_def)
qed

function find_eligible_from ::
    "string \<Rightarrow> string \<Rightarrow> job_requirements \<Rightarrow> memory_state \<Rightarrow> string option \<Rightarrow> worker_registration option" where
  "find_eligible_from organization trust_domain requirements st after =
     (let page = store_workers organization after MAX_WORKER_PAGE st in
      if page = [] then None
      else case find (eligible trust_domain requirements st) page of
        Some worker \<Rightarrow> Some worker
      | None \<Rightarrow>
          if length page < MAX_WORKER_PAGE then None
          else find_eligible_from organization trust_domain requirements st (Some (wr_worker_id (last page))))"
  by pat_completeness auto

termination
  by (relation "measure (\<lambda>(organization, _, _, st, after). length (workers_after organization after st))")
    (auto intro: workers_after_shrinks)

declare find_eligible_from.simps [simp del]

definition find_eligible :: "string \<Rightarrow> string \<Rightarrow> job_requirements \<Rightarrow> worker_registration option plane_op" where
  "find_eligible organization trust_domain requirements =
     query (\<lambda>st. find_eligible_from organization trust_domain requirements st None)"

definition require_eligible :: "worker_id \<Rightarrow> string \<Rightarrow> string \<Rightarrow> job_requirements \<Rightarrow> worker_registration plane_op" where
  "require_eligible wid organization trust_domain requirements =
     bind_act (query (store_worker wid)) (\<lambda>found.
     bind_act (found_or (We_UnknownWorker wid) found) (\<lambda>worker.
     seq_act (deny_if (wr_organization_id worker \<noteq> organization) (We_UnknownWorker wid))
     (seq_act (deny_if (wr_revoked worker) (We_WorkerRevoked wid))
     (seq_act (deny_if (wr_trust_domain worker \<noteq> trust_domain)
                (We_ForeignTrustDomain trust_domain (wr_trust_domain worker)))
     (seq_act (deny_if (\<not> is_ok (satisfies (wr_capabilities worker) requirements))
                (We_CapabilityMismatch wid ''(scheduled)''))
     (return worker))))))"

section \<open>Accepting a lease\<close>

definition lease_taken :: "string \<Rightarrow> int \<Rightarrow> worker_id \<Rightarrow> job_id \<Rightarrow> generation \<Rightarrow> worker_lease \<Rightarrow> 'a plane_op" where
  "lease_taken organization now wid jid generation existing =
     seq_act (plane_journal organization ''lease_accept_lost'' now (Some wid) (Some jid) (Some generation)
       ((''lease '' @ wl_lease_id existing) @ '' already held by '' @ wl_worker_id existing))
     (deny (We_LeaseAlreadyTaken jid generation (wl_worker_id existing) (wl_lease_id existing)))"

definition accept_entries ::
    "string \<Rightarrow> int \<Rightarrow> worker_id \<Rightarrow> job_id \<Rightarrow> generation \<Rightarrow> lease_id \<Rightarrow> string option \<Rightarrow> worker_error + journal_entry list" where
  "accept_entries organization now wid jid generation lid claimed_via =
     bind_result (journal_entry_new organization ''lease_accepted'' now
         ((''lease='' @ lid) @ '' interval_ms='' @ dec_text (nat (clamp_heartbeat_interval HEARTBEAT_DEFAULT_INTERVAL_MS)))) (\<lambda>accepted.
     let accepted = with_job jid generation (with_worker wid accepted) in
     case claimed_via of
       None \<Rightarrow> Inr [accepted]
     | Some via \<Rightarrow>
         bind_result (journal_entry_new organization ''job_claimed'' now ((''lease='' @ lid) @ '' claimed via '' @ via)) (\<lambda>claimed.
         Inr [accepted, with_job jid generation (with_worker wid claimed)]))"

lemma interval_text: "dec_text (nat (clamp_heartbeat_interval HEARTBEAT_DEFAULT_INTERVAL_MS)) = ''15000''"
proof -
  have "digit_char 1 = CHR ''1''" "digit_char 5 = CHR ''5''" "digit_char 0 = CHR ''0''" by code_simp+
  then show ?thesis by (simp add: dec_text.simps clamp_heartbeat_interval_def worker_bounds)
qed

lemmas accept_entries_code [code] = accept_entries_def [unfolded interval_text]

definition new_lease :: "string \<Rightarrow> int \<Rightarrow> worker_id \<Rightarrow> job_id \<Rightarrow> generation \<Rightarrow> lease_id \<Rightarrow> worker_lease" where
  "new_lease organization now wid jid generation lid =
     (let interval = clamp_heartbeat_interval HEARTBEAT_DEFAULT_INTERVAL_MS in
      \<lparr>wl_lease_id = lid, wl_organization_id = organization, wl_job_id = jid, wl_generation = generation,
       wl_worker_id = wid, wl_state = Lease_Live, wl_heartbeat_interval_ms = interval, wl_accepted_ms = now,
       wl_last_heartbeat_ms = now, wl_expires_at_ms = sat_i64 (now + interval), wl_ended_ms = None,
       wl_reason = None\<rparr>)"

definition accept_lease_inner ::
    "plane_env \<Rightarrow> worker_registration \<Rightarrow> string \<Rightarrow> execution_job \<Rightarrow> generation \<Rightarrow> int \<Rightarrow> string option \<Rightarrow> worker_lease plane_op" where
  "accept_lease_inner env worker organization job generation now claimed_via =
     (let wid = wr_worker_id worker; jid = job_job_id job in
      seq_act (deny_if (wr_organization_id worker \<noteq> job_organization_id job \<or> wr_trust_domain worker \<noteq> job_trust_domain job)
                (We_ForeignTrustDomain (job_trust_domain job) (wr_trust_domain worker)))
      (seq_act (case job_assigned_worker job of
                  Some assigned \<Rightarrow> deny_if (assigned \<noteq> wid) (We_NotAssignedToWorker jid generation wid assigned)
                | None \<Rightarrow> return ())
      (seq_act (if generation \<noteq> job_current_generation job
                then seq_act (plane_journal organization ''stale_lease_rejected'' now (Some wid) (Some jid) (Some generation)
                                (''current generation is '' @ dec_text (job_current_generation job)))
                       (deny (We_SupersededLease jid generation (job_current_generation job)))
                else return ())
      (seq_act (deny_if (job_is_terminal (job_state job)) (We_JobTerminal jid (job_state_as_str (job_state job))))
      (bind_act (query (store_generation jid generation)) (\<lambda>found.
       bind_act (found_or (We_UnknownGeneration jid generation) found) (\<lambda>generation_row.
       bind_act (query (lease_for_generation jid generation)) (\<lambda>taken.
       seq_act (case taken of
                  Some existing \<Rightarrow> lease_taken organization now wid jid generation existing
                | None \<Rightarrow> return ())
       (seq_act (deny_if (gr_state generation_row \<noteq> Gen_Assigned)
                  (We_NotLeasable jid generation (generation_state_as_str (gr_state generation_row))))
       (seq_act (deny_if (\<not> is_ok (satisfies (wr_capabilities worker) (job_requirements job)))
                  (We_CapabilityMismatch wid jid))
       (bind_act (query (live_leases_of_worker wid)) (\<lambda>live.
        seq_act (deny_if (MAX_LIVE_LEASES_PER_WORKER \<le> length live) (We_WorkerSaturated wid MAX_LIVE_LEASES_PER_WORKER))
        (bind_act (mint_id env ''lease'') (\<lambda>lid.
         let lease = new_lease organization now wid jid generation lid in
         bind_act (checked (accept_entries organization now wid jid generation lid claimed_via)) (\<lambda>entries.
         bind_act (commit (try_accept_lease lease entries)) (\<lambda>lost.
         case lost of
           Some existing \<Rightarrow> lease_taken organization now wid jid generation existing
         | None \<Rightarrow> return lease))))))))))))))))"

definition accept_lease ::
    "plane_env \<Rightarrow> int \<Rightarrow> string \<Rightarrow> worker_id \<Rightarrow> string \<Rightarrow> nat \<Rightarrow> job_id \<Rightarrow> generation \<Rightarrow> worker_lease plane_op" where
  "accept_lease env now organization wid token protocol_version jid generation =
     seq_act (checked (check_protocol protocol_version))
     (bind_act (authenticate_in env organization wid token) (\<lambda>worker.
      bind_act (require_job organization jid) (\<lambda>job.
      accept_lease_inner env worker organization job generation now None)))"

section \<open>The end of a lease\<close>

record recovery_report =
  rp_resumed :: "string list"
  rp_reassigned :: "string list"
  rp_expired :: "string list"
  rp_requeued :: "(string \<times> nat) list"
  rp_exhausted :: "string list"

definition empty_report :: recovery_report where
  "empty_report = \<lparr>rp_resumed = [], rp_reassigned = [], rp_expired = [], rp_requeued = [], rp_exhausted = []\<rparr>"

definition report_is_empty :: "recovery_report \<Rightarrow> bool" where
  "report_is_empty r \<longleftrightarrow>
     rp_resumed r = [] \<and> rp_reassigned r = [] \<and> rp_expired r = [] \<and> rp_requeued r = [] \<and> rp_exhausted r = []"

definition attempt_number_for :: "job_id \<Rightarrow> generation \<Rightarrow> memory_state \<Rightarrow> nat" where
  "attempt_number_for jid generation st =
     (case find (\<lambda>a. ja_generation a = generation) (store_attempts jid st) of
        Some a \<Rightarrow> ja_attempt a
      | None \<Rightarrow> 1)"

text \<open>The worker a requeued or unassigned generation goes to, and the attempt to give it the lease.\<close>

definition tolerated :: "plane_fault \<Rightarrow> bool" where
  "tolerated f = (case f of Refused e \<Rightarrow> is_recovery_domain_refusal e | Crashed \<Rightarrow> False)"

definition placement_target :: "string \<Rightarrow> execution_job \<Rightarrow> worker_registration option plane_op" where
  "placement_target organization job =
     (case job_assigned_worker job of
        Some wid \<Rightarrow>
          handle (require_eligible wid organization (job_trust_domain job) (job_requirements job)) (\<lambda>r.
            case r of
              Inr worker \<Rightarrow> return (Some worker)
            | Inl f \<Rightarrow> if tolerated f then return None else refuse f)
      | None \<Rightarrow> find_eligible organization (job_trust_domain job) (job_requirements job))"

definition place :: "plane_env \<Rightarrow> string \<Rightarrow> execution_job \<Rightarrow> int \<Rightarrow> worker_registration option \<Rightarrow> bool plane_op" where
  "place env organization job now target =
     (case target of
        None \<Rightarrow> return False
      | Some worker \<Rightarrow>
          handle (accept_lease_inner env worker organization job (job_current_generation job) now None) (\<lambda>r.
            case r of
              Inr _ \<Rightarrow> return True
            | Inl f \<Rightarrow> if tolerated f then return False else refuse f))"

definition requeue_rows ::
    "execution_job \<Rightarrow> generation \<Rightarrow> nat \<Rightarrow> int \<Rightarrow> string \<Rightarrow> execution_job \<times> job_generation_row \<times> job_attempt" where
  "requeue_rows job next_generation attempts now reason =
     (job\<lparr>job_current_generation := next_generation, job_state := Job_Assigned\<rparr>,
      \<lparr>gr_job_id = job_job_id job, gr_organization_id = job_organization_id job, gr_generation = next_generation,
       gr_state = Gen_Assigned, gr_created_ms = now, gr_ended_ms = None,
       gr_reason = Some (''requeued after '' @ reason)\<rparr>,
      \<lparr>ja_job_id = job_job_id job, ja_generation = next_generation, ja_attempt = sat_u32 (attempts + 1),
       ja_worker_id = None, ja_lease_id = None, ja_state = Att_Pending, ja_started_ms = now, ja_ended_ms = None,
       ja_reason = Some (''requeued after '' @ reason)\<rparr>)"

text \<open>The last part of a lost lease: a new generation under the bounded policy, or a failed job.\<close>

definition requeue_or_fail ::
    "plane_env \<Rightarrow> worker_lease \<Rightarrow> string \<Rightarrow> int \<Rightarrow> recovery_report \<Rightarrow> execution_job \<Rightarrow> recovery_report plane_op" where
  "requeue_or_fail env lease reason now report job =
     (let jid = job_job_id job in
      bind_act (query (max_attempt_number jid)) (\<lambda>attempts.
      if rq_max_attempts (job_requeue job) \<le> attempts then
        bind_act (commit (set_job_state jid (wl_generation lease) Job_Failed)) (\<lambda>_.
        seq_act (plane_journal (job_organization_id job) ''attempts_exhausted'' now (Some (wl_worker_id lease)) (Some jid)
                   (Some (wl_generation lease))
                   ((''attempts='' @ dec_text attempts) @ '' policy='' @ dec_text (rq_max_attempts (job_requeue job))))
        (return (report\<lparr>rp_exhausted := rp_exhausted report @ [jid]\<rparr>)))
      else (case generation_next (job_current_generation job) of
        Inl _ \<Rightarrow>
          bind_act (commit (set_job_state jid (wl_generation lease) Job_Failed)) (\<lambda>_.
          return (report\<lparr>rp_exhausted := rp_exhausted report @ [jid]\<rparr>))
      | Inr next_generation \<Rightarrow>
          (let (job_row, generation_row, attempt_row) = requeue_rows job next_generation attempts now reason in
           bind_act (commit (insert_generation_and_attempt job_row generation_row attempt_row)) (\<lambda>inserted.
           if \<not> inserted then return report
           else
             seq_act (plane_journal (job_organization_id job) ''job_requeued'' now (Some (wl_worker_id lease)) (Some jid)
                        (Some next_generation)
                        ((''previous generation '' @ dec_text (wl_generation lease)) @ '' lost: '' @ reason))
             (bind_act (checked (id_try_new (job_organization_id job))) (\<lambda>organization.
              bind_act (placement_target organization job) (\<lambda>target.
              bind_act (place env organization job_row now target) (\<lambda>_.
              return (report\<lparr>rp_requeued := rp_requeued report @ [(jid, next_generation)]\<rparr>))))))))))"

definition finish_lost_lease ::
    "plane_env \<Rightarrow> worker_lease \<Rightarrow> string \<Rightarrow> int \<Rightarrow> recovery_report \<Rightarrow> recovery_report plane_op" where
  "finish_lost_lease env lease reason now report =
     (let jid = wl_job_id lease; generation = wl_generation lease in
      bind_act (commit (set_generation_state jid generation Gen_Leased Gen_Lost (Some now) (Some reason))) (\<lambda>_.
      bind_act (query (attempt_number_for jid generation)) (\<lambda>attempt.
      bind_act (commit (set_attempt_state jid generation attempt Att_Leased Att_Lost (Some now)
                          (Some (wl_worker_id lease)) (Some (wl_lease_id lease)) (Some reason))) (\<lambda>_.
      seq_act (plane_journal (wl_organization_id lease) ''lease_expired'' now (Some (wl_worker_id lease)) (Some jid)
                 (Some generation) ((''lease='' @ wl_lease_id lease) @ '' reason='' @ reason))
      (bind_act (query (store_job jid)) (\<lambda>found.
       case found of
         None \<Rightarrow> return report
       | Some job \<Rightarrow>
           if job_current_generation job \<noteq> generation \<or> job_is_terminal (job_state job) then return report
           else requeue_or_fail env lease reason now report job)))))) "

definition end_lease_and_requeue ::
    "plane_env \<Rightarrow> worker_lease \<Rightarrow> lease_state \<Rightarrow> string \<Rightarrow> int \<Rightarrow> recovery_report \<Rightarrow> recovery_report plane_op" where
  "end_lease_and_requeue env lease state_to reason now report =
     bind_act (commit (end_lease (wl_lease_id lease) (wl_generation lease) state_to now reason)) (\<lambda>ended.
     if \<not> ended then return report
     else finish_lost_lease env lease reason now (report\<lparr>rp_expired := rp_expired report @ [wl_lease_id lease]\<rparr>))"

definition revoke_worker :: "plane_env \<Rightarrow> int \<Rightarrow> string \<Rightarrow> worker_id \<Rightarrow> recovery_report plane_op" where
  "revoke_worker env now organization wid =
     bind_act (query (store_worker wid)) (\<lambda>found.
     bind_act (found_or (We_UnknownWorker wid) found) (\<lambda>row.
     seq_act (deny_if (wr_organization_id row \<noteq> organization) (We_UnknownWorker wid))
     (seq_act (deny_if (wr_revoked row) (We_AlreadyRevoked wid))
     (let worker = row\<lparr>wr_revoked := True, wr_revoked_ms := Some now, wr_last_seen_ms := now\<rparr> in
      seq_act (commit (put_worker worker))
      (bind_act (query (store_token (wr_token_hash worker))) (\<lambda>token.
       seq_act (case token of
                  Some t \<Rightarrow> commit (put_token (t\<lparr>tok_revoked := True\<rparr>))
                | None \<Rightarrow> return ())
       (bind_act (query (live_leases_of_worker wid)) (\<lambda>leases.
        bind_act (fold_act (\<lambda>report lease. end_lease_and_requeue env lease Lease_Revoked ''worker revoked'' now report)
                    empty_report leases) (\<lambda>report.
        seq_act (plane_journal organization ''worker_revoked'' now (Some wid) None None
                   ''registration and token revoked; live leases ended'')
        (return report))))))))))"

section \<open>Scheduling\<close>

record scheduled_job =
  sj_job :: execution_job
  sj_generation :: generation
  sj_lease :: "worker_lease option"
  sj_replay :: bool

definition first_rows ::
    "job_id \<Rightarrow> string \<Rightarrow> string \<Rightarrow> job_key \<Rightarrow> job_requirements \<Rightarrow> string \<Rightarrow> requeue_policy \<Rightarrow> worker_id option \<Rightarrow> int
       \<Rightarrow> execution_job \<times> job_generation_row \<times> job_attempt" where
  "first_rows jid organization trust_domain key requirements payload_digest requeue assigned now =
     (\<lparr>job_job_id = jid, job_organization_id = organization, job_trust_domain = trust_domain, job_job_key = key,
       job_requirements = requirements, job_payload_digest = payload_digest, job_requeue = requeue,
       job_assigned_worker = assigned, job_created_ms = now, job_current_generation = FIRST,
       job_state = Job_Assigned\<rparr>,
      \<lparr>gr_job_id = jid, gr_organization_id = organization, gr_generation = FIRST, gr_state = Gen_Assigned,
       gr_created_ms = now, gr_ended_ms = None, gr_reason = None\<rparr>,
      \<lparr>ja_job_id = jid, ja_generation = FIRST, ja_attempt = 1, ja_worker_id = None, ja_lease_id = None,
       ja_state = Att_Pending, ja_started_ms = now, ja_ended_ms = None, ja_reason = None\<rparr>)"

definition schedule_job ::
    "plane_env \<Rightarrow> int \<Rightarrow> string \<Rightarrow> string \<Rightarrow> job_key \<Rightarrow> job_requirements \<Rightarrow> string \<Rightarrow> requeue_policy \<Rightarrow> worker_id option
       \<Rightarrow> scheduled_job plane_op" where
  "schedule_job env now organization trust_domain key requirements0 payload_digest requeue assigned_worker =
     seq_act (checked (requeue_validate requeue))
     (bind_act (checked (requirements_normalize requirements0)) (\<lambda>requirements.
      seq_act (checked (validate_digest payload_digest))
      (seq_act (deny_if (jr_trust_domain requirements \<noteq> map to_ascii_lowercase (trim trust_domain))
                 (We_ForeignTrustDomain (jr_trust_domain requirements) trust_domain))
      (bind_act (query (job_by_key organization key)) (\<lambda>existing.
       case existing of
         Some job \<Rightarrow>
           bind_act (query (lease_for_generation (job_job_id job) (job_current_generation job))) (\<lambda>lease.
           return \<lparr>sj_job = job, sj_generation = job_current_generation job, sj_lease = lease, sj_replay = True\<rparr>)
       | None \<Rightarrow>
           bind_act (case assigned_worker of
                       Some wid \<Rightarrow> bind_act (require_eligible wid organization trust_domain requirements) (\<lambda>w. return (Some w))
                     | None \<Rightarrow> find_eligible organization trust_domain requirements) (\<lambda>worker.
           bind_act (mint_id env ''job'') (\<lambda>jid.
           let (job, generation, attempt) =
                 first_rows jid organization trust_domain key requirements payload_digest requeue
                   (map_option wr_worker_id worker) now
           in seq_act (plane_journal organization ''job_scheduled'' now (job_assigned_worker job) (Some jid) (Some FIRST)
                         ((''job_key='' @ key) @ '' digest='' @ payload_digest))
              (bind_act (commit (insert_generation_and_attempt job generation attempt)) (\<lambda>_.
               bind_act (case worker of
                           Some w \<Rightarrow> bind_act (accept_lease_inner env w organization job FIRST now None) (\<lambda>l. return (Some l))
                         | None \<Rightarrow> return None) (\<lambda>lease.
               return \<lparr>sj_job = job, sj_generation = FIRST, sj_lease = lease, sj_replay = False\<rparr>))))))))))"

section \<open>Heartbeats\<close>

record heartbeat_outcome =
  hb_lease_id :: lease_id
  hb_generation :: generation
  hb_heartbeat_interval_ms :: int
  hb_expires_at_ms :: int

definition current_generation_of :: "job_id \<Rightarrow> memory_state \<Rightarrow> generation option" where
  "current_generation_of jid st = map_option job_current_generation (store_job jid st)"

definition lease_refusal :: "lease_id \<Rightarrow> worker_lease \<Rightarrow> worker_error" where
  "lease_refusal lid lease =
     (case wl_state lease of
        Lease_Expired \<Rightarrow> We_LeaseExpired lid (wl_expires_at_ms lease)
      | state \<Rightarrow> We_LeaseNotLive lid (lease_state_as_str state))"

definition renewal_refusal :: "lease_id \<Rightarrow> worker_id \<Rightarrow> generation \<Rightarrow> worker_lease option \<Rightarrow> worker_error" where
  "renewal_refusal lid wid generation after =
     (case after of
        Some l \<Rightarrow> if wl_state l \<noteq> Lease_Live then We_LeaseNotLive lid (lease_state_as_str (wl_state l))
                  else We_SupersededLease (wl_job_id l) generation (wl_generation l)
      | None \<Rightarrow> We_UnknownLease lid wid)"

definition touch_refusal :: "worker_id \<Rightarrow> worker_registration option \<Rightarrow> worker_error" where
  "touch_refusal wid after =
     (case after of
        Some w \<Rightarrow> if wr_revoked w then We_WorkerRevoked wid else We_Backend
      | None \<Rightarrow> We_UnknownWorker wid)"

definition heartbeat ::
    "plane_env \<Rightarrow> int \<Rightarrow> string \<Rightarrow> worker_id \<Rightarrow> string \<Rightarrow> nat \<Rightarrow> lease_id \<Rightarrow> generation \<Rightarrow> heartbeat_outcome plane_op" where
  "heartbeat env now organization wid token protocol_version lid generation =
     seq_act (checked (check_protocol protocol_version))
     (bind_act (authenticate_in env organization wid token) (\<lambda>worker.
      bind_act (query (store_lease lid)) (\<lambda>found.
      bind_act (found_or (We_UnknownLease lid wid) found) (\<lambda>lease.
      seq_act (deny_if (wl_worker_id lease \<noteq> wr_worker_id worker) (We_UnknownLease lid wid))
      (seq_act (if wl_generation lease \<noteq> generation
                then seq_act (plane_journal organization ''stale_heartbeat_rejected'' now (Some (wr_worker_id worker))
                                (Some (wl_job_id lease)) (Some generation)
                                (''lease generation is '' @ dec_text (wl_generation lease)))
                       (bind_act (query (current_generation_of (wl_job_id lease))) (\<lambda>current.
                        deny (We_SupersededLease (wl_job_id lease) generation
                                (case current of Some g \<Rightarrow> g | None \<Rightarrow> wl_generation lease))))
                else return ())
      (seq_act (deny_if (wl_state lease \<noteq> Lease_Live) (lease_refusal lid lease))
      (seq_act (if lease_is_expired_at lease now
                then bind_act (end_lease_and_requeue env lease Lease_Expired ''heartbeat expired'' now empty_report) (\<lambda>_.
                     deny (We_LeaseExpired lid (wl_expires_at_ms lease)))
                else return ())
      (let expires_at = sat_i64 (now + wl_heartbeat_interval_ms lease) in
       bind_act (commit (renew_lease lid generation now expires_at)) (\<lambda>renewed.
       seq_act (if \<not> renewed then bind_act (query (store_lease lid)) (\<lambda>after. deny (renewal_refusal lid wid generation after))
                else return ())
       (bind_act (commit (touch_worker (wr_worker_id worker) now)) (\<lambda>touched.
        seq_act (if \<not> touched then bind_act (query (store_worker (wr_worker_id worker))) (\<lambda>after.
                                    deny (touch_refusal (wr_worker_id worker) after))
                 else return ())
        (return \<lparr>hb_lease_id = lid, hb_generation = generation,
                 hb_heartbeat_interval_ms = wl_heartbeat_interval_ms lease, hb_expires_at_ms = expires_at\<rparr>))))))))))))"

section \<open>Results\<close>

datatype result_outcome = Result_Landed | Result_Duplicate

definition outcome_text :: "job_result_outcome \<Rightarrow> string" where
  "outcome_text o' = (case o' of Outcome_Succeeded \<Rightarrow> ''Succeeded'' | Outcome_Failed \<Rightarrow> ''Failed'')"

text \<open>A result that was landed before: the identical one is a duplicate, another one a conflict.\<close>

definition replayed_result ::
    "int \<Rightarrow> string \<Rightarrow> worker_id \<Rightarrow> execution_job \<Rightarrow> generation \<Rightarrow> lease_id \<Rightarrow> string \<Rightarrow> job_result_outcome \<Rightarrow> job_result
       \<Rightarrow> result_outcome plane_op" where
  "replayed_result now organization wid job generation lid digest outcome existing =
     (if res_digest existing = digest \<and> res_worker_id existing = wid \<and> res_lease_id existing = lid \<and> res_outcome existing = outcome
      then seq_act (plane_journal organization ''result_duplicate'' now (Some wid) (Some (job_job_id job)) (Some generation)
                      (''lease='' @ lid))
             (return Result_Duplicate)
      else seq_act (plane_journal organization ''result_conflict_rejected'' now (Some wid) (Some (job_job_id job)) (Some generation)
                      (''lease='' @ lid))
             (deny (We_ResultConflict (job_job_id job) generation)))"

definition result_row ::
    "int \<Rightarrow> worker_id \<Rightarrow> job_id \<Rightarrow> generation \<Rightarrow> lease_id \<Rightarrow> string \<Rightarrow> job_result_outcome \<Rightarrow> job_verification_claim \<Rightarrow> job_result" where
  "result_row now wid jid generation lid digest outcome verification =
     \<lparr>res_job_id = jid, res_generation = generation, res_worker_id = wid, res_lease_id = lid, res_digest = digest,
      res_outcome = outcome, res_accepted_ms = now, res_verification = verification\<rparr>"

text \<open>The part of a submission after the replay check: the lease, its expiry and the landing.\<close>

definition land_under_lease ::
    "plane_env \<Rightarrow> int \<Rightarrow> string \<Rightarrow> worker_id \<Rightarrow> execution_job \<Rightarrow> generation \<Rightarrow> lease_id \<Rightarrow> string \<Rightarrow> job_result_outcome
       \<Rightarrow> job_verification_claim \<Rightarrow> result_outcome plane_op" where
  "land_under_lease env now organization wid job generation lid digest outcome verification =
     (let jid = job_job_id job in
      bind_act (query (store_lease lid)) (\<lambda>found.
      bind_act (found_or (We_UnknownLease lid wid) found) (\<lambda>lease.
      seq_act (deny_if (wl_worker_id lease \<noteq> wid \<or> wl_generation lease \<noteq> generation) (We_UnknownLease lid wid))
      (seq_act (if wl_state lease \<noteq> Lease_Live
                then seq_act (plane_journal organization ''result_lease_not_live'' now (Some wid) (Some jid) (Some generation)
                                (''lease state '' @ lease_state_as_str (wl_state lease)))
                       (deny (lease_refusal lid lease))
                else return ())
      (seq_act (if lease_is_expired_at lease now
                then bind_act (end_lease_and_requeue env lease Lease_Expired ''result after expiry'' now empty_report) (\<lambda>_.
                     seq_act (plane_journal organization ''stale_result_rejected'' now (Some wid) (Some jid) (Some generation)
                                ''lease had already expired'')
                     (deny (We_LeaseExpired lid (wl_expires_at_ms lease))))
                else return ())
      (bind_act (commit (land_result (result_row now wid jid generation lid digest outcome verification))) (\<lambda>landed.
       case landed of
         Append_Landed \<Rightarrow>
           seq_act (plane_journal organization ''result_accepted'' now (Some wid) (Some jid) (Some generation)
                      ((''outcome='' @ outcome_text outcome) @ '' lease='' @ lid))
           (return Result_Landed)
       | Append_Duplicate \<Rightarrow>
           seq_act (plane_journal organization ''result_duplicate'' now (Some wid) (Some jid) (Some generation)
                      (''lease='' @ lid))
           (return Result_Duplicate))))))))"

definition submit_result_with_claim ::
    "plane_env \<Rightarrow> int \<Rightarrow> string \<Rightarrow> worker_id \<Rightarrow> string \<Rightarrow> nat \<Rightarrow> job_id \<Rightarrow> generation \<Rightarrow> lease_id \<Rightarrow> string \<Rightarrow> job_result_outcome
       \<Rightarrow> job_verification_claim \<Rightarrow> result_outcome plane_op" where
  "submit_result_with_claim env now organization wid token protocol_version jid generation lid digest outcome verification =
     seq_act (checked (check_protocol protocol_version))
     (seq_act (checked (validate_digest digest))
     (seq_act (case vc_produced_digest verification of Some produced \<Rightarrow> checked (validate_digest produced) | None \<Rightarrow> return ())
     (bind_act (authenticate_in env organization wid token) (\<lambda>worker.
      bind_act (require_job organization jid) (\<lambda>job.
      seq_act (if job_current_generation job \<noteq> generation
               then seq_act (plane_journal organization ''stale_result_rejected'' now (Some (wr_worker_id worker))
                               (Some (job_job_id job)) (Some generation)
                               (''current generation is '' @ dec_text (job_current_generation job)))
                      (deny (We_SupersededLease (job_job_id job) generation (job_current_generation job)))
               else return ())
      (seq_act (if digest \<noteq> job_payload_digest job
                then seq_act (plane_journal organization ''result_digest_rejected'' now (Some (wr_worker_id worker))
                                (Some (job_job_id job)) (Some generation) (''presented digest '' @ digest))
                       (deny (We_DigestMismatch (job_payload_digest job) digest))
                else return ())
      (bind_act (query (store_result jid generation)) (\<lambda>replay.
       case replay of
         Some existing \<Rightarrow> replayed_result now organization (wr_worker_id worker) job generation lid digest outcome existing
       | None \<Rightarrow> land_under_lease env now organization (wr_worker_id worker) job generation lid digest outcome verification))))))))"

definition submit_result ::
    "plane_env \<Rightarrow> int \<Rightarrow> string \<Rightarrow> worker_id \<Rightarrow> string \<Rightarrow> nat \<Rightarrow> job_id \<Rightarrow> generation \<Rightarrow> lease_id \<Rightarrow> string \<Rightarrow> job_result_outcome
       \<Rightarrow> result_outcome plane_op" where
  "submit_result env now organization wid token protocol_version jid generation lid digest outcome =
     submit_result_with_claim env now organization wid token protocol_version jid generation lid digest outcome default_claim"

section \<open>Status\<close>

definition plane_job_status :: "string \<Rightarrow> job_id \<Rightarrow> job_status plane_op" where
  "plane_job_status organization jid =
     bind_act (require_job organization jid) (\<lambda>job.
     query (\<lambda>st. \<lparr>js_job = job, js_generations = store_generations jid st, js_attempts = store_attempts jid st,
                   js_lease = lease_for_generation jid (job_current_generation job) st,
                   js_result = store_result jid (job_current_generation job) st\<rparr>))"

definition journal_page :: "string \<Rightarrow> int option \<Rightarrow> nat \<Rightarrow> journal_entry list plane_op" where
  "journal_page organization after_seq limit =
     query (store_journal organization after_seq (max 1 (min MAX_JOURNAL_PAGE limit)))"

section \<open>Adopting a lease\<close>

record claimed_lease =
  cl_job :: execution_job
  cl_lease :: worker_lease

definition adoptable :: "string \<Rightarrow> worker_registration \<Rightarrow> int \<Rightarrow> worker_lease \<Rightarrow> execution_job \<Rightarrow> bool" where
  "adoptable organization worker now lease job \<longleftrightarrow>
     wl_organization_id lease = organization \<and> \<not> lease_is_expired_at lease now \<and>
     \<not> job_is_terminal (job_state job) \<and> job_current_generation job = wl_generation lease \<and>
     wr_trust_domain worker = job_trust_domain job \<and>
     is_ok (satisfies (wr_capabilities worker) (job_requirements job))"

definition adopt_from :: "string \<Rightarrow> worker_registration \<Rightarrow> int \<Rightarrow> worker_lease list \<Rightarrow> memory_state \<Rightarrow> claimed_lease option" where
  "adopt_from organization worker now leases st =
     Option.bind
       (find (\<lambda>l. case store_job (wl_job_id l) st of Some job \<Rightarrow> adoptable organization worker now l job | None \<Rightarrow> False) leases)
       (\<lambda>l. map_option (\<lambda>job. \<lparr>cl_job = job, cl_lease = l\<rparr>) (store_job (wl_job_id l) st))"

definition adoptable_lease ::
    "plane_env \<Rightarrow> int \<Rightarrow> string \<Rightarrow> worker_id \<Rightarrow> string \<Rightarrow> nat \<Rightarrow> claimed_lease option plane_op" where
  "adoptable_lease env now organization wid token protocol_version =
     seq_act (checked (check_protocol protocol_version))
     (bind_act (authenticate_in env organization wid token) (\<lambda>worker.
      bind_act (query (\<lambda>st. adopt_from organization worker now (live_leases_of_worker wid st) st)) (\<lambda>found.
      case found of
        None \<Rightarrow> return None
      | Some claimed \<Rightarrow>
          seq_act (plane_journal organization ''job_adopted'' now (Some (wr_worker_id worker)) (Some (job_job_id (cl_job claimed)))
                     (Some (wl_generation (cl_lease claimed)))
                     ((''lease='' @ wl_lease_id (cl_lease claimed)) @ '' adopted from the scheduler's placement''))
          (return (Some claimed)))))"

end
