(* ===== verification/Worker_Sweeps.thy ===== *)
theory Worker_Sweeps
  imports Worker_Plane
begin

text \<open>
  The operations of the worker plane that walk the journal page by page (\<open>crates/worker/src/service.rs\<close>):
  \<open>claim_next\<close>, \<open>recover\<close> with \<open>finish_interrupted_lease_losses\<close>, and \<open>resume_assignments\<close>. The journal is
  the index of the jobs; a job is looked at once per walk. A walk appends to the journal it reads, so
  that its end needs an argument: the walk visits at most the jobs of the store, and a page that visits
  none leaves the store alone.
\<close>

section \<open>The index\<close>

definition index_job_id :: "journal_entry \<Rightarrow> job_id option" where
  "index_job_id entry =
     (if je_kind entry \<noteq> ''job_scheduled'' \<and> je_kind entry \<noteq> ''job_requeued'' then None else je_job_id entry)"

definition entries_after :: "string \<Rightarrow> int option \<Rightarrow> memory_state \<Rightarrow> journal_entry list" where
  "entries_after organization after st =
     filter (\<lambda>e. case after of None \<Rightarrow> True | Some a \<Rightarrow> a < je_seq e)
       (filter (\<lambda>e. je_organization_id e = organization) (ms_journal st))"

lemma entries_after_shrinks:
  assumes "store_journal organization after limit st = page" and "page \<noteq> []"
  shows "length (entries_after organization (Some (je_seq (last page))) st) < length (entries_after organization after st)"
proof -
  let ?all = "filter (\<lambda>e. je_organization_id e = organization) (ms_journal st)"
  let ?later = "\<lambda>a e. case a of None \<Rightarrow> True | Some x \<Rightarrow> x < je_seq e"
  have page: "page = take limit (filter (?later after) ?all)"
    using assms(1) by (simp add: store_journal_def)
  then have last: "last page \<in> set (filter (?later after) ?all)"
    using assms(2) by (metis in_set_takeD last_in_set)
  have "filter (?later (Some (je_seq (last page)))) ?all
          = filter (?later (Some (je_seq (last page)))) (filter (?later after) ?all)"
    using last by (auto intro!: filter_cong [OF refl] split: option.splits)
  also have "length \<dots> < length (filter (?later after) ?all)"
    using last by (intro length_filter_less) auto
  finally show ?thesis by (simp add: entries_after_def)
qed

section \<open>Claiming the next job\<close>

fun claim_skips :: "plane_fault \<Rightarrow> bool" where
  "claim_skips (Refused (We_LeaseAlreadyTaken _ _ _ _)) = True"
| "claim_skips (Refused (We_NotLeasable _ _ _)) = True"
| "claim_skips (Refused (We_SupersededLease _ _ _)) = True"
| "claim_skips (Refused (We_NotAssignedToWorker _ _ _ _)) = True"
| "claim_skips (Refused (We_CapabilityMismatch _ _)) = True"
| "claim_skips (Refused (We_WorkerSaturated _ _)) = True"
| "claim_skips _ = False"

text \<open>A job the worker may take, as far as the job root says.\<close>

definition claimable :: "string \<Rightarrow> worker_registration \<Rightarrow> execution_job \<Rightarrow> bool" where
  "claimable organization worker job \<longleftrightarrow>
     job_organization_id job = organization \<and> \<not> job_is_terminal (job_state job) \<and>
     wr_trust_domain worker = job_trust_domain job \<and>
     is_ok (satisfies (wr_capabilities worker) (job_requirements job)) \<and>
     (case job_assigned_worker job of Some assigned \<Rightarrow> assigned = wr_worker_id worker | None \<Rightarrow> True)"

definition unleased_generation :: "job_id \<Rightarrow> generation \<Rightarrow> memory_state \<Rightarrow> bool" where
  "unleased_generation jid generation st \<longleftrightarrow>
     lease_for_generation jid generation st = None \<and>
     (case store_generation jid generation st of Some row \<Rightarrow> gr_state row = Gen_Assigned | None \<Rightarrow> False)"

definition claim_job :: "plane_env \<Rightarrow> string \<Rightarrow> worker_registration \<Rightarrow> int \<Rightarrow> string \<Rightarrow> claimed_lease option plane_op" where
  "claim_job env organization worker now raw =
     (case id_try_new raw of
        Inl _ \<Rightarrow> return None
      | Inr jid \<Rightarrow>
          bind_act (query (store_job jid)) (\<lambda>found.
          case found of
            None \<Rightarrow> return None
          | Some job \<Rightarrow>
              if \<not> claimable organization worker job then return None
              else
                bind_act (query (unleased_generation jid (job_current_generation job))) (\<lambda>free.
                if \<not> free then return None
                else
                  handle (accept_lease_inner env worker organization job (job_current_generation job) now (Some ''long-poll'')) (\<lambda>r.
                  case r of
                    Inr lease \<Rightarrow> return (Some \<lparr>cl_job = job, cl_lease = lease\<rparr>)
                  | Inl f \<Rightarrow> if claim_skips f then return None else refuse f))))"

fun claim_entries ::
    "plane_env \<Rightarrow> string \<Rightarrow> worker_registration \<Rightarrow> int \<Rightarrow> journal_entry list \<Rightarrow> nat \<times> string list
       \<Rightarrow> (claimed_lease option + nat \<times> string list) plane_op" where
  "claim_entries env organization worker now [] acc = return (Inr acc)"
| "claim_entries env organization worker now (entry # page) (scanned, seen) =
     (case index_job_id entry of
        None \<Rightarrow> claim_entries env organization worker now page (scanned, seen)
      | Some raw \<Rightarrow>
          if raw \<in> set seen then claim_entries env organization worker now page (scanned, seen)
          else if MAX_CLAIM_SCAN_JOBS < scanned + 1 then return (Inl None)
          else bind_act (claim_job env organization worker now raw) (\<lambda>claimed.
            case claimed of
              Some c \<Rightarrow> return (Inl (Some c))
            | None \<Rightarrow> claim_entries env organization worker now page (scanned + 1, raw # seen)))"

lemma claim_entries_scanned:
  assumes "claim_entries env organization worker now page (scanned, seen) s = (t, Inr (Inr (scanned', seen')))"
  shows "scanned < scanned' \<and> scanned' \<le> MAX_CLAIM_SCAN_JOBS \<or> scanned' = scanned \<and> t = s"
  using assms
proof (induction page arbitrary: scanned seen s)
  case (Cons entry page)
  show ?case
  proof (cases "index_job_id entry")
    case None
    with Cons show ?thesis by simp
  next
    case (Some raw)
    show ?thesis
    proof (cases "raw \<in> set seen \<or> MAX_CLAIM_SCAN_JOBS < scanned + 1")
      case True
      with Some Cons show ?thesis by (auto split: if_splits)
    next
      case False
      with Some Cons.prems obtain u where
        "claim_entries env organization worker now page (scanned + 1, raw # seen) u = (t, Inr (Inr (scanned', seen')))"
        by (auto simp: bind_act_eq_Inr split: option.splits)
      from Cons.IH [OF this] False show ?thesis by auto
    qed
  qed
qed simp

function claim_pages ::
    "plane_env \<Rightarrow> string \<Rightarrow> worker_registration \<Rightarrow> int \<Rightarrow> int option \<Rightarrow> nat \<times> string list \<Rightarrow> claimed_lease option plane_op" where
  "claim_pages env organization worker now after (scanned, seen) s =
     (let page = store_journal organization after MAX_JOURNAL_PAGE (pl_store s) in
      if page = [] then (s, Inr None)
      else case claim_entries env organization worker now page (scanned, seen) s of
        (s', Inl f) \<Rightarrow> (s', Inl f)
      | (s', Inr (Inl claimed)) \<Rightarrow> (s', Inr claimed)
      | (s', Inr (Inr (scanned', seen'))) \<Rightarrow>
          if length page < MAX_JOURNAL_PAGE then (s', Inr None)
          else claim_pages env organization worker now (Some (je_seq (last page))) (scanned', seen') s')"
  by pat_completeness auto

termination
proof (relation "(\<lambda>(_, _, _, _, _, (scanned, _), _). MAX_CLAIM_SCAN_JOBS - scanned) <*mlex*>
    measure (\<lambda>(_, organization, _, _, after, _, s). length (entries_after organization after (pl_store s)))", goal_cases)
  case 1
  show ?case by (intro wf_mlex wf_measure)
next
  case 2
  then show ?case
    by (auto simp: mlex_iff dest!: claim_entries_scanned [OF sym] intro: entries_after_shrinks [OF refl])
qed

declare claim_pages.simps [simp del]

definition claim_next ::
    "plane_env \<Rightarrow> int \<Rightarrow> string \<Rightarrow> worker_id \<Rightarrow> string \<Rightarrow> nat \<Rightarrow> claimed_lease option plane_op" where
  "claim_next env now organization wid token protocol_version =
     seq_act (checked (check_protocol protocol_version))
     (bind_act (authenticate_in env organization wid token) (\<lambda>worker.
      seq_act (checked (admit_claim env))
      (claim_pages env organization worker now None (0, []))))"

section \<open>Recovery sweeps\<close>

text \<open>The two walks that repair jobs, and what each does with one job of the index.\<close>

datatype index_sweep = Interrupted_Losses | Unleased_Assignments

definition interrupted_job :: "plane_env \<Rightarrow> string \<Rightarrow> int \<Rightarrow> string \<Rightarrow> recovery_report \<Rightarrow> recovery_report plane_op" where
  "interrupted_job env organization now raw report =
     (case id_try_new raw of
        Inl _ \<Rightarrow> return report
      | Inr jid \<Rightarrow>
          bind_act (query (store_job jid)) (\<lambda>found.
          case found of
            None \<Rightarrow> return report
          | Some job \<Rightarrow>
              if job_organization_id job \<noteq> organization \<or> job_is_terminal (job_state job) then return report
              else
                bind_act (query (store_generation jid (job_current_generation job))) (\<lambda>generation_row.
                if (case generation_row of Some row \<Rightarrow> gr_state row \<noteq> Gen_Leased \<and> gr_state row \<noteq> Gen_Lost | None \<Rightarrow> True)
                then return report
                else
                  bind_act (query (lease_for_generation jid (job_current_generation job))) (\<lambda>lease.
                  case lease of
                    None \<Rightarrow> return report
                  | Some l \<Rightarrow>
                      if wl_state l = Lease_Live then return report
                      else finish_lost_lease env l ''lease loss completed by recovery'' now
                             (report\<lparr>rp_expired := rp_expired report @ [wl_lease_id l]\<rparr>)))))"

definition unleased_job :: "plane_env \<Rightarrow> string \<Rightarrow> int \<Rightarrow> string \<Rightarrow> recovery_report \<Rightarrow> recovery_report plane_op" where
  "unleased_job env organization now raw report =
     (case id_try_new raw of
        Inl _ \<Rightarrow> return report
      | Inr jid \<Rightarrow>
          bind_act (query (store_job jid)) (\<lambda>found.
          case found of
            None \<Rightarrow> return report
          | Some job \<Rightarrow>
              if job_organization_id job \<noteq> organization \<or> job_is_terminal (job_state job) then return report
              else
                bind_act (query (unleased_generation (job_job_id job) (job_current_generation job))) (\<lambda>free.
                if \<not> free then return report
                else
                  bind_act (placement_target organization job) (\<lambda>target.
                  bind_act (place env organization job now target) (\<lambda>placed.
                  return (if placed then report\<lparr>rp_reassigned := rp_reassigned report @ [job_job_id job]\<rparr> else report))))))"

definition sweep_job :: "plane_env \<Rightarrow> index_sweep \<Rightarrow> string \<Rightarrow> int \<Rightarrow> string \<Rightarrow> recovery_report \<Rightarrow> recovery_report plane_op" where
  "sweep_job env sweep organization now raw report =
     (case sweep of
        Interrupted_Losses \<Rightarrow> interrupted_job env organization now raw report
      | Unleased_Assignments \<Rightarrow> unleased_job env organization now raw report)"

fun sweep_entries ::
    "plane_env \<Rightarrow> index_sweep \<Rightarrow> string \<Rightarrow> int \<Rightarrow> journal_entry list \<Rightarrow> string list \<times> recovery_report
       \<Rightarrow> (string list \<times> recovery_report) plane_op" where
  "sweep_entries env sweep organization now [] acc = return acc"
| "sweep_entries env sweep organization now (entry # page) (seen, report) =
     (case index_job_id entry of
        None \<Rightarrow> sweep_entries env sweep organization now page (seen, report)
      | Some raw \<Rightarrow>
          if raw \<in> set seen then sweep_entries env sweep organization now page (seen, report)
          else bind_act (sweep_job env sweep organization now raw report) (\<lambda>report'.
               sweep_entries env sweep organization now page (raw # seen, report')))"

text \<open>
  The identifiers under which a job can be found. An operation may store a job row under the identifier
  the row carries; no operation of a sweep finds new ones.
\<close>

definition job_universe :: "memory_state \<Rightarrow> string set" where
  "job_universe st = set (bt_keys (ms_jobs st)) \<union> job_job_id ` set (bt_values (ms_jobs st))"

definition no_new_jobs :: "plane \<Rightarrow> plane \<Rightarrow> bool" where
  "no_new_jobs s t \<longleftrightarrow> job_universe (pl_store t) \<subseteq> job_universe (pl_store s)"

interpretation no_new: step_preorder no_new_jobs
  by unfold_locales (auto simp: no_new_jobs_def)

lemma finite_job_universe [simp]: "finite (job_universe st)"
  by (simp add: job_universe_def)

lemma store_job_universe: "store_job jid st = Some job \<Longrightarrow> jid \<in> job_universe st \<and> job_job_id job \<in> job_universe st"
  by (force simp: store_job_def job_universe_def bt_get_def bt_keys_def bt_values_def dest: map_of_SomeD)

lemma modify_keeps_column:
  "(\<And>v. g (f v) = g v) \<Longrightarrow> map g (bt_values (bt_modify k f m)) = map g (bt_values m)"
  by (induction m) (auto simp: bt_values_def bt_modify_def)

lemma job_universe_modify:
  assumes "\<And>j. job_job_id (f j) = job_job_id j"
  shows "job_universe (st\<lparr>ms_jobs := bt_modify k f (ms_jobs st)\<rparr>) = job_universe st"
  using modify_keeps_column [of job_job_id f k "ms_jobs st"] assms
  by (simp add: job_universe_def bt_keys_def flip: set_map)

lemma job_universe_insert:
  assumes "job_job_id job \<in> job_universe st"
  shows "job_universe (st\<lparr>ms_jobs := bt_insert (job_job_id job) job (ms_jobs st)\<rparr>) \<subseteq> job_universe st"
proof
  fix x
  assume "x \<in> job_universe (st\<lparr>ms_jobs := bt_insert (job_job_id job) job (ms_jobs st)\<rparr>)"
  then obtain e where "e \<in> set (bt_insert (job_job_id job) job (ms_jobs st))" and x: "x = fst e \<or> x = job_job_id (snd e)"
    by (auto simp: job_universe_def bt_keys_def bt_values_def)
  then consider "e = (job_job_id job, job)" | "e \<in> set (ms_jobs st)"
    using bt_insert_subset [of "job_job_id job" job "ms_jobs st"] by blast
  then show "x \<in> job_universe st"
  proof cases
    case 1
    with x assms show ?thesis by auto
  next
    case 2
    with x show ?thesis by (auto simp: job_universe_def bt_keys_def bt_values_def)
  qed
qed

lemma job_universe_cong: "ms_jobs st = ms_jobs st' \<Longrightarrow> job_universe st = job_universe st'"
  by (simp add: job_universe_def)

lemma ms_jobs_frame [simp]:
  "ms_jobs (push_journal e st) = ms_jobs st"
  "ms_jobs (fold push_journal es st) = ms_jobs st"
  "ms_jobs (modify_first_attempt j g h st) = ms_jobs st"
  "ms_jobs (fst (append_journal e st)) = ms_jobs st"
  "ms_jobs (fst (set_generation_state j g a b t r st)) = ms_jobs st"
  "ms_jobs (fst (set_attempt_state j g n c d t w l r st)) = ms_jobs st"
  "ms_jobs (fst (end_lease i g x t' r' st)) = ms_jobs st"
proof -
  show "ms_jobs (fold push_journal es st) = ms_jobs st"
    by (induction es arbitrary: st) (simp_all add: push_journal_def)
qed (simp_all add: push_journal_def modify_first_attempt_def append_journal_def set_generation_state_def
      set_attempt_state_def end_lease_def split: option.splits)

lemma commit_no_new:
  "job_universe (fst (op (pl_store s))) \<subseteq> job_universe (pl_store s) \<Longrightarrow> related_at no_new_jobs (commit op) s"
  by (auto simp: related_at_def no_new_jobs_def commit_def split: prod.splits)

lemma commit_jobs_frame:
  "(\<And>st. ms_jobs (fst (op st)) = ms_jobs st) \<Longrightarrow> related no_new_jobs (commit op)"
  by (rule related_atI, rule commit_no_new) (simp add: job_universe_def)

lemma job_universe_accept: "job_universe (fst (try_accept_lease l es st)) = job_universe st"
proof -
  have "job_universe (fold push_journal es (lease_moves l st)) = job_universe st"
    unfolding lease_moves_def
    by (subst job_universe_cong [where st' = "st\<lparr>ms_jobs := bt_modify (wl_job_id l)
          (\<lambda>j. if job_current_generation j = wl_generation l \<and> job_state j = Job_Assigned
                then j\<lparr>job_state := Job_Leased\<rparr> else j) (ms_jobs st)\<rparr>"])
      (simp_all add: job_universe_modify)
  then show ?thesis by (simp add: try_accept_lease_def split: option.splits)
qed

text \<open>The store calls of the service, and the shapes around them.\<close>

lemma no_new_basics [intro!]:
  "related no_new_jobs (query f)"
  "related no_new_jobs (checked r)"
  "related no_new_jobs (deny e)"
  "related no_new_jobs (deny_if c e)"
  "related no_new_jobs (found_or e x)"
  "related no_new_jobs (mint_id env kind)"
  "related no_new_jobs (commit (try_accept_lease l es))"
  "related no_new_jobs (plane_journal organization kind at_ms w j g d)"
proof -
  show "related no_new_jobs (commit (try_accept_lease l es))"
    by (rule related_atI, rule commit_no_new) (simp add: job_universe_accept)
  show "related no_new_jobs (plane_journal organization kind at_ms w j g d)"
    unfolding plane_journal_def Let_def checked_def by (intro no_new.related_bind no_new.related_require commit_jobs_frame) simp
qed (auto simp: query_def checked_def deny_def deny_if_def found_or_def related_def no_new_jobs_def mint_id_def)

lemma accept_no_new [intro!]: "related no_new_jobs (accept_lease_inner env worker organization job g now via)"
  unfolding accept_lease_inner_def Let_def lease_taken_def by (intro no_new.related_bind no_new.related_seq
      no_new.related_if no_new.related_case_option no_new.related_return no_new_basics)

lemma target_no_new [intro!]:
  "related no_new_jobs (require_eligible wid organization trust_domain requirements)"
  "related no_new_jobs (find_eligible organization trust_domain requirements)"
  "related no_new_jobs (placement_target organization job)"
  "related no_new_jobs (place env organization job now target)"
  unfolding require_eligible_def find_eligible_def placement_target_def place_def
  by (intro no_new.related_bind no_new.related_seq no_new.related_if no_new.related_case_option
      no_new.related_case_sum no_new.related_return no_new.related_refuse no_new.related_handle
      no_new_basics accept_no_new)+

lemma related_at_query [simp]: "related_at R (bind_act (query f) g) s = related_at R (g (f (pl_store s))) s"
  by (simp add: related_at_def)

lemma set_job_state_no_new: "related no_new_jobs (commit (set_job_state jid g to_state))"
  by (rule related_atI, rule commit_no_new)
    (auto simp: set_job_state_def job_universe_modify split: option.splits)

lemma requeue_no_new:
  assumes "job_job_id job \<in> job_universe (pl_store s)"
  shows "related_at no_new_jobs (requeue_or_fail env lease reason now report job) s"
proof -
  have insert: "related_at no_new_jobs (commit (insert_generation_and_attempt
      (job\<lparr>job_current_generation := g, job_state := Job_Assigned\<rparr>) gr at)) s" for g gr at
  proof (rule commit_no_new)
    let ?row = "job\<lparr>job_current_generation := g, job_state := Job_Assigned\<rparr>"
    have "job_universe (st\<lparr>ms_jobs := bt_insert (job_job_id ?row) ?row (ms_jobs st)\<rparr>) \<subseteq> job_universe st"
      if "job_job_id job \<in> job_universe st" for st
      using that by (intro job_universe_insert) simp
    with assms show "job_universe (fst (insert_generation_and_attempt ?row gr at (pl_store s))) \<subseteq> job_universe (pl_store s)"
      by (auto simp: insert_generation_and_attempt_def Let_def job_universe_def split: option.splits)
  qed
  have rest: "related no_new_jobs (seq_act (plane_journal o' k now w j g d) (bind_act (checked r) (\<lambda>organization.
      bind_act (placement_target organization job) (\<lambda>target. bind_act (place env organization row now target) (\<lambda>_. return rep)))))"
    for o' k w j g d r row rep
    by blast
  show ?thesis
    unfolding requeue_or_fail_def Let_def requeue_rows_def related_at_query
    by (auto intro!: related_atD [OF rest] no_new.related_at_bind insert related_atD [OF set_job_state_no_new]
        related_atD [OF no_new.related_return] related_atD [OF no_new_basics(8)] no_new.related_at_seq split: sum.split)
qed

lemma finish_no_new [intro!]: "related no_new_jobs (finish_lost_lease env lease reason now report)"
proof -
  have commits: "related no_new_jobs (commit (set_generation_state j g a b t r))"
    "related no_new_jobs (commit (set_attempt_state j g n c d t w l r))" for j g a b t r n c d w l
    by (simp_all add: commit_jobs_frame)
  have tail: "related no_new_jobs (bind_act (query (store_job (wl_job_id lease))) (\<lambda>found. case found of None \<Rightarrow> return report
      | Some job \<Rightarrow> if job_current_generation job \<noteq> wl_generation lease \<or> job_is_terminal (job_state job) then return report
                     else requeue_or_fail env lease reason now report job))"
    by (rule related_atI) (auto intro!: requeue_no_new related_atD [OF no_new.related_return] dest: store_job_universe split: option.split)
  show ?thesis
    unfolding finish_lost_lease_def Let_def
    by (rule no_new.related_bind, rule commits(1), rule no_new.related_bind, rule no_new_basics(1),
        rule no_new.related_bind, rule commits(2), rule no_new.related_seq, rule no_new_basics(8), rule tail)
qed

lemma sweep_job_no_new [intro!]: "related no_new_jobs (sweep_job env sweep organization now raw report)"
  unfolding sweep_job_def interrupted_job_def unleased_job_def
  by (cases sweep) (auto split: sum.split)

lemma sweep_job_missing:
  assumes "raw \<notin> job_universe (pl_store s)"
  shows "fst (sweep_job env sweep organization now raw report s) = s"
proof -
  have "store_job raw (pl_store s) = None"
    using assms store_job_universe [of raw "pl_store s"] by (cases "store_job raw (pl_store s)") auto
  then show ?thesis
    by (cases "validate_id raw") (auto simp: sweep_job_def interrupted_job_def unleased_job_def id_try_new_def split: index_sweep.split)
qed

text \<open>A page either visits a job of the store that was not seen before, or leaves the store alone.\<close>

lemma sweep_entries_progress:
  assumes "sweep_entries env sweep organization now page (seen, report) s = (t, Inr (seen', report'))"
  shows "job_universe (pl_store t) - set seen' \<subset> job_universe (pl_store s) - set seen \<or>
         t = s \<and> job_universe (pl_store t) - set seen' \<subseteq> job_universe (pl_store s) - set seen"
  using assms
proof (induction page arbitrary: seen report s)
  case (Cons entry page)
  show ?case
  proof (cases "\<exists>raw. index_job_id entry = Some raw \<and> raw \<notin> set seen")
    case False
    with Cons show ?thesis by (auto split: option.splits)
  next
    case True
    then obtain raw where raw: "index_job_id entry = Some raw" "raw \<notin> set seen" by blast
    with Cons.prems obtain u rep where u: "sweep_job env sweep organization now raw report s = (u, Inr rep)"
      "sweep_entries env sweep organization now page (raw # seen, rep) u = (t, Inr (seen', report'))"
      by (auto simp: bind_act_eq_Inr)
    have "related_at no_new_jobs (sweep_job env sweep organization now raw report) s"
      by (rule related_atD) blast
    with u(1) have shrink: "job_universe (pl_store u) \<subseteq> job_universe (pl_store s)"
      by (simp add: related_at_def no_new_jobs_def)
    show ?thesis
    proof (cases "raw \<in> job_universe (pl_store s)")
      case True
      with shrink raw(2) Cons.IH [OF u(2)] show ?thesis by auto
    next
      case False
      from sweep_job_missing [OF this, of env sweep organization now report] u(1) have "u = s" by simp
      with Cons.IH [OF u(2)] show ?thesis by auto
    qed
  qed
qed auto

function sweep_pages ::
    "plane_env \<Rightarrow> index_sweep \<Rightarrow> string \<Rightarrow> int \<Rightarrow> int option \<Rightarrow> string list \<times> recovery_report \<Rightarrow> recovery_report plane_op" where
  "sweep_pages env sweep organization now after (seen, report) s =
     (let page = store_journal organization after MAX_JOURNAL_PAGE (pl_store s) in
      if page = [] then (s, Inr report)
      else case sweep_entries env sweep organization now page (seen, report) s of
        (s', Inl f) \<Rightarrow> (s', Inl f)
      | (s', Inr (seen', report')) \<Rightarrow>
          if length page < MAX_JOURNAL_PAGE then (s', Inr report')
          else sweep_pages env sweep organization now (Some (je_seq (last page))) (seen', report') s')"
  by pat_completeness auto

termination
proof (relation "(\<lambda>(_, _, _, _, _, (seen, _), s). card (job_universe (pl_store s) - set seen)) <*mlex*>
    measure (\<lambda>(_, _, organization, _, after, _, s). length (entries_after organization after (pl_store s)))", goal_cases)
  case 1
  show ?case by (intro wf_mlex wf_measure)
next
  case 2
  then show ?case
    by (auto simp: mlex_iff dest!: sweep_entries_progress [OF sym] intro: psubset_card_mono entries_after_shrinks [OF refl]
        card_mono le_neq_implies_less)
qed

declare sweep_pages.simps [simp del]

definition finish_interrupted_lease_losses :: "plane_env \<Rightarrow> string \<Rightarrow> int \<Rightarrow> recovery_report \<Rightarrow> recovery_report plane_op" where
  "finish_interrupted_lease_losses env organization now report =
     sweep_pages env Interrupted_Losses organization now None ([], report)"

definition recover_lease :: "plane_env \<Rightarrow> int \<Rightarrow> recovery_report \<Rightarrow> worker_lease \<Rightarrow> recovery_report plane_op" where
  "recover_lease env now report lease =
     (if lease_is_expired_at lease now
      then end_lease_and_requeue env lease Lease_Expired ''lease expired without heartbeats'' now report
      else return (report\<lparr>rp_resumed := rp_resumed report @ [wl_lease_id lease]\<rparr>))"

definition recover :: "plane_env \<Rightarrow> int \<Rightarrow> string \<Rightarrow> recovery_report plane_op" where
  "recover env now organization =
     bind_act (query (live_leases organization)) (\<lambda>leases.
     bind_act (fold_act (recover_lease env now) empty_report leases) (\<lambda>report.
     finish_interrupted_lease_losses env organization now (report\<lparr>rp_resumed := sort (rp_resumed report)\<rparr>)))"

definition resume_assignments :: "plane_env \<Rightarrow> int \<Rightarrow> string \<Rightarrow> recovery_report plane_op" where
  "resume_assignments env now organization =
     bind_act (sweep_pages env Unleased_Assignments organization now None ([], empty_report)) (\<lambda>report.
     return (report\<lparr>rp_reassigned := sort (rp_reassigned report)\<rparr>))"

end
