(* ===== verification/Worker_Life.thy ===== *)
theory Worker_Life
  imports Worker_Sweeps
begin

text \<open>
  The life of a job in the worker store, as a transition system: the writes the service issues, each
  with the guard under which it issues it, and the invariant they keep. The system is the abstract
  specification of the service; it starts in the empty store and every write is one step, so that the
  invariant holds between any two writes of an operation, and after a crash there.
\<close>

section \<open>Reading the store\<close>

definition lease_on :: "memory_state \<Rightarrow> job_id \<Rightarrow> generation \<Rightarrow> worker_lease \<Rightarrow> bool" where
  "lease_on st jid g l \<longleftrightarrow>
     (\<exists>lid. bt_get (ms_leases st) lid = Some l) \<and> wl_job_id l = jid \<and> wl_generation l = g"

definition gen_state :: "memory_state \<Rightarrow> job_id \<Rightarrow> generation \<Rightarrow> generation_state option" where
  "gen_state st jid g = map_option gr_state (bt_get (ms_generations st) (jid, g))"

definition gen_lost :: "memory_state \<Rightarrow> job_id \<Rightarrow> generation \<Rightarrow> bool" where
  "gen_lost st jid g \<longleftrightarrow> gen_state st jid g = Some Gen_Lost \<and> (\<exists>l. lease_on st jid g l \<and> wl_state l \<noteq> Lease_Live)"

definition indexed :: "memory_state \<Rightarrow> job_id \<Rightarrow> string \<Rightarrow> bool" where
  "indexed st jid organization \<longleftrightarrow>
     (\<exists>e\<in>set (ms_journal st). index_job_id e = Some jid \<and> je_organization_id e = organization)"

section \<open>The invariant\<close>

definition tables_ok :: "memory_state \<Rightarrow> bool" where
  "tables_ok st \<longleftrightarrow>
     bt_ok (ms_workers st) \<and> bt_ok (ms_tokens st) \<and> bt_ok (ms_jobs st) \<and> bt_ok (ms_generations st) \<and>
     bt_ok (ms_leases st) \<and> bt_ok (ms_attempts st) \<and> bt_ok (ms_results st)"

text \<open>What holds of the current generation, by the state of the job root.\<close>

definition current_ok :: "memory_state \<Rightarrow> job_id \<Rightarrow> execution_job \<Rightarrow> bool" where
  "current_ok st jid j \<longleftrightarrow>
     (let g = job_current_generation j; landed = bt_get (ms_results st) (jid, g) in
      case job_state j of
        Job_Assigned \<Rightarrow> landed = None \<and> gen_state st jid g = Some Gen_Assigned \<and> (\<forall>l. \<not> lease_on st jid g l)
      | Job_Leased \<Rightarrow> landed = None \<and> (gen_state st jid g = Some Gen_Leased \<and> (\<exists>l. lease_on st jid g l) \<or> gen_lost st jid g)
      | Job_Completed \<Rightarrow> landed \<noteq> None \<and> (gen_state st jid g = Some Gen_Completed \<or> gen_lost st jid g)
      | Job_Failed \<Rightarrow> landed = None \<and> gen_lost st jid g \<and> g = rq_max_attempts (job_requeue j))"

text \<open>
  The generations of a job are 1 to the current one, with one attempt each that has the number of its
  generation; every earlier generation is lost, and only the current one can have a result.
\<close>

definition job_ok :: "memory_state \<Rightarrow> job_id \<Rightarrow> execution_job \<Rightarrow> bool" where
  "job_ok st jid j \<longleftrightarrow>
     job_job_id j = jid \<and> validate_id jid = Inr () \<and>
     1 \<le> job_current_generation j \<and> job_current_generation j \<le> rq_max_attempts (job_requeue j) \<and>
     rq_max_attempts (job_requeue j) \<le> MAX_REQUEUE_ATTEMPTS \<and>
     indexed st jid (job_organization_id j) \<and>
     (\<forall>k. bt_get (ms_generations st) (jid, k) \<noteq> None \<longleftrightarrow> 1 \<le> k \<and> k \<le> job_current_generation j) \<and>
     (\<forall>k n. bt_get (ms_attempts st) (jid, k, n) \<noteq> None \<longleftrightarrow> 1 \<le> k \<and> k \<le> job_current_generation j \<and> n = k) \<and>
     (\<forall>k. 1 \<le> k \<and> k < job_current_generation j \<longrightarrow> gen_lost st jid k) \<and>
     (\<forall>k. k \<noteq> job_current_generation j \<longrightarrow> bt_get (ms_results st) (jid, k) = None) \<and>
     current_ok st jid j"

definition lease_ok :: "memory_state \<Rightarrow> lease_id \<Rightarrow> worker_lease \<Rightarrow> bool" where
  "lease_ok st lid l \<longleftrightarrow>
     wl_lease_id l = lid \<and>
     (\<exists>j. bt_get (ms_jobs st) (wl_job_id l) = Some j \<and> 1 \<le> wl_generation l \<and>
          wl_generation l \<le> job_current_generation j \<and> wl_organization_id l = job_organization_id j)"

definition orphan_free :: "memory_state \<Rightarrow> bool" where
  "orphan_free st \<longleftrightarrow>
     (\<forall>jid. bt_get (ms_jobs st) jid = None \<longrightarrow>
        (\<forall>k. bt_get (ms_generations st) (jid, k) = None) \<and> (\<forall>k n. bt_get (ms_attempts st) (jid, k, n) = None) \<and>
        (\<forall>k. bt_get (ms_results st) (jid, k) = None))"

definition leases_unique :: "memory_state \<Rightarrow> bool" where
  "leases_unique st \<longleftrightarrow>
     (\<forall>lid l lid' l'. bt_get (ms_leases st) lid = Some l \<longrightarrow> bt_get (ms_leases st) lid' = Some l' \<longrightarrow>
        wl_job_id l = wl_job_id l' \<longrightarrow> wl_generation l = wl_generation l' \<longrightarrow> lid = lid')"

definition journal_ok :: "memory_state \<Rightarrow> bool" where
  "journal_ok st \<longleftrightarrow> map je_seq (ms_journal st) = map int [1..<length (ms_journal st) + 1]"

definition life_ok :: "memory_state \<Rightarrow> bool" where
  "life_ok st \<longleftrightarrow>
     tables_ok st \<and> journal_ok st \<and> orphan_free st \<and> leases_unique st \<and>
     (\<forall>lid l. bt_get (ms_leases st) lid = Some l \<longrightarrow> lease_ok st lid l) \<and>
     (\<forall>jid j. bt_get (ms_jobs st) jid = Some j \<longrightarrow> job_ok st jid j)"

section \<open>The transition system\<close>

text \<open>
  The writes of a repair: they never end a live lease, and a lease they accept expires after the time
  of the repair.
\<close>

inductive repair_step :: "int \<Rightarrow> memory_state \<Rightarrow> memory_state \<Rightarrow> bool" for now where
  journal: "repair_step now st (push_journal e st)"
| accept: "bt_get (ms_jobs st) (wl_job_id l) = Some j \<Longrightarrow> wl_generation l = job_current_generation j \<Longrightarrow>
    wl_organization_id l = job_organization_id j \<Longrightarrow> gen_state st (wl_job_id l) (wl_generation l) = Some Gen_Assigned \<Longrightarrow>
    wl_state l = Lease_Live \<Longrightarrow> wl_expires_at_ms l = sat_i64 (now + HEARTBEAT_DEFAULT_INTERVAL_MS) \<Longrightarrow>
    bt_get (ms_leases st) (wl_lease_id l) = None \<Longrightarrow>
    repair_step now st (fst (try_accept_lease l es st))"
| lose: "lease_on st jid g l \<Longrightarrow> wl_state l \<noteq> Lease_Live \<Longrightarrow>
    repair_step now st (fst (set_generation_state jid g Gen_Leased Gen_Lost t r st))"
| attempt: "repair_step now st (fst (set_attempt_state jid g n Att_Leased Att_Lost t w l r st))"
| fail: "bt_get (ms_jobs st) jid = Some j \<Longrightarrow> gen_lost st jid (job_current_generation j) \<Longrightarrow>
    \<not> job_is_terminal (job_state j) \<Longrightarrow> rq_max_attempts (job_requeue j) \<le> max_attempt_number jid st \<Longrightarrow>
    repair_step now st (fst (set_job_state jid (job_current_generation j) Job_Failed st))"
| requeue: "bt_get (ms_jobs st) jid = Some j \<Longrightarrow> gen_lost st jid (job_current_generation j) \<Longrightarrow>
    \<not> job_is_terminal (job_state j) \<Longrightarrow> max_attempt_number jid st < rq_max_attempts (job_requeue j) \<Longrightarrow>
    generation_next (job_current_generation j) = Inr g \<Longrightarrow>
    requeue_rows j g (max_attempt_number jid st) t r = (j', gr, at) \<Longrightarrow>
    repair_step now st (fst (insert_generation_and_attempt j' gr at st))"

inductive life_step :: "memory_state \<Rightarrow> memory_state \<Rightarrow> bool" where
  repair: "repair_step now st st' \<Longrightarrow> life_step st st'"
| put_worker: "life_step st (fst (put_worker w st))"
| touch_worker: "life_step st (fst (touch_worker wid t st))"
| register: "life_step st (fst (register_worker_with_token w tok e st))"
| put_token: "life_step st (fst (put_token tok st))"
| mint: "bt_get (ms_jobs st) jid = None \<Longrightarrow> validate_id jid = Inr () \<Longrightarrow> requeue_validate rq = Inr () \<Longrightarrow> indexed st jid organization \<Longrightarrow>
    first_rows jid organization td key req digest rq assigned now = (j, gr, at) \<Longrightarrow>
    life_step st (fst (insert_generation_and_attempt j gr at st))"
| renew: "life_step st (fst (renew_lease lid g t t' st))"
| end_lease: "to_state \<noteq> Lease_Live \<Longrightarrow> life_step st (fst (end_lease lid g to_state t r st))"
| land: "life_step st (fst (land_result r st))"

definition life_reach :: "memory_state \<Rightarrow> bool" where
  "life_reach st \<longleftrightarrow> life_step\<^sup>*\<^sup>* empty_store st"

section \<open>What the invariant gives\<close>

lemma life_okD:
  assumes "life_ok st"
  shows "tables_ok st" "journal_ok st" "orphan_free st" "leases_unique st"
    "bt_get (ms_leases st) lid = Some l \<Longrightarrow> lease_ok st lid l"
    "bt_get (ms_jobs st) jid = Some j \<Longrightarrow> job_ok st jid j"
  using assms by (auto simp: life_ok_def)

lemma lease_on_unique:
  assumes "life_ok st" and "lease_on st jid g l" and "lease_on st jid g l'"
  shows "l = l'"
  using assms life_okD(4) [OF assms(1)] unfolding lease_on_def leases_unique_def by (metis option.inject)

lemma lease_for_generation_iff:
  assumes "life_ok st"
  shows "lease_for_generation jid g st = Some l \<longleftrightarrow> lease_on st jid g l"
proof -
  have ok: "bt_ok (ms_leases st)" using life_okD(1) [OF assms] by (simp add: tables_ok_def)
  show ?thesis
  proof
    assume "lease_for_generation jid g st = Some l"
    then show "lease_on st jid g l"
      unfolding lease_for_generation_def lease_on_def by (drule_tac bt.find_row_Some [OF ok]) simp
  next
    assume l: "lease_on st jid g l"
    then obtain lid where "bt_get (ms_leases st) lid = Some l" by (auto simp: lease_on_def)
    then show "lease_for_generation jid g st = Some l"
      unfolding lease_for_generation_def
    proof (rule bt.find_row_unique [OF ok])
      show "wl_job_id l = jid \<and> wl_generation l = g" using l by (simp add: lease_on_def)
    next
      fix k w
      assume "bt_get (ms_leases st) k = Some w" and "wl_job_id w = jid \<and> wl_generation w = g"
      then have "lease_on st jid g w" by (auto simp: lease_on_def)
      from lease_on_unique [OF assms this l] show "w = l" .
    qed
  qed
qed

lemma lease_for_generation_None:
  assumes "life_ok st"
  shows "lease_for_generation jid g st = None \<longleftrightarrow> (\<forall>l. \<not> lease_on st jid g l)"
  using lease_for_generation_iff [OF assms] by (metis not_None_eq)

text \<open>The attempts of a job are numbered by its generations, so the highest number is the current generation.\<close>

lemma foldl_max_eq:
  "\<forall>x\<in>set xs. x \<le> m \<Longrightarrow> a \<le> m \<Longrightarrow> m \<in> insert a (set xs) \<Longrightarrow> foldl max a xs = (m :: nat)"
  by (induction xs arbitrary: a) (auto simp: max_def)

lemma max_attempt_number_current:
  assumes "job_ok st jid j"
  shows "max_attempt_number jid st = job_current_generation j"
proof -
  let ?g = "job_current_generation j"
  let ?ns = "map (\<lambda>(_, _, a). a) (filter (\<lambda>(i, _, _). i = jid) (bt_keys (ms_attempts st)))"
  have keys: "(jid, k, n) \<in> set (bt_keys (ms_attempts st)) \<longleftrightarrow> 1 \<le> k \<and> k \<le> ?g \<and> n = k" for k n
    using assms by (simp add: job_ok_def bt_keys_iff)
  have g: "1 \<le> ?g" using assms by (simp add: job_ok_def)
  have "\<forall>n\<in>set ?ns. n \<le> ?g"
    using keys by auto
  moreover have "?g \<in> set ?ns"
    using keys [of ?g ?g] g by (force intro: rev_image_eqI [of "(jid, ?g, ?g)"])
  ultimately show ?thesis
    unfolding max_attempt_number_def by (intro foldl_max_eq) auto
qed

end
