(* ===== verification/Worker_Invariant.thy ===== *)
theory Worker_Invariant
  imports Worker_Life
begin

text \<open>
  Every step of the transition system keeps the invariant. Most steps leave what the invariant says of
  a job alone; the frame lemmas state that once. The steps that move a job are accepting a lease,
  losing a generation, failing, requeueing, minting and landing a result.
\<close>

section \<open>Frames\<close>

text \<open>A change of the store that a job does not notice.\<close>

definition job_frame :: "memory_state \<Rightarrow> memory_state \<Rightarrow> job_id \<Rightarrow> bool" where
  "job_frame st st' jid \<longleftrightarrow>
     set (ms_journal st) \<subseteq> set (ms_journal st') \<and>
     (\<forall>k. gen_state st' jid k = gen_state st jid k) \<and>
     (\<forall>k n. (bt_get (ms_attempts st') (jid, k, n) = None) = (bt_get (ms_attempts st) (jid, k, n) = None)) \<and>
     (\<forall>k. bt_get (ms_results st') (jid, k) = bt_get (ms_results st) (jid, k)) \<and>
     (\<forall>k. (\<exists>l. lease_on st' jid k l) = (\<exists>l. lease_on st jid k l)) \<and>
     (\<forall>k l. lease_on st jid k l \<longrightarrow> wl_state l \<noteq> Lease_Live \<longrightarrow> (\<exists>l'. lease_on st' jid k l' \<and> wl_state l' \<noteq> Lease_Live))"

lemma job_frameD:
  assumes "job_frame st st' jid"
  shows "set (ms_journal st) \<subseteq> set (ms_journal st')" "gen_state st' jid k = gen_state st jid k"
    "(bt_get (ms_attempts st') (jid, k, n) = None) = (bt_get (ms_attempts st) (jid, k, n) = None)"
    "bt_get (ms_results st') (jid, k) = bt_get (ms_results st) (jid, k)"
    "(\<exists>l. lease_on st' jid k l) = (\<exists>l. lease_on st jid k l)"
    "lease_on st jid k l \<Longrightarrow> wl_state l \<noteq> Lease_Live \<Longrightarrow> \<exists>l'. lease_on st' jid k l' \<and> wl_state l' \<noteq> Lease_Live"
  using assms unfolding job_frame_def by blast+

lemma job_okD:
  assumes "job_ok st jid j"
  shows "job_job_id j = jid" "validate_id jid = Inr ()" "1 \<le> job_current_generation j"
    "job_current_generation j \<le> rq_max_attempts (job_requeue j)" "rq_max_attempts (job_requeue j) \<le> MAX_REQUEUE_ATTEMPTS"
    "indexed st jid (job_organization_id j)"
    "bt_get (ms_generations st) (jid, k) \<noteq> None \<longleftrightarrow> 1 \<le> k \<and> k \<le> job_current_generation j"
    "bt_get (ms_attempts st) (jid, k, n) \<noteq> None \<longleftrightarrow> 1 \<le> k \<and> k \<le> job_current_generation j \<and> n = k"
    "1 \<le> k \<Longrightarrow> k < job_current_generation j \<Longrightarrow> gen_lost st jid k"
    "k \<noteq> job_current_generation j \<Longrightarrow> bt_get (ms_results st) (jid, k) = None"
    "current_ok st jid j"
  using assms by (simp_all add: job_ok_def)

lemma gen_state_None: "gen_state st jid k = None \<longleftrightarrow> bt_get (ms_generations st) (jid, k) = None"
  by (simp add: gen_state_def)

lemma gen_lost_frame: "job_frame st st' jid \<Longrightarrow> gen_lost st jid k \<Longrightarrow> gen_lost st' jid k"
  unfolding gen_lost_def job_frame_def by metis

lemma indexed_mono: "set (ms_journal st) \<subseteq> set (ms_journal st') \<Longrightarrow> indexed st jid organization \<Longrightarrow> indexed st' jid organization"
  unfolding indexed_def by blast

lemma current_ok_frame:
  assumes f: "job_frame st st' jid" and ok: "current_ok st jid j"
  shows "current_ok st' jid j"
proof -
  have gen: "gen_state st' jid k = gen_state st jid k" and res: "bt_get (ms_results st') (jid, k) = bt_get (ms_results st) (jid, k)"
    and ex: "(\<exists>l. lease_on st' jid k l) = (\<exists>l. lease_on st jid k l)" for k
    using f by (simp_all add: job_frame_def)
  show ?thesis
    using ok gen_lost_frame [OF f, of "job_current_generation j"] ex [of "job_current_generation j"]
    unfolding current_ok_def Let_def gen res by (auto split: job_state.splits)
qed

lemma job_ok_frame:
  assumes f: "job_frame st st' jid" and ok: "job_ok st jid j"
  shows "job_ok st' jid j"
  unfolding job_ok_def
proof (intro conjI allI impI)
  fix k n
  show "(bt_get (ms_generations st') (jid, k) \<noteq> None) = (1 \<le> k \<and> k \<le> job_current_generation j)"
    using job_okD(7) [OF ok, of k] by (simp flip: gen_state_None add: job_frameD(2) [OF f])
  show "(bt_get (ms_attempts st') (jid, k, n) \<noteq> None) = (1 \<le> k \<and> k \<le> job_current_generation j \<and> n = k)"
    using job_okD(8) [OF ok, of k n] by (simp add: job_frameD(3) [OF f] del: not_None_eq)
qed (use ok in \<open>auto intro: job_okD gen_lost_frame [OF f] current_ok_frame [OF f] indexed_mono [OF job_frameD(1) [OF f]]
       simp: job_frameD(4) [OF f] simp del: One_nat_def\<close>)

lemma job_frame_cong:
  assumes "ms_generations st' = ms_generations st" and "ms_leases st' = ms_leases st"
    and "\<And>k n. (bt_get (ms_attempts st') (jid, k, n) = None) = (bt_get (ms_attempts st) (jid, k, n) = None)"
    and "ms_results st' = ms_results st" and "set (ms_journal st) \<subseteq> set (ms_journal st')"
  shows "job_frame st st' jid"
  unfolding job_frame_def gen_state_def lease_on_def assms(1,2,4) using assms(3,5) by blast

text \<open>The parts of the invariant that are about tables that did not change.\<close>

lemma lease_ok_cong: "ms_jobs st' = ms_jobs st \<Longrightarrow> lease_ok st' lid l = lease_ok st lid l"
  by (simp add: lease_ok_def)

lemma life_ok_frame:
  assumes ok: "life_ok st" and "tables_ok st'" and "journal_ok st'"
    and jobs: "ms_jobs st' = ms_jobs st" and leases: "ms_leases st' = ms_leases st"
    and gens: "ms_generations st' = ms_generations st" and results: "ms_results st' = ms_results st"
    and att: "\<And>jid k n. (bt_get (ms_attempts st') (jid, k, n) = None) = (bt_get (ms_attempts st) (jid, k, n) = None)"
    and journal: "set (ms_journal st) \<subseteq> set (ms_journal st')"
  shows "life_ok st'"
proof -
  have "job_frame st st' jid" for jid
    using leases gens results att journal by (intro job_frame_cong) auto
  then have "\<forall>jid j. bt_get (ms_jobs st') jid = Some j \<longrightarrow> job_ok st' jid j"
    using jobs life_okD(6) [OF ok] job_ok_frame by metis
  moreover have "\<forall>lid l. bt_get (ms_leases st') lid = Some l \<longrightarrow> lease_ok st' lid l"
    using leases life_okD(5) [OF ok] lease_ok_cong [OF jobs] by simp
  moreover have "orphan_free st'" "leases_unique st'"
    using life_okD(3,4) [OF ok] by (simp_all add: orphan_free_def leases_unique_def jobs leases gens results att)
  ultimately show ?thesis using assms(2,3) by (simp add: life_ok_def)
qed

section \<open>Steps that move no job\<close>

lemma journal_ok_push: "journal_ok st \<Longrightarrow> journal_ok (push_journal e st)"
  by (simp add: journal_ok_def push_journal_def)

lemma push_journal_frame [simp]:
  "ms_leases (push_journal e st) = ms_leases st" "ms_generations (push_journal e st) = ms_generations st"
  "ms_attempts (push_journal e st) = ms_attempts st" "ms_results (push_journal e st) = ms_results st"
  "ms_workers (push_journal e st) = ms_workers st" "ms_tokens (push_journal e st) = ms_tokens st"
  by (simp_all add: push_journal_def)

lemma push_journal_grows: "set (ms_journal st) \<subseteq> set (ms_journal (push_journal e st))"
  by (auto simp: push_journal_def)

lemma tables_ok_push [simp]: "tables_ok (push_journal e st) = tables_ok st"
  by (simp add: tables_ok_def)

lemma life_ok_push: "life_ok st \<Longrightarrow> life_ok (push_journal e st)"
  by (rule life_ok_frame) (auto simp: life_okD journal_ok_push dest: subsetD [OF push_journal_grows])

lemma life_ok_pushes: "life_ok st \<Longrightarrow> life_ok (fold push_journal es st)"
  by (induction es arbitrary: st) (simp_all add: life_ok_push)

text \<open>Workers and tokens are not part of what the invariant says of jobs.\<close>

lemma life_ok_registry:
  assumes "life_ok st" and "bt_ok ws" and "bt_ok ts"
  shows "life_ok (st\<lparr>ms_workers := ws, ms_tokens := ts\<rparr>)"
  using assms by (intro life_ok_frame [OF assms(1)]) (auto simp: life_ok_def tables_ok_def journal_ok_def)

lemma registry_bt_ok: "life_ok st \<Longrightarrow> bt_ok (ms_workers st)" "life_ok st \<Longrightarrow> bt_ok (ms_tokens st)"
  by (simp_all add: life_ok_def tables_ok_def)

lemma life_ok_workers: "life_ok st \<Longrightarrow> bt_ok ws \<Longrightarrow> life_ok (st\<lparr>ms_workers := ws\<rparr>)"
  using life_ok_registry [of st ws "ms_tokens st"] by (simp add: registry_bt_ok)

lemma life_ok_tokens: "life_ok st \<Longrightarrow> bt_ok ts \<Longrightarrow> life_ok (st\<lparr>ms_tokens := ts\<rparr>)"
  using life_ok_registry [of st "ms_workers st" ts] by (simp add: registry_bt_ok)

lemma life_ok_worker_ops:
  assumes "life_ok st"
  shows "life_ok (fst (put_worker w st))" "life_ok (fst (touch_worker wid t st))"
    "life_ok (fst (register_worker_with_token w tok e st))" "life_ok (fst (put_token tok st))"
proof -
  show "life_ok (fst (put_worker w st))"
    using assms by (simp add: put_worker_def Let_def life_ok_workers registry_bt_ok split: sum.split)
  show "life_ok (fst (touch_worker wid t st))"
    using assms by (simp add: touch_worker_def life_ok_workers registry_bt_ok split: option.split)
  show "life_ok (fst (register_worker_with_token w tok e st))"
    using assms by (simp add: register_worker_with_token_def Let_def life_ok_push life_ok_registry registry_bt_ok split: sum.split)
  show "life_ok (fst (put_token tok st))"
    using assms by (simp add: put_token_def life_ok_tokens registry_bt_ok)
qed

lemma life_ok_attempts:
  assumes "life_ok st"
  shows "life_ok (st\<lparr>ms_attempts := bt_modify k f (ms_attempts st)\<rparr>)"
  using assms by (intro life_ok_frame [OF assms]) (auto simp: life_ok_def tables_ok_def journal_ok_def split: if_splits)

lemma life_ok_set_attempt: "life_ok st \<Longrightarrow> life_ok (fst (set_attempt_state j g n c d t w l r st))"
  by (simp add: set_attempt_state_def life_ok_attempts split: option.split)

text \<open>Leases that change without changing what they are for, and that do not come back to life.\<close>

definition same_lease :: "worker_lease \<Rightarrow> worker_lease \<Rightarrow> bool" where
  "same_lease l l' \<longleftrightarrow>
     wl_lease_id l' = wl_lease_id l \<and> wl_job_id l' = wl_job_id l \<and> wl_generation l' = wl_generation l \<and>
     wl_organization_id l' = wl_organization_id l \<and> wl_worker_id l' = wl_worker_id l \<and>
     (wl_state l \<noteq> Lease_Live \<longrightarrow> wl_state l' \<noteq> Lease_Live)"

lemma lease_on_modify:
  assumes "\<And>l. same_lease l (f l)"
  shows "lease_on (st\<lparr>ms_leases := bt_modify lid f (ms_leases st)\<rparr>) jid k l' \<longleftrightarrow>
    (\<exists>i l. bt_get (ms_leases st) i = Some l \<and> l' = (if i = lid then f l else l) \<and> wl_job_id l = jid \<and> wl_generation l = k)"
  using assms unfolding lease_on_def same_lease_def by (auto split: if_splits) (metis option.simps(9))+

lemma job_frame_leases:
  assumes f: "\<And>l. same_lease l (f l)"
  shows "job_frame st (st\<lparr>ms_leases := bt_modify lid f (ms_leases st)\<rparr>) jid"
proof -
  let ?st = "st\<lparr>ms_leases := bt_modify lid f (ms_leases st)\<rparr>"
  have ex: "(\<exists>l. lease_on ?st jid k l) = (\<exists>l. lease_on st jid k l)" for k
    unfolding lease_on_modify [OF f] by (auto simp: lease_on_def)
  have dead: "\<exists>l'. lease_on ?st jid k l' \<and> wl_state l' \<noteq> Lease_Live" if l: "lease_on st jid k l" "wl_state l \<noteq> Lease_Live" for k l
  proof -
    obtain i where i: "bt_get (ms_leases st) i = Some l" "wl_job_id l = jid" "wl_generation l = k"
      using l(1) unfolding lease_on_def by blast
    then have "lease_on ?st jid k (if i = lid then f l else l)" unfolding lease_on_modify [OF f] by blast
    moreover have "wl_state (if i = lid then f l else l) \<noteq> Lease_Live" using l(2) f [of l] by (simp add: same_lease_def)
    ultimately show ?thesis by blast
  qed
  show ?thesis unfolding job_frame_def using ex dead by (simp add: gen_state_def)
qed

lemma life_ok_leases:
  assumes ok: "life_ok st" and f: "\<And>l. same_lease l (f l)"
  shows "life_ok (st\<lparr>ms_leases := bt_modify lid f (ms_leases st)\<rparr>)"
proof -
  let ?st = "st\<lparr>ms_leases := bt_modify lid f (ms_leases st)\<rparr>"
  have get: "\<exists>l0. bt_get (ms_leases st) i = Some l0 \<and> same_lease l0 l" if "bt_get (ms_leases ?st) i = Some l" for i l
    using that f by (auto simp: same_lease_def split: if_splits)
  have "leases_unique ?st"
    unfolding leases_unique_def
  proof (intro allI impI)
    fix i l i' l'
    assume l: "bt_get (ms_leases ?st) i = Some l" and l': "bt_get (ms_leases ?st) i' = Some l'"
      and eq: "wl_job_id l = wl_job_id l'" "wl_generation l = wl_generation l'"
    obtain l0 l1 where "bt_get (ms_leases st) i = Some l0" "same_lease l0 l" "bt_get (ms_leases st) i' = Some l1" "same_lease l1 l'"
      using get [OF l] get [OF l'] by blast
    with eq life_okD(4) [OF ok] show "i = i'"
      unfolding leases_unique_def same_lease_def by metis
  qed
  moreover have "lease_ok ?st i l" if "bt_get (ms_leases ?st) i = Some l" for i l
    using get [OF that] life_okD(5) [OF ok, of i] by (auto simp: lease_ok_def same_lease_def)
  moreover have "job_ok ?st jid j" if "bt_get (ms_jobs ?st) jid = Some j" for jid j
    using that job_ok_frame [OF job_frame_leases [OF f] life_okD(6) [OF ok]] by simp
  ultimately show ?thesis
    using ok by (auto simp: life_ok_def tables_ok_def journal_ok_def orphan_free_def)
qed

lemma life_ok_lease_ops:
  assumes "life_ok st"
  shows "life_ok (fst (renew_lease lid g t t' st))"
    "to_state \<noteq> Lease_Live \<Longrightarrow> life_ok (fst (end_lease lid g to_state t'' r st))"
  using assms by (auto simp: renew_lease_def end_lease_def same_lease_def intro!: life_ok_leases split: option.split)

section \<open>Steps that move one job\<close>

text \<open>To keep the invariant it is enough to look at the job that moves, at its leases, and at the frame of the others.\<close>

lemma lease_ok_mono:
  assumes "lease_ok st lid l"
    and "\<And>i j. bt_get (ms_jobs st) i = Some j \<Longrightarrow>
      \<exists>j'. bt_get (ms_jobs st') i = Some j' \<and> job_current_generation j \<le> job_current_generation j' \<and>
           job_organization_id j' = job_organization_id j"
  shows "lease_ok st' lid l"
  using assms unfolding lease_ok_def by (metis order_trans)

lemma life_ok_move:
  assumes ok: "life_ok st" and tables: "tables_ok st'" and journal: "journal_ok st'"
    and jid: "bt_get (ms_jobs st') jid = Some j'" "job_ok st' jid j'"
    and others: "\<And>i. i \<noteq> jid \<Longrightarrow> bt_get (ms_jobs st') i = bt_get (ms_jobs st) i"
      "\<And>i. i \<noteq> jid \<Longrightarrow> job_frame st st' i"
    and leases: "leases_unique st'" "\<And>lid l. bt_get (ms_leases st') lid = Some l \<Longrightarrow> lease_ok st' lid l"
  shows "life_ok st'"
proof -
  have "job_ok st' i j" if "bt_get (ms_jobs st') i = Some j" for i j
  proof (cases "i = jid")
    case True
    with that jid show ?thesis by simp
  next
    case False
    with that others have "job_ok st i j" by (intro life_okD(6) [OF ok]) simp
    then show ?thesis by (rule job_ok_frame [OF others(2) [OF False]])
  qed
  moreover have "orphan_free st'"
    unfolding orphan_free_def
  proof (intro allI impI)
    fix i
    assume none: "bt_get (ms_jobs st') i = None"
    with jid(1) have i: "i \<noteq> jid" by auto
    note f = job_frameD(2,3,4) [OF others(2) [OF i]]
    from none others(1) [OF i] have "bt_get (ms_jobs st) i = None" by simp
    with life_okD(3) [OF ok] have "bt_get (ms_generations st) (i, k) = None" "bt_get (ms_attempts st) (i, k, n) = None"
      "bt_get (ms_results st) (i, k) = None" for k n
      by (auto simp: orphan_free_def)
    then show "(\<forall>k. bt_get (ms_generations st') (i, k) = None) \<and> (\<forall>k n. bt_get (ms_attempts st') (i, k, n) = None) \<and>
        (\<forall>k. bt_get (ms_results st') (i, k) = None)"
      by (simp flip: gen_state_None add: f)
  qed
  ultimately show ?thesis using tables journal leases by (simp add: life_ok_def)
qed

lemma gen_state_modify:
  "gen_state (st\<lparr>ms_generations := bt_modify (jid, g) f (ms_generations st)\<rparr>) i k =
     (if i = jid \<and> k = g then map_option (gr_state \<circ> f) (bt_get (ms_generations st) (jid, g)) else gen_state st i k)"
  by (simp add: gen_state_def option.map_comp)

text \<open>What the state of a generation says about the job.\<close>

lemma assigned_generation:
  assumes "job_ok st jid j" and "gen_state st jid (job_current_generation j) = Some Gen_Assigned"
  shows "job_state j = Job_Assigned" "\<not> lease_on st jid (job_current_generation j) l"
    "bt_get (ms_results st) (jid, job_current_generation j) = None"
  using assms job_okD(11) [OF assms(1)]
  by (auto simp: current_ok_def Let_def gen_lost_def split: job_state.splits)

lemma leased_generation:
  assumes "job_ok st jid j" and "gen_state st jid g = Some Gen_Leased"
  shows "g = job_current_generation j" "job_state j = Job_Leased" "bt_get (ms_results st) (jid, g) = None"
proof -
  have "1 \<le> g \<and> g \<le> job_current_generation j"
    using job_okD(7) [OF assms(1), of g] assms(2) by (auto simp: gen_state_def)
  moreover have "\<not> gen_lost st jid g" using assms(2) by (simp add: gen_lost_def)
  ultimately show g: "g = job_current_generation j"
    using job_okD(9) [OF assms(1), of g] by (metis le_neq_implies_less)
  show "job_state j = Job_Leased" "bt_get (ms_results st) (jid, g) = None"
    using assms(2) job_okD(11) [OF assms(1)] unfolding g
    by (auto simp: current_ok_def Let_def gen_lost_def split: job_state.splits)
qed

lemma lost_open_job:
  assumes "job_ok st jid j" and "gen_lost st jid (job_current_generation j)" and "\<not> job_is_terminal (job_state j)"
  shows "job_state j = Job_Leased" "bt_get (ms_results st) (jid, job_current_generation j) = None"
  using assms job_okD(11) [OF assms(1)]
  by (auto simp: current_ok_def Let_def gen_lost_def job_is_terminal_def split: job_state.splits)

lemma modify_first_attempt_ok: "life_ok st \<Longrightarrow> life_ok (modify_first_attempt jid g f st)"
  by (simp add: modify_first_attempt_def life_ok_attempts split: option.split)

lemma life_ok_tables: "life_ok st \<Longrightarrow> tables_ok st" "life_ok st \<Longrightarrow> journal_ok st"
  by (simp_all add: life_ok_def)

end
