(* ===== verification/Worker_Moves.thy ===== *)
theory Worker_Moves
  imports Worker_Invariant
begin

text \<open>
  The steps of the worker store that move a job keep the invariant, and with them every step does.
\<close>

text \<open>A job whose generations, attempts and past stay, and whose root changes at most its state.\<close>

lemma job_ok_state:
  assumes ok: "job_ok st jid j" and "set (ms_journal st) \<subseteq> set (ms_journal st')"
    and gens: "\<And>k. (gen_state st' jid k = None) = (gen_state st jid k = None)"
    and att: "\<And>k n. (bt_get (ms_attempts st') (jid, k, n) = None) = (bt_get (ms_attempts st) (jid, k, n) = None)"
    and lost: "\<And>k. k < job_current_generation j \<Longrightarrow> gen_lost st jid k \<Longrightarrow> gen_lost st' jid k"
    and res: "\<And>k. k \<noteq> job_current_generation j \<Longrightarrow> bt_get (ms_results st') (jid, k) = bt_get (ms_results st) (jid, k)"
    and cur: "current_ok st' jid (j\<lparr>job_state := s\<rparr>)"
  shows "job_ok st' jid (j\<lparr>job_state := s\<rparr>)"
  unfolding job_ok_def
proof (intro conjI allI impI)
  fix k n
  show "(bt_get (ms_generations st') (jid, k) \<noteq> None) = (1 \<le> k \<and> k \<le> job_current_generation (j\<lparr>job_state := s\<rparr>))"
    using job_okD(7) [OF ok, of k] gens [of k] by (simp add: gen_state_None)
  show "(bt_get (ms_attempts st') (jid, k, n) \<noteq> None) = (1 \<le> k \<and> k \<le> job_current_generation (j\<lparr>job_state := s\<rparr>) \<and> n = k)"
    using job_okD(8) [OF ok, of k n] att [of k n] by (simp del: not_None_eq)
  show "gen_lost st' jid k" if "1 \<le> k \<and> k < job_current_generation (j\<lparr>job_state := s\<rparr>)"
    using that lost job_okD(9) [OF ok, of k] by simp
qed (use job_okD(1-6,10) [OF ok] indexed_mono [OF assms(2)] res cur in \<open>simp_all\<close>)

lemma same_job_state: "j\<lparr>job_state := job_state j\<rparr> = (j :: execution_job)"
  by simp

lemma lease_ok_modify:
  assumes "lease_ok st lid l" and "ms_jobs st' = bt_modify jid f (ms_jobs st)"
    and "\<And>j. job_current_generation (f j) = job_current_generation j" "\<And>j. job_organization_id (f j) = job_organization_id j"
  shows "lease_ok st' lid l"
  using assms(1)
proof (rule lease_ok_mono)
  fix i j
  assume "bt_get (ms_jobs st) i = Some j"
  then have "bt_get (ms_jobs st') i = Some (if i = jid then f j else j)" by (auto simp: assms(2))
  then show "\<exists>j'. bt_get (ms_jobs st') i = Some j' \<and> job_current_generation j \<le> job_current_generation j' \<and>
      job_organization_id j' = job_organization_id j"
    using assms(3,4) by auto
qed

section \<open>Accepting a lease\<close>

lemma life_ok_accept:
  assumes ok: "life_ok st" and j: "bt_get (ms_jobs st) (wl_job_id l) = Some j"
    and g: "wl_generation l = job_current_generation j" and organization: "wl_organization_id l = job_organization_id j"
    and assigned: "gen_state st (wl_job_id l) (wl_generation l) = Some Gen_Assigned"
    and fresh: "bt_get (ms_leases st) (wl_lease_id l) = None"
  shows "life_ok (lease_moves l st)"
proof -
  define jid where "jid = wl_job_id l"
  let ?g = "job_current_generation j"
  let ?f = "\<lambda>r. if gr_state r = Gen_Assigned then r\<lparr>gr_state := Gen_Leased\<rparr> else r"
  let ?h = "\<lambda>j. if job_current_generation j = wl_generation l \<and> job_state j = Job_Assigned then j\<lparr>job_state := Job_Leased\<rparr> else j"
  let ?st = "st\<lparr>ms_leases := bt_insert (wl_lease_id l) l (ms_leases st),
    ms_generations := bt_modify (jid, wl_generation l) ?f (ms_generations st), ms_jobs := bt_modify jid ?h (ms_jobs st)\<rparr>"
  have job: "job_ok st jid j" using life_okD(6) [OF ok] j by (simp add: jid_def)
  have cur: "gen_state st jid ?g = Some Gen_Assigned" using assigned g by (simp add: jid_def)
  note as = assigned_generation [OF job cur]
  have on: "lease_on ?st i k l' \<longleftrightarrow> lease_on st i k l' \<or> l' = l \<and> i = jid \<and> k = ?g" for i k l'
    using fresh g unfolding lease_on_def jid_def by (auto split: if_splits) (metis option.distinct(1))
  have gen: "gen_state ?st i k = (if i = jid \<and> k = ?g then Some Gen_Leased else gen_state st i k)" for i k
    using cur by (auto simp: gen_state_def g)
  have lost: "gen_lost ?st i k" if "gen_lost st i k" for i k
    using that cur by (auto simp: gen_lost_def gen on)
  have "life_ok ?st"
  proof (rule life_ok_move [OF ok])
    show "tables_ok ?st" "journal_ok ?st" using ok by (simp_all add: life_ok_def tables_ok_def journal_ok_def)
    show "bt_get (ms_jobs ?st) jid = Some (j\<lparr>job_state := Job_Leased\<rparr>)" using j g as(1) by (simp add: jid_def)
    show "bt_get (ms_jobs ?st) i = bt_get (ms_jobs st) i" if "i \<noteq> jid" for i using that by simp
    show "job_frame st ?st i" if "i \<noteq> jid" for i
      using that by (auto simp: job_frame_def gen on)
    show "job_ok ?st jid (j\<lparr>job_state := Job_Leased\<rparr>)"
      using as lost cur on [of jid ?g l] by (intro job_ok_state [OF job]) (auto simp: current_ok_def Let_def gen)
    show "leases_unique ?st"
    proof -
      have "\<not> (wl_job_id l' = jid \<and> wl_generation l' = ?g)" if "bt_get (ms_leases st) lid = Some l'" for lid l'
        using as(2) [of l'] that by (auto simp: lease_on_def)
      then show ?thesis
        using life_okD(4) [OF ok] unfolding leases_unique_def by (simp add: jid_def g) metis
    qed
    show "lease_ok ?st lid l'" if "bt_get (ms_leases ?st) lid = Some l'" for lid l'
    proof (cases "lid = wl_lease_id l")
      case True
      with that show ?thesis using j g organization job_okD(3) [OF job] by (auto simp: lease_ok_def jid_def)
    next
      case False
      with that have "lease_ok st lid l'" by (intro life_okD(5) [OF ok]) simp
      then show ?thesis by (rule lease_ok_modify [where jid = jid and f = ?h]) simp_all
    qed
  qed
  then show ?thesis
    unfolding lease_moves_def by (intro modify_first_attempt_ok) (simp add: jid_def)
qed

section \<open>Losing a generation\<close>

lemma life_ok_lose:
  assumes ok: "life_ok st" and l: "lease_on st jid g l" "wl_state l \<noteq> Lease_Live"
  shows "life_ok (fst (set_generation_state jid g Gen_Leased Gen_Lost t r st))"
proof (cases "gen_state st jid g = Some Gen_Leased")
  case False
  then have "fst (set_generation_state jid g Gen_Leased Gen_Lost t r st) = st"
    by (auto simp: set_generation_state_def gen_state_def split: option.split)
  with ok show ?thesis by simp
next
  case True
  obtain j where j: "bt_get (ms_jobs st) jid = Some j"
    using l(1) life_okD(5) [OF ok] by (auto simp: lease_on_def lease_ok_def)
  have job: "job_ok st jid j" by (rule life_okD(6) [OF ok j])
  note g = leased_generation [OF job True]
  let ?f = "\<lambda>r0. r0\<lparr>gr_state := Gen_Lost, gr_ended_ms := replace_if_some t (gr_ended_ms r0), gr_reason := replace_if_some r (gr_reason r0)\<rparr>"
  let ?st = "st\<lparr>ms_generations := bt_modify (jid, g) ?f (ms_generations st)\<rparr>"
  have on: "lease_on ?st = lease_on st" by (simp add: lease_on_def fun_eq_iff)
  have gen: "gen_state ?st i k = (if i = jid \<and> k = g then Some Gen_Lost else gen_state st i k)" for i k
    using True by (auto simp: gen_state_def)
  have lost: "gen_lost ?st i k \<longleftrightarrow> gen_lost st i k \<or> i = jid \<and> k = g" for i k
    using l by (auto simp: gen_lost_def gen on)
  have "life_ok ?st"
  proof (rule life_ok_move [OF ok])
    show "tables_ok ?st" "journal_ok ?st" using ok by (simp_all add: life_ok_def tables_ok_def journal_ok_def)
    show "bt_get (ms_jobs ?st) jid = Some j" using j by simp
    show "bt_get (ms_jobs ?st) i = bt_get (ms_jobs st) i" for i by simp
    show "job_frame st ?st i" if "i \<noteq> jid" for i
      using that by (auto simp: job_frame_def gen on)
    have "job_ok ?st jid (j\<lparr>job_state := job_state j\<rparr>)"
      using g(2,3) lost True by (intro job_ok_state [OF job]) (auto simp: current_ok_def gen simp flip: g(1))
    then show "job_ok ?st jid j" by simp
    show "leases_unique ?st" using life_okD(4) [OF ok] by (simp add: leases_unique_def)
    show "lease_ok ?st lid l'" if "bt_get (ms_leases ?st) lid = Some l'" for lid l'
      using that life_okD(5) [OF ok] by (simp add: lease_ok_def)
  qed
  moreover have "fst (set_generation_state jid g Gen_Leased Gen_Lost t r st) = ?st"
    using True by (auto simp: set_generation_state_def gen_state_def)
  ultimately show ?thesis by simp
qed

section \<open>Failing and requeueing\<close>

lemma life_ok_fail:
  assumes ok: "life_ok st" and j: "bt_get (ms_jobs st) jid = Some j" and lost: "gen_lost st jid (job_current_generation j)"
    and open_job: "\<not> job_is_terminal (job_state j)" and spent: "rq_max_attempts (job_requeue j) \<le> max_attempt_number jid st"
  shows "life_ok (fst (set_job_state jid (job_current_generation j) Job_Failed st))"
proof -
  let ?st = "st\<lparr>ms_jobs := bt_modify jid (\<lambda>r. r\<lparr>job_state := Job_Failed\<rparr>) (ms_jobs st)\<rparr>"
  have job: "job_ok st jid j" by (rule life_okD(6) [OF ok j])
  have max: "job_current_generation j = rq_max_attempts (job_requeue j)"
    using spent max_attempt_number_current [OF job] job_okD(4) [OF job] by simp
  have same: "lease_on ?st = lease_on st" "gen_state ?st = gen_state st" "gen_lost ?st = gen_lost st"
    by (simp_all add: fun_eq_iff lease_on_def gen_state_def gen_lost_def)
  have "life_ok ?st"
  proof (rule life_ok_move [OF ok])
    show "tables_ok ?st" "journal_ok ?st" using ok by (simp_all add: life_ok_def tables_ok_def journal_ok_def)
    show "bt_get (ms_jobs ?st) jid = Some (j\<lparr>job_state := Job_Failed\<rparr>)" using j by simp
    show "bt_get (ms_jobs ?st) i = bt_get (ms_jobs st) i" if "i \<noteq> jid" for i using that by simp
    show "job_frame st ?st i" for i by (auto simp: job_frame_def same)
    show "job_ok ?st jid (j\<lparr>job_state := Job_Failed\<rparr>)"
      using lost_open_job [OF job lost open_job] lost max
      by (intro job_ok_state [OF job]) (simp_all add: same current_ok_def)
    show "leases_unique ?st" using life_okD(4) [OF ok] by (simp add: leases_unique_def)
    show "lease_ok ?st lid l" if "bt_get (ms_leases ?st) lid = Some l" for lid l
    proof (rule lease_ok_modify [of st _ _ _ jid "\<lambda>r. r\<lparr>job_state := Job_Failed\<rparr>"])
      show "lease_ok st lid l" using that by (intro life_okD(5) [OF ok]) simp
    qed simp_all
  qed
  moreover have "fst (set_job_state jid (job_current_generation j) Job_Failed st) = ?st"
    using j by (simp add: set_job_state_def)
  ultimately show ?thesis by simp
qed

text \<open>The tables after a new generation of a job is inserted with its attempt.\<close>

definition insert_rows :: "job_id \<Rightarrow> execution_job \<Rightarrow> job_generation_row \<Rightarrow> nat \<Rightarrow> job_attempt \<Rightarrow> memory_state \<Rightarrow> memory_state" where
  "insert_rows jid j gr n at st =
     st\<lparr>ms_generations := bt_insert (jid, gr_generation gr) gr (ms_generations st),
        ms_attempts := bt_insert (jid, gr_generation gr, n) at (ms_attempts st),
        ms_jobs := bt_insert jid j (ms_jobs st)\<rparr>"

lemma insert_rows_eq:
  assumes "bt_get (ms_generations st) (jid, gr_generation gr) = None" and "gr_job_id gr = jid" and "ja_job_id at = jid"
    and "ja_generation at = gr_generation gr" and "job_job_id j = jid"
  shows "fst (insert_generation_and_attempt j gr at st) = insert_rows jid j gr (ja_attempt at) at st"
  using assms by (simp add: insert_generation_and_attempt_def insert_rows_def Let_def)

text \<open>A first or next generation: the job root points at it, it is assigned, and its attempt has its number.\<close>

lemma life_ok_insert:
  assumes ok: "life_ok st" and g: "g = gr_generation gr" "gr_state gr = Gen_Assigned" "1 \<le> g"
    and root: "job_job_id j = jid" "validate_id jid = Inr ()" "job_current_generation j = g" "job_state j = Job_Assigned"
      "g \<le> rq_max_attempts (job_requeue j)" "rq_max_attempts (job_requeue j) \<le> MAX_REQUEUE_ATTEMPTS"
      "indexed st jid (job_organization_id j)"
    and past: "\<And>k. bt_get (ms_generations st) (jid, k) \<noteq> None \<longleftrightarrow> 1 \<le> k \<and> k < g"
      "\<And>k n. bt_get (ms_attempts st) (jid, k, n) \<noteq> None \<longleftrightarrow> 1 \<le> k \<and> k < g \<and> n = k"
      "\<And>k. bt_get (ms_results st) (jid, k) = None" "\<And>k. 1 \<le> k \<Longrightarrow> k < g \<Longrightarrow> gen_lost st jid k"
    and leases: "\<And>l. \<not> lease_on st jid g l"
      "\<And>j0. bt_get (ms_jobs st) jid = Some j0 \<Longrightarrow> job_current_generation j0 \<le> g \<and> job_organization_id j = job_organization_id j0"
  shows "life_ok (insert_rows jid j gr g at st)"
proof -
  let ?st = "insert_rows jid j gr g at st"
  have on: "lease_on ?st = lease_on st" by (simp add: fun_eq_iff lease_on_def insert_rows_def)
  have gen: "gen_state ?st i k = (if i = jid \<and> k = g then Some Gen_Assigned else gen_state st i k)" for i k
    using g by (auto simp: gen_state_def insert_rows_def)
  have att: "bt_get (ms_attempts ?st) (i, k, n) = (if i = jid \<and> k = g \<and> n = g then Some at else bt_get (ms_attempts st) (i, k, n))" for i k n
    using g(1) by (simp add: insert_rows_def)
  have res: "ms_results ?st = ms_results st" "ms_leases ?st = ms_leases st" "ms_journal ?st = ms_journal st"
    by (simp_all add: insert_rows_def)
  show ?thesis
  proof (rule life_ok_move [OF ok])
    show "tables_ok ?st" "journal_ok ?st"
      using ok by (simp_all add: life_ok_def tables_ok_def journal_ok_def insert_rows_def)
    show "bt_get (ms_jobs ?st) jid = Some j" by (simp add: insert_rows_def)
    show "bt_get (ms_jobs ?st) i = bt_get (ms_jobs st) i" if "i \<noteq> jid" for i using that by (simp add: insert_rows_def)
    show "job_frame st ?st i" if "i \<noteq> jid" for i using that by (auto simp: job_frame_def gen on att res)
    have lost: "gen_lost ?st jid k" if "1 \<le> k" "k < g" for k
      using past(4) [OF that] that by (auto simp: gen_lost_def gen on)
    have gens: "(bt_get (ms_generations ?st) (jid, k) \<noteq> None) = (1 \<le> k \<and> k \<le> g)" for k
      using past(1) [of k] g(1,3) by (auto simp: insert_rows_def)
    have atts: "(bt_get (ms_attempts ?st) (jid, k, n) \<noteq> None) = (1 \<le> k \<and> k \<le> g \<and> n = k)" for k n
      using past(2) [of k n] g(3) unfolding att by auto
    show "job_ok ?st jid j"
      unfolding job_ok_def root(3) using root g(3) gens atts lost past(3) leases(1)
      by (auto simp: current_ok_def gen on res indexed_def)
    show "leases_unique ?st" using life_okD(4) [OF ok] by (simp add: leases_unique_def res)
    show "lease_ok ?st lid l" if "bt_get (ms_leases ?st) lid = Some l" for lid l
    proof (rule lease_ok_mono)
      show "lease_ok st lid l" using that by (intro life_okD(5) [OF ok]) (simp add: res)
      show "\<exists>j'. bt_get (ms_jobs ?st) i = Some j' \<and> job_current_generation j0 \<le> job_current_generation j' \<and>
          job_organization_id j' = job_organization_id j0" if "bt_get (ms_jobs st) i = Some j0" for i j0
        using that leases(2) root(3) by (auto simp: insert_rows_def)
    qed
  qed
qed

lemma life_ok_requeue:
  assumes ok: "life_ok st" and j: "bt_get (ms_jobs st) jid = Some j" and lost: "gen_lost st jid (job_current_generation j)"
    and open_job: "\<not> job_is_terminal (job_state j)" and left: "max_attempt_number jid st < rq_max_attempts (job_requeue j)"
    and "next": "generation_next (job_current_generation j) = Inr g"
    and rows: "requeue_rows j g (max_attempt_number jid st) t r = (j', gr, at)"
  shows "life_ok (fst (insert_generation_and_attempt j' gr at st))"
proof -
  have job: "job_ok st jid j" by (rule life_okD(6) [OF ok j])
  have cur: "max_attempt_number jid st = job_current_generation j" by (rule max_attempt_number_current [OF job])
  have g: "g = job_current_generation j + 1" using "next" by (simp add: generation_next_ok)
  have small: "g \<le> u32_max"
    using left job_okD(5) [OF job] by (simp add: g cur worker_bounds width_simps)
  have jid: "job_job_id j = jid" by (rule job_okD(1) [OF job])
  note rows' = rows [unfolded requeue_rows_def, symmetric]
  have "\<not> lease_on st jid g l" for l
    using life_okD(5) [OF ok] j by (fastforce simp: lease_on_def lease_ok_def g)
  moreover have "(bt_get (ms_generations st) (jid, k) \<noteq> None) = (1 \<le> k \<and> k < g)"
    "(bt_get (ms_attempts st) (jid, k, n) \<noteq> None) = (1 \<le> k \<and> k < g \<and> n = k)" for k n
    using job_okD(7) [OF job, of k] job_okD(8) [OF job, of k n] by (simp_all add: g less_Suc_eq_le)
  moreover have "gen_lost st jid k" if "1 \<le> k" "k < g" for k
    using that lost job_okD(9) [OF job, of k] by (cases "k = job_current_generation j") (simp_all add: g)
  moreover have "bt_get (ms_results st) (jid, k) = None" for k
    using lost_open_job(2) [OF job lost open_job] job_okD(10) [OF job, of k] by (cases "k = job_current_generation j") simp_all
  ultimately have "life_ok (insert_rows jid j' gr g at st)"
    using rows' jid job_okD(2-6) [OF job] left j
    by (intro life_ok_insert [OF ok]) (simp_all add: g cur)
  moreover have "fst (insert_generation_and_attempt j' gr at st) = insert_rows jid j' gr g at st"
  proof -
    have "ja_attempt at = g" using rows' small by (simp add: cur g sat_u32_def)
    then show ?thesis using insert_rows_eq [of st jid gr at j'] rows' jid job_okD(7) [OF job, of g] by (simp add: g)
  qed
  ultimately show ?thesis by simp
qed

lemma life_ok_mint:
  assumes ok: "life_ok st" and fresh: "bt_get (ms_jobs st) jid = None" and valid: "validate_id jid = Inr ()"
    and policy: "requeue_validate rq = Inr ()" and idx: "indexed st jid organization"
    and rows: "first_rows jid organization td key req digest rq assigned now = (j, gr, at)"
  shows "life_ok (fst (insert_generation_and_attempt j gr at st))"
proof -
  note rows' = rows [unfolded first_rows_def FIRST_def, symmetric]
  have none: "bt_get (ms_generations st) (jid, k) = None" "bt_get (ms_attempts st) (jid, k, n) = None"
    "bt_get (ms_results st) (jid, k) = None" for k n
    using life_okD(3) [OF ok] fresh by (auto simp: orphan_free_def)
  have "\<not> lease_on st jid k l" for k l
    using life_okD(5) [OF ok] fresh by (force simp: lease_on_def lease_ok_def)
  then have "life_ok (insert_rows jid j gr 1 at st)"
    using rows' valid policy idx fresh none
    by (intro life_ok_insert [OF ok]) (auto simp: requeue_validate_def)
  then show ?thesis using insert_rows_eq [of st jid gr at j] rows' none by simp
qed

section \<open>Landing a result\<close>

lemma generation_terminal_simps [simp]:
  "generation_is_terminal Gen_Lost" "generation_is_terminal Gen_Completed"
  "\<not> generation_is_terminal Gen_Assigned" "\<not> generation_is_terminal Gen_Leased"
  by (simp_all add: generation_is_terminal_def)

lemma landing_check_ok:
  "landing_check r st = Inr () \<longleftrightarrow>
     (\<exists>j l. bt_get (ms_jobs st) (res_job_id r) = Some j \<and> job_current_generation j = res_generation r \<and>
        bt_get (ms_leases st) (res_lease_id r) = Some l \<and> wl_worker_id l = res_worker_id r \<and>
        wl_generation l = res_generation r \<and> wl_state l = Lease_Live)"
  by (auto simp: landing_check_def)

lemma life_ok_land:
  assumes ok: "life_ok st" and fresh: "bt_get (ms_results st) (res_job_id r, res_generation r) = None"
    and check: "landing_check r st = Inr ()"
  shows "life_ok (landing_moves r st)"
proof -
  define jid where "jid = res_job_id r"
  obtain j l where j: "bt_get (ms_jobs st) jid = Some j" and g: "res_generation r = job_current_generation j"
    using check by (auto simp: landing_check_ok jid_def)
  let ?g = "job_current_generation j"
  let ?lf = "\<lambda>l. l\<lparr>wl_state := Lease_Completed, wl_ended_ms := Some (res_accepted_ms r)\<rparr>"
  let ?gf = "\<lambda>x. if generation_is_terminal (gr_state x) then x else x\<lparr>gr_state := Gen_Completed, gr_ended_ms := Some (res_accepted_ms r)\<rparr>"
  let ?s1 = "st\<lparr>ms_leases := bt_modify (res_lease_id r) ?lf (ms_leases st)\<rparr>"
  let ?st = "st\<lparr>ms_results := bt_insert (jid, ?g) r (ms_results st), ms_leases := bt_modify (res_lease_id r) ?lf (ms_leases st), ms_generations := bt_modify (jid, ?g) ?gf (ms_generations st),
      ms_jobs := bt_modify jid (\<lambda>j. j\<lparr>job_state := Job_Completed\<rparr>) (ms_jobs st)\<rparr>"
  have ok1: "life_ok ?s1" by (rule life_ok_leases [OF ok]) (simp add: same_lease_def)
  have job: "job_ok ?s1 jid j" using life_okD(6) [OF ok1] j by simp
  have none: "bt_get (ms_results ?s1) (jid, ?g) = None" using fresh by (simp add: jid_def g)
  have on: "lease_on ?st = lease_on ?s1" by (simp add: lease_on_def fun_eq_iff)
  have gen: "gen_state ?st i k = (if i = jid \<and> k = ?g then map_option (\<lambda>s. if generation_is_terminal s then s else Gen_Completed) (gen_state ?s1 jid ?g)
      else gen_state ?s1 i k)" for i k
    by (cases "bt_get (ms_generations st) (jid, ?g)") (auto simp: gen_state_def)
  have lost: "gen_lost ?st i k" if "gen_lost ?s1 i k" for i k
    using that by (auto simp: gen_lost_def gen on)
  have settled: "gen_state ?st jid ?g = Some Gen_Completed \<or> gen_lost ?st jid ?g"
    using job_okD(11) [OF job] none lost [of jid ?g]
    by (auto simp: current_ok_def Let_def gen split: job_state.splits)
  have "life_ok ?st"
  proof (rule life_ok_move [OF ok1])
    show "tables_ok ?st" "journal_ok ?st" using ok by (simp_all add: life_ok_def tables_ok_def journal_ok_def)
    show "bt_get (ms_jobs ?st) jid = Some (j\<lparr>job_state := Job_Completed\<rparr>)" using j by simp
    show "bt_get (ms_jobs ?st) i = bt_get (ms_jobs ?s1) i" if "i \<noteq> jid" for i using that by simp
    show "job_frame ?s1 ?st i" if "i \<noteq> jid" for i using that by (auto simp: job_frame_def gen on)
    show "job_ok ?st jid (j\<lparr>job_state := Job_Completed\<rparr>)"
    proof (rule job_ok_state [OF job])
      show "(gen_state ?st jid k = None) = (gen_state ?s1 jid k = None)" for k by (simp add: gen)
      show "current_ok ?st jid (j\<lparr>job_state := Job_Completed\<rparr>)" using settled by (simp add: current_ok_def)
    qed (use lost in auto)
    have "ms_leases ?st = ms_leases ?s1" by simp
    then show "leases_unique ?st" using life_okD(4) [OF ok1] unfolding leases_unique_def by (simp only:)
    show "lease_ok ?st lid l" if "bt_get (ms_leases ?st) lid = Some l" for lid l
    proof (rule lease_ok_modify [of ?s1 _ _ _ jid "\<lambda>j. j\<lparr>job_state := Job_Completed\<rparr>"])
      show "lease_ok ?s1 lid l" using that by (intro life_okD(5) [OF ok1]) simp
    qed simp_all
  qed
  moreover have "landing_moves r st = modify_first_attempt jid ?g
      (\<lambda>a. if attempt_is_terminal (ja_state a) then a else a\<lparr>ja_state := Att_Completed, ja_ended_ms := Some (res_accepted_ms r)\<rparr>) ?st"
    by (simp add: landing_moves_def jid_def g)
  ultimately show ?thesis by (simp add: modify_first_attempt_ok)
qed

section \<open>The invariant holds in every reachable store\<close>

lemma life_ok_empty: "life_ok empty_store"
  by (simp add: life_ok_def empty_store_def tables_ok_def journal_ok_def orphan_free_def leases_unique_def)

lemma repair_step_ok:
  assumes "repair_step now st st'" and "life_ok st"
  shows "life_ok st'"
  using assms
proof cases
  case (journal e)
  then show ?thesis using assms(2) by (simp add: life_ok_push)
next
  case (accept l j es)
  then show ?thesis using assms(2)
    by (auto simp: try_accept_lease_def intro!: life_ok_pushes life_ok_accept split: option.split)
next
  case (lose jid g l t r)
  then show ?thesis using assms(2) by (simp add: life_ok_lose)
next
  case (attempt jid g n t w l r)
  then show ?thesis using assms(2) by (simp add: life_ok_set_attempt)
next
  case (fail jid j)
  then show ?thesis using assms(2) by (simp add: life_ok_fail)
next
  case (requeue jid j g t r j' gr at)
  then show ?thesis using assms(2) life_ok_requeue by blast
qed

lemma land_result_ok: "life_ok st \<Longrightarrow> life_ok (fst (land_result r st))"
  using life_ok_land [of st r] by (auto simp: land_result_def split: option.split sum.split)

lemma life_step_ok:
  assumes "life_step st st'" and "life_ok st"
  shows "life_ok st'"
  using assms
proof cases
  case (repair now)
  then show ?thesis using assms(2) repair_step_ok by blast
next
  case (mint jid rq organization td key req digest assigned now j gr at)
  then show ?thesis using assms(2) life_ok_mint by blast
qed (simp_all add: life_ok_worker_ops life_ok_lease_ops land_result_ok)

lemma life_steps_ok: "life_step\<^sup>*\<^sup>* st st' \<Longrightarrow> life_ok st \<Longrightarrow> life_ok st'"
  by (induction rule: rtranclp_induct) (auto intro: life_step_ok)

lemma life_reach_ok: "life_reach st \<Longrightarrow> life_ok st"
  unfolding life_reach_def using life_steps_ok life_ok_empty by blast

end
