(* ===== verification/Worker_Refinement.thy ===== *)
theory Worker_Refinement
  imports Worker_Moves
begin

text \<open>
  The service implements the transition system: every operation, run from a store that satisfies the
  invariant and stopped after any number of writes, takes the store along steps of the system. The
  identifiers the service mints are assumed to be new each time.
\<close>

section \<open>Outcomes of the building blocks\<close>

lemma query_eq [simp]: "query f s = (t, Inr v) \<longleftrightarrow> t = s \<and> v = f (pl_store s)"
  by (auto simp: query_def)

lemma checked_eq [simp]: "checked r s = (t, Inr v) \<longleftrightarrow> t = s \<and> r = Inr v"
  by (auto simp: checked_def)

lemma deny_eq [simp]: "deny e s \<noteq> (t, Inr v)"
  by (simp add: deny_def)

lemma refuse_eq [simp]: "refuse e s \<noteq> (t, Inr v)"
  by simp

lemma return_eq [simp]: "return v s = (t, Inr w) \<longleftrightarrow> t = s \<and> w = v"
  by auto

lemma deny_if_eq [simp]: "deny_if c e s = (t, Inr u) \<longleftrightarrow> t = s \<and> \<not> c"
  by (auto simp: deny_if_def)

lemma found_or_eq [simp]: "found_or e x s = (t, Inr v) \<longleftrightarrow> t = s \<and> x = Some v"
  by (auto simp: found_or_def)

lemma denied_eq [simp]: "seq_act m (deny e) s \<noteq> (t, Inr v)" "bind_act m (\<lambda>x. deny (f x)) s \<noteq> (t, Inr v)"
  by (simp_all add: seq_act_eq_Inr bind_act_eq_Inr)

lemma lease_taken_eq [simp]: "lease_taken organization now wid jid g l s \<noteq> (t, Inr v)"
  by (simp add: lease_taken_def)

lemma if_return_eq [simp]:
  "(if c then m else return ()) s = (t, Inr u) \<longleftrightarrow> (c \<and> m s = (t, Inr u) \<or> \<not> c \<and> t = s)"
  by auto

lemma mint_id_eq [simp]:
  "mint_id env kind s = (t, Inr v) \<longleftrightarrow>
     t = s\<lparr>pl_minted := pl_minted s + 1\<rparr> \<and> v = env_mint env kind (pl_minted s) \<and> validate_id v = Inr ()"
  by (auto simp: mint_id_def id_try_new_def)

lemma commit_eq:
  "commit op s = (t, Inr v) \<longleftrightarrow>
     pl_writes_left s \<noteq> Some 0 \<and> snd (op (pl_store s)) = Inr v \<and>
     t = s\<lparr>pl_store := fst (op (pl_store s)), pl_writes_left := map_option (\<lambda>n. n - 1) (pl_writes_left s)\<rparr>"
  by (auto simp: commit_def split: prod.splits)

lemma plane_journal_eq:
  assumes "plane_journal organization kind at_ms w j g d s = (t, Inr u)"
  shows "\<exists>e. pl_store t = push_journal e (pl_store s) \<and> je_organization_id e = organization \<and> je_kind e = kind \<and> je_job_id e = j \<and>
    pl_minted t = pl_minted s"
  using assms
  by (auto simp: plane_journal_def Let_def bind_act_eq_Inr commit_eq append_journal_def journal_entry_new_def with_job_def with_worker_def
      split: if_splits option.splits)

section \<open>Guarded runs\<close>

definition unique_mint :: "plane_env \<Rightarrow> bool" where
  "unique_mint env \<longleftrightarrow> (\<forall>kind n m. env_mint env kind n = env_mint env kind m \<longrightarrow> n = m)"

definition supply_fresh :: "plane_env \<Rightarrow> plane \<Rightarrow> bool" where
  "supply_fresh env s \<longleftrightarrow>
     (\<forall>n\<ge>pl_minted s. bt_get (ms_leases (pl_store s)) (env_mint env ''lease'' n) = None \<and>
                       bt_get (ms_jobs (pl_store s)) (env_mint env ''job'' n) = None)"

definition plane_ok :: "plane_env \<Rightarrow> plane \<Rightarrow> bool" where
  "plane_ok env s \<longleftrightarrow> life_ok (pl_store s) \<and> supply_fresh env s"

definition guarded :: "plane_env \<Rightarrow> (memory_state \<Rightarrow> memory_state \<Rightarrow> bool) \<Rightarrow> plane \<Rightarrow> plane \<Rightarrow> bool" where
  "guarded env Q s t \<longleftrightarrow> (plane_ok env s \<longrightarrow> Q\<^sup>*\<^sup>* (pl_store s) (pl_store t) \<and> plane_ok env t)"

interpretation run: step_preorder "guarded env Q" for env Q
  by unfold_locales (auto simp: guarded_def)

lemma pure_guarded: "fst (m s) = s \<Longrightarrow> related_at (guarded env Q) m s"
  by (simp add: related_at_def guarded_def)

lemma pure_runs [simp]:
  "related_at (guarded env Q) (query f) s" "related_at (guarded env Q) (checked r) s"
  "related_at (guarded env Q) (deny e) s" "related_at (guarded env Q) (deny_if c e) s"
  "related_at (guarded env Q) (found_or e x) s" "related_at (guarded env Q) (return v) s"
  "related_at (guarded env Q) (refuse h) s"
  by (simp_all add: pure_guarded query_def checked_def deny_def deny_if_def found_or_def)

lemma mint_guarded [simp]: "related_at (guarded env Q) (mint_id env' kind) s"
  by (auto simp: related_at_def guarded_def mint_id_def plane_ok_def supply_fresh_def)

text \<open>One write: a step of the system that stores no identifier of the supply.\<close>

lemma commit_guarded:
  assumes "plane_ok env s \<Longrightarrow> Q (pl_store s) (fst (op (pl_store s)))"
    and "\<And>st st'. Q st st' \<Longrightarrow> life_step st st'"
    and "plane_ok env s \<Longrightarrow> supply_fresh env (s\<lparr>pl_store := fst (op (pl_store s))\<rparr>)"
  shows "related_at (guarded env Q) (commit op) s"
proof -
  have "Q (pl_store s) (fst (op (pl_store s))) \<and> plane_ok env (s\<lparr>pl_store := fst (op (pl_store s)), pl_writes_left := w\<rparr>)"
    if ok: "plane_ok env s" for w
  proof -
    have q: "Q (pl_store s) (fst (op (pl_store s)))" by (rule assms(1) [OF ok])
    with assms(2) ok have "life_ok (fst (op (pl_store s)))" using life_step_ok by (auto simp: plane_ok_def)
    with q assms(3) [OF ok] show ?thesis by (simp add: plane_ok_def supply_fresh_def)
  qed
  then show ?thesis
    by (auto simp: related_at_def guarded_def commit_def split: prod.split)
qed

text \<open>Most writes leave the keys of jobs and leases alone.\<close>

lemma keys_fresh:
  assumes "supply_fresh env s"
    and "map fst (ms_leases st) = map fst (ms_leases (pl_store s))" and "map fst (ms_jobs st) = map fst (ms_jobs (pl_store s))"
  shows "supply_fresh env (s\<lparr>pl_store := st\<rparr>)"
proof -
  have "(bt_get (ms_leases st) k = None) = (bt_get (ms_leases (pl_store s)) k = None)"
    "(bt_get (ms_jobs st) k = None) = (bt_get (ms_jobs (pl_store s)) k = None)" for k
    unfolding bt_get_def map_of_eq_None_iff using assms(2,3) by (metis list.set_map)+
  with assms(1) show ?thesis by (simp add: supply_fresh_def)
qed

text \<open>A recovery ends leases besides repairing jobs.\<close>

inductive recovery_step :: "int \<Rightarrow> memory_state \<Rightarrow> memory_state \<Rightarrow> bool" for now where
  repaired: "repair_step now st st' \<Longrightarrow> recovery_step now st st'"
| ended: "to_state \<noteq> Lease_Live \<Longrightarrow> recovery_step now st (fst (end_lease lid g to_state t r st))"

lemma recovery_is_life: "recovery_step now st st' \<Longrightarrow> life_step st st'"
  by (auto elim!: recovery_step.cases intro: life_step.intros)

lemma repair_is_life: "repair_step now st st' \<Longrightarrow> life_step st st'"
  by (rule life_step.repair)

lemma journal_guarded:
  assumes "\<And>st e. Q st (push_journal e st)" and "\<And>st st'. Q st st' \<Longrightarrow> life_step st st'"
  shows "related_at (guarded env Q) (plane_journal organization kind at_ms w j g d) s"
proof -
  have "related_at (guarded env Q) (commit (append_journal e)) t" for e t
    by (rule commit_guarded) (auto simp: assms append_journal_def plane_ok_def intro: keys_fresh)
  then show ?thesis
    unfolding plane_journal_def Let_def by (intro run.related_at_bind) auto
qed

lemma journal_repairs [simp]: "related_at (guarded env (repair_step now)) (plane_journal organization kind at_ms w j g d) s"
  by (rule journal_guarded) (auto intro: repair_step.journal repair_is_life)

lemma journal_lives [simp]: "related_at (guarded env life_step) (plane_journal organization kind at_ms w j g d) s"
  by (rule journal_guarded) (auto intro: life_step.repair repair_step.journal [of 0])

text \<open>A repair is a run of the system.\<close>

lemma guarded_mono: "guarded env Q s t \<Longrightarrow> (\<And>st st'. Q st st' \<Longrightarrow> Q' st st') \<Longrightarrow> guarded env Q' s t"
  unfolding guarded_def by (metis mono_rtranclp)

lemma repairs_recover: "related_at (guarded env (repair_step now)) m s \<Longrightarrow> related_at (guarded env (recovery_step now)) m s"
  by (auto simp: related_at_def intro: guarded_mono recovery_step.repaired)

lemma recoveries_live: "related_at (guarded env (recovery_step now)) m s \<Longrightarrow> related_at (guarded env life_step) m s"
  by (auto simp: related_at_def intro: guarded_mono recovery_is_life)

lemma repairs_live: "related_at (guarded env (repair_step now)) m s \<Longrightarrow> related_at (guarded env life_step) m s"
  by (rule recoveries_live [OF repairs_recover])

section \<open>Leases stay what they are\<close>

lemma same_lease_refl [simp]: "same_lease l l"
  by (simp add: same_lease_def)

lemma same_lease_trans: "same_lease l l' \<Longrightarrow> same_lease l' l'' \<Longrightarrow> same_lease l l''"
  by (auto simp: same_lease_def)

lemma modify_first_attempt_leases [simp]: "ms_leases (modify_first_attempt jid g f st) = ms_leases st"
  by (simp add: modify_first_attempt_def split: option.split)

lemma fold_push_leases [simp]: "ms_leases (fold push_journal es st) = ms_leases st"
  by (induction es arbitrary: st) simp_all

definition leases_persist :: "memory_state \<Rightarrow> memory_state \<Rightarrow> bool" where
  "leases_persist st st' \<longleftrightarrow>
     (\<forall>i l. bt_get (ms_leases st) i = Some l \<longrightarrow> (\<exists>l'. bt_get (ms_leases st') i = Some l' \<and> same_lease l l'))"

lemma leases_persist_refl [simp]: "ms_leases st' = ms_leases st \<Longrightarrow> leases_persist st st'"
  by (simp add: leases_persist_def)

lemma leases_persist_modify:
  "ms_leases st' = bt_modify k f (ms_leases st) \<Longrightarrow> (\<And>l. same_lease l (f l)) \<Longrightarrow> leases_persist st st'"
  by (simp add: leases_persist_def)

lemma leases_persist_trans: "leases_persist st st' \<Longrightarrow> leases_persist st' st'' \<Longrightarrow> leases_persist st st''"
  unfolding leases_persist_def by (metis same_lease_trans)

lemma repair_leases:
  assumes "repair_step now st st'"
  shows "leases_persist st st'"
  using assms
proof cases
  case (accept l j es)
  then show ?thesis
    by (auto simp: try_accept_lease_def lease_moves_def leases_persist_def split: option.split)
qed (auto simp: set_generation_state_def set_attempt_state_def set_job_state_def insert_generation_and_attempt_def Let_def
      split: option.split)

lemma life_leases:
  assumes "life_step st st'"
  shows "leases_persist st st'"
  using assms
proof cases
  case (repair now)
  then show ?thesis by (rule repair_leases)
next
  case (land r)
  then show ?thesis
    by (auto simp: land_result_def landing_moves_def same_lease_def split: option.split sum.split
        intro!: leases_persist_modify [where f = "\<lambda>l. l\<lparr>wl_state := Lease_Completed, wl_ended_ms := Some (res_accepted_ms r)\<rparr>"])
qed (auto simp: put_worker_def touch_worker_def register_worker_with_token_def put_token_def Let_def insert_generation_and_attempt_def
      renew_lease_def end_lease_def same_lease_def intro!: leases_persist_modify split: option.split sum.split)

lemma run_leases: "life_step\<^sup>*\<^sup>* st st' \<Longrightarrow> leases_persist st st'"
  by (induction rule: rtranclp_induct) (auto intro: life_leases leases_persist_trans)

section \<open>Giving a lease\<close>

text \<open>A run only has to be looked at from states that satisfy the invariant.\<close>

lemma guarded_from: "(plane_ok env s \<Longrightarrow> related_at (guarded env Q) m s) \<Longrightarrow> related_at (guarded env Q) m s"
  by (cases "plane_ok env s") (simp_all add: related_at_def guarded_def)

lemmas run_rules = run.related_at_bind run.related_at_seq

lemma guarded_if:
  "(c \<Longrightarrow> related_at (guarded env Q) m s) \<Longrightarrow> (\<not> c \<Longrightarrow> related_at (guarded env Q) n s) \<Longrightarrow>
   related_at (guarded env Q) (if c then m else n) s"
  by simp

lemma guarded_case_option:
  "(x = None \<Longrightarrow> related_at (guarded env Q) m s) \<Longrightarrow> (\<And>v. x = Some v \<Longrightarrow> related_at (guarded env Q) (f v) s) \<Longrightarrow>
   related_at (guarded env Q) (case x of None \<Rightarrow> m | Some v \<Rightarrow> f v) s"
  by (cases x) auto

lemma guarded_case_prod:
  "(\<And>a b. x = (a, b) \<Longrightarrow> related_at (guarded env Q) (f a b) s) \<Longrightarrow> related_at (guarded env Q) (case x of (a, b) \<Rightarrow> f a b) s"
  by (cases x) auto

lemmas guarded_cases = guarded_if guarded_case_option guarded_case_prod

lemma lease_taken_repairs [simp]: "related_at (guarded env (repair_step now)) (lease_taken organization at wid jid g l) s"
  unfolding lease_taken_def by (rule run.related_at_seq) simp_all

lemma new_lease_fields [simp]:
  "wl_lease_id (new_lease organization now wid jid g lid) = lid" "wl_job_id (new_lease organization now wid jid g lid) = jid"
  "wl_generation (new_lease organization now wid jid g lid) = g" "wl_worker_id (new_lease organization now wid jid g lid) = wid"
  "wl_organization_id (new_lease organization now wid jid g lid) = organization"
  "wl_state (new_lease organization now wid jid g lid) = Lease_Live"
  "wl_expires_at_ms (new_lease organization now wid jid g lid) = sat_i64 (now + HEARTBEAT_DEFAULT_INTERVAL_MS)"
  by (simp_all add: new_lease_def clamp_heartbeat_interval_def worker_bounds)

lemma accept_keys_fresh:
  assumes "unique_mint env" and "supply_fresh env s"
    and "t = s\<lparr>pl_minted := pl_minted s + 1\<rparr>" and "wl_lease_id l = env_mint env ''lease'' (pl_minted s)"
  shows "supply_fresh env (t\<lparr>pl_store := fst (try_accept_lease l es (pl_store t))\<rparr>)"
proof -
  have "env_mint env ''lease'' n \<noteq> wl_lease_id l" if "pl_minted s + 1 \<le> n" for n
    using that assms(1,4) unfolding unique_mint_def by fastforce
  then show ?thesis
    using assms(2,3) by (auto simp: supply_fresh_def try_accept_lease_def lease_moves_def split: option.split) (metis Suc_leD)
qed

lemma accept_commit:
  assumes "unique_mint env" and ok: "plane_ok env s" and "t = s\<lparr>pl_minted := pl_minted s + 1\<rparr>"
    and "bt_get (ms_jobs (pl_store s)) (job_job_id job) = Some job" and "g = job_current_generation job"
    and "gen_state (pl_store s) (job_job_id job) g = Some Gen_Assigned"
    and "l = new_lease (job_organization_id job) now wid (job_job_id job) g (env_mint env ''lease'' (pl_minted s))"
  shows "related_at (guarded env (repair_step now)) (commit (try_accept_lease l es)) t"
proof (rule commit_guarded)
  have fresh: "bt_get (ms_leases (pl_store s)) (wl_lease_id l) = None"
    using ok assms(7) by (simp add: plane_ok_def supply_fresh_def)
  show "repair_step now (pl_store t) (fst (try_accept_lease l es (pl_store t)))"
    using assms fresh by (intro repair_step.accept [where j = job]) simp_all
  show "supply_fresh env (t\<lparr>pl_store := fst (try_accept_lease l es (pl_store t))\<rparr>)"
    using ok assms by (intro accept_keys_fresh) (simp_all add: plane_ok_def)
qed (rule repair_is_life)

lemma accept_repairs:
  assumes "unique_mint env" and "bt_get (ms_jobs (pl_store s)) (job_job_id job) = Some job" and "organization = job_organization_id job"
  shows "related_at (guarded env (repair_step now)) (accept_lease_inner env worker organization job g now via) s"
proof (rule guarded_from)
  assume ok: "plane_ok env s"
  show "related_at (guarded env (repair_step now)) (accept_lease_inner env worker organization job g now via) s"
    unfolding accept_lease_inner_def Let_def
    by (intro run_rules guarded_if guarded_case_option accept_commit [OF assms(1) ok])
      (auto simp: assms store_generation_def gen_state_def split: option.splits)
qed

text \<open>Looking for a worker writes nothing.\<close>

lemma fst_bind_pure:
  assumes "fst (m s) = s" and "\<And>v. m s = (s, Inr v) \<Longrightarrow> fst (f v s) = s"
  shows "fst (bind_act m f s) = s"
  using assms by (cases "m s") (auto simp: bind_act_def split: sum.split)

lemma require_eligible_pure [simp]: "fst (require_eligible wid organization td req s) = s"
  unfolding require_eligible_def seq_act_def
  by (intro fst_bind_pure) (simp_all add: query_def deny_if_def found_or_def)

lemma placement_target_pure [simp]: "fst (placement_target organization job s) = s"
proof -
  have "fst (handle (require_eligible wid organization td req) (\<lambda>r. case r of Inr worker \<Rightarrow> return (Some worker)
      | Inl f \<Rightarrow> if tolerated f then return None else refuse f) s) = s" for wid td req
    using require_eligible_pure [of wid organization td req s]
    by (cases "require_eligible wid organization td req s") (auto split: sum.split)
  then show ?thesis by (simp add: placement_target_def find_eligible_def query_def split: option.split)
qed

lemma placement_target_eq: "placement_target organization job s = (t, r) \<Longrightarrow> t = s"
  using placement_target_pure [of organization job s] by simp

lemma placement_runs [simp]: "related_at (guarded env Q) (placement_target organization job) s"
  "related_at (guarded env Q) (require_eligible wid organization td req) s"
  "related_at (guarded env Q) (find_eligible organization td req) s"
  by (simp_all add: pure_guarded) (simp add: find_eligible_def)

lemma place_repairs:
  assumes "unique_mint env" and "bt_get (ms_jobs (pl_store s)) (job_job_id job) = Some job" and "organization = job_organization_id job"
  shows "related_at (guarded env (repair_step now)) (place env organization job now target) s"
  unfolding place_def
  by (intro guarded_case_option run.related_at_handle accept_repairs assms) (auto split: sum.split)

section \<open>Losing a lease\<close>

lemma id_try_new_eq [simp]: "id_try_new x = Inr v \<longleftrightarrow> v = x \<and> validate_id x = Inr ()"
  by (auto simp: id_try_new_def)

lemma insert_keys_fresh:
  assumes "plane_ok env s" and "bt_get (ms_jobs (pl_store s)) (job_job_id j) \<noteq> None"
  shows "supply_fresh env (s\<lparr>pl_store := fst (insert_generation_and_attempt j gr at (pl_store s))\<rparr>)"
  using assms by (auto simp: plane_ok_def supply_fresh_def insert_generation_and_attempt_def Let_def split: option.split)

text \<open>An open job whose current generation is lost: what requeueing it writes.\<close>

lemma next_generation_exists:
  assumes "job_ok st (job_job_id job) job" and "max_attempt_number (job_job_id job) st < rq_max_attempts (job_requeue job)"
  shows "generation_next (job_current_generation job) = Inr (job_current_generation job + 1)"
  using assms(2) job_okD(5) [OF assms(1)] max_attempt_number_current [OF assms(1)]
  by (simp add: generation_next_ok worker_bounds width_simps)

lemma fail_commit:
  assumes "bt_get (ms_jobs (pl_store s)) jid = Some job" and "gen_lost (pl_store s) jid (job_current_generation job)"
    and "\<not> job_is_terminal (job_state job)" and "rq_max_attempts (job_requeue job) \<le> max_attempt_number jid (pl_store s)"
    and "g = job_current_generation job"
  shows "related_at (guarded env (repair_step now)) (commit (set_job_state jid g Job_Failed)) s"
proof (rule commit_guarded)
  show "repair_step now (pl_store s) (fst (set_job_state jid g Job_Failed (pl_store s)))"
    unfolding assms(5) using assms by (intro repair_step.fail)
  show "supply_fresh env (s\<lparr>pl_store := fst (set_job_state jid g Job_Failed (pl_store s))\<rparr>)" if "plane_ok env s"
    using that by (intro keys_fresh) (auto simp: plane_ok_def set_job_state_def split: option.split)
qed (rule repair_is_life)

lemma requeue_commit:
  assumes ok: "plane_ok env s" and j: "bt_get (ms_jobs (pl_store s)) (job_job_id job) = Some job"
    and "gen_lost (pl_store s) (job_job_id job) (job_current_generation job)" and "\<not> job_is_terminal (job_state job)"
    and left: "n < rq_max_attempts (job_requeue job)" and n: "n = max_attempt_number (job_job_id job) (pl_store s)"
    and rows: "requeue_rows job (job_current_generation job + 1) n now reason = (j', gr, at)"
  shows "related_at (guarded env (repair_step now)) (commit (insert_generation_and_attempt j' gr at)) s"
proof (rule commit_guarded)
  have "job_ok (pl_store s) (job_job_id job) job" using ok j by (simp add: plane_ok_def life_okD)
  from next_generation_exists [OF this] show "repair_step now (pl_store s) (fst (insert_generation_and_attempt j' gr at (pl_store s)))"
    using assms by (intro repair_step.requeue) simp_all
  show "supply_fresh env (s\<lparr>pl_store := fst (insert_generation_and_attempt j' gr at (pl_store s))\<rparr>)"
    using ok j rows by (intro insert_keys_fresh) (auto simp: requeue_rows_def)
qed (rule repair_is_life)

lemma requeue_tail_repairs:
  assumes "unique_mint env" and "bt_get (ms_jobs (pl_store u)) (job_job_id j') = Some j'" and "organization' = job_organization_id j'"
  shows "related_at (guarded env (repair_step now)) (seq_act (plane_journal o' kind now w jo g d)
    (bind_act (checked (id_try_new organization')) (\<lambda>organization.
     bind_act (placement_target organization job) (\<lambda>target. bind_act (place env organization j' now target) (\<lambda>_. return rep))))) u"
  using assms by (auto intro!: run_rules place_repairs dest!: plane_journal_eq placement_target_eq)

lemma requeue_inserts:
  assumes job: "job_ok (pl_store s) (job_job_id job) job" and rows: "requeue_rows job (job_current_generation job + 1) n now reason = (j', gr, at)"
    and u: "commit (insert_generation_and_attempt j' gr at) s = (u, Inr inserted)"
  shows "inserted" "bt_get (ms_jobs (pl_store u)) (job_job_id job) = Some j'" "job_job_id j' = job_job_id job"
    "job_organization_id j' = job_organization_id job" "gen_state (pl_store u) (job_job_id job) (job_current_generation j') = Some Gen_Assigned"
proof -
  have "bt_get (ms_generations (pl_store s)) (job_job_id job, job_current_generation job + 1) = None"
    using job_okD(7) [OF job, of "job_current_generation job + 1"] by simp
  then show "inserted" "bt_get (ms_jobs (pl_store u)) (job_job_id job) = Some j'" "job_job_id j' = job_job_id job"
    "job_organization_id j' = job_organization_id job" "gen_state (pl_store u) (job_job_id job) (job_current_generation j') = Some Gen_Assigned"
    using rows u by (auto simp: commit_eq insert_generation_and_attempt_def requeue_rows_def Let_def gen_state_def)
qed

lemma requeue_repairs:
  assumes mint: "unique_mint env" and j: "bt_get (ms_jobs (pl_store s)) (job_job_id job) = Some job"
    and g: "wl_generation lease = job_current_generation job" and lost: "gen_lost (pl_store s) (job_job_id job) (job_current_generation job)"
    and open_job: "\<not> job_is_terminal (job_state job)"
  shows "related_at (guarded env (repair_step now)) (requeue_or_fail env lease reason now report job) s"
proof (rule guarded_from)
  assume ok: "plane_ok env s"
  let ?n = "max_attempt_number (job_job_id job) (pl_store s)"
  have job: "job_ok (pl_store s) (job_job_id job) job" using ok j by (simp add: plane_ok_def life_okD)
  show "related_at (guarded env (repair_step now)) (requeue_or_fail env lease reason now report job) s"
  proof (cases "?n < rq_max_attempts (job_requeue job)")
    case False
    then show ?thesis
      unfolding requeue_or_fail_def Let_def by (auto intro!: run_rules fail_commit [OF j lost open_job] simp: g)
  next
    case True
    obtain j' gr at where rows: "requeue_rows job (job_current_generation job + 1) ?n now reason = (j', gr, at)"
      by (cases "requeue_rows job (job_current_generation job + 1) ?n now reason")
    note inserted = requeue_inserts [OF job rows]
    have tail: "related_at (guarded env (repair_step now)) (seq_act (plane_journal o' kind now w jo g d)
        (bind_act (checked (id_try_new (job_organization_id job))) (\<lambda>organization.
         bind_act (placement_target organization job) (\<lambda>target. bind_act (place env organization j' now target) (\<lambda>_. return rep))))) u"
      if "commit (insert_generation_and_attempt j' gr at) s = (u, Inr v)" for u v o' kind w jo g d rep
      using inserted [OF that] by (intro requeue_tail_repairs [OF mint]) simp_all
    show ?thesis
      unfolding requeue_or_fail_def Let_def using True next_generation_exists [OF job True] rows
      by (auto intro!: run.related_at_bind guarded_if requeue_commit [OF ok j lost open_job] tail)
  qed
qed

text \<open>A generation that is not leased any more, under a lease that is not live: the job can be requeued.\<close>

lemma dead_lease_lost:
  assumes ok: "life_ok st" and j: "bt_get (ms_jobs st) jid = Some j" and open_job: "\<not> job_is_terminal (job_state j)"
    and on: "lease_on st jid (job_current_generation j) l" and "gen_state st jid (job_current_generation j) \<noteq> Some Gen_Leased"
  shows "gen_lost st jid (job_current_generation j)"
  using job_okD(11) [OF life_okD(6) [OF ok j]] assms(3-)
  by (auto simp: current_ok_def Let_def job_is_terminal_def split: job_state.splits)

lemma guarded_commit_ok:
  "related_at (guarded env Q) m s \<Longrightarrow> plane_ok env s \<Longrightarrow> m s = (t, r) \<Longrightarrow> plane_ok env t"
  by (simp add: related_at_def guarded_def)

lemma lose_commit:
  assumes "lease_on (pl_store s) jid g l" and "wl_state l \<noteq> Lease_Live"
  shows "related_at (guarded env (repair_step now)) (commit (set_generation_state jid g Gen_Leased Gen_Lost t r)) s"
proof (rule commit_guarded)
  show "repair_step now (pl_store s) (fst (set_generation_state jid g Gen_Leased Gen_Lost t r (pl_store s)))"
    by (rule repair_step.lose [OF assms])
  show "supply_fresh env (s\<lparr>pl_store := fst (set_generation_state jid g Gen_Leased Gen_Lost t r (pl_store s))\<rparr>)" if "plane_ok env s"
    using that by (intro keys_fresh) (auto simp: plane_ok_def set_generation_state_def split: option.split)
qed (rule repair_is_life)

lemma attempt_commit:
  "related_at (guarded env (repair_step now)) (commit (set_attempt_state jid g n Att_Leased Att_Lost t w l r)) s"
proof (rule commit_guarded)
  show "repair_step now (pl_store s) (fst (set_attempt_state jid g n Att_Leased Att_Lost t w l r (pl_store s)))"
    by (rule repair_step.attempt)
  show "supply_fresh env (s\<lparr>pl_store := fst (set_attempt_state jid g n Att_Leased Att_Lost t w l r (pl_store s))\<rparr>)" if "plane_ok env s"
    using that by (intro keys_fresh) (auto simp: plane_ok_def set_attempt_state_def split: option.split)
qed (rule repair_is_life)

text \<open>What is known of the store after the generation was given up: the rows the later steps read.\<close>

lemma lease_on_cong: "ms_leases st' = ms_leases st \<Longrightarrow> lease_on st' = lease_on st"
  by (simp add: fun_eq_iff lease_on_def)

lemma gen_state_cong: "ms_generations st' = ms_generations st \<Longrightarrow> gen_state st' = gen_state st"
  by (simp add: fun_eq_iff gen_state_def)

lemma attempt_frame [simp]:
  "ms_leases (fst (set_attempt_state jid g n a b t w l r st)) = ms_leases st"
  "ms_generations (fst (set_attempt_state jid g n a b t w l r st)) = ms_generations st"
  "ms_leases (fst (set_generation_state jid g x y t r st)) = ms_leases st"
  by (simp_all add: set_attempt_state_def set_generation_state_def split: option.split)

lemma lost_not_leased: "gen_state (fst (set_generation_state jid g Gen_Leased Gen_Lost t r st)) jid g \<noteq> Some Gen_Leased"
  by (auto simp: set_generation_state_def gen_state_def split: option.split)

lemma finish_repairs:
  assumes mint: "unique_mint env" and on: "lease_on (pl_store s) (wl_job_id lease) (wl_generation lease) l" and dead: "wl_state l \<noteq> Lease_Live"
  shows "related_at (guarded env (repair_step now)) (finish_lost_lease env lease reason now report) s"
proof (rule guarded_from)
  assume ok: "plane_ok env s"
  let ?R = "guarded env (repair_step now)"
  let ?jid = "wl_job_id lease" and ?g = "wl_generation lease"
  have tail: "related_at ?R (requeue_or_fail env lease reason now report job) t"
    if "plane_ok env t" "lease_on (pl_store t) ?jid ?g l" "gen_state (pl_store t) ?jid ?g \<noteq> Some Gen_Leased"
      "store_job ?jid (pl_store t) = Some job" "job_current_generation job = ?g" "\<not> job_is_terminal (job_state job)" for t job
  proof -
    have j: "bt_get (ms_jobs (pl_store t)) ?jid = Some job" using that by (simp add: store_job_def)
    have jid: "job_job_id job = ?jid" using that(1) j by (auto simp: plane_ok_def dest: life_okD(6) job_okD(1))
    have "gen_lost (pl_store t) ?jid (job_current_generation job)"
      using that j by (intro dead_lease_lost) (simp_all add: plane_ok_def)
    then show ?thesis using j that(5,6) by (intro requeue_repairs [OF mint]) (simp_all add: jid)
  qed
  show "related_at ?R (finish_lost_lease env lease reason now report) s"
    unfolding finish_lost_lease_def Let_def
  proof (intro run_rules guarded_if guarded_case_option lose_commit [OF on dead] attempt_commit journal_repairs pure_runs)
    fix v t n u w u' u'' found job x
    assume t: "commit (set_generation_state ?jid ?g Gen_Leased Gen_Lost (Some now) (Some reason)) s = (t, Inr v)"
      and n: "query (attempt_number_for ?jid ?g) t = (u, Inr n)"
      and w: "commit (set_attempt_state ?jid ?g n Att_Leased Att_Lost (Some now) (Some (wl_worker_id lease)) (Some (wl_lease_id lease)) (Some reason)) u = (u', Inr w)"
      and j: "plane_journal (wl_organization_id lease) ''lease_expired'' now (Some (wl_worker_id lease)) (Some ?jid) (Some ?g)
        ((''lease='' @ wl_lease_id lease) @ '' reason='' @ reason) u' = (u'', Inr ())"
      and f: "query (store_job ?jid) u'' = (x, Inr found)" "found = Some job"
        "\<not> (job_current_generation job \<noteq> ?g \<or> job_is_terminal (job_state job))"
    have "plane_ok env t" by (rule guarded_commit_ok [OF lose_commit [OF on dead] ok t])
    then have "plane_ok env u'" using guarded_commit_ok [OF attempt_commit _ w] n by simp
    then have "plane_ok env u''" using guarded_commit_ok [OF journal_repairs _ j] by simp
    moreover have "lease_on (pl_store u'') = lease_on (pl_store s)"
      by (rule lease_on_cong) (use t n w plane_journal_eq [OF j] in \<open>auto simp: commit_eq\<close>)
    moreover have "gen_state (pl_store u'') = gen_state (fst (set_generation_state ?jid ?g Gen_Leased Gen_Lost (Some now) (Some reason) (pl_store s)))"
      by (rule gen_state_cong) (use t n w plane_journal_eq [OF j] in \<open>auto simp: commit_eq\<close>)
    ultimately show "related_at ?R (requeue_or_fail env lease reason now report job) x"
      using f on lost_not_leased by (intro tail) simp_all
  qed
qed

text \<open>A lease the caller read earlier may have ended since; it is still stored under its identifier.\<close>

definition known_lease :: "memory_state \<Rightarrow> worker_lease \<Rightarrow> bool" where
  "known_lease st l \<longleftrightarrow> (\<exists>l'. bt_get (ms_leases st) (wl_lease_id l) = Some l' \<and> same_lease l l')"

lemma known_run: "life_step\<^sup>*\<^sup>* st st' \<Longrightarrow> known_lease st l \<Longrightarrow> known_lease st' l"
  using run_leases unfolding known_lease_def leases_persist_def by (metis same_lease_trans)

lemma recovery_run_life: "(recovery_step now)\<^sup>*\<^sup>* st st' \<Longrightarrow> life_step\<^sup>*\<^sup>* st st'"
  by (induction rule: rtranclp_induct) (auto intro: recovery_is_life rtranclp.rtrancl_into_rtrancl)

lemma known_recovery: "(recovery_step now)\<^sup>*\<^sup>* st st' \<Longrightarrow> known_lease st l \<Longrightarrow> known_lease st' l"
  using known_run recovery_run_life by blast

lemma end_commit:
  "to_state \<noteq> Lease_Live \<Longrightarrow> related_at (guarded env (recovery_step now)) (commit (end_lease lid g to_state t r)) s"
proof (rule commit_guarded)
  show "supply_fresh env (s\<lparr>pl_store := fst (end_lease lid g to_state t r (pl_store s))\<rparr>)" if "plane_ok env s"
    using that by (intro keys_fresh) (auto simp: plane_ok_def end_lease_def split: option.split)
qed (auto intro: recovery_step.ended recovery_is_life)

lemma end_requeue_recovers:
  assumes mint: "unique_mint env" and known: "known_lease (pl_store s) lease" and to: "to_state \<noteq> Lease_Live"
  shows "related_at (guarded env (recovery_step now)) (end_lease_and_requeue env lease to_state reason now report) s"
proof -
  obtain l where l: "bt_get (ms_leases (pl_store s)) (wl_lease_id lease) = Some l" and same: "same_lease lease l"
    using known by (auto simp: known_lease_def)
  let ?l = "l\<lparr>wl_state := to_state, wl_ended_ms := Some now, wl_reason := Some reason\<rparr>"
  have "related_at (guarded env (recovery_step now)) (finish_lost_lease env lease reason now rep) t"
    if t: "commit (end_lease (wl_lease_id lease) (wl_generation lease) to_state now reason) s = (t, Inr True)" for t rep
  proof -
    have "bt_get (ms_leases (pl_store t)) (wl_lease_id lease) = Some ?l"
      using t l by (auto simp: commit_eq end_lease_def split: if_splits)
    then have "lease_on (pl_store t) (wl_job_id lease) (wl_generation lease) ?l"
      using same unfolding lease_on_def same_lease_def by auto
    from finish_repairs [OF mint this] to show ?thesis by (intro repairs_recover) simp
  qed
  then show ?thesis
    unfolding end_lease_and_requeue_def by (intro run_rules end_commit [OF to] guarded_if) simp_all
qed

lemma fold_known_recovers:
  assumes known: "plane_ok env s \<Longrightarrow> \<forall>l\<in>set leases. known_lease (pl_store s) l"
    and step: "\<And>report l t. known_lease (pl_store t) l \<Longrightarrow> related_at (guarded env (recovery_step now)) (f report l) t"
  shows "related_at (guarded env (recovery_step now)) (fold_act f report leases) s"
proof (rule guarded_from)
  assume ok: "plane_ok env s"
  show "related_at (guarded env (recovery_step now)) (fold_act f report leases) s"
  proof (rule run.related_at_fold)
    fix report l t
    assume "l \<in> set leases" and "guarded env (recovery_step now) s t"
    with ok known have "known_lease (pl_store t) l" by (auto simp: guarded_def intro: known_recovery)
    then show "related_at (guarded env (recovery_step now)) (f report l) t" by (rule step)
  qed
qed

lemma live_leases_known:
  assumes "plane_ok env s"
  shows "\<forall>l\<in>set (live_leases organization (pl_store s)). known_lease (pl_store s) l"
    "\<forall>l\<in>set (live_leases_of_worker wid (pl_store s)). known_lease (pl_store s) l"
proof -
  have "bt_ok (ms_leases (pl_store s))" using assms by (simp add: plane_ok_def life_ok_def tables_ok_def)
  moreover have "wl_lease_id l = i" if "bt_get (ms_leases (pl_store s)) i = Some l" for i l
    using that assms life_okD(5) by (fastforce simp: plane_ok_def lease_ok_def)
  ultimately show "\<forall>l\<in>set (live_leases organization (pl_store s)). known_lease (pl_store s) l"
    "\<forall>l\<in>set (live_leases_of_worker wid (pl_store s)). known_lease (pl_store s) l"
    by (auto simp: live_leases_def live_leases_of_worker_def known_lease_def bt_values_iff)
qed

lemma stored_known:
  assumes "plane_ok env s" and "store_lease lid (pl_store s) = Some l"
  shows "known_lease (pl_store s) l"
  using assms life_okD(5) [of "pl_store s" lid l] by (auto simp: known_lease_def store_lease_def plane_ok_def lease_ok_def)

section \<open>The operations of the service\<close>

lemma write_lives:
  assumes "\<And>st. life_step st (fst (op st))" and "\<And>st. map fst (ms_leases (fst (op st))) = map fst (ms_leases st)"
    and "\<And>st. ms_jobs (fst (op st)) = ms_jobs st"
  shows "related_at (guarded env life_step) (commit op) s"
proof (rule commit_guarded)
  show "life_step (pl_store s) (fst (op (pl_store s)))" by (rule assms(1))
  show "supply_fresh env (s\<lparr>pl_store := fst (op (pl_store s))\<rparr>)" if "plane_ok env s"
    using that by (intro keys_fresh) (simp_all add: assms plane_ok_def)
qed

lemma registry_writes [simp]:
  "related_at (guarded env life_step) (commit (put_worker w)) s"
  "related_at (guarded env life_step) (commit (touch_worker wid t)) s"
  "related_at (guarded env life_step) (commit (register_worker_with_token w tok e)) s"
  "related_at (guarded env life_step) (commit (put_token tok)) s"
  "related_at (guarded env life_step) (commit (renew_lease lid g t t')) s"
  by (rule write_lives, (rule life_step.intros),
      simp_all add: put_worker_def touch_worker_def register_worker_with_token_def put_token_def renew_lease_def Let_def
        split: option.split sum.split)+

lemma authenticate_pure [simp]: "fst (authenticate env wid token s) = s" "fst (authenticate_in env organization wid token s) = s"
proof -
  show auth: "fst (authenticate env wid token s) = s" for s
    unfolding authenticate_def seq_act_def Let_def
    by (intro fst_bind_pure) (auto simp: query_def deny_if_def found_or_def deny_def split: option.split)
  show "fst (authenticate_in env organization wid token s) = s"
    unfolding authenticate_in_def seq_act_def
    by (intro fst_bind_pure auth) (simp_all add: deny_if_def)
qed

lemma authenticate_in_eq:
  "authenticate_in env organization wid token s = (t, Inr worker) \<Longrightarrow>
     t = s \<and> store_worker wid (pl_store s) = Some worker \<and> \<not> wr_revoked worker \<and> wr_organization_id worker = organization \<and>
     wr_token_hash worker = env_hash env token"
  by (auto simp: authenticate_in_def authenticate_def bind_act_eq_Inr seq_act_eq_Inr Let_def split: option.splits if_splits)

lemma authenticate_runs [simp]: "related_at (guarded env' Q) (authenticate_in env organization wid token) s"
  by (simp add: pure_guarded)

lemma require_job_eq:
  "require_job organization jid s = (t, Inr job) \<longleftrightarrow>
     t = s \<and> store_job jid (pl_store s) = Some job \<and> job_organization_id job = organization"
  by (auto simp: require_job_def bind_act_eq_Inr seq_act_eq_Inr)

lemma require_job_runs [simp]: "related_at (guarded env Q) (require_job organization jid) s"
  unfolding require_job_def by (intro run_rules) simp_all

lemma registration_lives:
  "related_at (guarded env life_step) (mint_registration_token env' now token organization td label) s"
  "related_at (guarded env life_step) (revoke_token organization hash) s"
  "related_at (guarded env life_step) (register env' now organization wid token caps name) s"
  unfolding mint_registration_token_def revoke_token_def register_def Let_def
  by (intro run_rules guarded_cases; simp)+

lemma revoke_worker_lives:
  assumes "unique_mint env"
  shows "related_at (guarded env life_step) (revoke_worker env now organization wid) s"
  unfolding revoke_worker_def Let_def
  by (intro run_rules guarded_case_option recoveries_live [OF fold_known_recovers [where now = now]] end_requeue_recovers [OF assms])
    (auto dest: live_leases_known)

lemma job_stored: "plane_ok env s \<Longrightarrow> store_job jid (pl_store s) = Some job \<Longrightarrow> job_job_id job = jid"
  by (auto simp: plane_ok_def store_job_def dest: life_okD(6) job_okD(1))

lemma accept_stored:
  assumes "unique_mint env" and "store_job jid (pl_store s) = Some job" and "organization = job_organization_id job"
  shows "related_at (guarded env (repair_step now)) (accept_lease_inner env worker organization job g now via) s"
  by (rule guarded_from, rule accept_repairs) (use assms in \<open>auto dest: job_stored simp: store_job_def\<close>)

lemma accept_lease_lives:
  assumes "unique_mint env"
  shows "related_at (guarded env life_step) (accept_lease env now organization wid token pv jid g) s"
  unfolding accept_lease_def
  by (intro run_rules repairs_live [where now = now] accept_stored [OF assms]) (auto simp: require_job_eq)

lemma mint_commit:
  assumes mint: "unique_mint env" and ok: "plane_ok env s" and jid: "jid = env_mint env ''job'' (pl_minted s)" "validate_id jid = Inr ()"
    and t: "pl_minted t = pl_minted s + 1" "pl_store t = push_journal e (pl_store s)"
    and e: "je_organization_id e = organization" "je_kind e = ''job_scheduled''" "je_job_id e = Some jid"
    and rq: "requeue_validate rq = Inr ()" and rows: "first_rows jid organization td key req digest rq assigned now = (j, gr, at)"
  shows "related_at (guarded env life_step) (commit (insert_generation_and_attempt j gr at)) t"
proof (rule commit_guarded)
  have "indexed (pl_store t) jid organization"
    using e by (auto simp: indexed_def t(2) push_journal_def index_job_id_def)
  moreover have "bt_get (ms_jobs (pl_store t)) jid = None"
    using ok by (simp add: plane_ok_def supply_fresh_def t(2) jid(1))
  ultimately show "life_step (pl_store t) (fst (insert_generation_and_attempt j gr at (pl_store t)))"
    using jid(2) rq rows by (intro life_step.mint)
  have "env_mint env ''job'' n \<noteq> jid" if "pl_minted t \<le> n" for n
    using that mint unfolding unique_mint_def jid(1) t(1) by fastforce
  moreover have "job_job_id j = jid" using rows by (auto simp: first_rows_def)
  ultimately show "supply_fresh env (t\<lparr>pl_store := fst (insert_generation_and_attempt j gr at (pl_store t))\<rparr>)" if "plane_ok env t"
    using that by (auto simp: plane_ok_def supply_fresh_def insert_generation_and_attempt_def Let_def split: option.split)
qed

lemma mint_stored:
  assumes ok: "plane_ok env s" and jid: "jid = env_mint env ''job'' (pl_minted s)"
    and t: "pl_store t = push_journal e (pl_store s)"
    and rows: "first_rows jid organization td key req digest rq assigned now = (j, gr, at)"
    and u: "commit (insert_generation_and_attempt j gr at) t = (u, Inr inserted)"
  shows "bt_get (ms_jobs (pl_store u)) (job_job_id j) = Some j" "job_organization_id j = organization"
proof -
  have "bt_get (ms_jobs (pl_store s)) jid = None" using ok by (simp add: plane_ok_def supply_fresh_def jid)
  then have "bt_get (ms_generations (pl_store t)) (jid, k) = None" for k
    using ok by (simp add: plane_ok_def life_ok_def orphan_free_def t)
  then show "bt_get (ms_jobs (pl_store u)) (job_job_id j) = Some j" "job_organization_id j = organization"
    using u rows by (auto simp: commit_eq insert_generation_and_attempt_def first_rows_def Let_def)
qed

lemma chosen_worker_pure:
  "(case assigned of None \<Rightarrow> find_eligible organization td req
    | Some wid \<Rightarrow> bind_act (require_eligible wid organization td req) (\<lambda>w. return (Some w))) s = (t, Inr v) \<Longrightarrow> t = s"
  by (auto simp: find_eligible_def bind_act_eq_Inr split: option.splits dest: arg_cong [where f = fst])

lemma schedule_lives:
  assumes mint: "unique_mint env"
  shows "related_at (guarded env life_step) (schedule_job env now organization td key req digest rq assigned) s"
proof (rule guarded_from)
  assume ok: "plane_ok env s"
  show "related_at (guarded env life_step) (schedule_job env now organization td key req digest rq assigned) s"
    unfolding schedule_job_def Let_def
    by (intro run_rules guarded_cases)
      (auto simp del: append.simps dest!: chosen_worker_pure plane_journal_eq
        intro!: mint_commit [OF mint ok] repairs_live [OF accept_repairs [OF mint]]
        dest: mint_stored [OF ok refl] mint_stored(2) [OF ok refl, symmetric])
qed

lemma heartbeat_lives:
  assumes "unique_mint env"
  shows "related_at (guarded env life_step) (heartbeat env now organization wid token pv lid g) s"
proof (rule guarded_from)
  assume ok: "plane_ok env s"
  show "related_at (guarded env life_step) (heartbeat env now organization wid token pv lid g) s"
    unfolding heartbeat_def Let_def
    by (intro run_rules guarded_cases recoveries_live [OF end_requeue_recovers [OF assms]])
      (auto dest!: authenticate_in_eq simp: seq_act_eq_Inr bind_act_eq_Inr intro: stored_known [OF ok])
qed

lemma land_commit [simp]: "related_at (guarded env life_step) (commit (land_result r)) s"
proof (rule commit_guarded)
  show "life_step (pl_store s) (fst (land_result r (pl_store s)))" by (rule life_step.land)
  show "supply_fresh env (s\<lparr>pl_store := fst (land_result r (pl_store s))\<rparr>)" if "plane_ok env s"
    using that by (intro keys_fresh) (auto simp: plane_ok_def land_result_def landing_moves_def split: option.split sum.split)
qed

lemma land_under_lease_lives:
  assumes "unique_mint env"
  shows "related_at (guarded env life_step) (land_under_lease env now organization wid job g lid digest outcome claim) s"
proof (rule guarded_from)
  assume ok: "plane_ok env s"
  show "related_at (guarded env life_step) (land_under_lease env now organization wid job g lid digest outcome claim) s"
    unfolding land_under_lease_def Let_def
    by (intro run_rules guarded_cases recoveries_live [OF end_requeue_recovers [OF assms]])
      (auto intro: stored_known [OF ok] intro!: run_rules split: result_append.split)
qed

lemma submit_lives:
  assumes "unique_mint env"
  shows "related_at (guarded env life_step) (submit_result_with_claim env now organization wid token pv jid g lid digest outcome claim) s"
  unfolding submit_result_with_claim_def replayed_result_def
  by (intro run_rules guarded_cases land_under_lease_lives [OF assms]) simp_all

lemma adoptable_lives: "related_at (guarded env' life_step) (adoptable_lease env now organization wid token pv) s"
  unfolding adoptable_lease_def by (intro run_rules guarded_cases) simp_all

section \<open>Walks over the journal\<close>

lemma claim_job_repairs:
  assumes "unique_mint env"
  shows "related_at (guarded env (repair_step now)) (claim_job env organization worker now raw) s"
  unfolding claim_job_def
  by (cases "id_try_new raw")
    (auto intro!: run_rules guarded_cases run.related_at_handle accept_stored [OF assms] simp: claimable_def split: sum.split)

lemma claim_entries_repairs:
  assumes "unique_mint env"
  shows "related_at (guarded env (repair_step now)) (claim_entries env organization worker now page acc) s"
proof (induction page arbitrary: acc s)
  case (Cons entry page)
  then show ?case
    by (cases acc) (auto intro!: run_rules guarded_cases claim_job_repairs [OF assms] split: option.split)
qed simp

lemma claim_pages_repairs:
  assumes "unique_mint env"
  shows "related_at (guarded env (repair_step now)) (claim_pages env organization worker now after acc) s"
  using assms
proof (induction env organization worker now after acc s rule: claim_pages.induct)
  case (1 env organization worker now after scanned seen s)
  let ?page = "store_journal organization after MAX_JOURNAL_PAGE (pl_store s)"
  have page: "guarded env (repair_step now) s (fst (claim_entries env organization worker now ?page (scanned, seen) s))"
    using claim_entries_repairs [OF 1(2)] by (simp add: related_at_def)
  show ?case
    unfolding related_at_def claim_pages.simps [of env organization worker now after scanned seen s] Let_def
    using page 1 by (auto simp: related_at_def run.refl intro: run.trans split: prod.split sum.split)
qed

lemma claim_next_lives:
  assumes "unique_mint env"
  shows "related_at (guarded env life_step) (claim_next env now organization wid token pv) s"
  unfolding claim_next_def
  by (intro run_rules repairs_live [OF claim_pages_repairs [OF assms]]) simp_all

lemma sweep_job_repairs:
  assumes "unique_mint env"
  shows "related_at (guarded env (repair_step now)) (sweep_job env sweep organization now raw report) s"
proof (rule guarded_from)
  assume ok: "plane_ok env s"
  have target: "related_at (guarded env (repair_step now)) (place env (job_organization_id job) job now target) t"
    if "placement_target (job_organization_id job) job s = (t, Inr target)" "store_job raw (pl_store s) = Some job"
    for job target t
    using that job_stored [OF ok that(2)] placement_target_eq [OF that(1)] by (intro place_repairs [OF assms]) (simp_all add: store_job_def)
  have lost: "related_at (guarded env (repair_step now)) (finish_lost_lease env l reason now rep) s"
    if "lease_for_generation raw g (pl_store s) = Some l" "wl_state l \<noteq> Lease_Live" for g l reason rep
    using that ok by (intro finish_repairs [OF assms, where l = l]) (auto simp: plane_ok_def lease_for_generation_iff lease_on_def)
  show "related_at (guarded env (repair_step now)) (sweep_job env sweep organization now raw report) s"
    unfolding sweep_job_def interrupted_job_def unleased_job_def
    by (cases sweep) (auto intro!: run_rules guarded_cases target lost split: sum.split)
qed

lemma sweep_entries_repairs:
  assumes "unique_mint env"
  shows "related_at (guarded env (repair_step now)) (sweep_entries env sweep organization now page acc) s"
proof (induction page arbitrary: acc s)
  case (Cons entry page)
  then show ?case
    by (cases acc) (auto intro!: run_rules guarded_cases sweep_job_repairs [OF assms] split: option.split)
qed simp

lemma sweep_pages_repairs:
  assumes "unique_mint env"
  shows "related_at (guarded env (repair_step now)) (sweep_pages env sweep organization now after acc) s"
  using assms
proof (induction env sweep organization now after acc s rule: sweep_pages.induct)
  case (1 env sweep organization now after seen report s)
  let ?page = "store_journal organization after MAX_JOURNAL_PAGE (pl_store s)"
  have page: "guarded env (repair_step now) s (fst (sweep_entries env sweep organization now ?page (seen, report) s))"
    using sweep_entries_repairs [OF 1(2)] by (simp add: related_at_def)
  show ?case
    unfolding related_at_def sweep_pages.simps [of env sweep organization now after seen report s] Let_def
    using page 1 by (auto simp: related_at_def run.refl intro: run.trans split: prod.split sum.split)
qed

lemma recover_recovers:
  assumes "unique_mint env"
  shows "related_at (guarded env (recovery_step now)) (recover env now organization) s"
  unfolding recover_def recover_lease_def finish_interrupted_lease_losses_def
  by (intro run_rules guarded_cases fold_known_recovers end_requeue_recovers [OF assms] repairs_recover [OF sweep_pages_repairs [OF assms]])
    (auto dest: live_leases_known)

lemma recover_lives:
  assumes "unique_mint env"
  shows "related_at (guarded env life_step) (recover env now organization) s"
  by (rule recoveries_live [OF recover_recovers [OF assms]])

lemma resume_lives:
  assumes "unique_mint env"
  shows "related_at (guarded env life_step) (resume_assignments env now organization) s"
  unfolding resume_assignments_def
  by (intro run_rules repairs_live [OF sweep_pages_repairs [OF assms]]) simp_all

section \<open>Runs of the service\<close>

text \<open>
  A run of the service: any operation with any arguments, the rejected and the crashed ones included.
  A restarted process finds the store as it was left and survives any number of writes.
\<close>

inductive service_step :: "plane_env \<Rightarrow> plane \<Rightarrow> plane \<Rightarrow> bool" for env where
  token: "service_step env s (fst (mint_registration_token env now token organization td label s))"
| token_revoked: "service_step env s (fst (revoke_token organization hash s))"
| registered: "service_step env s (fst (register env now organization wid token caps name s))"
| revoked: "service_step env s (fst (revoke_worker env now organization wid s))"
| scheduled: "service_step env s (fst (schedule_job env now organization td key req digest rq assigned s))"
| accepted: "service_step env s (fst (accept_lease env now organization wid token pv jid g s))"
| heartbeat: "service_step env s (fst (heartbeat env now organization wid token pv lid g s))"
| submitted: "service_step env s (fst (submit_result_with_claim env now organization wid token pv jid g lid digest outcome claim s))"
| claimed: "service_step env s (fst (claim_next env now organization wid token pv s))"
| adopted: "service_step env s (fst (adoptable_lease env now organization wid token pv s))"
| recovered: "service_step env s (fst (recover env now organization s))"
| resumed: "service_step env s (fst (resume_assignments env now organization s))"
| restarted: "service_step env s (s\<lparr>pl_writes_left := n\<rparr>)"

definition new_plane :: "nat option \<Rightarrow> plane" where
  "new_plane n = \<lparr>pl_store = empty_store, pl_minted = 0, pl_writes_left = n\<rparr>"

definition service_reach :: "plane_env \<Rightarrow> plane \<Rightarrow> bool" where
  "service_reach env s \<longleftrightarrow> (\<exists>n. (service_step env)\<^sup>*\<^sup>* (new_plane n) s)"

lemma service_step_guarded:
  assumes "unique_mint env" and "service_step env s t"
  shows "guarded env life_step s t"
  using assms(2)
proof cases
  case (restarted n)
  then show ?thesis by (simp add: guarded_def plane_ok_def supply_fresh_def)
qed (use assms(1) in \<open>simp_all only: related_at_def [symmetric] registration_lives revoke_worker_lives schedule_lives accept_lease_lives
     heartbeat_lives submit_lives claim_next_lives adoptable_lives recover_lives resume_lives\<close>)

lemma new_plane_ok: "plane_ok env (new_plane n)"
  unfolding plane_ok_def
proof
  show "life_ok (pl_store (new_plane n))" by (simp add: new_plane_def life_ok_empty)
qed (simp add: new_plane_def supply_fresh_def empty_store_def)

lemma service_run_guarded:
  assumes "unique_mint env" and "(service_step env)\<^sup>*\<^sup>* s t"
  shows "guarded env life_step s t"
  using assms(2) by (induction rule: rtranclp_induct) (auto intro: run.refl run.trans service_step_guarded [OF assms(1)])

lemma service_reach_life:
  assumes "unique_mint env" and "service_reach env s"
  shows "plane_ok env s" "life_reach (pl_store s)"
  using assms service_run_guarded new_plane_ok
  by (auto simp: service_reach_def guarded_def life_reach_def new_plane_def) (metis new_plane_def plane.select_convs(1))+

end
