(* ===== verification/Worker_Recovery.thy ===== *)
theory Worker_Recovery
  imports Worker_Refinement
begin

text \<open>
  What a completed recovery leaves behind: no live lease of the organization that is past its expiry,
  and no open job of it that is neither waiting nor under a live lease, wherever the process stopped
  before.
\<close>

section \<open>No lease comes back to life\<close>

text \<open>A lease that is live and expired after the steps was so before, unchanged.\<close>

definition no_new_expired :: "int \<Rightarrow> memory_state \<Rightarrow> memory_state \<Rightarrow> bool" where
  "no_new_expired now st st' \<longleftrightarrow>
     (\<forall>i l. bt_get (ms_leases st') i = Some l \<longrightarrow> wl_state l = Lease_Live \<longrightarrow> lease_is_expired_at l now \<longrightarrow>
        bt_get (ms_leases st) i = Some l)"

lemma no_new_expired_same: "ms_leases st' = ms_leases st \<Longrightarrow> no_new_expired now st st'"
  by (simp add: no_new_expired_def)

lemma no_new_expired_trans: "no_new_expired now st st' \<Longrightarrow> no_new_expired now st' st'' \<Longrightarrow> no_new_expired now st st''"
  by (simp add: no_new_expired_def)

lemma fresh_lease_unexpired: "now < i64_max \<Longrightarrow> \<not> sat_i64 (now + HEARTBEAT_DEFAULT_INTERVAL_MS) \<le> now"
  by (auto simp: sat_i64_def worker_bounds width_simps)

lemma recovery_no_new_expired:
  assumes "recovery_step now st st'" and "now < i64_max"
  shows "no_new_expired now st st'"
  using assms(1)
proof cases
  case (ended to_state lid g t r)
  then show ?thesis by (auto simp: no_new_expired_def end_lease_def split: option.splits if_splits)
next
  case repaired
  then show ?thesis
  proof cases
    case (accept l j es)
    then show ?thesis
      using fresh_lease_unexpired [OF assms(2)]
      by (auto simp: no_new_expired_def try_accept_lease_def lease_moves_def lease_is_expired_at_def split: option.splits if_splits)
  qed (auto intro!: no_new_expired_same simp: set_job_state_def insert_generation_and_attempt_def Let_def split: option.split)
qed

lemma recovery_run_expired:
  assumes "(recovery_step now)\<^sup>*\<^sup>* st st'" and "now < i64_max"
  shows "no_new_expired now st st'"
  using assms(1) by (induction rule: rtranclp_induct)
    (auto intro: no_new_expired_same no_new_expired_trans recovery_no_new_expired assms(2))

section \<open>Settled jobs\<close>

text \<open>A job of the organization that is finished, waits for a worker, or is under a live lease.\<close>

definition settled :: "string \<Rightarrow> memory_state \<Rightarrow> job_id \<Rightarrow> bool" where
  "settled organization st jid \<longleftrightarrow>
     (\<forall>j. bt_get (ms_jobs st) jid = Some j \<longrightarrow> job_organization_id j = organization \<longrightarrow>
        job_is_terminal (job_state j) \<or> gen_state st jid (job_current_generation j) = Some Gen_Assigned \<or>
        gen_state st jid (job_current_generation j) = Some Gen_Leased \<and>
          (\<exists>l. lease_on st jid (job_current_generation j) l \<and> wl_state l = Lease_Live))"

lemma settled_cong:
  assumes "ms_jobs st' = ms_jobs st" and "ms_generations st' = ms_generations st" and "ms_leases st' = ms_leases st"
  shows "settled organization st' jid = settled organization st jid"
  by (simp add: settled_def assms(1) lease_on_cong [OF assms(3)] gen_state_cong [OF assms(2)])

lemma lease_moves_gen:
  "gen_state (lease_moves l st) i k =
     (if i = wl_job_id l \<and> k = wl_generation l
      then map_option (\<lambda>s. if s = Gen_Assigned then Gen_Leased else s) (gen_state st i k) else gen_state st i k)"
proof -
  have "ms_generations (modify_first_attempt jid g f u) = ms_generations u" for jid g f u
    by (simp add: modify_first_attempt_def split: option.split)
  then show ?thesis by (auto simp: gen_state_def lease_moves_def option.map_comp o_def intro!: option.map_cong0)
qed

lemma lease_moves_on:
  "lease_on (lease_moves l st) (wl_job_id l) (wl_generation l) l"
  "bt_get (ms_leases st) (wl_lease_id l) = None \<Longrightarrow> lease_on st i k l' \<Longrightarrow> lease_on (lease_moves l st) i k l'"
  by (auto simp: lease_on_def lease_moves_def) (metis option.distinct(1))

lemma lease_moves_jobs:
  "bt_get (ms_jobs (lease_moves l st)) i = Some j' \<Longrightarrow>
     \<exists>j. bt_get (ms_jobs st) i = Some j \<and> job_current_generation j' = job_current_generation j \<and>
         job_organization_id j' = job_organization_id j \<and> (i \<noteq> wl_job_id l \<longrightarrow> j' = j)"
  by (auto simp: lease_moves_def split: if_splits)

lemma fold_push_generations [simp]: "ms_generations (fold push_journal es st) = ms_generations st"
  by (induction es arbitrary: st) simp_all

lemma settled_accept:
  assumes j: "bt_get (ms_jobs st) (wl_job_id l) = Some j" and g: "wl_generation l = job_current_generation j"
    and live: "wl_state l = Lease_Live" and fresh: "bt_get (ms_leases st) (wl_lease_id l) = None"
    and gen: "gen_state st (wl_job_id l) (wl_generation l) = Some Gen_Assigned"
    and settled: "settled organization st jid"
  shows "settled organization (lease_moves l st) jid"
  unfolding settled_def
proof (intro allI impI)
  fix j'
  assume j': "bt_get (ms_jobs (lease_moves l st)) jid = Some j'" and organization: "job_organization_id j' = organization"
  obtain j0 where j0: "bt_get (ms_jobs st) jid = Some j0" "job_current_generation j' = job_current_generation j0"
    "job_organization_id j' = job_organization_id j0" "jid \<noteq> wl_job_id l \<longrightarrow> j' = j0"
    using lease_moves_jobs [OF j'] by blast
  show "job_is_terminal (job_state j') \<or> gen_state (lease_moves l st) jid (job_current_generation j') = Some Gen_Assigned \<or>
    gen_state (lease_moves l st) jid (job_current_generation j') = Some Gen_Leased \<and>
      (\<exists>l'. lease_on (lease_moves l st) jid (job_current_generation j') l' \<and> wl_state l' = Lease_Live)"
  proof (cases "jid = wl_job_id l")
    case True
    then show ?thesis using j0 j g gen live lease_moves_on(1) [of l st] by (auto simp: lease_moves_gen)
  next
    case False
    then show ?thesis
      using settled j0 organization lease_moves_on(2) [OF fresh] by (fastforce simp: settled_def lease_moves_gen)
  qed
qed

lemma settled_lose:
  assumes ok: "life_ok st" and l: "lease_on st i g l" "wl_state l \<noteq> Lease_Live" and settled: "settled organization st jid"
  shows "settled organization (fst (set_generation_state i g Gen_Leased Gen_Lost t r st)) jid"
proof -
  let ?st = "fst (set_generation_state i g Gen_Leased Gen_Lost t r st)"
  have jobs: "ms_jobs ?st = ms_jobs st" by simp
  have on: "lease_on ?st = lease_on st" by (rule lease_on_cong) simp
  have gen: "gen_state ?st k n = (if k = i \<and> n = g \<and> gen_state st i g = Some Gen_Leased then Some Gen_Lost else gen_state st k n)" for k n
    by (auto simp: set_generation_state_def gen_state_def split: option.split)
  have "\<not> (lease_on st i g l' \<and> wl_state l' = Lease_Live)" for l'
    using lease_on_unique [OF ok l(1)] l(2) by blast
  with settled show ?thesis unfolding settled_def jobs on gen by auto
qed

lemma settled_job_changed:
  assumes settled: "settled organization st jid" and jobs: "\<And>k. k \<noteq> i \<Longrightarrow> bt_get (ms_jobs st') k = bt_get (ms_jobs st) k"
    and j: "bt_get (ms_jobs st') i = Some j" "job_is_terminal (job_state j) \<or> gen_state st' i (job_current_generation j) = Some Gen_Assigned"
    and frame: "\<And>k. k \<noteq> i \<Longrightarrow> gen_state st' k = gen_state st k" "ms_leases st' = ms_leases st"
  shows "settled organization st' jid"
  using settled jobs [of jid] j frame(1) [of jid] by (cases "jid = i") (auto simp: settled_def lease_on_cong [OF frame(2)])

lemma settled_repair:
  assumes "repair_step now st st'" and ok: "life_ok st" and settled: "settled organization st jid"
  shows "settled organization st' jid"
  using assms(1)
proof cases
  case (journal e)
  then show ?thesis using settled by (auto intro: settled_cong [THEN iffD2])
next
  case (accept l j es)
  then have "settled organization (lease_moves l st) jid" by (intro settled_accept [OF _ _ _ _ _ settled]) auto
  then have "settled organization (fold push_journal es (lease_moves l st)) jid"
    by (auto intro: settled_cong [THEN iffD2])
  with settled accept(1) show ?thesis by (simp add: try_accept_lease_def split: option.split)
next
  case (lose i g l t r)
  then show ?thesis using settled_lose [OF ok _ _ settled] by blast
next
  case (attempt i g n t w l r)
  then show ?thesis using settled by (auto intro: settled_cong [THEN iffD2])
next
  case (fail i j)
  then have "bt_get (ms_jobs st') i = Some (j\<lparr>job_state := Job_Failed\<rparr>)" by (simp add: set_job_state_def)
  moreover have "gen_state st' = gen_state st" "ms_leases st' = ms_leases st"
    by (auto simp: fail(1) set_job_state_def fun_eq_iff gen_state_def split: option.split)
  ultimately show ?thesis
    by (intro settled_job_changed [OF settled]) (auto simp: fail(1) set_job_state_def job_is_terminal_def split: option.split)
next
  case (requeue i j g t r j' gr at)
  have job: "job_ok st i j" by (rule life_okD(6) [OF ok requeue(2)])
  have g: "g = job_current_generation j + 1" using requeue(6) by (simp add: generation_next_ok)
  have rows: "job_job_id j' = i" "job_current_generation j' = g" "gr_state gr = Gen_Assigned" "gr_job_id gr = i" "gr_generation gr = g"
    "ja_job_id at = i" "ja_generation at = g"
    using requeue(7) job_okD(1) [OF job] by (auto simp: requeue_rows_def)
  have "bt_get (ms_generations st) (i, g) = None" using job_okD(7) [OF job, of g] g by simp
  then have st': "st' = insert_rows i j' gr (ja_attempt at) at st"
    unfolding requeue(1) using rows by (intro insert_rows_eq) simp_all
  show ?thesis
    by (rule settled_job_changed [OF settled, where i = i and j = j'])
      (auto simp: st' insert_rows_def gen_state_def rows fun_eq_iff)
qed

lemma settled_repairs:
  assumes "(repair_step now)\<^sup>*\<^sup>* st st'" and "life_ok st" and "settled organization st jid"
  shows "settled organization st' jid \<and> life_ok st'"
  using assms(1) by (induction rule: rtranclp_induct) (auto intro: settled_repair repair_step_ok assms(2,3))

lemma settled_after:
  assumes "related_at (guarded env (repair_step now)) m s" and "m s = (t, r)" and "plane_ok env s" and "settled organization (pl_store s) jid"
  shows "settled organization (pl_store t) jid"
  using assms settled_repairs by (simp add: related_at_def guarded_def plane_ok_def) blast

section \<open>Finishing a lost lease settles its job\<close>

lemma failed_settled:
  assumes "commit (set_job_state jid g Job_Failed) s = (t, Inr v)" and "bt_get (ms_jobs (pl_store s)) jid = Some job" "g = job_current_generation job"
  shows "settled organization (pl_store t) jid"
  using assms by (auto simp: commit_eq set_job_state_def settled_def job_is_terminal_def)

lemma requeue_settles:
  assumes mint: "unique_mint env" and ok: "plane_ok env s" and j: "bt_get (ms_jobs (pl_store s)) (job_job_id job) = Some job"
    and g: "wl_generation lease = job_current_generation job" and lost: "gen_lost (pl_store s) (job_job_id job) (job_current_generation job)"
    and open_job: "\<not> job_is_terminal (job_state job)"
    and run: "requeue_or_fail env lease reason now report job s = (t, Inr report')"
  shows "settled organization (pl_store t) (job_job_id job)"
proof -
  let ?n = "max_attempt_number (job_job_id job) (pl_store s)" and ?jid = "job_job_id job"
  have job: "job_ok (pl_store s) ?jid job" using ok j by (simp add: plane_ok_def life_okD)
  show ?thesis
  proof (cases "?n < rq_max_attempts (job_requeue job)")
    case False
    then obtain u v where u: "commit (set_job_state ?jid (wl_generation lease) Job_Failed) s = (u, Inr v)"
      and t: "\<exists>o' k w j' g' d. plane_journal o' k now w j' g' d u = (t, Inr ())"
      using run unfolding requeue_or_fail_def Let_def by (simp add: bind_act_eq_Inr seq_act_eq_Inr) blast
    have "settled organization (pl_store u) ?jid" by (rule failed_settled [OF u j g])
    moreover obtain e where "pl_store t = push_journal e (pl_store u)" using t plane_journal_eq by blast
    ultimately show ?thesis by (auto intro: settled_cong [THEN iffD2])
  next
    case True
    then have "next": "generation_next (job_current_generation job) = Inr (job_current_generation job + 1)"
      by (rule next_generation_exists [OF job])
    obtain j' gr at where rows: "requeue_rows job (job_current_generation job + 1) ?n now reason = (j', gr, at)"
      by (cases "requeue_rows job (job_current_generation job + 1) ?n now reason")
    let ?insert = "commit (insert_generation_and_attempt j' gr at)"
    from run True "next" rows obtain u inserted where u: "?insert s = (u, Inr inserted)"
      unfolding requeue_or_fail_def Let_def by (auto simp: bind_act_eq_Inr)
    note inserted = requeue_inserts [OF job rows u]
    have ok': "plane_ok env u" by (rule guarded_commit_ok [OF requeue_commit [OF ok j lost open_job True refl rows] ok u])
    have now_settled: "settled organization (pl_store u) ?jid" using inserted(2,5) by (simp add: settled_def)
    obtain o' kind w jo g' d rep where rest: "seq_act (plane_journal o' kind now w jo g' d)
        (bind_act (checked (id_try_new (job_organization_id job))) (\<lambda>organization.
         bind_act (placement_target organization job) (\<lambda>target. bind_act (place env organization j' now target) (\<lambda>_. return rep)))) u
        = (t, Inr report')"
      using run True "next" rows u inserted(1) unfolding requeue_or_fail_def Let_def by (auto simp: bind_act_eq_Inr)
    have "bt_get (ms_jobs (pl_store u)) (job_job_id j') = Some j'" "job_organization_id job = job_organization_id j'"
      using inserted(2-4) by simp_all
    from settled_after [OF requeue_tail_repairs [OF mint this] rest ok' now_settled] show ?thesis .
  qed
qed

lemma finish_settles:
  assumes mint: "unique_mint env" and ok: "plane_ok env s" and on: "lease_on (pl_store s) (wl_job_id lease) (wl_generation lease) l"
    and dead: "wl_state l \<noteq> Lease_Live" and current: "bt_get (ms_jobs (pl_store s)) (wl_job_id lease) = Some job"
      "job_current_generation job = wl_generation lease"
    and run: "finish_lost_lease env lease reason now report s = (t, Inr report')"
  shows "settled organization (pl_store t) (wl_job_id lease)"
proof -
  let ?jid = "wl_job_id lease" and ?g = "wl_generation lease"
  from run obtain t1 v1 t2 v2 t3 n o' k w j' d where
    t1: "commit (set_generation_state ?jid ?g Gen_Leased Gen_Lost (Some now) (Some reason)) s = (t1, Inr v1)" and
    t2: "commit (set_attempt_state ?jid ?g n Att_Leased Att_Lost (Some now) (Some (wl_worker_id lease)) (Some (wl_lease_id lease)) (Some reason)) t1 = (t2, Inr v2)" and
    t3: "plane_journal o' k now w j' (Some ?g) d t2 = (t3, Inr ())" and
    rest: "(case store_job ?jid (pl_store t3) of None \<Rightarrow> return report | Some job \<Rightarrow>
       if job_current_generation job = ?g \<longrightarrow> job_is_terminal (job_state job) then return report
       else requeue_or_fail env lease reason now report job) t3 = (t, Inr report')"
    unfolding finish_lost_lease_def Let_def by (simp add: bind_act_eq_Inr seq_act_eq_Inr) (elim exE conjE, rule that)
  have "plane_ok env t1" by (rule guarded_commit_ok [OF lose_commit [OF on dead, where now = now] ok t1])
  then have "plane_ok env t2" by (rule guarded_commit_ok [OF attempt_commit [where now = now] _ t2])
  then have ok3: "plane_ok env t3" by (rule guarded_commit_ok [OF journal_repairs [where now = now] _ t3])
  obtain e where e: "pl_store t3 = push_journal e (pl_store t2)" using plane_journal_eq [OF t3] by blast
  have jobs: "bt_get (ms_jobs (pl_store t3)) ?jid = Some job" using t1 t2 e current(1) by (auto simp: commit_eq)
  show ?thesis
  proof (cases "job_is_terminal (job_state job)")
    case True
    with rest jobs show ?thesis by (auto simp: store_job_def settled_def)
  next
    case False
    have "lease_on (pl_store t3) = lease_on (pl_store s)"
      by (rule lease_on_cong) (use t1 t2 e in \<open>auto simp: commit_eq\<close>)
    moreover have "gen_state (pl_store t3) = gen_state (fst (set_generation_state ?jid ?g Gen_Leased Gen_Lost (Some now) (Some reason) (pl_store s)))"
      by (rule gen_state_cong) (use t1 t2 e in \<open>auto simp: commit_eq\<close>)
    ultimately have "gen_lost (pl_store t3) ?jid (job_current_generation job)"
      using ok3 jobs False on current(2) lost_not_leased by (intro dead_lease_lost) (simp_all add: plane_ok_def)
    moreover have "job_job_id job = ?jid" using ok3 jobs job_stored by (simp add: store_job_def)
    ultimately show ?thesis
      using rest jobs False current(2) requeue_settles [OF mint ok3, of job lease] by (simp add: store_job_def)
  qed
qed

section \<open>The walk settles every indexed job\<close>

lemma interrupted_settles:
  assumes mint: "unique_mint env" and ok: "plane_ok env s"
    and run: "interrupted_job env organization now raw report s = (t, Inr report')"
  shows "settled organization (pl_store t) raw"
proof (cases "bt_get (ms_jobs (pl_store s)) raw")
  case None
  then have "t = s" using run by (auto simp: interrupted_job_def store_job_def split: sum.splits)
  with None show ?thesis by (simp add: settled_def)
next
  case (Some job)
  have life: "life_ok (pl_store s)" using ok by (simp add: plane_ok_def)
  have job: "job_ok (pl_store s) raw job" by (rule life_okD(6) [OF life Some])
  let ?g = "job_current_generation job"
  have id: "id_try_new raw = Inr raw" using job_okD(2) [OF job] by simp
  note run' = run [unfolded interrupted_job_def id]
  show ?thesis
  proof (cases "job_organization_id job \<noteq> organization \<or> job_is_terminal (job_state job)")
    case True
    with run' Some have "t = s" by (auto simp: store_job_def)
    with True Some show ?thesis by (auto simp: settled_def)
  next
    case False
    then consider (waiting) "gen_state (pl_store s) raw ?g = Some Gen_Assigned"
      | (under_lease) l where "lease_on (pl_store s) raw ?g l" "gen_state (pl_store s) raw ?g = Some Gen_Leased \<or> gen_lost (pl_store s) raw ?g"
      using job_okD(11) [OF job] by (auto simp: current_ok_def Let_def job_is_terminal_def gen_lost_def split: job_state.splits)
    then show ?thesis
    proof cases
      case waiting
      with run' Some False have "t = s" by (auto simp: store_job_def store_generation_def gen_state_def)
      with waiting Some show ?thesis by (simp add: settled_def)
    next
      case under_lease
      have l: "lease_for_generation raw ?g (pl_store s) = Some l" using under_lease(1) life by (simp add: lease_for_generation_iff)
      have row: "\<exists>row. store_generation raw ?g (pl_store s) = Some row \<and> (gr_state row = Gen_Leased \<or> gr_state row = Gen_Lost)"
        using under_lease(2) by (auto simp: gen_state_def gen_lost_def store_generation_def)
      have ids: "wl_job_id l = raw" "wl_generation l = ?g" using under_lease(1) by (auto simp: lease_on_def)
      show ?thesis
      proof (cases "wl_state l = Lease_Live")
        case True
        with run' Some False row l have "t = s" by (auto simp: store_job_def)
        moreover have "\<not> gen_lost (pl_store s) raw ?g"
          using True lease_on_unique [OF life under_lease(1)] by (auto simp: gen_lost_def)
        ultimately show ?thesis using True Some under_lease by (auto simp: settled_def)
      next
        case False
        with run' Some \<open>\<not> (job_organization_id job \<noteq> organization \<or> job_is_terminal (job_state job))\<close> row l
        have "finish_lost_lease env l ''lease loss completed by recovery'' now (report\<lparr>rp_expired := rp_expired report @ [wl_lease_id l]\<rparr>) s
            = (t, Inr report')"
          by (auto simp: store_job_def)
        from finish_settles [OF mint ok _ False _ _ this] show ?thesis using under_lease(1) Some ids by simp
      qed
    qed
  qed
qed

lemma sweep_entries_settles:
  assumes mint: "unique_mint env" and "plane_ok env s" and "\<forall>raw\<in>set seen. settled organization (pl_store s) raw"
    and "sweep_entries env Interrupted_Losses organization now page (seen, report) s = (t, Inr (seen', report'))"
  shows "(\<forall>raw\<in>set seen'. settled organization (pl_store t) raw) \<and> set seen \<subseteq> set seen' \<and>
    (\<forall>e\<in>set page. \<forall>raw. index_job_id e = Some raw \<longrightarrow> raw \<in> set seen')"
  using assms(2-)
proof (induction page arbitrary: seen report s)
  case (Cons entry page)
  show ?case
  proof (cases "\<exists>raw. index_job_id entry = Some raw \<and> raw \<notin> set seen")
    case False
    with Cons.prems have "sweep_entries env Interrupted_Losses organization now page (seen, report) s = (t, Inr (seen', report'))"
      by (auto split: option.splits)
    from Cons.IH [OF Cons.prems(1,2) this] False show ?thesis by auto
  next
    case True
    then obtain raw where raw: "index_job_id entry = Some raw" "raw \<notin> set seen" by blast
    with Cons.prems(3) obtain u rep where u: "interrupted_job env organization now raw report s = (u, Inr rep)"
      "sweep_entries env Interrupted_Losses organization now page (raw # seen, rep) u = (t, Inr (seen', report'))"
      by (auto simp: bind_act_eq_Inr sweep_job_def)
    have step: "related_at (guarded env (repair_step now)) (sweep_job env Interrupted_Losses organization now raw report) s"
      by (rule sweep_job_repairs [OF mint])
    have run: "sweep_job env Interrupted_Losses organization now raw report s = (u, Inr rep)" using u(1) by (simp add: sweep_job_def)
    have "settled organization (pl_store u) x" if "x \<in> set (raw # seen)" for x
      using that interrupted_settles [OF mint Cons.prems(1) u(1)] settled_after [OF step run Cons.prems(1)] Cons.prems(2) by auto
    from Cons.IH [OF guarded_commit_ok [OF step Cons.prems(1) run] _ u(2)] this raw show ?thesis by auto
  qed
qed simp

lemma fold_push_grows: "set (ms_journal st) \<subseteq> set (ms_journal (fold push_journal es st))"
  by (induction es arbitrary: st) (auto dest: subsetD [OF push_journal_grows])

lemma repair_journal_grows:
  assumes "repair_step now st st'"
  shows "set (ms_journal st) \<subseteq> set (ms_journal st')"
  using assms
proof cases
  case (accept l j es)
  have "ms_journal (lease_moves l st) = ms_journal st"
    by (simp add: lease_moves_def modify_first_attempt_def split: option.split)
  with fold_push_grows [of "lease_moves l st" es] accept(1) show ?thesis by (auto simp: try_accept_lease_def split: option.split)
qed (auto simp: set_job_state_def set_generation_state_def set_attempt_state_def insert_generation_and_attempt_def Let_def
      dest: subsetD [OF push_journal_grows] split: option.splits)

lemma repairs_journal_grow: "(repair_step now)\<^sup>*\<^sup>* st st' \<Longrightarrow> set (ms_journal st) \<subseteq> set (ms_journal st')"
  by (induction rule: rtranclp_induct) (auto dest: repair_journal_grows)

text \<open>The journal is in the order of its sequence numbers, so what a page leaves out comes after its last entry.\<close>

lemma beyond_page:
  assumes "journal_ok st" and page: "page = take n (entries_after organization after st)" "page \<noteq> []"
    and e: "e \<in> set (entries_after organization after st)" "e \<notin> set page"
  shows "je_seq (last page) < je_seq e"
proof -
  have "sorted_wrt (<) (map je_seq (ms_journal st))" using assms(1) by (simp add: journal_ok_def sorted_wrt_map del: upt_Suc)
  then have "sorted_wrt (\<lambda>a b. je_seq a < je_seq b) (entries_after organization after st)"
    by (simp add: sorted_wrt_map entries_after_def sorted_wrt_filter)
  then have "sorted_wrt (\<lambda>a b. je_seq a < je_seq b) (page @ drop n (entries_after organization after st))" using page(1) by simp
  moreover have "e \<in> set (drop n (entries_after organization after st))"
    using e page(1) by (metis Un_iff append_take_drop_id set_append)
  ultimately show ?thesis using page(2) by (auto simp: sorted_wrt_append)
qed

lemma sweep_pages_settles:
  assumes "unique_mint env" and "plane_ok env s" and "\<forall>raw\<in>set (fst acc). settled organization (pl_store s) raw"
    and "sweep_pages env Interrupted_Losses organization now after acc s = (t, Inr report')"
    and "raw \<in> set (fst acc) \<or> (\<exists>e\<in>set (entries_after organization after (pl_store s)). index_job_id e = Some raw)"
  shows "settled organization (pl_store t) raw"
  using assms
proof (induction env Interrupted_Losses organization now after acc s rule: sweep_pages.induct)
  case (1 env organization now after seen report s)
  let ?page = "store_journal organization after MAX_JOURNAL_PAGE (pl_store s)"
  have page: "?page = take MAX_JOURNAL_PAGE (entries_after organization after (pl_store s))"
    by (simp add: store_journal_def entries_after_def)
  note run = "1.prems"(4) [unfolded sweep_pages.simps [of env _ organization now after seen report s] Let_def]
  show ?case
  proof (cases "?page = []")
    case True
    then have "entries_after organization after (pl_store s) = []" using page by (simp add: MAX_JOURNAL_PAGE_def)
    with True run "1.prems"(3,5) show ?thesis by auto
  next
    case False
    with run obtain u seen' rep where u: "sweep_entries env Interrupted_Losses organization now ?page (seen, report) s = (u, Inr (seen', rep))"
      and rest: "(if length ?page < MAX_JOURNAL_PAGE then (u, Inr rep)
        else sweep_pages env Interrupted_Losses organization now (Some (je_seq (last ?page))) (seen', rep) u) = (t, Inr report')"
      by (auto split: prod.splits sum.splits)
    have step: "related_at (guarded env (repair_step now)) (sweep_entries env Interrupted_Losses organization now ?page (seen, report)) s"
      by (rule sweep_entries_repairs [OF "1.prems"(1)])
    have ok: "plane_ok env u" by (rule guarded_commit_ok [OF step "1.prems"(2) u])
    have grow: "set (ms_journal (pl_store s)) \<subseteq> set (ms_journal (pl_store u))"
      using step u "1.prems"(2) by (auto simp: related_at_def guarded_def dest!: repairs_journal_grow)
    note page_settled = sweep_entries_settles [OF "1.prems"(1,2) _ u]
    show ?thesis
    proof (cases "length ?page < MAX_JOURNAL_PAGE")
      case True
      then have "?page = entries_after organization after (pl_store s)" using page by simp
      with True rest page_settled "1.prems"(3,5) show ?thesis by auto
    next
      case more: False
      have "raw \<in> set seen' \<or> (\<exists>e\<in>set (entries_after organization (Some (je_seq (last ?page))) (pl_store u)). index_job_id e = Some raw)"
      proof (cases "raw \<in> set seen \<or> (\<exists>e\<in>set ?page. index_job_id e = Some raw)")
        case True
        with page_settled "1.prems"(3) show ?thesis by auto
      next
        case beyond: False
        with "1.prems"(5) obtain e where e: "e \<in> set (entries_after organization after (pl_store s))" "index_job_id e = Some raw" "e \<notin> set ?page"
          by auto
        have "je_seq (last ?page) < je_seq e"
          using beyond_page [OF _ page False e(1,3)] "1.prems"(2) by (simp add: plane_ok_def life_ok_def)
        with e grow have "e \<in> set (entries_after organization (Some (je_seq (last ?page))) (pl_store u))"
          by (auto simp: entries_after_def)
        with e(2) show ?thesis by blast
      qed
      then show ?thesis
        using "1.hyps" [OF refl False u [symmetric] refl refl more "1.prems"(1) ok] page_settled rest more "1.prems"(3) by simp
    qed
  qed
qed

section \<open>The whole recovery\<close>

lemma dead_stays_dead:
  assumes "leases_persist st st'" and "bt_get (ms_leases st) i = Some l" "wl_state l \<noteq> Lease_Live" and "bt_get (ms_leases st') i = Some l'"
  shows "wl_state l' \<noteq> Lease_Live"
  using assms by (fastforce simp: leases_persist_def same_lease_def)

lemma recover_lease_ends:
  assumes mint: "unique_mint env" and ok: "plane_ok env s" and known: "known_lease (pl_store s) lease" and expired: "lease_is_expired_at lease now"
    and run: "recover_lease env now report lease s = (t, Inr report')"
    and l': "bt_get (ms_leases (pl_store t)) (wl_lease_id lease) = Some l'"
  shows "wl_state l' \<noteq> Lease_Live"
proof -
  obtain l where l: "bt_get (ms_leases (pl_store s)) (wl_lease_id lease) = Some l" "wl_generation l = wl_generation lease"
    "wl_job_id l = wl_job_id lease" using known by (auto simp: known_lease_def same_lease_def)
  let ?reason = "''lease expired without heartbeats''"
  from run expired obtain u ended where u: "commit (end_lease (wl_lease_id lease) (wl_generation lease) Lease_Expired now ?reason) s = (u, Inr ended)"
    and rest: "(if \<not> ended then return report else finish_lost_lease env lease ?reason now (report\<lparr>rp_expired := rp_expired report @ [wl_lease_id lease]\<rparr>)) u
      = (t, Inr report')"
    by (auto simp: recover_lease_def end_lease_and_requeue_def bind_act_eq_Inr)
  obtain lu where lu: "bt_get (ms_leases (pl_store u)) (wl_lease_id lease) = Some lu" "wl_state lu \<noteq> Lease_Live"
    "wl_generation lu = wl_generation lease" "wl_job_id lu = wl_job_id lease"
    using u l by (auto simp: commit_eq end_lease_def split: if_splits)
  then have "lease_on (pl_store u) (wl_job_id lease) (wl_generation lease) lu" by (auto simp: lease_on_def)
  from finish_repairs [OF mint this lu(2)] have "related_at (guarded env (repair_step now)) (if \<not> ended then return report
      else finish_lost_lease env lease ?reason now (report\<lparr>rp_expired := rp_expired report @ [wl_lease_id lease]\<rparr>)) u"
    by (intro guarded_if) simp_all
  moreover have "plane_ok env u" by (rule guarded_commit_ok [OF end_commit [where now = now] ok u]) simp
  ultimately have "(repair_step now)\<^sup>*\<^sup>* (pl_store u) (pl_store t)" using rest by (simp add: related_at_def guarded_def)
  then have "life_step\<^sup>*\<^sup>* (pl_store u) (pl_store t)" by (rule rtranclp_mono [THEN predicate2D, rotated]) (auto intro: repair_is_life)
  from dead_stays_dead [OF run_leases [OF this] lu(1,2) l'] show ?thesis .
qed

text \<open>A repair makes no job and moves none to another organization.\<close>

definition jobs_from :: "memory_state \<Rightarrow> memory_state \<Rightarrow> bool" where
  "jobs_from st st' \<longleftrightarrow>
     (\<forall>jid j'. bt_get (ms_jobs st') jid = Some j' \<longrightarrow>
        (\<exists>j. bt_get (ms_jobs st) jid = Some j \<and> job_organization_id j = job_organization_id j'))"

lemma repair_jobs_from:
  assumes "repair_step now st st'" and ok: "life_ok st"
  shows "jobs_from st st'"
  using assms(1)
proof cases
  case (accept l j es)
  have "jobs_from st (fold push_journal es (lease_moves l st))"
    using lease_moves_jobs by (fastforce simp: jobs_from_def)
  with accept(1) show ?thesis by (auto simp: try_accept_lease_def jobs_from_def split: option.split)
next
  case (requeue i j g t r j' gr at)
  then have "job_job_id j' = i" "job_organization_id j' = job_organization_id j"
    using job_okD(1) [OF life_okD(6) [OF ok]] by (auto simp: requeue_rows_def)
  with requeue(1,2) show ?thesis
    by (auto simp: jobs_from_def insert_generation_and_attempt_def Let_def split: option.splits)
qed (auto simp: jobs_from_def set_job_state_def split: option.splits)

lemma repairs_jobs_from:
  assumes "(repair_step now)\<^sup>*\<^sup>* st st'" and "life_ok st"
  shows "jobs_from st st' \<and> life_ok st'"
  using assms(1)
proof (induction rule: rtranclp_induct)
  case (step u v)
  then have "jobs_from u v" "life_ok v" using repair_jobs_from repair_step_ok by blast+
  with step.IH show ?case unfolding jobs_from_def by metis
qed (use assms(2) in \<open>auto simp: jobs_from_def\<close>)

lemma recover_parts:
  assumes "recover env now organization s = (t, Inr report)"
  obtains u rep where "fold_act (recover_lease env now) empty_report (live_leases organization (pl_store s)) s = (u, Inr rep)"
    "sweep_pages env Interrupted_Losses organization now None ([], rep\<lparr>rp_resumed := sort (rp_resumed rep)\<rparr>) u = (t, Inr report)"
  using assms by (auto simp: recover_def bind_act_eq_Inr finish_interrupted_lease_losses_def)

lemma recover_lease_recovers:
  assumes "unique_mint env" and "plane_ok env s" and "guarded env (recovery_step now) s u" and "l \<in> set (live_leases organization (pl_store s))"
  shows "known_lease (pl_store u) l" "related_at (guarded env (recovery_step now)) (recover_lease env now rep l) u"
proof -
  show known: "known_lease (pl_store u) l"
    using assms live_leases_known(1) [OF assms(2)] by (auto simp: guarded_def intro: known_recovery)
  show "related_at (guarded env (recovery_step now)) (recover_lease env now rep l) u"
    unfolding recover_lease_def by (intro guarded_if end_requeue_recovers assms(1) known) simp_all
qed

text \<open>No lease is left live past its expiry.\<close>

lemma recover_ends_expired:
  assumes mint: "unique_mint env" and ok: "plane_ok env s" and now: "now < i64_max"
    and run: "recover env now organization s = (t, Inr report)"
    and l: "bt_get (ms_leases (pl_store t)) i = Some l" "wl_organization_id l = organization" "wl_state l = Lease_Live"
  shows "\<not> lease_is_expired_at l now"
proof
  assume expired: "lease_is_expired_at l now"
  obtain u rep where u: "fold_act (recover_lease env now) empty_report (live_leases organization (pl_store s)) s = (u, Inr rep)"
    and t: "sweep_pages env Interrupted_Losses organization now None ([], rep\<lparr>rp_resumed := sort (rp_resumed rep)\<rparr>) u = (t, Inr report)"
    by (rule recover_parts [OF run])
  have "(recovery_step now)\<^sup>*\<^sup>* (pl_store s) (pl_store t)"
    using recover_recovers [OF mint, of now organization s] run ok by (simp add: related_at_def guarded_def)
  from recovery_run_expired [OF this now] l expired have s: "bt_get (ms_leases (pl_store s)) i = Some l"
    by (simp add: no_new_expired_def)
  have i: "wl_lease_id l = i" and "bt_ok (ms_leases (pl_store s))"
    using ok life_okD(5) [of "pl_store s", OF _ s] by (auto simp: plane_ok_def lease_ok_def life_ok_def tables_ok_def)
  with s l have listed: "l \<in> set (live_leases organization (pl_store s))" by (auto simp: live_leases_def bt_values_iff)
  have "related_at (guarded env (recovery_step now)) (recover_lease env now acc y) w"
    if "y \<in> set (live_leases organization (pl_store s))" "guarded env (recovery_step now) s w" for acc y w
    by (rule recover_lease_recovers(2) [OF mint ok that(2,1)])
  from run.fold_visits [OF u listed this]
  obtain rep' v v' rep'' where v: "guarded env (recovery_step now) s v" "recover_lease env now rep' l v = (v', Inr rep'')"
    "guarded env (recovery_step now) v' u" by blast
  have okv: "plane_ok env v" using v(1) ok by (simp add: guarded_def)
  note visit = recover_lease_recovers [OF mint ok v(1) listed]
  have okv': "plane_ok env v'" by (rule guarded_commit_ok [OF visit(2) okv v(2)])
  moreover have "guarded env (recovery_step now) u t"
    using repairs_recover [OF sweep_pages_repairs [OF mint]] t by (metis fst_conv related_at_def)
  ultimately have "(recovery_step now)\<^sup>*\<^sup>* (pl_store v') (pl_store t)"
    using v(3) by (auto simp: guarded_def)
  from recovery_run_expired [OF this now] l expired have "bt_get (ms_leases (pl_store v')) i = Some l" by (simp add: no_new_expired_def)
  with recover_lease_ends [OF mint okv visit(1) expired v(2)] i l(3) show False by simp
qed

lemma recover_settles:
  assumes mint: "unique_mint env" and ok: "plane_ok env s" and run: "recover env now organization s = (t, Inr report)"
  shows "settled organization (pl_store t) jid"
proof (cases "\<exists>j. bt_get (ms_jobs (pl_store t)) jid = Some j \<and> job_organization_id j = organization")
  case False
  then show ?thesis by (auto simp: settled_def)
next
  case True
  obtain u rep where u: "fold_act (recover_lease env now) empty_report (live_leases organization (pl_store s)) s = (u, Inr rep)"
    and t: "sweep_pages env Interrupted_Losses organization now None ([], rep\<lparr>rp_resumed := sort (rp_resumed rep)\<rparr>) u = (t, Inr report)"
    by (rule recover_parts [OF run])
  have "related_at (guarded env (recovery_step now)) (fold_act (recover_lease env now) empty_report (live_leases organization (pl_store s))) s"
    by (rule run.related_at_fold) (rule recover_lease_recovers(2) [OF mint ok])
  from guarded_commit_ok [OF this ok u] have oku: "plane_ok env u" .
  have "(repair_step now)\<^sup>*\<^sup>* (pl_store u) (pl_store t)"
    using sweep_pages_repairs [OF mint] t oku by (metis fst_conv related_at_def guarded_def)
  with repairs_jobs_from oku True obtain j where j: "bt_get (ms_jobs (pl_store u)) jid = Some j" "job_organization_id j = organization"
    unfolding plane_ok_def jobs_from_def by blast
  have "job_ok (pl_store u) jid j" using oku j(1) by (simp add: plane_ok_def life_okD)
  from job_okD(6) [OF this] j(2) have "\<exists>e\<in>set (entries_after organization None (pl_store u)). index_job_id e = Some jid"
    by (auto simp: indexed_def entries_after_def)
  then show ?thesis by (intro sweep_pages_settles [OF mint oku _ t]) simp_all
qed

end
