(* ===== verification/Worker_Theorems.thy ===== *)
theory Worker_Theorems
  imports Worker_Recovery
begin

text \<open>
  The properties of the worker plane: its service refines the transition system of the store, what
  holds of every reachable store, what later operations never undo, when a result lands, what a claim
  and a recovery achieve, and where a result can land under the lease of another job.
\<close>

section \<open>A sample run\<close>

text \<open>One organization with one worker and one job, for the witnesses; identifiers are strings of growing length.\<close>

definition sample_env :: plane_env where
  "sample_env = \<lparr>env_mint = (\<lambda>kind n. replicate (n + 1) CHR ''a''), env_hash = (\<lambda>t. t), env_gate = None\<rparr>"

definition sample_capabilities :: worker_capabilities where
  "sample_capabilities =
     \<lparr>wc_os = ''linux'', wc_arch = ''x'', wc_toolchains = [], wc_sandbox = [], wc_network = Net_None, wc_cpu_cores = 1,
      wc_memory_mb = 1, wc_gpu = None, wc_region = ''r'', wc_trust_domain = ''t'', wc_protocol_version = 1\<rparr>"

definition sample_requirements :: job_requirements where
  "sample_requirements =
     \<lparr>jr_os = None, jr_arch = None, jr_toolchains = [], jr_sandbox = [], jr_network = None, jr_min_cpu_cores = 0,
      jr_min_memory_mb = 0, jr_gpu = False, jr_region = None, jr_trust_domain = ''t''\<rparr>"

definition sample_digest :: string where
  "sample_digest = replicate 64 CHR ''0''"

definition sample_tokened :: plane where
  "sample_tokened = fst (mint_registration_token sample_env 0 ''k'' ''o'' ''t'' ''l'' (new_plane None))"

definition sample_registered :: plane where
  "sample_registered = fst (register sample_env 0 ''o'' ''w'' ''k'' sample_capabilities ''d'' sample_tokened)"

definition sample_leased :: plane where
  "sample_leased =
     fst (schedule_job sample_env 0 ''o'' ''t'' ''j'' sample_requirements sample_digest default_requeue None sample_registered)"

text \<open>The lease expires, and the process stops after the first write of the recovery.\<close>

definition sample_crashed :: plane where
  "sample_crashed = fst (recover sample_env 20000 ''o'' (sample_leased\<lparr>pl_writes_left := Some 1\<rparr>))\<lparr>pl_writes_left := None\<rparr>"

lemma sample_mint: "unique_mint sample_env"
  by (auto simp: unique_mint_def sample_env_def dest: arg_cong [where f = length])

lemma reach_step: "service_reach env s \<Longrightarrow> service_step env s t \<Longrightarrow> service_reach env t"
  unfolding service_reach_def by (meson rtranclp.rtrancl_into_rtrancl)

lemma reach_new: "service_reach env (new_plane n)"
  unfolding service_reach_def by blast

lemma worker_sample_reach:
  "service_reach sample_env sample_registered" "service_reach sample_env sample_leased" "service_reach sample_env sample_crashed"
proof -
  show registered: "service_reach sample_env sample_registered"
    unfolding sample_registered_def sample_tokened_def
    by (rule reach_step [OF reach_step [OF reach_new service_step.token] service_step.registered])
  show leased: "service_reach sample_env sample_leased"
    unfolding sample_leased_def by (rule reach_step [OF registered service_step.scheduled])
  show "service_reach sample_env sample_crashed"
    unfolding sample_crashed_def
    by (rule reach_step [OF reach_step [OF reach_step [OF leased service_step.restarted] service_step.recovered] service_step.restarted])
qed

section \<open>Refinement and invariants\<close>

text \<open>C16. Every store the service can reach, with any operations and arguments, refused ones included, and with the process
  stopped before any of its writes, is a store of the transition system of the worker store.\<close>

theorem service_refines_store_system:
  assumes "unique_mint env" and "service_reach env s"
  shows "life_reach (pl_store s)"
  by (rule service_reach_life(2) [OF assms])

theorem service_refines_store_system_witness:
  "unique_mint sample_env \<and> service_reach sample_env sample_crashed \<and> life_reach (pl_store sample_crashed)"
  using service_refines_store_system [OF sample_mint worker_sample_reach(3)] sample_mint worker_sample_reach(3) by blast

text \<open>C21. Type invariant of the store: every table is in strict key order, the journal is numbered from one without gaps, a job and
  a lease are stored under their own identifier, a lease belongs to a stored job of its organization and to one of its
  generations, and rows of generations, attempts and results exist only for stored jobs.\<close>

theorem store_well_formed:
  assumes "unique_mint env" and "service_reach env s"
  shows "tables_ok (pl_store s) \<and>
    map je_seq (ms_journal (pl_store s)) = map int [1..<length (ms_journal (pl_store s)) + 1] \<and>
    (\<forall>jid j. bt_get (ms_jobs (pl_store s)) jid = Some j \<longrightarrow> job_job_id j = jid \<and> validate_id jid = Inr ()) \<and>
    (\<forall>lid l. bt_get (ms_leases (pl_store s)) lid = Some l \<longrightarrow> wl_lease_id l = lid \<and>
       (\<exists>j. bt_get (ms_jobs (pl_store s)) (wl_job_id l) = Some j \<and> wl_organization_id l = job_organization_id j \<and>
            1 \<le> wl_generation l \<and> wl_generation l \<le> job_current_generation j)) \<and>
    (\<forall>jid k n. bt_get (ms_jobs (pl_store s)) jid = None \<longrightarrow>
       bt_get (ms_generations (pl_store s)) (jid, k) = None \<and> bt_get (ms_attempts (pl_store s)) (jid, k, n) = None \<and>
       bt_get (ms_results (pl_store s)) (jid, k) = None)"
proof -
  have ok: "life_ok (pl_store s)" using service_reach_life(1) [OF assms] by (simp add: plane_ok_def)
  show ?thesis
    using life_okD(1-3) [OF ok] life_okD(5) [OF ok] job_okD(1,2) [OF life_okD(6) [OF ok]]
    by (simp add: journal_ok_def orphan_free_def lease_ok_def del: upt_Suc) blast
qed

theorem store_well_formed_witness:
  "unique_mint sample_env \<and> service_reach sample_env sample_leased \<and> tables_ok (pl_store sample_leased) \<and>
   bt_keys (ms_leases (pl_store sample_leased)) = [''aa'']"
proof -
  have "bt_keys (ms_leases (pl_store sample_leased)) = [''aa'']" by code_simp
  then show ?thesis using store_well_formed [OF sample_mint worker_sample_reach(2)] sample_mint worker_sample_reach(2) by blast
qed

text \<open>C20. The attempts of a job are bounded: its generations are exactly one to the current one, each with one attempt of the same
  number and at most one lease, and there are never more than the policy of the job allows, nor than 32; every earlier generation is
  lost under a lease that is not live and has no result.\<close>

theorem attempts_bounded:
  assumes "unique_mint env" and "service_reach env s" and "store_job jid (pl_store s) = Some job"
  shows "1 \<le> job_current_generation job \<and> job_current_generation job \<le> rq_max_attempts (job_requeue job) \<and>
    rq_max_attempts (job_requeue job) \<le> 32 \<and>
    (\<forall>k. store_generation jid k (pl_store s) \<noteq> None \<longleftrightarrow> 1 \<le> k \<and> k \<le> job_current_generation job) \<and>
    (\<forall>k n. store_attempt jid k n (pl_store s) \<noteq> None \<longleftrightarrow> 1 \<le> k \<and> k \<le> job_current_generation job \<and> n = k) \<and>
    (\<forall>k l l'. lease_on (pl_store s) jid k l \<and> lease_on (pl_store s) jid k l' \<longrightarrow> l = l') \<and>
    (\<forall>k. 1 \<le> k \<and> k < job_current_generation job \<longrightarrow>
       store_result jid k (pl_store s) = None \<and> gen_state (pl_store s) jid k = Some Gen_Lost \<and>
       (\<exists>l. lease_for_generation jid k (pl_store s) = Some l \<and> wl_state l \<noteq> Lease_Live))"
proof -
  have ok: "life_ok (pl_store s)" using service_reach_life(1) [OF assms(1,2)] by (simp add: plane_ok_def)
  have job: "job_ok (pl_store s) jid job" using assms(3) life_okD(6) [OF ok] by (simp add: store_job_def)
  have past: "gen_lost (pl_store s) jid k" if "1 \<le> k \<and> k < job_current_generation job" for k
    using that job_okD(9) [OF job] by blast
  show ?thesis
  proof (intro conjI allI impI)
    show "store_result jid k (pl_store s) = None" if "1 \<le> k \<and> k < job_current_generation job" for k
      using that job_okD(10) [OF job, of k] by (simp add: store_result_def)
    show "l = l'" if "lease_on (pl_store s) jid k l \<and> lease_on (pl_store s) jid k l'" for k l l'
      using that lease_on_unique [OF ok] by blast
    show "rq_max_attempts (job_requeue job) \<le> 32" using job_okD(5) [OF job] by (simp add: worker_bounds)
  qed (use past job_okD(3,4,7,8) [OF job] in \<open>simp_all add: store_generation_def store_attempt_def gen_lost_def lease_for_generation_iff [OF ok]
       del: not_None_eq One_nat_def\<close>)
qed

theorem attempts_bounded_witness:
  "\<exists>job. unique_mint sample_env \<and> service_reach sample_env sample_crashed \<and> store_job ''a'' (pl_store sample_crashed) = Some job \<and>
     job_current_generation job \<le> rq_max_attempts (job_requeue job) \<and> rq_max_attempts (job_requeue job) \<le> 32"
proof -
  have "store_job ''a'' (pl_store sample_crashed) \<noteq> None" by code_simp
  then obtain job where job: "store_job ''a'' (pl_store sample_crashed) = Some job" by blast
  from attempts_bounded [OF sample_mint worker_sample_reach(3) this] sample_mint worker_sample_reach(3) job show ?thesis by blast
qed

section \<open>What is never undone\<close>

text \<open>Rows that only grow: results, ended leases, the generation and the fixed fields of a job, revocations.\<close>

definition history_kept :: "memory_state \<Rightarrow> memory_state \<Rightarrow> bool" where
  "history_kept st st' \<longleftrightarrow>
     (\<forall>k r. bt_get (ms_results st) k = Some r \<longrightarrow> bt_get (ms_results st') k = Some r) \<and>
     (\<forall>jid j. bt_get (ms_jobs st) jid = Some j \<longrightarrow>
        (\<exists>j'. bt_get (ms_jobs st') jid = Some j' \<and> job_current_generation j \<le> job_current_generation j' \<and>
              job_organization_id j' = job_organization_id j \<and> job_payload_digest j' = job_payload_digest j \<and>
              job_requeue j' = job_requeue j \<and> (job_state j = Job_Completed \<longrightarrow> job_state j' = Job_Completed))) \<and>
     (\<forall>wid w. bt_get (ms_workers st) wid = Some w \<longrightarrow> wr_revoked w \<longrightarrow>
        (\<exists>w'. bt_get (ms_workers st') wid = Some w' \<and> wr_revoked w'))"

lemma history_same:
  "ms_results st' = ms_results st \<Longrightarrow> ms_jobs st' = ms_jobs st \<Longrightarrow> ms_workers st' = ms_workers st \<Longrightarrow> history_kept st st'"
  by (simp add: history_kept_def)

lemma history_trans:
  assumes "history_kept st st'" and "history_kept st' st''"
  shows "history_kept st st''"
  unfolding history_kept_def
proof (intro conjI allI impI)
  fix jid j
  assume "bt_get (ms_jobs st) jid = Some j"
  then obtain j' where j': "bt_get (ms_jobs st') jid = Some j'" "job_current_generation j \<le> job_current_generation j'"
    "job_organization_id j' = job_organization_id j" "job_payload_digest j' = job_payload_digest j" "job_requeue j' = job_requeue j"
    "job_state j = Job_Completed \<longrightarrow> job_state j' = Job_Completed"
    using assms(1) unfolding history_kept_def by blast
  from j'(1) obtain j'' where "bt_get (ms_jobs st'') jid = Some j''" "job_current_generation j' \<le> job_current_generation j''"
    "job_organization_id j'' = job_organization_id j'" "job_payload_digest j'' = job_payload_digest j'" "job_requeue j'' = job_requeue j'"
    "job_state j' = Job_Completed \<longrightarrow> job_state j'' = Job_Completed"
    using assms(2) unfolding history_kept_def by blast
  with j' show "\<exists>j'. bt_get (ms_jobs st'') jid = Some j' \<and> job_current_generation j \<le> job_current_generation j' \<and>
      job_organization_id j' = job_organization_id j \<and> job_payload_digest j' = job_payload_digest j \<and>
      job_requeue j' = job_requeue j \<and> (job_state j = Job_Completed \<longrightarrow> job_state j' = Job_Completed)"
    by auto
next
  show "\<exists>w'. bt_get (ms_workers st'') wid = Some w' \<and> wr_revoked w'" if "bt_get (ms_workers st) wid = Some w" "wr_revoked w" for wid w
    using that assms unfolding history_kept_def by blast
  show "bt_get (ms_results st'') k = Some r" if "bt_get (ms_results st) k = Some r" for k r
    using that assms unfolding history_kept_def by blast
qed

lemma history_accept: "history_kept st (fst (try_accept_lease l es st))"
proof -
  have "ms_results (fold push_journal es u) = ms_results u" "ms_workers (fold push_journal es u) = ms_workers u" for u
    by (induction es arbitrary: u) simp_all
  then show ?thesis
    by (auto simp: try_accept_lease_def history_kept_def lease_moves_def modify_first_attempt_def split: option.split)
qed

lemma history_insert:
  assumes "\<And>j0. bt_get (ms_jobs st) (job_job_id j) = Some j0 \<Longrightarrow> j = j0\<lparr>job_current_generation := g, job_state := Job_Assigned\<rparr> \<and>
      job_current_generation j0 \<le> g \<and> job_state j0 \<noteq> Job_Completed"
  shows "history_kept st (fst (insert_generation_and_attempt j gr at st))"
  using assms by (auto simp: insert_generation_and_attempt_def history_kept_def Let_def split: option.split)

lemma repair_history:
  assumes "repair_step now st st'" and ok: "life_ok st"
  shows "history_kept st st'"
  using assms(1)
proof cases
  case (accept l j es)
  then show ?thesis using history_accept by simp
next
  case (fail jid j)
  then show ?thesis by (auto simp: history_kept_def set_job_state_def job_is_terminal_def)
next
  case (requeue jid j g t r j' gr at)
  then show ?thesis
    using job_okD(1) [OF life_okD(6) [OF ok requeue(2)]]
    by (auto intro!: history_insert [where g = g] simp: requeue_rows_def job_is_terminal_def generation_next_ok)
qed (auto intro!: history_same simp: set_generation_state_def set_attempt_state_def split: option.split)

lemma life_history:
  assumes "life_step st st'" and ok: "life_ok st"
  shows "history_kept st st'"
  using assms(1)
proof cases
  case (repair now)
  then show ?thesis using ok by (rule repair_history)
next
  case (mint jid rq organization td key req digest assigned now j gr at)
  then have "job_job_id j = jid" by (auto simp: first_rows_def)
  with mint show ?thesis by (auto intro!: history_insert)
next
  case (put_worker w)
  then show ?thesis by (auto simp: history_kept_def put_worker_def Let_def split: sum.split option.split if_splits)
next
  case (register w tok e)
  then show ?thesis
    by (auto simp: history_kept_def register_worker_with_token_def registration_check_def Let_def split: sum.split option.splits if_splits)
next
  case (land r)
  then show ?thesis
    by (auto simp: history_kept_def land_result_def landing_moves_def modify_first_attempt_def split: option.split sum.split)
qed (auto simp: history_kept_def touch_worker_def put_token_def renew_lease_def end_lease_def split: option.split)

lemma run_history:
  assumes "life_step\<^sup>*\<^sup>* st st'" and "life_ok st"
  shows "history_kept st st' \<and> life_ok st'"
  using assms(1)
proof (induction rule: rtranclp_induct)
  case base
  then show ?case using assms(2) history_same by blast
next
  case (step u v)
  then show ?case using life_history history_trans life_step_ok by blast
qed

text \<open>C19. From any reachable state on, whatever the service does later and wherever it stops: a landed result stays as it is, a
  completed job stays completed, a job keeps its organization, its payload digest and its policy and never goes back a generation, a
  lease stays with its worker, job and generation and never comes back to life, and a revoked worker stays revoked.\<close>

theorem landed_and_ended_is_final:
  assumes "unique_mint env" and "service_reach env s" and "(service_step env)\<^sup>*\<^sup>* s t"
  shows "(store_result jid g (pl_store s) = Some r \<longrightarrow> store_result jid g (pl_store t) = Some r) \<and>
    (store_job jid (pl_store s) = Some j \<longrightarrow>
       (\<exists>j'. store_job jid (pl_store t) = Some j' \<and> job_current_generation j \<le> job_current_generation j' \<and>
             job_organization_id j' = job_organization_id j \<and> job_payload_digest j' = job_payload_digest j \<and>
             job_requeue j' = job_requeue j \<and> (job_state j = Job_Completed \<longrightarrow> job_state j' = Job_Completed))) \<and>
    (store_lease lid (pl_store s) = Some l \<longrightarrow>
       (\<exists>l'. store_lease lid (pl_store t) = Some l' \<and> wl_job_id l' = wl_job_id l \<and> wl_generation l' = wl_generation l \<and>
             wl_worker_id l' = wl_worker_id l \<and> (wl_state l \<noteq> Lease_Live \<longrightarrow> wl_state l' \<noteq> Lease_Live))) \<and>
    (store_worker wid (pl_store s) = Some w \<longrightarrow> wr_revoked w \<longrightarrow>
       (\<exists>w'. store_worker wid (pl_store t) = Some w' \<and> wr_revoked w'))"
proof -
  have ok: "plane_ok env s" by (rule service_reach_life(1) [OF assms(1,2)])
  have run: "life_step\<^sup>*\<^sup>* (pl_store s) (pl_store t)"
    using service_run_guarded [OF assms(1,3)] ok by (simp add: guarded_def)
  have "history_kept (pl_store s) (pl_store t)" using run_history [OF run] ok by (simp add: plane_ok_def)
  moreover have "leases_persist (pl_store s) (pl_store t)" by (rule run_leases [OF run])
  ultimately show ?thesis
    unfolding history_kept_def leases_persist_def same_lease_def store_result_def store_job_def store_lease_def store_worker_def by blast
qed

theorem landed_and_ended_is_final_witness:
  "\<exists>l l'. store_lease ''aa'' (pl_store sample_leased) = Some l \<and> wl_state l = Lease_Live \<and>
     store_lease ''aa'' (pl_store sample_crashed) = Some l' \<and> wl_worker_id l' = wl_worker_id l \<and> wl_state l' = Lease_Expired"
proof -
  have "(service_step sample_env)\<^sup>*\<^sup>* sample_leased sample_crashed"
    unfolding sample_crashed_def
    by (rule rtranclp.rtrancl_into_rtrancl [OF rtranclp.rtrancl_into_rtrancl [OF r_into_rtranclp [of "service_step sample_env", OF service_step.restarted] service_step.recovered] service_step.restarted])
  note final = landed_and_ended_is_final [OF sample_mint worker_sample_reach(2) this]
  have "map_option wl_state (store_lease ''aa'' (pl_store sample_leased)) = Some Lease_Live" by code_simp
  moreover have "map_option wl_state (store_lease ''aa'' (pl_store sample_crashed)) = Some Lease_Expired" by code_simp
  ultimately show ?thesis using final by fastforce
qed

section \<open>Results\<close>

lemma land_result_landed:
  "land_result r st = (st', Inr Append_Landed) \<longleftrightarrow>
     bt_get (ms_results st) (res_job_id r, res_generation r) = None \<and> landing_check r st = Inr () \<and> st' = landing_moves r st"
  by (auto simp: land_result_def split: option.splits sum.splits)

lemma landing_moves_reads:
  "store_result (res_job_id r) (res_generation r) (landing_moves r st) = Some r"
  "store_job (res_job_id r) (landing_moves r st) = map_option (\<lambda>j. j\<lparr>job_state := Job_Completed\<rparr>) (store_job (res_job_id r) st)"
  "map_option wl_state (store_lease (res_lease_id r) (landing_moves r st)) = map_option (\<lambda>_. Lease_Completed) (store_lease (res_lease_id r) st)"
proof -
  have frame: "ms_results (modify_first_attempt i g f u) = ms_results u" for i g f u
    by (simp add: modify_first_attempt_def split: option.split)
  show "store_result (res_job_id r) (res_generation r) (landing_moves r st) = Some r"
    "store_job (res_job_id r) (landing_moves r st) = map_option (\<lambda>j. j\<lparr>job_state := Job_Completed\<rparr>) (store_job (res_job_id r) st)"
    "map_option wl_state (store_lease (res_lease_id r) (landing_moves r st)) = map_option (\<lambda>_. Lease_Completed) (store_lease (res_lease_id r) st)"
    by (simp_all add: landing_moves_def store_result_def store_job_def store_lease_def frame option.map_comp o_def)
qed

lemma landed_tail:
  "(case landed of Append_Landed \<Rightarrow> seq_act m (return Result_Landed) | Append_Duplicate \<Rightarrow> seq_act n (return Result_Duplicate)) u
     = (t, Inr Result_Landed) \<longleftrightarrow> landed = Append_Landed \<and> m u = (t, Inr ())"
  by (cases landed) (auto simp: seq_act_eq_Inr)

lemma commit_landed:
  "commit (land_result r) s = (u, Inr Append_Landed) \<Longrightarrow>
     bt_get (ms_results (pl_store s)) (res_job_id r, res_generation r) = None \<and> pl_store u = landing_moves r (pl_store s)"
  using land_result_landed [of r "pl_store s"] by (cases "land_result r (pl_store s)") (auto simp: commit_eq)

lemma land_under_lease_landed:
  assumes "land_under_lease env now organization wid job g lid digest outcome claim s = (t, Inr Result_Landed)"
  obtains lease e where "store_lease lid (pl_store s) = Some lease" "wl_worker_id lease = wid" "wl_generation lease = g"
    "wl_state lease = Lease_Live" "\<not> lease_is_expired_at lease now" "store_result (job_job_id job) g (pl_store s) = None"
    "pl_store t = push_journal e (landing_moves (result_row now wid (job_job_id job) g lid digest outcome claim) (pl_store s))"
  using assms unfolding land_under_lease_def Let_def
  by (auto simp: bind_act_eq_Inr seq_act_eq_Inr landed_tail store_result_def result_row_def dest!: plane_journal_eq commit_landed)

text \<open>C18. A result lands only for an authenticated worker that is not revoked, for a job of its organization, at its current
  generation, with the payload digest the job was scheduled with, when no result is stored for the generation, and under a lease of that worker and
  generation that is live and not expired; then the result is stored, the job is completed and the lease is completed.\<close>

theorem landed_result_is_authorised:
  assumes "unique_mint env" and "service_reach env s"
    and "submit_result_with_claim env now organization wid token pv jid g lid digest outcome claim s = (t, Inr Result_Landed)"
  shows "\<exists>worker job lease. store_worker wid (pl_store s) = Some worker \<and> \<not> wr_revoked worker \<and>
    wr_organization_id worker = organization \<and> wr_token_hash worker = env_hash env token \<and>
    store_job jid (pl_store s) = Some job \<and> job_organization_id job = organization \<and> job_current_generation job = g \<and>
    job_payload_digest job = digest \<and> store_result jid g (pl_store s) = None \<and>
    store_lease lid (pl_store s) = Some lease \<and> wl_worker_id lease = wr_worker_id worker \<and> wl_generation lease = g \<and>
    wl_state lease = Lease_Live \<and> \<not> lease_is_expired_at lease now \<and>
    store_result jid g (pl_store t) = Some (result_row now (wr_worker_id worker) jid g lid digest outcome claim) \<and>
    store_job jid (pl_store t) = Some (job\<lparr>job_state := Job_Completed\<rparr>) \<and>
    map_option wl_state (store_lease lid (pl_store t)) = Some Lease_Completed"
proof -
  have ok: "plane_ok env s" by (rule service_reach_life(1) [OF assms(1,2)])
  obtain worker job where w: "store_worker wid (pl_store s) = Some worker" "\<not> wr_revoked worker" "wr_organization_id worker = organization"
      "wr_token_hash worker = env_hash env token"
    and j: "store_job jid (pl_store s) = Some job" "job_organization_id job = organization" "job_current_generation job = g"
      "job_payload_digest job = digest"
    and land: "land_under_lease env now organization (wr_worker_id worker) job g lid digest outcome claim s = (t, Inr Result_Landed)"
    using assms(3) unfolding submit_result_with_claim_def replayed_result_def
    by (auto simp: bind_act_eq_Inr seq_act_eq_Inr require_job_eq dest!: authenticate_in_eq split: option.splits if_splits)
  have jid: "job_job_id job = jid" by (rule job_stored [OF ok j(1)])
  let ?r = "result_row now (wr_worker_id worker) jid g lid digest outcome claim"
  have r: "res_job_id ?r = jid" "res_generation ?r = g" "res_lease_id ?r = lid" by (simp_all add: result_row_def)
  obtain lease e where l: "store_lease lid (pl_store s) = Some lease" "wl_worker_id lease = wr_worker_id worker" "wl_generation lease = g"
      "wl_state lease = Lease_Live" "\<not> lease_is_expired_at lease now" "store_result jid g (pl_store s) = None"
    and t: "pl_store t = push_journal e (landing_moves ?r (pl_store s))"
    using land_under_lease_landed [OF land] unfolding jid by blast
  have "store_result jid g (pl_store t) = Some ?r" "store_job jid (pl_store t) = Some (job\<lparr>job_state := Job_Completed\<rparr>)"
    "map_option wl_state (store_lease lid (pl_store t)) = Some Lease_Completed"
    using landing_moves_reads [of ?r "pl_store s"] j(1) l(1)
    by (simp_all add: t r) (simp_all add: store_result_def store_job_def store_lease_def)
  with w j l show ?thesis by blast
qed

theorem landed_result_is_authorised_witness:
  "\<exists>t. submit_result_with_claim sample_env 10 ''o'' ''w'' ''k'' 1 ''a'' 1 ''aa'' sample_digest Outcome_Succeeded default_claim sample_leased
     = (t, Inr Result_Landed) \<and> map_option wl_state (store_lease ''aa'' (pl_store t)) = Some Lease_Completed"
proof -
  let ?run = "submit_result_with_claim sample_env 10 ''o'' ''w'' ''k'' 1 ''a'' 1 ''aa'' sample_digest Outcome_Succeeded default_claim sample_leased"
  have "snd ?run = Inr Result_Landed" by code_simp
  then obtain t where t: "?run = (t, Inr Result_Landed)" by (metis prod.collapse)
  from landed_result_is_authorised [OF sample_mint worker_sample_reach(2) this] t show ?thesis by blast
qed

section \<open>Recovery\<close>

text \<open>C17. A completed recovery at a time before the end of the clock's range leaves every job of the organization that is not finished
  either waiting, assigned and without a lease, or under a live lease that has not expired; this also when the process had stopped between
  any two writes before.\<close>

theorem recover_leaves_no_lost_job:
  assumes "unique_mint env" and "service_reach env s" and "now < i64_max" and "recover env now organization s = (t, Inr report)"
    and "store_job jid (pl_store t) = Some job" and "job_organization_id job = organization" and "\<not> job_is_terminal (job_state job)"
  shows "(gen_state (pl_store t) jid (job_current_generation job) = Some Gen_Assigned \<and>
      lease_for_generation jid (job_current_generation job) (pl_store t) = None) \<or>
    (\<exists>l. lease_for_generation jid (job_current_generation job) (pl_store t) = Some l \<and> wl_state l = Lease_Live \<and>
         \<not> lease_is_expired_at l now)"
proof -
  have ok: "plane_ok env s" by (rule service_reach_life(1) [OF assms(1,2)])
  have "service_reach env t"
    using reach_step [OF assms(2) service_step.recovered [of env s now organization]] assms(4) by simp
  then have life: "life_ok (pl_store t)" using service_reach_life(1) [OF assms(1)] by (simp add: plane_ok_def)
  have j: "bt_get (ms_jobs (pl_store t)) jid = Some job" using assms(5) by (simp add: store_job_def)
  note job = life_okD(6) [OF life j]
  have "settled organization (pl_store t) jid" by (rule recover_settles [OF assms(1) ok assms(4)])
  with j assms(6,7) consider "gen_state (pl_store t) jid (job_current_generation job) = Some Gen_Assigned"
    | l where "lease_on (pl_store t) jid (job_current_generation job) l" "wl_state l = Lease_Live"
    by (auto simp: settled_def)
  then show ?thesis
  proof cases
    case 1
    then show ?thesis using assigned_generation(2) [OF job] by (simp add: lease_for_generation_None [OF life])
  next
    case 2
    then obtain lid where lid: "bt_get (ms_leases (pl_store t)) lid = Some l" "wl_job_id l = jid" by (auto simp: lease_on_def)
    with j assms(6) have "wl_organization_id l = organization" using life_okD(5) [OF life lid(1)] by (auto simp: lease_ok_def)
    with recover_ends_expired [OF assms(1) ok assms(3,4) lid(1)] 2 show ?thesis by (auto simp: lease_for_generation_iff [OF life])
  qed
qed

theorem recover_leaves_no_lost_job_witness:
  "\<exists>t report job l. recover sample_env 20000 ''o'' sample_crashed = (t, Inr report) \<and> store_job ''a'' (pl_store t) = Some job \<and>
     job_current_generation job = 2 \<and> lease_for_generation ''a'' 2 (pl_store t) = Some l \<and> wl_state l = Lease_Live \<and>
     \<not> lease_is_expired_at l 20000"
proof -
  let ?run = "recover sample_env 20000 ''o'' sample_crashed"
  let ?job = "\<lambda>st. map_option (\<lambda>j. (job_current_generation j, job_organization_id j, job_state j)) (store_job ''a'' st)"
  have "\<not> isl (snd ?run)" by code_simp
  moreover have "?job (pl_store (fst ?run)) = Some (2, ''o'', Job_Leased)" by code_simp
  moreover have "lease_for_generation ''a'' 2 (pl_store (fst ?run)) \<noteq> None" by code_simp
  ultimately obtain t report job where t: "?run = (t, Inr report)" and job: "store_job ''a'' (pl_store t) = Some job"
    and j: "job_current_generation job = 2" "job_organization_id job = ''o''" "job_state job = Job_Leased"
    and l: "lease_for_generation ''a'' 2 (pl_store t) \<noteq> None"
    by (cases ?run; cases "snd ?run") auto
  have "(20000 :: int) < i64_max" by (simp add: i64_max_def)
  from recover_leaves_no_lost_job [OF sample_mint worker_sample_reach(3) this t job j(2)] j t job l show ?thesis
    by (auto simp: job_is_terminal_def)
qed

section \<open>Leases\<close>

lemma try_accept_stored:
  assumes "try_accept_lease l es st = (st', Inr None)"
  shows "store_lease (wl_lease_id l) st' = Some l"
  using assms by (auto simp: try_accept_lease_def store_lease_def lease_moves_def split: option.splits)

lemma commit_accepted: "commit (try_accept_lease l es) s = (t, Inr None) \<Longrightarrow> store_lease (wl_lease_id l) (pl_store t) = Some l"
  using try_accept_stored [of l es "pl_store s"] by (cases "try_accept_lease l es (pl_store s)") (auto simp: commit_eq)

text \<open>What an accepted lease stands for.\<close>

definition rightful_lease :: "worker_registration \<Rightarrow> execution_job \<Rightarrow> int \<Rightarrow> worker_lease \<Rightarrow> bool" where
  "rightful_lease worker job now l \<longleftrightarrow>
     wl_worker_id l = wr_worker_id worker \<and> wl_job_id l = job_job_id job \<and> wl_generation l = job_current_generation job \<and>
     wl_state l = Lease_Live \<and> wl_expires_at_ms l = sat_i64 (now + HEARTBEAT_DEFAULT_INTERVAL_MS) \<and>
     wr_organization_id worker = job_organization_id job \<and> wr_trust_domain worker = job_trust_domain job \<and>
     satisfies (wr_capabilities worker) (job_requirements job) = Inr () \<and>
     (job_assigned_worker job = None \<or> job_assigned_worker job = Some (wr_worker_id worker)) \<and> \<not> job_is_terminal (job_state job)"

lemma accept_outcome:
  assumes "accept_lease_inner env worker organization job g now via s = (t, Inr lease)"
  shows "rightful_lease worker job now lease \<and> store_lease (wl_lease_id lease) (pl_store t) = Some lease \<and>
    length (live_leases_of_worker (wr_worker_id worker) (pl_store s)) < MAX_LIVE_LEASES_PER_WORKER"
  using assms unfolding accept_lease_inner_def Let_def rightful_lease_def
  by (auto simp: bind_act_eq_Inr seq_act_eq_Inr is_ok_def dest!: commit_accepted split: option.splits if_splits sum.splits)

lemma claim_job_outcome:
  assumes "claim_job env organization worker now raw s = (t, Inr (Some c))"
  shows "rightful_lease worker (cl_job c) now (cl_lease c) \<and> store_lease (wl_lease_id (cl_lease c)) (pl_store t) = Some (cl_lease c) \<and>
    job_organization_id (cl_job c) = organization"
proof -
  obtain job lease where "claimable organization worker job"
    "accept_lease_inner env worker organization job (job_current_generation job) now (Some ''long-poll'') s = (t, Inr lease)"
    "c = \<lparr>cl_job = job, cl_lease = lease\<rparr>"
    using assms unfolding claim_job_def
    by (auto simp: bind_act_eq_Inr handle_def split: sum.splits option.splits if_splits prod.splits)
  with accept_outcome show ?thesis by (fastforce simp: claimable_def)
qed

lemma claim_entries_outcome:
  "claim_entries env organization worker now page acc s = (t, Inr (Inl (Some c))) \<Longrightarrow>
     \<exists>raw u. claim_job env organization worker now raw u = (t, Inr (Some c))"
proof (induction page arbitrary: acc s)
  case (Cons entry page)
  then show ?case
    by (cases acc) (auto simp: bind_act_eq_Inr split: option.splits if_splits; blast)
qed simp

lemma claim_pages_outcome:
  "claim_pages env organization worker now after acc s = (t, Inr (Some c)) \<Longrightarrow>
     \<exists>raw u. claim_job env organization worker now raw u = (t, Inr (Some c))"
proof (induction env organization worker now after acc s rule: claim_pages.induct)
  case (1 env organization worker now after scanned seen s)
  from 1(2) show ?case
    unfolding claim_pages.simps [of env organization worker now after scanned seen s] Let_def
    using 1(1) [OF refl] claim_entries_outcome
    by (fastforce split: if_splits prod.splits sum.splits)
qed

text \<open>C22. A claim that returns a job was let through by the entitlement gate, when there is one, for an authenticated worker that is not
  revoked; the lease it returns is stored, live and for that worker, and the job is an open job of the organization and trust domain of the worker
  whose requirements its capabilities satisfy, at its current generation, and not pinned to another worker.\<close>

theorem claimed_job_is_rightful:
  assumes "claim_next env now organization wid token pv s = (t, Inr (Some c))"
  shows "\<exists>worker. store_worker wid (pl_store s) = Some worker \<and> \<not> wr_revoked worker \<and> wr_organization_id worker = organization \<and>
    wr_token_hash worker = env_hash env token \<and> rightful_lease worker (cl_job c) now (cl_lease c) \<and>
    store_lease (wl_lease_id (cl_lease c)) (pl_store t) = Some (cl_lease c) \<and> job_organization_id (cl_job c) = organization \<and>
    (\<forall>gate. env_gate env = Some gate \<longrightarrow> is_wired gate \<and> gate_check gate PrivateRunners = Inr ())"
proof -
  from assms obtain worker where w: "store_worker wid (pl_store s) = Some worker" "\<not> wr_revoked worker"
      "wr_organization_id worker = organization" "wr_token_hash worker = env_hash env token"
    and admit: "admit_claim env = Inr ()" and pages: "claim_pages env organization worker now None (0, []) s = (t, Inr (Some c))"
    unfolding claim_next_def by (auto simp: bind_act_eq_Inr seq_act_eq_Inr dest!: authenticate_in_eq)
  obtain raw u where claim: "claim_job env organization worker now raw u = (t, Inr (Some c))" using claim_pages_outcome [OF pages] by blast
  have "is_wired gate \<and> gate_check gate PrivateRunners = Inr ()" if "env_gate env = Some gate" for gate
    using admit that by (auto simp: admit_claim_def is_wired_def gate_check_def split: option.splits)
  with w claim_job_outcome [OF claim] show ?thesis by blast
qed

text \<open>A worker that registers after the job was scheduled finds it by claiming.\<close>

definition sample_waiting :: plane where
  "sample_waiting =
     fst (register sample_env 0 ''o'' ''w'' ''k'' sample_capabilities ''d''
       (fst (mint_registration_token sample_env 0 ''k'' ''o'' ''t'' ''l''
         (fst (schedule_job sample_env 0 ''o'' ''t'' ''j'' sample_requirements sample_digest default_requeue None (new_plane None))))))"

theorem claimed_job_is_rightful_witness:
  "\<exists>t c worker. claim_next sample_env 7 ''o'' ''w'' ''k'' 1 sample_waiting = (t, Inr (Some c)) \<and> job_job_id (cl_job c) = ''a'' \<and>
     rightful_lease worker (cl_job c) 7 (cl_lease c)"
proof -
  let ?run = "claim_next sample_env 7 ''o'' ''w'' ''k'' 1 sample_waiting"
  have "(case snd ?run of Inr (Some c) \<Rightarrow> job_job_id (cl_job c) = ''a'' | _ \<Rightarrow> False)" by code_simp
  then obtain t c where t: "?run = (t, Inr (Some c))" "job_job_id (cl_job c) = ''a''"
    by (cases ?run) (auto split: sum.splits option.splits)
  from claimed_job_is_rightful [OF t(1)] t show ?thesis by blast
qed

section \<open>Eligible workers\<close>

text \<open>Workers are stored under their own identifier.\<close>

definition workers_keyed :: "memory_state \<Rightarrow> bool" where
  "workers_keyed st \<longleftrightarrow> (\<forall>wid w. bt_get (ms_workers st) wid = Some w \<longrightarrow> wr_worker_id w = wid)"

lemma fold_push_workers [simp]: "ms_workers (fold push_journal es st) = ms_workers st"
  by (induction es arbitrary: st) simp_all

lemma repair_workers: "repair_step now st st' \<Longrightarrow> ms_workers st' = ms_workers st"
  by (auto elim!: repair_step.cases simp: try_accept_lease_def lease_moves_def modify_first_attempt_def set_generation_state_def
      set_attempt_state_def set_job_state_def insert_generation_and_attempt_def Let_def split: option.split)

lemma life_step_workers:
  assumes "life_step st st'" and "workers_keyed st"
  shows "workers_keyed st'"
  using assms(1)
proof cases
  case (repair now)
  then show ?thesis using repair_workers assms(2) by (simp add: workers_keyed_def)
qed (use assms(2) in \<open>auto simp: workers_keyed_def put_worker_def touch_worker_def register_worker_with_token_def put_token_def
      insert_generation_and_attempt_def renew_lease_def end_lease_def land_result_def landing_moves_def modify_first_attempt_def Let_def
      split: option.splits sum.splits if_splits\<close>)

lemma life_reach_workers: "life_reach st \<Longrightarrow> workers_keyed st"
  unfolding life_reach_def
proof (induction rule: rtranclp_induct)
  case base
  show ?case by (simp add: workers_keyed_def empty_store_def)
qed (rule life_step_workers)

lemma workers_sorted:
  assumes "bt_ok (ms_workers st)" and "workers_keyed st"
  shows "sorted_wrt (<) (map wr_worker_id (bt_values (ms_workers st)))"
proof -
  have "wr_worker_id w = k" if "(k, w) \<in> set (ms_workers st)" for k w
    using that assms bt_ok_distinct [OF assms(1)] by (auto simp: workers_keyed_def bt_get_def)
  then have "map wr_worker_id (bt_values (ms_workers st)) = map fst (ms_workers st)" by (auto simp: bt_values_def)
  then show ?thesis using assms(1) by (simp add: bt_ok_def)
qed

lemma filter_beyond_page:
  fixes f :: "'a \<Rightarrow> 'b :: linorder"
  assumes "sorted_wrt (\<lambda>x y. f x < f y) xs" and "take n xs \<noteq> []"
  shows "filter (\<lambda>x. f (last (take n xs)) < f x) xs = drop n xs"
proof -
  let ?l = "last (take n xs)"
  have parts: "butlast (take n xs) @ [?l] @ drop n xs = xs"
    using assms(2) by (metis append_assoc append_butlast_last_id append_take_drop_id)
  with assms(1) have "sorted_wrt (\<lambda>x y. f x < f y) (butlast (take n xs) @ [?l] @ drop n xs)" by simp
  then have less: "\<forall>x\<in>set (butlast (take n xs)). f x < f ?l" "\<forall>x\<in>set (drop n xs). f ?l < f x"
    by (simp_all add: sorted_wrt_append)
  have "filter (\<lambda>x. f ?l < f x) (butlast (take n xs)) = []" using less(1) by (force simp: filter_empty_conv)
  moreover have "filter (\<lambda>x. f ?l < f x) (drop n xs) = drop n xs" using less(2) by simp
  ultimately have "filter (\<lambda>x. f ?l < f x) (butlast (take n xs) @ [?l] @ drop n xs) = drop n xs" by simp
  then show ?thesis unfolding parts .
qed

lemma next_page:
  assumes "bt_ok (ms_workers st)" and "workers_keyed st" and "take n (workers_after organization after st) \<noteq> []"
  shows "workers_after organization (Some (wr_worker_id (last (take n (workers_after organization after st))))) st
    = drop n (workers_after organization after st)"
proof -
  let ?xs = "workers_after organization after st"
  let ?l = "last (take n ?xs)"
  have sorted: "sorted_wrt (\<lambda>x y. wr_worker_id x < wr_worker_id y) ?xs"
    using workers_sorted [OF assms(1,2)] by (simp add: workers_after_def sorted_wrt_filter sorted_wrt_map)
  have "?l \<in> set ?xs" using assms(3) by (metis in_set_takeD last_in_set)
  then have "workers_after organization (Some (wr_worker_id ?l)) st = filter (\<lambda>w. wr_worker_id ?l < wr_worker_id w) ?xs"
    by (auto simp: workers_after_def intro!: filter_cong [OF refl] split: option.splits)
  then show ?thesis using filter_beyond_page [OF sorted assms(3)] by simp
qed

lemma find_append: "find P (xs @ ys) = (case find P xs of Some x \<Rightarrow> Some x | None \<Rightarrow> find P ys)"
  by (induction xs) auto

lemma find_eligible_from_eq:
  assumes "bt_ok (ms_workers st)" and "workers_keyed st"
  shows "find_eligible_from organization trust_domain requirements st after =
    find (eligible trust_domain requirements st) (workers_after organization after st)"
  using assms
proof (induction organization trust_domain requirements st after rule: find_eligible_from.induct)
  case (1 organization trust_domain requirements st after)
  let ?xs = "workers_after organization after st" and ?P = "eligible trust_domain requirements st"
  let ?page = "take MAX_WORKER_PAGE ?xs"
  have page: "store_workers organization after MAX_WORKER_PAGE st = ?page" by (simp add: store_workers_def workers_after_def)
  have split: "find ?P ?xs = (case find ?P ?page of Some x \<Rightarrow> Some x | None \<Rightarrow> find ?P (drop MAX_WORKER_PAGE ?xs))"
    using find_append [of ?P ?page "drop MAX_WORKER_PAGE ?xs"] by simp
  show ?case
  proof (cases "?page = []")
    case True
    then have "?xs = []" by (simp add: MAX_WORKER_PAGE_def)
    then show ?thesis by (simp add: find_eligible_from.simps [of organization trust_domain requirements st after] page)
  next
    case False
    have "drop MAX_WORKER_PAGE ?xs = []" if "length ?page < MAX_WORKER_PAGE" using that by simp
    moreover have "find_eligible_from organization trust_domain requirements st (Some (wr_worker_id (last ?page))) = find ?P (drop MAX_WORKER_PAGE ?xs)"
      if "find ?P ?page = None" "\<not> length ?page < MAX_WORKER_PAGE"
      using 1(1) [OF page [symmetric] False that] 1(2,3) next_page [OF 1(2,3) False] by simp
    ultimately show ?thesis
      unfolding split find_eligible_from.simps [of organization trust_domain requirements st after] page Let_def
      using False by (auto split: option.split)
  qed
qed

text \<open>The page-wise search for a worker of an organization finds what a search through all its workers in the order of their
  identifiers finds: the first one that is not revoked, is in the trust domain, satisfies the requirements and has fewer than
  16 live leases.\<close>

theorem paged_search_is_first_eligible:
  assumes "unique_mint env" and "service_reach env s"
  shows "find_eligible organization trust_domain requirements s =
    (s, Inr (find (\<lambda>w. wr_organization_id w = organization \<and> \<not> wr_revoked w \<and> wr_trust_domain w = trust_domain \<and>
                     satisfies (wr_capabilities w) requirements = Inr () \<and>
                     length (live_leases_of_worker (wr_worker_id w) (pl_store s)) < 16)
              (bt_values (ms_workers (pl_store s)))))"
proof -
  let ?st = "pl_store s"
  have "bt_ok (ms_workers ?st)" using service_reach_life(1) [OF assms] by (simp add: plane_ok_def registry_bt_ok)
  moreover have "workers_keyed ?st" using service_reach_life(2) [OF assms] by (rule life_reach_workers)
  ultimately have "find_eligible_from organization trust_domain requirements ?st None =
      find (eligible trust_domain requirements ?st) (filter (\<lambda>w. wr_organization_id w = organization) (bt_values (ms_workers ?st)))"
    by (simp add: find_eligible_from_eq workers_after_def)
  moreover have "find P (filter Q xs) = find (\<lambda>x. Q x \<and> P x) xs" for P Q and xs :: "worker_registration list"
    by (induction xs) auto
  ultimately show ?thesis
    by (auto simp: find_eligible_def query_def eligible_def worker_bounds is_ok_iff intro!: arg_cong2 [where f = find])
qed

theorem paged_search_is_first_eligible_witness:
  "\<exists>w. find_eligible ''o'' ''t'' sample_requirements sample_registered = (sample_registered, Inr (Some w)) \<and> wr_worker_id w = ''w''"
proof -
  have "(case snd (find_eligible ''o'' ''t'' sample_requirements sample_registered) of Inr (Some w) \<Rightarrow> wr_worker_id w = ''w'' | _ \<Rightarrow> False)"
    by code_simp
  then show ?thesis
    using paged_search_is_first_eligible [OF sample_mint worker_sample_reach(1), of "''o''" "''t''" sample_requirements]
    by (auto split: option.splits)
qed

section \<open>Results under the lease of another job\<close>

lemma bind_act_run: "m s = (t, Inr v) \<Longrightarrow> bind_act m f s = f v t"
  by (simp add: bind_act_def)

lemma seq_act_run: "m s = (t, Inr ()) \<Longrightarrow> seq_act m k s = k t"
  by (simp add: seq_act_def bind_act_def)

lemma plane_journal_run:
  assumes "pl_writes_left s = None" and "length d \<le> MAX_JOURNAL_DETAIL_BYTES"
  shows "\<exists>e t. plane_journal organization kind now w j g d s = (t, Inr ()) \<and> pl_store t = push_journal e (pl_store s)"
  using assms by (auto simp: plane_journal_def Let_def journal_entry_new_def checked_def commit_def append_journal_def)

lemma land_under_lease_run:
  assumes "pl_writes_left s = None" and "store_job (job_job_id job) (pl_store s) = Some job" and "job_current_generation job = g"
    and "store_result (job_job_id job) g (pl_store s) = None" and "store_lease lid (pl_store s) = Some lease" and "wl_worker_id lease = wid"
    and "wl_generation lease = g" and "wl_state lease = Lease_Live" and "\<not> lease_is_expired_at lease now" and "length lid \<le> MAX_ID_BYTES"
  shows "\<exists>t e. land_under_lease env now organization wid job g lid digest outcome claim s = (t, Inr Result_Landed) \<and>
    pl_store t = push_journal e (landing_moves (result_row now wid (job_job_id job) g lid digest outcome claim) (pl_store s))"
proof -
  let ?r = "result_row now wid (job_job_id job) g lid digest outcome claim"
  let ?u = "s\<lparr>pl_store := landing_moves ?r (pl_store s), pl_writes_left := None\<rparr>"
  have r: "res_job_id ?r = job_job_id job" "res_generation ?r = g" "res_lease_id ?r = lid" "res_worker_id ?r = wid"
    by (simp_all add: result_row_def)
  have "landing_check ?r (pl_store s) = Inr ()"
    using assms by (auto simp: landing_check_ok r store_job_def store_lease_def)
  then have "land_result ?r (pl_store s) = (landing_moves ?r (pl_store s), Inr Append_Landed)"
    using assms(4) by (simp add: land_result_landed r store_result_def)
  then have landed: "commit (land_result ?r) s = (?u, Inr Append_Landed)" using assms(1) by (simp add: commit_def)
  have "length ((''outcome='' @ outcome_text outcome) @ '' lease='' @ lid) \<le> MAX_JOURNAL_DETAIL_BYTES"
    using assms(10) by (cases outcome) (simp_all add: outcome_text_def worker_bounds)
  from plane_journal_run [of ?u, OF _ this, of organization "''result_accepted''" now "Some wid" "Some (job_job_id job)" "Some g"]
  obtain t e where "plane_journal organization ''result_accepted'' now (Some wid) (Some (job_job_id job)) (Some g)
      ((''outcome='' @ outcome_text outcome) @ '' lease='' @ lid) ?u = (t, Inr ())" "pl_store t = push_journal e (pl_store ?u)"
    by auto
  then show ?thesis
    unfolding land_under_lease_def Let_def
    using assms landed by (auto simp: bind_act_run seq_act_run deny_if_def found_or_def)
qed

text \<open>The lease of a submission is checked for its worker and its generation but not for its job: a worker with a live lease on one job lands a
  result for another open job of its organization that has the same generation, whoever holds the lease of that job; the other
  job is completed, and the lease the worker held ends although its own job has no result.\<close>

theorem result_lands_under_foreign_lease:
  assumes "pl_writes_left s = None" and "authenticate_in env organization wid token s = (s, Inr worker)"
    and "store_job jid (pl_store s) = Some job" and "job_job_id job = jid" and "job_organization_id job = organization"
    and "job_current_generation job = g" and "job_payload_digest job = digest" and "validate_digest digest = Inr ()"
    and "store_result jid g (pl_store s) = None"
    and "store_lease lid (pl_store s) = Some lease" and "wl_worker_id lease = wr_worker_id worker" and "wl_generation lease = g"
    and "wl_state lease = Lease_Live" and "\<not> lease_is_expired_at lease now" and "length lid \<le> MAX_ID_BYTES"
    and "wl_job_id lease \<noteq> jid"
  shows "\<exists>t. submit_result env now organization wid token WORKER_PROTOCOL_VERSION jid g lid digest outcome s = (t, Inr Result_Landed) \<and>
    map_option job_state (store_job jid (pl_store t)) = Some Job_Completed \<and>
    map_option wl_state (store_lease lid (pl_store t)) = Some Lease_Completed \<and>
    store_job (wl_job_id lease) (pl_store t) = store_job (wl_job_id lease) (pl_store s) \<and>
    store_result (wl_job_id lease) g (pl_store t) = store_result (wl_job_id lease) g (pl_store s)"
proof -
  let ?r = "result_row now (wr_worker_id worker) jid g lid digest outcome default_claim"
  have r: "res_job_id ?r = jid" "res_generation ?r = g" "res_lease_id ?r = lid" by (simp_all add: result_row_def)
  obtain t e where t: "land_under_lease env now organization (wr_worker_id worker) job g lid digest outcome default_claim s = (t, Inr Result_Landed)"
    "pl_store t = push_journal e (landing_moves ?r (pl_store s))"
    using land_under_lease_run [of s job g lid lease "wr_worker_id worker" now env organization digest outcome default_claim] assms by auto
  have "require_job organization jid s = (s, Inr job)" using assms by (simp add: require_job_eq)
  with t(1) have "submit_result env now organization wid token WORKER_PROTOCOL_VERSION jid g lid digest outcome s = (t, Inr Result_Landed)"
    unfolding submit_result_def submit_result_with_claim_def using assms
    by (simp add: bind_act_run seq_act_run checked_def check_protocol_def default_claim_def)
  moreover have "store_job (wl_job_id lease) (pl_store t) = store_job (wl_job_id lease) (pl_store s)"
    "store_result (wl_job_id lease) g (pl_store t) = store_result (wl_job_id lease) g (pl_store s)"
    using assms(16) by (simp_all add: t(2) landing_moves_def store_job_def store_result_def r modify_first_attempt_def split: option.split)
  moreover have "map_option job_state (store_job jid (pl_store t)) = Some Job_Completed"
    "map_option wl_state (store_lease lid (pl_store t)) = Some Lease_Completed"
    using landing_moves_reads [of ?r "pl_store s"] assms(3,10)
    by (simp_all add: t(2) r) (simp_all add: store_job_def store_lease_def)
  ultimately show ?thesis by blast
qed

text \<open>Two workers with one job each.\<close>

definition sample_two :: plane where
  "sample_two =
     fst (schedule_job sample_env 0 ''o'' ''t'' ''i'' sample_requirements sample_digest default_requeue (Some ''v'')
       (fst (schedule_job sample_env 0 ''o'' ''t'' ''j'' sample_requirements sample_digest default_requeue (Some ''w'')
         (fst (register sample_env 0 ''o'' ''v'' ''m'' sample_capabilities ''e''
           (fst (mint_registration_token sample_env 0 ''m'' ''o'' ''t'' ''l'' sample_registered)))))))"

lemma sample_two_reach: "service_reach sample_env sample_two"
  unfolding sample_two_def
  by (rule reach_step [OF reach_step [OF reach_step [OF reach_step [OF worker_sample_reach(1) service_step.token] service_step.registered]
        service_step.scheduled] service_step.scheduled])

theorem result_lands_under_foreign_lease_witness:
  "\<exists>t l. service_reach sample_env sample_two \<and> lease_for_generation ''aaa'' 1 (pl_store sample_two) = Some l \<and>
     wl_state l = Lease_Live \<and> wl_worker_id l = ''v'' \<and>
     submit_result sample_env 10 ''o'' ''w'' ''k'' 1 ''aaa'' 1 ''aa'' sample_digest Outcome_Succeeded sample_two = (t, Inr Result_Landed) \<and>
     map_option job_state (store_job ''aaa'' (pl_store t)) = Some Job_Completed"
proof -
  let ?s = sample_two
  let ?auth = "authenticate_in sample_env ''o'' ''w'' ''k'' ?s"
  have "(case snd ?auth of Inr w \<Rightarrow> wr_worker_id w = ''w'' | Inl _ \<Rightarrow> False)" by code_simp
  then obtain worker where worker: "?auth = (?s, Inr worker)" "wr_worker_id worker = ''w''"
    using authenticate_pure(2) [of sample_env "''o''" "''w''" "''k''" ?s] by (cases ?auth) (auto split: sum.splits)
  have "map_option (\<lambda>j. (job_job_id j, job_organization_id j, job_current_generation j, job_payload_digest j)) (store_job ''aaa'' (pl_store ?s))
      = Some (''aaa'', ''o'', 1, sample_digest)" by code_simp
  then obtain job where job: "store_job ''aaa'' (pl_store ?s) = Some job" "job_job_id job = ''aaa''" "job_organization_id job = ''o''"
    "job_current_generation job = 1" "job_payload_digest job = sample_digest" by auto
  have "map_option (\<lambda>l. (wl_worker_id l, wl_generation l, wl_state l, lease_is_expired_at l 10, wl_job_id l)) (store_lease ''aa'' (pl_store ?s))
      = Some (''w'', 1, Lease_Live, False, ''a'')" by code_simp
  then obtain lease where lease: "store_lease ''aa'' (pl_store ?s) = Some lease" "wl_worker_id lease = ''w''" "wl_generation lease = 1"
    "wl_state lease = Lease_Live" "\<not> lease_is_expired_at lease 10" "wl_job_id lease = ''a''" by auto
  have rest: "pl_writes_left ?s = None" "validate_digest sample_digest = Inr ()" "store_result ''aaa'' 1 (pl_store ?s) = None" by code_simp+
  have "map_option (\<lambda>l. (wl_state l, wl_worker_id l)) (lease_for_generation ''aaa'' 1 (pl_store ?s)) = Some (Lease_Live, ''v'')" by code_simp
  moreover note result_lands_under_foreign_lease [OF rest(1) worker(1) job rest(2,3) lease(1) _ lease(3-5), of Outcome_Succeeded]
  ultimately show ?thesis using worker(2) lease(2,6) sample_two_reach by (auto simp: worker_bounds)
qed

end
