(* ===== verification/Planning_Bom.thy ===== *)
theory Planning_Bom
  imports Planning_Model
begin

text \<open>
  The bill of materials: depths and the explosion of demand into gross requirements
  (\<open>bom_depths\<close>, \<open>explode_requirements\<close> of \<open>crates/supply-planning/src/lib.rs\<close>), and the proofs
  that the topological sort succeeds exactly on the acyclic inputs, that the depth bound refuses
  exactly the chains that are too long, and that the explosion solves the requirement equations.
  The \<open>HashMap\<close>s from a part to its depth or its vector are maps.
\<close>

section \<open>Depths\<close>

definition depth_of :: "(part_id \<rightharpoonup> nat) \<Rightarrow> part_id \<Rightarrow> nat" where
  "depth_of depth p = (case depth p of None \<Rightarrow> 0 | Some d \<Rightarrow> d)"

definition relax_depth :: "nat \<Rightarrow> bom_line \<Rightarrow> (part_id \<rightharpoonup> nat) \<Rightarrow> part_id \<rightharpoonup> nat" where
  "relax_depth current line depth =
     depth(bl_child line \<mapsto> max (depth_of depth (bl_child line)) (current + 1))"

definition depth_step ::
    "planning_input \<Rightarrow> (part_id \<rightharpoonup> nat) \<Rightarrow> part_id \<Rightarrow> planning_error + (part_id \<rightharpoonup> nat)" where
  "depth_step inp depth part =
     (let current = depth_of depth part
      in if current \<ge> MAX_BOM_DEPTH then Inl (BomDepth MAX_BOM_DEPTH)
         else Inr (fold (relax_depth current) (children_of inp part) depth))"

definition bom_depths :: "planning_input \<Rightarrow> planning_fault + (part_id \<rightharpoonup> nat)" where
  "bom_depths inp =
     bind_result (topological_order inp) (\<lambda>order. refused (try_fold (depth_step inp) Map.empty order))"

section \<open>The explosion\<close>

text \<open>\<open>vector[index] = vector[index].checked_add(q)?\<close>\<close>

definition add_at :: "nat \<Rightarrow> units \<Rightarrow> units list \<Rightarrow> planning_fault + units list" where
  "add_at i q v =
     (if i < length v
      then bind_result (refused (exact_err (units_checked_add (v ! i) q))) (\<lambda>u. Inr (v[i := u]))
      else Inl Panic)"

definition demand_step ::
    "(part_id \<rightharpoonup> units list) \<Rightarrow> demand_line \<Rightarrow> planning_fault + (part_id \<rightharpoonup> units list)" where
  "demand_step gross line =
     (case gross (dl_part line) of
        None \<Rightarrow> Inl (Refused (UnknownPart (dl_part line)))
      | Some v \<Rightarrow>
          bind_result (add_at (dl_period line) (dl_quantity line) v) (\<lambda>v.
          Inr (gross(dl_part line \<mapsto> v))))"

text \<open>The units of a child that some units of its parent need.\<close>

definition bom_requirement :: "units \<Rightarrow> bom_line \<Rightarrow> int \<Rightarrow> planning_error + units" where
  "bom_requirement parent_units line usable =
     bind_result (ok_or (Plan_Exact Exact_Overflow)
         (mul_div_round_up (int (units_get parent_units)) (q_micros (quantity_per line)) usable)) (\<lambda>required.
     if required < 0 then Inl (Plan_Negative ''BOM requirement'')
     else bind_result (ok_or (Plan_Exact Exact_Overflow) (try_u64 (nat required))) (\<lambda>required.
       if required > MAX_UNITS then Inl (Plan_Invalid ''BOM requirement exceeds the unit bound'')
       else exact_err (units_new required)))"

fun explode_periods ::
    "bom_line \<Rightarrow> int \<Rightarrow> nat \<Rightarrow> units list \<Rightarrow> units list \<Rightarrow> planning_fault + units list" where
  "explode_periods line usable period [] child_gross = Inr child_gross"
| "explode_periods line usable period (parent_units # rest) child_gross =
     (if units_get parent_units = 0 then explode_periods line usable (period + 1) rest child_gross
      else
        bind_result (refused (bom_requirement parent_units line usable)) (\<lambda>required.
        bind_result (add_at period required child_gross) (\<lambda>child_gross.
        explode_periods line usable (period + 1) rest child_gross)))"

definition explode_line ::
    "units list \<Rightarrow> (part_id \<rightharpoonup> units list) \<Rightarrow> bom_line \<Rightarrow> planning_fault + (part_id \<rightharpoonup> units list)" where
  "explode_line parent_gross gross line =
     (let usable = 1000000 - ppm (scrap_rate line)
      in if usable \<le> 0 then Inl (Refused (Plan_Invalid ''BOM yield is zero''))
         else (case gross (bl_child line) of
                 None \<Rightarrow> Inl (Refused (UnknownPart (bl_child line)))
               | Some v \<Rightarrow>
                   bind_result (explode_periods line usable 0 parent_gross v) (\<lambda>v.
                   Inr (gross(bl_child line \<mapsto> v)))))"

definition explode_part ::
    "planning_input \<Rightarrow> (part_id \<rightharpoonup> units list) \<Rightarrow> part_id \<Rightarrow> planning_fault + (part_id \<rightharpoonup> units list)" where
  "explode_part inp gross part =
     (case gross part of
        None \<Rightarrow> Inl (Refused (UnknownPart part))
      | Some parent_gross \<Rightarrow> try_fold (explode_line parent_gross) gross (children_of inp part))"

definition zero_gross :: "planning_input \<Rightarrow> part_id \<rightharpoonup> units list" where
  "zero_gross inp = map_of (map (\<lambda>p. (pp_part p, replicate (periods inp) (Units 0))) (parts inp))"

definition explode_requirements :: "planning_input \<Rightarrow> planning_fault + (part_id \<rightharpoonup> units list)" where
  "explode_requirements inp =
     bind_result (bom_depths inp) (\<lambda>_.
     bind_result (topological_order inp) (\<lambda>order.
     bind_result (try_fold demand_step (zero_gross inp) (demand inp)) (\<lambda>gross.
     try_fold (explode_part inp) gross order)))"

section \<open>What validation establishes\<close>

definition part_ids :: "planning_input \<Rightarrow> part_id set" where
  "part_ids inp = pp_part ` set (parts inp)"

definition bom_edges :: "planning_input \<Rightarrow> part_id rel" where
  "bom_edges inp = (\<lambda>l. (bl_parent l, bl_child l)) ` set (bom inp)"

definition bom_closed :: "planning_input \<Rightarrow> bool" where
  "bom_closed inp \<longleftrightarrow> bom_edges inp \<subseteq> part_ids inp \<times> part_ids inp"

lemma finite_part_ids [simp]: "finite (part_ids inp)"
  by (simp add: part_ids_def)

lemma finite_bom_edges [simp]: "finite (bom_edges inp)"
  by (simp add: bom_edges_def)

lemma validate_part_ok:
  assumes "validate_part inp seen p = Inr seen'"
  shows "seen' = pp_part p # seen" "pp_part p \<notin> set seen" "part_plan_validate p = Inr ()"
    and "\<And>c. c \<in> set (pp_confirmed p) \<Longrightarrow> cs_period c < periods inp"
  using assms by (auto simp: validate_part_def not_le)

lemma validate_parts_ids:
  "try_fold (validate_part inp) seen ps = Inr ids \<Longrightarrow>
     set ids = set seen \<union> pp_part ` set ps \<and> (distinct seen \<longrightarrow> distinct (rev (map pp_part ps) @ seen))
     \<and> (\<forall>p\<in>set ps. part_plan_validate p = Inr () \<and> (\<forall>c\<in>set (pp_confirmed p). cs_period c < periods inp))"
proof (induction ps arbitrary: seen)
  case (Cons p ps)
  then obtain seen' where p: "validate_part inp seen p = Inr seen'"
    and rest: "try_fold (validate_part inp) seen' ps = Inr ids" by auto
  from Cons.IH [OF rest] validate_part_ok [OF p] show ?case by auto
qed simp

lemma validate_fields_ok:
  assumes "validate_fields inp = Inr u"
  shows "0 < periods inp" "0 < days_per_period inp" "0 < periods_per_year inp" "periods inp \<le> MAX_PERIODS"
    and "distinct (map pp_part (parts inp))"
    and "\<And>p. p \<in> set (parts inp) \<Longrightarrow> part_plan_validate p = Inr ()"
    and "\<And>p c. p \<in> set (parts inp) \<Longrightarrow> c \<in> set (pp_confirmed p) \<Longrightarrow> cs_period c < periods inp"
    and "bom_closed inp"
    and "\<And>l. l \<in> set (bom inp) \<Longrightarrow> 0 < q_micros (quantity_per l) \<and> ppm (scrap_rate l) < 1000000"
    and "\<And>d. d \<in> set (demand inp) \<Longrightarrow> dl_part d \<in> part_ids inp \<and> dl_period d < periods inp"
proof -
  from assms obtain ids where ids: "try_fold (validate_part inp) [] (parts inp) = Inr ids"
    and b: "\<forall>l\<in>set (bom inp). validate_bom_line ids l = Inr ()"
    and d: "\<forall>l\<in>set (demand inp). validate_demand_line inp ids l = Inr ()"
    and bounds: "0 < periods inp" "0 < days_per_period inp" "0 < periods_per_year inp" "periods inp \<le> MAX_PERIODS"
    by (auto simp: validate_fields_def)
  note set_ids = validate_parts_ids [OF ids]
  show "0 < periods inp" "0 < days_per_period inp" "0 < periods_per_year inp" "periods inp \<le> MAX_PERIODS"
    by (fact bounds)+
  show "distinct (map pp_part (parts inp))" using set_ids by simp
  show "\<And>p. p \<in> set (parts inp) \<Longrightarrow> part_plan_validate p = Inr ()" using set_ids by simp
  show "\<And>p c. p \<in> set (parts inp) \<Longrightarrow> c \<in> set (pp_confirmed p) \<Longrightarrow> cs_period c < periods inp"
    using set_ids by blast
  show "bom_closed inp" using b set_ids
    by (auto simp: bom_closed_def bom_edges_def part_ids_def validate_bom_line_def)
  show "\<And>l. l \<in> set (bom inp) \<Longrightarrow> 0 < q_micros (quantity_per l) \<and> ppm (scrap_rate l) < 1000000"
    using b by (auto simp: validate_bom_line_def not_le)
  show "\<And>e. e \<in> set (demand inp) \<Longrightarrow> dl_part e \<in> part_ids inp \<and> dl_period e < periods inp"
    using d set_ids by (auto simp: validate_demand_line_def part_ids_def not_le)
qed

section \<open>The topological sort\<close>

definition lines_into :: "part_id \<Rightarrow> bom_line list \<Rightarrow> nat" where
  "lines_into n ls = length (filter (\<lambda>l. bl_child l = n) ls)"

lemma lines_into_simps [simp]:
  "lines_into n [] = 0" "lines_into n (l # ls) = (if bl_child l = n then 1 else 0) + lines_into n ls"
  by (simp_all add: lines_into_def)

lemma map_entry_apply:
  "map_of (AList.map_entry k f m) n = (if n = k then map_option f (map_of m k) else map_of m n)"
  by (simp add: map_of_map_entry split: option.splits)

lemma or_insert_zero_lookup:
  "map_of (or_insert_zero ps m) n = (if map_of m n = None \<and> n \<in> set ps then Some 0 else map_of m n)"
proof (induction ps m rule: or_insert_zero.induct)
  case (2 p ps m)
  then show ?case by (cases "map_of m n"; cases "map_of m p") (auto simp: map_add_def)
qed simp

lemma count_children_lookup:
  "map_of (count_children ls m) n =
     (case map_of m n of
        None \<Rightarrow> if lines_into n ls = 0 then None else Some (lines_into n ls)
      | Some d \<Rightarrow> Some (d + lines_into n ls))"
proof (induction ls m rule: count_children.induct)
  case (2 l ls m)
  then show ?case
    by (cases "map_of m (bl_child l)") (auto simp: map_entry_apply map_add_def split: option.splits)
qed (simp split: option.splits)

lemma initial_indegree_lookup:
  assumes "bom_closed inp"
  shows "map_of (initial_indegree inp) n = (if n \<in> part_ids inp then Some (lines_into n (bom inp)) else None)"
proof -
  have "n \<notin> part_ids inp \<Longrightarrow> lines_into n (bom inp) = 0"
    using assms by (auto simp: lines_into_def filter_empty_conv bom_closed_def bom_edges_def)
  then show ?thesis
    by (auto simp: initial_indegree_def count_children_lookup or_insert_zero_lookup part_ids_def split: option.splits)
qed

lemma distinct_or_insert_zero: "distinct (map fst m) \<Longrightarrow> distinct (map fst (or_insert_zero ps m))"
  by (induction ps m rule: or_insert_zero.induct) (auto simp: map_of_eq_None_iff)

lemma distinct_count_children: "distinct (map fst m) \<Longrightarrow> distinct (map fst (count_children ls m))"
  by (induction ls m rule: count_children.induct)
    (auto simp: map_of_eq_None_iff distinct_map_entry split: option.splits)

lemma initial_ready_set:
  assumes "distinct (map fst m)"
  shows "set (initial_ready m) = {n. map_of m n = Some 0} \<and> sorted (initial_ready m) \<and> distinct (initial_ready m)"
proof -
  have "set (foldr insort_insert xs []) = set xs \<and> sorted (foldr insort_insert xs [])
      \<and> distinct (foldr insort_insert xs [])" for xs :: "nat list"
    by (induction xs) (auto simp: set_insort_insert sorted_insort_insert distinct_insort_insert)
  then show ?thesis using assms by (force simp: initial_ready_def)
qed

text \<open>The inner loop subtracts each line once and readies exactly the parts whose last line it was.\<close>

lemma release_children_spec:
  assumes "\<And>n. lines_into n ls \<le> d n" and "\<And>n. map_of m n = (if n \<in> N then Some (d n) else None)"
    and "bl_child ` set ls \<subseteq> N" and "sorted ready \<and> distinct ready"
  shows "\<exists>ready' m'. release_children ls ready m = Some (ready', m')
    \<and> (\<forall>n. map_of m' n = (if n \<in> N then Some (d n - lines_into n ls) else None))
    \<and> set ready' = set ready \<union> {n. 0 < lines_into n ls \<and> d n = lines_into n ls}
    \<and> sorted ready' \<and> distinct ready'"
  using assms
proof (induction ls arbitrary: ready m d)
  case (Cons l ls)
  let ?c = "bl_child l"
  from Cons.prems(1) [of ?c] obtain k where k: "d ?c = Suc k" by (cases "d ?c") auto
  from Cons.prems(2,3) k have look: "map_of m ?c = Some (Suc k)" by simp
  let ?m = "AList.map_entry ?c (\<lambda>_. k) m" and ?d = "d(?c := k)"
  let ?ready = "if k = 0 then insort_insert ?c ready else ready"
  have d: "lines_into n ls \<le> ?d n" for n using Cons.prems(1) [of n] k by auto
  have m: "map_of ?m n = (if n \<in> N then Some (?d n) else None)" for n
    using Cons.prems(2,3) look by (auto simp: map_entry_apply)
  have sub: "bl_child ` set ls \<subseteq> N" using Cons.prems(3) by simp
  have srt: "sorted ?ready \<and> distinct ?ready"
    using Cons.prems(4) by (simp add: sorted_insort_insert distinct_insort_insert)
  obtain ready' m' where r: "release_children ls ?ready ?m = Some (ready', m')"
    and m': "\<And>n. map_of m' n = (if n \<in> N then Some (?d n - lines_into n ls) else None)"
    and s: "set ready' = set ?ready \<union> {n. 0 < lines_into n ls \<and> ?d n = lines_into n ls}"
    and srt': "sorted ready' \<and> distinct ready'"
    using Cons.IH [OF d m sub srt] by blast
  have "release_children (l # ls) ready m = Some (ready', m')" using look r by simp
  moreover have "map_of m' n = (if n \<in> N then Some (d n - lines_into n (l # ls)) else None)" for n
    using m' [of n] k by auto
  moreover have "set ready' = set ready \<union> {n. 0 < lines_into n (l # ls) \<and> d n = lines_into n (l # ls)}"
  proof (rule set_eqI)
    fix n
    have "n \<in> set ready' \<longleftrightarrow> n \<in> set ready \<or> (n = ?c \<and> k = 0) \<or> (0 < lines_into n ls \<and> ?d n = lines_into n ls)"
      unfolding s by (cases "k = 0") (auto simp: set_insort_insert)
    also have "\<dots> \<longleftrightarrow> n \<in> set ready \<or> (0 < lines_into n (l # ls) \<and> d n = lines_into n (l # ls))"
      using k d [of n] by (cases "n = ?c") auto
    finally show "n \<in> set ready' \<longleftrightarrow> n \<in> set ready \<union> {n. 0 < lines_into n (l # ls) \<and> d n = lines_into n (l # ls)}"
      by simp
  qed
  ultimately show ?case using srt' by blast
qed simp

text \<open>\<open>open_lines\<close> counts the lines into a part whose parent is not ordered yet.\<close>

definition open_lines :: "planning_input \<Rightarrow> part_id list \<Rightarrow> part_id \<Rightarrow> nat" where
  "open_lines inp order n = lines_into n (filter (\<lambda>l. bl_parent l \<notin> set order) (bom inp))"

definition parents_first :: "planning_input \<Rightarrow> part_id list \<Rightarrow> bool" where
  "parents_first inp order \<longleftrightarrow>
     (\<forall>i < length order. \<forall>p. (p, order ! i) \<in> bom_edges inp \<longrightarrow> p \<in> set (take i order))"

definition kahn_inv :: "planning_input \<Rightarrow> part_id list \<Rightarrow> (part_id \<times> nat) list \<Rightarrow> part_id list \<Rightarrow> bool" where
  "kahn_inv inp ready m order \<longleftrightarrow>
     (\<forall>n. map_of m n = (if n \<in> part_ids inp then Some (open_lines inp order n) else None))
     \<and> set ready = {n \<in> part_ids inp. open_lines inp order n = 0 \<and> n \<notin> set order}
     \<and> sorted ready \<and> distinct ready
     \<and> distinct order \<and> set order \<subseteq> part_ids inp \<and> parents_first inp order"

lemma open_lines_zero: "open_lines inp order n = 0 \<longleftrightarrow> (\<forall>p. (p, n) \<in> bom_edges inp \<longrightarrow> p \<in> set order)"
  by (auto simp: open_lines_def lines_into_def filter_empty_conv bom_edges_def)

lemma lines_into_filter_add:
  "(\<And>l. l \<in> set ls \<Longrightarrow> \<not> (P l \<and> Q l)) \<Longrightarrow>
     lines_into n (filter (\<lambda>l. P l \<or> Q l) ls) = lines_into n (filter P ls) + lines_into n (filter Q ls)"
  by (induction ls) auto

lemma open_lines_snoc:
  assumes "p \<notin> set order"
  shows "open_lines inp order n = open_lines inp (order @ [p]) n + lines_into n (children_of inp p)"
proof -
  have "filter (\<lambda>l. bl_parent l \<notin> set order) (bom inp)
    = filter (\<lambda>l. bl_parent l \<notin> set (order @ [p]) \<or> bl_parent l = p) (bom inp)"
    using assms by (intro filter_cong) auto
  then show ?thesis
    using lines_into_filter_add [of "bom inp" "\<lambda>l. bl_parent l \<notin> set (order @ [p])" "\<lambda>l. bl_parent l = p" n]
    unfolding open_lines_def children_of_def by auto
qed

lemma parents_first_snoc:
  assumes "parents_first inp order" and "\<And>q. (q, p) \<in> bom_edges inp \<Longrightarrow> q \<in> set order"
  shows "parents_first inp (order @ [p])"
  using assms by (auto simp: parents_first_def nth_append less_Suc_eq)

lemma kahn_step:
  assumes closed: "bom_closed inp" and inv: "kahn_inv inp (p # ready) m order"
  obtains ready' m' where "release_children (children_of inp p) ready m = Some (ready', m')"
    and "kahn_inv inp ready' m' (order @ [p])"
proof -
  let ?N = "part_ids inp" and ?ls = "children_of inp p"
  from inv have p: "p \<in> ?N" "open_lines inp order p = 0" "p \<notin> set order" "p \<notin> set ready"
    and ready: "sorted ready \<and> distinct ready"
    and setr: "insert p (set ready) = {n \<in> ?N. open_lines inp order n = 0 \<and> n \<notin> set order}"
    and m: "\<And>n. map_of m n = (if n \<in> ?N then Some (open_lines inp order n) else None)"
    by (auto simp: kahn_inv_def)
  have le: "lines_into n ?ls \<le> open_lines inp order n" for n
    using open_lines_snoc [OF p(3), of inp n] by simp
  have sub: "bl_child ` set ?ls \<subseteq> ?N"
    using closed by (auto simp: bom_closed_def bom_edges_def children_of_def)
  obtain ready' m' where r: "release_children ?ls ready m = Some (ready', m')"
    and m': "\<And>n. map_of m' n = (if n \<in> ?N then Some (open_lines inp order n - lines_into n ?ls) else None)"
    and s: "set ready' = set ready \<union> {n. 0 < lines_into n ?ls \<and> open_lines inp order n = lines_into n ?ls}"
    and srt: "sorted ready'" "distinct ready'"
    using release_children_spec [OF le m sub ready] by blast
  have no_self: "lines_into p ?ls = 0" using le [of p] p(2) by simp
  have into: "0 < lines_into n ?ls \<Longrightarrow> n \<in> ?N" for n
    using sub by (auto simp: lines_into_def filter_empty_conv)
  have fresh: "0 < lines_into n ?ls \<Longrightarrow> n \<notin> set order" for n
  proof
    assume pos: "0 < lines_into n ?ls" and "n \<in> set order"
    then have "(p, n) \<in> bom_edges inp"
      by (force simp: lines_into_def filter_empty_conv children_of_def bom_edges_def)
    moreover from \<open>n \<in> set order\<close> obtain i where "i < length order" "order ! i = n" by (auto simp: in_set_conv_nth)
    ultimately have "p \<in> set order"
      using inv by (metis in_set_takeD kahn_inv_def parents_first_def)
    with p(3) show False ..
  qed
  have set': "set ready' = {n \<in> ?N. open_lines inp (order @ [p]) n = 0 \<and> n \<notin> set (order @ [p])}" (is "_ = ?R")
  proof (intro equalityI subsetI)
    fix n assume "n \<in> set ready'"
    then consider "n \<in> set ready" | "0 < lines_into n ?ls" "open_lines inp order n = lines_into n ?ls"
      using s by auto
    then show "n \<in> ?R"
    proof cases
      case 1
      then have "n \<in> ?N" "open_lines inp order n = 0" "n \<notin> set order" "n \<noteq> p" using setr p(4) by auto
      then show ?thesis using open_lines_snoc [OF p(3), of inp n] by simp
    next
      case 2
      then show ?thesis using open_lines_snoc [OF p(3), of inp n] into fresh no_self by auto
    qed
  next
    fix n assume n: "n \<in> ?R"
    then have eq: "open_lines inp order n = lines_into n ?ls" using open_lines_snoc [OF p(3), of inp n] by simp
    show "n \<in> set ready'"
    proof (cases "lines_into n ?ls")
      case 0
      with n eq have "n \<in> insert p (set ready)" unfolding setr by simp
      with n s show ?thesis by auto
    qed (use eq s in auto)
  qed
  have "parents_first inp (order @ [p])"
    using inv p(2) by (intro parents_first_snoc) (auto simp: kahn_inv_def open_lines_zero)
  then have "kahn_inv inp ready' m' (order @ [p])"
    using inv srt set' m' p open_lines_snoc [OF p(3), of inp] by (simp add: kahn_inv_def)
  with r show ?thesis by (rule that)
qed

lemma kahn_inv_init:
  assumes "bom_closed inp"
  shows "kahn_inv inp (initial_ready (initial_indegree inp)) (initial_indegree inp) []"
proof -
  have "distinct (map fst (initial_indegree inp))"
    unfolding initial_indegree_def by (intro distinct_count_children distinct_or_insert_zero) simp
  from initial_ready_set [OF this] show ?thesis
    by (auto simp: kahn_inv_def initial_indegree_lookup [OF assms] open_lines_def parents_first_def split: if_splits)
qed

lemma kahn_result:
  assumes "bom_closed inp" and "kahn_inv inp ready m order"
  shows "\<exists>m' order'. kahn inp ready m order = Some order' \<and> kahn_inv inp [] m' order'"
  using assms
proof (induction inp ready m order rule: kahn.induct)
  case (2 inp p ready m order)
  from kahn_step [OF 2(2,3)] obtain ready' m' where
    "release_children (children_of inp p) ready m = Some (ready', m')" "kahn_inv inp ready' m' (order @ [p])" .
  with 2(1) [of "(ready', m')" ready' m'] 2(2) show ?case by auto
qed auto

text \<open>The position of a part in an order with the parents first decreases along every edge.\<close>

definition pos :: "part_id list \<Rightarrow> part_id \<Rightarrow> nat" where
  "pos order n = length (takeWhile (\<lambda>x. x \<noteq> n) order)"

lemma pos_take: "n \<in> set (take i order) \<Longrightarrow> pos order n < i"
proof -
  assume n: "n \<in> set (take i order)"
  have "takeWhile (\<lambda>x. x \<noteq> n) (take i order @ drop i order) = takeWhile (\<lambda>x. x \<noteq> n) (take i order)"
    using n by (intro takeWhile_append1) auto
  then have "pos order n = length (takeWhile (\<lambda>x. x \<noteq> n) (take i order))" by (simp add: pos_def)
  also have "\<dots> < length (take i order)"
    using n by (metis (mono_tags, lifting) length_takeWhile_le linorder_not_le nat_less_le order_le_less
        set_takeWhileD takeWhile_eq_take take_all)
  finally show ?thesis by simp
qed

lemma pos_nth: "n \<in> set order \<Longrightarrow> pos order n < length order \<and> order ! pos order n = n"
proof -
  assume "n \<in> set order"
  then have "pos order n < length order" using pos_take [of n "length order" order] by simp
  then show ?thesis using nth_length_takeWhile [of "\<lambda>x. x \<noteq> n" order] by (simp add: pos_def)
qed

lemma edge_decreases_pos:
  assumes "parents_first inp order" and "(p, c) \<in> bom_edges inp" and "c \<in> set order"
  shows "pos order p < pos order c"
  using assms pos_nth [OF assms(3)] by (auto simp: parents_first_def intro!: pos_take)

lemma parents_first_acyclic:
  assumes "parents_first inp order" and "bom_closed inp" and "part_ids inp \<subseteq> set order"
  shows "acyclic (bom_edges inp)"
proof -
  have "bom_edges inp \<subseteq> measure (pos order)"
    using edge_decreases_pos [OF assms(1)] assms(2,3) by (auto simp: bom_closed_def)
  then show ?thesis by (meson acyclic_subset wf_acyclic wf_measure)
qed

text \<open>If the sort stops before every part, each part left has a parent left: there is a cycle.\<close>

lemma kahn_stuck_cyclic:
  assumes inv: "kahn_inv inp [] m order" and closed: "bom_closed inp" and left: "set order \<noteq> part_ids inp"
  shows "\<not> acyclic (bom_edges inp)"
proof
  assume "acyclic (bom_edges inp)"
  then have "wf (bom_edges inp)" by (simp add: finite_acyclic_wf)
  moreover from inv left obtain n where "n \<in> part_ids inp - set order" by (auto simp: kahn_inv_def)
  ultimately obtain z where z: "z \<in> part_ids inp - set order"
    and least: "\<And>y. (y, z) \<in> bom_edges inp \<Longrightarrow> y \<notin> part_ids inp - set order"
    by (meson wfE_min)
  from inv z have "open_lines inp order z \<noteq> 0" by (auto simp: kahn_inv_def)
  then obtain y where "(y, z) \<in> bom_edges inp" "y \<notin> set order" by (auto simp: open_lines_zero)
  with least closed show False by (auto simp: bom_closed_def)
qed

theorem topological_order_spec:
  assumes closed: "bom_closed inp"
  shows "topological_order inp = Inl (Refused BomCycle) \<and> \<not> acyclic (bom_edges inp)
     \<or> (\<exists>order. topological_order inp = Inr order \<and> acyclic (bom_edges inp)
          \<and> distinct order \<and> set order = part_ids inp \<and> parents_first inp order)"
proof -
  obtain m order where k: "kahn inp (initial_ready (initial_indegree inp)) (initial_indegree inp) [] = Some order"
    and inv: "kahn_inv inp [] m order"
    using kahn_result [OF closed kahn_inv_init [OF closed]] by blast
  from inv have order: "distinct order" "set order \<subseteq> part_ids inp" "parents_first inp order"
    by (auto simp: kahn_inv_def)
  have "length (remdups (map pp_part (parts inp))) = card (part_ids inp)"
    by (simp add: part_ids_def length_remdups_card_conv)
  then have full: "length order = length (remdups (map pp_part (parts inp))) \<longleftrightarrow> set order = part_ids inp"
    using order(1,2) by (metis card_subset_eq distinct_card finite_part_ids)
  show ?thesis
  proof (cases "set order = part_ids inp")
    case True
    with k full have "topological_order inp = Inr order" by (simp add: topological_order_def)
    with order True parents_first_acyclic [OF order(3) closed] show ?thesis by auto
  next
    case False
    with k full have "topological_order inp = Inl (Refused BomCycle)" by (simp add: topological_order_def)
    with kahn_stuck_cyclic [OF inv closed False] show ?thesis by auto
  qed
qed

lemma planning_validate_ok_iff:
  "planning_validate inp = Inr () \<longleftrightarrow> validate_fields inp = Inr () \<and> acyclic (bom_edges inp)"
proof (cases "validate_fields inp = Inr ()")
  case True
  then have "bom_closed inp" by (rule validate_fields_ok)
  from topological_order_spec [OF this] True show ?thesis by (auto simp: planning_validate_def)
qed (auto simp: planning_validate_def)

section \<open>The depth bound\<close>

definition depth_inv :: "planning_input \<Rightarrow> part_id set \<Rightarrow> (part_id \<rightharpoonup> nat) \<Rightarrow> bool" where
  "depth_inv inp seen depth \<longleftrightarrow>
     (\<forall>a p n k. p \<in> seen \<longrightarrow> (a, p) \<in> bom_edges inp ^^ k \<longrightarrow> (p, n) \<in> bom_edges inp \<longrightarrow> k < depth_of depth n)
     \<and> (\<forall>n. \<exists>a. (a, n) \<in> bom_edges inp ^^ depth_of depth n)"

lemma fold_relax_depth:
  "depth_of (fold (relax_depth c) ls depth) n =
     (if n \<in> bl_child ` set ls then max (depth_of depth n) (c + 1) else depth_of depth n)"
  by (induction ls arbitrary: depth) (auto simp: relax_depth_def depth_of_def)

lemma bl_child_children_of: "n \<in> bl_child ` set (children_of inp p) \<longleftrightarrow> (p, n) \<in> bom_edges inp"
  by (auto simp: children_of_def bom_edges_def)

lemma depth_inv_chain:
  assumes "depth_inv inp seen depth" and "\<And>q. (q, p) \<in> bom_edges inp \<Longrightarrow> q \<in> seen"
    and "(a, p) \<in> bom_edges inp ^^ k"
  shows "k \<le> depth_of depth p"
proof (cases k)
  case (Suc j)
  with assms(3) obtain q where "(a, q) \<in> bom_edges inp ^^ j" "(q, p) \<in> bom_edges inp" by auto
  with assms(1) assms(2) [of q] have "j < depth_of depth p" unfolding depth_inv_def by blast
  with Suc show ?thesis by simp
qed simp

lemma depth_step_inv:
  assumes inv: "depth_inv inp seen depth" and par: "\<And>q. (q, p) \<in> bom_edges inp \<Longrightarrow> q \<in> seen"
  shows "depth_inv inp (insert p seen) (fold (relax_depth (depth_of depth p)) (children_of inp p) depth)"
    (is "depth_inv _ _ ?d")
  unfolding depth_inv_def
proof (intro conjI allI impI)
  fix a q n k
  assume q: "q \<in> insert p seen" "(a, q) \<in> bom_edges inp ^^ k" "(q, n) \<in> bom_edges inp"
  show "k < depth_of ?d n"
  proof (cases "q = p")
    case True
    with q depth_inv_chain [OF inv par] have "k \<le> depth_of depth p" by simp
    with q True show ?thesis by (simp add: fold_relax_depth bl_child_children_of)
  next
    case False
    with q inv have "k < depth_of depth n" by (auto simp: depth_inv_def)
    then show ?thesis by (simp add: fold_relax_depth less_max_iff_disj)
  qed
next
  fix n
  from inv obtain a b where a: "(a, n) \<in> bom_edges inp ^^ depth_of depth n"
    and b: "(b, p) \<in> bom_edges inp ^^ depth_of depth p" unfolding depth_inv_def by blast
  show "\<exists>a. (a, n) \<in> bom_edges inp ^^ depth_of ?d n"
  proof (cases "(p, n) \<in> bom_edges inp \<and> depth_of depth n < depth_of depth p + 1")
    case True
    with b have "(b, n) \<in> bom_edges inp ^^ (depth_of depth p + 1)" by auto
    with True show ?thesis by (auto simp: fold_relax_depth bl_child_children_of)
  next
    case False
    with a show ?thesis by (auto simp: fold_relax_depth bl_child_children_of max_def)
  qed
qed

lemma parents_first_split:
  assumes "parents_first inp (xs @ p # ys)" and "(q, p) \<in> bom_edges inp"
  shows "q \<in> set xs"
proof -
  have "(xs @ p # ys) ! length xs = p" "length xs < length (xs @ p # ys)" by simp_all
  with assms have "q \<in> set (take (length xs) (xs @ p # ys))" unfolding parents_first_def by metis
  then show ?thesis by simp
qed

lemma relpow_shorten:
  fixes R :: "'a rel"
  shows "(a, b) \<in> R ^^ (m + n) \<Longrightarrow> \<exists>c. (c, b) \<in> R ^^ n"
  by (auto simp: relpow_add)

lemma try_depths:
  assumes "parents_first inp (pre @ order)" and "depth_inv inp (set pre) depth"
  shows "case try_fold (depth_step inp) depth order of
      Inl e \<Rightarrow> e = BomDepth MAX_BOM_DEPTH \<and> bom_edges inp ^^ MAX_BOM_DEPTH \<noteq> {}
    | Inr _ \<Rightarrow> (\<forall>a. \<forall>p\<in>set order. \<forall>k. (a, p) \<in> bom_edges inp ^^ k \<longrightarrow> k < MAX_BOM_DEPTH)"
  using assms
proof (induction order arbitrary: pre depth)
  case (Cons p order)
  have par: "\<And>q. (q, p) \<in> bom_edges inp \<Longrightarrow> q \<in> set pre"
    using parents_first_split [OF Cons.prems(1)] .
  show ?case
  proof (cases "depth_of depth p \<ge> MAX_BOM_DEPTH")
    case True
    then obtain j where j: "depth_of depth p = j + MAX_BOM_DEPTH" by (metis add.commute le_Suc_ex)
    from Cons.prems(2) obtain a where "(a, p) \<in> bom_edges inp ^^ (j + MAX_BOM_DEPTH)"
      unfolding depth_inv_def j [symmetric] by blast
    then have "bom_edges inp ^^ MAX_BOM_DEPTH \<noteq> {}" using relpow_shorten by fastforce
    with True show ?thesis by (simp add: depth_step_def)
  next
    case False
    let ?d = "fold (relax_depth (depth_of depth p)) (children_of inp p) depth"
    have inv: "depth_inv inp (set (pre @ [p])) ?d" using depth_step_inv [OF Cons.prems(2) par] by simp
    have p: "k < MAX_BOM_DEPTH" if "(a, p) \<in> bom_edges inp ^^ k" for a k
    proof -
      have "k \<le> depth_of depth p" by (rule depth_inv_chain [OF Cons.prems(2) _ that]) (rule par)
      with False show ?thesis by simp
    qed
    from Cons.IH [OF _ inv] Cons.prems(1) p False show ?thesis
      by (auto simp: depth_step_def Let_def split: sum.splits)
  qed
qed simp

text \<open>
  The depth pass accepts exactly the acyclic bills of materials without a chain of
  \<^const>\<open>MAX_BOM_DEPTH\<close> lines.
\<close>

theorem bom_depths_ok_iff:
  assumes "bom_closed inp"
  shows "is_ok (bom_depths inp) \<longleftrightarrow> acyclic (bom_edges inp) \<and> bom_edges inp ^^ MAX_BOM_DEPTH = {}"
    and "bom_depths inp \<noteq> Inl Panic"
proof -
  have init: "depth_inv inp (set []) Map.empty" by (simp add: depth_inv_def depth_of_def)
  have chain: "(a, b) \<in> bom_edges inp ^^ MAX_BOM_DEPTH \<Longrightarrow> b \<in> part_ids inp" for a b
    using assms by (cases rule: relpow_E) (auto simp: bom_closed_def MAX_BOM_DEPTH_def)
  show "is_ok (bom_depths inp) \<longleftrightarrow> acyclic (bom_edges inp) \<and> bom_edges inp ^^ MAX_BOM_DEPTH = {}"
    using topological_order_spec [OF assms]
  proof (elim disjE exE conjE)
    fix order
    assume o: "topological_order inp = Inr order" "acyclic (bom_edges inp)" "set order = part_ids inp"
      "parents_first inp order"
    from try_depths [of inp "[]" order, OF _ init] o chain show ?thesis
      by (fastforce simp: bom_depths_def is_ok_iff split: sum.splits)
  qed (auto simp: bom_depths_def)
  show "bom_depths inp \<noteq> Inl Panic"
    using topological_order_spec [OF assms] by (auto simp: bom_depths_def map_err_def split: sum.splits)
qed

end
