(* ===== verification/Planning_Explosion.thy ===== *)
theory Planning_Explosion
  imports Planning_Bom
begin

text \<open>
  The explosion of demand (\<open>explode_requirements\<close>) against its specification: the gross
  requirement of a part in a bucket is its independent demand plus, for every line of the bill of
  materials into it, the parent's gross requirement times the quantity per parent, divided by the
  usable share and rounded up. The bill is acyclic, so these equations have one solution.
\<close>

section \<open>The requirement equations\<close>

definition usable_ppm :: "bom_line \<Rightarrow> int" where
  "usable_ppm l = 1000000 - ppm (scrap_rate l)"

definition required_units :: "bom_line \<Rightarrow> nat \<Rightarrow> nat" where
  "required_units l u = nat (- ((- (int u * q_micros (quantity_per l))) div usable_ppm l))"

definition independent_demand :: "planning_input \<Rightarrow> part_id \<Rightarrow> nat \<Rightarrow> nat" where
  "independent_demand inp n t =
     (\<Sum>d \<leftarrow> filter (\<lambda>d. dl_part d = n \<and> dl_period d = t) (demand inp). units_get (dl_quantity d))"

definition gross_at :: "(part_id \<rightharpoonup> units list) \<Rightarrow> part_id \<Rightarrow> nat \<Rightarrow> nat" where
  "gross_at g n t = (case g n of None \<Rightarrow> 0 | Some v \<Rightarrow> units_get (v ! t))"

definition solves_requirements :: "planning_input \<Rightarrow> (part_id \<Rightarrow> nat \<Rightarrow> nat) \<Rightarrow> bool" where
  "solves_requirements inp G \<longleftrightarrow>
     (\<forall>n \<in> part_ids inp. \<forall>t < periods inp.
        G n t = independent_demand inp n t
          + (\<Sum>l \<leftarrow> filter (\<lambda>l. bl_child l = n) (bom inp). required_units l (G (bl_parent l) t)))"

text \<open>The bounds that the constructors of the newtypes establish.\<close>

definition bom_typed :: "planning_input \<Rightarrow> bool" where
  "bom_typed inp \<longleftrightarrow> list_all (\<lambda>l. quantity_ok (quantity_per l) \<and> rate_ok (scrap_rate l)) (bom inp)"

definition line_ok :: "bom_line \<Rightarrow> bool" where
  "line_ok l \<longleftrightarrow> 0 < q_micros (quantity_per l) \<and> q_micros (quantity_per l) \<le> MAX_SCALED_QUANTITY
     \<and> 0 < usable_ppm l \<and> usable_ppm l \<le> 1000000"

lemma validated_line_ok:
  "validate_fields inp = Inr u \<Longrightarrow> bom_typed inp \<Longrightarrow> l \<in> set (bom inp) \<Longrightarrow> line_ok l"
  by (drule validate_fields_ok(9))
    (auto simp: line_ok_def bom_typed_def list_all_iff usable_ppm_def quantity_ok_def rate_ok_def)

section \<open>One bucket and one line\<close>

definition vec_ok :: "nat \<Rightarrow> units list \<Rightarrow> bool" where
  "vec_ok n v \<longleftrightarrow> length v = n \<and> (\<forall>u \<in> set v. units_ok u)"

lemma units_checked_add_ok:
  "units_checked_add a b = Inr c \<longleftrightarrow> units_get a + units_get b \<le> MAX_UNITS \<and> c = Units (units_get a + units_get b)"
  by (auto simp: units_checked_add_def units_new_ok width_simps money_bounds)

lemma add_at_ok:
  "add_at i q v = Inr v' \<longleftrightarrow>
     i < length v \<and> units_get (v ! i) + units_get q \<le> MAX_UNITS \<and> v' = v[i := Units (units_get (v ! i) + units_get q)]"
  by (auto simp: add_at_def units_checked_add_ok)

lemma add_at_panic: "add_at i q v = Inl Panic \<longleftrightarrow> length v \<le> i"
  by (auto simp: add_at_def bind_result_eq_Inl map_err_eq_Inl)

lemma add_at_vec_ok: "add_at i q v = Inr v' \<Longrightarrow> vec_ok n v \<Longrightarrow> vec_ok n v'"
  by (auto simp: add_at_ok vec_ok_def units_ok_def dest!: set_update_subset_insert [THEN subsetD])

lemma required_units_zero [simp]: "required_units l 0 = 0"
  by (simp add: required_units_def)

lemma bom_requirement_value:
  assumes "line_ok l" and "units_ok u" and "bom_requirement u l (usable_ppm l) = Inr r"
  shows "units_get r = required_units l (units_get u)"
proof -
  let ?n = "int (units_get u) * q_micros (quantity_per l)"
  have "?n \<le> int MAX_UNITS * MAX_SCALED_QUANTITY"
    using assms(1,2) by (intro mult_mono) (auto simp: line_ok_def units_ok_def)
  then have bound: "\<bar>?n\<bar> \<le> 1000000000000000000000000000000"
    using assms(1) by (simp add: line_ok_def money_bounds)
  have usable: "0 < usable_ppm l" "usable_ppm l \<le> 1000000" using assms(1) by (auto simp: line_ok_def)
  have "div_round_up ?n (usable_ppm l) = - ((- ?n) div usable_ppm l)"
    by (rule div_round_up_eq) (use bound usable in \<open>auto simp: in_i128_def width_simps\<close>)
  with assms(3) show ?thesis
    by (auto simp: bom_requirement_def mul_div_round_up_def required_units_def units_new_ok split: if_splits)
qed

lemma explode_periods_spec:
  assumes "line_ok l" and "explode_periods l (usable_ppm l) t ps v = Inr v'" and "\<forall>u \<in> set ps. units_ok u"
    and "t + length ps \<le> length v"
  shows "length v' = length v \<and>
    (\<forall>i < length v. units_get (v' ! i) =
       units_get (v ! i)
       + (if t \<le> i \<and> i < t + length ps then required_units l (units_get (ps ! (i - t))) else 0))"
  using assms(2-4)
proof (induction ps arbitrary: t v)
  case (Cons u ps)
  show ?case
  proof (cases "units_get u = 0")
    case True
    with Cons.prems have "explode_periods l (usable_ppm l) (t + 1) ps v = Inr v'" by simp
    from Cons.IH [OF this] Cons.prems True show ?thesis by (auto simp: nth_Cons' Suc_diff_le)
  next
    case False
    with Cons.prems(1) obtain r w where r: "bom_requirement u l (usable_ppm l) = Inr r" and w: "add_at t r v = Inr w"
      and rest: "explode_periods l (usable_ppm l) (t + 1) ps w = Inr v'" by auto
    have req: "units_get r = required_units l (units_get u)"
      using bom_requirement_value [OF assms(1) _ r] Cons.prems(2) by simp
    from w have w': "w = v[t := Units (units_get (v ! t) + units_get r)]" by (simp add: add_at_ok)
    from Cons.IH [OF rest] Cons.prems(2,3) show ?thesis
      unfolding w' by (auto simp: nth_list_update req nth_Cons' Suc_diff_le not_less_eq_eq dest: le_antisym)
  qed
qed simp

lemma explode_periods_vec_ok:
  "explode_periods l us t ps v = Inr v' \<Longrightarrow> vec_ok n v \<Longrightarrow> vec_ok n v'"
  by (induction l us t ps v rule: explode_periods.induct) (auto split: if_splits dest: add_at_vec_ok)

lemma explode_periods_no_panic:
  "t + length ps \<le> length v \<Longrightarrow> explode_periods l us t ps v \<noteq> Inl Panic"
proof (induction ps arbitrary: t v)
  case (Cons u ps)
  then show ?case
    by (auto simp: bind_result_eq_Inl map_err_eq_Inl add_at_panic add_at_ok)
qed simp

section \<open>Keeping the map of vectors well formed\<close>

definition gross_ok :: "planning_input \<Rightarrow> (part_id \<rightharpoonup> units list) \<Rightarrow> bool" where
  "gross_ok inp g \<longleftrightarrow> dom g = part_ids inp \<and> (\<forall>v \<in> ran g. vec_ok (periods inp) v)"

lemma gross_ok_get: "gross_ok inp g \<Longrightarrow> n \<in> part_ids inp \<Longrightarrow> \<exists>v. g n = Some v \<and> vec_ok (periods inp) v"
  by (auto simp: gross_ok_def ran_def dom_def)

lemma gross_ok_upd: "gross_ok inp g \<Longrightarrow> n \<in> part_ids inp \<Longrightarrow> vec_ok (periods inp) v \<Longrightarrow> gross_ok inp (g(n \<mapsto> v))"
  by (auto simp: gross_ok_def ran_def dom_def)

lemma gross_at_upd: "gross_at (g(k \<mapsto> v)) n t = (if n = k then units_get (v ! t) else gross_at g n t)"
  by (simp add: gross_at_def)

lemma zero_gross_ok: "gross_ok inp (zero_gross inp)"
  by (auto simp: gross_ok_def zero_gross_def part_ids_def dom_map_of_conv_image_fst image_image ran_def vec_ok_def
      units_ok_def dest!: map_of_SomeD)

lemma zero_gross_at: "t < periods inp \<Longrightarrow> gross_at (zero_gross inp) n t = 0"
  by (auto simp: gross_at_def zero_gross_def split: option.splits dest!: map_of_SomeD)

lemma demand_step_spec:
  assumes "gross_ok inp g" and "demand_step g d = Inr g'"
  shows "gross_ok inp g' \<and> (\<forall>n t. t < periods inp \<longrightarrow>
    gross_at g' n t = gross_at g n t + (if dl_part d = n \<and> dl_period d = t then units_get (dl_quantity d) else 0))"
proof -
  from assms(2) obtain v v' where v: "g (dl_part d) = Some v" and v': "add_at (dl_period d) (dl_quantity d) v = Inr v'"
    and g': "g' = g(dl_part d \<mapsto> v')"
    by (auto simp: demand_step_def split: option.splits)
  from v assms(1) have "vec_ok (periods inp) v" "dl_part d \<in> part_ids inp" by (auto simp: gross_ok_def ran_def)
  with assms(1) add_at_vec_ok [OF v'] have "gross_ok inp g'" by (simp add: g' gross_ok_upd)
  moreover have "t < periods inp \<longrightarrow> gross_at g' n t =
      gross_at g n t + (if dl_part d = n \<and> dl_period d = t then units_get (dl_quantity d) else 0)" for n t
    using v v' \<open>vec_ok (periods inp) v\<close>
    by (auto simp: g' gross_at_upd add_at_ok gross_at_def nth_list_update vec_ok_def)
  ultimately show ?thesis by blast
qed

lemma demand_fold_spec:
  assumes "gross_ok inp g" and "try_fold demand_step g ds = Inr g'"
  shows "gross_ok inp g' \<and> (\<forall>n t. t < periods inp \<longrightarrow>
    gross_at g' n t = gross_at g n t
      + (\<Sum>d \<leftarrow> filter (\<lambda>d. dl_part d = n \<and> dl_period d = t) ds. units_get (dl_quantity d)))"
  using assms
proof (induction ds arbitrary: g)
  case (Cons d ds)
  then obtain h where h: "demand_step g d = Inr h" "try_fold demand_step h ds = Inr g'" by auto
  from demand_step_spec [OF Cons.prems(1) h(1)] Cons.IH [OF _ h(2)] show ?case by (simp add: add.assoc)
qed simp

lemma explode_line_spec:
  assumes "gross_ok inp g" and "line_ok l" and "vec_ok (periods inp) pg" and "explode_line pg g l = Inr g'"
  shows "gross_ok inp g' \<and> (\<forall>n t. t < periods inp \<longrightarrow>
    gross_at g' n t = gross_at g n t + (if bl_child l = n then required_units l (units_get (pg ! t)) else 0))"
proof -
  from assms(4) obtain v v' where v: "g (bl_child l) = Some v" and g': "g' = g(bl_child l \<mapsto> v')"
    and v': "explode_periods l (usable_ppm l) 0 pg v = Inr v'"
    by (auto simp: explode_line_def usable_ppm_def Let_def split: option.splits if_splits)
  from v assms(1) have ok: "vec_ok (periods inp) v" "bl_child l \<in> part_ids inp" by (auto simp: gross_ok_def ran_def)
  with assms(1) explode_periods_vec_ok [OF v'] have "gross_ok inp g'" by (simp add: g' gross_ok_upd)
  moreover have "t < periods inp \<longrightarrow> gross_at g' n t =
      gross_at g n t + (if bl_child l = n then required_units l (units_get (pg ! t)) else 0)" for n t
    using explode_periods_spec [OF assms(2) v'] assms(3) ok v
    by (auto simp: g' gross_at_upd gross_at_def vec_ok_def)
  ultimately show ?thesis by blast
qed

lemma explode_lines_spec:
  assumes "gross_ok inp g" and "\<forall>l \<in> set ls. line_ok l" and "vec_ok (periods inp) pg"
    and "try_fold (explode_line pg) g ls = Inr g'"
  shows "gross_ok inp g' \<and> (\<forall>n t. t < periods inp \<longrightarrow>
    gross_at g' n t = gross_at g n t
      + (\<Sum>l \<leftarrow> filter (\<lambda>l. bl_child l = n) ls. required_units l (units_get (pg ! t))))"
  using assms
proof (induction ls arbitrary: g)
  case (Cons l ls)
  then obtain h where h: "explode_line pg g l = Inr h" "try_fold (explode_line pg) h ls = Inr g'" by auto
  from Cons.prems explode_line_spec [OF Cons.prems(1) _ Cons.prems(3) h(1)] Cons.IH [OF _ _ _ h(2)]
  show ?case by (simp add: add.assoc)
qed simp

section \<open>The explosion solves the equations\<close>

text \<open>The sum over the lines into a part, restricted to the parents already processed.\<close>

definition from_parents :: "planning_input \<Rightarrow> part_id set \<Rightarrow> (part_id \<Rightarrow> nat \<Rightarrow> nat) \<Rightarrow> part_id \<Rightarrow> nat \<Rightarrow> nat" where
  "from_parents inp done G n t =
     (\<Sum>l \<leftarrow> filter (\<lambda>l. bl_child l = n \<and> bl_parent l \<in> done) (bom inp). required_units l (G (bl_parent l) t))"

lemma sum_list_filter_or:
  fixes f :: "'a \<Rightarrow> nat"
  assumes "\<And>x. x \<in> set xs \<Longrightarrow> \<not> (P x \<and> Q x)"
  shows "(\<Sum>x \<leftarrow> filter (\<lambda>x. P x \<or> Q x) xs. f x) = (\<Sum>x \<leftarrow> filter P xs. f x) + (\<Sum>x \<leftarrow> filter Q xs. f x)"
  using assms by (induction xs) auto

lemma from_parents_insert:
  assumes "p \<notin> done"
  shows "from_parents inp (insert p done) G n t = from_parents inp done G n t
    + (\<Sum>l \<leftarrow> filter (\<lambda>l. bl_child l = n) (children_of inp p). required_units l (G p t))"
proof -
  have "filter (\<lambda>l. bl_child l = n \<and> bl_parent l \<in> insert p done) (bom inp)
    = filter (\<lambda>l. (bl_child l = n \<and> bl_parent l \<in> done) \<or> (bl_child l = n \<and> bl_parent l = p)) (bom inp)"
    by (intro filter_cong) auto
  moreover have "(\<Sum>l \<leftarrow> filter (\<lambda>l. bl_child l = n \<and> bl_parent l = p) (bom inp). required_units l (G (bl_parent l) t))
    = (\<Sum>l \<leftarrow> filter (\<lambda>l. bl_child l = n) (children_of inp p). required_units l (G p t))"
    unfolding children_of_def filter_filter by (intro arg_cong [where f = sum_list] map_cong filter_cong) auto
  moreover have "(\<Sum>l \<leftarrow> filter (\<lambda>l. (bl_child l = n \<and> bl_parent l \<in> done) \<or> (bl_child l = n \<and> bl_parent l = p)) (bom inp).
        required_units l (G (bl_parent l) t))
    = from_parents inp done G n t
      + (\<Sum>l \<leftarrow> filter (\<lambda>l. bl_child l = n \<and> bl_parent l = p) (bom inp). required_units l (G (bl_parent l) t))"
    unfolding from_parents_def by (rule sum_list_filter_or) (use assms in auto)
  ultimately show ?thesis by (simp only: from_parents_def)
qed

lemma from_parents_cong:
  assumes "\<And>q. q \<in> done \<Longrightarrow> G q t = H q t"
  shows "from_parents inp done G n t = from_parents inp done H n t"
  unfolding from_parents_def by (intro arg_cong [where f = sum_list] map_cong) (use assms in auto)

definition explode_inv :: "planning_input \<Rightarrow> part_id list \<Rightarrow> (part_id \<rightharpoonup> units list) \<Rightarrow> bool" where
  "explode_inv inp pre g \<longleftrightarrow> gross_ok inp g \<and>
     (\<forall>n \<in> part_ids inp. \<forall>t < periods inp.
        gross_at g n t = independent_demand inp n t + from_parents inp (set pre) (gross_at g) n t)"

lemma children_sum_zero:
  assumes "(p, n) \<notin> bom_edges inp"
  shows "(\<Sum>l \<leftarrow> filter (\<lambda>l. bl_child l = n) (children_of inp p). (f l :: nat)) = 0"
proof -
  have "filter (\<lambda>l. bl_child l = n) (children_of inp p) = []"
    using assms by (auto simp: filter_empty_conv children_of_def bom_edges_def)
  then show ?thesis by (simp only: list.map sum_list.Nil)
qed

lemma parents_first_prefix: "parents_first inp (xs @ ys) \<Longrightarrow> parents_first inp xs"
  unfolding parents_first_def by (metis (no_types, lifting) append_take_drop_id length_append length_take less_imp_le_nat
      min.absorb4 nth_append trans_less_add1 take_append diff_is_0_eq take0 append_Nil2)

lemma explode_part_step:
  assumes lines: "\<And>l. l \<in> set (bom inp) \<Longrightarrow> line_ok l"
    and inv: "explode_inv inp pre g" and pf: "parents_first inp (pre @ [p])" and p: "p \<notin> set pre"
    and step: "explode_part inp g p = Inr g'"
  shows "explode_inv inp (pre @ [p]) g'"
proof -
  from step obtain pg where pg: "g p = Some pg" and fold: "try_fold (explode_line pg) g (children_of inp p) = Inr g'"
    by (auto simp: explode_part_def split: option.splits)
  from inv have g: "gross_ok inp g" by (simp add: explode_inv_def)
  with pg have "vec_ok (periods inp) pg" by (auto simp: gross_ok_def ran_def)
  with explode_lines_spec [OF g _ _ fold] lines
  have g': "gross_ok inp g'" and at: "\<And>n t. t < periods inp \<Longrightarrow> gross_at g' n t = gross_at g n t
      + (\<Sum>l \<leftarrow> filter (\<lambda>l. bl_child l = n) (children_of inp p). required_units l (gross_at g p t))"
    using pg by (auto simp: children_of_def gross_at_def)
  have stable: "gross_at g' q t = gross_at g q t" if "q \<in> insert p (set pre)" "t < periods inp" for q t
  proof -
    have "(p, q) \<notin> bom_edges inp"
    proof
      assume e: "(p, q) \<in> bom_edges inp"
      from that(1) have "q \<in> set (pre @ [p])" by auto
      then obtain ys zs where split: "pre @ [p] = ys @ q # zs" by (meson split_list)
      with pf e have "p \<in> set ys" by (metis parents_first_split)
      moreover have "set ys \<subseteq> set pre" using split by (metis append_butlast_last_id append_eq_append_conv2
            butlast_append butlast_snoc list.distinct(1) set_append sup_ge1)
      ultimately show False using p by auto
    qed
    then show ?thesis using at [OF that(2)] children_sum_zero by simp
  qed
  have "gross_at g' n t = independent_demand inp n t + from_parents inp (set (pre @ [p])) (gross_at g') n t"
    if "n \<in> part_ids inp" "t < periods inp" for n t
  proof -
    have "from_parents inp (insert p (set pre)) (gross_at g') n t = from_parents inp (insert p (set pre)) (gross_at g) n t"
      by (rule from_parents_cong) (use stable that in auto)
    also have "\<dots> = from_parents inp (set pre) (gross_at g) n t
        + (\<Sum>l \<leftarrow> filter (\<lambda>l. bl_child l = n) (children_of inp p). required_units l (gross_at g p t))"
      by (rule from_parents_insert [OF p])
    finally show ?thesis using inv at [OF that(2)] that by (simp add: explode_inv_def)
  qed
  with g' show ?thesis by (simp add: explode_inv_def)
qed

lemma explode_fold:
  assumes "\<And>l. l \<in> set (bom inp) \<Longrightarrow> line_ok l"
    and "explode_inv inp pre g" and "parents_first inp (pre @ order)" and "distinct (pre @ order)"
    and "try_fold (explode_part inp) g order = Inr g'"
  shows "explode_inv inp (pre @ order) g'"
  using assms(2-)
proof (induction order arbitrary: pre g)
  case (Cons p order)
  then obtain h where h: "explode_part inp g p = Inr h" "try_fold (explode_part inp) h order = Inr g'" by auto
  have "explode_inv inp (pre @ [p]) h"
    by (rule explode_part_step [OF assms(1) Cons.prems(1) _ _ h(1)])
      (use Cons.prems(2,3) parents_first_prefix [of inp "pre @ [p]" order] in auto)
  from Cons.IH [OF this _ _ h(2)] Cons.prems(2,3) show ?case by simp
qed simp

text \<open>An accepted explosion is the solution of the requirement equations.\<close>

lemma explosion_solves:
  assumes valid: "validate_fields inp = Inr ()" and typed: "bom_typed inp"
    and ok: "explode_requirements inp = Inr g"
  shows "gross_ok inp g \<and> solves_requirements inp (gross_at g)"
proof -
  note lines = validated_line_ok [OF valid typed] and closed = validate_fields_ok(8) [OF valid]
  from ok obtain order h where order: "topological_order inp = Inr order"
    and h: "try_fold demand_step (zero_gross inp) (demand inp) = Inr h"
    and g: "try_fold (explode_part inp) h order = Inr g" by (auto simp: explode_requirements_def)
  from topological_order_spec [OF closed] order
  have o: "distinct order" "set order = part_ids inp" "parents_first inp order" by auto
  have "explode_inv inp [] h"
    using demand_fold_spec [OF zero_gross_ok h]
    by (auto simp: explode_inv_def from_parents_def independent_demand_def zero_gross_at)
  from explode_fold [OF lines this _ _ g] o have inv: "explode_inv inp order g" by simp
  have "from_parents inp (set order) (gross_at g) n t
    = (\<Sum>l \<leftarrow> filter (\<lambda>l. bl_child l = n) (bom inp). required_units l (gross_at g (bl_parent l) t))" for n t
    unfolding from_parents_def o(2)
    by (intro arg_cong [where f = sum_list] map_cong filter_cong)
      (use closed in \<open>auto simp: bom_closed_def bom_edges_def\<close>)
  with inv show ?thesis by (simp add: explode_inv_def solves_requirements_def)
qed

text \<open>The equations have one solution, because the bill of materials is acyclic.\<close>

lemma requirements_unique:
  assumes "acyclic (bom_edges inp)" and "bom_closed inp"
    and "solves_requirements inp G" and "solves_requirements inp H" and "t < periods inp"
  shows "n \<in> part_ids inp \<Longrightarrow> G n t = H n t"
proof (induction n rule: wf_induct_rule [OF finite_acyclic_wf [OF finite_bom_edges assms(1)]])
  case (1 n)
  have "required_units l (G (bl_parent l) t) = required_units l (H (bl_parent l) t)"
    if "l \<in> set (filter (\<lambda>l. bl_child l = n) (bom inp))" for l
    using 1(1) [of "bl_parent l"] that assms(2) by (auto simp: bom_edges_def bom_closed_def)
  then have "(\<Sum>l \<leftarrow> filter (\<lambda>l. bl_child l = n) (bom inp). required_units l (G (bl_parent l) t))
    = (\<Sum>l \<leftarrow> filter (\<lambda>l. bl_child l = n) (bom inp). required_units l (H (bl_parent l) t))"
    by (intro arg_cong [where f = sum_list] map_cong) auto
  with assms(3-5) 1(2) show ?case by (simp add: solves_requirements_def)
qed

section \<open>The explosion does not panic\<close>

lemma explode_line_no_panic:
  assumes "gross_ok inp g" and "vec_ok (periods inp) pg"
  shows "explode_line pg g l \<noteq> Inl Panic"
proof (cases "g (bl_child l)")
  case (Some v)
  with assms have "length pg = length v" by (auto simp: gross_ok_def ran_def vec_ok_def)
  with Some show ?thesis
    by (auto simp: explode_line_def Let_def bind_result_eq_Inl explode_periods_no_panic)
qed (simp add: explode_line_def Let_def)

lemma explode_line_gross_ok:
  assumes "gross_ok inp g" and "explode_line pg g l = Inr g'"
  shows "gross_ok inp g'"
proof -
  from assms(2) obtain v v' us where v: "g (bl_child l) = Some v" and g': "g' = g(bl_child l \<mapsto> v')"
    and v': "explode_periods l us 0 pg v = Inr v'"
    by (auto simp: explode_line_def Let_def split: option.splits if_splits)
  from v assms(1) have "vec_ok (periods inp) v" "bl_child l \<in> part_ids inp" by (auto simp: gross_ok_def ran_def)
  with assms(1) explode_periods_vec_ok [OF v'] show ?thesis by (simp add: g' gross_ok_upd)
qed

lemma explode_part_no_panic:
  assumes "gross_ok inp g"
  shows "explode_part inp g p \<noteq> Inl Panic"
proof (cases "g p")
  case (Some pg)
  with assms have "vec_ok (periods inp) pg" by (auto simp: gross_ok_def ran_def)
  then have "try_fold (explode_line pg) g (children_of inp p) \<noteq> Inl Panic"
    by (intro try_fold_avoids [where P = "gross_ok inp"])
      (use assms in \<open>auto intro: explode_line_gross_ok dest: explode_line_no_panic\<close>)
  with Some show ?thesis by (simp add: explode_part_def)
qed (simp add: explode_part_def)

lemma explode_part_gross_ok:
  assumes "gross_ok inp g" and "explode_part inp g p = Inr g'"
  shows "gross_ok inp g'"
proof -
  from assms(2) obtain pg where "try_fold (explode_line pg) g (children_of inp p) = Inr g'"
    by (auto simp: explode_part_def split: option.splits)
  then show ?thesis
    by (rule try_fold_invariant [where P = "gross_ok inp"]) (use assms(1) in \<open>auto intro: explode_line_gross_ok\<close>)
qed

lemma demand_step_no_panic:
  assumes "gross_ok inp g" and "dl_period d < periods inp"
  shows "demand_step g d \<noteq> Inl Panic"
proof (cases "g (dl_part d)")
  case (Some v)
  with assms have "dl_period d < length v" by (auto simp: gross_ok_def ran_def vec_ok_def)
  with Some show ?thesis by (auto simp: demand_step_def bind_result_eq_Inl add_at_panic)
qed (simp add: demand_step_def)

lemma explode_requirements_no_panic:
  assumes "validate_fields inp = Inr ()"
  shows "explode_requirements inp \<noteq> Inl Panic"
proof
  note closed = validate_fields_ok(8) [OF assms] and dem = validate_fields_ok(10) [OF assms]
  assume "explode_requirements inp = Inl Panic"
  then consider "bom_depths inp = Inl Panic" | "topological_order inp = Inl Panic"
    | "try_fold demand_step (zero_gross inp) (demand inp) = Inl Panic"
    | g order where "try_fold demand_step (zero_gross inp) (demand inp) = Inr g"
        "try_fold (explode_part inp) g order = Inl Panic"
    by (auto simp: explode_requirements_def bind_result_eq_Inl)
  then show False
  proof cases
    case 3
    moreover have "try_fold demand_step (zero_gross inp) (demand inp) \<noteq> Inl Panic"
      by (rule try_fold_avoids [where P = "gross_ok inp"])
        (use dem demand_step_spec demand_step_no_panic zero_gross_ok in blast)+
    ultimately show False by contradiction
  next
    case (4 g order)
    have "gross_ok inp g" using demand_fold_spec [OF zero_gross_ok 4(1)] by simp
    then have "try_fold (explode_part inp) g order \<noteq> Inl Panic"
      by (rule try_fold_avoids [where P = "gross_ok inp"])
        (auto intro: explode_part_gross_ok dest: explode_part_no_panic)
    with 4(2) show False by contradiction
  qed (use bom_depths_ok_iff(2) [OF closed] topological_order_spec [OF closed] in auto)
qed

end
