(* ===== verification/Planning_Orders.thy ===== *)
theory Planning_Orders
  imports Planning_Explosion
begin

text \<open>
  Netting, lot sizing, supplier allocation, last-time-buy bridges, classification and the whole
  run \<open>plan\<close> (\<open>crates/supply-planning/src/lib.rs\<close>). \<open>plan_part\<close> is one long function of the
  source; its definitions here are the blocks of it in the source's order, composed in
  \<open>plan_part\<close>, with the local \<open>reasons\<close> and \<open>flags\<close> vectors passed along. The stable \<open>sort_by\<close>
  calls are \<^const>\<open>sort_key\<close> on the key the comparator compares.
\<close>

section \<open>Results\<close>

datatype abc_class = Abc_A | Abc_B | Abc_C
datatype xyz_class = Xyz_X | Xyz_Y | Xyz_Z
datatype order_reason = NetRequirement | Reason_LastTimeBuy

record part_classification =
  pc_part :: part_id
  annual_spend :: "money availability"
  abc :: "abc_class availability"
  xyz :: "xyz_class availability"

record supplier_allocation =
  al_supplier :: supplier_id
  al_units :: units

record planned_order =
  po_part :: part_id
  release_period :: nat
  receipt_period :: nat
  po_quantity :: units
  shortage_units :: units
  excess_units :: units
  expedite :: bool
  po_reason :: order_reason
  po_suppliers :: "supplier_allocation list"

record last_time_buy =
  ltb_last_order_day :: "day option"
  ltb_units :: "units availability"
  ltb_note :: string

type_synonym planning_flag = "string \<times> string"

datatype planning_status = Status_Planned | Status_Incomplete "string list" | Status_NoDemand

record part_plan_result =
  pr_part :: part_id
  pr_mpn :: string
  pr_gross :: "units list"
  pr_confirmed :: "units list"
  pr_on_hand :: units
  lead_time_periods :: "nat availability"
  pr_safety_stock :: "units availability"
  reorder_point :: "units availability"
  projected_end :: "units availability"
  planned_orders :: "planned_order list"
  pr_last_time_buy :: "last_time_buy option"
  pr_status :: planning_status
  pr_flags :: "planning_flag list"

record plan_output =
  plan_currency :: currency
  plan_periods :: nat
  plan_parts :: "part_plan_result list"
  classifications :: "part_classification list"

section \<open>Allocation by largest remainder\<close>

definition floor_step ::
    "int \<Rightarrow> supply_share \<Rightarrow> planning_error + supplier_id \<times> int \<times> int" where
  "floor_step quantity share =
     bind_result (ok_or (Plan_Exact Exact_Overflow) (try_i128 (quantity * share_ppm share))) (\<lambda>numerator.
     Inr (share_supplier share, numerator sdiv 1000000, numerator smod 1000000))"

text \<open>The loop that fills \<open>floors\<close> and \<open>distributed\<close>.\<close>

definition floors_step ::
    "int \<Rightarrow> (supplier_id \<times> int \<times> int) list \<times> int \<Rightarrow> supply_share \<Rightarrow>
     planning_error + (supplier_id \<times> int \<times> int) list \<times> int" where
  "floors_step quantity s share =
     bind_result (floor_step quantity share) (\<lambda>entry.
     Inr (fst s @ [entry], snd s + fst (snd entry)))"

fun hand_out :: "(supplier_id \<times> int \<times> int) list \<Rightarrow> int \<Rightarrow> planning_error + supplier_allocation list" where
  "hand_out [] leftover = Inr []"
| "hand_out ((supplier, floor, remainder) # rest) leftover =
     (let units = (if leftover > 0 then floor + 1 else floor);
          leftover' = (if leftover > 0 then leftover - 1 else leftover)
      in bind_result (ok_or (Plan_Exact Exact_Overflow) (if units < 0 then None else try_u64 (nat units))) (\<lambda>n.
         bind_result (exact_err (units_new n)) (\<lambda>u.
         bind_result (hand_out rest leftover') (\<lambda>result.
         Inr (\<lparr>al_supplier = supplier, al_units = u\<rparr> # result)))))"

definition allocate :: "units \<Rightarrow> supply_share list \<Rightarrow> planning_error + supplier_allocation list" where
  "allocate quantity shares =
     bind_result (checked_share_total shares) (\<lambda>total.
     if total \<noteq> 1000000 then Inl (SupplierShares total)
     else if shares = [] then Inl (Plan_Invalid ''no supplier shares'')
     else
       (let quantity_value = int (units_get quantity)
        in bind_result (try_fold (floors_step quantity_value) ([], 0) shares) (\<lambda>(floors, distributed).
           let leftover = quantity_value - distributed;
               sorted_floors = sort_key (\<lambda>(supplier, floor, remainder). (- remainder, supplier)) floors
           in bind_result (hand_out sorted_floors leftover) (\<lambda>result.
              Inr (sort_key al_supplier result)))))"

section \<open>Safety stock and lead time\<close>

definition require_units :: "int \<Rightarrow> planning_error + units" where
  "require_units m =
     (if m < 0 then Inl (Plan_Negative ''quantity'')
      else bind_result (ok_or (Plan_Exact Exact_Overflow) (try_u64 (nat ((m + 999999) sdiv 1000000)))) (\<lambda>u.
        exact_err (units_new u)))"

definition safety_stock :: "int \<Rightarrow> demand_stats \<Rightarrow> nat \<Rightarrow> planning_error + units" where
  "safety_stock level stats lead =
     bind_result (ok_or (UnsupportedServiceLevel level) (service_level_z level)) (\<lambda>z.
     bind_result (exact_err (units_new lead)) (\<lambda>lead_units.
     bind_result (ok_or (Plan_Exact Exact_Overflow)
         (Option.bind (try_i128 (z * sigma_micros stats))
            (\<lambda>v. try_i128 (v * int (isqrt_scaled_ppm lead_units))))) (\<lambda>numerator.
     bind_result (ok_or (Plan_Exact Exact_Overflow) (mul_div_round_up numerator 1 1000000000000)) require_units)))"

text \<open>
  The bucket length is subtracted from and divided by without a check: with a length of zero the
  code panics, by the underflow of \<open>u64::from(days_per_period) - 1\<close> or by the division.
\<close>

definition lead_periods_block ::
    "planning_input \<Rightarrow> part_plan \<Rightarrow> planning_fault + nat availability \<times> string list \<times> planning_flag list" where
  "lead_periods_block inp pp =
     (case term_known (lead_time_days pp) of
        Some d \<Rightarrow>
          if days_per_period inp = 0 then Inl Panic
          else refused
          (let days = nat (max (distribution_quantile d (lead_time_quantile inp)) 0)
           in bind_result (ok_or (Plan_Exact Exact_Overflow) (try_u64 (days + (days_per_period inp - 1)))) (\<lambda>s.
              let n = s div days_per_period inp
              in if n > MAX_PERIODS then Inl (Plan_Invalid ''lead time exceeds the planning horizon'')
                 else Inr (Known n, [], [])))
      | None \<Rightarrow>
          Inr (avail_unavailable MissingEvidence ''lead-time distribution unavailable'',
               [''lead-time distribution unavailable''],
               [(''lead_time_unavailable'', ''no lead-time distribution; orders cannot be time-phased'')]))"

definition safety_block ::
    "planning_input \<Rightarrow> demand_stats option \<Rightarrow> nat availability \<Rightarrow>
     units availability \<times> string list \<times> planning_flag list" where
  "safety_block inp stats lead_periods =
     (case (stats, as_known lead_periods) of
        (Some stats, Some lead) \<Rightarrow>
          (case safety_stock (service_level_ppm inp) stats lead of
             Inr v \<Rightarrow> (Known v, [], [])
           | Inl error \<Rightarrow>
               (avail_unavailable Reason_Arithmetic (planning_error_text error),
                [''safety stock unavailable: '' @ planning_error_text error], []))
      | (None, _) \<Rightarrow>
          (avail_unavailable MissingEvidence ''demand statistics unavailable'',
           [''demand statistics unavailable''],
           [(''demand_stats_unavailable'',
             ''no demand mean/sigma; safety stock and reorder point cannot be computed'')])
      | (_, None) \<Rightarrow> (avail_unavailable MissingEvidence ''lead time unavailable'', [], []))"

definition reorder_block ::
    "demand_stats option \<Rightarrow> nat availability \<Rightarrow> units availability \<Rightarrow> planning_error + units availability" where
  "reorder_block stats lead_periods safety =
     (case (stats, as_known lead_periods, as_known safety) of
        (Some stats, Some lead, Some safety) \<Rightarrow>
          bind_result (ok_or (Plan_Exact Exact_Overflow) (try_i128 (mean_micros stats * int lead))) (\<lambda>product.
          bind_result (require_units product) (\<lambda>demand_during_lt.
          Inr (case units_checked_add demand_during_lt safety of
                 Inr t \<Rightarrow> Known t
               | Inl error \<Rightarrow> avail_unavailable Reason_Arithmetic (exact_error_text error))))
      | _ \<Rightarrow> Inr (avail_unavailable MissingEvidence
               ''reorder point needs lead time, demand statistics and safety stock''))"

section \<open>Orders\<close>

text \<open>
  The horizon end is computed with unchecked \<open>i64\<close> arithmetic. The model is a build with overflow
  checks, in which an overflow panics; a build without them behaves in the same way whenever the
  model does not panic.
\<close>

definition checked_i64 :: "int \<Rightarrow> planning_fault + int" where
  "checked_i64 x = (if in_i64 x then Inr x else Inl Panic)"

definition last_time_buy_required :: "planning_input \<Rightarrow> part_plan \<Rightarrow> planning_fault + bool" where
  "last_time_buy_required inp pp =
     (if lifecycle_terminal (pp_lifecycle pp) \<or> pp_lifecycle pp = LS_LastTimeBuy then Inr True
      else case last_order_day pp of
             None \<Rightarrow> Inr False
           | Some d \<Rightarrow>
               bind_result (checked_i64 (int (periods inp) * int (days_per_period inp))) (\<lambda>horizon.
               bind_result (checked_i64 (day_number (horizon_start inp) + horizon)) (\<lambda>horizon_end.
               Inr (day_number d \<le> horizon_end))))"

definition make_order ::
    "part_plan \<Rightarrow> nat \<Rightarrow> nat \<Rightarrow> units \<Rightarrow> units \<Rightarrow> order_reason \<Rightarrow> bool \<Rightarrow> planning_error + planned_order" where
  "make_order pp release receipt quantity shortage reason exp =
     (let excess = (case units_checked_sub quantity shortage of Inr e \<Rightarrow> e | Inl _ \<Rightarrow> Units 0)
      in bind_result (allocate quantity (suppliers pp)) (\<lambda>allocs.
         Inr \<lparr>po_part = pp_part pp, release_period = release, receipt_period = receipt, po_quantity = quantity,
              shortage_units = shortage, excess_units = excess, expedite = exp, po_reason = reason,
              po_suppliers = allocs\<rparr>))"

definition units_total :: "units list \<Rightarrow> planning_error + units" where
  "units_total v = exact_err (try_fold units_checked_add (Units 0) v)"

definition bridge_block ::
    "planning_input \<Rightarrow> part_plan \<Rightarrow> units list \<Rightarrow> units \<Rightarrow> units availability \<Rightarrow>
     planning_fault + units availability \<times> string list" where
  "bridge_block inp pp confirmed gross_total safety =
     bind_result (last_time_buy_required inp pp) (\<lambda>required.
     case (required, as_known safety) of
        (True, Some safety) \<Rightarrow>
          refused (bind_result (units_total confirmed) (\<lambda>confirmed_total.
          bind_result (exact_err (units_checked_add gross_total safety)) (\<lambda>a.
          bind_result (exact_err (units_checked_sub a (on_hand pp))) (\<lambda>b.
          bind_result (exact_err (units_checked_sub b confirmed_total)) (\<lambda>net.
          Inr (case last_order_day pp of
                 None \<Rightarrow>
                   (avail_unavailable MissingEvidence ''terminal lifecycle without a last order day'',
                    [''terminal lifecycle without a last order day''])
               | Some d \<Rightarrow>
                   if day_before d (horizon_start inp)
                   then (avail_unavailable Reason_Expired ''last order day has passed'', [''last order day has passed''])
                   else (case lot_round (lot pp) net of
                           Inr quantity \<Rightarrow> (Known quantity, [])
                         | Inl error \<Rightarrow>
                             (avail_unavailable Reason_Arithmetic (planning_error_text error),
                              [''LTB quantity failed: '' @ planning_error_text error]))))))))
      | (True, None) \<Rightarrow>
          Inr (avail_unavailable MissingEvidence ''LTB needs safety stock'', [''last-time-buy needs safety stock''])
      | (False, _) \<Rightarrow> Inr (Known (Units 0), []))"

text \<open>The branch of a terminal part: the bridge, its order, the projected end and new reasons.\<close>

definition terminal_block ::
    "planning_input \<Rightarrow> part_plan \<Rightarrow> units list \<Rightarrow> units \<Rightarrow> nat availability \<Rightarrow> units availability \<Rightarrow>
     planning_fault + last_time_buy \<times> planned_order list \<times> units availability \<times> string list" where
  "terminal_block inp pp confirmed gross_total lead_periods safety =
     bind_result (bridge_block inp pp confirmed gross_total safety) (\<lambda>(bridge, reasons).
     let ltb = \<lparr>ltb_last_order_day = last_order_day pp, ltb_units = bridge,
                ltb_note = ''last-time-buy bridge covers the full horizon plus safety stock''\<rparr>;
         unplanned = avail_unavailable MissingEvidence ''planning incomplete''
     in case as_known bridge of
          Some quantity \<Rightarrow>
            if units_get quantity \<noteq> 0 then
              (case as_known lead_periods of
                 Some lead \<Rightarrow>
                   if periods inp = 0 then Inl Panic
                   else refused
                   (let receipt = min lead (periods inp - 1)
                    in bind_result (make_order pp 0 receipt quantity quantity Reason_LastTimeBuy (lead > receipt)) (\<lambda>order.
                       bind_result (units_total confirmed) (\<lambda>confirmed_total.
                       bind_result (exact_err (units_checked_add (on_hand pp) confirmed_total)) (\<lambda>a.
                       bind_result (exact_err (units_checked_add a quantity)) (\<lambda>b.
                       bind_result (exact_err (units_checked_sub b gross_total)) (\<lambda>final.
                       Inr (ltb, [order], Known final, reasons)))))))
               | None \<Rightarrow> Inr (ltb, [], unplanned, reasons @ [''LTB order cannot be time-phased'']))
            else Inr (ltb, [], Known (on_hand pp), reasons)
        | None \<Rightarrow> Inr (ltb, [], unplanned, reasons))"

section \<open>Netting\<close>

record net_state =
  available :: int
  net_orders :: "planned_order list"
  net_reasons :: "string list"
  net_flags :: "planning_flag list"

definition expedite_flag :: "nat \<Rightarrow> nat \<Rightarrow> planning_flag" where
  "expedite_flag receipt lead =
     (''expedite'', ''receipt in bucket '' @ dec_text receipt @ '' needs a '' @ dec_text lead @ ''-bucket lead time'')"

text \<open>The part of a turn below the safety stock: the order that refills it.\<close>

definition refill ::
    "part_plan \<Rightarrow> nat \<Rightarrow> units \<Rightarrow> net_state \<Rightarrow> nat \<Rightarrow> planning_error + net_state" where
  "refill pp lead safety s period =
     bind_result (ok_or (Plan_Exact Exact_Overflow) (try_u64 (nat (int (units_get safety) - available s)))) (\<lambda>n.
     bind_result (exact_err (units_new n)) (\<lambda>shortage.
     case lot_round (lot pp) shortage of
       Inl error \<Rightarrow> Inr (s\<lparr>net_reasons := net_reasons s @ [''lot rounding failed: '' @ planning_error_text error]\<rparr>)
     | Inr quantity \<Rightarrow>
         (let release = period - lead; exp = period < lead;
              flags = (if exp then net_flags s @ [expedite_flag period lead] else net_flags s)
          in bind_result (make_order pp release period quantity shortage NetRequirement exp) (\<lambda>order.
             let orders = net_orders s @ [order]
             in if length orders > MAX_ORDERS_PER_PART
                then Inl (Plan_Bound ''planned orders'' MAX_ORDERS_PER_PART)
                else Inr (s\<lparr>available := available s + int (units_get quantity), net_orders := orders,
                            net_flags := flags\<rparr>)))))"

definition net_step ::
    "part_plan \<Rightarrow> nat \<Rightarrow> units \<Rightarrow> units list \<Rightarrow> units list \<Rightarrow> net_state \<Rightarrow> nat \<Rightarrow> planning_fault + net_state" where
  "net_step pp lead safety confirmed gross s period =
     (if length confirmed \<le> period \<or> length gross \<le> period then Inl Panic
      else
        (let s = s\<lparr>available := available s + int (units_get (confirmed ! period)) - int (units_get (gross ! period))\<rparr>
         in if available s < int (units_get safety) then refused (refill pp lead safety s period) else Inr s))"

definition net_end :: "net_state \<Rightarrow> planning_error + units availability \<times> string list" where
  "net_end s =
     (if available s < 0
      then Inr (avail_unavailable Reason_Arithmetic ''projected inventory is negative'',
                net_reasons s @ [''projected inventory remains negative''])
      else bind_result (exact_err (units_new (nat (available s) mod 2 ^ 64))) (\<lambda>u. Inr (Known u, net_reasons s)))"

section \<open>Flags and classification\<close>

definition shelf_life_block ::
    "planning_input \<Rightarrow> part_plan \<Rightarrow> demand_stats option \<Rightarrow> nat availability \<Rightarrow> planned_order list \<Rightarrow>
     planning_fault + planning_flag list" where
  "shelf_life_block inp pp stats lead_periods orders =
     (case shelf_life_days pp of
        None \<Rightarrow> Inr []
      | Some days \<Rightarrow>
          if days_per_period inp = 0 then Inl Panic
          else refused
          (let buckets = (days + (days_per_period inp - 1)) div days_per_period inp
           in case (stats, as_known lead_periods) of
                (Some stats, Some lead) \<Rightarrow>
                  bind_result (ok_or (Plan_Exact Exact_Overflow) (try_i128 (mean_micros stats * int buckets))) (\<lambda>product.
                  bind_result (require_units product) (\<lambda>demand_over_shelf.
                  Inr ((if buckets < lead then [(''shelf_life_risk'', ''shelf life is shorter than the lead time'')] else [])
                       @ (if list_ex (\<lambda>order. units_get (po_quantity order) > units_get demand_over_shelf) orders
                          then [(''shelf_life_risk'', ''an order exceeds demand over one shelf life'')] else []))))
              | _ \<Rightarrow> Inr [(''shelf_life_unknown'',
                       ''shelf-life risk cannot be assessed without lead time and demand stats'')]))"

definition dedup_flags :: "planning_flag list \<Rightarrow> planning_flag list" where
  "dedup_flags flags = remdups_adj (sort_key (\<lambda>f. f) flags)"

definition classification_for ::
    "planning_input \<Rightarrow> part_plan \<Rightarrow> units \<Rightarrow> demand_stats option \<Rightarrow> part_classification" where
  "classification_for inp pp gross_total stats =
     \<lparr>pc_part = pp_part pp,
      annual_spend =
        (case term_known (unit_cost pp) of
           Some cost \<Rightarrow>
             (case mul_div_round_half_up (int (units_get gross_total) * 1000000) (int (periods_per_year inp))
                     (int (periods inp) * 1000000) of
                Some n \<Rightarrow>
                  (case Option.bind (if n < 0 then None else try_u64 (nat n))
                          (\<lambda>u. case mul_units cost u of Inr v \<Rightarrow> Some v | Inl _ \<Rightarrow> None) of
                     Some v \<Rightarrow> Known v
                   | None \<Rightarrow> avail_unavailable Reason_Arithmetic ''spend overflow'')
              | None \<Rightarrow> avail_unavailable Reason_Arithmetic ''spend overflow'')
         | None \<Rightarrow> avail_unavailable MissingEvidence ''unit cost unavailable''),
      abc = avail_unavailable MissingEvidence ''ABC is assigned after the spend sort'',
      xyz =
        (case stats of
           None \<Rightarrow> avail_unavailable MissingEvidence ''demand statistics unavailable''
         | Some stats \<Rightarrow>
             (case cv_ppm stats of
                Known v \<Rightarrow> if v \<le> 250000 then Known Xyz_X else if v \<le> 500000 then Known Xyz_Y else Known Xyz_Z
              | Unavailable u \<Rightarrow> Unavailable u))\<rparr>"

section \<open>One part and the whole run\<close>

definition confirmed_vector :: "planning_input \<Rightarrow> part_plan \<Rightarrow> planning_fault + units list" where
  "confirmed_vector inp pp =
     try_fold (\<lambda>v line. add_at (cs_period line) (cs_quantity line) v) (replicate (periods inp) (Units 0)) (pp_confirmed pp)"

definition is_terminal_part :: "part_plan \<Rightarrow> bool" where
  "is_terminal_part pp \<longleftrightarrow>
     lifecycle_terminal (pp_lifecycle pp) \<or> pp_lifecycle pp = LS_LastTimeBuy \<or> last_order_day pp \<noteq> None"

text \<open>The three-way branch on demand, terminality and the known lead time and safety stock.\<close>

definition order_block ::
    "planning_input \<Rightarrow> part_plan \<Rightarrow> units list \<Rightarrow> units list \<Rightarrow> units \<Rightarrow> nat availability \<Rightarrow> units availability \<Rightarrow>
     planning_fault + planning_status \<times> last_time_buy option \<times> planned_order list \<times> units availability
       \<times> string list \<times> planning_flag list" where
  "order_block inp pp gross confirmed gross_total lead_periods safety =
     (if units_get gross_total = 0 \<and> \<not> is_terminal_part pp then
        Inr (Status_NoDemand, None, [], Known (on_hand pp), [], [])
      else if is_terminal_part pp then
        bind_result (terminal_block inp pp confirmed gross_total lead_periods safety)
          (\<lambda>(ltb, orders, fin, reasons). Inr (Status_Planned, Some ltb, orders, fin, reasons, []))
      else
        (case (as_known lead_periods, as_known safety) of
           (Some lead, Some safety) \<Rightarrow>
             bind_result (try_fold (net_step pp lead safety confirmed gross)
                 \<lparr>available = int (units_get (on_hand pp)), net_orders = [], net_reasons = [], net_flags = []\<rparr>
                 [0..<periods inp]) (\<lambda>s.
             bind_result (refused (net_end s)) (\<lambda>(fin, reasons).
             Inr (Status_Planned, None, net_orders s, fin, reasons, net_flags s)))
         | _ \<Rightarrow>
             Inr (Status_Planned, None, [], avail_unavailable MissingEvidence ''planning incomplete'',
                  [''planning netting requires lead time and safety stock''], [])))"

definition plan_part ::
    "planning_input \<Rightarrow> part_plan \<Rightarrow> units list \<Rightarrow> planning_fault + part_plan_result \<times> part_classification" where
  "plan_part inp pp gross =
     bind_result (confirmed_vector inp pp) (\<lambda>confirmed.
     bind_result (refused (units_total gross)) (\<lambda>gross_total.
     bind_result (lead_periods_block inp pp) (\<lambda>(lead_periods, reasons1, flags1).
     let stats = term_known (pp_demand_stats pp);
         (safety, reasons2, flags2) = safety_block inp stats lead_periods
     in bind_result (refused (reorder_block stats lead_periods safety)) (\<lambda>reorder.
        bind_result (order_block inp pp gross confirmed gross_total lead_periods safety)
          (\<lambda>(status, ltb, orders, fin, reasons3, flags3).
        let reasons = reasons1 @ reasons2 @ reasons3;
            status = (if status = Status_Planned \<and> reasons \<noteq> [] then Status_Incomplete reasons else status)
        in bind_result (shelf_life_block inp pp stats lead_periods orders) (\<lambda>flags4.
           Inr (\<lparr>pr_part = pp_part pp, pr_mpn = mpn pp, pr_gross = gross, pr_confirmed = confirmed,
                 pr_on_hand = on_hand pp, lead_time_periods = lead_periods, pr_safety_stock = safety,
                 reorder_point = reorder, projected_end = fin, planned_orders = orders,
                 pr_last_time_buy = ltb, pr_status = status,
                 pr_flags = dedup_flags (flags1 @ flags2 @ flags3 @ flags4)\<rparr>,
                classification_for inp pp gross_total stats)))))))"

section \<open>ABC classes\<close>

definition spend_of :: "part_classification list \<Rightarrow> (part_id \<times> int) list" where
  "spend_of cs = concat (map (\<lambda>c. case annual_spend c of Known v \<Rightarrow> [(pc_part c, micros v)] | Unavailable _ \<Rightarrow> []) cs)"

text \<open>
  \<open>binary_search_by_key\<close> runs on the slice sorted by part, whose parts differ; there it finds the
  one entry of the part.
\<close>

fun set_abc :: "part_id \<Rightarrow> abc_class \<Rightarrow> part_classification list \<Rightarrow> part_classification list" where
  "set_abc p class [] = []"
| "set_abc p class (c # cs) = (if pc_part c = p then c\<lparr>abc := Known class\<rparr> # cs else c # set_abc p class cs)"

fun abc_loop ::
    "int \<Rightarrow> (part_id \<times> int) list \<Rightarrow> int \<Rightarrow> bool \<Rightarrow> part_classification list \<Rightarrow>
     planning_error + part_classification list" where
  "abc_loop total_spend [] cumulative first cs = Inr cs"
| "abc_loop total_spend ((part, v) # rest) cumulative first cs =
     (let cumulative = cumulative + v
      in bind_result (ok_or (Plan_Exact Exact_Overflow) (mul_div_round_half_up cumulative 1000000 total_spend)) (\<lambda>after_ppm.
         let class = (if first \<or> after_ppm \<le> 800000 then Abc_A else if after_ppm \<le> 950000 then Abc_B else Abc_C)
         in abc_loop total_spend rest cumulative False (set_abc part class cs)))"

definition assign_abc :: "part_classification list \<Rightarrow> planning_error + part_classification list" where
  "assign_abc cs =
     (let spend = spend_of cs; total_spend = sum_list (map snd spend)
      in if spend = [] then Inr cs
         else if total_spend \<le> 0 then
           Inr (map (\<lambda>c. if is_known (annual_spend c)
                         then c\<lparr>abc := avail_unavailable OutOfRange ''total spend is zero''\<rparr> else c) cs)
         else abc_loop total_spend (sort_key (\<lambda>(part, v). (- v, part)) spend) 0 True cs)"

section \<open>The run\<close>

definition plan_step ::
    "planning_input \<Rightarrow> (part_id \<rightharpoonup> units list) \<Rightarrow> part_plan_result list \<times> part_classification list \<Rightarrow> part_plan \<Rightarrow>
     planning_fault + part_plan_result list \<times> part_classification list" where
  "plan_step inp gross s pp =
     (case gross (pp_part pp) of
        None \<Rightarrow> Inl (Refused (UnknownPart (pp_part pp)))
      | Some v \<Rightarrow>
          bind_result (plan_part inp pp v) (\<lambda>(result, classification).
          Inr (fst s @ [result], snd s @ [classification])))"

definition plan :: "planning_input \<Rightarrow> planning_fault + plan_output" where
  "plan inp =
     bind_result (planning_validate inp) (\<lambda>_.
     bind_result (explode_requirements inp) (\<lambda>gross.
     bind_result (try_fold (plan_step inp gross) ([], []) (parts inp)) (\<lambda>(results, cs).
     bind_result (refused (assign_abc (sort_key pc_part cs))) (\<lambda>cs.
     Inr \<lparr>plan_currency = pi_currency inp, plan_periods = periods inp,
          plan_parts = sort_key pr_part results, classifications = cs\<rparr>))))"

end
