(* ===== verification/Planning_Allocation.thy ===== *)
theory Planning_Allocation
  imports Planning_Orders "HOL-Library.Multiset"
begin

text \<open>
  Largest-remainder allocation (\<open>allocate\<close> of \<open>crates/supply-planning/src/lib.rs\<close>): it accepts
  exactly the share lists that sum to one million, hands out every unit, and gives each supplier
  its exact quota up to less than one unit.
\<close>

definition valid_shares :: "supply_share list \<Rightarrow> bool" where
  "valid_shares shares \<longleftrightarrow>
     list_all (\<lambda>s. 0 \<le> share_ppm s \<and> share_ppm s \<le> 1000000) shares \<and> sum_list (map share_ppm shares) = 1000000"

lemma shares_sum_nonneg:
  "list_all (\<lambda>s. 0 \<le> share_ppm s \<and> share_ppm s \<le> 1000000) shares \<Longrightarrow> 0 \<le> sum_list (map share_ppm shares)"
  by (induction shares) auto

lemma share_fold_value: "try_fold share_step acc shares = Inr t \<Longrightarrow>
    list_all (\<lambda>s. 0 \<le> share_ppm s \<and> share_ppm s \<le> 1000000) shares \<and> t = acc + sum_list (map share_ppm shares)"
  by (induction shares arbitrary: acc) (fastforce simp: share_step_def split: if_splits)+

lemma share_fold_ok:
  "list_all (\<lambda>s. 0 \<le> share_ppm s \<and> share_ppm s \<le> 1000000) shares \<Longrightarrow> 0 \<le> acc \<Longrightarrow>
     acc + sum_list (map share_ppm shares) \<le> 1000000 \<Longrightarrow>
     try_fold share_step acc shares = Inr (acc + sum_list (map share_ppm shares))"
proof (induction shares arbitrary: acc)
  case (Cons s shares)
  with shares_sum_nonneg [of shares] have step: "share_step acc s = Inr (acc + share_ppm s)"
    by (simp add: share_step_def try_i64_def in_i64_def width_simps)
  from Cons.IH [of "acc + share_ppm s"] Cons.prems step show ?case by (simp add: add.assoc)
qed simp

lemma checked_share_total_iff: "checked_share_total shares = Inr 1000000 \<longleftrightarrow> valid_shares shares"
  using share_fold_ok [of shares 0] share_fold_value [of 0 shares 1000000]
  by (auto simp: checked_share_total_def valid_shares_def)

definition floor_entry :: "int \<Rightarrow> supply_share \<Rightarrow> supplier_id \<times> int \<times> int" where
  "floor_entry q s = (share_supplier s, q * share_ppm s div 1000000, q * share_ppm s mod 1000000)"

lemma floor_step_value:
  assumes "0 \<le> q" "q \<le> int MAX_UNITS" "0 \<le> share_ppm s" "share_ppm s \<le> 1000000"
  shows "floor_step q s = Inr (floor_entry q s)"
proof -
  have "q * share_ppm s \<le> int MAX_UNITS * 1000000" using assms by (intro mult_mono) auto
  moreover have "0 \<le> q * share_ppm s" using assms by simp
  ultimately show ?thesis
    by (simp add: floor_step_def floor_entry_def try_i128_def in_i128_def width_simps money_bounds
        signed_divide_int_def signed_modulo_int_def sgn_if)
qed

lemma floors_fold:
  assumes "0 \<le> q" "q \<le> int MAX_UNITS"
  shows "list_all (\<lambda>s. 0 \<le> share_ppm s \<and> share_ppm s \<le> 1000000) shares \<Longrightarrow>
    try_fold (floors_step q) (es, d) shares =
      Inr (es @ map (floor_entry q) shares, d + sum_list (map (\<lambda>s. q * share_ppm s div 1000000) shares))"
proof (induction shares arbitrary: es d)
  case (Cons s shares)
  then have "floors_step q (es, d) s = Inr (es @ [floor_entry q s], d + q * share_ppm s div 1000000)"
    using floor_step_value [OF assms, of s] by (simp add: floors_step_def floor_entry_def)
  with Cons show ?case by simp
qed simp

lemma insort_key_map: "insort_key f (g x) (map g xs) = map g (insort_key (\<lambda>y. f (g y)) x xs)"
  by (induction xs) auto

lemma sort_key_map: "sort_key f (map g xs) = map g (sort_key (\<lambda>y. f (g y)) xs)"
  by (induction xs) (auto simp: insort_key_map)

text \<open>The leftover is the number of missing units, and only suppliers with a remainder get one.\<close>

lemma hand_out_spec:
  assumes "0 \<le> k" "k \<le> int (length ss)"
    and "\<forall>s \<in> set ss. 0 \<le> q * share_ppm s \<and> q * share_ppm s \<le> q * 1000000" "0 \<le> q" "q \<le> int MAX_UNITS"
    and "\<forall>i < nat k. 0 < q * share_ppm (ss ! i) mod 1000000"
  shows "\<exists>us. hand_out (map (floor_entry q) ss) k =
      Inr (map (\<lambda>(s, u). \<lparr>al_supplier = share_supplier s, al_units = Units u\<rparr>) (zip ss us))
    \<and> length us = length ss
    \<and> int (sum_list us) = sum_list (map (\<lambda>s. q * share_ppm s div 1000000) ss) + k
    \<and> list_all2 (\<lambda>s u. \<bar>int u * 1000000 - q * share_ppm s\<bar> < 1000000) ss us"
  using assms
proof (induction ss arbitrary: k)
  case (Cons s ss)
  let ?n = "q * share_ppm s"
  define u where "u = nat (?n div 1000000 + (if k > 0 then 1 else 0))"
  define k' where "k' = (if k > 0 then k - 1 else k)"
  have n: "0 \<le> ?n" "?n \<le> q * 1000000" using Cons.prems(3) by auto
  have pos: "k > 0 \<Longrightarrow> 0 < ?n mod 1000000" using Cons.prems(6) by (auto dest: spec [of _ 0])
  have uq: "int u = ?n div 1000000 + (if k > 0 then 1 else 0)" using n by (simp add: u_def)
  have close: "\<bar>int u * 1000000 - ?n\<bar> < 1000000"
  proof -
    obtain d r where d: "d = ?n div 1000000" and r: "r = ?n mod 1000000" by blast
    have "?n = d * 1000000 + r" "0 \<le> r" "r < 1000000" by (simp_all add: d r)
    with pos show ?thesis unfolding uq d [symmetric] r [symmetric] by auto
  qed
  have "int u * 1000000 < q * 1000000 + 1000000" using close n by linarith
  then have "int u \<le> q" by simp
  then have bound: "u \<le> MAX_UNITS" using Cons.prems(5) by simp
  have rest: "\<forall>i < nat k'. 0 < q * share_ppm (ss ! i) mod 1000000"
  proof (intro allI impI)
    fix i assume "i < nat k'"
    then have "Suc i < nat k" by (auto simp: k'_def split: if_splits)
    with Cons.prems(6) show "0 < q * share_ppm (ss ! i) mod 1000000" by fastforce
  qed
  have "0 \<le> k'" "k' \<le> int (length ss)" using Cons.prems(1,2) by (auto simp: k'_def split: if_splits)
  from Cons.IH [OF this _ Cons.prems(4,5) rest] Cons.prems(3) obtain us where
    us: "hand_out (map (floor_entry q) ss) k' =
      Inr (map (\<lambda>(s, u). \<lparr>al_supplier = share_supplier s, al_units = Units u\<rparr>) (zip ss us))"
      "length us = length ss"
      "int (sum_list us) = sum_list (map (\<lambda>s. q * share_ppm s div 1000000) ss) + k'"
      "list_all2 (\<lambda>s u. \<bar>int u * 1000000 - q * share_ppm s\<bar> < 1000000) ss us" by auto
  have "hand_out (map (floor_entry q) (s # ss)) k =
      Inr (map (\<lambda>(s, u). \<lparr>al_supplier = share_supplier s, al_units = Units u\<rparr>) (zip (s # ss) (u # us)))"
    using us(1) bound n uq unfolding k'_def u_def
    by (cases "k > 0") (auto simp: floor_entry_def Let_def try_u64_def units_new_def width_simps money_bounds)
  moreover have "int (sum_list (u # us)) = sum_list (map (\<lambda>s. q * share_ppm s div 1000000) (s # ss)) + k"
    using us(3) uq by (auto simp: k'_def)
  ultimately show ?case using us(2,4) close by (intro exI [of _ "u # us"]) simp
qed simp

lemma sum_list_all_zero: "\<forall>x \<in> set xs. x = (0 :: int) \<Longrightarrow> sum_list xs = 0"
  by (induction xs) auto

lemma sum_list_mset_cong:
  fixes f :: "'a \<Rightarrow> 'b :: comm_monoid_add"
  assumes "mset xs = mset ys"
  shows "sum_list (map f xs) = sum_list (map f ys)"
proof -
  have "sum_mset (image_mset f (mset xs)) = sum_mset (image_mset f (mset ys))" using assms by simp
  then show ?thesis by (simp add: sum_mset_sum_list flip: mset_map)
qed

lemma sum_list_le_length:
  fixes xs :: "int list"
  shows "\<forall>x \<in> set xs. x \<le> m \<Longrightarrow> sum_list xs \<le> int (length xs) * m"
  by (induction xs) (auto simp: algebra_simps)

lemma remainders_first:
  fixes rs :: "int list"
  assumes srt: "sorted (map uminus rs)" and rs: "\<forall>r \<in> set rs. 0 \<le> r \<and> r < m" and sum: "sum_list rs = k * m"
    and m: "0 < m" and i: "i < nat k"
  shows "i < length rs \<and> 0 < rs ! i"
proof (rule ccontr)
  assume neg: "\<not> (i < length rs \<and> 0 < rs ! i)"
  have "\<forall>r \<in> set (drop i rs). r = 0"
  proof
    fix r assume "r \<in> set (drop i rs)"
    then obtain j where j: "i + j < length rs" "r = rs ! (i + j)"
      by (auto simp: in_set_conv_nth less_diff_conv) (metis add.commute)
    then have "- (rs ! i) \<le> - (rs ! (i + j))"
      using srt sorted_nth_mono [of "map uminus rs" i "i + j"] by simp
    moreover have "rs ! i \<le> 0" using neg j by auto
    moreover have "0 \<le> r" using rs j nth_mem [of "i + j" rs] by simp
    ultimately show "r = 0" using j by simp
  qed
  then have "sum_list (drop i rs) = 0" by (rule sum_list_all_zero)
  then have "sum_list rs = sum_list (take i rs)" by (metis add.right_neutral append_take_drop_id sum_list_append)
  also have "\<dots> \<le> int (length (take i rs)) * m"
    by (rule sum_list_le_length) (use rs in \<open>fastforce dest: in_set_takeD\<close>)
  finally have le: "k * m \<le> int (min i (length rs)) * m" using sum by (simp add: min.commute)
  with m have "k \<le> int (min i (length rs))" by simp
  with i show False by simp
qed

lemma sum_of_floors:
  fixes q :: int
  shows "sum_list (map (\<lambda>s. q * share_ppm s mod 1000000) shares) =
    q * sum_list (map share_ppm shares) - sum_list (map (\<lambda>s. q * share_ppm s div 1000000) shares) * 1000000"
  by (induction shares) (auto simp: algebra_simps minus_mult_div_eq_mod [symmetric])

lemma allocate_correct:
  assumes "units_ok quantity"
  shows "case allocate quantity shares of
      Inl _ \<Rightarrow> \<not> valid_shares shares
    | Inr result \<Rightarrow> valid_shares shares
        \<and> sum_list (map (\<lambda>a. units_get (al_units a)) result) = units_get quantity
        \<and> sorted (map al_supplier result)
        \<and> (\<exists>quota. mset (map fst quota) = mset shares
             \<and> mset result = mset (map (\<lambda>(s, u). \<lparr>al_supplier = share_supplier s, al_units = Units u\<rparr>) quota)
             \<and> list_all (\<lambda>(s, u). \<bar>int u * 1000000 - int (units_get quantity) * share_ppm s\<bar> < 1000000) quota)"
proof (cases "valid_shares shares")
  case False
  then have "allocate quantity shares \<noteq> Inr r" for r
    using checked_share_total_iff [of shares] by (auto simp: allocate_def split: if_splits)
  with False show ?thesis by (cases "allocate quantity shares") auto
next
  case True
  define q where "q = int (units_get quantity)"
  have q: "0 \<le> q" "q \<le> int MAX_UNITS" using assms by (auto simp: q_def units_ok_def)
  from True have ppm: "list_all (\<lambda>s. 0 \<le> share_ppm s \<and> share_ppm s \<le> 1000000) shares"
    and sum: "sum_list (map share_ppm shares) = 1000000" by (auto simp: valid_shares_def)
  from sum have ne: "shares \<noteq> []" by auto
  let ?key = "\<lambda>(supplier :: supplier_id, floor :: int, remainder :: int). (- remainder, supplier)"
  define ss where "ss = sort_key (\<lambda>s. ?key (floor_entry q s)) shares"
  define k where "k = q - sum_list (map (\<lambda>s. q * share_ppm s div 1000000) shares)"
  have ms: "mset ss = mset shares" by (simp add: ss_def)
  then have set: "set ss = set shares" by (metis set_mset_mset)
  let ?rs = "map (\<lambda>s. q * share_ppm s mod 1000000) ss"
  have "sum_list ?rs = sum_list (map (\<lambda>s. q * share_ppm s mod 1000000) shares)"
    using ms by (rule sum_list_mset_cong)
  then have rsum: "sum_list ?rs = k * 1000000" by (simp add: sum_of_floors sum k_def algebra_simps)
  have "sorted (map (\<lambda>s. ?key (floor_entry q s)) ss)" unfolding ss_def by (rule sorted_sort_key)
  then have "sorted (map (fst \<circ> (\<lambda>s. ?key (floor_entry q s))) ss)"
    unfolding list.map_comp [symmetric] sorted_wrt_map by (rule sorted_wrt_mono_rel [rotated]) (auto simp: less_eq_prod_def)
  then have "sorted (map uminus ?rs)" by (simp add: floor_entry_def comp_def)
  note first = remainders_first [OF this _ rsum]
  have pos: "\<forall>i < nat k. i < length ss \<and> 0 < q * share_ppm (ss ! i) mod 1000000"
    using first by fastforce
  have "0 \<le> sum_list ?rs" by (intro sum_list_nonneg) auto
  then have k0: "0 \<le> k" using rsum by simp
  have kl: "k \<le> int (length ss)" using pos [rule_format, of "nat k - 1"] k0 by (cases "k = 0") auto
  have quota: "\<forall>s \<in> set ss. 0 \<le> q * share_ppm s \<and> q * share_ppm s \<le> q * 1000000"
    using ppm q set by (auto simp: list_all_iff mult_left_mono)
  from hand_out_spec [OF k0 kl quota q] pos obtain us where
    us: "hand_out (map (floor_entry q) ss) k =
      Inr (map (\<lambda>(s, u). \<lparr>al_supplier = share_supplier s, al_units = Units u\<rparr>) (zip ss us))"
      "length us = length ss"
      "int (sum_list us) = sum_list (map (\<lambda>s. q * share_ppm s div 1000000) ss) + k"
      "list_all2 (\<lambda>s u. \<bar>int u * 1000000 - q * share_ppm s\<bar> < 1000000) ss us" by auto
  let ?r = "map (\<lambda>(s, u). \<lparr>al_supplier = share_supplier s, al_units = Units u\<rparr>) (zip ss us)"
  have "allocate quantity shares = Inr (sort_key al_supplier ?r)"
    using True ne us(1) floors_fold [OF q ppm, of "[]" 0]
    by (simp add: allocate_def checked_share_total_iff [THEN iffD2] q_def [symmetric] sort_key_map ss_def k_def)
  moreover have "sum_list (map (\<lambda>a. units_get (al_units a)) (sort_key al_supplier ?r)) = units_get quantity"
  proof -
    have "sum_list (map (\<lambda>a. units_get (al_units a)) (sort_key al_supplier ?r)) = sum_list (map (\<lambda>a. units_get (al_units a)) ?r)"
      by (rule sum_list_mset_cong) simp
    also have "map (\<lambda>a. units_get (al_units a)) ?r = map snd (zip ss us)" by (auto simp: case_prod_beta)
    also have "\<dots> = us" using us(2) by simp
    finally show ?thesis
      using us(3) sum_list_mset_cong [OF ms, of "\<lambda>s. q * share_ppm s div 1000000"] by (simp add: k_def q_def)
  qed
  moreover have "image_mset fst (mset (zip ss us)) = mset shares" using us(2) ms by (metis map_fst_zip mset_map)
  ultimately show ?thesis
    using True us(4) by (auto simp: list_all2_iff q_def list_all_iff intro!: exI [of _ "zip ss us"])
qed


lemma allocate_sums_to:
  assumes "units_ok quantity" and "allocate quantity shares = Inr result"
  shows "sum_list (map (\<lambda>a. units_get (al_units a)) result) = units_get quantity"
  using allocate_correct [OF assms(1), of shares] assms(2) by simp

text \<open>
  C12. Splitting an order among suppliers is exact. For a quantity within the unit bound, allocation
  is refused exactly when the shares are not all between 0 and 1,000,000 ppm or do not sum to
  1,000,000 ppm. Otherwise it returns one entry per share, in supplier order, the units add up to
  the quantity, and every supplier's units differ from its exact quota (quantity times share) by
  less than one unit.
\<close>

theorem allocate_exact:
  assumes "units_ok quantity"
  shows "case allocate quantity shares of
      Inl _ \<Rightarrow> \<not> valid_shares shares
    | Inr result \<Rightarrow> valid_shares shares
        \<and> sum_list (map (\<lambda>a. units_get (al_units a)) result) = units_get quantity
        \<and> sorted (map al_supplier result)
        \<and> (\<exists>quota. mset (map fst quota) = mset shares
             \<and> mset result = mset (map (\<lambda>(s, u). \<lparr>al_supplier = share_supplier s, al_units = Units u\<rparr>) quota)
             \<and> list_all (\<lambda>(s, u). \<bar>int u * 1000000 - int (units_get quantity) * share_ppm s\<bar> < 1000000) quota)"
  by (rule allocate_correct [OF assms])

theorem allocate_exact_witness:
  "let shares = [\<lparr>share_supplier = 7, share_ppm = 333333\<rparr>, \<lparr>share_supplier = 3, share_ppm = 333334\<rparr>,
                 \<lparr>share_supplier = 5, share_ppm = 333333\<rparr>]
   in allocate (Units 10) shares =
        Inr [\<lparr>al_supplier = 3, al_units = Units 4\<rparr>, \<lparr>al_supplier = 5, al_units = Units 3\<rparr>,
             \<lparr>al_supplier = 7, al_units = Units 3\<rparr>] \<and> valid_shares shares"
proof -
  let ?shares = "[\<lparr>share_supplier = 7, share_ppm = 333333\<rparr>, \<lparr>share_supplier = 3, share_ppm = 333334\<rparr>,
    \<lparr>share_supplier = 5, share_ppm = 333333\<rparr>]"
  have run: "allocate (Units 10) ?shares =
      Inr [\<lparr>al_supplier = 3, al_units = Units 4\<rparr>, \<lparr>al_supplier = 5, al_units = Units 3\<rparr>,
           \<lparr>al_supplier = 7, al_units = Units 3\<rparr>]"
    by (simp add: allocate_def checked_share_total_def share_step_def floors_step_def floor_step_def try_i64_def
        try_i128_def in_i64_def in_i128_def try_u64_def units_new_def width_simps money_bounds signed_divide_int_def
        signed_modulo_int_def less_eq_prod_def)
  from allocate_exact [of "Units 10" ?shares] have "valid_shares ?shares"
    unfolding run by (simp add: units_ok_def money_bounds)
  with run show ?thesis unfolding Let_def by blast
qed

end
