(* ===== verification/Planning_Theorems.thy ===== *)
theory Planning_Theorems
  imports Planning_Allocation
begin

text \<open>
  What a planning run guarantees: the netting loop keeps the projected inventory at or above the
  safety stock with lot-sized orders, no run panics as long as the horizon ends within the calendar, the explosion is the solution of the
  requirement equations, and the cases in which the code plans nothing for a part that has demand.
\<close>

section \<open>Lot sizes and orders\<close>

lemma lot_round_spec:
  assumes "lot_round l r = Inr q" and "0 < units_get (multiple l)"
  shows "units_get (multiple l) dvd units_get q" "units_get r \<le> units_get q" "units_get (moq l) \<le> units_get q"
proof -
  from assms(1) have "round_up_to_multiple (units_max r (moq l)) (multiple l) = Inr q"
    by (simp add: lot_round_def Let_def)
  from round_up_to_multiple_least [OF assms(2) this]
  show "units_get (multiple l) dvd units_get q" "units_get r \<le> units_get q" "units_get (moq l) \<le> units_get q"
    by (auto simp: units_max_def split: if_splits)
qed

definition order_ok :: "part_plan \<Rightarrow> nat \<Rightarrow> planned_order \<Rightarrow> bool" where
  "order_ok pp lead po \<longleftrightarrow>
     po_part po = pp_part pp \<and> po_reason po = NetRequirement
     \<and> release_period po = receipt_period po - lead \<and> expedite po = (receipt_period po < lead)
     \<and> units_get (multiple (lot pp)) dvd units_get (po_quantity po)
     \<and> units_get (moq (lot pp)) \<le> units_get (po_quantity po)
     \<and> 0 < units_get (shortage_units po)
     \<and> units_get (po_quantity po) = units_get (shortage_units po) + units_get (excess_units po)
     \<and> sum_list (map (\<lambda>a. units_get (al_units a)) (po_suppliers po)) = units_get (po_quantity po)"

text \<open>
  The projected inventory after a bucket: stock, plus confirmed supply, minus gross requirements,
  plus the orders received up to it.
\<close>

definition inventory_after ::
    "units \<Rightarrow> units list \<Rightarrow> units list \<Rightarrow> planned_order list \<Rightarrow> nat \<Rightarrow> int" where
  "inventory_after stock confirmed gross orders t =
     int (units_get stock) + (\<Sum>i \<le> t. int (units_get (confirmed ! i)) - int (units_get (gross ! i)))
     + (\<Sum>po \<leftarrow> filter (\<lambda>po. receipt_period po \<le> t) orders. int (units_get (po_quantity po)))"

text \<open>The bounds that the constructors of the newtypes establish for one part record.\<close>

definition part_typed :: "part_plan \<Rightarrow> bool" where
  "part_typed pp \<longleftrightarrow> units_ok (on_hand pp) \<and> units_ok (moq (lot pp)) \<and> units_ok (multiple (lot pp))"

lemma lot_round_units_ok:
  assumes "lot_round l r = Inr q" and "units_ok r" and "units_ok (moq l)"
  shows "units_ok q"
  using assms by (auto simp: lot_round_def Let_def round_up_to_multiple_def units_new_ok units_ok_def units_max_def
      split: if_splits)

lemma allocate_sum:
  assumes "allocate q shares = Inr as" and "units_ok q"
  shows "sum_list (map (\<lambda>a. units_get (al_units a)) as) = units_get q"
  using allocate_sums_to [OF assms(2,1)] .

lemma make_order_ok:
  assumes "make_order pp (period - lead) period q sh NetRequirement (period < lead) = Inr po"
    and "lot_round (lot pp) sh = Inr q" and "0 < units_get (multiple (lot pp))" and "0 < units_get sh"
    and "units_ok sh" and "units_ok (moq (lot pp))"
  shows "order_ok pp lead po \<and> receipt_period po = period \<and> po_quantity po = q \<and> shortage_units po = sh"
proof -
  have q: "units_ok q" using lot_round_units_ok [OF assms(2,5,6)] .
  note lot = lot_round_spec [OF assms(2,3)]
  have "units_checked_sub q sh = Inr (Units (units_get q - units_get sh))"
    using lot(2) q by (simp add: units_checked_sub_def units_new_def units_ok_def)
  moreover from assms(1) obtain as where as: "allocate q (suppliers pp) = Inr as" by (auto simp: make_order_def Let_def)
  ultimately show ?thesis
    using assms(1,4) lot allocate_sum [OF as q] by (auto simp: make_order_def Let_def order_ok_def)
qed

section \<open>The netting loop\<close>

definition net_inv ::
    "part_plan \<Rightarrow> nat \<Rightarrow> units \<Rightarrow> units list \<Rightarrow> units list \<Rightarrow> nat \<Rightarrow> net_state \<Rightarrow> bool" where
  "net_inv pp lead safety confirmed gross n s \<longleftrightarrow>
     available s = int (units_get (on_hand pp))
       + (\<Sum>i < n. int (units_get (confirmed ! i)) - int (units_get (gross ! i)))
       + (\<Sum>po \<leftarrow> net_orders s. int (units_get (po_quantity po)))
     \<and> available s \<le> int MAX_UNITS * (1 + 2 * int n)
     \<and> (\<forall>po \<in> set (net_orders s). order_ok pp lead po \<and> receipt_period po < n
          \<and> inventory_after (on_hand pp) confirmed gross (net_orders s) (receipt_period po)
              = int (units_get safety) + int (units_get (excess_units po)))
     \<and> sorted_wrt (<) (map receipt_period (net_orders s))
     \<and> (net_reasons s = [] \<longrightarrow>
          (\<forall>t < n. int (units_get safety) \<le> inventory_after (on_hand pp) confirmed gross (net_orders s) t))"

lemma inventory_after_snoc:
  "inventory_after st c g (orders @ [po]) t =
     inventory_after st c g orders t + (if receipt_period po \<le> t then int (units_get (po_quantity po)) else 0)"
  by (simp add: inventory_after_def)

lemma inventory_after_all:
  assumes "\<forall>po \<in> set orders. receipt_period po \<le> t"
  shows "inventory_after st c g orders t =
    int (units_get st) + (\<Sum>i \<le> t. int (units_get (c ! i)) - int (units_get (g ! i)))
    + (\<Sum>po \<leftarrow> orders. int (units_get (po_quantity po)))"
proof -
  have "filter (\<lambda>po. receipt_period po \<le> t) orders = orders" using assms by (simp add: filter_id_conv)
  then show ?thesis by (simp add: inventory_after_def)
qed

lemma refill_cases:
  assumes "refill pp lead safety s period = Inr s'" and "available s < int (units_get safety)"
    and "0 < units_get (multiple (lot pp))" and "part_typed pp"
  obtains (failed) error where "s' = s\<lparr>net_reasons := net_reasons s @ [error]\<rparr>"
  | (ordered) po where "order_ok pp lead po" "receipt_period po = period"
      "int (units_get (shortage_units po)) = int (units_get safety) - available s" "units_ok (po_quantity po)"
      "available s' = available s + int (units_get (po_quantity po))" "net_orders s' = net_orders s @ [po]"
      "net_reasons s' = net_reasons s"
proof -
  from assms(1) obtain sh where sh: "units_new (nat (int (units_get safety) - available s)) = Inr sh"
    and c: "(case lot_round (lot pp) sh of
       Inl error \<Rightarrow> Inr (s\<lparr>net_reasons := net_reasons s @ [''lot rounding failed: '' @ planning_error_text error]\<rparr>)
     | Inr quantity \<Rightarrow>
         bind_result (make_order pp (period - lead) period quantity sh NetRequirement (period < lead)) (\<lambda>order.
           if length (net_orders s @ [order]) > MAX_ORDERS_PER_PART
           then Inl (Plan_Bound ''planned orders'' MAX_ORDERS_PER_PART)
           else Inr (s\<lparr>available := available s + int (units_get quantity), net_orders := net_orders s @ [order],
                        net_flags := (if period < lead then net_flags s @ [expedite_flag period lead] else net_flags s)\<rparr>)))
       = Inr s'"
    unfolding refill_def Let_def by auto
  have sh': "int (units_get sh) = int (units_get safety) - available s" "units_ok sh" "0 < units_get sh"
    using sh assms(2) by (auto simp: units_new_ok units_ok_def)
  show ?thesis
  proof (cases "lot_round (lot pp) sh")
    case (Inl e)
    with c failed show ?thesis by auto
  next
    case (Inr q)
    with c obtain po where po: "make_order pp (period - lead) period q sh NetRequirement (period < lead) = Inr po"
      and s': "s' = s\<lparr>available := available s + int (units_get q), net_orders := net_orders s @ [po],
         net_flags := (if period < lead then net_flags s @ [expedite_flag period lead] else net_flags s)\<rparr>"
      by (auto split: if_splits)
    have "order_ok pp lead po \<and> receipt_period po = period \<and> po_quantity po = q \<and> shortage_units po = sh"
      using make_order_ok [OF po Inr assms(3) sh'(3,2)] assms(4) by (simp add: part_typed_def)
    moreover have "units_ok q" using lot_round_units_ok [OF Inr sh'(2)] assms(4) by (simp add: part_typed_def)
    ultimately show ?thesis using s' sh'(1) by (intro ordered [of po]) auto
  qed
qed

lemma net_step_inv:
  assumes inv: "net_inv pp lead safety c g n s" and step: "net_step pp lead safety c g s n = Inr s'"
    and lot: "0 < units_get (multiple (lot pp))" and typed: "part_typed pp" and c: "\<forall>u \<in> set c. units_ok u"
  shows "net_inv pp lead safety c g (Suc n) s'"
proof -
  let ?inv = "inventory_after (on_hand pp) c g"
  define a where "a = available s + int (units_get (c ! n)) - int (units_get (g ! n))"
  have n: "n < length c" "n < length g" using step by (auto simp: net_step_def split: if_splits)
  have rec: "\<forall>po \<in> set (net_orders s). receipt_period po \<le> n" using inv by (auto simp: net_inv_def)
  have a: "?inv (net_orders s) n = a"
    using inv unfolding inventory_after_all [OF rec] by (simp add: net_inv_def a_def lessThan_Suc_atMost [symmetric])
  have "units_ok (c ! n)" using c n by simp
  then have bound: "a \<le> int MAX_UNITS * (2 + 2 * int n)"
    using inv by (simp add: net_inv_def a_def units_ok_def algebra_simps)
  show ?thesis
  proof (cases "a < int (units_get safety)")
    case False
    with step n have s': "s' = s\<lparr>available := a\<rparr>" by (auto simp: net_step_def a_def Let_def)
    show ?thesis
      using inv a bound False unfolding s' by (auto simp: net_inv_def a_def less_Suc_eq algebra_simps)
  next
    case True
    let ?s = "s\<lparr>available := a\<rparr>"
    from True step n have r: "refill pp lead safety ?s n = Inr s'" by (auto simp: net_step_def a_def Let_def)
    have lt: "available ?s < int (units_get safety)" using True by simp
    show ?thesis
      using r lt lot typed
    proof (cases rule: refill_cases)
      case (failed error)
      then show ?thesis
        using inv a bound by (auto simp: net_inv_def a_def less_Suc_eq algebra_simps)
    next
      case (ordered po)
      have at: "?inv (net_orders s') t = ?inv (net_orders s) t + (if n \<le> t then int (units_get (po_quantity po)) else 0)" for t
        using ordered by (simp add: inventory_after_snoc)
      have now: "?inv (net_orders s') n = int (units_get safety) + int (units_get (excess_units po))"
      proof -
        have "int (units_get (po_quantity po)) = int (units_get (shortage_units po)) + int (units_get (excess_units po))"
          using ordered(1) by (simp add: order_ok_def)
        then show ?thesis using ordered(3) a by (simp add: at)
      qed
      have qty: "int (units_get (po_quantity po)) \<le> int MAX_UNITS" using ordered by (simp add: units_ok_def)
      have old: "?inv (net_orders s') t = ?inv (net_orders s) t" if "t < n" for t using that by (simp add: at)
      have orders: "\<forall>o' \<in> set (net_orders s'). order_ok pp lead o' \<and> receipt_period o' < Suc n
          \<and> ?inv (net_orders s') (receipt_period o') = int (units_get safety) + int (units_get (excess_units o'))"
        using inv ordered now old by (auto simp: net_inv_def less_Suc_eq)
      have covered: "net_reasons s' = [] \<longrightarrow> (\<forall>t < Suc n. int (units_get safety) \<le> ?inv (net_orders s') t)"
        using inv ordered now old by (auto simp: net_inv_def less_Suc_eq)
      have "sorted_wrt (<) (map receipt_period (net_orders s'))"
        using inv ordered by (auto simp: net_inv_def sorted_wrt_append)
      with orders covered show ?thesis
        using inv ordered bound qty by (auto simp: net_inv_def a_def algebra_simps)
    qed
  qed
qed

lemma net_fold_inv:
  assumes "0 < units_get (multiple (lot pp))" and "part_typed pp" and "\<forall>u \<in> set c. units_ok u"
  shows "try_fold (net_step pp lead safety c g)
      \<lparr>available = int (units_get (on_hand pp)), net_orders = [], net_reasons = [], net_flags = []\<rparr> [0..<n] = Inr s
    \<Longrightarrow> net_inv pp lead safety c g n s"
proof (induction n arbitrary: s)
  case 0
  with assms(2) show ?case by (auto simp: net_inv_def part_typed_def units_ok_def)
next
  case (Suc n)
  then show ?case using net_step_inv [OF _ _ assms] by (auto simp: try_fold_append)
qed

section \<open>From one part to the run\<close>

definition net_start :: "part_plan \<Rightarrow> net_state" where
  "net_start pp = \<lparr>available = int (units_get (on_hand pp)), net_orders = [], net_reasons = [], net_flags = []\<rparr>"

text \<open>The confirmed supply of a part in a bucket.\<close>

definition confirmed_at :: "part_plan \<Rightarrow> nat \<Rightarrow> nat" where
  "confirmed_at pp t = (\<Sum>c \<leftarrow> filter (\<lambda>c. cs_period c = t) (pp_confirmed pp). units_get (cs_quantity c))"

lemma confirmed_fold:
  "try_fold (\<lambda>v line. add_at (cs_period line) (cs_quantity line) v) v cs = Inr v' \<Longrightarrow> vec_ok n v \<Longrightarrow>
     vec_ok n v' \<and> (\<forall>t < n. units_get (v' ! t) =
       units_get (v ! t) + (\<Sum>c \<leftarrow> filter (\<lambda>c. cs_period c = t) cs. units_get (cs_quantity c)))"
proof (induction cs arbitrary: v)
  case (Cons c cs)
  then obtain w where w: "add_at (cs_period c) (cs_quantity c) v = Inr w"
    and rest: "try_fold (\<lambda>v line. add_at (cs_period line) (cs_quantity line) v) w cs = Inr v'" by auto
  have "units_get (w ! t) = units_get (v ! t) + (if cs_period c = t then units_get (cs_quantity c) else 0)" if "t < n" for t
    using w that Cons.prems(2) by (auto simp: add_at_ok nth_list_update vec_ok_def)
  with Cons.IH [OF rest add_at_vec_ok [OF w Cons.prems(2)]] show ?case by auto
qed simp

lemma confirmed_vector_spec:
  assumes "confirmed_vector inp pp = Inr v"
  shows "vec_ok (periods inp) v \<and> (\<forall>t < periods inp. units_get (v ! t) = confirmed_at pp t)"
  using confirmed_fold [OF assms [unfolded confirmed_vector_def], of "periods inp"]
  by (auto simp: confirmed_at_def vec_ok_def units_ok_def)

lemma order_block_netted:
  assumes "order_block inp pp gross confirmed gross_tot lead_periods safety = Inr (Status_Planned, None, orders, fin, [], flags)"
  obtains lead ss s where "lead_periods = Known lead" "safety = Known ss"
    "try_fold (net_step pp lead ss confirmed gross) (net_start pp) [0..<periods inp] = Inr s"
    "net_reasons s = []" "0 \<le> available s" "orders = net_orders s" "nat (available s) mod 2 ^ 64 \<le> MAX_UNITS"
    "fin = Known (Units (nat (available s) mod 2 ^ 64))"
proof -
  from assms obtain lead ss where ls: "lead_periods = Known lead" "safety = Known ss"
    by (cases lead_periods; cases safety) (auto simp: order_block_def split: if_splits)
  from assms obtain s where "try_fold (net_step pp lead ss confirmed gross) (net_start pp) [0..<periods inp] = Inr s"
    and e: "net_end s = Inr (fin, [])" "orders = net_orders s"
    by (auto simp: order_block_def ls net_start_def split: if_splits)
  moreover from e(1) have "net_reasons s = []" "0 \<le> available s" "nat (available s) mod 2 ^ 64 \<le> MAX_UNITS"
    "fin = Known (Units (nat (available s) mod 2 ^ 64))"
    by (auto simp: net_end_def units_new_ok split: if_splits)
  ultimately show ?thesis using ls e(2) by (intro that) auto
qed

lemma plan_part_fields:
  assumes "plan_part inp pp gross = Inr (r, c)"
  shows "confirmed_vector inp pp = Inr (pr_confirmed r)" "pr_gross r = gross" "pr_part r = pp_part pp" "pr_mpn r = mpn pp"
    and "\<exists>gross_tot status reasons flags. units_total gross = Inr gross_tot
       \<and> order_block inp pp gross (pr_confirmed r) gross_tot (lead_time_periods r) (pr_safety_stock r)
           = Inr (status, pr_last_time_buy r, planned_orders r, projected_end r, reasons, flags)
       \<and> (pr_status r = Status_Planned \<longrightarrow> status = Status_Planned \<and> reasons = [])"
proof -
  from assms obtain conf tot lead rs1 fl1 where 1: "confirmed_vector inp pp = Inr conf" "units_total gross = Inr tot"
      "lead_periods_block inp pp = Inr (lead, rs1, fl1)"
    by (auto simp: plan_part_def)
  obtain safety rs2 fl2 where 2: "safety_block inp (term_known (pp_demand_stats pp)) lead = (safety, rs2, fl2)"
    by (cases "safety_block inp (term_known (pp_demand_stats pp)) lead") auto
  from assms 1 2 obtain reorder status ltb orders fin rs3 fl3 fl4 where
    3: "order_block inp pp gross conf tot lead safety = Inr (status, ltb, orders, fin, rs3, fl3)"
    and r: "r = \<lparr>pr_part = pp_part pp, pr_mpn = mpn pp, pr_gross = gross, pr_confirmed = conf,
                 pr_on_hand = on_hand pp, lead_time_periods = lead, pr_safety_stock = safety,
                 reorder_point = reorder, projected_end = fin, planned_orders = orders, pr_last_time_buy = ltb,
                 pr_status = (if status = Status_Planned \<and> rs1 @ rs2 @ rs3 \<noteq> []
                   then Status_Incomplete (rs1 @ rs2 @ rs3) else status),
                 pr_flags = dedup_flags (fl1 @ fl2 @ fl3 @ fl4)\<rparr>"
    by (auto simp: plan_part_def Let_def)
  from 1(1) show "confirmed_vector inp pp = Inr (pr_confirmed r)" by (simp add: r)
  show "pr_gross r = gross" "pr_part r = pp_part pp" "pr_mpn r = mpn pp" by (simp_all add: r)
  from 1(2) 3 show "\<exists>gross_tot status reasons flags. units_total gross = Inr gross_tot
       \<and> order_block inp pp gross (pr_confirmed r) gross_tot (lead_time_periods r) (pr_safety_stock r)
           = Inr (status, pr_last_time_buy r, planned_orders r, projected_end r, reasons, flags)
       \<and> (pr_status r = Status_Planned \<longrightarrow> status = Status_Planned \<and> reasons = [])"
    by (auto simp: r)
qed

lemma netted_part:
  assumes plan: "plan_part inp pp gross = Inr (r, c)" and st: "pr_status r = Status_Planned" "pr_last_time_buy r = None"
    and valid: "part_plan_validate pp = Inr ()" and typed: "part_typed pp" and n: "0 < periods inp" "periods inp \<le> MAX_PERIODS"
  shows "\<exists>lead safety. lead_time_periods r = Known lead \<and> pr_safety_stock r = Known safety
    \<and> (\<forall>t < periods inp. int (units_get safety)
          \<le> inventory_after (on_hand pp) (pr_confirmed r) gross (planned_orders r) t)
    \<and> projected_end r = Known (Units (nat (inventory_after (on_hand pp) (pr_confirmed r) gross (planned_orders r) (periods inp - 1))))
    \<and> sorted_wrt (<) (map receipt_period (planned_orders r))
    \<and> (\<forall>po \<in> set (planned_orders r). order_ok pp lead po \<and> receipt_period po < periods inp
         \<and> inventory_after (on_hand pp) (pr_confirmed r) gross (planned_orders r) (receipt_period po)
             = int (units_get safety) + int (units_get (excess_units po)))"
proof -
  let ?n = "periods inp" and ?inv = "inventory_after (on_hand pp) (pr_confirmed r) gross"
  note conf = plan_part_fields(1) [OF plan]
  from plan_part_fields(5) [OF plan] st obtain gross_tot flags where ob: "order_block inp pp gross (pr_confirmed r) gross_tot (lead_time_periods r) (pr_safety_stock r)
       = Inr (Status_Planned, None, planned_orders r, projected_end r, [], flags)"
    by auto
  from ob obtain lead safety s where ls: "lead_time_periods r = Known lead" "pr_safety_stock r = Known safety"
    and fold: "try_fold (net_step pp lead safety (pr_confirmed r) gross) (net_start pp) [0..<?n] = Inr s"
    and s: "net_reasons s = []" "0 \<le> available s" "planned_orders r = net_orders s"
      "projected_end r = Known (Units (nat (available s) mod 2 ^ 64))"
    by (rule order_block_netted) blast
  from valid have "0 < units_get (multiple (lot pp))" by (auto simp: part_plan_validate_def lot_validate_def)
  moreover have "\<forall>u \<in> set (pr_confirmed r). units_ok u"
    using confirmed_vector_spec [OF conf] by (simp add: vec_ok_def)
  ultimately have inv: "net_inv pp lead safety (pr_confirmed r) gross ?n s"
    using typed fold by (intro net_fold_inv) (auto simp: net_start_def)
  have "available s \<le> int MAX_UNITS * (1 + 2 * int ?n)" using inv unfolding net_inv_def by blast
  also have "\<dots> \<le> int MAX_UNITS * (1 + 2 * int MAX_PERIODS)" using n(2) by (intro mult_left_mono) auto
  finally have "nat (available s) mod 2 ^ 64 = nat (available s)" by (simp add: money_bounds planning_bounds)
  moreover have "?inv (net_orders s) (?n - 1) = available s"
  proof -
    have "\<forall>po \<in> set (net_orders s). receipt_period po \<le> ?n - 1" using inv by (auto simp: net_inv_def)
    moreover have "{..?n - 1} = {..<?n}" using n(1) by auto
    ultimately show ?thesis using inv by (simp add: inventory_after_all net_inv_def)
  qed
  ultimately show ?thesis using ls s inv by (auto simp: net_inv_def)
qed

lemma plan_results:
  assumes "plan inp = Inr out"
  obtains g where "planning_validate inp = Inr ()" "explode_requirements inp = Inr g"
    "\<And>r. r \<in> set (plan_parts out) \<Longrightarrow>
       \<exists>pp c v. pp \<in> set (parts inp) \<and> g (pp_part pp) = Some v \<and> plan_part inp pp v = Inr (r, c)"
proof -
  from assms obtain g rs cs where v: "planning_validate inp = Inr ()" "explode_requirements inp = Inr g"
    and fold: "try_fold (plan_step inp g) ([], []) (parts inp) = Inr (rs, cs)" and out: "plan_parts out = sort_key pr_part rs"
    by (auto simp: plan_def)
  let ?P = "\<lambda>s. \<forall>r \<in> set (fst s). \<exists>pp c v. pp \<in> set (parts inp) \<and> g (pp_part pp) = Some v \<and> plan_part inp pp v = Inr (r, c)"
  have "?P (rs, cs)"
    by (rule try_fold_invariant [OF fold, where P = ?P])
      (fastforce simp: plan_step_def split: option.splits)+
  then show ?thesis using v out by (intro that [of g]) auto
qed

lemma explode_requirements_gross_ok:
  assumes "explode_requirements inp = Inr g"
  shows "gross_ok inp g"
proof -
  from assms obtain h order where h: "try_fold demand_step (zero_gross inp) (demand inp) = Inr h"
    and g: "try_fold (explode_part inp) h order = Inr g" by (auto simp: explode_requirements_def)
  have "gross_ok inp h" using demand_fold_spec [OF zero_gross_ok h] by simp
  with g show ?thesis by (rule try_fold_invariant [where P = "gross_ok inp"]) (rule explode_part_gross_ok)
qed

lemma confirmed_vector_no_panic:
  assumes "\<forall>c \<in> set (pp_confirmed pp). cs_period c < periods inp"
  shows "confirmed_vector inp pp \<noteq> Inl Panic"
  unfolding confirmed_vector_def
  by (rule try_fold_avoids [where P = "\<lambda>v. length v = periods inp"])
    (use assms in \<open>auto simp: add_at_ok add_at_panic\<close>)

lemma net_fold_no_panic:
  assumes "length confirmed = n" and "length gross = n"
  shows "try_fold (net_step pp lead safety confirmed gross) s [0..<n] \<noteq> Inl Panic"
  by (rule try_fold_avoids [where P = "\<lambda>_. True"])
    (use assms in \<open>auto simp: net_step_def Let_def map_err_eq_Inl split: if_splits\<close>)

text \<open>The end of the horizon, and that it is a day of 64 bits.\<close>

definition horizon_end :: "planning_input \<Rightarrow> int" where
  "horizon_end inp = day_number (horizon_start inp) + int (periods inp) * int (days_per_period inp)"

definition calendar_ok :: "planning_input \<Rightarrow> bool" where
  "calendar_ok inp \<longleftrightarrow> 0 < periods inp \<and> 0 < days_per_period inp \<and>
     in_i64 (int (periods inp) * int (days_per_period inp)) \<and> in_i64 (horizon_end inp)"

lemma last_time_buy_required_no_panic:
  "calendar_ok inp \<Longrightarrow> last_time_buy_required inp pp \<noteq> Inl Panic"
  by (auto simp: last_time_buy_required_def checked_i64_def calendar_ok_def horizon_end_def split: option.splits)

lemma blocks_no_panic:
  assumes "calendar_ok inp"
  shows "lead_periods_block inp pp \<noteq> Inl Panic" "shelf_life_block inp pp stats lead orders \<noteq> Inl Panic"
    and "bridge_block inp pp confirmed tot safety \<noteq> Inl Panic" "terminal_block inp pp confirmed tot lead safety \<noteq> Inl Panic"
proof -
  show "lead_periods_block inp pp \<noteq> Inl Panic" "shelf_life_block inp pp stats lead orders \<noteq> Inl Panic"
    using assms by (auto simp: lead_periods_block_def shelf_life_block_def calendar_ok_def map_err_eq_Inl split: option.splits)
  show bridge: "bridge_block inp pp confirmed tot safety \<noteq> Inl Panic"
    using last_time_buy_required_no_panic [OF assms, of pp]
    by (auto simp: bridge_block_def bind_result_eq_Inl map_err_eq_Inl split: option.splits bool.splits)
  show "terminal_block inp pp confirmed tot lead safety \<noteq> Inl Panic"
    using bridge assms
    by (auto simp: terminal_block_def calendar_ok_def bind_result_eq_Inl map_err_eq_Inl Let_def split: option.splits if_splits)
qed

text \<open>What validation gives: fewer buckets than can overflow with the bucket length.\<close>

lemma validated_calendar:
  assumes "validate_fields inp = Inr ()" and "days_per_period inp \<le> u32_max"
    and "in_i64 (day_number (horizon_start inp) + int (periods inp) * int (days_per_period inp))"
  shows "calendar_ok inp"
proof -
  have "periods inp * days_per_period inp \<le> MAX_PERIODS * u32_max"
    using validate_fields_ok(4) [OF assms(1)] assms(2) by (rule mult_le_mono)
  then have "int (periods inp * days_per_period inp) \<le> int (MAX_PERIODS * u32_max)" by (simp only: of_nat_le_iff)
  moreover have "- 9223372036854775808 \<le> int (periods inp) * int (days_per_period inp)" by (rule order_trans [of _ 0]) simp_all
  ultimately have "in_i64 (int (periods inp) * int (days_per_period inp))"
    by (simp add: in_i64_def planning_bounds width_simps)
  with assms validate_fields_ok(1,2) [OF assms(1)] show ?thesis by (simp add: calendar_ok_def horizon_end_def)
qed

lemma plan_part_no_panic:
  assumes "\<forall>c \<in> set (pp_confirmed pp). cs_period c < periods inp" and "length gross = periods inp" and "calendar_ok inp"
  shows "plan_part inp pp gross \<noteq> Inl Panic"
proof
  assume panic: "plan_part inp pp gross = Inl Panic"
  obtain conf where conf: "confirmed_vector inp pp = Inr conf"
    using panic confirmed_vector_no_panic [OF assms(1)] by (cases "confirmed_vector inp pp") (auto simp: plan_part_def)
  then have len: "length conf = periods inp" using confirmed_vector_spec by (simp add: vec_ok_def)
  have "order_block inp pp gross conf tot lead safety \<noteq> Inl Panic" for tot lead safety
    using net_fold_no_panic [OF len assms(2)] blocks_no_panic(4) [OF assms(3)]
    by (auto simp: order_block_def bind_result_eq_Inl map_err_eq_Inl split: option.splits)
  with panic conf blocks_no_panic(1,2) [OF assms(3)] show False
    by (auto simp: plan_part_def bind_result_eq_Inl map_err_eq_Inl Let_def split: prod.splits)
      (metis prod_cases3)
qed

section \<open>Properties of a planning run\<close>

text \<open>
  C11. A planning run keeps the safety stock. For every part of an accepted plan that is planned by
  netting (status planned, no last-time-buy bridge), the lead time and the safety stock are known
  and the projected inventory, that is stock plus confirmed supply minus gross requirements plus
  received orders, is at least the safety stock in every bucket of the horizon; the reported end
  inventory is the projected inventory of the last bucket. The planned orders are received in
  strictly increasing buckets; each is a multiple of the lot and at least the minimum order
  quantity, is split exactly among the suppliers, is released one lead time before its receipt or
  flagged as expedited in bucket zero, and lifts the inventory to the safety stock plus its lot
  excess, so no order is placed without a shortage.
\<close>

theorem netting_keeps_safety_stock:
  assumes "plan inp = Inr out" and "list_all part_typed (parts inp)"
    and "r \<in> set (plan_parts out)" and "pr_status r = Status_Planned" and "pr_last_time_buy r = None"
  shows "\<exists>pp lead safety. pp \<in> set (parts inp) \<and> pr_part r = pp_part pp
    \<and> lead_time_periods r = Known lead \<and> pr_safety_stock r = Known safety
    \<and> (\<forall>t < periods inp. units_get (pr_confirmed r ! t) = confirmed_at pp t)
    \<and> (\<forall>t < periods inp. int (units_get safety)
          \<le> inventory_after (on_hand pp) (pr_confirmed r) (pr_gross r) (planned_orders r) t)
    \<and> projected_end r = Known (Units (nat
          (inventory_after (on_hand pp) (pr_confirmed r) (pr_gross r) (planned_orders r) (periods inp - 1))))
    \<and> sorted_wrt (<) (map receipt_period (planned_orders r))
    \<and> (\<forall>po \<in> set (planned_orders r). order_ok pp lead po \<and> receipt_period po < periods inp
         \<and> inventory_after (on_hand pp) (pr_confirmed r) (pr_gross r) (planned_orders r) (receipt_period po)
             = int (units_get safety) + int (units_get (excess_units po)))"
proof -
  from plan_results [OF assms(1)] assms(3) obtain pp c v where valid: "planning_validate inp = Inr ()"
    and pp: "pp \<in> set (parts inp)" and part: "plan_part inp pp v = Inr (r, c)" by metis
  from valid have fields: "validate_fields inp = Inr ()" by (simp add: planning_validate_def)
  note f = plan_part_fields [OF part]
  have typed: "part_typed pp" using assms(2) pp by (simp add: list_all_iff)
  from netted_part [OF part assms(4,5) validate_fields_ok(6) [OF fields pp] typed validate_fields_ok(1,4) [OF fields]]
    pp f(2,3) confirmed_vector_spec [OF f(1)]
  show ?thesis by blast
qed

text \<open>
  C38. A planning run does not panic as long as its horizon ends on a day of 64 bits: for every
  bucket length of the \<open>u32\<close> of the input, the run returns a plan or a typed refusal. A panic is an
  index outside a vector, an underflow of a counter of the topological sort, a subtraction from or
  division by a bucket length of zero, a subtraction from an empty horizon, or an overflow of the
  horizon end, as in a build with overflow checks. All but the last are ruled out by the validation
  that runs first. The \<open>i128\<close> arithmetic of the exact money kernel is not part of this claim.
\<close>

theorem plan_never_panics:
  assumes "days_per_period inp \<le> u32_max"
    and "in_i64 (day_number (horizon_start inp) + int (periods inp) * int (days_per_period inp))"
  shows "plan inp \<noteq> Inl Panic"
proof (cases "planning_validate inp = Inr ()")
  case False
  have "planning_validate inp \<noteq> Inl Panic"
  proof (cases "validate_fields inp = Inr ()")
    case True
    from topological_order_spec [OF validate_fields_ok(8) [OF True]] True show ?thesis
      by (auto simp: planning_validate_def)
  qed (auto simp: planning_validate_def and_then_def bind_result_eq_Inl map_err_eq_Inl)
  with False show ?thesis by (cases "planning_validate inp") (auto simp: plan_def)
next
  case True
  then have fields: "validate_fields inp = Inr ()" by (simp add: planning_validate_def)
  have calendar: "calendar_ok inp" by (rule validated_calendar [OF fields assms])
  show ?thesis
  proof (cases "explode_requirements inp")
    case (Inl e)
    with explode_requirements_no_panic [OF fields] True show ?thesis by (auto simp: plan_def)
  next
    case (Inr g)
    note g = explode_requirements_gross_ok [OF Inr]
    have "plan_step inp g s pp \<noteq> Inl Panic" if "pp \<in> set (parts inp)" for s pp
    proof (cases "g (pp_part pp)")
      case (Some v)
      with g have "length v = periods inp" by (auto simp: gross_ok_def ran_def vec_ok_def)
      with Some plan_part_no_panic [of pp inp v] validate_fields_ok(7) [OF fields that] calendar show ?thesis
        by (auto simp: plan_step_def bind_result_eq_Inl)
    qed (simp add: plan_step_def)
    then have "try_fold (plan_step inp g) ([], []) (parts inp) \<noteq> Inl Panic"
      by (intro try_fold_avoids [where P = "\<lambda>_. True"]) auto
    with True Inr show ?thesis by (auto simp: plan_def bind_result_eq_Inl map_err_eq_Inl)
  qed
qed

text \<open>
  C13. The explosion of the bill of materials is exact. When validation and the explosion accept an
  input whose quantities and rates are within their bounds, the gross requirement of every part in
  every bucket is its independent demand plus, over all bill lines into it, the parent's gross
  requirement times the quantity per parent divided by the usable share, rounded up; and this is
  the only assignment of requirements with that property.
\<close>

theorem explosion_is_the_solution:
  assumes "planning_validate inp = Inr ()" and "bom_typed inp" and "explode_requirements inp = Inr g"
  shows "solves_requirements inp (gross_at g)
    \<and> (\<forall>H. solves_requirements inp H \<longrightarrow> (\<forall>n \<in> part_ids inp. \<forall>t < periods inp. H n t = gross_at g n t))"
proof -
  from assms(1) have fields: "validate_fields inp = Inr ()" and "acyclic (bom_edges inp)"
    by (auto simp: planning_validate_ok_iff)
  moreover from explosion_solves [OF fields assms(2,3)] have "solves_requirements inp (gross_at g)" by simp
  ultimately show ?thesis using requirements_unique validate_fields_ok(8) [OF fields] by blast
qed

text \<open>
  The topological sort of the bill of materials is right. For an input whose fields validate,
  validation accepts exactly the acyclic bills; a cyclic one is refused as a cycle. An order that
  is returned lists every part once with every parent before its children.
\<close>

theorem bom_order_exact:
  assumes "validate_fields inp = Inr ()"
  shows "planning_validate inp = (if acyclic (bom_edges inp) then Inr () else Inl (Refused BomCycle))
    \<and> (case topological_order inp of
         Inl _ \<Rightarrow> \<not> acyclic (bom_edges inp)
       | Inr order \<Rightarrow> distinct order \<and> set order = part_ids inp
           \<and> (\<forall>i < length order. \<forall>p. (p, order ! i) \<in> bom_edges inp \<longrightarrow> p \<in> set (take i order)))"
  using topological_order_spec [OF validate_fields_ok(8) [OF assms]] assms
  by (auto simp: planning_validate_def parents_first_def)

section \<open>A concrete run\<close>

definition demo_provenance :: provenance where
  "demo_provenance =
     \<lparr>pv_source = TestReport, pv_evidence = \<lparr>ev_id = ''tr'', ev_revision = Revision 1, ev_digest = None\<rparr>,
      captured_on = Day 20000, pv_method = ''report'', conditions = [], pv_falsifier = ''repeat''\<rparr>"

definition demo_part :: "part_id \<Rightarrow> nat \<Rightarrow> day option \<Rightarrow> part_plan" where
  "demo_part p stock last_day =
     \<lparr>pp_part = p, mpn = ''M'', on_hand = Units stock, pp_confirmed = [],
      lead_time_days = term_evidence \<lparr>p10 = 1, p50 = 1, p90 = 1, p99 = 1, sample_size = 5\<rparr> demo_provenance,
      lot = \<lparr>moq = Units 10, multiple = Units 4\<rparr>, shelf_life_days = None, pp_lifecycle = LS_Active,
      last_order_day = last_day, unit_cost = term_unknown MissingEvidence ''none'',
      pp_demand_stats = term_evidence \<lparr>mean_micros = 1000000, sigma_micros = 0\<rparr> demo_provenance,
      suppliers = [\<lparr>share_supplier = 1, share_ppm = 1000000\<rparr>]\<rparr>"

definition demo_input :: "part_plan list \<Rightarrow> planning_input" where
  "demo_input ps =
     \<lparr>pi_currency = Currency ''USD'', periods = 2, days_per_period = 7, periods_per_year = 52, horizon_start = Day 100,
      service_level_ppm = 500000, lead_time_quantile = P50, parts = ps,
      bom = [\<lparr>bl_parent = 3, bl_child = 4, quantity_per = ScaledQuantity 1500000, scrap_rate = Rate 0\<rparr>],
      demand = [\<lparr>dl_part = 3, dl_period = 1, dl_quantity = Units 5\<rparr>]\<rparr>"

lemmas demo_defs = demo_input_def demo_part_def demo_provenance_def

lemma demo_fields:
  "validate_fields (demo_input [demo_part 3 2 None, demo_part 4 n x]) = Inr ()"
  by (simp add: validate_fields_def demo_defs planning_bounds validate_part_def part_plan_validate_def
      supply_validate_text_def basis_bounds term_validate_def term_evidence_def term_known_def term_unknown_def
      avail_unavailable_def unavailable_new_def unavailable_validate_def provenance_validate_def
      evidence_ref_validate_def distribution_validate_def MAX_SAMPLE_SIZE_def lot_validate_def stats_validate_def
      checked_share_total_def share_step_def try_i64_def in_i64_def width_simps validate_bom_line_def
      validate_demand_line_def money_bounds service_level_z_def SERVICE_LEVEL_TABLE_def)

lemma demo_input_sel [simp]:
  "periods (demo_input ps) = 2" "days_per_period (demo_input ps) = 7" "parts (demo_input ps) = ps"
  "periods_per_year (demo_input ps) = 52" "horizon_start (demo_input ps) = Day 100"
  "service_level_ppm (demo_input ps) = 500000" "lead_time_quantile (demo_input ps) = P50"
  "pi_currency (demo_input ps) = Currency ''USD''"
  "demand (demo_input ps) = [\<lparr>dl_part = 3, dl_period = 1, dl_quantity = Units 5\<rparr>]"
  "bom (demo_input ps) = [\<lparr>bl_parent = 3, bl_child = 4, quantity_per = ScaledQuantity 1500000, scrap_rate = Rate 0\<rparr>]"
  by (simp_all add: demo_input_def)

lemma demo_part_sel [simp]:
  "pp_part (demo_part p n x) = p" "mpn (demo_part p n x) = ''M''" "on_hand (demo_part p n x) = Units n"
  "pp_confirmed (demo_part p n x) = []" "lot (demo_part p n x) = \<lparr>moq = Units 10, multiple = Units 4\<rparr>"
  "shelf_life_days (demo_part p n x) = None" "pp_lifecycle (demo_part p n x) = LS_Active"
  "last_order_day (demo_part p n x) = x" 
  "term_known (lead_time_days (demo_part p n x)) = Some \<lparr>p10 = 1, p50 = 1, p90 = 1, p99 = 1, sample_size = 5\<rparr>"
  "term_known (unit_cost (demo_part p n x)) = None"
  "term_known (pp_demand_stats (demo_part p n x)) = Some \<lparr>mean_micros = 1000000, sigma_micros = 0\<rparr>"
  "suppliers (demo_part p n x) = [\<lparr>share_supplier = 1, share_ppm = 1000000\<rparr>]"
  by (simp_all add: demo_part_def term_evidence_def term_unknown_def term_known_def avail_unavailable_def)

abbreviation demo :: "nat \<Rightarrow> day option \<Rightarrow> planning_input" where
  "demo n x \<equiv> demo_input [demo_part 3 2 None, demo_part 4 n x]"

lemma demo_order_of: "topological_order (demo n x) = Inr [3, 4]"
  by (simp add: topological_order_def initial_indegree_def initial_ready_def insort_insert_key_def children_of_def)

lemma demo_validated: "planning_validate (demo n x) = Inr ()"
  by (simp add: planning_validate_def demo_fields demo_order_of)

lemma demo_explosion: "explode_requirements (demo n x) = Inr [3 \<mapsto> [Units 0, Units 5], 4 \<mapsto> [Units 0, Units 8]]"
proof -
  have "replicate 2 (Units 0) = [Units 0, Units 0]" by (simp add: numeral_2_eq_2)
  then show ?thesis
    by (simp add: explode_requirements_def bom_depths_def demo_order_of depth_step_def depth_of_def planning_bounds
        Let_def children_of_def relax_depth_def zero_gross_def demand_step_def add_at_def explode_part_def
        explode_line_def bom_requirement_def units_checked_add_def units_new_def try_u64_def try_i128_def in_i128_def
        mul_div_round_up_def div_round_up_def wrap_i128_def signed_divide_int_def width_simps money_bounds)
qed

lemma demo_lead: "lead_periods_block (demo_input ps) (demo_part p n x) = Inr (Known (Suc 0), [], [])"
  by (simp add: lead_periods_block_def try_u64_def width_simps planning_bounds)

lemma demo_safety:
  "safety_block (demo_input ps) (Some \<lparr>mean_micros = 1000000, sigma_micros = 0\<rparr>) (Known (Suc 0)) = (Known (Units 0), [], [])"
  by (simp add: safety_block_def safety_stock_def service_level_z_def SERVICE_LEVEL_TABLE_def units_new_def money_bounds
      try_i128_def in_i128_def width_simps mul_div_round_up_def div_round_up_def wrap_i128_def require_units_def try_u64_def)

lemma demo_reorder:
  "reorder_block (Some \<lparr>mean_micros = 1000000, sigma_micros = 0\<rparr>) (Known (Suc 0)) (Known (Units 0)) = Inr (Known (Units 1))"
  by (simp add: reorder_block_def units_new_def money_bounds try_i128_def in_i128_def units_checked_add_def
      width_simps require_units_def try_u64_def signed_divide_int_def)

lemma demo_allocation:
  "allocate (Units 12) [\<lparr>share_supplier = 1, share_ppm = 1000000\<rparr>] = Inr [\<lparr>al_supplier = 1, al_units = Units 12\<rparr>]"
  by (simp add: allocate_def checked_share_total_def share_step_def floors_step_def floor_step_def try_i64_def
      try_i128_def in_i64_def in_i128_def try_u64_def units_new_def width_simps money_bounds signed_divide_int_def
      signed_modulo_int_def less_eq_prod_def)

definition demo_order :: "part_id \<Rightarrow> nat \<Rightarrow> planned_order" where
  "demo_order p sh =
     \<lparr>po_part = p, release_period = 0, receipt_period = 1, po_quantity = Units 12, shortage_units = Units sh,
      excess_units = Units (12 - sh), expedite = False, po_reason = NetRequirement,
      po_suppliers = [\<lparr>al_supplier = 1, al_units = Units 12\<rparr>]\<rparr>"

lemma demo_refill:
  assumes "n < k" "k \<le> n + 10"
  shows "refill (demo_part p n x) (Suc 0) (Units 0)
      \<lparr>available = int n - int k, net_orders = [], net_reasons = [], net_flags = []\<rparr> (Suc 0)
    = Inr \<lparr>available = 12 + int n - int k, net_orders = [demo_order p (k - n)], net_reasons = [], net_flags = []\<rparr>"
proof -
  from assms have "nat (int k - int n) = k - n" "k - n \<le> 10" "0 < k - n" by auto
  then show ?thesis
    using demo_allocation
    by (simp add: refill_def lot_round_def round_up_to_multiple_def units_max_def try_u64_def units_new_def width_simps
        money_bounds Let_def make_order_def units_checked_sub_def planning_bounds demo_order_def) linarith
qed

lemma demo_netting:
  assumes "n < k" "k \<le> n + 10"
  shows "order_block (demo_input ps) (demo_part p n None) [Units 0, Units k] [Units 0, Units 0] (Units k)
      (Known (Suc 0)) (Known (Units 0))
    = Inr (Status_Planned, None, [demo_order p (k - n)], Known (Units (12 + n - k)), [], [])"
proof -
  have "nat (12 + int n - int k) = 12 + n - k" using assms by auto
  with assms show ?thesis
    by (simp add: order_block_def is_terminal_part_def lifecycle_terminal_def net_step_def upt_rec demo_refill net_end_def
        units_new_def money_bounds)
qed

definition demo_result ::
    "part_id \<Rightarrow> nat \<Rightarrow> nat \<Rightarrow> last_time_buy option \<Rightarrow> planned_order list \<Rightarrow> units availability \<Rightarrow> part_plan_result" where
  "demo_result p n k ltb orders fin =
     \<lparr>pr_part = p, pr_mpn = ''M'', pr_gross = [Units 0, Units k], pr_confirmed = [Units 0, Units 0], pr_on_hand = Units n,
      lead_time_periods = Known (Suc 0), pr_safety_stock = Known (Units 0), reorder_point = Known (Units 1),
      projected_end = fin, planned_orders = orders, pr_last_time_buy = ltb, pr_status = Status_Planned, pr_flags = []\<rparr>"

lemma demo_confirmed: "confirmed_vector (demo_input ps) (demo_part p n x) = Inr [Units 0, Units 0]"
  by (simp add: confirmed_vector_def numeral_2_eq_2)

lemma demo_total: "k \<le> 100 \<Longrightarrow> units_total [Units 0, Units k] = Inr (Units k)"
  by (simp add: units_total_def units_checked_add_def units_new_def try_u64_def width_simps money_bounds)

lemma demo_plan_part:
  assumes "order_block (demo_input ps) (demo_part p n x) [Units 0, Units k] [Units 0, Units 0] (Units k)
      (Known (Suc 0)) (Known (Units 0)) = Inr (Status_Planned, ltb, orders, fin, [], [])" and "k \<le> 100"
  shows "\<exists>c. plan_part (demo_input ps) (demo_part p n x) [Units 0, Units k] = Inr (demo_result p n k ltb orders fin, c)
    \<and> pc_part c = p \<and> \<not> is_known (annual_spend c)"
proof -
  show ?thesis
    using assms(1) demo_total [OF assms(2)]
    by (simp add: plan_part_def shelf_life_block_def dedup_flags_def demo_result_def classification_for_def
        avail_unavailable_def demo_confirmed demo_lead demo_safety demo_reorder)
qed

lemma demo_plan:
  assumes "order_block (demo n x) (demo_part 4 n x) [Units 0, Units 8] [Units 0, Units 0] (Units 8)
      (Known (Suc 0)) (Known (Units 0)) = Inr (Status_Planned, ltb, orders, fin, [], [])"
  shows "\<exists>out. plan (demo n x) = Inr out
    \<and> plan_parts out = [demo_result 3 2 5 None [demo_order 3 3] (Known (Units 9)), demo_result 4 n 8 ltb orders fin]"
proof -
  have "order_block (demo n x) (demo_part 3 2 None) [Units 0, Units 5] [Units 0, Units 0] (Units 5)
      (Known (Suc 0)) (Known (Units 0)) = Inr (Status_Planned, None, [demo_order 3 3], Known (Units 9), [], [])"
    using demo_netting [of 2 5 _ 3] by simp
  from demo_plan_part [OF this] obtain c3 where
    c3: "plan_part (demo n x) (demo_part 3 2 None) [Units 0, Units 5] =
        Inr (demo_result 3 2 5 None [demo_order 3 3] (Known (Units 9)), c3)" "pc_part c3 = 3" "\<not> is_known (annual_spend c3)"
    by auto
  from demo_plan_part [OF assms] obtain c4 where
    c4: "plan_part (demo n x) (demo_part 4 n x) [Units 0, Units 8] = Inr (demo_result 4 n 8 ltb orders fin, c4)"
      "pc_part c4 = 4" "\<not> is_known (annual_spend c4)"
    by auto
  have "assign_abc [c3, c4] = Inr [c3, c4]"
    using c3(3) c4(3) by (cases "annual_spend c3"; cases "annual_spend c4") (auto simp: assign_abc_def spend_of_def)
  with c3 c4 show ?thesis
    by (simp add: plan_def demo_validated demo_explosion plan_step_def demo_result_def)
qed

theorem netting_keeps_safety_stock_witness:
  "\<exists>out r. plan (demo_input [demo_part 3 2 None, demo_part 4 0 None]) = Inr out \<and> r \<in> set (plan_parts out)
     \<and> pr_part r = 4 \<and> planned_orders r = [demo_order 4 8]
     \<and> 0 \<le> inventory_after (Units 0) (pr_confirmed r) (pr_gross r) (planned_orders r) 1"
proof -
  have ob: "order_block (demo 0 None) (demo_part 4 0 None) [Units 0, Units 8] [Units 0, Units 0] (Units 8)
      (Known (Suc 0)) (Known (Units 0)) = Inr (Status_Planned, None, [demo_order 4 8], Known (Units 4), [], [])"
    using demo_netting [of 0 8 _ 4] by simp
  obtain out where out: "plan (demo 0 None) = Inr out"
    and parts: "plan_parts out =
      [demo_result 3 2 5 None [demo_order 3 3] (Known (Units 9)), demo_result 4 0 8 None [demo_order 4 8] (Known (Units 4))]"
    using demo_plan [OF ob] by auto
  let ?r = "demo_result 4 0 8 None [demo_order 4 8] (Known (Units 4))"
  have "list_all part_typed (parts (demo 0 None))" by (simp add: part_typed_def units_ok_def money_bounds)
  from netting_keeps_safety_stock [OF out this, of ?r] parts
  have "0 \<le> inventory_after (Units 0) (pr_confirmed ?r) (pr_gross ?r) (planned_orders ?r) 1"
    by (auto simp: demo_result_def)
  with out parts show ?thesis by (intro exI [of _ out] exI [of _ ?r]) (auto simp: demo_result_def)
qed

theorem plan_never_panics_witness: "plan (demo_input [demo_part 3 2 None, demo_part 4 0 (Some (Day 105))]) \<noteq> Inl Panic"
  by (rule plan_never_panics) (simp_all add: in_i64_def width_simps)

theorem explosion_is_the_solution_witness:
  "\<exists>g. explode_requirements (demo_input [demo_part 3 2 None, demo_part 4 0 None]) = Inr g \<and> gross_at g 4 1 = 8
     \<and> solves_requirements (demo_input [demo_part 3 2 None, demo_part 4 0 None]) (gross_at g)"
proof -
  have "bom_typed (demo 0 None)" by (simp add: bom_typed_def quantity_ok_def rate_ok_def money_bounds)
  from explosion_is_the_solution [OF demo_validated this demo_explosion] demo_explosion show ?thesis
    by (intro exI) (auto simp: gross_at_def)
qed

theorem bom_order_exact_witness:
  "topological_order (demo_input [demo_part 3 2 None, demo_part 4 0 None]) = Inr [3, 4]
     \<and> part_ids (demo_input [demo_part 3 2 None, demo_part 4 0 None]) = {3, 4}"
  using bom_order_exact [OF demo_fields, of 0 None] demo_order_of [of 0 None] by auto

section \<open>Where the plan falls short\<close>

text \<open>
  A part with a last order day after the horizon is planned as if it had no demand. If its
  lifecycle is neither terminal nor last-time-buy and the notice's last order day is later than the
  end of the horizon, an accepted plan of the part has no order and reports the current stock as
  its end inventory, whatever its gross requirements are.
\<close>

theorem late_last_order_day_plans_nothing:
  assumes "plan_part inp pp gross = Inr (r, c)" and "last_order_day pp = Some d"
    and "\<not> lifecycle_terminal (pp_lifecycle pp)" and "pp_lifecycle pp \<noteq> LS_LastTimeBuy"
    and "day_number (horizon_start inp) + int (periods inp) * int (days_per_period inp) < day_number d"
  shows "planned_orders r = [] \<and> projected_end r = Known (on_hand pp)"
proof -
  have "is_terminal_part pp" using assms(2) by (simp add: is_terminal_part_def)
  with plan_part_fields(5) [OF assms(1)] obtain tot ltb reasons where
    block: "terminal_block inp pp (pr_confirmed r) tot (lead_time_periods r) (pr_safety_stock r)
      = Inr (ltb, planned_orders r, projected_end r, reasons)"
    by (auto simp: order_block_def)
  then obtain b where "bridge_block inp pp (pr_confirmed r) tot (pr_safety_stock r) = Inr b" by (auto simp: terminal_block_def)
  then obtain required where "last_time_buy_required inp pp = Inr required" by (auto simp: bridge_block_def)
  with assms(2-5) have "last_time_buy_required inp pp = Inr False"
    by (auto simp: last_time_buy_required_def checked_i64_def split: if_splits)
  with block show ?thesis by (auto simp: terminal_block_def bridge_block_def Let_def)
qed

theorem late_last_order_day_plans_nothing_witness:
  "\<exists>out r. plan (demo_input [demo_part 3 2 None, demo_part 4 0 (Some (Day 1000))]) = Inr out \<and> r \<in> set (plan_parts out)
     \<and> pr_part r = 4 \<and> pr_gross r = [Units 0, Units 8] \<and> planned_orders r = [] \<and> pr_status r = Status_Planned
     \<and> projected_end r = Known (Units 0)"
proof -
  let ?x = "Some (Day 1000)"
  obtain ltb orders fin where ob: "order_block (demo 0 ?x) (demo_part 4 0 ?x) [Units 0, Units 8] [Units 0, Units 0] (Units 8)
      (Known (Suc 0)) (Known (Units 0)) = Inr (Status_Planned, Some ltb, orders, fin, [], [])"
    by (simp add: order_block_def is_terminal_part_def terminal_block_def bridge_block_def last_time_buy_required_def
        lifecycle_terminal_def checked_i64_def in_i64_def width_simps Let_def)
  let ?r = "demo_result 4 0 8 (Some ltb) orders fin"
  obtain out where out: "plan (demo 0 ?x) = Inr out"
    "plan_parts out = [demo_result 3 2 5 None [demo_order 3 3] (Known (Units 9)), ?r]"
    using demo_plan [OF ob] by auto
  obtain c where c: "plan_part (demo 0 ?x) (demo_part 4 0 ?x) [Units 0, Units 8] = Inr (?r, c)"
    using demo_plan_part [OF ob] by auto
  from late_last_order_day_plans_nothing [OF c, of "Day 1000"]
  have "planned_orders ?r = [] \<and> projected_end ?r = Known (Units 0)"
    by (simp add: lifecycle_terminal_def in_i64_def width_simps)
  with out show ?thesis by (intro exI [of _ out] exI [of _ ?r]) (auto simp: demo_result_def)
qed

text \<open>
  A horizon that ends beyond the last day of 64 bits is not refused by validation: the question
  whether a part with a last order day needs a last-time buy then panics.
\<close>

theorem horizon_overflow_panics:
  assumes "last_order_day pp = Some d" and "\<not> lifecycle_terminal (pp_lifecycle pp)" and "pp_lifecycle pp \<noteq> LS_LastTimeBuy"
    and "\<not> in_i64 (day_number (horizon_start inp) + int (periods inp) * int (days_per_period inp))"
  shows "last_time_buy_required inp pp = Inl Panic"
  using assms by (simp add: last_time_buy_required_def checked_i64_def)

text \<open>
  A terminal part with too much stock makes the whole run fail. Whenever a last-time-buy
  bridge is required and the safety stock is known, an accepted plan of the part has at most as
  much stock and confirmed supply as the horizon's gross requirement plus the safety stock: with
  more, the unsigned subtraction of the bridge is refused as an overflow, and with it the plan of
  every other part.
\<close>

theorem terminal_part_never_overstocked:
  assumes "plan_part inp pp gross = Inr (r, c)" and "last_time_buy_required inp pp = Inr True" and "pr_safety_stock r = Known ss"
  shows "units_get (on_hand pp) + (\<Sum>u \<leftarrow> pr_confirmed r. units_get u) \<le> (\<Sum>u \<leftarrow> gross. units_get u) + units_get ss"
proof -
  have sum: "exact_err (try_fold units_checked_add a v) = Inr t \<Longrightarrow> units_get t = units_get a + (\<Sum>u \<leftarrow> v. units_get u)" for a v t
    by (induction v arbitrary: a) (auto simp: units_checked_add_ok)
  from assms(2) have "is_terminal_part pp"
    by (auto simp: last_time_buy_required_def is_terminal_part_def split: option.splits if_splits)
  with plan_part_fields(5) [OF assms(1)] obtain tot where tot: "units_total gross = Inr tot"
    and "\<exists>b. bridge_block inp pp (pr_confirmed r) tot (pr_safety_stock r) = Inr b"
    by (fastforce simp: order_block_def terminal_block_def)
  then obtain conf a b net where "units_total (pr_confirmed r) = Inr conf" "units_checked_add tot ss = Inr a"
    "units_checked_sub a (on_hand pp) = Inr b" "units_checked_sub b conf = Inr net"
    using assms(2,3) by (auto simp: bridge_block_def)
  with tot sum [of "Units 0" gross tot] sum [of "Units 0" "pr_confirmed r" conf] show ?thesis
    by (auto simp: units_total_def units_checked_add_ok units_checked_sub_def units_new_ok split: if_splits)
qed

theorem terminal_part_never_overstocked_witness:
  "plan_part (demo_input []) (demo_part 4 9 (Some (Day 105))) [Units 0, Units 8] = Inl (Refused (Plan_Exact Exact_Overflow))
   \<and> (\<exists>r c. plan_part (demo_input []) (demo_part 4 8 (Some (Day 105))) [Units 0, Units 8] = Inr (r, c)
        \<and> units_get (on_hand (demo_part 4 8 (Some (Day 105)))) + (\<Sum>u \<leftarrow> pr_confirmed r. units_get u) \<le> 8)"
proof
  let ?x = "Some (Day 105)" and ?i = "demo_input []"
  note demo_eval = order_block_def is_terminal_part_def terminal_block_def bridge_block_def last_time_buy_required_def
    lifecycle_terminal_def checked_i64_def in_i64_def width_simps Let_def demo_total units_checked_add_def units_checked_sub_def
    units_new_def try_u64_def money_bounds day_before_def
  show "plan_part ?i (demo_part 4 9 ?x) [Units 0, Units 8] = Inl (Refused (Plan_Exact Exact_Overflow))"
    by (simp add: plan_part_def demo_confirmed demo_lead demo_safety demo_reorder demo_eval)
  have "\<exists>ltb orders fin. order_block ?i (demo_part 4 8 ?x) [Units 0, Units 8] [Units 0, Units 0] (Units 8)
      (Known (Suc 0)) (Known (Units 0)) = Inr (Status_Planned, Some ltb, orders, fin, [], [])"
  proof -
    have zero: "units_total [Units 0, Units 0] = Inr (Units 0)" using demo_total [of 0] by simp
    have "lot_round (lot (demo_part 4 8 ?x)) (Units 0) = Inr (Units 12)"
      by (simp add: lot_round_def round_up_to_multiple_def units_max_def units_new_def try_u64_def width_simps money_bounds)
    then have bridge: "bridge_block ?i (demo_part 4 8 ?x) [Units 0, Units 0] (Units 8) (Known (Units 0)) = Inr (Known (Units 12), [])"
      using zero by (simp add: bridge_block_def last_time_buy_required_def lifecycle_terminal_def checked_i64_def in_i64_def width_simps
          units_checked_add_def units_checked_sub_def units_new_def try_u64_def money_bounds day_before_def)
    have "\<exists>po. make_order (demo_part 4 8 ?x) 0 (Suc 0) (Units 12) (Units 12) Reason_LastTimeBuy False = Inr po"
      using demo_allocation by (simp add: make_order_def)
    then obtain po where "make_order (demo_part 4 8 ?x) 0 (Suc 0) (Units 12) (Units 12) Reason_LastTimeBuy False = Inr po" ..
    then show ?thesis
      using zero by (simp add: order_block_def is_terminal_part_def terminal_block_def bridge units_checked_add_def
          units_checked_sub_def units_new_def try_u64_def money_bounds width_simps)
  qed
  then obtain ltb orders fin where "order_block ?i (demo_part 4 8 ?x) [Units 0, Units 8] [Units 0, Units 0] (Units 8)
      (Known (Suc 0)) (Known (Units 0)) = Inr (Status_Planned, Some ltb, orders, fin, [], [])" by blast
  from demo_plan_part [OF this] obtain r c where r: "plan_part ?i (demo_part 4 8 ?x) [Units 0, Units 8] = Inr (r, c)"
    "r = demo_result 4 8 8 (Some ltb) orders fin" by auto
  then have "pr_safety_stock r = Known (Units 0)" by (simp add: demo_result_def)
  have "last_time_buy_required ?i (demo_part 4 8 ?x) = Inr True" by (simp add: demo_eval)
  from terminal_part_never_overstocked [OF r(1) this \<open>pr_safety_stock r = Known (Units 0)\<close>] r(1)
  show "\<exists>r c. plan_part ?i (demo_part 4 8 ?x) [Units 0, Units 8] = Inr (r, c)
        \<and> units_get (on_hand (demo_part 4 8 ?x)) + (\<Sum>u \<leftarrow> pr_confirmed r. units_get u) \<le> 8" by auto
qed

end
