(* ===== verification/Session_Machines.thy ===== *)
theory Session_Machines
  imports Faktor_Interfaces
begin

text \<open>
  The explicit state machines of a session (\<open>crates/core/src/state.rs\<close>): the per-turn machine
  \<open>AgentState\<close> with its guard \<open>StateMachine\<close>, the lifetime machine \<open>SessionLifecycle\<close>, the task
  machine \<open>TaskState\<close> with the named edges \<open>TaskTransition\<close>, and the error kinds
  (\<open>crates/core/src/error.rs\<close>) a refused step reports. The theorems say which states can be
  reached, which are final, and that the two descriptions of the task machine agree.
\<close>

section \<open>The per-turn agent machine\<close>

datatype agent_state =
    Agent_Idle | Agent_Preparing | Agent_BuildingContext | Agent_WaitingForModel
  | Agent_Streaming | Agent_ToolRequested | Agent_WaitingForPermission | Agent_ExecutingTool
  | Agent_Validating | Agent_UpdatingMemory | Agent_ReadyForNextTurn | Agent_Completed
  | Agent_Cancelled | Agent_FailedRecoverable | Agent_FailedPermanent | Agent_NeedsUserInput
  | Agent_Suspended

fun agent_as_tag :: "agent_state \<Rightarrow> string" where
  "agent_as_tag Agent_Idle = ''idle''"
| "agent_as_tag Agent_Preparing = ''preparing''"
| "agent_as_tag Agent_BuildingContext = ''building_context''"
| "agent_as_tag Agent_WaitingForModel = ''waiting_for_model''"
| "agent_as_tag Agent_Streaming = ''streaming''"
| "agent_as_tag Agent_ToolRequested = ''tool_requested''"
| "agent_as_tag Agent_WaitingForPermission = ''waiting_for_permission''"
| "agent_as_tag Agent_ExecutingTool = ''executing_tool''"
| "agent_as_tag Agent_Validating = ''validating''"
| "agent_as_tag Agent_UpdatingMemory = ''updating_memory''"
| "agent_as_tag Agent_ReadyForNextTurn = ''ready_for_next_turn''"
| "agent_as_tag Agent_Completed = ''completed''"
| "agent_as_tag Agent_Cancelled = ''cancelled''"
| "agent_as_tag Agent_FailedRecoverable = ''failed_recoverable''"
| "agent_as_tag Agent_FailedPermanent = ''failed_permanent''"
| "agent_as_tag Agent_NeedsUserInput = ''needs_user_input''"
| "agent_as_tag Agent_Suspended = ''suspended''"

fun agent_allowed_transitions :: "agent_state \<Rightarrow> agent_state list" where
  "agent_allowed_transitions Agent_Idle =
     [Agent_Preparing, Agent_Suspended, Agent_Completed, Agent_Cancelled]"
| "agent_allowed_transitions Agent_Preparing =
     [Agent_BuildingContext, Agent_FailedRecoverable, Agent_Cancelled, Agent_Suspended]"
| "agent_allowed_transitions Agent_BuildingContext =
     [Agent_WaitingForModel, Agent_FailedRecoverable, Agent_Cancelled, Agent_Suspended]"
| "agent_allowed_transitions Agent_WaitingForModel =
     [Agent_Streaming, Agent_FailedRecoverable, Agent_Cancelled, Agent_Suspended,
      Agent_NeedsUserInput]"
| "agent_allowed_transitions Agent_Streaming =
     [Agent_ToolRequested, Agent_Validating, Agent_WaitingForModel, Agent_FailedRecoverable,
      Agent_Cancelled, Agent_Suspended]"
| "agent_allowed_transitions Agent_ToolRequested =
     [Agent_WaitingForPermission, Agent_ExecutingTool, Agent_Validating, Agent_Cancelled,
      Agent_Suspended]"
| "agent_allowed_transitions Agent_WaitingForPermission =
     [Agent_ExecutingTool, Agent_ReadyForNextTurn, Agent_Cancelled, Agent_Suspended,
      Agent_NeedsUserInput]"
| "agent_allowed_transitions Agent_ExecutingTool =
     [Agent_Validating, Agent_ToolRequested, Agent_FailedRecoverable, Agent_Cancelled,
      Agent_Suspended]"
| "agent_allowed_transitions Agent_Validating =
     [Agent_UpdatingMemory, Agent_ToolRequested, Agent_ExecutingTool, Agent_FailedRecoverable,
      Agent_Completed, Agent_Cancelled, Agent_Suspended]"
| "agent_allowed_transitions Agent_UpdatingMemory =
     [Agent_ReadyForNextTurn, Agent_WaitingForModel, Agent_Completed, Agent_FailedRecoverable,
      Agent_Cancelled, Agent_Suspended]"
| "agent_allowed_transitions Agent_ReadyForNextTurn =
     [Agent_Preparing, Agent_Completed, Agent_Cancelled, Agent_Suspended, Agent_NeedsUserInput]"
| "agent_allowed_transitions Agent_Completed = []"
| "agent_allowed_transitions Agent_Cancelled =
     [Agent_Preparing, Agent_ReadyForNextTurn, Agent_Suspended]"
| "agent_allowed_transitions Agent_FailedPermanent = []"
| "agent_allowed_transitions Agent_FailedRecoverable =
     [Agent_Preparing, Agent_Idle, Agent_Cancelled, Agent_Suspended, Agent_NeedsUserInput]"
| "agent_allowed_transitions Agent_NeedsUserInput =
     [Agent_ReadyForNextTurn, Agent_Preparing, Agent_Cancelled, Agent_Suspended]"
| "agent_allowed_transitions Agent_Suspended =
     [Agent_Idle, Agent_Preparing, Agent_Cancelled, Agent_Completed]"

definition agent_is_terminal :: "agent_state \<Rightarrow> bool" where
  "agent_is_terminal s \<longleftrightarrow> s = Agent_Completed \<or> s = Agent_FailedPermanent"

definition agent_is_active :: "agent_state \<Rightarrow> bool" where
  "agent_is_active s \<longleftrightarrow> \<not> agent_is_terminal s \<and> s \<noteq> Agent_Idle \<and> s \<noteq> Agent_Suspended"

section \<open>Typed errors\<close>

datatype error_kind =
    NotFound | Conflict | InvalidState agent_state agent_state | Permission | Timeout
  | Cancelled_Err | Store_Err | Network_Err | Provider_Err string bool | Malformed | Oversized
  | RateLimited_Err | GoalUnavailableAfterRedaction int | Deadlock | Internal

fun error_is_retryable :: "error_kind \<Rightarrow> bool" where
  "error_is_retryable Network_Err = True"
| "error_is_retryable Timeout = True"
| "error_is_retryable RateLimited_Err = True"
| "error_is_retryable (Provider_Err code retryable) = retryable"
| "error_is_retryable Store_Err = True"
| "error_is_retryable Deadlock = True"
| "error_is_retryable _ = False"

text \<open>\<open>StateMachine(pub AgentState)\<close>: the new state, or the refusal and no change.\<close>

definition sm_transition :: "agent_state \<Rightarrow> agent_state \<Rightarrow> error_kind + agent_state" where
  "sm_transition self to =
     (if self = to then Inr self
      else if to \<notin> set (agent_allowed_transitions self) then Inl (InvalidState self to)
      else Inr to)"

definition sm_force :: "agent_state \<Rightarrow> agent_state \<Rightarrow> agent_state" where
  "sm_force self to = to"

text \<open>Driving the machine through a sequence of requested states stops at the first refusal.\<close>

fun sm_run :: "agent_state \<Rightarrow> agent_state list \<Rightarrow> error_kind + agent_state" where
  "sm_run s [] = Inr s"
| "sm_run s (t # ts) = bind_result (sm_transition s t) (\<lambda>s'. sm_run s' ts)"

section \<open>The session lifetime machine\<close>

datatype session_lifecycle =
  Life_Open | Life_Suspended | Life_Closing | Life_Closed | Life_FailedPermanent

fun lifecycle_allowed_transitions :: "session_lifecycle \<Rightarrow> session_lifecycle list" where
  "lifecycle_allowed_transitions Life_Open =
     [Life_Suspended, Life_Closing, Life_Closed, Life_FailedPermanent]"
| "lifecycle_allowed_transitions Life_Suspended =
     [Life_Open, Life_Closing, Life_Closed, Life_FailedPermanent]"
| "lifecycle_allowed_transitions Life_Closing = [Life_Closed, Life_FailedPermanent, Life_Open]"
| "lifecycle_allowed_transitions Life_Closed = []"
| "lifecycle_allowed_transitions Life_FailedPermanent = []"

definition lifecycle_can_accept_prompts :: "session_lifecycle \<Rightarrow> bool" where
  "lifecycle_can_accept_prompts s \<longleftrightarrow> s = Life_Open"

definition lifecycle_is_terminal :: "session_lifecycle \<Rightarrow> bool" where
  "lifecycle_is_terminal s \<longleftrightarrow> s = Life_Closed \<or> s = Life_FailedPermanent"

fun lifecycle_label :: "session_lifecycle \<Rightarrow> string" where
  "lifecycle_label Life_Open = ''open''"
| "lifecycle_label Life_Suspended = ''suspended''"
| "lifecycle_label Life_Closing = ''closing''"
| "lifecycle_label Life_Closed = ''closed''"
| "lifecycle_label Life_FailedPermanent = ''failed''"

section \<open>The task machine\<close>

datatype task_state =
    Task_Pending | Task_Planning | Task_Running | Task_Waiting | Task_Blocked
  | Task_NeedsVerification | Task_Verifying | Task_VerifiedComplete | Task_Failed
  | Task_Cancelled

fun task_allowed_transitions :: "task_state \<Rightarrow> task_state list" where
  "task_allowed_transitions Task_Pending = [Task_Planning, Task_Running, Task_Cancelled]"
| "task_allowed_transitions Task_Planning = [Task_Running, Task_Cancelled]"
| "task_allowed_transitions Task_Running =
     [Task_Waiting, Task_Blocked, Task_NeedsVerification, Task_Failed, Task_Cancelled]"
| "task_allowed_transitions Task_Waiting = [Task_Running, Task_Blocked, Task_Cancelled]"
| "task_allowed_transitions Task_Blocked = [Task_Running, Task_Failed, Task_Cancelled]"
| "task_allowed_transitions Task_NeedsVerification = [Task_Verifying, Task_Cancelled]"
| "task_allowed_transitions Task_Verifying =
     [Task_Failed, Task_NeedsVerification, Task_Cancelled]"
| "task_allowed_transitions Task_VerifiedComplete = []"
| "task_allowed_transitions Task_Failed = []"
| "task_allowed_transitions Task_Cancelled = []"

definition transition_legal :: "task_state \<Rightarrow> task_state \<Rightarrow> bool" where
  "transition_legal from to \<longleftrightarrow> from = to \<or> to \<in> set (task_allowed_transitions from)"

definition task_is_terminal :: "task_state \<Rightarrow> bool" where
  "task_is_terminal s \<longleftrightarrow>
     s = Task_VerifiedComplete \<or> s = Task_Failed \<or> s = Task_Cancelled"

definition is_completion_relevant :: "task_state \<Rightarrow> bool" where
  "is_completion_relevant s \<longleftrightarrow>
     s = Task_NeedsVerification \<or> s = Task_Verifying \<or> s = Task_VerifiedComplete"

definition is_creatable :: "task_state \<Rightarrow> bool" where
  "is_creatable s \<longleftrightarrow> s = Task_Pending \<or> s = Task_Planning \<or> s = Task_Running"

fun task_label :: "task_state \<Rightarrow> string" where
  "task_label Task_Pending = ''pending''"
| "task_label Task_Planning = ''planning''"
| "task_label Task_Running = ''running''"
| "task_label Task_Waiting = ''waiting''"
| "task_label Task_Blocked = ''blocked''"
| "task_label Task_NeedsVerification = ''needs_verification''"
| "task_label Task_Verifying = ''verifying''"
| "task_label Task_VerifiedComplete = ''verified_complete''"
| "task_label Task_Failed = ''failed''"
| "task_label Task_Cancelled = ''cancelled''"

datatype task_transition =
    StartPlanning | StartRunning | PlanComplete | Wait | BlockFromRunning
  | RequestVerification | FailFromRunning | ResumeFromWaiting | BlockFromWaiting | Unblock
  | FailFromBlocked | StartVerification | Reverify | FailFromVerifying | Cancel

fun to_state :: "task_transition \<Rightarrow> task_state" where
  "to_state StartPlanning = Task_Planning"
| "to_state StartRunning = Task_Running"
| "to_state PlanComplete = Task_Running"
| "to_state Wait = Task_Waiting"
| "to_state BlockFromRunning = Task_Blocked"
| "to_state BlockFromWaiting = Task_Blocked"
| "to_state RequestVerification = Task_NeedsVerification"
| "to_state Reverify = Task_NeedsVerification"
| "to_state ResumeFromWaiting = Task_Running"
| "to_state Unblock = Task_Running"
| "to_state StartVerification = Task_Verifying"
| "to_state FailFromRunning = Task_Failed"
| "to_state FailFromBlocked = Task_Failed"
| "to_state FailFromVerifying = Task_Failed"
| "to_state Cancel = Task_Cancelled"

fun legal_from :: "task_transition \<Rightarrow> task_state \<Rightarrow> bool" where
  "legal_from Cancel from = (\<not> task_is_terminal from)"
| "legal_from StartPlanning from = (from = Task_Pending)"
| "legal_from StartRunning from = (from = Task_Pending)"
| "legal_from PlanComplete from = (from = Task_Planning)"
| "legal_from Wait from = (from = Task_Running)"
| "legal_from BlockFromRunning from = (from = Task_Running)"
| "legal_from RequestVerification from = (from = Task_Running)"
| "legal_from FailFromRunning from = (from = Task_Running)"
| "legal_from ResumeFromWaiting from = (from = Task_Waiting)"
| "legal_from BlockFromWaiting from = (from = Task_Waiting)"
| "legal_from Unblock from = (from = Task_Blocked)"
| "legal_from FailFromBlocked from = (from = Task_Blocked)"
| "legal_from StartVerification from = (from = Task_NeedsVerification)"
| "legal_from Reverify from = (from = Task_Verifying)"
| "legal_from FailFromVerifying from = (from = Task_Verifying)"

definition task_transition_ALL :: "task_transition list" where
  "task_transition_ALL =
     [StartPlanning, StartRunning, PlanComplete, Wait, BlockFromRunning, RequestVerification,
      FailFromRunning, ResumeFromWaiting, BlockFromWaiting, Unblock, FailFromBlocked,
      StartVerification, Reverify, FailFromVerifying, Cancel]"

lemma task_transition_ALL_complete: "t \<in> set task_transition_ALL"
  by (cases t) (simp_all add: task_transition_ALL_def)

section \<open>The machines implement the edge-table contract\<close>

definition agent_legal :: "agent_state \<Rightarrow> agent_state \<Rightarrow> bool" where
  "agent_legal s t \<longleftrightarrow> is_ok (sm_transition s t)"

definition lifecycle_legal :: "session_lifecycle \<Rightarrow> session_lifecycle \<Rightarrow> bool" where
  "lifecycle_legal s t \<longleftrightarrow> s = t \<or> t \<in> set (lifecycle_allowed_transitions s)"

interpretation agent: edge_machine agent_allowed_transitions agent_legal agent_is_terminal
proof unfold_locales
  fix s t
  show "agent_legal s t \<longleftrightarrow> s = t \<or> t \<in> set (agent_allowed_transitions s)"
    by (auto simp: agent_legal_def sm_transition_def)
  show "agent_is_terminal s \<longleftrightarrow> agent_allowed_transitions s = []"
    by (cases s) (simp_all add: agent_is_terminal_def)
qed

interpretation lifecycle: edge_machine lifecycle_allowed_transitions lifecycle_legal lifecycle_is_terminal
proof unfold_locales
  fix s t
  show "lifecycle_legal s t \<longleftrightarrow> s = t \<or> t \<in> set (lifecycle_allowed_transitions s)"
    by (simp add: lifecycle_legal_def)
  show "lifecycle_is_terminal s \<longleftrightarrow> lifecycle_allowed_transitions s = []"
    by (cases s) (simp_all add: lifecycle_is_terminal_def)
qed

interpretation task: edge_machine task_allowed_transitions transition_legal task_is_terminal
proof unfold_locales
  fix s t
  show "transition_legal s t \<longleftrightarrow> s = t \<or> t \<in> set (task_allowed_transitions s)"
    by (simp add: transition_legal_def)
  show "task_is_terminal s \<longleftrightarrow> task_allowed_transitions s = []"
    by (cases s) (simp_all add: task_is_terminal_def)
qed

lemma sm_transition_ok: "sm_transition s t = Inr u \<longleftrightarrow> u = t \<and> agent_legal s t"
  by (auto simp: sm_transition_def agent_legal_def)

lemma sm_run_reaches: "sm_run s ts = Inr u \<Longrightarrow> agent_legal\<^sup>*\<^sup>* s u"
proof (induction ts arbitrary: s)
  case (Cons t ts)
  then show ?case
    by (auto simp: sm_transition_ok intro: converse_rtranclp_into_rtranclp)
qed simp

lemma reaches_sm_run:
  assumes "agent_legal\<^sup>*\<^sup>* s u"
  shows "\<exists>ts. sm_run s ts = Inr u"
  using assms
proof (induction rule: converse_rtranclp_induct)
  case base
  then show ?case by (metis sm_run.simps(1))
next
  case (step s t)
  then obtain ts where "sm_run t ts = Inr u" by blast
  with step.hyps(1) have "sm_run s (t # ts) = Inr u"
    by (auto simp: sm_transition_ok)
  then show ?case by blast
qed

lemma agent_no_edge_to_failed: "Agent_FailedPermanent \<notin> set (agent_allowed_transitions s)"
  by (cases s) simp_all

lemma task_no_edge_to_complete: "Task_VerifiedComplete \<notin> set (task_allowed_transitions s)"
  by (cases s) simp_all

lemma lifecycle_run_from_closed:
  "lifecycle_legal\<^sup>*\<^sup>* Life_Closed t \<Longrightarrow> t = Life_Closed"
  by (rule lifecycle.terminal_absorbing) (simp_all add: lifecycle_is_terminal_def)

lemma agent_nonterminal_edge:
  "\<not> agent_is_terminal s \<Longrightarrow> s \<noteq> Agent_Suspended \<Longrightarrow> Agent_Suspended \<in> set (agent_allowed_transitions s)"
  by (cases s) (simp_all add: agent_is_terminal_def)

lemma agent_completed_reachable:
  assumes "\<not> agent_is_terminal s"
  shows "agent_legal\<^sup>*\<^sup>* s Agent_Completed"
proof -
  have "agent_legal\<^sup>*\<^sup>* s Agent_Suspended"
    using assms agent_nonterminal_edge agent.edge_reach by (cases "s = Agent_Suspended") auto
  then show ?thesis by (rule agent.reach_edge) simp
qed

section \<open>What the machines guarantee\<close>

text \<open>
  No sequence of generic task transitions completes a task: along every run of legal
  transitions from a task that is not verified complete, it does not become so. Completion is left to
  the verified path.
\<close>

theorem task_completion_not_generic:
  assumes "transition_legal\<^sup>*\<^sup>* s t" and "s \<noteq> Task_VerifiedComplete"
  shows "t \<noteq> Task_VerifiedComplete"
  using task.no_incoming_unreachable [of s t] task_no_edge_to_complete assms by metis

theorem task_completion_not_generic_witness:
  "transition_legal\<^sup>*\<^sup>* Task_NeedsVerification Task_Verifying \<and> Task_Verifying \<noteq> Task_VerifiedComplete"
proof -
  have "transition_legal\<^sup>*\<^sup>* Task_NeedsVerification Task_Verifying" by (rule task.edge_reach) simp
  from this task_completion_not_generic [OF this] show ?thesis by simp
qed

text \<open>
  The typed task transitions are exactly the edges of the transition table: some typed
  transition is legal from a state and leads to another state if and only if the table lists that
  edge. Neither the typed transitions nor the table has an edge the other lacks.
\<close>

theorem typed_transitions_exact:
  "(\<exists>t \<in> set task_transition_ALL. legal_from t from \<and> to_state t = to) \<longleftrightarrow> to \<in> set (task_allowed_transitions from)"
proof
  assume "\<exists>t \<in> set task_transition_ALL. legal_from t from \<and> to_state t = to"
  then obtain t where "legal_from t from" "to_state t = to" by blast
  then show "to \<in> set (task_allowed_transitions from)"
    by (cases t; cases "from") (auto simp: task_is_terminal_def)
next
  assume "to \<in> set (task_allowed_transitions from)"
  then show "\<exists>t \<in> set task_transition_ALL. legal_from t from \<and> to_state t = to"
    by (cases "from") (auto simp: task_transition_ALL_def task_is_terminal_def)
qed

text \<open>
  Driving the session state machine is sound: a run that succeeds from a terminal state has not
  moved, no run enters the permanent-failure state, and from every state that is not terminal some
  run of transitions completes the session.
\<close>

theorem session_machine_runs:
  "(sm_run s ts = Inr u \<longrightarrow> agent_is_terminal s \<longrightarrow> u = s) \<and>
   (sm_run s ts = Inr Agent_FailedPermanent \<longrightarrow> s = Agent_FailedPermanent) \<and>
   (agent_is_terminal s \<or> (\<exists>ts'. sm_run s ts' = Inr Agent_Completed))"
proof (intro conjI impI)
  show "u = s" if "sm_run s ts = Inr u" "agent_is_terminal s"
    using agent.terminal_absorbing sm_run_reaches that by metis
  show "s = Agent_FailedPermanent" if "sm_run s ts = Inr Agent_FailedPermanent"
    using agent.no_incoming_unreachable [OF sm_run_reaches [OF that] agent_no_edge_to_failed] by simp
  show "agent_is_terminal s \<or> (\<exists>ts'. sm_run s ts' = Inr Agent_Completed)"
    using agent_completed_reachable reaches_sm_run by blast
qed

theorem session_machine_runs_witness:
  "sm_run Agent_Completed [Agent_Completed] = Inr Agent_Completed \<and>
   (\<exists>ts'. sm_run Agent_Idle ts' = Inr Agent_Completed)"
  using session_machine_runs [of Agent_Completed "[Agent_Completed]" Agent_Completed]
    session_machine_runs [of Agent_Idle "[]" Agent_Idle]
  by (simp add: sm_transition_def agent_is_terminal_def)

end
