(* ===== verification/Resource_Budgets.thy ===== *)
theory Resource_Budgets
  imports Session_Machines
begin

text \<open>
  What every asynchronous operation of the program carries and is limited by: the per-class
  concurrency budgets (\<open>crates/core/src/resource.rs\<close>), deadlines (\<open>crates/core/src/time.rs\<close>), the
  retry policy (\<open>crates/core/src/retry.rs\<close>) and the operation envelope
  (\<open>crates/core/src/op.rs\<close>). The gauge is used through the locale \<open>permit_pool\<close>, in which the
  conservation of permits by lease holders is proved once.
\<close>

section \<open>Permit pools\<close>

text \<open>
  A pool counts the permits in use per class. \<open>acquire\<close> fails fast when the class is full,
  \<open>release\<close> fails (panics) without a matching acquire.
\<close>

locale permit_pool =
  fixes usage :: "'s \<Rightarrow> 'c \<Rightarrow> nat"
    and limit :: "'c \<Rightarrow> nat"
    and acquire :: "'c \<Rightarrow> 's \<Rightarrow> 's option"
    and release :: "'c \<Rightarrow> 's \<Rightarrow> 's option"
  assumes acquire_iff: "acquire c s \<noteq> None \<longleftrightarrow> usage s c < limit c"
    and acquire_usage: "acquire c s = Some s' \<Longrightarrow> usage s' = (usage s)(c := usage s c + 1)"
    and release_iff: "release c s \<noteq> None \<longleftrightarrow> 0 < usage s c"
    and release_usage: "release c s = Some s' \<Longrightarrow> usage s' = (usage s)(c := usage s c - 1)"
begin

text \<open>The permits held by the lease holders are exactly the permits in use.\<close>

definition accounts :: "'c list \<Rightarrow> 's \<Rightarrow> bool" where
  "accounts held s \<longleftrightarrow> usage s = count_list held"

definition within :: "'s \<Rightarrow> bool" where
  "within s \<longleftrightarrow> (\<forall>c. usage s c \<le> limit c)"

lemma acquire_within: "within s \<Longrightarrow> acquire c s = Some s' \<Longrightarrow> within s'"
proof -
  assume w: "within s" and a: "acquire c s = Some s'"
  have "usage s c < limit c" using acquire_iff [of c s] a by simp
  then show "within s'" using w acquire_usage [OF a] by (simp add: within_def)
qed

lemma release_within: "within s \<Longrightarrow> release c s = Some s' \<Longrightarrow> within s'"
  using release_usage [of c s s'] by (auto simp: within_def intro: le_trans [OF diff_le_self])

lemma acquire_accounts: "accounts held s \<Longrightarrow> acquire c s = Some s' \<Longrightarrow> accounts (c # held) s'"
  using acquire_usage [of c s s'] by (auto simp: accounts_def fun_eq_iff)

lemma release_accounts:
  assumes "accounts held s" and "c \<in> set held"
  obtains s' where "release c s = Some s'" and "accounts (remove1 c held) s'"
proof -
  have "0 < usage s c" using assms by (metis accounts_def count_list_0_iff neq0_conv)
  then obtain s' where s': "release c s = Some s'" using release_iff [of c s] by blast
  moreover have "count_list (remove1 c held) = (count_list held)(c := count_list held c - 1)"
    using assms(2) by (induction held) (auto simp: fun_eq_iff)
  ultimately show thesis
    using that [of s'] release_usage [of c s s'] assms(1) by (simp add: accounts_def)
qed

lemma acquire_release:
  assumes "acquire c s = Some s'"
  obtains s'' where "release c s' = Some s''" and "usage s'' = usage s"
proof -
  have "usage s' c = usage s c + 1" using acquire_usage [OF assms] by simp
  then obtain s'' where "release c s' = Some s''" using release_iff [of c s'] by auto
  then show thesis
    using that release_usage [of c s' s''] acquire_usage [OF assms] by (simp add: fun_eq_iff)
qed

end

section \<open>Resource classes and the gauge\<close>

datatype resource_class =
    Class_Model | Class_DiskRead | Class_DiskWrite | Class_Cpu | Class_Git | Class_Network
  | Class_Terminal | Class_Mcp | Class_Indexing

definition resource_class_ALL :: "resource_class list" where
  "resource_class_ALL =
     [Class_Model, Class_DiskRead, Class_DiskWrite, Class_Cpu, Class_Git, Class_Network,
      Class_Terminal, Class_Mcp, Class_Indexing]"

type_synonym resource_limits = "resource_class \<rightharpoonup> nat"

definition default_limits :: resource_limits where
  "default_limits =
     [Class_Model \<mapsto> 1, Class_DiskRead \<mapsto> 16, Class_DiskWrite \<mapsto> 4, Class_Cpu \<mapsto> 2, Class_Git \<mapsto> 1,
      Class_Network \<mapsto> 8, Class_Terminal \<mapsto> 2, Class_Mcp \<mapsto> 4, Class_Indexing \<mapsto> 1]"

definition limits_get :: "resource_limits \<Rightarrow> resource_class \<Rightarrow> nat" where
  "limits_get limits class = (case limits class of Some n \<Rightarrow> n | None \<Rightarrow> 1)"

type_synonym resource_gauge = "resource_class \<rightharpoonup> nat"

record resource_busy =
  busy_class :: resource_class
  busy_used :: nat
  busy_max :: nat

definition gauge_usage :: "resource_gauge \<Rightarrow> resource_class \<Rightarrow> nat" where
  "gauge_usage g class = (case g class of Some n \<Rightarrow> n | None \<Rightarrow> 0)"

definition try_acquire ::
    "resource_class \<Rightarrow> resource_limits \<Rightarrow> resource_gauge \<Rightarrow> resource_busy + resource_gauge" where
  "try_acquire class limits g =
     (let used = gauge_usage g class; mx = limits_get limits class
      in if used \<ge> mx then Inl \<lparr>busy_class = class, busy_used = used, busy_max = mx\<rparr>
         else Inr (g(class \<mapsto> used + 1)))"

text \<open>\<open>release\<close> panics on underflow: \<^term>\<open>None\<close> is the panic.\<close>

definition gauge_release :: "resource_class \<Rightarrow> resource_gauge \<Rightarrow> resource_gauge option" where
  "gauge_release class g =
     (case gauge_usage g class of 0 \<Rightarrow> None | Suc n \<Rightarrow> Some (g(class \<mapsto> n)))"

definition acquire_opt :: "resource_limits \<Rightarrow> resource_class \<Rightarrow> resource_gauge \<Rightarrow> resource_gauge option" where
  "acquire_opt limits class g = (case try_acquire class limits g of Inl _ \<Rightarrow> None | Inr g' \<Rightarrow> Some g')"

lemma gauge_usage_update [simp]: "gauge_usage (g(c \<mapsto> n)) = (gauge_usage g)(c := n)"
  by (auto simp: gauge_usage_def fun_eq_iff)

lemma gauge_usage_empty [simp]: "gauge_usage Map.empty c = 0"
  by (simp add: gauge_usage_def)

interpretation gauge: permit_pool gauge_usage "limits_get limits" "acquire_opt limits" gauge_release
  for limits
proof unfold_locales
  show "acquire_opt limits c s \<noteq> None \<longleftrightarrow> gauge_usage s c < limits_get limits c" for c s
    by (auto simp: acquire_opt_def try_acquire_def Let_def)
  show "acquire_opt limits c s = Some s' \<Longrightarrow> gauge_usage s' = (gauge_usage s)(c := gauge_usage s c + 1)"
    for c s s'
    by (auto simp: acquire_opt_def try_acquire_def Let_def split: if_splits)
  show "gauge_release c s \<noteq> None \<longleftrightarrow> 0 < gauge_usage s c" for c s
    by (auto simp: gauge_release_def split: nat.splits)
  show "gauge_release c s = Some s' \<Longrightarrow> gauge_usage s' = (gauge_usage s)(c := gauge_usage s c - 1)"
    for c s s'
    by (auto simp: gauge_release_def split: nat.splits)
qed

lemma acquire_opt_Some: "acquire_opt limits c g = Some g' \<longleftrightarrow> try_acquire c limits g = Inr g'"
  by (auto simp: acquire_opt_def split: sum.splits)

section \<open>Deadlines\<close>

definition deadline_now_plus :: "int \<Rightarrow> nat \<Rightarrow> int" where
  "deadline_now_plus now duration_ms = sat_i64 (now + int (min duration_ms 9223372036854775807))"

definition is_expired :: "int \<Rightarrow> int \<Rightarrow> bool" where
  "is_expired at_ms now_ms \<longleftrightarrow> now_ms \<ge> at_ms"

section \<open>Retries\<close>

datatype retry_class = Retry_Network | Retry_RateLimited | Retry_ServerError | Retry_Always

text \<open>
  The jitter fraction is an IEEE double that is used in one expression only, the jitter in
  milliseconds of a base delay: \<open>jitter_of\<close> is that expression as a function of the base.
\<close>

record retry_policy =
  rp_max_attempts :: nat
  rp_base_delay_ms :: nat
  rp_max_delay_ms :: nat
  rp_jitter_of :: "nat \<Rightarrow> nat"
  rp_class :: retry_class

definition should_retry :: "retry_policy \<Rightarrow> nat \<Rightarrow> bool \<Rightarrow> bool \<Rightarrow> bool" where
  "should_retry self attempt retryable rate_limited =
     (if sat_u32 (attempt + 1) \<ge> rp_max_attempts self \<or> \<not> retryable then False
      else (case rp_class self of
              Retry_Network \<Rightarrow> \<not> rate_limited
            | Retry_RateLimited \<Rightarrow> True
            | Retry_ServerError \<Rightarrow> True
            | Retry_Always \<Rightarrow> True))"

definition backoff_base :: "retry_policy \<Rightarrow> nat \<Rightarrow> nat" where
  "backoff_base self attempt =
     min (sat_u64 (rp_base_delay_ms self * sat_u32 (2 ^ attempt))) (max (rp_max_delay_ms self) 1)"

text \<open>The inclusive range a jittered delay is drawn from.\<close>

definition backoff_range :: "retry_policy \<Rightarrow> nat \<Rightarrow> nat \<times> nat" where
  "backoff_range self attempt =
     (let base = backoff_base self attempt; jitter = rp_jitter_of self base
      in (max (base - jitter) 1, sat_u64 (base + jitter)))"

text \<open>\<open>lo + hi\<close> wraps in a release build.\<close>

definition next_delay :: "retry_policy \<Rightarrow> nat \<Rightarrow> nat" where
  "next_delay self attempt =
     (case backoff_range self attempt of (lo, hi) \<Rightarrow> ((lo + hi) mod 2 ^ 64) div 2)"

text \<open>
  \<open>rng.random_range(lo..=hi)\<close> panics on an empty range; \<open>draw\<close> is the number the generator
  yields, reduced into the range.
\<close>

definition next_delay_rng :: "retry_policy \<Rightarrow> nat \<Rightarrow> nat \<Rightarrow> nat option" where
  "next_delay_rng self attempt draw =
     (case backoff_range self attempt of (lo, hi) \<Rightarrow>
        if hi < lo then None else Some (lo + draw mod (hi - lo + 1)))"

lemma backoff_base_le: "backoff_base self attempt \<le> max (rp_max_delay_ms self) 1"
  by (simp add: backoff_base_def)

lemma backoff_base_le_u64: "backoff_base self attempt \<le> u64_max"
  by (simp add: backoff_base_def sat_u64_def)

lemma backoff_base_mono: "a \<le> b \<Longrightarrow> backoff_base self a \<le> backoff_base self b"
proof -
  assume "a \<le> b"
  then have "(2 :: nat) ^ a \<le> 2 ^ b" by (simp add: power_increasing)
  then have "sat_u32 (2 ^ a) \<le> sat_u32 (2 ^ b)" unfolding sat_u32_def by (rule min.mono [OF order_refl])
  then have "rp_base_delay_ms self * sat_u32 (2 ^ a) \<le> rp_base_delay_ms self * sat_u32 (2 ^ b)" by simp
  then show ?thesis
    unfolding backoff_base_def sat_u64_def by (intro min.mono order_refl)
qed

text \<open>
  With a jitter of at most the base, the deterministic midpoint is the base delay itself.
\<close>

lemma next_delay_eq_base:
  assumes "rp_jitter_of self (backoff_base self attempt) \<le> backoff_base self attempt"
    and "rp_max_delay_ms self < 2 ^ 62"
  shows "next_delay self attempt = backoff_base self attempt"
proof -
  define b where "b = backoff_base self attempt"
  define j where "j = rp_jitter_of self b"
  have le: "j \<le> b" using assms(1) by (simp add: j_def b_def)
  have "b \<le> max (rp_max_delay_ms self) 1" unfolding b_def by (rule backoff_base_le)
  then have b: "b < 2 ^ 62" using assms(2) by (auto simp: max_def split: if_splits)
  have "sat_u64 (b + j) = b + j" using b le by (simp add: sat_u64_def width_simps)
  then have "next_delay self attempt = ((max (b - j) 1 + (b + j)) mod 2 ^ 64) div 2"
    by (simp add: next_delay_def backoff_range_def Let_def b_def j_def)
  also have "\<dots> = (max (b - j) 1 + (b + j)) div 2"
    using b le by (subst mod_less) (auto simp: max_def)
  also have "\<dots> = b" using le by (cases "b = j") (auto simp: max_def)
  finally show ?thesis by (simp add: b_def)
qed

section \<open>The operation envelope\<close>

datatype op_state = Op_Pending | Op_Running | Op_Done | Op_Failed | Op_Cancelled

record model_call_attempt =
  mc_logical_op_id :: nat
  mc_attempt_op_id :: nat
  mc_ordinal :: nat

definition model_call_attempt_new :: "nat \<Rightarrow> nat \<Rightarrow> nat \<Rightarrow> model_call_attempt option" where
  "model_call_attempt_new logical attempt ordinal =
     (if logical = attempt then None
      else Some \<lparr>mc_logical_op_id = logical, mc_attempt_op_id = attempt, mc_ordinal = ordinal\<rparr>)"

text \<open>
  The parts of \<open>OpMeta\<close> the scheduler reads. The cancellation token is shared; its flag is read
  where the code calls \<open>is_cancelled\<close>.
\<close>

record op_meta =
  om_operation_id :: nat
  om_session_id :: nat
  om_deadline :: int
  om_retry_policy :: retry_policy
  om_cancelled :: bool

definition ensure_alive :: "op_meta \<Rightarrow> int \<Rightarrow> error_kind + unit" where
  "ensure_alive self now_ms =
     (if om_cancelled self then Inl Cancelled_Err
      else if is_expired (om_deadline self) now_ms then Inl Timeout
      else Inr ())"

definition op_retryable :: "op_meta \<Rightarrow> bool" where
  "op_retryable self \<longleftrightarrow> rp_max_attempts (om_retry_policy self) > 1"

text \<open>
  The number of tries is bounded by \<open>max_attempts\<close>: a retry is granted only while fewer than
  that many tries were made.
\<close>

lemma should_retry_bound:
  "should_retry p attempt retryable rl \<Longrightarrow> attempt + 1 < rp_max_attempts p \<or> u32_max < rp_max_attempts p"
  by (auto simp: should_retry_def sat_u32_def min_def split: if_splits)

lemma should_retry_needs_retryable_policy:
  "should_retry p attempt retryable rl \<Longrightarrow> rp_max_attempts p \<le> u32_max \<Longrightarrow> 1 < rp_max_attempts p"
  using should_retry_bound by fastforce

section \<open>What the retry policy guarantees\<close>

text \<open>
  Retry delays are bounded: the backoff base never decreases with the attempt and never exceeds
  the configured maximum; with a jitter of at most the base and a positive base delay, a random
  delay exists for every draw, is at least one millisecond and at most twice the maximum. The
  random delay is undefined (the range is empty and the generator panics) exactly when base and
  jitter are both zero.
\<close>

theorem retry_delay_bounded:
  "(a \<le> b \<longrightarrow> backoff_base self a \<le> backoff_base self b) \<and>
   (rp_jitter_of self (backoff_base self a) \<le> backoff_base self a \<longrightarrow> 0 < rp_base_delay_ms self \<longrightarrow>
     (\<exists>d. next_delay_rng self a draw = Some d \<and> 1 \<le> d \<and> d \<le> 2 * max (rp_max_delay_ms self) 1)) \<and>
   (next_delay_rng self a draw = None \<longleftrightarrow>
     backoff_base self a = 0 \<and> rp_jitter_of self (backoff_base self a) = 0)"
proof (intro conjI impI)
  show "a \<le> b \<Longrightarrow> backoff_base self a \<le> backoff_base self b" by (rule backoff_base_mono)
  define bs where "bs = backoff_base self a"
  define j where "j = rp_jitter_of self bs"
  have rng: "next_delay_rng self a draw = (let lo = max (bs - j) 1; hi = sat_u64 (bs + j)
      in if hi < lo then None else Some (lo + draw mod (hi - lo + 1)))"
    by (simp add: next_delay_rng_def backoff_range_def bs_def j_def Let_def)
  have hi: "sat_u64 (bs + j) \<le> bs + j" "bs + j = 0 \<or> 0 < sat_u64 (bs + j)" "bs - j \<le> sat_u64 (bs + j)"
    using backoff_base_le_u64 [of self a] by (auto simp: sat_u64_def bs_def width_simps min_def)
  show "next_delay_rng self a draw = None \<longleftrightarrow>
     backoff_base self a = 0 \<and> rp_jitter_of self (backoff_base self a) = 0"
    using hi unfolding rng Let_def bs_def [symmetric] j_def [symmetric] by auto
  assume le: "rp_jitter_of self (backoff_base self a) \<le> backoff_base self a" and pos: "0 < rp_base_delay_ms self"
  have b: "0 < bs" using pos by (simp add: bs_def backoff_base_def sat_u64_def sat_u32_def width_simps)
  have jb: "j \<le> bs" using le by (simp add: j_def bs_def)
  define lo where "lo = max (bs - j) 1"
  define hi' where "hi' = sat_u64 (bs + j)"
  have "lo \<le> hi'" using hi b by (auto simp: lo_def hi'_def)
  moreover have "lo + draw mod (hi' - lo + 1) \<le> hi'"
    using \<open>lo \<le> hi'\<close> mod_less_divisor [of "hi' - lo + 1" draw] by linarith
  moreover have "hi' \<le> 2 * max (rp_max_delay_ms self) 1"
    using hi(1) jb backoff_base_le [of self a] unfolding hi'_def bs_def [symmetric] by linarith
  moreover have "1 \<le> lo" by (simp add: lo_def)
  ultimately show "\<exists>d. next_delay_rng self a draw = Some d \<and> 1 \<le> d \<and> d \<le> 2 * max (rp_max_delay_ms self) 1"
    unfolding rng Let_def lo_def [symmetric] hi'_def [symmetric] by auto
qed

theorem retry_delay_bounded_witness:
  "\<exists>d. next_delay_rng \<lparr>rp_max_attempts = 5, rp_base_delay_ms = 100, rp_max_delay_ms = 1000,
       rp_jitter_of = (\<lambda>b. b div 2), rp_class = Retry_Network\<rparr> 2 7 = Some d \<and> 1 \<le> d \<and> d \<le> 2000"
  using retry_delay_bounded [of 0 1 "\<lparr>rp_max_attempts = 5, rp_base_delay_ms = 100, rp_max_delay_ms = 1000,
       rp_jitter_of = (\<lambda>b. b div 2), rp_class = Retry_Network\<rparr>"]
    retry_delay_bounded [of 2 3 "\<lparr>rp_max_attempts = 5, rp_base_delay_ms = 100, rp_max_delay_ms = 1000,
       rp_jitter_of = (\<lambda>b. b div 2), rp_class = Retry_Network\<rparr>" 7]
  by simp

end
