(* ===== verification/Scheduler_Graph.thy ===== *)
theory Scheduler_Graph
  imports Resource_Budgets
begin

text \<open>
  The dependency-graph scheduler (\<open>crates/scheduler/src/lib.rs\<close>): ownership sets and their
  overlap test, the per-edge dependency policies, the registered tasks, and the operations that
  run under the scheduler lock: submission, validation, graph rebuild, the ready-queue scan,
  terminal notification, cancellation, the outcome mark and the settlement of a lease.

  A \<open>HashMap\<close> is an association list with distinct keys; the order of its iteration is the
  order of the list, which no theorem fixes. A panic (\<open>unwrap\<close>, indexing a missing key, a
  permit released twice) is the result \<^term>\<open>None\<close>. A \<open>Vec\<close> used as a stack has its top first.
\<close>

section \<open>Ownership sets\<close>

text \<open>
  \<open>fold_volume_identity\<close> rests on the third-party crate \<open>unicode_normalization\<close>; it is the
  parameter \<open>fold_volume\<close>. The platform is the \<open>cfg!\<close> target of the build.
\<close>

datatype platform = Unix | Windows | MacOS

type_synonym ownership_set = "string list"

definition WORKSPACE_ROOT_SENTINEL :: string where "WORKSPACE_ROOT_SENTINEL = ''**''"

definition workspace_root :: ownership_set where
  "workspace_root = [WORKSPACE_ROOT_SENTINEL]"

definition strip_verbatim :: "string \<Rightarrow> string" where
  "strip_verbatim t =
     (case strip_prefix t (CHR 0x5C # CHR 0x5C # CHR ''?'' # CHR 0x5C # ''UNC'' @ [CHR 0x5C]) of
        Some rest \<Rightarrow> ''//'' @ rest
      | None \<Rightarrow>
          (case strip_prefix t [CHR 0x5C, CHR 0x5C, CHR ''?'', CHR 0x5C] of
             Some rest \<Rightarrow> rest
           | None \<Rightarrow> t))"

definition normalize_owned_path :: "platform \<Rightarrow> (string \<Rightarrow> string) \<Rightarrow> string \<Rightarrow> string" where
  "normalize_owned_path p fold_volume s =
     (case p of
        Windows \<Rightarrow> fold_volume (map (\<lambda>c. if c = CHR 0x5C then CHR ''/'' else c) (strip_verbatim s))
      | MacOS \<Rightarrow> fold_volume s
      | Unix \<Rightarrow> s)"

definition trim_end_slash :: "string \<Rightarrow> string" where
  "trim_end_slash s = rev (dropWhile (\<lambda>c. c = CHR ''/'') (rev s))"

text \<open>The comparison after normalization; \<open>norm\<close> is \<open>normalize_owned_path\<close> of the build.\<close>

definition path_overlaps :: "(string \<Rightarrow> string) \<Rightarrow> string \<Rightarrow> string \<Rightarrow> bool" where
  "path_overlaps norm a b =
     (if a = WORKSPACE_ROOT_SENTINEL \<or> b = WORKSPACE_ROOT_SENTINEL then True
      else let a = norm a; b = norm b in
        if a = b then True
        else if ends_with a ''/'' \<and> starts_with (trim_end_slash b) (trim_end_slash a @ ''/'') then True
        else if ends_with b ''/'' \<and> starts_with (trim_end_slash a) (trim_end_slash b @ ''/'') then True
        else False)"

definition overlaps :: "(string \<Rightarrow> string) \<Rightarrow> ownership_set \<Rightarrow> ownership_set \<Rightarrow> bool" where
  "overlaps norm self other = list_ex (\<lambda>a. list_ex (\<lambda>b. path_overlaps norm a b) other) self"

lemma path_overlaps_sym: "path_overlaps norm a b = path_overlaps norm b a"
  by (auto simp: path_overlaps_def Let_def)

lemma set_overlaps_sym: "overlaps norm a b = overlaps norm b a"
  unfolding overlaps_def list_ex_iff using path_overlaps_sym by blast

lemma workspace_root_overlaps: "s \<noteq> [] \<Longrightarrow> overlaps norm workspace_root s"
  by (cases s) (auto simp: overlaps_def workspace_root_def path_overlaps_def)

section \<open>Operations, edges and tasks\<close>

datatype dependency_policy = Policy_Success | Policy_Terminal | Policy_Always

type_synonym op_id = nat

record scheduled_op =
  so_meta :: op_meta
  so_class :: resource_class
  so_reads :: ownership_set
  so_writes :: ownership_set
  so_dependencies :: "(op_id \<times> dependency_policy) list"

definition same_registration :: "scheduled_op \<Rightarrow> scheduled_op \<Rightarrow> bool" where
  "same_registration a b \<longleftrightarrow>
     om_operation_id (so_meta a) = om_operation_id (so_meta b) \<and>
     om_session_id (so_meta a) = om_session_id (so_meta b) \<and>
     so_class a = so_class b \<and> so_reads a = so_reads b \<and> so_writes a = so_writes b \<and>
     so_dependencies a = so_dependencies b"

datatype task_status =
  Sched_Pending | Sched_Running | Sched_Done | Sched_Failed | Sched_Cancelled | Sched_Blocked

record sched_task =
  ts_op :: scheduled_op
  ts_status :: task_status
  ts_error :: "string option"
  ts_start_ms :: int
  ts_end_ms :: "int option"
  ts_remaining :: nat
  ts_blocked :: nat
  ts_dependents :: "(op_id \<times> dependency_policy) list"

fun edge_satisfied :: "dependency_policy \<Rightarrow> task_status \<Rightarrow> bool" where
  "edge_satisfied Policy_Success upstream \<longleftrightarrow> upstream = Sched_Done"
| "edge_satisfied Policy_Terminal upstream \<longleftrightarrow> upstream \<in> {Sched_Done, Sched_Failed, Sched_Cancelled}"
| "edge_satisfied Policy_Always upstream \<longleftrightarrow>
     upstream \<in> {Sched_Done, Sched_Failed, Sched_Cancelled, Sched_Blocked}"

definition success_edge_dead :: "task_status \<Rightarrow> bool" where
  "success_edge_dead upstream \<longleftrightarrow> upstream \<in> {Sched_Failed, Sched_Cancelled, Sched_Blocked}"

definition status_is_terminal :: "task_status \<Rightarrow> bool" where
  "status_is_terminal status \<longleftrightarrow> status \<in> {Sched_Done, Sched_Failed, Sched_Cancelled, Sched_Blocked}"

record sched_inner =
  tasks :: "(op_id \<times> sched_task) list"
  gauge :: resource_gauge
  ready :: "op_id list"
  running :: "(op_id \<times> (ownership_set \<times> ownership_set)) list"
  terminalized :: "op_id \<rightharpoonup> nat"

definition inner_default :: sched_inner where
  "inner_default = \<lparr>tasks = [], gauge = Map.empty, ready = [], running = [], terminalized = Map.empty\<rparr>"

definition get_task :: "sched_inner \<Rightarrow> op_id \<Rightarrow> sched_task option" where
  "get_task g oid = map_of (tasks g) oid"

definition upd_at :: "op_id \<Rightarrow> (sched_task \<Rightarrow> sched_task) \<Rightarrow> op_id \<times> sched_task \<Rightarrow> op_id \<times> sched_task" where
  "upd_at oid f e = (fst e, if fst e = oid then f (snd e) else snd e)"

lemma upd_at_simps [simp]:
  "fst (upd_at d f e) = fst e" "snd (upd_at d f e) = (if fst e = d then f (snd e) else snd e)"
  by (simp_all add: upd_at_def)

definition upd_task :: "op_id \<Rightarrow> (sched_task \<Rightarrow> sched_task) \<Rightarrow> sched_inner \<Rightarrow> sched_inner" where
  "upd_task oid f g = g\<lparr>tasks := map (upd_at oid f) (tasks g)\<rparr>"

definition task_status_of :: "sched_inner \<Rightarrow> op_id \<Rightarrow> task_status option" where
  "task_status_of g oid = map_option ts_status (get_task g oid)"

section \<open>Terminal notification\<close>

text \<open>An edge that is satisfied: the dependent waits for one upstream less.\<close>

definition release_dep :: "op_id \<Rightarrow> sched_inner \<Rightarrow> sched_inner" where
  "release_dep dep_id g =
     (case get_task g dep_id of
        None \<Rightarrow> g
      | Some t \<Rightarrow>
          (let g' = upd_task dep_id (\<lambda>t. t\<lparr>ts_remaining := ts_remaining t - 1\<rparr>) g
           in if ts_remaining t - 1 = 0 \<and> ts_blocked t = 0 \<and> ts_status t = Sched_Pending
              then g'\<lparr>ready := ready g' @ [dep_id]\<rparr> else g'))"

text \<open>An edge that can never be satisfied: the dependent is blocked and put on the worklist.\<close>

definition block_task :: "sched_task \<Rightarrow> sched_task" where
  "block_task t =
     t\<lparr>ts_blocked := ts_blocked t + 1,
       ts_status := if ts_status t = Sched_Pending then Sched_Blocked else ts_status t\<rparr>"

definition block_dep :: "op_id \<Rightarrow> sched_inner \<times> op_id list \<Rightarrow> sched_inner \<times> op_id list" where
  "block_dep dep_id s =
     (case s of (g, worklist) \<Rightarrow>
        (case get_task g dep_id of
           None \<Rightarrow> (g, worklist)
         | Some t \<Rightarrow>
             (upd_task dep_id block_task g,
              if ts_status t = Sched_Pending then dep_id # worklist else worklist)))"

definition notify_edge ::
    "task_status \<Rightarrow> op_id \<times> dependency_policy \<Rightarrow> sched_inner \<times> op_id list \<Rightarrow> sched_inner \<times> op_id list" where
  "notify_edge upstream e s =
     (if edge_satisfied (snd e) upstream then (release_dep (fst e) (fst s), snd s)
      else if snd e \<noteq> Policy_Always then block_dep (fst e) s
      else s)"

definition notify_sub ::
    "op_id \<times> dependency_policy \<Rightarrow> sched_inner \<times> op_id list \<Rightarrow> sched_inner \<times> op_id list" where
  "notify_sub e s =
     (case snd e of
        Policy_Always \<Rightarrow> (release_dep (fst e) (fst s), snd s)
      | Policy_Success \<Rightarrow> block_dep (fst e) s
      | Policy_Terminal \<Rightarrow> block_dep (fst e) s)"

definition dependents_of :: "sched_inner \<Rightarrow> op_id \<Rightarrow> (op_id \<times> dependency_policy) list" where
  "dependents_of g oid = (case get_task g oid of None \<Rightarrow> [] | Some t \<Rightarrow> ts_dependents t)"

definition pending_count :: "sched_inner \<Rightarrow> nat" where
  "pending_count g = length (filter (\<lambda>e. ts_status (snd e) = Sched_Pending) (tasks g))"

lemma tasks_upd: "tasks (upd_task oid f g) = map (upd_at oid f) (tasks g)"
  by (simp add: upd_task_def)

lemma pending_count_same:
  "(\<And>t. (ts_status (f t) = Sched_Pending) = (ts_status t = Sched_Pending)) \<Longrightarrow>
   pending_count (upd_task oid f g) = pending_count g"
  unfolding pending_count_def tasks_upd
  by (induction "tasks g" arbitrary: g) (auto simp: filter_map comp_def)

lemma pending_count_release: "pending_count (release_dep d g) = pending_count g"
proof -
  have "pending_count (g\<lparr>ready := r\<rparr>) = pending_count g" for g r by (simp add: pending_count_def)
  then show ?thesis
    by (auto simp: release_dep_def Let_def pending_count_same split: option.splits)
qed

lemma length_filter_upd_less:
  "map_of m d = Some t \<Longrightarrow> P t \<Longrightarrow> (\<And>t. \<not> P (f t)) \<Longrightarrow>
   length (filter (\<lambda>e. P (snd e)) (map (upd_at d f) m)) < length (filter (\<lambda>e. P (snd e)) m)"
proof (induction m)
  case (Cons e m)
  have le: "length (filter (\<lambda>e. P (snd e)) (map (upd_at d f) m)) \<le> length (filter (\<lambda>e. P (snd e)) m)"
    using Cons.prems(3) by (induction m) auto
  show ?case
  proof (cases "fst e = d")
    case True
    then have "snd e = t" using Cons.prems(1) by (cases e) auto
    with True Cons.prems(2,3) le show ?thesis by (simp add: less_Suc_eq_le)
  next
    case False
    then have "map_of m d = Some t" using Cons.prems(1) by (cases e) auto
    with False Cons show ?thesis by simp
  qed
qed simp

lemma block_dep_measure:
  "block_dep d (g, w) = (g', w') \<Longrightarrow> 2 * pending_count g' + length w' \<le> 2 * pending_count g + length w"
proof (cases "get_task g d")
  case (Some t)
  assume eq: "block_dep d (g, w) = (g', w')"
  show ?thesis
  proof (cases "ts_status t = Sched_Pending")
    case True
    then have "pending_count g' < pending_count g"
      using eq Some length_filter_upd_less [of "tasks g" d t "\<lambda>t. ts_status t = Sched_Pending" block_task]
      by (auto simp: block_dep_def pending_count_def tasks_upd get_task_def block_task_def)
    moreover have "w' = d # w" using eq Some True by (simp add: block_dep_def)
    ultimately show ?thesis by simp
  next
    case False
    have "length (filter (\<lambda>e. ts_status (snd e) = Sched_Pending) (map (upd_at d block_task) m))
        \<le> length (filter (\<lambda>e. ts_status (snd e) = Sched_Pending) m)" for m
      by (induction m) (auto simp: block_task_def)
    with False eq Some show ?thesis by (auto simp: block_dep_def pending_count_def tasks_upd)
  qed
qed (simp add: block_dep_def)

lemma notify_sub_measure:
  "2 * pending_count (fst (notify_sub e s)) + length (snd (notify_sub e s))
     \<le> 2 * pending_count (fst s) + length (snd s)"
  by (cases s; cases "block_dep (fst e) s")
    (auto simp: notify_sub_def pending_count_release split: dependency_policy.splits
      dest: block_dep_measure)

lemma notify_subs_measure:
  "2 * pending_count (fst (fold notify_sub es s)) + length (snd (fold notify_sub es s))
     \<le> 2 * pending_count (fst s) + length (snd s)"
proof (induction es arbitrary: s)
  case (Cons e es)
  show ?case using Cons [of "notify_sub e s"] notify_sub_measure [of e s] by simp
qed simp

lemma notify_subs_less:
  "(g', w') = fold notify_sub es (g, w) \<Longrightarrow>
   2 * pending_count g' + length w' < Suc (2 * pending_count g + length w)"
  using notify_subs_measure [of es "(g, w)"] by (metis fst_conv less_Suc_eq_le snd_conv)

text \<open>The transitive blocking loop. Every push blocks a pending task, so the loop ends.\<close>

function block_loop :: "sched_inner \<Rightarrow> op_id list \<Rightarrow> sched_inner" where
  "block_loop g [] = g"
| "block_loop g (oid # worklist) =
     (case fold notify_sub (dependents_of g oid) (g, worklist) of (g', worklist') \<Rightarrow>
        block_loop g' worklist')"
  by pat_completeness auto

termination block_loop
  by (relation "measure (\<lambda>(g, w). 2 * pending_count g + length w)")
    (auto split: prod.splits dest: notify_subs_less [OF sym])

definition remove_running :: "op_id \<Rightarrow> sched_inner \<Rightarrow> sched_inner" where
  "remove_running oid g = g\<lparr>running := filter (\<lambda>e. fst e \<noteq> oid) (running g)\<rparr>"

text \<open>The first terminal event of a registered task.\<close>

definition terminalize_first :: "op_id \<Rightarrow> sched_task \<Rightarrow> sched_inner \<Rightarrow> sched_inner" where
  "terminalize_first oid t g =
     (let g = g\<lparr>terminalized := (terminalized g)(oid \<mapsto> 1)\<rparr>;
          g = remove_running oid g;
          g = upd_task oid (\<lambda>t. t\<lparr>ts_dependents := []\<rparr>) g
      in case fold (notify_edge (ts_status t)) (ts_dependents t) (g, []) of
           (g, worklist) \<Rightarrow> block_loop g worklist)"

definition terminalize :: "op_id \<Rightarrow> sched_inner \<Rightarrow> sched_inner option" where
  "terminalize oid g =
     (case terminalized g oid of
        Some attempts \<Rightarrow> Some (g\<lparr>terminalized := (terminalized g)(oid \<mapsto> sat_u32 (attempts + 1))\<rparr>)
      | None \<Rightarrow>
          (case get_task g oid of
             None \<Rightarrow> None
           | Some t \<Rightarrow> Some (terminalize_first oid t g)))"

section \<open>Submission\<close>

definition MAX_TASKS_PER_DAG :: nat where "MAX_TASKS_PER_DAG = 1024"
definition MAX_DEPENDENCIES_PER_TASK :: nat where "MAX_DEPENDENCIES_PER_TASK = 64"
definition MAX_OWNERSHIP_PATHS :: nat where "MAX_OWNERSHIP_PATHS = 512"

lemmas dag_bounds [faktor_defs] =
  MAX_TASKS_PER_DAG_def MAX_DEPENDENCIES_PER_TASK_def MAX_OWNERSHIP_PATHS_def

definition push_dependent :: "op_id \<Rightarrow> op_id \<times> dependency_policy \<Rightarrow> sched_inner \<Rightarrow> sched_inner" where
  "push_dependent dep_id e = upd_task dep_id (\<lambda>t. t\<lparr>ts_dependents := ts_dependents t @ [e]\<rparr>)"

text \<open>One dependency of a new task: counted as remaining, counted as dead, or satisfied.\<close>

definition submit_edge ::
    "op_id \<Rightarrow> op_id \<times> dependency_policy \<Rightarrow> sched_inner \<times> nat \<times> nat \<Rightarrow> sched_inner \<times> nat \<times> nat" where
  "submit_edge oid e s =
     (case s of (g, remaining, blocked) \<Rightarrow>
        (case task_status_of g (fst e) of
           None \<Rightarrow> (g, remaining + 1, blocked)
         | Some status \<Rightarrow>
             if edge_satisfied (snd e) status then (g, remaining, blocked)
             else if snd e = Policy_Success \<and> success_edge_dead status then (g, remaining, blocked + 1)
             else (push_dependent (fst e) (oid, snd e) g, remaining + 1, blocked)))"

definition try_submit :: "scheduled_op \<Rightarrow> sched_inner \<Rightarrow> error_kind + sched_inner" where
  "try_submit op g =
     (if length (so_dependencies op) > MAX_DEPENDENCIES_PER_TASK then Inl Oversized
      else if length (so_reads op) + length (so_writes op) > MAX_OWNERSHIP_PATHS then Inl Oversized
      else
        (let oid = om_operation_id (so_meta op) in
         case get_task g oid of
           Some existing \<Rightarrow> if same_registration (ts_op existing) op then Inr g else Inl Conflict
         | None \<Rightarrow>
             if length (tasks g) \<ge> MAX_TASKS_PER_DAG then Inl Oversized
             else
               (case fold (submit_edge oid) (so_dependencies op) (g, 0, 0) of (g, remaining, blocked) \<Rightarrow>
                  (let status = (if blocked > 0 then Sched_Blocked else Sched_Pending);
                       g = g\<lparr>tasks := tasks g @ [(oid, \<lparr>ts_op = op, ts_status = status, ts_error = None,
                               ts_start_ms = 0, ts_end_ms = None, ts_remaining = remaining,
                               ts_blocked = blocked, ts_dependents = []\<rparr>)]\<rparr>
                   in Inr (if remaining = 0 \<and> blocked = 0 \<and> status = Sched_Pending
                           then g\<lparr>ready := ready g @ [oid]\<rparr> else g)))))"

definition MAX_RECORDED_REJECTIONS :: nat where "MAX_RECORDED_REJECTIONS = 64"

text \<open>The legacy \<open>submit\<close>: a rejection goes to the bounded ring instead of the caller.\<close>

definition submit ::
    "scheduled_op \<Rightarrow> sched_inner \<times> (op_id \<times> error_kind) list \<Rightarrow> sched_inner \<times> (op_id \<times> error_kind) list" where
  "submit op s =
     (case s of (g, ring) \<Rightarrow>
        (case try_submit op g of
           Inr g' \<Rightarrow> (g', ring)
         | Inl e \<Rightarrow>
             (g, (if length ring = MAX_RECORDED_REJECTIONS then tl ring else ring)
                 @ [(om_operation_id (so_meta op), e)])))"

section \<open>Validation\<close>

text \<open>
  \<open>visit_dag\<close> is a depth-first search. The recursion depth is bounded by the number of tasks, since
  every task on the path is in \<open>visiting\<close>; the fuel is that bound plus one, and
  \<^term>\<open>None\<close> (out of fuel) is shown not to occur.
\<close>

fun visit_dag ::
    "nat \<Rightarrow> sched_inner \<Rightarrow> op_id \<Rightarrow> op_id list \<times> op_id list
     \<Rightarrow> (error_kind + op_id list \<times> op_id list) option"
  and visit_deps ::
    "nat \<Rightarrow> sched_inner \<Rightarrow> (op_id \<times> dependency_policy) list \<Rightarrow> op_id list \<times> op_id list
     \<Rightarrow> (error_kind + op_id list \<times> op_id list) option" where
  "visit_dag 0 g oid s = None"
| "visit_dag (Suc fuel) g oid (visiting, visited) =
     (if oid \<in> set visited then Some (Inr (visiting, visited))
      else if oid \<in> set visiting then Some (Inl Deadlock)
      else
        (case get_task g oid of
           None \<Rightarrow> Some (Inl NotFound)
         | Some t \<Rightarrow>
             (case visit_deps fuel g (so_dependencies (ts_op t)) (oid # visiting, visited) of
                None \<Rightarrow> None
              | Some (Inl e) \<Rightarrow> Some (Inl e)
              | Some (Inr (visiting', visited')) \<Rightarrow>
                  Some (Inr (removeAll oid visiting', oid # visited')))))"
| "visit_deps fuel g [] s = Some (Inr s)"
| "visit_deps fuel g (d # deps) s =
     (if get_task g (fst d) = None then Some (Inl NotFound)
      else
        (case visit_dag fuel g (fst d) s of
           None \<Rightarrow> None
         | Some (Inl e) \<Rightarrow> Some (Inl e)
         | Some (Inr s') \<Rightarrow> visit_deps fuel g deps s'))"

fun visit_all :: "nat \<Rightarrow> sched_inner \<Rightarrow> op_id list \<Rightarrow> op_id list \<times> op_id list
     \<Rightarrow> (error_kind + op_id list \<times> op_id list) option" where
  "visit_all fuel g [] s = Some (Inr s)"
| "visit_all fuel g (oid # oids) s =
     (case visit_dag fuel g oid s of
        None \<Rightarrow> None
      | Some (Inl e) \<Rightarrow> Some (Inl e)
      | Some (Inr s') \<Rightarrow> visit_all fuel g oids s')"

definition task_bounds_ok :: "op_id \<times> sched_task \<Rightarrow> bool" where
  "task_bounds_ok e \<longleftrightarrow>
     length (so_dependencies (ts_op (snd e))) \<le> MAX_DEPENDENCIES_PER_TASK \<and>
     length (so_reads (ts_op (snd e))) + length (so_writes (ts_op (snd e))) \<le> MAX_OWNERSHIP_PATHS"

definition dag_validate :: "sched_inner \<Rightarrow> (error_kind + unit) option" where
  "dag_validate g =
     (if length (tasks g) > MAX_TASKS_PER_DAG then Some (Inl Oversized)
      else if \<not> list_all task_bounds_ok (tasks g) then Some (Inl Oversized)
      else map_option (\<lambda>r. bind_result r (\<lambda>_. Inr ()))
             (visit_all (length (tasks g) + 1) g (map fst (tasks g)) ([], [])))"

section \<open>Rebuilding the graph\<close>

text \<open>
  \<open>statuses[&dep_id]\<close> panics for a dependency that is not registered; \<^term>\<open>None\<close> is the panic.
\<close>

fun rebuild_deps ::
    "(op_id \<rightharpoonup> task_status) \<Rightarrow> op_id \<Rightarrow> (op_id \<times> dependency_policy) list \<Rightarrow> sched_inner \<times> nat \<times> nat
     \<Rightarrow> (sched_inner \<times> nat \<times> nat) option" where
  "rebuild_deps statuses oid [] s = Some s"
| "rebuild_deps statuses oid ((dep_id, policy) # deps) (g, remaining, blocked) =
     (case statuses dep_id of
        None \<Rightarrow> None
      | Some dep_status \<Rightarrow>
          if edge_satisfied policy dep_status then rebuild_deps statuses oid deps (g, remaining, blocked)
          else if policy = Policy_Success \<and> success_edge_dead dep_status
            then rebuild_deps statuses oid deps (g, remaining, blocked + 1)
          else rebuild_deps statuses oid deps
                 (push_dependent dep_id (oid, policy) g, remaining + 1, blocked))"

fun rebuild_each ::
    "(op_id \<rightharpoonup> task_status) \<Rightarrow> op_id list \<Rightarrow> sched_inner \<times> op_id list \<Rightarrow> (sched_inner \<times> op_id list) option" where
  "rebuild_each statuses [] s = Some s"
| "rebuild_each statuses (oid # oids) (g, newly_blocked) =
     (case get_task g oid of
        None \<Rightarrow> None
      | Some t \<Rightarrow>
          (case rebuild_deps statuses oid (so_dependencies (ts_op t)) (g, 0, 0) of
             None \<Rightarrow> None
           | Some (g, remaining, blocked) \<Rightarrow>
               (let flip = blocked > 0 \<and> task_status_of g oid = Some Sched_Pending;
                    g = upd_task oid (\<lambda>t. t\<lparr>ts_remaining := remaining, ts_blocked := blocked,
                          ts_status := if flip then Sched_Blocked else ts_status t\<rparr>) g
                in rebuild_each statuses oids
                     (g, if flip then newly_blocked @ [oid] else newly_blocked))))"

fun terminalize_all :: "op_id list \<Rightarrow> sched_inner \<Rightarrow> sched_inner option" where
  "terminalize_all [] g = Some g"
| "terminalize_all (oid # oids) g = Option.bind (terminalize oid g) (terminalize_all oids)"

definition is_ready :: "sched_inner \<Rightarrow> op_id \<Rightarrow> bool" where
  "is_ready g oid =
     (case get_task g oid of
        None \<Rightarrow> False
      | Some t \<Rightarrow> ts_status t = Sched_Pending \<and> ts_remaining t = 0 \<and> ts_blocked t = 0)"

definition clear_links :: "sched_task \<Rightarrow> sched_task" where
  "clear_links t = t\<lparr>ts_remaining := 0, ts_blocked := 0, ts_dependents := []\<rparr>"

definition rebuild_graph :: "sched_inner \<Rightarrow> sched_inner option" where
  "rebuild_graph g =
     (let statuses = task_status_of g;
          oids = map fst (tasks g);
          g = g\<lparr>ready := [], tasks := map (\<lambda>e. (fst e, clear_links (snd e))) (tasks g)\<rparr>
      in Option.bind (rebuild_each statuses oids (g, [])) (\<lambda>(g, newly_blocked).
         Option.bind (terminalize_all newly_blocked g) (\<lambda>g.
         Some (g\<lparr>ready := ready g @ filter (is_ready g) oids\<rparr>))))"

section \<open>Leases, outcomes and cancellation\<close>

record running_lease =
  rl_id :: op_id
  rl_class :: resource_class
  rl_permit :: bool

text \<open>
  \<open>mark\<close>: an already terminal task is never overwritten.
\<close>

definition mark_task :: "task_status \<Rightarrow> string option \<Rightarrow> int \<Rightarrow> sched_task \<Rightarrow> sched_task" where
  "mark_task status error now t =
     (if status_is_terminal (ts_status t) then t
      else t\<lparr>ts_status := status, ts_error := error, ts_end_ms := Some now\<rparr>)"

definition mark :: "op_id \<Rightarrow> task_status \<Rightarrow> string option \<Rightarrow> int \<Rightarrow> sched_inner \<Rightarrow> sched_inner" where
  "mark oid status error now = upd_task oid (mark_task status error now)"

text \<open>
  The first \<open>settle\<close> of a lease (later ones do nothing: the lease is consumed).
\<close>

definition abort_task :: "int \<Rightarrow> sched_task \<Rightarrow> sched_task" where
  "abort_task now t =
     (if ts_status t = Sched_Running then t\<lparr>ts_status := Sched_Cancelled, ts_end_ms := Some now\<rparr> else t)"

definition settle :: "running_lease \<Rightarrow> int \<Rightarrow> sched_inner \<Rightarrow> sched_inner option" where
  "settle l now g =
     Option.bind (if rl_permit l then gauge_release (rl_class l) (gauge g) else Some (gauge g)) (\<lambda>ga.
     terminalize (rl_id l) (upd_task (rl_id l) (abort_task now) (g\<lparr>gauge := ga\<rparr>)))"

definition set_cancelled :: "sched_task \<Rightarrow> sched_task" where
  "set_cancelled t = t\<lparr>ts_op := (ts_op t)\<lparr>so_meta := (so_meta (ts_op t))\<lparr>om_cancelled := True\<rparr>\<rparr>\<rparr>"

definition try_cancel :: "op_id \<Rightarrow> sched_inner \<Rightarrow> (error_kind + sched_inner) option" where
  "try_cancel oid g =
     (case get_task g oid of
        None \<Rightarrow> Some (Inl NotFound)
      | Some t \<Rightarrow>
          if status_is_terminal (ts_status t) then Some (Inl Conflict)
          else
            (let g = upd_task oid set_cancelled g
             in if ts_status t = Sched_Pending
                then map_option Inr (terminalize oid (upd_task oid (\<lambda>t. t\<lparr>ts_status := Sched_Cancelled\<rparr>) g))
                else Some (Inr g)))"

section \<open>The ready-queue scan\<close>

definition conflicts :: "(string \<Rightarrow> string) \<Rightarrow> scheduled_op \<Rightarrow> ownership_set \<times> ownership_set \<Rightarrow> bool" where
  "conflicts norm op rw \<longleftrightarrow>
     overlaps norm (so_writes op) (snd rw) \<or> overlaps norm (so_writes op) (fst rw)
     \<or> overlaps norm (so_reads op) (snd rw)"

definition start_task :: "int \<Rightarrow> sched_task \<Rightarrow> sched_task" where
  "start_task now t = t\<lparr>ts_status := Sched_Running, ts_start_ms := now\<rparr>"

definition start :: "op_id \<Rightarrow> scheduled_op \<Rightarrow> int \<Rightarrow> resource_gauge \<Rightarrow> sched_inner \<Rightarrow> sched_inner" where
  "start oid op now ga g =
     (let g = upd_task oid (start_task now) (g\<lparr>gauge := ga\<rparr>)
      in g\<lparr>running := (oid, (so_reads op, so_writes op)) # filter (\<lambda>e. fst e \<noteq> oid) (running g)\<rparr>)"

text \<open>
  One locked pass over the ready queue. \<open>budget\<close> is \<open>n - deferred\<close>; a deferred entry goes back to
  the tail. The leases of the tasks that were started are collected in order.
\<close>

function scan ::
    "(string \<Rightarrow> string) \<Rightarrow> resource_limits \<Rightarrow> int \<Rightarrow> nat \<Rightarrow> sched_inner \<times> running_lease list
     \<Rightarrow> (sched_inner \<times> running_lease list) option" where
  "scan norm limits now budget (g, started) =
     (if budget = 0 then Some (g, started)
      else
        (case ready g of
           [] \<Rightarrow> Some (g, started)
         | oid # rest \<Rightarrow>
             (case get_task g oid of
                None \<Rightarrow> None
              | Some t \<Rightarrow>
                  if ts_status t \<noteq> Sched_Pending \<or> ts_remaining t \<noteq> 0
                  then scan norm limits now budget (g\<lparr>ready := rest\<rparr>, started)
                  else if list_ex (\<lambda>e. conflicts norm (ts_op t) (snd e)) (running g)
                  then scan norm limits now (budget - 1) (g\<lparr>ready := rest @ [oid]\<rparr>, started)
                  else
                    (case try_acquire (so_class (ts_op t)) limits (gauge g) of
                       Inl _ \<Rightarrow> scan norm limits now (budget - 1) (g\<lparr>ready := rest @ [oid]\<rparr>, started)
                     | Inr ga \<Rightarrow>
                         scan norm limits now budget
                           (start oid (ts_op t) now ga (g\<lparr>ready := rest\<rparr>),
                            started @ [\<lparr>rl_id = oid, rl_class = so_class (ts_op t), rl_permit = True\<rparr>])))))"
  by pat_completeness auto

lemma ready_start [simp]: "ready (start oid op now ga g) = ready g"
  by (simp add: start_def upd_task_def Let_def)

termination scan
  by (relation "measure (\<lambda>(norm, limits, now, budget, g, started). budget + length (ready g))") auto

definition schedule_pass ::
    "(string \<Rightarrow> string) \<Rightarrow> resource_limits \<Rightarrow> int \<Rightarrow> sched_inner \<Rightarrow> (sched_inner \<times> running_lease list) option" where
  "schedule_pass norm limits now g = scan norm limits now (length (ready g)) (g, [])"

lemma scan_shrinks:
  "scan norm limits now budget (g, started) = Some (g', started') \<Longrightarrow>
   length (ready g') + length started' \<le> length (ready g) + length started"
proof (induction norm limits now budget "(g, started)" arbitrary: g started rule: scan.induct)
  case (1 norm limits now budget g started)
  show ?case
  proof (cases "budget = 0 \<or> ready g = []")
    case True
    then show ?thesis using 1(5) by (auto simp: scan.simps [of _ _ _ _ g] split: if_splits)
  next
    case False
    then obtain oid rest where r: "ready g = oid # rest" "budget \<noteq> 0" by (cases "ready g") auto
    with 1(5) obtain t where t: "get_task g oid = Some t" by (cases "get_task g oid") auto
    consider (skip) "ts_status t \<noteq> Sched_Pending \<or> ts_remaining t \<noteq> 0"
      | (clash) "ts_status t = Sched_Pending" "ts_remaining t = 0"
          "list_ex (\<lambda>e. conflicts norm (ts_op t) (snd e)) (running g)"
      | (go) "ts_status t = Sched_Pending" "ts_remaining t = 0"
          "\<not> list_ex (\<lambda>e. conflicts norm (ts_op t) (snd e)) (running g)" by blast
    then show ?thesis
    proof cases
      case skip
      then show ?thesis using 1(1) [OF r(2,1) t] 1(5) r t by simp
    next
      case clash
      then show ?thesis using 1(2) [OF r(2,1) t] 1(5) r t by simp
    next
      case go
      then show ?thesis
        using 1(3) [OF r(2,1) t] 1(4) [OF r(2,1) t] 1(5) r t
        by (cases "try_acquire (so_class (ts_op t)) limits (gauge g)") simp_all
    qed
  qed
qed

text \<open>
  \<open>schedule_ready\<close> repeats the locked pass until one starts nothing, here with
  one clock reading for all passes. A pass that starts a task shortens the ready queue, so the loop ends. Between two
  passes the lock is free and other operations may run; the step relation of the scheduler
  therefore has single passes.
\<close>

function schedule_ready ::
    "(string \<Rightarrow> string) \<Rightarrow> resource_limits \<Rightarrow> int \<Rightarrow> sched_inner \<times> running_lease list
     \<Rightarrow> (sched_inner \<times> running_lease list) option" where
  "schedule_ready norm limits now (g, spawned) =
     (case schedule_pass norm limits now g of
        None \<Rightarrow> None
      | Some (g', to_spawn) \<Rightarrow>
          if to_spawn = [] then Some (g', spawned)
          else schedule_ready norm limits now (g', spawned @ to_spawn))"
  by pat_completeness auto

termination schedule_ready
proof (relation "measure (\<lambda>(norm, limits, now, g, spawned). length (ready g))", goal_cases)
  case (2 norm limits now g spawned x g' to_spawn)
  then have "schedule_pass norm limits now g = Some (g', to_spawn)" by simp
  then have "length (ready g') + length to_spawn \<le> length (ready g)"
    using scan_shrinks [of norm limits now "length (ready g)" g "[]"] by (simp add: schedule_pass_def)
  moreover have "0 < length to_spawn" using 2(3) by simp
  ultimately have "length (ready g') < length (ready g)" by linarith
  then show ?case by simp
qed simp

section \<open>The decisions of the driver loop\<close>

text \<open>
  What \<open>run_to_completion\<close> decides when the ready queue was drained and no spawned task is left.
\<close>

datatype idle_decision = Finished "op_id list" | Rebuild_Once | Run_Error error_kind

definition done_ids :: "sched_inner \<Rightarrow> op_id list" where
  "done_ids g = sort (map fst (filter (\<lambda>e. ts_status (snd e) = Sched_Done) (tasks g)))"

definition idle_verdict :: "bool \<Rightarrow> sched_inner \<Rightarrow> idle_decision" where
  "idle_verdict rebuilt_once g =
     (let any_pending = list_ex (\<lambda>e. ts_status (snd e) = Sched_Pending) (tasks g)
      in if \<not> any_pending then Finished (done_ids g)
         else if \<not> rebuilt_once then Rebuild_Once
         else Run_Error Deadlock)"

end
