(* ===== verification/Scheduler_Runs.thy ===== *)
theory Scheduler_Runs
  imports Scheduler_Graph
begin

text \<open>
  The scheduler as a transition system and what holds in every reachable state: terminal states
  are final, a task is terminalized at most once, permits are conserved and bounded, the running
  tasks have disjoint ownership, and a task is started only when every dependency satisfies the
  policy of its edge.
\<close>

section \<open>Looking up and updating tasks\<close>

lemma get_task_upd [simp]:
  "get_task (upd_task oid f g) k = (if k = oid then map_option f (get_task g k) else get_task g k)"
proof -
  have "map_of (map (upd_at oid f) m) k = (if k = oid then map_option f (map_of m k) else map_of m k)" for m
    by (induction m) (auto simp: upd_at_def)
  then show ?thesis by (simp add: get_task_def upd_task_def)
qed

lemma upd_task_frame [simp]:
  "gauge (upd_task oid f g) = gauge g" "ready (upd_task oid f g) = ready g"
  "running (upd_task oid f g) = running g" "terminalized (upd_task oid f g) = terminalized g"
  by (simp_all add: upd_task_def)

lemma keys_upd [simp]: "map fst (tasks (upd_task oid f g)) = map fst (tasks g)"
  by (simp add: upd_task_def comp_def)

lemma get_task_other [simp]:
  "get_task (g\<lparr>ready := r\<rparr>) = get_task g" "get_task (g\<lparr>gauge := ga\<rparr>) = get_task g"
  "get_task (g\<lparr>running := ru\<rparr>) = get_task g" "get_task (g\<lparr>terminalized := te\<rparr>) = get_task g"
  "get_task (remove_running oid g) = get_task g"
  by (simp_all add: get_task_def fun_eq_iff remove_running_def)

lemma get_task_key: "get_task g k = Some t \<Longrightarrow> k \<in> set (map fst (tasks g))"
  by (auto simp: get_task_def dest: map_of_SomeD intro: rev_image_eqI)

lemma key_get_task: "k \<in> set (map fst (tasks g)) \<Longrightarrow> \<exists>t. get_task g k = Some t"
  by (metis get_task_def map_of_eq_None_iff not_None_eq set_map)

lemma edge_satisfied_terminal: "edge_satisfied p s \<Longrightarrow> status_is_terminal s"
  by (cases p) (auto simp: status_is_terminal_def)

section \<open>What terminal notification leaves alone\<close>

text \<open>
  Notifying dependents changes only counters, pushes ready tasks, and turns pending tasks into
  blocked ones.
\<close>

definition quiet_task :: "sched_task \<Rightarrow> sched_task \<Rightarrow> bool" where
  "quiet_task t t' \<longleftrightarrow> ts_op t' = ts_op t \<and> ts_dependents t' = ts_dependents t \<and>
     (ts_status t' = ts_status t \<or> ts_status t = Sched_Pending \<and> ts_status t' = Sched_Blocked) \<and>
     ((0 < ts_blocked t \<longrightarrow> ts_status t \<noteq> Sched_Pending) \<longrightarrow>
      (0 < ts_blocked t' \<longrightarrow> ts_status t' \<noteq> Sched_Pending))"

definition quiet :: "sched_inner \<Rightarrow> sched_inner \<Rightarrow> bool" where
  "quiet g g' \<longleftrightarrow> map fst (tasks g') = map fst (tasks g) \<and> gauge g' = gauge g \<and>
     running g' = running g \<and> terminalized g' = terminalized g \<and>
     set (ready g') \<subseteq> set (ready g) \<union> set (map fst (tasks g)) \<and>
     (\<forall>k. rel_option quiet_task (get_task g k) (get_task g' k))"

lemma quiet_task_refl: "quiet_task t t"
  by (simp add: quiet_task_def)

lemma quiet_task_trans: "quiet_task a b \<Longrightarrow> quiet_task b c \<Longrightarrow> quiet_task a c"
  by (auto simp: quiet_task_def)

lemma quiet_refl: "quiet g g"
  by (simp add: quiet_def option.rel_refl quiet_task_refl)

lemma rel_option_quiet_trans:
  "rel_option quiet_task x y \<Longrightarrow> rel_option quiet_task y z \<Longrightarrow> rel_option quiet_task x z"
  by (cases x; cases y; cases z) (auto intro: quiet_task_trans)

lemma quiet_trans:
  assumes "quiet a b" and "quiet b c"
  shows "quiet a c"
proof -
  have "rel_option quiet_task (get_task a k) (get_task c k)" for k
    using assms rel_option_quiet_trans unfolding quiet_def by blast
  then show ?thesis using assms unfolding quiet_def by auto
qed

lemma quiet_upd:
  assumes "\<And>t. quiet_task t (f t)"
  shows "quiet g (upd_task oid f g)"
proof -
  have "rel_option quiet_task (get_task g k) (get_task (upd_task oid f g) k)" for k
    using assms by (cases "get_task g k") (auto simp: quiet_task_refl)
  then show ?thesis by (auto simp: quiet_def)
qed

lemma quiet_release: "quiet g (release_dep d g)"
proof (cases "get_task g d")
  case (Some t)
  let ?f = "\<lambda>t. t\<lparr>ts_remaining := ts_remaining t - 1\<rparr>"
  have q: "quiet g (upd_task d ?f g)" by (rule quiet_upd) (simp add: quiet_task_def)
  moreover have "quiet (upd_task d ?f g) ((upd_task d ?f g)\<lparr>ready := ready g @ [d]\<rparr>)"
    using get_task_key [OF Some]
    by (auto simp: quiet_def option.rel_refl quiet_task_refl simp del: set_map)
  ultimately show ?thesis
    using Some by (auto simp: release_dep_def Let_def intro: quiet_trans)
qed (simp add: release_dep_def quiet_refl)

lemma quiet_block: "quiet g (fst (block_dep d (g, w)))"
  by (cases "get_task g d")
    (auto simp: block_dep_def quiet_refl intro!: quiet_upd simp: quiet_task_def block_task_def)

lemma quiet_notify_sub: "quiet (fst s) (fst (notify_sub e s))"
  by (cases s) (auto simp: notify_sub_def quiet_release quiet_block split: dependency_policy.splits)

lemma quiet_notify_edge: "quiet (fst s) (fst (notify_edge u e s))"
  by (cases s) (auto simp: notify_edge_def quiet_release quiet_block quiet_refl)

lemma quiet_fold:
  "(\<And>e s. quiet (fst s) (fst (f e s))) \<Longrightarrow> quiet (fst s) (fst (fold f es s))"
proof (induction es arbitrary: s)
  case (Cons e es)
  have "quiet (fst s) (fst (f e s))" by (rule Cons.prems)
  moreover have "quiet (fst (f e s)) (fst (fold f es (f e s)))" by (rule Cons.IH [OF Cons.prems])
  ultimately show ?case by (simp add: quiet_trans [of "fst s"])
qed (simp add: quiet_refl)

lemma quiet_block_loop: "quiet g (block_loop g w)"
proof (induction g w rule: block_loop.induct)
  case (2 g oid w)
  obtain g' w' where f: "fold notify_sub (dependents_of g oid) (g, w) = (g', w')" by fastforce
  have "quiet g g'" using quiet_fold [of notify_sub "(g, w)", OF quiet_notify_sub] f by (metis fst_conv)
  with "2.IH" f show ?case by (auto intro: quiet_trans)
qed (simp add: quiet_refl)

text \<open>The state in which the dependents of a terminal task are notified.\<close>

definition settled_state :: "op_id \<Rightarrow> sched_inner \<Rightarrow> sched_inner" where
  "settled_state oid g =
     upd_task oid (\<lambda>t. t\<lparr>ts_dependents := []\<rparr>)
       (remove_running oid (g\<lparr>terminalized := (terminalized g)(oid \<mapsto> 1)\<rparr>))"

lemma quiet_terminalize_first: "quiet (settled_state oid g) (terminalize_first oid t g)"
proof -
  obtain g' w where f: "fold (notify_edge (ts_status t)) (ts_dependents t) (settled_state oid g, []) = (g', w)"
    by fastforce
  have "quiet (settled_state oid g) g'"
    using quiet_fold [of "notify_edge (ts_status t)" "(settled_state oid g, [])", OF quiet_notify_edge] f
    by (metis fst_conv)
  with f quiet_block_loop show ?thesis
    by (auto simp: terminalize_first_def settled_state_def Let_def intro: quiet_trans)
qed

section \<open>Unsatisfied edges and the counters\<close>

definition sat :: "sched_inner \<Rightarrow> op_id \<times> dependency_policy \<Rightarrow> bool" where
  "sat g e = (case task_status_of g (fst e) of None \<Rightarrow> False | Some s \<Rightarrow> edge_satisfied (snd e) s)"

definition unsat :: "sched_inner \<Rightarrow> sched_task \<Rightarrow> nat" where
  "unsat g t = length (filter (\<lambda>e. \<not> sat g e) (so_dependencies (ts_op t)))"

text \<open>
  \<open>debt_ok g Q\<close>: the counters of every task cover its unsatisfied edges and the decrements still to
  come, which \<open>Q\<close> lists with multiplicity.
\<close>

definition debt_ok :: "sched_inner \<Rightarrow> op_id list \<Rightarrow> bool" where
  "debt_ok g Q \<longleftrightarrow> (\<forall>k t. get_task g k = Some t \<longrightarrow>
     unsat g t + count_list Q k \<le> ts_remaining t + ts_blocked t)"

text \<open>\<open>links_ok\<close>: a recorded dependent edge is one of the dependent's declared edges.\<close>

definition dep_count :: "sched_inner \<Rightarrow> op_id \<Rightarrow> op_id \<times> dependency_policy \<Rightarrow> nat" where
  "dep_count g k e = (case get_task g k of None \<Rightarrow> 0 | Some t \<Rightarrow> count_list (so_dependencies (ts_op t)) e)"

definition links_ok :: "sched_inner \<Rightarrow> bool" where
  "links_ok g \<longleftrightarrow> (\<forall>d t k p. get_task g d = Some t \<longrightarrow>
     count_list (ts_dependents t) (k, p) \<le> dep_count g k (d, p))"

text \<open>The decrements a task in state \<open>s\<close> owes to the dependents recorded on it.\<close>

definition owes :: "task_status \<Rightarrow> (op_id \<times> dependency_policy) list \<Rightarrow> op_id list" where
  "owes s deps = map fst (filter (\<lambda>e. edge_satisfied (snd e) s) deps)"

lemma sum_policies:
  fixes P :: "dependency_policy \<Rightarrow> bool"
  shows "length (filter (\<lambda>e. fst e = k \<and> P (snd e)) L) =
     (if P Policy_Success then count_list L (k, Policy_Success) else 0) +
     (if P Policy_Terminal then count_list L (k, Policy_Terminal) else 0) +
     (if P Policy_Always then count_list L (k, Policy_Always) else 0)"
proof (induction L)
  case (Cons e L)
  obtain i p where "e = (i, p)" by (cases e)
  with Cons show ?case by (cases p) auto
qed simp

lemma count_owes: "count_list (owes s deps) k = length (filter (\<lambda>e. fst e = k \<and> edge_satisfied (snd e) s) deps)"
  by (induction deps) (auto simp: owes_def)

lemma count_owes_le:
  assumes "links_ok g" and "get_task g d = Some td" and "get_task g k = Some t"
  shows "count_list (owes s (ts_dependents td)) k
    \<le> length (filter (\<lambda>e. fst e = d \<and> edge_satisfied (snd e) s) (so_dependencies (ts_op t)))"
proof -
  have "count_list (ts_dependents td) (k, p) \<le> count_list (so_dependencies (ts_op t)) (d, p)" for p
  proof -
    have "count_list (ts_dependents td) (k, p) \<le> dep_count g k (d, p)"
      using assms(1,2) by (simp add: links_ok_def)
    then show ?thesis using assms(3) by (simp add: dep_count_def)
  qed
  then show ?thesis unfolding count_owes sum_policies [where P = "\<lambda>p. edge_satisfied p s"] by (intro add_mono) auto
qed

text \<open>
  A task \<open>d\<close> in a state that satisfies no edge moves to the state \<open>s\<close>: what becomes satisfied is at
  least what \<open>d\<close> now owes.
\<close>

lemma filter_split: "length (filter P xs) = length (filter (\<lambda>x. P x \<and> Q x) xs) + length (filter (\<lambda>x. P x \<and> \<not> Q x) xs)"
  by (induction xs) auto

lemma unsat_flip:
  assumes "task_status_of g d = Some s0" and "\<not> status_is_terminal s0"
    and "\<And>e. sat g' e = (if fst e = d then edge_satisfied (snd e) s else sat g e)"
    and "so_dependencies (ts_op t') = so_dependencies (ts_op t)"
  shows "unsat g' t' + length (filter (\<lambda>e. fst e = d \<and> edge_satisfied (snd e) s) (so_dependencies (ts_op t)))
    = unsat g t"
proof -
  let ?D = "so_dependencies (ts_op t)"
  have none: "fst e = d \<Longrightarrow> \<not> sat g e" for e
    using assms(1,2) edge_satisfied_terminal by (auto simp: sat_def)
  have "length (filter (\<lambda>e. \<not> sat g e) ?D) =
      length (filter (\<lambda>e. \<not> sat g e \<and> \<not> sat g' e) ?D) + length (filter (\<lambda>e. \<not> sat g e \<and> \<not> \<not> sat g' e) ?D)"
    by (rule filter_split)
  moreover have "(\<lambda>e. \<not> sat g e \<and> \<not> sat g' e) = (\<lambda>e. \<not> sat g' e)"
    using none assms(3) by (auto simp: fun_eq_iff)
  moreover have "(\<lambda>e. \<not> sat g e \<and> \<not> \<not> sat g' e) = (\<lambda>e. fst e = d \<and> edge_satisfied (snd e) s)"
    using none assms(3) by (auto simp: fun_eq_iff)
  ultimately show ?thesis by (simp add: unsat_def assms(4))
qed

lemma sat_upd_status:
  assumes "\<And>t. get_task g d = Some t \<Longrightarrow> ts_status (f t) = s" and "get_task g d \<noteq> None"
  shows "sat (upd_task d f g) e = (if fst e = d then edge_satisfied (snd e) s else sat g e)"
  using assms by (auto simp: sat_def task_status_of_def)

lemma debt_flip:
  assumes debt: "debt_ok g Q" and links: "links_ok g" and d: "get_task g d = Some td"
    and nt: "\<not> status_is_terminal (ts_status td)"
    and f: "ts_status (f td) = s" "so_dependencies (ts_op (f td)) = so_dependencies (ts_op td)"
      "ts_remaining td + ts_blocked td \<le> ts_remaining (f td) + ts_blocked (f td)"
  shows "debt_ok (upd_task d f g) (owes s (ts_dependents td) @ Q)"
proof (unfold debt_ok_def, intro allI impI)
  fix k t' assume k: "get_task (upd_task d f g) k = Some t'"
  let ?g = "upd_task d f g"
  obtain t where t: "get_task g k = Some t" and t': "t' = (if k = d then f t else t)"
    using k by (auto split: if_splits)
  then have op: "so_dependencies (ts_op t') = so_dependencies (ts_op t)" and rem: "ts_remaining t + ts_blocked t \<le> ts_remaining t' + ts_blocked t'"
    using d f by (auto split: if_splits)
  have sat': "sat ?g e = (if fst e = d then edge_satisfied (snd e) s else sat g e)" for e
    using d f(1) by (intro sat_upd_status) auto
  have "unsat ?g t' + length (filter (\<lambda>e. fst e = d \<and> edge_satisfied (snd e) s) (so_dependencies (ts_op t)))
      = unsat g t"
    by (rule unsat_flip [OF _ nt sat' op]) (use d in \<open>simp add: task_status_of_def\<close>)
  moreover have "count_list (owes s (ts_dependents td)) k
      \<le> length (filter (\<lambda>e. fst e = d \<and> edge_satisfied (snd e) s) (so_dependencies (ts_op t)))"
    by (rule count_owes_le [OF links d t])
  moreover have "unsat g t + count_list Q k \<le> ts_remaining t + ts_blocked t"
    using debt t by (simp add: debt_ok_def)
  ultimately show "unsat ?g t' + count_list (owes s (ts_dependents td) @ Q) k \<le> ts_remaining t' + ts_blocked t'"
    using rem by simp
qed

text \<open>A change that keeps every status and every operation keeps the satisfied edges.\<close>

lemma sat_upd_same:
  "(\<And>t. ts_status (f t) = ts_status t) \<Longrightarrow> sat (upd_task d f g) = sat g"
  by (auto simp: sat_def task_status_of_def fun_eq_iff split: option.splits)

lemma sat_frame [simp]:
  "sat (g\<lparr>ready := r\<rparr>) = sat g" "sat (g\<lparr>gauge := ga\<rparr>) = sat g" "sat (g\<lparr>running := ru\<rparr>) = sat g"
  "sat (g\<lparr>terminalized := te\<rparr>) = sat g" "sat (remove_running oid g) = sat g"
  by (auto simp: sat_def task_status_of_def fun_eq_iff)

lemma debt_frame [simp]:
  "debt_ok (g\<lparr>ready := r\<rparr>) Q = debt_ok g Q" "debt_ok (g\<lparr>gauge := ga\<rparr>) Q = debt_ok g Q"
  "debt_ok (g\<lparr>running := ru\<rparr>) Q = debt_ok g Q" "debt_ok (g\<lparr>terminalized := te\<rparr>) Q = debt_ok g Q"
  "debt_ok (remove_running oid g) Q = debt_ok g Q"
  by (simp_all add: debt_ok_def unsat_def)

lemma links_frame [simp]:
  "links_ok (g\<lparr>ready := r\<rparr>) = links_ok g" "links_ok (g\<lparr>gauge := ga\<rparr>) = links_ok g"
  "links_ok (g\<lparr>running := ru\<rparr>) = links_ok g" "links_ok (g\<lparr>terminalized := te\<rparr>) = links_ok g"
  "links_ok (remove_running oid g) = links_ok g"
  by (simp_all add: links_ok_def dep_count_def)

lemma quiet_links: "quiet g g' \<Longrightarrow> links_ok g \<Longrightarrow> links_ok g'"
proof (unfold links_ok_def, intro allI impI)
  fix d t' k p
  assume q: "quiet g g'" and links: "\<forall>d t k p. get_task g d = Some t \<longrightarrow>
      count_list (ts_dependents t) (k, p) \<le> dep_count g k (d, p)" and d: "get_task g' d = Some t'"
  have rel: "rel_option quiet_task (get_task g i) (get_task g' i)" for i using q by (simp add: quiet_def)
  obtain t where t: "get_task g d = Some t" "quiet_task t t'" using rel [of d] d by (cases "get_task g d") auto
  have "dep_count g k (d, p) = dep_count g' k (d, p)"
    using rel [of k] by (cases "get_task g k"; cases "get_task g' k") (auto simp: dep_count_def quiet_task_def)
  moreover have "count_list (ts_dependents t) (k, p) \<le> dep_count g k (d, p)" using links t(1) by blast
  ultimately show "count_list (ts_dependents t') (k, p) \<le> dep_count g' k (d, p)"
    using t(2) by (simp add: quiet_task_def)
qed

lemma debt_release:
  assumes "debt_ok g (k # Q)"
  shows "debt_ok (release_dep k g) Q"
proof (cases "get_task g k")
  case None
  have "debt_ok g Q" using assms by (fastforce simp: debt_ok_def split: if_splits)
  with None show ?thesis by (simp add: release_dep_def)
next
  case (Some t)
  let ?f = "\<lambda>t. t\<lparr>ts_remaining := ts_remaining t - 1\<rparr>"
  have "debt_ok (upd_task k ?f g) Q"
  proof (unfold debt_ok_def, intro allI impI)
    fix i t' assume i: "get_task (upd_task k ?f g) i = Some t'"
    then obtain t where t: "get_task g i = Some t" "t' = (if i = k then ?f t else t)" by (auto split: if_splits)
    have "sat (upd_task k ?f g) = sat g" by (rule sat_upd_same) simp
    then have "unsat (upd_task k ?f g) t' = unsat g t" using t by (simp add: unsat_def)
    moreover have "unsat g t + count_list (k # Q) i \<le> ts_remaining t + ts_blocked t"
      using assms t by (simp add: debt_ok_def)
    ultimately show "unsat (upd_task k ?f g) t' + count_list Q i \<le> ts_remaining t' + ts_blocked t'"
      using t(2) by (auto split: if_splits)
  qed
  with Some show ?thesis by (auto simp: release_dep_def Let_def)
qed

section \<open>Notification pays exactly what is owed\<close>

lemma notify_sub_blocked: "notify_sub = notify_edge Sched_Blocked"
  by (auto simp: notify_sub_def notify_edge_def fun_eq_iff split: dependency_policy.splits)

definition wl_owes :: "sched_inner \<Rightarrow> op_id list \<Rightarrow> op_id list" where
  "wl_owes g W = concat (map (\<lambda>x. owes Sched_Blocked (dependents_of g x)) W)"

lemma quiet_dependents: "quiet g g' \<Longrightarrow> dependents_of g' = dependents_of g"
proof
  fix x assume "quiet g g'"
  then have "rel_option quiet_task (get_task g x) (get_task g' x)" by (simp add: quiet_def)
  then show "dependents_of g' x = dependents_of g x"
    by (cases "get_task g x"; cases "get_task g' x") (auto simp: dependents_of_def quiet_task_def)
qed

lemma quiet_wl_owes: "quiet g g' \<Longrightarrow> wl_owes g' = wl_owes g"
  by (simp add: wl_owes_def fun_eq_iff quiet_dependents)

lemma debt_mono: "debt_ok g Q \<Longrightarrow> (\<And>k. count_list Q' k \<le> count_list Q k) \<Longrightarrow> debt_ok g Q'"
  unfolding debt_ok_def by (meson add_le_mono le_trans order_refl)

lemma debt_more_blocked:
  assumes "debt_ok g Q" and "\<And>t. get_task g d = Some t \<Longrightarrow> ts_status (f t) = ts_status t \<and> ts_op (f t) = ts_op t
      \<and> ts_remaining t + ts_blocked t \<le> ts_remaining (f t) + ts_blocked (f t)"
  shows "debt_ok (upd_task d f g) Q"
proof (unfold debt_ok_def, intro allI impI)
  fix k t' assume "get_task (upd_task d f g) k = Some t'"
  then obtain t where t: "get_task g k = Some t" "t' = (if k = d then f t else t)" by (auto split: if_splits)
  have "sat (upd_task d f g) = sat g"
    using assms(2) by (auto simp: sat_def task_status_of_def fun_eq_iff split: option.splits)
  moreover have "ts_op t' = ts_op t" using assms(2) t by (auto split: if_splits)
  ultimately have "unsat (upd_task d f g) t' = unsat g t" by (simp add: unsat_def)
  moreover have "unsat g t + count_list Q k \<le> ts_remaining t + ts_blocked t"
    using assms(1) t by (simp add: debt_ok_def)
  moreover have "ts_remaining t + ts_blocked t \<le> ts_remaining t' + ts_blocked t'"
    using assms(2) t by (auto split: if_splits)
  ultimately show "unsat (upd_task d f g) t' + count_list Q k \<le> ts_remaining t' + ts_blocked t'" by simp
qed

lemma debt_block:
  assumes debt: "debt_ok g (Q @ wl_owes g W @ R)" and links: "links_ok g"
    and b: "block_dep d (g, W) = (g', W')"
  shows "debt_ok g' (Q @ wl_owes g' W' @ R)"
proof (cases "get_task g d")
  case None
  with b debt show ?thesis by (simp add: block_dep_def)
next
  case (Some t)
  then have g': "g' = upd_task d block_task g" using b by (simp add: block_dep_def)
  have q: "quiet g g'" using quiet_block [of g d W] b by simp
  show ?thesis
  proof (cases "ts_status t = Sched_Pending")
    case True
    then have W': "W' = d # W" using b Some by (simp add: block_dep_def)
    have "debt_ok g' (owes Sched_Blocked (ts_dependents t) @ Q @ wl_owes g W @ R)"
      unfolding g' using debt links Some True
      by (intro debt_flip) (auto simp: block_task_def status_is_terminal_def)
    moreover have "wl_owes g' W' = owes Sched_Blocked (ts_dependents t) @ wl_owes g W"
      using Some W' q by (simp add: quiet_wl_owes) (simp add: wl_owes_def dependents_of_def)
    ultimately show ?thesis by (auto elim: debt_mono)
  next
    case False
    then have "W' = W" using b Some by (simp add: block_dep_def)
    moreover have "debt_ok g' (Q @ wl_owes g W @ R)"
      unfolding g' using debt Some False
      by (intro debt_more_blocked) (auto simp: block_task_def)
    ultimately show ?thesis using q by (simp add: quiet_wl_owes)
  qed
qed

lemma debt_notify_edge:
  assumes debt: "debt_ok g (owes u (e # L) @ wl_owes g W @ R)" and links: "links_ok g"
    and n: "notify_edge u e (g, W) = (g', W')"
  shows "debt_ok g' (owes u L @ wl_owes g' W' @ R)"
proof (cases "edge_satisfied (snd e) u")
  case True
  then have "debt_ok g (fst e # owes u L @ wl_owes g W @ R)" using debt by (simp add: owes_def)
  then have "debt_ok (release_dep (fst e) g) (owes u L @ wl_owes g W @ R)" by (rule debt_release)
  with True n show ?thesis by (auto simp: notify_edge_def quiet_wl_owes [OF quiet_release])
next
  case False
  then have debt': "debt_ok g (owes u L @ wl_owes g W @ R)" using debt by (simp add: owes_def)
  with False n debt_block [OF debt' links] show ?thesis by (auto simp: notify_edge_def split: if_splits)
qed

lemma debt_notify_edges:
  assumes "debt_ok g (owes u L @ wl_owes g W @ R)" and "links_ok g"
    and "fold (notify_edge u) L (g, W) = (g', W')"
  shows "debt_ok g' (wl_owes g' W' @ R) \<and> links_ok g'"
  using assms
proof (induction L arbitrary: g W)
  case Nil
  then show ?case by (simp add: owes_def)
next
  case (Cons e L)
  obtain g1 W1 where n: "notify_edge u e (g, W) = (g1, W1)" by fastforce
  have "links_ok g1" using quiet_notify_edge [of "(g, W)" u e] n Cons.prems(2) quiet_links by fastforce
  moreover have "debt_ok g1 (owes u L @ wl_owes g1 W1 @ R)"
    by (rule debt_notify_edge [OF Cons.prems(1,2) n])
  ultimately show ?case using Cons.IH Cons.prems(3) n by simp
qed

lemma debt_block_loop:
  "debt_ok g (wl_owes g W @ R) \<Longrightarrow> links_ok g \<Longrightarrow> debt_ok (block_loop g W) R \<and> links_ok (block_loop g W)"
proof (induction g W rule: block_loop.induct)
  case (1 g)
  then show ?case by (simp add: wl_owes_def)
next
  case (2 g oid W)
  obtain g' W' where f: "fold notify_sub (dependents_of g oid) (g, W) = (g', W')" by fastforce
  have "debt_ok g (owes Sched_Blocked (dependents_of g oid) @ wl_owes g W @ R)"
    using "2.prems"(1) by (simp add: wl_owes_def)
  then have "debt_ok g' (wl_owes g' W' @ R) \<and> links_ok g'"
    using "2.prems"(2) f unfolding notify_sub_blocked by (rule debt_notify_edges)
  with "2.IH" f show ?case by auto
qed

lemma links_settled_state: "links_ok g \<Longrightarrow> links_ok (settled_state oid g)"
proof -
  assume links: "links_ok g"
  have dc: "dep_count (settled_state oid g) k e = dep_count g k e" for k e
    by (auto simp: dep_count_def settled_state_def split: option.splits)
  show ?thesis
    using links unfolding links_ok_def dc
    by (auto simp: settled_state_def split: if_splits)
qed

lemma debt_terminalize_first:
  assumes "debt_ok g (owes (ts_status t) (ts_dependents t) @ R)" and "links_ok g"
  shows "debt_ok (terminalize_first oid t g) R \<and> links_ok (terminalize_first oid t g)"
proof -
  obtain g' W where f: "fold (notify_edge (ts_status t)) (ts_dependents t) (settled_state oid g, []) = (g', W)"
    by fastforce
  have "debt_ok (settled_state oid g) (owes (ts_status t) (ts_dependents t) @ wl_owes (settled_state oid g) [] @ R)"
    unfolding settled_state_def using assms(1)
    by (intro debt_more_blocked) (auto simp: wl_owes_def)
  then have "debt_ok g' (wl_owes g' W @ R) \<and> links_ok g'"
    using links_settled_state [OF assms(2)] f by (rule debt_notify_edges)
  then have "debt_ok (block_loop g' W) R \<and> links_ok (block_loop g' W)" using debt_block_loop [of g' W R] by simp
  with f show ?thesis by (simp add: terminalize_first_def settled_state_def Let_def)
qed

section \<open>The graph invariant\<close>

definition blocked_ok :: "sched_task \<Rightarrow> bool" where
  "blocked_ok t \<longleftrightarrow> (0 < ts_blocked t \<longrightarrow> ts_status t \<noteq> Sched_Pending)"

definition ledger_ok :: "sched_inner \<Rightarrow> bool" where
  "ledger_ok g \<longleftrightarrow> (\<forall>k n. terminalized g k = Some n \<longrightarrow>
     n = 1 \<and> (\<exists>t. get_task g k = Some t \<and> status_is_terminal (ts_status t)))"

definition core_inv :: "sched_inner \<Rightarrow> bool" where
  "core_inv g \<longleftrightarrow> distinct (map fst (tasks g)) \<and> set (ready g) \<subseteq> set (map fst (tasks g)) \<and>
     (\<forall>k t. get_task g k = Some t \<longrightarrow> blocked_ok t) \<and> links_ok g \<and> ledger_ok g"

text \<open>
  What no operation takes back: a registered task stays registered with its declaration, and a
  terminal status is final.
\<close>

definition same_decl :: "scheduled_op \<Rightarrow> scheduled_op \<Rightarrow> bool" where
  "same_decl a b \<longleftrightarrow> so_dependencies a = so_dependencies b \<and> so_reads a = so_reads b
     \<and> so_writes a = so_writes b \<and> so_class a = so_class b"

definition evolves :: "sched_inner \<Rightarrow> sched_inner \<Rightarrow> bool" where
  "evolves g g' \<longleftrightarrow> (\<forall>k t. get_task g k = Some t \<longrightarrow>
     (\<exists>t'. get_task g' k = Some t' \<and> same_decl (ts_op t') (ts_op t) \<and>
        (status_is_terminal (ts_status t) \<longrightarrow> ts_status t' = ts_status t)))"

lemma evolves_refl: "evolves g g"
  by (simp add: evolves_def same_decl_def)

lemma evolvesE:
  assumes "evolves g g'" and "get_task g k = Some t"
  obtains t' where "get_task g' k = Some t'" and "same_decl (ts_op t') (ts_op t)"
    and "status_is_terminal (ts_status t) \<longrightarrow> ts_status t' = ts_status t"
  using assms unfolding evolves_def by blast

lemma evolves_trans:
  assumes "evolves a b" and "evolves b c"
  shows "evolves a c"
proof (unfold evolves_def, intro allI impI)
  fix k t assume "get_task a k = Some t"
  with assms(1) obtain u where u: "get_task b k = Some u" "same_decl (ts_op u) (ts_op t)"
    "status_is_terminal (ts_status t) \<longrightarrow> ts_status u = ts_status t" by (rule evolvesE)
  from assms(2) u(1) obtain v where v: "get_task c k = Some v" "same_decl (ts_op v) (ts_op u)"
    "status_is_terminal (ts_status u) \<longrightarrow> ts_status v = ts_status u" by (rule evolvesE)
  show "\<exists>t'. get_task c k = Some t' \<and> same_decl (ts_op t') (ts_op t) \<and>
      (status_is_terminal (ts_status t) \<longrightarrow> ts_status t' = ts_status t)"
    using u v by (auto simp: same_decl_def)
qed

lemma evolves_upd:
  assumes "\<And>t. get_task g d = Some t \<Longrightarrow> same_decl (ts_op (f t)) (ts_op t)
      \<and> (status_is_terminal (ts_status t) \<longrightarrow> ts_status (f t) = ts_status t)"
  shows "evolves g (upd_task d f g)"
  using assms by (auto simp: evolves_def same_decl_def)

lemma evolves_frame:
  "evolves g (g'\<lparr>ready := r\<rparr>) = evolves g g'" "evolves g (g'\<lparr>gauge := ga\<rparr>) = evolves g g'"
  "evolves g (g'\<lparr>running := ru\<rparr>) = evolves g g'" "evolves g (g'\<lparr>terminalized := te\<rparr>) = evolves g g'"
  "evolves g (remove_running oid g') = evolves g g'"
  by (simp_all add: evolves_def)

lemma evolves_sat: "evolves g g' \<Longrightarrow> sat g e \<Longrightarrow> sat g' e"
proof -
  assume ev: "evolves g g'" and s: "sat g e"
  from s obtain t where t: "get_task g (fst e) = Some t" "edge_satisfied (snd e) (ts_status t)"
    by (auto simp: sat_def task_status_of_def split: option.splits)
  from ev t(1) obtain t' where "get_task g' (fst e) = Some t'"
    "status_is_terminal (ts_status t) \<longrightarrow> ts_status t' = ts_status t" by (rule evolvesE)
  with t edge_satisfied_terminal show "sat g' e" by (auto simp: sat_def task_status_of_def)
qed

lemma evolves_unsat:
  assumes "evolves g g'" and "get_task g k = Some t" and "get_task g' k = Some t'" and "unsat g t = 0"
  shows "unsat g' t' = 0"
proof -
  have "so_dependencies (ts_op t') = so_dependencies (ts_op t)"
    using evolvesE [OF assms(1,2)] assms(3) by (metis option.inject same_decl_def)
  with assms(4) evolves_sat [OF assms(1)] show ?thesis by (auto simp: unsat_def filter_empty_conv)
qed

lemma quiet_evolves: "quiet g g' \<Longrightarrow> evolves g g'"
proof (unfold evolves_def, intro allI impI)
  fix k t assume "quiet g g'" "get_task g k = Some t"
  then obtain t' where "get_task g' k = Some t'" "quiet_task t t'"
    unfolding quiet_def by (metis option_rel_Some1)
  then show "\<exists>t'. get_task g' k = Some t' \<and> same_decl (ts_op t') (ts_op t) \<and>
      (status_is_terminal (ts_status t) \<longrightarrow> ts_status t' = ts_status t)"
    by (auto simp: quiet_task_def same_decl_def status_is_terminal_def)
qed

lemma quiet_core: "quiet g g' \<Longrightarrow> core_inv g \<Longrightarrow> core_inv g'"
proof -
  assume q: "quiet g g'" and inv: "core_inv g"
  have "blocked_ok t'" if k: "get_task g' k = Some t'" for k t'
  proof -
    obtain t where "get_task g k = Some t" "quiet_task t t'"
      using q k unfolding quiet_def by (metis option_rel_Some2)
    with inv show ?thesis by (auto simp: core_inv_def blocked_ok_def quiet_task_def)
  qed
  moreover have "ledger_ok g'"
  proof (unfold ledger_ok_def, intro allI impI)
    fix k n assume "terminalized g' k = Some n"
    then have "terminalized g k = Some n" using q by (simp add: quiet_def)
    then obtain t where "n = 1" "get_task g k = Some t" "status_is_terminal (ts_status t)"
      using inv unfolding core_inv_def ledger_ok_def by blast
    then show "n = 1 \<and> (\<exists>t. get_task g' k = Some t \<and> status_is_terminal (ts_status t))"
      using evolvesE [OF quiet_evolves [OF q]] by metis
  qed
  moreover have "set (ready g') \<subseteq> set (map fst (tasks g))"
    using q inv unfolding quiet_def core_inv_def by blast
  ultimately show ?thesis
    using q inv quiet_links [OF q] unfolding core_inv_def quiet_def by simp
qed

lemma core_frame [simp]:
  "core_inv (g\<lparr>gauge := ga\<rparr>) = core_inv g" "core_inv (g\<lparr>running := ru\<rparr>) = core_inv g"
  "core_inv (remove_running oid g) = core_inv g"
  by (simp_all add: core_inv_def ledger_ok_def) (simp_all add: remove_running_def)

lemma core_upd:
  assumes "core_inv g"
    and "\<And>t. get_task g d = Some t \<Longrightarrow> blocked_ok (f t) \<and> so_dependencies (ts_op (f t)) = so_dependencies (ts_op t)
      \<and> (ts_dependents (f t) = ts_dependents t \<or> ts_dependents (f t) = [])
      \<and> (status_is_terminal (ts_status t) \<longrightarrow> ts_status (f t) = ts_status t)"
  shows "core_inv (upd_task d f g)"
proof -
  have dc: "dep_count (upd_task d f g) k e = dep_count g k e" for k e
    using assms(2) by (auto simp: dep_count_def split: option.splits)
  have "links_ok (upd_task d f g)"
    unfolding links_ok_def dc
  proof (intro allI impI)
    fix i t' k p assume "get_task (upd_task d f g) i = Some t'"
    then obtain t where t: "get_task g i = Some t" "t' = (if i = d then f t else t)" by (auto split: if_splits)
    then have "ts_dependents t' = ts_dependents t \<or> ts_dependents t' = []" using assms(2) by auto
    moreover have "count_list (ts_dependents t) (k, p) \<le> dep_count g k (i, p)"
      using assms(1) t(1) by (simp add: core_inv_def links_ok_def)
    ultimately show "count_list (ts_dependents t') (k, p) \<le> dep_count g k (i, p)" by auto
  qed
  moreover have "ledger_ok (upd_task d f g)"
  proof (unfold ledger_ok_def, intro allI impI)
    fix k n assume "terminalized (upd_task d f g) k = Some n"
    then obtain t where "n = 1" "get_task g k = Some t" "status_is_terminal (ts_status t)"
      using assms(1) unfolding core_inv_def ledger_ok_def upd_task_frame by blast
    then show "n = 1 \<and> (\<exists>t. get_task (upd_task d f g) k = Some t \<and> status_is_terminal (ts_status t))"
      using assms(2) by auto
  qed
  moreover have "\<forall>k t. get_task (upd_task d f g) k = Some t \<longrightarrow> blocked_ok t"
    using assms by (auto simp: core_inv_def split: if_splits)
  ultimately show ?thesis
    using assms(1) unfolding core_inv_def by (simp del: set_map)
qed

lemma core_terminalized:
  assumes "core_inv g" and "get_task g oid = Some t" and "status_is_terminal (ts_status t)"
  shows "core_inv (g\<lparr>terminalized := (terminalized g)(oid \<mapsto> 1)\<rparr>)"
  using assms unfolding core_inv_def ledger_ok_def by simp

text \<open>Everything the invariant proofs need of a first terminal event.\<close>

lemma terminalize_first_facts:
  assumes inv: "core_inv g" and t: "get_task g oid = Some t" and fin: "status_is_terminal (ts_status t)"
    and debt: "debt_ok g (owes (ts_status t) (ts_dependents t) @ R)"
  defines "g' \<equiv> terminalize_first oid t g"
  shows "core_inv g'" and "debt_ok g' R" and "evolves g g'" and "gauge g' = gauge g"
    and "running g' = filter (\<lambda>e. fst e \<noteq> oid) (running g)"
    and "terminalized g' = (terminalized g)(oid \<mapsto> 1)"
    and "map fst (tasks g') = map fst (tasks g)"
    and "j \<noteq> oid \<Longrightarrow> rel_option quiet_task (get_task g j) (get_task g' j)"
proof -
  have q: "quiet (settled_state oid g) g'" unfolding g'_def by (rule quiet_terminalize_first)
  have "core_inv (upd_task oid (\<lambda>t. t\<lparr>ts_dependents := []\<rparr>) g)"
    by (rule core_upd [OF inv]) (use inv t in \<open>auto simp: core_inv_def blocked_ok_def\<close>)
  then have "core_inv ((upd_task oid (\<lambda>t. t\<lparr>ts_dependents := []\<rparr>) g)\<lparr>terminalized := (terminalized g)(oid \<mapsto> 1)\<rparr>)"
    using core_terminalized [of "upd_task oid (\<lambda>t. t\<lparr>ts_dependents := []\<rparr>) g" oid] t fin by simp
  moreover have "settled_state oid g = remove_running oid
      ((upd_task oid (\<lambda>t. t\<lparr>ts_dependents := []\<rparr>) g)\<lparr>terminalized := (terminalized g)(oid \<mapsto> 1)\<rparr>)"
    by (simp add: settled_state_def remove_running_def upd_task_def)
  ultimately have "core_inv (settled_state oid g)" by simp
  then show "core_inv g'" by (rule quiet_core [OF q])
  have "evolves g (settled_state oid g)"
    by (auto simp: settled_state_def evolves_def same_decl_def)
  then show "evolves g g'" using quiet_evolves [OF q] by (rule evolves_trans)
  show "debt_ok g' R"
    unfolding g'_def using debt_terminalize_first [OF debt] inv by (simp add: core_inv_def)
  show "gauge g' = gauge g" "running g' = filter (\<lambda>e. fst e \<noteq> oid) (running g)"
    "terminalized g' = (terminalized g)(oid \<mapsto> 1)" "map fst (tasks g') = map fst (tasks g)"
    using q by (auto simp: quiet_def settled_state_def remove_running_def)
  have "get_task (settled_state oid g) j = get_task g j" if "j \<noteq> oid"
    using that by (simp add: settled_state_def)
  then show "j \<noteq> oid \<Longrightarrow> rel_option quiet_task (get_task g j) (get_task g' j)"
    using q unfolding quiet_def by metis
qed

end
