(* ===== verification/Scheduler_System.thy ===== *)
theory Scheduler_System
  imports Scheduler_Runs
begin

text \<open>
  The transition system of the scheduler: the operations that run under its lock, the leases that
  own running tasks and permits, and the invariant of every reachable state. The steps are
  submission, cancellation, graph rebuild, the ready-queue scan, the outcome mark of an executing
  task, the release and reacquisition of its permit around a retry backoff, the settlement of its
  lease (completion, abort or drop), and the permits of standalone executions. Standalone
  execution of an id that is registered in the graph is not a step.
\<close>

section \<open>States and steps\<close>

record sched_system =
  sys_inner :: sched_inner
  sys_leases :: "running_lease list"
  sys_permits :: "resource_class list"

definition sys_init :: sched_system where
  "sys_init = \<lparr>sys_inner = inner_default, sys_leases = [], sys_permits = []\<rparr>"

inductive sched_step :: "(string \<Rightarrow> string) \<Rightarrow> resource_limits \<Rightarrow> sched_system \<Rightarrow> sched_system \<Rightarrow> bool"
  for norm :: "string \<Rightarrow> string" and limits :: resource_limits where
  submit: "try_submit op (sys_inner s) = Inr g' \<Longrightarrow> sched_step norm limits s (s\<lparr>sys_inner := g'\<rparr>)"
| cancel: "try_cancel oid (sys_inner s) = Some (Inr g') \<Longrightarrow> sched_step norm limits s (s\<lparr>sys_inner := g'\<rparr>)"
| rebuild: "rebuild_graph (sys_inner s) = Some g' \<Longrightarrow> sched_step norm limits s (s\<lparr>sys_inner := g'\<rparr>)"
| schedule: "schedule_pass norm limits now (sys_inner s) = Some (g', started) \<Longrightarrow>
     sched_step norm limits s (s\<lparr>sys_inner := g', sys_leases := sys_leases s @ started\<rparr>)"
| outcome: "l \<in> set (sys_leases s) \<Longrightarrow> status \<in> {Sched_Done, Sched_Failed, Sched_Cancelled} \<Longrightarrow>
     sched_step norm limits s (s\<lparr>sys_inner := mark (rl_id l) status err now (sys_inner s)\<rparr>)"
| backoff: "sys_leases s = ls @ l # ms \<Longrightarrow> rl_permit l \<Longrightarrow>
     gauge_release (rl_class l) (gauge (sys_inner s)) = Some ga \<Longrightarrow>
     sched_step norm limits s (s\<lparr>sys_inner := (sys_inner s)\<lparr>gauge := ga\<rparr>,
       sys_leases := ls @ l\<lparr>rl_permit := False\<rparr> # ms\<rparr>)"
| reacquire: "sys_leases s = ls @ l # ms \<Longrightarrow> \<not> rl_permit l \<Longrightarrow>
     try_acquire (rl_class l) limits (gauge (sys_inner s)) = Inr ga \<Longrightarrow>
     sched_step norm limits s (s\<lparr>sys_inner := (sys_inner s)\<lparr>gauge := ga\<rparr>,
       sys_leases := ls @ l\<lparr>rl_permit := True\<rparr> # ms\<rparr>)"
| settle_lease: "sys_leases s = ls @ l # ms \<Longrightarrow> settle l now (sys_inner s) = Some g' \<Longrightarrow>
     sched_step norm limits s (s\<lparr>sys_inner := g', sys_leases := ls @ ms\<rparr>)"
| exec_acquire: "try_acquire c limits (gauge (sys_inner s)) = Inr ga \<Longrightarrow>
     sched_step norm limits s (s\<lparr>sys_inner := (sys_inner s)\<lparr>gauge := ga\<rparr>, sys_permits := c # sys_permits s\<rparr>)"
| exec_release: "c \<in> set (sys_permits s) \<Longrightarrow> gauge_release c (gauge (sys_inner s)) = Some ga \<Longrightarrow>
     sched_step norm limits s (s\<lparr>sys_inner := (sys_inner s)\<lparr>gauge := ga\<rparr>, sys_permits := remove1 c (sys_permits s)\<rparr>)"

inductive sched_reach :: "(string \<Rightarrow> string) \<Rightarrow> resource_limits \<Rightarrow> sched_system \<Rightarrow> bool"
  for norm :: "string \<Rightarrow> string" and limits :: resource_limits where
  init: "sched_reach norm limits sys_init"
| step: "sched_reach norm limits s \<Longrightarrow> sched_step norm limits s s' \<Longrightarrow> sched_reach norm limits s'"

section \<open>The invariant\<close>

definition steady :: "sched_inner \<Rightarrow> sched_inner \<Rightarrow> bool" where
  "steady g g' \<longleftrightarrow> (\<forall>k t. get_task g k = Some t \<longrightarrow>
     (\<exists>t'. get_task g' k = Some t' \<and> same_decl (ts_op t') (ts_op t) \<and>
        (ts_status t' = ts_status t \<or> ts_status t = Sched_Pending \<and> ts_status t' \<in> {Sched_Blocked, Sched_Cancelled})))
   \<and> (\<forall>k t'. get_task g' k = Some t' \<longrightarrow> ts_status t' = Sched_Running \<longrightarrow> get_task g k \<noteq> None)"

definition owes_of :: "sched_inner \<Rightarrow> op_id \<Rightarrow> op_id list" where
  "owes_of g k = (case get_task g k of None \<Rightarrow> [] | Some t \<Rightarrow> owes (ts_status t) (ts_dependents t))"

definition lease_debt :: "sched_inner \<Rightarrow> running_lease list \<Rightarrow> op_id list" where
  "lease_debt g ls = concat (map (\<lambda>l. owes_of g (rl_id l)) ls)"

definition lease_ok :: "sched_inner \<Rightarrow> op_id \<Rightarrow> bool" where
  "lease_ok g k \<longleftrightarrow> terminalized g k = None \<and> (\<exists>t. get_task g k = Some t \<and>
     ts_status t \<in> {Sched_Running, Sched_Done, Sched_Failed, Sched_Cancelled} \<and> unsat g t = 0)"

definition lease_inv :: "sched_inner \<Rightarrow> running_lease list \<Rightarrow> bool" where
  "lease_inv g ls \<longleftrightarrow> distinct (map rl_id ls) \<and> (\<forall>l \<in> set ls. lease_ok g (rl_id l)) \<and>
     (\<forall>k t. get_task g k = Some t \<longrightarrow> ts_status t = Sched_Running \<longrightarrow> k \<in> rl_id ` set ls)"

definition clash :: "(string \<Rightarrow> string) \<Rightarrow> ownership_set \<times> ownership_set \<Rightarrow> ownership_set \<times> ownership_set \<Rightarrow> bool" where
  "clash norm a b \<longleftrightarrow> overlaps norm (snd a) (snd b) \<or> overlaps norm (snd a) (fst b) \<or> overlaps norm (fst a) (snd b)"

definition own_inv :: "(string \<Rightarrow> string) \<Rightarrow> sched_inner \<Rightarrow> running_lease list \<Rightarrow> bool" where
  "own_inv norm g ls \<longleftrightarrow> distinct (map fst (running g)) \<and> fst ` set (running g) = rl_id ` set ls \<and>
     (\<forall>e \<in> set (running g). \<exists>t. get_task g (fst e) = Some t \<and> snd e = (so_reads (ts_op t), so_writes (ts_op t))) \<and>
     (\<forall>e \<in> set (running g). \<forall>e' \<in> set (running g). fst e \<noteq> fst e' \<longrightarrow> \<not> clash norm (snd e) (snd e'))"

definition held :: "sched_system \<Rightarrow> resource_class list" where
  "held s = map rl_class (filter rl_permit (sys_leases s)) @ sys_permits s"

definition permit_inv :: "resource_limits \<Rightarrow> sched_system \<Rightarrow> bool" where
  "permit_inv limits s \<longleftrightarrow> (\<forall>c. gauge_usage (gauge (sys_inner s)) c = count_list (held s) c) \<and>
     (\<forall>c. gauge_usage (gauge (sys_inner s)) c \<le> limits_get limits c)"

definition sched_inv :: "(string \<Rightarrow> string) \<Rightarrow> resource_limits \<Rightarrow> sched_system \<Rightarrow> bool" where
  "sched_inv norm limits s \<longleftrightarrow> core_inv (sys_inner s) \<and>
     debt_ok (sys_inner s) (lease_debt (sys_inner s) (sys_leases s)) \<and>
     lease_inv (sys_inner s) (sys_leases s) \<and> own_inv norm (sys_inner s) (sys_leases s) \<and> permit_inv limits s"

lemma steady_evolves: "steady g g' \<Longrightarrow> evolves g g'"
  unfolding steady_def evolves_def by (fastforce simp: status_is_terminal_def)

lemma steadyE:
  assumes "steady g g'" and "get_task g k = Some t"
  obtains t' where "get_task g' k = Some t'" "same_decl (ts_op t') (ts_op t)"
    "ts_status t' = ts_status t \<or> ts_status t = Sched_Pending \<and> ts_status t' \<in> {Sched_Blocked, Sched_Cancelled}"
  using assms unfolding steady_def by blast

lemma steady_running:
  assumes "steady g g'" and "get_task g' k = Some t'" and "ts_status t' = Sched_Running"
  obtains t where "get_task g k = Some t" "ts_status t = Sched_Running"
proof -
  obtain t where t: "get_task g k = Some t" using assms unfolding steady_def by blast
  from assms(1) t obtain u where "get_task g' k = Some u"
    "ts_status u = ts_status t \<or> ts_status t = Sched_Pending \<and> ts_status u \<in> {Sched_Blocked, Sched_Cancelled}"
    by (rule steadyE)
  with assms(2,3) t that show thesis by auto
qed

lemma steady_refl: "steady g g"
  by (simp add: steady_def same_decl_def)

lemma quiet_steady: "quiet g g' \<Longrightarrow> steady g g'"
proof -
  assume "quiet g g'"
  then have rel: "rel_option quiet_task (get_task g k) (get_task g' k)" for k by (simp add: quiet_def)
  show ?thesis unfolding steady_def
  proof (intro conjI allI impI)
    fix k t assume "get_task g k = Some t"
    then obtain t' where "get_task g' k = Some t'" "quiet_task t t'" using rel [of k] by (metis option_rel_Some1)
    then show "\<exists>t'. get_task g' k = Some t' \<and> same_decl (ts_op t') (ts_op t) \<and>
        (ts_status t' = ts_status t \<or> ts_status t = Sched_Pending \<and> ts_status t' \<in> {Sched_Blocked, Sched_Cancelled})"
      by (auto simp: quiet_task_def same_decl_def)
  next
    fix k t' assume "get_task g' k = Some t'"
    then show "get_task g k \<noteq> None" using rel [of k] by (cases "get_task g k") auto
  qed
qed

lemma lease_inv_steady:
  assumes "lease_inv g ls" and "steady g g'" and "\<And>l. l \<in> set ls \<Longrightarrow> terminalized g' (rl_id l) = None"
  shows "lease_inv g' ls"
proof -
  have "lease_ok g' (rl_id l)" if l: "l \<in> set ls" for l
  proof -
    obtain t where t: "get_task g (rl_id l) = Some t" "unsat g t = 0"
      "ts_status t \<in> {Sched_Running, Sched_Done, Sched_Failed, Sched_Cancelled}"
      using assms(1) l unfolding lease_inv_def lease_ok_def by blast
    from assms(2) t(1) obtain t' where t': "get_task g' (rl_id l) = Some t'"
      "ts_status t' = ts_status t \<or> ts_status t = Sched_Pending \<and> ts_status t' \<in> {Sched_Blocked, Sched_Cancelled}"
      by (rule steadyE)
    have "unsat g' t' = 0" using evolves_unsat [OF steady_evolves [OF assms(2)] t(1) t'(1) t(2)] .
    then show ?thesis using assms(3) [OF l] t(3) t' by (auto simp: lease_ok_def)
  qed
  moreover have "k \<in> rl_id ` set ls" if "get_task g' k = Some t'" "ts_status t' = Sched_Running" for k t'
    using steady_running [OF assms(2) that] assms(1) unfolding lease_inv_def by metis
  ultimately show ?thesis using assms(1) unfolding lease_inv_def by blast
qed

lemma own_inv_evolves:
  assumes "own_inv norm g ls" and "evolves g g'" and "running g' = running g"
  shows "own_inv norm g' ls"
proof -
  have "\<exists>t. get_task g' (fst e) = Some t \<and> snd e = (so_reads (ts_op t), so_writes (ts_op t))"
    if e: "e \<in> set (running g)" for e
  proof -
    obtain t where t: "get_task g (fst e) = Some t" "snd e = (so_reads (ts_op t), so_writes (ts_op t))"
      using assms(1) e unfolding own_inv_def by blast
    from assms(2) t(1) obtain t' where "get_task g' (fst e) = Some t'" "same_decl (ts_op t') (ts_op t)"
      by (rule evolvesE)
    with t(2) show ?thesis by (simp add: same_decl_def)
  qed
  with assms(1,3) show ?thesis unfolding own_inv_def by simp
qed

lemma lease_not_pending:
  "lease_inv g ls \<Longrightarrow> l \<in> set ls \<Longrightarrow> get_task g (rl_id l) = Some t \<Longrightarrow> ts_status t \<noteq> Sched_Pending"
  unfolding lease_inv_def lease_ok_def by fastforce

section \<open>Submission\<close>

text \<open>The edges of a new task that are neither satisfied, dead nor missing: they are recorded.\<close>

definition recorded :: "(op_id \<rightharpoonup> task_status) \<Rightarrow> op_id \<times> dependency_policy \<Rightarrow> bool" where
  "recorded st e = (case st (fst e) of
     None \<Rightarrow> False
   | Some s \<Rightarrow> \<not> edge_satisfied (snd e) s \<and> \<not> (snd e = Policy_Success \<and> success_edge_dead s))"

definition pushes :: "(op_id \<rightharpoonup> task_status) \<Rightarrow> op_id \<Rightarrow> (op_id \<times> dependency_policy) list \<Rightarrow> op_id
     \<Rightarrow> (op_id \<times> dependency_policy) list" where
  "pushes st oid D k = map (\<lambda>e. (oid, snd e)) (filter (\<lambda>e. fst e = k \<and> recorded st e) D)"

definition add_deps :: "(op_id \<times> dependency_policy) list \<Rightarrow> sched_task \<Rightarrow> sched_task" where
  "add_deps es t = t\<lparr>ts_dependents := ts_dependents t @ es\<rparr>"

lemma add_deps_simps [simp]:
  "ts_status (add_deps es t) = ts_status t" "ts_op (add_deps es t) = ts_op t"
  "ts_remaining (add_deps es t) = ts_remaining t" "ts_blocked (add_deps es t) = ts_blocked t"
  "ts_dependents (add_deps es t) = ts_dependents t @ es" "add_deps [] t = t"
  "add_deps es' (add_deps es t) = add_deps (es @ es') t"
  by (simp_all add: add_deps_def)

lemma push_dependent_get:
  "get_task (push_dependent d e g) k = (if k = d then map_option (add_deps [e]) (get_task g k) else get_task g k)"
  by (cases "get_task g k") (auto simp: push_dependent_def add_deps_def)

lemma map_option_add_deps_Nil [simp]: "map_option (add_deps []) x = x"
  by (cases x) simp_all

lemma push_dependent_frame:
  "gauge (push_dependent d e g) = gauge g" "ready (push_dependent d e g) = ready g"
  "running (push_dependent d e g) = running g" "terminalized (push_dependent d e g) = terminalized g"
  "map fst (tasks (push_dependent d e g)) = map fst (tasks g)"
  "task_status_of (push_dependent d e g) = task_status_of g"
  by (auto simp: push_dependent_def task_status_of_def fun_eq_iff option.map_comp comp_def)

text \<open>What the edge loop of a submission computes.\<close>

lemma submit_edges:
  assumes "fold (submit_edge oid) D (g, r, b) = (g', r', b')"
  shows "(\<forall>k. get_task g' k = map_option (add_deps (pushes (task_status_of g) oid D k)) (get_task g k)) \<and>
    gauge g' = gauge g \<and> ready g' = ready g \<and> running g' = running g \<and> terminalized g' = terminalized g \<and>
    map fst (tasks g') = map fst (tasks g) \<and> task_status_of g' = task_status_of g \<and>
    r' + b' = r + b + length (filter (\<lambda>e. \<not> sat g e) D)"
  using assms
proof (induction D arbitrary: g r b)
  case Nil
  then show ?case by (auto simp: pushes_def option.map_ident)
next
  case (Cons e D)
  obtain g1 r1 b1 where s: "submit_edge oid e (g, r, b) = (g1, r1, b1)" by (cases "submit_edge oid e (g, r, b)")
  have f: "fold (submit_edge oid) D (g1, r1, b1) = (g', r', b')" using Cons.prems s by simp
  note IH = Cons.IH [OF f]
  have g1: "g1 = (if recorded (task_status_of g) e then push_dependent (fst e) (oid, snd e) g else g)"
    and cnt: "r1 + b1 = r + b + (if sat g e then 0 else 1)"
    using s by (auto simp: submit_edge_def recorded_def sat_def split: option.splits if_splits)
  have st: "task_status_of g1 = task_status_of g" by (simp add: g1 push_dependent_frame)
  then have same: "recorded (task_status_of g1) = recorded (task_status_of g)" "sat g1 = sat g"
    by (auto simp: recorded_def sat_def fun_eq_iff)
  have "get_task g' k = map_option (add_deps (pushes (task_status_of g) oid (e # D) k)) (get_task g k)" for k
  proof -
    have "get_task g' k = map_option (add_deps (pushes (task_status_of g1) oid D k)) (get_task g1 k)" using IH by blast
    moreover have "pushes (task_status_of g1) oid D k = pushes (task_status_of g) oid D k" by (simp add: pushes_def same)
    moreover have "get_task g1 k = map_option (add_deps (if fst e = k \<and> recorded (task_status_of g) e then [(oid, snd e)] else []))
        (get_task g k)"
      by (auto simp: g1 push_dependent_get option.map_ident)
    ultimately show ?thesis
      by (auto simp: pushes_def option.map_comp comp_def)
  qed
  moreover have "gauge g1 = gauge g \<and> ready g1 = ready g \<and> running g1 = running g \<and>
      terminalized g1 = terminalized g \<and> map fst (tasks g1) = map fst (tasks g)"
    by (simp add: g1 push_dependent_frame)
  ultimately show ?case using IH st same cnt by simp
qed

lemma get_task_append:
  "get_task (g\<lparr>tasks := tasks g @ [(oid, t)]\<rparr>) k =
   (case get_task g k of Some u \<Rightarrow> Some u | None \<Rightarrow> if k = oid then Some t else None)"
  by (auto simp: get_task_def map_add_def split: option.splits)

lemma count_pushes:
  "count_list (pushes st oid D d) (k, p) \<le> (if k = oid \<and> recorded st (d, p) then count_list D (d, p) else 0)"
  by (induction D) (auto simp: pushes_def)

lemma owes_pushes:
  "get_task g d = Some t \<Longrightarrow> owes (ts_status t) (pushes (task_status_of g) oid D d) = []"
  by (induction D) (auto simp: pushes_def owes_def recorded_def task_status_of_def)

text \<open>No recorded dependent is unregistered.\<close>

lemma links_registered:
  assumes "links_ok g" and "get_task g d = Some t" and "get_task g k = None"
  shows "count_list (ts_dependents t) (k, p) = 0"
proof -
  have "count_list (ts_dependents t) (k, p) \<le> dep_count g k (d, p)"
    using assms(1,2) by (simp add: links_ok_def)
  then show ?thesis using assms(3) by (simp add: dep_count_def)
qed

lemma owes_registered:
  assumes "links_ok g" and "get_task g k = None"
  shows "count_list (owes_of g d) k = 0"
proof (cases "get_task g d")
  case (Some t)
  have "count_list (owes s (ts_dependents t)) k = 0" for s
    unfolding count_owes sum_policies [where P = "\<lambda>p. edge_satisfied p s"]
    using links_registered [OF assms(1) Some assms(2)] by simp
  with Some show ?thesis by (simp add: owes_of_def)
qed (simp add: owes_of_def)

lemma lease_debt_registered: "links_ok g \<Longrightarrow> get_task g k = None \<Longrightarrow> count_list (lease_debt g ls) k = 0"
  unfolding lease_debt_def by (induction ls) (auto simp: owes_registered)

lemma lease_debt_cong: "(\<And>l. l \<in> set ls \<Longrightarrow> owes_of g' (rl_id l) = owes_of g (rl_id l)) \<Longrightarrow>
  lease_debt g' ls = lease_debt g ls"
  unfolding lease_debt_def by (metis (no_types, lifting) map_eq_conv)

lemma lease_debt_frame [simp]:
  "lease_debt (g\<lparr>ready := r\<rparr>) ls = lease_debt g ls" "lease_debt (g\<lparr>gauge := ga\<rparr>) ls = lease_debt g ls"
  by (simp_all add: lease_debt_def owes_of_def)

text \<open>
  An accepted new task: the graph after its edges were recorded and the task was appended.
\<close>

lemma submit_new:
  assumes inv: "core_inv g" "debt_ok g (lease_debt g ls)" "\<And>l. l \<in> set ls \<Longrightarrow> get_task g (rl_id l) \<noteq> None"
    and new: "get_task g oid = None"
    and f: "fold (submit_edge oid) D (g, 0, 0) = (g1, r, b)"
    and t: "t = \<lparr>ts_op = op, ts_status = (if b > 0 then Sched_Blocked else Sched_Pending), ts_error = None,
      ts_start_ms = 0, ts_end_ms = None, ts_remaining = r, ts_blocked = b, ts_dependents = []\<rparr>"
    and D: "D = so_dependencies op"
  defines "g' \<equiv> g1\<lparr>tasks := tasks g1 @ [(oid, t)]\<rparr>"
  shows "core_inv g'" and "debt_ok g' (lease_debt g' ls)" and "steady g g'"
    and "gauge g' = gauge g" and "running g' = running g" and "terminalized g' = terminalized g"
proof -
  note sub = submit_edges [OF f]
  have g1: "get_task g1 k = map_option (add_deps (pushes (task_status_of g) oid D k)) (get_task g k)" for k using sub by blast
  have get: "get_task g' k = (if k = oid then Some t else map_option (add_deps (pushes (task_status_of g) oid D k)) (get_task g k))" for k
    using new by (auto simp: g'_def get_task_append g1 split: option.splits)
  have nrun: "ts_status t \<noteq> Sched_Running" by (simp add: t)
  show steady: "steady g g'"
    unfolding steady_def using new nrun by (auto simp: get same_decl_def)
  show frame: "gauge g' = gauge g" "running g' = running g" "terminalized g' = terminalized g"
    using sub by (simp_all add: g'_def)
  have keys: "map fst (tasks g') = map fst (tasks g) @ [oid]" using sub by (simp add: g'_def)
  have rdy: "ready g' = ready g" using sub by (simp add: g'_def)
  have fresh: "oid \<notin> set (map fst (tasks g))" using new key_get_task by fastforce
  have dc: "dep_count g' k e = (if k = oid then count_list D e else dep_count g k e)" for k e
    by (auto simp: dep_count_def get t D split: option.splits)
  have links: "links_ok g'"
    unfolding links_ok_def dc
  proof (intro allI impI)
    fix d u k p assume u: "get_task g' d = Some u"
    show "count_list (ts_dependents u) (k, p) \<le> (if k = oid then count_list D (d, p) else dep_count g k (d, p))"
    proof (cases "d = oid")
      case True
      with u show ?thesis by (auto simp: get t)
    next
      case False
      then obtain v where v: "get_task g d = Some v" "u = add_deps (pushes (task_status_of g) oid D d) v"
        using u by (auto simp: get)
      have l: "links_ok g" using inv by (simp add: core_inv_def)
      have "count_list (ts_dependents v) (k, p) \<le> dep_count g k (d, p)" using l v by (simp add: links_ok_def)
      moreover have "k = oid \<Longrightarrow> count_list (ts_dependents v) (k, p) = 0"
        using links_registered [OF l v(1)] new by simp
      moreover have "count_list (ts_dependents u) (k, p) =
          count_list (ts_dependents v) (k, p) + count_list (pushes (task_status_of g) oid D d) (k, p)" by (simp add: v)
      ultimately show ?thesis using count_pushes [of "task_status_of g" oid D d k p] by (auto split: if_splits)
    qed
  qed
  have "ledger_ok g'"
    using inv(1) unfolding core_inv_def ledger_ok_def frame
    by (metis (no_types, lifting) evolvesE steady steady_evolves)
  moreover have "blocked_ok u" if "get_task g' k = Some u" for k u
    using that inv(1) by (auto simp: get t core_inv_def blocked_ok_def split: if_splits)
  ultimately show "core_inv g'"
    using links inv(1) fresh unfolding core_inv_def keys rdy by auto
  have debt': "lease_debt g' ls = lease_debt g ls"
  proof (rule lease_debt_cong)
    fix l assume "l \<in> set ls"
    then obtain u where u: "get_task g (rl_id l) = Some u" using inv(3) by blast
    then have "rl_id l \<noteq> oid" using new by auto
    with u owes_pushes [OF u, of oid D] show "owes_of g' (rl_id l) = owes_of g (rl_id l)"
      by (simp add: owes_of_def get) (simp add: owes_def)
  qed
  have sat': "sat g e \<Longrightarrow> sat g' e" for e by (rule evolves_sat [OF steady_evolves [OF steady]])
  have mono: "length (filter (\<lambda>e. \<not> sat g' e) E) \<le> length (filter (\<lambda>e. \<not> sat g e) E)" for E
    using sat' by (induction E) auto
  have no: "count_list (lease_debt g ls) oid = 0"
    using lease_debt_registered new inv(1) by (simp add: core_inv_def)
  show "debt_ok g' (lease_debt g' ls)"
    unfolding debt' debt_ok_def
  proof (intro allI impI)
    fix k u assume u: "get_task g' k = Some u"
    show "unsat g' u + count_list (lease_debt g ls) k \<le> ts_remaining u + ts_blocked u"
    proof (cases "k = oid")
      case True
      then have "u = t" using u by (simp add: get)
      then show ?thesis using mono [of D] sub no True by (simp add: unsat_def t D)
    next
      case False
      then obtain v where v: "get_task g k = Some v" "u = add_deps (pushes (task_status_of g) oid D k) v"
        using u by (auto simp: get)
      have "unsat g v + count_list (lease_debt g ls) k \<le> ts_remaining v + ts_blocked v"
        using inv(2) v by (simp add: debt_ok_def)
      then show ?thesis using mono [of "so_dependencies (ts_op v)"] v by (simp add: unsat_def)
    qed
  qed
qed

lemma submit_inv:
  assumes inv: "core_inv g" "debt_ok g (lease_debt g ls)" "\<And>l. l \<in> set ls \<Longrightarrow> get_task g (rl_id l) \<noteq> None"
    and s: "try_submit op g = Inr g'"
  shows "core_inv g' \<and> debt_ok g' (lease_debt g' ls) \<and> steady g g' \<and> gauge g' = gauge g
    \<and> running g' = running g \<and> terminalized g' = terminalized g"
proof (cases "get_task g (om_operation_id (so_meta op))")
  case (Some u)
  then have "g' = g" using s by (auto simp: try_submit_def Let_def split: if_splits)
  then show ?thesis using inv steady_refl by simp
next
  case None
  let ?oid = "om_operation_id (so_meta op)"
  obtain g1 r b where f: "fold (submit_edge ?oid) (so_dependencies op) (g, 0, 0) = (g1, r, b)"
    by (cases "fold (submit_edge ?oid) (so_dependencies op) (g, 0, 0)")
  define t where "t = \<lparr>ts_op = op, ts_status = (if b > 0 then Sched_Blocked else Sched_Pending), ts_error = None,
      ts_start_ms = 0, ts_end_ms = None, ts_remaining = r, ts_blocked = b, ts_dependents = []\<rparr>"
  define g2 where "g2 = g1\<lparr>tasks := tasks g1 @ [(?oid, t)]\<rparr>"
  have new: "core_inv g2" "debt_ok g2 (lease_debt g2 ls)" "steady g g2"
    "gauge g2 = gauge g" "running g2 = running g" "terminalized g2 = terminalized g"
    unfolding g2_def by (rule submit_new [OF inv None f t_def refl]; assumption)+
  have key: "?oid \<in> set (map fst (tasks g2))" by (simp add: g2_def)
  have "g' = g2 \<or> g' = g2\<lparr>ready := ready g2 @ [?oid]\<rparr>"
    using s None f by (auto simp: try_submit_def Let_def g2_def t_def split: if_splits)
  moreover have "core_inv (g2\<lparr>ready := ready g2 @ [?oid]\<rparr>)"
    using new(1) key by (auto simp: core_inv_def ledger_ok_def)
  moreover have "steady g (g2\<lparr>ready := ready g2 @ [?oid]\<rparr>)" using new(3) by (simp add: steady_def)
  ultimately show ?thesis using new by auto
qed

section \<open>Terminal events\<close>

text \<open>
  A task that is not leased reaches a terminal state and is terminalized: all leases keep what
  they have.
\<close>

lemma steady_trans: "steady a b \<Longrightarrow> steady b c \<Longrightarrow> steady a c"
proof -
  assume ab: "steady a b" and bc: "steady b c"
  show "steady a c" unfolding steady_def
  proof (intro conjI allI impI)
    fix k t assume "get_task a k = Some t"
    with ab obtain u where u: "get_task b k = Some u" "same_decl (ts_op u) (ts_op t)"
      "ts_status u = ts_status t \<or> ts_status t = Sched_Pending \<and> ts_status u \<in> {Sched_Blocked, Sched_Cancelled}"
      by (rule steadyE)
    from bc u(1) obtain v where v: "get_task c k = Some v" "same_decl (ts_op v) (ts_op u)"
      "ts_status v = ts_status u \<or> ts_status u = Sched_Pending \<and> ts_status v \<in> {Sched_Blocked, Sched_Cancelled}"
      by (rule steadyE)
    show "\<exists>t'. get_task c k = Some t' \<and> same_decl (ts_op t') (ts_op t) \<and>
        (ts_status t' = ts_status t \<or> ts_status t = Sched_Pending \<and> ts_status t' \<in> {Sched_Blocked, Sched_Cancelled})"
      using u v by (auto simp: same_decl_def)
  next
    fix k v assume "get_task c k = Some v" "ts_status v = Sched_Running"
    with bc obtain u where "get_task b k = Some u" "ts_status u = Sched_Running" by (rule steady_running)
    with ab obtain t where "get_task a k = Some t" by (rule steady_running)
    then show "get_task a k \<noteq> None" by simp
  qed
qed

lemma owes_of_quiet:
  assumes "rel_option quiet_task (get_task g k) (get_task g' k)"
    and "\<And>t. get_task g k = Some t \<Longrightarrow> ts_status t \<noteq> Sched_Pending"
  shows "owes_of g' k = owes_of g k"
  using assms by (cases "get_task g k"; cases "get_task g' k") (auto simp: owes_of_def quiet_task_def)

lemma terminalize_first_steady:
  assumes inv: "core_inv g" and t: "get_task g oid = Some t" and fin: "status_is_terminal (ts_status t)"
    and debt: "debt_ok g (owes (ts_status t) (ts_dependents t) @ R)"
  shows "steady g (terminalize_first oid t g)"
proof -
  let ?g = "terminalize_first oid t g"
  note facts = terminalize_first_facts [OF inv t fin debt]
  have rel: "j \<noteq> oid \<Longrightarrow> rel_option quiet_task (get_task g j) (get_task ?g j)" for j by (rule facts(8))
  obtain t' where t': "get_task ?g oid = Some t'" "same_decl (ts_op t') (ts_op t)" "ts_status t' = ts_status t"
    using evolvesE [OF facts(3) t] fin by metis
  show ?thesis unfolding steady_def
  proof (intro conjI allI impI)
    fix k u assume u: "get_task g k = Some u"
    show "\<exists>u'. get_task ?g k = Some u' \<and> same_decl (ts_op u') (ts_op u) \<and>
        (ts_status u' = ts_status u \<or> ts_status u = Sched_Pending \<and> ts_status u' \<in> {Sched_Blocked, Sched_Cancelled})"
    proof (cases "k = oid")
      case True
      with t t' u show ?thesis by simp
    next
      case False
      then obtain u' where "get_task ?g k = Some u'" "quiet_task u u'"
        using rel [of k] u by (metis option_rel_Some1)
      then show ?thesis by (auto simp: quiet_task_def same_decl_def)
    qed
  next
    fix k u' assume "get_task ?g k = Some u'"
    then have "k \<in> set (map fst (tasks ?g))" by (rule get_task_key)
    then show "get_task g k \<noteq> None" using facts(7) key_get_task [of k g] by auto
  qed
qed

text \<open>The lease debt after a terminal event, with the task that settled left out.\<close>

lemma lease_debt_terminalize:
  assumes inv: "core_inv g" and t: "get_task g oid = Some t" and fin: "status_is_terminal (ts_status t)"
    and debt: "debt_ok g (owes (ts_status t) (ts_dependents t) @ R)"
    and ls: "\<And>l. l \<in> set ls \<Longrightarrow> rl_id l \<noteq> oid"
      "\<And>l t. l \<in> set ls \<Longrightarrow> get_task g (rl_id l) = Some t \<Longrightarrow> ts_status t \<noteq> Sched_Pending"
  shows "lease_debt (terminalize_first oid t g) ls = lease_debt g ls"
proof (rule lease_debt_cong)
  fix l assume "l \<in> set ls"
  then show "owes_of (terminalize_first oid t g) (rl_id l) = owes_of g (rl_id l)"
    using ls terminalize_first_facts(8) [OF inv t fin debt] by (intro owes_of_quiet) blast+
qed

lemma terminalize_fresh:
  "terminalized g oid = None \<Longrightarrow> get_task g oid = Some t \<Longrightarrow> terminalize oid g = Some (terminalize_first oid t g)"
  by (simp add: terminalize_def)

section \<open>Cancellation\<close>

lemma cancel_inv:
  assumes inv: "core_inv g" "debt_ok g (lease_debt g ls)" "lease_inv g ls"
    and c: "try_cancel oid g = Some (Inr g')"
  shows "core_inv g' \<and> debt_ok g' (lease_debt g' ls) \<and> steady g g' \<and> gauge g' = gauge g
    \<and> running g' = (if task_status_of g oid = Some Sched_Pending then filter (\<lambda>e. fst e \<noteq> oid) (running g) else running g)
    \<and> (\<forall>l \<in> set ls. terminalized g' (rl_id l) = None) \<and> (\<forall>k. k \<noteq> oid \<longrightarrow> terminalized g' k = terminalized g k)"
proof -
  obtain t where t: "get_task g oid = Some t" and live: "\<not> status_is_terminal (ts_status t)"
    using c by (auto simp: try_cancel_def split: option.splits if_splits)
  have fired: "core_inv (upd_task oid set_cancelled g)" "debt_ok (upd_task oid set_cancelled g) Q = debt_ok g Q"
    "steady g (upd_task oid set_cancelled g)" for Q
  proof -
    show "core_inv (upd_task oid set_cancelled g)"
      by (rule core_upd [OF inv(1)]) (use inv(1) in \<open>auto simp: set_cancelled_def core_inv_def blocked_ok_def\<close>)
    have "sat (upd_task oid set_cancelled g) = sat g" by (rule sat_upd_same) (simp add: set_cancelled_def)
    then show "debt_ok (upd_task oid set_cancelled g) Q = debt_ok g Q"
      by (auto simp: debt_ok_def unsat_def set_cancelled_def split: if_splits)
    show "steady g (upd_task oid set_cancelled g)"
      by (auto simp: steady_def set_cancelled_def same_decl_def)
  qed
  have led: "terminalized g (rl_id l) = None" if "l \<in> set ls" for l
    using inv(3) that by (auto simp: lease_inv_def lease_ok_def)
  show ?thesis
  proof (cases "ts_status t = Sched_Pending")
    case False
    then have g': "g' = upd_task oid set_cancelled g" using c t live by (simp add: try_cancel_def Let_def)
    have "lease_debt g' ls = lease_debt g ls"
      by (rule lease_debt_cong) (auto simp: g' owes_of_def set_cancelled_def split: option.splits)
    moreover have "task_status_of g oid \<noteq> Some Sched_Pending" using t False by (simp add: task_status_of_def)
    ultimately show ?thesis using fired inv led by (simp add: g')
  next
    case True
    define f where "f = (\<lambda>t. (set_cancelled t)\<lparr>ts_status := Sched_Cancelled\<rparr>)"
    define g1 where "g1 = upd_task oid f g"
    have g1_eq: "upd_task oid (\<lambda>t. t\<lparr>ts_status := Sched_Cancelled\<rparr>) (upd_task oid set_cancelled g) = g1"
      by (simp add: g1_def f_def upd_task_def upd_at_def comp_def)
    have t1: "get_task g1 oid = Some (f t)" using t by (simp add: g1_def)
    have fin: "status_is_terminal (ts_status (f t))" by (simp add: f_def status_is_terminal_def)
    have core1: "core_inv g1"
      unfolding g1_def
      by (rule core_upd [OF inv(1)]) (use t live in \<open>auto simp: f_def set_cancelled_def blocked_ok_def\<close>)
    have "debt_ok g1 (owes Sched_Cancelled (ts_dependents t) @ lease_debt g ls)"
      unfolding g1_def using inv(1,2) t live
      by (intro debt_flip) (auto simp: core_inv_def f_def set_cancelled_def)
    then have debt1: "debt_ok g1 (owes (ts_status (f t)) (ts_dependents (f t)) @ lease_debt g ls)"
      by (simp add: f_def set_cancelled_def)
    have nl: "rl_id l \<noteq> oid" if "l \<in> set ls" for l
      using lease_not_pending [OF inv(3) that] t True by blast
    have un: "terminalized g oid = None"
      using inv(1) t live unfolding core_inv_def ledger_ok_def by (metis not_None_eq option.inject)
    then have "terminalize oid g1 = Some (terminalize_first oid (f t) g1)"
      using t1 by (intro terminalize_fresh) (simp_all add: g1_def)
    then have g': "g' = terminalize_first oid (f t) g1"
      using c t live True g1_eq by (simp add: try_cancel_def Let_def)
    note facts = terminalize_first_facts [OF core1 t1 fin debt1]
    have ld: "lease_debt g1 ls = lease_debt g ls"
      by (rule lease_debt_cong) (use nl in \<open>simp add: g1_def owes_of_def\<close>)
    have "lease_debt g' ls = lease_debt g1 ls"
      unfolding g' by (rule lease_debt_terminalize [OF core1 t1 fin debt1])
        (use nl lease_not_pending [OF inv(3)] in \<open>auto simp: g1_def\<close>)
    moreover have "steady g g1" unfolding steady_def g1_def using t True
      by (auto simp: f_def set_cancelled_def same_decl_def)
    then have "steady g g'"
      unfolding g' using terminalize_first_steady [OF core1 t1 fin debt1] by (rule steady_trans)
    moreover have "task_status_of g oid = Some Sched_Pending" using t True by (simp add: task_status_of_def)
    ultimately show ?thesis
      using facts led nl ld unfolding g' by (simp add: g1_def)
  qed
qed

section \<open>Outcomes and settlement\<close>

lemma lease_debt_split:
  "count_list (lease_debt g (ls @ l # ms)) k = count_list (owes_of g (rl_id l) @ lease_debt g (ls @ ms)) k"
  by (simp add: lease_debt_def)

lemma lease_running:
  "lease_inv g ls \<Longrightarrow> get_task g k = Some t \<Longrightarrow> ts_status t = Sched_Running \<Longrightarrow> k \<in> rl_id ` set ls"
  by (simp add: lease_inv_def)

lemma owes_live: "\<not> status_is_terminal s \<Longrightarrow> owes s deps = []"
  by (auto simp: owes_def filter_empty_conv dest: edge_satisfied_terminal)

lemma lease_inv_drop:
  assumes "lease_inv g (ls @ l # ms)"
    and "\<And>t. get_task g (rl_id l) = Some t \<Longrightarrow> ts_status t \<noteq> Sched_Running"
  shows "lease_inv g (ls @ ms)"
proof -
  have "k \<in> rl_id ` set (ls @ ms)" if "get_task g k = Some t" "ts_status t = Sched_Running" for k t
  proof -
    have "k \<in> rl_id ` set (ls @ l # ms)" using lease_running [OF assms(1) that] .
    moreover have "k \<noteq> rl_id l" using assms(2) that by blast
    ultimately show ?thesis by auto
  qed
  moreover have "distinct (map rl_id (ls @ ms)) \<and> (\<forall>l \<in> set (ls @ ms). lease_ok g (rl_id l))"
    using assms(1) unfolding lease_inv_def by auto
  ultimately show ?thesis unfolding lease_inv_def by blast
qed

lemma lease_ids_differ: "lease_inv g (ls @ l # ms) \<Longrightarrow> m \<in> set (ls @ ms) \<Longrightarrow> rl_id m \<noteq> rl_id l"
proof -
  assume "lease_inv g (ls @ l # ms)" and m: "m \<in> set (ls @ ms)"
  then have "distinct (map rl_id (ls @ l # ms))" unfolding lease_inv_def by blast
  then have "rl_id l \<notin> rl_id ` set (ls @ ms)" by auto
  with m show "rl_id m \<noteq> rl_id l" by (metis imageI)
qed

text \<open>A change of one leased task that keeps its declaration and only moves it on.\<close>

lemma lease_inv_upd:
  assumes inv: "lease_inv g ls" and t: "get_task g k = Some t"
    and f: "same_decl (ts_op (f t)) (ts_op t)" "status_is_terminal (ts_status t) \<Longrightarrow> ts_status (f t) = ts_status t"
      "ts_status (f t) \<in> {Sched_Running, Sched_Done, Sched_Failed, Sched_Cancelled}"
      "ts_status (f t) = Sched_Running \<Longrightarrow> ts_status t = Sched_Running"
  shows "lease_inv (upd_task k f g) ls"
proof -
  let ?g = "upd_task k f g"
  have ev: "evolves g ?g"
  proof (rule evolves_upd)
    fix u assume "get_task g k = Some u"
    then have "u = t" using t by simp
    then show "same_decl (ts_op (f u)) (ts_op u) \<and> (status_is_terminal (ts_status u) \<longrightarrow> ts_status (f u) = ts_status u)"
      using f(1,2) by blast
  qed
  have "lease_ok ?g (rl_id l)" if l: "l \<in> set ls" for l
  proof -
    obtain u where u: "get_task g (rl_id l) = Some u" "unsat g u = 0" "terminalized g (rl_id l) = None"
      "ts_status u \<in> {Sched_Running, Sched_Done, Sched_Failed, Sched_Cancelled}"
      using inv l unfolding lease_inv_def lease_ok_def by blast
    let ?u = "if rl_id l = k then f u else u"
    have g: "get_task ?g (rl_id l) = Some ?u" using u(1) by auto
    have "unsat ?g ?u = 0" by (rule evolves_unsat [OF ev u(1) g u(2)])
    moreover have "ts_status ?u \<in> {Sched_Running, Sched_Done, Sched_Failed, Sched_Cancelled}"
      using u t f(3) by auto
    ultimately show ?thesis using u g by (auto simp: lease_ok_def)
  qed
  moreover have "j \<in> rl_id ` set ls" if "get_task ?g j = Some u" "ts_status u = Sched_Running" for j u
    using that t f(4) lease_running [OF inv, of j] by (auto split: if_splits)
  ultimately show ?thesis using inv unfolding lease_inv_def by blast
qed

lemma blocked_ok_upd: "core_inv g \<Longrightarrow> get_task g k = Some t \<Longrightarrow> blocked_ok t"
  by (simp add: core_inv_def)

lemma mark_inv:
  fixes now :: int and err :: "string option"
  assumes inv: "core_inv g" "debt_ok g (lease_debt g ls)" "lease_inv g ls" and l: "l \<in> set ls"
    and st: "status \<in> {Sched_Done, Sched_Failed, Sched_Cancelled}"
  defines "g' \<equiv> mark (rl_id l) status err now g"
  shows "core_inv g' \<and> debt_ok g' (lease_debt g' ls) \<and> lease_inv g' ls \<and> evolves g g'"
proof -
  obtain t where t: "get_task g (rl_id l) = Some t" and s: "ts_status t \<in> {Sched_Running, Sched_Done, Sched_Failed, Sched_Cancelled}"
    using inv(3) l unfolding lease_inv_def lease_ok_def by blast
  let ?f = "mark_task status err now"
  have ev: "evolves g g'" unfolding g'_def mark_def
    by (rule evolves_upd) (auto simp: mark_task_def same_decl_def)
  have core: "core_inv g'" unfolding g'_def mark_def
    by (rule core_upd [OF inv(1)]) (use st blocked_ok_upd [OF inv(1)] in \<open>auto simp: mark_task_def blocked_ok_def\<close>)
  have lease: "lease_inv g' ls" unfolding g'_def mark_def
    by (rule lease_inv_upd [OF inv(3) t]) (use s st in \<open>auto simp: mark_task_def same_decl_def status_is_terminal_def\<close>)
  have "debt_ok g' (lease_debt g' ls)"
  proof (cases "status_is_terminal (ts_status t)")
    case True
    have same: "get_task g' k = get_task g k" for k using t True by (simp add: g'_def mark_def mark_task_def)
    then have "lease_debt g' ls = lease_debt g ls" "sat g' = sat g"
      by (simp_all add: lease_debt_def owes_of_def sat_def task_status_of_def fun_eq_iff)
    then show ?thesis using inv(2) same by (simp add: debt_ok_def unsat_def)
  next
    case False
    obtain as bs where ls: "ls = as @ l # bs" using split_list [OF l] by blast
    have others: "rl_id m \<noteq> rl_id l" if "m \<in> set (as @ bs)" for m
      using lease_ids_differ inv(3) that unfolding ls by blast
    have f: "ts_status (?f t) = status" "ts_dependents (?f t) = ts_dependents t"
      using False by (simp_all add: mark_task_def)
    have run: "owes_of g (rl_id l) = []" using t False by (simp add: owes_of_def owes_live)
    have "debt_ok g' (owes status (ts_dependents t) @ lease_debt g ls)"
      unfolding g'_def mark_def using inv(1,2) t False
      by (intro debt_flip) (auto simp: core_inv_def mark_task_def)
    moreover have "owes_of g' (rl_id l) = owes status (ts_dependents t)"
      using t f by (simp add: g'_def mark_def owes_of_def)
    moreover have "lease_debt g' (as @ bs) = lease_debt g (as @ bs)"
      by (rule lease_debt_cong) (use others in \<open>simp add: g'_def mark_def owes_of_def\<close>)
    ultimately show ?thesis
      unfolding ls by (elim debt_mono) (simp add: lease_debt_split run del: append.simps)
  qed
  with core lease ev show ?thesis by blast
qed

lemma settle_inv:
  assumes inv: "core_inv g" "debt_ok g (lease_debt g (ls @ l # ms))" "lease_inv g (ls @ l # ms)"
    and s: "settle l now g = Some g'"
  shows "core_inv g' \<and> debt_ok g' (lease_debt g' (ls @ ms)) \<and> lease_inv g' (ls @ ms) \<and> evolves g g'
    \<and> running g' = filter (\<lambda>e. fst e \<noteq> rl_id l) (running g) \<and> terminalized g' = (terminalized g)(rl_id l \<mapsto> 1)
    \<and> (if rl_permit l then gauge_release (rl_class l) (gauge g) = Some (gauge g') else gauge g' = gauge g)"
proof -
  obtain t where t: "get_task g (rl_id l) = Some t" and un: "terminalized g (rl_id l) = None"
    and st: "ts_status t \<in> {Sched_Running, Sched_Done, Sched_Failed, Sched_Cancelled}"
    using inv(3) unfolding lease_inv_def lease_ok_def by auto
  obtain ga where ga: "(if rl_permit l then gauge_release (rl_class l) (gauge g) else Some (gauge g)) = Some ga"
    and term': "terminalize (rl_id l) (upd_task (rl_id l) (abort_task now) (g\<lparr>gauge := ga\<rparr>)) = Some g'"
    using s by (auto simp: settle_def bind_eq_Some_conv)
  define f where "f = abort_task now"
  define g1 where "g1 = upd_task (rl_id l) f g"
  have fin: "status_is_terminal (ts_status (f t))" using st by (auto simp: f_def abort_task_def status_is_terminal_def)
  have t1: "get_task g1 (rl_id l) = Some (f t)" using t by (simp add: g1_def)
  have core1: "core_inv g1" unfolding g1_def
    by (rule core_upd [OF inv(1)])
      (use blocked_ok_upd [OF inv(1)] in \<open>auto simp: f_def abort_task_def blocked_ok_def status_is_terminal_def\<close>)
  have ev1: "evolves g g1" unfolding g1_def
    by (rule evolves_upd) (auto simp: f_def abort_task_def same_decl_def status_is_terminal_def)
  have lease1: "lease_inv g1 (ls @ ms)"
  proof (rule lease_inv_drop [of _ _ l])
    show "lease_inv g1 (ls @ l # ms)" unfolding g1_def
      by (rule lease_inv_upd [OF inv(3) t]) (use st in \<open>auto simp: f_def abort_task_def same_decl_def status_is_terminal_def\<close>)
  qed (use t1 fin in \<open>auto simp: status_is_terminal_def\<close>)
  have others: "rl_id m \<noteq> rl_id l" if "m \<in> set (ls @ ms)" for m
    using lease_ids_differ [OF inv(3)] that by blast
  have debt1: "debt_ok g1 (owes (ts_status (f t)) (ts_dependents (f t)) @ lease_debt g (ls @ ms))"
  proof (cases "ts_status t = Sched_Running")
    case True
    then have "owes_of g (rl_id l) = []" using t by (simp add: owes_of_def owes_live status_is_terminal_def)
    then have "debt_ok g (lease_debt g (ls @ ms))"
      using inv(2) by (elim debt_mono) (simp add: lease_debt_split)
    then have "debt_ok g1 (owes Sched_Cancelled (ts_dependents t) @ lease_debt g (ls @ ms))"
      unfolding g1_def using inv(1) t True
      by (intro debt_flip) (auto simp: core_inv_def f_def abort_task_def status_is_terminal_def)
    then show ?thesis using True by (simp add: f_def abort_task_def)
  next
    case False
    then have "f t = t" by (simp add: f_def abort_task_def)
    have "debt_ok g (owes_of g (rl_id l) @ lease_debt g (ls @ ms))"
      using inv(2) by (elim debt_mono) (simp add: lease_debt_split)
    then show ?thesis unfolding g1_def
      by (intro debt_more_blocked) (use t \<open>f t = t\<close> in \<open>auto simp: owes_of_def\<close>)
  qed
  have eqg: "upd_task (rl_id l) (abort_task now) (g\<lparr>gauge := ga\<rparr>) = g1\<lparr>gauge := ga\<rparr>"
    by (simp add: g1_def f_def upd_task_def)
  have "terminalize (rl_id l) (g1\<lparr>gauge := ga\<rparr>) = Some (terminalize_first (rl_id l) (f t) (g1\<lparr>gauge := ga\<rparr>))"
    by (rule terminalize_fresh) (use t1 un in \<open>simp_all add: g1_def\<close>)
  then have g': "g' = terminalize_first (rl_id l) (f t) (g1\<lparr>gauge := ga\<rparr>)"
    using term' eqg by simp
  have c2: "core_inv (g1\<lparr>gauge := ga\<rparr>)" and t2: "get_task (g1\<lparr>gauge := ga\<rparr>) (rl_id l) = Some (f t)"
    and d2: "debt_ok (g1\<lparr>gauge := ga\<rparr>) (owes (ts_status (f t)) (ts_dependents (f t)) @ lease_debt g (ls @ ms))"
    using core1 t1 debt1 by simp_all
  note facts = terminalize_first_facts [OF c2 t2 fin d2]
  have ld1: "lease_debt g1 (ls @ ms) = lease_debt g (ls @ ms)"
    by (rule lease_debt_cong) (use others in \<open>simp add: g1_def owes_of_def\<close>)
  have "lease_debt g' (ls @ ms) = lease_debt (g1\<lparr>gauge := ga\<rparr>) (ls @ ms)"
    unfolding g'
    by (rule lease_debt_terminalize [OF c2 t2 fin d2]) (use others lease_not_pending [OF lease1] in auto)
  then have debt': "debt_ok g' (lease_debt g' (ls @ ms))" using facts(2) ld1 by (simp add: g')
  have tz: "terminalized g' = (terminalized g)(rl_id l \<mapsto> 1)" using facts(6) by (simp add: g' g1_def)
  have "lease_inv (g1\<lparr>gauge := ga\<rparr>) (ls @ ms)" using lease1 by (simp add: lease_inv_def lease_ok_def unsat_def)
  moreover have "steady (g1\<lparr>gauge := ga\<rparr>) g'"
    unfolding g' by (rule terminalize_first_steady [OF c2 t2 fin d2])
  ultimately have lease': "lease_inv g' (ls @ ms)"
  proof (rule lease_inv_steady)
    fix m assume "m \<in> set (ls @ ms)"
    then show "terminalized g' (rl_id m) = None"
      using others inv(3) by (auto simp: tz lease_inv_def lease_ok_def)
  qed
  have "evolves g g'" using ev1 facts(3) unfolding g' by (metis evolves_frame(2) evolves_trans)
  moreover have "running g' = filter (\<lambda>e. fst e \<noteq> rl_id l) (running g)" "gauge g' = ga"
    using facts(4,5) by (simp_all add: g' g1_def)
  ultimately show ?thesis
    using facts(1) debt' lease' tz ga by (auto simp: g' split: if_splits)
qed

section \<open>Starting tasks\<close>

text \<open>The part of the invariant a scan maintains, with the leases started so far.\<close>

definition scan_inv :: "(string \<Rightarrow> string) \<Rightarrow> sched_inner \<Rightarrow> running_lease list \<Rightarrow> bool" where
  "scan_inv norm g ls \<longleftrightarrow> core_inv g \<and> debt_ok g (lease_debt g ls) \<and> lease_inv g ls \<and> own_inv norm g ls"

lemma scan_inv_ready:
  "scan_inv norm g ls \<Longrightarrow> set r \<subseteq> set (ready g) \<Longrightarrow> scan_inv norm (g\<lparr>ready := r\<rparr>) ls"
  unfolding scan_inv_def
  by (auto simp: core_inv_def ledger_ok_def lease_inv_def lease_ok_def unsat_def own_inv_def)

lemma start_get:
  "get_task (start oid op now ga g) k = (if k = oid then map_option (start_task now) (get_task g k) else get_task g k)"
  by (simp add: start_def Let_def)

lemma start_frame:
  "gauge (start oid op now ga g) = ga" "terminalized (start oid op now ga g) = terminalized g"
  "map fst (tasks (start oid op now ga g)) = map fst (tasks g)"
  "running (start oid op now ga g) = (oid, (so_reads op, so_writes op)) # filter (\<lambda>e. fst e \<noteq> oid) (running g)"
  by (simp_all add: start_def Let_def upd_task_def comp_def)

lemma sat_start:
  assumes "get_task g oid = Some t" and "ts_status t = Sched_Pending"
  shows "sat (start oid op now ga g) = sat g"
  using assms by (auto simp: sat_def task_status_of_def start_get start_task_def fun_eq_iff
      elim!: edge_satisfied.elims split: option.splits)

lemma scan_inv_start:
  fixes now :: int and ga :: resource_gauge
  assumes inv: "scan_inv norm g ls" and t: "get_task g oid = Some t"
    and ready: "ts_status t = Sched_Pending" "ts_remaining t = 0"
    and free: "\<not> list_ex (\<lambda>e. conflicts norm (ts_op t) (snd e)) (running g)"
  defines "g' \<equiv> start oid (ts_op t) now ga g"
    and "l \<equiv> \<lparr>rl_id = oid, rl_class = so_class (ts_op t), rl_permit = True\<rparr>"
  shows "scan_inv norm g' (ls @ [l])"
proof -
  have parts: "core_inv g" "debt_ok g (lease_debt g ls)" "lease_inv g ls" "own_inv norm g ls"
    using inv by (simp_all add: scan_inv_def)
  have get: "get_task g' k = (if k = oid then map_option (start_task now) (get_task g k) else get_task g k)" for k
    by (simp add: g'_def start_get)
  have sat': "sat g' = sat g" unfolding g'_def by (rule sat_start [OF t ready(1)])
  have "blocked_ok t" using blocked_ok_upd [OF parts(1) t] .
  then have nb: "ts_blocked t = 0" using ready(1) by (simp add: blocked_ok_def)
  have "unsat g t + count_list (lease_debt g ls) oid \<le> 0"
    using parts(2) t ready(2) nb by (fastforce simp: debt_ok_def)
  then have none: "unsat g t = 0" by simp
  have nl: "oid \<notin> rl_id ` set ls"
    using lease_not_pending [OF parts(3)] t ready(1) by auto
  have un: "terminalized g oid = None"
    using parts(1) t ready(1) unfolding core_inv_def ledger_ok_def
    by (metis not_None_eq option.inject status_is_terminal_def insert_iff empty_iff task_status.distinct)
  have core: "core_inv g'"
  proof -
    have "core_inv (upd_task oid (start_task now) g)"
      by (rule core_upd [OF parts(1)])
        (use t ready(1) nb in \<open>auto simp: start_task_def blocked_ok_def status_is_terminal_def\<close>)
    moreover have "g' = (upd_task oid (start_task now) g)\<lparr>gauge := ga,
        running := (oid, (so_reads (ts_op t), so_writes (ts_op t))) # filter (\<lambda>e. fst e \<noteq> oid) (running g)\<rparr>"
      by (simp add: g'_def start_def Let_def upd_task_def)
    ultimately show ?thesis by simp
  qed
  have unsat': "unsat g' (start_task now u) = unsat g u" "unsat g' u = unsat g u" for u
    by (simp_all add: unsat_def sat' start_task_def)
  have tz: "terminalized g' = terminalized g" by (simp add: g'_def start_frame)
  have owes': "owes_of g' k = (if k = oid then [] else owes_of g k)" for k
    using t by (auto simp: owes_of_def get start_task_def owes_live status_is_terminal_def)
  have "lease_debt g' (ls @ [l]) = lease_debt g ls"
  proof -
    have "lease_debt g' ls = lease_debt g ls"
      by (rule lease_debt_cong) (use nl in \<open>auto simp: owes'\<close>)
    then show ?thesis by (simp add: lease_debt_def owes' l_def)
  qed
  moreover have "debt_ok g' Q = debt_ok g Q" for Q
    unfolding debt_ok_def using t by (auto simp: get unsat' start_task_def unsat_def sat' split: if_splits)
  ultimately have debt: "debt_ok g' (lease_debt g' (ls @ [l]))" using parts(2) by simp
  have lease: "lease_inv g' (ls @ [l])"
  proof (unfold lease_inv_def, intro conjI)
    show "distinct (map rl_id (ls @ [l]))" using parts(3) nl by (auto simp: lease_inv_def l_def)
    show "\<forall>m \<in> set (ls @ [l]). lease_ok g' (rl_id m)"
    proof
      fix m assume m: "m \<in> set (ls @ [l])"
      show "lease_ok g' (rl_id m)"
      proof (cases "rl_id m = oid")
        case True
        then show ?thesis using t un none
          by (simp add: lease_ok_def get unsat' tz) (simp add: start_task_def unsat_def)
      next
        case False
        then have "m \<in> set ls" using m by (auto simp: l_def)
        then have "lease_ok g (rl_id m)" using parts(3) by (simp add: lease_inv_def)
        with False show ?thesis by (simp add: lease_ok_def get unsat' tz)
      qed
    qed
    show "\<forall>k t. get_task g' k = Some t \<longrightarrow> ts_status t = Sched_Running \<longrightarrow> k \<in> rl_id ` set (ls @ [l])"
      using lease_running [OF parts(3)] by (auto simp: get l_def split: if_splits)
  qed
  have nr: "filter (\<lambda>e. fst e \<noteq> oid) (running g) = running g"
    using parts(4) nl unfolding own_inv_def by (intro filter_True) (metis imageI)
  have run: "running g' = (oid, (so_reads (ts_op t), so_writes (ts_op t))) # running g"
    by (simp add: g'_def start_frame nr)
  have own: "own_inv norm g' (ls @ [l])"
  proof (unfold own_inv_def run, intro conjI)
    show "distinct (map fst ((oid, (so_reads (ts_op t), so_writes (ts_op t))) # running g))"
      using parts(4) nl by (simp add: own_inv_def)
    show "fst ` set ((oid, (so_reads (ts_op t), so_writes (ts_op t))) # running g) = rl_id ` set (ls @ [l])"
      using parts(4) by (simp add: own_inv_def l_def)
    show "\<forall>e \<in> set ((oid, (so_reads (ts_op t), so_writes (ts_op t))) # running g).
        \<exists>t. get_task g' (fst e) = Some t \<and> snd e = (so_reads (ts_op t), so_writes (ts_op t))"
      using parts(4) t by (auto simp: own_inv_def get start_task_def)
    have cl: "\<not> clash norm (so_reads (ts_op t), so_writes (ts_op t)) (snd e)"
      "\<not> clash norm (snd e) (so_reads (ts_op t), so_writes (ts_op t))" if "e \<in> set (running g)" for e
      using free that set_overlaps_sym [of norm] unfolding list_ex_iff conflicts_def clash_def by auto
    show "\<forall>e \<in> set ((oid, (so_reads (ts_op t), so_writes (ts_op t))) # running g).
        \<forall>e' \<in> set ((oid, (so_reads (ts_op t), so_writes (ts_op t))) # running g).
        fst e \<noteq> fst e' \<longrightarrow> \<not> clash norm (snd e) (snd e')"
      using parts(4) cl by (auto simp: own_inv_def)
  qed
  show ?thesis using core debt lease own by (simp add: scan_inv_def)
qed

text \<open>Permits: what the gauge counts is what the leases and the standalone executions hold.\<close>

definition lease_permits :: "running_lease list \<Rightarrow> resource_class list" where
  "lease_permits ls = map rl_class (filter rl_permit ls)"

lemma permit_inv_alt:
  "permit_inv limits s \<longleftrightarrow> gauge.accounts (lease_permits (sys_leases s) @ sys_permits s) (gauge (sys_inner s))
     \<and> gauge.within limits (gauge (sys_inner s))"
  by (auto simp: permit_inv_def gauge.accounts_def gauge.within_def held_def lease_permits_def fun_eq_iff)

lemma accounts_perm: "gauge.accounts xs ga \<Longrightarrow> (\<And>c. count_list ys c = count_list xs c) \<Longrightarrow> gauge.accounts ys ga"
  by (simp add: gauge.accounts_def fun_eq_iff)

lemma accounts_acquire:
  assumes "gauge.accounts xs ga" and "try_acquire c limits ga = Inr ga'"
  shows "gauge.accounts (c # xs) ga'"
  using gauge.acquire_accounts [OF assms(1), of limits c ga'] assms(2) by (simp add: acquire_opt_Some)

lemma within_acquire:
  assumes "gauge.within limits ga" and "try_acquire c limits ga = Inr ga'"
  shows "gauge.within limits ga'"
  using gauge.acquire_within [OF assms(1), of c ga'] assms(2) by (simp add: acquire_opt_Some)

lemma accounts_release:
  assumes "gauge.accounts xs ga" and "gauge_release c ga = Some ga'" and "c \<in> set xs"
  shows "gauge.accounts (remove1 c xs) ga'"
proof -
  obtain ga'' where "gauge_release c ga = Some ga''" "gauge.accounts (remove1 c xs) ga''"
    using gauge.release_accounts [OF assms(1,3)] by blast
  with assms(2) show ?thesis by simp
qed

lemma within_release:
  "gauge.within limits ga \<Longrightarrow> gauge_release c ga = Some ga' \<Longrightarrow> gauge.within limits ga'"
  by (rule gauge.release_within)

text \<open>The scan never panics on a good state and keeps the whole invariant.\<close>

lemma evolves_left: "evolves (g\<lparr>ready := r\<rparr>) g' = evolves g g'"
  by (simp add: evolves_def)

lemma scan_correct:
  assumes "scan_inv norm g (ls @ started)" and "gauge.accounts (lease_permits (ls @ started) @ ps) (gauge g)"
    and "gauge.within limits (gauge g)"
  shows "\<exists>g' started'. scan norm limits now budget (g, started) = Some (g', started')
    \<and> scan_inv norm g' (ls @ started') \<and> gauge.accounts (lease_permits (ls @ started') @ ps) (gauge g')
    \<and> gauge.within limits (gauge g') \<and> terminalized g' = terminalized g
    \<and> evolves g g'"
  using assms
proof (induction norm limits now budget "(g, started)" arbitrary: g started rule: scan.induct)
  case (1 norm limits now budget g started)
  note prem = "1.prems" and IH = "1.hyps"
  show ?case
  proof (cases "budget = 0 \<or> ready g = []")
    case True
    then show ?thesis using prem evolves_refl by (auto split: list.splits)
  next
    case False
    then obtain oid rest where r: "budget \<noteq> 0" "ready g = oid # rest" by (cases "ready g") auto
    have "oid \<in> set (map fst (tasks g))"
      using prem(1) r(2) unfolding scan_inv_def core_inv_def by auto
    then obtain t where t: "get_task g oid = Some t" using key_get_task by blast
    have sub: "set rest \<subseteq> set (ready g)" "set (rest @ [oid]) \<subseteq> set (ready g)" using r(2) by auto
    consider (stale) "ts_status t \<noteq> Sched_Pending \<or> ts_remaining t \<noteq> 0"
      | (clash) "ts_status t = Sched_Pending" "ts_remaining t = 0"
          "list_ex (\<lambda>e. conflicts norm (ts_op t) (snd e)) (running g)"
      | (busy) b where "ts_status t = Sched_Pending" "ts_remaining t = 0"
          "\<not> list_ex (\<lambda>e. conflicts norm (ts_op t) (snd e)) (running g)"
          "try_acquire (so_class (ts_op t)) limits (gauge g) = Inl b"
      | (go) ga where "ts_status t = Sched_Pending" "ts_remaining t = 0"
          "\<not> list_ex (\<lambda>e. conflicts norm (ts_op t) (snd e)) (running g)"
          "try_acquire (so_class (ts_op t)) limits (gauge g) = Inr ga"
      by (cases "try_acquire (so_class (ts_op t)) limits (gauge g)") blast+
    then show ?thesis
    proof cases
      case stale
      then have eq: "scan norm limits now budget (g, started) = scan norm limits now budget (g\<lparr>ready := rest\<rparr>, started)"
        using r t by (subst scan.simps) simp
      show ?thesis
        using IH(1) [OF r t stale scan_inv_ready [OF prem(1) sub(1)]] prem(2,3)
        unfolding eq by (simp add: evolves_left)
    next
      case clash
      then have eq: "scan norm limits now budget (g, started) = scan norm limits now (budget - 1) (g\<lparr>ready := rest @ [oid]\<rparr>, started)"
        using r t by (subst scan.simps) simp
      show ?thesis
        using IH(2) [OF r t _ clash(3) scan_inv_ready [OF prem(1) sub(2)]] clash prem(2,3)
        unfolding eq by (simp add: evolves_left)
    next
      case (busy b)
      then have eq: "scan norm limits now budget (g, started) = scan norm limits now (budget - 1) (g\<lparr>ready := rest @ [oid]\<rparr>, started)"
        using r t by (subst scan.simps) simp
      show ?thesis
        using IH(3) [OF r t _ busy(3,4) scan_inv_ready [OF prem(1) sub(2)]] busy prem(2,3)
        unfolding eq by (simp add: evolves_left)
    next
      case (go ga)
      let ?g = "start oid (ts_op t) now ga (g\<lparr>ready := rest\<rparr>)"
      let ?l = "\<lparr>rl_id = oid, rl_class = so_class (ts_op t), rl_permit = True\<rparr>"
      have eq: "scan norm limits now budget (g, started) = scan norm limits now budget (?g, started @ [?l])"
        using r t go by (subst scan.simps) simp
      have "scan_inv norm ?g ((ls @ started) @ [?l])"
        by (rule scan_inv_start [OF scan_inv_ready [OF prem(1) sub(1)]]) (use t go in simp_all)
      moreover have "gauge.accounts (so_class (ts_op t) # lease_permits (ls @ started) @ ps) (gauge ?g)"
        unfolding start_frame using accounts_acquire [OF prem(2) go(4)] .
      then have "gauge.accounts (lease_permits (ls @ started @ [?l]) @ ps) (gauge ?g)"
        by (rule accounts_perm) (simp add: lease_permits_def)
      moreover have "gauge.within limits (gauge ?g)"
        unfolding start_frame using within_acquire [OF prem(3) go(4)] .
      moreover have "evolves g ?g"
        using t go(1) by (auto simp: evolves_def start_get start_task_def same_decl_def status_is_terminal_def)
      moreover have "\<not> (ts_status t \<noteq> Sched_Pending \<or> ts_remaining t \<noteq> 0)" using go(1,2) by simp
      note IH(4) [OF r t this go(3,4)]
      ultimately have "\<exists>g' started'. scan norm limits now budget (?g, started @ [?l]) = Some (g', started')
        \<and> scan_inv norm g' (ls @ started') \<and> gauge.accounts (lease_permits (ls @ started') @ ps) (gauge g')
        \<and> gauge.within limits (gauge g') \<and> terminalized g' = terminalized ?g \<and> evolves ?g g'"
        by simp
      with \<open>evolves g ?g\<close> show ?thesis
        unfolding eq start_frame by (elim exE conjE, intro exI conjI)
          (assumption | simp | erule evolves_trans)+
    qed
  qed
qed

end
