(* ===== verification/Scheduler_Rebuild.thy ===== *)
theory Scheduler_Rebuild
  imports Scheduler_System
begin

text \<open>
  The dependency graph is rebuilt from the declared edges before the ready queue is drained. This
  theory shows that the rebuild keeps the accounting of the scheduler: remaining counts agree with
  the unsatisfied edges, tasks that can no longer start are blocked and terminalized once, and the
  leases of running tasks are untouched.
\<close>

section \<open>Rebuilding the graph\<close>

lemma rebuild_deps_spec:
  assumes "rebuild_deps st oid D (g, r, b) = Some (g', r', b')"
  shows "(\<forall>k. get_task g' k = map_option (add_deps (pushes st oid D k)) (get_task g k)) \<and>
    gauge g' = gauge g \<and> ready g' = ready g \<and> running g' = running g \<and> terminalized g' = terminalized g \<and>
    map fst (tasks g') = map fst (tasks g) \<and>
    r' + b' = r + b + length (filter (\<lambda>e. \<not> (case st (fst e) of None \<Rightarrow> False | Some s \<Rightarrow> edge_satisfied (snd e) s)) D)"
  using assms
proof (induction D arbitrary: g r b)
  case Nil
  then show ?case by (auto simp: pushes_def option.map_ident)
next
  case (Cons e D)
  obtain d p where e: "e = (d, p)" by (cases e)
  obtain s where s: "st d = Some s" using Cons.prems e by (auto split: option.splits)
  define g1 where "g1 = (if recorded st e then push_dependent d (oid, p) g else g)"
  obtain r1 b1 where f: "rebuild_deps st oid D (g1, r1, b1) = Some (g', r', b')"
    and cnt: "r1 + b1 = r + b + (if edge_satisfied p s then 0 else 1)"
    using Cons.prems s by (auto simp: e g1_def recorded_def split: if_splits)
  note IH = Cons.IH [OF f]
  have "get_task g' k = map_option (add_deps (pushes st oid (e # D) k)) (get_task g k)" for k
  proof -
    have "get_task g' k = map_option (add_deps (pushes st oid D k)) (get_task g1 k)" using IH by blast
    moreover have "get_task g1 k = map_option (add_deps (if fst e = k \<and> recorded st e then [(oid, p)] else []))
        (get_task g k)"
      by (auto simp: g1_def push_dependent_get e)
    ultimately show ?thesis by (auto simp: pushes_def option.map_comp comp_def e)
  qed
  moreover have "gauge g1 = gauge g \<and> ready g1 = ready g \<and> running g1 = running g \<and>
      terminalized g1 = terminalized g \<and> map fst (tasks g1) = map fst (tasks g)"
    by (simp add: g1_def push_dependent_frame)
  ultimately show ?case using IH cnt s by (simp add: e)
qed

text \<open>
  The state of the rebuild loop after the ids \<open>P\<close>, relative to the graph \<open>g0\<close> it started from.
\<close>

definition rebuilt_task :: "sched_inner \<Rightarrow> op_id set \<Rightarrow> op_id list \<Rightarrow> op_id \<Rightarrow> sched_task \<Rightarrow> sched_task \<Rightarrow> bool" where
  "rebuilt_task g0 P nb k t0 t \<longleftrightarrow> ts_op t = ts_op t0 \<and>
     ts_status t = (if k \<in> set nb then Sched_Blocked else ts_status t0) \<and>
     (k \<in> set nb \<longrightarrow> ts_status t0 = Sched_Pending) \<and>
     (k \<in> P \<longrightarrow> ts_remaining t + ts_blocked t = unsat g0 t0) \<and> blocked_ok t \<and>
     (k \<notin> P \<longrightarrow> ts_blocked t = 0) \<and>
     (\<forall>j p. count_list (ts_dependents t) (j, p) \<le> (if j \<in> P \<and> \<not> sat g0 (k, p) then dep_count g0 j (k, p) else 0))"

definition rebuilt :: "sched_inner \<Rightarrow> op_id set \<Rightarrow> sched_inner \<times> op_id list \<Rightarrow> bool" where
  "rebuilt g0 P s \<longleftrightarrow> map fst (tasks (fst s)) = map fst (tasks g0) \<and> gauge (fst s) = gauge g0 \<and>
     running (fst s) = running g0 \<and> terminalized (fst s) = terminalized g0 \<and> ready (fst s) = [] \<and>
     distinct (snd s) \<and> set (snd s) \<subseteq> P \<and>
     (\<forall>k. rel_option (rebuilt_task g0 P (snd s) k) (get_task g0 k) (get_task (fst s) k))"

lemma sat_recorded:
  assumes "recorded (task_status_of g0) (k, p)"
  shows "\<not> sat g0 (k, p)"
  using assms by (auto simp: recorded_def sat_def split: option.splits)

lemma rebuilt_step:
  assumes inv: "rebuilt g0 P (g, nb)" and new: "oid \<notin> P" and t0: "get_task g0 oid = Some t0"
    and f: "rebuild_deps (task_status_of g0) oid (so_dependencies (ts_op t0)) (g, 0, 0) = Some (g1, r, b)"
    and flip: "flip \<longleftrightarrow> b > 0 \<and> task_status_of g1 oid = Some Sched_Pending"
  shows "rebuilt g0 (insert oid P)
    (upd_task oid (\<lambda>t. t\<lparr>ts_remaining := r, ts_blocked := b, ts_status := if flip then Sched_Blocked else ts_status t\<rparr>) g1,
     if flip then nb @ [oid] else nb)"
proof -
  let ?D = "so_dependencies (ts_op t0)"
  let ?f = "\<lambda>t. t\<lparr>ts_remaining := r, ts_blocked := b, ts_status := if flip then Sched_Blocked else ts_status t\<rparr>"
  let ?nb = "if flip then nb @ [oid] else nb"
  note d = rebuild_deps_spec [OF f]
  have g1: "get_task g1 k = map_option (add_deps (pushes (task_status_of g0) oid ?D k)) (get_task g k)" for k
    using d by blast
  have cnt: "r + b = unsat g0 t0" using d by (simp add: unsat_def sat_def)
  have rel: "rel_option (rebuilt_task g0 P nb k) (get_task g0 k) (get_task g k)" for k
    using inv by (simp add: rebuilt_def)
  have nb: "oid \<notin> set nb" using inv new by (auto simp: rebuilt_def)
  have "rel_option (rebuilt_task g0 (insert oid P) ?nb k) (get_task g0 k) (get_task (upd_task oid ?f g1) k)" for k
  proof (cases "get_task g0 k")
    case None
    then show ?thesis using rel [of k] by (cases "get_task g k") (auto simp: g1)
  next
    case (Some u0)
    then obtain u where u: "get_task g k = Some u" "rebuilt_task g0 P nb k u0 u"
      using rel [of k] by (metis option_rel_Some1)
    define v where "v = add_deps (pushes (task_status_of g0) oid ?D k) u"
    have get: "get_task (upd_task oid ?f g1) k = Some (if k = oid then ?f v else v)"
      using u(1) by (auto simp: g1 v_def)
    have bound: "count_list (ts_dependents v) (j, p)
        \<le> (if j \<in> insert oid P \<and> \<not> sat g0 (k, p) then dep_count g0 j (k, p) else 0)" for j p
    proof -
      have "count_list (ts_dependents u) (j, p) \<le> (if j \<in> P \<and> \<not> sat g0 (k, p) then dep_count g0 j (k, p) else 0)"
        using u(2) by (simp add: rebuilt_task_def)
      moreover have "count_list (pushes (task_status_of g0) oid ?D k) (j, p)
          \<le> (if j = oid \<and> \<not> sat g0 (k, p) then dep_count g0 oid (k, p) else 0)"
        using count_pushes [of "task_status_of g0" oid ?D k j p] sat_recorded [of g0 k p] t0
        by (auto simp: dep_count_def split: if_splits)
      ultimately show ?thesis using new by (auto simp: v_def split: if_splits)
    qed
    show ?thesis
    proof (cases "k = oid")
      case True
      then have u0: "u0 = t0" using Some t0 by simp
      have st: "ts_status u = ts_status t0" using u(2) nb True u0 by (simp add: rebuilt_task_def)
      have fl: "flip \<longleftrightarrow> b > 0 \<and> ts_status t0 = Sched_Pending"
        using flip u(1) True st by (simp add: task_status_of_def g1)
      have "rebuilt_task g0 (insert oid P) ?nb k u0 (?f v)"
        unfolding rebuilt_task_def
      proof (intro conjI)
        show "ts_op (?f v) = ts_op u0" using u(2) by (simp add: v_def rebuilt_task_def)
        show "ts_status (?f v) = (if k \<in> set ?nb then Sched_Blocked else ts_status u0)"
          using st fl nb True u0 by (simp add: v_def)
        show "k \<in> set ?nb \<longrightarrow> ts_status u0 = Sched_Pending" using fl nb True u0 by auto
        show "k \<in> insert oid P \<longrightarrow> ts_remaining (?f v) + ts_blocked (?f v) = unsat g0 u0"
          using cnt u0 by simp
        show "blocked_ok (?f v)" using fl st by (auto simp: blocked_ok_def v_def)
        show "k \<notin> insert oid P \<longrightarrow> ts_blocked (?f v) = 0" using True by simp
        show "\<forall>j p. count_list (ts_dependents (?f v)) (j, p)
            \<le> (if j \<in> insert oid P \<and> \<not> sat g0 (k, p) then dep_count g0 j (k, p) else 0)"
          using bound by simp
      qed
      then show ?thesis unfolding get Some using True by (simp only: if_True option.rel_inject refl)
    next
      case False
      then have "rebuilt_task g0 (insert oid P) ?nb k u0 v"
        using u(2) bound by (auto simp: rebuilt_task_def blocked_ok_def v_def)
      then show ?thesis unfolding get Some using False by (simp only: if_False option.rel_inject)
    qed
  qed
  moreover have "distinct ?nb" "set ?nb \<subseteq> insert oid P" using inv nb by (auto simp: rebuilt_def)
  moreover have "map fst (tasks (upd_task oid ?f g1)) = map fst (tasks g0)" "gauge (upd_task oid ?f g1) = gauge g0"
    "running (upd_task oid ?f g1) = running g0" "terminalized (upd_task oid ?f g1) = terminalized g0"
    "ready (upd_task oid ?f g1) = []"
    using inv d by (simp_all only: keys_upd upd_task_frame rebuilt_def fst_conv)
  ultimately show ?thesis unfolding rebuilt_def fst_conv snd_conv by blast
qed

lemma rebuilt_taskE:
  assumes "rebuilt g0 P (g, nb)" and "get_task g k = Some t"
  obtains t0 where "get_task g0 k = Some t0" "rebuilt_task g0 P nb k t0 t"
proof -
  have "rel_option (rebuilt_task g0 P nb k) (get_task g0 k) (Some t)"
    using assms by (simp add: rebuilt_def) (metis assms(2))
  then show thesis using that by (cases "get_task g0 k") auto
qed

lemma rebuilt_each:
  assumes "rebuild_each (task_status_of g0) oids (g, nb) = Some (g', nb')" and "rebuilt g0 P (g, nb)"
    and "distinct oids" and "set oids \<inter> P = {}"
  shows "rebuilt g0 (P \<union> set oids) (g', nb')"
  using assms
proof (induction oids arbitrary: g nb P)
  case (Cons oid oids)
  obtain t where t: "get_task g oid = Some t" using Cons.prems(1) by (auto split: option.splits)
  obtain t0 where t0: "get_task g0 oid = Some t0" "ts_op t = ts_op t0"
    using rebuilt_taskE [OF Cons.prems(2) t] by (metis rebuilt_task_def)
  obtain g1 r b where f: "rebuild_deps (task_status_of g0) oid (so_dependencies (ts_op t0)) (g, 0, 0) = Some (g1, r, b)"
    using Cons.prems(1) t t0(2) by (auto split: option.splits)
  define flip where "flip \<longleftrightarrow> b > 0 \<and> task_status_of g1 oid = Some Sched_Pending"
  let ?g = "upd_task oid (\<lambda>t. t\<lparr>ts_remaining := r, ts_blocked := b, ts_status := if flip then Sched_Blocked else ts_status t\<rparr>) g1"
  let ?nb = "if flip then nb @ [oid] else nb"
  have "rebuilt g0 (insert oid P) (?g, ?nb)"
    by (rule rebuilt_step [OF Cons.prems(2) _ t0(1) f flip_def]) (use Cons.prems(4) in auto)
  moreover have "rebuild_each (task_status_of g0) oids (?g, ?nb) = Some (g', nb')"
    using Cons.prems(1) t t0(2) f by (simp add: Let_def flip_def)
  ultimately have "rebuilt g0 (insert oid P \<union> set oids) (g', nb')"
    using Cons.prems(3,4) by (intro Cons.IH) auto
  then show ?case by simp
qed simp

lemma sum_members_le:
  "distinct nb \<Longrightarrow> sum_list (map (\<lambda>x. length (filter (\<lambda>e. fst e = x \<and> P e) D)) nb)
     \<le> length (filter (\<lambda>e. fst e \<in> set nb \<and> P e) D)"
proof (induction nb)
  case (Cons x nb)
  have "length (filter (\<lambda>e. fst e \<in> set (x # nb) \<and> P e) D) =
      length (filter (\<lambda>e. (fst e \<in> set (x # nb) \<and> P e) \<and> fst e = x) D) +
      length (filter (\<lambda>e. (fst e \<in> set (x # nb) \<and> P e) \<and> fst e \<noteq> x) D)"
    by (rule filter_split)
  moreover have "(\<lambda>e. (fst e \<in> set (x # nb) \<and> P e) \<and> fst e = x) = (\<lambda>e. fst e = x \<and> P e)"
    by (auto simp: fun_eq_iff)
  moreover have "(\<lambda>e. (fst e \<in> set (x # nb) \<and> P e) \<and> fst e \<noteq> x) = (\<lambda>e. fst e \<in> set nb \<and> P e)"
    using Cons.prems by (auto simp: fun_eq_iff)
  ultimately show ?case using Cons by simp
qed simp

lemma count_wl_owes:
  "count_list (wl_owes g nb) k = sum_list (map (\<lambda>x. count_list (owes Sched_Blocked (dependents_of g x)) k) nb)"
  by (induction nb) (simp_all add: wl_owes_def)

text \<open>After the loop the counters cover what is unsatisfied and what the new blocked tasks owe.\<close>

lemma rebuilt_sat:
  assumes "rebuilt g0 (set (map fst (tasks g0))) (g, nb)"
  shows "sat g e \<longleftrightarrow> sat g0 e \<or> (fst e \<in> set nb \<and> snd e = Policy_Always)"
    and "fst e \<in> set nb \<Longrightarrow> \<not> sat g0 e"
proof -
  have rel: "rel_option (rebuilt_task g0 (set (map fst (tasks g0))) nb (fst e)) (get_task g0 (fst e)) (get_task g (fst e))"
    using assms by (simp add: rebuilt_def)
  have reg: "fst e \<in> set nb \<Longrightarrow> get_task g0 (fst e) \<noteq> None"
    using assms key_get_task [of "fst e" g0] by (auto simp: rebuilt_def)
  show "sat g e \<longleftrightarrow> sat g0 e \<or> (fst e \<in> set nb \<and> snd e = Policy_Always)"
    using rel reg
    by (cases "get_task g0 (fst e)"; cases "get_task g (fst e)"; cases "snd e")
      (auto simp: sat_def task_status_of_def rebuilt_task_def split: if_splits)
  show "fst e \<in> set nb \<Longrightarrow> \<not> sat g0 e"
    using rel
    by (cases "get_task g0 (fst e)"; cases "get_task g (fst e)"; cases "snd e")
      (auto simp: sat_def task_status_of_def rebuilt_task_def)
qed

lemma rebuilt_debt:
  assumes r: "rebuilt g0 (set (map fst (tasks g0))) (g, nb)"
  shows "debt_ok g (wl_owes g nb)"
proof (unfold debt_ok_def, intro allI impI)
  fix k t assume t: "get_task g k = Some t"
  let ?K = "set (map fst (tasks g0))"
  obtain t0 where t0: "get_task g0 k = Some t0" "rebuilt_task g0 ?K nb k t0 t" using rebuilt_taskE [OF r t] .
  then have k: "k \<in> ?K" using get_task_key by blast
  let ?D = "so_dependencies (ts_op t0)"
  have D: "so_dependencies (ts_op t) = ?D" using t0(2) by (simp add: rebuilt_task_def)
  have "count_list (owes Sched_Blocked (dependents_of g x)) k \<le> length (filter (\<lambda>e. fst e = x \<and> snd e = Policy_Always) ?D)"
    if x: "x \<in> set nb" for x
  proof (cases "get_task g x")
    case (Some u)
    obtain u0 where "rebuilt_task g0 ?K nb x u0 u" using rebuilt_taskE [OF r Some] .
    then have "count_list (ts_dependents u) (k, Policy_Always) \<le> dep_count g0 k (x, Policy_Always)"
      using k by (fastforce simp: rebuilt_task_def split: if_splits)
    moreover have "count_list (owes Sched_Blocked (dependents_of g x)) k = count_list (ts_dependents u) (k, Policy_Always)"
      unfolding count_owes sum_policies [where P = "\<lambda>p. edge_satisfied p Sched_Blocked"]
      using Some by (simp add: dependents_of_def)
    moreover have "length (filter (\<lambda>e. fst e = x \<and> snd e = Policy_Always) ?D) = count_list ?D (x, Policy_Always)"
      unfolding sum_policies [where P = "\<lambda>p. p = Policy_Always"] by simp
    ultimately show ?thesis using t0(1) by (simp add: dep_count_def)
  qed (simp add: dependents_of_def owes_def)
  then have "count_list (wl_owes g nb) k \<le> sum_list (map (\<lambda>x. length (filter (\<lambda>e. fst e = x \<and> snd e = Policy_Always) ?D)) nb)"
    unfolding count_wl_owes by (intro sum_list_mono) blast
  also have "\<dots> \<le> length (filter (\<lambda>e. fst e \<in> set nb \<and> snd e = Policy_Always) ?D)"
    using r by (intro sum_members_le) (simp add: rebuilt_def)
  finally have owed: "count_list (wl_owes g nb) k \<le> length (filter (\<lambda>e. fst e \<in> set nb \<and> snd e = Policy_Always) ?D)" .
  have "length (filter (\<lambda>e. \<not> sat g0 e) ?D) =
      length (filter (\<lambda>e. \<not> sat g0 e \<and> \<not> sat g e) ?D) + length (filter (\<lambda>e. \<not> sat g0 e \<and> \<not> \<not> sat g e) ?D)"
    by (rule filter_split)
  moreover have "(\<lambda>e. \<not> sat g0 e \<and> \<not> sat g e) = (\<lambda>e. \<not> sat g e)"
    using rebuilt_sat [OF r] by (auto simp: fun_eq_iff)
  moreover have "(\<lambda>e. \<not> sat g0 e \<and> \<not> \<not> sat g e) = (\<lambda>e. fst e \<in> set nb \<and> snd e = Policy_Always)"
    using rebuilt_sat [OF r] by (auto simp: fun_eq_iff)
  ultimately have "unsat g0 t0 = unsat g t + length (filter (\<lambda>e. fst e \<in> set nb \<and> snd e = Policy_Always) ?D)"
    by (simp add: unsat_def D)
  moreover have "ts_remaining t + ts_blocked t = unsat g0 t0" using t0(2) k unfolding rebuilt_task_def by blast
  ultimately show "unsat g t + count_list (wl_owes g nb) k \<le> ts_remaining t + ts_blocked t"
    using owed by simp
qed

lemma rebuilt_core:
  assumes r: "rebuilt g0 (set (map fst (tasks g0))) (g, nb)" and inv: "core_inv g0"
  shows "core_inv g" and "steady g0 g"
proof -
  let ?K = "set (map fst (tasks g0))"
  have rel: "rel_option (rebuilt_task g0 ?K nb k) (get_task g0 k) (get_task g k)" for k
    using r by (simp add: rebuilt_def)
  show st: "steady g0 g" unfolding steady_def
  proof (intro conjI allI impI)
    fix k t assume "get_task g0 k = Some t"
    then obtain t' where "get_task g k = Some t'" "rebuilt_task g0 ?K nb k t t'"
      using rel [of k] by (metis option_rel_Some1)
    then show "\<exists>t'. get_task g k = Some t' \<and> same_decl (ts_op t') (ts_op t) \<and>
        (ts_status t' = ts_status t \<or> ts_status t = Sched_Pending \<and> ts_status t' \<in> {Sched_Blocked, Sched_Cancelled})"
      by (auto simp: rebuilt_task_def same_decl_def)
  next
    fix k t' assume "get_task g k = Some t'"
    then show "get_task g0 k \<noteq> None" using rel [of k] by (cases "get_task g0 k") auto
  qed
  have dc: "dep_count g j e = dep_count g0 j e" for j e
    using rel [of j] by (cases "get_task g0 j"; cases "get_task g j") (auto simp: dep_count_def rebuilt_task_def)
  have "links_ok g" unfolding links_ok_def dc
  proof (intro allI impI)
    fix d t j p assume "get_task g d = Some t"
    then obtain t0 where "rebuilt_task g0 ?K nb d t0 t" using rebuilt_taskE [OF r] by blast
    then have "count_list (ts_dependents t) (j, p) \<le> (if j \<in> ?K \<and> \<not> sat g0 (d, p) then dep_count g0 j (d, p) else 0)"
      by (simp add: rebuilt_task_def)
    then show "count_list (ts_dependents t) (j, p) \<le> dep_count g0 j (d, p)" by (auto split: if_splits)
  qed
  moreover have "blocked_ok t" if "get_task g k = Some t" for k t
    using rebuilt_taskE [OF r that] by (metis rebuilt_task_def)
  moreover have "ledger_ok g"
  proof (unfold ledger_ok_def, intro allI impI)
    fix k n assume "terminalized g k = Some n"
    then have "terminalized g0 k = Some n" using r by (simp add: rebuilt_def)
    then obtain t where "n = 1" "get_task g0 k = Some t" "status_is_terminal (ts_status t)"
      using inv unfolding core_inv_def ledger_ok_def by blast
    then show "n = 1 \<and> (\<exists>t. get_task g k = Some t \<and> status_is_terminal (ts_status t))"
      using evolvesE [OF steady_evolves [OF st]] by metis
  qed
  moreover have "map fst (tasks g) = map fst (tasks g0)" "ready g = []" using r by (simp_all add: rebuilt_def)
  ultimately show "core_inv g" using inv unfolding core_inv_def by simp
qed

lemma rebuilt_owes:
  assumes r: "rebuilt g0 (set (map fst (tasks g0))) (g, nb)" and k: "k \<notin> set nb"
  shows "owes_of g k = []"
proof (cases "get_task g k")
  case (Some t)
  obtain t0 where t0: "get_task g0 k = Some t0" "rebuilt_task g0 (set (map fst (tasks g0))) nb k t0 t"
    using rebuilt_taskE [OF r Some] .
  have st: "ts_status t = ts_status t0" using t0(2) k by (simp add: rebuilt_task_def)
  have "count_list (ts_dependents t) (j, p) = 0" if "edge_satisfied p (ts_status t)" for j p
  proof -
    have "sat g0 (k, p)" using t0(1) st that by (simp add: sat_def task_status_of_def)
    moreover have "count_list (ts_dependents t) (j, p) \<le>
        (if j \<in> set (map fst (tasks g0)) \<and> \<not> sat g0 (k, p) then dep_count g0 j (k, p) else 0)"
      using t0(2) by (simp add: rebuilt_task_def)
    ultimately show ?thesis by simp
  qed
  then have "filter (\<lambda>e. edge_satisfied (snd e) (ts_status t)) (ts_dependents t) = []"
    by (auto simp: filter_empty_conv count_list_0_iff)
  then show ?thesis using Some by (simp add: owes_of_def owes_def)
qed (simp add: owes_of_def)

text \<open>Terminalizing the newly blocked tasks one after the other.\<close>

lemma terminalize_all_correct:
  assumes "core_inv g" and "debt_ok g (wl_owes g nb @ R)" and "distinct nb"
    and "\<And>x. x \<in> set nb \<Longrightarrow> task_status_of g x = Some Sched_Blocked \<and> terminalized g x = None"
  shows "\<exists>g'. terminalize_all nb g = Some g' \<and> core_inv g' \<and> debt_ok g' R \<and> steady g g' \<and> gauge g' = gauge g
    \<and> running g' = filter (\<lambda>e. fst e \<notin> set nb) (running g)
    \<and> (\<forall>k. k \<notin> set nb \<longrightarrow> terminalized g' k = terminalized g k)
    \<and> map fst (tasks g') = map fst (tasks g)
    \<and> (\<forall>k. k \<notin> set nb \<longrightarrow> task_status_of g k \<noteq> Some Sched_Pending \<longrightarrow> owes_of g' k = owes_of g k)"
  using assms
proof (induction nb arbitrary: g)
  case Nil
  then show ?case by (simp add: wl_owes_def steady_refl)
next
  case (Cons x nb)
  obtain t where t: "get_task g x = Some t" and st: "ts_status t = Sched_Blocked"
    using Cons.prems(4) [of x] by (auto simp: task_status_of_def)
  have fin: "status_is_terminal (ts_status t)" by (simp add: st status_is_terminal_def)
  have debt: "debt_ok g (owes (ts_status t) (ts_dependents t) @ (wl_owes g nb @ R))"
    using Cons.prems(2) t st by (simp add: wl_owes_def dependents_of_def)
  let ?g = "terminalize_first x t g"
  note facts = terminalize_first_facts [OF Cons.prems(1) t fin debt]
  have std: "steady g ?g" by (rule terminalize_first_steady [OF Cons.prems(1) t fin debt])
  have rel: "j \<noteq> x \<Longrightarrow> rel_option quiet_task (get_task g j) (get_task ?g j)" for j by (rule facts(8))
  have deps: "dependents_of ?g j = dependents_of g j" if "j \<noteq> x" for j
    using rel [OF that] by (cases "get_task g j"; cases "get_task ?g j") (auto simp: dependents_of_def quiet_task_def)
  have "wl_owes ?g nb = wl_owes g nb"
  proof -
    have "dependents_of ?g y = dependents_of g y" if "y \<in> set nb" for y
      by (rule deps) (use that Cons.prems(3) in auto)
    then show ?thesis by (simp add: wl_owes_def cong: map_cong)
  qed
  then have "debt_ok ?g (wl_owes ?g nb @ R)" using facts(2) by simp
  moreover have "task_status_of ?g y = Some Sched_Blocked \<and> terminalized ?g y = None" if y: "y \<in> set nb" for y
  proof -
    have "y \<noteq> x" using y Cons.prems(3) by auto
    moreover have g: "task_status_of g y = Some Sched_Blocked" "terminalized g y = None"
      using Cons.prems(4) y by auto
    ultimately show ?thesis
      using rel [of y] facts(6)
      by (cases "get_task g y"; cases "get_task ?g y") (auto simp: task_status_of_def quiet_task_def)
  qed
  ultimately obtain g' where g': "terminalize_all nb ?g = Some g'" "core_inv g'" "debt_ok g' R" "steady ?g g'"
    "gauge g' = gauge ?g" "running g' = filter (\<lambda>e. fst e \<notin> set nb) (running ?g)"
    "\<forall>k. k \<notin> set nb \<longrightarrow> terminalized g' k = terminalized ?g k" "map fst (tasks g') = map fst (tasks ?g)"
    "\<forall>k. k \<notin> set nb \<longrightarrow> task_status_of ?g k \<noteq> Some Sched_Pending \<longrightarrow> owes_of g' k = owes_of ?g k"
    using Cons.IH [OF facts(1)] Cons.prems(3) by (metis distinct.simps(2))
  have "terminalize_all (x # nb) g = Some g'"
    using g'(1) terminalize_fresh [of g x t] t Cons.prems(4) [of x] by simp
  moreover have "steady g g'" using std g'(4) by (rule steady_trans)
  moreover have "running g' = filter (\<lambda>e. fst e \<notin> set (x # nb)) (running g)"
    unfolding g'(6) facts(5) by (simp add: filter_filter conj_commute)
  moreover have "owes_of g' k = owes_of g k" if "k \<notin> set (x # nb)" "task_status_of g k \<noteq> Some Sched_Pending" for k
  proof -
    have kx: "k \<noteq> x" using that by simp
    have "task_status_of ?g k \<noteq> Some Sched_Pending"
      using rel [OF kx] that(2)
      by (cases "get_task g k"; cases "get_task ?g k") (auto simp: task_status_of_def quiet_task_def)
    then have "owes_of g' k = owes_of ?g k" using g'(9) that(1) by simp
    also have "\<dots> = owes_of g k"
      by (rule owes_of_quiet [OF rel [OF kx]]) (use that(2) in \<open>simp add: task_status_of_def\<close>)
    finally show ?thesis .
  qed
  ultimately show ?case using g' facts by auto
qed

lemma rebuild_inv:
  assumes inv: "core_inv g" "debt_ok g (lease_debt g ls)" "lease_inv g ls"
    and own: "fst ` set (running g) = rl_id ` set ls" and r: "rebuild_graph g = Some g'"
  shows "core_inv g' \<and> debt_ok g' (lease_debt g' ls) \<and> steady g g' \<and> gauge g' = gauge g
    \<and> running g' = running g \<and> (\<forall>l \<in> set ls. terminalized g' (rl_id l) = None)"
proof -
  let ?K = "set (map fst (tasks g))"
  define g0 where "g0 = g\<lparr>ready := [], tasks := map (\<lambda>e. (fst e, clear_links (snd e))) (tasks g)\<rparr>"
  obtain g1 nb g2 where each: "rebuild_each (task_status_of g) (map fst (tasks g)) (g0, []) = Some (g1, nb)"
    and tall: "terminalize_all nb g1 = Some g2"
    and g': "g' = g2\<lparr>ready := ready g2 @ filter (is_ready g2) (map fst (tasks g))\<rparr>"
    using r by (auto simp: rebuild_graph_def g0_def Let_def bind_eq_Some_conv)
  have get0: "get_task g0 k = map_option clear_links (get_task g k)" for k
  proof -
    have "map_of (map (\<lambda>e. (fst e, clear_links (snd e))) m) k = map_option clear_links (map_of m k)" for m
      by (induction m) auto
    then show ?thesis by (simp add: g0_def get_task_def)
  qed
  have "rel_option (rebuilt_task g {} [] k) (get_task g k) (get_task g0 k)" for k
    unfolding get0 by (cases "get_task g k") (auto simp: rebuilt_task_def clear_links_def blocked_ok_def)
  then have "rebuilt g {} (g0, [])" by (simp add: rebuilt_def g0_def comp_def)
  then have "rebuilt g ({} \<union> ?K) (g1, nb)"
    using inv(1) by (intro rebuilt_each [OF each]) (simp_all add: core_inv_def)
  then have reb: "rebuilt g ?K (g1, nb)" by simp
  have nbp: "task_status_of g x = Some Sched_Pending \<and> task_status_of g1 x = Some Sched_Blocked" if x: "x \<in> set nb" for x
  proof -
    have "x \<in> ?K" using reb x by (auto simp: rebuilt_def)
    then obtain t where t: "get_task g x = Some t" using key_get_task by blast
    have "rel_option (rebuilt_task g ?K nb x) (get_task g x) (get_task g1 x)" using reb by (simp add: rebuilt_def)
    with t x show ?thesis
      by (cases "get_task g1 x") (auto simp: task_status_of_def rebuilt_task_def)
  qed
  have lnb: "rl_id l \<notin> set nb" if "l \<in> set ls" for l
    using nbp [of "rl_id l"] lease_not_pending [OF inv(3) that] by (auto simp: task_status_of_def)
  have un: "terminalized g x = None" if "x \<in> set nb" for x
  proof (rule ccontr)
    assume "terminalized g x \<noteq> None"
    then obtain t where "get_task g x = Some t" "status_is_terminal (ts_status t)"
      using inv(1) unfolding core_inv_def ledger_ok_def by blast
    with nbp [OF that] show False by (auto simp: task_status_of_def status_is_terminal_def)
  qed
  have tz1: "terminalized g1 = terminalized g" "running g1 = running g" "gauge g1 = gauge g"
    "map fst (tasks g1) = map fst (tasks g)" "distinct nb" using reb by (simp_all add: rebuilt_def)
  note core1 = rebuilt_core [OF reb inv(1)]
  obtain g2' where t2: "terminalize_all nb g1 = Some g2'" "core_inv g2'" "debt_ok g2' []" "steady g1 g2'"
    "gauge g2' = gauge g1" "running g2' = filter (\<lambda>e. fst e \<notin> set nb) (running g1)"
    "\<forall>k. k \<notin> set nb \<longrightarrow> terminalized g2' k = terminalized g1 k" "map fst (tasks g2') = map fst (tasks g1)"
    "\<forall>k. k \<notin> set nb \<longrightarrow> task_status_of g1 k \<noteq> Some Sched_Pending \<longrightarrow> owes_of g2' k = owes_of g1 k"
    using terminalize_all_correct [of g1 nb "[]"] core1(1) rebuilt_debt [OF reb] tz1 nbp un by auto
  have g2: "g2' = g2" using t2(1) tall by simp
  have st: "steady g g2" using core1(2) t2(4) unfolding g2 by (rule steady_trans)
  have owe: "owes_of g2 (rl_id l) = []" if l: "l \<in> set ls" for l
  proof -
    obtain t where t: "get_task g (rl_id l) = Some t" "ts_status t \<noteq> Sched_Pending"
      using inv(3) l lease_not_pending [OF inv(3) l] unfolding lease_inv_def lease_ok_def by blast
    then obtain t' where "get_task g1 (rl_id l) = Some t'" "ts_status t' = ts_status t"
      using steadyE [OF core1(2) t(1)] by metis
    then have "task_status_of g1 (rl_id l) \<noteq> Some Sched_Pending" using t(2) by (simp add: task_status_of_def)
    then show ?thesis using t2(9) lnb [OF l] rebuilt_owes [OF reb lnb [OF l]] unfolding g2 by simp
  qed
  then have "lease_debt g2 ls = []" by (simp add: lease_debt_def)
  moreover have "filter (\<lambda>e. fst e \<notin> set nb) (running g) = running g"
    using own lnb by (intro filter_True) (metis imageE imageI)
  moreover have "core_inv g'"
    using t2(2) t2(8) tz1(4) unfolding g' g2 by (auto simp: core_inv_def ledger_ok_def)
  moreover have "steady g g'" using st unfolding g' by (simp add: steady_def)
  moreover have "terminalized g2 (rl_id l) = None" if "l \<in> set ls" for l
    using t2(7) lnb [OF that] tz1(1) inv(3) that unfolding g2 lease_inv_def lease_ok_def by simp
  ultimately show ?thesis using t2(3,5,6) tz1 unfolding g2 by (simp add: g')
qed

end
