(* ===== verification/Scheduler_Safety.thy ===== *)
theory Scheduler_Safety
  imports Scheduler_Rebuild
begin

section \<open>Every reachable state satisfies the invariant\<close>

lemma sched_inv_init: "sched_inv norm limits sys_init"
  by (simp add: sched_inv_def sys_init_def inner_default_def core_inv_def ledger_ok_def links_ok_def debt_ok_def
      get_task_def lease_inv_def own_inv_def permit_inv_def held_def)

lemma own_inv_drop:
  assumes "own_inv norm g (ls @ l # ms)" and "evolves g g'" and "distinct (map rl_id (ls @ l # ms))"
    and "running g' = filter (\<lambda>e. fst e \<noteq> rl_id l) (running g)"
  shows "own_inv norm g' (ls @ ms)"
proof -
  have old: "own_inv norm (g'\<lparr>running := running g\<rparr>) (ls @ l # ms)"
    by (rule own_inv_evolves [OF assms(1)]) (simp_all add: evolves_frame assms(2))
  have "rl_id ` set (ls @ ms) = rl_id ` set (ls @ l # ms) - {rl_id l}"
  proof -
    have "rl_id l \<notin> rl_id ` set (ls @ ms)" using assms(3) by auto
    moreover have "rl_id ` set (ls @ l # ms) = insert (rl_id l) (rl_id ` set (ls @ ms))" by auto
    ultimately show ?thesis by (simp del: set_append)
  qed
  moreover have "fst ` set (running g') = fst ` set (running g) - {rl_id l}"
    unfolding assms(4) by auto
  moreover have "fst ` set (running g) = rl_id ` set (ls @ l # ms)"
    using assms(1) unfolding own_inv_def by (elim conjE)
  ultimately have ids: "fst ` set (running g') = rl_id ` set (ls @ ms)" by metis
  have "distinct (map fst (running g'))"
    using assms(1) unfolding own_inv_def assms(4) by (simp add: distinct_map_filter)
  moreover have "\<exists>t. get_task g' (fst e) = Some t \<and> snd e = (so_reads (ts_op t), so_writes (ts_op t))"
    if "e \<in> set (running g')" for e
    using old that unfolding own_inv_def assms(4) by simp
  moreover have "\<not> clash norm (snd e) (snd e')"
    if "e \<in> set (running g')" "e' \<in> set (running g')" "fst e \<noteq> fst e'" for e e'
    using old that unfolding own_inv_def assms(4) by simp
  ultimately show ?thesis using ids unfolding own_inv_def by blast
qed

lemma lease_registered: "lease_inv g ls \<Longrightarrow> l \<in> set ls \<Longrightarrow> get_task g (rl_id l) \<noteq> None"
  unfolding lease_inv_def lease_ok_def by blast

lemma inv_after_steady:
  assumes inv: "sched_inv norm limits s"
    and g': "core_inv g'" "debt_ok g' (lease_debt g' (sys_leases s))" "steady (sys_inner s) g'"
      "gauge g' = gauge (sys_inner s)" "running g' = running (sys_inner s)"
      "\<And>l. l \<in> set (sys_leases s) \<Longrightarrow> terminalized g' (rl_id l) = None"
  shows "sched_inv norm limits (s\<lparr>sys_inner := g'\<rparr>)"
proof -
  have "lease_inv g' (sys_leases s)"
    using lease_inv_steady [OF _ g'(3) g'(6)] inv by (simp add: sched_inv_def)
  moreover have "own_inv norm g' (sys_leases s)"
    using own_inv_evolves [OF _ steady_evolves [OF g'(3)] g'(5)] inv by (simp add: sched_inv_def)
  ultimately show ?thesis
    using inv g'(1,2,4) by (simp add: sched_inv_def permit_inv_alt)
qed

lemma inv_after_gauge:
  assumes inv: "sched_inv norm limits s" and ids: "map rl_id ls = map rl_id (sys_leases s)"
    and acc: "gauge.accounts (lease_permits ls @ ps) ga" "gauge.within limits ga"
  shows "sched_inv norm limits (s\<lparr>sys_inner := (sys_inner s)\<lparr>gauge := ga\<rparr>, sys_leases := ls, sys_permits := ps\<rparr>)"
proof -
  have set_ids: "rl_id ` set ls = rl_id ` set (sys_leases s)" using ids by (metis list.set_map)
  have "lease_debt (sys_inner s) ls = concat (map (owes_of (sys_inner s)) (map rl_id ls))"
    "lease_debt (sys_inner s) (sys_leases s) = concat (map (owes_of (sys_inner s)) (map rl_id (sys_leases s)))"
    by (simp_all add: lease_debt_def comp_def)
  then have debt: "lease_debt (sys_inner s) ls = lease_debt (sys_inner s) (sys_leases s)" using ids by simp
  have ok: "(\<forall>l \<in> set ls. lease_ok (sys_inner s) (rl_id l)) \<longleftrightarrow> (\<forall>l \<in> set (sys_leases s). lease_ok (sys_inner s) (rl_id l))"
    using set_ids by (metis (no_types, lifting) image_iff)
  have "lease_inv (sys_inner s) ls"
    using inv ids set_ids ok by (simp add: sched_inv_def lease_inv_def)
  then have "lease_inv ((sys_inner s)\<lparr>gauge := ga\<rparr>) ls"
    by (simp add: lease_inv_def lease_ok_def unsat_def)
  moreover have "own_inv norm ((sys_inner s)\<lparr>gauge := ga\<rparr>) ls"
    using inv set_ids by (simp add: sched_inv_def own_inv_def)
  ultimately show ?thesis
    using inv debt acc by (simp add: sched_inv_def permit_inv_alt)
qed

lemma sched_inv_permits: "sched_inv norm limits s \<Longrightarrow>
  gauge.accounts (lease_permits (sys_leases s) @ sys_permits s) (gauge (sys_inner s))
  \<and> gauge.within limits (gauge (sys_inner s))"
  by (simp add: sched_inv_def permit_inv_alt)

lemma remove1_middle: "count_list (remove1 c (xs @ c # ys)) d = count_list (xs @ ys) d"
  by (induction xs) auto

lemma schedule_correct:
  assumes inv: "sched_inv norm limits s"
  shows "\<exists>g' started. schedule_pass norm limits now (sys_inner s) = Some (g', started) \<and>
    sched_inv norm limits (s\<lparr>sys_inner := g', sys_leases := sys_leases s @ started\<rparr>) \<and> evolves (sys_inner s) g'"
proof -
  have "scan_inv norm (sys_inner s) (sys_leases s @ [])" using inv by (simp add: scan_inv_def sched_inv_def)
  moreover have "gauge.accounts (lease_permits (sys_leases s @ []) @ sys_permits s) (gauge (sys_inner s))"
    "gauge.within limits (gauge (sys_inner s))" using sched_inv_permits [OF inv] by simp_all
  ultimately obtain g' started where g': "schedule_pass norm limits now (sys_inner s) = Some (g', started)"
    "scan_inv norm g' (sys_leases s @ started)"
    "gauge.accounts (lease_permits (sys_leases s @ started) @ sys_permits s) (gauge g')"
    "gauge.within limits (gauge g')" "evolves (sys_inner s) g'"
    unfolding schedule_pass_def using scan_correct by meson
  then have "sched_inv norm limits (s\<lparr>sys_inner := g', sys_leases := sys_leases s @ started\<rparr>)"
    by (simp add: sched_inv_def scan_inv_def permit_inv_alt)
  with g' show ?thesis by blast
qed

lemma sched_inv_step:
  assumes "sched_step norm limits s s'" and inv: "sched_inv norm limits s"
  shows "sched_inv norm limits s' \<and> evolves (sys_inner s) (sys_inner s')"
proof -
  have parts: "core_inv (sys_inner s)" "debt_ok (sys_inner s) (lease_debt (sys_inner s) (sys_leases s))"
    "lease_inv (sys_inner s) (sys_leases s)" "own_inv norm (sys_inner s) (sys_leases s)"
    using inv by (simp_all add: sched_inv_def)
  have led: "terminalized (sys_inner s) (rl_id l) = None" if "l \<in> set (sys_leases s)" for l
    using parts(3) that unfolding lease_inv_def lease_ok_def by blast
  have refl_g: "evolves (sys_inner s) ((sys_inner s)\<lparr>gauge := ga\<rparr>)" for ga by (simp add: evolves_frame evolves_refl)
  note permits = sched_inv_permits [OF inv]
  from assms(1) show ?thesis
  proof cases
    case (submit op g')
    note sub = submit_inv [OF parts(1,2) lease_registered [OF parts(3)] submit(2)]
    then have "sched_inv norm limits s'" unfolding submit(1) using led by (intro inv_after_steady [OF inv]) auto
    with sub show ?thesis using steady_evolves submit(1) by simp
  next
    case (cancel oid g')
    note can = cancel_inv [OF parts(1,2,3) cancel(2)]
    have "running g' = running (sys_inner s)"
    proof (cases "task_status_of (sys_inner s) oid = Some Sched_Pending")
      case True
      then have "oid \<notin> rl_id ` set (sys_leases s)"
        using lease_not_pending [OF parts(3)] by (auto simp: task_status_of_def)
      then have "filter (\<lambda>e. fst e \<noteq> oid) (running (sys_inner s)) = running (sys_inner s)"
        using parts(4) unfolding own_inv_def by (intro filter_True) (metis imageI)
      with can True show ?thesis by simp
    qed (use can in simp)
    with can have "sched_inv norm limits s'" unfolding cancel(1) by (intro inv_after_steady [OF inv]) auto
    with can show ?thesis using steady_evolves cancel(1) by simp
  next
    case (rebuild g')
    have "fst ` set (running (sys_inner s)) = rl_id ` set (sys_leases s)" using parts(4) by (simp add: own_inv_def)
    note reb = rebuild_inv [OF parts(1,2,3) this rebuild(2)]
    then have "sched_inv norm limits s'" unfolding rebuild(1) by (intro inv_after_steady [OF inv]) auto
    with reb show ?thesis using steady_evolves rebuild(1) by simp
  next
    case (schedule now g' started)
    then show ?thesis using schedule_correct [OF inv, of now] by auto
  next
    case (outcome l status err now)
    note mk = mark_inv [OF parts(1,2,3) outcome(2,3), of err now]
    have "own_inv norm (mark (rl_id l) status err now (sys_inner s)) (sys_leases s)"
      by (rule own_inv_evolves [OF parts(4)]) (use mk in \<open>auto simp: mark_def\<close>)
    with mk inv show ?thesis unfolding outcome(1)
      by (simp add: sched_inv_def permit_inv_alt mark_def)
  next
    case (backoff ls l ms ga)
    let ?ls = "ls @ l\<lparr>rl_permit := False\<rparr> # ms"
    have "gauge.accounts (remove1 (rl_class l) (lease_permits (sys_leases s) @ sys_permits s)) ga"
      using permits backoff(2,3,4) by (intro accounts_release) (auto simp: lease_permits_def)
    then have "gauge.accounts (lease_permits ?ls @ sys_permits s) ga"
      by (rule accounts_perm)
        (use remove1_middle [of "rl_class l" "map rl_class (filter rl_permit ls)"] backoff(2,3) in
          \<open>simp add: lease_permits_def\<close>)
    moreover have "gauge.within limits ga" using permits backoff(4) within_release by blast
    ultimately have "sched_inv norm limits (s\<lparr>sys_inner := (sys_inner s)\<lparr>gauge := ga\<rparr>, sys_leases := ?ls, sys_permits := sys_permits s\<rparr>)"
      by (intro inv_after_gauge [OF inv]) (simp_all add: backoff(2))
    then show ?thesis using backoff(1) refl_g by simp
  next
    case (reacquire ls l ms ga)
    let ?ls = "ls @ l\<lparr>rl_permit := True\<rparr> # ms"
    have "gauge.accounts (rl_class l # lease_permits (sys_leases s) @ sys_permits s) ga"
      using permits reacquire(4) accounts_acquire by blast
    then have "gauge.accounts (lease_permits ?ls @ sys_permits s) ga"
      by (rule accounts_perm) (use reacquire(2,3) in \<open>simp add: lease_permits_def\<close>)
    moreover have "gauge.within limits ga" using permits reacquire(4) within_acquire by blast
    ultimately have "sched_inv norm limits (s\<lparr>sys_inner := (sys_inner s)\<lparr>gauge := ga\<rparr>, sys_leases := ?ls, sys_permits := sys_permits s\<rparr>)"
      by (intro inv_after_gauge [OF inv]) (simp_all add: reacquire(2))
    then show ?thesis using reacquire(1) refl_g by simp
  next
    case (settle_lease ls l ms now g')
    note st = settle_inv [OF parts(1) _ _ settle_lease(3), of ls ms]
    have st: "core_inv g' \<and> debt_ok g' (lease_debt g' (ls @ ms)) \<and> lease_inv g' (ls @ ms) \<and> evolves (sys_inner s) g'
      \<and> running g' = filter (\<lambda>e. fst e \<noteq> rl_id l) (running (sys_inner s))
      \<and> terminalized g' = (terminalized (sys_inner s))(rl_id l \<mapsto> 1)
      \<and> (if rl_permit l then gauge_release (rl_class l) (gauge (sys_inner s)) = Some (gauge g') else gauge g' = gauge (sys_inner s))"
      using parts(2,3) settle_lease(2) st by simp
    have "own_inv norm g' (ls @ ms)"
      using st parts(3,4) settle_lease(2) by (intro own_inv_drop [of norm "sys_inner s" ls l ms g']) (simp_all add: lease_inv_def)
    moreover have "gauge.accounts (lease_permits (ls @ ms) @ sys_permits s) (gauge g') \<and> gauge.within limits (gauge g')"
    proof (cases "rl_permit l")
      case True
      then have rel: "gauge_release (rl_class l) (gauge (sys_inner s)) = Some (gauge g')" using st by simp
      have "gauge.accounts (remove1 (rl_class l) (lease_permits (sys_leases s) @ sys_permits s)) (gauge g')"
        using permits rel True settle_lease(2) by (intro accounts_release) (auto simp: lease_permits_def)
      then have "gauge.accounts (lease_permits (ls @ ms) @ sys_permits s) (gauge g')"
        by (rule accounts_perm)
          (use remove1_middle [of "rl_class l" "map rl_class (filter rl_permit ls)"] settle_lease(2) True in
            \<open>simp add: lease_permits_def\<close>)
      with within_release permits rel show ?thesis by blast
    next
      case False
      then show ?thesis using st permits settle_lease(2) by (simp add: lease_permits_def)
    qed
    ultimately show ?thesis using st settle_lease(1) by (simp add: sched_inv_def permit_inv_alt)
  next
    case (exec_acquire c ga)
    have "gauge.accounts (c # lease_permits (sys_leases s) @ sys_permits s) ga"
      using permits exec_acquire(2) accounts_acquire by blast
    then have "gauge.accounts (lease_permits (sys_leases s) @ c # sys_permits s) ga"
      by (rule accounts_perm) simp
    moreover have "gauge.within limits ga" using permits exec_acquire(2) within_acquire by blast
    ultimately have "sched_inv norm limits (s\<lparr>sys_inner := (sys_inner s)\<lparr>gauge := ga\<rparr>, sys_leases := sys_leases s, sys_permits := c # sys_permits s\<rparr>)"
      by (intro inv_after_gauge [OF inv]) simp_all
    then show ?thesis using exec_acquire(1) refl_g by simp
  next
    case (exec_release c ga)
    have "gauge.accounts (remove1 c (lease_permits (sys_leases s) @ sys_permits s)) ga"
      using permits exec_release(2,3) by (intro accounts_release) auto
    then have "gauge.accounts (lease_permits (sys_leases s) @ remove1 c (sys_permits s)) ga"
    proof (rule accounts_perm)
      obtain as bs where "sys_permits s = as @ c # bs" using exec_release(2) split_list by metis
      then show "count_list (lease_permits (sys_leases s) @ remove1 c (sys_permits s)) d =
          count_list (remove1 c (lease_permits (sys_leases s) @ sys_permits s)) d" for d
        using remove1_middle [of c as bs d] remove1_middle [of c "lease_permits (sys_leases s) @ as" bs d] by simp
    qed
    moreover have "gauge.within limits ga" using permits exec_release(3) within_release by blast
    ultimately have "sched_inv norm limits (s\<lparr>sys_inner := (sys_inner s)\<lparr>gauge := ga\<rparr>, sys_leases := sys_leases s, sys_permits := remove1 c (sys_permits s)\<rparr>)"
      by (intro inv_after_gauge [OF inv]) simp_all
    then show ?thesis using exec_release(1) refl_g by simp
  qed
qed

lemma sched_reach_inv: "sched_reach norm limits s \<Longrightarrow> sched_inv norm limits s"
  by (induction rule: sched_reach.induct) (auto simp: sched_inv_init dest: sched_inv_step)

end
