(* ===== verification/Scheduler_Dag.thy ===== *)
theory Scheduler_Dag
  imports Scheduler_Graph
begin

text \<open>
  The graph that \<open>Scheduler::validate\<close> checks, and the correctness of its depth-first search: it
  accepts exactly the graphs within the structural bounds that have no missing dependency and no
  cycle, and its recursion depth never exceeds the number of tasks.
\<close>

section \<open>The specification\<close>

definition deps_of :: "sched_inner \<Rightarrow> op_id \<Rightarrow> op_id set" where
  "deps_of g k = (case get_task g k of None \<Rightarrow> {} | Some t \<Rightarrow> fst ` set (so_dependencies (ts_op t)))"

definition dag_edges :: "sched_inner \<Rightarrow> (op_id \<times> op_id) set" where
  "dag_edges g = {(k, d). d \<in> deps_of g k}"

definition dag_closed :: "sched_inner \<Rightarrow> bool" where
  "dag_closed g \<longleftrightarrow> Range (dag_edges g) \<subseteq> dom (get_task g)"

definition dag_bounded :: "sched_inner \<Rightarrow> bool" where
  "dag_bounded g \<longleftrightarrow> length (tasks g) \<le> MAX_TASKS_PER_DAG \<and> list_all task_bounds_ok (tasks g)"

lemma dom_get_task: "dom (get_task g) = fst ` set (tasks g)"
proof -
  have "get_task g = map_of (tasks g)" by (simp add: fun_eq_iff get_task_def)
  then show ?thesis by (simp add: dom_map_of_conv_image_fst)
qed

section \<open>What a successful search has established\<close>

text \<open>The visited list is a topological order: the dependencies of an entry come after it.\<close>

fun topo :: "sched_inner \<Rightarrow> op_id list \<Rightarrow> bool" where
  "topo g [] = True"
| "topo g (x # ys) \<longleftrightarrow> get_task g x \<noteq> None \<and> deps_of g x \<subseteq> set ys \<and> topo g ys"

lemma topo_closed: "topo g xs \<Longrightarrow> x \<in> set xs \<Longrightarrow> get_task g x \<noteq> None \<and> deps_of g x \<subseteq> set xs"
  by (induction xs) auto

lemma topo_trancl:
  assumes "topo g ys" and "(a, b) \<in> (dag_edges g)\<^sup>+" and "a \<in> set ys"
  shows "b \<in> set ys"
  using assms(2,3)
proof (induction rule: trancl_induct)
  case (base y)
  then show ?case using topo_closed [OF assms(1)] by (auto simp: dag_edges_def)
next
  case (step y z)
  then show ?case using topo_closed [OF assms(1)] by (auto simp: dag_edges_def)
qed

lemma topo_acyclic:
  assumes "topo g xs" and "x \<in> set xs"
  shows "(x, x) \<notin> (dag_edges g)\<^sup>+"
  using assms
proof (induction xs)
  case (Cons y ys)
  show ?case
  proof (cases "x \<in> set ys")
    case False
    with Cons.prems have x: "x = y" "deps_of g x \<subseteq> set ys" "topo g ys" by auto
    show ?thesis
    proof
      assume "(x, x) \<in> (dag_edges g)\<^sup>+"
      then obtain z where z: "(x, z) \<in> dag_edges g" "z = x \<or> (z, x) \<in> (dag_edges g)\<^sup>+"
        by (meson converse_tranclE)
      then have "z \<in> set ys" using x by (auto simp: dag_edges_def)
      with z(2) topo_trancl [OF x(3)] have "x \<in> set ys" by blast
      with False show False by simp
    qed
  qed (use Cons in auto)
qed simp

lemma visit_sound:
  "topo g (snd s) \<Longrightarrow> visit_dag fuel g oid s = Some (Inr s') \<Longrightarrow>
     fst s' = fst s \<and> topo g (snd s') \<and> oid \<in> set (snd s') \<and> set (snd s) \<subseteq> set (snd s')"
  "topo g (snd s) \<Longrightarrow> visit_deps fuel g ds s = Some (Inr s') \<Longrightarrow>
     fst s' = fst s \<and> topo g (snd s') \<and> fst ` set ds \<subseteq> set (snd s') \<and> set (snd s) \<subseteq> set (snd s')"
proof (induction fuel g oid s and fuel g ds s arbitrary: s' and s' rule: visit_dag_visit_deps.induct)
  case (2 fuel g oid visiting visited)
  show ?case
  proof (cases "oid \<in> set visited \<or> oid \<in> set visiting \<or> get_task g oid = None")
    case True
    then show ?thesis using 2(2,3) by (auto split: if_splits)
  next
    case False
    then obtain t where t: "get_task g oid = Some t" by blast
    with 2(3) False obtain s1 where s1: "visit_deps fuel g (so_dependencies (ts_op t)) (oid # visiting, visited) = Some (Inr s1)"
      and s': "s' = (removeAll oid (fst s1), oid # snd s1)"
      by (auto split: option.splits sum.splits)
    from 2(1) [OF _ _ t, of s1] False 2(2) s1
    have "fst s1 = oid # visiting" "topo g (snd s1)" "fst ` set (so_dependencies (ts_op t)) \<subseteq> set (snd s1)"
      "set visited \<subseteq> set (snd s1)" by auto
    with s' t False show ?thesis by (auto simp: deps_of_def)
  qed
next
  case (4 fuel g d deps s)
  from 4(4) obtain s1 where s1: "get_task g (fst d) \<noteq> None" "visit_dag fuel g (fst d) s = Some (Inr s1)"
    "visit_deps fuel g deps s1 = Some (Inr s')" by (auto split: if_splits option.splits sum.splits)
  from 4(1) [OF s1(1) 4(3) s1(2)] have a: "fst s1 = fst s" "topo g (snd s1)" "fst d \<in> set (snd s1)"
    "set (snd s) \<subseteq> set (snd s1)" by auto
  from 4(2) [OF s1(1) s1(2) refl a(2) s1(3)] a show ?case by auto
qed auto

section \<open>What a failed search has found\<close>

lemma visiting_bound:
  assumes "distinct vis" and "set vis \<subseteq> dom (get_task g)"
  shows "length vis \<le> length (tasks g)"
proof -
  have "set vis \<subseteq> fst ` set (tasks g)" using assms(2) by (simp add: dom_get_task)
  then have "card (set vis) \<le> card (fst ` set (tasks g))" by (intro card_mono) auto
  also have "\<dots> \<le> length (tasks g)" by (metis card_length length_map list.set_map)
  finally show ?thesis using assms(1) by (simp add: distinct_card)
qed

definition search_ok :: "sched_inner \<Rightarrow> nat \<Rightarrow> op_id list \<Rightarrow> op_id set \<Rightarrow> bool" where
  "search_ok g fuel vis targets \<longleftrightarrow> distinct vis \<and> set vis \<subseteq> dom (get_task g) \<and>
     length (tasks g) < fuel + length vis \<and> (\<forall>v \<in> set vis. \<forall>x \<in> targets. (v, x) \<in> (dag_edges g)\<^sup>+)"

definition honest :: "sched_inner \<Rightarrow> (error_kind + 'a) option \<Rightarrow> bool" where
  "honest g r \<longleftrightarrow> (case r of None \<Rightarrow> False | Some (Inr _) \<Rightarrow> True
     | Some (Inl e) \<Rightarrow> e = Deadlock \<and> \<not> acyclic (dag_edges g) \<or> e = NotFound \<and> \<not> dag_closed g)"

lemma visit_honest:
  "topo g (snd s) \<Longrightarrow> search_ok g fuel (fst s) {oid} \<Longrightarrow> get_task g oid \<noteq> None \<Longrightarrow> honest g (visit_dag fuel g oid s)"
  "topo g (snd s) \<Longrightarrow> search_ok g fuel (fst s) (fst ` set ds) \<Longrightarrow> fst ` set ds \<subseteq> Range (dag_edges g) \<Longrightarrow>
     honest g (visit_deps fuel g ds s)"
proof (induction fuel g oid s and fuel g ds s rule: visit_dag_visit_deps.induct)
  case (1 g oid s)
  then show ?case using visiting_bound [of "fst s" g] by (auto simp: search_ok_def)
next
  case (2 fuel g oid visiting visited)
  from 2(4) obtain t where t: "get_task g oid = Some t" by blast
  show ?case
  proof (cases "oid \<in> set visited \<or> oid \<in> set visiting")
    case True
    then show ?thesis using 2(3) by (auto simp: honest_def search_ok_def acyclic_def)
  next
    case False
    let ?ds = "so_dependencies (ts_op t)"
    have e: "(oid, x) \<in> dag_edges g" if "x \<in> fst ` set ?ds" for x
      using that t by (simp add: dag_edges_def deps_of_def)
    have "search_ok g fuel (oid # visiting) (fst ` set ?ds)"
      using 2(3) t False e unfolding search_ok_def
      by (auto intro: trancl_into_trancl [OF _ e] r_into_trancl)
    then have "honest g (visit_deps fuel g ?ds (oid # visiting, visited))"
      using 2(1) [OF _ _ t] False 2(2) e by (auto intro: RangeI)
    with False t show ?thesis by (auto simp: honest_def split: option.splits sum.splits)
  qed
next
  case (3 fuel g s)
  then show ?case by (simp add: honest_def)
next
  case (4 fuel g d deps s)
  show ?case
  proof (cases "get_task g (fst d) = None")
    case True
    then have "\<not> dag_closed g" using 4(5) by (auto simp: dag_closed_def)
    with True show ?thesis by (simp add: honest_def)
  next
    case False
    have h: "honest g (visit_dag fuel g (fst d) s)"
      using 4(1) [OF False 4(3)] 4(4) False by (auto simp: search_ok_def)
    show ?thesis
    proof (cases "\<exists>s1. visit_dag fuel g (fst d) s = Some (Inr s1)")
      case True
      then obtain s1 where s1: "visit_dag fuel g (fst d) s = Some (Inr s1)" by blast
      note snd1 = visit_sound(1) [OF 4(3) s1]
      have "honest g (visit_deps fuel g deps s1)"
        using 4(2) [OF False s1 refl] snd1 4(4,5) by (auto simp: search_ok_def)
      with s1 False show ?thesis by auto
    next
      case nf: False
      with h False show ?thesis by (auto simp: honest_def split: option.splits sum.splits)
    qed
  qed
qed

lemma visit_all_correct:
  assumes "topo g (snd s)" and "search_ok g fuel (fst s) (set oids)" and "set oids \<subseteq> dom (get_task g)"
  shows "honest g (visit_all fuel g oids s) \<and> (\<forall>s'. visit_all fuel g oids s = Some (Inr s') \<longrightarrow>
    topo g (snd s') \<and> set oids \<subseteq> set (snd s') \<and> set (snd s) \<subseteq> set (snd s'))"
  using assms
proof (induction oids arbitrary: s)
  case (Cons x oids)
  have h: "honest g (visit_dag fuel g x s)"
    using visit_honest(1) [OF Cons.prems(1), of fuel x] Cons.prems(2,3) by (auto simp: search_ok_def)
  show ?case
  proof (cases "\<exists>s1. visit_dag fuel g x s = Some (Inr s1)")
    case True
    then obtain s1 where s1: "visit_dag fuel g x s = Some (Inr s1)" by blast
    note snd1 = visit_sound(1) [OF Cons.prems(1) s1]
    then have "honest g (visit_all fuel g oids s1)" "\<And>s'. visit_all fuel g oids s1 = Some (Inr s') \<Longrightarrow>
        topo g (snd s') \<and> set oids \<subseteq> set (snd s') \<and> set (snd s1) \<subseteq> set (snd s')"
      using Cons.IH [of s1] Cons.prems(2,3) by (simp_all add: search_ok_def)
    with s1 snd1 show ?thesis by fastforce
  next
    case False
    with h show ?thesis by (auto simp: honest_def split: option.splits sum.splits)
  qed
qed (simp add: honest_def)

section \<open>The validator\<close>

lemma topo_all_acyclic:
  assumes "topo g vd" and "dom (get_task g) \<subseteq> set vd"
  shows "acyclic (dag_edges g)" and "dag_closed g"
proof -
  have src: "a \<in> dom (get_task g)" if "(a, b) \<in> (dag_edges g)\<^sup>+" for a b
    using that by (induction rule: trancl_induct) (auto simp: dag_edges_def deps_of_def split: option.splits)
  then show "acyclic (dag_edges g)"
    using topo_acyclic [OF assms(1)] assms(2) unfolding acyclic_def by blast
  have "b \<in> dom (get_task g)" if "(a, b) \<in> dag_edges g" for a b
  proof -
    have "a \<in> set vd" using src [of a b] that assms(2) by blast
    then have "b \<in> set vd" using topo_trancl [OF assms(1)] that by blast
    then show ?thesis using topo_closed [OF assms(1)] by blast
  qed
  then show "dag_closed g" unfolding dag_closed_def by blast
qed

lemma dag_validate_cases:
  shows "dag_validate g = Some (Inr ()) \<longleftrightarrow> dag_bounded g \<and> dag_closed g \<and> acyclic (dag_edges g)"
    and "dag_validate g = Some (Inr ()) \<or> (\<exists>e. dag_validate g = Some (Inl e))"
proof -
  let ?r = "visit_all (length (tasks g) + 1) g (map fst (tasks g)) ([], [])"
  have keys: "set (map fst (tasks g)) = dom (get_task g)"
    by (simp add: dom_get_task)
  have r: "honest g ?r" "\<And>s'. ?r = Some (Inr s') \<Longrightarrow> topo g (snd s') \<and> dom (get_task g) \<subseteq> set (snd s')"
    using visit_all_correct [of g "([], [])" "length (tasks g) + 1" "map fst (tasks g)"] keys
    by (auto simp: search_ok_def)
  have val: "dag_validate g = (if dag_bounded g then map_option (\<lambda>r. bind_result r (\<lambda>_. Inr ())) ?r else Some (Inl Oversized))"
    by (auto simp: dag_validate_def dag_bounded_def)
  consider (ok) s' where "?r = Some (Inr s')" | (bad) e where "?r = Some (Inl e)" "\<not> (dag_closed g \<and> acyclic (dag_edges g))"
    using r(1) by (auto simp: honest_def split: option.splits sum.splits)
  then show "dag_validate g = Some (Inr ()) \<longleftrightarrow> dag_bounded g \<and> dag_closed g \<and> acyclic (dag_edges g)"
  proof cases
    case ok
    then show ?thesis using r(2) [OF ok] topo_all_acyclic unfolding val by auto
  next
    case bad
    then show ?thesis unfolding val by simp
  qed
  show "dag_validate g = Some (Inr ()) \<or> (\<exists>e. dag_validate g = Some (Inl e))"
    using r(1) unfolding val by (auto simp: honest_def split: option.splits sum.splits)
qed

end
