(* ===== verification/Scheduler_Theorems.thy ===== *)
theory Scheduler_Theorems
  imports Scheduler_Safety Scheduler_Dag
begin

text \<open>
  What the scheduler guarantees: the theorems about every reachable state and every run, with
  concrete runs that exhibit their hypotheses. A run is a list of commands; \<open>exec_cmds\<close> executes
  it and reaches exactly the states of the step relation.
\<close>

section \<open>Executable runs\<close>

datatype sched_cmd =
    Cmd_Submit scheduled_op
  | Cmd_Cancel op_id
  | Cmd_Rebuild
  | Cmd_Schedule int
  | Cmd_Outcome nat task_status "string option" int
  | Cmd_Backoff nat
  | Cmd_Reacquire nat
  | Cmd_Settle nat int
  | Cmd_Acquire resource_class
  | Cmd_Release resource_class

definition with_inner :: "sched_system \<Rightarrow> sched_inner \<Rightarrow> sched_system" where
  "with_inner s g = s\<lparr>sys_inner := g\<rparr>"

fun exec_cmd ::
    "(string \<Rightarrow> string) \<Rightarrow> resource_limits \<Rightarrow> sched_cmd \<Rightarrow> sched_system \<Rightarrow> sched_system option" where
  "exec_cmd norm limits (Cmd_Submit op) s =
     (case try_submit op (sys_inner s) of Inl _ \<Rightarrow> None | Inr g \<Rightarrow> Some (with_inner s g))"
| "exec_cmd norm limits (Cmd_Cancel oid) s =
     (case try_cancel oid (sys_inner s) of Some (Inr g) \<Rightarrow> Some (with_inner s g) | _ \<Rightarrow> None)"
| "exec_cmd norm limits Cmd_Rebuild s = map_option (with_inner s) (rebuild_graph (sys_inner s))"
| "exec_cmd norm limits (Cmd_Schedule now) s =
     (case schedule_pass norm limits now (sys_inner s) of
        None \<Rightarrow> None
      | Some (g, started) \<Rightarrow> Some (s\<lparr>sys_inner := g, sys_leases := sys_leases s @ started\<rparr>))"
| "exec_cmd norm limits (Cmd_Outcome i status err now) s =
     (if i < length (sys_leases s) \<and> status \<in> {Sched_Done, Sched_Failed, Sched_Cancelled}
      then Some (with_inner s (mark (rl_id (sys_leases s ! i)) status err now (sys_inner s))) else None)"
| "exec_cmd norm limits (Cmd_Backoff i) s =
     (if i < length (sys_leases s) \<and> rl_permit (sys_leases s ! i)
      then map_option (\<lambda>ga. s\<lparr>sys_inner := (sys_inner s)\<lparr>gauge := ga\<rparr>,
             sys_leases := (sys_leases s)[i := (sys_leases s ! i)\<lparr>rl_permit := False\<rparr>]\<rparr>)
             (gauge_release (rl_class (sys_leases s ! i)) (gauge (sys_inner s)))
      else None)"
| "exec_cmd norm limits (Cmd_Reacquire i) s =
     (if i < length (sys_leases s) \<and> \<not> rl_permit (sys_leases s ! i)
      then (case try_acquire (rl_class (sys_leases s ! i)) limits (gauge (sys_inner s)) of
              Inl _ \<Rightarrow> None
            | Inr ga \<Rightarrow> Some (s\<lparr>sys_inner := (sys_inner s)\<lparr>gauge := ga\<rparr>,
                sys_leases := (sys_leases s)[i := (sys_leases s ! i)\<lparr>rl_permit := True\<rparr>]\<rparr>))
      else None)"
| "exec_cmd norm limits (Cmd_Settle i now) s =
     (if i < length (sys_leases s)
      then map_option (\<lambda>g. s\<lparr>sys_inner := g, sys_leases := take i (sys_leases s) @ drop (Suc i) (sys_leases s)\<rparr>)
             (settle (sys_leases s ! i) now (sys_inner s))
      else None)"
| "exec_cmd norm limits (Cmd_Acquire c) s =
     (case try_acquire c limits (gauge (sys_inner s)) of
        Inl _ \<Rightarrow> None
      | Inr ga \<Rightarrow> Some (s\<lparr>sys_inner := (sys_inner s)\<lparr>gauge := ga\<rparr>, sys_permits := c # sys_permits s\<rparr>))"
| "exec_cmd norm limits (Cmd_Release c) s =
     (if c \<in> set (sys_permits s)
      then map_option (\<lambda>ga. s\<lparr>sys_inner := (sys_inner s)\<lparr>gauge := ga\<rparr>, sys_permits := remove1 c (sys_permits s)\<rparr>)
             (gauge_release c (gauge (sys_inner s)))
      else None)"

fun exec_cmds ::
    "(string \<Rightarrow> string) \<Rightarrow> resource_limits \<Rightarrow> sched_cmd list \<Rightarrow> sched_system \<Rightarrow> sched_system option" where
  "exec_cmds norm limits [] s = Some s"
| "exec_cmds norm limits (c # cs) s = Option.bind (exec_cmd norm limits c s) (exec_cmds norm limits cs)"

lemma exec_cmd_step: "exec_cmd norm limits c s = Some s' \<Longrightarrow> sched_step norm limits s s'"
proof (induction norm limits c s rule: exec_cmd.induct)
  case (5 norm limits i status err now s)
  then show ?case
    by (auto simp: with_inner_def split: if_splits intro!: sched_step.outcome)
next
  case (6 norm limits i s)
  let ?L = "sys_leases s"
  obtain ga where i: "i < length ?L" "rl_permit (?L ! i)" "gauge_release (rl_class (?L ! i)) (gauge (sys_inner s)) = Some ga"
    and s': "s' = s\<lparr>sys_inner := (sys_inner s)\<lparr>gauge := ga\<rparr>, sys_leases := ?L[i := (?L ! i)\<lparr>rl_permit := False\<rparr>]\<rparr>"
    using 6 by (auto split: if_splits)
  then show ?case
    using sched_step.backoff [OF id_take_nth_drop [OF i(1)] i(2,3)] by (simp add: upd_conv_take_nth_drop)
next
  case (7 norm limits i s)
  let ?L = "sys_leases s"
  obtain ga where i: "i < length ?L" "\<not> rl_permit (?L ! i)" "try_acquire (rl_class (?L ! i)) limits (gauge (sys_inner s)) = Inr ga"
    and s': "s' = s\<lparr>sys_inner := (sys_inner s)\<lparr>gauge := ga\<rparr>, sys_leases := ?L[i := (?L ! i)\<lparr>rl_permit := True\<rparr>]\<rparr>"
    using 7 by (auto split: if_splits sum.splits)
  then show ?case
    using sched_step.reacquire [OF id_take_nth_drop [OF i(1)] i(2,3)] by (simp add: upd_conv_take_nth_drop)
next
  case (8 norm limits i now s)
  let ?L = "sys_leases s"
  obtain g where i: "i < length ?L" "settle (?L ! i) now (sys_inner s) = Some g"
    and s': "s' = s\<lparr>sys_inner := g, sys_leases := take i ?L @ drop (Suc i) ?L\<rparr>"
    using 8 by (auto split: if_splits)
  then show ?case using sched_step.settle_lease [OF id_take_nth_drop [OF i(1)] i(2)] by simp
qed (auto simp: with_inner_def split: sum.splits option.splits if_splits intro: sched_step.intros)

lemma exec_cmds_steps:
  "exec_cmds norm limits cs s = Some s' \<Longrightarrow> (sched_step norm limits)\<^sup>*\<^sup>* s s'"
proof (induction cs arbitrary: s)
  case (Cons c cs)
  then obtain s1 where "exec_cmd norm limits c s = Some s1" "exec_cmds norm limits cs s1 = Some s'"
    by (auto simp: bind_eq_Some_conv)
  with Cons.IH show ?case using exec_cmd_step by (metis converse_rtranclp_into_rtranclp)
qed simp

lemma sched_reach_steps:
  "(sched_step norm limits)\<^sup>*\<^sup>* s s' \<Longrightarrow> sched_reach norm limits s \<Longrightarrow> sched_reach norm limits s'"
  by (induction rule: rtranclp_induct) (auto intro: sched_reach.step)

lemma exec_cmds_reach:
  "exec_cmds norm limits cs sys_init = Some s \<Longrightarrow> sched_reach norm limits s"
  using exec_cmds_steps sched_reach_steps sched_reach.init by blast

text \<open>Every step of the relation is a command.\<close>

lemma sched_step_cmd: "sched_step norm limits s s' \<Longrightarrow> \<exists>c. exec_cmd norm limits c s = Some s'"
proof (induction rule: sched_step.induct)
  case (submit op s g')
  then show ?case by (intro exI [of _ "Cmd_Submit op"]) (simp add: with_inner_def)
next
  case (cancel oid s g')
  then show ?case by (intro exI [of _ "Cmd_Cancel oid"]) (simp add: with_inner_def)
next
  case (rebuild s g')
  then show ?case by (intro exI [of _ Cmd_Rebuild]) (simp add: with_inner_def)
next
  case (schedule now s g' started)
  then show ?case by (intro exI [of _ "Cmd_Schedule now"]) simp
next
  case (outcome l s status err now)
  then obtain i where "i < length (sys_leases s)" "sys_leases s ! i = l" by (auto simp: in_set_conv_nth)
  with outcome show ?case by (intro exI [of _ "Cmd_Outcome i status err now"]) (simp add: with_inner_def)
next
  case (backoff s ls l ms ga)
  then show ?case by (intro exI [of _ "Cmd_Backoff (length ls)"]) (simp add: nth_append)
next
  case (reacquire s ls l ms ga)
  then show ?case by (intro exI [of _ "Cmd_Reacquire (length ls)"]) (simp add: nth_append)
next
  case (settle_lease s ls l ms now g')
  then show ?case by (intro exI [of _ "Cmd_Settle (length ls) now"]) (simp add: nth_append)
next
  case (exec_acquire c s ga)
  then show ?case by (intro exI [of _ "Cmd_Acquire c"]) simp
next
  case (exec_release c s ga)
  then show ?case by (intro exI [of _ "Cmd_Release c"]) simp
qed

section \<open>Concrete runs\<close>

definition plain_policy :: retry_policy where
  "plain_policy = \<lparr>rp_max_attempts = 3, rp_base_delay_ms = 10, rp_max_delay_ms = 100,
     rp_jitter_of = (\<lambda>_. 0), rp_class = Retry_Network\<rparr>"

definition sample_op :: "nat \<Rightarrow> ownership_set \<Rightarrow> ownership_set \<Rightarrow> (op_id \<times> dependency_policy) list \<Rightarrow> scheduled_op" where
  "sample_op n reads writes deps =
     \<lparr>so_meta = \<lparr>om_operation_id = n, om_session_id = 0, om_deadline = 1000, om_retry_policy = plain_policy,
        om_cancelled = False\<rparr>,
      so_class = Class_DiskWrite, so_reads = reads, so_writes = writes, so_dependencies = deps\<rparr>"

definition sample_run :: "sched_cmd list \<Rightarrow> sched_system" where
  "sample_run cs = the (exec_cmds id default_limits cs sys_init)"

definition two_running :: "sched_cmd list" where
  "two_running =
     [Cmd_Submit (sample_op 1 [] [''a/''] []), Cmd_Submit (sample_op 2 [''c''] [''b/x''] []),
      Cmd_Submit (sample_op 3 [] [] [(1, Policy_Success)]), Cmd_Rebuild, Cmd_Schedule 5]"

lemma sample_reach:
  "exec_cmds id default_limits cs sys_init \<noteq> None \<Longrightarrow> sched_reach id default_limits (sample_run cs)"
  by (auto simp: sample_run_def intro: exec_cmds_reach)

lemma two_running_runs: "exec_cmds id default_limits two_running sys_init \<noteq> None"
  by code_simp

definition submitted :: "sched_cmd list" where
  "submitted =
     [Cmd_Submit (sample_op 1 [] [''a/''] []), Cmd_Submit (sample_op 2 [''c''] [''b/x''] []),
      Cmd_Submit (sample_op 3 [] [] [(1, Policy_Success)])]"

lemma submitted_runs: "exec_cmds id default_limits submitted sys_init \<noteq> None"
  by code_simp

text \<open>Operation 1 finished and was settled, operation 3 depends on it and runs, operation 2 runs.\<close>

definition third_running :: "sched_cmd list" where
  "third_running = two_running @ [Cmd_Outcome 0 Sched_Done None 9, Cmd_Settle 0 9, Cmd_Schedule 10]"

lemma third_running_runs: "exec_cmds id default_limits third_running sys_init \<noteq> None"
  by code_simp

section \<open>Exclusive ownership\<close>

lemma running_entry:
  assumes "sched_inv norm limits s" and "get_task (sys_inner s) i = Some a" and "ts_status a = Sched_Running"
  shows "(i, so_reads (ts_op a), so_writes (ts_op a)) \<in> set (running (sys_inner s))"
proof -
  have own: "own_inv norm (sys_inner s) (sys_leases s)" and li: "lease_inv (sys_inner s) (sys_leases s)"
    using assms(1) by (simp_all add: sched_inv_def)
  have "i \<in> rl_id ` set (sys_leases s)" using li assms(2,3) unfolding lease_inv_def by blast
  then have "i \<in> fst ` set (running (sys_inner s))" using own unfolding own_inv_def by blast
  then obtain e where e: "e \<in> set (running (sys_inner s))" "fst e = i" by auto
  then have "snd e = (so_reads (ts_op a), so_writes (ts_op a))"
    using own assms(2) unfolding own_inv_def by fastforce
  with e show ?thesis by (metis prod.collapse)
qed

text \<open>
  C1. Two different operations that run at the same time never overlap: neither writes a path the
  other reads or writes. Only concurrent reads may share a path. This holds in every state the
  scheduler can reach, whatever the interleaving of its operations.
\<close>

theorem running_ops_disjoint:
  assumes "sched_reach norm limits s"
    and "get_task (sys_inner s) i = Some a" and "ts_status a = Sched_Running"
    and "get_task (sys_inner s) j = Some b" and "ts_status b = Sched_Running" and "i \<noteq> j"
  shows "\<not> overlaps norm (so_writes (ts_op a)) (so_writes (ts_op b)) \<and>
    \<not> overlaps norm (so_writes (ts_op a)) (so_reads (ts_op b)) \<and>
    \<not> overlaps norm (so_reads (ts_op a)) (so_writes (ts_op b))"
proof -
  note inv = sched_reach_inv [OF assms(1)]
  note e = running_entry [OF inv assms(2,3)] running_entry [OF inv assms(4,5)]
  have "\<not> clash norm (so_reads (ts_op a), so_writes (ts_op a)) (so_reads (ts_op b), so_writes (ts_op b))"
    using inv e assms(6) unfolding sched_inv_def own_inv_def by fastforce
  then show ?thesis by (simp add: clash_def)
qed

definition the_task :: "sched_cmd list \<Rightarrow> op_id \<Rightarrow> sched_task" where
  "the_task cs k = the (get_task (sys_inner (sample_run cs)) k)"

lemma the_task_get:
  "get_task (sys_inner (sample_run cs)) k \<noteq> None \<Longrightarrow> get_task (sys_inner (sample_run cs)) k = Some (the_task cs k)"
  by (simp add: the_task_def)

theorem running_ops_disjoint_witness:
  "\<not> overlaps id (so_writes (ts_op (the_task two_running 1))) (so_writes (ts_op (the_task two_running 2))) \<and>
   \<not> overlaps id (so_writes (ts_op (the_task two_running 1))) (so_reads (ts_op (the_task two_running 2))) \<and>
   \<not> overlaps id (so_reads (ts_op (the_task two_running 1))) (so_writes (ts_op (the_task two_running 2)))"
proof (rule running_ops_disjoint [OF sample_reach [OF two_running_runs]])
  show "get_task (sys_inner (sample_run two_running)) 1 = Some (the_task two_running 1)"
    by (rule the_task_get) code_simp
  show "get_task (sys_inner (sample_run two_running)) 2 = Some (the_task two_running 2)"
    by (rule the_task_get) code_simp
  show "ts_status (the_task two_running 1) = Sched_Running" by code_simp
  show "ts_status (the_task two_running 2) = Sched_Running" by code_simp
qed simp

section \<open>Permits\<close>

text \<open>
  C5. In every reachable state the gauge of a resource class counts exactly the permits that leases
  and standalone executions hold, and never exceeds the limit of the class: no permit is leaked by
  a retry backoff, an abort or a completion, and none is given out twice.
\<close>

theorem permits_conserved:
  assumes "sched_reach norm limits s"
  shows "gauge_usage (gauge (sys_inner s)) c = count_list (held s) c \<and>
    gauge_usage (gauge (sys_inner s)) c \<le> limits_get limits c"
  using sched_reach_inv [OF assms] unfolding sched_inv_def permit_inv_def by blast

theorem permits_conserved_witness:
  "gauge_usage (gauge (sys_inner (sample_run two_running))) Class_DiskWrite =
     count_list (held (sample_run two_running)) Class_DiskWrite \<and>
   gauge_usage (gauge (sys_inner (sample_run two_running))) Class_DiskWrite \<le> limits_get default_limits Class_DiskWrite"
  by (rule permits_conserved [OF sample_reach [OF two_running_runs]])

section \<open>Dependencies\<close>

lemma unsat_zero: "unsat g t = 0 \<longleftrightarrow> (\<forall>e \<in> set (so_dependencies (ts_op t)). sat g e)"
  by (auto simp: unsat_def filter_empty_conv)

text \<open>
  C4. A task runs only when every declared dependency is satisfied: in every reachable state, each
  edge of a running task points to a registered task whose status satisfies the policy of the edge.
\<close>

theorem running_dependencies_satisfied:
  assumes "sched_reach norm limits s" and "get_task (sys_inner s) k = Some t" and "ts_status t = Sched_Running"
    and "(d, p) \<in> set (so_dependencies (ts_op t))"
  shows "\<exists>u. get_task (sys_inner s) d = Some u \<and> edge_satisfied p (ts_status u)"
proof -
  have li: "lease_inv (sys_inner s) (sys_leases s)"
    using sched_reach_inv [OF assms(1)] by (simp add: sched_inv_def)
  then have "k \<in> rl_id ` set (sys_leases s)" using assms(2,3) unfolding lease_inv_def by blast
  then have "lease_ok (sys_inner s) k" using li unfolding lease_inv_def by blast
  then have "unsat (sys_inner s) t = 0" using assms(2) unfolding lease_ok_def by simp
  then have "sat (sys_inner s) (d, p)" using assms(4) by (auto simp: unsat_zero)
  then show ?thesis by (auto simp: sat_def task_status_of_def split: option.splits)
qed

theorem running_dependencies_satisfied_witness:
  "\<exists>u. get_task (sys_inner (sample_run third_running)) 1 = Some u \<and> edge_satisfied Policy_Success (ts_status u)"
proof (rule running_dependencies_satisfied [OF sample_reach [OF third_running_runs]])
  show "get_task (sys_inner (sample_run third_running)) 3 = Some (the_task third_running 3)"
    by (rule the_task_get) code_simp
  show "ts_status (the_task third_running 3) = Sched_Running" by code_simp
  show "(1, Policy_Success) \<in> set (so_dependencies (ts_op (the_task third_running 3)))" by code_simp
qed

section \<open>Terminal states\<close>

lemma steps_evolve:
  "(sched_step norm limits)\<^sup>*\<^sup>* s s' \<Longrightarrow> sched_inv norm limits s \<Longrightarrow>
   sched_inv norm limits s' \<and> evolves (sys_inner s) (sys_inner s')"
proof (induction rule: rtranclp_induct)
  case (step y z)
  then show ?case using sched_inv_step evolves_trans by blast
qed (simp add: evolves_refl)

text \<open>
  C3. A terminal status is final: along every run from a reachable state, a task that is done, failed,
  cancelled or blocked keeps that status and stays registered, whatever is submitted, cancelled,
  rebuilt, marked or settled afterwards.
\<close>

theorem terminal_status_final:
  assumes "sched_reach norm limits s" and "(sched_step norm limits)\<^sup>*\<^sup>* s s'"
    and "get_task (sys_inner s) k = Some t" and "status_is_terminal (ts_status t)"
  shows "\<exists>t'. get_task (sys_inner s') k = Some t' \<and> ts_status t' = ts_status t"
proof -
  have "evolves (sys_inner s) (sys_inner s')"
    using steps_evolve [OF assms(2) sched_reach_inv [OF assms(1)]] by blast
  from this assms(3) show ?thesis by (rule evolvesE) (use assms(4) in blast)
qed

definition after_done :: "sched_cmd list" where
  "after_done = [Cmd_Outcome 0 Sched_Failed (Some ''late'') 11, Cmd_Rebuild, Cmd_Schedule 12]"

theorem terminal_status_final_witness:
  "\<exists>t'. get_task (sys_inner (the (exec_cmds id default_limits after_done (sample_run third_running)))) 1 = Some t' \<and>
     ts_status t' = ts_status (the_task third_running 1)"
proof (rule terminal_status_final [OF sample_reach [OF third_running_runs]])
  have "exec_cmds id default_limits after_done (sample_run third_running) \<noteq> None" by code_simp
  then show "(sched_step id default_limits)\<^sup>*\<^sup>* (sample_run third_running)
      (the (exec_cmds id default_limits after_done (sample_run third_running)))"
    by (intro exec_cmds_steps) auto
  show "get_task (sys_inner (sample_run third_running)) 1 = Some (the_task third_running 1)"
    by (rule the_task_get) code_simp
  show "status_is_terminal (ts_status (the_task third_running 1))" by code_simp
qed

text \<open>
  C2. Terminal events are exactly-once: in every reachable state the counter of terminalization
  attempts of an operation is one wherever it exists, and the operation is registered in a
  terminal status. No interleaving of completion, abort, cancellation and rebuild terminalizes an
  operation twice.
\<close>

theorem terminal_event_once:
  assumes "sched_reach norm limits s" and "terminalized (sys_inner s) k = Some n"
  shows "n = 1 \<and> (\<exists>t. get_task (sys_inner s) k = Some t \<and> status_is_terminal (ts_status t))"
  using sched_reach_inv [OF assms(1)] assms(2) unfolding sched_inv_def core_inv_def ledger_ok_def by blast

theorem terminal_event_once_witness:
  "(1 :: nat) = 1 \<and> (\<exists>t. get_task (sys_inner (sample_run third_running)) 1 = Some t \<and> status_is_terminal (ts_status t))"
  by (rule terminal_event_once [OF sample_reach [OF third_running_runs]]) code_simp

section \<open>No panic under the lock\<close>

lemma lease_settles:
  assumes "sched_inv norm limits s" and "l \<in> set (sys_leases s)"
  shows "settle l now (sys_inner s) \<noteq> None"
proof -
  have "rl_permit l \<Longrightarrow> gauge_release (rl_class l) (gauge (sys_inner s)) \<noteq> None"
  proof -
    assume "rl_permit l"
    then have "rl_class l \<in> set (held s)" using assms(2) by (auto simp: held_def)
    then have "0 < count_list (held s) (rl_class l)" by (metis count_list_0_iff neq0_conv)
    then have "0 < gauge_usage (gauge (sys_inner s)) (rl_class l)"
      using assms(1) by (simp add: sched_inv_def permit_inv_def)
    then show ?thesis using gauge.release_iff by blast
  qed
  moreover have "get_task (sys_inner s) (rl_id l) \<noteq> None"
    using lease_registered assms by (auto simp: sched_inv_def)
  ultimately show ?thesis
    by (auto simp: settle_def terminalize_def split: option.splits)
qed

lemma cancel_total: "try_cancel oid g \<noteq> None"
  by (auto simp: try_cancel_def Let_def terminalize_def split: option.splits)

section \<open>Validation and rebuild\<close>

text \<open>
  C6. Validation is exact: it accepts a graph if and only if it is within the structural bounds,
  every dependency is registered and there is no dependency cycle; otherwise it returns an error.
  The search never exceeds its recursion bound.
\<close>

theorem validate_exact:
  "(dag_validate g = Some (Inr ()) \<longleftrightarrow> dag_bounded g \<and> dag_closed g \<and> acyclic (dag_edges g)) \<and>
   (dag_validate g = Some (Inr ()) \<or> (\<exists>e. dag_validate g = Some (Inl e)))"
  using dag_validate_cases by blast

lemma rebuild_deps_total:
  "\<forall>e \<in> set ds. st (fst e) \<noteq> None \<Longrightarrow> rebuild_deps st oid ds (g, r, b) \<noteq> None"
  by (induction ds arbitrary: g r b) auto

lemma rebuild_deps_ops:
  assumes "rebuild_deps st oid ds (g, r, b) = Some (g', r', b')"
  shows "map_option ts_op (get_task g' k) = map_option ts_op (get_task g k)"
  using rebuild_deps_spec [OF assms] by (cases "get_task g k") simp_all

lemma rebuild_each_total:
  assumes "\<forall>x \<in> set oids. \<exists>t. get_task g x = Some t"
    and "\<forall>k t. get_task g k = Some t \<longrightarrow> (\<forall>e \<in> set (so_dependencies (ts_op t)). st (fst e) \<noteq> None)"
  shows "\<exists>g' nb'. rebuild_each st oids (g, nb) = Some (g', nb') \<and> set nb' \<subseteq> set nb \<union> set oids \<and>
    (\<forall>k. (get_task g' k = None) = (get_task g k = None))"
  using assms
proof (induction oids arbitrary: g nb)
  case (Cons x oids)
  then obtain t where t: "get_task g x = Some t" by auto
  then have "rebuild_deps st x (so_dependencies (ts_op t)) (g, 0, 0) \<noteq> None"
    using Cons.prems(2) by (intro rebuild_deps_total) blast
  then obtain g1 r b where r: "rebuild_deps st x (so_dependencies (ts_op t)) (g, 0, 0) = Some (g1, r, b)" by auto
  define flip where "flip = (b > 0 \<and> task_status_of g1 x = Some Sched_Pending)"
  define g2 where "g2 = upd_task x (\<lambda>t. t\<lparr>ts_remaining := r, ts_blocked := b,
      ts_status := if flip then Sched_Blocked else ts_status t\<rparr>) g1"
  have ops: "map_option ts_op (get_task g2 k) = map_option ts_op (get_task g k)" for k
    unfolding rebuild_deps_ops [OF r, symmetric] g2_def by (simp add: get_task_upd option.map_comp comp_def)
  then have none: "(get_task g2 k = None) = (get_task g k = None)" for k by (metis map_option_is_None)
  have p1: "\<forall>y \<in> set oids. \<exists>t. get_task g2 y = Some t" using Cons.prems(1) none by (metis list.set_intros(2) not_None_eq)
  have p2: "\<forall>k t. get_task g2 k = Some t \<longrightarrow> (\<forall>e \<in> set (so_dependencies (ts_op t)). st (fst e) \<noteq> None)"
  proof (intro allI impI)
    fix k u assume "get_task g2 k = Some u"
    then obtain v where "get_task g k = Some v" "ts_op v = ts_op u" using ops [of k] by (cases "get_task g k") auto
    then show "\<forall>e \<in> set (so_dependencies (ts_op u)). st (fst e) \<noteq> None" using Cons.prems(2) by metis
  qed
  obtain g' nb' where IH: "rebuild_each st oids (g2, if flip then nb @ [x] else nb) = Some (g', nb')"
    "set nb' \<subseteq> set (if flip then nb @ [x] else nb) \<union> set oids"
    "\<forall>k. (get_task g' k = None) = (get_task g2 k = None)"
    using Cons.IH [OF p1 p2] by blast
  have "rebuild_each st (x # oids) (g, nb) = Some (g', nb')"
    using IH(1) t r by (simp add: flip_def g2_def Let_def)
  moreover have "set nb' \<subseteq> set nb \<union> set (x # oids)" using IH(2) by (auto split: if_splits)
  ultimately show ?case using IH(3) none by blast
qed simp

lemma terminalize_keys:
  assumes "terminalize x g = Some g'"
  shows "map fst (tasks g') = map fst (tasks g)"
proof (cases "terminalized g x")
  case None
  then obtain t where "g' = terminalize_first x t g" using assms by (auto simp: terminalize_def split: option.splits)
  then have "map fst (tasks g') = map fst (tasks (settled_state x g))"
    using quiet_terminalize_first by (simp add: quiet_def)
  then show ?thesis by (simp add: settled_state_def remove_running_def tasks_upd comp_def)
next
  case (Some n)
  then show ?thesis using assms by (auto simp: terminalize_def)
qed

lemma terminalize_all_total:
  "set xs \<subseteq> fst ` set (tasks g) \<Longrightarrow> terminalize_all xs g \<noteq> None"
proof (induction xs arbitrary: g)
  case (Cons x xs)
  then have "get_task g x \<noteq> None" using dom_get_task [of g] by auto
  then have "terminalize x g \<noteq> None" by (auto simp: terminalize_def split: option.splits)
  then obtain g' where g': "terminalize x g = Some g'" by blast
  then have "fst ` set (tasks g') = fst ` set (tasks g)" using terminalize_keys by (metis list.set_map)
  with Cons.IH [of g'] Cons.prems g' show ?case by simp
qed simp

lemma rebuild_total:
  assumes "dag_closed g"
  shows "rebuild_graph g \<noteq> None"
proof -
  define g0 where "g0 = g\<lparr>ready := [], tasks := map (\<lambda>e. (fst e, clear_links (snd e))) (tasks g)\<rparr>"
  have get0: "get_task g0 k = map_option clear_links (get_task g k)" for k
  proof -
    have "map_of (map (\<lambda>e. (fst e, clear_links (snd e))) m) k = map_option clear_links (map_of m k)" for m
      by (induction m) auto
    then show ?thesis by (simp add: g0_def get_task_def)
  qed
  have keys: "set (map fst (tasks g)) = dom (get_task g)" by (simp add: dom_get_task)
  have p1: "\<forall>x \<in> set (map fst (tasks g)). \<exists>t. get_task g0 x = Some t" using keys get0 by auto
  have p2: "\<forall>k t. get_task g0 k = Some t \<longrightarrow> (\<forall>e \<in> set (so_dependencies (ts_op t)). task_status_of g (fst e) \<noteq> None)"
  proof (intro allI impI ballI)
    fix k t e assume a: "get_task g0 k = Some t" "e \<in> set (so_dependencies (ts_op t))"
    then obtain u where "get_task g k = Some u" "ts_op t = ts_op u" by (auto simp: get0 clear_links_def)
    with a(2) have "(k, fst e) \<in> dag_edges g" by (simp add: dag_edges_def deps_of_def)
    with assms have "fst e \<in> dom (get_task g)" unfolding dag_closed_def by blast
    then show "task_status_of g (fst e) \<noteq> None" by (auto simp: task_status_of_def)
  qed
  obtain g1 nb where each: "rebuild_each (task_status_of g) (map fst (tasks g)) (g0, []) = Some (g1, nb)"
    "set nb \<subseteq> set (map fst (tasks g))" "\<forall>k. (get_task g1 k = None) = (get_task g0 k = None)"
    using rebuild_each_total [OF p1 p2, of "[]"] by auto
  have "dom (get_task g1) = dom (get_task g)" using each(3) get0 by (auto simp: dom_def)
  then have "terminalize_all nb g1 \<noteq> None"
    using each(2) keys by (intro terminalize_all_total) (simp add: dom_get_task)
  with each(1) show ?thesis by (auto simp: rebuild_graph_def g0_def Let_def)
qed

lemma rebuild_deps_registered:
  "rebuild_deps st oid ds (g, r, b) = Some s \<Longrightarrow> \<forall>e \<in> set ds. st (fst e) \<noteq> None"
proof (induction ds arbitrary: g r b)
  case (Cons d ds)
  obtain dep_id policy where d: "d = (dep_id, policy)" by (cases d)
  with Cons.prems obtain g' r' b' where "rebuild_deps st oid ds (g', r', b') = Some s" "st dep_id \<noteq> None"
    by (auto split: option.splits if_splits)
  with Cons.IH d show ?case by auto
qed simp

lemma rebuild_each_registered:
  "rebuild_each st oids (g, nb) = Some s \<Longrightarrow> x \<in> set oids \<Longrightarrow> get_task g x = Some t \<Longrightarrow>
   e \<in> set (so_dependencies (ts_op t)) \<Longrightarrow> st (fst e) \<noteq> None"
proof (induction oids arbitrary: g nb t)
  case (Cons y oids)
  from Cons.prems(1) obtain u g1 r b where u: "get_task g y = Some u"
    and deps: "rebuild_deps st y (so_dependencies (ts_op u)) (g, 0, 0) = Some (g1, r, b)"
    by (auto split: option.splits)
  obtain f nb' where rest: "rebuild_each st oids (upd_task y f g1, nb') = Some s" and f: "\<And>v. ts_op (f v) = ts_op v"
    using Cons.prems(1) u deps by (auto simp: Let_def split: if_splits)
  show ?case
  proof (cases "x = y")
    case True
    with u Cons.prems(3,4) rebuild_deps_registered [OF deps] show ?thesis by auto
  next
    case False
    have "map_option ts_op (get_task (upd_task y f g1) x) = Some (ts_op t)"
      using rebuild_deps_ops [OF deps, of x] Cons.prems(3) False by (simp add: get_task_upd)
    then obtain v where "get_task (upd_task y f g1) x = Some v" "ts_op v = ts_op t" by auto
    with Cons.IH [OF rest] Cons.prems(2,4) False show ?thesis by auto
  qed
qed simp

lemma rebuild_returns_iff: "rebuild_graph g \<noteq> None \<longleftrightarrow> dag_closed g"
proof
  assume returns: "rebuild_graph g \<noteq> None"
  have "rebuild_each (task_status_of g) (map fst (tasks g))
      (g\<lparr>ready := [], tasks := map (\<lambda>e. (fst e, clear_links (snd e))) (tasks g)\<rparr>, []) \<noteq> None"
  proof
    assume "rebuild_each (task_status_of g) (map fst (tasks g))
      (g\<lparr>ready := [], tasks := map (\<lambda>e. (fst e, clear_links (snd e))) (tasks g)\<rparr>, []) = None"
    with returns show False by (simp add: rebuild_graph_def Let_def)
  qed
  then obtain s where each: "rebuild_each (task_status_of g) (map fst (tasks g))
      (g\<lparr>ready := [], tasks := map (\<lambda>e. (fst e, clear_links (snd e))) (tasks g)\<rparr>, []) = Some s" by blast
  have "fst e \<in> dom (get_task g)" if t: "get_task g k = Some t" and e: "e \<in> set (so_dependencies (ts_op t))" for k t e
  proof -
    have "map_of (map (\<lambda>e. (fst e, clear_links (snd e))) m) k = map_option clear_links (map_of m k)" for m
      by (induction m) auto
    then have "get_task (g\<lparr>ready := [], tasks := map (\<lambda>e. (fst e, clear_links (snd e))) (tasks g)\<rparr>) k = Some (clear_links t)"
      using t by (simp add: get_task_def)
    moreover have "k \<in> set (map fst (tasks g))" using t dom_get_task [of g] by auto
    ultimately have "task_status_of g (fst e) \<noteq> None"
      using rebuild_each_registered [OF each] e by (simp add: clear_links_def)
    then show "fst e \<in> dom (get_task g)" by (auto simp: task_status_of_def split: option.splits)
  qed
  then show "dag_closed g" unfolding dag_closed_def dag_edges_def deps_of_def by (fastforce split: option.splits)
qed (rule rebuild_total)

text \<open>
  C37. Which operations can panic under the scheduler lock, and when. On every reachable state the
  ready-queue pass, a cancellation and the settlement of every outstanding lease return: their
  lookups, indexings and permit releases succeed. The rebuild of the graph returns exactly when
  every dependency of a registered task is registered too, as it is in every graph that validation
  accepts; with an unregistered dependency it panics.
\<close>

theorem scheduler_panics_exactly:
  assumes "sched_reach norm limits s"
  shows "schedule_pass norm limits now (sys_inner s) \<noteq> None \<and> try_cancel oid (sys_inner s) \<noteq> None \<and>
    list_all (\<lambda>l. settle l now (sys_inner s) \<noteq> None) (sys_leases s) \<and>
    (rebuild_graph (sys_inner s) \<noteq> None \<longleftrightarrow> dag_closed (sys_inner s)) \<and>
    (dag_validate (sys_inner s) = Some (Inr ()) \<longrightarrow> dag_closed (sys_inner s))"
  using schedule_correct [OF sched_reach_inv [OF assms], of now] lease_settles [OF sched_reach_inv [OF assms]]
    cancel_total rebuild_returns_iff dag_validate_cases(1) by (auto simp: list_all_iff)

theorem scheduler_panics_exactly_witness:
  "schedule_pass id default_limits 7 (sys_inner (sample_run two_running)) \<noteq> None \<and>
   try_cancel 2 (sys_inner (sample_run two_running)) \<noteq> None \<and>
   list_all (\<lambda>l. settle l 7 (sys_inner (sample_run two_running)) \<noteq> None) (sys_leases (sample_run two_running)) \<and>
   rebuild_graph (sys_inner (sample_run two_running)) \<noteq> None"
proof -
  have "dag_validate (sys_inner (sample_run two_running)) = Some (Inr ())" by code_simp
  with scheduler_panics_exactly [OF sample_reach [OF two_running_runs], of 7 2] show ?thesis by blast
qed

text \<open>
  A graph that validation accepted can be rebuilt: from a reachable state whose graph validates,
  the rebuild returns, and the state after it is reachable, so that all its guarantees hold again.
\<close>

theorem rebuild_after_validate:
  assumes "sched_reach norm limits s" and "dag_validate (sys_inner s) = Some (Inr ())"
  shows "\<exists>g. rebuild_graph (sys_inner s) = Some g \<and> sched_reach norm limits (s\<lparr>sys_inner := g\<rparr>)"
proof -
  have "dag_closed (sys_inner s)" using assms(2) dag_validate_cases(1) by blast
  then obtain g where "rebuild_graph (sys_inner s) = Some g" using rebuild_total by blast
  then show ?thesis using sched_reach.step [OF assms(1) sched_step.rebuild] by blast
qed

theorem rebuild_after_validate_witness:
  "\<exists>g. rebuild_graph (sys_inner (sample_run submitted)) = Some g \<and>
     sched_reach id default_limits ((sample_run submitted)\<lparr>sys_inner := g\<rparr>)"
  by (rule rebuild_after_validate [OF sample_reach [OF submitted_runs]]) code_simp

section \<open>Progress\<close>

definition eligible :: "(string \<Rightarrow> string) \<Rightarrow> resource_limits \<Rightarrow> sched_inner \<Rightarrow> op_id \<Rightarrow> bool" where
  "eligible norm limits g oid =
     (case get_task g oid of
        None \<Rightarrow> False
      | Some t \<Rightarrow> ts_status t = Sched_Pending \<and> ts_remaining t = 0 \<and>
          \<not> list_ex (\<lambda>e. conflicts norm (ts_op t) (snd e)) (running g) \<and>
          gauge_usage (gauge g) (so_class (ts_op t)) < limits_get limits (so_class (ts_op t)))"

lemma eligible_ready [simp]: "eligible norm limits (g\<lparr>ready := r\<rparr>) = eligible norm limits g"
  by (auto simp: eligible_def fun_eq_iff split: option.splits)

lemma scan_cons:
  assumes "budget \<noteq> 0" and "ready g = oid # rest" and "get_task g oid = Some t"
  shows "scan norm limits now budget (g, started) =
     (if ts_status t \<noteq> Sched_Pending \<or> ts_remaining t \<noteq> 0
      then scan norm limits now budget (g\<lparr>ready := rest\<rparr>, started)
      else if list_ex (\<lambda>e. conflicts norm (ts_op t) (snd e)) (running g)
      then scan norm limits now (budget - 1) (g\<lparr>ready := rest @ [oid]\<rparr>, started)
      else (case try_acquire (so_class (ts_op t)) limits (gauge g) of
              Inl _ \<Rightarrow> scan norm limits now (budget - 1) (g\<lparr>ready := rest @ [oid]\<rparr>, started)
            | Inr ga \<Rightarrow> scan norm limits now budget (start oid (ts_op t) now ga (g\<lparr>ready := rest\<rparr>),
                started @ [\<lparr>rl_id = oid, rl_class = so_class (ts_op t), rl_permit = True\<rparr>])))"
  using assms by (subst scan.simps) simp

lemma scan_progress:
  "scan norm limits now budget (g, started) = Some (g', started') \<Longrightarrow>
   started \<noteq> [] \<or> (\<exists>x \<in> set (take budget (ready g)). eligible norm limits g x) \<Longrightarrow> started' \<noteq> []"
proof (induction norm limits now budget "(g, started)" arbitrary: g started rule: scan.induct)
  case (1 norm limits now budget g started)
  show ?case
  proof (cases "budget = 0 \<or> ready g = []")
    case True
    then show ?thesis using 1(5,6) by (auto simp: scan.simps [of _ _ _ _ g] split: if_splits)
  next
    case False
    then obtain oid rest where r: "budget \<noteq> 0" "ready g = oid # rest" by (cases "ready g") auto
    with 1(5) obtain t where t: "get_task g oid = Some t" by (cases "get_task g oid") auto
    note eq = 1(5) [unfolded scan_cons [OF r t]]
    have later: "started \<noteq> [] \<or> (\<exists>x \<in> set (take budget rest). eligible norm limits g x)"
      "started \<noteq> [] \<or> (\<exists>x \<in> set (take (budget - 1) (rest @ [oid])). eligible norm limits g x)"
      if "\<not> eligible norm limits g oid"
      using 1(6) that r set_take_subset_set_take [of "budget - 1" budget rest]
      by (auto simp: take_Cons' split: if_splits)
    consider (skip) "ts_status t \<noteq> Sched_Pending \<or> ts_remaining t \<noteq> 0"
      | (clash) "ts_status t = Sched_Pending" "ts_remaining t = 0"
          "list_ex (\<lambda>e. conflicts norm (ts_op t) (snd e)) (running g)"
      | (busy) err where "ts_status t = Sched_Pending" "ts_remaining t = 0"
          "\<not> list_ex (\<lambda>e. conflicts norm (ts_op t) (snd e)) (running g)"
          "try_acquire (so_class (ts_op t)) limits (gauge g) = Inl err"
      | (go) ga where "ts_status t = Sched_Pending" "ts_remaining t = 0"
          "\<not> list_ex (\<lambda>e. conflicts norm (ts_op t) (snd e)) (running g)"
          "try_acquire (so_class (ts_op t)) limits (gauge g) = Inr ga"
      by (metis sum.exhaust)
    then show ?thesis
    proof cases
      case skip
      then show ?thesis using 1(1) [OF r t] eq later t by (auto simp: eligible_def)
    next
      case clash
      then show ?thesis using 1(2) [OF r t] eq later t by (auto simp: eligible_def)
    next
      case busy
      then have "\<not> eligible norm limits g oid"
        using t by (auto simp: eligible_def try_acquire_def Let_def split: if_splits)
      with busy show ?thesis using 1(3) [OF r t] eq later by simp
    next
      case go
      then show ?thesis using 1(4) [OF r t] eq by simp
    qed
  qed
qed

text \<open>
  C36. The scheduler makes progress: when some task of the ready queue is pending with no dependency
  left, does not conflict with a running operation and its class has a free permit, the pass over
  the queue starts at least one task, and the state after the pass is reachable again.
\<close>

theorem schedule_progress:
  assumes "sched_reach norm limits s" and "oid \<in> set (ready (sys_inner s))"
    and "eligible norm limits (sys_inner s) oid"
  shows "\<exists>g started. schedule_pass norm limits now (sys_inner s) = Some (g, started) \<and> started \<noteq> [] \<and>
    sched_reach norm limits (s\<lparr>sys_inner := g, sys_leases := sys_leases s @ started\<rparr>)"
proof -
  obtain g started where p: "schedule_pass norm limits now (sys_inner s) = Some (g, started)"
    using schedule_correct [OF sched_reach_inv [OF assms(1)]] by blast
  moreover have "started \<noteq> []"
    by (rule scan_progress [OF p [unfolded schedule_pass_def]]) (use assms(2,3) in auto)
  ultimately show ?thesis using sched_reach.step [OF assms(1) sched_step.schedule] by blast
qed

theorem schedule_progress_witness:
  "\<exists>g started. schedule_pass id default_limits 3 (sys_inner (sample_run submitted)) = Some (g, started) \<and> started \<noteq> [] \<and>
    sched_reach id default_limits
      ((sample_run submitted)\<lparr>sys_inner := g, sys_leases := sys_leases (sample_run submitted) @ started\<rparr>)"
proof (rule schedule_progress [OF sample_reach [OF submitted_runs]])
  show "2 \<in> set (ready (sys_inner (sample_run submitted)))" by code_simp
  show "eligible id default_limits (sys_inner (sample_run submitted)) 2" by code_simp
qed

section \<open>Where the driver gives up\<close>

definition blocked_upstream_first :: "sched_cmd list" where
  "blocked_upstream_first =
     [Cmd_Submit (sample_op 1 [] [] []), Cmd_Submit (sample_op 2 [] [] [(1, Policy_Success)]), Cmd_Cancel 1,
      Cmd_Submit (sample_op 3 [] [] [(2, Policy_Terminal)]), Cmd_Rebuild, Cmd_Schedule 1, Cmd_Rebuild, Cmd_Schedule 2]"

definition blocked_upstream_last :: "sched_cmd list" where
  "blocked_upstream_last =
     [Cmd_Submit (sample_op 1 [] [] []), Cmd_Submit (sample_op 2 [] [] [(1, Policy_Success)]),
      Cmd_Submit (sample_op 3 [] [] [(2, Policy_Terminal)]), Cmd_Cancel 1, Cmd_Rebuild, Cmd_Schedule 1, Cmd_Rebuild,
      Cmd_Schedule 2]"

text \<open>
  The fate of a \<open>Terminal\<close>-edge dependent depends on the order of submission. The same three
  operations validate in both runs and operation 2 is blocked in both. When operation 3 was submitted before
  its upstream was blocked, it is blocked too and the driver finishes; when it was submitted after,
  it is still pending after both rebuilds and the driver reports a deadlock.
\<close>

theorem terminal_edge_order_dependent:
  "idle_verdict True (sys_inner (sample_run blocked_upstream_first)) = Run_Error Deadlock \<and>
   task_status_of (sys_inner (sample_run blocked_upstream_first)) 2 = Some Sched_Blocked \<and>
   task_status_of (sys_inner (sample_run blocked_upstream_first)) 3 = Some Sched_Pending \<and>
   dag_validate (sys_inner (sample_run blocked_upstream_first)) = Some (Inr ()) \<and>
   idle_verdict True (sys_inner (sample_run blocked_upstream_last)) = Finished [] \<and>
   task_status_of (sys_inner (sample_run blocked_upstream_last)) 2 = Some Sched_Blocked \<and>
   task_status_of (sys_inner (sample_run blocked_upstream_last)) 3 = Some Sched_Blocked"
  by code_simp

definition late_submission :: "sched_cmd list" where
  "late_submission =
     [Cmd_Submit (sample_op 1 [] [] []), Cmd_Rebuild, Cmd_Schedule 1,
      Cmd_Submit (sample_op 2 [] [] [(9, Policy_Success)]), Cmd_Outcome 0 Sched_Done None 2, Cmd_Settle 0 2,
      Cmd_Schedule 3]"

text \<open>
  A submission that arrives while the driver runs is accepted even when its dependency is not
  registered. When the other work is finished the driver decides to rebuild the graph, without
  validating it again, and the rebuild panics on the missing dependency.
\<close>

theorem late_submission_panics:
  "exec_cmds id default_limits late_submission sys_init \<noteq> None \<and>
   sys_leases (sample_run late_submission) = [] \<and>
   idle_verdict False (sys_inner (sample_run late_submission)) = Rebuild_Once \<and>
   rebuild_graph (sys_inner (sample_run late_submission)) = None \<and>
   dag_validate (sys_inner (sample_run late_submission)) = Some (Inl NotFound)"
  by (intro conjI; code_simp)

end
