(* ===== verification/Circuit_Breaker.thy ===== *)
theory Circuit_Breaker
  imports Faktor_Interfaces
begin

text \<open>
  Circuit breakers and the resource-keyed board of them (\<open>crates/scheduler/src/lib.rs\<close>,
  \<open>CircuitState\<close> to \<open>CircuitBoard\<close>). A breaker is the record of its atomics; \<open>breaker_allow\<close> and
  the recorders are the operations run without interruption, and \<open>allow_step\<close> is the
  interleaving of the atomic loads and the compare-exchange of concurrent \<open>allow\<close> calls. The
  board is an association list with distinct keys; its recency ticks are unbounded numbers (the
  \<open>u64\<close> of the code is not exhausted in practice).
\<close>

section \<open>One breaker\<close>

datatype circuit_state = Circuit_Closed | Circuit_Open | Circuit_HalfOpen

datatype breaker_status = CircuitOpen

definition DEFAULT_BREAKER_FAILURE_THRESHOLD :: nat where "DEFAULT_BREAKER_FAILURE_THRESHOLD = 4"
definition DEFAULT_BREAKER_COOLDOWN_MS :: nat where "DEFAULT_BREAKER_COOLDOWN_MS = 5000"

record circuit_breaker =
  failure_threshold :: nat
  cooldown_ms :: nat
  br_state :: circuit_state
  br_failures :: nat
  opened_at_ms :: int

definition breaker_new :: "nat \<Rightarrow> nat \<Rightarrow> circuit_breaker" where
  "breaker_new threshold cooldown =
     \<lparr>failure_threshold = max threshold 1, cooldown_ms = cooldown, br_state = Circuit_Closed,
      br_failures = 0, opened_at_ms = 0\<rparr>"

text \<open>The cooldown test: a saturating difference against the \<open>as i64\<close> cast of the cooldown.\<close>

definition in_cooldown :: "circuit_breaker \<Rightarrow> int \<Rightarrow> bool" where
  "in_cooldown b now_ms \<longleftrightarrow> sat_i64 (now_ms - opened_at_ms b) < u64_as_i64 (cooldown_ms b)"

definition breaker_allow ::
    "int \<Rightarrow> circuit_breaker \<Rightarrow> (breaker_status + unit) \<times> circuit_breaker" where
  "breaker_allow now_ms b =
     (case br_state b of
        Circuit_Closed \<Rightarrow> (Inr (), b)
      | Circuit_HalfOpen \<Rightarrow> (Inl CircuitOpen, b)
      | Circuit_Open \<Rightarrow>
          if in_cooldown b now_ms then (Inl CircuitOpen, b)
          else (Inr (), b\<lparr>br_state := Circuit_HalfOpen\<rparr>))"

definition record_success :: "circuit_breaker \<Rightarrow> circuit_breaker" where
  "record_success b = b\<lparr>br_failures := 0, br_state := Circuit_Closed\<rparr>"

text \<open>\<open>fetch_add\<close> wraps at 32 bits; the comparison uses the value before the addition plus one.\<close>

definition record_failure :: "int \<Rightarrow> circuit_breaker \<Rightarrow> circuit_breaker" where
  "record_failure now_ms b =
     (case br_state b of
        Circuit_Closed \<Rightarrow>
          (let seen = br_failures b + 1; b' = b\<lparr>br_failures := seen mod 2 ^ 32\<rparr>
           in if seen \<ge> failure_threshold b
              then b'\<lparr>br_state := Circuit_Open, opened_at_ms := now_ms\<rparr> else b')
      | Circuit_HalfOpen \<Rightarrow> b\<lparr>br_state := Circuit_Open, opened_at_ms := now_ms\<rparr>
      | Circuit_Open \<Rightarrow> b)"

definition breaker_open :: "int \<Rightarrow> circuit_breaker \<Rightarrow> circuit_breaker" where
  "breaker_open now_ms b =
     b\<lparr>br_failures := failure_threshold b, br_state := Circuit_Open, opened_at_ms := now_ms\<rparr>"

section \<open>The breaker counts the failure streak\<close>

text \<open>The invariant: a closed breaker has seen fewer failures than its threshold, a \<open>u32\<close>.\<close>

definition breaker_inv :: "circuit_breaker \<Rightarrow> bool" where
  "breaker_inv b \<longleftrightarrow> 1 \<le> failure_threshold b \<and> failure_threshold b \<le> u32_max \<and>
     (br_state b = Circuit_Closed \<longrightarrow> br_failures b < failure_threshold b)"

lemma breaker_inv_new: "t \<le> u32_max \<Longrightarrow> breaker_inv (breaker_new t c)"
  by (simp add: breaker_inv_def breaker_new_def width_simps)

lemma breaker_inv_success: "breaker_inv b \<Longrightarrow> breaker_inv (record_success b)"
  by (simp add: breaker_inv_def record_success_def)

lemma breaker_inv_failure: "breaker_inv b \<Longrightarrow> breaker_inv (record_failure now b)"
  by (auto simp: breaker_inv_def record_failure_def Let_def width_simps split: circuit_state.splits)

lemma breaker_inv_open: "breaker_inv b \<Longrightarrow> breaker_inv (breaker_open now b)"
  by (simp add: breaker_inv_def breaker_open_def)

lemma breaker_inv_allow: "breaker_inv b \<Longrightarrow> breaker_inv (snd (breaker_allow now b))"
  by (auto simp: breaker_inv_def breaker_allow_def split: circuit_state.splits)

lemmas breaker_inv_ops = breaker_inv_success breaker_inv_failure breaker_inv_open breaker_inv_allow

text \<open>Outcomes recorded one after the other; the specification is the length of the last streak.\<close>

datatype outcome = Succeeded_At | Failed_At int

fun record_outcome :: "outcome \<Rightarrow> circuit_breaker \<Rightarrow> circuit_breaker" where
  "record_outcome Succeeded_At b = record_success b"
| "record_outcome (Failed_At now) b = record_failure now b"

fun streak_step :: "outcome \<Rightarrow> nat \<Rightarrow> nat" where
  "streak_step Succeeded_At n = 0"
| "streak_step (Failed_At _) n = n + 1"

definition streak :: "outcome list \<Rightarrow> nat" where
  "streak os = fold streak_step os 0"

definition streak_rel :: "nat \<Rightarrow> nat \<Rightarrow> circuit_breaker \<Rightarrow> bool" where
  "streak_rel t n b \<longleftrightarrow> failure_threshold b = t \<and>
     (if n < t then br_state b = Circuit_Closed \<and> br_failures b = n else br_state b = Circuit_Open)"

lemma streak_rel_step:
  "1 \<le> t \<Longrightarrow> t \<le> u32_max \<Longrightarrow> streak_rel t n b \<Longrightarrow> streak_rel t (streak_step e n) (record_outcome e b)"
  by (cases e)
    (auto simp: streak_rel_def record_success_def record_failure_def Let_def width_simps split: if_splits)

lemma streak_rel_run:
  "1 \<le> t \<Longrightarrow> t \<le> u32_max \<Longrightarrow> streak_rel t n b \<Longrightarrow> streak_rel t (fold streak_step es n) (fold record_outcome es b)"
  by (induction es arbitrary: n b) (use streak_rel_step in auto)

lemma streak_rel_new: "streak_rel (max t 1) 0 (breaker_new t c)"
  by (simp add: streak_rel_def breaker_new_def)

section \<open>Half-open admits one probe\<close>

text \<open>
  Concurrent \<open>allow\<close> calls: each caller has loaded nothing yet, has seen the open state, has passed
  the cooldown test and is about to compare-and-exchange, or has returned. A failed exchange
  goes back to the load.
\<close>

datatype allow_pc = PC_Load | PC_Cooldown | PC_Cas | PC_Granted | PC_Denied

type_synonym allow_config = "circuit_breaker \<times> allow_pc list"

inductive allow_step :: "allow_config \<Rightarrow> allow_config \<Rightarrow> bool" where
  load_closed: "k < length pcs \<Longrightarrow> pcs ! k = PC_Load \<Longrightarrow> br_state b = Circuit_Closed \<Longrightarrow>
     allow_step (b, pcs) (b, pcs[k := PC_Granted])"
| load_half: "k < length pcs \<Longrightarrow> pcs ! k = PC_Load \<Longrightarrow> br_state b = Circuit_HalfOpen \<Longrightarrow>
     allow_step (b, pcs) (b, pcs[k := PC_Denied])"
| load_open: "k < length pcs \<Longrightarrow> pcs ! k = PC_Load \<Longrightarrow> br_state b = Circuit_Open \<Longrightarrow>
     allow_step (b, pcs) (b, pcs[k := PC_Cooldown])"
| cool_deny: "k < length pcs \<Longrightarrow> pcs ! k = PC_Cooldown \<Longrightarrow> in_cooldown b now \<Longrightarrow>
     allow_step (b, pcs) (b, pcs[k := PC_Denied])"
| cool_pass: "k < length pcs \<Longrightarrow> pcs ! k = PC_Cooldown \<Longrightarrow> \<not> in_cooldown b now \<Longrightarrow>
     allow_step (b, pcs) (b, pcs[k := PC_Cas])"
| cas_win: "k < length pcs \<Longrightarrow> pcs ! k = PC_Cas \<Longrightarrow> br_state b = Circuit_Open \<Longrightarrow>
     allow_step (b, pcs) (b\<lparr>br_state := Circuit_HalfOpen\<rparr>, pcs[k := PC_Granted])"
| cas_lose: "k < length pcs \<Longrightarrow> pcs ! k = PC_Cas \<Longrightarrow> br_state b \<noteq> Circuit_Open \<Longrightarrow>
     allow_step (b, pcs) (b, pcs[k := PC_Load])"

inductive_cases allow_stepE: "allow_step (b, pcs) c"

lemma count_list_update:
  "k < length xs \<Longrightarrow> count_list (xs[k := y]) x =
     count_list xs x + (if y = x then 1 else 0) - (if xs ! k = x then 1 else 0)"
proof (induction xs arbitrary: k)
  case (Cons a xs)
  then show ?case
  proof (cases k)
    case (Suc j)
    moreover have "xs ! j = x \<Longrightarrow> 0 < count_list xs x"
      using Cons.prems Suc by (metis Suc_less_eq count_list_0_iff length_Cons neq0_conv nth_mem)
    ultimately show ?thesis using Cons by auto
  qed auto
qed simp

definition probe_inv :: "allow_config \<Rightarrow> bool" where
  "probe_inv c = (case c of (b, pcs) \<Rightarrow>
     (br_state b = Circuit_Open \<and> count_list pcs PC_Granted = 0) \<or>
     (br_state b = Circuit_HalfOpen \<and> count_list pcs PC_Granted = 1))"

lemma probe_inv_step: "allow_step c d \<Longrightarrow> probe_inv c \<Longrightarrow> probe_inv d"
  by (induction rule: allow_step.induct) (auto simp: probe_inv_def count_list_update)

lemma probe_inv_run: "allow_step\<^sup>*\<^sup>* c d \<Longrightarrow> probe_inv c \<Longrightarrow> probe_inv d"
  by (induction rule: rtranclp_induct) (auto intro: probe_inv_step)

text \<open>A half-open breaker denies every caller until an outcome is recorded.\<close>

fun allow_all :: "int list \<Rightarrow> circuit_breaker \<Rightarrow> (breaker_status + unit) list \<times> circuit_breaker" where
  "allow_all [] b = ([], b)"
| "allow_all (now # nows) b =
     (case breaker_allow now b of (r, b') \<Rightarrow>
        (case allow_all nows b' of (rs, b'') \<Rightarrow> (r # rs, b'')))"

lemma half_open_denies:
  "br_state b = Circuit_HalfOpen \<Longrightarrow> allow_all nows b = (replicate (length nows) (Inl CircuitOpen), b)"
  by (induction nows) (auto simp: breaker_allow_def)

section \<open>The board\<close>

datatype resource_key =
    Key_Provider string string string
  | Key_Mcp string
  | Key_Tool string
  | Key_Host string string nat

fun resource_key_display :: "resource_key \<Rightarrow> string" where
  "resource_key_display (Key_Provider i m e) = ''provider:'' @ i @ '':'' @ m @ '':'' @ e"
| "resource_key_display (Key_Mcp s) = ''mcp:'' @ s"
| "resource_key_display (Key_Tool n) = ''tool:'' @ n"
| "resource_key_display (Key_Host s h p) = ''host:'' @ s @ ''://'' @ h @ '':'' @ dec_text p"

definition DEFAULT_CIRCUIT_BOARD_MAX_KEYS :: nat where "DEFAULT_CIRCUIT_BOARD_MAX_KEYS = 4096"

record board_state =
  max_keys :: nat
  tick :: nat
  board_map :: "(resource_key \<times> (circuit_breaker \<times> nat)) list"

definition with_max_keys :: "nat \<Rightarrow> board_state" where
  "with_max_keys mk = \<lparr>max_keys = max mk 1, tick = 0, board_map = []\<rparr>"

definition board_new :: board_state where
  "board_new = with_max_keys DEFAULT_CIRCUIT_BOARD_MAX_KEYS"

text \<open>\<open>min_by_key\<close> over the last-used ticks: the first entry with the least tick.\<close>

fun lru_victim :: "(resource_key \<times> (circuit_breaker \<times> nat)) list \<Rightarrow> (resource_key \<times> nat) option" where
  "lru_victim [] = None"
| "lru_victim ((k, (b, u)) # rest) =
     (case lru_victim rest of
        None \<Rightarrow> Some (k, u)
      | Some (k', u') \<Rightarrow> if u \<le> u' then Some (k, u) else Some (k', u'))"

definition remove_key :: "resource_key \<Rightarrow> (resource_key \<times> 'v) list \<Rightarrow> (resource_key \<times> 'v) list" where
  "remove_key k m = filter (\<lambda>e. fst e \<noteq> k) m"

definition evict :: "board_state \<Rightarrow> (resource_key \<times> (circuit_breaker \<times> nat)) list" where
  "evict g =
     (if length (board_map g) \<ge> max_keys g then
        (case lru_victim (board_map g) of
           None \<Rightarrow> board_map g
         | Some (victim, _) \<Rightarrow> remove_key victim (board_map g))
      else board_map g)"

definition replace_at :: "resource_key \<Rightarrow> 'v \<Rightarrow> resource_key \<times> 'v \<Rightarrow> resource_key \<times> 'v" where
  "replace_at k v e = (if fst e = k then (k, v) else e)"

lemma fst_replace_at [simp]: "fst (replace_at k v e) = fst e" "fst \<circ> replace_at k v = fst"
  by (auto simp: replace_at_def)

definition board_breaker :: "resource_key \<Rightarrow> board_state \<Rightarrow> circuit_breaker \<times> board_state" where
  "board_breaker resource g =
     (let t = tick g + 1; g = g\<lparr>tick := t\<rparr>
      in case map_of (board_map g) resource of
           Some (b, _) \<Rightarrow>
             (b, g\<lparr>board_map := map (replace_at resource (b, t)) (board_map g)\<rparr>)
         | None \<Rightarrow>
             (let b = breaker_new DEFAULT_BREAKER_FAILURE_THRESHOLD DEFAULT_BREAKER_COOLDOWN_MS
              in (b, g\<lparr>board_map := (resource, (b, t)) # evict g\<rparr>)))"

text \<open>
  The breaker handed out is shared (\<open>Arc\<close>), so an operation on it changes the entry of the board.
\<close>

definition store_at :: "resource_key \<Rightarrow> circuit_breaker \<Rightarrow> resource_key \<times> (circuit_breaker \<times> nat)
     \<Rightarrow> resource_key \<times> (circuit_breaker \<times> nat)" where
  "store_at resource b e = (fst e, (if fst e = resource then b else fst (snd e), snd (snd e)))"

lemma store_at_simps [simp]:
  "fst (store_at r b e) = fst e" "snd (snd (store_at r b e)) = snd (snd e)" "fst \<circ> store_at r b = fst"
  by (auto simp: store_at_def)

definition board_store :: "resource_key \<Rightarrow> circuit_breaker \<Rightarrow> board_state \<Rightarrow> board_state" where
  "board_store resource b g =
     g\<lparr>board_map := map (store_at resource b) (board_map g)\<rparr>"

definition board_allow ::
    "resource_key \<Rightarrow> int \<Rightarrow> board_state \<Rightarrow> (breaker_status + unit) \<times> board_state" where
  "board_allow resource now_ms g =
     (case board_breaker resource g of (b, g) \<Rightarrow>
      case breaker_allow now_ms b of (r, b') \<Rightarrow> (r, board_store resource b' g))"

definition board_open :: "resource_key \<Rightarrow> int \<Rightarrow> board_state \<Rightarrow> board_state" where
  "board_open resource now_ms g =
     (case board_breaker resource g of (b, g) \<Rightarrow> board_store resource (breaker_open now_ms b) g)"

definition board_record_success :: "resource_key \<Rightarrow> board_state \<Rightarrow> board_state" where
  "board_record_success resource g =
     (case board_breaker resource g of (b, g) \<Rightarrow> board_store resource (record_success b) g)"

definition board_record_failure :: "resource_key \<Rightarrow> int \<Rightarrow> board_state \<Rightarrow> board_state" where
  "board_record_failure resource now_ms g =
     (case board_breaker resource g of (b, g) \<Rightarrow> board_store resource (record_failure now_ms b) g)"

definition board_get_state :: "resource_key \<Rightarrow> board_state \<Rightarrow> circuit_state \<times> board_state" where
  "board_get_state resource g = (case board_breaker resource g of (b, g) \<Rightarrow> (br_state b, g))"

definition board_len :: "board_state \<Rightarrow> nat" where
  "board_len g = length (board_map g)"

section \<open>Bounded caches\<close>

text \<open>
  The interface of a bounded cache: consulting a key makes it present, never brings in another
  key, and never exceeds the capacity.
\<close>

locale bounded_cache =
  fixes keys :: "'s \<Rightarrow> 'k set"
    and cap :: "'s \<Rightarrow> nat"
    and consult :: "'k \<Rightarrow> 's \<Rightarrow> 's"
    and ok :: "'s \<Rightarrow> bool"
  assumes consult_ok: "ok s \<Longrightarrow> ok (consult k s)"
    and consult_cap: "cap (consult k s) = cap s"
    and consult_in: "k \<in> keys (consult k s)"
    and consult_sub: "keys (consult k s) \<subseteq> insert k (keys s)"
    and ok_bound: "ok s \<Longrightarrow> finite (keys s) \<and> card (keys s) \<le> cap s"
begin

lemma consults_ok: "ok s \<Longrightarrow> ok (fold consult ks s) \<and> cap (fold consult ks s) = cap s"
  by (induction ks arbitrary: s) (auto simp: consult_ok consult_cap)

lemma consults_bounded: "ok s \<Longrightarrow> card (keys (fold consult ks s)) \<le> cap s"
  using consults_ok ok_bound by metis

lemma consults_sub: "keys (fold consult ks s) \<subseteq> keys s \<union> set ks"
  by (induction ks arbitrary: s) (use consult_sub in fastforce)+

end

definition touch :: "resource_key \<Rightarrow> board_state \<Rightarrow> board_state" where
  "touch k g = snd (board_breaker k g)"

definition board_keys :: "board_state \<Rightarrow> resource_key set" where
  "board_keys g = fst ` set (board_map g)"

definition last_used :: "board_state \<Rightarrow> resource_key \<Rightarrow> nat option" where
  "last_used g k = map_option snd (map_of (board_map g) k)"

definition board_ok :: "board_state \<Rightarrow> bool" where
  "board_ok g \<longleftrightarrow> 1 \<le> max_keys g \<and> length (board_map g) \<le> max_keys g \<and> distinct (map fst (board_map g))
     \<and> (\<forall>e \<in> set (board_map g). snd (snd e) \<le> tick g)"

lemma lru_victim_None [simp]: "lru_victim m = None \<longleftrightarrow> m = []"
  by (cases m rule: lru_victim.cases) (auto split: option.splits)

lemma lru_victim_least:
  "lru_victim m = Some (k, u) \<Longrightarrow> (\<exists>b. (k, (b, u)) \<in> set m) \<and> (\<forall>e \<in> set m. u \<le> snd (snd e))"
proof (induction m arbitrary: k u rule: lru_victim.induct)
  case (2 k' b' u' rest)
  then show ?case
    by (cases "lru_victim rest") (fastforce split: if_splits)+
qed simp

lemma length_remove_key:
  "distinct (map fst m) \<Longrightarrow> k \<in> fst ` set m \<Longrightarrow> length (remove_key k m) = length m - 1"
proof (induction m)
  case (Cons e m)
  show ?case
  proof (cases "fst e = k")
    case True
    then have "filter (\<lambda>e. fst e \<noteq> k) m = m" using Cons.prems by (intro filter_True ballI) (auto simp: image_iff)
    with True show ?thesis by (simp add: remove_key_def)
  next
    case False
    then have "k \<in> fst ` set m" using Cons.prems by auto
    moreover from this have "m \<noteq> []" by auto
    ultimately show ?thesis using Cons False by (auto simp: remove_key_def)
  qed
qed simp

lemma evict_facts:
  assumes "distinct (map fst (board_map g))" and "length (board_map g) \<le> max_keys g" and "1 \<le> max_keys g"
  shows "length (evict g) < max_keys g" and "set (evict g) \<subseteq> set (board_map g)"
    and "distinct (map fst (evict g))"
proof -
  show "set (evict g) \<subseteq> set (board_map g)" "distinct (map fst (evict g))"
    using assms(1) by (auto simp: evict_def remove_key_def distinct_map_filter split: option.splits)
  show "length (evict g) < max_keys g"
  proof (cases "length (board_map g) \<ge> max_keys g")
    case True
    then obtain k u where v: "lru_victim (board_map g) = Some (k, u)"
      using assms(3) by (cases "lru_victim (board_map g)") auto
    then have "k \<in> fst ` set (board_map g)" using lru_victim_least by force
    with v True assms show ?thesis by (simp add: evict_def length_remove_key)
  qed (simp add: evict_def)
qed

lemma board_breaker_new:
  "map_of (board_map g) k = None \<Longrightarrow>
   touch k g = g\<lparr>tick := tick g + 1,
     board_map := (k, (breaker_new DEFAULT_BREAKER_FAILURE_THRESHOLD DEFAULT_BREAKER_COOLDOWN_MS, tick g + 1)) # evict g\<rparr>"
  by (auto simp: touch_def board_breaker_def Let_def evict_def split: option.splits)

lemma board_breaker_old:
  "map_of (board_map g) k = Some (b, u) \<Longrightarrow>
   touch k g = g\<lparr>tick := tick g + 1,
     board_map := map (replace_at k (b, tick g + 1)) (board_map g)\<rparr>"
  by (simp add: touch_def board_breaker_def Let_def)

lemma touch_ok: "board_ok g \<Longrightarrow> board_ok (touch k g)"
proof (cases "map_of (board_map g) k")
  case None
  assume ok: "board_ok g"
  then have ev: "length (evict g) < max_keys g" "set (evict g) \<subseteq> set (board_map g)" "distinct (map fst (evict g))"
    using evict_facts [of g] by (auto simp: board_ok_def)
  moreover have "k \<notin> fst ` set (board_map g)" using None by (simp add: map_of_eq_None_iff)
  ultimately show ?thesis
    using ok unfolding board_breaker_new [OF None] board_ok_def
    by (auto intro: le_SucI)
next
  case (Some bu)
  obtain b u where "bu = (b, u)" by (cases bu)
  moreover assume "board_ok g"
  ultimately show ?thesis
    using board_breaker_old [of g k b u] Some
    by (auto simp: board_ok_def replace_at_def intro: le_SucI)
qed

interpretation board_cache: bounded_cache board_keys max_keys touch board_ok
proof unfold_locales
  fix s :: board_state and k
  show "board_ok s \<Longrightarrow> board_ok (touch k s)" by (rule touch_ok)
  show "max_keys (touch k s) = max_keys s"
    by (auto simp: touch_def board_breaker_def Let_def split: option.splits)
  show "board_ok s \<Longrightarrow> finite (board_keys s) \<and> card (board_keys s) \<le> max_keys s"
    by (metis List.finite_set board_keys_def board_ok_def card_length finite_imageI le_trans
        length_map list.set_map)
  show "k \<in> board_keys (touch k s)"
  proof (cases "map_of (board_map s) k")
    case None
    then show ?thesis by (simp add: board_breaker_new board_keys_def)
  next
    case (Some bu)
    then have "k \<in> fst ` set (board_map s)" by (auto dest: map_of_SomeD intro: rev_image_eqI)
    moreover obtain b u where "bu = (b, u)" by (cases bu)
    ultimately show ?thesis
      using board_breaker_old [of s k b u] Some by (simp add: board_keys_def image_image)
  qed
  show "board_keys (touch k s) \<subseteq> insert k (board_keys s)"
  proof (cases "map_of (board_map s) k")
    case None
    then show ?thesis
      by (auto simp: board_breaker_new board_keys_def evict_def remove_key_def split: option.splits if_splits)
  next
    case (Some bu)
    obtain b u where "bu = (b, u)" by (cases bu)
    then show ?thesis
      using board_breaker_old [of s k b u] Some by (simp add: board_keys_def image_image subset_insertI)
  qed
qed

section \<open>A cached breaker sees exactly its own outcomes\<close>

datatype board_op =
  Do_Allow resource_key int | Do_Open resource_key int | Do_Success resource_key | Do_Failure resource_key int

fun op_key :: "board_op \<Rightarrow> resource_key" where
  "op_key (Do_Allow k _) = k"
| "op_key (Do_Open k _) = k"
| "op_key (Do_Success k) = k"
| "op_key (Do_Failure k _) = k"

fun op_effect :: "board_op \<Rightarrow> circuit_breaker \<Rightarrow> circuit_breaker" where
  "op_effect (Do_Allow _ now) b = snd (breaker_allow now b)"
| "op_effect (Do_Open _ now) b = breaker_open now b"
| "op_effect (Do_Success _) b = record_success b"
| "op_effect (Do_Failure _ now) b = record_failure now b"

fun run_op :: "board_op \<Rightarrow> board_state \<Rightarrow> board_state" where
  "run_op (Do_Allow k now) g = snd (board_allow k now g)"
| "run_op (Do_Open k now) g = board_open k now g"
| "run_op (Do_Success k) g = board_record_success k g"
| "run_op (Do_Failure k now) g = board_record_failure k now g"

definition board_get :: "board_state \<Rightarrow> resource_key \<Rightarrow> circuit_breaker option" where
  "board_get g k = map_option fst (map_of (board_map g) k)"

lemma run_op_eq:
  "run_op op g = board_store (op_key op) (op_effect op (fst (board_breaker (op_key op) g))) (touch (op_key op) g)"
  by (cases op) (auto simp: touch_def board_allow_def board_open_def board_record_success_def
      board_record_failure_def split: prod.splits)

lemma map_of_store:
  "map_of (board_map (board_store r b g)) k =
   map_option (\<lambda>(b', u). (if k = r then b else b', u)) (map_of (board_map g) k)"
proof -
  have "map_of (map (store_at r b) m) k =
      map_option (\<lambda>(b', u). (if k = r then b else b', u)) (map_of m k)" for m
    by (induction m) (auto simp: store_at_def)
  then show ?thesis by (simp add: board_store_def)
qed

lemma board_store_ok: "board_ok g \<Longrightarrow> board_ok (board_store r b g)"
  by (simp add: board_ok_def board_store_def)

lemma last_used_store [simp]: "last_used (board_store r b g) k = last_used g k"
  by (cases "map_of (board_map g) k") (auto simp: last_used_def map_of_store)

lemma board_get_store [simp]:
  "board_get (board_store r b g) k = (if k = r \<and> board_get g k \<noteq> None then Some b else board_get g k)"
  by (cases "map_of (board_map g) k") (auto simp: board_get_def map_of_store)

lemma max_keys_store [simp]: "max_keys (board_store r b g) = max_keys g"
  by (simp add: board_store_def)

lemma last_used_None: "last_used g k = None \<longleftrightarrow> k \<notin> board_keys g"
  by (simp add: last_used_def board_keys_def map_of_eq_None_iff)

lemma board_get_None: "board_get g k = None \<longleftrightarrow> last_used g k = None"
  by (simp add: board_get_def last_used_def)

lemma map_of_replace_at:
  "map_of (map (replace_at r v) m) k = (if k = r \<and> map_of m k \<noteq> None then Some v else map_of m k)"
  by (induction m) (auto simp: replace_at_def)

lemma map_of_remove_key: "map_of (remove_key v m) k = (if k = v then None else map_of m k)"
  by (induction m) (auto simp: remove_key_def)

lemma map_of_touch:
  assumes "k \<noteq> r"
  shows "map_of (board_map (touch r g)) k = map_of (board_map g) k \<or>
    (map_of (board_map g) r = None \<and> length (board_map g) \<ge> max_keys g \<and>
     (\<exists>u. lru_victim (board_map g) = Some (k, u)))"
proof (cases "map_of (board_map g) r")
  case None
  with assms show ?thesis
    by (auto simp: board_breaker_new evict_def map_of_remove_key split: option.splits)
next
  case (Some bu)
  obtain b u where "bu = (b, u)" by (cases bu)
  with Some assms show ?thesis by (simp add: board_breaker_old map_of_replace_at)
qed

lemma map_of_touch_self:
  "map_of (board_map (touch r g)) r = Some (fst (board_breaker r g), tick g + 1)"
proof (cases "map_of (board_map g) r")
  case None
  then show ?thesis by (simp add: board_breaker_new) (simp add: board_breaker_def Let_def)
next
  case (Some bu)
  obtain b u where bu: "bu = (b, u)" by (cases bu)
  with Some have "fst (board_breaker r g) = b" by (simp add: board_breaker_def Let_def)
  with Some bu show ?thesis by (simp add: board_breaker_old map_of_replace_at)
qed

lemma board_breaker_cached: "board_get g r = Some b \<Longrightarrow> fst (board_breaker r g) = b"
  by (auto simp: board_get_def board_breaker_def Let_def)

text \<open>
  \<open>S\<close> holds every other key consulted since \<open>k\<close> was. While \<open>S\<close> has fewer members than the board
  has slots, \<open>k\<close> is never the victim.
\<close>

definition recent :: "resource_key \<Rightarrow> resource_key set \<Rightarrow> board_state \<Rightarrow> bool" where
  "recent k S g \<longleftrightarrow> board_ok g \<and> (\<exists>u. last_used g k = Some u \<and>
     (\<forall>k' u'. k' \<noteq> k \<longrightarrow> last_used g k' = Some u' \<longrightarrow> u \<le> u' \<longrightarrow> k' \<in> S))"

lemma recent_mono: "recent k S g \<Longrightarrow> S \<subseteq> T \<Longrightarrow> recent k T g"
  unfolding recent_def by blast

lemma last_used_le_tick: "board_ok g \<Longrightarrow> last_used g k = Some u \<Longrightarrow> u \<le> tick g"
  by (auto simp: last_used_def board_ok_def dest!: map_of_SomeD)

lemma recent_not_victim:
  assumes "recent k S g" and "finite S" and "r \<notin> board_keys g" and "length (board_map g) \<ge> max_keys g"
    and "card (insert r S - {k}) < max_keys g"
  shows "lru_victim (board_map g) \<noteq> Some (k, u)"
proof
  assume v: "lru_victim (board_map g) = Some (k, u)"
  have ok: "board_ok g" using assms(1) by (simp add: recent_def)
  then have dist: "distinct (map fst (board_map g))" by (simp add: board_ok_def)
  have k: "last_used g k = Some u"
    using lru_victim_least [OF v] dist by (auto simp: last_used_def)
  have "board_keys g - {k} \<subseteq> S"
  proof
    fix k' assume k': "k' \<in> board_keys g - {k}"
    then obtain u' where u': "last_used g k' = Some u'" using last_used_None by blast
    then have "u \<le> u'" using lru_victim_least [OF v] by (auto simp: last_used_def dest!: map_of_SomeD)
    with u' k' k assms(1) show "k' \<in> S" by (auto simp: recent_def)
  qed
  moreover have kin: "k \<in> board_keys g" using k last_used_None [of g k] by auto
  ultimately have "insert r (board_keys g - {k}) \<subseteq> insert r S - {k}" using assms(3) by auto
  then have "card (insert r (board_keys g - {k})) \<le> card (insert r S - {k})"
    by (rule card_mono [rotated]) (simp add: assms(2))
  moreover have "card (board_keys g) = length (board_map g)"
    unfolding board_keys_def using distinct_card [OF dist] by simp
  moreover have fin: "finite (board_keys g)" by (simp add: board_keys_def)
  ultimately show False
    using assms(3,4,5) kin by (simp add: card_Diff_singleton)
qed

lemma touch_others: "last_used (touch r g) k' = Some u' \<Longrightarrow> k' \<noteq> r \<Longrightarrow> last_used g k' = Some u'"
  using map_of_touch [of k' r g] evict_facts(2) board_breaker_new [of g r]
  by (auto simp: last_used_def evict_def map_of_remove_key split: option.splits if_splits)

lemma recent_touch:
  assumes "board_ok g"
  shows "recent r {} (touch r g)"
proof -
  have "last_used (touch r g) r = Some (tick g + 1)"
    by (simp add: last_used_def map_of_touch_self)
  moreover have "k' = r" if "last_used (touch r g) k' = Some u'" "tick g + 1 \<le> u'" for k' u'
    using touch_others [OF that(1)] last_used_le_tick [OF assms, of k' u'] that(2) by fastforce
  ultimately show ?thesis using touch_ok [OF assms] by (auto simp: recent_def)
qed

lemma recent_step:
  assumes "recent k S g" and "finite S" and "card (insert r S - {k}) < max_keys g"
  shows "recent k (insert r S) (touch r g)" and "k \<noteq> r \<Longrightarrow> board_get (touch r g) k = board_get g k"
proof -
  have ok: "board_ok g" using assms(1) by (simp add: recent_def)
  obtain u where u: "last_used g k = Some u"
    "\<And>k' u'. k' \<noteq> k \<Longrightarrow> last_used g k' = Some u' \<Longrightarrow> u \<le> u' \<Longrightarrow> k' \<in> S"
    using assms(1) by (auto simp: recent_def)
  have keep: "map_of (board_map (touch r g)) k = map_of (board_map g) k" if "k \<noteq> r"
    using map_of_touch [OF that, of g] recent_not_victim [OF assms(1,2) _ _ assms(3)]
    by (auto simp: board_keys_def map_of_eq_None_iff)
  show "k \<noteq> r \<Longrightarrow> board_get (touch r g) k = board_get g k"
    using keep by (simp add: board_get_def)
  show "recent k (insert r S) (touch r g)"
  proof (cases "k = r")
    case True
    then show ?thesis using recent_mono [OF recent_touch [OF ok, of r]] by simp
  next
    case False
    then have "last_used (touch r g) k = Some u" using keep u(1) by (simp add: last_used_def)
    moreover have "k' \<in> insert r S" if "k' \<noteq> k" "last_used (touch r g) k' = Some u'" "u \<le> u'" for k' u'
      using touch_others [OF that(2)] u(2) [OF that(1) _ that(3)] by blast
    ultimately show ?thesis using touch_ok [OF ok] unfolding recent_def by blast
  qed
qed

lemma run_op_recent:
  assumes "recent k S g" and "finite S" and "card (insert (op_key op) S - {k}) < max_keys g"
  shows "recent k (insert (op_key op) S) (run_op op g)"
    and "max_keys (run_op op g) = max_keys g"
    and "board_get g k = Some b \<Longrightarrow>
      board_get (run_op op g) k = Some (if op_key op = k then op_effect op b else b)"
proof -
  note step = recent_step [OF assms]
  show "recent k (insert (op_key op) S) (run_op op g)"
    using step(1) by (simp add: run_op_eq recent_def board_store_ok)
  show "max_keys (run_op op g) = max_keys g"
    by (simp add: run_op_eq board_cache.consult_cap)
  assume b: "board_get g k = Some b"
  show "board_get (run_op op g) k = Some (if op_key op = k then op_effect op b else b)"
  proof (cases "op_key op = k")
    case True
    with b show ?thesis
      by (simp add: run_op_eq board_breaker_cached) (simp add: board_get_def map_of_touch_self)
  next
    case False
    with b step(2) show ?thesis by (auto simp: run_op_eq)
  qed
qed

lemma run_ops_own:
  assumes "recent k S g" and "finite S" and "card (set (map op_key ops) \<union> S - {k}) < max_keys g"
    and "board_get g k = Some b"
  shows "board_get (fold run_op ops g) k = Some (fold op_effect (filter (\<lambda>op. op_key op = k) ops) b)"
  using assms
proof (induction ops arbitrary: S g b)
  case (Cons op ops)
  have fin: "finite (set (map op_key (op # ops)) \<union> S - {k})" using Cons.prems(2) by simp
  have "card (insert (op_key op) S - {k}) \<le> card (set (map op_key (op # ops)) \<union> S - {k})"
    by (rule card_mono [OF fin]) auto
  then have lt: "card (insert (op_key op) S - {k}) < max_keys g" using Cons.prems(3) by simp
  note step = run_op_recent [OF Cons.prems(1,2) lt]
  have "set (map op_key ops) \<union> insert (op_key op) S = set (map op_key (op # ops)) \<union> S" by auto
  with Cons.IH [OF step(1)] step(2) step(3) [OF Cons.prems(4)] Cons.prems(2,3) show ?case
    by (simp split: if_splits)
qed simp

section \<open>What the breakers guarantee\<close>

text \<open>
  The breaker counts the streak of failures: after any sequence of recorded outcomes, a new
  breaker is open exactly when the number of failures since the last success has reached its
  threshold (at least one), and closed otherwise. The 32-bit counter does not wrap into a wrong
  verdict.
\<close>

theorem breaker_opens_at_threshold:
  assumes "threshold \<le> u32_max"
  shows "br_state (fold record_outcome outcomes (breaker_new threshold cooldown)) =
    (if streak outcomes < max threshold 1 then Circuit_Closed else Circuit_Open)"
  using streak_rel_run [OF _ _ streak_rel_new, of threshold outcomes cooldown] assms
  by (auto simp: streak_rel_def streak_def width_simps split: if_splits)

theorem breaker_opens_at_threshold_witness:
  "br_state (fold record_outcome [Failed_At 1, Succeeded_At, Failed_At 2, Failed_At 3] (breaker_new 2 50)) = Circuit_Open"
  using breaker_opens_at_threshold [of 2 "[Failed_At 1, Succeeded_At, Failed_At 2, Failed_At 3]" 50]
  by (simp add: width_simps streak_def)

text \<open>
  C8. An open breaker whose cooldown has passed admits one probe: however many callers run
  \<open>allow\<close> concurrently and however their loads and compare-exchanges interleave, at most one of
  them is granted, and when one is granted the breaker is half-open.
\<close>

theorem one_probe_admitted:
  assumes "br_state b = Circuit_Open" and "allow_step\<^sup>*\<^sup>* (b, replicate n PC_Load) (b', pcs)"
  shows "count_list pcs PC_Granted \<le> 1 \<and> (count_list pcs PC_Granted = 1 \<longleftrightarrow> br_state b' = Circuit_HalfOpen)"
proof -
  have "count_list (replicate n PC_Load) PC_Granted = 0" by (induction n) auto
  then have "probe_inv (b, replicate n PC_Load)" using assms(1) by (simp add: probe_inv_def)
  then have "probe_inv (b', pcs)" using probe_inv_run [OF assms(2)] by blast
  then show ?thesis by (auto simp: probe_inv_def)
qed

definition opened :: circuit_breaker where
  "opened = breaker_open 0 (breaker_new 1 10)"

lemma two_callers:
  "allow_step\<^sup>*\<^sup>* (opened, replicate 2 PC_Load) (opened\<lparr>br_state := Circuit_HalfOpen\<rparr>, [PC_Granted, PC_Cas])"
proof -
  have o: "br_state opened = Circuit_Open" "\<not> in_cooldown opened 20"
    by (simp_all add: opened_def breaker_open_def breaker_new_def in_cooldown_def sat_i64_def u64_as_i64_def width_simps)
  note rt = rtranclp.rtrancl_into_rtrancl
  have "allow_step\<^sup>*\<^sup>* (opened, [PC_Load, PC_Load]) (opened, [PC_Cooldown, PC_Load])"
    using allow_step.load_open [of 0 "[PC_Load, PC_Load]" opened] o by (simp add: r_into_rtranclp)
  from rt [OF this, of "(opened, [PC_Cooldown, PC_Cooldown])"]
  have "allow_step\<^sup>*\<^sup>* (opened, [PC_Load, PC_Load]) (opened, [PC_Cooldown, PC_Cooldown])"
    using allow_step.load_open [of 1 "[PC_Cooldown, PC_Load]" opened] o by simp
  from rt [OF this, of "(opened, [PC_Cas, PC_Cooldown])"]
  have "allow_step\<^sup>*\<^sup>* (opened, [PC_Load, PC_Load]) (opened, [PC_Cas, PC_Cooldown])"
    using allow_step.cool_pass [of 0 "[PC_Cooldown, PC_Cooldown]" opened 20] o by simp
  from rt [OF this, of "(opened, [PC_Cas, PC_Cas])"]
  have "allow_step\<^sup>*\<^sup>* (opened, [PC_Load, PC_Load]) (opened, [PC_Cas, PC_Cas])"
    using allow_step.cool_pass [of 1 "[PC_Cas, PC_Cooldown]" opened 20] o by simp
  from rt [OF this, of "(opened\<lparr>br_state := Circuit_HalfOpen\<rparr>, [PC_Granted, PC_Cas])"]
  show ?thesis using allow_step.cas_win [of 0 "[PC_Cas, PC_Cas]" opened] o by (simp add: numeral_2_eq_2)
qed

theorem one_probe_admitted_witness:
  "count_list [PC_Granted, PC_Cas] PC_Granted \<le> 1 \<and>
   (count_list [PC_Granted, PC_Cas] PC_Granted = 1 \<longleftrightarrow>
    br_state (opened\<lparr>br_state := Circuit_HalfOpen\<rparr>) = Circuit_HalfOpen)"
  by (rule one_probe_admitted [OF _ two_callers]) (simp add: opened_def breaker_open_def)

text \<open>
  The board never loses the history of a resource that is in use: from the moment a key is
  consulted, as long as fewer other keys than the capacity of the board are consulted, its breaker has seen
  exactly the operations addressed to that key, in order; operations on other keys do not touch it
  and eviction does not forget it.
\<close>

theorem board_keeps_own_history:
  assumes "board_ok g" and "card (set (map op_key ops) - {op_key op}) < max_keys g"
    and "board_get (run_op op g) (op_key op) = Some b"
  shows "board_get (fold run_op ops (run_op op g)) (op_key op) =
    Some (fold op_effect (filter (\<lambda>o'. op_key o' = op_key op) ops) b)"
proof (rule run_ops_own [OF _ _ _ assms(3)])
  show "recent (op_key op) {} (run_op op g)"
    using recent_touch [OF assms(1), of "op_key op"] by (simp add: run_op_eq recent_def board_store_ok)
  show "card (set (map op_key ops) \<union> {} - {op_key op}) < max_keys (run_op op g)"
    using assms(2) by (simp add: run_op_eq board_cache.consult_cap)
qed simp

definition two_outcomes :: "board_op list" where
  "two_outcomes = [Do_Failure (Key_Mcp ''b'') 2, Do_Failure (Key_Tool ''a'') 3]"

theorem board_keeps_own_history_witness:
  "board_get (fold run_op two_outcomes (run_op (Do_Failure (Key_Tool ''a'') 1) (with_max_keys 2))) (Key_Tool ''a'') =
     Some (fold op_effect [Do_Failure (Key_Tool ''a'') 3] (record_failure 1 (breaker_new 4 5000)))"
proof -
  have "board_get (fold run_op two_outcomes (run_op (Do_Failure (Key_Tool ''a'') 1) (with_max_keys 2)))
      (op_key (Do_Failure (Key_Tool ''a'') 1)) =
    Some (fold op_effect (filter (\<lambda>o'. op_key o' = op_key (Do_Failure (Key_Tool ''a'') 1)) two_outcomes)
      (record_failure 1 (breaker_new 4 5000)))"
  proof (rule board_keeps_own_history)
    show "board_ok (with_max_keys 2)" by (simp add: board_ok_def with_max_keys_def)
    show "card (set (map op_key two_outcomes) - {op_key (Do_Failure (Key_Tool ''a'') 1)}) < max_keys (with_max_keys 2)"
      by (simp add: two_outcomes_def with_max_keys_def)
    show "board_get (run_op (Do_Failure (Key_Tool ''a'') 1) (with_max_keys 2)) (op_key (Do_Failure (Key_Tool ''a'') 1)) =
        Some (record_failure 1 (breaker_new 4 5000))"
      by (simp add: board_record_failure_def board_breaker_def with_max_keys_def evict_def board_store_def store_at_def
          board_get_def Let_def DEFAULT_BREAKER_FAILURE_THRESHOLD_def DEFAULT_BREAKER_COOLDOWN_MS_def)
  qed
  then show ?thesis by (simp add: two_outcomes_def)
qed

end
