(* ===== verification/Execute_Loop.thy ===== *)
theory Execute_Loop
  imports Scheduler_Graph Circuit_Breaker
begin

text \<open>
  The execution loop of one operation (\<open>Scheduler::execute\<close> and \<open>execute_inner\<close> of
  \<open>crates/scheduler/src/lib.rs\<close>): the checks before an attempt, the attempt, its outcome, the retry
  backoff that gives the permit back, and the breaker of the resource.

  What the loop observes from outside is an \<open>attempt_env\<close> per iteration: the clock, the state of
  the cancellation token before and after the run, how the run ended and how the two waits ended
  (\<open>tokio::select!\<close>). The loop is a recursion over the list of these observations; \<^term>\<open>None\<close> means
  that the observations end while the operation still runs. The effects on the scheduler are the
  list of events, in order: the permit given back and taken again, and the outcome mark.
\<close>

section \<open>The loop\<close>

datatype run_outcome = Run_Ok | Run_Err error_kind bool string | Run_Elapsed

datatype wait_outcome = Wait_Ready | Wait_Cancelled | Wait_DeadlineExceeded

record attempt_env =
  ae_now :: int
  ae_cancelled :: bool
  ae_run :: run_outcome
  ae_cancelled_after :: bool
  ae_end_now :: int
  ae_backoff :: wait_outcome
  ae_admit :: wait_outcome

datatype execute_error = Exec_Err error_kind string | Exec_Busy resource_class

datatype exec_event = Ev_Release | Ev_Reacquire | Ev_Mark task_status "string option"

record exec_outcome =
  eo_result :: "execute_error + unit"
  eo_events :: "exec_event list"
  eo_breaker :: "circuit_breaker option"

record exec_state =
  ex_attempt :: nat
  ex_events :: "exec_event list"
  ex_breaker :: "circuit_breaker option"

definition finish :: "exec_state \<Rightarrow> task_status \<Rightarrow> string option \<Rightarrow> execute_error + unit \<Rightarrow> exec_outcome" where
  "finish st status err res =
     \<lparr>eo_result = res, eo_events = ex_events st @ [Ev_Mark status err], eo_breaker = ex_breaker st\<rparr>"

definition cancelled_exit :: "exec_state \<Rightarrow> exec_outcome" where
  "cancelled_exit st = finish st Sched_Cancelled None (Inr ())"

definition deadline_exit :: "string \<Rightarrow> exec_state \<Rightarrow> exec_outcome" where
  "deadline_exit op_text st =
     (let msg = ''op '' @ op_text @ '' deadline exceeded''
      in finish st Sched_Failed (Some msg) (Inl (Exec_Err Timeout msg)))"

definition breaker_admits :: "int \<Rightarrow> circuit_breaker option \<Rightarrow> bool \<times> circuit_breaker option" where
  "breaker_admits now br =
     (case br of
        None \<Rightarrow> (True, None)
      | Some b \<Rightarrow> (case breaker_allow now b of (r, b') \<Rightarrow> (r = Inr (), Some b')))"

text \<open>The two waits after a retryable failure.\<close>

definition after_failure :: "string \<Rightarrow> attempt_env \<Rightarrow> exec_state \<Rightarrow> exec_outcome + exec_state" where
  "after_failure op_text e st =
     (let st = st\<lparr>ex_events := ex_events st @ [Ev_Release]\<rparr>
      in case ae_backoff e of
           Wait_Cancelled \<Rightarrow> Inl (cancelled_exit st)
         | Wait_DeadlineExceeded \<Rightarrow> Inl (deadline_exit op_text st)
         | Wait_Ready \<Rightarrow>
             (case ae_admit e of
                Wait_Cancelled \<Rightarrow> Inl (cancelled_exit st)
              | Wait_DeadlineExceeded \<Rightarrow> Inl (deadline_exit op_text st)
              | Wait_Ready \<Rightarrow> Inr (st\<lparr>ex_events := ex_events st @ [Ev_Reacquire]\<rparr>)))"

definition run_attempt :: "string \<Rightarrow> retry_policy \<Rightarrow> attempt_env \<Rightarrow> exec_state \<Rightarrow> exec_outcome + exec_state" where
  "run_attempt op_text policy e st =
     (case ae_run e of
        Run_Ok \<Rightarrow>
          if ae_cancelled_after e then Inl (cancelled_exit st)
          else Inl (finish (st\<lparr>ex_breaker := map_option record_success (ex_breaker st)\<rparr>) Sched_Done None (Inr ()))
      | Run_Err kind retryable message \<Rightarrow>
          if ae_cancelled_after e then Inl (cancelled_exit st)
          else
            (let st = st\<lparr>ex_attempt := ex_attempt st + 1,
                         ex_breaker := map_option (record_failure (ae_end_now e)) (ex_breaker st)\<rparr>
             in if retryable \<and> should_retry policy (ex_attempt st - 1) True False
                then after_failure op_text e st
                else Inl (finish st Sched_Failed (Some message) (Inl (Exec_Err kind message))))
      | Run_Elapsed \<Rightarrow>
          Inl (deadline_exit op_text
                (st\<lparr>ex_breaker := map_option (record_failure (ae_end_now e)) (ex_breaker st)\<rparr>)))"

definition execute_attempt ::
    "string \<Rightarrow> retry_policy \<Rightarrow> int \<Rightarrow> attempt_env \<Rightarrow> exec_state \<Rightarrow> exec_outcome + exec_state" where
  "execute_attempt op_text policy deadline e st =
     (if ae_cancelled e then Inl (cancelled_exit st)
      else if is_expired deadline (ae_now e) then Inl (deadline_exit op_text st)
      else
        (case breaker_admits (ae_now e) (ex_breaker st) of (admitted, br) \<Rightarrow>
           if \<not> admitted then
             (let msg = ''circuit open for this resource, not attempting''
              in Inl (finish (st\<lparr>ex_breaker := br\<rparr>) Sched_Failed (Some msg) (Inl (Exec_Err Internal msg))))
           else run_attempt op_text policy e (st\<lparr>ex_breaker := br\<rparr>)))"

fun execute_inner ::
    "string \<Rightarrow> retry_policy \<Rightarrow> int \<Rightarrow> attempt_env list \<Rightarrow> exec_state \<Rightarrow> exec_outcome option" where
  "execute_inner op_text policy deadline [] st = None"
| "execute_inner op_text policy deadline (e # es) st =
     (case execute_attempt op_text policy deadline e st of
        Inl out \<Rightarrow> Some out
      | Inr st' \<Rightarrow> execute_inner op_text policy deadline es st')"

definition exec_start :: "circuit_breaker option \<Rightarrow> exec_state" where
  "exec_start br = \<lparr>ex_attempt = 0, ex_events = [], ex_breaker = br\<rparr>"

text \<open>
  \<open>execute\<close>: the terminal guard, the permit, the breaker of the resource and the loop. Without
  interference from other operations, the events act on the scheduler one after the other; the
  permit is returned at the end when it is still held (\<open>GaugeLease::finish\<close>). A wait for a permit
  that other operations delay is a \<open>reacquire\<close> step of the scheduler system.
\<close>

definition execute_admission ::
    "resource_limits \<Rightarrow> string \<Rightarrow> op_id \<Rightarrow> resource_class \<Rightarrow> sched_inner \<Rightarrow> execute_error + sched_inner" where
  "execute_admission limits op_text oid class g =
     (if (case task_status_of g oid of None \<Rightarrow> False | Some s \<Rightarrow> status_is_terminal s)
      then Inl (Exec_Err Conflict
             (''op '' @ op_text @ '' is already terminal; refusing to execute a second terminal event''))
      else
        (case try_acquire class limits (gauge g) of
           Inl _ \<Rightarrow> Inl (Exec_Busy class)
         | Inr ga \<Rightarrow> Inr (g\<lparr>gauge := ga\<rparr>)))"

fun apply_event ::
    "resource_limits \<Rightarrow> op_id \<Rightarrow> resource_class \<Rightarrow> int \<Rightarrow> exec_event \<Rightarrow> sched_inner \<times> bool
     \<Rightarrow> (sched_inner \<times> bool) option" where
  "apply_event limits oid class now Ev_Release (g, armed) =
     (if armed then map_option (\<lambda>ga. (g\<lparr>gauge := ga\<rparr>, False)) (gauge_release class (gauge g))
      else Some (g, armed))"
| "apply_event limits oid class now Ev_Reacquire (g, armed) =
     (case try_acquire class limits (gauge g) of
        Inl _ \<Rightarrow> None
      | Inr ga \<Rightarrow> Some (g\<lparr>gauge := ga\<rparr>, True))"
| "apply_event limits oid class now (Ev_Mark status err) (g, armed) =
     Some (mark oid status err now g, armed)"

fun apply_events ::
    "resource_limits \<Rightarrow> op_id \<Rightarrow> resource_class \<Rightarrow> int \<Rightarrow> exec_event list \<Rightarrow> sched_inner \<times> bool
     \<Rightarrow> (sched_inner \<times> bool) option" where
  "apply_events limits oid class now [] s = Some s"
| "apply_events limits oid class now (ev # evs) s =
     Option.bind (apply_event limits oid class now ev s) (apply_events limits oid class now evs)"

definition permit_finish :: "resource_class \<Rightarrow> sched_inner \<times> bool \<Rightarrow> sched_inner option" where
  "permit_finish class s =
     (if snd s then map_option (\<lambda>ga. (fst s)\<lparr>gauge := ga\<rparr>) (gauge_release class (gauge (fst s)))
      else Some (fst s))"

definition execute ::
    "resource_limits \<Rightarrow> string \<Rightarrow> op_id \<Rightarrow> resource_class \<Rightarrow> retry_policy \<Rightarrow> int \<Rightarrow> resource_key \<Rightarrow> int
     \<Rightarrow> attempt_env list \<Rightarrow> sched_inner \<times> board_state
     \<Rightarrow> ((execute_error + unit) \<times> sched_inner \<times> board_state) option" where
  "execute limits op_text oid class policy deadline resource now es s =
     (case s of (g, board) \<Rightarrow>
        (case execute_admission limits op_text oid class g of
           Inl err \<Rightarrow> Some (Inl err, g, board)
         | Inr g1 \<Rightarrow>
             (case board_breaker resource board of (b, board1) \<Rightarrow>
                Option.bind (execute_inner op_text policy deadline es (exec_start (Some b))) (\<lambda>out.
                Option.bind (apply_events limits oid class now (eo_events out) (g1, True)) (\<lambda>s2.
                Option.bind (permit_finish class s2) (\<lambda>g3.
                Some (eo_result out, g3,
                  (case eo_breaker out of None \<Rightarrow> board1 | Some b' \<Rightarrow> board_store resource b' board1))))))))"

section \<open>The loop ends within the retry budget\<close>

lemma execute_attempt_retries:
  assumes "execute_attempt op_text policy deadline e st = Inr st'"
  shows "ex_attempt st' = ex_attempt st + 1 \<and> ex_events st' = ex_events st @ [Ev_Release, Ev_Reacquire]
    \<and> should_retry policy (ex_attempt st) True False"
  using assms
  by (auto simp: execute_attempt_def run_attempt_def after_failure_def Let_def
      split: if_splits prod.splits run_outcome.splits wait_outcome.splits)

lemma execute_inner_ends:
  assumes "rp_max_attempts policy \<le> u32_max"
    and "max 1 (rp_max_attempts policy) \<le> length es + ex_attempt st" and "es \<noteq> []"
  shows "execute_inner op_text policy deadline es st \<noteq> None"
  using assms(2,3)
proof (induction es arbitrary: st)
  case (Cons e es)
  show ?case
  proof (cases "execute_attempt op_text policy deadline e st")
    case (Inr st')
    note r = execute_attempt_retries [OF Inr]
    have "ex_attempt st + 1 < rp_max_attempts policy"
      using r should_retry_bound [of policy "ex_attempt st"] assms(1) by fastforce
    then have "es \<noteq> []" "max 1 (rp_max_attempts policy) \<le> length es + ex_attempt st'"
      using Cons.prems r by auto
    with Cons.IH Inr show ?thesis by simp
  qed simp
qed simp

section \<open>The events of one execution\<close>

text \<open>
  The specification: the permit is given back and taken again once per retry, and the outcome is
  marked exactly once, at the end, with a status that agrees with the result.
\<close>

definition verdict_ok :: "task_status \<Rightarrow> string option \<Rightarrow> execute_error + unit \<Rightarrow> bool" where
  "verdict_ok status err res \<longleftrightarrow>
     (case res of
        Inr _ \<Rightarrow> status \<in> {Sched_Done, Sched_Cancelled} \<and> err = None
      | Inl (Exec_Err k msg) \<Rightarrow> status = Sched_Failed \<and> err = Some msg
      | Inl (Exec_Busy c) \<Rightarrow> False)"

definition retries :: "nat \<Rightarrow> exec_event list" where
  "retries n = concat (replicate n [Ev_Release, Ev_Reacquire])"

definition exec_protocol :: "exec_outcome \<Rightarrow> nat \<Rightarrow> bool" where
  "exec_protocol out n \<longleftrightarrow> (\<exists>status err. verdict_ok status err (eo_result out) \<and>
     (eo_events out = retries n @ [Ev_Mark status err] \<or>
      eo_events out = retries n @ [Ev_Release, Ev_Mark status err]))"

lemma execute_attempt_exits:
  assumes "execute_attempt op_text policy deadline e st = Inl out"
  shows "\<exists>status err. verdict_ok status err (eo_result out) \<and>
     (eo_events out = ex_events st @ [Ev_Mark status err] \<or>
      eo_events out = ex_events st @ [Ev_Release, Ev_Mark status err])"
  using assms
  by (auto simp: execute_attempt_def run_attempt_def after_failure_def Let_def verdict_ok_def
      finish_def cancelled_exit_def deadline_exit_def
      split: if_splits prod.splits run_outcome.splits wait_outcome.splits)

lemma retries_Suc: "retries (Suc n) = retries n @ [Ev_Release, Ev_Reacquire]"
proof -
  have "retries n @ [Ev_Release, Ev_Reacquire] = [Ev_Release, Ev_Reacquire] @ retries n"
    by (induction n) (auto simp: retries_def)
  then show ?thesis by (simp add: retries_def)
qed

lemma execute_inner_protocol:
  assumes "execute_inner op_text policy deadline es st = Some out"
    and "ex_events st = retries (ex_attempt st)" and "rp_max_attempts policy \<le> u32_max"
    and "ex_attempt st < max 1 (rp_max_attempts policy)"
  shows "\<exists>n < max 1 (rp_max_attempts policy). exec_protocol out n"
  using assms(1,2,4)
proof (induction es arbitrary: st)
  case (Cons e es)
  show ?case
  proof (cases "execute_attempt op_text policy deadline e st")
    case (Inl o')
    then have "exec_protocol out (ex_attempt st)"
      using Cons.prems(1,2) execute_attempt_exits [OF Inl] by (simp add: exec_protocol_def)
    with Cons.prems(3) show ?thesis by blast
  next
    case (Inr st')
    note r = execute_attempt_retries [OF Inr]
    have "ex_attempt st + 1 < rp_max_attempts policy"
      using r should_retry_bound [of policy "ex_attempt st"] assms(3) by fastforce
    then show ?thesis using Cons.IH [of st'] Cons.prems(1,2) r Inr by (simp add: retries_Suc)
  qed
qed simp

section \<open>An execution returns its permit\<close>

lemma mark_frame [simp]: "gauge (mark oid status err now g) = gauge g"
  by (simp add: mark_def upd_task_def)

lemma apply_retries:
  assumes "0 < gauge_usage (gauge g) class" and "gauge_usage (gauge g) class \<le> limits_get limits class"
  shows "\<exists>ga. gauge_usage ga = gauge_usage (gauge g) \<and>
    apply_events limits oid class now (retries n @ evs) (g, True) = apply_events limits oid class now evs (g\<lparr>gauge := ga\<rparr>, True)"
  using assms
proof (induction n arbitrary: g)
  case 0
  have "g\<lparr>gauge := gauge g\<rparr> = g" by simp
  then show ?case by (intro exI [of _ "gauge g"]) (simp add: retries_def)
next
  case (Suc n)
  let ?u = "gauge_usage (gauge g) class"
  obtain m where m: "?u = Suc m" using Suc.prems(1) gr0_implies_Suc by blast
  have rel: "gauge_release class (gauge g) = Some ((gauge g)(class \<mapsto> m))" by (simp add: gauge_release_def m)
  have acq: "try_acquire class limits ((gauge g)(class \<mapsto> m)) = Inr ((gauge g)(class \<mapsto> Suc m))"
    using Suc.prems(2) m by (simp add: try_acquire_def Let_def)
  let ?g = "g\<lparr>gauge := (gauge g)(class \<mapsto> Suc m)\<rparr>"
  have same: "gauge_usage (gauge ?g) = gauge_usage (gauge g)" using m by (auto simp: fun_eq_iff)
  have "retries (Suc n) = Ev_Release # Ev_Reacquire # retries n" by (simp add: retries_def)
  then have step: "apply_events limits oid class now (retries (Suc n) @ evs) (g, True) =
      apply_events limits oid class now (retries n @ evs) (?g, True)" by (simp add: rel acq)
  obtain ga where "gauge_usage ga = gauge_usage (gauge ?g)"
    "apply_events limits oid class now (retries n @ evs) (?g, True) = apply_events limits oid class now evs (?g\<lparr>gauge := ga\<rparr>, True)"
    using Suc.IH [of ?g] Suc.prems unfolding same by blast
  with step same show ?case by (intro exI [of _ ga]) simp
qed

lemma gauge_release_usage:
  assumes "0 < gauge_usage ga class"
  shows "\<exists>ga'. gauge_release class ga = Some ga' \<and> gauge_usage ga' = (gauge_usage ga)(class := gauge_usage ga class - 1)"
  using assms gauge.release_iff gauge.release_usage by (cases "gauge_release class ga") blast+

lemma protocol_returns_permit:
  assumes "exec_protocol out n" and "0 < gauge_usage (gauge g) class"
    and "gauge_usage (gauge g) class \<le> limits_get limits class"
  shows "\<exists>g3. Option.bind (apply_events limits oid class now (eo_events out) (g, True)) (permit_finish class) = Some g3 \<and>
    gauge_usage (gauge g3) = (gauge_usage (gauge g))(class := gauge_usage (gauge g) class - 1)"
proof -
  obtain status err where ev: "eo_events out = retries n @ [Ev_Mark status err] \<or>
      eo_events out = retries n @ [Ev_Release, Ev_Mark status err]"
    using assms(1) by (auto simp: exec_protocol_def)
  have "\<exists>g3. Option.bind (apply_events limits oid class now (retries n @ evs) (g, True)) (permit_finish class) = Some g3 \<and>
    gauge_usage (gauge g3) = (gauge_usage (gauge g))(class := gauge_usage (gauge g) class - 1)"
    if evs: "evs \<in> {[Ev_Mark status err], [Ev_Release, Ev_Mark status err]}" for evs
  proof -
    obtain ga where ga: "gauge_usage ga = gauge_usage (gauge g)"
      "apply_events limits oid class now (retries n @ evs) (g, True) = apply_events limits oid class now evs (g\<lparr>gauge := ga\<rparr>, True)"
      using apply_retries [OF assms(2,3)] by blast
    obtain ga' where "gauge_release class ga = Some ga'"
      "gauge_usage ga' = (gauge_usage ga)(class := gauge_usage ga class - 1)"
      using gauge_release_usage [of ga "class"] assms(2) ga(1) by auto
    then show ?thesis using evs ga by (auto simp: permit_finish_def)
  qed
  with ev show ?thesis by auto
qed

section \<open>A cancelled probe\<close>

text \<open>
  A run that is cancelled records no outcome. When the run was the probe of a half-open breaker,
  the breaker stays half-open.
\<close>

lemma cancelled_probe:
  assumes "br_state b = Circuit_Open" and "\<not> in_cooldown b (ae_now e)"
    and "\<not> ae_cancelled e" and "\<not> is_expired deadline (ae_now e)"
    and "ae_cancelled_after e" and "ae_run e \<noteq> Run_Elapsed"
  shows "execute_inner op_text policy deadline (e # es) (exec_start (Some b)) =
    Some \<lparr>eo_result = Inr (), eo_events = [Ev_Mark Sched_Cancelled None],
      eo_breaker = Some (b\<lparr>br_state := Circuit_HalfOpen\<rparr>)\<rparr>"
  using assms
  by (auto simp: execute_attempt_def breaker_admits_def breaker_allow_def run_attempt_def exec_start_def
      cancelled_exit_def finish_def split: run_outcome.splits)

section \<open>What an execution guarantees\<close>

lemma execute_loop_ends:
  assumes "rp_max_attempts policy \<le> u32_max" and "max 1 (rp_max_attempts policy) \<le> length es"
  shows "\<exists>out n. execute_inner op_text policy deadline es (exec_start br) = Some out \<and>
    n < max 1 (rp_max_attempts policy) \<and> exec_protocol out n"
proof -
  have "es \<noteq> []" using assms(2) by auto
  then obtain out where "execute_inner op_text policy deadline es (exec_start br) = Some out"
    using execute_inner_ends [OF assms(1), of es "exec_start br"] assms(2) by (auto simp: exec_start_def)
  then show ?thesis
    using execute_inner_protocol [of op_text policy deadline es "exec_start br" out] assms(1)
    by (auto simp: exec_start_def retries_def)
qed

text \<open>A standalone execution gives back every permit it takes, on every path, and does not panic.\<close>

lemma execute_permit_returned:
  assumes "rp_max_attempts policy \<le> u32_max" and "max 1 (rp_max_attempts policy) \<le> length es"
  shows "\<exists>res g' board'. execute limits op_text oid class policy deadline resource now es (g, board) = Some (res, g', board') \<and>
    gauge_usage (gauge g') = gauge_usage (gauge g)"
proof (cases "execute_admission limits op_text oid class g")
  case (Inl err)
  then show ?thesis by (simp add: execute_def)
next
  case (Inr g1)
  then obtain ga where ga: "try_acquire class limits (gauge g) = Inr ga" "g1 = g\<lparr>gauge := ga\<rparr>"
    by (auto simp: execute_admission_def split: if_splits sum.splits)
  then have u: "gauge_usage (gauge g1) = (gauge_usage (gauge g))(class := gauge_usage (gauge g) class + 1)"
    "gauge_usage (gauge g) class < limits_get limits class"
    by (auto simp: try_acquire_def Let_def split: if_splits)
  obtain b board1 where b: "board_breaker resource board = (b, board1)" by (cases "board_breaker resource board")
  obtain out n where out: "execute_inner op_text policy deadline es (exec_start (Some b)) = Some out" "exec_protocol out n"
    using execute_loop_ends [OF assms] by blast
  obtain g3 where g3: "Option.bind (apply_events limits oid class now (eo_events out) (g1, True)) (permit_finish class) = Some g3"
    "gauge_usage (gauge g3) = (gauge_usage (gauge g1))(class := gauge_usage (gauge g1) class - 1)"
    using protocol_returns_permit [OF out(2), of g1 "class" limits] u by auto
  have "gauge_usage (gauge g3) = gauge_usage (gauge g)" using g3(2) u(1) by (auto simp: fun_eq_iff)
  then show ?thesis using Inr b out(1) g3(1) by (auto simp: execute_def bind_eq_Some_conv)
qed

text \<open>
  C14. The execution loop ends within the retry budget: given observations for as many attempts as
  the policy allows (at least one), it returns. The permit was given back and taken again once per
  retry, the number of retries is below the allowed number of attempts, and the outcome is marked
  exactly once, as the last event, with the status that belongs to the result: done or cancelled for
  success, failed with the same message for an error.
\<close>

theorem execute_loop_correct:
  assumes "rp_max_attempts policy \<le> u32_max" and "max 1 (rp_max_attempts policy) \<le> length es"
  shows "\<exists>out n. execute_inner op_text policy deadline es (exec_start br) = Some out \<and>
    n < max 1 (rp_max_attempts policy) \<and> exec_protocol out n"
  using assms by (rule execute_loop_ends)

definition two_tries :: retry_policy where
  "two_tries = \<lparr>rp_max_attempts = 2, rp_base_delay_ms = 10, rp_max_delay_ms = 100,
     rp_jitter_of = (\<lambda>_. 0), rp_class = Retry_Always\<rparr>"

definition attempt_of :: "int \<Rightarrow> run_outcome \<Rightarrow> attempt_env" where
  "attempt_of now r = \<lparr>ae_now = now, ae_cancelled = False, ae_run = r, ae_cancelled_after = False,
     ae_end_now = now + 1, ae_backoff = Wait_Ready, ae_admit = Wait_Ready\<rparr>"

definition fail_then_ok :: "attempt_env list" where
  "fail_then_ok = [attempt_of 1 (Run_Err Network_Err True ''reset''), attempt_of 5 Run_Ok]"

theorem execute_loop_correct_witness:
  "\<exists>out n. execute_inner ''x'' two_tries 100 fail_then_ok (exec_start (Some (breaker_new 4 50))) = Some out \<and>
    n < max 1 (rp_max_attempts two_tries) \<and> exec_protocol out n"
  by (rule execute_loop_correct) (simp_all add: two_tries_def fail_then_ok_def width_simps)

text \<open>
  A cancelled probe wedges its breaker. When the run that an open breaker admitted as its probe
  is cancelled before it returns, the execution records no outcome: the breaker stays half-open, and
  from then on it denies every caller at every time, until someone else records an outcome on it.
\<close>

theorem cancelled_probe_wedges:
  assumes "br_state b = Circuit_Open" and "\<not> in_cooldown b (ae_now e)"
    and "\<not> ae_cancelled e" and "\<not> is_expired deadline (ae_now e)"
    and "ae_cancelled_after e" and "ae_run e \<noteq> Run_Elapsed"
  shows "\<exists>out b'. execute_inner op_text policy deadline (e # es) (exec_start (Some b)) = Some out \<and>
    eo_result out = Inr () \<and> eo_breaker out = Some b' \<and>
    allow_all nows b' = (replicate (length nows) (Inl CircuitOpen), b')"
  using cancelled_probe [OF assms, of op_text policy es] half_open_denies by fastforce

theorem cancelled_probe_wedges_witness:
  "\<exists>out b'. execute_inner ''x'' two_tries 100 [(attempt_of 20 Run_Ok)\<lparr>ae_cancelled_after := True\<rparr>]
      (exec_start (Some opened)) = Some out \<and> eo_result out = Inr () \<and> eo_breaker out = Some b' \<and>
    allow_all [30, 1000000] b' = (replicate (length [30, 1000000 :: int]) (Inl CircuitOpen), b')"
  by (rule cancelled_probe_wedges)
    (simp_all add: opened_def breaker_open_def breaker_new_def in_cooldown_def sat_i64_def u64_as_i64_def
      width_simps attempt_of_def is_expired_def)

end
