(* ===== verification/Cancellation_Tokens.thy ===== *)
theory Cancellation_Tokens
  imports Faktor_Interfaces
begin

text \<open>
  Cancellation tokens (\<open>crates/core/src/cancellation.rs\<close>). The tokens live in a store, a list
  indexed by address, because a token is shared by all its clones and by the parents
  it is attached to. A registration is a sync wait (its \<open>notified\<close> flag) or a cascade to a child;
  the registration map is a list in the order of the registration ids. Waking the wakers of
  asynchronous waiters is the draining of \<open>async_waiters\<close>. Each operation is one atomic step of
  the store; a child whose last clone was dropped has no entry in the store (the \<open>Weak\<close>
  reference does not upgrade).
\<close>

datatype waiter_kind = Wait_Reg | Cascade nat

record waiter =
  wt_id :: nat
  wt_notified :: bool
  wt_kind :: waiter_kind

record token_inner =
  tk_cancelled :: bool
  tk_waiters :: "waiter list"
  tk_async_waiters :: "nat list"
  tk_parents :: "(nat \<times> nat) list"

type_synonym token_store = "token_inner option list"

definition tok :: "token_store \<Rightarrow> nat \<Rightarrow> token_inner option" where
  "tok st t = (if t < length st then st ! t else None)"

definition token_new :: token_inner where
  "token_new = \<lparr>tk_cancelled = False, tk_waiters = [], tk_async_waiters = [], tk_parents = []\<rparr>"

definition is_cancelled :: "token_store \<Rightarrow> nat \<Rightarrow> bool" where
  "is_cancelled st t = (case tok st t of None \<Rightarrow> False | Some i \<Rightarrow> tk_cancelled i)"

fun cascade_target :: "waiter \<Rightarrow> nat list" where
  "cascade_target w = (case wt_kind w of Wait_Reg \<Rightarrow> [] | Cascade c \<Rightarrow> [c])"

definition live_children :: "token_store \<Rightarrow> token_inner \<Rightarrow> nat list" where
  "live_children st i = filter (\<lambda>c. tok st c \<noteq> None) (concat (map cascade_target (tk_waiters i)))"

text \<open>\<open>propagate_inner\<close>: notify the sync waits, enqueue the live children, drain the async waits.\<close>

definition notify_all :: "token_inner \<Rightarrow> token_inner" where
  "notify_all i =
     i\<lparr>tk_waiters := map (\<lambda>w. w\<lparr>wt_notified := True\<rparr>) (tk_waiters i), tk_async_waiters := []\<rparr>"

definition propagate_inner :: "token_store \<Rightarrow> nat \<Rightarrow> token_inner \<Rightarrow> token_store \<times> nat list" where
  "propagate_inner st t i = (st[t := Some (notify_all i)], live_children st i)"

text \<open>The worklist loop of \<open>cancel\<close>. Each round shortens the queue or cancels one more token.\<close>

definition uncancelled :: "token_store \<Rightarrow> nat set" where
  "uncancelled st = {t. \<exists>i. tok st t = Some i \<and> \<not> tk_cancelled i}"

function cancel_loop :: "token_store \<Rightarrow> nat list \<Rightarrow> token_store" where
  "cancel_loop st [] = st"
| "cancel_loop st (t # queue) =
     (case tok st t of
        None \<Rightarrow> cancel_loop st queue
      | Some i \<Rightarrow>
          if tk_cancelled i then cancel_loop st queue
          else (case propagate_inner st t (i\<lparr>tk_cancelled := True\<rparr>) of
                  (st', children) \<Rightarrow> cancel_loop st' (queue @ children)))"
  by pat_completeness auto

lemma tok_update: "tok (st[t := x]) u = (if u = t \<and> t < length st then x else tok st u)"
  by (simp add: tok_def nth_list_update)

lemma tok_Some_less: "tok st t = Some i \<Longrightarrow> t < length st"
  by (simp add: tok_def split: if_splits)

lemma tk_cancelled_notify_all [simp]: "tk_cancelled (notify_all i) = tk_cancelled i"
  by (simp add: notify_all_def)

lemma uncancelled_update:
  "tok st t = Some i \<Longrightarrow> tk_cancelled j \<Longrightarrow> uncancelled (st[t := Some j]) = uncancelled st - {t}"
  by (auto simp: uncancelled_def tok_update dest: tok_Some_less split: if_splits)

lemma finite_uncancelled [simp]: "finite (uncancelled st)"
  by (rule finite_subset [of _ "{..< length st}"]) (auto simp: uncancelled_def dest: tok_Some_less)

lemma uncancelled_shrinks:
  "tok st t = Some i \<Longrightarrow> \<not> tk_cancelled i \<Longrightarrow>
   card (uncancelled (st[t := Some (notify_all (i\<lparr>tk_cancelled := True\<rparr>))])) < card (uncancelled st)"
proof -
  assume "tok st t = Some i" "\<not> tk_cancelled i"
  then have "t \<in> uncancelled st" by (simp add: uncancelled_def)
  then have "card (uncancelled st - {t}) < card (uncancelled st)" by (rule card_Diff1_less [OF finite_uncancelled])
  then show ?thesis by (subst uncancelled_update [OF \<open>tok st t = Some i\<close>]) simp_all
qed

termination cancel_loop
proof (relation "(\<lambda>(st, q). card (uncancelled st)) <*mlex*> measure (\<lambda>(st, q). length q)")
  show "wf ((\<lambda>(st, q). card (uncancelled st)) <*mlex*> measure (\<lambda>(st :: token_store, q :: nat list). length q))"
    by (intro wf_mlex wf_measure)
qed (auto simp: mlex_prod_def propagate_inner_def dest: uncancelled_shrinks)

text \<open>\<open>cancel\<close>: the first caller wins and is told so; later calls change nothing.\<close>

definition token_cancel :: "token_store \<Rightarrow> nat \<Rightarrow> token_store \<times> bool" where
  "token_cancel st t =
     (case tok st t of
        None \<Rightarrow> (st, False)
      | Some i \<Rightarrow>
          if tk_cancelled i then (st, False)
          else (case propagate_inner st t (i\<lparr>tk_cancelled := True\<rparr>) of
                  (st', children) \<Rightarrow> (cancel_loop st' children, True)))"

text \<open>\<open>attach\<close>: the registration and its back-link, or the immediate cancellation of \<open>other\<close>.\<close>

definition attach :: "token_store \<Rightarrow> nat \<Rightarrow> nat \<Rightarrow> nat \<Rightarrow> token_store" where
  "attach st next_id self other =
     (case (tok st self, tok st other) of
        (Some i, Some k) \<Rightarrow>
          if tk_cancelled i then fst (token_cancel st other)
          else
            (let st = st[self := Some (i\<lparr>tk_waiters := tk_waiters i @
                        [\<lparr>wt_id = next_id, wt_notified = False, wt_kind = Cascade other\<rparr>]\<rparr>)]
             in case tok st other of
                  None \<Rightarrow> st
                | Some k \<Rightarrow> st[other := Some (k\<lparr>tk_parents := tk_parents k @ [(self, next_id)]\<rparr>)])
      | _ \<Rightarrow> st)"

definition child :: "token_store \<Rightarrow> nat \<Rightarrow> nat \<Rightarrow> token_store \<times> nat" where
  "child st next_id self = (attach (st @ [Some token_new]) next_id self (length st), length st)"

text \<open>\<open>Inner::drop\<close>: the last clone goes away and every parent registration is removed.\<close>

definition remove_registration :: "nat \<times> nat \<Rightarrow> token_store \<Rightarrow> token_store" where
  "remove_registration link st =
     (case tok st (fst link) of
        None \<Rightarrow> st
      | Some i \<Rightarrow> st[fst link := Some (i\<lparr>tk_waiters := filter (\<lambda>w. wt_id w \<noteq> snd link) (tk_waiters i)\<rparr>)])"

definition token_drop :: "token_store \<Rightarrow> nat \<Rightarrow> token_store" where
  "token_drop st t =
     (case tok st t of
        None \<Rightarrow> st
      | Some i \<Rightarrow> fold remove_registration (tk_parents i) (st[t := None]))"

section \<open>Cancellation reaches exactly the attached subtree\<close>

text \<open>The edges of the cascade: a live child registered on a live token.\<close>

definition cascades :: "token_store \<Rightarrow> nat \<Rightarrow> nat \<Rightarrow> bool" where
  "cascades st t c \<longleftrightarrow> (\<exists>i. tok st t = Some i \<and> c \<in> set (live_children st i))"

text \<open>The invariant of the store: a cancelled token has no uncancelled live child.\<close>

definition cancel_closed :: "token_store \<Rightarrow> bool" where
  "cancel_closed st \<longleftrightarrow> (\<forall>t c. is_cancelled st t \<longrightarrow> cascades st t c \<longrightarrow> is_cancelled st c)"

definition same_shape :: "token_store \<Rightarrow> token_store \<Rightarrow> bool" where
  "same_shape st st' \<longleftrightarrow> (\<forall>t. (tok st t = None) = (tok st' t = None)) \<and> cascades st = cascades st'"

lemma notify_children [simp]: "live_children st (notify_all i) = live_children st i"
proof -
  have "cascade_target (w\<lparr>wt_notified := True\<rparr>) = cascade_target w" for w by simp
  then show ?thesis by (simp add: live_children_def notify_all_def comp_def del: cascade_target.simps)
qed

lemma live_children_cancel [simp]: "live_children st (i\<lparr>tk_cancelled := b\<rparr>) = live_children st i"
  by (simp add: live_children_def)

lemma mark_same_shape:
  assumes "tok st t = Some i"
  shows "same_shape st (st[t := Some (notify_all (i\<lparr>tk_cancelled := True\<rparr>))])"
proof -
  let ?st = "st[t := Some (notify_all (i\<lparr>tk_cancelled := True\<rparr>))]"
  have live: "(tok ?st u = None) = (tok st u = None)" for u
    using assms tok_Some_less by (auto simp: tok_update)
  have ch: "live_children ?st k = live_children st k" for k
    by (simp add: live_children_def live)
  have "cascades ?st u c = cascades st u c" for u c
    using assms tok_Some_less [OF assms] by (auto simp: cascades_def ch tok_update)
  with live show ?thesis by (auto simp: same_shape_def fun_eq_iff)
qed

lemma is_cancelled_mark:
  "tok st t = Some i \<Longrightarrow>
   is_cancelled (st[t := Some (notify_all (i\<lparr>tk_cancelled := True\<rparr>))]) u \<longleftrightarrow> u = t \<or> is_cancelled st u"
  by (auto simp: is_cancelled_def tok_update dest: tok_Some_less)

lemma same_shape_trans: "same_shape a b \<Longrightarrow> same_shape b c \<Longrightarrow> same_shape a c"
  by (simp add: same_shape_def)

text \<open>
  The loop invariant: every cancelled token's live children are cancelled or still queued. The
  loop ends with a closed store, keeps the shape, and cancels only tokens reachable from the
  queue.
\<close>

definition queue_closed :: "token_store \<Rightarrow> nat list \<Rightarrow> bool" where
  "queue_closed st q \<longleftrightarrow>
     (\<forall>t c. is_cancelled st t \<longrightarrow> cascades st t c \<longrightarrow> is_cancelled st c \<or> c \<in> set q)"

lemma cancel_loop_spec:
  assumes "queue_closed st q"
  shows "cancel_closed (cancel_loop st q) \<and> same_shape st (cancel_loop st q)
    \<and> (\<forall>u. is_cancelled st u \<longrightarrow> is_cancelled (cancel_loop st q) u)
    \<and> (\<forall>u \<in> set q. tok st u \<noteq> None \<longrightarrow> is_cancelled (cancel_loop st q) u)
    \<and> (\<forall>u. is_cancelled (cancel_loop st q) u \<longrightarrow>
         is_cancelled st u \<or> (\<exists>t \<in> set q. (cascades st)\<^sup>*\<^sup>* t u))"
  using assms
proof (induction st q rule: cancel_loop.induct)
  case (1 st)
  then show ?case by (auto simp: cancel_closed_def queue_closed_def same_shape_def)
next
  case (2 st t queue)
  show ?case
  proof (cases "tok st t")
    case None
    have "queue_closed st queue"
      using "2.prems" None
      by (fastforce simp: queue_closed_def cascades_def live_children_def simp del: cascade_target.simps)
    with "2.IH"(1) [OF None] None show ?thesis by auto
  next
    case (Some i)
    show ?thesis
    proof (cases "tk_cancelled i")
      case True
      then have "is_cancelled st t" using Some by (simp add: is_cancelled_def)
      moreover from this have "queue_closed st queue" using "2.prems" by (auto simp: queue_closed_def)
      ultimately show ?thesis using "2.IH"(2) [OF Some True] Some True by auto
    next
      case False
      define st' where "st' = st[t := Some (notify_all (i\<lparr>tk_cancelled := True\<rparr>))]"
      have shape: "same_shape st st'" unfolding st'_def using Some by (rule mark_same_shape)
      have canc: "is_cancelled st' u \<longleftrightarrow> u = t \<or> is_cancelled st u" for u
        unfolding st'_def using Some by (rule is_cancelled_mark)
      have kids: "cascades st t c \<longleftrightarrow> c \<in> set (live_children st i)" for c
        using Some by (simp add: cascades_def)
      have step: "cancel_loop st (t # queue) = cancel_loop st' (queue @ live_children st i)"
        using Some False by (simp add: propagate_inner_def st'_def)
      have "queue_closed st' (queue @ live_children st i)"
        using "2.prems" shape kids by (auto simp: queue_closed_def canc same_shape_def)
      moreover have "(st', live_children st i) = propagate_inner st t (i\<lparr>tk_cancelled := True\<rparr>)"
        by (simp add: propagate_inner_def st'_def)
      note "2.IH"(3) [OF Some False this]
      ultimately
      have IH: "cancel_closed (cancel_loop st (t # queue))"
        "same_shape st' (cancel_loop st (t # queue))"
        "\<And>u. is_cancelled st' u \<Longrightarrow> is_cancelled (cancel_loop st (t # queue)) u"
        "\<And>u. u \<in> set (queue @ live_children st i) \<Longrightarrow> tok st' u \<noteq> None \<Longrightarrow>
           is_cancelled (cancel_loop st (t # queue)) u"
        "\<And>u. is_cancelled (cancel_loop st (t # queue)) u \<Longrightarrow> is_cancelled st' u
           \<or> (\<exists>v \<in> set (queue @ live_children st i). (cascades st')\<^sup>*\<^sup>* v u)"
        unfolding step by blast+
      have casc: "cascades st' = cascades st" using shape by (simp add: same_shape_def)
      have reach: "is_cancelled st u \<or> (\<exists>v \<in> set (t # queue). (cascades st)\<^sup>*\<^sup>* v u)"
        if "is_cancelled (cancel_loop st (t # queue)) u" for u
        using IH(5) [OF that] kids
        by (auto simp: canc casc intro: converse_rtranclp_into_rtranclp)
      show ?thesis
        using IH(1-4) shape reach
        by (auto simp: canc same_shape_def intro: same_shape_trans)
    qed
  qed
qed

lemma token_cancel_spec:
  assumes "cancel_closed st" and "tok st t = Some i" and "\<not> tk_cancelled i"
  shows "snd (token_cancel st t)"
    and "cancel_closed (fst (token_cancel st t))"
    and "is_cancelled (fst (token_cancel st t)) u \<longleftrightarrow> is_cancelled st u \<or> (cascades st)\<^sup>*\<^sup>* t u"
proof -
  have not: "\<not> is_cancelled st t" using assms by (simp add: is_cancelled_def)
  have eq: "token_cancel st t = (cancel_loop st (t # []), True)"
    using assms by (simp add: token_cancel_def propagate_inner_def)
  have "queue_closed st [t]" using assms(1) by (auto simp: queue_closed_def cancel_closed_def)
  note spec = cancel_loop_spec [OF this]
  let ?st = "cancel_loop st [t]"
  show "snd (token_cancel st t)" and closed: "cancel_closed (fst (token_cancel st t))"
    using spec eq by (simp_all del: cancel_loop.simps)
  have tc: "is_cancelled ?st t" using spec assms(2) by (auto simp del: cancel_loop.simps)
  have "is_cancelled ?st u" if "(cascades st)\<^sup>*\<^sup>* t u"
    using that
  proof (induction rule: rtranclp_induct)
    case base
    show ?case by (rule tc)
  next
    case (step y z)
    moreover have "cascades ?st y z" using spec step(2) by (simp add: same_shape_def del: cancel_loop.simps)
    moreover have "cancel_closed ?st" using spec by (simp del: cancel_loop.simps)
    ultimately show ?case unfolding cancel_closed_def by blast
  qed
  with spec show "is_cancelled (fst (token_cancel st t)) u \<longleftrightarrow> is_cancelled st u \<or> (cascades st)\<^sup>*\<^sup>* t u"
    by (auto simp: eq simp del: cancel_loop.simps)
qed

lemma token_cancel_closed: "cancel_closed st \<Longrightarrow> cancel_closed (fst (token_cancel st t))"
proof (cases "\<exists>i. tok st t = Some i \<and> \<not> tk_cancelled i")
  case False
  moreover assume "cancel_closed st"
  ultimately show ?thesis by (auto simp: token_cancel_def split: option.splits)
qed (auto intro: token_cancel_spec(2))

section \<open>Reachable stores are closed\<close>

lemma is_cancelled_update:
  "tok st t = Some i \<Longrightarrow> tk_cancelled j = tk_cancelled i \<Longrightarrow>
   is_cancelled (st[t := Some j]) = is_cancelled st"
  by (auto simp: is_cancelled_def tok_update fun_eq_iff dest: tok_Some_less)

lemma live_children_cong:
  "(\<And>c. tok st c = None \<longleftrightarrow> tok st' c = None) \<Longrightarrow> tk_waiters i = tk_waiters j \<Longrightarrow>
   live_children st i = live_children st' j"
  by (simp add: live_children_def)

lemma tok_None_update: "tok st t = Some i \<Longrightarrow> tok (st[t := Some j]) c = None \<longleftrightarrow> tok st c = None"
  by (auto simp: tok_update dest: tok_Some_less)

text \<open>Replacing the registrations of an uncancelled token keeps the store closed.\<close>

lemma closed_update_uncancelled:
  assumes "cancel_closed st" and "tok st t = Some i" and "\<not> tk_cancelled i" and "\<not> tk_cancelled j"
  shows "cancel_closed (st[t := Some j])"
proof -
  have canc: "is_cancelled (st[t := Some j]) = is_cancelled st"
    using assms by (intro is_cancelled_update) simp_all
  have "cascades (st[t := Some j]) u c \<Longrightarrow> is_cancelled st u \<Longrightarrow> cascades st u c" for u c
    using assms(2,3) live_children_cong [OF tok_None_update [OF assms(2)] refl]
    by (auto simp: cascades_def tok_update is_cancelled_def split: if_splits dest: tok_Some_less)
  with assms(1) show ?thesis unfolding cancel_closed_def canc by blast
qed

text \<open>So does any change of a token that keeps its flag and adds no registration.\<close>

lemma closed_update_shrink:
  assumes "cancel_closed st" and "tok st t = Some i" and "tk_cancelled j = tk_cancelled i"
    and "set (tk_waiters j) \<subseteq> set (tk_waiters i)"
  shows "cancel_closed (st[t := Some j])"
proof -
  have canc: "is_cancelled (st[t := Some j]) = is_cancelled st"
    using assms by (intro is_cancelled_update) simp_all
  have sub: "set (live_children st j) \<subseteq> set (live_children st i)"
    using assms(4) by (auto simp: live_children_def simp del: cascade_target.simps)
  have "cascades (st[t := Some j]) u c \<Longrightarrow> cascades st u c" for u c
    using assms(2) live_children_cong [OF tok_None_update [OF assms(2)] refl] sub
    by (auto simp: cascades_def tok_update split: if_splits)
  with assms(1) show ?thesis unfolding cancel_closed_def canc by blast
qed

lemma attach_closed:
  assumes "cancel_closed st"
  shows "cancel_closed (attach st n self other)"
proof (cases "tok st self")
  case (Some i)
  show ?thesis
  proof (cases "tk_cancelled i \<or> tok st other = None")
    case True
    with Some assms token_cancel_closed show ?thesis
      by (cases "tok st other") (auto simp: attach_def)
  next
    case False
    define st1 where "st1 = st[self := Some (i\<lparr>tk_waiters := tk_waiters i @
      [\<lparr>wt_id = n, wt_notified = False, wt_kind = Cascade other\<rparr>]\<rparr>)]"
    have c1: "cancel_closed st1"
      unfolding st1_def using assms Some False by (intro closed_update_uncancelled) auto
    obtain k where k: "tok st1 other = Some k"
      using False tok_None_update [OF Some] unfolding st1_def by (metis not_None_eq)
    have "cancel_closed (st1[other := Some (k\<lparr>tk_parents := tk_parents k @ [(self, n)]\<rparr>)])"
      by (rule closed_update_shrink [OF c1 k]) simp_all
    with Some False k show ?thesis by (auto simp: attach_def st1_def Let_def)
  qed
qed (use assms in \<open>simp add: attach_def\<close>)

text \<open>Registrations name allocated addresses; addresses are never reused.\<close>

definition refs_ok :: "token_store \<Rightarrow> bool" where
  "refs_ok st \<longleftrightarrow>
     (\<forall>t i w c. tok st t = Some i \<longrightarrow> w \<in> set (tk_waiters i) \<longrightarrow> c \<in> set (cascade_target w) \<longrightarrow> c < length st)"

definition token_inv :: "token_store \<Rightarrow> bool" where
  "token_inv st \<longleftrightarrow> cancel_closed st \<and> refs_ok st"

declare cascade_target.simps [simp del]

lemma cascade_target_notified [simp]: "cascade_target (w\<lparr>wt_notified := b\<rparr>) = cascade_target w"
  by (simp add: cascade_target.simps)

lemma refs_ok_update:
  "refs_ok st \<Longrightarrow> \<forall>w \<in> set (tk_waiters j). \<forall>c \<in> set (cascade_target w). c < length st \<Longrightarrow>
   refs_ok (st[t := Some j])"
  by (auto simp: refs_ok_def tok_update split: if_splits)

lemma refs_ok_shrink:
  "refs_ok st \<Longrightarrow> tok st t = Some i \<Longrightarrow>
   (\<And>w. w \<in> set (tk_waiters j) \<Longrightarrow> \<exists>v \<in> set (tk_waiters i). cascade_target w = cascade_target v) \<Longrightarrow>
   refs_ok (st[t := Some j])"
  by (rule refs_ok_update) (auto simp: refs_ok_def, metis)

lemma mark_refs_ok:
  assumes "refs_ok st" and "tok st t = Some i"
  shows "refs_ok (st[t := Some (notify_all (i\<lparr>tk_cancelled := True\<rparr>))])"
  by (rule refs_ok_shrink [OF assms]) (auto simp: notify_all_def)

lemma cancel_loop_refs_ok: "refs_ok st \<Longrightarrow> refs_ok (cancel_loop st q)"
proof (induction st q rule: cancel_loop.induct)
  case (2 st t queue)
  then show ?case
    by (cases "tok st t") (auto simp: propagate_inner_def intro: mark_refs_ok)
qed simp

lemma token_cancel_inv: "token_inv st \<Longrightarrow> token_inv (fst (token_cancel st t))"
  unfolding token_inv_def
  by (auto simp: token_cancel_closed)
    (auto simp: token_cancel_def propagate_inner_def split: option.splits
      intro: cancel_loop_refs_ok mark_refs_ok)

lemma attach_inv: "token_inv st \<Longrightarrow> token_inv (attach st n self other)"
proof -
  assume inv: "token_inv st"
  have "refs_ok (attach st n self other)"
  proof (cases "tok st self")
    case (Some i)
    show ?thesis
    proof (cases "tk_cancelled i \<or> tok st other = None")
      case True
      with Some inv token_cancel_inv show ?thesis
        by (cases "tok st other") (auto simp: attach_def token_inv_def)
    next
      case False
      define st1 where "st1 = st[self := Some (i\<lparr>tk_waiters := tk_waiters i @
        [\<lparr>wt_id = n, wt_notified = False, wt_kind = Cascade other\<rparr>]\<rparr>)]"
      have "other < length st" using False tok_Some_less by blast
      with inv Some have r1: "refs_ok st1"
        unfolding st1_def token_inv_def
        by (intro refs_ok_update) (auto simp: refs_ok_def cascade_target.simps)
      obtain k where k: "tok st1 other = Some k"
        using False tok_None_update [OF Some] unfolding st1_def by (metis not_None_eq)
      have "refs_ok (st1[other := Some (k\<lparr>tk_parents := tk_parents k @ [(self, n)]\<rparr>)])"
        by (rule refs_ok_shrink [OF r1 k]) auto
      with Some False k show ?thesis by (auto simp: attach_def st1_def Let_def)
    qed
  qed (use inv in \<open>simp add: attach_def token_inv_def\<close>)
  with inv attach_closed show ?thesis by (simp add: token_inv_def)
qed

lemma new_token_inv: "token_inv st \<Longrightarrow> token_inv (st @ [Some token_new])"
proof -
  assume inv: "token_inv st"
  let ?st = "st @ [Some token_new]"
  have tok': "tok ?st u = (if u = length st then Some token_new else tok st u)" for u
    by (auto simp: tok_def nth_append)
  have none: "tok st (length st) = None" by (simp add: tok_def)
  have canc: "is_cancelled ?st u = is_cancelled st u" for u
    unfolding is_cancelled_def tok' by (simp add: none token_new_def)
  have edge: "cascades ?st t c \<Longrightarrow> cascades st t c" for t c
  proof -
    assume "cascades ?st t c"
    then obtain i w where i: "tok ?st t = Some i" and w: "w \<in> set (tk_waiters i)"
      "c \<in> set (cascade_target w)" and live: "tok ?st c \<noteq> None"
      by (auto simp: cascades_def live_children_def)
    have "i \<noteq> token_new" using w by (auto simp: token_new_def)
    with i have t: "tok st t = Some i" by (simp add: tok' split: if_splits)
    with inv w have "c < length st" unfolding token_inv_def refs_ok_def by blast
    with live have "tok st c \<noteq> None" by (simp add: tok')
    with t w show ?thesis by (auto simp: cascades_def live_children_def)
  qed
  have "refs_ok ?st"
  proof (unfold refs_ok_def, intro allI impI)
    fix t i w c
    assume "tok ?st t = Some i" "w \<in> set (tk_waiters i)" "c \<in> set (cascade_target w)"
    moreover from this have "i \<noteq> token_new" by (auto simp: token_new_def)
    ultimately have "c < length st"
      using inv unfolding token_inv_def refs_ok_def tok' by (metis option.inject)
    then show "c < length ?st" by simp
  qed
  moreover have "cancel_closed ?st"
    using inv edge unfolding token_inv_def cancel_closed_def canc by blast
  ultimately show ?thesis by (simp add: token_inv_def)
qed

lemma child_inv: "token_inv st \<Longrightarrow> token_inv (fst (child st n self))"
  by (simp add: child_def attach_inv new_token_inv)

lemma remove_registration_inv: "token_inv st \<Longrightarrow> token_inv (remove_registration link st)"
proof (cases "tok st (fst link)")
  case (Some i)
  assume "token_inv st"
  then show ?thesis
    unfolding remove_registration_def token_inv_def using Some
    by (auto intro!: closed_update_shrink refs_ok_shrink)
qed (simp add: remove_registration_def)

lemma forget_inv: "token_inv st \<Longrightarrow> token_inv (st[t := None])"
proof -
  assume inv: "token_inv st"
  let ?st = "st[t := None]"
  have sub: "tok ?st u = Some i \<Longrightarrow> tok st u = Some i" for u i
    by (simp add: tok_update split: if_splits)
  have edge: "cascades ?st u c \<Longrightarrow> cascades st u c \<and> c \<noteq> t" for u c
    by (auto simp: cascades_def live_children_def tok_update split: if_splits)
      (auto simp: tok_def)
  have canc: "is_cancelled ?st u \<longleftrightarrow> is_cancelled st u \<and> u \<noteq> t" for u
    by (auto simp: is_cancelled_def tok_update) (auto simp: tok_def)
  have "cancel_closed ?st"
    using inv edge unfolding token_inv_def cancel_closed_def canc by blast
  moreover have "refs_ok ?st"
    using inv sub unfolding token_inv_def refs_ok_def length_list_update by blast
  ultimately show ?thesis by (simp add: token_inv_def)
qed

lemma token_drop_inv: "token_inv st \<Longrightarrow> token_inv (token_drop st t)"
proof -
  have "token_inv s \<Longrightarrow> token_inv (fold remove_registration links s)" for s links
    by (induction links arbitrary: s) (auto intro: remove_registration_inv)
  then show "token_inv st \<Longrightarrow> token_inv (token_drop st t)"
    by (auto simp: token_drop_def forget_inv split: option.splits)
qed

text \<open>The stores the operations of the module can produce, from no token at all.\<close>

inductive store_reach :: "token_store \<Rightarrow> bool" where
  start: "store_reach []"
| new: "store_reach st \<Longrightarrow> store_reach (st @ [Some token_new])"
| cancel: "store_reach st \<Longrightarrow> store_reach (fst (token_cancel st t))"
| attach: "store_reach st \<Longrightarrow> store_reach (attach st n self other)"
| child: "store_reach st \<Longrightarrow> store_reach (fst (child st n self))"
| drop: "store_reach st \<Longrightarrow> store_reach (token_drop st t)"

inductive_cases store_reach_nonempty [elim]: "store_reach (x # st)"

lemma store_reach_inv: "store_reach st \<Longrightarrow> token_inv st"
proof (induction rule: store_reach.induct)
  case start
  show ?case by (simp add: token_inv_def cancel_closed_def refs_ok_def is_cancelled_def tok_def)
qed (auto intro: new_token_inv token_cancel_inv attach_inv child_inv token_drop_inv)

section \<open>What cancellation guarantees\<close>

text \<open>
  C7. Cancelling a token cancels exactly its attached subtree: in every token store the operations
  can build, cancelling a live token reports success, and afterwards a token is cancelled if and only
  if it was cancelled before or is reachable from the cancelled token through live attachments. The
  worklist of the propagation always ends, also on cyclic attachments.
\<close>

theorem cancel_reaches_subtree:
  assumes "store_reach st" and "tok st t = Some i" and "\<not> tk_cancelled i"
  shows "snd (token_cancel st t) \<and>
    (is_cancelled (fst (token_cancel st t)) u \<longleftrightarrow> is_cancelled st u \<or> (cascades st)\<^sup>*\<^sup>* t u)"
  using token_cancel_spec [OF _ assms(2,3)] store_reach_inv [OF assms(1)] by (simp add: token_inv_def)

definition parent_and_child :: token_store where
  "parent_and_child = fst (child ([] @ [Some token_new]) 0 0)"

theorem cancel_reaches_subtree_witness:
  "snd (token_cancel parent_and_child 0) \<and>
   (is_cancelled (fst (token_cancel parent_and_child 0)) 1 \<longleftrightarrow>
    is_cancelled parent_and_child 1 \<or> (cascades parent_and_child)\<^sup>*\<^sup>* 0 1)"
proof (rule cancel_reaches_subtree)
  show "store_reach parent_and_child"
    unfolding parent_and_child_def by (intro store_reach.child store_reach.new store_reach.start)
  show "tok parent_and_child 0 = Some (the (tok parent_and_child 0))" by code_simp
  show "\<not> tk_cancelled (the (tok parent_and_child 0))" by code_simp
qed

text \<open>
  Cancellation is closed downwards in every store the operations can build: whenever a token is
  cancelled, every live token attached below it is cancelled too, whatever the order of creation,
  attachment, cancellation and drop. A child attached to an already cancelled parent is cancelled
  at once.
\<close>

theorem cancelled_subtrees_closed:
  assumes "store_reach st" and "is_cancelled st t" and "(cascades st)\<^sup>*\<^sup>* t u"
  shows "is_cancelled st u"
  using assms(3,2)
proof (induction rule: rtranclp_induct)
  case (step y z)
  then show ?case using store_reach_inv [OF assms(1)] by (auto simp: token_inv_def cancel_closed_def)
qed

theorem cancelled_subtrees_closed_witness:
  "is_cancelled (fst (token_cancel parent_and_child 0)) 1"
proof (rule cancelled_subtrees_closed [of _ 0])
  show "store_reach (fst (token_cancel parent_and_child 0))"
    unfolding parent_and_child_def by (intro store_reach.cancel store_reach.child store_reach.new store_reach.start)
  show "is_cancelled (fst (token_cancel parent_and_child 0)) 0" by code_simp
  have "tok (fst (token_cancel parent_and_child 0)) 0 = Some (the (tok (fst (token_cancel parent_and_child 0)) 0))"
    by code_simp
  moreover have "1 \<in> set (live_children (fst (token_cancel parent_and_child 0))
      (the (tok (fst (token_cancel parent_and_child 0)) 0)))" by code_simp
  ultimately have "cascades (fst (token_cancel parent_and_child 0)) 0 1" unfolding cascades_def by blast
  then show "(cascades (fst (token_cancel parent_and_child 0)))\<^sup>*\<^sup>* 0 1" by blast
qed

end
