(* ===== verification/Child_Vocabulary.thy ===== *)
theory Child_Vocabulary
  imports Session_Machines
begin

text \<open>
  The durable vocabulary of child executions (\<open>crates/core/src/blocker.rs\<close>) and of the completion
  contract (\<open>crates/core/src/completion.rs\<close>): closed tag vocabularies, the typed blocker and its
  validator, the decode invariant of a child-runtime row, and the strict decoder of the
  contract object.
\<close>

section \<open>Blockers\<close>

definition MAX_CHILD_BLOCKER_REASON_CHARS :: nat where "MAX_CHILD_BLOCKER_REASON_CHARS = 512"
definition MAX_CHILD_BLOCKER_DEPENDENCY_CHARS :: nat where "MAX_CHILD_BLOCKER_DEPENDENCY_CHARS = 64"
definition MAX_CHILD_BLOCKER_RESOLUTION_CHARS :: nat where "MAX_CHILD_BLOCKER_RESOLUTION_CHARS = 512"

lemmas blocker_bounds [faktor_defs] =
  MAX_CHILD_BLOCKER_REASON_CHARS_def MAX_CHILD_BLOCKER_DEPENDENCY_CHARS_def
  MAX_CHILD_BLOCKER_RESOLUTION_CHARS_def

datatype blocker_kind =
    Blocker_Dependency | Blocker_Permission | Blocker_Budget | Blocker_Verification
  | Blocker_External | Blocker_Unknown

fun blocker_as_str :: "blocker_kind \<Rightarrow> string" where
  "blocker_as_str Blocker_Dependency = ''dependency''"
| "blocker_as_str Blocker_Permission = ''permission''"
| "blocker_as_str Blocker_Budget = ''budget''"
| "blocker_as_str Blocker_Verification = ''verification''"
| "blocker_as_str Blocker_External = ''external''"
| "blocker_as_str Blocker_Unknown = ''unknown''"

definition blocker_parse :: "string \<Rightarrow> blocker_kind option" where
  "blocker_parse value =
     (if value = ''dependency'' then Some Blocker_Dependency
      else if value = ''permission'' then Some Blocker_Permission
      else if value = ''budget'' then Some Blocker_Budget
      else if value = ''verification'' then Some Blocker_Verification
      else if value = ''external'' then Some Blocker_External
      else if value = ''unknown'' then Some Blocker_Unknown
      else None)"

interpretation blocker: tag_codec blocker_as_str blocker_parse
proof unfold_locales
  show "blocker_parse (blocker_as_str x) = Some x" for x
    by (cases x) (simp_all add: blocker_parse_def)
  show "blocker_parse s = Some x \<Longrightarrow> blocker_as_str x = s" for s x
    by (auto simp: blocker_parse_def split: if_splits)
qed

record child_blocker =
  cb_kind :: blocker_kind
  cb_reason :: string
  cb_dependency :: "string option"
  cb_resolution :: "string option"
  cb_last_progress_ms :: "int option"

definition child_blocker_new :: "blocker_kind \<Rightarrow> string \<Rightarrow> string \<Rightarrow> child_blocker" where
  "child_blocker_new kind reason resolution =
     \<lparr>cb_kind = kind, cb_reason = reason, cb_dependency = None, cb_resolution = Some resolution,
      cb_last_progress_ms = None\<rparr>"

definition child_blocker_dependency :: "string \<Rightarrow> string \<Rightarrow> string \<Rightarrow> child_blocker" where
  "child_blocker_dependency item_id reason resolution =
     \<lparr>cb_kind = Blocker_Dependency, cb_reason = reason, cb_dependency = Some item_id,
      cb_resolution = Some resolution, cb_last_progress_ms = None\<rparr>"

text \<open>\<open>trim().is_empty()\<close>: every character is white space.\<close>

fun is_blank :: "string \<Rightarrow> bool" where
  "is_blank [] = True"
| "is_blank [a] = ws1 (byte_of a)"
| "is_blank [a, b] = ((ws1 (byte_of a) \<and> is_blank [b]) \<or> ws2 (byte_of a) (byte_of b))"
| "is_blank (a # b # c # s) =
     ((ws1 (byte_of a) \<and> is_blank (b # c # s)) \<or> (ws2 (byte_of a) (byte_of b) \<and> is_blank (c # s)) \<or>
      (ws3 (byte_of a) (byte_of b) (byte_of c) \<and> is_blank s))"

definition check_blocker_text :: "string \<Rightarrow> nat \<Rightarrow> error_kind + unit" where
  "check_blocker_text value mx =
     (if is_blank value then Inl Malformed
      else if char_count value > mx then Inl Oversized
      else if has_control_char value then Inl Malformed
      else Inr ())"

definition check_opt_text :: "string option \<Rightarrow> nat \<Rightarrow> error_kind + unit" where
  "check_opt_text v mx = (case v of Some t \<Rightarrow> check_blocker_text t mx | None \<Rightarrow> Inr ())"

definition child_blocker_validate :: "child_blocker \<Rightarrow> error_kind + unit" where
  "child_blocker_validate self =
     bind_result (check_blocker_text (cb_reason self) MAX_CHILD_BLOCKER_REASON_CHARS) (\<lambda>_.
     bind_result (check_opt_text (cb_dependency self) MAX_CHILD_BLOCKER_DEPENDENCY_CHARS) (\<lambda>_.
     bind_result (check_opt_text (cb_resolution self) MAX_CHILD_BLOCKER_RESOLUTION_CHARS) (\<lambda>_.
     if (case cb_last_progress_ms self of Some ms \<Rightarrow> ms < 0 | None \<Rightarrow> False) then Inl Malformed
     else Inr ())))"

definition CHILD_LIFECYCLE_TAGS :: "string list" where
  "CHILD_LIFECYCLE_TAGS =
     [''running'', ''paused'', ''waiting'', ''blocked'', ''done'', ''cancelled'', ''failed'']"

definition child_lifecycle_tag_is_known :: "string \<Rightarrow> bool" where
  "child_lifecycle_tag_is_known state \<longleftrightarrow> state \<in> set CHILD_LIFECYCLE_TAGS"

definition validate_child_runtime_state :: "string \<Rightarrow> child_blocker option \<Rightarrow> error_kind + unit" where
  "validate_child_runtime_state state blocker =
     (if \<not> child_lifecycle_tag_is_known state then Inl Malformed
      else (case (state = ''blocked'', blocker) of
              (True, None) \<Rightarrow> Inl Malformed
            | (True, Some b) \<Rightarrow> child_blocker_validate b
            | (False, Some _) \<Rightarrow> Inl Malformed
            | (False, None) \<Rightarrow> Inr ()))"

text \<open>What a validated blocker is, as a predicate on its fields.\<close>

definition blocker_text_ok :: "nat \<Rightarrow> string \<Rightarrow> bool" where
  "blocker_text_ok mx v \<longleftrightarrow> \<not> is_blank v \<and> char_count v \<le> mx \<and> \<not> has_control_char v"

definition blocker_ok :: "child_blocker \<Rightarrow> bool" where
  "blocker_ok b \<longleftrightarrow> blocker_text_ok 512 (cb_reason b) \<and> pred_option (blocker_text_ok 64) (cb_dependency b)
     \<and> pred_option (blocker_text_ok 512) (cb_resolution b) \<and> pred_option (\<lambda>ms. 0 \<le> ms) (cb_last_progress_ms b)"

lemma check_blocker_text_ok [simp]: "check_blocker_text v mx = Inr () \<longleftrightarrow> blocker_text_ok mx v"
  by (auto simp: check_blocker_text_def blocker_text_ok_def)

lemma child_blocker_validate_ok: "child_blocker_validate b = Inr () \<longleftrightarrow> blocker_ok b"
  by (auto simp: child_blocker_validate_def blocker_ok_def check_opt_text_def blocker_bounds
      split: option.splits)

section \<open>Execution phases\<close>

datatype execution_phase =
    Phase_Planning | Phase_Context | Phase_Compacting | Phase_Reasoning | Phase_Coding
  | Phase_Tool | Phase_Verifying | Phase_Integrating | Phase_Review

definition phase_ALL :: "execution_phase list" where
  "phase_ALL =
     [Phase_Planning, Phase_Context, Phase_Compacting, Phase_Reasoning, Phase_Coding, Phase_Tool,
      Phase_Verifying, Phase_Integrating, Phase_Review]"

fun phase_as_str :: "execution_phase \<Rightarrow> string" where
  "phase_as_str Phase_Planning = ''planning''"
| "phase_as_str Phase_Context = ''context''"
| "phase_as_str Phase_Compacting = ''compacting''"
| "phase_as_str Phase_Reasoning = ''reasoning''"
| "phase_as_str Phase_Coding = ''coding''"
| "phase_as_str Phase_Tool = ''tool''"
| "phase_as_str Phase_Verifying = ''verifying''"
| "phase_as_str Phase_Integrating = ''integrating''"
| "phase_as_str Phase_Review = ''review''"

definition phase_parse :: "string \<Rightarrow> execution_phase option" where
  "phase_parse value = scan_table phase_as_str phase_ALL value"

interpretation phase: tag_table phase_as_str phase_ALL
proof unfold_locales
  show "x \<in> set phase_ALL" for x by (cases x) (simp_all add: phase_ALL_def)
  show "distinct (map phase_as_str phase_ALL)" by (simp add: phase_ALL_def)
qed

section \<open>The completion contract\<close>

datatype completion_step = Step_Commit | Step_Push | Step_Pr

definition completion_step_ALL :: "completion_step list" where
  "completion_step_ALL = [Step_Commit, Step_Push, Step_Pr]"

fun completion_step_tag :: "completion_step \<Rightarrow> string" where
  "completion_step_tag Step_Commit = ''commit''"
| "completion_step_tag Step_Push = ''push''"
| "completion_step_tag Step_Pr = ''pr''"

interpretation completion_step: tag_table completion_step_tag completion_step_ALL
proof unfold_locales
  show "x \<in> set completion_step_ALL" for x by (cases x) (simp_all add: completion_step_ALL_def)
  show "distinct (map completion_step_tag completion_step_ALL)" by (simp add: completion_step_ALL_def)
qed

datatype completion_step_outcome =
  Outcome_Succeeded | Outcome_Failed | Outcome_Skipped | Outcome_Invalidated

fun completion_outcome_tag :: "completion_step_outcome \<Rightarrow> string" where
  "completion_outcome_tag Outcome_Succeeded = ''succeeded''"
| "completion_outcome_tag Outcome_Failed = ''failed''"
| "completion_outcome_tag Outcome_Skipped = ''skipped''"
| "completion_outcome_tag Outcome_Invalidated = ''invalidated''"

record completion_contract =
  include_commit :: bool
  include_push :: bool
  include_pr :: bool

definition contract_NONE :: completion_contract where
  "contract_NONE = \<lparr>include_commit = False, include_push = False, include_pr = False\<rparr>"

definition contract_is_default :: "completion_contract \<Rightarrow> bool" where
  "contract_is_default c \<longleftrightarrow> \<not> include_commit c \<and> \<not> include_push c \<and> \<not> include_pr c"

fun step_requested :: "completion_contract \<Rightarrow> completion_step \<Rightarrow> bool" where
  "step_requested c Step_Commit = include_commit c"
| "step_requested c Step_Push = include_push c"
| "step_requested c Step_Pr = include_pr c"

definition requested_steps :: "completion_contract \<Rightarrow> completion_step list" where
  "requested_steps c = filter (step_requested c) completion_step_ALL"

text \<open>
  \<open>visit_map\<close> reads the entries of a JSON object in order. An entry's value is \<^term>\<open>Some b\<close> when
  it is a boolean and \<^term>\<open>None\<close> when decoding it as one fails; the value is decoded only after
  the duplicate test.
\<close>

datatype contract_error = DuplicateField string | UnknownField string | MissingField string | BadValue

type_synonym contract_seen = "bool option \<times> bool option \<times> bool option"

fun visit_entries :: "(string \<times> bool option) list \<Rightarrow> contract_seen \<Rightarrow> contract_error + contract_seen" where
  "visit_entries [] seen = Inr seen"
| "visit_entries ((field, value) # rest) (commit, push, pr) =
     (if field = ''include_commit'' then
        (if commit \<noteq> None then Inl (DuplicateField field)
         else case value of None \<Rightarrow> Inl BadValue | Some b \<Rightarrow> visit_entries rest (Some b, push, pr))
      else if field = ''include_push'' then
        (if push \<noteq> None then Inl (DuplicateField field)
         else case value of None \<Rightarrow> Inl BadValue | Some b \<Rightarrow> visit_entries rest (commit, Some b, pr))
      else if field = ''include_pr'' then
        (if pr \<noteq> None then Inl (DuplicateField field)
         else case value of None \<Rightarrow> Inl BadValue | Some b \<Rightarrow> visit_entries rest (commit, push, Some b))
      else Inl (UnknownField field))"

definition visit_map :: "(string \<times> bool option) list \<Rightarrow> contract_error + completion_contract" where
  "visit_map entries =
     bind_result (visit_entries entries (None, None, None)) (\<lambda>(commit, push, pr).
     bind_result (ok_or (MissingField ''include_commit'') commit) (\<lambda>commit.
     bind_result (ok_or (MissingField ''include_push'') push) (\<lambda>push.
     bind_result (ok_or (MissingField ''include_pr'') pr) (\<lambda>pr.
     Inr \<lparr>include_commit = commit, include_push = push, include_pr = pr\<rparr>))))"

text \<open>The derived \<open>Serialize\<close> writes the members in declaration order.\<close>

definition contract_entries :: "completion_contract \<Rightarrow> (string \<times> bool option) list" where
  "contract_entries c =
     [(''include_commit'', Some (include_commit c)), (''include_push'', Some (include_push c)),
      (''include_pr'', Some (include_pr c))]"

text \<open>
  What the reader collected: a member seen so far keeps its value, a member not seen takes the
  value of its only entry.
\<close>

lemma visit_entries_ok:
  "visit_entries es (c, p, r) = Inr (c', p', r') \<Longrightarrow>
     distinct (map fst es) \<and> set (map fst es) \<subseteq> {''include_commit'', ''include_push'', ''include_pr''}
     \<and> (\<forall>v \<in> set (map snd es). v \<noteq> None)
     \<and> (c' = (case c of Some b \<Rightarrow> Some b | None \<Rightarrow> Option.bind (map_of es ''include_commit'') id)
        \<and> (c \<noteq> None \<longrightarrow> ''include_commit'' \<notin> set (map fst es)))
     \<and> (p' = (case p of Some b \<Rightarrow> Some b | None \<Rightarrow> Option.bind (map_of es ''include_push'') id)
        \<and> (p \<noteq> None \<longrightarrow> ''include_push'' \<notin> set (map fst es)))
     \<and> (r' = (case r of Some b \<Rightarrow> Some b | None \<Rightarrow> Option.bind (map_of es ''include_pr'') id)
        \<and> (r \<noteq> None \<longrightarrow> ''include_pr'' \<notin> set (map fst es)))"
proof (induction es arbitrary: c p r)
  case Nil
  then show ?case by (auto split: option.splits)
next
  case (Cons e es)
  obtain f v where e: "e = (f, v)" by (cases e)
  consider "f = ''include_commit''" | "f = ''include_push''" | "f = ''include_pr''"
    using Cons.prems e by (auto split: if_splits)
  then show ?case
  proof cases
    case 1
    then obtain b where "c = None" "v = Some b" "visit_entries es (Some b, p, r) = Inr (c', p', r')"
      using Cons.prems e by (auto split: if_splits option.splits)
    with Cons.IH [of "Some b" p r] 1 e show ?thesis by (auto split: option.splits)
  next
    case 2
    then obtain b where "p = None" "v = Some b" "visit_entries es (c, Some b, r) = Inr (c', p', r')"
      using Cons.prems e by (auto split: if_splits option.splits)
    with Cons.IH [of c "Some b" r] 2 e show ?thesis by (auto split: option.splits)
  next
    case 3
    then obtain b where "r = None" "v = Some b" "visit_entries es (c, p, Some b) = Inr (c', p', r')"
      using Cons.prems e by (auto split: if_splits option.splits)
    with Cons.IH [of c p "Some b"] 3 e show ?thesis by (auto split: option.splits)
  qed
qed

lemma visit_map_ok:
  assumes "visit_map es = Inr c"
  shows "distinct (map fst es)" and "set es = set (contract_entries c)"
proof -
  obtain a p r where v: "visit_entries es (None, None, None) = Inr (Some a, Some p, Some r)"
    and c: "c = \<lparr>include_commit = a, include_push = p, include_pr = r\<rparr>"
    using assms by (auto simp: visit_map_def)
  note ok = visit_entries_ok [OF v]
  then show dist: "distinct (map fst es)" by blast
  have m: "map_of es ''include_commit'' = Some (Some a)" "map_of es ''include_push'' = Some (Some p)"
    "map_of es ''include_pr'' = Some (Some r)"
    using ok by (auto split: bind_splits)
  have "(f, w) \<in> set es \<longleftrightarrow> (f, w) \<in> set (contract_entries c)" for f w
  proof
    assume fw: "(f, w) \<in> set es"
    then have "f \<in> set (map fst es)" by force
    then have f: "f \<in> {''include_commit'', ''include_push'', ''include_pr''}" using ok by blast
    have "map_of es f = Some w" using fw dist by simp
    then show "(f, w) \<in> set (contract_entries c)" using f m by (auto simp: contract_entries_def c)
  next
    assume "(f, w) \<in> set (contract_entries c)"
    then show "(f, w) \<in> set es" using m by (auto simp: contract_entries_def c dest: map_of_SomeD)
  qed
  then show "set es = set (contract_entries c)" by auto
qed

lemma visit_entries_accepts:
  "distinct (map fst es) \<Longrightarrow> set (map fst es) \<subseteq> {''include_commit'', ''include_push'', ''include_pr''} \<Longrightarrow>
   None \<notin> set (map snd es) \<Longrightarrow> (c \<noteq> None \<Longrightarrow> ''include_commit'' \<notin> set (map fst es)) \<Longrightarrow>
   (p \<noteq> None \<Longrightarrow> ''include_push'' \<notin> set (map fst es)) \<Longrightarrow> (r \<noteq> None \<Longrightarrow> ''include_pr'' \<notin> set (map fst es)) \<Longrightarrow>
   is_ok (visit_entries es (c, p, r))"
proof (induction es arbitrary: c p r)
  case (Cons e es)
  obtain f v where e: "e = (f, v)" by (cases e)
  then obtain b where b: "v = Some b" using Cons.prems(3) by (cases v) auto
  consider "f = ''include_commit''" | "f = ''include_push''" | "f = ''include_pr''"
    using Cons.prems(2) e by auto
  moreover have "set (map fst es) \<subseteq> {''include_commit'', ''include_push'', ''include_pr''}" "None \<notin> set (map snd es)"
    "distinct (map fst es)"
    using Cons.prems by auto
  note rest = Cons.IH [OF this(3,1,2)]
  ultimately show ?case using Cons.prems e b by cases (auto intro!: rest)
qed simp

lemma visit_map_accepts:
  assumes "distinct (map fst es)" and "set es = set (contract_entries c)"
  shows "visit_map es = Inr c"
proof -
  have keys: "set (map fst es) = {''include_commit'', ''include_push'', ''include_pr''}"
    "set (map snd es) = {Some (include_commit c), Some (include_push c), Some (include_pr c)}"
    using assms(2) by (auto simp: contract_entries_def)
  then have "is_ok (visit_entries es (None, None, None))"
    using visit_entries_accepts [OF assms(1), of None None None] by simp
  then obtain a p r where v: "visit_entries es (None, None, None) = Inr (a, p, r)"
    by (cases "visit_entries es (None, None, None)") (auto simp: is_ok_def)
  have m: "map_of es ''include_commit'' = Some (Some (include_commit c))"
    "map_of es ''include_push'' = Some (Some (include_push c))" "map_of es ''include_pr'' = Some (Some (include_pr c))"
    using assms by (auto simp: contract_entries_def)
  with visit_entries_ok [OF v] have "a = Some (include_commit c)" "p = Some (include_push c)" "r = Some (include_pr c)"
    by auto
  then show ?thesis using v by (simp add: visit_map_def)
qed

section \<open>What the child vocabulary guarantees\<close>

text \<open>
  The strict decoder of a completion contract accepts a member list exactly when it has each of
  the three members once, with a boolean value, and no other member, in any order; the contract it
  returns has those values. Every other member list is an error.
\<close>

theorem contract_decoder_exact:
  "visit_map es = Inr c \<longleftrightarrow> distinct (map fst es) \<and> set es = set (contract_entries c)"
  using visit_map_ok visit_map_accepts by blast

end
