(* ===== verification/Criterion_Binding.thy ===== *)
theory Criterion_Binding
  imports Authority_Digest
begin

text \<open>
  Acceptance-criterion bindings and the bounded evidence records of a verification
  (\<open>crates/core/src/state.rs\<close>, from \<open>VerificationStatus\<close> to \<open>EditTxnStrategy\<close>): the structural
  validators, the content digest of a binding, the two producers of a command digest, the
  migration of legacy criterion texts, the no-op policy and the code table of outcome reasons.
  A \<open>FingerprintViolation\<close> keeps its field and its class (oversized or malformed); the English
  detail text is left out. The accumulator \<open>out: &mut Vec\<close> of the validators is passed and
  returned.
\<close>

section \<open>Violations and field validators\<close>

record fingerprint_violation =
  fv_field :: string
  fv_oversized :: bool

definition malformed_field :: "string \<Rightarrow> fingerprint_violation" where
  "malformed_field field = \<lparr>fv_field = field, fv_oversized = False\<rparr>"

definition oversized_field :: "string \<Rightarrow> fingerprint_violation" where
  "oversized_field field = \<lparr>fv_field = field, fv_oversized = True\<rparr>"

definition MAX_CRITERION_BINDING_TEXT_BYTES :: nat where
  "MAX_CRITERION_BINDING_TEXT_BYTES = 512"
definition MAX_CRITERION_BINDING_DIGEST_BYTES :: nat where
  "MAX_CRITERION_BINDING_DIGEST_BYTES = 128"
definition MAX_CRITERION_BINDING_WORK_ITEMS :: nat where
  "MAX_CRITERION_BINDING_WORK_ITEMS = 64"
definition MAX_ENVIRONMENT_FINGERPRINT_TOOLS :: nat where
  "MAX_ENVIRONMENT_FINGERPRINT_TOOLS = 8"
definition MAX_ENVIRONMENT_FINGERPRINT_TOOL_BYTES :: nat where
  "MAX_ENVIRONMENT_FINGERPRINT_TOOL_BYTES = 64"
definition MAX_ENVIRONMENT_FINGERPRINT_VERSION_BYTES :: nat where
  "MAX_ENVIRONMENT_FINGERPRINT_VERSION_BYTES = 128"
definition MAX_ENVIRONMENT_FINGERPRINT_MANIFESTS :: nat where
  "MAX_ENVIRONMENT_FINGERPRINT_MANIFESTS = 32"
definition MAX_ENVIRONMENT_FINGERPRINT_LOCKFILES :: nat where
  "MAX_ENVIRONMENT_FINGERPRINT_LOCKFILES = 32"
definition MAX_ENVIRONMENT_FINGERPRINT_PATH_BYTES :: nat where
  "MAX_ENVIRONMENT_FINGERPRINT_PATH_BYTES = 512"
definition MAX_ENVIRONMENT_FINGERPRINT_LABEL_BYTES :: nat where
  "MAX_ENVIRONMENT_FINGERPRINT_LABEL_BYTES = 64"
definition MAX_ENVIRONMENT_FINGERPRINT_HASH_BYTES :: nat where
  "MAX_ENVIRONMENT_FINGERPRINT_HASH_BYTES = 128"
definition MAX_CANDIDATE_PROOF_REF_RUN_ID_BYTES :: nat where
  "MAX_CANDIDATE_PROOF_REF_RUN_ID_BYTES = 128"

lemmas evidence_bounds [faktor_defs] =
  MAX_CRITERION_BINDING_TEXT_BYTES_def MAX_CRITERION_BINDING_DIGEST_BYTES_def
  MAX_CRITERION_BINDING_WORK_ITEMS_def MAX_ENVIRONMENT_FINGERPRINT_TOOLS_def
  MAX_ENVIRONMENT_FINGERPRINT_TOOL_BYTES_def MAX_ENVIRONMENT_FINGERPRINT_VERSION_BYTES_def
  MAX_ENVIRONMENT_FINGERPRINT_MANIFESTS_def MAX_ENVIRONMENT_FINGERPRINT_LOCKFILES_def
  MAX_ENVIRONMENT_FINGERPRINT_PATH_BYTES_def MAX_ENVIRONMENT_FINGERPRINT_LABEL_BYTES_def
  MAX_ENVIRONMENT_FINGERPRINT_HASH_BYTES_def MAX_CANDIDATE_PROOF_REF_RUN_ID_BYTES_def

definition validate_label ::
    "string \<Rightarrow> string \<Rightarrow> fingerprint_violation list \<Rightarrow> fingerprint_violation list" where
  "validate_label field value out =
     (if value = [] then out @ [malformed_field field]
      else if length value > MAX_ENVIRONMENT_FINGERPRINT_LABEL_BYTES then out @ [oversized_field field]
      else if \<not> list_all is_ascii_graphic value then out @ [malformed_field field]
      else out)"

definition validate_hex ::
    "string \<Rightarrow> string \<Rightarrow> fingerprint_violation list \<Rightarrow> fingerprint_violation list" where
  "validate_hex field value out =
     (if value = [] then out @ [malformed_field field]
      else if length value > MAX_ENVIRONMENT_FINGERPRINT_HASH_BYTES then out @ [oversized_field field]
      else if \<not> list_all is_ascii_hexdigit value then out @ [malformed_field field]
      else out)"

definition validate_text ::
    "string \<Rightarrow> string \<Rightarrow> nat \<Rightarrow> fingerprint_violation list \<Rightarrow> fingerprint_violation list" where
  "validate_text field value mx out =
     (if value = [] then out @ [malformed_field field]
      else if length value > mx then out @ [oversized_field field]
      else if \<not> list_all is_ascii_graphic value then out @ [malformed_field field]
      else out)"

definition validate_binding_text ::
    "string \<Rightarrow> string \<Rightarrow> nat \<Rightarrow> fingerprint_violation list \<Rightarrow> fingerprint_violation list" where
  "validate_binding_text field value mx out =
     (if value = [] then out @ [malformed_field field]
      else if length value > mx then out @ [oversized_field field]
      else if \<not> list_all (\<lambda>b. is_ascii_graphic b \<or> b = CHR '' '') value then out @ [malformed_field field]
      else out)"

record fingerprint_file_hash =
  fh_path :: string
  fh_digest_hex :: string

definition validate_file_hash ::
    "string \<Rightarrow> fingerprint_file_hash \<Rightarrow> fingerprint_violation list \<Rightarrow> fingerprint_violation list" where
  "validate_file_hash field e out =
     validate_hex field (fh_digest_hex e)
       (if fh_path e = [] then out @ [malformed_field field]
        else if length (fh_path e) > MAX_ENVIRONMENT_FINGERPRINT_PATH_BYTES
          then out @ [oversized_field field]
        else if list_ex is_ascii_control (fh_path e) then out @ [malformed_field field]
        else out)"

definition validate_file_hashes ::
    "string \<Rightarrow> fingerprint_file_hash list \<Rightarrow> nat \<Rightarrow> fingerprint_violation list
     \<Rightarrow> fingerprint_violation list" where
  "validate_file_hashes field entries max_entries out =
     fold (validate_file_hash field) entries
       (if length entries > max_entries then out @ [oversized_field field] else out)"

section \<open>Criterion bindings\<close>

datatype criterion_binding =
    RequiredCheck string string
  | IntegrationCoverage "string list"
  | FileState string string
  | Evidence string string
  | IndependentReview string
  | AggregateGoal
  | Binding_Unavailable string

fun binding_violations :: "criterion_binding \<Rightarrow> fingerprint_violation list" where
  "binding_violations (RequiredCheck check_id command_digest) =
     validate_binding_text ''command_digest'' command_digest MAX_CRITERION_BINDING_DIGEST_BYTES
       (if check_id = [] then []
        else validate_binding_text ''check_id'' check_id MAX_CRITERION_BINDING_TEXT_BYTES [])"
| "binding_violations (IntegrationCoverage items) =
     fold (\<lambda>item. validate_binding_text ''required_work_items'' item MAX_CRITERION_BINDING_TEXT_BYTES)
       items
       (if length items > MAX_CRITERION_BINDING_WORK_ITEMS
        then [oversized_field ''required_work_items''] else [])"
| "binding_violations (FileState path expected_digest) =
     validate_binding_text ''expected_digest'' expected_digest MAX_CRITERION_BINDING_DIGEST_BYTES
       (validate_binding_text ''path'' path MAX_CRITERION_BINDING_TEXT_BYTES [])"
| "binding_violations (Evidence evidence_id evidence_digest) =
     validate_binding_text ''evidence_digest'' evidence_digest MAX_CRITERION_BINDING_DIGEST_BYTES
       (validate_binding_text ''evidence_id'' evidence_id MAX_CRITERION_BINDING_TEXT_BYTES [])"
| "binding_violations (IndependentReview reviewer_id) =
     validate_binding_text ''reviewer_id'' reviewer_id MAX_CRITERION_BINDING_TEXT_BYTES []"
| "binding_violations AggregateGoal = []"
| "binding_violations (Binding_Unavailable reason) =
     validate_binding_text ''reason'' reason MAX_CRITERION_BINDING_TEXT_BYTES []"

definition all_or_errors :: "'e list \<Rightarrow> 'e list + unit" where
  "all_or_errors out = (if out = [] then Inr () else Inl out)"

definition binding_validate :: "criterion_binding \<Rightarrow> fingerprint_violation list + unit" where
  "binding_validate b = all_or_errors (binding_violations b)"

fun kind_label :: "criterion_binding \<Rightarrow> string" where
  "kind_label (RequiredCheck _ _) = ''required_check''"
| "kind_label (IntegrationCoverage _) = ''integration_coverage''"
| "kind_label (FileState _ _) = ''file_state''"
| "kind_label (Evidence _ _) = ''evidence''"
| "kind_label (IndependentReview _) = ''independent_review''"
| "kind_label AggregateGoal = ''aggregate_goal''"
| "kind_label (Binding_Unavailable _) = ''unavailable''"

fun binding_fields :: "criterion_binding \<Rightarrow> fields" where
  "binding_fields (RequiredCheck a b) =
     fields_text b (fields_text a (fields_text (kind_label (RequiredCheck a b)) fields_new))"
| "binding_fields (IntegrationCoverage items) =
     fields_list items (fields_uint (length items)
       (fields_text (kind_label (IntegrationCoverage items)) fields_new))"
| "binding_fields (FileState a b) =
     fields_text b (fields_text a (fields_text (kind_label (FileState a b)) fields_new))"
| "binding_fields (Evidence a b) =
     fields_text b (fields_text a (fields_text (kind_label (Evidence a b)) fields_new))"
| "binding_fields (IndependentReview a) =
     fields_text a (fields_text (kind_label (IndependentReview a)) fields_new)"
| "binding_fields AggregateGoal = fields_text (kind_label AggregateGoal) fields_new"
| "binding_fields (Binding_Unavailable a) =
     fields_text a (fields_text (kind_label (Binding_Unavailable a)) fields_new)"

definition content_digest :: "(byte list \<Rightarrow> byte list) \<Rightarrow> criterion_binding \<Rightarrow> string" where
  "content_digest blake3 b =
     authority_digest_labeled blake3 DOMAIN_CRITERION_BINDING 1 (binding_fields b)"

section \<open>Command digests\<close>

definition canonical_command_text :: "string \<Rightarrow> string list \<Rightarrow> string" where
  "canonical_command_text program args = fold (\<lambda>arg out. out @ [CHR '' ''] @ arg) args program"

definition split_canonical_command :: "string \<Rightarrow> string \<times> string list" where
  "split_canonical_command command =
     (case split_once_at (CHR '' '') command of
        Some (program, rest) \<Rightarrow> (program, split_on (CHR '' '') rest)
      | None \<Rightarrow> (command, []))"

definition command_fields ::
    "string \<Rightarrow> string list \<Rightarrow> string option \<Rightarrow> (string \<times> string) list \<Rightarrow> fields" where
  "command_fields program args cwd env =
     fold (\<lambda>(key, value) fs. fields_text value (fields_text key fs)) env
       (fields_uint (length env) (fields_opt_text cwd
         (fold fields_text args (fields_text program fields_new))))"

definition command_binding_digest_parts ::
    "(byte list \<Rightarrow> byte list) \<Rightarrow> string \<Rightarrow> string list \<Rightarrow> string option \<Rightarrow> (string \<times> string) list
     \<Rightarrow> string" where
  "command_binding_digest_parts blake3 program args cwd env =
     authority_digest_labeled blake3 DOMAIN_COMMAND_BINDING 1 (command_fields program args cwd env)"

definition command_binding_digest :: "(byte list \<Rightarrow> byte list) \<Rightarrow> string \<Rightarrow> string" where
  "command_binding_digest blake3 command =
     (case split_canonical_command command of
        (program, args) \<Rightarrow> command_binding_digest_parts blake3 program args None [])"

definition legacy_binding_for_criterion_text ::
    "(byte list \<Rightarrow> byte list) \<Rightarrow> string \<Rightarrow> criterion_binding" where
  "legacy_binding_for_criterion_text blake3 text =
     (if starts_with text ''goal: '' then AggregateGoal
      else case strip_prefix text ''required check: '' of
        Some command \<Rightarrow> RequiredCheck [] (command_binding_digest blake3 command)
      | None \<Rightarrow> Binding_Unavailable ''legacy criterion text carries no typed binding'')"

section \<open>Environment fingerprints and candidate references\<close>

record tool_version =
  tv_tool :: string
  tv_version :: string

record environment_fingerprint =
  ef_platform :: string
  ef_arch :: string
  ef_toolchain_versions :: "tool_version list"
  ef_manifest_hashes :: "fingerprint_file_hash list"
  ef_lockfile_hashes :: "fingerprint_file_hash list"
  ef_instruction_epoch :: "nat option"
  ef_base_tree_hash :: "string option"
  ef_task_contract_hash :: string
  ef_check_argv_cwd_env_hash :: string
  ef_verification_impl_version :: string
  ef_proof_basis_digest :: "string option"

definition validate_tool_version ::
    "tool_version \<Rightarrow> fingerprint_violation list \<Rightarrow> fingerprint_violation list" where
  "validate_tool_version tv out =
     (let out' =
        (if tv_tool tv = [] then out @ [malformed_field ''toolchain_versions.tool'']
         else if length (tv_tool tv) > MAX_ENVIRONMENT_FINGERPRINT_TOOL_BYTES
           then out @ [oversized_field ''toolchain_versions.tool'']
         else out)
      in if tv_version tv = [] then out' @ [malformed_field ''toolchain_versions.version'']
         else if length (tv_version tv) > MAX_ENVIRONMENT_FINGERPRINT_VERSION_BYTES
           then out' @ [oversized_field ''toolchain_versions.version'']
         else out')"

definition fingerprint_violations :: "environment_fingerprint \<Rightarrow> fingerprint_violation list" where
  "fingerprint_violations self =
     (let out = validate_label ''platform'' (ef_platform self) [];
          out = validate_label ''arch'' (ef_arch self) out;
          out = (if length (ef_toolchain_versions self) > MAX_ENVIRONMENT_FINGERPRINT_TOOLS
                 then out @ [oversized_field ''toolchain_versions''] else out);
          out = fold validate_tool_version (ef_toolchain_versions self) out;
          out = validate_file_hashes ''manifest_hashes'' (ef_manifest_hashes self)
                  MAX_ENVIRONMENT_FINGERPRINT_MANIFESTS out;
          out = validate_file_hashes ''lockfile_hashes'' (ef_lockfile_hashes self)
                  MAX_ENVIRONMENT_FINGERPRINT_LOCKFILES out;
          out = (case ef_base_tree_hash self of
                   Some tree \<Rightarrow> validate_hex ''base_tree_hash'' tree out | None \<Rightarrow> out);
          out = validate_hex ''task_contract_hash'' (ef_task_contract_hash self) out;
          out = validate_hex ''check_argv_cwd_env_hash'' (ef_check_argv_cwd_env_hash self) out;
          out = validate_text ''verification_impl_version'' (ef_verification_impl_version self)
                  MAX_ENVIRONMENT_FINGERPRINT_VERSION_BYTES out
      in case ef_proof_basis_digest self of
           Some basis \<Rightarrow> validate_text ''proof_basis_digest'' basis
                           MAX_ENVIRONMENT_FINGERPRINT_HASH_BYTES out
         | None \<Rightarrow> out)"

definition fingerprint_validate :: "environment_fingerprint \<Rightarrow> fingerprint_violation list + unit" where
  "fingerprint_validate self = all_or_errors (fingerprint_violations self)"

record candidate_proof_ref =
  cp_task_revision :: nat
  cp_base_manifest_hash :: string
  cp_candidate_manifest_hash :: string
  cp_source_diff_evidence :: "nat option"
  cp_risk_report_evidence :: "nat option"
  cp_accounting_snapshot_digest :: string
  cp_run_id :: "string option"
  cp_run_base_snapshot :: "string option"
  cp_candidate_snapshot :: "string option"
  cp_sources_digest :: "string option"
  cp_changed_files_digest :: "string option"

definition validate_optional_hash ::
    "string \<times> string option \<Rightarrow> fingerprint_violation list \<Rightarrow> fingerprint_violation list" where
  "validate_optional_hash fv out =
     (case snd fv of
        Some value \<Rightarrow> validate_text (fst fv) value MAX_ENVIRONMENT_FINGERPRINT_HASH_BYTES out
      | None \<Rightarrow> out)"

definition candidate_violations :: "candidate_proof_ref \<Rightarrow> fingerprint_violation list" where
  "candidate_violations self =
     (let out = validate_hex ''base_manifest_hash'' (cp_base_manifest_hash self) [];
          out = validate_hex ''candidate_manifest_hash'' (cp_candidate_manifest_hash self) out;
          out = validate_text ''accounting_snapshot_digest'' (cp_accounting_snapshot_digest self)
                  MAX_ENVIRONMENT_FINGERPRINT_HASH_BYTES out;
          out = (case cp_run_id self of
                   Some run_id \<Rightarrow> validate_text ''run_id'' run_id
                                    MAX_CANDIDATE_PROOF_REF_RUN_ID_BYTES out
                 | None \<Rightarrow> out)
      in fold validate_optional_hash
           [(''run_base_snapshot'', cp_run_base_snapshot self),
            (''candidate_snapshot'', cp_candidate_snapshot self),
            (''sources_digest'', cp_sources_digest self),
            (''changed_files_digest'', cp_changed_files_digest self)] out)"

definition candidate_validate :: "candidate_proof_ref \<Rightarrow> fingerprint_violation list + unit" where
  "candidate_validate self = all_or_errors (candidate_violations self)"

section \<open>Policies and vocabularies\<close>

datatype no_op_disposition = NoOp_Allowed | NoOp_RequiresCriterionProof | NoOp_Refused

fun no_op_tag :: "no_op_disposition \<Rightarrow> string" where
  "no_op_tag NoOp_Allowed = ''allowed''"
| "no_op_tag NoOp_RequiresCriterionProof = ''requires_criterion_proof''"
| "no_op_tag NoOp_Refused = ''refused''"

definition permits_completion :: "no_op_disposition \<Rightarrow> bool" where
  "permits_completion d \<longleftrightarrow> d \<noteq> NoOp_Refused"

definition default_for_mutating_task :: no_op_disposition where
  "default_for_mutating_task = NoOp_RequiresCriterionProof"

fun completion_allowed :: "no_op_disposition \<Rightarrow> bool \<Rightarrow> bool" where
  "completion_allowed NoOp_Allowed criterion_proof = True"
| "completion_allowed NoOp_RequiresCriterionProof criterion_proof = criterion_proof"
| "completion_allowed NoOp_Refused criterion_proof = False"

datatype criterion_origin =
  Origin_User | Origin_ProjectPolicy | Origin_VerificationPolicy | Origin_SemanticProvider

definition origin_is_user :: "criterion_origin \<Rightarrow> bool" where
  "origin_is_user o' \<longleftrightarrow> o' = Origin_User"

fun origin_label :: "criterion_origin \<Rightarrow> string" where
  "origin_label Origin_User = ''user''"
| "origin_label Origin_ProjectPolicy = ''project_policy''"
| "origin_label Origin_VerificationPolicy = ''verification_policy''"
| "origin_label Origin_SemanticProvider = ''semantic_provider''"

text \<open>The derived \<open>Ord\<close> of an enum orders the variants as they are listed.\<close>

primrec origin_index :: "criterion_origin \<Rightarrow> nat" where
  "origin_index Origin_User = 0"
| "origin_index Origin_ProjectPolicy = 1"
| "origin_index Origin_VerificationPolicy = 2"
| "origin_index Origin_SemanticProvider = 3"

lemma origin_index_inj: "origin_index x = origin_index y \<longleftrightarrow> x = y"
  by (cases x; cases y) simp_all

instantiation criterion_origin :: linorder
begin

definition less_eq_criterion_origin :: "criterion_origin \<Rightarrow> criterion_origin \<Rightarrow> bool" where
  "less_eq_criterion_origin x y \<longleftrightarrow> origin_index x \<le> origin_index y"

definition less_criterion_origin :: "criterion_origin \<Rightarrow> criterion_origin \<Rightarrow> bool" where
  "less_criterion_origin x y \<longleftrightarrow> origin_index x < origin_index y"

instance
  by standard
    (auto simp: less_eq_criterion_origin_def less_criterion_origin_def origin_index_inj)

end

datatype criterion_requirement = Requirement_Required | Requirement_Preferred

definition requirement_is_required :: "criterion_requirement \<Rightarrow> bool" where
  "requirement_is_required r \<longleftrightarrow> r = Requirement_Required"

fun requirement_label :: "criterion_requirement \<Rightarrow> string" where
  "requirement_label Requirement_Required = ''required''"
| "requirement_label Requirement_Preferred = ''preferred''"

datatype reason_code =
    CheckFailed | CheckUnavailable | ReviewBlocked | BudgetExceeded | SpendOverBudget
  | ChangeBudgetExceeded | Stalled | LoopDetected | Reason_Cancelled | CriteriaMissing
  | CriteriaInconsistent | PatchRevertPatch | RepeatedEvidenceSet | UnattributedChange
  | ProofObligationDisproven | ProviderOutputLimitExceeded

definition reason_ALL :: "reason_code list" where
  "reason_ALL =
     [CheckFailed, CheckUnavailable, ReviewBlocked, BudgetExceeded, SpendOverBudget,
      ChangeBudgetExceeded, Stalled, LoopDetected, Reason_Cancelled, CriteriaMissing,
      CriteriaInconsistent, PatchRevertPatch, RepeatedEvidenceSet, UnattributedChange,
      ProofObligationDisproven, ProviderOutputLimitExceeded]"

fun reason_code_text :: "reason_code \<Rightarrow> string" where
  "reason_code_text CheckFailed = ''check_failed''"
| "reason_code_text CheckUnavailable = ''check_unavailable''"
| "reason_code_text ReviewBlocked = ''review_blocked''"
| "reason_code_text BudgetExceeded = ''budget_exceeded''"
| "reason_code_text SpendOverBudget = ''spend_over_budget''"
| "reason_code_text ChangeBudgetExceeded = ''change_budget_exceeded''"
| "reason_code_text Stalled = ''stalled''"
| "reason_code_text LoopDetected = ''loop_detected''"
| "reason_code_text Reason_Cancelled = ''cancelled''"
| "reason_code_text CriteriaMissing = ''criteria_missing''"
| "reason_code_text CriteriaInconsistent = ''criteria_inconsistent''"
| "reason_code_text PatchRevertPatch = ''patch_revert_patch''"
| "reason_code_text RepeatedEvidenceSet = ''repeated_evidence_set''"
| "reason_code_text UnattributedChange = ''unattributed_change''"
| "reason_code_text ProofObligationDisproven = ''proof_obligation_disproven''"
| "reason_code_text ProviderOutputLimitExceeded = ''provider_output_limit_exceeded''"

definition reason_try_from :: "string \<Rightarrow> reason_code option" where
  "reason_try_from s = scan_table reason_code_text reason_ALL s"

interpretation reason: tag_table reason_code_text reason_ALL
proof unfold_locales
  show "x \<in> set reason_ALL" for x by (cases x) (simp_all add: reason_ALL_def)
  show "distinct (map reason_code_text reason_ALL)" by (simp add: reason_ALL_def)
qed

definition edit_txn_id_try_from :: "nat \<Rightarrow> string + nat" where
  "edit_txn_id_try_from raw = (if raw = 0 then Inl ''EditTxnId cannot be 0'' else Inr raw)"

interpretation edit_txn_id: validated edit_txn_id_try_from "\<lambda>i. i" "\<lambda>raw. raw \<noteq> 0"
  by unfold_locales (auto simp: edit_txn_id_try_from_def split: if_splits)

datatype edit_txn_strategy = RollForward | RollBack

fun edit_txn_as_tag :: "edit_txn_strategy \<Rightarrow> string" where
  "edit_txn_as_tag RollForward = ''roll_forward''"
| "edit_txn_as_tag RollBack = ''roll_back''"

definition edit_txn_from_tag :: "string \<Rightarrow> edit_txn_strategy option" where
  "edit_txn_from_tag tag =
     (if tag = ''roll_forward'' then Some RollForward
      else if tag = ''roll_back'' then Some RollBack else None)"

interpretation edit_txn: tag_codec edit_txn_as_tag edit_txn_from_tag
proof unfold_locales
  show "edit_txn_from_tag (edit_txn_as_tag x) = Some x" for x
    by (cases x) (simp_all add: edit_txn_from_tag_def)
  show "edit_txn_from_tag s = Some x \<Longrightarrow> edit_txn_as_tag x = s" for s x
    by (auto simp: edit_txn_from_tag_def split: if_splits)
qed

section \<open>What a clean validation means\<close>

lemma all_or_errors_ok [simp]: "all_or_errors out = Inr () \<longleftrightarrow> out = []"
  by (simp add: all_or_errors_def)

lemma validators_clean [simp]:
  "validate_label f v out = [] \<longleftrightarrow>
     out = [] \<and> v \<noteq> [] \<and> length v \<le> MAX_ENVIRONMENT_FINGERPRINT_LABEL_BYTES \<and> list_all is_ascii_graphic v"
  "validate_hex f v out = [] \<longleftrightarrow>
     out = [] \<and> v \<noteq> [] \<and> length v \<le> MAX_ENVIRONMENT_FINGERPRINT_HASH_BYTES \<and> list_all is_ascii_hexdigit v"
  "validate_text f v mx out = [] \<longleftrightarrow>
     out = [] \<and> v \<noteq> [] \<and> length v \<le> mx \<and> list_all is_ascii_graphic v"
  "validate_binding_text f v mx out = [] \<longleftrightarrow>
     out = [] \<and> v \<noteq> [] \<and> length v \<le> mx \<and> list_all (\<lambda>b. is_ascii_graphic b \<or> b = CHR '' '') v"
  by (auto simp: validate_label_def validate_hex_def validate_text_def validate_binding_text_def)

text \<open>Folding a validator whose clean outcome means \<open>P\<close> over a list checks \<open>P\<close> everywhere.\<close>

lemma fold_clean:
  assumes "\<And>x out. f x out = [] \<longleftrightarrow> out = [] \<and> P x"
  shows "fold f xs out = [] \<longleftrightarrow> out = [] \<and> list_all P xs"
  by (induction xs arbitrary: out) (auto simp: assms)

definition tool_version_ok :: "tool_version \<Rightarrow> bool" where
  "tool_version_ok tv \<longleftrightarrow>
     tv_tool tv \<noteq> [] \<and> length (tv_tool tv) \<le> 64 \<and> tv_version tv \<noteq> [] \<and> length (tv_version tv) \<le> 128"

lemma validate_tool_version_clean: "validate_tool_version tv out = [] \<longleftrightarrow> out = [] \<and> tool_version_ok tv"
  by (auto simp: validate_tool_version_def tool_version_ok_def evidence_bounds Let_def)

definition hash_text_ok :: "string \<Rightarrow> bool" where
  "hash_text_ok v \<longleftrightarrow> v \<noteq> [] \<and> length v \<le> 128 \<and> list_all is_ascii_hexdigit v"

definition file_hash_ok :: "fingerprint_file_hash \<Rightarrow> bool" where
  "file_hash_ok e \<longleftrightarrow> fh_path e \<noteq> [] \<and> length (fh_path e) \<le> 512
     \<and> \<not> list_ex is_ascii_control (fh_path e) \<and> hash_text_ok (fh_digest_hex e)"

lemma validate_file_hash_clean: "validate_file_hash f e out = [] \<longleftrightarrow> out = [] \<and> file_hash_ok e"
  by (auto simp: validate_file_hash_def file_hash_ok_def hash_text_ok_def evidence_bounds)

lemma validate_file_hashes_clean:
  "validate_file_hashes f es mx out = [] \<longleftrightarrow> out = [] \<and> length es \<le> mx \<and> list_all file_hash_ok es"
  by (auto simp: validate_file_hashes_def fold_clean [of "validate_file_hash f", OF validate_file_hash_clean])

lemma validate_optional_hash_clean:
  "validate_optional_hash fv out = [] \<longleftrightarrow>
     out = [] \<and> (\<lambda>fv. pred_option (\<lambda>v. v \<noteq> [] \<and> length v \<le> 128 \<and> list_all is_ascii_graphic v) (snd fv)) fv"
  by (cases "snd fv") (auto simp: validate_optional_hash_def evidence_bounds)

lemmas evidence_clean =
  validate_tool_version_clean validate_file_hashes_clean validate_optional_hash_clean
  fold_clean [of validate_tool_version, OF validate_tool_version_clean]
  fold_clean [of validate_optional_hash, OF validate_optional_hash_clean]

section \<open>The binding digest separates bindings\<close>

lemmas fields_defs =
  fields_new_def fields_text_def fields_opt_text_def fields_uint_def fields_int_def
  fields_raw_def fields_list_def fields_extend_def

lemma map_text_bytes_inj [simp]: "map text_bytes xs = map text_bytes ys \<longleftrightarrow> xs = ys"
  by (rule inj_map_eq_map) (simp add: inj_def)

lemma binding_fields_inj: "binding_fields a = binding_fields b \<Longrightarrow> a = b"
  by (cases a; cases b) (auto simp: fields_defs)

lemma binding_stream_ok:
  assumes "binding_validate b = Inr ()"
  shows "stream_ok (DOMAIN_CRITERION_BINDING, 1, binding_fields b)"
proof -
  have "fold (\<lambda>item. validate_binding_text ''required_work_items'' item MAX_CRITERION_BINDING_TEXT_BYTES) items out = []
      \<longleftrightarrow> out = [] \<and> list_all (\<lambda>v. v \<noteq> [] \<and> length v \<le> MAX_CRITERION_BINDING_TEXT_BYTES
            \<and> list_all (\<lambda>b. is_ascii_graphic b \<or> b = CHR '' '') v) items" for items out
    by (rule fold_clean) simp
  with assms show ?thesis
    by (cases b)
      (auto simp: binding_validate_def stream_ok_def fields_defs DOMAIN_CRITERION_BINDING_def
        evidence_bounds width_simps list_all_iff split: if_splits)
qed

section \<open>The two renderings of a command\<close>

lemma canonical_command_text_eq: "canonical_command_text p args = join_with (CHR '' '') (p # args)"
proof -
  have "fold (\<lambda>arg out. out @ [c] @ arg) args p = join_with c (p # args)" for c :: char
  proof (induction args arbitrary: p)
    case (Cons a args)
    have "join_with c ((p @ c # a) # args) = p @ c # join_with c (a # args)"
      by (cases args) auto
    with Cons show ?case by simp
  qed simp
  then show ?thesis by (simp add: canonical_command_text_def)
qed

lemma split_canonical_command_eq:
  "split_canonical_command c = (hd (split_on (CHR '' '') c), tl (split_on (CHR '' '') c))"
proof (cases "split_once_at (CHR '' '') c")
  case None
  then have "CHR '' '' \<notin> set c" by simp
  then have "split_on (CHR '' '') c = [c]" by (rule split_on_single)
  with None show ?thesis unfolding split_canonical_command_def by (simp only: option.case list.sel)
next
  case (Some ab)
  then obtain a b where "c = a @ CHR '' '' # b" "CHR '' '' \<notin> set a" "ab = (a, b)"
    by (cases ab) (auto simp: split_once_at_Some)
  with Some show ?thesis by (simp add: split_canonical_command_def split_on_append_sep)
qed

lemma canonical_split: "(case split_canonical_command c of (p, args) \<Rightarrow> canonical_command_text p args) = c"
  by (simp add: split_canonical_command_eq canonical_command_text_eq)

lemma split_canonical_iff:
  "split_canonical_command (canonical_command_text p args) = (p, args) \<longleftrightarrow>
   (\<forall>a \<in> set (p # args). CHR '' '' \<notin> set a)"
proof
  assume "split_canonical_command (canonical_command_text p args) = (p, args)"
  then have "split_on (CHR '' '') (canonical_command_text p args) = p # args"
    by (metis Pair_inject list.collapse split_canonical_command_eq split_on_not_Nil)
  then show "\<forall>a \<in> set (p # args). CHR '' '' \<notin> set a"
    by (metis split_on_no_sep)
next
  assume "\<forall>a \<in> set (p # args). CHR '' '' \<notin> set a"
  then have "split_on (CHR '' '') (join_with (CHR '' '') (p # args)) = p # args"
    by (intro split_join) auto
  then show "split_canonical_command (canonical_command_text p args) = (p, args)"
    by (simp add: split_canonical_command_eq canonical_command_text_eq)
qed

text \<open>
  The structured digest hashes no argument count; what separates the arguments from the
  environment is the eight-byte environment count, which contains a zero byte. For texts without
  NUL bytes (all an operating system accepts in argv and the environment) the fields determine
  the command.
\<close>

definition nul_free :: "string \<Rightarrow> bool" where
  "nul_free s \<longleftrightarrow> char_of (0 :: nat) \<notin> set s"

fun command_ok :: "string \<times> string list \<times> string option \<times> (string \<times> string) list \<Rightarrow> bool" where
  "command_ok (p, args, cwd, env) \<longleftrightarrow>
     nul_free p \<and> list_all nul_free args \<and> pred_option nul_free cwd \<and>
     list_all (\<lambda>(k, v). nul_free k \<and> nul_free v) env \<and> length env < 2 ^ 56"

lemma nul_free_bytes: "nul_free s \<Longrightarrow> 0 \<notin> set (text_bytes s)"
proof
  assume "nul_free s" "0 \<in> set (text_bytes s)"
  then obtain c where c: "c \<in> set s" "(0 :: byte) = of_nat (byte_of c)" by (auto simp: text_bytes_def)
  then have "(of_nat (byte_of (char_of (0 :: nat))) :: byte) = of_nat (byte_of c)"
    by (simp add: byte_of_def)
  then have "char_of (0 :: nat) = c" by (simp only: byte_of_word_inj)
  with \<open>nul_free s\<close> c(1) show False by (simp add: nul_free_def)
qed

lemma le_bytes_has_zero: "n < 256 ^ k \<Longrightarrow> 0 \<in> set (le_bytes (Suc k) n)"
proof (induction k arbitrary: n)
  case (Suc k)
  then have "n div 256 < 256 ^ k" by (simp add: less_mult_imp_div_less)
  with Suc.IH show ?case by (metis le_bytes.simps(2) list.set_intros(2))
qed simp

lemma u64_le_has_zero: "n < 2 ^ 56 \<Longrightarrow> 0 \<in> set (u64_le n)"
  using le_bytes_has_zero [of n 7] by (simp add: u64_le_def)

lemma last_marker_unique:
  "xs @ c # ys = xs' @ c' # ys' \<Longrightarrow> P c \<Longrightarrow> P c' \<Longrightarrow> list_all (\<lambda>y. \<not> P y) ys \<Longrightarrow>
   list_all (\<lambda>y. \<not> P y) ys' \<Longrightarrow> xs = xs' \<and> c = c' \<and> ys = ys'"
proof (induction ys arbitrary: ys' rule: rev_induct)
  case Nil
  then show ?case by (cases ys' rule: rev_cases) auto
next
  case (snoc y ys)
  then show ?case by (cases ys' rule: rev_cases) auto
qed

lemma opt_text_bytes_inj: "opt_text_bytes a = opt_text_bytes b \<Longrightarrow> a = b"
  by (auto simp: opt_text_bytes_def split: option.splits)

fun env_fields :: "(string \<times> string) list \<Rightarrow> fields" where
  "env_fields [] = []"
| "env_fields ((k, v) # env) = text_bytes k # text_bytes v # env_fields env"

lemma env_fields_inj: "env_fields xs = env_fields ys \<Longrightarrow> xs = ys"
  by (induction xs arbitrary: ys rule: env_fields.induct; case_tac ys) auto

lemma command_fields_eq:
  "command_fields p args cwd env =
   (map text_bytes (p # args) @ [opt_text_bytes cwd]) @ u64_le (length env) # env_fields env"
proof -
  have "fold fields_text args fs = fs @ map text_bytes args" for fs
    by (induction args arbitrary: fs) (auto simp: fields_text_def)
  moreover have "fold (\<lambda>(key, value) fs. fields_text value (fields_text key fs)) env fs = fs @ env_fields env" for fs
    by (induction env arbitrary: fs rule: env_fields.induct) (auto simp: fields_text_def)
  ultimately show ?thesis by (simp add: command_fields_def fields_defs)
qed

lemma command_fields_inj:
  assumes "command_ok (p, args, cwd, env)" and "command_ok (p', args', cwd', env')"
    and "command_fields p args cwd env = command_fields p' args' cwd' env'"
  shows "p = p' \<and> args = args' \<and> cwd = cwd' \<and> env = env'"
proof -
  have no_zero: "list_all (\<lambda>(k, v). nul_free k \<and> nul_free v) e \<Longrightarrow> list_all (\<lambda>y. 0 \<notin> set y) (env_fields e)"
    for e
    by (induction e rule: env_fields.induct) (auto simp: nul_free_bytes)
  have "map text_bytes (p # args) @ [opt_text_bytes cwd] = map text_bytes (p' # args') @ [opt_text_bytes cwd']
      \<and> u64_le (length env) = u64_le (length env') \<and> env_fields env = env_fields env'"
    using assms no_zero
    by (intro last_marker_unique [where P = "\<lambda>y. 0 \<in> set y"])
      (auto simp: command_fields_eq intro: u64_le_has_zero)
  then show ?thesis by (auto dest: opt_text_bytes_inj env_fields_inj)
qed

text \<open>A legacy text migrates to a binding that passes its own validator.\<close>

lemma labeled_is_authoritative:
  assumes "\<And>x. length (blake3 x) = 32"
  shows "classify_authority_digest (authority_digest_labeled blake3 d v fs) = Blake3Labeled"
    and "length (authority_digest_labeled blake3 d v fs) = 71"
    and "list_all is_ascii_graphic (authority_digest_labeled blake3 d v fs)"
proof -
  define hex where "hex = to_hex (blake3 (authority_stream d v fs))"
  have lab: "authority_digest_labeled blake3 d v fs = ''blake3:'' @ hex"
    by (simp add: authority_digest_labeled_def authority_digest_hex_def authority_digest_def hex_def)
  have hex: "is_lower_hex hex 64"
    using is_lower_hex_to_hex [of "blake3 (authority_stream d v fs)"] assms by (simp add: hex_def)
  have "strip_prefix (''blake3:'' @ hex) ''blake3:'' = Some hex" by (rule strip_prefix_append)
  with hex show "classify_authority_digest (authority_digest_labeled blake3 d v fs) = Blake3Labeled"
    unfolding lab by (simp add: classify_authority_digest_def strip_prefix_def)
  show "length (authority_digest_labeled blake3 d v fs) = 71"
    using hex by (simp add: lab is_lower_hex_def)
  have "list_all is_ascii_graphic hex"
    using hex by (auto simp: is_lower_hex_def list_all_iff is_ascii_graphic_def is_ascii_digit_def)
  then show "list_all is_ascii_graphic (authority_digest_labeled blake3 d v fs)"
    by (simp add: lab is_ascii_graphic_def byte_of_def)
qed

section \<open>What bindings and evidence records guarantee\<close>

text \<open>
  The content digest identifies a criterion binding: two bindings that pass validation have the
  same digest if and only if they are equal or the hash function collides on their two streams. The
  kind, every text and the list boundaries are all covered by the digest.
\<close>

theorem binding_digest_separates:
  assumes "binding_validate a = Inr ()" and "binding_validate b = Inr ()"
  shows "content_digest blake3 a = content_digest blake3 b \<longleftrightarrow>
    a = b \<or> hash_collides blake3 (authority_stream DOMAIN_CRITERION_BINDING 1 (binding_fields a))
              (authority_stream DOMAIN_CRITERION_BINDING 1 (binding_fields b))"
  using labeled_eq_iff [OF binding_stream_ok [OF assms(1)] binding_stream_ok [OF assms(2)]] binding_fields_inj
  unfolding content_digest_def by auto

theorem binding_digest_separates_witness:
  "content_digest rev (IntegrationCoverage [''a'', ''b'']) \<noteq> content_digest rev (IntegrationCoverage [''a b''])"
proof -
  have "binding_validate (IntegrationCoverage [''a'', ''b'']) = Inr ()"
    "binding_validate (IntegrationCoverage [''a b'']) = Inr ()" by code_simp+
  from binding_digest_separates [OF this, of rev] show ?thesis by (simp add: hash_collides_def)
qed

text \<open>
  Splitting the canonical text of a command gives back the program and the arguments exactly
  when none of them contains a space. Conversely every text is the canonical text of its own split.
  So the text rendering is not injective: an argument with a space is read back as two.
\<close>

theorem canonical_command_round_trip:
  "(split_canonical_command (canonical_command_text program args) = (program, args) \<longleftrightarrow>
     list_all (\<lambda>a. CHR '' '' \<notin> set a) (program # args)) \<and>
   (case split_canonical_command command of (p, as) \<Rightarrow> canonical_command_text p as) = command \<and>
   split_canonical_command (canonical_command_text ''run'' [''a b'']) = (''run'', [''a'', ''b''])"
proof (intro conjI)
  show "split_canonical_command (canonical_command_text program args) = (program, args) \<longleftrightarrow>
     list_all (\<lambda>a. CHR '' '' \<notin> set a) (program # args)"
    unfolding split_canonical_iff list_all_iff ..
  show "(case split_canonical_command command of (p, as) \<Rightarrow> canonical_command_text p as) = command"
    by (rule canonical_split)
  show "split_canonical_command (canonical_command_text ''run'' [''a b'']) = (''run'', [''a'', ''b''])"
    by code_simp
qed

text \<open>
  The structured command digest binds the whole invocation: for two commands without NUL bytes,
  the digests are equal if and only if program, arguments, working directory and environment are
  equal or the hash function collides on the two streams. In particular an argument with a space
  differs from two arguments.
\<close>

theorem command_digest_separates:
  assumes "command_ok (p, args, cwd, env)" and "command_ok (p', args', cwd', env')"
    and "stream_ok (DOMAIN_COMMAND_BINDING, 1, command_fields p args cwd env)"
    and "stream_ok (DOMAIN_COMMAND_BINDING, 1, command_fields p' args' cwd' env')"
  shows "command_binding_digest_parts blake3 p args cwd env = command_binding_digest_parts blake3 p' args' cwd' env' \<longleftrightarrow>
    (p, args, cwd, env) = (p', args', cwd', env') \<or>
    hash_collides blake3 (authority_stream DOMAIN_COMMAND_BINDING 1 (command_fields p args cwd env))
      (authority_stream DOMAIN_COMMAND_BINDING 1 (command_fields p' args' cwd' env'))"
  using labeled_eq_iff [OF assms(3,4)] command_fields_inj [OF assms(1,2)]
  unfolding command_binding_digest_parts_def by auto

theorem command_digest_separates_witness:
  "command_binding_digest_parts rev ''sh'' [''a b''] (Some ''/'') [(''K'', ''v'')] \<noteq>
   command_binding_digest_parts rev ''sh'' [''a'', ''b''] (Some ''/'') [(''K'', ''v'')]"
proof -
  have ok: "command_ok (''sh'', [''a b''], Some ''/'', [(''K'', ''v'')])"
    "command_ok (''sh'', [''a'', ''b''], Some ''/'', [(''K'', ''v'')])"
    by (simp_all add: nul_free_def char_of_def)
  have "stream_ok (DOMAIN_COMMAND_BINDING, 1, command_fields ''sh'' [''a b''] (Some ''/'') [(''K'', ''v'')])"
    "stream_ok (DOMAIN_COMMAND_BINDING, 1, command_fields ''sh'' [''a'', ''b''] (Some ''/'') [(''K'', ''v'')])"
    by (simp_all add: stream_ok_def command_fields_def fields_defs DOMAIN_COMMAND_BINDING_def width_simps
        opt_text_bytes_def u64_le_def)
  from command_digest_separates [OF ok this, of rev] show ?thesis by (simp add: hash_collides_def)
qed

text \<open>
  The migration of a legacy criterion text never fails open: whatever the text, the binding it
  yields passes the structural validation, it is never a file, evidence or review binding, and the
  command digest of a required check is an authoritative labelled digest. The hash function returns 32 bytes, as BLAKE3 does.
\<close>

theorem legacy_migration_valid:
  assumes "\<And>x. length (blake3 x) = 32"
  shows "binding_validate (legacy_binding_for_criterion_text blake3 text) = Inr () \<and>
    kind_label (legacy_binding_for_criterion_text blake3 text) \<in> {''aggregate_goal'', ''required_check'', ''unavailable''} \<and>
    classify_authority_digest (command_binding_digest blake3 command) = Blake3Labeled"
proof (intro conjI)
  have dig: "command_binding_digest blake3 c =
      authority_digest_labeled blake3 DOMAIN_COMMAND_BINDING 1
        (command_fields (fst (split_canonical_command c)) (snd (split_canonical_command c)) None [])" for c
    by (simp add: command_binding_digest_def command_binding_digest_parts_def split: prod.splits)
  show "classify_authority_digest (command_binding_digest blake3 command) = Blake3Labeled"
    unfolding dig by (rule labeled_is_authoritative [OF assms])
  have "binding_validate (RequiredCheck [] (command_binding_digest blake3 c)) = Inr ()" for c
  proof -
    have "length (command_binding_digest blake3 c) = 71" "list_all is_ascii_graphic (command_binding_digest blake3 c)"
      unfolding dig by (rule labeled_is_authoritative [OF assms])+
    moreover from this have "command_binding_digest blake3 c \<noteq> []" by auto
    ultimately show ?thesis by (simp add: binding_validate_def evidence_bounds list_all_iff)
  qed
  then show "binding_validate (legacy_binding_for_criterion_text blake3 text) = Inr ()"
    by (auto simp: legacy_binding_for_criterion_text_def binding_validate_def evidence_bounds
        is_ascii_graphic_def byte_of_def split: option.splits)
  show "kind_label (legacy_binding_for_criterion_text blake3 text) \<in> {''aggregate_goal'', ''required_check'', ''unavailable''}"
    by (auto simp: legacy_binding_for_criterion_text_def split: option.splits)
qed

theorem legacy_migration_valid_witness:
  "binding_validate (legacy_binding_for_criterion_text (\<lambda>_. replicate 32 0) ''required check: make'') = Inr () \<and>
   kind_label (legacy_binding_for_criterion_text (\<lambda>_. replicate 32 0) ''required check: make'') \<in>
     {''aggregate_goal'', ''required_check'', ''unavailable''} \<and>
   classify_authority_digest (command_binding_digest (\<lambda>_. replicate 32 0) ''make'') = Blake3Labeled"
  by (rule legacy_migration_valid) simp

end
