(* ===== verification/Workspace_Path.thy ===== *)
theory Workspace_Path
  imports Faktor_Interfaces "HOL-Library.Sublist"
begin

text \<open>
  Canonical workspace paths (\<open>crates/core/src/path.rs\<close>): the constructor
  \<open>NormalizedWorkspacePath::new\<close> with every typed refusal, and the lexical comparisons
  \<open>covers\<close> and \<open>overlaps\<close> that write-authority decisions use. The platform switch
  \<open>cfg!(windows)\<close> is the parameter \<open>windows\<close>.

  The interface locale \<open>cover_order\<close> states what ownership analysis needs of a containment test;
  the theory shows that the byte-level test of the code is exactly "the components of one path
  are a prefix of the components of the other", and that canonicalization is idempotent.
\<close>

section \<open>The containment interface\<close>

locale cover_order =
  fixes covers :: "'p \<Rightarrow> 'p \<Rightarrow> bool"
    and overlaps :: "'p \<Rightarrow> 'p \<Rightarrow> bool"
  assumes covers_refl: "covers a a"
    and covers_trans: "covers a b \<Longrightarrow> covers b c \<Longrightarrow> covers a c"
    and covers_linear: "covers a c \<Longrightarrow> covers b c \<Longrightarrow> covers a b \<or> covers b a"
    and overlaps_iff: "overlaps a b \<longleftrightarrow> covers a b \<or> covers b a"
begin

lemma overlaps_sym: "overlaps a b \<longleftrightarrow> overlaps b a"
  by (auto simp: overlaps_iff)

lemma overlaps_common: "overlaps a b \<longleftrightarrow> (\<exists>c. covers a c \<and> covers b c)"
  using covers_refl covers_linear overlaps_iff by blast

lemma disjoint_below: "\<not> overlaps a b \<Longrightarrow> covers a a' \<Longrightarrow> covers b b' \<Longrightarrow> \<not> overlaps a' b'"
  by (meson covers_trans overlaps_common)

end

section \<open>The constructor\<close>

definition MAX_NORMALIZED_WORKSPACE_PATH_BYTES :: nat where
  "MAX_NORMALIZED_WORKSPACE_PATH_BYTES = 256"

datatype path_violation_kind =
    PV_Empty | PV_TooLong | PV_Absolute | PV_RootedPrefix | PV_AlternateSeparator
  | PV_ParentComponent | PV_CurrentComponent | PV_EmptyComponent | PV_ControlCharacter
  | PV_PlatformAlias

fun path_violation_as_str :: "path_violation_kind \<Rightarrow> string" where
  "path_violation_as_str PV_Empty = ''empty''"
| "path_violation_as_str PV_TooLong = ''too_long''"
| "path_violation_as_str PV_Absolute = ''absolute''"
| "path_violation_as_str PV_RootedPrefix = ''rooted_prefix''"
| "path_violation_as_str PV_AlternateSeparator = ''alternate_separator''"
| "path_violation_as_str PV_ParentComponent = ''parent_component''"
| "path_violation_as_str PV_CurrentComponent = ''current_component''"
| "path_violation_as_str PV_EmptyComponent = ''empty_component''"
| "path_violation_as_str PV_ControlCharacter = ''control_character''"
| "path_violation_as_str PV_PlatformAlias = ''platform_alias''"

record path_violation =
  pv_kind :: path_violation_kind
  pv_value :: string

datatype normalized_workspace_path = NormalizedWorkspacePath (as_str: string)

definition is_reserved_device_name :: "string \<Rightarrow> bool" where
  "is_reserved_device_name component =
     (let stem = hd (split_on CHR ''.'' component);
          upper = map to_ascii_uppercase stem
      in if upper \<in> {''CON'', ''PRN'', ''AUX'', ''NUL''} then True
         else (case (case strip_prefix upper ''COM'' of Some s \<Rightarrow> Some s
                     | None \<Rightarrow> strip_prefix upper ''LPT'') of
                 None \<Rightarrow> False
               | Some sfx \<Rightarrow> length sfx = 1 \<and> list_all is_ascii_digit sfx))"

text \<open>The checks of one component, in the order of the loop body.\<close>

definition component_violation :: "string \<Rightarrow> path_violation_kind option" where
  "component_violation component =
     (if component = [] then Some PV_EmptyComponent
      else if component = ''.'' then Some PV_CurrentComponent
      else if component = ''..'' then Some PV_ParentComponent
      else if ends_with component ''.'' \<or> ends_with component '' '' then Some PV_PlatformAlias
      else if is_reserved_device_name component then Some PV_PlatformAlias
      else None)"

text \<open>The loop over \<open>body.split('/')\<close> with the accumulator \<open>canonical\<close>.\<close>

fun canonicalize_loop :: "string list \<Rightarrow> string \<Rightarrow> path_violation_kind + string" where
  "canonicalize_loop [] canonical = Inr canonical"
| "canonicalize_loop (component # rest) canonical =
     (case component_violation component of
        Some k \<Rightarrow> Inl k
      | None \<Rightarrow> canonicalize_loop rest
          ((if canonical = [] then [] else canonical @ ''/'') @ component))"

text \<open>Exactly one trailing separator is the directory marker.\<close>

definition strip_directory_marker :: "string \<Rightarrow> path_violation_kind + string" where
  "strip_directory_marker raw =
     (case strip_suffix raw ''/'' of
        Some rest \<Rightarrow> if ends_with rest ''/'' then Inl PV_EmptyComponent else Inr rest
      | None \<Rightarrow> Inr raw)"

definition path_new :: "string \<Rightarrow> path_violation + normalized_workspace_path" where
  "path_new raw =
     (let refuse = (\<lambda>k. Inl \<lparr>pv_kind = k, pv_value = raw\<rparr>) in
      if raw = [] then refuse PV_Empty
      else if length raw > MAX_NORMALIZED_WORKSPACE_PATH_BYTES then refuse PV_TooLong
      else if has_control_char raw then refuse PV_ControlCharacter
      else if starts_with raw ''/'' then refuse PV_Absolute
      else if CHR 0x5C \<in> set raw then refuse PV_AlternateSeparator
      else if CHR '':'' \<in> set raw then refuse PV_RootedPrefix
      else (case bind_result (strip_directory_marker raw)
                   (\<lambda>body. canonicalize_loop (split_on CHR ''/'' body) []) of
              Inl k \<Rightarrow> refuse k
            | Inr canonical \<Rightarrow>
                if canonical = [] then refuse PV_Empty
                else Inr (NormalizedWorkspacePath canonical)))"

section \<open>Comparison\<close>

definition components :: "normalized_workspace_path \<Rightarrow> string list" where
  "components p = split_on CHR ''/'' (as_str p)"

definition cmp_key :: "bool \<Rightarrow> normalized_workspace_path \<Rightarrow> string" where
  "cmp_key windows p = (if windows then map to_ascii_lowercase (as_str p) else as_str p)"

definition byte_at :: "string \<Rightarrow> nat \<Rightarrow> char option" where
  "byte_at s i = (if i < length s then Some (s ! i) else None)"

definition covers :: "bool \<Rightarrow> normalized_workspace_path \<Rightarrow> normalized_workspace_path \<Rightarrow> bool" where
  "covers windows self other =
     (let a = cmp_key windows self; b = cmp_key windows other
      in if a = b then True
         else starts_with b a \<and> byte_at b (length a) = Some CHR ''/'')"

definition path_overlaps_nwp ::
    "bool \<Rightarrow> normalized_workspace_path \<Rightarrow> normalized_workspace_path \<Rightarrow> bool" where
  "path_overlaps_nwp windows self other \<longleftrightarrow> covers windows self other \<or> covers windows other self"

section \<open>Containment is the prefix order on components\<close>

definition boundary_covers :: "string \<Rightarrow> string \<Rightarrow> bool" where
  "boundary_covers a b \<longleftrightarrow> a = b \<or> (starts_with b a \<and> byte_at b (length a) = Some CHR ''/'')"

lemma boundary_covers_iff: "boundary_covers a b \<longleftrightarrow> a = b \<or> (\<exists>r. b = a @ CHR ''/'' # r)"
proof -
  have "starts_with b a \<and> byte_at b (length a) = Some CHR ''/'' \<longleftrightarrow> (\<exists>r. b = a @ CHR ''/'' # r)"
    (is "?l \<longleftrightarrow> ?r")
  proof
    assume ?l
    then obtain t where t: "b = a @ t" by (auto simp: starts_with_iff)
    with \<open>?l\<close> have "t \<noteq> [] \<and> hd t = CHR ''/''"
      by (cases t) (auto simp: byte_at_def split: if_splits)
    with t show ?r by (metis list.collapse)
  next
    assume ?r
    then show ?l by (auto simp: byte_at_def starts_with_iff)
  qed
  then show ?thesis by (simp add: boundary_covers_def)
qed

lemma boundary_covers_prefix:
  "boundary_covers a b \<longleftrightarrow> prefix (split_on CHR ''/'' a) (split_on CHR ''/'' b)"
proof
  assume "boundary_covers a b"
  then show "prefix (split_on CHR ''/'' a) (split_on CHR ''/'' b)"
    by (auto simp: boundary_covers_iff split_on_append)
next
  let ?S = "split_on CHR ''/''"
  assume "prefix (?S a) (?S b)"
  then obtain zs where zs: "?S b = ?S a @ zs" by (auto simp: prefix_def)
  show "boundary_covers a b"
  proof (cases zs)
    case Nil
    with zs have "b = a" by (metis append_Nil2 split_on_inj)
    then show ?thesis by (simp add: boundary_covers_def)
  next
    case (Cons y ys)
    let ?r = "join_with CHR ''/'' zs"
    have "\<And>p. p \<in> set zs \<Longrightarrow> CHR ''/'' \<notin> set p"
      by (metis UnCI set_append split_on_no_sep zs)
    then have "?S ?r = zs" using Cons by (intro split_join) auto
    then have "?S (a @ CHR ''/'' # ?r) = ?S b" by (simp add: split_on_append zs)
    then have "b = a @ CHR ''/'' # ?r" by (metis split_on_inj)
    then show ?thesis by (auto simp: boundary_covers_iff)
  qed
qed

lemma to_ascii_lowercase_slash: "to_ascii_lowercase c = CHR ''/'' \<longleftrightarrow> c = CHR ''/''"
proof -
  have "byte_of (to_ascii_lowercase c) = byte_of CHR ''/'' \<longleftrightarrow> byte_of c = byte_of CHR ''/''"
    by (simp add: to_ascii_lowercase_def byte_of_def)
  then show ?thesis by (simp only: byte_of_inj)
qed

lemma split_on_map_lower:
  "split_on CHR ''/'' (map to_ascii_lowercase s) =
   map (map to_ascii_lowercase) (split_on CHR ''/'' s)"
  by (induction s) (auto simp: to_ascii_lowercase_slash split: list.splits)

text \<open>The comparison key of the components.\<close>

definition key_components :: "bool \<Rightarrow> normalized_workspace_path \<Rightarrow> string list" where
  "key_components windows p =
     (if windows then map (map to_ascii_lowercase) (components p) else components p)"

lemma split_cmp_key: "split_on CHR ''/'' (cmp_key windows p) = key_components windows p"
  by (simp add: cmp_key_def key_components_def components_def split_on_map_lower)

lemma covers_boundary: "covers windows p q \<longleftrightarrow> boundary_covers (cmp_key windows p) (cmp_key windows q)"
  by (auto simp: covers_def boundary_covers_def Let_def)

lemma covers_key_prefix: "covers windows p q \<longleftrightarrow> prefix (key_components windows p) (key_components windows q)"
  by (simp add: covers_boundary boundary_covers_prefix split_cmp_key)

interpretation wspath: cover_order "covers windows" "path_overlaps_nwp windows" for windows
proof unfold_locales
  fix a b c
  show "covers windows a a" by (simp add: covers_key_prefix)
  show "covers windows a b \<Longrightarrow> covers windows b c \<Longrightarrow> covers windows a c"
    using prefix_order.trans by (auto simp: covers_key_prefix)
  show "covers windows a c \<Longrightarrow> covers windows b c \<Longrightarrow> covers windows a b \<or> covers windows b a"
    by (auto simp: covers_key_prefix dest: prefix_same_cases)
  show "path_overlaps_nwp windows a b \<longleftrightarrow> covers windows a b \<or> covers windows b a"
    by (simp add: path_overlaps_nwp_def)
qed

section \<open>Canonicalization\<close>

lemma canonicalize_loop_ok:
  "canonicalize_loop cs acc = Inr out \<longleftrightarrow>
   list_all (\<lambda>c. component_violation c = None) cs \<and>
   out = (if acc = [] then join_with CHR ''/'' cs
          else if cs = [] then acc else acc @ CHR ''/'' # join_with CHR ''/'' cs)"
proof (induction cs arbitrary: acc)
  case Nil
  then show ?case by auto
next
  case (Cons c cs)
  show ?case
  proof (cases "component_violation c")
    case None
    then have "c \<noteq> []" by (auto simp: component_violation_def)
    with None Cons.IH show ?thesis
      by (cases cs) (auto simp: join_with_Cons)
  qed simp
qed

lemma component_violation_None_nonempty: "component_violation c = None \<Longrightarrow> c \<noteq> []"
  by (auto simp: component_violation_def)

text \<open>The body whose components are checked: the text less one trailing separator.\<close>

definition path_body :: "string \<Rightarrow> string" where
  "path_body raw = (case strip_suffix raw ''/'' of Some rest \<Rightarrow> rest | None \<Rightarrow> raw)"

definition path_text_ok :: "string \<Rightarrow> bool" where
  "path_text_ok raw \<longleftrightarrow> raw \<noteq> [] \<and> length raw \<le> MAX_NORMALIZED_WORKSPACE_PATH_BYTES \<and>
     \<not> has_control_char raw \<and> \<not> starts_with raw ''/'' \<and> CHR 0x5C \<notin> set raw \<and> CHR '':'' \<notin> set raw"

definition components_ok :: "string \<Rightarrow> bool" where
  "components_ok body \<longleftrightarrow>
     list_all (\<lambda>c. component_violation c = None) (split_on CHR ''/'' body)"

lemma components_ok_no_trailing: "components_ok s \<Longrightarrow> \<not> ends_with s ''/''"
proof
  assume "components_ok s" and "ends_with s ''/''"
  then have "[] \<in> set (split_on CHR ''/'' s)"
    by (auto simp: ends_with_iff split_on_append)
  with \<open>components_ok s\<close> show False
    by (auto simp: components_ok_def list_all_iff dest: component_violation_None_nonempty)
qed

lemma components_ok_nonempty: "components_ok s \<Longrightarrow> s \<noteq> []"
  by (auto simp: components_ok_def dest: component_violation_None_nonempty)

lemma strip_directory_marker_ok:
  "strip_directory_marker raw = Inr body \<and> components_ok body \<longleftrightarrow>
   body = path_body raw \<and> components_ok body"
  by (auto simp: strip_directory_marker_def path_body_def split: option.splits
      dest: components_ok_no_trailing)

lemma path_new_ok_iff:
  "path_new raw = Inr p \<longleftrightarrow>
   path_text_ok raw \<and> components_ok (path_body raw) \<and> p = NormalizedWorkspacePath (path_body raw)"
proof -
  have "(case bind_result (strip_directory_marker raw)
               (\<lambda>body. canonicalize_loop (split_on CHR ''/'' body) []) of
           Inl k \<Rightarrow> Inl \<lparr>pv_kind = k, pv_value = raw\<rparr>
         | Inr canonical \<Rightarrow> if canonical = [] then Inl \<lparr>pv_kind = PV_Empty, pv_value = raw\<rparr>
             else Inr (NormalizedWorkspacePath canonical)) = Inr p
    \<longleftrightarrow> (\<exists>body. (strip_directory_marker raw = Inr body \<and> components_ok body) \<and> body \<noteq> [] \<and>
            p = NormalizedWorkspacePath body)" (is "?run \<longleftrightarrow> _")
    by (auto simp: case_refuse_eq_Inr canonicalize_loop_ok components_ok_def split: if_splits)
  also have "\<dots> \<longleftrightarrow> components_ok (path_body raw) \<and> p = NormalizedWorkspacePath (path_body raw)"
    by (auto simp: strip_directory_marker_ok dest: components_ok_nonempty)
  finally show ?thesis
    by (auto simp: path_new_def path_text_ok_def Let_def not_less)
qed

lemma has_control_char_append: "has_control_char s \<Longrightarrow> has_control_char (s @ t)"
proof (induction s rule: has_control_char.induct)
  case (2 c)
  then show ?case by (cases t) auto
qed auto

lemma path_text_ok_body:
  assumes "path_text_ok raw" and "components_ok (path_body raw)"
  shows "path_text_ok (path_body raw)"
proof (cases "strip_suffix raw ''/''")
  case None
  with assms show ?thesis by (simp add: path_body_def)
next
  case (Some rest)
  then have raw: "raw = rest @ ''/''" and body: "path_body raw = rest"
    by (auto simp: path_body_def)
  have "rest \<noteq> []" using assms(2) components_ok_nonempty body by simp
  moreover from this have "starts_with rest ''/'' \<Longrightarrow> starts_with raw ''/''"
    using raw by (auto simp: starts_with_iff)
  ultimately show ?thesis
    using assms(1) has_control_char_append [of rest "''/''"]
    unfolding body by (auto simp: path_text_ok_def raw)
qed

lemma path_body_canonical: "components_ok s \<Longrightarrow> path_body s = s"
  by (auto simp: path_body_def strip_suffix_None split: option.splits
      dest!: components_ok_no_trailing) (auto simp: ends_with_iff)

lemma path_new_idempotent: "path_new raw = Inr p \<Longrightarrow> path_new (as_str p) = Inr p"
  by (auto simp: path_new_ok_iff path_body_canonical intro: path_text_ok_body)

section \<open>What canonical paths guarantee\<close>

text \<open>
  C10. A path that the constructor accepts is a relative path below the workspace in canonical form:
  it is not empty, within the length bound, without a backslash or a colon, no component is empty,
  a dot or a double dot, and constructing it again gives the same path. The text accepted is that
  path or that path with one trailing separator.
\<close>

theorem path_new_canonical:
  assumes "path_new raw = Inr p"
  shows "path_new (as_str p) = Inr p \<and> (raw = as_str p \<or> raw = as_str p @ ''/'') \<and>
    length (as_str p) \<le> MAX_NORMALIZED_WORKSPACE_PATH_BYTES \<and>
    CHR 0x5C \<notin> set (as_str p) \<and> CHR '':'' \<notin> set (as_str p) \<and>
    set (components p) \<inter> {[], ''.'', ''..''} = {}"
proof -
  have ok: "path_text_ok raw" "components_ok (path_body raw)" "as_str p = path_body raw"
    using assms by (auto simp: path_new_ok_iff)
  have "c \<notin> {[], ''.'', ''..''}" if "c \<in> set (components p)" for c
    using ok(2,3) that by (auto simp: components_def components_ok_def list_all_iff component_violation_def)
  moreover have "raw = as_str p \<or> raw = as_str p @ ''/''"
    unfolding ok(3) by (auto simp: path_body_def split: option.splits)
  ultimately show ?thesis
    using path_new_idempotent [OF assms] path_text_ok_body [OF ok(1,2)] ok(3) by (auto simp: path_text_ok_def)
qed

theorem path_new_canonical_witness:
  "path_new ''src/a.rs'' = Inr (NormalizedWorkspacePath ''src/a.rs'')"
proof -
  have "path_new ''src/a.rs/'' = Inr (NormalizedWorkspacePath ''src/a.rs'')" by code_simp
  from path_new_canonical [OF this] show ?thesis by simp
qed

text \<open>
  Containment is decided on component boundaries: one path covers another exactly when its
  components are a prefix of the components of the other (compared without ASCII case on Windows),
  although the code compares bytes. Two paths overlap exactly when some path lies below both.
\<close>

theorem covers_is_component_prefix:
  "(covers windows p q \<longleftrightarrow> prefix (key_components windows p) (key_components windows q)) \<and>
   (path_overlaps_nwp windows p q \<longleftrightarrow> (\<exists>w. covers windows p w \<and> covers windows q w))"
  using covers_key_prefix wspath.overlaps_common by blast

end
