(* ===== verification/Ownership.thy ===== *)
theory Ownership
  imports Workspace_Path
begin

text \<open>
  Write ownership of one work item (\<open>OwnershipSpec\<close>) and the change-scope budget of a task
  (\<open>ChangeBudget\<close>), both of \<open>crates/core/src/state.rs\<close>. A violation carries the offending field
  and value as in the code; its prose message is not modelled.

  The main results: two path specs that do not overlap never grant authority over a common path,
  a spec whose paths cannot be canonicalized overlaps every other path spec (it fails closed), and
  a spec that validates has canonical, pairwise disjoint paths.
\<close>

section \<open>Ownership specs\<close>

datatype ownership_spec =
    NoWrites
  | Paths "string list"
  | IsolatedWorktree
  | SemanticEntities string string "string list"

definition MAX_OWNERSHIP_SPEC_ENTRIES :: nat where
  "MAX_OWNERSHIP_SPEC_ENTRIES = 64"

definition MAX_OWNERSHIP_SPEC_ENTRY_CHARS :: nat where
  "MAX_OWNERSHIP_SPEC_ENTRY_CHARS = 256"

record ownership_violation =
  ov_what :: string
  ov_value :: string

definition allows_writes :: "ownership_spec \<Rightarrow> bool" where
  "allows_writes spec \<longleftrightarrow> spec \<noteq> NoWrites"

fun exclusive_paths :: "ownership_spec \<Rightarrow> string list option" where
  "exclusive_paths (Paths paths) = Some paths"
| "exclusive_paths _ = None"

fun normalize_all ::
    "string list \<Rightarrow> normalized_workspace_path list \<times> ownership_violation list" where
  "normalize_all [] = ([], [])"
| "normalize_all (p # ps) =
     (case normalize_all ps of (out, errs) \<Rightarrow>
        (case path_new p of
           Inr normalized \<Rightarrow> (normalized # out, errs)
         | Inl v \<Rightarrow> (out, \<lparr>ov_what = ''paths'', ov_value = p\<rparr> # errs)))"

definition normalized_paths ::
    "ownership_spec \<Rightarrow> ownership_violation list + normalized_workspace_path list" where
  "normalized_paths spec =
     (case spec of
        Paths paths \<Rightarrow>
          (case normalize_all paths of (out, errs) \<Rightarrow> if errs = [] then Inr out else Inl errs)
      | _ \<Rightarrow> Inr [])"

text \<open>
  \<open>c.is_control() || c.is_whitespace() || !c.is_ascii()\<close> for some character: every character
  beyond ASCII is refused, so the test is the same on bytes.
\<close>

definition sane_byte :: "char \<Rightarrow> bool" where
  "sane_byte c \<longleftrightarrow> \<not> is_ascii_control c \<and> \<not> (9 \<le> byte_of c \<and> byte_of c \<le> 13)
     \<and> byte_of c \<noteq> 32 \<and> byte_of c < 128"

definition sane :: "string \<Rightarrow> bool" where
  "sane s \<longleftrightarrow> s \<noteq> [] \<and> char_count s \<le> MAX_OWNERSHIP_SPEC_ENTRY_CHARS \<and> list_all sane_byte s"

definition sane_id :: "string \<Rightarrow> bool" where
  "sane_id s \<longleftrightarrow> sane s \<and> CHR ''/'' \<notin> set s \<and> CHR 0x5C \<notin> set s \<and> list_all is_ascii_graphic s"

definition p_display :: "string \<Rightarrow> string \<Rightarrow> string" where
  "p_display a b = a @ '' vs '' @ b"

text \<open>The double loop over \<open>i < j\<close>, in its order.\<close>

fun overlap_violations ::
    "bool \<Rightarrow> (normalized_workspace_path \<times> string) list \<Rightarrow> ownership_violation list" where
  "overlap_violations windows [] = []"
| "overlap_violations windows ((n, p) # rest) =
     map (\<lambda>(_, q). \<lparr>ov_what = ''paths'', ov_value = p_display p q\<rparr>)
         (filter (\<lambda>(m, _). path_overlaps_nwp windows n m) rest)
     @ overlap_violations windows rest"

fun entity_violations :: "string list \<Rightarrow> string list \<Rightarrow> ownership_violation list" where
  "entity_violations seen [] = []"
| "entity_violations seen (e # es) =
     (if sane e then [] else [\<lparr>ov_what = ''entities'', ov_value = e\<rparr>])
     @ (if e \<in> set seen then [\<lparr>ov_what = ''entities'', ov_value = e\<rparr>] else [])
     @ entity_violations (e # seen) es"

definition paths_violations :: "bool \<Rightarrow> string list \<Rightarrow> ownership_violation list" where
  "paths_violations windows paths =
     (if paths = [] then [\<lparr>ov_what = ''paths'', ov_value = []\<rparr>] else [])
     @ (if length paths > MAX_OWNERSHIP_SPEC_ENTRIES
        then [\<lparr>ov_what = ''paths'', ov_value = []\<rparr>] else [])
     @ map (\<lambda>p. \<lparr>ov_what = ''paths'', ov_value = p\<rparr>) (filter (\<lambda>p. \<not> sane p) paths)
     @ (case normalized_paths (Paths paths) of
          Inr normalized \<Rightarrow> overlap_violations windows (zip normalized paths)
        | Inl violations \<Rightarrow> violations)"

definition semantic_violations :: "string \<Rightarrow> string \<Rightarrow> string list \<Rightarrow> ownership_violation list" where
  "semantic_violations provider_id snapshot_id entities =
     (if sane_id provider_id then [] else [\<lparr>ov_what = ''provider_id'', ov_value = provider_id\<rparr>])
     @ (if sane_id snapshot_id then []
        else [\<lparr>ov_what = ''snapshot_id'', ov_value = snapshot_id\<rparr>])
     @ (if entities = [] then [\<lparr>ov_what = ''entities'', ov_value = []\<rparr>] else [])
     @ (if length entities > MAX_OWNERSHIP_SPEC_ENTRIES
        then [\<lparr>ov_what = ''entities'', ov_value = []\<rparr>] else [])
     @ entity_violations [] entities"

definition ownership_validate :: "bool \<Rightarrow> ownership_spec \<Rightarrow> ownership_violation list + unit" where
  "ownership_validate windows spec =
     (let errs = (case spec of
                    NoWrites \<Rightarrow> []
                  | Paths paths \<Rightarrow> paths_violations windows paths
                  | IsolatedWorktree \<Rightarrow> []
                  | SemanticEntities provider_id snapshot_id entities \<Rightarrow>
                      semantic_violations provider_id snapshot_id entities)
      in if errs = [] then Inr () else Inl errs)"

fun ownership_overlaps :: "bool \<Rightarrow> ownership_spec \<Rightarrow> ownership_spec \<Rightarrow> bool" where
  "ownership_overlaps windows NoWrites other = False"
| "ownership_overlaps windows self NoWrites = False"
| "ownership_overlaps windows IsolatedWorktree other = False"
| "ownership_overlaps windows self IsolatedWorktree = False"
| "ownership_overlaps windows (Paths ps) (Paths qs) =
     (case (normalized_paths (Paths ps), normalized_paths (Paths qs)) of
        (Inr a, Inr b) \<Rightarrow> list_ex (\<lambda>p. list_ex (\<lambda>q. path_overlaps_nwp windows p q) b) a
      | _ \<Rightarrow> True)"
| "ownership_overlaps windows (SemanticEntities pa sa ea) (Paths qs) = False"
| "ownership_overlaps windows (Paths ps) (SemanticEntities pb sb eb) = False"
| "ownership_overlaps windows (SemanticEntities pa sa ea) (SemanticEntities pb sb eb) =
     (pa = pb \<and> sa = sb \<and> list_ex (\<lambda>e. list_ex (\<lambda>f. f = e) eb) ea)"

section \<open>What a spec grants\<close>

text \<open>
  The specification of a path spec: the canonical paths it may write, those its entries cover.
\<close>

definition owned_path :: "bool \<Rightarrow> ownership_spec \<Rightarrow> normalized_workspace_path \<Rightarrow> bool" where
  "owned_path windows spec w \<longleftrightarrow>
     (\<exists>ps. spec = Paths ps \<and> (\<exists>ns. normalized_paths spec = Inr ns \<and> (\<exists>n \<in> set ns. covers windows n w)))"

lemma normalize_all_ok:
  "normalize_all ps = (out, []) \<longleftrightarrow> map Inr out = map path_new ps"
proof (induction ps arbitrary: out)
  case (Cons p ps)
  then show ?case
    by (cases out; cases "path_new p"; cases "normalize_all ps") auto
qed auto

lemma normalized_paths_ok:
  "normalized_paths (Paths ps) = Inr ns \<longleftrightarrow> map Inr ns = map path_new ps"
  by (cases "normalize_all ps") (auto simp: normalized_paths_def normalize_all_ok [symmetric])

lemma normalized_paths_length: "normalized_paths (Paths ps) = Inr ns \<Longrightarrow> length ns = length ps"
  by (metis length_map normalized_paths_ok)

lemma normalized_paths_refused:
  "(\<exists>es. normalized_paths (Paths ps) = Inl es) \<longleftrightarrow> (\<exists>p \<in> set ps. \<not> is_ok (path_new p))"
proof (induction ps)
  case (Cons p ps)
  then show ?case
    by (cases "path_new p"; cases "normalize_all ps") (auto simp: normalized_paths_def)
qed (simp add: normalized_paths_def)

lemma normalize_all_values: "v \<in> set (snd (normalize_all ps)) \<Longrightarrow> ov_value v \<in> set ps"
  by (induction ps) (auto split: prod.splits sum.splits)

lemma overlap_violations_Nil:
  "length ns = length ps \<Longrightarrow>
   overlap_violations windows (zip ns ps) = [] \<longleftrightarrow>
   sorted_wrt (\<lambda>n m. \<not> path_overlaps_nwp windows n m) ns"
proof (induction ns ps rule: list_induct2)
  case (Cons n ns p ps)
  have "filter (\<lambda>(m, _). path_overlaps_nwp windows n m) (zip ns ps) = []
        \<longleftrightarrow> (\<forall>m \<in> set ns. \<not> path_overlaps_nwp windows n m)"
    using Cons.hyps by (fastforce simp: filter_empty_conv in_set_conv_nth)
  with Cons.IH show ?case by auto
qed simp

lemma entity_violations_Nil:
  "entity_violations seen es = [] \<longleftrightarrow> list_all sane es \<and> distinct es \<and> set es \<inter> set seen = {}"
  by (induction es arbitrary: seen) auto

lemma ownership_validate_ok_iff:
  "ownership_validate windows (Paths ps) = Inr () \<longleftrightarrow>
   ps \<noteq> [] \<and> length ps \<le> MAX_OWNERSHIP_SPEC_ENTRIES \<and> list_all sane ps \<and>
   (\<exists>ns. normalized_paths (Paths ps) = Inr ns \<and>
         sorted_wrt (\<lambda>n m. \<not> path_overlaps_nwp windows n m) ns)"
proof (cases "normalized_paths (Paths ps)")
  case (Inl es)
  then have "es \<noteq> []"
    by (auto simp: normalized_paths_def split: prod.splits if_splits)
  with Inl show ?thesis by (simp add: ownership_validate_def paths_violations_def)
next
  case (Inr ns)
  then show ?thesis
    using overlap_violations_Nil [OF normalized_paths_length [OF Inr]]
    by (auto simp: ownership_validate_def paths_violations_def filter_empty_conv list_all_iff)
qed

lemma list_ex_swap: "list_ex (\<lambda>p. list_ex (Q p) b) a \<longleftrightarrow> list_ex (\<lambda>q. list_ex (\<lambda>p. Q p q) a) b"
  by (auto simp: list_ex_iff)

lemma ownership_overlaps_sym: "ownership_overlaps windows a b = ownership_overlaps windows b a"
proof -
  have "path_overlaps_nwp windows = (\<lambda>p q. path_overlaps_nwp windows q p)"
    by (intro ext) (rule wspath.overlaps_sym)
  then show ?thesis
    by (cases a; cases b) (auto simp: list_ex_iff split: sum.splits, metis+)
qed

section \<open>The change-scope budget\<close>

record change_budget =
  allowed_paths :: "string list"
  allowed_semantic_entities :: "string list"
  allow_public_surface_increase :: bool
  allow_security_risk_increase :: bool
  allow_unsafe_increase :: bool
  allow_new_external_effects :: bool
  allow_contract_weakening :: bool
  max_blast_radius :: "nat option"

function drop_dot_slash :: "string \<Rightarrow> string" where
  "drop_dot_slash s = (if starts_with s ''./'' then drop_dot_slash (drop 2 s) else s)"
  by pat_completeness auto
termination
  by (relation "measure length") (auto simp: starts_with_iff)

declare drop_dot_slash.simps [simp del]

definition trim_trailing :: "char \<Rightarrow> string \<Rightarrow> string" where
  "trim_trailing c s = rev (dropWhile (\<lambda>d. d = c) (rev s))"

definition norm_budget_path :: "string \<Rightarrow> string" where
  "norm_budget_path p =
     (let s = map (\<lambda>c. if c = CHR 0x5C then CHR ''/'' else c) p
      in trim_trailing CHR ''/'' (drop_dot_slash s))"

definition allows_path :: "change_budget \<Rightarrow> string \<Rightarrow> bool" where
  "allows_path self path0 =
     (if allowed_paths self = [] then True
      else (let path = norm_budget_path path0
            in list_ex (\<lambda>allowed0. let allowed = norm_budget_path allowed0
                 in allowed \<noteq> [] \<and>
                    (path = allowed \<or>
                     (starts_with path allowed \<and> byte_at path (length allowed) = Some CHR ''/'')))
               (allowed_paths self)))"

definition allows_semantic_entity :: "change_budget \<Rightarrow> string \<Rightarrow> bool" where
  "allows_semantic_entity self entity \<longleftrightarrow>
     allowed_semantic_entities self = [] \<or>
     list_ex (\<lambda>e. e = entity) (allowed_semantic_entities self)"

lemma drop_dot_slash_final: "\<not> starts_with (drop_dot_slash s) ''./''"
proof (induction s rule: drop_dot_slash.induct)
  case (1 s)
  then show ?case by (subst drop_dot_slash.simps) auto
qed

lemma drop_dot_slash_set: "set (drop_dot_slash s) \<subseteq> set s"
proof (induction s rule: drop_dot_slash.induct)
  case (1 s)
  then show ?case by (subst drop_dot_slash.simps) (auto dest: in_set_dropD)
qed

lemma trim_trailing_prefix: "prefix (trim_trailing c s) s"
proof -
  have "rev s = takeWhile (\<lambda>d. d = c) (rev s) @ dropWhile (\<lambda>d. d = c) (rev s)" by simp
  then have "s = rev (dropWhile (\<lambda>d. d = c) (rev s)) @ rev (takeWhile (\<lambda>d. d = c) (rev s))"
    by (metis rev_append rev_rev_ident)
  then show ?thesis unfolding trim_trailing_def prefix_def by blast
qed

lemma trim_trailing_final: "trim_trailing c s \<noteq> [] \<Longrightarrow> last (trim_trailing c s) \<noteq> c"
  using hd_dropWhile [of "\<lambda>d. d = c" "rev s"] by (simp add: trim_trailing_def last_rev)

lemma trim_trailing_id: "s = [] \<or> last s \<noteq> c \<Longrightarrow> trim_trailing c s = s"
  by (cases s rule: rev_cases) (auto simp: trim_trailing_def)

lemma norm_budget_path_shape:
  "\<not> starts_with (norm_budget_path p) ''./'' \<and> CHR 0x5C \<notin> set (norm_budget_path p) \<and>
   (norm_budget_path p = [] \<or> last (norm_budget_path p) \<noteq> CHR ''/'')"
proof -
  let ?s = "map (\<lambda>c. if c = CHR 0x5C then CHR ''/'' else c) p"
  have pre: "prefix (norm_budget_path p) (drop_dot_slash ?s)"
    by (simp add: norm_budget_path_def trim_trailing_prefix)
  have "\<not> starts_with (norm_budget_path p) ''./''"
    using pre drop_dot_slash_final [of ?s] by (auto simp: starts_with_iff prefix_def)
  moreover have "CHR 0x5C \<notin> set ?s" by auto
  then have "CHR 0x5C \<notin> set (norm_budget_path p)"
    using drop_dot_slash_set [of ?s] set_mono_prefix [OF pre] by blast
  moreover have "norm_budget_path p = [] \<or> last (norm_budget_path p) \<noteq> CHR ''/''"
    unfolding norm_budget_path_def Let_def using trim_trailing_final by blast
  ultimately show ?thesis by blast
qed

lemma norm_budget_path_idem: "norm_budget_path (norm_budget_path p) = norm_budget_path p"
proof -
  let ?n = "norm_budget_path p"
  have "map (\<lambda>c. if c = CHR 0x5C then CHR ''/'' else c) ?n = ?n"
    using norm_budget_path_shape [of p] by (intro map_idI) auto
  then show ?thesis
    using norm_budget_path_shape [of p]
    by (simp add: norm_budget_path_def [of ?n] drop_dot_slash.simps [of ?n] trim_trailing_id)
qed

lemma allows_path_iff:
  "allows_path b path \<longleftrightarrow> allowed_paths b = [] \<or>
   (\<exists>a \<in> set (allowed_paths b). norm_budget_path a \<noteq> [] \<and>
      prefix (split_on CHR ''/'' (norm_budget_path a)) (split_on CHR ''/'' (norm_budget_path path)))"
  unfolding allows_path_def Let_def list_ex_iff boundary_covers_prefix [symmetric] boundary_covers_def
  by auto

section \<open>What ownership guarantees\<close>

text \<open>
  Write authority is exclusive: when two ownership specs do not overlap, no canonical path is
  writable under both of them.
\<close>

theorem disjoint_specs_share_no_path:
  assumes "\<not> ownership_overlaps windows a b" and "owned_path windows a w"
  shows "\<not> owned_path windows b w"
proof
  assume "owned_path windows b w"
  then obtain qs ms m where b: "b = Paths qs" "normalized_paths (Paths qs) = Inr ms" "m \<in> set ms" "covers windows m w"
    by (auto simp: owned_path_def)
  obtain ps ns n where a: "a = Paths ps" "normalized_paths (Paths ps) = Inr ns" "n \<in> set ns" "covers windows n w"
    using assms(2) by (auto simp: owned_path_def)
  have "path_overlaps_nwp windows n m" using wspath.overlaps_common a(4) b(4) by blast
  with assms(1) a b show False by (auto simp: list_ex_iff)
qed

theorem disjoint_specs_share_no_path_witness:
  "\<not> owned_path False (Paths [''src/ab'']) (NormalizedWorkspacePath ''src/a/x.rs'')"
proof (rule disjoint_specs_share_no_path [of _ "Paths [''src/a'']"])
  show "\<not> ownership_overlaps False (Paths [''src/a'']) (Paths [''src/ab''])" by code_simp
  have "normalized_paths (Paths [''src/a'']) = Inr [NormalizedWorkspacePath ''src/a'']" by code_simp
  moreover have "covers False (NormalizedWorkspacePath ''src/a'') (NormalizedWorkspacePath ''src/a/x.rs'')" by code_simp
  ultimately show "owned_path False (Paths [''src/a'']) (NormalizedWorkspacePath ''src/a/x.rs'')"
    by (simp add: owned_path_def)
qed

text \<open>
  The overlap test of specs is symmetric and fails closed: a path spec with an entry that cannot
  be canonicalized overlaps every path spec; and a path spec passes validation exactly when it has
  between one and 64 sane entries that canonicalize to pairwise disjoint paths.
\<close>

theorem ownership_fails_closed:
  "ownership_overlaps windows a b = ownership_overlaps windows b a \<and>
   (list_all (\<lambda>p. is_ok (path_new p)) ps \<or> ownership_overlaps windows (Paths ps) (Paths qs)) \<and>
   (ownership_validate windows (Paths ps) = Inr () \<longleftrightarrow>
     ps \<noteq> [] \<and> length ps \<le> MAX_OWNERSHIP_SPEC_ENTRIES \<and> list_all sane ps \<and>
     (\<exists>ns. map path_new ps = map Inr ns \<and> sorted_wrt (\<lambda>n m. \<not> path_overlaps_nwp windows n m) ns))"
proof (intro conjI)
  show "ownership_overlaps windows a b = ownership_overlaps windows b a" by (rule ownership_overlaps_sym)
  show "list_all (\<lambda>p. is_ok (path_new p)) ps \<or> ownership_overlaps windows (Paths ps) (Paths qs)"
    using normalized_paths_refused [of ps] by (auto simp: list_all_iff split: sum.splits)
  show "ownership_validate windows (Paths ps) = Inr () \<longleftrightarrow>
     ps \<noteq> [] \<and> length ps \<le> MAX_OWNERSHIP_SPEC_ENTRIES \<and> list_all sane ps \<and>
     (\<exists>ns. map path_new ps = map Inr ns \<and> sorted_wrt (\<lambda>n m. \<not> path_overlaps_nwp windows n m) ns)"
    unfolding ownership_validate_ok_iff normalized_paths_ok by metis
qed

text \<open>
  The change budget decides on whole components: a path is allowed exactly when no path
  restriction is set, or the normalized form of some allowed entry is not empty and its components
  are a prefix of the components of the normalized path. Normalization (separators, leading dot
  segments, trailing separators) is idempotent.
\<close>

theorem change_budget_exact:
  "(allows_path b path \<longleftrightarrow> allowed_paths b = [] \<or>
     (\<exists>a \<in> set (allowed_paths b). norm_budget_path a \<noteq> [] \<and>
        prefix (split_on CHR ''/'' (norm_budget_path a)) (split_on CHR ''/'' (norm_budget_path path)))) \<and>
   norm_budget_path (norm_budget_path path) = norm_budget_path path"
  using allows_path_iff norm_budget_path_idem by blast

end
