(* ===== verification/Spec2Isabelle.thy ===== *)
theory Spec2Isabelle
  imports Sourcing_Theorems Worker_Theorems Planning_Theorems Scheduler_Theorems Execute_Loop Cancellation_Tokens Child_Vocabulary Criterion_Binding Ownership
    Exact_Money Session_Machines
begin

text \<open>
  A verification library for the core of Faktor, a durable agent runtime written in Rust. The
  modelled code is the pure core crate (\<^verbatim>\<open>crates/core\<close>), the task scheduler
  (\<^verbatim>\<open>crates/scheduler\<close>), the worker plane (\<^verbatim>\<open>crates/worker\<close>), and of the supply domain the money,
  evidence and distribution types (\<^verbatim>\<open>crates/supply-core\<close>) with the planning kernel
  (\<^verbatim>\<open>crates/supply-planning\<close>) and the sourcing kernel (\<^verbatim>\<open>crates/supply-execution\<close>, with the delivery terms of
  \<^verbatim>\<open>crates/supply-logistics\<close>), the approval authority (\<^verbatim>\<open>crates/approval\<close>) and the guard of the security crate
  (\<^verbatim>\<open>crates/security/src/lib.rs\<close>), all under \<^verbatim>\<open>src/\<close>.

  \<^bold>\<open>How the parts fit together.\<close> A session drives an agent through the state machines of
  \<^verbatim>\<open>state.rs\<close>. Its tool calls become operations of a scheduler: a dependency graph whose tasks
  declare the paths they read and write, a resource class with a limited number of permits, a
  deadline, a retry policy and a cancellation token. The scheduler starts a task when its
  dependencies are satisfied, no running task overlaps its paths and a permit is free; the execution
  loop runs it with retries behind the circuit breaker of the resource it calls. Work items and their
  evidence carry ownership specs, change budgets and digests that bind what was agreed to what was
  done. Amounts of money and material are exact integers. Jobs can also run on registered workers: the worker
  plane keeps their registrations, the immutable generations of a job, the leases and the results in a
  store, and repairs what an expired lease, a revoked worker or a crash between two writes left behind; an
  entitlement gate of the core decides whether a worker may claim. The planning kernel explodes demand
  through bills of material and plans orders over a horizon. Agents propose consequential actions and a human
  operator decides them: the approval authority records both in a hash-chained ledger, scans their texts for
  credentials with the scanner of the security crate, and issues the token that a gate such as a change of a safety
  stock demands. The sourcing kernel asks suppliers for quotes, makes their prices comparable and ranks them; whatever
  a supplier sees of it, a purchase order above all, goes through the second such gate, which also wants a grant.

  \<^bold>\<open>The theories.\<close>

  \<^item> \<^verbatim>\<open>Faktor_Prelude\<close>: results, machine-integer bounds (saturation, checked conversion, wrapping),
    string and byte functions of the Rust standard library, and their lemmas. A Rust string is its
    list of UTF-8 bytes.

  \<^item> \<^verbatim>\<open>Faktor_Interfaces\<close>: the locales that several components share: tags with a printer and a parser
    (\<open>tag_codec\<close>, \<open>tag_table\<close>), transition tables with terminal states (\<open>edge_machine\<close>) and validated
    newtypes (\<open>validated\<close>). The interface of a single provider is a locale of its theory: \<open>cover_order\<close>
    for path containment, \<open>lossless_encoding\<close> for the digest stream, \<open>permit_pool\<close> for the gauge, \<open>bounded_cache\<close>
    for the circuit board. Each is interpreted on the model's own definitions.

  \<^item> \<^verbatim>\<open>Session_Machines\<close> (\<^verbatim>\<open>core/src/state.rs\<close>, \<^verbatim>\<open>error.rs\<close>): \<open>AgentState\<close>, \<open>SessionLifecycle\<close>, \<open>TaskState\<close>,
    \<open>TaskTransition\<close> and the \<open>StateMachine\<close> driver. Terminal states are final, the typed transitions are
    the table, and no generic transition completes a task.

  \<^item> \<^verbatim>\<open>Workspace_Path\<close> (\<^verbatim>\<open>core/src/path.rs\<close>): canonical workspace paths. What \<open>new\<close> accepts is canonical and
    stays below the workspace; containment by bytes is containment by components.

  \<^item> \<^verbatim>\<open>Ownership\<close> (\<^verbatim>\<open>core/src/state.rs\<close>): ownership specs and change budgets. Specs that do not overlap
    own no path in common; validation is characterised exactly.

  \<^item> \<^verbatim>\<open>Authority_Digest\<close> (\<^verbatim>\<open>core/src/authority.rs\<close>): the framed field stream and the labelled digest. The
    framing is injective, shown by a reader that is its left inverse. BLAKE3 is a parameter.

  \<^item> \<^verbatim>\<open>Criterion_Binding\<close> (\<^verbatim>\<open>core/src/state.rs\<close>): criterion bindings, environment fingerprints, candidate proof
    references, command digests, the legacy migration and small vocabularies. A digest collision is
    a collision of the hash function on the two streams; the text form of a command is not injective.

  \<^item> \<^verbatim>\<open>Resource_Budgets\<close> (\<^verbatim>\<open>core/src/resource.rs\<close>, \<^verbatim>\<open>time.rs\<close>, \<^verbatim>\<open>retry.rs\<close>, \<^verbatim>\<open>op.rs\<close>): the permit gauge, deadlines, retry
    policies and operation metadata.

  \<^item> \<^verbatim>\<open>Cancellation_Tokens\<close> (\<^verbatim>\<open>core/src/cancellation.rs\<close>): cancellation tokens on an explicit store in which
    attachments are weak references. The worklist of \<open>cancel\<close> ends on every store, cyclic ones
    included, and reaches exactly the attached subtree.

  \<^item> \<^verbatim>\<open>Child_Vocabulary\<close> (\<^verbatim>\<open>core/src/blocker.rs\<close>, \<^verbatim>\<open>completion.rs\<close>): child blockers, execution phases and the
    completion contract with its strict decoder.

  \<^item> \<^verbatim>\<open>Circuit_Breaker\<close> (\<^verbatim>\<open>scheduler/src/lib.rs\<close>): the breaker, the interleavings of concurrent \<open>allow\<close>
    calls as a step relation on their atomic loads and compare-exchanges, and the bounded board with
    least-recently-used eviction.

  \<^item> \<^verbatim>\<open>Scheduler_Graph\<close> (\<^verbatim>\<open>scheduler/src/lib.rs\<close>): the state under the scheduler lock and every operation on
    it: \<open>try_submit\<close>, \<open>terminalize\<close>, \<open>validate\<close>, \<open>rebuild_graph\<close>, \<open>mark\<close>, \<open>settle\<close>, \<open>try_cancel\<close>, \<open>schedule_ready\<close>
    and the decisions of \<open>run_to_completion\<close> when nothing runs.

  \<^item> \<^verbatim>\<open>Scheduler_Runs\<close>, \<^verbatim>\<open>Scheduler_System\<close>, \<^verbatim>\<open>Scheduler_Rebuild\<close>, \<^verbatim>\<open>Scheduler_Safety\<close>: the invariant of the
    scheduler, operation by operation, and the transition system of its locked operations with the
    leases and permits that are outstanding. \<open>sched_step\<close> is the step relation, \<open>sched_reach\<close> its
    reachable states.

  \<^item> \<^verbatim>\<open>Scheduler_Dag\<close>: the depth-first search of \<open>validate\<close> accepts exactly the bounded, closed and acyclic
    graphs.

  \<^item> \<^verbatim>\<open>Scheduler_Theorems\<close>: what the scheduler guarantees, with runs that evaluate.

  \<^item> \<^verbatim>\<open>Execute_Loop\<close> (\<^verbatim>\<open>scheduler/src/lib.rs\<close>): \<open>execute\<close> and \<open>execute_inner\<close>.

  \<^item> \<^verbatim>\<open>Exact_Money\<close> (\<^verbatim>\<open>supply-core/src/money.rs\<close>): money, rates, scaled quantities and units with checked
    128- and 64-bit arithmetic, parsing and printing, rounding division and integer square roots.

  \<^item> \<^verbatim>\<open>Supply_Basis\<close> (\<^verbatim>\<open>supply-core/src/basis.rs\<close>, \<^verbatim>\<open>distribution.rs\<close>): evidence, provenance, typed unknowns, terms and
    quantile distributions with their validators.

  \<^item> \<^verbatim>\<open>Planning_Model\<close>, \<^verbatim>\<open>Planning_Bom\<close>, \<^verbatim>\<open>Planning_Orders\<close> (\<^verbatim>\<open>supply-planning/src/lib.rs\<close>): the planning input and its
    validation, the topological order and the explosion of demand, and \<open>plan\<close> with netting, lot sizes,
    last-time buys, allocation and classification. \<^verbatim>\<open>Planning_Explosion\<close>, \<^verbatim>\<open>Planning_Allocation\<close> and
    \<^verbatim>\<open>Planning_Theorems\<close>: the order exists exactly for acyclic bills, the explosion is the solution of the
    demand equations, allocation is exact, netting keeps the safety stock, and no run panics unless its horizon ends beyond the days of 64 bits.

  \<^item> \<^verbatim>\<open>Stateful_Actions\<close>: operations that read and write a state and may be refused half way, the rules
    for a relation between the states before and after them (the locale \<open>step_preorder\<close>), and the ordered
    map of the standard library (the locale \<open>keyed_table\<close>).

  \<^item> \<^verbatim>\<open>Value_Gate\<close> (\<^verbatim>\<open>core/src/entitlement.rs\<close>): entitlements, enforcement hooks, refusals and the gate.

  \<^item> \<^verbatim>\<open>Worker_Model\<close> (\<^verbatim>\<open>worker/src/ids.rs\<close>, \<^verbatim>\<open>error.rs\<close>, \<^verbatim>\<open>model.rs\<close>), \<^verbatim>\<open>Worker_Store\<close> (\<^verbatim>\<open>store.rs\<close>, the in-memory store),
    \<^verbatim>\<open>Worker_Plane\<close> and \<^verbatim>\<open>Worker_Sweeps\<close> (\<^verbatim>\<open>service.rs\<close>): identities and rows, every operation of the store as one step,
    and every operation of the service as a sequence of store calls, the walks over the journal included.

  \<^item> \<^verbatim>\<open>Worker_Life\<close>, \<^verbatim>\<open>Worker_Invariant\<close>, \<^verbatim>\<open>Worker_Moves\<close>: the life of a job in the store as a transition system
    (\<open>life_step\<close>, with \<open>repair_step\<close> for the writes of a repair) and its invariant \<open>life_ok\<close>. \<^verbatim>\<open>Worker_Refinement\<close>: every
    operation of the service, stopped before any of its writes, is a run of that system (\<open>service_step\<close>,
    \<open>service_reach\<close>). \<^verbatim>\<open>Worker_Recovery\<close>: what a completed recovery leaves behind. \<^verbatim>\<open>Worker_Theorems\<close>: the
    properties, with runs that evaluate.

  \<^item> \<^verbatim>\<open>Secret_Scanner\<close> (\<^verbatim>\<open>security/src/lib.rs\<close>): provenance and instruction authority, the two pattern compilers, the
    backtracking matcher, scanning, redaction and the capability order. \<^verbatim>\<open>Secret_Matching\<close>: the language of a
    pattern and what the matcher decides about it; \<^verbatim>\<open>Secret_Scanning\<close>: the strict compiler against the permissive one,
    the spans and the shape of a redaction; \<^verbatim>\<open>Secret_Theorems\<close>: the scan reports exactly the texts in which a pattern
    occurs when no alternation member is a prefix of another, the compiled policy agrees with the plain one, and the
    two inputs on which a secret is missed or left in part.

  \<^item> \<^verbatim>\<open>Approval_Model\<close> (\<^verbatim>\<open>approval/src/model.rs\<close>), \<^verbatim>\<open>Approval_Store\<close> (\<^verbatim>\<open>store.rs\<close>, \<^verbatim>\<open>operator.rs\<close>), \<^verbatim>\<open>Approval_Authority\<close>
    (\<^verbatim>\<open>authority.rs\<close>): requests, decisions and tokens; the data directory with ledger, head, anchors and registry; every
    operation of the authority as an action on the directory. \<^verbatim>\<open>Approval_Ledger\<close>, \<^verbatim>\<open>Approval_Runs\<close> and \<^verbatim>\<open>Approval_Book\<close>:
    replay and its invariant \<open>ledger_wf\<close>, sequences of calls (\<open>approval_step\<close>, \<open>approval_reach\<close>) and the abstract book of
    requests and decisions (\<open>book_step\<close>) they refine. \<^verbatim>\<open>Approval_Trust\<close>: what a token rests on and the chain of digests.
    \<^verbatim>\<open>Approval_Recovery\<close>: the states an interrupted append leaves, which of them the next writer reconciles and which not.
    \<^verbatim>\<open>Approval_Sample\<close>, \<^verbatim>\<open>Approval_Theorems\<close>: a sample directory and the properties.

  \<^item> \<^verbatim>\<open>Policy_Gate\<close> (\<^verbatim>\<open>supply-planning/src/lib.rs\<close>): the gate of a safety-stock change, where planning meets the
    authority: no change goes through without a signed approval of that very change. Its locale \<open>approval_gate\<close> is the
    contract of a gate: it lets an action through only on a token for the check the action demands.

  \<^item> \<^verbatim>\<open>Sourcing_Model\<close> (\<^verbatim>\<open>supply-execution/src/lib.rs\<close>, \<^verbatim>\<open>supply-logistics/src/lib.rs\<close>): delivery terms and who pays which
    leg, requests for quotation, quotes and their inconsistencies. \<^verbatim>\<open>Sourcing_Bids\<close>: the comparable cost of a quote, the
    ranking, the terms side by side and the negotiation scaffold. \<^verbatim>\<open>Sourcing_Costs\<close> and \<^verbatim>\<open>Sourcing_Ranking\<close>: sums, the buyer's legs, the cost of a bid, which a missing amount leaves undefined,
    the value of payment terms, blocking issues, and the loop of the ranking. \<^verbatim>\<open>Sourcing_Gate\<close>: the gate of the actions a
    counterparty sees, with the contract that says when it opens; it interprets \<open>approval_gate\<close>. \<^verbatim>\<open>Sourcing_Sample\<close> and
    \<^verbatim>\<open>Sourcing_Theorems\<close>: two quotes, and the properties: the cost of a usable bid to the micro-unit, the ranking and its
    best bid, the walk-away price, the row of the quoted term, and that an authorized action has a grant and a signed
    approval of exactly this action.

  \<^item> This theory: a standalone execution, seen from the dependency graph, is a sequence of permit
    steps of the scheduler system.

  \<^bold>\<open>State and errors.\<close> A struct is a record and an enum a datatype with the constructors of the
  source. A \<open>Result\<close> is a sum with the error on the left. A panic (an \<open>unwrap\<close> or an index that can fail)
  is \<^term>\<open>None\<close> of an option around the result, or the value \<open>Panic\<close> of a fault type in the planning kernel, so
  that absence of panics is a theorem. The division, the unsigned subtractions and the day arithmetic
  that the planning kernel does not check panic as in a build with overflow checks; a build without them agrees
  whenever the model does not panic. The unchecked \<open>i128\<close> arithmetic of the money kernel wraps, as in a release
  build. An operation of the worker plane returns the store it left with its result or refusal; the number of writes the
  process survives is part of the state, and a write after the last one is the fault \<open>Crashed\<close>. The approval
  directory carries the environment of a call in the same way: the number of writes that take effect before the file
  system fails, whether a failing append tears its line, and whether the lock is held elsewhere. A hash map whose
  iteration order matters is an association list, and the theorems hold for every order. Error
  messages that no decision reads are left out; error kinds are kept.

  \<^bold>\<open>Bounds and fuel.\<close> The search \<open>visit_dag\<close> recurses with fuel one more than the number of tasks;
  the depth of the search never exceeds the number of tasks that are being visited, and the
  validation theorem shows that the fuel never runs out. The execution loop consumes one
  observation per attempt; a list as long as the number of attempts the policy allows is enough. The
  blocking loop of \<open>terminalize\<close>, the scan of the ready queue, the cancellation worklist and the
  bisection of the square root have termination proofs. So have the loops of the worker plane that read
  workers or the journal page by page: the search for a worker by the workers left, a claim by the jobs it may
  still look at, and a recovery, which appends to the journal it walks, by the jobs it has not seen.

  \<^bold>\<open>Parameters.\<close> The hash function BLAKE3, the volume folding of paths on Windows and macOS
  (built on an external Unicode crate), the floating-point jitter of the retry policy, clock readings,
  results of the runs and outcomes of the timed waits are arguments, as are the minted identifiers, the hash of
  a registration token and the authority behind the entitlement gate. The record \<open>crypto\<close> holds what the approval
  authority takes from elsewhere: BLAKE3, the JSON of the values it hashes, Ed25519 and the Unicode lower-case table. Four
  properties are assumed of the parameters, where a theorem says so: a BLAKE3 digest has 32 bytes, the hash does not
  collide on the entries of two ledgers, the jitter is at most its base, and a minted identifier is never minted
  again. Each is satisfied by the instance a witness uses.

  \<^bold>\<open>What is not modelled.\<close> The timers, wakers and condition variables inside the waits; standalone
  execution of an id that is registered in the graph (it is refused when the task is terminal, and is
  otherwise not a step of the system); concurrency between \<open>record_failure\<close> and \<open>allow\<close>, whose two
  stores are one step here; the SQLite twin of the worker store, concurrent calls of the worker service (its
  operations run one after the other, though each may stop at any write), and the worker process; in the approval
  directory the lock files, directory syncs and the files of operator seeds, and two calls at the same time (the
  lock excludes it for those that write); the streaming payload scanner, the secret registry and the network
  destinations of the security crate; serde, JSON schema and display glue; and all crates that are I/O around
  stores, providers, protocols, terminals and external services. Of the logistics kernel only the
  delivery terms are modelled. Next in order: the supply graph and the decision record, duty and tariff classification, the payment
  state machines, the storage quotas, and the task-completion gate of the session crate.
\<close>

section \<open>Standalone executions and the dependency graph\<close>

lemma mark_unregistered: "get_task g oid = None \<Longrightarrow> mark oid status err now g = g"
proof -
  assume "get_task g oid = None"
  then have "oid \<notin> fst ` set (tasks g)" by (simp add: get_task_def map_of_eq_None_iff)
  then have "map (upd_at oid f) (tasks g) = tasks g" for f
    by (intro map_idI) (auto simp: upd_at_def prod_eq_iff intro: rev_image_eqI)
  then show ?thesis by (simp add: mark_def upd_task_def)
qed

text \<open>The permit events of one execution take turns: a release when it is held, a reacquisition when not.\<close>

fun alternates :: "bool \<Rightarrow> exec_event list \<Rightarrow> bool" where
  "alternates armed [] = True"
| "alternates armed (Ev_Release # evs) = (armed \<and> alternates False evs)"
| "alternates armed (Ev_Reacquire # evs) = (\<not> armed \<and> alternates True evs)"
| "alternates armed (Ev_Mark status err # evs) = alternates armed evs"

lemma alternates_retries: "alternates True (retries n @ evs) = alternates True evs"
proof (induction n)
  case (Suc n)
  have "retries (Suc n) = Ev_Release # Ev_Reacquire # retries n" by (simp add: retries_def)
  with Suc show ?case by simp
qed (simp add: retries_def)

lemma protocol_alternates:
  assumes "exec_protocol out n"
  shows "alternates True (eo_events out)"
proof -
  obtain status err where "eo_events out = retries n @ [Ev_Mark status err] \<or>
      eo_events out = retries n @ [Ev_Release, Ev_Mark status err]"
    using assms unfolding exec_protocol_def by blast
  then show ?thesis by (elim disjE) (simp_all add: alternates_retries)
qed

text \<open>
  The state of the scheduler system while a standalone execution runs: \<open>armed\<close> says whether it holds
  its permit.
\<close>

definition during :: "sched_system \<Rightarrow> resource_class \<Rightarrow> bool \<Rightarrow> sched_inner \<Rightarrow> sched_system" where
  "during s c armed g = s\<lparr>sys_inner := g, sys_permits := (if armed then c # sys_permits s else sys_permits s)\<rparr>"

lemma during_simps [simp]:
  "sys_inner (during s c armed g) = g"
  "sys_permits (during s c armed g) = (if armed then c # sys_permits s else sys_permits s)"
  "(during s c armed g)\<lparr>sys_inner := g', sys_permits := ps\<rparr> = s\<lparr>sys_inner := g', sys_permits := ps\<rparr>"
  by (simp_all add: during_def)

lemma during_acquire:
  assumes "sched_reach norm limits (during s c False g)" and "try_acquire c limits (gauge g) = Inr ga"
  shows "sched_reach norm limits (during s c True (g\<lparr>gauge := ga\<rparr>))"
  using sched_reach.step [OF assms(1) sched_step.exec_acquire [of c limits _ ga]] assms(2)
  by (simp add: during_def)

lemma during_release:
  assumes "sched_reach norm limits (during s c True g)" and "gauge_release c (gauge g) = Some ga"
  shows "sched_reach norm limits (during s c False (g\<lparr>gauge := ga\<rparr>))"
  using sched_reach.step [OF assms(1) sched_step.exec_release [of c _ ga]] assms(2)
  by (simp add: during_def)

lemma apply_events_reach:
  assumes "apply_events limits oid c now evs (g, armed) = Some (g', armed')" and "alternates armed evs"
    and "get_task g oid = None" and "sched_reach norm limits (during s c armed g)"
  shows "sched_reach norm limits (during s c armed' g') \<and> g' = g\<lparr>gauge := gauge g'\<rparr>"
  using assms
proof (induction evs arbitrary: g armed)
  case (Cons ev evs)
  show ?case
  proof (cases ev)
    case Ev_Release
    with Cons.prems obtain ga where "gauge_release c (gauge g) = Some ga" "armed"
      "apply_events limits oid c now evs (g\<lparr>gauge := ga\<rparr>, False) = Some (g', armed')"
      by (auto simp: bind_eq_Some_conv)
    with Cons.IH [of "g\<lparr>gauge := ga\<rparr>" False] Cons.prems Ev_Release show ?thesis
      by (auto dest: during_release)
  next
    case Ev_Reacquire
    with Cons.prems obtain ga where "try_acquire c limits (gauge g) = Inr ga" "\<not> armed"
      "apply_events limits oid c now evs (g\<lparr>gauge := ga\<rparr>, True) = Some (g', armed')"
      by (auto simp: bind_eq_Some_conv split: sum.splits)
    with Cons.IH [of "g\<lparr>gauge := ga\<rparr>" True] Cons.prems Ev_Reacquire show ?thesis
      by (auto dest: during_acquire)
  next
    case (Ev_Mark status err)
    with Cons show ?thesis by (simp add: mark_unregistered)
  qed
qed simp

lemma gauge_only_trans:
  "h = g\<lparr>gauge := gauge h\<rparr> \<Longrightarrow> k = h\<lparr>gauge := gauge k\<rparr> \<Longrightarrow> k = g\<lparr>gauge := gauge k\<rparr>"
  for g h k :: sched_inner
  by (cases g; cases h; cases k) simp

lemma permit_finish_reach:
  assumes "permit_finish c (g, armed) = Some g'" and "sched_reach norm limits (during s c armed g)"
  shows "sched_reach norm limits (during s c False g') \<and> g' = g\<lparr>gauge := gauge g'\<rparr>"
  using assms by (cases armed) (auto simp: permit_finish_def dest: during_release)

text \<open>
  C15. A standalone execution of an operation that is not registered in the graph refines the steps of
  the scheduler: from every reachable state it returns, within the retry budget, and leaves a
  reachable state. It changes nothing but the permit gauge, and every permit it took is given back,
  whether it was refused, succeeded, failed, timed out or was cancelled in a retry wait.
\<close>

theorem standalone_execute_refines:
  assumes "sched_reach norm limits s" and "get_task (sys_inner s) oid = None"
    and "rp_max_attempts policy \<le> u32_max" and "max 1 (rp_max_attempts policy) \<le> length es"
  shows "\<exists>res g' board'.
    execute limits op_text oid c policy deadline resource now es (sys_inner s, board) = Some (res, g', board') \<and>
    sched_reach norm limits (s\<lparr>sys_inner := g'\<rparr>) \<and> g' = (sys_inner s)\<lparr>gauge := gauge g'\<rparr> \<and>
    gauge_usage (gauge g') = gauge_usage (gauge (sys_inner s))"
proof -
  obtain res g' board' where ex:
      "execute limits op_text oid c policy deadline resource now es (sys_inner s, board) = Some (res, g', board')"
      "gauge_usage (gauge g') = gauge_usage (gauge (sys_inner s))"
    using execute_permit_returned [OF assms(3,4)] by blast
  have idle: "during s c False (sys_inner s) = s" by (simp add: during_def)
  have "sched_reach norm limits (s\<lparr>sys_inner := g'\<rparr>) \<and> g' = (sys_inner s)\<lparr>gauge := gauge g'\<rparr>"
  proof (cases "execute_admission limits op_text oid c (sys_inner s)")
    case (Inl err)
    then have "g' = sys_inner s" using ex(1) by (simp add: execute_def)
    then show ?thesis using assms(1) by simp
  next
    case (Inr g1)
    then obtain ga where g1: "try_acquire c limits (gauge (sys_inner s)) = Inr ga" "g1 = (sys_inner s)\<lparr>gauge := ga\<rparr>"
      by (auto simp: execute_admission_def split: if_splits sum.splits)
    then have r1: "sched_reach norm limits (during s c True g1)" "get_task g1 oid = None"
      using during_acquire [of norm limits s c "sys_inner s" ga] assms(1,2) idle by simp_all
    obtain b board1 where b: "board_breaker resource board = (b, board1)" by (cases "board_breaker resource board")
    obtain out n where out: "execute_inner op_text policy deadline es (exec_start (Some b)) = Some out" "exec_protocol out n"
      using execute_loop_ends [OF assms(3,4)] by blast
    obtain g2 armed where ap: "apply_events limits oid c now (eo_events out) (g1, True) = Some (g2, armed)"
      and fin: "permit_finish c (g2, armed) = Some g'"
      using ex(1) Inr b out(1) by (auto simp: execute_def bind_eq_Some_conv)
    note r2 = apply_events_reach [OF ap protocol_alternates [OF out(2)] r1(2,1)]
    note r3 = permit_finish_reach [OF fin conjunct1 [OF r2]]
    have "g1 = (sys_inner s)\<lparr>gauge := gauge g1\<rparr>" by (simp add: g1(2))
    note frame = gauge_only_trans [OF gauge_only_trans [OF this conjunct2 [OF r2]] conjunct2 [OF r3]]
    have "during s c False g' = s\<lparr>sys_inner := g'\<rparr>" by (simp add: during_def)
    with conjunct1 [OF r3] have "sched_reach norm limits (s\<lparr>sys_inner := g'\<rparr>)" by simp
    from this frame show ?thesis ..
  qed
  with ex show ?thesis by blast
qed

theorem standalone_execute_refines_witness:
  "\<exists>res g' board'.
    execute default_limits ''x'' 99 Class_Network two_tries 100 (Key_Tool ''t'') 9 fail_then_ok
      (sys_inner (sample_run two_running), board_new) = Some (res, g', board') \<and>
    sched_reach id default_limits ((sample_run two_running)\<lparr>sys_inner := g'\<rparr>) \<and>
    g' = (sys_inner (sample_run two_running))\<lparr>gauge := gauge g'\<rparr> \<and>
    gauge_usage (gauge g') = gauge_usage (gauge (sys_inner (sample_run two_running)))"
proof (rule standalone_execute_refines [OF sample_reach [OF two_running_runs]])
  show "get_task (sys_inner (sample_run two_running)) 99 = None" by code_simp
qed (simp_all add: two_tries_def fail_then_ok_def width_simps)

end
